(* ===== verification/Hc_Prelude.thy ===== *)
theory Hc_Prelude
  imports Main "HOL-Library.Word" "HOL-Library.Multiset"
begin

text \<open>
  Shared vocabulary of the development: the fixed-width integer types of
  \<^verbatim>\<open>src/hc/core/hc/hc.h\<close>, byte strings, little-endian values, reads and writes of a flat
  memory, and the lemma collections the component theories rewrite with.

  A C array or a region behind a pointer is a list of bytes (or of words); \<open>p + n\<close> on such a
  pointer is \<^term>\<open>drop n p\<close>. Where the code depends on two pointers into the same object
  (overlapping copies, in-place encoding), the object is one list and the pointers are offsets
  into it. All targets of the repository are little-endian, so a \<open>memcpy\<close> of an integer object is
  its little-endian byte string.
\<close>

unbundle bit_operations_syntax

type_synonym u8 = "8 word"
type_synonym u16 = "16 word"
type_synonym u32 = "32 word"
type_synonym u64 = "64 word"
type_synonym u128 = "128 word"
type_synonym bytes = "8 word list"

named_theorems mem_simps \<open>reads and writes of the flat memory\<close>
named_theorems unat_simps \<open>natural-number readings of word operations\<close>
named_theorems le_simps \<open>little-endian values and byte strings\<close>

section \<open>C string literals\<close>

definition chr :: "char \<Rightarrow> u8" where
  "chr c = word_of_nat (of_char c)"

definition bytes_of :: "string \<Rightarrow> bytes" where
  "bytes_of s = map chr s"

lemma length_bytes_of [simp]: "length (bytes_of s) = length s"
  by (simp add: bytes_of_def)

lemma chr_inj: "chr a = chr b \<Longrightarrow> a = b"
proof -
  assume "chr a = chr b"
  then have "unat (chr a) = unat (chr b)" by simp
  then have "take_bit 8 (of_char a :: nat) = take_bit 8 (of_char b)"
    by (simp add: chr_def unat_of_nat take_bit_eq_mod)
  then show "a = b"
    by (metis char_of_take_bit_eq char_of_char less_eq_nat.simps(1) order_refl)
qed

section \<open>Flat memory\<close>

definition mem_get :: "'a list \<Rightarrow> nat \<Rightarrow> nat \<Rightarrow> 'a list" where
  "mem_get m i n = take n (drop i m)"

definition mem_put :: "'a list \<Rightarrow> nat \<Rightarrow> 'a list \<Rightarrow> 'a list" where
  "mem_put m i bs = take i m @ bs @ drop (i + length bs) m"

lemma length_mem_get [simp, mem_simps]: "i + n \<le> length m \<Longrightarrow> length (mem_get m i n) = n"
  by (simp add: mem_get_def)

lemma length_mem_put [simp, mem_simps]:
  "i + length bs \<le> length m \<Longrightarrow> length (mem_put m i bs) = length m"
  by (simp add: mem_put_def)

lemma nth_mem_get [mem_simps]: "i + n \<le> length m \<Longrightarrow> j < n \<Longrightarrow> mem_get m i n ! j = m ! (i + j)"
  by (simp add: mem_get_def)

lemma nth_mem_put [mem_simps]:
  assumes "i + length bs \<le> length m" "j < length m"
  shows "mem_put m i bs ! j = (if i \<le> j \<and> j < i + length bs then bs ! (j - i) else m ! j)"
  using assms by (auto simp: mem_put_def nth_append min_def)

lemma mem_get_all [simp]: "mem_get m 0 (length m) = m"
  by (simp add: mem_get_def)

lemma mem_put_get_same [simp]:
  assumes "i + n \<le> length m"
  shows "mem_put m i (mem_get m i n) = m"
  using assms by (intro nth_equalityI) (auto simp: mem_simps)

lemma mem_get_put_same [simp]:
  assumes "i + length bs \<le> length m"
  shows "mem_get (mem_put m i bs) i (length bs) = bs"
  using assms by (intro nth_equalityI) (auto simp: mem_simps)

lemma mem_get_put_disjoint:
  assumes "i + length bs \<le> length m" "j + n \<le> length m" "j + n \<le> i \<or> i + length bs \<le> j"
  shows "mem_get (mem_put m i bs) j n = mem_get m j n"
  using assms by (intro nth_equalityI) (auto simp: mem_simps)

lemma mem_put_append:
  assumes "i + length xs + length ys \<le> length m"
  shows "mem_put (mem_put m i xs) (i + length xs) ys = mem_put m i (xs @ ys)"
  using assms by (intro nth_equalityI) (auto simp: mem_simps nth_append)

lemma mem_put_prepend:
  assumes "i + length xs + length ys \<le> length m"
  shows "mem_put (mem_put m (i + length xs) ys) i xs = mem_put m i (xs @ ys)"
  using assms by (intro nth_equalityI) (auto simp: mem_simps nth_append)

lemma mem_put_Nil [simp]: "mem_put m i [] = m"
  by (simp add: mem_put_def)

lemma mem_get_0 [simp]: "mem_get m i 0 = []"
  by (simp add: mem_get_def)

lemma mem_get_append:
  "mem_get m i (n + k) = mem_get m i n @ mem_get m (i + n) k"
  by (simp add: mem_get_def take_add add.commute [of i])

section \<open>Little-endian values\<close>

fun le_nat :: "bytes \<Rightarrow> nat" where
  "le_nat [] = 0"
| "le_nat (b # bs) = unat b + 256 * le_nat bs"

fun le_bytes :: "nat \<Rightarrow> nat \<Rightarrow> bytes" where
  "le_bytes 0 x = []"
| "le_bytes (Suc n) x = word_of_nat x # le_bytes n (x div 256)"

lemma length_le_bytes [simp]: "length (le_bytes n x) = n"
  by (induction n arbitrary: x) auto

lemma le_nat_append [le_simps]: "le_nat (xs @ ys) = le_nat xs + 256 ^ length xs * le_nat ys"
  by (induction xs) (auto simp: algebra_simps)

lemma unat_lt_256: "unat (b :: u8) < 256"
  using unsigned_less [of b] by simp

lemma le_nat_bound: "le_nat xs < 256 ^ length xs"
proof (induction xs)
  case Nil
  show ?case by simp
next
  case (Cons b bs)
  have "unat b + 256 * le_nat bs < 256 * (1 + le_nat bs)"
    using unat_lt_256 [of b] by simp
  also have "\<dots> \<le> 256 * 256 ^ length bs"
    using Cons.IH by (intro mult_le_mono) auto
  finally show ?case by simp
qed

lemma le_nat_le_bytes [le_simps]: "le_nat (le_bytes n x) = x mod 256 ^ n"
proof (induction n arbitrary: x)
  case 0
  show ?case by simp
next
  case (Suc n)
  have "unat (word_of_nat x :: u8) = x mod 256" by (simp add: unat_of_nat)
  with Suc.IH [of "x div 256"] show ?case
    by (simp add: mod_mult2_eq add.commute)
qed

lemma le_bytes_le_nat [simp]: "le_bytes (length xs) (le_nat xs) = xs"
proof (induction xs)
  case Nil
  show ?case by simp
next
  case (Cons b bs)
  have "(unat b + 256 * le_nat bs) div 256 = le_nat bs"
    using unat_lt_256 [of b] by simp
  moreover have "(word_of_nat (unat b + 256 * le_nat bs) :: u8) = b"
  proof -
    have "unat (word_of_nat (unat b + 256 * le_nat bs) :: u8) = unat b"
      using unat_lt_256 [of b] by (simp only: unat_of_nat) simp
    then show ?thesis by (simp only: word_unat_eq_iff)
  qed
  ultimately show ?case using Cons.IH by (simp del: of_nat_add)
qed

lemma le_nat_inj: "le_nat xs = le_nat ys \<Longrightarrow> length xs = length ys \<Longrightarrow> xs = ys"
  by (metis le_bytes_le_nat)

section \<open>Word operations read as natural numbers\<close>

lemma unat_less: "unat x < 2 ^ LENGTH('a)"
  for x :: "'a::len word"
  by (rule unsigned_less)

lemma unat_less_width:
  "unat (x8 :: u8) < 256" "unat (x16 :: u16) < 65536" "unat (x32 :: u32) < 4294967296"
  "unat (x64 :: u64) < 18446744073709551616"
  using unat_less [of x8] unat_less [of x16] unat_less [of x32] unat_less [of x64] by simp_all

lemma power256: "(256::nat) ^ n = 2 ^ (8 * n)"
  by (simp add: power_mult)

lemma unat_and_mask [unat_simps]: "unat (x AND mask n) = unat x mod 2 ^ n"
  for x :: "'a::len word"
  by (simp only: take_bit_eq_mask [symmetric] unsigned_take_bit_eq take_bit_eq_mod [where 'a = nat])

lemma unat_drop_bit [unat_simps]: "unat (drop_bit n x) = unat x div 2 ^ n"
  for x :: "'a::len word"
  by (simp only: unat_drop_bit_eq drop_bit_eq_div [where 'a = nat])

lemma unat_push_bit [unat_simps]: "unat (push_bit n x) = (unat x * 2 ^ n) mod 2 ^ LENGTH('a)"
  for x :: "'a::len word"
  by (simp only: unsigned_push_bit_eq push_bit_eq_mult [where 'a = nat] take_bit_eq_mod [where 'a = nat])

lemma unat_add_nowrap: "unat x + unat y < 2 ^ LENGTH('a) \<Longrightarrow> unat (x + y) = unat x + unat y"
  for x y :: "'a::len word"
  by (simp add: unat_add_lem)

lemma unat_mult_nowrap: "unat x * unat y < 2 ^ LENGTH('a) \<Longrightarrow> unat (x * y) = unat x * unat y"
  for x y :: "'a::len word"
  by (simp add: unat_mult_lem)

lemma unat_ucast: "unat (ucast x :: 'b::len word) = unat x mod 2 ^ LENGTH('b)"
  for x :: "'a::len word"
  by (simp add: unsigned_ucast_eq take_bit_eq_mod)

lemma unat_ucast_up:
  "LENGTH('a) \<le> LENGTH('b) \<Longrightarrow> unat (ucast x :: 'b::len word) = unat x"
  for x :: "'a::len word"
proof -
  assume "LENGTH('a) \<le> LENGTH('b)"
  then have "(2::nat) ^ LENGTH('a) \<le> 2 ^ LENGTH('b)" by simp
  with unat_less [of x] have "unat x < 2 ^ LENGTH('b)" by linarith
  then show ?thesis by (simp add: unat_ucast)
qed

lemma ucast_up_eq_0_iff: "LENGTH('a) \<le> LENGTH('b) \<Longrightarrow> (ucast x :: 'b::len word) = 0 \<longleftrightarrow> x = 0"
  for x :: "'a::len word"
  by (simp only: word_unat_eq_iff unat_ucast_up unat_0)

lemma or_eq_add: "x AND y = 0 \<Longrightarrow> x OR y = x + y"
  for x y :: "'a::len word"
  by (simp add: disjunctive_add_eq_or)

lemma unat_eqI: "unat x = unat y \<Longrightarrow> x = y"
  for x y :: "'a::len word"
  by (simp only: word_unat_eq_iff)

lemma word_of_nat_unat [simp]: "word_of_nat (unat x) = x"
  for x :: "'a::len word"
  by (rule unat_eqI) (simp only: unat_of_nat mod_less unat_less)

lemma unat_minus_1_u64: "unat (- 1 :: u64) = 18446744073709551615"
  by (simp only: unsigned_minus_1_eq_mask mask_eq_exp_minus_1) simp

lemma not_bit_unat_less: "unat y < 2 ^ k \<Longrightarrow> k \<le> n \<Longrightarrow> \<not> bit y n"
  for y :: "'a::len word"
proof -
  assume "unat y < 2 ^ k" "k \<le> n"
  then have "unat y < 2 ^ n" by (meson less_le_trans power_increasing one_le_numeral)
  then have "\<not> bit (unat y) n" by (simp add: bit_iff_odd)
  then show ?thesis by (auto simp: bit_unsigned_iff dest: bit_imp_le_length)
qed

lemma push_bit_or: "unat y < 2 ^ k \<Longrightarrow> push_bit k x OR y = push_bit k x + y"
  for x y :: "'a::len word"
proof -
  assume "unat y < 2 ^ k"
  then have "push_bit k x AND y = 0"
    by (intro bit_eqI) (auto simp: bit_simps dest: not_bit_unat_less)
  then show ?thesis by (rule or_eq_add)
qed

lemma unat_push_or:
  fixes x y :: "'a::len word"
  assumes "unat y < 2 ^ k" "unat x * 2 ^ k + unat y < 2 ^ LENGTH('a)"
  shows "unat (push_bit k x OR y) = unat x * 2 ^ k + unat y"
proof -
  have "unat (push_bit k x) = unat x * 2 ^ k"
    using assms(2) by (simp only: unat_push_bit) simp
  with assms show ?thesis by (simp only: push_bit_or [OF assms(1)]) (subst unat_add_nowrap, simp_all)
qed

section \<open>Small ranges\<close>

lemma upt_4: "[0..<4] = [0, 1, 2, 3::nat]"
  by code_simp

lemma upt_16: "[0..<16] = [0, 1, 2, 3, 4, 5, 6, 7, 8, 9, 10, 11, 12, 13, 14, 15::nat]"
  by code_simp

end
