(* ===== verification/Mem.thy ===== *)
theory Mem
  imports Hc_Prelude
begin

text \<open>
  \<^verbatim>\<open>src/hc/core/hc/mem.c\<close>: byte comparison (early-exit and constant-time) and the unaligned
  little- and big-endian loads and stores. A load takes the bytes from the pointer on; a store
  takes the object and the offset it writes at.
\<close>

section \<open>Comparison\<close>

fun mem_compare :: "bytes \<Rightarrow> bytes \<Rightarrow> nat \<Rightarrow> int" where
  "mem_compare l r n =
     (if n = 0 then 0
      else let diff = uint (hd l) - uint (hd r)
           in if diff \<noteq> 0 then diff else mem_compare (tl l) (tl r) (n - 1))"

declare mem_compare.simps [simp del]

fun mem_compareConstantTime_loop :: "bytes \<Rightarrow> bytes \<Rightarrow> nat list \<Rightarrow> u32 \<Rightarrow> u32" where
  "mem_compareConstantTime_loop l r [] x = x"
| "mem_compareConstantTime_loop l r (i # is) x =
     mem_compareConstantTime_loop l r is (x OR ucast (l ! i XOR r ! i))"

definition mem_compareConstantTime :: "bytes \<Rightarrow> bytes \<Rightarrow> nat \<Rightarrow> u32" where
  "mem_compareConstantTime left right n = mem_compareConstantTime_loop left right [0..<n] 0"

section \<open>Byte order\<close>

definition hc_BSWAP16 :: "u16 \<Rightarrow> u16" where
  "hc_BSWAP16 x = word_of_nat (le_nat (rev (le_bytes 2 (unat x))))"

definition hc_BSWAP32 :: "u32 \<Rightarrow> u32" where
  "hc_BSWAP32 x = word_of_nat (le_nat (rev (le_bytes 4 (unat x))))"

definition hc_BSWAP64 :: "u64 \<Rightarrow> u64" where
  "hc_BSWAP64 x = word_of_nat (le_nat (rev (le_bytes 8 (unat x))))"

definition mem_loadU16 :: "bytes \<Rightarrow> u16" where
  "mem_loadU16 p = word_of_nat (le_nat (take 2 p))"

definition mem_loadU32 :: "bytes \<Rightarrow> u32" where
  "mem_loadU32 p = word_of_nat (le_nat (take 4 p))"

definition mem_loadU64 :: "bytes \<Rightarrow> u64" where
  "mem_loadU64 p = word_of_nat (le_nat (take 8 p))"

definition mem_storeU16 :: "bytes \<Rightarrow> nat \<Rightarrow> u16 \<Rightarrow> bytes" where
  "mem_storeU16 m out x = mem_put m out (le_bytes 2 (unat x))"

definition mem_storeU32 :: "bytes \<Rightarrow> nat \<Rightarrow> u32 \<Rightarrow> bytes" where
  "mem_storeU32 m out x = mem_put m out (le_bytes 4 (unat x))"

definition mem_storeU64 :: "bytes \<Rightarrow> nat \<Rightarrow> u64 \<Rightarrow> bytes" where
  "mem_storeU64 m out x = mem_put m out (le_bytes 8 (unat x))"

definition mem_loadU16BE :: "bytes \<Rightarrow> u16" where
  "mem_loadU16BE p = hc_BSWAP16 (mem_loadU16 p)"

definition mem_loadU32BE :: "bytes \<Rightarrow> u32" where
  "mem_loadU32BE p = hc_BSWAP32 (mem_loadU32 p)"

definition mem_loadU64BE :: "bytes \<Rightarrow> u64" where
  "mem_loadU64BE p = hc_BSWAP64 (mem_loadU64 p)"

definition mem_storeU16BE :: "bytes \<Rightarrow> nat \<Rightarrow> u16 \<Rightarrow> bytes" where
  "mem_storeU16BE m out x = mem_storeU16 m out (hc_BSWAP16 x)"

definition mem_storeU32BE :: "bytes \<Rightarrow> nat \<Rightarrow> u32 \<Rightarrow> bytes" where
  "mem_storeU32BE m out x = mem_storeU32 m out (hc_BSWAP32 x)"

definition mem_storeU64BE :: "bytes \<Rightarrow> nat \<Rightarrow> u64 \<Rightarrow> bytes" where
  "mem_storeU64BE m out x = mem_storeU64 m out (hc_BSWAP64 x)"

section \<open>Lemmas on comparison\<close>

lemma mem_compare_0 [simp]: "mem_compare l r 0 = 0"
  by (simp add: mem_compare.simps)

lemma mem_compare_Cons [simp]:
  "mem_compare (a # l) (b # r) (Suc n) =
     (if a = b then mem_compare l r n else uint a - uint b)"
  by (auto simp: mem_compare.simps [of "a # l"] Let_def word_uint_eq_iff)

lemma mem_compare_refl [simp]: "n \<le> length l \<Longrightarrow> mem_compare l l n = 0"
proof (induction n arbitrary: l)
  case 0
  show ?case by simp
next
  case (Suc n)
  then show ?case by (cases l) auto
qed

lemma mem_compare_eq_0_iff:
  "n \<le> length l \<Longrightarrow> n \<le> length r \<Longrightarrow> mem_compare l r n = 0 \<longleftrightarrow> take n l = take n r"
proof (induction n arbitrary: l r)
  case 0
  show ?case by simp
next
  case (Suc n)
  from Suc.prems obtain a l' b r' where "l = a # l'" "r = b # r'"
    by (cases l; cases r) auto
  with Suc show ?case by (auto simp: word_uint_eq_iff)
qed

lemma mem_compare_first_difference:
  assumes "k < n" "k < length l" "k < length r" "take k l = take k r" "l ! k \<noteq> r ! k"
  shows "mem_compare l r n = uint (l ! k) - uint (r ! k)"
  using assms
proof (induction k arbitrary: l r n)
  case 0
  then obtain a l' b r' m where "l = a # l'" "r = b # r'" "n = Suc m"
    by (cases l; cases r; cases n) auto
  with 0 show ?case by simp
next
  case (Suc k)
  then obtain a l' b r' m where "l = a # l'" "r = b # r'" "n = Suc m"
    by (cases l; cases r; cases n) auto
  with Suc show ?case by simp
qed

lemma compareConstantTime_loop_eq_0:
  "mem_compareConstantTime_loop l r is x = 0 \<longleftrightarrow> x = 0 \<and> (\<forall>i \<in> set is. l ! i = r ! i)"
proof (induction "is" arbitrary: x)
  case Nil
  show ?case by simp
next
  case (Cons i "is")
  have "x OR ucast (l ! i XOR r ! i) = 0 \<longleftrightarrow> x = 0 \<and> l ! i = r ! i"
  proof -
    have "(ucast (l ! i XOR r ! i) :: u32) = 0 \<longleftrightarrow> l ! i XOR r ! i = 0"
      by (rule ucast_up_eq_0_iff) simp
    moreover have "l ! i XOR r ! i = 0 \<longleftrightarrow> l ! i = r ! i"
      by (auto simp: bit_eq_iff bit_xor_iff)
    ultimately show ?thesis by (auto simp: or_eq_0_iff)
  qed
  with Cons.IH show ?case by auto
qed

section \<open>Lemmas on loads and stores\<close>

lemma unat_word_of_le_nat:
  "8 * length bs \<le> LENGTH('a) \<Longrightarrow> unat (word_of_nat (le_nat bs) :: 'a::len word) = le_nat bs"
proof -
  assume len: "8 * length bs \<le> LENGTH('a)"
  have "le_nat bs < 256 ^ length bs" by (rule le_nat_bound)
  also have "\<dots> = 2 ^ (8 * length bs)" by (simp add: power_mult)
  also have "\<dots> \<le> 2 ^ LENGTH('a)" using len by (intro power_increasing) auto
  finally show ?thesis by (simp add: unat_of_nat)
qed

lemma unat_loadU32 [unat_simps]: "unat (mem_loadU32 p) = le_nat (take 4 p)"
  by (simp add: mem_loadU32_def unat_word_of_le_nat)

lemma unat_loadU64 [unat_simps]: "unat (mem_loadU64 p) = le_nat (take 8 p)"
  by (simp add: mem_loadU64_def unat_word_of_le_nat)

lemma bswap_bswap:
  assumes "8 * n = LENGTH('a)"
  shows "word_of_nat (le_nat (rev (le_bytes n (unat (word_of_nat
           (le_nat (rev (le_bytes n (unat x)))) :: 'a word))))) = (x :: 'a::len word)"
proof -
  let ?bs = "rev (le_bytes n (unat x))"
  have "unat (word_of_nat (le_nat ?bs) :: 'a word) = le_nat ?bs"
    using assms by (simp add: unat_word_of_le_nat)
  moreover have "le_bytes n (le_nat ?bs) = ?bs"
    using le_bytes_le_nat [of ?bs] by simp
  moreover have "(256::nat) ^ n = 2 ^ LENGTH('a)"
    using assms by (simp add: power256)
  ultimately show ?thesis
    by (simp add: le_nat_le_bytes)
qed

lemma BSWAP16_involutive [simp]: "hc_BSWAP16 (hc_BSWAP16 x) = x"
  using bswap_bswap [of 2 x] by (simp add: hc_BSWAP16_def)

lemma BSWAP32_involutive [simp]: "hc_BSWAP32 (hc_BSWAP32 x) = x"
  using bswap_bswap [of 4 x] by (simp add: hc_BSWAP32_def)

lemma BSWAP64_involutive [simp]: "hc_BSWAP64 (hc_BSWAP64 x) = x"
  using bswap_bswap [of 8 x] by (simp add: hc_BSWAP64_def)

lemma take_drop_mem_put:
  "i + length bs \<le> length m \<Longrightarrow> take (length bs) (drop i (mem_put m i bs)) = bs"
  using mem_get_put_same [of i bs m] by (simp add: mem_get_def)

lemma loadU16_storeU16: "i + 2 \<le> length m \<Longrightarrow> mem_loadU16 (drop i (mem_storeU16 m i x)) = x"
  using take_drop_mem_put [of i "le_bytes 2 (unat x)" m] unat_less [of x]
  by (simp add: mem_loadU16_def mem_storeU16_def le_nat_le_bytes)

lemma loadU32_storeU32: "i + 4 \<le> length m \<Longrightarrow> mem_loadU32 (drop i (mem_storeU32 m i x)) = x"
  using take_drop_mem_put [of i "le_bytes 4 (unat x)" m] unat_less [of x]
  by (simp add: mem_loadU32_def mem_storeU32_def le_nat_le_bytes)

lemma loadU64_storeU64: "i + 8 \<le> length m \<Longrightarrow> mem_loadU64 (drop i (mem_storeU64 m i x)) = x"
  using take_drop_mem_put [of i "le_bytes 8 (unat x)" m] unat_less [of x]
  by (simp add: mem_loadU64_def mem_storeU64_def le_nat_le_bytes)

lemma length_store [simp]:
  "i + 2 \<le> length m \<Longrightarrow> length (mem_storeU16 m i w) = length m"
  "i + 4 \<le> length m \<Longrightarrow> length (mem_storeU32 m i x) = length m"
  "i + 8 \<le> length m \<Longrightarrow> length (mem_storeU64 m i y) = length m"
  "i + 2 \<le> length m \<Longrightarrow> length (mem_storeU16BE m i w) = length m"
  "i + 4 \<le> length m \<Longrightarrow> length (mem_storeU32BE m i x) = length m"
  "i + 8 \<le> length m \<Longrightarrow> length (mem_storeU64BE m i y) = length m"
  by (simp_all add: mem_storeU16_def mem_storeU32_def mem_storeU64_def
      mem_storeU16BE_def mem_storeU32BE_def mem_storeU64BE_def)

section \<open>Properties\<close>

lemma mem_compare_neg_iff:
  "n \<le> length l \<Longrightarrow> n \<le> length r \<Longrightarrow>
   mem_compare l r n < 0 \<longleftrightarrow> (\<exists>k < n. take k l = take k r \<and> l ! k < r ! k)"
proof (induction n arbitrary: l r)
  case 0
  show ?case by simp
next
  case (Suc n)
  from Suc.prems obtain a l' b r' where lr: "l = a # l'" "r = b # r'"
    by (cases l; cases r) auto
  have IH: "mem_compare l' r' n < 0 \<longleftrightarrow> (\<exists>k < n. take k l' = take k r' \<and> l' ! k < r' ! k)"
    using Suc lr by simp
  show ?case
  proof (cases "a = b")
    case True
    have "(\<exists>k < Suc n. take k l = take k r \<and> l ! k < r ! k) \<longleftrightarrow>
        (\<exists>k < n. take k l' = take k r' \<and> l' ! k < r' ! k)"
      unfolding lr True Ex_less_Suc2 by simp
    with IH True show ?thesis by (simp add: lr)
  next
    case False
    have "(\<exists>k < Suc n. take k l = take k r \<and> l ! k < r ! k) \<longleftrightarrow> a < b"
      using False unfolding lr Ex_less_Suc2 by simp
    with False show ?thesis by (simp add: lr word_less_def)
  qed
qed

text \<open>
  \<open>mem_compare\<close> is zero exactly when the two ranges agree, negative exactly when the left range is
  smaller at the first byte where they differ, and \<open>mem_compareConstantTime\<close>, which never stops
  early, agrees with it on equality.
\<close>

theorem mem_compare_lexicographic:
  assumes "n \<le> length l" "n \<le> length r"
  shows "(mem_compare l r n = 0 \<longleftrightarrow> take n l = take n r) \<and>
         (mem_compare l r n < 0 \<longleftrightarrow> (\<exists>k < n. take k l = take k r \<and> l ! k < r ! k)) \<and>
         (mem_compareConstantTime l r n = 0 \<longleftrightarrow> mem_compare l r n = 0)"
proof -
  have "mem_compareConstantTime l r n = 0 \<longleftrightarrow> (\<forall>i < n. l ! i = r ! i)"
    by (auto simp: mem_compareConstantTime_def compareConstantTime_loop_eq_0)
  also have "\<dots> \<longleftrightarrow> take n l = take n r"
    using assms by (auto simp: list_eq_iff_nth_eq)
  finally show ?thesis
    using assms by (simp add: mem_compare_eq_0_iff mem_compare_neg_iff)
qed

theorem mem_compare_lexicographic_witness:
  "mem_compare [1, 2, 3] [1, 3, 0] 3 < 0 \<and> mem_compareConstantTime [1, 2, 3] [1, 3, 0] 3 \<noteq> 0"
proof -
  have "mem_compare [1, 2, 3] [1, 3, 0] 3 = -1" by (simp add: mem_compare.simps)
  then show ?thesis
    using mem_compare_lexicographic [of 3 "[1, 2, 3]" "[1, 3, 0]"] by simp
qed

text \<open>
  A value stored by any of the little- or big-endian stores is the value the matching load
  reads back at the same address, and the store leaves every byte outside its own range alone.
\<close>

theorem mem_store_load_roundtrip:
  assumes "i + 8 \<le> length m" "j + n \<le> i \<or> i + 8 \<le> j" "j + n \<le> length m"
  shows "mem_loadU64 (drop i (mem_storeU64 m i x)) = x \<and>
         mem_loadU64BE (drop i (mem_storeU64BE m i x)) = x \<and>
         mem_loadU32 (drop i (mem_storeU32 m i y)) = y \<and>
         mem_loadU32BE (drop i (mem_storeU32BE m i y)) = y \<and>
         mem_loadU16 (drop i (mem_storeU16 m i z)) = z \<and>
         mem_loadU16BE (drop i (mem_storeU16BE m i z)) = z \<and>
         mem_get (mem_storeU64BE m i x) j n = mem_get m j n"
proof -
  have "mem_get (mem_storeU64BE m i x) j n = mem_get m j n"
    using assms by (simp add: mem_storeU64BE_def mem_storeU64_def mem_get_put_disjoint)
  with assms(1) show ?thesis
    by (simp add: loadU64_storeU64 loadU32_storeU32 loadU16_storeU16 mem_loadU64BE_def mem_storeU64BE_def
        mem_loadU32BE_def mem_storeU32BE_def mem_loadU16BE_def mem_storeU16BE_def)
qed

theorem mem_store_load_roundtrip_witness:
  "mem_loadU64BE (drop 1 (mem_storeU64BE (replicate 9 0) 1 0x0102030405060708)) = 0x0102030405060708"
  using mem_store_load_roundtrip [of 1 "replicate 9 0" 0 1 "0x0102030405060708" 0 0] by simp

end
