(* ===== verification/CompilerRt.thy ===== *)
theory CompilerRt
  imports Mem
begin

text \<open>
  \<^verbatim>\<open>src/hc/core/hc/compilerRt\<close>: the runtime routines the freestanding build supplies to the
  compiler: \<open>memset\<close>, \<open>memmove\<close> (also \<open>memcpy\<close>, by alias) and the 64x64 to 128 bit product used
  on wasm32. \<open>memset\<close> and \<open>memmove\<close> work on one memory with the pointers as offsets, since the
  direction of the copy depends on their order.
\<close>

section \<open>memset\<close>

fun memset_loop :: "bytes \<Rightarrow> nat \<Rightarrow> u64 \<Rightarrow> nat \<Rightarrow> bytes \<times> nat" where
  "memset_loop m dest expanded n =
     (if n \<ge> 16 then
        let n = n - 16;
            m = mem_put m (dest + n) (le_bytes 8 (unat expanded));
            m = mem_put m (dest + n + 8) (le_bytes 8 (unat expanded))
        in memset_loop m dest expanded n
      else (m, n))"

declare memset_loop.simps [simp del]

definition memset :: "bytes \<Rightarrow> nat \<Rightarrow> u32 \<Rightarrow> nat \<Rightarrow> bytes" where
  "memset m dest c n =
     (let expanded = 0x0101010101010101 * (ucast (c AND 0xFF) :: u64);
          (m, n) = memset_loop m dest expanded n;
          e = le_bytes 8 (unat expanded)
      in if n = 0 then m
         else if n \<ge> 8 then mem_put (mem_put m dest (take 8 e)) (dest + n - 8) (take 8 e)
         else if n \<ge> 4 then mem_put (mem_put m dest (take 4 e)) (dest + n - 4) (take 4 e)
         else if n \<ge> 2 then mem_put (mem_put m dest (take 2 e)) (dest + n - 2) (take 2 e)
         else mem_put m dest [ucast expanded])"

section \<open>memmove\<close>

function memmove_forward :: "bytes \<Rightarrow> nat \<Rightarrow> nat \<Rightarrow> nat \<Rightarrow> nat \<Rightarrow> bytes" where
  "memmove_forward m d s i iEnd =
     (let m = mem_put m (d + i) (mem_get m (s + i) 16);
          i = i + 16
      in if i < iEnd then memmove_forward m d s i iEnd else m)"
  by pat_completeness auto
termination
  by (relation "measure (\<lambda>(m, d, s, i, iEnd). iEnd - i)") auto

function memmove_backward :: "bytes \<Rightarrow> nat \<Rightarrow> nat \<Rightarrow> nat \<Rightarrow> bytes \<times> nat" where
  "memmove_backward m d s n =
     (let n = n - 16;
          m = mem_put m (d + n) (mem_get m (s + n) 16)
      in if n \<ge> 16 then memmove_backward m d s n else (m, n))"
  by pat_completeness auto
termination
  by (relation "measure (\<lambda>(m, d, s, n). n)") auto

declare memmove_forward.simps [simp del] memmove_backward.simps [simp del]

definition memmove_tail :: "bytes \<Rightarrow> nat \<Rightarrow> nat \<Rightarrow> nat \<Rightarrow> nat \<Rightarrow> bytes" where
  "memmove_tail m d s n k =
     (let temp1 = mem_get m s k;
          temp2 = mem_get m (s + n - k) k
      in mem_put (mem_put m d temp1) (d + n - k) temp2)"

definition memmove_rest :: "bytes \<Rightarrow> nat \<Rightarrow> nat \<Rightarrow> nat \<Rightarrow> bytes" where
  "memmove_rest m d s n =
     (if n = 0 then m
      else if n \<ge> 8 then memmove_tail m d s n 8
      else if n \<ge> 4 then memmove_tail m d s n 4
      else if n \<ge> 2 then memmove_tail m d s n 2
      else mem_put m d [m ! s])"

definition memmove :: "bytes \<Rightarrow> nat \<Rightarrow> nat \<Rightarrow> nat \<Rightarrow> bytes" where
  "memmove m d s n =
     (let (m, d, s, n) =
        (if n \<ge> 16 then
           (if d < s then
              (let iEnd = n - n mod 16
               in (memmove_forward m d s 0 iEnd, d + iEnd, s + iEnd, n mod 16))
            else (let (m, n) = memmove_backward m d s n in (m, d, s, n)))
         else (m, d, s, n))
      in memmove_rest m d s n)"

section \<open>mul128\<close>

definition mul128_64x64 :: "u64 \<Rightarrow> u64 \<Rightarrow> u128" where
  "mul128_64x64 a b =
     (let r0 = (a AND 0xFFFFFFFF) * (b AND 0xFFFFFFFF);
          temp = drop_bit 32 r0;
          r0 = r0 AND 0xFFFFFFFF;
          temp = temp + drop_bit 32 a * (b AND 0xFFFFFFFF);
          r0 = r0 + push_bit 32 (temp AND 0xFFFFFFFF);
          r1 = drop_bit 32 temp;
          temp = drop_bit 32 r0;
          r0 = r0 AND 0xFFFFFFFF;
          temp = temp + drop_bit 32 b * (a AND 0xFFFFFFFF);
          r0 = r0 + push_bit 32 (temp AND 0xFFFFFFFF);
          r1 = r1 + drop_bit 32 temp;
          r1 = r1 + drop_bit 32 a * drop_bit 32 b
      in word_cat r1 r0)"

section \<open>Correctness of memset\<close>

lemma mem_put_replicate_adjacent:
  "i + n + k \<le> length m \<Longrightarrow>
   mem_put (mem_put m (i + n) (replicate k b)) i (replicate n b) = mem_put m i (replicate (n + k) b)"
  by (intro nth_equalityI) (auto simp: mem_simps)

lemma mem_put_replicate_overlap:
  assumes "dest + n \<le> length m" "k \<le> n" "n \<le> 2 * k"
  shows "mem_put (mem_put m dest (replicate k b)) (dest + n - k) (replicate k b) =
         mem_put m dest (replicate n b)"
  using assms by (intro nth_equalityI) (auto simp: mem_simps)

lemma expanded_unat:
  "unat (0x0101010101010101 * (ucast (c AND 0xFF) :: u64)) = 0x0101010101010101 * (unat c mod 256)"
  for c :: u32
proof -
  have m: "(0xFF :: u32) = mask 8" by (simp add: mask_eq_exp_minus_1)
  have "unat (ucast (c AND 0xFF) :: u64) = unat c mod 256"
    unfolding m by (simp add: unat_ucast_up unat_simps)
  moreover have "unat (0x0101010101010101 :: u64) = 0x0101010101010101" by simp
  moreover have "0x0101010101010101 * (unat c mod 256) < 2 ^ 64"
    by (rule order.strict_trans1 [of _ "0x0101010101010101 * 255"]) (use mod_less_divisor [of 256 "unat c"] in linarith, simp)
  ultimately show ?thesis
    by (subst unat_mult_nowrap) simp_all
qed

lemma replicate_8: "replicate 8 x = [x, x, x, x, x, x, x, x]"
  by (simp add: numeral_eq_Suc)

lemma expanded_bytes:
  "le_bytes 8 (unat (0x0101010101010101 * (ucast (c AND 0xFF) :: u64))) = replicate 8 (ucast c)"
  for c :: u32
proof -
  have "unat (ucast c :: u8) = unat c mod 256" by (simp add: unat_ucast)
  then have "le_nat (replicate 8 (ucast c)) = 0x0101010101010101 * (unat c mod 256)"
    by (simp add: replicate_8)
  then show ?thesis
    using le_bytes_le_nat [of "replicate 8 (ucast c :: u8)"] by (simp add: expanded_unat)
qed

lemma expanded_low_byte: "ucast (0x0101010101010101 * (ucast (c AND 0xFF) :: u64)) = (ucast c :: u8)"
  for c :: u32
proof -
  let ?e = "0x0101010101010101 * (ucast (c AND 0xFF) :: u64)"
  have "le_bytes 8 x = word_of_nat x # le_bytes 7 (x div 256)" for x
    using le_bytes.simps(2) [of 7 x] by simp
  then have "hd (le_bytes 8 (unat ?e)) = (ucast ?e :: u8)"
    by (simp only: list.sel) (rule unat_eqI, simp only: unat_of_nat unat_ucast)
  then show ?thesis by (simp only: expanded_bytes) (simp add: replicate_8)
qed

lemma memset_loop_eq:
  assumes "dest + n \<le> length m" "le_bytes 8 (unat e) = replicate 8 b"
  shows "memset_loop m dest e n = (mem_put m (dest + n mod 16) (replicate (n - n mod 16) b), n mod 16)"
  using assms
proof (induction m dest e n rule: memset_loop.induct)
  case (1 m dest e n)
  show ?case
  proof (cases "n \<ge> 16")
    case True
    let ?m1 = "mem_put m (dest + (n - 16)) (replicate 16 b)"
    have step: "mem_put (mem_put m (dest + (n - 16)) (replicate 8 b)) (dest + (n - 16) + 8)
        (replicate 8 b) = ?m1"
      using "1.prems" True mem_put_append [of "dest + (n - 16)" "replicate 8 b" "replicate 8 b" m]
      by (simp add: replicate_add [symmetric])
    have "memset_loop ?m1 dest e (n - 16) = (mem_put ?m1 (dest + (n - 16) mod 16)
        (replicate (n - 16 - (n - 16) mod 16) b), (n - 16) mod 16)"
      using 1 True step by (simp add: Let_def)
    moreover have "(n - 16) mod 16 = n mod 16"
      using True by (metis le_add_diff_inverse2 mod_add_self2)
    moreover have "mem_put ?m1 (dest + n mod 16) (replicate (n - 16 - n mod 16) b) =
        mem_put m (dest + n mod 16) (replicate (n - n mod 16) b)"
    proof -
      have "n mod 16 \<le> n - 16" using True calculation(2) by (metis mod_less_eq_dividend)
      then show ?thesis
        using mem_put_replicate_adjacent [of "dest + n mod 16" "n - 16 - n mod 16" 16 m b]
          "1.prems"(1) True by (simp add: algebra_simps)
    qed
    ultimately show ?thesis
      using "1.prems" True step by (simp add: memset_loop.simps [of m dest e n] Let_def)
  next
    case False
    then show ?thesis by (simp add: memset_loop.simps [of m dest e n] mem_put_def)
  qed
qed

lemma memset_eq:
  assumes "dest + n \<le> length m"
  shows "memset m dest c n = mem_put m dest (replicate n (ucast c))"
proof -
  let ?b = "ucast c :: u8" and ?r = "n mod 16"
  let ?e = "0x0101010101010101 * (ucast (c AND 0xFF) :: u64)"
  let ?m = "mem_put m (dest + ?r) (replicate (n - ?r) ?b)"
  have loop: "memset_loop m dest ?e n = (?m, ?r)"
    by (rule memset_loop_eq [OF assms expanded_bytes])
  have len: "length ?m = length m" using assms by simp
  have r: "?r < 16" "?r \<le> n" by simp_all
  have tail: "mem_put ?m dest (replicate ?r ?b) = mem_put m dest (replicate n ?b)"
    using mem_put_replicate_adjacent [of dest ?r "n - ?r" m ?b] assms r by simp
  have ov: "k \<le> ?r \<Longrightarrow> ?r \<le> 2 * k \<Longrightarrow>
      mem_put (mem_put ?m dest (replicate k ?b)) (dest + ?r - k) (replicate k ?b) =
      mem_put m dest (replicate n ?b)" for k
    using mem_put_replicate_overlap [of dest ?r ?m k ?b] assms len r tail by simp
  have zero: "?r = 0 \<Longrightarrow> ?m = mem_put m dest (replicate n ?b)" by simp
  have one: "?r < 2 \<Longrightarrow> 0 < ?r \<Longrightarrow> mem_put ?m dest [?b] = mem_put m dest (replicate n ?b)"
    using tail by (cases "?r = 1") simp_all
  show ?thesis
    using r ov [of 8] ov [of 4] ov [of 2] zero one
    by (auto simp: memset_def Let_def loop expanded_bytes expanded_low_byte not_le)
qed

section \<open>Correctness of memmove\<close>

lemma memmove_forward_eq:
  assumes "d < s" "s + iEnd \<le> length m0" "m = mem_put m0 d (mem_get m0 s i)"
    "i < iEnd" "16 dvd i" "16 dvd iEnd"
  shows "memmove_forward m d s i iEnd = mem_put m0 d (mem_get m0 s iEnd)"
  using assms
proof (induction m d s i iEnd rule: memmove_forward.induct)
  case (1 m d s i iEnd)
  have le: "i + 16 \<le> iEnd"
    using "1.prems"(4-6) by (auto elim!: dvdE)
  have "mem_get m (s + i) 16 = mem_get m0 (s + i) 16"
    unfolding "1.prems"(3) using "1.prems"(1,2) le by (intro mem_get_put_disjoint) auto
  moreover have "mem_put m (d + i) (mem_get m0 (s + i) 16) = mem_put m0 d (mem_get m0 s (i + 16))"
    using mem_put_append [of d "mem_get m0 s i" "mem_get m0 (s + i) 16" m0] "1.prems"(1-3) le
    by (simp add: mem_get_append)
  ultimately have step: "mem_put m (d + i) (mem_get m (s + i) 16) = mem_put m0 d (mem_get m0 s (i + 16))"
    by simp
  show ?case
  proof (cases "i + 16 < iEnd")
    case True
    have "memmove_forward (mem_put m (d + i) (mem_get m (s + i) 16)) d s (i + 16) iEnd =
        mem_put m0 d (mem_get m0 s iEnd)"
      using "1.prems" True step by (intro "1.IH" [OF refl refl]) auto
    with True show ?thesis by (subst memmove_forward.simps) (simp add: Let_def)
  next
    case False
    with le have "i + 16 = iEnd" by simp
    with step show ?thesis by (subst memmove_forward.simps) (simp add: Let_def)
  qed
qed

lemma memmove_backward_eq:
  assumes "s \<le> d" "d + N \<le> length m0" "n \<le> N"
    "m = mem_put m0 (d + n) (mem_get m0 (s + n) (N - n))" "16 \<le> n"
  shows "memmove_backward m d s n =
           (mem_put m0 (d + n mod 16) (mem_get m0 (s + n mod 16) (N - n mod 16)), n mod 16)"
  using assms
proof (induction m d s n rule: memmove_backward.induct)
  case (1 m d s n)
  define k where "k = n - 16"
  have n: "n = k + 16" using "1.prems"(5) by (simp add: k_def)
  have "mem_get m (s + k) 16 = mem_get m0 (s + k) 16"
    unfolding "1.prems"(4) using "1.prems"(1-3) n by (intro mem_get_put_disjoint) auto
  moreover have "mem_get m0 (s + k) (N - k) = mem_get m0 (s + k) 16 @ mem_get m0 (s + n) (N - n)"
    using mem_get_append [of m0 "s + k" 16 "N - n"] "1.prems"(3) n by (simp add: algebra_simps)
  then have "mem_put m (d + k) (mem_get m0 (s + k) 16) = mem_put m0 (d + k) (mem_get m0 (s + k) (N - k))"
    using mem_put_prepend [of "d + k" "mem_get m0 (s + k) 16" "mem_get m0 (s + n) (N - n)" m0]
      "1.prems"(1-4) n by (simp add: algebra_simps)
  ultimately have step: "mem_put m (d + k) (mem_get m (s + k) 16) =
      mem_put m0 (d + k) (mem_get m0 (s + k) (N - k))" by simp
  have unfold: "memmove_backward m d s n =
      (if 16 \<le> k then memmove_backward (mem_put m (d + k) (mem_get m (s + k) 16)) d s k
       else (mem_put m (d + k) (mem_get m (s + k) 16), k))"
    by (simp add: memmove_backward.simps [of m] Let_def k_def)
  have r: "n mod 16 = k mod 16" using n by simp
  show ?case
  proof (cases "16 \<le> k")
    case True
    have "memmove_backward (mem_put m (d + k) (mem_get m (s + k) 16)) d s k =
        (mem_put m0 (d + k mod 16) (mem_get m0 (s + k mod 16) (N - k mod 16)), k mod 16)"
      using "1.prems" True step n by (intro "1.IH" [OF k_def refl]) auto
    with True show ?thesis by (simp only: unfold r if_True)
  next
    case False
    then show ?thesis using step by (simp add: unfold r)
  qed
qed

lemma memmove_tail_eq:
  assumes "d + n \<le> length m" "s + n \<le> length m" "k \<le> n" "n \<le> 2 * k"
  shows "memmove_tail m d s n k = mem_put m d (mem_get m s n)"
  using assms unfolding memmove_tail_def Let_def
  by (intro nth_equalityI) (auto simp: mem_simps)

lemma mem_get_single: "s < length m \<Longrightarrow> mem_get m s 1 = [m ! s]"
  by (simp add: mem_get_def take_Suc_conv_app_nth hd_drop_conv_nth take_Suc)

lemma memmove_rest_eq:
  assumes "d + n \<le> length m" "s + n \<le> length m" "n < 16"
  shows "memmove_rest m d s n = mem_put m d (mem_get m s n)"
  using assms mem_get_single [of s m]
  by (auto simp: memmove_rest_def memmove_tail_eq not_le less_Suc_eq numeral_2_eq_2)

lemma memmove_eq:
  assumes "d + n \<le> length m" "s + n \<le> length m"
  shows "memmove m d s n = mem_put m d (mem_get m s n)"
proof -
  define r where "r = n mod 16"
  have r: "r < 16" "r \<le> n" by (simp_all add: r_def)
  consider "n < 16" | (fwd) "16 \<le> n" "d < s" | (bwd) "16 \<le> n" "s \<le> d" by linarith
  then show ?thesis
  proof cases
    case 1
    with memmove_rest_eq [OF assms] show ?thesis by (simp add: memmove_def Let_def)
  next
    case fwd
    define e where "e = n - r"
    let ?m = "mem_put m d (mem_get m s e)"
    have n: "n = e + r" using r by (simp add: e_def)
    have e: "16 dvd e" "0 < e" using fwd(1) by (auto simp: e_def r_def)
    have "memmove_forward m d s 0 e = ?m"
      using fwd e assms n by (intro memmove_forward_eq) auto
    moreover have "mem_get ?m (s + e) r = mem_get m (s + e) r"
      using fwd assms n by (intro mem_get_put_disjoint) auto
    moreover have "mem_put ?m (d + e) (mem_get m (s + e) r) = mem_put m d (mem_get m s n)"
      using mem_put_append [of d "mem_get m s e" "mem_get m (s + e) r" m] assms n
        mem_get_append [of m s e r] by (simp add: add.assoc)
    moreover have "length ?m = length m" using assms n by simp
    ultimately have "memmove_rest (memmove_forward m d s 0 e) (d + e) (s + e) r = mem_put m d (mem_get m s n)"
      using assms r(1) n memmove_rest_eq [of "d + e" r ?m "s + e"] by simp
    with fwd show ?thesis
      by (simp add: memmove_def Let_def flip: r_def e_def)
  next
    case bwd
    let ?m = "mem_put m (d + r) (mem_get m (s + r) (n - r))"
    have "memmove_backward m d s n = (?m, r)"
      using memmove_backward_eq [of s d n m n m] bwd assms by (simp add: r_def)
    moreover have "mem_get ?m s r = mem_get m s r"
      using bwd assms r by (intro mem_get_put_disjoint) auto
    moreover have "mem_put ?m d (mem_get m s r) = mem_put m d (mem_get m s n)"
      using mem_put_prepend [of d "mem_get m s r" "mem_get m (s + r) (n - r)" m] assms r
        mem_get_append [of m s r "n - r"] by simp
    ultimately show ?thesis
      using bwd assms r memmove_rest_eq [of d r ?m s] by (simp add: memmove_def Let_def)
  qed
qed

section \<open>Correctness of mul128\<close>

lemma unat_and_0xFFFFFFFF: "unat (x AND 0xFFFFFFFF) = unat x mod 2 ^ 32" for x :: u64
proof -
  have "(0xFFFFFFFF :: u64) = mask 32" by (simp add: mask_eq_exp_minus_1)
  then show ?thesis by (simp only: unat_and_mask)
qed

lemma unat_push_low: "unat (push_bit 32 (x AND 0xFFFFFFFF)) = (unat x mod 2 ^ 32) * 2 ^ 32" for x :: u64
  unfolding unat_push_bit unat_and_0xFFFFFFFF by simp

lemma half_product_bound: "a < 2 ^ 32 \<Longrightarrow> b < 2 ^ 32 \<Longrightarrow> a * b \<le> (2 ^ 32 - 1) * (2 ^ 32 - 1)" for a b :: nat
  by (intro mult_le_mono) auto

lemma unat_word_cat_64: "unat (word_cat hi lo :: u128) = unat hi * 2 ^ 64 + unat lo" for hi lo :: u64
proof -
  have lo: "unat lo < 2 ^ 64" and hi: "unat hi < 2 ^ 64"
    using unat_less [of lo] unat_less [of hi] by simp_all
  have "unat (push_bit 64 (ucast hi :: u128)) = unat hi * 2 ^ 64"
    using hi by (simp add: unat_push_bit unat_ucast_up)
  moreover have "unat (ucast lo :: u128) = unat lo" by (simp add: unat_ucast_up)
  ultimately show ?thesis
    using lo hi by (subst word_cat_eq, subst unat_add_nowrap) auto
qed

lemma unat_lt64: "unat x < 2 ^ 64" for x :: u64
  using unat_less [of x] by simp

lemma mul128_carries:
  fixes q0 q1 q2 m0 m1 m2 :: nat
  assumes "p00 = q0 * 4294967296 + m0" "q0 + p10 = q1 * 4294967296 + m1"
    "m1 + p01 = q2 * 4294967296 + m2"
  shows "(q1 + q2 + p11) * 18446744073709551616 + (m0 + m2 * 4294967296) =
    p00 + 4294967296 * p10 + 4294967296 * p01 + 18446744073709551616 * p11"
proof -
  have "4294967296 * (q0 + p10) = 4294967296 * (q1 * 4294967296 + m1)"
    "4294967296 * (m1 + p01) = 4294967296 * (q2 * 4294967296 + m2)"
    using assms(2,3) by simp_all
  with assms(1) show ?thesis by (simp add: distrib_left distrib_right)
qed

lemma mul128_eq: "unat (mul128_64x64 a b) = unat a * unat b"
proof -
  define a0 a1 b0 b1 where "a0 = unat a mod 2 ^ 32" and "a1 = unat a div 2 ^ 32"
    and "b0 = unat b mod 2 ^ 32" and "b1 = unat b div 2 ^ 32"
  note defs = a0_def a1_def b0_def b1_def
  have lt: "a0 < 2 ^ 32" "b0 < 2 ^ 32" "a1 < 2 ^ 32" "b1 < 2 ^ 32"
    using unat_lt64 [of a] unat_lt64 [of b] by (simp_all add: defs less_mult_imp_div_less)
  have ab: "unat a = a0 + 2 ^ 32 * a1" "unat b = b0 + 2 ^ 32 * b1" by (simp_all add: defs)
  define p00 p10 p01 p11 where "p00 = a0 * b0" and "p10 = a1 * b0" and "p01 = b1 * a0" and "p11 = a1 * b1"
  note p_def = p00_def p10_def p01_def p11_def
  have p: "p00 \<le> 18446744065119617025" "p10 \<le> 18446744065119617025"
    "p01 \<le> 18446744065119617025" "p11 \<le> 18446744065119617025"
    using half_product_bound [of a0 b0] half_product_bound [of a1 b0] half_product_bound [of b1 a0]
      half_product_bound [of a1 b1] lt by (simp_all add: p_def)
  define t1 where "t1 = p00 div 2 ^ 32 + p10"
  define t2 where "t2 = t1 mod 2 ^ 32 + p01"
  have t: "t1 < 2 ^ 64" "t2 < 2 ^ 64" using p unfolding t1_def t2_def by simp_all
  have prod: "unat a * unat b = p00 + 2 ^ 32 * p10 + 2 ^ 32 * p01 + 2 ^ 64 * p11"
    by (simp add: ab p_def algebra_simps)
  define lo hi where "lo = p00 mod 2 ^ 32 + (t2 mod 2 ^ 32) * 2 ^ 32"
    and "hi = t1 div 2 ^ 32 + t2 div 2 ^ 32 + p11"
  have total: "hi * 2 ^ 64 + lo = unat a * unat b"
  proof -
    have "(t1 div 4294967296 + t2 div 4294967296 + p11) * 18446744073709551616
        + (p00 mod 4294967296 + t2 mod 4294967296 * 4294967296) =
      p00 + 4294967296 * p10 + 4294967296 * p01 + 18446744073709551616 * p11"
      by (rule mul128_carries [where ?q0.0 = "p00 div 4294967296" and ?m1.0 = "t1 mod 4294967296"])
        (simp_all add: t1_def t2_def)
    then show ?thesis by (simp add: prod hi_def lo_def)
  qed
  have "hi * 2 ^ 64 \<le> unat a * unat b" using total by simp
  also have "\<dots> < 2 ^ 64 * 2 ^ 64" using unat_lt64 [of a] unat_lt64 [of b] by (intro mult_strict_mono) auto
  finally have hi: "hi < 2 ^ 64" by simp
  let ?p = "(a AND 0xFFFFFFFF) * (b AND 0xFFFFFFFF)"
  have up: "unat ?p = p00"
    using p by (subst unat_mult_nowrap) (simp_all add: unat_and_0xFFFFFFFF defs p_def)
  have um: "unat (drop_bit 32 a * (b AND 0xFFFFFFFF)) = p10" "unat (drop_bit 32 b * (a AND 0xFFFFFFFF)) = p01"
    "unat (drop_bit 32 a * drop_bit 32 b) = p11"
    using p by (subst unat_mult_nowrap; simp add: unat_and_0xFFFFFFFF unat_drop_bit defs p_def)+
  let ?t1 = "drop_bit 32 ?p + drop_bit 32 a * (b AND 0xFFFFFFFF)"
  have ut1: "unat ?t1 = t1"
    using t(1) by (subst unat_add_nowrap) (simp_all add: up um unat_drop_bit t1_def)
  let ?r = "(?p AND 0xFFFFFFFF) + push_bit 32 (?t1 AND 0xFFFFFFFF)"
  have ur: "unat ?r = p00 mod 2 ^ 32 + (t1 mod 2 ^ 32) * 2 ^ 32"
    by (subst unat_add_nowrap) (simp_all only: unat_and_0xFFFFFFFF unat_push_low ut1 up, simp)
  let ?t2 = "drop_bit 32 ?r + drop_bit 32 b * (a AND 0xFFFFFFFF)"
  have "unat (drop_bit 32 ?r) = t1 mod 2 ^ 32"
    unfolding unat_drop_bit ur by simp
  then have ut2: "unat ?t2 = t2"
    using t(2) by (subst unat_add_nowrap) (simp_all only: um t2_def, simp)
  let ?lo = "(?r AND 0xFFFFFFFF) + push_bit 32 (?t2 AND 0xFFFFFFFF)"
  have ulo: "unat ?lo = lo"
    by (subst unat_add_nowrap) (simp_all only: unat_and_0xFFFFFFFF unat_push_low ut2 ur lo_def, simp_all)
  let ?h = "drop_bit 32 ?t1 + drop_bit 32 ?t2"
  have uh: "unat ?h = t1 div 2 ^ 32 + t2 div 2 ^ 32"
    using hi by (subst unat_add_nowrap) (simp_all only: ut1 ut2 unat_drop_bit hi_def, simp)
  have uhi: "unat (?h + drop_bit 32 a * drop_bit 32 b) = hi"
    using hi by (subst unat_add_nowrap) (simp_all only: uh um hi_def, simp)
  show ?thesis
    by (simp only: mul128_64x64_def Let_def unat_word_cat_64 ulo uhi total)
qed

section \<open>Properties\<close>

text \<open>
  C34: \<open>memmove\<close> copies the source range as it was before the call, however the two ranges overlap,
  and changes nothing outside the destination range.
\<close>

theorem memmove_overlap_safe:
  assumes "d + n \<le> length m" "s + n \<le> length m"
  shows "length (memmove m d s n) = length m \<and>
         mem_get (memmove m d s n) d n = mem_get m s n \<and>
         (\<forall>j. j < d \<or> d + n \<le> j \<longrightarrow> j < length m \<longrightarrow> memmove m d s n ! j = m ! j)"
proof -
  have "mem_get (mem_put m d (mem_get m s n)) d (length (mem_get m s n)) = mem_get m s n"
    using assms by (intro mem_get_put_same) simp
  with assms show ?thesis by (auto simp: memmove_eq nth_mem_put)
qed

theorem memmove_overlap_safe_witness:
  "mem_get (memmove (map word_of_nat [0..<40]) 3 0 37) 3 37 = mem_get (map word_of_nat [0..<40]) 0 37"
  using memmove_overlap_safe [of 3 37 "map word_of_nat [0..<40]" 0] by simp

text \<open>
  \<open>memset\<close> fills exactly the given range with the low byte of its argument, although it writes
  in 16-byte steps from the end and finishes with two overlapping stores.
\<close>

theorem memset_fills_range:
  assumes "dest + n \<le> length m" "j < length m"
  shows "length (memset m dest c n) = length m \<and>
         memset m dest c n ! j = (if dest \<le> j \<and> j < dest + n then ucast c else m ! j)"
  using assms by (auto simp: memset_eq nth_mem_put)

theorem memset_fills_range_witness:
  "memset (replicate 40 7) 2 0x141 37 ! 38 = 0x41 \<and> memset (replicate 40 7) 2 0x141 37 ! 39 = 7"
  using memset_fills_range [of 2 37 "replicate 40 7" 38 "0x141"]
    memset_fills_range [of 2 37 "replicate 40 7" 39 "0x141"] by simp

text \<open>
  The portable 64x64 to 128 bit multiplication equals the product the other targets compute in
  hardware: no partial sum overflows.
\<close>

theorem mul128_64x64_correct: "mul128_64x64 a b = ucast a * ucast b"
proof (rule unat_eqI)
  have "unat a * unat b < 2 ^ 64 * 2 ^ 64"
    using unat_lt64 [of a] unat_lt64 [of b] by (intro mult_strict_mono) auto
  then have "unat (ucast a * ucast b :: u128) = unat a * unat b"
    by (subst unat_mult_nowrap) (simp_all add: unat_ucast_up)
  then show "unat (mul128_64x64 a b) = unat (ucast a * ucast b :: u128)"
    by (simp add: mul128_eq)
qed

end
