(* ===== verification/HcMath.thy ===== *)
theory HcMath
  imports Hc_Prelude
begin

text \<open>
  \<^verbatim>\<open>src/hc/core/hc/math.c\<close>: the alignment macros, which the code uses with a power of two on
  values of any integer width, and the two gcd loops. The macros are modelled on words of any
  width; on a signed operand the C operators act on the same two's complement bit pattern.
\<close>

section \<open>Alignment\<close>

definition math_ALIGN_FORWARD :: "'a::len word \<Rightarrow> 'a word \<Rightarrow> 'a word" where
  "math_ALIGN_FORWARD x align = (x + (align - 1)) AND NOT (align - 1)"

definition math_ALIGN_BACKWARD :: "'a::len word \<Rightarrow> 'a word \<Rightarrow> 'a word" where
  "math_ALIGN_BACKWARD x align = x AND NOT (align - 1)"

definition math_ALIGN_REMAINDER :: "'a::len word \<Rightarrow> 'a word \<Rightarrow> 'a word" where
  "math_ALIGN_REMAINDER x align = x AND (align - 1)"

definition math_PAD_BYTES :: "'a::len word \<Rightarrow> 'a word \<Rightarrow> 'a word" where
  "math_PAD_BYTES x align = - x AND (align - 1)"

definition math_RANGES_OVERLAP :: "'a::linorder \<Rightarrow> 'a \<Rightarrow> 'a \<Rightarrow> 'a \<Rightarrow> bool" where
  "math_RANGES_OVERLAP xStart xEnd yStart yEnd \<longleftrightarrow> xStart < yEnd \<and> yStart < xEnd"

section \<open>Greatest common divisor\<close>

function math_gcd64 :: "u64 \<Rightarrow> u64 \<Rightarrow> u64" where
  "math_gcd64 a b = (if b \<noteq> 0 then let temp = a mod b in math_gcd64 b temp else a)"
  by pat_completeness auto
termination
  by (relation "measure (\<lambda>(a, b). unat b)") (auto simp: unat_mod unat_gt_0)

function math_gcd32 :: "u32 \<Rightarrow> u32 \<Rightarrow> u32" where
  "math_gcd32 a b = (if b \<noteq> 0 then let temp = a mod b in math_gcd32 b temp else a)"
  by pat_completeness auto
termination
  by (relation "measure (\<lambda>(a, b). unat b)") (auto simp: unat_mod unat_gt_0)

declare math_gcd64.simps [simp del] math_gcd32.simps [simp del]

section \<open>Lemmas\<close>

lemma unat_math_gcd64: "unat (math_gcd64 a b) = gcd (unat a) (unat b)"
proof (induction a b rule: math_gcd64.induct)
  case (1 a b)
  show ?case
  proof (cases "b = 0")
    case True
    then show ?thesis by (simp add: math_gcd64.simps [of a])
  next
    case False
    have "unat (math_gcd64 a b) = unat (math_gcd64 b (a mod b))"
      using False by (simp add: math_gcd64.simps [of a])
    also have "\<dots> = gcd (unat b) (unat a mod unat b)"
      using "1.IH" [OF False refl] by (simp add: unat_mod)
    finally show ?thesis by (simp add: gcd_red_nat [of "unat a"])
  qed
qed

lemma unat_math_gcd32: "unat (math_gcd32 a b) = gcd (unat a) (unat b)"
proof (induction a b rule: math_gcd32.induct)
  case (1 a b)
  show ?case
  proof (cases "b = 0")
    case True
    then show ?thesis by (simp add: math_gcd32.simps [of a])
  next
    case False
    have "unat (math_gcd32 a b) = unat (math_gcd32 b (a mod b))"
      using False by (simp add: math_gcd32.simps [of a])
    also have "\<dots> = gcd (unat b) (unat a mod unat b)"
      using "1.IH" [OF False refl] by (simp add: unat_mod)
    finally show ?thesis by (simp add: gcd_red_nat [of "unat a"])
  qed
qed

lemma pow2_minus_1: "(2 ^ k :: 'a::len word) - 1 = mask k"
  by (simp add: mask_eq_exp_minus_1)

lemma and_not_mask: "x AND NOT (mask k) = x - (x AND mask k)"
  for x :: "'a::len word"
proof -
  have "(x AND NOT (mask k)) + (x AND mask k) = (x AND NOT (mask k)) OR (x AND mask k)"
    by (rule or_eq_add [symmetric]) (rule bit_eqI, auto simp: bit_simps)
  also have "\<dots> = x"
    by (rule bit_eqI) (auto simp: bit_simps)
  finally show ?thesis by (simp add: algebra_simps)
qed

lemma unat_ALIGN_REMAINDER: "unat (math_ALIGN_REMAINDER x (2 ^ k)) = unat x mod 2 ^ k"
  by (simp only: math_ALIGN_REMAINDER_def pow2_minus_1 unat_and_mask)

lemma unat_ALIGN_BACKWARD: "unat (math_ALIGN_BACKWARD x (2 ^ k)) = unat x - unat x mod 2 ^ k"
proof -
  have le: "unat (x AND mask k) \<le> unat x" by (simp only: unat_and_mask) (rule mod_less_eq_dividend)
  then have "unat (x - (x AND mask k)) = unat x - unat (x AND mask k)"
    by (simp add: unat_sub word_le_nat_alt)
  then show ?thesis
    by (simp only: math_ALIGN_BACKWARD_def pow2_minus_1 and_not_mask unat_and_mask)
qed

lemma ALIGN_FORWARD_alt: "math_ALIGN_FORWARD x a = math_ALIGN_BACKWARD (x + (a - 1)) a"
  by (simp add: math_ALIGN_FORWARD_def math_ALIGN_BACKWARD_def)

lemma unat_pow2_minus_1: "k < LENGTH('a) \<Longrightarrow> unat ((2 ^ k :: 'a::len word) - 1) = 2 ^ k - 1"
proof -
  assume "k < LENGTH('a)"
  then have "unat (take_bit k (- 1) :: 'a word) = mask k"
    by (simp only: unsigned_take_bit_eq unsigned_minus_1_eq_mask) (rule bit_eqI, auto simp: bit_simps)
  then have "unat (mask k :: 'a word) = mask k" by (simp add: take_bit_minus_one_eq_mask)
  then show ?thesis by (simp only: pow2_minus_1 mask_eq_exp_minus_1 [where 'a = nat])
qed

lemma unat_ALIGN_FORWARD:
  fixes x :: "'a::len word"
  assumes "k < LENGTH('a)" "unat x + (2 ^ k - 1) < 2 ^ LENGTH('a)"
  shows "unat (math_ALIGN_FORWARD x (2 ^ k)) = (unat x + (2 ^ k - 1)) div 2 ^ k * 2 ^ k"
proof -
  have "unat (x + (2 ^ k - 1)) = unat x + (2 ^ k - 1)"
    using assms by (subst unat_add_nowrap) (simp_all only: unat_pow2_minus_1)
  then show ?thesis
    by (simp add: ALIGN_FORWARD_alt unat_ALIGN_BACKWARD minus_mod_eq_div_mult)
qed

lemma unat_PAD_BYTES:
  fixes x :: "'a::len word"
  assumes "k < LENGTH('a)"
  shows "unat (math_PAD_BYTES x (2 ^ k)) = (2 ^ k - unat x mod 2 ^ k) mod 2 ^ k"
proof -
  have dvd: "(2::int) ^ k dvd 2 ^ LENGTH('a)" using assms by (simp add: le_imp_power_dvd)
  have "int (unat (math_PAD_BYTES x (2 ^ k))) = int (unat (- x)) mod 2 ^ k"
    by (simp only: math_PAD_BYTES_def pow2_minus_1 unat_and_mask) (simp add: of_nat_mod)
  also have "int (unat (- x)) = (- uint x) mod 2 ^ LENGTH('a)"
    by (simp add: uint_word_arith_bintrs take_bit_eq_mod)
  also have "(- uint x) mod 2 ^ LENGTH('a) mod 2 ^ k = (- uint x) mod 2 ^ k"
    using dvd by (rule mod_mod_cancel)
  also have "\<dots> = (2 ^ k - uint x mod 2 ^ k) mod 2 ^ k"
    by (simp add: mod_minus_eq)
  also have "\<dots> = int ((2 ^ k - unat x mod 2 ^ k) mod 2 ^ k)"
    by (simp add: of_nat_mod of_nat_diff)
  finally show ?thesis by linarith
qed

section \<open>Properties\<close>

text \<open>
  For a power-of-two alignment \<open>2 ^ k\<close>, rounding forward gives the least multiple not below
  the value (as long as the value plus \<open>2 ^ k - 1\<close> does not wrap), rounding backward the greatest
  multiple not above it, and value plus padding is a multiple.
\<close>

theorem math_align_correct:
  fixes x :: u64
  assumes "k < 64" "unat x + (2 ^ k - 1) < 2 ^ 64"
  shows "2 ^ k dvd unat (math_ALIGN_FORWARD x (2 ^ k)) \<and>
         unat x \<le> unat (math_ALIGN_FORWARD x (2 ^ k)) \<and>
         unat (math_ALIGN_FORWARD x (2 ^ k)) < unat x + 2 ^ k \<and>
         unat (math_ALIGN_BACKWARD x (2 ^ k)) + unat (math_ALIGN_REMAINDER x (2 ^ k)) = unat x \<and>
         2 ^ k dvd unat (math_ALIGN_BACKWARD x (2 ^ k)) \<and>
         2 ^ k dvd unat x + unat (math_PAD_BYTES x (2 ^ k)) \<and>
         unat (math_PAD_BYTES x (2 ^ k)) < 2 ^ k"
proof -
  let ?p = "(2::nat) ^ k" and ?n = "unat x"
  have p: "0 < ?p" by simp
  have fwd: "unat (math_ALIGN_FORWARD x (2 ^ k)) = (?n + (?p - 1)) div ?p * ?p"
    using assms by (intro unat_ALIGN_FORWARD) simp_all
  have bwd: "unat (math_ALIGN_BACKWARD x (2 ^ k)) = ?n - ?n mod ?p" by (rule unat_ALIGN_BACKWARD)
  have split: "(?n + (?p - 1)) div ?p * ?p + (?n + (?p - 1)) mod ?p = ?n + (?p - 1)"
    by (rule div_mult_mod_eq)
  have "(?n + (?p - 1)) mod ?p < ?p" using p by simp
  then have "?n \<le> (?n + (?p - 1)) div ?p * ?p" "(?n + (?p - 1)) div ?p * ?p < ?n + ?p"
    using split p by linarith+
  moreover have "?p dvd ?n + (?p - ?n mod ?p) mod ?p"
  proof -
    have "(?n + (?p - ?n mod ?p) mod ?p) mod ?p = (?n mod ?p + (?p - ?n mod ?p)) mod ?p"
      by (metis mod_add_left_eq mod_add_right_eq)
    moreover have "?n mod ?p + (?p - ?n mod ?p) = ?p"
      using mod_less_divisor [OF p, of ?n] by linarith
    ultimately show ?thesis by (simp only: mod_eq_0_iff_dvd [symmetric] mod_self)
  qed
  moreover have "?n - ?n mod ?p + ?n mod ?p = ?n" by simp
  moreover have "?p dvd ?n - ?n mod ?p" by (rule dvd_minus_mod)
  ultimately show ?thesis
    using assms(1) by (simp add: fwd bwd unat_ALIGN_REMAINDER unat_PAD_BYTES)
qed

theorem math_align_correct_witness:
  "unat (math_ALIGN_FORWARD (4097 :: u64) (2 ^ 12)) = 8192 \<and>
   2 ^ 12 dvd unat (math_ALIGN_FORWARD (4097 :: u64) (2 ^ 12))"
  using math_align_correct [of 12 4097] by (simp add: math_ALIGN_FORWARD_def)

text \<open>
  C40: the gcd loops terminate and return the greatest common divisor.
\<close>

theorem math_gcd_correct:
  "unat (math_gcd64 a b) = gcd (unat a) (unat b) \<and> unat (math_gcd32 c d) = gcd (unat c) (unat d)"
  by (simp add: unat_math_gcd64 unat_math_gcd32)

end
