(* ===== verification/Util.thy ===== *)
theory Util
  imports Hc_Prelude
begin

text \<open>
  \<^verbatim>\<open>src/hc/core/hc/util.c\<close>: C strings, the environment lookup, and the conversions between
  integers and decimal or hexadecimal text. \<open>char\<close> is unsigned (\<^verbatim>\<open>hc.h\<close> asserts it), so text
  is bytes. A C string is a byte list with a terminating zero; where a list has none, the C code
  would read past the object and the model's value there means nothing. The printers write
  backwards into a buffer and return the position of the first character. The parsers return the
  C return value and the value stored through \<open>number\<close>, if any.

  The three parsers share one contract, the locale \<open>digit_parser\<close>: it is proved once there that
  such a loop consumes the longest run of digits and fails exactly when their value exceeds its
  limit.
\<close>

section \<open>C strings\<close>

fun util_cstrLen :: "bytes \<Rightarrow> nat" where
  "util_cstrLen [] = 0"
| "util_cstrLen (c # cs) = (if c \<noteq> 0 then Suc (util_cstrLen cs) else 0)"

fun util_cstrCmp :: "bytes \<Rightarrow> bytes \<Rightarrow> int" where
  "util_cstrCmp (a # left) (b # right) =
     (let diff = uint a - uint b
      in if diff \<noteq> 0 \<or> a = 0 then diff else util_cstrCmp left right)"
| "util_cstrCmp _ _ = 0"

definition util_strToUtf16 :: "u16 list \<Rightarrow> bytes \<Rightarrow> nat \<Rightarrow> u16 list" where
  "util_strToUtf16 dest src n = mem_put dest 0 (map ucast (take n src))"

fun util_getEnv_match :: "bytes \<Rightarrow> bytes \<Rightarrow> bytes option" where
  "util_getEnv_match env [] = None"
| "util_getEnv_match env (c # name) =
     (if c \<noteq> 0 then
        (if hd env = 0 \<or> hd env \<noteq> c then None else util_getEnv_match (tl env) name)
      else if hd env = chr CHR ''='' then Some (tl env) else None)"

fun util_getEnv :: "bytes list \<Rightarrow> bytes \<Rightarrow> bytes option" where
  "util_getEnv [] name = None"
| "util_getEnv (env # envp) name =
     (case util_getEnv_match env name of Some v \<Rightarrow> Some v | None \<Rightarrow> util_getEnv envp name)"

section \<open>Printing integers\<close>

function util_uintToStr :: "bytes \<Rightarrow> nat \<Rightarrow> u64 \<Rightarrow> bytes \<times> nat" where
  "util_uintToStr m bufferEnd number =
     (let bufferEnd = bufferEnd - 1;
          m = m[bufferEnd := ucast (48 + number mod 10)];
          number = number div 10
      in if number \<noteq> 0 then util_uintToStr m bufferEnd number else (m, bufferEnd))"
  by pat_completeness auto
termination
proof (relation "measure (\<lambda>(m, e, n). unat n)", simp)
  fix m :: bytes and e x xa and n xb :: u64
  assume x: "xb = n div 10" and "xb \<noteq> 0"
  then have "unat xb \<noteq> 0" by (metis unat_eq_zero)
  moreover have "unat xb = unat n div 10" by (simp add: x unat_div)
  ultimately show "((xa, x, xb), m, e, n) \<in> measure (\<lambda>(m, e, n). unat n)" by simp
qed

definition util_intToStr :: "bytes \<Rightarrow> nat \<Rightarrow> u64 \<Rightarrow> bytes \<times> nat" where
  "util_intToStr m bufferEnd number =
     (let n = (if number <s 0 then - number else number);
          (m, bufferEnd) = util_uintToStr m bufferEnd n
      in if number <s 0
         then (let bufferEnd = bufferEnd - 1 in (m[bufferEnd := chr CHR ''-''], bufferEnd))
         else (m, bufferEnd))"

definition util_hexTable :: bytes where
  "util_hexTable = bytes_of ''0123456789ABCDEF''"

function util_uintToHex :: "bytes \<Rightarrow> nat \<Rightarrow> u64 \<Rightarrow> bytes \<times> nat" where
  "util_uintToHex m bufferEnd number =
     (let bufferEnd = bufferEnd - 1;
          m = m[bufferEnd := util_hexTable ! unat (number AND 0xF)];
          bufferEnd = bufferEnd - 1;
          m = m[bufferEnd := util_hexTable ! unat (drop_bit 4 number AND 0xF)];
          number = drop_bit 8 number
      in if number \<noteq> 0 then util_uintToHex m bufferEnd number else (m, bufferEnd))"
  by pat_completeness auto
termination
proof (relation "measure (\<lambda>(m, e, n). unat n)", simp)
  fix m :: bytes and e x xa xb xc and n xd :: u64
  assume x: "xd = drop_bit 8 n" and "xd \<noteq> 0"
  then have "unat xd \<noteq> 0" by (metis unat_eq_zero)
  moreover have "unat xd = unat n div 256" by (simp add: x unat_drop_bit)
  ultimately show "((xc, xb, xd), m, e, n) \<in> measure (\<lambda>(m, e, n). unat n)" by simp
qed

declare util_uintToStr.simps [simp del] util_uintToHex.simps [simp del]

section \<open>Parsing integers\<close>

function util_strToUint_loop :: "bytes \<Rightarrow> int \<Rightarrow> int \<Rightarrow> u64 \<Rightarrow> (int \<times> u64) option" where
  "util_strToUint_loop buffer maxChars i result =
     (if i < maxChars then
        let digitValue = (ucast (buffer ! nat i) :: u64) - 48
        in if digitValue > 9 then Some (i, result)
           else if result > (- 1 - digitValue) div 10 then None
           else util_strToUint_loop buffer maxChars (i + 1) (result * 10 + digitValue)
      else Some (i, result))"
  by pat_completeness auto
termination
  by (relation "measure (\<lambda>(b, mx, i, r). nat (mx - i))") auto

definition util_strToUint :: "bytes \<Rightarrow> int \<Rightarrow> int \<times> u64 option" where
  "util_strToUint buffer maxChars =
     (case util_strToUint_loop buffer maxChars 0 0 of
        None \<Rightarrow> (- 1, None)
      | Some (i, result) \<Rightarrow> (i, if i > 0 then Some result else None))"

function util_strToInt_loop :: "u64 \<Rightarrow> bytes \<Rightarrow> int \<Rightarrow> int \<Rightarrow> u64 \<Rightarrow> (int \<times> u64) option" where
  "util_strToInt_loop maxNumber buffer maxChars i result =
     (if i < maxChars then
        let digitValue = (ucast (buffer ! nat i) :: u64) - 48
        in if digitValue > 9 then Some (i, result)
           else if result > (maxNumber - digitValue) div 10 then None
           else util_strToInt_loop maxNumber buffer maxChars (i + 1) (result * 10 + digitValue)
      else Some (i, result))"
  by pat_completeness auto
termination
  by (relation "measure (\<lambda>(mn, b, mx, i, r). nat (mx - i))") auto

definition util_strToInt :: "bytes \<Rightarrow> int \<Rightarrow> int \<times> u64 option" where
  "util_strToInt buffer maxChars =
     (if maxChars \<le> 0 then (0, None)
      else
        let negative = (if buffer ! 0 = chr CHR ''-'' then 1 else 0 :: u64);
            maxNumber = 0x7fffffffffffffff + negative
        in case util_strToInt_loop maxNumber buffer maxChars (uint negative) 0 of
             None \<Rightarrow> (- 1, None)
           | Some (i, result) \<Rightarrow>
               if i > uint negative then (i, Some (result * (1 - push_bit 1 negative)))
               else (0, None))"

definition util_hexDigitValue :: "u8 \<Rightarrow> u64 option" where
  "util_hexDigitValue c =
     (let digitValue = (ucast c :: u64) - 48
      in if digitValue > 9 then
           (let digitValue = digitValue + (48 - 65)
            in if digitValue > 5 then
                 (let digitValue = digitValue + (65 - 97)
                  in if digitValue > 5 then None else Some (digitValue + 10))
               else Some (digitValue + 10))
         else Some digitValue)"

function util_hexToUint_loop :: "bytes \<Rightarrow> int \<Rightarrow> int \<Rightarrow> u64 \<Rightarrow> (int \<times> u64) option" where
  "util_hexToUint_loop buffer maxChars i result =
     (if i < maxChars then
        (case util_hexDigitValue (buffer ! nat i) of
           None \<Rightarrow> Some (i, result)
         | Some digitValue \<Rightarrow>
             if result > drop_bit 4 (- 1) then None
             else util_hexToUint_loop buffer maxChars (i + 1) (push_bit 4 result OR digitValue))
      else Some (i, result))"
  by pat_completeness auto
termination
  by (relation "measure (\<lambda>(b, mx, i, r). nat (mx - i))") auto

definition util_hexToUint :: "bytes \<Rightarrow> int \<Rightarrow> int \<times> u64 option" where
  "util_hexToUint buffer maxChars =
     (case util_hexToUint_loop buffer maxChars 0 0 of
        None \<Rightarrow> (- 1, None)
      | Some (i, result) \<Rightarrow> (i, if i > 0 then Some result else None))"

declare util_strToUint_loop.simps [simp del] util_strToInt_loop.simps [simp del]
  util_hexToUint_loop.simps [simp del]

section \<open>The contract of a digit parser\<close>

definition horner :: "nat \<Rightarrow> nat \<Rightarrow> nat list \<Rightarrow> nat" where
  "horner base acc ds = foldl (\<lambda>a d. a * base + d) acc ds"

lemma horner_simps [simp]:
  "horner base acc [] = acc"
  "horner base acc (d # ds) = horner base (acc * base + d) ds"
  by (simp_all add: horner_def)

lemma horner_append [simp]: "horner base acc (xs @ ys) = horner base (horner base acc xs) ys"
  by (simp add: horner_def)

lemma horner_ge: "0 < base \<Longrightarrow> acc \<le> horner base acc ds"
proof (induction ds arbitrary: acc)
  case Nil
  show ?case by simp
next
  case (Cons d ds)
  have "acc \<le> acc * base" using Cons.prems by simp
  also have "\<dots> \<le> acc * base + d" by simp
  also have "\<dots> \<le> horner base (acc * base + d) ds" using Cons by blast
  finally show ?case by simp
qed

definition scanned :: "(u8 \<Rightarrow> nat option) \<Rightarrow> bytes \<Rightarrow> nat list" where
  "scanned dv bs = map (the \<circ> dv) (takeWhile (\<lambda>c. dv c \<noteq> None) bs)"

lemma scanned_simps [simp]:
  "scanned dv [] = []"
  "scanned dv (c # cs) = (case dv c of None \<Rightarrow> [] | Some d \<Rightarrow> d # scanned dv cs)"
  by (auto simp: scanned_def split: option.splits)

locale digit_parser =
  fixes base :: nat
    and dv :: "u8 \<Rightarrow> nat option"
    and limit :: nat
    and parse :: "bytes \<Rightarrow> int \<Rightarrow> int \<Rightarrow> u64 \<Rightarrow> (int \<times> u64) option"
  assumes base_pos: "0 < base"
    and limit_fits: "limit < 2 ^ 64"
    and parse_step: "unat r \<le> limit \<Longrightarrow> parse b mx i r =
      (if i < mx then
         (case dv (b ! nat i) of
            None \<Rightarrow> Some (i, r)
          | Some d \<Rightarrow> if unat r * base + d \<le> limit
                      then parse b mx (i + 1) (word_of_nat (unat r * base + d)) else None)
       else Some (i, r))"
begin

lemma parse_spec:
  assumes "0 \<le> i" "mx \<le> int (length b)" "unat r \<le> limit"
    and "ds = scanned dv (take (nat (mx - i)) (drop (nat i) b))"
  shows "parse b mx i r =
    (if horner base (unat r) ds \<le> limit
     then Some (i + int (length ds), word_of_nat (horner base (unat r) ds)) else None)"
  using assms
proof (induction "nat (mx - i)" arbitrary: i r ds)
  case 0
  then show ?case by (simp add: parse_step)
next
  case (Suc k)
  then have lt: "i < mx" and k: "k = nat (mx - (i + 1))" by simp_all
  have step: "take (nat (mx - i)) (drop (nat i) b) =
      b ! nat i # take (nat (mx - (i + 1))) (drop (nat (i + 1)) b)"
  proof -
    have "nat i < length b" using lt Suc.prems(1,2) by linarith
    then have "drop (nat i) b = b ! nat i # drop (Suc (nat i)) b" by (rule Cons_nth_drop_Suc [symmetric])
    moreover have "nat (mx - i) = Suc (nat (mx - (i + 1)))" "Suc (nat i) = nat (i + 1)"
      using lt Suc.prems(1) by linarith+
    ultimately show ?thesis by simp
  qed
  show ?case
  proof (cases "dv (b ! nat i)")
    case None
    with Suc.prems lt step show ?thesis by (simp add: parse_step)
  next
    case (Some d)
    define v where "v = unat r * base + d"
    define ds' where "ds' = scanned dv (take (nat (mx - (i + 1))) (drop (nat (i + 1)) b))"
    have ds: "ds = d # ds'" using Suc.prems(4) step Some by (simp add: ds'_def)
    show ?thesis
    proof (cases "v \<le> limit")
      case True
      then have u: "unat (word_of_nat v :: u64) = v" using limit_fits by (simp add: unat_of_nat)
      have "parse b mx (i + 1) (word_of_nat v) =
        (if horner base v ds' \<le> limit
         then Some (i + 1 + int (length ds'), word_of_nat (horner base v ds')) else None)"
        using Suc.hyps(1) [OF k, of "word_of_nat v" ds'] Suc.prems lt True u ds'_def by simp
      with lt Some True Suc.prems(3) show ?thesis
        by (simp add: parse_step ds v_def [symmetric])
    next
      case False
      with horner_ge [OF base_pos, of v ds'] lt Some Suc.prems(3) show ?thesis
        by (simp add: parse_step ds v_def [symmetric])
    qed
  qed
qed

end

section \<open>The parsers meet the contract\<close>

definition dec_digit :: "u8 \<Rightarrow> nat option" where
  "dec_digit c = (if 48 \<le> unat c \<and> unat c \<le> 57 then Some (unat c - 48) else None)"

definition hex_digit :: "u8 \<Rightarrow> nat option" where
  "hex_digit c =
     (if 48 \<le> unat c \<and> unat c \<le> 57 then Some (unat c - 48)
      else if 65 \<le> unat c \<and> unat c \<le> 70 then Some (unat c - 55)
      else if 97 \<le> unat c \<and> unat c \<le> 102 then Some (unat c - 87) else None)"

lemma unat_ucast_u64: "unat (ucast c :: u64) = unat c" for c :: u8
  by (simp add: unat_ucast_up)

lemma unat_digitValue:
  "unat ((ucast c :: u64) - 48) = (if 48 \<le> unat c then unat c - 48 else unat c + (2 ^ 64 - 48))"
  for c :: u8
proof -
  have "unat (ucast c :: u64) = unat c" by (rule unat_ucast_u64)
  then show ?thesis
    using unat_sub_if_size [of "ucast c :: u64" 48] by (auto simp: word_size)
qed

lemma dec_digitValue:
  fixes c :: u8
  defines "v \<equiv> (ucast c :: u64) - 48"
  shows "v > 9 \<longleftrightarrow> dec_digit c = None" "dec_digit c = Some d \<Longrightarrow> unat v = d \<and> d \<le> 9"
  using unat_digitValue [of c] unat_lt_256 [of c]
  by (auto simp: v_def dec_digit_def word_less_nat_alt split: if_splits)

lemma overflow_check:
  fixes r d n :: u64
  assumes "unat d \<le> unat n"
  shows "r > (n - d) div 10 \<longleftrightarrow> unat n < unat r * 10 + unat d"
proof -
  have "unat ((n - d) div 10) = (unat n - unat d) div 10"
    using assms by (simp add: unat_div unat_sub word_le_nat_alt)
  then have "r > (n - d) div 10 \<longleftrightarrow> (unat n - unat d) div 10 < unat r"
    by (simp add: word_less_nat_alt)
  also have "\<dots> \<longleftrightarrow> unat n - unat d < unat r * 10"
    by (simp add: div_less_iff_less_mult)
  finally show ?thesis using assms by linarith
qed

lemma dec_parse_step:
  assumes "9 \<le> unat n" "unat r \<le> unat n"
  shows "(let digitValue = (ucast c :: u64) - 48
          in if digitValue > 9 then Some (i, r)
             else if r > (n - digitValue) div 10 then None else f (r * 10 + digitValue)) =
         (case dec_digit c of
            None \<Rightarrow> Some (i, r)
          | Some d \<Rightarrow> if unat r * 10 + d \<le> unat n then f (word_of_nat (unat r * 10 + d)) else None)"
proof (cases "dec_digit c")
  case None
  then show ?thesis using dec_digitValue(1) [of c] by simp
next
  case (Some d)
  then have d: "\<not> (ucast c :: u64) - 48 > 9" "unat ((ucast c :: u64) - 48) = d" "d \<le> 9"
    using dec_digitValue [of c] by auto
  moreover have "word_of_nat (unat r * 10 + d) = r * 10 + ((ucast c :: u64) - 48)"
    by (simp add: d(2) [symmetric])
  ultimately show ?thesis
    using Some assms(1) by (auto simp: Let_def overflow_check)
qed

interpretation dec: digit_parser 10 dec_digit 18446744073709551615 util_strToUint_loop
proof
  fix r :: u64 and b mx i
  show "util_strToUint_loop b mx i r =
      (if i < mx then
         (case dec_digit (b ! nat i) of
            None \<Rightarrow> Some (i, r)
          | Some d \<Rightarrow> if unat r * 10 + d \<le> 18446744073709551615
                      then util_strToUint_loop b mx (i + 1) (word_of_nat (unat r * 10 + d)) else None)
       else Some (i, r))"
    using dec_parse_step [of "- 1" r "b ! nat i" i "util_strToUint_loop b mx (i + 1)",
        unfolded unat_minus_1_u64] unat_less_width(4) [of r]
    by (subst util_strToUint_loop.simps) simp
qed simp_all

lemma int_parser:
  assumes "9 \<le> unat n"
  shows "digit_parser 10 dec_digit (unat n) (util_strToInt_loop n)"
proof
  fix r :: u64 and b mx i
  assume "unat r \<le> unat n"
  with assms show "util_strToInt_loop n b mx i r =
      (if i < mx then
         (case dec_digit (b ! nat i) of
            None \<Rightarrow> Some (i, r)
          | Some d \<Rightarrow> if unat r * 10 + d \<le> unat n
                      then util_strToInt_loop n b mx (i + 1) (word_of_nat (unat r * 10 + d)) else None)
       else Some (i, r))"
    using dec_parse_step [of n r "b ! nat i" i "util_strToInt_loop n b mx (i + 1)"]
    by (subst util_strToInt_loop.simps) simp
qed (use unat_less_width(4) [of n] in simp_all)

interpretation int_pos: digit_parser 10 dec_digit "unat (0x7fffffffffffffff :: u64)"
  "util_strToInt_loop 0x7fffffffffffffff"
  by (rule int_parser) simp

interpretation int_neg: digit_parser 10 dec_digit "unat (0x8000000000000000 :: u64)"
  "util_strToInt_loop 0x8000000000000000"
  by (rule int_parser) simp

lemma hexDigitValue_eq: "util_hexDigitValue c = map_option word_of_nat (hex_digit c)"
proof -
  define n where "n = unat c"
  have c: "unat (ucast c :: u64) = n" "n < 256" "unat c = n"
    using unat_ucast_u64 [of c] unat_lt_256 [of c] by (simp_all add: n_def)
  have cn: "(ucast c :: u64) = word_of_nat n"
    by (rule unat_eqI) (simp only: c(1) unat_of_nat, use c(2) in simp)
  let ?v = "(ucast c :: u64) - 48" and ?w = "(ucast c :: u64) - 48 + (48 - 65)"
  let ?x = "(ucast c :: u64) - 48 + (48 - 65) + (65 - 97)"
  have v: "unat ?v = (if 48 \<le> n then n - 48 else n + 18446744073709551568)"
    using unat_digitValue [of c] by (simp add: c)
  have w: "unat ?w = (if 65 \<le> n then n - 65 else n + 18446744073709551551)"
    using unat_sub_if_size [of "ucast c :: u64" 65] by (auto simp: word_size c)
  have x: "unat ?x = (if 97 \<le> n then n - 97 else n + 18446744073709551519)"
    using unat_sub_if_size [of "ucast c :: u64" 97] by (auto simp: word_size c)
  consider "n < 48 \<or> 57 < n \<and> n < 65 \<or> 70 < n \<and> n < 97 \<or> 102 < n" | "48 \<le> n" "n \<le> 57"
    | "65 \<le> n" "n \<le> 70" | "97 \<le> n" "n \<le> 102" by linarith
  then show ?thesis
  proof cases
    case 1
    then have "hex_digit c = None" by (auto simp: hex_digit_def c)
    moreover have "?v > 9" "?w > 5" "?x > 5" using 1 c(2) v w x by (auto simp: word_less_nat_alt)
    ultimately show ?thesis by (simp add: util_hexDigitValue_def Let_def)
  next
    case 2
    then have "\<not> ?v > 9" using v by (auto simp: word_less_nat_alt)
    moreover have "?v = word_of_nat (n - 48)" using 2 by (simp add: cn of_nat_diff)
    ultimately show ?thesis using 2 by (simp add: util_hexDigitValue_def hex_digit_def Let_def c)
  next
    case 3
    then have "?v > 9" "\<not> ?w > 5" using v w by (auto simp: word_less_nat_alt)
    moreover have "?w + 10 = word_of_nat (n - 55)" using 3 by (simp add: cn of_nat_diff)
    ultimately show ?thesis using 3 by (simp add: util_hexDigitValue_def hex_digit_def Let_def c)
  next
    case 4
    then have "?v > 9" "?w > 5" "\<not> ?x > 5" using v w x by (auto simp: word_less_nat_alt)
    moreover have "?x + 10 = word_of_nat (n - 87)" using 4 by (simp add: cn of_nat_diff)
    ultimately show ?thesis using 4 by (simp add: util_hexDigitValue_def hex_digit_def Let_def c)
  qed
qed


lemma hex_digit_less: "hex_digit c = Some d \<Longrightarrow> d < 16"
  by (auto simp: hex_digit_def split: if_splits)

lemma push_bit_or_digit:
  fixes r :: u64
  assumes "d < 16"
  shows "push_bit 4 r OR word_of_nat d = word_of_nat (unat r * 16 + d)"
proof -
  have "push_bit 4 r AND word_of_nat d = 0"
  proof (rule bit_eqI)
    fix n
    have "\<not> bit d n" if "4 \<le> n"
    proof -
      have "d < 2 ^ n" using assms that power_increasing [of 4 n "2::nat"] by simp
      then show ?thesis by (simp add: bit_iff_odd)
    qed
    then show "bit (push_bit 4 r AND word_of_nat d) n = bit (0 :: u64) n"
      by (auto simp: bit_simps)
  qed
  then have "push_bit 4 r OR word_of_nat d = push_bit 4 r + word_of_nat d" by (rule or_eq_add)
  also have "\<dots> = word_of_nat (unat r * 16 + d)" by (simp add: push_bit_eq_mult)
  finally show ?thesis .
qed

interpretation hex: digit_parser 16 hex_digit 18446744073709551615 util_hexToUint_loop
proof
  fix r :: u64 and b mx i
  have m: "unat (drop_bit 4 (- 1 :: u64)) = 1152921504606846975"
    unfolding unat_drop_bit unat_minus_1_u64 by simp
  have "r > drop_bit 4 (- 1) \<longleftrightarrow> \<not> unat r * 16 + d \<le> 18446744073709551615" if "d < 16" for d
    unfolding word_less_nat_alt m using that by linarith
  then show "util_hexToUint_loop b mx i r =
      (if i < mx then
         (case hex_digit (b ! nat i) of
            None \<Rightarrow> Some (i, r)
          | Some d \<Rightarrow> if unat r * 16 + d \<le> 18446744073709551615
                      then util_hexToUint_loop b mx (i + 1) (word_of_nat (unat r * 16 + d)) else None)
       else Some (i, r))"
    by (subst util_hexToUint_loop.simps)
      (auto simp: hexDigitValue_eq push_bit_or_digit split: option.split dest!: hex_digit_less)
qed simp_all

section \<open>What the printers write\<close>

fun digits :: "nat \<Rightarrow> nat list" where
  "digits n = (if n < 10 then [n] else digits (n div 10) @ [n mod 10])"

fun hex_pairs :: "nat \<Rightarrow> nat list" where
  "hex_pairs n = (if n < 256 then [] else hex_pairs (n div 256)) @ [n div 16 mod 16, n mod 16]"

declare digits.simps [simp del] hex_pairs.simps [simp del]

definition dec_char :: "nat \<Rightarrow> u8" where
  "dec_char d = word_of_nat (48 + d)"

lemma unat_dec_char: "d < 10 \<Longrightarrow> unat (dec_char d) = 48 + d"
  by (simp only: dec_char_def unat_of_nat) simp

definition hex_char :: "nat \<Rightarrow> u8" where
  "hex_char d = util_hexTable ! d"

lemma mem_put_snoc:
  "i + length ds < length m \<Longrightarrow> mem_put (m[i + length ds := c]) i ds = mem_put m i (ds @ [c])"
  by (intro nth_equalityI) (auto simp: mem_simps nth_append nth_list_update)

lemma digits_less: "d \<in> set (digits n) \<Longrightarrow> d < 10"
  by (induction n rule: digits.induct) (subst (asm) (2) digits.simps, auto split: if_splits)

lemma horner_digits: "horner 10 0 (digits n) = n"
proof (induction n rule: digits.induct)
  case (1 n)
  then show ?case by (cases "n < 10") (simp_all add: digits.simps [of n])
qed

lemma length_digits_pos: "0 < length (digits n)"
  by (simp add: digits.simps [of n])

lemma length_digits_le: "n < 10 ^ Suc k \<Longrightarrow> length (digits n) \<le> Suc k"
proof (induction k arbitrary: n)
  case 0
  then show ?case by (simp add: digits.simps [of n])
next
  case (Suc k)
  then have "n div 10 < 10 ^ Suc k" by (simp add: less_mult_imp_div_less)
  with Suc.IH show ?case by (subst digits.simps) simp
qed

lemma uintToStr_eq:
  assumes "length (digits (unat number)) \<le> e" "e \<le> length m"
  shows "util_uintToStr m e number =
    (mem_put m (e - length (digits (unat number))) (map dec_char (digits (unat number))),
     e - length (digits (unat number)))"
  using assms
proof (induction m e number rule: util_uintToStr.induct)
  case (1 m e number)
  define n where "n = unat number"
  define c where "c = dec_char (n mod 10)"
  let ?ds = "digits (n div 10)"
  have c: "(ucast (48 + number mod 10) :: u8) = c"
  proof (rule unat_eqI)
    have nm: "unat (number mod 10) = n mod 10" by (simp add: unat_mod n_def)
    have "n mod 10 < 10" by simp
    then have "unat (48 + number mod 10) = 48 + n mod 10"
      by (subst unat_add_nowrap) (simp_all add: nm)
    then show "unat (ucast (48 + number mod 10) :: u8) = unat c"
      by (simp add: unat_ucast c_def unat_dec_char)
  qed
  have d: "unat (number div 10) = n div 10" by (simp add: unat_div n_def)
  have z: "number div 10 = 0 \<longleftrightarrow> n < 10"
    using d by (metis div_eq_0_iff unat_eq_zero zero_neq_numeral)
  have e: "0 < e" using "1.prems"(1) length_digits_pos [of "unat number"] by linarith
  show ?case
  proof (cases "n < 10")
    case True
    then have "digits n = [n]" by (simp add: digits.simps [of n])
    with True z c e show ?thesis using "1.prems" mem_put_snoc [of "e - 1" "[]" m c]
      by (subst util_uintToStr.simps) (simp add: Let_def n_def [symmetric] c_def)
  next
    case False
    have dig: "digits n = ?ds @ [n mod 10]" using False by (simp add: digits.simps [of n])
    have len: "length ?ds \<le> e - 1" using "1.prems"(1) dig by (simp add: n_def [symmetric])
    have "util_uintToStr (m[e - 1 := c]) (e - 1) (number div 10) =
        (mem_put (m[e - 1 := c]) (e - 1 - length ?ds) (map dec_char ?ds), e - 1 - length ?ds)"
      using "1.IH" [OF refl refl refl] False z c len "1.prems"(2) d by simp
    moreover have "mem_put (m[e - 1 := c]) (e - 1 - length ?ds) (map dec_char ?ds) =
        mem_put m (e - 1 - length ?ds) (map dec_char (digits n))"
      using mem_put_snoc [of "e - 1 - length ?ds" "map dec_char ?ds" m c] len e "1.prems"(2)
      by (simp add: dig c_def)
    ultimately show ?thesis
      using False z c by (subst util_uintToStr.simps) (simp add: Let_def n_def [symmetric] dig)
  qed
qed

lemma hex_pairs_less: "d \<in> set (hex_pairs n) \<Longrightarrow> d < 16"
  by (induction n rule: hex_pairs.induct) (subst (asm) (2) hex_pairs.simps, auto split: if_splits)

lemma horner_hex_pairs: "horner 16 0 (hex_pairs n) = n"
proof (induction n rule: hex_pairs.induct)
  case (1 n)
  have split: "n div 256 * 16 + n div 16 mod 16 = n div 16"
    using div_mult_mod_eq [of "n div 16" 16] by (simp add: div_mult2_eq [symmetric])
  then have "(n div 256 * 16 + n div 16 mod 16) * 16 + n mod 16 = n" by simp
  with 1 show ?case by (cases "n < 256") (simp_all add: hex_pairs.simps [of n])
qed

lemma length_hex_pairs_ge: "2 \<le> length (hex_pairs n)"
  by (simp add: hex_pairs.simps [of n])

lemma length_hex_pairs_le: "n < 256 ^ Suc k \<Longrightarrow> length (hex_pairs n) \<le> 2 * Suc k"
proof (induction k arbitrary: n)
  case 0
  then show ?case by (simp add: hex_pairs.simps [of n])
next
  case (Suc k)
  then have "n div 256 < 256 ^ Suc k" by (simp add: less_mult_imp_div_less)
  with Suc.IH [of "n div 256"] show ?case by (subst hex_pairs.simps) simp
qed

lemma unat_and_0xF: "unat (x AND 0xF) = unat x mod 16" for x :: u64
proof -
  have "(0xF :: u64) = mask 4" by (simp add: mask_eq_exp_minus_1)
  then show ?thesis by (simp only: unat_and_mask) simp
qed

lemma uintToHex_eq:
  assumes "length (hex_pairs (unat number)) \<le> e" "e \<le> length m"
  shows "util_uintToHex m e number =
    (mem_put m (e - length (hex_pairs (unat number))) (map hex_char (hex_pairs (unat number))),
     e - length (hex_pairs (unat number)))"
  using assms
proof (induction m e number rule: util_uintToHex.induct)
  case (1 m e number)
  define n where "n = unat number"
  define c0 c1 where "c0 = hex_char (n div 16 mod 16)" and "c1 = hex_char (n mod 16)"
  let ?ds = "hex_pairs (n div 256)"
  let ?m = "m[e - 1 := c1, e - 1 - 1 := c0]"
  have c: "util_hexTable ! unat (number AND 0xF) = c1"
    "util_hexTable ! unat (drop_bit 4 number AND 0xF) = c0"
    by (simp_all only: unat_and_0xF unat_drop_bit n_def [symmetric]) (simp_all add: c0_def c1_def hex_char_def)
  have d: "unat (drop_bit 8 number) = n div 256" by (simp add: unat_drop_bit n_def)
  have z: "drop_bit 8 number = 0 \<longleftrightarrow> n < 256"
    using d by (metis div_eq_0_iff unat_eq_zero zero_neq_numeral)
  have e: "2 \<le> e" using "1.prems"(1) length_hex_pairs_ge [of "unat number"] by simp
  have e1: "Suc (e - Suc (Suc 0)) = e - Suc 0" using e by simp
  have snoc2: "mem_put ?m i (map hex_char ds) = mem_put m i (map hex_char ds @ [c0, c1])"
    if "i + length ds = e - 1 - 1" for i ds
    using mem_put_snoc [of i "map hex_char ds" "m[e - 1 := c1]" c0]
      mem_put_snoc [of i "map hex_char ds @ [c0]" m c1] that e e1 "1.prems"(2) by simp
  have pre: "util_uintToHex m e number =
      (if n < 256 then (?m, e - 1 - 1) else util_uintToHex ?m (e - 1 - 1) (drop_bit 8 number))"
    by (subst util_uintToHex.simps) (simp add: Let_def c z)
  show ?case
  proof (cases "n < 256")
    case True
    then have "hex_pairs n = [n div 16 mod 16, n mod 16]" by (simp add: hex_pairs.simps [of n])
    with True e show ?thesis
      using snoc2 [of "e - 1 - 1" "[]"] by (simp add: pre n_def [symmetric] c0_def c1_def)
  next
    case False
    have dig: "hex_pairs n = ?ds @ [n div 16 mod 16, n mod 16]"
      using False by (simp add: hex_pairs.simps [of n])
    have len: "length ?ds \<le> e - 1 - 1" using "1.prems"(1) dig by (simp add: n_def [symmetric])
    have "util_uintToHex ?m (e - 1 - 1) (drop_bit 8 number) =
        (mem_put ?m (e - 1 - 1 - length ?ds) (map hex_char ?ds), e - 1 - 1 - length ?ds)"
      using "1.IH" [OF refl refl refl refl refl] False z c len "1.prems"(2) d by simp
    then show ?thesis
      using False len snoc2 [of "e - 1 - 1 - length ?ds" ?ds]
      by (simp add: pre n_def [symmetric] dig c0_def c1_def)
  qed
qed

section \<open>Printing and then parsing\<close>

lemma dec_digit_char: "d < 10 \<Longrightarrow> dec_digit (dec_char d) = Some d"
  by (simp add: dec_digit_def unat_dec_char)

lemma hex_digit_char: "d < 16 \<Longrightarrow> hex_digit (hex_char d) = Some d"
  by (simp add: less_Suc_eq numeral_eq_Suc hex_char_def util_hexTable_def bytes_of_def)
    (auto simp: hex_digit_def chr_def)

lemma scanned_map: "(\<And>d. d \<in> set ds \<Longrightarrow> dv (enc d) = Some d) \<Longrightarrow> scanned dv (map enc ds) = ds"
  by (induction ds) simp_all

lemma take_drop_put:
  "i + length bs \<le> length m \<Longrightarrow> take (length bs) (drop i (mem_put m i bs)) = bs"
  using mem_get_put_same [of i bs m] by (simp add: mem_get_def)

lemma horner_single_scan:
  assumes "bs = map enc ds" "\<And>d. d \<in> set ds \<Longrightarrow> dv (enc d) = Some d"
    "i + length bs \<le> length m"
  shows "scanned dv (take (nat (int (length bs) - 0)) (drop (nat 0) (drop i (mem_put m i bs)))) = ds"
  using assms take_drop_put [of i bs m] scanned_map [of ds dv enc] by simp

lemma u64_digits_length: "length (digits (unat x)) \<le> 20" for x :: u64
  using length_digits_le [of "unat x" 19] unat_less_width(4) [of x] by simp

lemma u64_hex_length: "length (hex_pairs (unat x)) \<le> 16" for x :: u64
  using length_hex_pairs_le [of "unat x" 7] unat_less_width(4) [of x] by simp

lemma strToUint_of_uintToStr:
  assumes "20 \<le> e" "e \<le> length m" "util_uintToStr m e x = (m', p)"
  shows "util_strToUint (drop p m') (int (e - p)) = (int (e - p), Some x)"
proof -
  let ?ds = "digits (unat x)" let ?bs = "map dec_char ?ds" let ?L = "length ?ds"
  have L: "?L \<le> 20" "0 < ?L" by (rule u64_digits_length, rule length_digits_pos)
  have m: "m' = mem_put m p ?bs" and p: "p = e - ?L"
    using uintToStr_eq [of x e m] assms L by auto
  have e: "e - p = ?L" "p + ?L \<le> length m" using p L(1) assms(1,2) by simp_all
  have scan: "scanned dec_digit (take (nat (int ?L - 0)) (drop (nat 0) (drop p m'))) = ?ds"
    using horner_single_scan [of ?bs dec_char ?ds dec_digit p m] e m digits_less dec_digit_char by simp
  have "int ?L \<le> int (length (drop p m'))" using e m by simp
  then have "util_strToUint_loop (drop p m') (int ?L) 0 0 = Some (int ?L, x)"
    using dec.parse_spec [of 0 "int ?L" "drop p m'" 0 ?ds] scan unat_less_width(4) [of x]
    by (simp add: horner_digits)
  with L(2) e(1) show ?thesis by (simp add: util_strToUint_def)
qed

lemma hexToUint_of_uintToHex:
  assumes "16 \<le> e" "e \<le> length m" "util_uintToHex m e x = (m', p)"
  shows "util_hexToUint (drop p m') (int (e - p)) = (int (e - p), Some x)"
proof -
  let ?ds = "hex_pairs (unat x)" let ?bs = "map hex_char ?ds" let ?L = "length ?ds"
  have L: "?L \<le> 16" "2 \<le> ?L" by (rule u64_hex_length, rule length_hex_pairs_ge)
  have m: "m' = mem_put m p ?bs" and p: "p = e - ?L"
    using uintToHex_eq [of x e m] assms L by auto
  have e: "e - p = ?L" "p + ?L \<le> length m" using p L(1) assms(1,2) by simp_all
  have scan: "scanned hex_digit (take (nat (int ?L - 0)) (drop (nat 0) (drop p m'))) = ?ds"
    using horner_single_scan [of ?bs hex_char ?ds hex_digit p m] e m hex_pairs_less hex_digit_char by simp
  have "int ?L \<le> int (length (drop p m'))" using e m by simp
  then have "util_hexToUint_loop (drop p m') (int ?L) 0 0 = Some (int ?L, x)"
    using hex.parse_spec [of 0 "int ?L" "drop p m'" 0 ?ds] scan unat_less_width(4) [of x]
    by (simp add: horner_hex_pairs)
  with L(2) e(1) show ?thesis by (auto simp: util_hexToUint_def)
qed

lemma sless_0_iff: "x <s 0 \<longleftrightarrow> 2 ^ 63 \<le> unat x" for x :: u64
proof -
  have "x <s 0 \<longleftrightarrow> odd (uint x div 2 ^ 63)"
    by (simp add: word_sless_alt sint_uint signed_take_bit_negative_iff bit_iff_odd)
  also have "uint x div 2 ^ 63 = int (unat x div 2 ^ 63)"
    by (simp add: of_nat_div)
  also have "odd (int (unat x div 2 ^ 63)) \<longleftrightarrow> odd (unat x div 2 ^ 63)" by simp
  also have "\<dots> \<longleftrightarrow> 2 ^ 63 \<le> unat x"
  proof (cases "2 ^ 63 \<le> unat x")
    case True
    then have "unat x div 2 ^ 63 = 1" using unat_less_width(4) [of x] by (intro div_nat_eqI) simp_all
    with True show ?thesis by simp
  qed simp
  finally show ?thesis .
qed

lemma unat_uminus_u64: "unat (- x) = (if x = 0 then 0 else 2 ^ 64 - unat x)" for x :: u64
  using unat_sub_if_size [of 0 x] by (auto simp: word_size unat_eq_zero)

lemma loop_of_digits:
  assumes "digit_parser 10 dec_digit limit parse" "0 \<le> i" "mx = i + int (length ds)"
    "mx \<le> int (length b)" "take (length ds) (drop (nat i) b) = map dec_char ds"
    "\<And>d. d \<in> set ds \<Longrightarrow> d < 10" "horner 10 0 ds \<le> limit"
  shows "parse b mx i 0 = Some (mx, word_of_nat (horner 10 0 ds))"
proof -
  have "ds = scanned dec_digit (take (nat (mx - i)) (drop (nat i) b))"
    using assms(2-6) scanned_map [of ds dec_digit dec_char] by (simp add: dec_digit_char)
  from digit_parser.parse_spec [OF assms(1,2,4) _ this, of 0] assms(7)
  show ?thesis by (simp add: assms(3) [symmetric])
qed

lemma first_digit_not_minus: "dec_char (hd (digits n)) \<noteq> chr CHR ''-''"
proof -
  have "hd (digits n) < 10" using digits_less length_digits_pos by (metis hd_in_set length_greater_0_conv)
  then have "unat (dec_char (hd (digits n))) \<noteq> unat (chr CHR ''-'')"
    by (simp add: unat_dec_char chr_def)
  then show ?thesis by metis
qed

lemma strToInt_of_intToStr:
  assumes "20 \<le> e" "e \<le> length m" "util_intToStr m e x = (m', p)"
  shows "util_strToInt (drop p m') (int (e - p)) = (int (e - p), Some x) \<and> e - p \<le> 20"
proof -
  define n where "n = (if x <s 0 then - x else x)"
  let ?ds = "digits (unat n)" let ?bs = "map dec_char ?ds" let ?L = "length ?ds"
  let ?q = "e - ?L"
  have n63: "x <s 0 \<Longrightarrow> unat n \<le> 2 ^ 63" "\<not> x <s 0 \<Longrightarrow> unat n < 2 ^ 63"
    using unat_less_width(4) [of x] by (auto simp: n_def sless_0_iff unat_uminus_u64)
  then have "unat n < 10 ^ Suc 18" by (cases "x <s 0") auto
  then have L: "?L \<le> 19" "0 < ?L" using length_digits_le [of "unat n" 18] length_digits_pos by simp_all
  have print: "util_uintToStr m e n = (mem_put m ?q ?bs, ?q)"
    using uintToStr_eq [of n e m] assms L by simp
  have q: "?q + ?L = e" "?q + ?L \<le> length m" "0 < ?q" using L(1) assms(1,2) by linarith+
  show ?thesis
  proof (cases "x <s 0")
    case True
    let ?m = "(mem_put m ?q ?bs)[?q - 1 := chr CHR ''-'']"
    have nx: "- x = n" using True by (simp add: n_def)
    have eq: "m' = ?m" "p = ?q - 1"
      using assms(3) print nx True by (auto simp: util_intToStr_def Let_def)
    have ep: "e - p = Suc ?L" using eq(2) q by linarith
    have len: "length m' = length m" using eq q by simp
    have "drop p m' = chr CHR ''-'' # drop ?q (mem_put m ?q ?bs)"
    proof -
      have "p < length m'" "Suc p = ?q" using eq(2) q len by linarith+
      then have "drop p m' = m' ! p # drop ?q m'" by (metis Cons_nth_drop_Suc)
      moreover have "m' ! p = chr CHR ''-''" "drop ?q m' = drop ?q (mem_put m ?q ?bs)"
        using eq q by simp_all
      ultimately show ?thesis by simp
    qed
    then have "take ?L (drop (nat 1) (drop p m')) = ?bs" "drop p m' ! 0 = chr CHR ''-''"
      using take_drop_put [of ?q ?bs m] q(2) by simp_all
    then have "util_strToInt_loop 0x8000000000000000 (drop p m') (int (e - p)) 1 0 =
        Some (int (e - p), n)"
      using loop_of_digits [OF int_neg.digit_parser_axioms, of 1 "int (e - p)" ?ds "drop p m'"]
        n63(1) True digits_less ep len q eq(2) by (simp add: horner_digits)
    with \<open>drop p m' ! 0 = chr CHR ''-''\<close> ep L True show ?thesis
      by (simp add: util_strToInt_def Let_def n_def push_bit_eq_mult)
  next
    case False
    have nx: "x = n" using False by (simp add: n_def)
    have eq: "m' = mem_put m ?q ?bs" "p = ?q"
      using assms(3) print nx False by (auto simp: util_intToStr_def Let_def)
    have ep: "e - p = ?L" using eq(2) q by linarith
    have t: "take ?L (drop (nat 0) (drop p m')) = ?bs" using take_drop_put [of ?q ?bs m] eq q by simp
    then have "drop p m' ! 0 = dec_char (hd ?ds)"
      using L(2) by (metis drop_0 hd_conv_nth hd_map length_greater_0_conv nat_zero_as_int nth_take length_map)
    then have "drop p m' ! 0 \<noteq> chr CHR ''-''" using first_digit_not_minus by simp
    moreover have "util_strToInt_loop 0x7fffffffffffffff (drop p m') (int (e - p)) 0 0 = Some (int (e - p), n)"
      using loop_of_digits [OF int_pos.digit_parser_axioms, of 0 "int (e - p)" ?ds "drop p m'"]
        t n63(2) False digits_less ep q eq by (simp add: horner_digits)
    ultimately show ?thesis
      using ep L False by (simp add: util_strToInt_def Let_def n_def)
  qed
qed

section \<open>Strings and the environment\<close>

definition cstr :: "bytes \<Rightarrow> bool" where
  "cstr s \<longleftrightarrow> 0 \<notin> set s"

lemma cstrLen_append: "cstr s \<Longrightarrow> util_cstrLen (s @ 0 # rest) = length s"
  by (induction s) (auto simp: cstr_def)

lemma cstrCmp_Cons [simp]:
  "a \<noteq> 0 \<Longrightarrow> util_cstrCmp (a # l) (b # r) = (if a = b then util_cstrCmp l r else uint a - uint b)"
  "util_cstrCmp (0 # l) (b # r) = - uint b"
  by (auto simp: Let_def word_uint_eq_iff)

lemma cstrCmp_eq_0:
  "cstr s \<Longrightarrow> cstr t \<Longrightarrow> util_cstrCmp (s @ [0]) (t @ [0]) = 0 \<longleftrightarrow> s = t"
proof (induction s arbitrary: t)
  case Nil
  then show ?case by (cases t) (auto simp: cstr_def word_uint_eq_iff simp del: util_cstrCmp.simps)
next
  case (Cons a s)
  then show ?case
    by (cases t) (auto simp: cstr_def word_uint_eq_iff simp del: util_cstrCmp.simps)
qed

lemma uint_pos_iff: "0 < uint b \<longleftrightarrow> b \<noteq> 0" for b :: u8
  by (auto simp: order_less_le word_uint_eq_iff)

lemma cstrCmp_neg:
  "cstr s \<Longrightarrow> cstr t \<Longrightarrow>
   util_cstrCmp (s @ [0]) (t @ [0]) < 0 \<longleftrightarrow> (s, t) \<in> lexord {(a, b). a < b}"
proof (induction s arbitrary: t)
  case Nil
  then show ?case
    by (cases t) (auto simp: cstr_def uint_pos_iff simp del: util_cstrCmp.simps)
next
  case (Cons a s)
  show ?case
  proof (cases t)
    case Nil
    with Cons.prems show ?thesis
      by (auto simp: cstr_def simp del: util_cstrCmp.simps)
  next
    case (Cons b t')
    with Cons.IH [of t'] Cons.prems \<open>cstr (a # s)\<close> show ?thesis
      by (auto simp: cstr_def word_less_def simp del: util_cstrCmp.simps)
  qed
qed

lemma getEnv_match_eq:
  assumes "cstr name" "cstr env"
  shows "util_getEnv_match (env @ [0]) (name @ [0]) =
    (if \<exists>v. env = name @ chr CHR ''='' # v
     then Some (drop (Suc (length name)) (env @ [0])) else None)"
  using assms
proof (induction name arbitrary: env)
  case Nil
  then show ?case by (cases env) (auto simp: chr_def)
next
  case (Cons c name)
  then show ?case by (cases env) (auto simp: cstr_def)
qed

section \<open>Properties\<close>

text \<open>
  C36: text printed by \<open>util_uintToStr\<close>, \<open>util_intToStr\<close> or \<open>util_uintToHex\<close> into a buffer with the
  documented room (20, 20 and 16 characters) stays within that room and is parsed back to the
  same 64-bit value by the matching parser, which consumes all of it.
\<close>

theorem util_print_parse_roundtrip:
  assumes "20 \<le> e" "e \<le> length m"
    "util_uintToStr m e x = (mu, pu)" "util_intToStr m e x = (mi, pi)" "util_uintToHex m e x = (mh, ph)"
  shows "util_strToUint (drop pu mu) (int (e - pu)) = (int (e - pu), Some x) \<and> e - pu \<le> 20 \<and>
         util_strToInt (drop pi mi) (int (e - pi)) = (int (e - pi), Some x) \<and> e - pi \<le> 20 \<and>
         util_hexToUint (drop ph mh) (int (e - ph)) = (int (e - ph), Some x) \<and> e - ph \<le> 16"
proof -
  have "e - pu \<le> 20"
    using uintToStr_eq [of x e m] u64_digits_length [of x] assms by auto
  moreover have "e - ph \<le> 16"
    using uintToHex_eq [of x e m] u64_hex_length [of x] assms by auto
  ultimately show ?thesis
    using strToUint_of_uintToStr [OF assms(1,2,3)] strToInt_of_intToStr [OF assms(1,2,4)]
      hexToUint_of_uintToHex [OF _ assms(2,5)] assms(1) by simp
qed

theorem util_print_parse_roundtrip_witness:
  "util_strToInt (drop (snd (util_intToStr (replicate 20 0) 20 (- 5))) (fst (util_intToStr (replicate 20 0) 20 (- 5))))
     (int (20 - snd (util_intToStr (replicate 20 0) 20 (- 5)))) =
   (int (20 - snd (util_intToStr (replicate 20 0) 20 (- 5))), Some (- 5))"
  using util_print_parse_roundtrip [of 20 "replicate 20 0" "- 5", OF _ _ prod.collapse [symmetric]
      prod.collapse [symmetric] prod.collapse [symmetric]] by simp

text \<open>
  \<open>util_strToUint\<close> and \<open>util_strToInt\<close> consume the longest run of decimal digits (after an
  optional minus sign) within \<open>maxChars\<close>, return its length and exact value, return 0 when there is
  no digit, and return -1 exactly when the value does not fit the unsigned, respectively signed,
  64-bit result.
\<close>

theorem util_parse_decimal_correct:
  assumes "0 < maxChars" "maxChars \<le> int (length b)"
    and "ds = scanned dec_digit (take (nat maxChars) b)"
    and "ns = scanned dec_digit (take (nat maxChars - 1) (drop 1 b))"
  shows "util_strToUint b maxChars =
           (if ds = [] then (0, None)
            else if horner 10 0 ds < 2 ^ 64 then (int (length ds), Some (word_of_nat (horner 10 0 ds)))
            else (- 1, None)) \<and>
         util_strToInt b maxChars =
           (if b ! 0 = chr CHR ''-'' then
              (if ns = [] then (0, None)
               else if horner 10 0 ns \<le> 2 ^ 63
                    then (1 + int (length ns), Some (- word_of_nat (horner 10 0 ns)))
               else (- 1, None))
            else
              (if ds = [] then (0, None)
               else if horner 10 0 ds < 2 ^ 63 then (int (length ds), Some (word_of_nat (horner 10 0 ds)))
               else (- 1, None)))"
proof
  have ds: "ds = scanned dec_digit (take (nat (maxChars - 0)) (drop (nat 0) b))" using assms(3) by simp
  have ns: "ns = scanned dec_digit (take (nat (maxChars - 1)) (drop (nat 1) b))"
    using assms(1,4) by (simp add: nat_diff_distrib')
  show "util_strToUint b maxChars =
           (if ds = [] then (0, None)
            else if horner 10 0 ds < 2 ^ 64 then (int (length ds), Some (word_of_nat (horner 10 0 ds)))
            else (- 1, None))"
    using dec.parse_spec [OF _ assms(2) _ ds, of 0] by (auto simp: util_strToUint_def)
  show "util_strToInt b maxChars =
           (if b ! 0 = chr CHR ''-'' then
              (if ns = [] then (0, None)
               else if horner 10 0 ns \<le> 2 ^ 63
                    then (1 + int (length ns), Some (- word_of_nat (horner 10 0 ns)))
               else (- 1, None))
            else
              (if ds = [] then (0, None)
               else if horner 10 0 ds < 2 ^ 63 then (int (length ds), Some (word_of_nat (horner 10 0 ds)))
               else (- 1, None)))"
    using int_pos.parse_spec [OF _ assms(2) _ ds, of 0] int_neg.parse_spec [OF _ assms(2) _ ns, of 0] assms(1)
    by (auto simp: util_strToInt_def Let_def push_bit_eq_mult)
qed

theorem util_parse_decimal_correct_witness:
  "util_strToInt (bytes_of ''-12x'') 4 = (3, Some (- 12))"
proof -
  have ds: "scanned dec_digit (take (nat 4) (bytes_of ''-12x'')) = []"
    by (simp add: bytes_of_def chr_def dec_digit_def take_Cons')
  have ns: "scanned dec_digit (take (nat 4 - 1) (drop 1 (bytes_of ''-12x''))) = [1, 2]"
    by (simp add: bytes_of_def chr_def dec_digit_def take_Cons')
  show ?thesis
    using util_parse_decimal_correct [of 4 "bytes_of ''-12x''", OF _ _ ds [symmetric] ns [symmetric]]
    by (simp add: bytes_of_def)
qed

text \<open>
  \<open>util_cstrCmp\<close> orders C strings lexicographically by unsigned bytes, a proper prefix first,
  and is zero only on equal strings; \<open>util_getEnv\<close> returns the text after \<open>NAME=\<close> of the first
  entry with that name, and nothing when no entry has it.
\<close>

theorem util_cstr_env_correct:
  assumes "cstr s" "cstr t" "\<forall>env \<in> set envs. cstr env"
  shows "(util_cstrCmp (s @ [0]) (t @ [0]) = 0 \<longleftrightarrow> s = t) \<and>
         (util_cstrCmp (s @ [0]) (t @ [0]) < 0 \<longleftrightarrow> (s, t) \<in> lexord {(a, b). a < b}) \<and>
         util_getEnv (map (\<lambda>env. env @ [0]) envs) (s @ [0]) =
           (case find (\<lambda>env. \<exists>v. env = s @ chr CHR ''='' # v) envs of
              None \<Rightarrow> None | Some env \<Rightarrow> Some (drop (Suc (length s)) (env @ [0])))"
proof -
  have "util_getEnv (map (\<lambda>env. env @ [0]) envs) (s @ [0]) =
           (case find (\<lambda>env. \<exists>v. env = s @ chr CHR ''='' # v) envs of
              None \<Rightarrow> None | Some env \<Rightarrow> Some (drop (Suc (length s)) (env @ [0])))"
    using assms(3)
  proof (induction envs)
    case (Cons env envs)
    then show ?case using assms(1) by (simp add: getEnv_match_eq)
  qed simp
  then show ?thesis using assms by (simp add: cstrCmp_eq_0 cstrCmp_neg)
qed

theorem util_cstr_env_correct_witness:
  "util_getEnv [bytes_of ''AB=1'' @ [0], bytes_of ''A=22'' @ [0]] (bytes_of ''A'' @ [0]) =
   Some (bytes_of ''22'' @ [0])"
  using util_cstr_env_correct [of "bytes_of ''A''" "bytes_of ''A''" "[bytes_of ''AB=1'', bytes_of ''A=22'']"]
  by (simp add: cstr_def bytes_of_def chr_def)

end
