(* ===== verification/Base64.thy ===== *)
theory Base64
  imports Hc_Prelude
begin

text \<open>
  \<^verbatim>\<open>src/hc/core/hc/base64.c\<close>: the base64 encoder. Input and output are offsets into one
  memory, because the code promises in-place use with the input at the end of the buffer. The
  reference \<open>b64\<close> is the encoding as RFC 4648 describes it, on octet values; \<open>b64_decode\<close> is its
  inverse.
\<close>

section \<open>The encoder\<close>

definition base64_table :: bytes where
  "base64_table = bytes_of ''ABCDEFGHIJKLMNOPQRSTUVWXYZabcdefghijklmnopqrstuvwxyz0123456789+/''"

definition base64_ENCODE_SIZE :: "nat \<Rightarrow> nat" where
  "base64_ENCODE_SIZE inputSize = (inputSize + 2) div 3 * 4"

function base64_loop :: "bytes \<Rightarrow> nat \<Rightarrow> nat \<Rightarrow> nat \<Rightarrow> bytes \<times> nat \<times> nat" where
  "base64_loop m out inp endp =
     (if inp + 3 \<le> endp then
        let input0 = ucast (m ! inp) :: u32;
            input1 = ucast (m ! (inp + 1)) :: u32;
            input2 = ucast (m ! (inp + 2)) :: u32;
            m = m[out := base64_table ! unat (drop_bit 2 input0)];
            m = m[out + 1 := base64_table ! unat (push_bit 4 (input0 AND 0x3) OR drop_bit 4 input1)];
            m = m[out + 2 := base64_table ! unat (push_bit 2 (input1 AND 0xF) OR drop_bit 6 input2)];
            m = m[out + 3 := base64_table ! unat (input2 AND 0x3F)]
        in base64_loop m (out + 4) (inp + 3) endp
      else (m, out, inp))"
  by pat_completeness auto
termination
  by (relation "measure (\<lambda>(m, out, inp, endp). endp - inp)") auto

declare base64_loop.simps [simp del]

definition base64_encode :: "bytes \<Rightarrow> nat \<Rightarrow> nat \<Rightarrow> nat \<Rightarrow> bytes" where
  "base64_encode m out inp inSize =
     (let endp = inp + inSize;
          (m, out, inp) = base64_loop m out inp endp;
          remaining = endp - inp
      in if remaining > 0 then
           let input0 = ucast (m ! inp) :: u32;
               m = m[out := base64_table ! unat (drop_bit 2 input0)];
               m = (if remaining = 1 then
                      let m = m[out + 1 := base64_table ! unat (push_bit 4 (input0 AND 0x3))]
                      in m[out + 2 := chr CHR ''='']
                    else
                      let input1 = ucast (m ! (inp + 1)) :: u32;
                          m = m[out + 1 := base64_table ! unat (push_bit 4 (input0 AND 0x3) OR drop_bit 4 input1)]
                      in m[out + 2 := base64_table ! unat (push_bit 2 (input1 AND 0xF))])
           in m[out + 3 := chr CHR ''='']
         else m)"

section \<open>Reference encoding and decoding\<close>

definition b64_char :: "nat \<Rightarrow> u8" where
  "b64_char i = base64_table ! i"

fun b64 :: "bytes \<Rightarrow> bytes" where
  "b64 [] = []"
| "b64 [a] = [b64_char (unat a div 4), b64_char (unat a mod 4 * 16), chr CHR ''='', chr CHR ''='']"
| "b64 [a, b] = [b64_char (unat a div 4), b64_char (unat a mod 4 * 16 + unat b div 16),
     b64_char (unat b mod 16 * 4), chr CHR ''='']"
| "b64 (a # b # c # rest) =
     [b64_char (unat a div 4), b64_char (unat a mod 4 * 16 + unat b div 16),
      b64_char (unat b mod 16 * 4 + unat c div 64), b64_char (unat c mod 64)] @ b64 rest"

definition b64_value :: "u8 \<Rightarrow> nat" where
  "b64_value c = length (takeWhile (\<lambda>t. t \<noteq> c) base64_table)"

fun b64_decode :: "bytes \<Rightarrow> bytes" where
  "b64_decode (p # q # r # s # rest) =
     (let vp = b64_value p; vq = b64_value q; vr = b64_value r; vs = b64_value s
      in if r = chr CHR ''='' then [word_of_nat (vp * 4 + vq div 16)]
         else if s = chr CHR ''='' then
           [word_of_nat (vp * 4 + vq div 16), word_of_nat (vq mod 16 * 16 + vr div 4)]
         else [word_of_nat (vp * 4 + vq div 16), word_of_nat (vq mod 16 * 16 + vr div 4),
               word_of_nat (vr mod 4 * 64 + vs)] @ b64_decode rest)"
| "b64_decode _ = []"

section \<open>The encoder computes the reference\<close>

lemma length_base64_table [simp]: "length base64_table = 64"
  by (simp add: base64_table_def)

lemma distinct_base64_table: "distinct base64_table"
proof -
  have "distinct ''ABCDEFGHIJKLMNOPQRSTUVWXYZabcdefghijklmnopqrstuvwxyz0123456789+/''" by code_simp
  then show ?thesis unfolding base64_table_def bytes_of_def distinct_map by (blast intro: inj_onI chr_inj)
qed

lemma length_b64: "length (b64 bs) = base64_ENCODE_SIZE (length bs)"
  by (induction bs rule: b64.induct) (auto simp: base64_ENCODE_SIZE_def, presburger)

lemma unat_ucast_u32: "unat (ucast a :: u32) = unat a" for a :: u8
  by (simp add: unat_ucast_up)

lemma b64_index0: "unat (drop_bit 2 (ucast a :: u32)) = unat a div 4" for a :: u8
  unfolding unat_drop_bit unat_ucast_u32 by simp

lemma and_low_bits:
  "unat (x AND 0x3) = unat x mod 4" "unat (x AND 0xF) = unat x mod 16" "unat (x AND 0x3F) = unat x mod 64"
  for x :: u32
proof -
  have "(0x3 :: u32) = mask 2" "(0xF :: u32) = mask 4" "(0x3F :: u32) = mask 6"
    by (simp_all add: mask_eq_exp_minus_1)
  then show "unat (x AND 0x3) = unat x mod 4" "unat (x AND 0xF) = unat x mod 16" "unat (x AND 0x3F) = unat x mod 64"
    by (simp_all only: unat_and_mask) simp_all
qed

lemma b64_index1:
  "unat (push_bit 4 (ucast a AND 0x3) OR drop_bit 4 (ucast b) :: u32) = unat a mod 4 * 16 + unat b div 16"
  for a b :: u8
proof -
  have "unat (drop_bit 4 (ucast b) :: u32) = unat b div 16"
    unfolding unat_drop_bit unat_ucast_u32 by simp
  moreover have "unat (ucast a AND 0x3 :: u32) = unat a mod 4" by (simp add: and_low_bits unat_ucast_u32)
  moreover have "unat b div 16 < 16" using unat_lt_256 [of b] by (simp add: less_mult_imp_div_less)
  moreover have "unat a mod 4 < 4" by simp
  ultimately show ?thesis by (subst unat_push_or) simp_all
qed

lemma b64_index2:
  "unat (push_bit 2 (ucast b AND 0xF) OR drop_bit 6 (ucast c) :: u32) = unat b mod 16 * 4 + unat c div 64"
  for b c :: u8
proof -
  have "unat (drop_bit 6 (ucast c) :: u32) = unat c div 64"
    unfolding unat_drop_bit unat_ucast_u32 by simp
  moreover have "unat (ucast b AND 0xF :: u32) = unat b mod 16" by (simp add: and_low_bits unat_ucast_u32)
  moreover have "unat c div 64 < 4" using unat_lt_256 [of c] by (simp add: less_mult_imp_div_less)
  moreover have "unat b mod 16 < 16" by simp
  ultimately show ?thesis by (subst unat_push_or) simp_all
qed

lemma b64_index_last:
  "unat (push_bit 4 (ucast a AND 0x3) :: u32) = unat a mod 4 * 16"
  "unat (push_bit 2 (ucast b AND 0xF) :: u32) = unat b mod 16 * 4"
  "unat (ucast c AND 0x3F :: u32) = unat c mod 64" for a b c :: u8
  using b64_index1 [of a 0] b64_index2 [of b 0] by (simp_all add: and_low_bits unat_ucast_u32)

lemmas b64_index = b64_index0 b64_index1 b64_index2 b64_index_last b64_char_def [symmetric]

lemma list_update_4:
  assumes "out + 4 \<le> length m"
  shows "m[out := p, out + 1 := q, out + 2 := r, out + 3 := s] = mem_put m out [p, q, r, s]"
  using assms by (intro nth_equalityI) (auto simp: mem_simps nth_list_update nth_Cons' numeral_eq_Suc)

lemma mem_get_Cons: "i < length m \<Longrightarrow> mem_get m i (Suc n) = m ! i # mem_get m (Suc i) n"
  by (simp add: mem_get_def Cons_nth_drop_Suc [symmetric])

lemma encode_size_step: "base64_ENCODE_SIZE (n + 3) = base64_ENCODE_SIZE n + 4"
proof -
  have "(n + 3 + 2) div 3 = (n + 2) div 3 + 1" by presburger
  then show ?thesis by (simp only: base64_ENCODE_SIZE_def) simp
qed

lemma encode_size_mult3: "base64_ENCODE_SIZE (3 * k) = 4 * k"
  unfolding base64_ENCODE_SIZE_def by presburger

lemma encode_size_mono: "n \<le> k \<Longrightarrow> base64_ENCODE_SIZE n \<le> base64_ENCODE_SIZE k"
  unfolding base64_ENCODE_SIZE_def by (simp add: div_le_mono)

lemma encode_size_ge: "n \<le> base64_ENCODE_SIZE n"
  unfolding base64_ENCODE_SIZE_def by presburger

lemma base64_loop_step:
  assumes "inp + 3 \<le> endp" "out + 4 \<le> length m"
  shows "base64_loop m out inp endp =
    base64_loop (mem_put m out (b64 [m ! inp, m ! (inp + 1), m ! (inp + 2)])) (out + 4) (inp + 3) endp"
proof -
  have "base64_loop m out inp endp =
    base64_loop (m[out := b64_char (unat (m ! inp) div 4),
        out + 1 := b64_char (unat (m ! inp) mod 4 * 16 + unat (m ! (inp + 1)) div 16),
        out + 2 := b64_char (unat (m ! (inp + 1)) mod 16 * 4 + unat (m ! (inp + 2)) div 64),
        out + 3 := b64_char (unat (m ! (inp + 2)) mod 64)]) (out + 4) (inp + 3) endp"
    using assms(1) by (subst base64_loop.simps) (simp only: Let_def b64_index if_True)
  then show ?thesis by (simp only: list_update_4 [OF assms(2)] b64.simps append_Nil2)
qed

lemma base64_loop_eq:
  assumes "inp \<le> endp" "endp \<le> length m" "out + base64_ENCODE_SIZE (endp - inp) \<le> length m"
    "out + base64_ENCODE_SIZE (endp - inp) \<le> endp \<or> endp \<le> out"
    "k = (endp - inp) div 3"
  shows "base64_loop m out inp endp =
    (mem_put m out (b64 (mem_get m inp (3 * k))), out + 4 * k, inp + 3 * k)"
  using assms
proof (induction k arbitrary: m out inp)
  case 0
  then have "\<not> inp + 3 \<le> endp" by auto
  then show ?case by (subst base64_loop.simps) simp
next
  case (Suc k)
  have le: "inp + 3 \<le> endp"
  proof (rule ccontr)
    assume "\<not> inp + 3 \<le> endp"
    then have "(endp - inp) div 3 = 0" by simp
    with Suc.prems(5) show False by simp
  qed
  let ?n = "endp - (inp + 3)" and ?x = "b64 [m ! inp, m ! (inp + 1), m ! (inp + 2)]"
  let ?m = "mem_put m out ?x"
  have n: "endp - inp = ?n + 3" using le by linarith
  have enc: "base64_ENCODE_SIZE (endp - inp) = base64_ENCODE_SIZE ?n + 4"
    unfolding n by (rule encode_size_step)
  have k: "k = ?n div 3" and k3: "3 * k \<le> ?n" using Suc.prems(5) unfolding n by simp_all
  have x4: "length ?x = 4" by simp
  have len: "length ?m = length m" using Suc.prems(3) enc by simp
  have "base64_loop ?m (out + 4) (inp + 3) endp =
      (mem_put ?m (out + 4) (b64 (mem_get ?m (inp + 3) (3 * k))), out + 4 + 4 * k, inp + 3 + 3 * k)"
  proof (rule Suc.IH)
    show "out + 4 + base64_ENCODE_SIZE ?n \<le> length ?m" using Suc.prems(3) enc len by linarith
    show "out + 4 + base64_ENCODE_SIZE ?n \<le> endp \<or> endp \<le> out + 4" using Suc.prems(4) enc by linarith
  qed (use Suc.prems(2) le len k in simp_all)
  moreover have "mem_get ?m (inp + 3) (3 * k) = mem_get m (inp + 3) (3 * k)"
  proof (rule mem_get_put_disjoint)
    show "inp + 3 + 3 * k \<le> length m" using k3 le Suc.prems(2) by linarith
    show "out + length ?x \<le> length m" using Suc.prems(3) enc by simp
    show "inp + 3 + 3 * k \<le> out \<or> out + length ?x \<le> inp + 3"
      using Suc.prems(4) encode_size_ge [of ?n] enc k3 le x4 by linarith
  qed
  moreover have "mem_put ?m (out + 4) (b64 (mem_get m (inp + 3) (3 * k))) =
      mem_put m out (b64 (mem_get m inp (3 * Suc k)))"
  proof -
    have "mem_get m inp (3 * Suc k) = [m ! inp, m ! (inp + 1), m ! (inp + 2)] @ mem_get m (inp + 3) (3 * k)"
      using le Suc.prems(2) by (simp add: mem_get_Cons numeral_3_eq_3)
    then have "b64 (mem_get m inp (3 * Suc k)) = ?x @ b64 (mem_get m (inp + 3) (3 * k))" by simp
    moreover have "out + length ?x + length (b64 (mem_get m (inp + 3) (3 * k))) \<le> length m"
    proof -
      have "base64_ENCODE_SIZE (3 * k) \<le> base64_ENCODE_SIZE ?n" using k3 by (rule encode_size_mono)
      moreover have "inp + 3 + 3 * k \<le> length m" using k3 le Suc.prems(2) by linarith
      ultimately show ?thesis using Suc.prems(3) enc by (simp add: length_b64)
    qed
    ultimately show ?thesis by (simp only: mem_put_append [of out ?x _ m, unfolded x4] x4)
  qed
  ultimately show ?case
    using base64_loop_step [OF le, of out m] Suc.prems(3) enc by simp
qed

lemma b64_append3: "length xs = 3 * k \<Longrightarrow> b64 (xs @ ys) = b64 xs @ b64 ys"
proof (induction k arbitrary: xs)
  case (Suc k)
  then obtain a b c zs where "xs = a # b # c # zs" "length zs = 3 * k"
    by (auto simp: length_Suc_conv numeral_3_eq_3)
  with Suc.IH [of zs] show ?case by simp
qed simp

lemma base64_encode_tail:
  assumes "remaining \<le> 2" "inp + remaining \<le> length m" "out + base64_ENCODE_SIZE remaining \<le> length m"
    "out + base64_ENCODE_SIZE remaining \<le> inp + remaining \<or> inp + remaining \<le> out"
  shows "base64_encode m out inp remaining = mem_put m out (b64 (mem_get m inp remaining))"
proof -
  have loop: "base64_loop m out inp (inp + remaining) = (m, out, inp)"
    using assms(1) by (subst base64_loop.simps) simp
  consider "remaining = 0" | "remaining = 1" | "remaining = 2" using assms(1) by linarith
  then show ?thesis
  proof cases
    case 1
    with loop show ?thesis by (simp add: base64_encode_def)
  next
    case 2
    with assms have "inp < length m" "out + 4 \<le> length m" by (auto simp: base64_ENCODE_SIZE_def)
    moreover have "mem_get m inp 1 = [m ! inp]" using \<open>inp < length m\<close> by (simp add: mem_get_Cons)
    moreover have "inp + 1 - inp = 1" "(1::nat) > 0" by simp_all
    ultimately show ?thesis using loop
      by (simp only: base64_encode_def Let_def 2 prod.case if_True b64_index list_update_4 b64.simps refl)
  next
    case 3
    with assms have "inp + 1 < length m" "out + 4 \<le> length m" "out \<noteq> inp + 1"
      by (auto simp: base64_ENCODE_SIZE_def)
    moreover have "mem_get m inp 2 = [m ! inp, m ! (inp + 1)]"
      using \<open>inp + 1 < length m\<close> by (simp add: mem_get_Cons numeral_2_eq_2)
    moreover have "inp + 2 - inp = 2" "(2::nat) > 0" "((2::nat) = 1) = False" by simp_all
    ultimately show ?thesis using loop
      by (simp only: base64_encode_def Let_def 3 prod.case if_True if_False b64_index list_update_4 b64.simps
          nth_list_update_neq not_False_eq_True)
  qed
qed

lemma encode_size_split: "base64_ENCODE_SIZE n = 4 * (n div 3) + base64_ENCODE_SIZE (n mod 3)"
proof -
  have "(n + 2) div 3 = n div 3 + (n mod 3 + 2) div 3" by presburger
  then show ?thesis unfolding base64_ENCODE_SIZE_def by simp
qed

lemma base64_encode_split:
  assumes "base64_loop m out inp (inp + n) = (m', out', inp')" "inp' + r = inp + n" "r \<le> 2"
  shows "base64_encode m out inp n = base64_encode m' out' inp' r"
proof -
  have "base64_loop m' out' inp' (inp + n) = (m', out', inp')"
    using assms(2,3) by (subst base64_loop.simps) auto
  then show ?thesis using assms(1) by (simp only: base64_encode_def Let_def assms(2) prod.case)
qed

lemma base64_encode_eq:
  assumes "inp + n \<le> length m" "out + base64_ENCODE_SIZE n \<le> length m"
    "out + base64_ENCODE_SIZE n \<le> inp + n \<or> inp + n \<le> out"
  shows "base64_encode m out inp n = mem_put m out (b64 (mem_get m inp n))"
proof -
  let ?k = "n div 3" and ?r = "n mod 3"
  let ?x = "b64 (mem_get m inp (3 * ?k))" and ?y = "b64 (mem_get m (inp + 3 * ?k) ?r)"
  let ?m = "mem_put m out ?x"
  have n: "inp + 3 * ?k + ?r = inp + n" "?r \<le> 2" by simp_all
  have lens: "length (mem_get m inp (3 * ?k)) = 3 * ?k" "length (mem_get m (inp + 3 * ?k) ?r) = ?r"
    using assms(1) n by (intro length_mem_get, linarith)+
  then have x: "length ?x = 4 * ?k" and y: "length ?y = base64_ENCODE_SIZE ?r"
    by (simp_all only: length_b64 encode_size_mult3)
  have size: "base64_ENCODE_SIZE n = 4 * ?k + base64_ENCODE_SIZE ?r" by (rule encode_size_split)
  have m: "length ?m = length m" using assms(2) x size by (intro length_mem_put) linarith
  have "base64_loop m out inp (inp + n) = (?m, out + 4 * ?k, inp + 3 * ?k)"
    using assms by (intro base64_loop_eq) simp_all
  then have "base64_encode m out inp n = base64_encode ?m (out + 4 * ?k) (inp + 3 * ?k) ?r"
    using n by (rule base64_encode_split)
  also have "\<dots> = mem_put ?m (out + 4 * ?k) (b64 (mem_get ?m (inp + 3 * ?k) ?r))"
    using assms n size m by (intro base64_encode_tail; linarith)
  also have "mem_get ?m (inp + 3 * ?k) ?r = mem_get m (inp + 3 * ?k) ?r"
    using assms n size x encode_size_ge [of ?r] by (intro mem_get_put_disjoint; linarith)
  also have "mem_put ?m (out + 4 * ?k) ?y = mem_put m out (?x @ ?y)"
    using mem_put_append [of out ?x ?y m] assms(2) x y size by simp
  also have "?x @ ?y = b64 (mem_get m inp (3 * ?k) @ mem_get m (inp + 3 * ?k) ?r)"
    using lens(1) by (simp only: b64_append3)
  also have "mem_get m inp (3 * ?k) @ mem_get m (inp + 3 * ?k) ?r = mem_get m inp n"
    by (simp only: mem_get_append [symmetric] mult_div_mod_eq)
  finally show ?thesis .
qed

section \<open>Decoding\<close>

lemma b64_value_char: "i < 64 \<Longrightarrow> b64_value (b64_char i) = i"
proof -
  assume i: "i < 64"
  have split: "base64_table = take i base64_table @ base64_table ! i # drop (Suc i) base64_table"
    using i by (simp add: id_take_nth_drop)
  have "base64_table ! i \<notin> set (take i base64_table)"
    using distinct_base64_table i
    by (auto simp: in_set_conv_nth nth_eq_iff_index_eq)
  then have "takeWhile (\<lambda>t. t \<noteq> base64_table ! i) base64_table = take i base64_table"
    by (subst split, subst takeWhile_append2) auto
  then show ?thesis using i by (simp add: b64_value_def b64_char_def)
qed

lemma b64_char_not_pad: "i < 64 \<Longrightarrow> b64_char i \<noteq> chr CHR ''=''"
proof -
  assume "i < 64"
  then have "b64_char i \<in> set base64_table" by (simp add: b64_char_def)
  moreover have "chr CHR ''='' \<notin> set base64_table" by code_simp
  ultimately show ?thesis by metis
qed

lemma sextet_bounds:
  "unat a div 4 < 64" "unat a mod 4 * 16 + unat b div 16 < 64" "unat a mod 4 * 16 < 64"
  "unat b mod 16 * 4 + unat c div 64 < 64" "unat b mod 16 * 4 < 64" "unat c mod 64 < 64"
  for a b c :: u8
proof -
  have "unat a < 256" "unat b < 256" "unat c < 256" by (rule unat_less_width)+
  then have "unat a div 4 < 64" "unat b div 16 < 16" "unat c div 64 < 4" by (simp_all add: less_mult_imp_div_less)
  moreover have "unat a mod 4 < 4" "unat b mod 16 < 16" "unat c mod 64 < 64" by simp_all
  ultimately show "unat a div 4 < 64" "unat a mod 4 * 16 + unat b div 16 < 64" "unat a mod 4 * 16 < 64"
    "unat b mod 16 * 4 + unat c div 64 < 64" "unat b mod 16 * 4 < 64" "unat c mod 64 < 64"
    by linarith+
qed

lemma word_of_nat_parts:
  "(word_of_nat (unat a div 4 * 4 + unat a mod 4) :: u8) = a"
  "(word_of_nat (unat b div 16 * 16 + unat b mod 16) :: u8) = b"
  "(word_of_nat (unat c div 64 * 64 + unat c mod 64) :: u8) = c"
  by (simp_all only: div_mult_mod_eq word_of_nat_unat)

lemma regroup:
  fixes a b c :: nat
  assumes "b < 16" "c < 4"
  shows "(a * 16 + b) div 16 = a" "(a * 16 + b) mod 16 = b" "(a * 4 + c) div 4 = a" "(a * 4 + c) mod 4 = c"
    "a * 16 div 16 = a" "a * 4 div 4 = a"
  using assms by simp_all

lemma b64_decode_b64: "b64_decode (b64 bs) = bs"
proof (induction bs rule: b64.induct)
  case 1
  show ?case by simp
next
  case (2 a)
  show ?case by (simp add: Let_def b64_value_char sextet_bounds word_of_nat_parts del: of_nat_add of_nat_mult)
next
  case (3 a b)
  have "unat b div 16 < 16" using sextet_bounds(2) [of 0 b] unat_less_width(1) [of b] by linarith
  then show ?case
    by (simp add: Let_def b64_value_char b64_char_not_pad sextet_bounds regroup word_of_nat_parts del: of_nat_add of_nat_mult)
next
  case (4 a b c rest)
  have "unat b div 16 < 16" "unat c div 64 < 4" using unat_less_width(1) [of b] unat_less_width(1) [of c] by linarith+
  with 4 show ?case
    by (simp add: Let_def b64_value_char b64_char_not_pad sextet_bounds regroup word_of_nat_parts del: of_nat_add of_nat_mult)
qed

text \<open>
  C35: the encoder writes exactly the RFC 4648 encoding of its input, and nothing else, whenever
  the output region ends no later than the input region or starts after it; the in-place use the
  comment in the code allows (input at the end of the buffer) is the case of equal ends. Decoding
  what was written gives the input back, so nothing is lost.
\<close>

theorem base64_encode_in_place:
  assumes "inp + n \<le> length m" "out + base64_ENCODE_SIZE n \<le> length m"
    "out + base64_ENCODE_SIZE n \<le> inp + n \<or> inp + n \<le> out"
  shows "base64_encode m out inp n = mem_put m out (b64 (mem_get m inp n)) \<and>
    b64_decode (mem_get (base64_encode m out inp n) out (base64_ENCODE_SIZE n)) = mem_get m inp n"
proof -
  have "mem_get (mem_put m out (b64 (mem_get m inp n))) out (base64_ENCODE_SIZE n) = b64 (mem_get m inp n)"
    using mem_get_put_same [of out "b64 (mem_get m inp n)" m] assms(1,2) by (simp add: length_b64)
  then show ?thesis by (simp add: base64_encode_eq assms b64_decode_b64)
qed

theorem base64_encode_in_place_witness:
  "base64_encode (replicate 4 0 @ bytes_of ''Man!'') 0 4 4 = bytes_of ''TWFuIQ=='' \<and>
   b64_decode (bytes_of ''TWFuIQ=='') = bytes_of ''Man!''"
proof -
  let ?m = "replicate 4 0 @ bytes_of ''Man!'' :: bytes"
  have "mem_put ?m 0 (b64 (mem_get ?m 4 4)) = bytes_of ''TWFuIQ==''" by code_simp
  moreover have "mem_get (bytes_of ''TWFuIQ=='') 0 (base64_ENCODE_SIZE 4) = bytes_of ''TWFuIQ==''"
    "mem_get ?m 4 4 = bytes_of ''Man!''"
    by code_simp+
  ultimately show ?thesis
    using base64_encode_in_place [of 4 4 ?m 0] by (auto simp: base64_ENCODE_SIZE_def)
qed

end
