(* ===== verification/Block_Stream.thy ===== *)
theory Block_Stream
  imports Mem
begin

text \<open>
  The buffering that \<^verbatim>\<open>sha1.c\<close>, \<^verbatim>\<open>sha256.c\<close>, \<^verbatim>\<open>sha512.c\<close> and \<^verbatim>\<open>poly1305.c\<close> share. Each of them
  repeats the same \<open>update\<close> over its own block function: fill a partly filled buffer, process whole
  blocks straight from the input, keep the remainder. The shape is \<open>stream_update\<close>; the contract
  of the block function is the locale \<open>block_stream\<close>, in which it is shown once that a stream
  absorbs exactly the whole blocks of everything it was given. The locale \<open>padded_stream\<close> adds the
  finalisation of the Merkle-Damgard hashes. Each hash theory interprets both.
\<close>

section \<open>Blocks of a byte string\<close>

function chunks :: "nat \<Rightarrow> 'a list \<Rightarrow> 'a list list" where
  "chunks n xs = (if n = 0 \<or> length xs < n then [] else take n xs # chunks n (drop n xs))"
  by pat_completeness auto
termination
  by (relation "measure (\<lambda>(n, xs). length xs)") auto

declare chunks.simps [simp del]

definition unread :: "nat \<Rightarrow> 'a list \<Rightarrow> 'a list" where
  "unread n xs = drop (length xs div n * n) xs"

lemma chunks_short [simp]: "length xs < n \<Longrightarrow> chunks n xs = []"
  by (subst chunks.simps) simp

lemma chunks_step: "0 < n \<Longrightarrow> length xs = n \<Longrightarrow> chunks n (xs @ ys) = xs # chunks n ys"
  by (subst chunks.simps) simp

lemma chunks_single [simp]: "0 < n \<Longrightarrow> length xs = n \<Longrightarrow> chunks n xs = [xs]"
  using chunks_step [of n xs "[]"] by simp

lemma unread_short [simp]: "length xs < n \<Longrightarrow> unread n xs = xs"
  by (simp add: unread_def)

lemma unread_step: "0 < n \<Longrightarrow> length xs = n \<Longrightarrow> unread n (xs @ ys) = unread n ys"
  by (simp add: unread_def div_add_self1)

lemma length_unread: "length (unread n xs) = length xs mod n"
  by (simp add: unread_def minus_div_mult_eq_mod)

lemma length_unread_less [simp]: "0 < n \<Longrightarrow> length (unread n xs) < n"
  by (simp add: length_unread)

lemma whole_block_cases:
  assumes "0 < n"
  obtains (short) "length xs < n" | (long) ys zs where "xs = ys @ zs" "length ys = n"
  using assms by (metis append_take_drop_id length_take min.absorb2 not_less)

lemma chunks_append: "0 < n \<Longrightarrow> chunks n (xs @ ys) = chunks n xs @ chunks n (unread n xs @ ys)"
proof (induction n xs rule: chunks.induct)
  case (1 n xs)
  from \<open>0 < n\<close> show ?case
  proof (cases rule: whole_block_cases [where xs = xs])
    case short
    then show ?thesis by simp
  next
    case (long us vs)
    with 1 show ?thesis by (simp add: chunks_step unread_step)
  qed
qed

lemma unread_append: "0 < n \<Longrightarrow> unread n (xs @ ys) = unread n (unread n xs @ ys)"
proof (induction n xs rule: chunks.induct)
  case (1 n xs)
  from \<open>0 < n\<close> show ?case
  proof (cases rule: whole_block_cases [where xs = xs])
    case short
    then show ?thesis by simp
  next
    case (long us vs)
    with 1 show ?thesis by (simp add: unread_step)
  qed
qed

lemma length_chunks: "0 < n \<Longrightarrow> length (chunks n xs) = length xs div n"
proof (induction n xs rule: chunks.induct)
  case (1 n xs)
  from \<open>0 < n\<close> show ?case
  proof (cases rule: whole_block_cases [where xs = xs])
    case short
    then show ?thesis by simp
  next
    case (long us vs)
    with 1 show ?thesis by (simp add: chunks_step div_add_self1)
  qed
qed

lemma chunks_all_blocks: "b \<in> set (chunks n xs) \<Longrightarrow> length b = n"
proof (induction n xs rule: chunks.induct)
  case (1 n xs)
  then show ?case by (subst (asm) (2) chunks.simps) (auto split: if_splits)
qed

lemma concat_chunks: "0 < n \<Longrightarrow> concat (chunks n xs) @ unread n xs = xs"
proof (induction n xs rule: chunks.induct)
  case (1 n xs)
  from \<open>0 < n\<close> show ?case
  proof (cases rule: whole_block_cases [where xs = xs])
    case short
    then show ?thesis by simp
  next
    case (long us vs)
    with 1 show ?thesis by (simp add: chunks_step unread_step)
  qed
qed

lemma chunks_take: "0 < n \<Longrightarrow> chunks n (take (length xs div n * n) xs) = chunks n xs"
proof -
  assume n: "0 < n"
  let ?k = "length xs div n * n"
  have "length (take ?k xs) = ?k" by simp
  then have "unread n (take ?k xs) = []" using n by (simp add: unread_def)
  then have "chunks n (take ?k xs @ unread n xs) = chunks n (take ?k xs)"
    using n by (simp add: chunks_append [OF n])
  moreover have "take ?k xs @ unread n xs = xs" by (simp add: unread_def)
  ultimately show ?thesis by simp
qed

section \<open>The shared update and finalisation\<close>

definition stream_rest :: "nat \<Rightarrow> ('c \<Rightarrow> bytes \<Rightarrow> nat \<Rightarrow> 'c) \<Rightarrow> 'c \<Rightarrow> bytes \<Rightarrow> bytes \<Rightarrow> 'c \<times> bytes \<times> nat" where
  "stream_rest blk blocks c buf inp =
     (let sz = length inp;
          numBlocks = sz div blk;
          c = (if numBlocks > 0 then blocks c inp numBlocks else c);
          n = sz mod blk;
          buf = (if n > 0 then mem_put buf 0 (take n (drop (sz - sz mod blk) inp)) else buf)
      in (c, buf, n))"

definition stream_update ::
  "nat \<Rightarrow> ('c \<Rightarrow> bytes \<Rightarrow> nat \<Rightarrow> 'c) \<Rightarrow> 'c \<times> bytes \<times> nat \<Rightarrow> bytes \<Rightarrow> 'c \<times> bytes \<times> nat" where
  "stream_update blk blocks s inp =
     (case s of (c, buf, n) \<Rightarrow>
        if n > 0 then
          let numToRead = blk - n;
              numToRead = (if numToRead > length inp then length inp else numToRead);
              buf = mem_put buf n (take numToRead inp);
              n = n + numToRead
          in if n < blk then (c, buf, n)
             else stream_rest blk blocks (blocks c buf 1) buf (drop numToRead inp)
        else stream_rest blk blocks c buf inp)"

definition stream_finish ::
  "nat \<Rightarrow> nat \<Rightarrow> ('c \<Rightarrow> bytes \<Rightarrow> nat \<Rightarrow> 'c) \<Rightarrow> bytes \<Rightarrow> 'c \<times> bytes \<times> nat \<Rightarrow> 'c \<times> bytes \<times> nat" where
  "stream_finish blk lenPos blocks lenField s =
     (case s of (c, buf, n) \<Rightarrow>
        let buf = buf[n := 0x80]; n = n + 1;
            (c, buf, n) =
              (if n > lenPos then
                 let buf = mem_put buf n (replicate (blk - n) 0)
                 in (blocks c buf 1, buf, 0)
               else (c, buf, n));
            buf = mem_put buf n (replicate (lenPos - n) 0);
            buf = mem_put buf lenPos lenField
        in (blocks c buf 1, buf, n))"

definition pending :: "bytes \<times> nat \<Rightarrow> bytes" where
  "pending b = take (snd b) (fst b)"

definition md_pad :: "nat \<Rightarrow> nat \<Rightarrow> bytes \<Rightarrow> bytes \<Rightarrow> bytes" where
  "md_pad blk lenPos lenField msg =
     msg @ 0x80 # replicate ((lenPos + blk - (length msg + 1) mod blk) mod blk) 0 @ lenField"

lemma mem_put_put_end:
  "i + length xs = j \<Longrightarrow> j + length ys = length m \<Longrightarrow> mem_put (mem_put m i xs) j ys = take i m @ xs @ ys"
  using mem_put_append [of i xs ys m] by (auto simp: mem_put_def)

section \<open>The contract of a block function\<close>

locale block_stream =
  fixes blk :: nat and blocks :: "'c \<Rightarrow> bytes \<Rightarrow> nat \<Rightarrow> 'c" and compress :: "bytes \<Rightarrow> 'c \<Rightarrow> 'c"
  assumes blk_pos: "0 < blk"
    and blocks_one: "blk \<le> length inp \<Longrightarrow> blocks c inp 1 = compress (take blk inp) c"
    and blocks_more: "0 < n \<Longrightarrow> blk * Suc n \<le> length inp \<Longrightarrow>
      blocks c inp (Suc n) = blocks (compress (take blk inp) c) (drop blk inp) n"
begin

definition absorb :: "bytes \<Rightarrow> 'c \<Rightarrow> 'c" where
  "absorb bs c = fold compress (chunks blk bs) c"

lemma absorb_append: "absorb (xs @ ys) c = absorb (unread blk xs @ ys) (absorb xs c)"
  unfolding absorb_def by (subst chunks_append [OF blk_pos]) simp

lemma absorb_short [simp]: "length xs < blk \<Longrightarrow> absorb xs c = c"
  by (simp add: absorb_def)

lemma absorb_block: "length xs = blk \<Longrightarrow> absorb xs c = compress xs c"
  by (simp add: absorb_def blk_pos)

lemma blocks_absorb:
  "0 < n \<Longrightarrow> blk * n \<le> length inp \<Longrightarrow> blocks c inp n = absorb (take (blk * n) inp) c"
proof (induction n arbitrary: c inp)
  case (Suc n)
  show ?case
  proof (cases "n = 0")
    case True
    with Suc.prems blocks_one show ?thesis by (simp add: absorb_block)
  next
    case False
    have "take (blk * Suc n) inp = take blk inp @ take (blk * n) (drop blk inp)"
      by (simp add: take_add)
    moreover have "length (take blk inp) = blk" using Suc.prems by simp
    ultimately have "absorb (take (blk * Suc n) inp) c = absorb (take (blk * n) (drop blk inp)) (compress (take blk inp) c)"
      by (simp add: absorb_def chunks_step blk_pos)
    with Suc.IH [of "drop blk inp" "compress (take blk inp) c"] Suc.prems False blocks_more [of n inp c]
    show ?thesis by simp
  qed
qed simp

lemma stream_rest_absorbs:
  assumes "length buf = blk" "stream_rest blk blocks c buf inp = (c', buf', n')"
  shows "c' = absorb inp c" "pending (buf', n') = unread blk inp" "length buf' = blk" "n' < blk"
    "n' = length inp mod blk"
proof -
  let ?k = "length inp div blk"
  have out: "c' = (if ?k > 0 then blocks c inp ?k else c)" "n' = length inp mod blk"
    "buf' = (if n' > 0 then mem_put buf 0 (take n' (drop (length inp - length inp mod blk) inp)) else buf)"
    using assms(2) by (auto simp: stream_rest_def Let_def)
  show n: "n' < blk" "n' = length inp mod blk" using out(2) blk_pos by simp_all
  show "c' = absorb inp c"
    using out(1) blocks_absorb [of ?k inp c] chunks_take [OF blk_pos, of inp] blk_pos
    by (auto simp: absorb_def mult.commute div_eq_0_iff)
  have rest: "take n' (drop (length inp - length inp mod blk) inp) = unread blk inp"
    by (simp add: unread_def out(2) minus_mod_eq_div_mult minus_div_mult_eq_mod)
  then have len: "length (unread blk inp) = n'" by (simp add: length_unread out(2))
  show "length buf' = blk"
    using out(3) assms(1) n rest len by simp
  show "pending (buf', n') = unread blk inp"
    using out(3) assms(1) n(1) len unfolding rest by (auto simp: pending_def mem_put_def)
qed

lemma stream_update_absorbs:
  assumes "length buf = blk" "n < blk" "stream_update blk blocks (c, buf, n) inp = (c', buf', n')"
  shows "c' = absorb (pending (buf, n) @ inp) c \<and> pending (buf', n') = unread blk (pending (buf, n) @ inp)
    \<and> length buf' = blk \<and> n' < blk"
proof (cases "n > 0")
  case False
  then have "stream_rest blk blocks c buf inp = (c', buf', n')"
    using assms(3) by (simp add: stream_update_def)
  with assms(1) stream_rest_absorbs [of buf c inp c' buf' n'] False show ?thesis
    by (simp add: pending_def)
next
  case True
  let ?r = "min (blk - n) (length inp)"
  let ?buf = "mem_put buf n (take ?r inp)"
  have len: "length ?buf = blk" using assms(1,2) by simp
  have pend: "take (n + ?r) ?buf = pending (buf, n) @ take ?r inp"
    using assms(1,2) by (simp add: mem_put_def pending_def)
  have upd: "stream_update blk blocks (c, buf, n) inp =
     (if n + ?r < blk then (c, ?buf, n + ?r)
      else stream_rest blk blocks (blocks c ?buf 1) ?buf (drop ?r inp))"
    using True assms(2) by (auto simp: stream_update_def Let_def min_def)
  show ?thesis
  proof (cases "n + length inp < blk")
    case short: True
    then have "?r = length inp" by simp
    then have *: "c' = c" "buf' = ?buf" "n' = n + length inp" using upd short assms(3) by simp_all
    moreover have "length (pending (buf, n) @ inp) < blk" using short assms(1,2) by (simp add: pending_def)
    moreover have "pending (buf', n') = pending (buf, n) @ inp"
      using pend * \<open>?r = length inp\<close> by (simp add: pending_def)
    ultimately show ?thesis using len short by simp
  next
    case False
    then have r: "?r = blk - n" "n + ?r = blk" using assms(2) by simp_all
    have full: "?buf = pending (buf, n) @ take ?r inp" using pend r(2) len by simp
    have "stream_rest blk blocks (compress ?buf c) ?buf (drop ?r inp) = (c', buf', n')"
      using upd r(2) assms(3) blocks_one [of ?buf c] len by simp
    note R = stream_rest_absorbs [OF len this]
    have split: "pending (buf, n) @ inp = ?buf @ drop ?r inp"
      unfolding full by simp
    have "absorb (pending (buf, n) @ inp) c = absorb (drop ?r inp) (compress ?buf c)"
      unfolding split using len by (simp add: absorb_def chunks_step blk_pos)
    moreover have "unread blk (pending (buf, n) @ inp) = unread blk (drop ?r inp)"
      unfolding split using len by (simp add: unread_step blk_pos)
    ultimately show ?thesis using R by simp
  qed
qed

end

section \<open>A stream object: a record with an update operation\<close>

locale stream_object = block_stream +
  fixes view :: "'s \<Rightarrow> 'a \<times> bytes \<times> nat" and update :: "'s \<Rightarrow> bytes \<Rightarrow> 's"
  assumes view_update: "view (update s inp) = stream_update blk blocks (view s) inp"
begin

definition holds :: "'a \<Rightarrow> bytes \<Rightarrow> 's \<Rightarrow> bool" where
  "holds c0 msg s = (case view s of (c, buf, n) \<Rightarrow>
     length buf = blk \<and> n < blk \<and> c = absorb msg c0 \<and> pending (buf, n) = unread blk msg)"

lemma holds_update:
  assumes "holds c0 msg s"
  shows "holds c0 (msg @ inp) (update s inp)"
proof -
  obtain c buf n where v: "view s = (c, buf, n)" by (cases "view s")
  obtain c' buf' n' where v': "view (update s inp) = (c', buf', n')" by (cases "view (update s inp)")
  have s: "length buf = blk" "n < blk" "c = absorb msg c0" "pending (buf, n) = unread blk msg"
    using assms v by (simp_all add: holds_def)
  have "stream_update blk blocks (c, buf, n) inp = (c', buf', n')"
    using v v' view_update [of s inp] by simp
  then have "c' = absorb (unread blk msg @ inp) (absorb msg c0)"
    "pending (buf', n') = unread blk (unread blk msg @ inp)" "length buf' = blk" "n' < blk"
    using stream_update_absorbs [OF s(1,2)] s(3,4) by metis+
  then show ?thesis
    using v' absorb_append [of msg inp c0] unread_append [OF blk_pos, of msg inp] by (simp add: holds_def)
qed

lemma holds_updates: "holds c0 msg s \<Longrightarrow> holds c0 (msg @ concat parts) (fold (\<lambda>p s. update s p) parts s)"
proof (induction parts arbitrary: msg s)
  case (Cons p parts)
  from Cons.IH [OF holds_update [OF Cons.prems, of p]] show ?case by simp
qed simp

lemma holds_fresh: "view s = (c0, buf, 0) \<Longrightarrow> length buf = blk \<Longrightarrow> holds c0 [] s"
  by (simp add: holds_def pending_def blk_pos)

lemma holds_view:
  assumes "holds c0 msg s" "view s = (c, buf, n)"
  shows "c = absorb msg c0" "pending (buf, n) = unread blk msg" "length buf = blk" "n < blk"
    "n = length msg mod blk"
proof -
  show *: "c = absorb msg c0" "pending (buf, n) = unread blk msg" "length buf = blk" "n < blk"
    using assms by (simp_all add: holds_def)
  have "length (pending (buf, n)) = n" using *(3,4) by (simp add: pending_def)
  then show "n = length msg mod blk" using *(2) by (simp add: length_unread)
qed

end

section \<open>Merkle-Damgard finalisation\<close>

locale padded_stream = block_stream +
  fixes lenPos :: nat
  assumes lenPos_pos: "0 < lenPos" and lenPos_less: "lenPos < blk"
begin

lemma md_zeros:
  assumes "n < blk"
  shows "(lenPos + blk - (n + 1) mod blk) mod blk = (if n + 1 \<le> lenPos then lenPos - (n + 1) else blk - (n + 1) + lenPos)"
proof -
  consider "n + 1 \<le> lenPos" | "lenPos < n + 1" "n + 1 < blk" | "n + 1 = blk" using assms by linarith
  then show ?thesis
  proof cases
    case 1
    have "(lenPos + blk - (n + 1)) mod blk = (lenPos - (n + 1) + blk) mod blk" using 1 by simp
    also have "\<dots> = lenPos - (n + 1)" using 1 lenPos_less by (simp only: mod_add_self2) simp
    finally show ?thesis using 1 lenPos_less by simp
  next
    case 2
    then show ?thesis by simp
  next
    case 3
    then show ?thesis using lenPos_less by simp
  qed
qed

lemma length_md_pad:
  assumes "length lenField = blk - lenPos"
  shows "length (md_pad blk lenPos lenField msg) mod blk = 0"
proof -
  let ?n = "length msg mod blk"
  have n: "?n < blk" using blk_pos by simp
  have "(length msg + 1) mod blk = (?n + 1) mod blk" by (simp add: mod_Suc_eq)
  then have "length (md_pad blk lenPos lenField msg) =
      length msg + 1 + (if ?n + 1 \<le> lenPos then lenPos - (?n + 1) else blk - (?n + 1) + lenPos) + (blk - lenPos)"
    using assms md_zeros [OF n] by (simp add: md_pad_def)
  also have "\<dots> = (length msg - ?n) + (if ?n + 1 \<le> lenPos then blk else blk + blk)"
    using n lenPos_less mod_less_eq_dividend [of "length msg" blk] by (cases "?n + 1 \<le> lenPos"; simp only: if_True if_False; linarith)
  also have "\<dots> mod blk = 0"
    by (simp add: minus_mod_eq_mult_div)
  finally show ?thesis .
qed

lemma absorb_md_pad:
  "absorb (md_pad blk lenPos lenField msg) c = absorb (md_pad blk lenPos lenField (unread blk msg)) (absorb msg c)"
proof -
  have "(length (unread blk msg) + 1) mod blk = (length msg + 1) mod blk"
    by (simp add: length_unread mod_Suc_eq)
  then show ?thesis unfolding md_pad_def using absorb_append [of msg _ c] by simp
qed

lemma stream_finish_absorbs:
  assumes "length buf = blk" "n < blk" "length lenField = blk - lenPos"
    "stream_finish blk lenPos blocks lenField (c, buf, n) = (c', buf', n')"
  shows "c' = absorb (md_pad blk lenPos lenField (pending (buf, n))) c"
proof -
  let ?p = "pending (buf, n)"
  let ?b = "buf[n := 0x80]"
  have b: "take (Suc n) ?b = ?p @ [0x80]" "length ?b = blk"
    using assms(1,2) by (simp_all add: pending_def take_Suc_conv_app_nth)
  have p: "length ?p = n" using assms(1,2) by (simp add: pending_def)
  show ?thesis
  proof (cases "n + 1 > lenPos")
    case False
    let ?z = "mem_put (mem_put ?b (n + 1) (replicate (lenPos - (n + 1)) 0)) lenPos lenField"
    have "c' = blocks c ?z 1" using False assms(4) by (auto simp: stream_finish_def Let_def)
    moreover have z: "?z = md_pad blk lenPos lenField ?p"
      using False b assms(3) lenPos_less md_zeros [OF assms(2)]
      by (subst mem_put_put_end) (auto simp: md_pad_def p)
    moreover have "length ?z = blk" using False b assms(3) lenPos_less by simp
    ultimately show ?thesis using blocks_one [of ?z c] by (simp add: absorb_block)
  next
    case True
    let ?y = "mem_put ?b (n + 1) (replicate (blk - (n + 1)) 0)"
    let ?z = "mem_put (mem_put ?y 0 (replicate lenPos 0)) lenPos lenField"
    have c': "c' = blocks (blocks c ?y 1) ?z 1"
      using True assms(4) by (auto simp: stream_finish_def Let_def)
    have y: "?y = ?p @ 0x80 # replicate (blk - (n + 1)) 0"
      using b assms(2) mem_put_put_end [of "n + 1" "replicate (blk - (n + 1)) 0" blk "[]" ?b] by simp
    have z: "?z = replicate lenPos 0 @ lenField"
      using b assms(2,3) lenPos_less by (subst mem_put_put_end) auto
    have "md_pad blk lenPos lenField ?p = (?p @ 0x80 # replicate (blk - (n + 1)) 0) @ (replicate lenPos 0 @ lenField)"
      using True md_zeros [OF assms(2)] by (simp add: md_pad_def p replicate_add)
    then have "md_pad blk lenPos lenField ?p = ?y @ ?z" by (simp only: y [symmetric] z [symmetric])
    moreover have "length ?y = blk" "length ?z = blk" using b assms(2,3) lenPos_less by simp_all
    ultimately have "absorb (md_pad blk lenPos lenField ?p) c = compress ?z (compress ?y c)"
      by (simp add: absorb_def chunks_step blk_pos)
    then show ?thesis
      using c' blocks_one [of ?y c] blocks_one [of ?z "compress ?y c"] \<open>length ?y = blk\<close> \<open>length ?z = blk\<close> by simp
  qed
qed

end

section \<open>A hash object with a block counter\<close>

text \<open>
  The hash records count the blocks they process in a 64-bit counter next to the chaining value;
  \<open>counted\<close> is the block function with that counter.
\<close>

definition counted :: "('c \<Rightarrow> bytes \<Rightarrow> nat \<Rightarrow> 'c) \<Rightarrow> 'c \<times> u64 \<Rightarrow> bytes \<Rightarrow> nat \<Rightarrow> 'c \<times> u64" where
  "counted blocks ck inp n = (blocks (fst ck) inp n, snd ck + word_of_nat n)"

definition counted_compress :: "(bytes \<Rightarrow> 'c \<Rightarrow> 'c) \<Rightarrow> bytes \<Rightarrow> 'c \<times> u64 \<Rightarrow> 'c \<times> u64" where
  "counted_compress compress b ck = (compress b (fst ck), snd ck + 1)"

lemma fold_counted_compress:
  "fold (counted_compress compress) bs (c, k) = (fold compress bs c, k + word_of_nat (length bs))"
  by (induction bs arbitrary: c k) (simp_all add: counted_compress_def algebra_simps)

locale md_hash = padded_stream +
  fixes view :: "'s \<Rightarrow> ('a \<times> u64) \<times> bytes \<times> nat" and update :: "'s \<Rightarrow> bytes \<Rightarrow> 's"
    and lenField :: "u64 \<Rightarrow> nat \<Rightarrow> bytes" and finish :: "'s \<Rightarrow> 'a"
  assumes hash_update: "view (update s inp) = stream_update blk (counted blocks) (view s) inp"
    and hash_finish: "view s = ((c, k), buf, n) \<Longrightarrow> length buf = blk \<Longrightarrow> n < blk \<Longrightarrow>
      finish s = fst (stream_finish blk lenPos blocks (lenField k n) (c, buf, n))"
    and lenField_length: "length (lenField k n) = blk - lenPos"

sublocale md_hash \<subseteq> obj: stream_object blk "counted blocks" "counted_compress compress" view update
proof
  show "0 < blk" by (rule blk_pos)
  show "counted blocks c inp 1 = counted_compress compress (take blk inp) c" if "blk \<le> length inp" for c inp
    using blocks_one [OF that] by (simp add: counted_def counted_compress_def)
  show "counted blocks c inp (Suc n) = counted blocks (counted_compress compress (take blk inp) c) (drop blk inp) n"
    if "0 < n" "blk * Suc n \<le> length inp" for c inp n
    using blocks_more [OF that] by (simp add: counted_def counted_compress_def algebra_simps)
  show "view (update s inp) = stream_update blk (counted blocks) (view s) inp" for s inp
    by (rule hash_update)
qed

context md_hash
begin

lemma counted_absorb: "obj.absorb bs (c, k) = (absorb bs c, k + word_of_nat (length bs div blk))"
  by (simp add: obj.absorb_def absorb_def fold_counted_compress length_chunks blk_pos)

lemma hash_of_parts:
  fixes parts
  defines "msg \<equiv> concat parts"
  assumes "view s = ((c0, 0), buf, 0)" "length buf = blk"
  shows "finish (fold (\<lambda>p s. update s p) parts s) =
    absorb (md_pad blk lenPos (lenField (word_of_nat (length msg div blk)) (length msg mod blk)) msg) c0"
proof -
  let ?s = "fold (\<lambda>p s. update s p) parts s"
  have h: "obj.holds (c0, 0) msg ?s"
    using obj.holds_updates [OF obj.holds_fresh [OF assms(2,3)], of parts] by (simp add: msg_def)
  obtain c k buf' n where v: "view ?s = ((c, k), buf', n)" by (metis prod.exhaust)
  note V = obj.holds_view [OF h v]
  have ck: "c = absorb msg c0" "k = word_of_nat (length msg div blk)" using V(1) by (simp_all add: counted_absorb)
  obtain c' buf'' n' where f: "stream_finish blk lenPos blocks (lenField k n) (c, buf', n) = (c', buf'', n')"
    by (metis prod.exhaust)
  have "finish ?s = absorb (md_pad blk lenPos (lenField k n) (unread blk msg)) c"
    using hash_finish [OF v V(3,4)] stream_finish_absorbs [OF V(3,4) lenField_length f] f V(2) by simp
  then show ?thesis using absorb_md_pad [of "lenField k n" msg c0] ck V(5) by simp
qed

end

section \<open>Big-endian output\<close>

definition be_bytes :: "nat \<Rightarrow> nat \<Rightarrow> bytes" where
  "be_bytes n x = rev (le_bytes n x)"

lemma length_be_bytes [simp]: "length (be_bytes n x) = n"
  by (simp add: be_bytes_def)

lemma le_bytes_mod: "le_bytes n (x mod 256 ^ n) = le_bytes n x"
  by (metis le_bytes_le_nat le_nat_le_bytes length_le_bytes)

lemma be_bytes_mod: "be_bytes n (x mod 256 ^ n) = be_bytes n x"
  by (simp add: be_bytes_def le_bytes_mod)

lemma le_bytes_append: "le_bytes (n + k) x = le_bytes n x @ le_bytes k (x div 256 ^ n)"
  by (induction n arbitrary: x) (simp_all add: div_mult2_eq)

lemma be_bytes_append: "be_bytes (k + n) x = be_bytes k (x div 256 ^ n) @ be_bytes n x"
  using le_bytes_append [of n k x] by (simp add: be_bytes_def add.commute)

lemma le_bytes_rev_le_nat: "length bs = n \<Longrightarrow> 8 * n = LENGTH('a::len) \<Longrightarrow>
  le_bytes n (unat (word_of_nat (le_nat bs) :: 'a word)) = bs"
  using unat_word_of_le_nat [of bs, where 'a = 'a] le_bytes_le_nat [of bs] by simp

lemma storeU32BE_put: "mem_storeU32BE m i x = mem_put m i (be_bytes 4 (unat x))"
  unfolding mem_storeU32BE_def mem_storeU32_def hc_BSWAP32_def be_bytes_def
  by (subst le_bytes_rev_le_nat) simp_all

lemma storeU64BE_put: "mem_storeU64BE m i x = mem_put m i (be_bytes 8 (unat x))"
  unfolding mem_storeU64BE_def mem_storeU64_def hc_BSWAP64_def be_bytes_def
  by (subst le_bytes_rev_le_nat) simp_all

lemma be_bytes_word_of_nat: "8 * n = LENGTH('a::len) \<Longrightarrow> be_bytes n (unat (word_of_nat x :: 'a word)) = be_bytes n x"
  using le_bytes_mod [of n x] by (simp add: be_bytes_def unat_of_nat power256)

lemma fold_store_prefix:
  "n \<le> k \<Longrightarrow> fold (\<lambda>i w. w[i := f i]) [0..<n] (replicate k z) = map f [0..<n] @ replicate (k - n) z"
proof (induction n)
  case (Suc n)
  then have "replicate (k - n) z = z # replicate (k - Suc n) z"
    by (metis Suc_diff_Suc Suc_le_lessD replicate_Suc)
  with Suc show ?case by (simp add: list_update_append)
qed simp

lemma fold_put_words:
  assumes "\<And>x. length (f x) = w" "i + w * length xs \<le> length m"
  shows "fold (\<lambda>j m. mem_put m (i + w * j) (f (xs ! j))) [0..<length xs] m = mem_put m i (concat (map f xs))"
  using assms(2)
proof (induction xs rule: rev_induct)
  case (snoc x xs)
  have len: "length (concat (map f xs)) = w * length xs" using assms(1) by (induction xs) auto
  have "fold (\<lambda>j m. mem_put m (i + w * j) (f ((xs @ [x]) ! j))) [0..<length xs] m =
      fold (\<lambda>j m. mem_put m (i + w * j) (f (xs ! j))) [0..<length xs] m"
    by (intro fold_cong) (auto simp: nth_append)
  also have "\<dots> = mem_put m i (concat (map f xs))" using snoc by simp
  finally show ?case
    using mem_put_append [of i "concat (map f xs)" "f x" m] snoc.prems assms(1) len by simp
qed simp

end
