(* ===== verification/Sha1.thy ===== *)
theory Sha1
  imports Block_Stream
begin

text \<open>
  \<^verbatim>\<open>src/hc/core/hc/crypto/sha1.c\<close>. The code keeps the working variables in one array \<open>r\<close>; round \<open>i\<close>
  reads e, d, c, b, a from \<open>r[i]\<close>..\<open>r[i + 4]\<close>, writes the new a to \<open>r[i + 5]\<close> and rotates b in place.
  It is shown to compute the FIPS 180-4 digest under every way of cutting the message.
\<close>

section \<open>The code\<close>

record sha1 =
  sha1_blockCounter :: u64
  sha1_buffer :: bytes
  sha1_bufferSize :: nat
  sha1_state :: "u32 list"

definition sha1_schedule_step :: "nat \<Rightarrow> u32 list \<Rightarrow> u32 list" where
  "sha1_schedule_step i w =
     w[i + 16 := word_rotl 1 (w ! (i + 13) XOR w ! (i + 8) XOR w ! (i + 2) XOR w ! i)]"

definition sha1_round_1 :: "u32 list \<Rightarrow> nat \<Rightarrow> u32 list \<Rightarrow> u32 list" where
  "sha1_round_1 w i r =
     (let r = r[i + 5 := r ! i + w ! i + 0x5A827999 + word_rotl 5 (r ! (i + 4)) +
                ((r ! (i + 3) AND (r ! (i + 2) XOR r ! (i + 1))) XOR r ! (i + 1))]
      in r[i + 3 := word_rotl 30 (r ! (i + 3))])"

definition sha1_round_2 :: "u32 list \<Rightarrow> nat \<Rightarrow> u32 list \<Rightarrow> u32 list" where
  "sha1_round_2 w i r =
     (let r = r[i + 5 := r ! i + w ! i + 0x6ED9EBA1 + word_rotl 5 (r ! (i + 4)) +
                (r ! (i + 3) XOR r ! (i + 2) XOR r ! (i + 1))]
      in r[i + 3 := word_rotl 30 (r ! (i + 3))])"

definition sha1_round_3 :: "u32 list \<Rightarrow> nat \<Rightarrow> u32 list \<Rightarrow> u32 list" where
  "sha1_round_3 w i r =
     (let r = r[i + 5 := r ! i + w ! i + 0x8F1BBCDC + word_rotl 5 (r ! (i + 4)) +
                (((r ! (i + 3) OR r ! (i + 2)) AND r ! (i + 1)) OR (r ! (i + 3) AND r ! (i + 2)))]
      in r[i + 3 := word_rotl 30 (r ! (i + 3))])"

definition sha1_round_4 :: "u32 list \<Rightarrow> nat \<Rightarrow> u32 list \<Rightarrow> u32 list" where
  "sha1_round_4 w i r =
     (let r = r[i + 5 := r ! i + w ! i + 0xCA62C1D6 + word_rotl 5 (r ! (i + 4)) +
                (r ! (i + 3) XOR r ! (i + 2) XOR r ! (i + 1))]
      in r[i + 3 := word_rotl 30 (r ! (i + 3))])"

definition sha1_block :: "u32 list \<Rightarrow> bytes \<Rightarrow> u32 list" where
  "sha1_block state inp =
     (let w = replicate 80 0; r = replicate 85 0;
          r = r[0 := state ! 4, 1 := state ! 3, 2 := state ! 2, 3 := state ! 1, 4 := state ! 0];
          w = fold (\<lambda>i w. w[i := mem_loadU32BE (drop (4 * i) inp)]) [0..<16] w;
          w = fold sha1_schedule_step [0..<64] w;
          r = fold (sha1_round_1 w) [0..<20] r;
          r = fold (sha1_round_2 w) [20..<40] r;
          r = fold (sha1_round_3 w) [40..<60] r;
          r = fold (sha1_round_4 w) [60..<80] r
      in state[0 := state ! 0 + r ! 84, 1 := state ! 1 + r ! 83, 2 := state ! 2 + r ! 82,
               3 := state ! 3 + r ! 81, 4 := state ! 4 + r ! 80])"

text \<open>The \<open>do ... while (--numBlocks)\<close> loop; every call passes \<open>numBlocks \<ge> 1\<close>.\<close>

fun sha1_blocks :: "u32 list \<Rightarrow> bytes \<Rightarrow> nat \<Rightarrow> u32 list" where
  "sha1_blocks state inp numBlocks =
     (let state = sha1_block state inp
      in if numBlocks - 1 = 0 then state else sha1_blocks state (drop 64 inp) (numBlocks - 1))"

declare sha1_blocks.simps [simp del]

definition sha1_init :: "sha1 \<Rightarrow> sha1" where
  "sha1_init self = self\<lparr>
     sha1_state := [0x67452301, 0xEFCDAB89, 0x98BADCFE, 0x10325476, 0xC3D2E1F0],
     sha1_blockCounter := 0, sha1_bufferSize := 0\<rparr>"

definition sha1_update_rest :: "sha1 \<Rightarrow> bytes \<Rightarrow> sha1" where
  "sha1_update_rest self inp =
     (let sz = length inp;
          numBlocks = sz div 64;
          self = (if numBlocks > 0 then
                    self\<lparr>sha1_state := sha1_blocks (sha1_state self) inp numBlocks,
                         sha1_blockCounter := sha1_blockCounter self + word_of_nat numBlocks\<rparr>
                  else self);
          self = self\<lparr>sha1_bufferSize := sz mod 64\<rparr>
      in if sha1_bufferSize self > 0 then
           self\<lparr>sha1_buffer := mem_put (sha1_buffer self) 0
                  (take (sha1_bufferSize self) (drop (sz - sz mod 64) inp))\<rparr>
         else self)"

definition sha1_update :: "sha1 \<Rightarrow> bytes \<Rightarrow> sha1" where
  "sha1_update self inp =
     (if sha1_bufferSize self > 0 then
        let numToRead = 64 - sha1_bufferSize self;
            numToRead = (if numToRead > length inp then length inp else numToRead);
            self = self\<lparr>sha1_buffer := mem_put (sha1_buffer self) (sha1_bufferSize self) (take numToRead inp)\<rparr>;
            self = self\<lparr>sha1_bufferSize := sha1_bufferSize self + numToRead\<rparr>
        in if sha1_bufferSize self < 64 then self
           else
             let self = self\<lparr>sha1_state := sha1_blocks (sha1_state self) (sha1_buffer self) 1\<rparr>;
                 self = self\<lparr>sha1_blockCounter := sha1_blockCounter self + 1\<rparr>
             in sha1_update_rest self (drop numToRead inp)
      else sha1_update_rest self inp)"

definition sha1_numBits :: "sha1 \<Rightarrow> u64" where
  "sha1_numBits self =
     push_bit 3 (push_bit 6 (sha1_blockCounter self) + word_of_nat (sha1_bufferSize self))"

definition sha1_finish :: "sha1 \<Rightarrow> bytes \<Rightarrow> sha1 \<times> bytes" where
  "sha1_finish self hash =
     (let numBits = sha1_numBits self;
          self = self\<lparr>sha1_buffer := (sha1_buffer self)[sha1_bufferSize self := 0x80],
                      sha1_bufferSize := sha1_bufferSize self + 1\<rparr>;
          self = (if sha1_bufferSize self > 56 then
                    let self = self\<lparr>sha1_buffer := mem_put (sha1_buffer self) (sha1_bufferSize self)
                                     (replicate (64 - sha1_bufferSize self) 0)\<rparr>
                    in self\<lparr>sha1_state := sha1_blocks (sha1_state self) (sha1_buffer self) 1,
                            sha1_bufferSize := 0\<rparr>
                  else self);
          buf = mem_put (sha1_buffer self) (sha1_bufferSize self)
                  (replicate (56 - sha1_bufferSize self) 0);
          buf = mem_storeU64BE buf 56 numBits;
          self = self\<lparr>sha1_buffer := buf, sha1_state := sha1_blocks (sha1_state self) buf 1\<rparr>
      in (self, fold (\<lambda>i h. mem_storeU32BE h (4 * i) (sha1_state self ! i)) [0..<5] hash))"

section \<open>FIPS 180-4\<close>

datatype sha1_vars = Sha1_Vars (a1: u32) (b1: u32) (c1: u32) (d1: u32) (e1: u32)

definition sha1_f :: "nat \<Rightarrow> u32 \<Rightarrow> u32 \<Rightarrow> u32 \<Rightarrow> u32" where
  "sha1_f t x y z =
     (if t < 20 then (x AND y) XOR (NOT x AND z)
      else if t < 40 then x XOR y XOR z
      else if t < 60 then (x AND y) XOR (x AND z) XOR (y AND z)
      else x XOR y XOR z)"

definition sha1_K :: "nat \<Rightarrow> u32" where
  "sha1_K t = (if t < 20 then 0x5A827999 else if t < 40 then 0x6ED9EBA1 else if t < 60 then 0x8F1BBCDC else 0xCA62C1D6)"

definition sha1_round :: "nat \<Rightarrow> u32 \<Rightarrow> sha1_vars \<Rightarrow> sha1_vars" where
  "sha1_round t w v = (case v of Sha1_Vars a b c d e \<Rightarrow>
     Sha1_Vars (word_rotl 5 a + sha1_f t b c d + e + sha1_K t + w) a (word_rotl 30 b) c d)"

primrec sha1_schedule :: "nat \<Rightarrow> u32 list \<Rightarrow> u32 list" where
  "sha1_schedule 0 ws = ws"
| "sha1_schedule (Suc k) ws =
     (let ws = sha1_schedule k ws; t = length ws
      in ws @ [word_rotl 1 (ws ! (t - 3) XOR ws ! (t - 8) XOR ws ! (t - 14) XOR ws ! (t - 16))])"

definition sha1_compress :: "bytes \<Rightarrow> u32 list \<Rightarrow> u32 list" where
  "sha1_compress block H =
     (let W = sha1_schedule 64 (map (\<lambda>t. mem_loadU32BE (drop (4 * t) block)) [0..<16]);
          v = fold (\<lambda>t. sha1_round t (W ! t)) [0..<80] (Sha1_Vars (H ! 0) (H ! 1) (H ! 2) (H ! 3) (H ! 4))
      in [H ! 0 + a1 v, H ! 1 + b1 v, H ! 2 + c1 v, H ! 3 + d1 v, H ! 4 + e1 v])"

section \<open>The block function computes the FIPS compression function\<close>

lemma length_sha1_schedule [simp]: "length (sha1_schedule k ws) = length ws + k"
  by (induction k) (auto simp: Let_def)

lemma sha1_schedule_array:
  assumes "length ws = 16" "k \<le> 64"
  shows "fold sha1_schedule_step [0..<k] (ws @ replicate 64 0) = sha1_schedule k ws @ replicate (64 - k) 0"
  using assms(2)
proof (induction k)
  case (Suc k)
  let ?V = "sha1_schedule k ws"
  have len: "length ?V = k + 16" using assms(1) by simp
  have "replicate (64 - k) (0::u32) = 0 # replicate (64 - Suc k) 0"
    using Suc.prems by (metis Suc_diff_Suc Suc_le_lessD replicate_Suc)
  then show ?case
    using Suc len by (simp add: sha1_schedule_step_def Let_def nth_append list_update_append add.commute)
qed simp

definition sha1_window :: "u32 list \<Rightarrow> nat \<Rightarrow> sha1_vars" where
  "sha1_window r i = Sha1_Vars (r ! (i + 4)) (r ! (i + 3)) (r ! (i + 2)) (r ! (i + 1)) (r ! i)"

definition sha1_round_any :: "u32 list \<Rightarrow> nat \<Rightarrow> u32 list \<Rightarrow> u32 list" where
  "sha1_round_any w i r =
     r[i + 5 := word_rotl 5 (r ! (i + 4)) + sha1_f i (r ! (i + 3)) (r ! (i + 2)) (r ! (i + 1)) + r ! i + sha1_K i + w ! i,
       i + 3 := word_rotl 30 (r ! (i + 3))]"

lemma choose_xor_1: "(x AND (y XOR z)) XOR z = (x AND y) XOR (NOT x AND z)" for x y z :: u32
  by (rule bit_word_eqI) (auto simp: bit_simps)

lemma majority_or: "((x OR y) AND z) OR (x AND y) = (x AND y) XOR (x AND z) XOR (y AND z)" for x y z :: u32
  by (rule bit_word_eqI) (auto simp: bit_simps)

lemma sha1_round_cases:
  "i < 20 \<Longrightarrow> sha1_round_1 w i r = sha1_round_any w i r"
  "20 \<le> i \<Longrightarrow> i < 40 \<Longrightarrow> sha1_round_2 w i r = sha1_round_any w i r"
  "40 \<le> i \<Longrightarrow> i < 60 \<Longrightarrow> sha1_round_3 w i r = sha1_round_any w i r"
  "60 \<le> i \<Longrightarrow> i < 80 \<Longrightarrow> sha1_round_4 w i r = sha1_round_any w i r"
  by (simp_all add: sha1_round_1_def sha1_round_2_def sha1_round_3_def sha1_round_4_def sha1_round_any_def
      sha1_f_def sha1_K_def choose_xor_1 majority_or add_ac)

lemma fold_upt_cong: "(\<And>i. a \<le> i \<Longrightarrow> i < b \<Longrightarrow> f i = g i) \<Longrightarrow> fold f [a..<b] = fold g [a..<b]"
  by (intro ext fold_cong) auto

lemma sha1_rounds_any:
  "fold (sha1_round_4 w) [60..<80] (fold (sha1_round_3 w) [40..<60]
     (fold (sha1_round_2 w) [20..<40] (fold (sha1_round_1 w) [0..<20] r))) = fold (sha1_round_any w) [0..<80] r"
proof -
  have "fold (sha1_round_1 w) [0..<20] = fold (sha1_round_any w) [0..<20]"
    "fold (sha1_round_2 w) [20..<40] = fold (sha1_round_any w) [20..<40]"
    "fold (sha1_round_3 w) [40..<60] = fold (sha1_round_any w) [40..<60]"
    "fold (sha1_round_4 w) [60..<80] = fold (sha1_round_any w) [60..<80]"
    by (intro fold_upt_cong ext; simp only: sha1_round_cases)+
  moreover have "[0..<80] = [0..<20] @ [20..<40] @ [40..<60] @ [60..<80::nat]"
    using upt_add_eq_append [of 0 20 60] upt_add_eq_append [of 20 40 40] upt_add_eq_append [of 40 60 20] by simp
  ultimately show ?thesis by simp
qed

lemma length_sha1_round_any [simp]: "length (sha1_round_any w i r) = length r"
  by (simp add: sha1_round_any_def)

lemma sha1_window_step:
  assumes "n < 80" "length r = 85"
  shows "sha1_window (sha1_round_any w n r) (Suc n) = sha1_round n (w ! n) (sha1_window r n)"
proof -
  let ?r = "sha1_round_any w n r"
  have "sha1_window ?r (Suc n) = Sha1_Vars (?r ! (n + 5)) (?r ! (n + 4)) (?r ! (n + 3)) (?r ! (n + 2)) (?r ! (n + 1))"
    by (simp add: sha1_window_def add.commute numeral_eq_Suc)
  then show ?thesis
    using assms by (simp add: sha1_window_def sha1_round_def sha1_round_any_def algebra_simps)
qed

lemma sha1_window_fold:
  assumes "length r = 85" "n \<le> 80"
  shows "sha1_window (fold (sha1_round_any w) [0..<n] r) n =
      fold (\<lambda>t. sha1_round t (w ! t)) [0..<n] (sha1_window r 0) \<and>
    length (fold (sha1_round_any w) [0..<n] r) = 85"
  using assms(2)
proof (induction n)
  case (Suc n)
  then show ?case
    using sha1_window_step [of n "fold (sha1_round_any w) [0..<n] r" w] by simp
qed (simp add: assms(1))

lemma sha1_load_window: "i < 16 \<Longrightarrow> mem_loadU32BE (drop (4 * i) (take 64 inp)) = mem_loadU32BE (drop (4 * i) inp)"
  by (simp add: mem_loadU32BE_def mem_loadU32_def drop_take min_def)

lemma sha1_load_words:
  "fold (\<lambda>i w. w[i := mem_loadU32BE (drop (4 * i) inp)]) [0..<16] (replicate 80 0) =
   map (\<lambda>i. mem_loadU32BE (drop (4 * i) inp)) [0..<16] @ replicate 64 0"
  using fold_store_prefix [of 16 80 "\<lambda>i. mem_loadU32BE (drop (4 * i) inp)" 0] by simp

lemma list_update_5: "length s = 5 \<Longrightarrow> s[0 := x0, 1 := x1, 2 := x2, 3 := x3, 4 := x4] = [x0, x1, x2, x3, x4]"
  by (auto simp: length_Suc_conv eval_nat_numeral)

lemma sha1_block_compress:
  assumes "length state = 5"
  shows "sha1_block state inp = sha1_compress (take 64 inp) state"
proof -
  let ?ws = "map (\<lambda>i. mem_loadU32BE (drop (4 * i) inp)) [0..<16]"
  let ?W = "sha1_schedule 64 ?ws"
  let ?r = "(replicate 85 0)[0 := state ! 4, 1 := state ! 3, 2 := state ! 2, 3 := state ! 1, 4 := state ! 0]"
  let ?R = "fold (sha1_round_any ?W) [0..<80] ?r"
  let ?v = "fold (\<lambda>t. sha1_round t (?W ! t)) [0..<80] (sha1_window ?r 0)"
  have v: "sha1_window ?R 80 = ?v" using sha1_window_fold [of ?r 80 ?W] by simp
  have w: "fold sha1_schedule_step [0..<64] (?ws @ replicate 64 0) = ?W"
    using sha1_schedule_array [of ?ws 64] by simp
  have "sha1_block state inp = state[0 := state ! 0 + ?R ! 84, 1 := state ! 1 + ?R ! 83, 2 := state ! 2 + ?R ! 82,
      3 := state ! 3 + ?R ! 81, 4 := state ! 4 + ?R ! 80]"
    unfolding sha1_block_def Let_def sha1_load_words w sha1_rounds_any ..
  also have "\<dots> = [state ! 0 + a1 (sha1_window ?R 80), state ! 1 + b1 (sha1_window ?R 80),
      state ! 2 + c1 (sha1_window ?R 80), state ! 3 + d1 (sha1_window ?R 80), state ! 4 + e1 (sha1_window ?R 80)]"
    unfolding list_update_5 [OF assms] by (simp add: sha1_window_def)
  finally have "sha1_block state inp = [state ! 0 + a1 ?v, state ! 1 + b1 ?v, state ! 2 + c1 ?v, state ! 3 + d1 ?v,
      state ! 4 + e1 ?v]"
    unfolding v .
  moreover have "map (\<lambda>i. mem_loadU32BE (drop (4 * i) (take 64 inp))) [0..<16] = ?ws"
    by (intro map_cong) (auto intro: sha1_load_window)
  moreover have "sha1_window ?r 0 = Sha1_Vars (state ! 0) (state ! 1) (state ! 2) (state ! 3) (state ! 4)"
    by (simp add: sha1_window_def numeral_2_eq_2)
  ultimately show ?thesis by (simp only: sha1_compress_def Let_def)
qed

section \<open>The object is a padded block stream\<close>

lemma sha1_block_take: "sha1_block state (take 64 inp) = sha1_block state inp"
proof -
  have "map (\<lambda>i. mem_loadU32BE (drop (4 * i) (take 64 inp))) [0..<16] = map (\<lambda>i. mem_loadU32BE (drop (4 * i) inp)) [0..<16]"
    by (intro map_cong) (auto intro: sha1_load_window)
  then show ?thesis by (simp only: sha1_block_def sha1_load_words Let_def)
qed

lemma length_sha1_block [simp]: "length (sha1_block state inp) = length state"
  by (simp add: sha1_block_def Let_def)

lemma sha1_fold_block:
  "length state = 5 \<Longrightarrow> fold (\<lambda>b s. sha1_block s b) bs state = fold (\<lambda>b. sha1_compress (take 64 b)) bs state"
  by (induction bs arbitrary: state) (simp_all add: sha1_block_compress [symmetric])

definition sha1_view :: "sha1 \<Rightarrow> (u32 list \<times> u64) \<times> bytes \<times> nat" where
  "sha1_view s = ((sha1_state s, sha1_blockCounter s), sha1_buffer s, sha1_bufferSize s)"

definition sha1_lenField :: "u64 \<Rightarrow> nat \<Rightarrow> bytes" where
  "sha1_lenField k n = be_bytes 8 (unat (push_bit 3 (push_bit 6 k + word_of_nat n) :: u64))"

definition sha1_final :: "sha1 \<Rightarrow> u32 list" where
  "sha1_final s = sha1_state (fst (sha1_finish s []))"

lemma sha1_view_rest:
  "sha1_view (sha1_update_rest s inp) =
   stream_rest 64 (counted sha1_blocks) (sha1_state s, sha1_blockCounter s) (sha1_buffer s) inp"
  by (simp add: sha1_view_def sha1_update_rest_def stream_rest_def Let_def counted_def)

lemma sha1_view_update:
  "sha1_view (sha1_update s inp) = stream_update 64 (counted sha1_blocks) (sha1_view s) inp"
  by (simp add: sha1_update_def stream_update_def Let_def sha1_view_rest counted_def)
    (auto simp: sha1_view_def stream_rest_def Let_def counted_def)

interpretation sha1: md_hash 64 sha1_blocks "\<lambda>b s. sha1_block s b" 56 sha1_view sha1_update
  sha1_lenField sha1_final
proof
  show "sha1_blocks c inp 1 = sha1_block c (take 64 inp)" for c inp
    by (subst sha1_blocks.simps) (simp add: sha1_block_take)
  show "sha1_blocks c inp (Suc n) = sha1_blocks (sha1_block c (take 64 inp)) (drop 64 inp) n" if "0 < n" for c inp n
    using that by (subst sha1_blocks.simps) (simp add: sha1_block_take Let_def)
  show "length (sha1_lenField k n) = 64 - 56" for k n by (simp add: sha1_lenField_def)
  show "sha1_final s = fst (stream_finish 64 56 sha1_blocks (sha1_lenField k n) (c, buf, n))"
    if "sha1_view s = ((c, k), buf, n)" "length buf = 64" "n < 64" for s c k buf n
    using that by (auto simp: sha1_final_def sha1_finish_def stream_finish_def sha1_view_def sha1_numBits_def
        sha1_lenField_def Let_def storeU64BE_put)
qed (simp_all add: sha1_view_update)

section \<open>Correctness\<close>

definition sha1_digest :: "u32 list \<Rightarrow> bytes \<Rightarrow> bytes" where
  "sha1_digest H msg = concat (map (\<lambda>x. be_bytes 4 (unat x))
     (fold sha1_compress (chunks 64 (md_pad 64 56 (be_bytes 8 (8 * length msg)) msg)) H))"

lemma sha1_lenField_eq:
  "sha1_lenField (word_of_nat (L div 64)) (L mod 64) = be_bytes 8 (8 * L)"
proof -
  have "8 * L = (L div 64 * 64 + L mod 64) * 8" by (metis div_mult_mod_eq mult.commute)
  then have "push_bit 3 (push_bit 6 (word_of_nat (L div 64)) + word_of_nat (L mod 64)) = (word_of_nat (8 * L) :: u64)"
    by (simp only: push_bit_eq_mult of_nat_add of_nat_mult) (simp add: algebra_simps)
  then show ?thesis
    unfolding sha1_lenField_def by (simp only: be_bytes_word_of_nat) (subst be_bytes_word_of_nat, simp_all)
qed

lemma sha1_fold_chunks:
  "length H = 5 \<Longrightarrow> fold (\<lambda>b s. sha1_block s b) (chunks 64 bs) H = fold sha1_compress (chunks 64 bs) H"
  unfolding sha1_fold_block by (intro fold_cong refl) (simp add: chunks_all_blocks)

lemma sha1_finish_output:
  assumes "length (sha1_final s) = 5" "20 \<le> length hash"
  shows "snd (sha1_finish s hash) = mem_put hash 0 (concat (map (\<lambda>x. be_bytes 4 (unat x)) (sha1_final s)))"
proof -
  have "snd (sha1_finish s hash) = fold (\<lambda>i h. mem_storeU32BE h (4 * i) (sha1_final s ! i)) [0..<5] hash"
    by (simp add: sha1_final_def sha1_finish_def Let_def)
  then show ?thesis
    using fold_put_words [of "\<lambda>x. be_bytes 4 (unat x)" 4 0 "sha1_final s" hash] assms
    by (simp add: storeU32BE_put)
qed

lemma sha1_stream_digest:
  assumes "sha1_view s = ((H, 0), buf, 0)" "length buf = 64" "length H = 5" "20 \<le> length hash"
  shows "snd (sha1_finish (fold (\<lambda>p s. sha1_update s p) parts s) hash) =
    mem_put hash 0 (sha1_digest H (concat parts))"
proof -
  let ?s = "fold (\<lambda>p s. sha1_update s p) parts s"
  have "sha1_final ?s = fold sha1_compress (chunks 64 (md_pad 64 56 (be_bytes 8 (8 * length (concat parts))) (concat parts))) H"
    using sha1.hash_of_parts [OF assms(1,2), of parts]
    unfolding sha1.absorb_def sha1_lenField_eq sha1_fold_chunks [OF assms(3)] .
  moreover have "length (fold sha1_compress bs H) = 5" for bs
    using assms(3) by (induction bs rule: rev_induct) (simp_all add: sha1_compress_def Let_def)
  ultimately show ?thesis
    using sha1_finish_output [of ?s hash] assms(4) by (simp add: sha1_digest_def)
qed

definition sha1_H0 :: "u32 list" where
  "sha1_H0 = [0x67452301, 0xEFCDAB89, 0x98BADCFE, 0x10325476, 0xC3D2E1F0]"

text \<open>
  However a message is cut into \<open>sha1_update\<close> calls, \<open>sha1_finish\<close> writes exactly the FIPS 180-4
  SHA-1 digest of the whole message (padding, length field, schedule and rounds included) to the
  first 20 bytes of its output, whatever the record's buffer held before.
\<close>

theorem sha1_correct:
  assumes "length (sha1_buffer self) = 64" "20 \<le> length hash"
  shows "snd (sha1_finish (fold (\<lambda>p s. sha1_update s p) parts (sha1_init self)) hash) =
    mem_put hash 0 (sha1_digest sha1_H0 (concat parts))"
  using assms by (intro sha1_stream_digest)
    (simp_all add: sha1_view_def sha1_init_def sha1_H0_def)

theorem sha1_correct_witness:
  "snd (sha1_finish (fold (\<lambda>p s. sha1_update s p) [bytes_of ''a'', bytes_of ''bc'']
      (sha1_init \<lparr>sha1_blockCounter = 7, sha1_buffer = replicate 64 1, sha1_bufferSize = 3, sha1_state = []\<rparr>))
      (replicate 20 0)) = mem_put (replicate 20 0) 0 (sha1_digest sha1_H0 (bytes_of ''abc''))"
  using sha1_correct [of "\<lparr>sha1_blockCounter = 7, sha1_buffer = replicate 64 1, sha1_bufferSize = 3, sha1_state = []\<rparr>"
      "replicate 20 0" "[bytes_of ''a'', bytes_of ''bc'']"]
  by (simp add: bytes_of_def)

end
