(* ===== verification/Sha2_Rounds.thy ===== *)
theory Sha2_Rounds
  imports Block_Stream
begin

text \<open>
  The SHA-2 compression function as FIPS 180-4 states it (sections 4.1, 6.2 and 6.4), generic in
  the word size and the constants, and the contract under which the array-based rounds of
  \<^verbatim>\<open>sha256.c\<close> and \<^verbatim>\<open>sha512.c\<close> compute it. The code keeps a sliding window over one array \<open>r\<close> in
  which round \<open>i\<close> reads the working variables h..a from \<open>r[i]\<close>..\<open>r[i + 7]\<close> and never moves them; the
  message schedule is produced inside the same loop, sixteen words ahead.
\<close>

section \<open>FIPS 180-4\<close>

definition Ch :: "'w::len word \<Rightarrow> 'w word \<Rightarrow> 'w word \<Rightarrow> 'w word" where
  "Ch x y z = (x AND y) XOR (NOT x AND z)"

definition Maj :: "'w::len word \<Rightarrow> 'w word \<Rightarrow> 'w word \<Rightarrow> 'w word" where
  "Maj x y z = (x AND y) XOR (x AND z) XOR (y AND z)"

datatype 'w vars = Vars (va: 'w) (vb: 'w) (vc: 'w) (vd: 'w) (ve: 'w) (vf: 'w) (vg: 'w) (vh: 'w)

primrec schedule :: "('w::len word \<Rightarrow> 'w word) \<Rightarrow> ('w word \<Rightarrow> 'w word) \<Rightarrow> nat \<Rightarrow> 'w word list \<Rightarrow> 'w word list" where
  "schedule s0 s1 0 ws = ws"
| "schedule s0 s1 (Suc k) ws =
     (let ws = schedule s0 s1 k ws; t = length ws
      in ws @ [s1 (ws ! (t - 2)) + ws ! (t - 7) + s0 (ws ! (t - 15)) + ws ! (t - 16)])"

definition sha2_round ::
  "('w::len word \<Rightarrow> 'w word) \<Rightarrow> ('w word \<Rightarrow> 'w word) \<Rightarrow> 'w word \<Rightarrow> 'w word \<Rightarrow> 'w word vars \<Rightarrow> 'w word vars" where
  "sha2_round S0 S1 k w v =
     (case v of Vars a b c d e f g h \<Rightarrow>
        let T1 = h + S1 e + Ch e f g + k + w;
            T2 = S0 a + Maj a b c
        in Vars (T1 + T2) a b c (d + T1) e f g)"

definition sha2_compress ::
  "('w::len word \<Rightarrow> 'w word) \<Rightarrow> ('w word \<Rightarrow> 'w word) \<Rightarrow> ('w word \<Rightarrow> 'w word) \<Rightarrow> ('w word \<Rightarrow> 'w word) \<Rightarrow>
   'w word list \<Rightarrow> (bytes \<Rightarrow> 'w word) \<Rightarrow> nat \<Rightarrow> bytes \<Rightarrow> 'w word list \<Rightarrow> 'w word list" where
  "sha2_compress s0 s1 S0 S1 K load wordSize block H =
     (let W = schedule s0 s1 (length K - 16) (map (\<lambda>t. load (drop (wordSize * t) block)) [0..<16]);
          v = fold (\<lambda>t. sha2_round S0 S1 (K ! t) (W ! t)) [0..<length K]
                (Vars (H ! 0) (H ! 1) (H ! 2) (H ! 3) (H ! 4) (H ! 5) (H ! 6) (H ! 7))
      in [H ! 0 + va v, H ! 1 + vb v, H ! 2 + vc v, H ! 3 + vd v, H ! 4 + ve v, H ! 5 + vf v,
          H ! 6 + vg v, H ! 7 + vh v])"

lemma choose_xor: "z XOR (x AND (y XOR z)) = Ch x y z" for x y z :: "'w::len word"
  by (rule bit_word_eqI) (auto simp: Ch_def bit_simps)

lemma majority_xor: "(x AND (y XOR z)) XOR (y AND z) = Maj x y z" for x y z :: "'w::len word"
  by (rule bit_word_eqI) (auto simp: Maj_def bit_simps)

lemma length_schedule [simp]: "length (schedule s0 s1 k ws) = length ws + k"
  by (induction k) (auto simp: Let_def)

lemma schedule_prefix: "j \<le> k \<Longrightarrow> i < length ws + j \<Longrightarrow> schedule s0 s1 k ws ! i = schedule s0 s1 j ws ! i"
  by (induction k) (auto simp: Let_def nth_append le_Suc_eq)

lemma schedule_nth:
  assumes "16 \<le> t" "t < 16 + k" "length ws = 16" and W_def: "W = schedule s0 s1 k ws"
  shows "W ! t = s1 (W ! (t - 2)) + W ! (t - 7) + s0 (W ! (t - 15)) + W ! (t - 16)"
proof -
  obtain j where t: "t = 16 + j" "Suc j \<le> k" using assms by (metis le_iff_add nat_add_left_cancel_less Suc_le_eq)
  let ?V = "schedule s0 s1 j ws"
  have same: "W ! i = ?V ! i" if "i < t" for i
    unfolding W_def using that t assms(3) by (intro schedule_prefix) auto
  have "W ! t = schedule s0 s1 (Suc j) ws ! t"
    unfolding W_def using t assms(3) by (intro schedule_prefix) auto
  also have "\<dots> = s1 (?V ! (t - 2)) + ?V ! (t - 7) + s0 (?V ! (t - 15)) + ?V ! (t - 16)"
    using t assms(3) by (simp add: Let_def nth_append)
  finally show ?thesis using same t by simp
qed

lemma upt_8: "[0..<8] = [0, 1, 2, 3, 4, 5, 6, 7::nat]"
  by code_simp

lemma list_8: "length s = 8 \<Longrightarrow> s = [s ! 0, s ! 1, s ! 2, s ! 3, s ! 4, s ! 5, s ! 6, s ! 7]"
  by (rule nth_equalityI) (auto simp: nth_Cons' less_Suc_eq numeral_eq_Suc)

lemma add_words_8:
  assumes "length s = 8"
  shows "fold (\<lambda>i s. s[i := s ! i + f i]) [0..<8] s =
    [s ! 0 + f 0, s ! 1 + f 1, s ! 2 + f 2, s ! 3 + f 3, s ! 4 + f 4, s ! 5 + f 5, s ! 6 + f 6, s ! 7 + f 7]"
proof -
  obtain a b c d e f g h where "s = [a, b, c, d, e, f, g, h]" using list_8 [OF assms] by metis
  then show ?thesis by (simp add: upt_8)
qed

section \<open>The sliding-window rounds\<close>

definition window :: "'w::len word list \<Rightarrow> nat \<Rightarrow> 'w word vars" where
  "window r i = Vars (r ! (i + 7)) (r ! (i + 6)) (r ! (i + 5)) (r ! (i + 4)) (r ! (i + 3)) (r ! (i + 2)) (r ! (i + 1)) (r ! i)"

locale sha2_rounds =
  fixes s0 s1 S0 S1 :: "'w::len word \<Rightarrow> 'w word" and K :: "'w word list"
    and round_step :: "nat \<Rightarrow> 'w word list \<times> 'w word list \<Rightarrow> 'w word list \<times> 'w word list"
  assumes K_length: "16 < length K"
    and round_step: "i < length K \<Longrightarrow> length r = length K + 8 \<Longrightarrow> length w = length K \<Longrightarrow>
      round_step i (w, r) =
        (let x = r ! i + w ! i + K ! i + S1 (r ! (i + 3)) + Ch (r ! (i + 3)) (r ! (i + 2)) (r ! (i + 1));
             r' = r[i + 4 := r ! (i + 4) + x];
             r'' = r'[i + 8 := x + S0 (r' ! (i + 7)) + Maj (r' ! (i + 7)) (r' ! (i + 6)) (r' ! (i + 5))]
         in (if i + 16 < length K
             then w[i + 16 := w ! i + w ! (i + 9) + s1 (w ! (i + 14)) + s0 (w ! (i + 1))] else w, r''))"
begin

definition W :: "'w word list \<Rightarrow> 'w word list" where
  "W ws = schedule s0 s1 (length K - 16) ws"

definition rounds_done :: "'w word list \<Rightarrow> 'w word vars \<Rightarrow> nat \<Rightarrow> 'w word list \<times> 'w word list \<Rightarrow> bool" where
  "rounds_done ws v n wr = (case wr of (w, r) \<Rightarrow>
     length w = length K \<and> length r = length K + 8 \<and>
     (\<forall>j < length K. j < n + 16 \<longrightarrow> w ! j = W ws ! j) \<and>
     window r n = fold (\<lambda>t. sha2_round S0 S1 (K ! t) (W ws ! t)) [0..<n] v)"

lemma rounds_done_step:
  assumes "length ws = 16" "n < length K" "rounds_done ws v n (w, r)"
  shows "rounds_done ws v (Suc n) (round_step n (w, r))"
proof -
  have len: "length w = length K" "length r = length K + 8"
    and w: "\<And>j. j < length K \<Longrightarrow> j < n + 16 \<Longrightarrow> w ! j = W ws ! j"
    and win: "window r n = fold (\<lambda>t. sha2_round S0 S1 (K ! t) (W ws ! t)) [0..<n] v"
    using assms(3) by (auto simp: rounds_done_def)
  define x where "x = r ! n + w ! n + K ! n + S1 (r ! (n + 3)) + Ch (r ! (n + 3)) (r ! (n + 2)) (r ! (n + 1))"
  define r' where "r' = r[n + 4 := r ! (n + 4) + x, n + 8 := x + S0 (r ! (n + 7)) + Maj (r ! (n + 7)) (r ! (n + 6)) (r ! (n + 5))]"
  define w' where "w' = (if n + 16 < length K
      then w[n + 16 := w ! n + w ! (n + 9) + s1 (w ! (n + 14)) + s0 (w ! (n + 1))] else w)"
  have step: "round_step n (w, r) = (w', r')"
    using assms(2) len by (simp add: round_step Let_def x_def r'_def w'_def)
  have "w' ! j = W ws ! j" if "j < length K" "j < Suc n + 16" for j
  proof (cases "j = n + 16")
    case True
    then have "W ws ! j = s1 (W ws ! (n + 14)) + W ws ! (n + 9) + s0 (W ws ! (n + 1)) + W ws ! n"
      using that assms(1) schedule_nth [of j "length K - 16" ws "W ws" s0 s1] by (simp add: W_def add.commute)
    then show ?thesis using True that w len by (simp add: w'_def algebra_simps)
  next
    case False
    then show ?thesis using that w by (simp add: w'_def)
  qed
  moreover have "window r' (Suc n) = sha2_round S0 S1 (K ! n) (W ws ! n) (window r n)"
  proof -
    have "window r' (Suc n) = Vars (r' ! (n + 8)) (r' ! (n + 7)) (r' ! (n + 6)) (r' ! (n + 5)) (r' ! (n + 4))
        (r' ! (n + 3)) (r' ! (n + 2)) (r' ! (n + 1))"
      by (simp add: window_def add.commute numeral_eq_Suc)
    moreover have "x = r ! n + S1 (r ! (n + 3)) + Ch (r ! (n + 3)) (r ! (n + 2)) (r ! (n + 1)) + K ! n + W ws ! n"
      using w [of n] assms(2) by (simp add: x_def algebra_simps)
    ultimately show ?thesis
      using len assms(2) by (simp add: window_def sha2_round_def Let_def r'_def algebra_simps)
  qed
  ultimately show ?thesis
    using step len win by (simp add: rounds_done_def w'_def r'_def)
qed

lemma rounds_done_fold:
  assumes "length ws = 16" "rounds_done ws v 0 wr" "n \<le> length K"
  shows "rounds_done ws v n (fold round_step [0..<n] wr)"
  using assms(3)
proof (induction n)
  case 0
  show ?case using assms(2) by simp
next
  case (Suc n)
  obtain w r where "fold round_step [0..<n] wr = (w, r)" by fastforce
  with Suc rounds_done_step [OF assms(1), of n v w r] show ?case by simp
qed

lemma rounds_compute:
  assumes "length ws = 16" "length w = length K" "length r = length K + 8" "take 16 w = ws"
    "fold round_step [0..<length K] (w, r) = (w', r')"
  shows "window r' (length K) = fold (\<lambda>t. sha2_round S0 S1 (K ! t) (W ws ! t)) [0..<length K] (window r 0)"
proof -
  have "w ! j = W ws ! j" if "j < 16" for j
  proof -
    have "W ws ! j = schedule s0 s1 0 ws ! j"
      unfolding W_def using that assms(1) by (intro schedule_prefix) auto
    with that assms(4) show ?thesis by auto
  qed
  then have "rounds_done ws (window r 0) 0 (w, r)"
    using assms(2,3) by (simp add: rounds_done_def)
  from rounds_done_fold [OF assms(1) this, of "length K"] assms(5) show ?thesis
    by (simp add: rounds_done_def)
qed

end

end
