(* ===== verification/Sha256.thy ===== *)
theory Sha256
  imports Sha2_Rounds
begin

text \<open>
  \<^verbatim>\<open>src/hc/core/hc/crypto/sha256.c\<close>: the streaming hash object, its block function, and the proof
  that whatever way a message is cut into \<open>update\<close> calls, \<open>finish\<close> writes its FIPS 180-4 digest.
\<close>

section \<open>The code\<close>

record sha256 =
  sha256_state :: "u32 list"
  sha256_blockCounter :: u64
  sha256_buffer :: bytes
  sha256_bufferSize :: nat

definition sha256_SIGMA0_A :: "u32 \<Rightarrow> u32" where
  "sha256_SIGMA0_A x = word_rotr 7 x XOR word_rotr 18 x XOR drop_bit 3 x"

definition sha256_SIGMA1_A :: "u32 \<Rightarrow> u32" where
  "sha256_SIGMA1_A x = word_rotr 17 x XOR word_rotr 19 x XOR drop_bit 10 x"

definition sha256_CH :: "u32 \<Rightarrow> u32 \<Rightarrow> u32 \<Rightarrow> u32" where
  "sha256_CH x y z = z XOR (x AND (y XOR z))"

definition sha256_MAJ :: "u32 \<Rightarrow> u32 \<Rightarrow> u32 \<Rightarrow> u32" where
  "sha256_MAJ x y z = (x AND (y XOR z)) XOR (y AND z)"

definition sha256_SIGMA0_B :: "u32 \<Rightarrow> u32" where
  "sha256_SIGMA0_B x = word_rotr 2 x XOR word_rotr 13 x XOR word_rotr 22 x"

definition sha256_SIGMA1_B :: "u32 \<Rightarrow> u32" where
  "sha256_SIGMA1_B x = word_rotr 6 x XOR word_rotr 11 x XOR word_rotr 25 x"

definition sha256_round :: "u32 list" where
  "sha256_round =
    [0x428A2F98, 0x71374491, 0xB5C0FBCF, 0xE9B5DBA5, 0x3956C25B, 0x59F111F1,
     0x923F82A4, 0xAB1C5ED5, 0xD807AA98, 0x12835B01, 0x243185BE, 0x550C7DC3,
     0x72BE5D74, 0x80DEB1FE, 0x9BDC06A7, 0xC19BF174, 0xE49B69C1, 0xEFBE4786,
     0x0FC19DC6, 0x240CA1CC, 0x2DE92C6F, 0x4A7484AA, 0x5CB0A9DC, 0x76F988DA,
     0x983E5152, 0xA831C66D, 0xB00327C8, 0xBF597FC7, 0xC6E00BF3, 0xD5A79147,
     0x06CA6351, 0x14292967, 0x27B70A85, 0x2E1B2138, 0x4D2C6DFC, 0x53380D13,
     0x650A7354, 0x766A0ABB, 0x81C2C92E, 0x92722C85, 0xA2BFE8A1, 0xA81A664B,
     0xC24B8B70, 0xC76C51A3, 0xD192E819, 0xD6990624, 0xF40E3585, 0x106AA070,
     0x19A4C116, 0x1E376C08, 0x2748774C, 0x34B0BCB5, 0x391C0CB3, 0x4ED8AA4A,
     0x5B9CCA4F, 0x682E6FF3, 0x748F82EE, 0x78A5636F, 0x84C87814, 0x8CC70208,
     0x90BEFFFA, 0xA4506CEB, 0xBEF9A3F7, 0xC67178F2]"

definition sha256_round_step :: "nat \<Rightarrow> u32 list \<times> u32 list \<Rightarrow> u32 list \<times> u32 list" where
  "sha256_round_step i wr =
     (case wr of (w, r) \<Rightarrow>
        let x = r ! i + w ! i + sha256_round ! i + sha256_SIGMA1_B (r ! (i + 3)) +
                  sha256_CH (r ! (i + 3)) (r ! (i + 2)) (r ! (i + 1));
            r = r[i + 4 := r ! (i + 4) + x];
            r = r[i + 8 := x + sha256_SIGMA0_B (r ! (i + 7)) + sha256_MAJ (r ! (i + 7)) (r ! (i + 6)) (r ! (i + 5))];
            w = (if i < 48
                 then w[i + 16 := w ! i + w ! (i + 9) + sha256_SIGMA1_A (w ! (i + 14)) + sha256_SIGMA0_A (w ! (i + 1))]
                 else w)
        in (w, r))"

definition sha256_block :: "u32 list \<Rightarrow> bytes \<Rightarrow> u32 list" where
  "sha256_block state inp =
     (let w = replicate 64 0; r = replicate 72 0;
          r = fold (\<lambda>i r. r[7 - i := state ! i]) [0..<8] r;
          w = fold (\<lambda>i w. w[i := mem_loadU32BE (drop (4 * i) inp)]) [0..<16] w;
          (w, r) = fold sha256_round_step [0..<64] (w, r)
      in fold (\<lambda>i s. s[i := s ! i + r ! (71 - i)]) [0..<8] state)"

text \<open>The \<open>do ... while (--numBlocks)\<close> loop; every call passes \<open>numBlocks \<ge> 1\<close>.\<close>

fun sha256_blocks :: "u32 list \<Rightarrow> bytes \<Rightarrow> nat \<Rightarrow> u32 list" where
  "sha256_blocks state inp numBlocks =
     (let state = sha256_block state inp
      in if numBlocks - 1 = 0 then state else sha256_blocks state (drop 64 inp) (numBlocks - 1))"

declare sha256_blocks.simps [simp del]

definition sha256_init :: "sha256 \<Rightarrow> sha256" where
  "sha256_init self = self\<lparr>
     sha256_state := [0x6A09E667, 0xBB67AE85, 0x3C6EF372, 0xA54FF53A, 0x510E527F, 0x9B05688C, 0x1F83D9AB, 0x5BE0CD19],
     sha256_blockCounter := 0, sha256_bufferSize := 0\<rparr>"

definition sha256_update_rest :: "sha256 \<Rightarrow> bytes \<Rightarrow> sha256" where
  "sha256_update_rest self inp =
     (let sz = length inp;
          numBlocks = sz div 64;
          self = (if numBlocks > 0 then
                    self\<lparr>sha256_state := sha256_blocks (sha256_state self) inp numBlocks,
                         sha256_blockCounter := sha256_blockCounter self + word_of_nat numBlocks\<rparr>
                  else self);
          self = self\<lparr>sha256_bufferSize := sz mod 64\<rparr>
      in if sha256_bufferSize self > 0 then
           self\<lparr>sha256_buffer := mem_put (sha256_buffer self) 0
                  (take (sha256_bufferSize self) (drop (sz - sz mod 64) inp))\<rparr>
         else self)"

definition sha256_update :: "sha256 \<Rightarrow> bytes \<Rightarrow> sha256" where
  "sha256_update self inp =
     (if sha256_bufferSize self > 0 then
        let numToRead = 64 - sha256_bufferSize self;
            numToRead = (if numToRead > length inp then length inp else numToRead);
            self = self\<lparr>sha256_buffer := mem_put (sha256_buffer self) (sha256_bufferSize self) (take numToRead inp)\<rparr>;
            self = self\<lparr>sha256_bufferSize := sha256_bufferSize self + numToRead\<rparr>
        in if sha256_bufferSize self < 64 then self
           else
             let self = self\<lparr>sha256_state := sha256_blocks (sha256_state self) (sha256_buffer self) 1\<rparr>;
                 self = self\<lparr>sha256_blockCounter := sha256_blockCounter self + 1\<rparr>
             in sha256_update_rest self (drop numToRead inp)
      else sha256_update_rest self inp)"

definition sha256_numBits :: "sha256 \<Rightarrow> u64" where
  "sha256_numBits self =
     push_bit 3 (push_bit 6 (sha256_blockCounter self) + word_of_nat (sha256_bufferSize self))"

definition sha256_finish :: "sha256 \<Rightarrow> bytes \<Rightarrow> sha256 \<times> bytes" where
  "sha256_finish self hash =
     (let numBits = sha256_numBits self;
          self = self\<lparr>sha256_buffer := (sha256_buffer self)[sha256_bufferSize self := 0x80],
                      sha256_bufferSize := sha256_bufferSize self + 1\<rparr>;
          self = (if sha256_bufferSize self > 56 then
                    let self = self\<lparr>sha256_buffer := mem_put (sha256_buffer self) (sha256_bufferSize self)
                                     (replicate (64 - sha256_bufferSize self) 0)\<rparr>
                    in self\<lparr>sha256_state := sha256_blocks (sha256_state self) (sha256_buffer self) 1,
                            sha256_bufferSize := 0\<rparr>
                  else self);
          buf = mem_put (sha256_buffer self) (sha256_bufferSize self)
                  (replicate (56 - sha256_bufferSize self) 0);
          buf = mem_storeU64BE buf 56 numBits;
          self = self\<lparr>sha256_buffer := buf, sha256_state := sha256_blocks (sha256_state self) buf 1\<rparr>
      in (self, fold (\<lambda>i h. mem_storeU32BE h (4 * i) (sha256_state self ! i)) [0..<8] hash))"

section \<open>The block function computes the FIPS compression function\<close>

abbreviation sha256_compress :: "bytes \<Rightarrow> u32 list \<Rightarrow> u32 list" where
  "sha256_compress \<equiv> sha2_compress sha256_SIGMA0_A sha256_SIGMA1_A sha256_SIGMA0_B sha256_SIGMA1_B
     sha256_round mem_loadU32BE 4"

lemma length_sha256_round [simp]: "length sha256_round = 64"
  by (simp add: sha256_round_def)

interpretation sha256r: sha2_rounds sha256_SIGMA0_A sha256_SIGMA1_A sha256_SIGMA0_B sha256_SIGMA1_B
  sha256_round sha256_round_step
proof
  show "16 < length sha256_round" by simp
  have guard: "i + 16 < length sha256_round \<longleftrightarrow> i < 48" for i by auto
  show "sha256_round_step i (w, r) =
    (let x = r ! i + w ! i + sha256_round ! i + sha256_SIGMA1_B (r ! (i + 3)) + Ch (r ! (i + 3)) (r ! (i + 2)) (r ! (i + 1));
         r' = r[i + 4 := r ! (i + 4) + x];
         r'' = r'[i + 8 := x + sha256_SIGMA0_B (r' ! (i + 7)) + Maj (r' ! (i + 7)) (r' ! (i + 6)) (r' ! (i + 5))]
     in (if i + 16 < length sha256_round
         then w[i + 16 := w ! i + w ! (i + 9) + sha256_SIGMA1_A (w ! (i + 14)) + sha256_SIGMA0_A (w ! (i + 1))] else w, r''))"
    for i r w
    by (simp only: sha256_round_step_def prod.case Let_def sha256_CH_def sha256_MAJ_def choose_xor majority_xor guard)
qed

lemma sha256_load_window: "i < 16 \<Longrightarrow> mem_loadU32BE (drop (4 * i) (take 64 inp)) = mem_loadU32BE (drop (4 * i) inp)"
  by (simp add: mem_loadU32BE_def mem_loadU32_def drop_take min_def)

lemma sha256_load_words:
  "fold (\<lambda>i w. w[i := mem_loadU32BE (drop (4 * i) inp)]) [0..<16] (replicate 64 0) =
   map (\<lambda>i. mem_loadU32BE (drop (4 * i) inp)) [0..<16] @ replicate 48 0"
  using fold_store_prefix [of 16 64 "\<lambda>i. mem_loadU32BE (drop (4 * i) inp)" 0] by simp

lemma sha256_block_compress:
  assumes "length state = 8"
  shows "sha256_block state inp = sha256_compress (take 64 inp) state"
proof -
  let ?ws = "map (\<lambda>i. mem_loadU32BE (drop (4 * i) inp)) [0..<16]"
  let ?w = "?ws @ replicate 48 0"
  let ?r = "fold (\<lambda>i r. r[7 - i := state ! i]) [0..<8] (replicate 72 0)"
  obtain w' r' where f: "fold sha256_round_step [0..<64] (?w, ?r) = (w', r')" by fastforce
  have r: "length ?r = 72" "window ?r 0 = Vars (state ! 0) (state ! 1) (state ! 2) (state ! 3) (state ! 4)
      (state ! 5) (state ! 6) (state ! 7)"
    by (simp_all add: upt_8 window_def numeral_2_eq_2)
  have "window r' 64 = fold (\<lambda>t. sha2_round sha256_SIGMA0_B sha256_SIGMA1_B (sha256_round ! t) (sha256r.W ?ws ! t))
      [0..<64] (window ?r 0)" (is "_ = ?v")
    using sha256r.rounds_compute [of ?ws ?w ?r w' r'] f r(1) by simp
  then have v: "window r' 64 = ?v" .
  have "sha256_block state inp = fold (\<lambda>i s. s[i := s ! i + r' ! (71 - i)]) [0..<8] state"
    using f by (simp add: sha256_block_def sha256_load_words Let_def)
  also have "\<dots> = [state ! 0 + va (window r' 64), state ! 1 + vb (window r' 64), state ! 2 + vc (window r' 64),
      state ! 3 + vd (window r' 64), state ! 4 + ve (window r' 64), state ! 5 + vf (window r' 64),
      state ! 6 + vg (window r' 64), state ! 7 + vh (window r' 64)]"
    by (simp add: add_words_8 [OF assms] window_def)
  finally have "sha256_block state inp = [state ! 0 + va ?v, state ! 1 + vb ?v, state ! 2 + vc ?v, state ! 3 + vd ?v,
      state ! 4 + ve ?v, state ! 5 + vf ?v, state ! 6 + vg ?v, state ! 7 + vh ?v]"
    unfolding v .
  moreover have "map (\<lambda>i. mem_loadU32BE (drop (4 * i) (take 64 inp))) [0..<16] = ?ws"
    by (intro map_cong) (auto intro: sha256_load_window)
  ultimately show ?thesis
    by (simp only: sha2_compress_def Let_def length_sha256_round sha256r.W_def r(2))
qed

section \<open>The object is a padded block stream\<close>

lemma sha256_block_take: "sha256_block state (take 64 inp) = sha256_block state inp"
proof -
  have "map (\<lambda>i. mem_loadU32BE (drop (4 * i) (take 64 inp))) [0..<16] = map (\<lambda>i. mem_loadU32BE (drop (4 * i) inp)) [0..<16]"
    by (intro map_cong) (auto intro: sha256_load_window)
  then show ?thesis by (simp only: sha256_block_def sha256_load_words Let_def)
qed

lemma length_sha256_block [simp]: "length (sha256_block state inp) = length state"
proof -
  have "length (fold (\<lambda>i s. s[i := f s i]) is s) = length s" for f :: "u32 list \<Rightarrow> nat \<Rightarrow> u32" and "is" s
    by (induction "is" arbitrary: s) auto
  then show ?thesis by (simp add: sha256_block_def Let_def split: prod.split)
qed

lemma sha256_fold_block:
  "length state = 8 \<Longrightarrow> fold (\<lambda>b s. sha256_block s b) bs state = fold (\<lambda>b. sha256_compress (take 64 b)) bs state"
  by (induction bs arbitrary: state) (simp_all add: sha256_block_compress [symmetric])

definition sha256_view :: "sha256 \<Rightarrow> (u32 list \<times> u64) \<times> bytes \<times> nat" where
  "sha256_view s = ((sha256_state s, sha256_blockCounter s), sha256_buffer s, sha256_bufferSize s)"

definition sha256_lenField :: "u64 \<Rightarrow> nat \<Rightarrow> bytes" where
  "sha256_lenField k n = be_bytes 8 (unat (push_bit 3 (push_bit 6 k + word_of_nat n) :: u64))"

definition sha256_final :: "sha256 \<Rightarrow> u32 list" where
  "sha256_final s = sha256_state (fst (sha256_finish s []))"

lemma sha256_view_rest:
  "sha256_view (sha256_update_rest s inp) =
   stream_rest 64 (counted sha256_blocks) (sha256_state s, sha256_blockCounter s) (sha256_buffer s) inp"
  by (simp add: sha256_view_def sha256_update_rest_def stream_rest_def Let_def counted_def)

lemma sha256_view_update:
  "sha256_view (sha256_update s inp) = stream_update 64 (counted sha256_blocks) (sha256_view s) inp"
  by (simp add: sha256_update_def stream_update_def Let_def sha256_view_rest counted_def)
    (auto simp: sha256_view_def stream_rest_def Let_def counted_def)

interpretation sha256: md_hash 64 sha256_blocks "\<lambda>b s. sha256_block s b" 56 sha256_view sha256_update
  sha256_lenField sha256_final
proof
  show "sha256_blocks c inp 1 = sha256_block c (take 64 inp)" for c inp
    by (subst sha256_blocks.simps) (simp add: sha256_block_take)
  show "sha256_blocks c inp (Suc n) = sha256_blocks (sha256_block c (take 64 inp)) (drop 64 inp) n" if "0 < n" for c inp n
    using that by (subst sha256_blocks.simps) (simp add: sha256_block_take Let_def)
  show "length (sha256_lenField k n) = 64 - 56" for k n by (simp add: sha256_lenField_def)
  show "sha256_final s = fst (stream_finish 64 56 sha256_blocks (sha256_lenField k n) (c, buf, n))"
    if "sha256_view s = ((c, k), buf, n)" "length buf = 64" "n < 64" for s c k buf n
    using that by (auto simp: sha256_final_def sha256_finish_def stream_finish_def sha256_view_def sha256_numBits_def
        sha256_lenField_def Let_def storeU64BE_put)
qed (simp_all add: sha256_view_update)

section \<open>Correctness\<close>

definition sha256_digest :: "u32 list \<Rightarrow> bytes \<Rightarrow> bytes" where
  "sha256_digest H msg = concat (map (\<lambda>x. be_bytes 4 (unat x))
     (fold sha256_compress (chunks 64 (md_pad 64 56 (be_bytes 8 (8 * length msg)) msg)) H))"

lemma sha256_lenField_eq:
  "sha256_lenField (word_of_nat (L div 64)) (L mod 64) = be_bytes 8 (8 * L)"
proof -
  have "8 * L = (L div 64 * 64 + L mod 64) * 8" by (metis div_mult_mod_eq mult.commute)
  then have "push_bit 3 (push_bit 6 (word_of_nat (L div 64)) + word_of_nat (L mod 64)) = (word_of_nat (8 * L) :: u64)"
    by (simp only: push_bit_eq_mult of_nat_add of_nat_mult) (simp add: algebra_simps)
  then show ?thesis
    unfolding sha256_lenField_def by (simp only: be_bytes_word_of_nat) (subst be_bytes_word_of_nat, simp_all)
qed

lemma sha256_fold_chunks:
  "length H = 8 \<Longrightarrow> fold (\<lambda>b s. sha256_block s b) (chunks 64 bs) H = fold sha256_compress (chunks 64 bs) H"
  unfolding sha256_fold_block by (intro fold_cong refl) (simp add: chunks_all_blocks)

lemma sha256_finish_output:
  assumes "length (sha256_final s) = 8" "32 \<le> length hash"
  shows "snd (sha256_finish s hash) = mem_put hash 0 (concat (map (\<lambda>x. be_bytes 4 (unat x)) (sha256_final s)))"
proof -
  have "snd (sha256_finish s hash) = fold (\<lambda>i h. mem_storeU32BE h (4 * i) (sha256_final s ! i)) [0..<8] hash"
    by (simp add: sha256_final_def sha256_finish_def Let_def)
  then show ?thesis
    using fold_put_words [of "\<lambda>x. be_bytes 4 (unat x)" 4 0 "sha256_final s" hash] assms
    by (simp add: storeU32BE_put)
qed

lemma sha256_stream_digest:
  assumes "sha256_view s = ((H, 0), buf, 0)" "length buf = 64" "length H = 8" "32 \<le> length hash"
  shows "snd (sha256_finish (fold (\<lambda>p s. sha256_update s p) parts s) hash) =
    mem_put hash 0 (sha256_digest H (concat parts))"
proof -
  let ?s = "fold (\<lambda>p s. sha256_update s p) parts s"
  have "sha256_final ?s = fold sha256_compress (chunks 64 (md_pad 64 56 (be_bytes 8 (8 * length (concat parts))) (concat parts))) H"
    using sha256.hash_of_parts [OF assms(1,2), of parts]
    unfolding sha256.absorb_def sha256_lenField_eq sha256_fold_chunks [OF assms(3)] .
  moreover have "length (fold sha256_compress bs H) = 8" for bs
    using assms(3) by (induction bs rule: rev_induct) (simp_all add: sha2_compress_def Let_def)
  ultimately show ?thesis
    using sha256_finish_output [of ?s hash] assms(4) by (simp add: sha256_digest_def)
qed

definition sha256_H0 :: "u32 list" where
  "sha256_H0 = [0x6A09E667, 0xBB67AE85, 0x3C6EF372, 0xA54FF53A, 0x510E527F, 0x9B05688C, 0x1F83D9AB, 0x5BE0CD19]"

text \<open>
  C32: however a message is cut into \<open>sha256_update\<close> calls, \<open>sha256_finish\<close> writes exactly the FIPS 180-4
  SHA-256 digest of the whole message (padding, length field, schedule and rounds included) to the
  first 32 bytes of its output, whatever the record's buffer held before.
\<close>

theorem sha256_correct:
  assumes "length (sha256_buffer self) = 64" "32 \<le> length hash"
  shows "snd (sha256_finish (fold (\<lambda>p s. sha256_update s p) parts (sha256_init self)) hash) =
    mem_put hash 0 (sha256_digest sha256_H0 (concat parts))"
  using assms by (intro sha256_stream_digest)
    (simp_all add: sha256_view_def sha256_init_def sha256_H0_def)

theorem sha256_correct_witness:
  "snd (sha256_finish (fold (\<lambda>p s. sha256_update s p) [bytes_of ''a'', bytes_of ''bc'']
      (sha256_init \<lparr>sha256_state = [], sha256_blockCounter = 7, sha256_buffer = replicate 64 1, sha256_bufferSize = 3\<rparr>))
      (replicate 32 0)) = mem_put (replicate 32 0) 0 (sha256_digest sha256_H0 (bytes_of ''abc''))"
  using sha256_correct [of "\<lparr>sha256_state = [], sha256_blockCounter = 7, sha256_buffer = replicate 64 1, sha256_bufferSize = 3\<rparr>"
      "replicate 32 0" "[bytes_of ''a'', bytes_of ''bc'']"]
  by (simp add: bytes_of_def)

end
