(* ===== verification/Sha512.thy ===== *)
theory Sha512
  imports Sha2_Rounds
begin

text \<open>
  \<^verbatim>\<open>src/hc/core/hc/crypto/sha512.c\<close>: the streaming hash object, its block function, and the proof
  that whatever way a message is cut into \<open>update\<close> calls, \<open>finish\<close> writes its FIPS 180-4 digest.
\<close>

section \<open>The code\<close>

record sha512 =
  sha512_state :: "u64 list"
  sha512_blockCounter :: u64
  sha512_buffer :: bytes
  sha512_bufferSize :: nat

definition sha512_SIGMA0_A :: "u64 \<Rightarrow> u64" where
  "sha512_SIGMA0_A x = word_rotr 1 x XOR word_rotr 8 x XOR drop_bit 7 x"

definition sha512_SIGMA1_A :: "u64 \<Rightarrow> u64" where
  "sha512_SIGMA1_A x = word_rotr 19 x XOR word_rotr 61 x XOR drop_bit 6 x"

definition sha512_CH :: "u64 \<Rightarrow> u64 \<Rightarrow> u64 \<Rightarrow> u64" where
  "sha512_CH x y z = z XOR (x AND (y XOR z))"

definition sha512_MAJ :: "u64 \<Rightarrow> u64 \<Rightarrow> u64 \<Rightarrow> u64" where
  "sha512_MAJ x y z = (x AND (y XOR z)) XOR (y AND z)"

definition sha512_SIGMA0_B :: "u64 \<Rightarrow> u64" where
  "sha512_SIGMA0_B x = word_rotr 28 x XOR word_rotr 34 x XOR word_rotr 39 x"

definition sha512_SIGMA1_B :: "u64 \<Rightarrow> u64" where
  "sha512_SIGMA1_B x = word_rotr 14 x XOR word_rotr 18 x XOR word_rotr 41 x"

definition sha512_round :: "u64 list" where
  "sha512_round =
    [0x428A2F98D728AE22, 0x7137449123EF65CD, 0xB5C0FBCFEC4D3B2F, 0xE9B5DBA58189DBBC,
     0x3956C25BF348B538, 0x59F111F1B605D019, 0x923F82A4AF194F9B, 0xAB1C5ED5DA6D8118,
     0xD807AA98A3030242, 0x12835B0145706FBE, 0x243185BE4EE4B28C, 0x550C7DC3D5FFB4E2,
     0x72BE5D74F27B896F, 0x80DEB1FE3B1696B1, 0x9BDC06A725C71235, 0xC19BF174CF692694,
     0xE49B69C19EF14AD2, 0xEFBE4786384F25E3, 0x0FC19DC68B8CD5B5, 0x240CA1CC77AC9C65,
     0x2DE92C6F592B0275, 0x4A7484AA6EA6E483, 0x5CB0A9DCBD41FBD4, 0x76F988DA831153B5,
     0x983E5152EE66DFAB, 0xA831C66D2DB43210, 0xB00327C898FB213F, 0xBF597FC7BEEF0EE4,
     0xC6E00BF33DA88FC2, 0xD5A79147930AA725, 0x06CA6351E003826F, 0x142929670A0E6E70,
     0x27B70A8546D22FFC, 0x2E1B21385C26C926, 0x4D2C6DFC5AC42AED, 0x53380D139D95B3DF,
     0x650A73548BAF63DE, 0x766A0ABB3C77B2A8, 0x81C2C92E47EDAEE6, 0x92722C851482353B,
     0xA2BFE8A14CF10364, 0xA81A664BBC423001, 0xC24B8B70D0F89791, 0xC76C51A30654BE30,
     0xD192E819D6EF5218, 0xD69906245565A910, 0xF40E35855771202A, 0x106AA07032BBD1B8,
     0x19A4C116B8D2D0C8, 0x1E376C085141AB53, 0x2748774CDF8EEB99, 0x34B0BCB5E19B48A8,
     0x391C0CB3C5C95A63, 0x4ED8AA4AE3418ACB, 0x5B9CCA4F7763E373, 0x682E6FF3D6B2B8A3,
     0x748F82EE5DEFB2FC, 0x78A5636F43172F60, 0x84C87814A1F0AB72, 0x8CC702081A6439EC,
     0x90BEFFFA23631E28, 0xA4506CEBDE82BDE9, 0xBEF9A3F7B2C67915, 0xC67178F2E372532B,
     0xCA273ECEEA26619C, 0xD186B8C721C0C207, 0xEADA7DD6CDE0EB1E, 0xF57D4F7FEE6ED178,
     0x06F067AA72176FBA, 0x0A637DC5A2C898A6, 0x113F9804BEF90DAE, 0x1B710B35131C471B,
     0x28DB77F523047D84, 0x32CAAB7B40C72493, 0x3C9EBE0A15C9BEBC, 0x431D67C49C100D4C,
     0x4CC5D4BECB3E42B6, 0x597F299CFC657E2A, 0x5FCB6FAB3AD6FAEC, 0x6C44198C4A475817]"

definition sha512_round_step :: "nat \<Rightarrow> u64 list \<times> u64 list \<Rightarrow> u64 list \<times> u64 list" where
  "sha512_round_step i wr =
     (case wr of (w, r) \<Rightarrow>
        let x = r ! i + w ! i + sha512_round ! i + sha512_SIGMA1_B (r ! (i + 3)) +
                  sha512_CH (r ! (i + 3)) (r ! (i + 2)) (r ! (i + 1));
            r = r[i + 4 := r ! (i + 4) + x];
            r = r[i + 8 := x + sha512_SIGMA0_B (r ! (i + 7)) + sha512_MAJ (r ! (i + 7)) (r ! (i + 6)) (r ! (i + 5))];
            w = (if i < 64
                 then w[i + 16 := w ! i + w ! (i + 9) + sha512_SIGMA1_A (w ! (i + 14)) + sha512_SIGMA0_A (w ! (i + 1))]
                 else w)
        in (w, r))"

definition sha512_block :: "u64 list \<Rightarrow> bytes \<Rightarrow> u64 list" where
  "sha512_block state inp =
     (let w = replicate 80 0; r = replicate 88 0;
          r = fold (\<lambda>i r. r[7 - i := state ! i]) [0..<8] r;
          w = fold (\<lambda>i w. w[i := mem_loadU64BE (drop (8 * i) inp)]) [0..<16] w;
          (w, r) = fold sha512_round_step [0..<80] (w, r)
      in fold (\<lambda>i s. s[i := s ! i + r ! (87 - i)]) [0..<8] state)"

text \<open>The \<open>do ... while (--numBlocks)\<close> loop; every call passes \<open>numBlocks \<ge> 1\<close>.\<close>

fun sha512_blocks :: "u64 list \<Rightarrow> bytes \<Rightarrow> nat \<Rightarrow> u64 list" where
  "sha512_blocks state inp numBlocks =
     (let state = sha512_block state inp
      in if numBlocks - 1 = 0 then state else sha512_blocks state (drop 128 inp) (numBlocks - 1))"

declare sha512_blocks.simps [simp del]

definition sha512_init :: "sha512 \<Rightarrow> sha512" where
  "sha512_init self = self\<lparr>
     sha512_state := [0x6A09E667F3BCC908, 0xBB67AE8584CAA73B, 0x3C6EF372FE94F82B, 0xA54FF53A5F1D36F1, 0x510E527FADE682D1, 0x9B05688C2B3E6C1F, 0x1F83D9ABFB41BD6B, 0x5BE0CD19137E2179],
     sha512_blockCounter := 0, sha512_bufferSize := 0\<rparr>"

definition sha512_init384 :: "sha512 \<Rightarrow> sha512" where
  "sha512_init384 self = self\<lparr>
     sha512_state := [0xCBBB9D5DC1059ED8, 0x629A292A367CD507, 0x9159015A3070DD17, 0x152FECD8F70E5939, 0x67332667FFC00B31, 0x8EB44A8768581511, 0xDB0C2E0D64F98FA7, 0x47B5481DBEFA4FA4],
     sha512_blockCounter := 0, sha512_bufferSize := 0\<rparr>"

definition sha512_update_rest :: "sha512 \<Rightarrow> bytes \<Rightarrow> sha512" where
  "sha512_update_rest self inp =
     (let sz = length inp;
          numBlocks = sz div 128;
          self = (if numBlocks > 0 then
                    self\<lparr>sha512_state := sha512_blocks (sha512_state self) inp numBlocks,
                         sha512_blockCounter := sha512_blockCounter self + word_of_nat numBlocks\<rparr>
                  else self);
          self = self\<lparr>sha512_bufferSize := sz mod 128\<rparr>
      in if sha512_bufferSize self > 0 then
           self\<lparr>sha512_buffer := mem_put (sha512_buffer self) 0
                  (take (sha512_bufferSize self) (drop (sz - sz mod 128) inp))\<rparr>
         else self)"

definition sha512_update :: "sha512 \<Rightarrow> bytes \<Rightarrow> sha512" where
  "sha512_update self inp =
     (if sha512_bufferSize self > 0 then
        let numToRead = 128 - sha512_bufferSize self;
            numToRead = (if numToRead > length inp then length inp else numToRead);
            self = self\<lparr>sha512_buffer := mem_put (sha512_buffer self) (sha512_bufferSize self) (take numToRead inp)\<rparr>;
            self = self\<lparr>sha512_bufferSize := sha512_bufferSize self + numToRead\<rparr>
        in if sha512_bufferSize self < 128 then self
           else
             let self = self\<lparr>sha512_state := sha512_blocks (sha512_state self) (sha512_buffer self) 1\<rparr>;
                 self = self\<lparr>sha512_blockCounter := sha512_blockCounter self + 1\<rparr>
             in sha512_update_rest self (drop numToRead inp)
      else sha512_update_rest self inp)"

definition sha512_numBits :: "sha512 \<Rightarrow> u128" where
  "sha512_numBits self =
     push_bit 3 (push_bit 7 (ucast (sha512_blockCounter self)) + word_of_nat (sha512_bufferSize self))"

definition sha512_finish :: "sha512 \<Rightarrow> bytes \<Rightarrow> sha512 \<times> bytes" where
  "sha512_finish self hash =
     (let numBits = sha512_numBits self;
          self = self\<lparr>sha512_buffer := (sha512_buffer self)[sha512_bufferSize self := 0x80],
                      sha512_bufferSize := sha512_bufferSize self + 1\<rparr>;
          self = (if sha512_bufferSize self > 112 then
                    let self = self\<lparr>sha512_buffer := mem_put (sha512_buffer self) (sha512_bufferSize self)
                                     (replicate (128 - sha512_bufferSize self) 0)\<rparr>
                    in self\<lparr>sha512_state := sha512_blocks (sha512_state self) (sha512_buffer self) 1,
                            sha512_bufferSize := 0\<rparr>
                  else self);
          buf = mem_put (sha512_buffer self) (sha512_bufferSize self)
                  (replicate (112 - sha512_bufferSize self) 0);
          buf = mem_storeU64BE buf 112 (ucast (drop_bit 64 numBits));
          buf = mem_storeU64BE buf 120 (ucast numBits);
          self = self\<lparr>sha512_buffer := buf, sha512_state := sha512_blocks (sha512_state self) buf 1\<rparr>
      in (self, fold (\<lambda>i h. mem_storeU64BE h (8 * i) (sha512_state self ! i)) [0..<8] hash))"

section \<open>The block function computes the FIPS compression function\<close>

abbreviation sha512_compress :: "bytes \<Rightarrow> u64 list \<Rightarrow> u64 list" where
  "sha512_compress \<equiv> sha2_compress sha512_SIGMA0_A sha512_SIGMA1_A sha512_SIGMA0_B sha512_SIGMA1_B
     sha512_round mem_loadU64BE 8"

lemma length_sha512_round [simp]: "length sha512_round = 80"
  by (simp add: sha512_round_def)

interpretation sha512r: sha2_rounds sha512_SIGMA0_A sha512_SIGMA1_A sha512_SIGMA0_B sha512_SIGMA1_B
  sha512_round sha512_round_step
proof
  show "16 < length sha512_round" by simp
  have guard: "i + 16 < length sha512_round \<longleftrightarrow> i < 64" for i by auto
  show "sha512_round_step i (w, r) =
    (let x = r ! i + w ! i + sha512_round ! i + sha512_SIGMA1_B (r ! (i + 3)) + Ch (r ! (i + 3)) (r ! (i + 2)) (r ! (i + 1));
         r' = r[i + 4 := r ! (i + 4) + x];
         r'' = r'[i + 8 := x + sha512_SIGMA0_B (r' ! (i + 7)) + Maj (r' ! (i + 7)) (r' ! (i + 6)) (r' ! (i + 5))]
     in (if i + 16 < length sha512_round
         then w[i + 16 := w ! i + w ! (i + 9) + sha512_SIGMA1_A (w ! (i + 14)) + sha512_SIGMA0_A (w ! (i + 1))] else w, r''))"
    for i r w
    by (simp only: sha512_round_step_def prod.case Let_def sha512_CH_def sha512_MAJ_def choose_xor majority_xor guard)
qed

lemma sha512_load_window: "i < 16 \<Longrightarrow> mem_loadU64BE (drop (8 * i) (take 128 inp)) = mem_loadU64BE (drop (8 * i) inp)"
  by (simp add: mem_loadU64BE_def mem_loadU64_def drop_take min_def)

lemma sha512_load_words:
  "fold (\<lambda>i w. w[i := mem_loadU64BE (drop (8 * i) inp)]) [0..<16] (replicate 80 0) =
   map (\<lambda>i. mem_loadU64BE (drop (8 * i) inp)) [0..<16] @ replicate 64 0"
  using fold_store_prefix [of 16 80 "\<lambda>i. mem_loadU64BE (drop (8 * i) inp)" 0] by simp

lemma sha512_block_compress:
  assumes "length state = 8"
  shows "sha512_block state inp = sha512_compress (take 128 inp) state"
proof -
  let ?ws = "map (\<lambda>i. mem_loadU64BE (drop (8 * i) inp)) [0..<16]"
  let ?w = "?ws @ replicate 64 0"
  let ?r = "fold (\<lambda>i r. r[7 - i := state ! i]) [0..<8] (replicate 88 0)"
  obtain w' r' where f: "fold sha512_round_step [0..<80] (?w, ?r) = (w', r')" by fastforce
  have r: "length ?r = 88" "window ?r 0 = Vars (state ! 0) (state ! 1) (state ! 2) (state ! 3) (state ! 4)
      (state ! 5) (state ! 6) (state ! 7)"
    by (simp_all add: upt_8 window_def numeral_2_eq_2)
  have "window r' 80 = fold (\<lambda>t. sha2_round sha512_SIGMA0_B sha512_SIGMA1_B (sha512_round ! t) (sha512r.W ?ws ! t))
      [0..<80] (window ?r 0)" (is "_ = ?v")
    using sha512r.rounds_compute [of ?ws ?w ?r w' r'] f r(1) by simp
  then have v: "window r' 80 = ?v" .
  have "sha512_block state inp = fold (\<lambda>i s. s[i := s ! i + r' ! (87 - i)]) [0..<8] state"
    using f by (simp add: sha512_block_def sha512_load_words Let_def)
  also have "\<dots> = [state ! 0 + va (window r' 80), state ! 1 + vb (window r' 80), state ! 2 + vc (window r' 80),
      state ! 3 + vd (window r' 80), state ! 4 + ve (window r' 80), state ! 5 + vf (window r' 80),
      state ! 6 + vg (window r' 80), state ! 7 + vh (window r' 80)]"
    by (simp add: add_words_8 [OF assms] window_def)
  finally have "sha512_block state inp = [state ! 0 + va ?v, state ! 1 + vb ?v, state ! 2 + vc ?v, state ! 3 + vd ?v,
      state ! 4 + ve ?v, state ! 5 + vf ?v, state ! 6 + vg ?v, state ! 7 + vh ?v]"
    unfolding v .
  moreover have "map (\<lambda>i. mem_loadU64BE (drop (8 * i) (take 128 inp))) [0..<16] = ?ws"
    by (intro map_cong) (auto intro: sha512_load_window)
  ultimately show ?thesis
    by (simp only: sha2_compress_def Let_def length_sha512_round sha512r.W_def r(2))
qed

section \<open>The object is a padded block stream\<close>

lemma sha512_block_take: "sha512_block state (take 128 inp) = sha512_block state inp"
proof -
  have "map (\<lambda>i. mem_loadU64BE (drop (8 * i) (take 128 inp))) [0..<16] = map (\<lambda>i. mem_loadU64BE (drop (8 * i) inp)) [0..<16]"
    by (intro map_cong) (auto intro: sha512_load_window)
  then show ?thesis by (simp only: sha512_block_def sha512_load_words Let_def)
qed

lemma length_sha512_block [simp]: "length (sha512_block state inp) = length state"
proof -
  have "length (fold (\<lambda>i s. s[i := f s i]) is s) = length s" for f :: "u64 list \<Rightarrow> nat \<Rightarrow> u64" and "is" s
    by (induction "is" arbitrary: s) auto
  then show ?thesis by (simp add: sha512_block_def Let_def split: prod.split)
qed

lemma sha512_fold_block:
  "length state = 8 \<Longrightarrow> fold (\<lambda>b s. sha512_block s b) bs state = fold (\<lambda>b. sha512_compress (take 128 b)) bs state"
  by (induction bs arbitrary: state) (simp_all add: sha512_block_compress [symmetric])

definition sha512_view :: "sha512 \<Rightarrow> (u64 list \<times> u64) \<times> bytes \<times> nat" where
  "sha512_view s = ((sha512_state s, sha512_blockCounter s), sha512_buffer s, sha512_bufferSize s)"

definition sha512_lenField :: "u64 \<Rightarrow> nat \<Rightarrow> bytes" where
  "sha512_lenField k n = be_bytes 16 (unat (push_bit 3 (push_bit 7 (ucast k) + word_of_nat n) :: u128))"

definition sha512_final :: "sha512 \<Rightarrow> u64 list" where
  "sha512_final s = sha512_state (fst (sha512_finish s []))"

lemma sha512_view_rest:
  "sha512_view (sha512_update_rest s inp) =
   stream_rest 128 (counted sha512_blocks) (sha512_state s, sha512_blockCounter s) (sha512_buffer s) inp"
  by (simp add: sha512_view_def sha512_update_rest_def stream_rest_def Let_def counted_def)

lemma sha512_view_update:
  "sha512_view (sha512_update s inp) = stream_update 128 (counted sha512_blocks) (sha512_view s) inp"
  by (simp add: sha512_update_def stream_update_def Let_def sha512_view_rest counted_def)
    (auto simp: sha512_view_def stream_rest_def Let_def counted_def)

lemma sha512_store_length:
  fixes v :: u128
  assumes "length buf = 128"
  shows "mem_storeU64BE (mem_storeU64BE buf 112 (ucast (drop_bit 64 v))) 120 (ucast v) = mem_put buf 112 (be_bytes 16 (unat v))"
proof -
  have "be_bytes 8 (unat (ucast (drop_bit 64 v) :: u64)) @ be_bytes 8 (unat (ucast v :: u64)) = be_bytes 16 (unat v)"
  proof -
    have "unat (ucast (drop_bit 64 v) :: u64) = unat v div 256 ^ 8 mod 256 ^ 8"
      by (simp only: unat_ucast unat_drop_bit power256) simp
    moreover have "unat (ucast v :: u64) = unat v mod 256 ^ 8"
      by (simp only: unat_ucast power256) simp
    ultimately show ?thesis using be_bytes_append [of 8 8 "unat v"] by (simp only: be_bytes_mod) simp
  qed
  then show ?thesis
    using assms mem_put_append [of 112 "be_bytes 8 (unat (ucast (drop_bit 64 v) :: u64))" "be_bytes 8 (unat (ucast v :: u64))" buf]
    by (simp add: storeU64BE_put)
qed

interpretation sha512: md_hash 128 sha512_blocks "\<lambda>b s. sha512_block s b" 112 sha512_view sha512_update
  sha512_lenField sha512_final
proof
  show "sha512_blocks c inp 1 = sha512_block c (take 128 inp)" for c inp
    by (subst sha512_blocks.simps) (simp add: sha512_block_take)
  show "sha512_blocks c inp (Suc n) = sha512_blocks (sha512_block c (take 128 inp)) (drop 128 inp) n" if "0 < n" for c inp n
    using that by (subst sha512_blocks.simps) (simp add: sha512_block_take Let_def)
  show "length (sha512_lenField k n) = 128 - 112" for k n by (simp add: sha512_lenField_def)
  show "sha512_final s = fst (stream_finish 128 112 sha512_blocks (sha512_lenField k n) (c, buf, n))"
    if "sha512_view s = ((c, k), buf, n)" "length buf = 128" "n < 128" for s c k buf n
    using that by (auto simp: sha512_final_def sha512_finish_def stream_finish_def sha512_view_def sha512_numBits_def
        sha512_lenField_def Let_def sha512_store_length)
qed (simp_all add: sha512_view_update)

section \<open>Correctness\<close>

definition sha512_digest :: "u64 list \<Rightarrow> bytes \<Rightarrow> bytes" where
  "sha512_digest H msg = concat (map (\<lambda>x. be_bytes 8 (unat x))
     (fold sha512_compress (chunks 128 (md_pad 128 112 (be_bytes 16 (8 * length msg)) msg)) H))"

lemma sha512_lenField_eq:
  assumes "L < 2 ^ 71"
  shows "sha512_lenField (word_of_nat (L div 128)) (L mod 128) = be_bytes 16 (8 * L)"
proof -
  have "L div 128 < 2 ^ 64" using assms by (intro less_mult_imp_div_less) simp
  then have k: "(ucast (word_of_nat (L div 128) :: u64) :: u128) = word_of_nat (L div 128)"
    by (intro unat_eqI) (simp add: unat_ucast_up unat_of_nat)
  have "8 * L = (L div 128 * 128 + L mod 128) * 8" by (metis div_mult_mod_eq mult.commute)
  then have "push_bit 3 (push_bit 7 (word_of_nat (L div 128)) + word_of_nat (L mod 128)) = (word_of_nat (8 * L) :: u128)"
    by (simp only: push_bit_eq_mult of_nat_add of_nat_mult) (simp add: algebra_simps)
  then show ?thesis
    unfolding sha512_lenField_def k by (simp only: be_bytes_word_of_nat) (subst be_bytes_word_of_nat, simp_all)
qed

lemma sha512_fold_chunks:
  "length H = 8 \<Longrightarrow> fold (\<lambda>b s. sha512_block s b) (chunks 128 bs) H = fold sha512_compress (chunks 128 bs) H"
  unfolding sha512_fold_block by (intro fold_cong refl) (simp add: chunks_all_blocks)

lemma sha512_finish_output:
  assumes "length (sha512_final s) = 8" "64 \<le> length hash"
  shows "snd (sha512_finish s hash) = mem_put hash 0 (concat (map (\<lambda>x. be_bytes 8 (unat x)) (sha512_final s)))"
proof -
  have "snd (sha512_finish s hash) = fold (\<lambda>i h. mem_storeU64BE h (8 * i) (sha512_final s ! i)) [0..<8] hash"
    by (simp add: sha512_final_def sha512_finish_def Let_def)
  then show ?thesis
    using fold_put_words [of "\<lambda>x. be_bytes 8 (unat x)" 8 0 "sha512_final s" hash] assms
    by (simp add: storeU64BE_put)
qed

lemma sha512_stream_digest:
  assumes "sha512_view s = ((H, 0), buf, 0)" "length buf = 128" "length H = 8" "64 \<le> length hash"
    "length (concat parts) < 2 ^ 71"
  shows "snd (sha512_finish (fold (\<lambda>p s. sha512_update s p) parts s) hash) =
    mem_put hash 0 (sha512_digest H (concat parts))"
proof -
  let ?s = "fold (\<lambda>p s. sha512_update s p) parts s"
  have "sha512_final ?s = fold sha512_compress (chunks 128 (md_pad 128 112 (be_bytes 16 (8 * length (concat parts))) (concat parts))) H"
    using sha512.hash_of_parts [OF assms(1,2), of parts]
    unfolding sha512.absorb_def sha512_lenField_eq [OF assms(5)] sha512_fold_chunks [OF assms(3)] .
  moreover have "length (fold sha512_compress bs H) = 8" for bs
    using assms(3) by (induction bs rule: rev_induct) (simp_all add: sha2_compress_def Let_def)
  ultimately show ?thesis
    using sha512_finish_output [of ?s hash] assms(4) by (simp add: sha512_digest_def)
qed

definition sha512_H0 :: "u64 list" where
  "sha512_H0 = [0x6A09E667F3BCC908, 0xBB67AE8584CAA73B, 0x3C6EF372FE94F82B, 0xA54FF53A5F1D36F1, 0x510E527FADE682D1, 0x9B05688C2B3E6C1F, 0x1F83D9ABFB41BD6B, 0x5BE0CD19137E2179]"

definition sha384_H0 :: "u64 list" where
  "sha384_H0 = [0xCBBB9D5DC1059ED8, 0x629A292A367CD507, 0x9159015A3070DD17, 0x152FECD8F70E5939, 0x67332667FFC00B31, 0x8EB44A8768581511, 0xDB0C2E0D64F98FA7, 0x47B5481DBEFA4FA4]"

text \<open>
  C33: however a message is cut into \<open>sha512_update\<close> calls, \<open>sha512_finish\<close> writes exactly the FIPS 180-4
  SHA-512 digest of the whole message (padding, length field, schedule and rounds included) to the
  first 64 bytes of its output, whatever the record's buffer held before. The same holds after
  \<open>sha512_init384\<close> with the SHA-384 initial value. The length bound is what the 64-bit block
  counter can hold.
\<close>

theorem sha512_correct:
  assumes "length (sha512_buffer self) = 128" "64 \<le> length hash" "length (concat parts) < 2 ^ 71"
  shows "snd (sha512_finish (fold (\<lambda>p s. sha512_update s p) parts (sha512_init self)) hash) =
    mem_put hash 0 (sha512_digest sha512_H0 (concat parts)) \<and>
    snd (sha512_finish (fold (\<lambda>p s. sha512_update s p) parts (sha512_init384 self)) hash) =
    mem_put hash 0 (sha512_digest sha384_H0 (concat parts))"
  using assms by (intro conjI sha512_stream_digest)
    (simp_all add: sha512_view_def sha512_init_def sha512_init384_def sha512_H0_def sha384_H0_def)

theorem sha512_correct_witness:
  "snd (sha512_finish (fold (\<lambda>p s. sha512_update s p) [bytes_of ''a'', bytes_of ''bc'']
      (sha512_init \<lparr>sha512_state = [], sha512_blockCounter = 7, sha512_buffer = replicate 128 1, sha512_bufferSize = 3\<rparr>))
      (replicate 64 0)) = mem_put (replicate 64 0) 0 (sha512_digest sha512_H0 (bytes_of ''abc''))"
  using sha512_correct [of "\<lparr>sha512_state = [], sha512_blockCounter = 7, sha512_buffer = replicate 128 1, sha512_bufferSize = 3\<rparr>"
      "replicate 64 0" "[bytes_of ''a'', bytes_of ''bc'']"]
  by (simp add: bytes_of_def)

end
