(* ===== verification/Limbs.thy ===== *)
theory Limbs
  imports CompilerRt
begin

text \<open>
  Reading limb arithmetic as arithmetic on naturals: sums and products of limbs that do not wrap,
  carries as quotients and masks as remainders. Shared by the Poly1305 and Curve25519 theories.
\<close>

lemma unat_add_less: "unat x + unat y \<le> b \<Longrightarrow> b < 2 ^ LENGTH('a) \<Longrightarrow> unat (x + y) = unat x + unat y"
  for x y :: "'a::len word"
  by (rule unat_add_nowrap) linarith

lemma unat_mult_less: "unat x * unat y \<le> b \<Longrightarrow> b < 2 ^ LENGTH('a) \<Longrightarrow> unat (x * y) = unat x * unat y"
  for x y :: "'a::len word"
  by (rule unat_mult_nowrap) linarith

declare mul128_eq [unat_simps]

lemma mul128_product: "mul128_64x64 a b = ucast a * ucast b"
proof (rule unat_eqI)
  have "unat a * unat b < 2 ^ 64 * 2 ^ 64"
    using unat_less [of a] unat_less [of b] by (intro mult_strict_mono) simp_all
  then show "unat (mul128_64x64 a b) = unat (ucast a * ucast b :: u128)"
    by (subst unat_mult_nowrap) (simp_all add: unat_ucast_up mul128_eq)
qed

lemma unat_add64: "unat x + unat y < 2 ^ 64 \<Longrightarrow> unat (x + y) = unat x + unat y" for x y :: u64
  by (rule unat_add_nowrap) simp

lemma unat_add64_bounds:
  "unat x < a \<Longrightarrow> unat y < b \<Longrightarrow> a + b \<le> 2 ^ 64 \<Longrightarrow> unat (x + y) = unat x + unat y \<and> unat (x + y) < a + b"
  for x y :: u64
  by (subst (1 2) unat_add64) linarith+

lemma unat_mult64: "unat x * unat y < 2 ^ 64 \<Longrightarrow> unat (x * y) = unat x * unat y" for x y :: u64
  by (rule unat_mult_nowrap) simp

lemma unat_add128: "unat x + unat y < 2 ^ 128 \<Longrightarrow> unat (x + y) = unat x + unat y" for x y :: u128
  by (rule unat_add_nowrap) simp

lemma unat_sum3_128:
  "unat x + unat y + unat z < 2 ^ 128 \<Longrightarrow> unat (x + y + z) = unat x + unat y + unat z" for x y z :: u128
  by (subst unat_add128; subst unat_add128; linarith)

lemma shift_mod: "x * 2 ^ a mod 2 ^ (a + b) = x mod 2 ^ b * 2 ^ a" for x :: nat
  by (simp only: mult_mod_left power_add mult.commute [of "2 ^ b"])

lemma unat_or_push: "unat y < 2 ^ k \<Longrightarrow> k \<le> 64 \<Longrightarrow> unat (y OR push_bit k x) = unat y + unat x mod 2 ^ (64 - k) * 2 ^ k"
  for x y :: u64
proof -
  assume a: "unat y < 2 ^ k" "k \<le> 64"
  have p: "unat (push_bit k x) = unat x mod 2 ^ (64 - k) * 2 ^ k"
    using shift_mod [of "unat x" k "64 - k"] a(2) by (simp add: unat_push_bit)
  have "unat x mod 2 ^ (64 - k) + 1 \<le> 2 ^ (64 - k)" by (simp add: Suc_leI)
  then have "(unat x mod 2 ^ (64 - k) + 1) * 2 ^ k \<le> 2 ^ (64 - k) * 2 ^ k" by (rule mult_le_mono1)
  also have "\<dots> = 2 ^ 64" using a(2) by (simp only: power_add [symmetric]) simp
  finally have "unat (push_bit k x) + unat y < 2 ^ 64" unfolding p using a(1) by (simp add: algebra_simps)
  then show ?thesis using push_bit_or [OF a(1), of x] p by (simp add: or.commute unat_add64)
qed

section \<open>44-bit limbs\<close>

lemma unat_and_44 [unat_simps]: "unat (x AND 0xFFFFFFFFFFF) = unat x mod 2 ^ 44" for x :: u64
proof -
  have "(0xFFFFFFFFFFF :: u64) = mask 44" by (simp add: mask_eq_exp_minus_1)
  then show ?thesis by (simp only: unat_and_mask)
qed

lemma unat_and_42 [unat_simps]: "unat (x AND 0x3FFFFFFFFFF) = unat x mod 2 ^ 42" for x :: u64
proof -
  have "(0x3FFFFFFFFFF :: u64) = mask 42" by (simp add: mask_eq_exp_minus_1)
  then show ?thesis by (simp only: unat_and_mask)
qed

lemma unat_ucast_low: "k \<le> 64 \<Longrightarrow> unat (ucast d :: u64) mod 2 ^ k = unat d mod 2 ^ k" for d :: u128
proof -
  assume "k \<le> 64"
  then have "(2::nat) ^ k dvd 2 ^ 64" by (rule le_imp_power_dvd)
  moreover have "unat (ucast d :: u64) = unat d mod 2 ^ 64" by (simp only: unat_ucast) simp
  ultimately show ?thesis by (simp only: mod_mod_cancel)
qed

lemma unat_ucast_small: "unat d < 2 ^ 64 \<Longrightarrow> unat (ucast d :: u64) = unat d" for d :: u128
  by (simp add: unat_ucast)

lemma carry128:
  fixes d e :: u128
  assumes "unat d div 2 ^ k < 2 ^ 64" "unat e + unat d div 2 ^ k < 2 ^ 128"
  shows "unat (e + ucast (ucast (drop_bit k d) :: u64)) = unat e + unat d div 2 ^ k"
proof -
  have "unat (ucast (ucast (drop_bit k d) :: u64) :: u128) = unat d div 2 ^ k"
    using assms(1) by (simp add: unat_ucast_up unat_ucast_small unat_drop_bit)
  then show ?thesis using assms(2) by (subst unat_add128) simp_all
qed

lemma unat_middle_limb:
  "unat ((drop_bit 44 t0 OR push_bit 20 t1) AND 0xFFFFFFFFFFF) = unat t0 div 2 ^ 44 + unat t1 mod 2 ^ 24 * 2 ^ 20"
  for t0 t1 :: u64
proof -
  let ?x = "unat t1 * 2 ^ 20 mod 2 ^ 64" and ?y = "unat t0 div 2 ^ 44"
  have y: "?y < 2 ^ 20"
    using unat_less [of t0] by (intro less_mult_imp_div_less) simp
  have p: "unat (push_bit 20 t1) = ?x" by (simp add: unat_push_bit)
  have "?x = unat t1 mod 2 ^ 44 * 2 ^ 20" using shift_mod [of "unat t1" 20 44] by simp
  also have "\<dots> \<le> (2 ^ 44 - 1) * 2 ^ 20" by (intro mult_le_mono1) (simp add: less_Suc_eq_le [symmetric])
  finally have x: "?x + ?y < 2 ^ 64" using y by simp
  have "drop_bit 44 t0 OR push_bit 20 t1 = push_bit 20 t1 + drop_bit 44 t0"
    using push_bit_or [of "drop_bit 44 t0" 20 t1] y by (simp add: unat_drop_bit or.commute)
  then have "unat (drop_bit 44 t0 OR push_bit 20 t1) = ?x + ?y"
    using x p by (simp add: unat_add_nowrap unat_drop_bit)
  moreover have "(?x + ?y) mod 2 ^ 44 = ?y + unat t1 mod 2 ^ 24 * 2 ^ 20"
  proof -
    have "?x mod 2 ^ 44 = unat t1 * 2 ^ 20 mod 2 ^ 44" by (rule mod_mod_cancel) (simp add: le_imp_power_dvd)
    also have "\<dots> = unat t1 mod 2 ^ 24 * 2 ^ 20" using shift_mod [of "unat t1" 20 24] by simp
    finally have "(?x + ?y) mod 2 ^ 44 = (unat t1 mod 2 ^ 24 * 2 ^ 20 + ?y) mod 2 ^ 44"
      by (metis mod_add_left_eq)
    moreover have "unat t1 mod 2 ^ 24 * 2 ^ 20 \<le> (2 ^ 24 - 1) * 2 ^ 20"
      by (intro mult_le_mono1) (simp add: less_Suc_eq_le [symmetric])
    ultimately show ?thesis using y by simp
  qed
  ultimately show ?thesis by (simp only: unat_and_44)
qed

lemma split_128:
  fixes T0 T1 :: nat
  assumes "T0 < 2 ^ 64"
  shows "T0 + 2 ^ 64 * T1 = T0 mod 2 ^ 44 + 2 ^ 44 * (T0 div 2 ^ 44 + T1 mod 2 ^ 24 * 2 ^ 20) + 2 ^ 88 * (T1 div 2 ^ 24)"
proof -
  have 1: "T0 mod 2 ^ 44 + 2 ^ 44 * (T0 div 2 ^ 44) = T0" "T1 mod 2 ^ 24 + 2 ^ 24 * (T1 div 2 ^ 24) = T1"
    by (rule mod_mult_div_eq)+
  have "2 ^ 64 * x + 2 ^ 88 * y = 2 ^ 64 * (x + 2 ^ 24 * y)" for x y :: nat by simp
  then have "2 ^ 64 * (T1 mod 2 ^ 24) + 2 ^ 88 * (T1 div 2 ^ 24) = 2 ^ 64 * (T1 mod 2 ^ 24 + 2 ^ 24 * (T1 div 2 ^ 24))" .
  also have "\<dots> = 2 ^ 64 * T1" by (simp only: 1)
  finally show ?thesis using 1(1) by simp
qed

end
