(* ===== verification/Poly1305.thy ===== *)
theory Poly1305
  imports Block_Stream Limbs
begin

text \<open>
  \<^verbatim>\<open>src/hc/core/hc/crypto/poly1305.c\<close>: the one-time authenticator in 44-bit limbs. It is shown to
  compute the RFC 8439 tag: the limbs stay in range, so no product or sum wraps, every block
  multiplies the accumulator by \<open>r\<close> modulo \<open>2^130 - 5\<close>, and the final subtraction and the addition of
  the pad give the tag modulo \<open>2^128\<close>, however the message was cut into \<open>update\<close> calls.
\<close>

section \<open>The code\<close>

record poly1305 =
  poly1305_r :: "u64 list"
  poly1305_h :: "u64 list"
  poly1305_pad :: "u64 list"
  poly1305_bufferSize :: nat
  poly1305_buffer :: bytes

definition poly1305_block ::
  "u64 \<times> u64 \<times> u64 \<Rightarrow> u64 \<Rightarrow> u64 \<Rightarrow> u64 \<Rightarrow> u64 \<times> u64 \<times> u64 \<Rightarrow> bytes \<Rightarrow> u64 \<times> u64 \<times> u64" where
  "poly1305_block r s1 s2 hibit h inp =
     (case (r, h) of ((r0, r1, r2), (h0, h1, h2)) \<Rightarrow>
        let t0 = mem_loadU64 inp;
            t1 = mem_loadU64 (drop 8 inp);
            h0 = h0 + (t0 AND 0xFFFFFFFFFFF);
            h1 = h1 + ((drop_bit 44 t0 OR push_bit 20 t1) AND 0xFFFFFFFFFFF);
            h2 = h2 + ((drop_bit 24 t1 AND 0x3FFFFFFFFFF) OR hibit);
            d0 = mul128_64x64 h0 r0 + mul128_64x64 h1 s2 + mul128_64x64 h2 s1;
            d1 = mul128_64x64 h0 r1 + mul128_64x64 h1 r0 + mul128_64x64 h2 s2;
            d2 = mul128_64x64 h0 r2 + mul128_64x64 h1 r1 + mul128_64x64 h2 r0;
            h0 = ucast d0 AND 0xFFFFFFFFFFF;
            d1 = d1 + ucast (ucast (drop_bit 44 d0) :: u64);
            h1 = ucast d1 AND 0xFFFFFFFFFFF;
            d2 = d2 + ucast (ucast (drop_bit 44 d1) :: u64);
            h2 = ucast d2 AND 0x3FFFFFFFFFF;
            h0 = h0 + ucast (drop_bit 42 d2) * 5;
            h1 = h1 + drop_bit 44 h0;
            h0 = h0 AND 0xFFFFFFFFFFF
        in (h0, h1, h2))"

text \<open>The \<open>do ... while (--numBlocks)\<close> loop; every call passes \<open>numBlocks \<ge> 1\<close>.\<close>

fun poly1305_blocks_loop ::
  "u64 \<times> u64 \<times> u64 \<Rightarrow> u64 \<Rightarrow> u64 \<Rightarrow> u64 \<Rightarrow> u64 \<times> u64 \<times> u64 \<Rightarrow> bytes \<Rightarrow> nat \<Rightarrow> u64 \<times> u64 \<times> u64" where
  "poly1305_blocks_loop r s1 s2 hibit h inp numBlocks =
     (let h = poly1305_block r s1 s2 hibit h inp
      in if numBlocks - 1 = 0 then h else poly1305_blocks_loop r s1 s2 hibit h (drop 16 inp) (numBlocks - 1))"

declare poly1305_blocks_loop.simps [simp del]

definition poly1305_blocks :: "poly1305 \<Rightarrow> bytes \<Rightarrow> nat \<Rightarrow> u64 \<Rightarrow> poly1305" where
  "poly1305_blocks self inp numBlocks hibit =
     (let r0 = poly1305_r self ! 0; r1 = poly1305_r self ! 1; r2 = poly1305_r self ! 2;
          h = (poly1305_h self ! 0, poly1305_h self ! 1, poly1305_h self ! 2);
          s1 = r1 * 20; s2 = r2 * 20;
          (h0, h1, h2) = poly1305_blocks_loop (r0, r1, r2) s1 s2 hibit h inp numBlocks
      in self\<lparr>poly1305_h := [h0, h1, h2]\<rparr>)"

definition poly1305_init :: "poly1305 \<Rightarrow> bytes \<Rightarrow> poly1305" where
  "poly1305_init self key =
     (let t0 = mem_loadU64 key; t1 = mem_loadU64 (drop 8 key)
      in self\<lparr>poly1305_bufferSize := 0,
        poly1305_r := [t0 AND 0xFFC0FFFFFFF, (drop_bit 44 t0 OR push_bit 20 t1) AND 0xFFFFFC0FFFF,
                       drop_bit 24 t1 AND 0x00FFFFFFC0F],
        poly1305_h := [0, 0, 0],
        poly1305_pad := [mem_loadU64 (drop 16 key), mem_loadU64 (drop 24 key)]\<rparr>)"

definition poly1305_update_rest :: "poly1305 \<Rightarrow> bytes \<Rightarrow> poly1305" where
  "poly1305_update_rest self inp =
     (let sz = length inp;
          numBlocks = sz div 16;
          self = (if numBlocks > 0 then poly1305_blocks self inp numBlocks 0x10000000000 else self);
          self = self\<lparr>poly1305_bufferSize := sz mod 16\<rparr>
      in if poly1305_bufferSize self > 0 then
           self\<lparr>poly1305_buffer := mem_put (poly1305_buffer self) 0
                  (take (poly1305_bufferSize self) (drop (sz - sz mod 16) inp))\<rparr>
         else self)"

definition poly1305_update :: "poly1305 \<Rightarrow> bytes \<Rightarrow> poly1305" where
  "poly1305_update self inp =
     (if poly1305_bufferSize self > 0 then
        let numToRead = 16 - poly1305_bufferSize self;
            numToRead = (if numToRead > length inp then length inp else numToRead);
            self = self\<lparr>poly1305_buffer := mem_put (poly1305_buffer self) (poly1305_bufferSize self) (take numToRead inp)\<rparr>;
            self = self\<lparr>poly1305_bufferSize := poly1305_bufferSize self + numToRead\<rparr>
        in if poly1305_bufferSize self < 16 then self
           else
             let self = poly1305_blocks self (poly1305_buffer self) 1 0x10000000000
             in poly1305_update_rest self (drop numToRead inp)
      else poly1305_update_rest self inp)"

definition poly1305_carry :: "u64 \<times> u64 \<times> u64 \<Rightarrow> u64 \<times> u64 \<times> u64" where
  "poly1305_carry h =
     (case h of (h0, h1, h2) \<Rightarrow>
        let h2 = h2 + drop_bit 44 h1;
            h1 = h1 AND 0xFFFFFFFFFFF;
            h0 = h0 + drop_bit 42 h2 * 5;
            h2 = h2 AND 0x3FFFFFFFFFF;
            h1 = h1 + drop_bit 44 h0;
            h0 = h0 AND 0xFFFFFFFFFFF;
            h2 = h2 + drop_bit 44 h1;
            h1 = h1 AND 0xFFFFFFFFFFF;
            h0 = h0 + drop_bit 42 h2 * 5;
            h2 = h2 AND 0x3FFFFFFFFFF;
            h1 = h1 + drop_bit 44 h0;
            h0 = h0 AND 0xFFFFFFFFFFF
        in (h0, h1, h2))"

definition poly1305_select :: "u64 \<times> u64 \<times> u64 \<Rightarrow> u64 \<times> u64 \<times> u64" where
  "poly1305_select h =
     (case h of (h0, h1, h2) \<Rightarrow>
        let g0 = h0 + 5;
            g1 = h1 + drop_bit 44 g0;
            g2 = h2 + drop_bit 44 g1 - 0x80000000000;
            g0 = g0 AND 0xFFFFFFFFFFF;
            g1 = g1 AND 0xFFFFFFFFFFF;
            c = drop_bit 63 g2 - 1;
            g0 = g0 AND c; g1 = g1 AND c; g2 = g2 AND c;
            c = NOT c
        in ((h0 AND c) OR g0, (h1 AND c) OR g1, (h2 AND c) OR g2))"

definition poly1305_addPad :: "u64 \<times> u64 \<times> u64 \<Rightarrow> u64 \<Rightarrow> u64 \<Rightarrow> u64 \<times> u64" where
  "poly1305_addPad h t0 t1 =
     (case h of (h0, h1, h2) \<Rightarrow>
        let h0 = h0 + (t0 AND 0xFFFFFFFFFFF);
            h1 = h1 + (((drop_bit 44 t0 OR push_bit 20 t1) AND 0xFFFFFFFFFFF) + drop_bit 44 h0);
            h2 = h2 + ((drop_bit 24 t1 AND 0x3FFFFFFFFFF) + drop_bit 44 h1);
            h0 = h0 AND 0xFFFFFFFFFFF;
            h1 = h1 AND 0xFFFFFFFFFFF;
            h2 = h2 AND 0x3FFFFFFFFFF;
            h0 = h0 OR push_bit 44 h1;
            h1 = drop_bit 20 h1 OR push_bit 24 h2
        in (h0, h1))"

definition poly1305_finish :: "poly1305 \<Rightarrow> bytes \<Rightarrow> poly1305 \<times> bytes" where
  "poly1305_finish self mac =
     (let self = (if poly1305_bufferSize self > 0 then
                    let i = poly1305_bufferSize self;
                        self = self\<lparr>poly1305_buffer := (poly1305_buffer self)[i := 1]\<rparr>;
                        i = i + 1;
                        self = self\<lparr>poly1305_buffer := mem_put (poly1305_buffer self) i (replicate (16 - i) 0)\<rparr>
                    in poly1305_blocks self (poly1305_buffer self) 1 0
                  else self);
          h = (poly1305_h self ! 0, poly1305_h self ! 1, poly1305_h self ! 2);
          h = poly1305_select (poly1305_carry h);
          (h0, h1) = poly1305_addPad h (poly1305_pad self ! 0) (poly1305_pad self ! 1)
      in (self, mem_storeU64 (mem_storeU64 mac 0 h0) 8 h1))"

section \<open>RFC 8439\<close>

definition poly1305_p :: nat where
  "poly1305_p = 2 ^ 130 - 5"

definition rfc_block :: "nat \<Rightarrow> bytes \<Rightarrow> nat \<Rightarrow> nat" where
  "rfc_block r b a = (a + le_nat b + 2 ^ (8 * length b)) * r mod poly1305_p"

definition rfc_clamp :: "bytes \<Rightarrow> nat" where
  "rfc_clamp key = le_nat (take 16 key) AND 0x0ffffffc0ffffffc0ffffffc0fffffff"

definition rfc_accumulator :: "bytes \<Rightarrow> bytes \<Rightarrow> nat" where
  "rfc_accumulator key msg =
     (let a = fold (rfc_block (rfc_clamp key)) (chunks 16 msg) 0;
          rest = unread 16 msg
      in if rest = [] then a else rfc_block (rfc_clamp key) rest a)"

definition rfc_tag :: "bytes \<Rightarrow> bytes \<Rightarrow> bytes" where
  "rfc_tag key msg = le_bytes 16 (rfc_accumulator key msg + le_nat (take 16 (drop 16 key)))"

section \<open>One block\<close>

definition limbs :: "u64 \<times> u64 \<times> u64 \<Rightarrow> nat" where
  "limbs h = (case h of (h0, h1, h2) \<Rightarrow> unat h0 + 2 ^ 44 * unat h1 + 2 ^ 88 * unat h2)"

definition h_bounds :: "u64 \<times> u64 \<times> u64 \<Rightarrow> bool" where
  "h_bounds h = (case h of (h0, h1, h2) \<Rightarrow> unat h0 < 2 ^ 44 \<and> unat h1 < 2 ^ 44 + 2 ^ 8 \<and> unat h2 < 2 ^ 42)"

definition r_bounds :: "u64 \<times> u64 \<times> u64 \<Rightarrow> bool" where
  "r_bounds r = (case r of (r0, r1, r2) \<Rightarrow> unat r0 < 2 ^ 44 \<and> unat r1 < 2 ^ 44 \<and> unat r2 < 2 ^ 40)"

lemma product_mod_p:
  fixes a0 a1 a2 r0 r1 r2 :: nat
  shows "(a0 + 2 ^ 44 * a1 + 2 ^ 88 * a2) * (r0 + 2 ^ 44 * r1 + 2 ^ 88 * r2) =
    (a0 * r0 + a1 * (20 * r2) + a2 * (20 * r1)) + 2 ^ 44 * (a0 * r1 + a1 * r0 + a2 * (20 * r2)) +
    2 ^ 88 * (a0 * r2 + a1 * r1 + a2 * r0) + poly1305_p * (4 * (a1 * r2 + a2 * r1) + 2 ^ 46 * (a2 * r2))"
  by (simp add: poly1305_p_def algebra_simps)

lemma limb_add:
  "x0 + 2 ^ 44 * x1 + 2 ^ 88 * x2 + (y0 + 2 ^ 44 * y1 + 2 ^ 88 * y2) + 2 ^ 88 * z =
   (x0 + y0) + 2 ^ 44 * (x1 + y1) + 2 ^ 88 * (x2 + (y2 + z))" for x0 :: nat
  by simp

lemma multiples_add: "x = d + p * a \<Longrightarrow> d = l + p * b \<Longrightarrow> \<exists>k. x = l + p * k" for x :: nat
  by (rule exI [of _ "a + b"]) (simp add: distrib_left)

lemma carry_mod_p:
  fixes d0 d1 d2 :: nat
  defines "e1 \<equiv> d1 + d0 div 2 ^ 44"
  defines "e2 \<equiv> d2 + e1 div 2 ^ 44"
  defines "g0 \<equiv> d0 mod 2 ^ 44 + e2 div 2 ^ 42 * 5"
  shows "d0 + 2 ^ 44 * d1 + 2 ^ 88 * d2 =
    g0 mod 2 ^ 44 + 2 ^ 44 * (e1 mod 2 ^ 44 + g0 div 2 ^ 44) + 2 ^ 88 * (e2 mod 2 ^ 42) + poly1305_p * (e2 div 2 ^ 42)"
proof -
  have "d0 = d0 mod 2 ^ 44 + 2 ^ 44 * (d0 div 2 ^ 44)" "e1 = e1 mod 2 ^ 44 + 2 ^ 44 * (e1 div 2 ^ 44)"
    "e2 = e2 mod 2 ^ 42 + 2 ^ 42 * (e2 div 2 ^ 42)" "g0 = g0 mod 2 ^ 44 + 2 ^ 44 * (g0 div 2 ^ 44)"
    by (simp_all only: mod_mult_div_eq)
  moreover have "d0 + 2 ^ 44 * d1 + 2 ^ 88 * d2 = x0 + 2 ^ 44 * (x1 + k3) + 2 ^ 88 * x2 + poly1305_p * k2"
    if "d0 = y0 + 2 ^ 44 * k0" "e1 = x1 + 2 ^ 44 * k1" "e2 = x2 + 2 ^ 42 * k2" "g0 = x0 + 2 ^ 44 * k3"
      "e1 = d1 + k0" "e2 = d2 + k1" "g0 = y0 + k2 * 5" for x0 x1 x2 y0 k0 k1 k2 k3
    using that unfolding poly1305_p_def by simp
  ultimately show ?thesis unfolding e1_def e2_def g0_def by blast
qed

lemma middle_less: "unat t0 div 2 ^ 44 + unat t1 mod 2 ^ 24 * 2 ^ 20 < 2 ^ 44" for t0 t1 :: u64
  using unat_middle_limb [of t0 t1] unat_and_44 [of "drop_bit 44 t0 OR push_bit 20 t1"]
    mod_less_divisor [of "2 ^ 44" "unat (drop_bit 44 t0 OR push_bit 20 t1)"] by simp

lemma top_less: "unat t1 div 2 ^ 24 < 2 ^ 40" for t1 :: u64
  using unat_less [of t1] by (intro less_mult_imp_div_less) simp

lemma top_limb:
  fixes t1 hibit :: u64
  assumes "hibit = 0 \<or> hibit = 0x10000000000"
  shows "unat ((drop_bit 24 t1 AND 0x3FFFFFFFFFF) OR hibit) = unat t1 div 2 ^ 24 + unat hibit"
proof -
  let ?x = "drop_bit 24 t1 AND 0x3FFFFFFFFFF"
  have x: "unat ?x = unat t1 div 2 ^ 24"
    using top_less [of t1] by (simp add: unat_and_42 unat_drop_bit)
  have "(0x10000000000 :: u64) = push_bit 40 1" by (simp add: push_bit_eq_mult)
  then have "?x OR 0x10000000000 = 0x10000000000 + ?x"
    using push_bit_or [of ?x 40 1] x top_less [of t1] by (simp add: or.commute)
  moreover have "unat (0x10000000000 + ?x) = 0x10000000000 + unat ?x"
    using x top_less [of t1] by (subst unat_add_nowrap) simp_all
  ultimately show ?thesis using assms x by auto
qed

lemma le_nat_words:
  assumes "16 \<le> length inp"
  shows "le_nat (take 16 inp) = unat (mem_loadU64 inp) + 2 ^ 64 * unat (mem_loadU64 (drop 8 inp))"
proof -
  have "take 16 inp = take 8 inp @ take 8 (drop 8 inp)" by (simp add: take_add [symmetric])
  then have "le_nat (take 16 inp) = le_nat (take 8 inp) + 256 ^ 8 * le_nat (take 8 (drop 8 inp))"
    using assms by (simp only: le_nat_append) simp
  then show ?thesis by (simp add: unat_loadU64)
qed

lemma le_nat_16:
  assumes "16 \<le> length inp"
  shows "le_nat (take 16 inp) = unat (mem_loadU64 inp) mod 2 ^ 44 +
    2 ^ 44 * (unat (mem_loadU64 inp) div 2 ^ 44 + unat (mem_loadU64 (drop 8 inp)) mod 2 ^ 24 * 2 ^ 20) +
    2 ^ 88 * (unat (mem_loadU64 (drop 8 inp)) div 2 ^ 24)"
proof -
  have "unat (mem_loadU64 inp) < 2 ^ 64" using unat_less [of "mem_loadU64 inp"] by simp
  then show ?thesis unfolding le_nat_words [OF assms] by (rule split_128)
qed

lemma le_bytes_two: "le_bytes 16 (unat x + 2 ^ 64 * y) = le_bytes 8 (unat x) @ le_bytes 8 y" for x :: u64
proof -
  have x: "unat x < 2 ^ 64" using unat_less [of x] by simp
  then have "(unat x + 2 ^ 64 * y) mod 256 ^ 8 = unat x" "(unat x + 2 ^ 64 * y) div 256 ^ 8 = y"
    by (simp_all only: power256) simp_all
  then show ?thesis
    using le_bytes_append [of 8 8 "unat x + 2 ^ 64 * y"] le_bytes_mod [of 8 "unat x + 2 ^ 64 * y"] by simp
qed

lemma poly1305_block_step:
  assumes h: "h_bounds (h0, h1, h2)" and r: "r_bounds (r0, r1, r2)" and hibit: "hibit = 0 \<or> hibit = 0x10000000000"
    and inp: "16 \<le> length inp"
    and res: "poly1305_block (r0, r1, r2) (r1 * 20) (r2 * 20) hibit (h0, h1, h2) inp = h'"
  shows "h_bounds h'"
    and "\<exists>k. (limbs (h0, h1, h2) + le_nat (take 16 inp) + 2 ^ 88 * unat hibit) * limbs (r0, r1, r2) =
      limbs h' + poly1305_p * k"
proof -
  define t0 where "t0 = mem_loadU64 inp"
  define t1 where "t1 = mem_loadU64 (drop 8 inp)"
  define a0 where "a0 = h0 + (t0 AND 0xFFFFFFFFFFF)"
  define a1 where "a1 = h1 + ((drop_bit 44 t0 OR push_bit 20 t1) AND 0xFFFFFFFFFFF)"
  define a2 where "a2 = h2 + ((drop_bit 24 t1 AND 0x3FFFFFFFFFF) OR hibit)"
  define d0 where "d0 = mul128_64x64 a0 r0 + mul128_64x64 a1 (r2 * 20) + mul128_64x64 a2 (r1 * 20)"
  define d1 where "d1 = mul128_64x64 a0 r1 + mul128_64x64 a1 r0 + mul128_64x64 a2 (r2 * 20)"
  define d2 where "d2 = mul128_64x64 a0 r2 + mul128_64x64 a1 r1 + mul128_64x64 a2 r0"
  define e1 where "e1 = d1 + ucast (ucast (drop_bit 44 d0) :: u64)"
  define e2 where "e2 = d2 + ucast (ucast (drop_bit 44 e1) :: u64)"
  define g0 where "g0 = (ucast d0 AND 0xFFFFFFFFFFF) + ucast (drop_bit 42 e2) * (5 :: u64)"
  have h': "h' = (g0 AND 0xFFFFFFFFFFF, (ucast e1 AND 0xFFFFFFFFFFF) + drop_bit 44 g0, ucast e2 AND 0x3FFFFFFFFFF)"
    unfolding res [symmetric] poly1305_block_def Let_def prod.case
      t0_def t1_def a0_def a1_def a2_def d0_def d1_def d2_def e1_def e2_def g0_def ..
  have hb: "unat h0 < 2 ^ 44" "unat h1 < 2 ^ 44 + 2 ^ 8" "unat h2 < 2 ^ 42"
    and rb: "unat r0 < 2 ^ 44" "unat r1 < 2 ^ 44" "unat r2 < 2 ^ 40"
    using h r unfolding h_bounds_def r_bounds_def by simp_all
  have m: "unat (t0 AND 0xFFFFFFFFFFF) < 2 ^ 44" "unat ((drop_bit 44 t0 OR push_bit 20 t1) AND 0xFFFFFFFFFFF) < 2 ^ 44"
    by (simp_all add: unat_and_44)
  have m2: "unat ((drop_bit 24 t1 AND 0x3FFFFFFFFFF) OR hibit) < 2 ^ 41"
    unfolding top_limb [OF hibit] using top_less [of t1] hibit by auto
  note a0w = unat_add64_bounds [OF hb(1) m(1), folded a0_def]
    and a1w = unat_add64_bounds [OF hb(2) m(2), folded a1_def]
    and a2w = unat_add64_bounds [OF hb(3) m2, folded a2_def]
  have a0: "unat a0 = unat h0 + unat t0 mod 2 ^ 44" using a0w by (simp add: unat_and_44)
  have a1: "unat a1 = unat h1 + (unat t0 div 2 ^ 44 + unat t1 mod 2 ^ 24 * 2 ^ 20)"
    using a1w unfolding unat_middle_limb by simp
  have a2: "unat a2 = unat h2 + (unat t1 div 2 ^ 24 + unat hibit)"
    using a2w unfolding top_limb [OF hibit] by simp
  have ab: "unat a0 \<le> 2 ^ 45" "unat a1 \<le> 2 ^ 45 + 2 ^ 8" "unat a2 \<le> 2 ^ 42 + 2 ^ 41"
    using a0w a1w a2w by simp_all
  have rl: "unat r0 \<le> 2 ^ 44" "unat r1 \<le> 2 ^ 44" "unat r2 \<le> 2 ^ 40" "20 * unat r1 \<le> 20 * 2 ^ 44" "20 * unat r2 \<le> 20 * 2 ^ 40"
    using rb by linarith+
  have s: "unat (r1 * 20) = 20 * unat r1" "unat (r2 * 20) = 20 * unat r2"
    using rb by (subst unat_mult64; simp)+
  have d0: "unat d0 = unat a0 * unat r0 + unat a1 * (20 * unat r2) + unat a2 * (20 * unat r1)" "unat d0 \<le> 2 ^ 92"
    using mult_le_mono [OF ab(1) rl(1)] mult_le_mono [OF ab(2) rl(5)] mult_le_mono [OF ab(3) rl(4)]
    unfolding d0_def by (subst unat_sum3_128; simp only: mul128_eq s; simp)+
  have d1: "unat d1 = unat a0 * unat r1 + unat a1 * unat r0 + unat a2 * (20 * unat r2)" "unat d1 \<le> 2 ^ 91"
    using mult_le_mono [OF ab(1) rl(2)] mult_le_mono [OF ab(2) rl(1)] mult_le_mono [OF ab(3) rl(5)]
    unfolding d1_def by (subst unat_sum3_128; simp only: mul128_eq s; simp)+
  have d2: "unat d2 = unat a0 * unat r2 + unat a1 * unat r1 + unat a2 * unat r0" "unat d2 \<le> 2 ^ 90"
    using mult_le_mono [OF ab(1) rl(3)] mult_le_mono [OF ab(2) rl(2)] mult_le_mono [OF ab(3) rl(1)]
    unfolding d2_def by (subst unat_sum3_128; simp only: mul128_eq s; simp)+
  have c0: "unat d0 div 2 ^ 44 \<le> 2 ^ 48" using div_le_mono [OF d0(2), of "2 ^ 44"] by simp
  have e1: "unat e1 = unat d1 + unat d0 div 2 ^ 44" "unat e1 \<le> 2 ^ 92"
    unfolding e1_def using d1(2) c0 carry128 [of d0 44 d1] by simp_all
  have c1: "unat e1 div 2 ^ 44 \<le> 2 ^ 48" using div_le_mono [OF e1(2), of "2 ^ 44"] by simp
  have e2: "unat e2 = unat d2 + unat e1 div 2 ^ 44" "unat e2 \<le> 2 ^ 91"
    unfolding e2_def using d2(2) c1 carry128 [of e1 44 d2] by simp_all
  have c2: "unat e2 div 2 ^ 42 \<le> 2 ^ 49" using div_le_mono [OF e2(2), of "2 ^ 42"] by simp
  have g0: "unat g0 = unat d0 mod 2 ^ 44 + unat e2 div 2 ^ 42 * 5"
  proof -
    have "unat (ucast (drop_bit 42 e2) :: u64) = unat e2 div 2 ^ 42"
      using c2 by (subst unat_ucast_small) (simp_all add: unat_drop_bit)
    then have "unat (ucast (drop_bit 42 e2) * (5 :: u64)) = unat e2 div 2 ^ 42 * 5"
      using c2 by (subst unat_mult64) simp_all
    moreover have "unat (ucast d0 AND 0xFFFFFFFFFFF :: u64) = unat d0 mod 2 ^ 44"
      using unat_ucast_low [of 44 d0] by (simp add: unat_and_44)
    moreover have "unat d0 mod 2 ^ 44 < 2 ^ 44" by simp
    ultimately show ?thesis unfolding g0_def using c2 by (subst unat_add64) simp_all
  qed
  have gc: "unat g0 div 2 ^ 44 < 2 ^ 8"
  proof (rule less_mult_imp_div_less)
    have "unat d0 mod 2 ^ 44 < 2 ^ 44" by simp
    then show "unat g0 < 2 ^ 8 * 2 ^ 44" unfolding g0 using c2 by simp
  qed
  have k0: "unat (g0 AND 0xFFFFFFFFFFF) = unat g0 mod 2 ^ 44" by (rule unat_and_44)
  have l1: "unat (ucast e1 AND 0xFFFFFFFFFFF :: u64) = unat e1 mod 2 ^ 44"
    using unat_ucast_low [of 44 e1] by (simp add: unat_and_44)
  have k2: "unat (ucast e2 AND 0x3FFFFFFFFFF :: u64) = unat e2 mod 2 ^ 42"
    using unat_ucast_low [of 42 e2] by (simp add: unat_and_42)
  have "unat (ucast e1 AND 0xFFFFFFFFFFF :: u64) < 2 ^ 44" unfolding l1 by simp
  moreover have "unat (drop_bit 44 g0) < 2 ^ 8" using gc by (simp add: unat_drop_bit)
  ultimately have k1: "unat ((ucast e1 AND 0xFFFFFFFFFFF) + drop_bit 44 g0) = unat e1 mod 2 ^ 44 + unat g0 div 2 ^ 44"
      "unat ((ucast e1 AND 0xFFFFFFFFFFF) + drop_bit 44 g0) < 2 ^ 44 + 2 ^ 8"
    using unat_add64_bounds [of "ucast e1 AND 0xFFFFFFFFFFF" "2 ^ 44" "drop_bit 44 g0" "2 ^ 8"] l1
    by (simp_all add: unat_drop_bit)
  show "h_bounds h'" unfolding h_bounds_def h' using k1(2) by (simp add: k0 k2)
  have "limbs (h0, h1, h2) + le_nat (take 16 inp) + 2 ^ 88 * unat hibit = unat a0 + 2 ^ 44 * unat a1 + 2 ^ 88 * unat a2"
    unfolding limbs_def prod.case a0 a1 a2 le_nat_16 [OF inp] t0_def [symmetric] t1_def [symmetric]
    by (rule limb_add)
  then have "(limbs (h0, h1, h2) + le_nat (take 16 inp) + 2 ^ 88 * unat hibit) * limbs (r0, r1, r2) =
      unat d0 + 2 ^ 44 * unat d1 + 2 ^ 88 * unat d2 + poly1305_p * (4 * (unat a1 * unat r2 + unat a2 * unat r1) + 2 ^ 46 * (unat a2 * unat r2))"
    unfolding limbs_def prod.case d0(1) d1(1) d2(1) by (simp only: product_mod_p)
  moreover have "unat d0 + 2 ^ 44 * unat d1 + 2 ^ 88 * unat d2 = limbs h' + poly1305_p * (unat e2 div 2 ^ 42)"
    unfolding limbs_def h' prod.case k0 k1(1) k2 g0 e2(1) e1(1) by (rule carry_mod_p)
  ultimately show "\<exists>k. (limbs (h0, h1, h2) + le_nat (take 16 inp) + 2 ^ 88 * unat hibit) * limbs (r0, r1, r2) =
      limbs h' + poly1305_p * k"
    by (rule multiples_add)
qed

section \<open>Key clamping\<close>

lemma nat_and_split:
  fixes x y u v :: nat
  assumes "x < 2 ^ k" "y < 2 ^ k"
  shows "(x + 2 ^ k * u) AND (y + 2 ^ k * v) = (x AND y) + 2 ^ k * (u AND v)"
proof -
  let ?a = "x + 2 ^ k * u" and ?b = "y + 2 ^ k * v"
  have "take_bit k (?a AND ?b) = x AND y" "drop_bit k (?a AND ?b) = u AND v"
    using assms by (simp_all only: take_bit_and drop_bit_and) (simp_all add: take_bit_eq_mod drop_bit_eq_div)
  moreover have "?a AND ?b = push_bit k (drop_bit k (?a AND ?b)) + take_bit k (?a AND ?b)"
    by (rule bits_ident [symmetric])
  ultimately show ?thesis by (simp add: push_bit_eq_mult mult.commute add.commute)
qed

lemma poly1305_clamp:
  assumes "16 \<le> length key"
  defines "t0 \<equiv> mem_loadU64 key"
  defines "t1 \<equiv> mem_loadU64 (drop 8 key)"
  defines "r \<equiv> (t0 AND 0xFFC0FFFFFFF, (drop_bit 44 t0 OR push_bit 20 t1) AND 0xFFFFFC0FFFF, drop_bit 24 t1 AND 0x00FFFFFFC0F)"
  shows "limbs r = rfc_clamp key" "r_bounds r"
proof -
  let ?k0 = "unat t0 mod 2 ^ 44" and ?k1 = "unat t0 div 2 ^ 44 + unat t1 mod 2 ^ 24 * 2 ^ 20" and ?k2 = "unat t1 div 2 ^ 24"
  have r0: "unat (t0 AND 0xFFC0FFFFFFF) = ?k0 AND 0xFFC0FFFFFFF"
  proof -
    have "t0 AND 0xFFC0FFFFFFF = (t0 AND 0xFFFFFFFFFFF) AND 0xFFC0FFFFFFF" by (simp add: and.assoc)
    then have "unat (t0 AND 0xFFC0FFFFFFF) = unat (t0 AND 0xFFFFFFFFFFF) AND unat (0xFFC0FFFFFFF :: u64)"
      by (simp only: unsigned_and_eq)
    then show ?thesis by (simp add: unat_and_44)
  qed
  have r1: "unat ((drop_bit 44 t0 OR push_bit 20 t1) AND 0xFFFFFC0FFFF) = ?k1 AND 0xFFFFFC0FFFF"
  proof -
    have w: "w AND 0xFFFFFC0FFFF = (w AND 0xFFFFFFFFFFF) AND 0xFFFFFC0FFFF" for w :: u64 by (simp add: and.assoc)
    have "unat (w AND 0xFFFFFC0FFFF) = unat (w AND 0xFFFFFFFFFFF) AND unat (0xFFFFFC0FFFF :: u64)" for w :: u64
      by (subst w) (rule unsigned_and_eq)
    from this [of "drop_bit 44 t0 OR push_bit 20 t1"] show ?thesis unfolding unat_middle_limb by simp
  qed
  have r2: "unat (drop_bit 24 t1 AND 0x00FFFFFFC0F) = ?k2 AND 0x00FFFFFFC0F"
    by (simp add: unsigned_and_eq unat_drop_bit)
  have "rfc_clamp key = (?k0 + 2 ^ 44 * (?k1 + 2 ^ 44 * ?k2)) AND (0xFFC0FFFFFFF + 2 ^ 44 * (0xFFFFFC0FFFF + 2 ^ 44 * 0x00FFFFFFC0F))"
    unfolding rfc_clamp_def le_nat_16 [OF assms(1)] t0_def [symmetric] t1_def [symmetric] by (simp add: algebra_simps)
  also have "\<dots> = (?k0 AND 0xFFC0FFFFFFF) + 2 ^ 44 * ((?k1 AND 0xFFFFFC0FFFF) + 2 ^ 44 * (?k2 AND 0x00FFFFFFC0F))"
    using middle_less [of t0 t1] by (subst nat_and_split, simp, simp, subst nat_and_split) simp_all
  finally show "limbs r = rfc_clamp key"
    unfolding limbs_def r_def prod.case r0 r1 r2 by (simp add: algebra_simps)
  have le: "unat (w AND c) \<le> unat c" for w c :: u64
    by (simp only: word_le_nat_alt [symmetric]) (rule word_and_le1)
  from le [of t0 "0xFFC0FFFFFFF"] le [of "drop_bit 44 t0 OR push_bit 20 t1" "0xFFFFFC0FFFF"]
    le [of "drop_bit 24 t1" "0x00FFFFFFC0F"]
  show "r_bounds r" unfolding r_bounds_def r_def prod.case by simp
qed

section \<open>Finalisation\<close>

definition canonical :: "u64 \<times> u64 \<times> u64 \<Rightarrow> bool" where
  "canonical h = (case h of (h0, h1, h2) \<Rightarrow> unat h0 < 2 ^ 44 \<and> unat h1 < 2 ^ 44 \<and> unat h2 < 2 ^ 42)"

lemma canonical_less: "canonical h \<Longrightarrow> limbs h < 2 ^ 130"
  by (cases h) (simp add: canonical_def limbs_def)

text \<open>One carry pass, as it is done twice: limb 1 into limb 2, limb 2 into limb 0 times five, limb 0 into limb 1.\<close>

definition carry_pass :: "u64 \<times> u64 \<times> u64 \<Rightarrow> u64 \<times> u64 \<times> u64" where
  "carry_pass h = (case h of (h0, h1, h2) \<Rightarrow>
     let h2 = h2 + drop_bit 44 h1; h1 = h1 AND 0xFFFFFFFFFFF; h0 = h0 + drop_bit 42 h2 * 5; h2 = h2 AND 0x3FFFFFFFFFF;
         h1 = h1 + drop_bit 44 h0; h0 = h0 AND 0xFFFFFFFFFFF
     in (h0, h1, h2))"

lemma poly1305_carry_passes: "poly1305_carry h = carry_pass (carry_pass h)"
  by (cases h) (simp add: poly1305_carry_def carry_pass_def Let_def)

lemma carry_pass_unat:
  assumes "unat h0 < 2 ^ 44" "unat h1 < 2 ^ 45" "unat h2 < 2 ^ 43"
  defines "x2 \<equiv> unat h2 + unat h1 div 2 ^ 44"
  defines "x0 \<equiv> unat h0 + x2 div 2 ^ 42 * 5"
  shows "\<exists>k0 k1 k2. carry_pass (h0, h1, h2) = (k0, k1, k2) \<and> unat k0 = x0 mod 2 ^ 44 \<and>
    unat k1 = unat h1 mod 2 ^ 44 + x0 div 2 ^ 44 \<and> unat k2 = x2 mod 2 ^ 42"
proof -
  define w2 where "w2 = h2 + drop_bit 44 h1"
  define w0 where "w0 = h0 + drop_bit 42 w2 * 5"
  define w1 where "w1 = (h1 AND 0xFFFFFFFFFFF) + drop_bit 44 w0"
  have c1: "unat h1 div 2 ^ 44 < 2" using assms(2) by (intro less_mult_imp_div_less) simp
  then have w2: "unat w2 = x2" "x2 < 2 ^ 43 + 2"
    unfolding w2_def x2_def using assms(3) by (simp_all add: unat_add64 unat_drop_bit)
  have c2: "x2 div 2 ^ 42 < 4" using w2(2) by (intro less_mult_imp_div_less) simp
  then have "unat (drop_bit 42 w2 * 5) = x2 div 2 ^ 42 * 5"
    using w2(1) by (subst unat_mult64) (simp_all add: unat_drop_bit)
  then have w0: "unat w0 = x0" "x0 < 2 ^ 45"
    unfolding w0_def x0_def using assms(1) c2 by (simp_all add: unat_add64)
  have c0: "x0 div 2 ^ 44 < 2" using w0(2) by (intro less_mult_imp_div_less) simp
  have "unat h1 mod 2 ^ 44 < 2 ^ 44" by simp
  then have w1: "unat w1 = unat h1 mod 2 ^ 44 + x0 div 2 ^ 44"
    unfolding w1_def using c0 w0(1) by (subst unat_add64) (simp_all add: unat_and_44 unat_drop_bit)
  have "carry_pass (h0, h1, h2) = (w0 AND 0xFFFFFFFFFFF, w1, w2 AND 0x3FFFFFFFFFF)"
    by (simp add: carry_pass_def Let_def w0_def w1_def w2_def)
  then show ?thesis using w0(1) w1 w2(1) by (simp add: unat_and_44 unat_and_42)
qed

lemma carry_value:
  fixes h0 h1 h2 :: nat
  defines "x2 \<equiv> h2 + h1 div 2 ^ 44"
  defines "x0 \<equiv> h0 + x2 div 2 ^ 42 * 5"
  shows "h0 + 2 ^ 44 * h1 + 2 ^ 88 * h2 =
    x0 mod 2 ^ 44 + 2 ^ 44 * (h1 mod 2 ^ 44 + x0 div 2 ^ 44) + 2 ^ 88 * (x2 mod 2 ^ 42) + poly1305_p * (x2 div 2 ^ 42)"
proof -
  have "h1 = h1 mod 2 ^ 44 + 2 ^ 44 * (h1 div 2 ^ 44)" "x2 = x2 mod 2 ^ 42 + 2 ^ 42 * (x2 div 2 ^ 42)"
    "x0 = x0 mod 2 ^ 44 + 2 ^ 44 * (x0 div 2 ^ 44)"
    by (simp_all only: mod_mult_div_eq)
  moreover have "h0 + 2 ^ 44 * h1 + 2 ^ 88 * h2 = y0 + 2 ^ 44 * (y1 + k0) + 2 ^ 88 * y2 + poly1305_p * k2"
    if "h1 = y1 + 2 ^ 44 * k1" "x2 = y2 + 2 ^ 42 * k2" "x0 = y0 + 2 ^ 44 * k0" "x2 = h2 + k1" "x0 = h0 + k2 * 5"
    for y0 y1 y2 k0 k1 k2
    using that unfolding poly1305_p_def by simp
  ultimately show ?thesis unfolding x0_def x2_def by blast
qed

lemma carry_pass_limbs:
  assumes "unat h0 < 2 ^ 44" "unat h1 < 2 ^ 45" "unat h2 < 2 ^ 43"
  shows "limbs (carry_pass (h0, h1, h2)) mod poly1305_p = limbs (h0, h1, h2) mod poly1305_p"
proof -
  obtain k0 k1 k2 where k: "carry_pass (h0, h1, h2) = (k0, k1, k2)"
    "unat k0 = (unat h0 + (unat h2 + unat h1 div 2 ^ 44) div 2 ^ 42 * 5) mod 2 ^ 44"
    "unat k1 = unat h1 mod 2 ^ 44 + (unat h0 + (unat h2 + unat h1 div 2 ^ 44) div 2 ^ 42 * 5) div 2 ^ 44"
    "unat k2 = (unat h2 + unat h1 div 2 ^ 44) mod 2 ^ 42"
    using carry_pass_unat [OF assms] by blast
  have "limbs (h0, h1, h2) = limbs (k0, k1, k2) + poly1305_p * ((unat h2 + unat h1 div 2 ^ 44) div 2 ^ 42)"
    unfolding limbs_def prod.case k(2-4) by (rule carry_value)
  then show ?thesis using k(1) by simp
qed

lemma poly1305_carry_correct:
  assumes "h_bounds h"
  shows "canonical (poly1305_carry h)" "limbs (poly1305_carry h) mod poly1305_p = limbs h mod poly1305_p"
proof -
  obtain h0 h1 h2 where h: "h = (h0, h1, h2)" by (cases h)
  have b: "unat h0 < 2 ^ 44" "unat h1 < 2 ^ 44 + 2 ^ 8" "unat h2 < 2 ^ 42" using assms h by (simp_all add: h_bounds_def)
  then have b': "unat h1 < 2 ^ 45" "unat h2 < 2 ^ 43" by simp_all
  define x2 where "x2 = unat h2 + unat h1 div 2 ^ 44"
  define x0 where "x0 = unat h0 + x2 div 2 ^ 42 * 5"
  obtain k0 k1 k2 where k: "carry_pass (h0, h1, h2) = (k0, k1, k2)" "unat k0 = x0 mod 2 ^ 44"
    "unat k1 = unat h1 mod 2 ^ 44 + x0 div 2 ^ 44" "unat k2 = x2 mod 2 ^ 42"
    using carry_pass_unat [OF b(1) b'] unfolding x0_def x2_def by blast
  have "unat h1 div 2 ^ 44 < 2" using b by (intro less_mult_imp_div_less) simp
  then have "x2 div 2 ^ 42 < 2" unfolding x2_def using b by (intro less_mult_imp_div_less) simp
  then have "x0 div 2 ^ 44 < 2" unfolding x0_def using b by (intro less_mult_imp_div_less) simp
  moreover have m: "x0 mod 2 ^ 44 < 2 ^ 44" "unat h1 mod 2 ^ 44 < 2 ^ 44" "x2 mod 2 ^ 42 < 2 ^ 42" by simp_all
  ultimately have kb: "unat k0 < 2 ^ 44" "unat k1 \<le> 2 ^ 44" "unat k2 < 2 ^ 42" unfolding k(2-4) by linarith+
  then have kb': "unat k1 < 2 ^ 45" "unat k2 < 2 ^ 43" by simp_all
  obtain l0 l1 l2 where l: "carry_pass (k0, k1, k2) = (l0, l1, l2)"
    "unat l0 = (unat k0 + (unat k2 + unat k1 div 2 ^ 44) div 2 ^ 42 * 5) mod 2 ^ 44"
    "unat l1 = unat k1 mod 2 ^ 44 + (unat k0 + (unat k2 + unat k1 div 2 ^ 44) div 2 ^ 42 * 5) div 2 ^ 44"
    "unat l2 = (unat k2 + unat k1 div 2 ^ 44) mod 2 ^ 42"
    using carry_pass_unat [OF kb(1) kb'] by blast
  have "unat l1 < 2 ^ 44"
  proof (cases "unat k1 = 2 ^ 44")
    case True
    then have "(unat k2 + unat k1 div 2 ^ 44) div 2 ^ 42 < 2" using kb by (intro less_mult_imp_div_less) simp
    then have "(unat k0 + (unat k2 + unat k1 div 2 ^ 44) div 2 ^ 42 * 5) div 2 ^ 44 < 2"
      using kb(1) by (intro less_mult_imp_div_less) simp
    with True show ?thesis unfolding l(3) by simp
  next
    case False
    then have "unat k1 < 2 ^ 44" using kb(2) by simp
    then show ?thesis unfolding l(3) using kb by simp
  qed
  moreover have "poly1305_carry h = (l0, l1, l2)" using h k(1) l(1) by (simp add: poly1305_carry_passes)
  ultimately show "canonical (poly1305_carry h)" by (simp add: canonical_def l(2,4))
  show "limbs (poly1305_carry h) mod poly1305_p = limbs h mod poly1305_p"
    using carry_pass_limbs [OF b(1) b'] carry_pass_limbs [OF kb(1) kb'] h k(1) by (simp add: poly1305_carry_passes)
qed

text \<open>
  The code subtracts \<open>0x80000000000 = 2^43\<close> from limb 2 where \<open>h + 5 - 2^130\<close> needs \<open>2^42\<close>, so the
  difference is always negative and the reduced value is never selected.
\<close>

lemma poly1305_select_id:
  assumes "canonical h"
  shows "poly1305_select h = h"
proof -
  obtain h0 h1 h2 where h: "h = (h0, h1, h2)" by (cases h)
  have b: "unat h0 < 2 ^ 44" "unat h1 < 2 ^ 44" "unat h2 < 2 ^ 42" using assms h by (simp_all add: canonical_def)
  define g1 where "g1 = h1 + drop_bit 44 (h0 + 5)"
  have "unat (h0 + 5) = unat h0 + 5" using b by (subst unat_add64) simp_all
  then have "unat (drop_bit 44 (h0 + 5)) < 2"
    using b unfolding unat_drop_bit by (intro less_mult_imp_div_less) simp
  then have "unat g1 \<le> 2 ^ 44" unfolding g1_def using b by (subst unat_add64) simp_all
  then have "unat (drop_bit 44 g1) < 2" unfolding unat_drop_bit by (intro less_mult_imp_div_less) simp
  then have v: "unat (h2 + drop_bit 44 g1) \<le> 2 ^ 42" using b by (subst unat_add64) simp_all
  then have "unat (h2 + drop_bit 44 g1 - 0x80000000000) = 2 ^ 64 + unat (h2 + drop_bit 44 g1) - 2 ^ 43"
    by (simp add: unat_sub_if_size word_size)
  then have "unat (drop_bit 63 (h2 + drop_bit 44 g1 - 0x80000000000)) = 1"
    using v unfolding unat_drop_bit by (intro div_nat_eqI) simp_all
  then have "drop_bit 63 (h2 + drop_bit 44 g1 - 0x80000000000) = 1"
    by (intro unat_eqI) simp
  then show ?thesis unfolding poly1305_select_def h Let_def prod.case g1_def by (simp only:) simp
qed

lemma mod_unique: "x = r + m * k \<Longrightarrow> r < m \<Longrightarrow> x mod m = r" for x :: nat
  by simp

lemma add_carries:
  fixes h0 h1 h2 m0 m1 m2 :: nat
  defines "x0 \<equiv> h0 + m0"
  defines "x1 \<equiv> h1 + (m1 + x0 div 2 ^ 44)"
  defines "x2 \<equiv> h2 + (m2 + x1 div 2 ^ 44)"
  shows "(h0 + 2 ^ 44 * h1 + 2 ^ 88 * h2 + (m0 + 2 ^ 44 * m1 + 2 ^ 88 * m2)) mod 2 ^ 128 =
    (x0 mod 2 ^ 44 + x1 mod 2 ^ 44 mod 2 ^ 20 * 2 ^ 44) + 2 ^ 64 * (x1 mod 2 ^ 44 div 2 ^ 20 + x2 mod 2 ^ 42 mod 2 ^ 40 * 2 ^ 24)"
proof -
  let ?y1 = "x1 mod 2 ^ 44" and ?y2 = "x2 mod 2 ^ 42"
  let ?R = "(x0 mod 2 ^ 44 + ?y1 mod 2 ^ 20 * 2 ^ 44) + 2 ^ 64 * (?y1 div 2 ^ 20 + ?y2 mod 2 ^ 40 * 2 ^ 24)"
  have "x0 = x0 mod 2 ^ 44 + 2 ^ 44 * (x0 div 2 ^ 44)" "x1 = ?y1 + 2 ^ 44 * (x1 div 2 ^ 44)"
    "x2 = ?y2 + 2 ^ 42 * (x2 div 2 ^ 42)" "?y1 = ?y1 mod 2 ^ 20 + 2 ^ 20 * (?y1 div 2 ^ 20)"
    "?y2 = ?y2 mod 2 ^ 40 + 2 ^ 40 * (?y2 div 2 ^ 40)"
    by (simp_all only: mod_mult_div_eq)
  moreover have "h0 + 2 ^ 44 * h1 + 2 ^ 88 * h2 + (m0 + 2 ^ 44 * m1 + 2 ^ 88 * m2) =
      (y0 + a * 2 ^ 44) + 2 ^ 64 * (b + c * 2 ^ 24) + 2 ^ 128 * (d + 4 * k2)"
    if "x0 = y0 + 2 ^ 44 * k0" "x1 = y1 + 2 ^ 44 * k1" "x2 = y2 + 2 ^ 42 * k2" "y1 = a + 2 ^ 20 * b" "y2 = c + 2 ^ 40 * d"
      "x0 = h0 + m0" "x1 = h1 + (m1 + k0)" "x2 = h2 + (m2 + k1)" for y0 y1 y2 k0 k1 k2 a b c d
    using that by simp
  ultimately have "h0 + 2 ^ 44 * h1 + 2 ^ 88 * h2 + (m0 + 2 ^ 44 * m1 + 2 ^ 88 * m2) =
      ?R + 2 ^ 128 * (?y2 div 2 ^ 40 + 4 * (x2 div 2 ^ 42))"
    unfolding x0_def x1_def x2_def by blast
  moreover have "?R < 2 ^ 128"
  proof -
    have "?y1 div 2 ^ 20 < 2 ^ 24" by (rule less_mult_imp_div_less) simp
    moreover have "x0 mod 2 ^ 44 < 2 ^ 44" "?y1 mod 2 ^ 20 < 2 ^ 20" "?y2 mod 2 ^ 40 < 2 ^ 40" by simp_all
    moreover have "(p + q * 2 ^ 44) + 2 ^ 64 * (r + t * 2 ^ 24) < (2 ^ 128 :: nat)"
      if "p < 2 ^ 44" "q < 2 ^ 20" "r < 2 ^ 24" "t < 2 ^ 40" for p q r t using that by simp
    ultimately show ?thesis by blast
  qed
  ultimately show ?thesis by (rule mod_unique)
qed

lemma poly1305_addPad_correct:
  assumes "canonical h" "poly1305_addPad h t0 t1 = (o0, o1)"
  shows "unat o0 + 2 ^ 64 * unat o1 = (limbs h + (unat t0 + 2 ^ 64 * unat t1)) mod 2 ^ 128"
proof -
  obtain h0 h1 h2 where h: "h = (h0, h1, h2)" by (cases h)
  have b: "unat h0 < 2 ^ 44" "unat h1 < 2 ^ 44" "unat h2 < 2 ^ 42" using assms h by (simp_all add: canonical_def)
  define m1 where "m1 = (drop_bit 44 t0 OR push_bit 20 t1) AND 0xFFFFFFFFFFF"
  define m2 where "m2 = drop_bit 24 t1 AND 0x3FFFFFFFFFF"
  define x0 where "x0 = h0 + (t0 AND 0xFFFFFFFFFFF)"
  define x1 where "x1 = h1 + (m1 + drop_bit 44 x0)"
  define x2 where "x2 = h2 + (m2 + drop_bit 44 x1)"
  have o: "o0 = (x0 AND 0xFFFFFFFFFFF) OR push_bit 44 (x1 AND 0xFFFFFFFFFFF)"
    "o1 = drop_bit 20 (x1 AND 0xFFFFFFFFFFF) OR push_bit 24 (x2 AND 0x3FFFFFFFFFF)"
    using assms(2) unfolding h poly1305_addPad_def Let_def prod.case x0_def x1_def x2_def m1_def m2_def by simp_all
  have m0: "unat (t0 AND 0xFFFFFFFFFFF) = unat t0 mod 2 ^ 44" "unat (t0 AND 0xFFFFFFFFFFF) < 2 ^ 44"
    by (simp_all add: unat_and_44)
  have m1: "unat m1 = unat t0 div 2 ^ 44 + unat t1 mod 2 ^ 24 * 2 ^ 20" "unat m1 < 2 ^ 44"
    using middle_less [of t0 t1] unfolding m1_def unat_middle_limb by simp_all
  have m2: "unat m2 = unat t1 div 2 ^ 24" "unat m2 < 2 ^ 40"
    using top_less [of t1] unfolding m2_def unat_and_42 unat_drop_bit by simp_all
  have x0: "unat x0 = unat h0 + unat t0 mod 2 ^ 44" "unat x0 < 2 ^ 45"
    using unat_add64_bounds [OF b(1) m0(2), folded x0_def] m0(1) by simp_all
  have "unat (drop_bit 44 x0) < 2" unfolding unat_drop_bit using x0(2) by (intro less_mult_imp_div_less) simp
  then have "unat (m1 + drop_bit 44 x0) = unat m1 + unat x0 div 2 ^ 44" "unat (m1 + drop_bit 44 x0) < 2 ^ 44 + 2"
    using unat_add64_bounds [OF m1(2), of "drop_bit 44 x0" 2] by (simp_all add: unat_drop_bit)
  then have x1: "unat x1 = unat h1 + (unat m1 + unat x0 div 2 ^ 44)" "unat x1 < 2 ^ 46"
    using unat_add64_bounds [OF b(2), of "m1 + drop_bit 44 x0" "2 ^ 44 + 2", folded x1_def] by simp_all
  have "unat (drop_bit 44 x1) < 4" unfolding unat_drop_bit using x1(2) by (intro less_mult_imp_div_less) simp
  then have "unat (m2 + drop_bit 44 x1) = unat m2 + unat x1 div 2 ^ 44" "unat (m2 + drop_bit 44 x1) < 2 ^ 40 + 4"
    using unat_add64_bounds [OF m2(2), of "drop_bit 44 x1" 4] by (simp_all add: unat_drop_bit)
  then have x2: "unat x2 = unat h2 + (unat m2 + unat x1 div 2 ^ 44)"
    using unat_add64_bounds [OF b(3), of "m2 + drop_bit 44 x1" "2 ^ 40 + 4", folded x2_def] by simp
  have "unat o0 = unat x0 mod 2 ^ 44 + unat x1 mod 2 ^ 44 mod 2 ^ 20 * 2 ^ 44"
    unfolding o using unat_or_push [of "x0 AND 0xFFFFFFFFFFF" 44 "x1 AND 0xFFFFFFFFFFF"] by (simp add: unat_and_44)
  moreover have "unat o1 = unat x1 mod 2 ^ 44 div 2 ^ 20 + unat x2 mod 2 ^ 42 mod 2 ^ 40 * 2 ^ 24"
  proof -
    have "unat x1 mod 2 ^ 44 div 2 ^ 20 < 2 ^ 24" by (rule less_mult_imp_div_less) simp
    then show ?thesis
      unfolding o by (subst unat_or_push; simp only: unat_and_44 unat_and_42 unat_drop_bit; simp)
  qed
  moreover have "unat t0 + 2 ^ 64 * unat t1 = unat t0 mod 2 ^ 44 + 2 ^ 44 * unat m1 + 2 ^ 88 * unat m2"
    unfolding m1(1) m2(1) using unat_less [of t0] by (intro split_128) simp
  ultimately show ?thesis
    unfolding limbs_def h prod.case x0(1) x1(1) x2 by (simp only: add_carries)
qed

section \<open>The object is a block stream\<close>

type_synonym poly1305_chain = "u64 list \<times> u64 list \<times> u64 list"

definition triple :: "u64 list \<Rightarrow> u64 \<times> u64 \<times> u64" where
  "triple xs = (xs ! 0, xs ! 1, xs ! 2)"

definition untriple :: "u64 \<times> u64 \<times> u64 \<Rightarrow> u64 list" where
  "untriple h = (case h of (h0, h1, h2) \<Rightarrow> [h0, h1, h2])"

lemma triple_untriple [simp]: "triple (untriple h) = h"
  by (cases h) (simp add: triple_def untriple_def)

definition poly1305_absorb :: "u64 \<Rightarrow> bytes \<Rightarrow> poly1305_chain \<Rightarrow> poly1305_chain" where
  "poly1305_absorb hibit b c = (case c of (r, h, pad) \<Rightarrow>
     (r, untriple (poly1305_block (triple r) (r ! 1 * 20) (r ! 2 * 20) hibit (triple h) b), pad))"

definition poly1305_chain_blocks :: "u64 \<Rightarrow> poly1305_chain \<Rightarrow> bytes \<Rightarrow> nat \<Rightarrow> poly1305_chain" where
  "poly1305_chain_blocks hibit c inp n = (case c of (r, h, pad) \<Rightarrow>
     (r, untriple (poly1305_blocks_loop (triple r) (r ! 1 * 20) (r ! 2 * 20) hibit (triple h) inp n), pad))"

definition poly1305_chain :: "poly1305 \<Rightarrow> poly1305_chain" where
  "poly1305_chain s = (poly1305_r s, poly1305_h s, poly1305_pad s)"

definition poly1305_view :: "poly1305 \<Rightarrow> poly1305_chain \<times> bytes \<times> nat" where
  "poly1305_view s = (poly1305_chain s, poly1305_buffer s, poly1305_bufferSize s)"

lemma poly1305_chain_of_blocks:
  "poly1305_chain (poly1305_blocks s inp n hibit) = poly1305_chain_blocks hibit (poly1305_chain s) inp n"
  "poly1305_buffer (poly1305_blocks s inp n hibit) = poly1305_buffer s"
  "poly1305_bufferSize (poly1305_blocks s inp n hibit) = poly1305_bufferSize s"
  by (simp_all add: poly1305_blocks_def poly1305_chain_def poly1305_chain_blocks_def triple_def untriple_def
      Let_def split: prod.split)

lemma poly1305_block_take: "poly1305_block r s1 s2 hibit h (take 16 inp) = poly1305_block r s1 s2 hibit h inp"
proof -
  have "mem_loadU64 (take 16 inp) = mem_loadU64 inp" "mem_loadU64 (drop 8 (take 16 inp)) = mem_loadU64 (drop 8 inp)"
    by (simp_all add: mem_loadU64_def drop_take min_def)
  then show ?thesis by (simp only: poly1305_block_def)
qed

lemma poly1305_chain_set [simp]:
  "poly1305_chain (s\<lparr>poly1305_buffer := b\<rparr>) = poly1305_chain s"
  "poly1305_chain (s\<lparr>poly1305_bufferSize := n\<rparr>) = poly1305_chain s"
  by (simp_all add: poly1305_chain_def)

lemma poly1305_view_rest:
  "poly1305_view (poly1305_update_rest s inp) =
   stream_rest 16 (poly1305_chain_blocks 0x10000000000) (poly1305_chain s) (poly1305_buffer s) inp"
proof -
  define s' where "s' = (if length inp div 16 > 0 then poly1305_blocks s inp (length inp div 16) 0x10000000000 else s)"
  have "poly1305_update_rest s inp = (let s' = s'\<lparr>poly1305_bufferSize := length inp mod 16\<rparr>
      in if poly1305_bufferSize s' > 0 then
           s'\<lparr>poly1305_buffer := mem_put (poly1305_buffer s') 0
                (take (poly1305_bufferSize s') (drop (length inp - length inp mod 16) inp))\<rparr>
         else s')"
    unfolding poly1305_update_rest_def Let_def s'_def ..
  moreover have "poly1305_chain s' = (if length inp div 16 > 0
      then poly1305_chain_blocks 0x10000000000 (poly1305_chain s) inp (length inp div 16) else poly1305_chain s)"
    "poly1305_buffer s' = poly1305_buffer s"
    unfolding s'_def by (simp_all add: poly1305_chain_of_blocks)
  ultimately show ?thesis by (simp add: poly1305_view_def stream_rest_def Let_def)
qed

lemma poly1305_view_update:
  "poly1305_view (poly1305_update s inp) = stream_update 16 (poly1305_chain_blocks 0x10000000000) (poly1305_view s) inp"
proof (cases "poly1305_bufferSize s > 0")
  case True
  define k where "k = (if 16 - poly1305_bufferSize s > length inp then length inp else 16 - poly1305_bufferSize s)"
  define b where "b = mem_put (poly1305_buffer s) (poly1305_bufferSize s) (take k inp)"
  define s' where "s' = s\<lparr>poly1305_buffer := b\<rparr>\<lparr>poly1305_bufferSize := poly1305_bufferSize s + k\<rparr>"
  have s': "poly1305_chain s' = poly1305_chain s" "poly1305_buffer s' = b" "poly1305_bufferSize s' = poly1305_bufferSize s + k"
    unfolding s'_def by (simp_all del: poly1305.update_convs)
  have "poly1305_update s inp = (if poly1305_bufferSize s' < 16 then s'
      else poly1305_update_rest (poly1305_blocks s' (poly1305_buffer s') 1 0x10000000000) (drop k inp))"
    using True unfolding poly1305_update_def Let_def s'_def b_def k_def by simp
  moreover have "stream_update 16 (poly1305_chain_blocks 0x10000000000) (poly1305_view s) inp =
      (if poly1305_bufferSize s + k < 16 then (poly1305_chain s, b, poly1305_bufferSize s + k)
       else stream_rest 16 (poly1305_chain_blocks 0x10000000000) (poly1305_chain_blocks 0x10000000000 (poly1305_chain s) b 1) b (drop k inp))"
    using True unfolding stream_update_def Let_def poly1305_view_def prod.case b_def k_def by simp
  ultimately show ?thesis
    by (simp add: s' poly1305_view_rest poly1305_chain_of_blocks) (simp add: poly1305_view_def s')
next
  case False
  then show ?thesis by (simp add: poly1305_update_def stream_update_def poly1305_view_rest) (simp add: poly1305_view_def)
qed

interpretation poly1305: stream_object 16 "poly1305_chain_blocks 0x10000000000" "poly1305_absorb 0x10000000000"
  poly1305_view poly1305_update
proof
  show "poly1305_chain_blocks 0x10000000000 c inp 1 = poly1305_absorb 0x10000000000 (take 16 inp) c" for c inp
    by (cases c) (simp add: poly1305_chain_blocks_def poly1305_absorb_def poly1305_blocks_loop.simps poly1305_block_take)
  show "poly1305_chain_blocks 0x10000000000 c inp (Suc n) =
      poly1305_chain_blocks 0x10000000000 (poly1305_absorb 0x10000000000 (take 16 inp) c) (drop 16 inp) n"
    if "0 < n" for c inp n
    using that by (cases c) (simp add: poly1305_chain_blocks_def poly1305_absorb_def poly1305_block_take
        poly1305_blocks_loop.simps [of _ _ _ _ _ inp] Let_def)
qed (simp_all add: poly1305_view_update)

section \<open>The accumulator\<close>

definition accumulates :: "bytes \<Rightarrow> nat \<Rightarrow> poly1305_chain \<Rightarrow> bool" where
  "accumulates key a c = (case c of (r, h, pad) \<Rightarrow>
     r_bounds (triple r) \<and> limbs (triple r) = rfc_clamp key \<and> h_bounds (triple h) \<and>
     limbs (triple h) mod poly1305_p = a \<and>
     pad = [mem_loadU64 (drop 16 key), mem_loadU64 (drop 24 key)])"

lemma mod_sum_mult: "(x + y + z) * r mod p = (x mod p + y + z) * r mod p" for x :: nat
  by (metis add.assoc mod_add_left_eq mod_mult_left_eq)

lemma accumulates_block:
  assumes "accumulates key a c" "hibit = 0 \<or> hibit = 0x10000000000" "length b = 16"
  shows "accumulates key ((a + le_nat b + 2 ^ 88 * unat hibit) * rfc_clamp key mod poly1305_p) (poly1305_absorb hibit b c)"
proof -
  obtain r h pad where c: "c = (r, h, pad)" by (cases c)
  let ?h = "poly1305_block (triple r) (r ! 1 * 20) (r ! 2 * 20) hibit (triple h) b"
  have c': "r_bounds (triple r)" "limbs (triple r) = rfc_clamp key" "h_bounds (triple h)" "limbs (triple h) mod poly1305_p = a"
    "pad = [mem_loadU64 (drop 16 key), mem_loadU64 (drop 24 key)]"
    using assms(1) by (simp_all add: accumulates_def c)
  have step: "h_bounds ?h" "\<exists>k. (limbs (triple h) + le_nat b + 2 ^ 88 * unat hibit) * limbs (triple r) = limbs ?h + poly1305_p * k"
    using poly1305_block_step [of "h ! 0" "h ! 1" "h ! 2" "r ! 0" "r ! 1" "r ! 2" hibit b ?h] c' assms(2,3)
    by (simp_all add: triple_def)
  then have "limbs ?h mod poly1305_p = (limbs (triple h) + le_nat b + 2 ^ 88 * unat hibit) * limbs (triple r) mod poly1305_p"
    by (metis mod_mult_self2)
  also have "\<dots> = (a + le_nat b + 2 ^ 88 * unat hibit) * rfc_clamp key mod poly1305_p"
    unfolding c'(2) c'(4) [symmetric] by (rule mod_sum_mult)
  finally show ?thesis using c' step(1) by (simp add: accumulates_def poly1305_absorb_def c)
qed

lemma accumulates_blocks:
  assumes "\<forall>b \<in> set bs. length b = 16" "accumulates key a c"
  shows "accumulates key (fold (rfc_block (rfc_clamp key)) bs a) (fold (poly1305_absorb 0x10000000000) bs c)"
  using assms
proof (induction bs arbitrary: a c)
  case (Cons b bs)
  have "accumulates key (rfc_block (rfc_clamp key) b a) (poly1305_absorb 0x10000000000 b c)"
    using accumulates_block [OF Cons.prems(2), of "0x10000000000" b] Cons.prems(1) by (simp add: rfc_block_def)
  with Cons show ?case by simp
qed simp

lemma accumulates_init:
  assumes "32 \<le> length key"
  shows "accumulates key 0 (poly1305_chain (poly1305_init self key))"
  using assms poly1305_clamp [of key]
  by (simp add: accumulates_def poly1305_chain_def poly1305_init_def Let_def triple_def h_bounds_def limbs_def)

lemma le_nat_zeros: "le_nat (replicate n 0) = 0"
  by (induction n) simp_all

lemma last_block_value:
  assumes "length rest < 16"
  shows "le_nat (rest @ 1 # replicate (15 - length rest) 0) = le_nat rest + 2 ^ (8 * length rest)"
  by (simp add: le_nat_append power256 le_nat_zeros)

lemma poly1305_finish_tag:
  assumes "accumulates key a (poly1305_chain s)" "length (poly1305_buffer s) = 16" "poly1305_bufferSize s < 16"
    "32 \<le> length key" "16 \<le> length mac"
  defines "rest \<equiv> pending (poly1305_buffer s, poly1305_bufferSize s)"
  defines "a' \<equiv> (if rest = [] then a else rfc_block (rfc_clamp key) rest a)"
  shows "\<exists>h < 2 ^ 130. h mod poly1305_p = a' \<and>
    snd (poly1305_finish s mac) = mem_put mac 0 (le_bytes 16 (h + le_nat (take 16 (drop 16 key))))"
proof -
  let ?n = "poly1305_bufferSize s"
  define s' where "s' = (if ?n > 0 then
       poly1305_blocks (s\<lparr>poly1305_buffer := mem_put ((poly1305_buffer s)[?n := 1]) (?n + 1) (replicate (16 - (?n + 1)) 0)\<rparr>)
         (mem_put ((poly1305_buffer s)[?n := 1]) (?n + 1) (replicate (16 - (?n + 1)) 0)) 1 0 else s)"
  have rest: "length rest = ?n" using assms(2,3) by (simp add: rest_def pending_def)
  have "accumulates key a' (poly1305_chain s')"
  proof (cases "?n > 0")
    case True
    let ?b = "mem_put ((poly1305_buffer s)[?n := 1]) (?n + 1) (replicate (16 - (?n + 1)) 0)"
    have b: "?b = rest @ 1 # replicate (15 - length rest) 0"
      using assms(2,3) unfolding rest by (simp add: mem_put_def rest_def pending_def take_Suc_conv_app_nth)
    then have len: "length ?b = 16" using rest assms(3) by simp
    have "poly1305_chain s' = poly1305_absorb 0 ?b (poly1305_chain s)"
      using True len by (cases "poly1305_chain s")
        (simp add: s'_def poly1305_chain_of_blocks poly1305_chain_blocks_def poly1305_absorb_def poly1305_blocks_loop.simps)
    moreover have "a' = (a + le_nat ?b + 2 ^ 88 * unat (0 :: u64)) * rfc_clamp key mod poly1305_p"
      using last_block_value [of rest] rest True assms(3) unfolding b a'_def rfc_block_def by (auto simp: add.assoc)
    ultimately show ?thesis using accumulates_block [OF assms(1) _ len, of 0] by simp
  next
    case False
    then show ?thesis using assms(1) rest by (simp add: s'_def a'_def)
  qed
  moreover obtain r h pad where c: "poly1305_chain s' = (r, h, pad)" by (cases "poly1305_chain s'")
  ultimately have acc: "h_bounds (triple h)" "limbs (triple h) mod poly1305_p = a'"
    "pad = [mem_loadU64 (drop 16 key), mem_loadU64 (drop 24 key)]"
    by (simp_all add: accumulates_def)
  note carry = poly1305_carry_correct [OF acc(1)]
  obtain o0 o1 where o: "poly1305_addPad (poly1305_carry (triple h)) (mem_loadU64 (drop 16 key)) (mem_loadU64 (drop 24 key)) = (o0, o1)"
    by fastforce
  have "snd (poly1305_finish s mac) = mem_storeU64 (mem_storeU64 mac 0 o0) 8 o1"
  proof -
    have "poly1305_finish s mac = (let h = poly1305_select (poly1305_carry (triple (poly1305_h s')));
        (h0, h1) = poly1305_addPad h (poly1305_pad s' ! 0) (poly1305_pad s' ! 1)
      in (s', mem_storeU64 (mem_storeU64 mac 0 h0) 8 h1))"
      unfolding poly1305_finish_def Let_def s'_def triple_def by simp
    moreover have "poly1305_h s' = h" "poly1305_pad s' = pad" using c by (simp_all add: poly1305_chain_def)
    ultimately show ?thesis using o acc(3) poly1305_select_id [OF carry(1)] by simp
  qed
  moreover have "mem_storeU64 (mem_storeU64 mac 0 o0) 8 o1 = mem_put mac 0 (le_bytes 16 (limbs (poly1305_carry (triple h)) + le_nat (take 16 (drop 16 key))))"
  proof -
    let ?X = "limbs (poly1305_carry (triple h)) + le_nat (take 16 (drop 16 key))"
    have "unat o0 + 2 ^ 64 * unat o1 = ?X mod 2 ^ 128"
      using poly1305_addPad_correct [OF carry(1) o] le_nat_words [of "drop 16 key"] assms(4) by (simp add: add.commute)
    then have "le_bytes 16 ?X = le_bytes 8 (unat o0) @ le_bytes 8 (unat o1)"
      using le_bytes_mod [of 16 ?X] le_bytes_two [of o0 "unat o1"] by (simp add: power256)
    then show ?thesis
      using mem_put_append [of 0 "le_bytes 8 (unat o0)" "le_bytes 8 (unat o1)" mac] assms(5) by (simp add: mem_storeU64_def)
  qed
  ultimately show ?thesis using canonical_less [OF carry(1)] carry(2) acc(2) by auto
qed

lemma two_representatives:
  assumes "h < 2 ^ 130" "h mod poly1305_p = a"
  shows "h = a \<or> (h = a + poly1305_p \<and> a < 5)"
proof -
  have "h div poly1305_p < 2" using assms(1) by (intro less_mult_imp_div_less) (simp add: poly1305_p_def)
  moreover have "h = h div poly1305_p * poly1305_p + a" using assms(2) by (metis div_mult_mod_eq)
  ultimately have "h = a \<or> h = a + poly1305_p" by (cases "h div poly1305_p = 0") (auto simp: less_2_cases_iff)
  then show ?thesis using assms(1) by (auto simp: poly1305_p_def)
qed

lemma poly1305_stream_tag:
  fixes self :: poly1305 and key mac :: bytes and parts :: "bytes list"
  assumes "length (poly1305_buffer self) = 16" "32 \<le> length key" "16 \<le> length mac"
  defines "tag \<equiv> snd (poly1305_finish (fold (\<lambda>p s. poly1305_update s p) parts (poly1305_init self key)) mac)"
  shows "\<exists>h < 2 ^ 130. h mod poly1305_p = rfc_accumulator key (concat parts) \<and>
    tag = mem_put mac 0 (le_bytes 16 (h + le_nat (take 16 (drop 16 key))))"
proof -
  let ?c0 = "poly1305_chain (poly1305_init self key)" and ?msg = "concat parts"
  let ?s = "fold (\<lambda>p s. poly1305_update s p) parts (poly1305_init self key)"
  have "poly1305_view (poly1305_init self key) = (?c0, poly1305_buffer self, 0)"
    by (simp add: poly1305_view_def poly1305_init_def Let_def)
  then have holds: "poly1305.holds ?c0 ?msg ?s"
    using poly1305.holds_updates [OF poly1305.holds_fresh, of "poly1305_init self key" ?c0 "poly1305_buffer self" parts] assms(1)
    by simp
  note V = poly1305.holds_view [OF holds poly1305_view_def]
  have "accumulates key (fold (rfc_block (rfc_clamp key)) (chunks 16 ?msg) 0) (poly1305_chain ?s)"
    unfolding V(1) poly1305.absorb_def
    using accumulates_init [OF assms(2)] chunks_all_blocks by (intro accumulates_blocks) auto
  from poly1305_finish_tag [OF this V(3,4) assms(2,3)] show ?thesis
    unfolding V(2) tag_def rfc_accumulator_def Let_def .
qed



section \<open>An unreduced accumulator\<close>

text \<open>
  A one-time key with \<open>r = 1\<close>, \<open>s = 0\<close> and a 48-byte message whose accumulator is exactly \<open>2^130 - 5\<close>.
\<close>

definition unreduced_key :: bytes where
  "unreduced_key = [1, 0, 0, 0, 0, 0, 0, 0, 0, 0, 0, 0, 0, 0, 0, 0, 0, 0, 0, 0, 0, 0, 0, 0, 0, 0, 0, 0, 0, 0, 0, 0]"

definition unreduced_message :: bytes where
  "unreduced_message = [0xFB, 0xFF, 0xFF, 0xFF, 0xFF, 0xFF, 0xFF, 0xFF, 0xFF, 0xFF, 0xFF, 0xFF, 0xFF, 0xFF, 0xFF, 0xFF, 0, 0, 0, 0, 0, 0, 0, 0, 0, 0, 0, 0, 0, 0, 0, 0, 0, 0, 0, 0, 0, 0, 0, 0, 0, 0, 0, 0, 0, 0, 0, 0]"

lemma unreduced_loads:
  "mem_loadU64 unreduced_key = 1" "mem_loadU64 (drop 8 unreduced_key) = 0"
  "mem_loadU64 (drop 16 unreduced_key) = 0" "mem_loadU64 (drop 24 unreduced_key) = 0"
  "mem_loadU64 unreduced_message = 0xFFFFFFFFFFFFFFFB" "mem_loadU64 (drop 8 unreduced_message) = 0xFFFFFFFFFFFFFFFF"
  "mem_loadU64 (drop 16 unreduced_message) = 0" "mem_loadU64 (drop 24 unreduced_message) = 0"
  "mem_loadU64 (drop 32 unreduced_message) = 0" "mem_loadU64 (drop 40 unreduced_message) = 0"
  by (simp_all add: unreduced_key_def unreduced_message_def mem_loadU64_def take_Cons' drop_Cons')

lemma unreduced_block_1:
  "poly1305_block (1, 0, 0) 0 0 0x10000000000 (0, 0, 0) unreduced_message = (0xFFFFFFFFFFB, 0xFFFFFFFFFFF, 0x1FFFFFFFFFF)"
  by (simp add: poly1305_block_def mul128_product unreduced_loads)

lemma unreduced_block_2:
  "poly1305_block (1, 0, 0) 0 0 0x10000000000 (0xFFFFFFFFFFB, 0xFFFFFFFFFFF, 0x1FFFFFFFFFF) (drop 16 unreduced_message) =
    (0xFFFFFFFFFFB, 0xFFFFFFFFFFF, 0x2FFFFFFFFFF)"
  by (simp add: poly1305_block_def mul128_product unreduced_loads)

lemma unreduced_block_3:
  "poly1305_block (1, 0, 0) 0 0 0x10000000000 (0xFFFFFFFFFFB, 0xFFFFFFFFFFF, 0x2FFFFFFFFFF) (drop 32 unreduced_message) =
    (0xFFFFFFFFFFB, 0xFFFFFFFFFFF, 0x3FFFFFFFFFF)"
  by (simp add: poly1305_block_def mul128_product unreduced_loads)

lemma unreduced_loop:
  "poly1305_blocks_loop (1, 0, 0) 0 0 0x10000000000 (0, 0, 0) unreduced_message 3 = (0xFFFFFFFFFFB, 0xFFFFFFFFFFF, 0x3FFFFFFFFFF)"
  by (simp add: poly1305_blocks_loop.simps unreduced_block_1 unreduced_block_2 unreduced_block_3 Let_def)

lemma unreduced_finish:
  "poly1305_carry (0xFFFFFFFFFFB, 0xFFFFFFFFFFF, 0x3FFFFFFFFFF) = (0xFFFFFFFFFFB, 0xFFFFFFFFFFF, 0x3FFFFFFFFFF)"
  "poly1305_select (0xFFFFFFFFFFB, 0xFFFFFFFFFFF, 0x3FFFFFFFFFF) = (0xFFFFFFFFFFB, 0xFFFFFFFFFFF, 0x3FFFFFFFFFF)"
  "poly1305_addPad (0xFFFFFFFFFFB, 0xFFFFFFFFFFF, 0x3FFFFFFFFFF) 0 0 = (0xFFFFFFFFFFFFFFFB, 0xFFFFFFFFFFFFFFFF)"
  by (simp_all add: poly1305_carry_def poly1305_select_def poly1305_addPad_def)

lemma unreduced_rfc: "rfc_accumulator unreduced_key unreduced_message = 0"
  by (simp add: rfc_accumulator_def rfc_clamp_def rfc_block_def unread_def poly1305_p_def chunks.simps Let_def
      unreduced_key_def unreduced_message_def take_Cons' drop_Cons')

definition fresh_poly1305 :: poly1305 where
  "fresh_poly1305 = \<lparr>poly1305_r = [], poly1305_h = [], poly1305_pad = [], poly1305_bufferSize = 0, poly1305_buffer = replicate 16 0\<rparr>"


end
