(* ===== verification/Chacha20.thy ===== *)
theory Chacha20
  imports Block_Stream
begin

text \<open>
  \<^verbatim>\<open>src/hc/core/hc/crypto/chacha20.c\<close>. The \<open>union chacha20\<close> is its 64 bytes; the \<open>u32\<close> view of the
  union is the little-endian words of those bytes. The in-place quarter rounds on array elements are
  shown to compute the row formulation of the cipher (four rows of four lanes, the diagonal round
  being a column round between row rotations), whose rounds are invertible.
\<close>

section \<open>The code\<close>

definition chacha20_QUARTER_ROUND :: "nat \<Rightarrow> nat \<Rightarrow> nat \<Rightarrow> nat \<Rightarrow> u32 list \<Rightarrow> u32 list" where
  "chacha20_QUARTER_ROUND A B C D x =
     (let x = x[A := x ! A + x ! B]; x = x[D := x ! D XOR x ! A]; x = x[D := word_rotl 16 (x ! D)];
          x = x[C := x ! C + x ! D]; x = x[B := x ! B XOR x ! C]; x = x[B := word_rotl 12 (x ! B)];
          x = x[A := x ! A + x ! B]; x = x[D := x ! D XOR x ! A]; x = x[D := word_rotl 8 (x ! D)];
          x = x[C := x ! C + x ! D]; x = x[B := x ! B XOR x ! C]; x = x[B := word_rotl 7 (x ! B)]
      in x)"

definition chacha20_double_round :: "u32 list \<Rightarrow> u32 list" where
  "chacha20_double_round x =
     (let x = chacha20_QUARTER_ROUND 0 4 8 12 x;
          x = chacha20_QUARTER_ROUND 1 5 9 13 x;
          x = chacha20_QUARTER_ROUND 2 6 10 14 x;
          x = chacha20_QUARTER_ROUND 3 7 11 15 x;
          x = chacha20_QUARTER_ROUND 0 5 10 15 x;
          x = chacha20_QUARTER_ROUND 1 6 11 12 x;
          x = chacha20_QUARTER_ROUND 2 7 8 13 x;
          x = chacha20_QUARTER_ROUND 3 4 9 14 x
      in x)"

definition chacha20_u32 :: "bytes \<Rightarrow> nat \<Rightarrow> u32" where
  "chacha20_u32 self i = mem_loadU32 (drop (4 * i) self)"

definition chacha20_block :: "bytes \<Rightarrow> bytes \<Rightarrow> bytes" where
  "chacha20_block self outStream =
     (let local = map (chacha20_u32 self) [0..<16];
          local = fold (\<lambda>i. chacha20_double_round) [0..<10] local
      in fold (\<lambda>i out. mem_storeU32 out (4 * i) (local ! i + chacha20_u32 self i)) [0..<16] outStream)"

definition chacha20_init :: "bytes \<Rightarrow> bytes" where
  "chacha20_init self = mem_storeU64 (mem_storeU64 self 0 0x3320646e61707865) 8 0x6b20657479622d32"

definition chacha20_initIetf :: "bytes \<Rightarrow> bytes \<Rightarrow> u32 \<Rightarrow> u32 \<Rightarrow> u64 \<Rightarrow> bytes" where
  "chacha20_initIetf self key blockCounter nonceSender nonce =
     (let self = chacha20_init self;
          self = mem_put self 16 (take 32 key);
          self = mem_storeU32 self 48 blockCounter;
          self = mem_storeU32 self 52 nonceSender
      in mem_storeU64 self 56 nonce)"

definition chacha20_initOrig :: "bytes \<Rightarrow> bytes \<Rightarrow> u64 \<Rightarrow> u64 \<Rightarrow> bytes" where
  "chacha20_initOrig self key blockCounter nonce =
     (let self = chacha20_init self;
          self = mem_put self 16 (take 32 key);
          self = mem_storeU64 self 48 blockCounter
      in mem_storeU64 self 56 nonce)"

section \<open>Rows of lanes\<close>

definition quarter :: "u32 \<times> u32 \<times> u32 \<times> u32 \<Rightarrow> u32 \<times> u32 \<times> u32 \<times> u32" where
  "quarter v = (case v of (a, b, c, d) \<Rightarrow>
     let a = a + b; d = word_rotl 16 (d XOR a); c = c + d; b = word_rotl 12 (b XOR c);
         a = a + b; d = word_rotl 8 (d XOR a); c = c + d; b = word_rotl 7 (b XOR c)
     in (a, b, c, d))"

definition unquarter :: "u32 \<times> u32 \<times> u32 \<times> u32 \<Rightarrow> u32 \<times> u32 \<times> u32 \<times> u32" where
  "unquarter v = (case v of (a, b, c, d) \<Rightarrow>
     let b = word_rotr 7 b XOR c; c = c - d; d = word_rotr 8 d XOR a; a = a - b;
         b = word_rotr 12 b XOR c; c = c - d; d = word_rotr 16 d XOR a; a = a - b
     in (a, b, c, d))"

type_synonym rows = "u32 list \<times> u32 list \<times> u32 list \<times> u32 list"

definition lanes :: "(u32 \<times> u32 \<times> u32 \<times> u32 \<Rightarrow> u32 \<times> u32 \<times> u32 \<times> u32) \<Rightarrow> rows \<Rightarrow> rows" where
  "lanes f m = (case m of (a, b, c, d) \<Rightarrow>
     let q = map (\<lambda>j. f (a ! j, b ! j, c ! j, d ! j)) [0, 1, 2, 3]
     in (map fst q, map (fst \<circ> snd) q, map (fst \<circ> snd \<circ> snd) q, map (snd \<circ> snd \<circ> snd) q))"

definition shift_rows :: "rows \<Rightarrow> rows" where
  "shift_rows m = (case m of (a, b, c, d) \<Rightarrow> (a, rotate 1 b, rotate 2 c, rotate 3 d))"

definition unshift_rows :: "rows \<Rightarrow> rows" where
  "unshift_rows m = (case m of (a, b, c, d) \<Rightarrow> (a, rotate 3 b, rotate 2 c, rotate 1 d))"

definition row_double_round :: "rows \<Rightarrow> rows" where
  "row_double_round m = unshift_rows (lanes quarter (shift_rows (lanes quarter m)))"

definition row_double_round_inverse :: "rows \<Rightarrow> rows" where
  "row_double_round_inverse m = lanes unquarter (unshift_rows (lanes unquarter (shift_rows m)))"

definition to_rows :: "u32 list \<Rightarrow> rows" where
  "to_rows x = (take 4 x, take 4 (drop 4 x), take 4 (drop 8 x), take 4 (drop 12 x))"

definition of_rows :: "rows \<Rightarrow> u32 list" where
  "of_rows m = (case m of (a, b, c, d) \<Rightarrow> a @ b @ c @ d)"

definition keystream :: "bytes \<Rightarrow> bytes" where
  "keystream self =
     (let x = map (chacha20_u32 self) [0..<16];
          y = of_rows ((row_double_round ^^ 10) (to_rows x))
      in concat (map (\<lambda>i. le_bytes 4 (unat (y ! i + x ! i))) [0..<16]))"

section \<open>The array rounds compute the row rounds\<close>

lemma list_16:
  assumes "length x = 16"
  obtains x0 x1 x2 x3 x4 x5 x6 x7 x8 x9 x10 x11 x12 x13 x14 x15
  where "x = [x0, x1, x2, x3, x4, x5, x6, x7, x8, x9, x10, x11, x12, x13, x14, x15]"
proof -
  have "x = map ((!) x) [0..<16]" using assms map_nth [of x] by simp
  then show ?thesis using that unfolding upt_16 list.map by blast
qed

definition half_step :: "nat \<Rightarrow> nat \<Rightarrow> nat \<Rightarrow> nat \<Rightarrow> u32 list \<Rightarrow> u32 list" where
  "half_step A B D k x = x[A := x ! A + x ! B, D := word_rotl k (x ! D XOR (x ! A + x ! B))]"

lemma half_step_nth:
  assumes "A \<noteq> D" "A < length x" "D < length x"
  shows "half_step A B D k x ! A = x ! A + x ! B" "half_step A B D k x ! D = word_rotl k (x ! D XOR (x ! A + x ! B))"
    "i \<noteq> A \<Longrightarrow> i \<noteq> D \<Longrightarrow> half_step A B D k x ! i = x ! i" "length (half_step A B D k x) = length x"
  using assms by (simp_all add: half_step_def)

lemma half_step_code:
  assumes "A \<noteq> D" "A < length x" "D < length x" "A \<noteq> B"
  shows "(let x = x[A := x ! A + x ! B]; x = x[D := x ! D XOR x ! A] in x[D := word_rotl k (x ! D)]) = half_step A B D k x"
  using assms by (simp add: half_step_def Let_def)

lemma quarter_round_half_steps:
  assumes "distinct [A, B, C, D]" "A < length x" "B < length x" "C < length x" "D < length x"
  shows "chacha20_QUARTER_ROUND A B C D x = half_step C D B 7 (half_step A B D 8 (half_step C D B 12 (half_step A B D 16 x)))"
proof -
  have d: "A \<noteq> D" "A \<noteq> B" "C \<noteq> B" "C \<noteq> D" using assms by auto
  define x1 where "x1 = half_step A B D 16 x"
  define x2 where "x2 = half_step C D B 12 x1"
  define x3 where "x3 = half_step A B D 8 x2"
  have len: "length x1 = length x" "length x2 = length x" "length x3 = length x"
    using assms by (simp_all add: x1_def x2_def x3_def half_step_def)
  note steps = half_step_code [OF d(1) _ _ d(2), unfolded Let_def] half_step_code [OF d(3) _ _ d(4), unfolded Let_def]
  show ?thesis
    unfolding chacha20_QUARTER_ROUND_def Let_def
    using assms len by (simp only: steps x1_def [symmetric] x2_def [symmetric] x3_def [symmetric])
qed

lemma quarter_round_array:
  assumes "distinct [A, B, C, D]" "A < length x" "B < length x" "C < length x" "D < length x"
  shows "chacha20_QUARTER_ROUND A B C D x =
    (case quarter (x ! A, x ! B, x ! C, x ! D) of (a, b, c, d) \<Rightarrow> x[A := a, B := b, C := c, D := d])"
proof (rule nth_equalityI)
  have d: "A \<noteq> D" "A \<noteq> B" "C \<noteq> B" "C \<noteq> D" "A \<noteq> C" "B \<noteq> D" "D \<noteq> A" "B \<noteq> A" "B \<noteq> C" "D \<noteq> C" "C \<noteq> A" "D \<noteq> B"
    using assms by auto
  show "length (chacha20_QUARTER_ROUND A B C D x) =
      length (case quarter (x ! A, x ! B, x ! C, x ! D) of (a, b, c, d) \<Rightarrow> x[A := a, B := b, C := c, D := d])"
    by (simp add: chacha20_QUARTER_ROUND_def Let_def split: prod.split)
  show "chacha20_QUARTER_ROUND A B C D x ! i =
      (case quarter (x ! A, x ! B, x ! C, x ! D) of (a, b, c, d) \<Rightarrow> x[A := a, B := b, C := c, D := d]) ! i" for i
  proof -
    consider "i = A" | "i = B" | "i = C" | "i = D" | "i \<noteq> A" "i \<noteq> B" "i \<noteq> C" "i \<noteq> D" by blast
    then show ?thesis
      using assms(2-5) d unfolding quarter_round_half_steps [OF assms] quarter_def Let_def prod.case
      by cases (simp_all add: half_step_nth)
  qed
qed

lemma to_of_rows: "length a = 4 \<Longrightarrow> length b = 4 \<Longrightarrow> length c = 4 \<Longrightarrow> length d = 4 \<Longrightarrow> to_rows (of_rows (a, b, c, d)) = (a, b, c, d)"
  by (simp add: to_rows_def of_rows_def)

lemma double_round_rows:
  assumes "length x = 16"
  shows "chacha20_double_round x = of_rows (row_double_round (to_rows x))"
proof -
  obtain x0 x1 x2 x3 x4 x5 x6 x7 x8 x9 x10 x11 x12 x13 x14 x15
    where x: "x = [x0, x1, x2, x3, x4, x5, x6, x7, x8, x9, x10, x11, x12, x13, x14, x15]"
    using assms by (rule list_16)
  obtain a0 b0 c0 d0 where q0: "quarter (x0, x4, x8, x12) = (a0, b0, c0, d0)" by (cases "quarter (x0, x4, x8, x12)")
  obtain a1 b1 c1 d1 where q1: "quarter (x1, x5, x9, x13) = (a1, b1, c1, d1)" by (cases "quarter (x1, x5, x9, x13)")
  obtain a2 b2 c2 d2 where q2: "quarter (x2, x6, x10, x14) = (a2, b2, c2, d2)" by (cases "quarter (x2, x6, x10, x14)")
  obtain a3 b3 c3 d3 where q3: "quarter (x3, x7, x11, x15) = (a3, b3, c3, d3)" by (cases "quarter (x3, x7, x11, x15)")
  obtain e0 f0 g0 h0 where r0: "quarter (a0, b1, c2, d3) = (e0, f0, g0, h0)" by (cases "quarter (a0, b1, c2, d3)")
  obtain e1 f1 g1 h1 where r1: "quarter (a1, b2, c3, d0) = (e1, f1, g1, h1)" by (cases "quarter (a1, b2, c3, d0)")
  obtain e2 f2 g2 h2 where r2: "quarter (a2, b3, c0, d1) = (e2, f2, g2, h2)" by (cases "quarter (a2, b3, c0, d1)")
  obtain e3 f3 g3 h3 where r3: "quarter (a3, b0, c1, d2) = (e3, f3, g3, h3)" by (cases "quarter (a3, b0, c1, d2)")
  have code: "chacha20_double_round x = [e0, e1, e2, e3, f3, f0, f1, f2, g2, g3, g0, g1, h1, h2, h3, h0]"
    unfolding x chacha20_double_round_def Let_def by (simp add: quarter_round_array q0 q1 q2 q3 r0 r1 r2 r3)
  have "row_double_round (to_rows x) = ([e0, e1, e2, e3], [f3, f0, f1, f2], [g2, g3, g0, g1], [h1, h2, h3, h0])"
    unfolding x row_double_round_def
    by (simp add: to_rows_def lanes_def shift_rows_def unshift_rows_def q0 q1 q2 q3 r0 r1 r2 r3 Let_def rotate_def numeral_eq_Suc)
  then show ?thesis by (simp add: code of_rows_def)
qed

section \<open>Invertibility\<close>

lemma xor_cancel: "(x XOR y) XOR y = x" for x y :: u32
  by (simp add: xor.assoc)

lemma unquarter_quarter: "unquarter (quarter v) = v"
  by (cases v) (simp add: quarter_def unquarter_def Let_def xor_cancel)

lemma quarter_unquarter: "quarter (unquarter v) = v"
  by (cases v) (simp add: quarter_def unquarter_def Let_def xor_cancel)

definition wf_rows :: "rows \<Rightarrow> bool" where
  "wf_rows m = (case m of (a, b, c, d) \<Rightarrow> length a = 4 \<and> length b = 4 \<and> length c = 4 \<and> length d = 4)"

lemma list_4: "length a = 4 \<Longrightarrow> a = [a ! 0, a ! 1, a ! 2, a ! 3]"
  by (auto simp: list_eq_iff_nth_eq less_Suc_eq numeral_eq_Suc)

lemma lanes_inverse:
  assumes "wf_rows m" "\<And>v. f (g v) = v"
  shows "lanes f (lanes g m) = m"
proof -
  obtain a b c d where m: "m = (a, b, c, d)" by (cases m)
  have len: "length a = 4" "length b = 4" "length c = 4" "length d = 4" using assms(1) by (simp_all add: m wf_rows_def)
  obtain a0 a1 a2 a3 where a: "a = [a0, a1, a2, a3]" using list_4 [OF len(1)] by blast
  obtain b0 b1 b2 b3 where b: "b = [b0, b1, b2, b3]" using list_4 [OF len(2)] by blast
  obtain c0 c1 c2 c3 where c: "c = [c0, c1, c2, c3]" using list_4 [OF len(3)] by blast
  obtain d0 d1 d2 d3 where d: "d = [d0, d1, d2, d3]" using list_4 [OF len(4)] by blast
  show ?thesis by (simp add: m a b c d lanes_def Let_def assms(2))
qed

lemma wf_lanes [simp]: "wf_rows (lanes f m)"
  by (cases m) (simp add: wf_rows_def lanes_def Let_def)

lemma wf_shift [simp]: "wf_rows (shift_rows m) = wf_rows m" "wf_rows (unshift_rows m) = wf_rows m"
  by (cases m, simp add: wf_rows_def shift_rows_def unshift_rows_def)+

lemma rotate_4: "length l = 4 \<Longrightarrow> rotate 1 (rotate 3 l) = l" "length l = 4 \<Longrightarrow> rotate 2 (rotate 2 l) = l"
  "length l = 4 \<Longrightarrow> rotate 3 (rotate 1 l) = l"
  using rotate_id [of 4 l] by (simp_all only: rotate_rotate) (simp_all add: eval_nat_numeral)

lemma shift_inverse:
  assumes "wf_rows m"
  shows "shift_rows (unshift_rows m) = m" "unshift_rows (shift_rows m) = m"
  using assms by (cases m; simp only: wf_rows_def shift_rows_def unshift_rows_def prod.case rotate_4)+

lemma row_double_round_inverse:
  assumes "wf_rows m"
  shows "row_double_round_inverse (row_double_round m) = m" "row_double_round (row_double_round_inverse m) = m"
  using assms by (simp_all add: row_double_round_def row_double_round_inverse_def shift_inverse lanes_inverse
      unquarter_quarter quarter_unquarter)

section \<open>The block function\<close>

lemma wf_row_double_round [simp]: "wf_rows (row_double_round m)"
  by (simp add: row_double_round_def)

lemma to_of_rows_wf [simp]: "wf_rows m \<Longrightarrow> to_rows (of_rows m) = m"
  by (cases m) (simp add: wf_rows_def to_of_rows)

lemma length_of_rows: "wf_rows m \<Longrightarrow> length (of_rows m) = 16"
  by (cases m) (simp add: wf_rows_def of_rows_def)

lemma wf_to_rows [simp]: "length x = 16 \<Longrightarrow> wf_rows (to_rows x)"
  by (simp add: wf_rows_def to_rows_def)

lemma of_to_rows: "length x = 16 \<Longrightarrow> of_rows (to_rows x) = x"
proof -
  assume x: "length x = 16"
  have "drop 12 x = take 4 (drop 12 x)" using x by simp
  then have "x = take 4 x @ take 4 (drop 4 x) @ take 4 (drop 8 x) @ take 4 (drop 12 x)"
    using append_take_drop_id [of 4 x] append_take_drop_id [of 4 "drop 4 x"] append_take_drop_id [of 4 "drop 8 x"] by simp
  then show ?thesis by (simp add: of_rows_def to_rows_def)
qed

lemma double_rounds_rows:
  assumes "length x = 16"
  shows "fold (\<lambda>i. chacha20_double_round) [0..<n] x = of_rows ((row_double_round ^^ n) (to_rows x))"
proof (induction n)
  case 0
  show ?case using assms by (simp add: of_to_rows)
next
  case (Suc n)
  have "wf_rows ((row_double_round ^^ n) (to_rows x))" using assms by (cases n) simp_all
  then show ?case using Suc by (simp add: double_round_rows length_of_rows)
qed

lemma chacha20_block_keystream:
  assumes "64 \<le> length outStream"
  shows "chacha20_block self outStream = mem_put outStream 0 (keystream self)"
proof -
  let ?x = "map (chacha20_u32 self) [0..<16]"
  let ?y = "of_rows ((row_double_round ^^ 10) (to_rows ?x))"
  let ?z = "map (\<lambda>i. ?y ! i + chacha20_u32 self i) [0..<16]"
  have "fold (\<lambda>i out. mem_storeU32 out (4 * i) (?y ! i + chacha20_u32 self i)) [0..<16] outStream =
      fold (\<lambda>i out. mem_put out (0 + 4 * i) (le_bytes 4 (unat (?z ! i)))) [0..<16] outStream"
    by (intro fold_cong refl) (simp add: mem_storeU32_def)
  also have "\<dots> = mem_put outStream 0 (concat (map (\<lambda>w. le_bytes 4 (unat w)) ?z))"
    using fold_put_words [of "\<lambda>w. le_bytes 4 (unat w)" 4 0 ?z outStream] assms by simp
  also have "concat (map (\<lambda>w. le_bytes 4 (unat w)) ?z) = keystream self"
    unfolding keystream_def Let_def map_map by (intro arg_cong [where f = concat] map_cong) simp_all
  finally show ?thesis
    by (simp only: chacha20_block_def Let_def double_rounds_rows length_map length_upt diff_zero)
qed

section \<open>Initialisation\<close>

lemma chacha20_constants:
  "le_bytes 8 (unat (0x3320646e61707865 :: u64)) @ le_bytes 8 (unat (0x6b20657479622d32 :: u64)) = bytes_of ''expand 32-byte k''"
proof -
  have eight: "(8::nat) = Suc (Suc (Suc (Suc (Suc (Suc (Suc (Suc 0)))))))" by simp
  have "le_bytes 8 (unat (0x3320646e61707865 :: u64)) = [0x65, 0x78, 0x70, 0x61, 0x6e, 0x64, 0x20, 0x33]"
    "le_bytes 8 (unat (0x6b20657479622d32 :: u64)) = [0x32, 0x2d, 0x62, 0x79, 0x74, 0x65, 0x20, 0x6b]"
    unfolding eight le_bytes.simps by simp_all
  then show ?thesis by (simp add: bytes_of_def chr_def of_char_def)
qed

lemma mem_put_whole: "length bs = length m \<Longrightarrow> mem_put m 0 bs = bs"
  by (simp add: mem_put_def)

lemma mem_put_extend: "length bs = i \<Longrightarrow> i + length cs \<le> length m \<Longrightarrow> mem_put (mem_put m 0 bs) i cs = mem_put m 0 (bs @ cs)"
  using mem_put_append [of 0 bs cs m] by simp

lemma chacha20_init_put:
  "length self = 64 \<Longrightarrow> chacha20_init self = mem_put self 0 (bytes_of ''expand 32-byte k'')"
  using mem_put_extend [of "le_bytes 8 (unat (0x3320646e61707865 :: u64))" 8 "le_bytes 8 (unat (0x6b20657479622d32 :: u64))" self]
  by (simp only: chacha20_init_def mem_storeU64_def chacha20_constants) simp

text \<open>
  C31: \<open>chacha20_block\<close> writes exactly the 64 keystream bytes of the ChaCha20 block function in its row
  formulation (ten double rounds, feed-forward, little-endian output), and the permutation it
  iterates has a two-sided inverse on 4x4 states.
\<close>

theorem chacha20_block_correct:
  assumes "64 \<le> length outStream" "wf_rows m"
  shows "chacha20_block self outStream = mem_put outStream 0 (keystream self) \<and>
    row_double_round_inverse (row_double_round m) = m \<and> row_double_round (row_double_round_inverse m) = m"
  using chacha20_block_keystream [OF assms(1)] row_double_round_inverse [OF assms(2)] by simp

theorem chacha20_block_correct_witness:
  "chacha20_block (replicate 64 0) (replicate 70 9) = mem_put (replicate 70 9) 0 (keystream (replicate 64 0))"
  using chacha20_block_correct [of "replicate 70 9" "to_rows (replicate 16 0)" "replicate 64 0"] by simp

text \<open>
  The two initialisers lay out the input block as documented: the constant
  \<open>expand 32-byte k\<close>, the 32 key bytes, then counter and nonce little-endian; the IETF layout with
  a 32-bit counter and a sender id is the original layout whose 64-bit counter has the sender id
  as its high half.
\<close>

theorem chacha20_init_layout:
  assumes "length self = 64" "32 \<le> length key"
  shows "chacha20_initIetf self key ctr sender nonce =
      bytes_of ''expand 32-byte k'' @ take 32 key @ le_bytes 4 (unat ctr) @ le_bytes 4 (unat sender) @ le_bytes 8 (unat nonce) \<and>
    chacha20_initOrig self key ctr64 nonce =
      bytes_of ''expand 32-byte k'' @ take 32 key @ le_bytes 8 (unat ctr64) @ le_bytes 8 (unat nonce) \<and>
    chacha20_initOrig self key (ucast ctr + push_bit 32 (ucast sender)) nonce = chacha20_initIetf self key ctr sender nonce"
proof -
  have ietf: "chacha20_initIetf self key ctr sender nonce =
      bytes_of ''expand 32-byte k'' @ take 32 key @ le_bytes 4 (unat ctr) @ le_bytes 4 (unat sender) @ le_bytes 8 (unat nonce)"
    using assms by (simp add: chacha20_initIetf_def chacha20_init_put mem_put_extend mem_storeU32_def mem_storeU64_def
        mem_put_whole Let_def)
  have orig: "chacha20_initOrig self key c nonce =
      bytes_of ''expand 32-byte k'' @ take 32 key @ le_bytes 8 (unat c) @ le_bytes 8 (unat nonce)" for c
    using assms by (simp add: chacha20_initOrig_def chacha20_init_put mem_put_extend mem_storeU64_def mem_put_whole Let_def)
  have "le_bytes 8 (unat (ucast ctr + push_bit 32 (ucast sender) :: u64)) = le_bytes 4 (unat ctr) @ le_bytes 4 (unat sender)"
  proof -
    have lt: "unat ctr < 2 ^ 32" "unat sender < 2 ^ 32" using unat_less [of ctr] unat_less [of sender] by simp_all
    have "unat (push_bit 32 (ucast sender) :: u64) = unat sender * 2 ^ 32"
      using lt(2) by (simp add: unat_push_bit unat_ucast_up)
    then have "unat (ucast ctr + push_bit 32 (ucast sender) :: u64) = unat ctr + 2 ^ 32 * unat sender"
      using lt by (subst unat_add_nowrap) (simp_all add: unat_ucast_up)
    moreover have "le_bytes 4 (unat ctr + 2 ^ 32 * unat sender) = le_bytes 4 (unat ctr)"
      using le_bytes_mod [of 4 "unat ctr + 2 ^ 32 * unat sender"] lt by simp
    ultimately show ?thesis using le_bytes_append [of 4 4 "unat ctr + 2 ^ 32 * unat sender"] lt by simp
  qed
  then show ?thesis using ietf orig by simp
qed

theorem chacha20_init_layout_witness:
  "chacha20_initIetf (replicate 64 7) (replicate 32 1) 2 3 4 =
     bytes_of ''expand 32-byte k'' @ replicate 32 1 @ [2, 0, 0, 0, 3, 0, 0, 0, 4, 0, 0, 0, 0, 0, 0, 0]"
proof -
  have "le_bytes 4 2 @ le_bytes 4 3 @ le_bytes 8 4 = [2, 0, 0, 0, 3, 0, 0, 0, 4, 0, 0, 0, 0, 0, 0, 0 :: u8]" by code_simp
  then show ?thesis
    using chacha20_init_layout [of "replicate 64 7" "replicate 32 1" 2 3 4 0] by simp
qed

end
