(* ===== verification/Aes.thy ===== *)
theory Aes
  imports Mem
begin

text \<open>
  \<^verbatim>\<open>src/hc/core/hc/crypto/aes.c\<close>, \<^verbatim>\<open>aes128.c\<close> and \<^verbatim>\<open>aes256.c\<close>: the table-driven AES encryption. The
  tables are the ones of the source. They are checked against the field arithmetic they stand for,
  the table rounds are shown to be the FIPS 197 rounds (SubBytes, ShiftRows, MixColumns,
  AddRoundKey) and the unrolled key expansions to be the FIPS 197 key expansion.
\<close>

section \<open>The code\<close>

definition aes_sboxTable :: "u8 list" where
  "aes_sboxTable =
    [0x63, 0x7C, 0x77, 0x7B, 0xF2, 0x6B, 0x6F, 0xC5, 0x30, 0x01, 0x67, 0x2B, 0xFE, 0xD7, 0xAB, 0x76,
     0xCA, 0x82, 0xC9, 0x7D, 0xFA, 0x59, 0x47, 0xF0, 0xAD, 0xD4, 0xA2, 0xAF, 0x9C, 0xA4, 0x72, 0xC0,
     0xB7, 0xFD, 0x93, 0x26, 0x36, 0x3F, 0xF7, 0xCC, 0x34, 0xA5, 0xE5, 0xF1, 0x71, 0xD8, 0x31, 0x15,
     0x04, 0xC7, 0x23, 0xC3, 0x18, 0x96, 0x05, 0x9A, 0x07, 0x12, 0x80, 0xE2, 0xEB, 0x27, 0xB2, 0x75,
     0x09, 0x83, 0x2C, 0x1A, 0x1B, 0x6E, 0x5A, 0xA0, 0x52, 0x3B, 0xD6, 0xB3, 0x29, 0xE3, 0x2F, 0x84,
     0x53, 0xD1, 0x00, 0xED, 0x20, 0xFC, 0xB1, 0x5B, 0x6A, 0xCB, 0xBE, 0x39, 0x4A, 0x4C, 0x58, 0xCF,
     0xD0, 0xEF, 0xAA, 0xFB, 0x43, 0x4D, 0x33, 0x85, 0x45, 0xF9, 0x02, 0x7F, 0x50, 0x3C, 0x9F, 0xA8,
     0x51, 0xA3, 0x40, 0x8F, 0x92, 0x9D, 0x38, 0xF5, 0xBC, 0xB6, 0xDA, 0x21, 0x10, 0xFF, 0xF3, 0xD2,
     0xCD, 0x0C, 0x13, 0xEC, 0x5F, 0x97, 0x44, 0x17, 0xC4, 0xA7, 0x7E, 0x3D, 0x64, 0x5D, 0x19, 0x73,
     0x60, 0x81, 0x4F, 0xDC, 0x22, 0x2A, 0x90, 0x88, 0x46, 0xEE, 0xB8, 0x14, 0xDE, 0x5E, 0x0B, 0xDB,
     0xE0, 0x32, 0x3A, 0x0A, 0x49, 0x06, 0x24, 0x5C, 0xC2, 0xD3, 0xAC, 0x62, 0x91, 0x95, 0xE4, 0x79,
     0xE7, 0xC8, 0x37, 0x6D, 0x8D, 0xD5, 0x4E, 0xA9, 0x6C, 0x56, 0xF4, 0xEA, 0x65, 0x7A, 0xAE, 0x08,
     0xBA, 0x78, 0x25, 0x2E, 0x1C, 0xA6, 0xB4, 0xC6, 0xE8, 0xDD, 0x74, 0x1F, 0x4B, 0xBD, 0x8B, 0x8A,
     0x70, 0x3E, 0xB5, 0x66, 0x48, 0x03, 0xF6, 0x0E, 0x61, 0x35, 0x57, 0xB9, 0x86, 0xC1, 0x1D, 0x9E,
     0xE1, 0xF8, 0x98, 0x11, 0x69, 0xD9, 0x8E, 0x94, 0x9B, 0x1E, 0x87, 0xE9, 0xCE, 0x55, 0x28, 0xDF,
     0x8C, 0xA1, 0x89, 0x0D, 0xBF, 0xE6, 0x42, 0x68, 0x41, 0x99, 0x2D, 0x0F, 0xB0, 0x54, 0xBB, 0x16]"

definition aes_encTable :: "u32 list" where
  "aes_encTable =
    [0xA56363C6, 0x847C7CF8, 0x997777EE, 0x8D7B7BF6, 0x0DF2F2FF, 0xBD6B6BD6, 0xB16F6FDE, 0x54C5C591,
     0x50303060, 0x03010102, 0xA96767CE, 0x7D2B2B56, 0x19FEFEE7, 0x62D7D7B5, 0xE6ABAB4D, 0x9A7676EC,
     0x45CACA8F, 0x9D82821F, 0x40C9C989, 0x877D7DFA, 0x15FAFAEF, 0xEB5959B2, 0xC947478E, 0x0BF0F0FB,
     0xECADAD41, 0x67D4D4B3, 0xFDA2A25F, 0xEAAFAF45, 0xBF9C9C23, 0xF7A4A453, 0x967272E4, 0x5BC0C09B,
     0xC2B7B775, 0x1CFDFDE1, 0xAE93933D, 0x6A26264C, 0x5A36366C, 0x413F3F7E, 0x02F7F7F5, 0x4FCCCC83,
     0x5C343468, 0xF4A5A551, 0x34E5E5D1, 0x08F1F1F9, 0x937171E2, 0x73D8D8AB, 0x53313162, 0x3F15152A,
     0x0C040408, 0x52C7C795, 0x65232346, 0x5EC3C39D, 0x28181830, 0xA1969637, 0x0F05050A, 0xB59A9A2F,
     0x0907070E, 0x36121224, 0x9B80801B, 0x3DE2E2DF, 0x26EBEBCD, 0x6927274E, 0xCDB2B27F, 0x9F7575EA,
     0x1B090912, 0x9E83831D, 0x742C2C58, 0x2E1A1A34, 0x2D1B1B36, 0xB26E6EDC, 0xEE5A5AB4, 0xFBA0A05B,
     0xF65252A4, 0x4D3B3B76, 0x61D6D6B7, 0xCEB3B37D, 0x7B292952, 0x3EE3E3DD, 0x712F2F5E, 0x97848413,
     0xF55353A6, 0x68D1D1B9, 0x00000000, 0x2CEDEDC1, 0x60202040, 0x1FFCFCE3, 0xC8B1B179, 0xED5B5BB6,
     0xBE6A6AD4, 0x46CBCB8D, 0xD9BEBE67, 0x4B393972, 0xDE4A4A94, 0xD44C4C98, 0xE85858B0, 0x4ACFCF85,
     0x6BD0D0BB, 0x2AEFEFC5, 0xE5AAAA4F, 0x16FBFBED, 0xC5434386, 0xD74D4D9A, 0x55333366, 0x94858511,
     0xCF45458A, 0x10F9F9E9, 0x06020204, 0x817F7FFE, 0xF05050A0, 0x443C3C78, 0xBA9F9F25, 0xE3A8A84B,
     0xF35151A2, 0xFEA3A35D, 0xC0404080, 0x8A8F8F05, 0xAD92923F, 0xBC9D9D21, 0x48383870, 0x04F5F5F1,
     0xDFBCBC63, 0xC1B6B677, 0x75DADAAF, 0x63212142, 0x30101020, 0x1AFFFFE5, 0x0EF3F3FD, 0x6DD2D2BF,
     0x4CCDCD81, 0x140C0C18, 0x35131326, 0x2FECECC3, 0xE15F5FBE, 0xA2979735, 0xCC444488, 0x3917172E,
     0x57C4C493, 0xF2A7A755, 0x827E7EFC, 0x473D3D7A, 0xAC6464C8, 0xE75D5DBA, 0x2B191932, 0x957373E6,
     0xA06060C0, 0x98818119, 0xD14F4F9E, 0x7FDCDCA3, 0x66222244, 0x7E2A2A54, 0xAB90903B, 0x8388880B,
     0xCA46468C, 0x29EEEEC7, 0xD3B8B86B, 0x3C141428, 0x79DEDEA7, 0xE25E5EBC, 0x1D0B0B16, 0x76DBDBAD,
     0x3BE0E0DB, 0x56323264, 0x4E3A3A74, 0x1E0A0A14, 0xDB494992, 0x0A06060C, 0x6C242448, 0xE45C5CB8,
     0x5DC2C29F, 0x6ED3D3BD, 0xEFACAC43, 0xA66262C4, 0xA8919139, 0xA4959531, 0x37E4E4D3, 0x8B7979F2,
     0x32E7E7D5, 0x43C8C88B, 0x5937376E, 0xB76D6DDA, 0x8C8D8D01, 0x64D5D5B1, 0xD24E4E9C, 0xE0A9A949,
     0xB46C6CD8, 0xFA5656AC, 0x07F4F4F3, 0x25EAEACF, 0xAF6565CA, 0x8E7A7AF4, 0xE9AEAE47, 0x18080810,
     0xD5BABA6F, 0x887878F0, 0x6F25254A, 0x722E2E5C, 0x241C1C38, 0xF1A6A657, 0xC7B4B473, 0x51C6C697,
     0x23E8E8CB, 0x7CDDDDA1, 0x9C7474E8, 0x211F1F3E, 0xDD4B4B96, 0xDCBDBD61, 0x868B8B0D, 0x858A8A0F,
     0x907070E0, 0x423E3E7C, 0xC4B5B571, 0xAA6666CC, 0xD8484890, 0x05030306, 0x01F6F6F7, 0x120E0E1C,
     0xA36161C2, 0x5F35356A, 0xF95757AE, 0xD0B9B969, 0x91868617, 0x58C1C199, 0x271D1D3A, 0xB99E9E27,
     0x38E1E1D9, 0x13F8F8EB, 0xB398982B, 0x33111122, 0xBB6969D2, 0x70D9D9A9, 0x898E8E07, 0xA7949433,
     0xB69B9B2D, 0x221E1E3C, 0x92878715, 0x20E9E9C9, 0x49CECE87, 0xFF5555AA, 0x78282850, 0x7ADFDFA5,
     0x8F8C8C03, 0xF8A1A159, 0x80898909, 0x170D0D1A, 0xDABFBF65, 0x31E6E6D7, 0xC6424284, 0xB86868D0,
     0xC3414182, 0xB0999929, 0x772D2D5A, 0x110F0F1E, 0xCBB0B07B, 0xFC5454A8, 0xD6BBBB6D, 0x3A16162C]"

definition aes_enc :: "u32 \<Rightarrow> u32" where
  "aes_enc i = aes_encTable ! unat i"

definition aes_sbox :: "u32 \<Rightarrow> u32" where
  "aes_sbox i = ucast (aes_sboxTable ! unat i)"

type_synonym aes_words = "u32 \<times> u32 \<times> u32 \<times> u32"

definition aes_column :: "u32 \<Rightarrow> u32 \<Rightarrow> u32 \<Rightarrow> u32 \<Rightarrow> u32" where
  "aes_column a b c d =
     aes_enc (a AND 0xFF) XOR word_rotr 24 (aes_enc (drop_bit 8 b AND 0xFF)) XOR
     word_rotr 16 (aes_enc (drop_bit 16 c AND 0xFF)) XOR word_rotr 8 (aes_enc (drop_bit 24 d))"

function aes_rounds_loop :: "nat \<Rightarrow> nat \<Rightarrow> u32 list \<Rightarrow> aes_words \<Rightarrow> aes_words" where
  "aes_rounds_loop i numRoundsX4 roundKeys x =
     (case x of (x0, x1, x2, x3) \<Rightarrow>
        if i < numRoundsX4 then
          let y0 = aes_column x0 x1 x2 x3;
              y1 = aes_column x1 x2 x3 x0;
              y2 = aes_column x2 x3 x0 x1;
              y3 = aes_column x3 x0 x1 x2
          in aes_rounds_loop (i + 4) numRoundsX4 roundKeys
               (y0 XOR roundKeys ! i, y1 XOR roundKeys ! (i + 1), y2 XOR roundKeys ! (i + 2), y3 XOR roundKeys ! (i + 3))
        else x)"
  by pat_completeness auto
termination
  by (relation "measure (\<lambda>(i, n, k, x). n - i)") auto

declare aes_rounds_loop.simps [simp del]

definition aes_lastColumn :: "u32 \<Rightarrow> u32 \<Rightarrow> u32 \<Rightarrow> u32 \<Rightarrow> u32 \<Rightarrow> u32" where
  "aes_lastColumn key a b c d =
     key XOR aes_sbox (a AND 0xFF) XOR push_bit 8 (aes_sbox (drop_bit 8 b AND 0xFF)) XOR
     push_bit 16 (aes_sbox (drop_bit 16 c AND 0xFF)) XOR push_bit 24 (aes_sbox (drop_bit 24 d))"

definition aes_rounds :: "bytes \<Rightarrow> bytes \<Rightarrow> u32 list \<Rightarrow> nat \<Rightarrow> bytes" where
  "aes_rounds out inp roundKeys numRoundsX4 =
     (let x0 = mem_loadU32 inp XOR roundKeys ! 0;
          x1 = mem_loadU32 (drop 4 inp) XOR roundKeys ! 1;
          x2 = mem_loadU32 (drop 8 inp) XOR roundKeys ! 2;
          x3 = mem_loadU32 (drop 12 inp) XOR roundKeys ! 3;
          (x0, x1, x2, x3) = aes_rounds_loop 4 numRoundsX4 roundKeys (x0, x1, x2, x3);
          out = mem_storeU32 out 0 (aes_lastColumn (roundKeys ! numRoundsX4) x0 x1 x2 x3);
          out = mem_storeU32 out 4 (aes_lastColumn (roundKeys ! (numRoundsX4 + 1)) x1 x2 x3 x0);
          out = mem_storeU32 out 8 (aes_lastColumn (roundKeys ! (numRoundsX4 + 2)) x2 x3 x0 x1);
          out = mem_storeU32 out 12 (aes_lastColumn (roundKeys ! (numRoundsX4 + 3)) x3 x0 x1 x2)
      in out)"

definition aes_subRotWord :: "u32 \<Rightarrow> u32" where
  "aes_subRotWord t =
     push_bit 24 (aes_sbox (t AND 0xFF)) XOR push_bit 16 (aes_sbox (drop_bit 24 t)) XOR
     push_bit 8 (aes_sbox (drop_bit 16 t AND 0xFF)) XOR aes_sbox (drop_bit 8 t AND 0xFF)"

definition aes_subWord :: "u32 \<Rightarrow> u32" where
  "aes_subWord t =
     push_bit 24 (aes_sbox (drop_bit 24 t)) XOR push_bit 16 (aes_sbox (drop_bit 16 t AND 0xFF)) XOR
     push_bit 8 (aes_sbox (drop_bit 8 t AND 0xFF)) XOR aes_sbox (t AND 0xFF)"

subsection \<open>aes128.c\<close>

function aes128_expand :: "nat \<Rightarrow> u32 \<Rightarrow> aes_words \<Rightarrow> u32 list \<Rightarrow> u32 list" where
  "aes128_expand i pow temps roundKeys =
     (case temps of (temp0, temp1, temp2, temp3) \<Rightarrow>
        if i < 44 then
          let temp0 = temp0 XOR (pow XOR aes_subRotWord temp3);
              pow = (if i = 32 then 0x1B else push_bit 1 pow);
              roundKeys = roundKeys[i := temp0];
              temp1 = temp1 XOR temp0;
              roundKeys = roundKeys[i + 1 := temp1];
              temp2 = temp2 XOR temp1;
              roundKeys = roundKeys[i + 2 := temp2];
              temp3 = temp3 XOR temp2;
              roundKeys = roundKeys[i + 3 := temp3]
          in aes128_expand (i + 4) pow (temp0, temp1, temp2, temp3) roundKeys
        else roundKeys)"
  by pat_completeness auto
termination
  by (relation "measure (\<lambda>(i, p, t, r). 44 - i)") auto

declare aes128_expand.simps [simp del]

definition aes128_block :: "bytes \<Rightarrow> bytes \<Rightarrow> bytes \<Rightarrow> bytes" where
  "aes128_block out inp key =
     (let temp0 = mem_loadU32 key;
          temp1 = mem_loadU32 (drop 4 key);
          temp2 = mem_loadU32 (drop 8 key);
          temp3 = mem_loadU32 (drop 12 key);
          roundKeys = (replicate 44 0)[0 := temp0, 1 := temp1, 2 := temp2, 3 := temp3];
          roundKeys = aes128_expand 4 1 (temp0, temp1, temp2, temp3) roundKeys
      in aes_rounds out inp roundKeys 40)"

subsection \<open>aes256.c\<close>

text \<open>
  The source leaves the loop at \<open>i == 56\<close>; \<open>i\<close> runs through 8, 16, \dots, 56, and the test is written
  as \<open>56 \<le> i\<close> so that the recursion is total.
\<close>

function aes256_expand :: "nat \<Rightarrow> u32 \<Rightarrow> aes_words \<Rightarrow> aes_words \<Rightarrow> u32 list \<Rightarrow> u32 list" where
  "aes256_expand i pow lo hi roundKeys =
     (case (lo, hi) of ((temp0, temp1, temp2, temp3), (temp4, temp5, temp6, temp7)) \<Rightarrow>
        let temp0 = temp0 XOR (pow XOR aes_subRotWord temp7);
            pow = push_bit 1 pow;
            roundKeys = roundKeys[i := temp0];
            temp1 = temp1 XOR temp0;
            roundKeys = roundKeys[i + 1 := temp1];
            temp2 = temp2 XOR temp1;
            roundKeys = roundKeys[i + 2 := temp2];
            temp3 = temp3 XOR temp2;
            roundKeys = roundKeys[i + 3 := temp3]
        in if i \<ge> 56 then roundKeys
           else
             let temp4 = temp4 XOR aes_subWord temp3;
                 roundKeys = roundKeys[i + 4 := temp4];
                 temp5 = temp5 XOR temp4;
                 roundKeys = roundKeys[i + 5 := temp5];
                 temp6 = temp6 XOR temp5;
                 roundKeys = roundKeys[i + 6 := temp6];
                 temp7 = temp7 XOR temp6;
                 roundKeys = roundKeys[i + 7 := temp7]
             in aes256_expand (i + 8) pow (temp0, temp1, temp2, temp3) (temp4, temp5, temp6, temp7) roundKeys)"
  by pat_completeness auto
termination
  by (relation "measure (\<lambda>(i, p, t, u, r). 64 - i)") auto

declare aes256_expand.simps [simp del]

definition aes256_block :: "bytes \<Rightarrow> bytes \<Rightarrow> bytes \<Rightarrow> bytes" where
  "aes256_block out inp key =
     (let temp0 = mem_loadU32 key;
          temp1 = mem_loadU32 (drop 4 key);
          temp2 = mem_loadU32 (drop 8 key);
          temp3 = mem_loadU32 (drop 12 key);
          temp4 = mem_loadU32 (drop 16 key);
          temp5 = mem_loadU32 (drop 20 key);
          temp6 = mem_loadU32 (drop 24 key);
          temp7 = mem_loadU32 (drop 28 key);
          roundKeys = (replicate 60 0)[0 := temp0, 1 := temp1, 2 := temp2, 3 := temp3,
                         4 := temp4, 5 := temp5, 6 := temp6, 7 := temp7];
          roundKeys = aes256_expand 8 1 (temp0, temp1, temp2, temp3) (temp4, temp5, temp6, temp7) roundKeys
      in aes_rounds out inp roundKeys 56)"

section \<open>FIPS 197\<close>

definition xtime :: "u8 \<Rightarrow> u8" where
  "xtime b = (if bit b 7 then push_bit 1 b XOR 0x1B else push_bit 1 b)"

primrec gf_mul :: "nat \<Rightarrow> u8 \<Rightarrow> u8 \<Rightarrow> u8" where
  "gf_mul 0 a b = 0"
| "gf_mul (Suc n) a b = (if bit b 0 then a else 0) XOR gf_mul n (xtime a) (drop_bit 1 b)"

definition rotl8 :: "nat \<Rightarrow> u8 \<Rightarrow> u8" where
  "rotl8 k b = push_bit k b OR drop_bit (8 - k) b"

definition affine :: "u8 \<Rightarrow> u8" where
  "affine b = b XOR rotl8 1 b XOR rotl8 2 b XOR rotl8 3 b XOR rotl8 4 b XOR 0x63"

definition unaffine :: "u8 \<Rightarrow> u8" where
  "unaffine s = rotl8 1 s XOR rotl8 3 s XOR rotl8 6 s XOR 0x05"

definition sbox :: "u8 \<Rightarrow> u8" where
  "sbox b = aes_sboxTable ! unat b"

definition sub_bytes :: "u8 list \<Rightarrow> u8 list" where
  "sub_bytes s = map sbox s"

text \<open>Byte \<open>r + 4 * c\<close> of the state is row \<open>r\<close>, column \<open>c\<close>.\<close>

definition shift_rows :: "u8 list \<Rightarrow> u8 list" where
  "shift_rows s = map (\<lambda>i. s ! (5 * i mod 16)) [0..<16]"

fun mix_column :: "u8 list \<Rightarrow> u8 list" where
  "mix_column [a, b, c, d] =
     [xtime a XOR (xtime b XOR b) XOR c XOR d,
      a XOR xtime b XOR (xtime c XOR c) XOR d,
      a XOR b XOR xtime c XOR (xtime d XOR d),
      (xtime a XOR a) XOR b XOR c XOR xtime d]"
| "mix_column s = s"

definition mix_columns :: "u8 list \<Rightarrow> u8 list" where
  "mix_columns s = concat (map (\<lambda>c. mix_column (take 4 (drop (4 * c) s))) [0..<4])"

definition add_round_key :: "u8 list \<Rightarrow> u8 list \<Rightarrow> u8 list" where
  "add_round_key k s = map2 (XOR) s k"

definition word_bytes :: "u32 \<Rightarrow> u8 list" where
  "word_bytes w = [ucast w, ucast (drop_bit 8 w), ucast (drop_bit 16 w), ucast (drop_bit 24 w)]"

definition round_key :: "u32 list \<Rightarrow> nat \<Rightarrow> u8 list" where
  "round_key ks r = concat (map (\<lambda>c. word_bytes (ks ! (4 * r + c))) [0..<4])"

definition cipher :: "nat \<Rightarrow> u32 list \<Rightarrow> u8 list \<Rightarrow> u8 list" where
  "cipher Nr ks inp =
     (let s = add_round_key (round_key ks 0) inp;
          s = fold (\<lambda>r s. add_round_key (round_key ks r) (mix_columns (shift_rows (sub_bytes s)))) [1..<Nr] s
      in add_round_key (round_key ks Nr) (shift_rows (sub_bytes s)))"

definition sub_word :: "u32 \<Rightarrow> u32" where
  "sub_word w = mem_loadU32 (map sbox (word_bytes w))"

definition rot_word :: "u32 \<Rightarrow> u32" where
  "rot_word w = mem_loadU32 (rotate 1 (word_bytes w))"

definition rcon :: "nat \<Rightarrow> u32" where
  "rcon j = ucast ((xtime ^^ (j - 1)) 1)"

primrec key_expansion :: "nat \<Rightarrow> nat \<Rightarrow> u32 list \<Rightarrow> u32 list" where
  "key_expansion Nk 0 ks = ks"
| "key_expansion Nk (Suc n) ks =
     (let w = key_expansion Nk n ks; i = length w; temp = w ! (i - 1);
          temp = (if i mod Nk = 0 then sub_word (rot_word temp) XOR rcon (i div Nk)
                  else if Nk > 6 \<and> i mod Nk = 4 then sub_word temp else temp)
      in w @ [w ! (i - Nk) XOR temp])"

section \<open>The tables\<close>

definition enc_word :: "u8 \<Rightarrow> u32" where
  "enc_word s = ucast (xtime s) XOR push_bit 8 (ucast s) XOR push_bit 16 (ucast s) XOR push_bit 24 (ucast (xtime s XOR s))"

lemma encTable_eq: "aes_encTable = map enc_word aes_sboxTable"
  by (simp add: aes_encTable_def aes_sboxTable_def enc_word_def xtime_def)

lemma gf_mul_8:
  "gf_mul 8 a b = (let a1 = xtime a; a2 = xtime a1; a3 = xtime a2; a4 = xtime a3; a5 = xtime a4; a6 = xtime a5; a7 = xtime a6
     in (if bit b 0 then a else 0) XOR (if bit b 1 then a1 else 0) XOR (if bit b 2 then a2 else 0) XOR (if bit b 3 then a3 else 0) XOR
        (if bit b 4 then a4 else 0) XOR (if bit b 5 then a5 else 0) XOR (if bit b 6 then a6 else 0) XOR (if bit b 7 then a7 else 0))"
  by (simp add: numeral_eq_Suc Let_def bit_simps)

definition sbox_entry :: "u8 \<Rightarrow> u8 \<Rightarrow> bool" where
  "sbox_entry x s \<longleftrightarrow> gf_mul 8 x (unaffine s) = 1 \<and> affine (unaffine s) = s"

lemma nonzero_bytes:
  "map word_of_nat [1..<256] =
    [1, 2, 3, 4, 5, 6, 7, 8, 9, 10, 11, 12, 13, 14, 15, 16, 17, 18, 19, 20,
     21, 22, 23, 24, 25, 26, 27, 28, 29, 30, 31, 32, 33, 34, 35, 36, 37, 38, 39, 40,
     41, 42, 43, 44, 45, 46, 47, 48, 49, 50, 51, 52, 53, 54, 55, 56, 57, 58, 59, 60,
     61, 62, 63, 64, 65, 66, 67, 68, 69, 70, 71, 72, 73, 74, 75, 76, 77, 78, 79, 80,
     81, 82, 83, 84, 85, 86, 87, 88, 89, 90, 91, 92, 93, 94, 95, 96, 97, 98, 99, 100,
     101, 102, 103, 104, 105, 106, 107, 108, 109, 110, 111, 112, 113, 114, 115, 116, 117, 118, 119, 120,
     121, 122, 123, 124, 125, 126, 127, 128, 129, 130, 131, 132, 133, 134, 135, 136, 137, 138, 139, 140,
     141, 142, 143, 144, 145, 146, 147, 148, 149, 150, 151, 152, 153, 154, 155, 156, 157, 158, 159, 160,
     161, 162, 163, 164, 165, 166, 167, 168, 169, 170, 171, 172, 173, 174, 175, 176, 177, 178, 179, 180,
     181, 182, 183, 184, 185, 186, 187, 188, 189, 190, 191, 192, 193, 194, 195, 196, 197, 198, 199, 200,
     201, 202, 203, 204, 205, 206, 207, 208, 209, 210, 211, 212, 213, 214, 215, 216, 217, 218, 219, 220,
     221, 222, 223, 224, 225, 226, 227, 228, 229, 230, 231, 232, 233, 234, 235, 236, 237, 238, 239, 240,
     241, 242, 243, 244, 245, 246, 247, 248, 249, 250, 251, 252, 253, 254, 255::u8]"
  by (simp add: upt_rec_numeral upt_rec)

lemma sbox_field: "list_all2 sbox_entry (map word_of_nat [1..<256]) (tl aes_sboxTable)"
  unfolding nonzero_bytes
  by (simp add: aes_sboxTable_def sbox_entry_def gf_mul_8 Let_def xtime_def affine_def unaffine_def rotl8_def)

lemma length_sboxTable [simp]: "length aes_sboxTable = 256"
  by (simp add: aes_sboxTable_def)

section \<open>Words and bytes\<close>

lemma ucast_of_unat: "(word_of_nat (unat w) :: u8) = ucast w" for w :: u32
  by (rule unat_eqI) (simp add: unat_of_nat unat_ucast)

lemma le_bytes_word: "le_bytes 4 (unat w) = word_bytes w"
proof -
  have "le_bytes 4 x = [word_of_nat x, word_of_nat (x div 256), word_of_nat (x div 65536), word_of_nat (x div 16777216)]" for x
  proof -
    have four: "(4::nat) = Suc (Suc (Suc (Suc 0)))" by simp
    show ?thesis unfolding four le_bytes.simps div_mult2_eq [symmetric] by simp
  qed
  moreover have "unat w div 256 = unat (drop_bit 8 w)" "unat w div 65536 = unat (drop_bit 16 w)"
    "unat w div 16777216 = unat (drop_bit 24 w)"
    by (simp_all add: unat_drop_bit)
  ultimately show ?thesis by (simp only: word_bytes_def ucast_of_unat)
qed

lemma load_word_bytes: "mem_loadU32 (word_bytes w) = w"
proof -
  have "le_nat (le_bytes 4 (unat w)) = unat w" using unat_less [of w] by (simp add: le_nat_le_bytes)
  then show ?thesis unfolding le_bytes_word [symmetric] mem_loadU32_def by simp
qed

lemma word_bytes_load: "4 \<le> length p \<Longrightarrow> word_bytes (mem_loadU32 p) = take 4 p"
  using le_bytes_le_nat [of "take 4 p"] by (simp add: le_bytes_word [symmetric] unat_loadU32)

lemma length_word_bytes [simp]: "length (word_bytes w) = 4"
  by (simp add: word_bytes_def)

lemma ucast_xor: "(ucast (x XOR y) :: u8) = ucast x XOR ucast y" for x y :: u32
  by (rule bit_word_eqI) (simp add: bit_simps)

lemma word_bytes_xor: "word_bytes (x XOR y) = map2 (XOR) (word_bytes x) (word_bytes y)"
  by (simp add: word_bytes_def ucast_xor)

lemma ucast_drop_rotr:
  "j + k < 4 \<Longrightarrow> (ucast (drop_bit (8 * j) (word_rotr (8 * k) w)) :: u8) = ucast (drop_bit (8 * (j + k)) w)"
  "4 \<le> j + k \<Longrightarrow> j < 4 \<Longrightarrow> k < 4 \<Longrightarrow> (ucast (drop_bit (8 * j) (word_rotr (8 * k) w)) :: u8) = ucast (drop_bit (8 * (j + k - 4)) w)"
  for w :: u32
proof -
  show "(ucast (drop_bit (8 * j) (word_rotr (8 * k) w)) :: u8) = ucast (drop_bit (8 * (j + k)) w)" if "j + k < 4"
  proof (rule bit_word_eqI)
    fix n assume "n < LENGTH(8)"
    then have "(n + 8 * j + 8 * k) mod 32 = n + 8 * (j + k)" using that by simp
    then show "bit (ucast (drop_bit (8 * j) (word_rotr (8 * k) w)) :: u8) n = bit (ucast (drop_bit (8 * (j + k)) w) :: u8) n"
      using that \<open>n < LENGTH(8)\<close> by (simp add: bit_simps ac_simps)
  qed
  show "(ucast (drop_bit (8 * j) (word_rotr (8 * k) w)) :: u8) = ucast (drop_bit (8 * (j + k - 4)) w)" if "4 \<le> j + k" "j < 4" "k < 4"
  proof (rule bit_word_eqI)
    fix n assume "n < LENGTH(8)"
    then have "n + 8 * j + 8 * k = n + 8 * (j + k - 4) + 32" "n + 8 * (j + k - 4) < 32" using that by simp_all
    then have "(n + 8 * j + 8 * k) mod 32 = n + 8 * (j + k - 4)" by (simp only: mod_add_self2 mod_less)
    then show "bit (ucast (drop_bit (8 * j) (word_rotr (8 * k) w)) :: u8) n = bit (ucast (drop_bit (8 * (j + k - 4)) w) :: u8) n"
      using that \<open>n < LENGTH(8)\<close> by (simp add: bit_simps ac_simps)
  qed
qed

lemma word_bytes_rotr:
  "word_bytes (word_rotr 8 w) = [ucast (drop_bit 8 w), ucast (drop_bit 16 w), ucast (drop_bit 24 w), ucast w]"
  "word_bytes (word_rotr 16 w) = [ucast (drop_bit 16 w), ucast (drop_bit 24 w), ucast w, ucast (drop_bit 8 w)]"
  "word_bytes (word_rotr 24 w) = [ucast (drop_bit 24 w), ucast w, ucast (drop_bit 8 w), ucast (drop_bit 16 w)]"
  using ucast_drop_rotr [of 0 1 w] ucast_drop_rotr [of 1 1 w] ucast_drop_rotr [of 2 1 w] ucast_drop_rotr [of 3 1 w]
    ucast_drop_rotr [of 0 2 w] ucast_drop_rotr [of 1 2 w] ucast_drop_rotr [of 2 2 w] ucast_drop_rotr [of 3 2 w]
    ucast_drop_rotr [of 0 3 w] ucast_drop_rotr [of 1 3 w] ucast_drop_rotr [of 2 3 w] ucast_drop_rotr [of 3 3 w]
  by (simp_all add: word_bytes_def)

lemma word_bytes_join:
  "word_bytes (ucast a XOR push_bit 8 (ucast b) XOR push_bit 16 (ucast c) XOR push_bit 24 (ucast d)) = [a, b, c, d]" for a b c d :: u8
  unfolding word_bytes_def list.inject
  by (intro conjI refl bit_word_eqI; auto simp: bit_simps dest: bit_imp_le_length)

lemma word_bytes_enc: "word_bytes (enc_word s) = [xtime s, s, s, xtime s XOR s]"
  unfolding enc_word_def by (rule word_bytes_join)

lemma byte_index:
  "unat (w AND 0xFF) = unat (ucast w :: u8)" "unat (drop_bit 8 w AND 0xFF) = unat (ucast (drop_bit 8 w) :: u8)"
  "unat (drop_bit 16 w AND 0xFF) = unat (ucast (drop_bit 16 w) :: u8)" "unat (drop_bit 24 w) = unat (ucast (drop_bit 24 w) :: u8)"
  for w :: u32
proof -
  have "(0xFF :: u32) = mask 8" by (simp add: mask_eq_exp_minus_1)
  then have m: "unat (w AND 0xFF) = unat (ucast w :: u8)" for w :: u32 by (simp only: unat_and_mask unat_ucast) simp
  then show "unat (w AND 0xFF) = unat (ucast w :: u8)" "unat (drop_bit 8 w AND 0xFF) = unat (ucast (drop_bit 8 w) :: u8)"
    "unat (drop_bit 16 w AND 0xFF) = unat (ucast (drop_bit 16 w) :: u8)" by - (rule m)+
  have "unat (drop_bit 24 w) < 256" using unat_less [of w] unfolding unat_drop_bit by (intro less_mult_imp_div_less) simp
  then show "unat (drop_bit 24 w) = unat (ucast (drop_bit 24 w) :: u8)" by (simp add: unat_ucast)
qed

section \<open>Rounds\<close>

definition state_bytes :: "aes_words \<Rightarrow> u8 list" where
  "state_bytes x = (case x of (x0, x1, x2, x3) \<Rightarrow> word_bytes x0 @ word_bytes x1 @ word_bytes x2 @ word_bytes x3)"

lemma aes_enc_bytes:
  "aes_enc (w AND 0xFF) = enc_word (sbox (ucast w))" "aes_enc (drop_bit 8 w AND 0xFF) = enc_word (sbox (ucast (drop_bit 8 w)))"
  "aes_enc (drop_bit 16 w AND 0xFF) = enc_word (sbox (ucast (drop_bit 16 w)))" "aes_enc (drop_bit 24 w) = enc_word (sbox (ucast (drop_bit 24 w)))"
proof -
  have "aes_encTable ! unat b = enc_word (sbox b)" for b :: u8
    using unat_less_width(1) [of b] by (simp add: encTable_eq sbox_def)
  then show "aes_enc (w AND 0xFF) = enc_word (sbox (ucast w))" "aes_enc (drop_bit 8 w AND 0xFF) = enc_word (sbox (ucast (drop_bit 8 w)))"
    "aes_enc (drop_bit 16 w AND 0xFF) = enc_word (sbox (ucast (drop_bit 16 w)))" "aes_enc (drop_bit 24 w) = enc_word (sbox (ucast (drop_bit 24 w)))"
    by (simp_all only: aes_enc_def byte_index)
qed

lemma aes_sbox_bytes:
  "aes_sbox (w AND 0xFF) = ucast (sbox (ucast w))" "aes_sbox (drop_bit 8 w AND 0xFF) = ucast (sbox (ucast (drop_bit 8 w)))"
  "aes_sbox (drop_bit 16 w AND 0xFF) = ucast (sbox (ucast (drop_bit 16 w)))" "aes_sbox (drop_bit 24 w) = ucast (sbox (ucast (drop_bit 24 w)))"
  by (simp_all only: aes_sbox_def byte_index sbox_def)

lemma word_bytes_rotr_enc:
  "word_bytes (word_rotr 8 (enc_word s)) = [s, s, xtime s XOR s, xtime s]"
  "word_bytes (word_rotr 16 (enc_word s)) = [s, xtime s XOR s, xtime s, s]"
  "word_bytes (word_rotr 24 (enc_word s)) = [xtime s XOR s, xtime s, s, s]"
  using word_bytes_enc [of s] unfolding word_bytes_rotr by (simp_all add: word_bytes_def)

lemma aes_column_bytes:
  "word_bytes (aes_column a b c d) =
   mix_column [sbox (ucast a), sbox (ucast (drop_bit 8 b)), sbox (ucast (drop_bit 16 c)), sbox (ucast (drop_bit 24 d))]"
  unfolding aes_column_def word_bytes_xor aes_enc_bytes word_bytes_enc word_bytes_rotr_enc
  by (simp add: xor.assoc)

lemma aes_lastColumn_bytes:
  "word_bytes (aes_lastColumn k a b c d) =
   map2 (XOR) [sbox (ucast a), sbox (ucast (drop_bit 8 b)), sbox (ucast (drop_bit 16 c)), sbox (ucast (drop_bit 24 d))] (word_bytes k)"
proof -
  have "word_bytes (aes_lastColumn k a b c d) =
      map2 (XOR) (word_bytes k) [sbox (ucast a), sbox (ucast (drop_bit 8 b)), sbox (ucast (drop_bit 16 c)), sbox (ucast (drop_bit 24 d))]"
    unfolding aes_lastColumn_def xor.assoc word_bytes_xor [of k] aes_sbox_bytes word_bytes_join [unfolded xor.assoc] ..
  then show ?thesis by (simp add: word_bytes_def xor.commute)
qed

lemma shift_sub_bytes:
  "shift_rows (sub_bytes (state_bytes (x0, x1, x2, x3))) =
     [sbox (ucast x0), sbox (ucast (drop_bit 8 x1)), sbox (ucast (drop_bit 16 x2)), sbox (ucast (drop_bit 24 x3))] @
     [sbox (ucast x1), sbox (ucast (drop_bit 8 x2)), sbox (ucast (drop_bit 16 x3)), sbox (ucast (drop_bit 24 x0))] @
     [sbox (ucast x2), sbox (ucast (drop_bit 8 x3)), sbox (ucast (drop_bit 16 x0)), sbox (ucast (drop_bit 24 x1))] @
     [sbox (ucast x3), sbox (ucast (drop_bit 8 x0)), sbox (ucast (drop_bit 16 x1)), sbox (ucast (drop_bit 24 x2))]"
  by (simp add: shift_rows_def sub_bytes_def state_bytes_def word_bytes_def upt_16)

lemma round_key_bytes:
  "round_key ks r = word_bytes (ks ! (4 * r)) @ word_bytes (ks ! (4 * r + 1)) @ word_bytes (ks ! (4 * r + 2)) @ word_bytes (ks ! (4 * r + 3))"
  by (simp add: round_key_def upt_4)

lemma map2_state: "length a = length a' \<Longrightarrow> length b = length b' \<Longrightarrow> length c = length c' \<Longrightarrow>
  map2 f (a @ b @ c @ d) (a' @ b' @ c' @ d') = map2 f a a' @ map2 f b b' @ map2 f c c' @ map2 f d d'"
  by (simp add: zip_append)

lemma aes_round_bytes:
  "state_bytes (aes_column x0 x1 x2 x3 XOR ks ! (4 * r), aes_column x1 x2 x3 x0 XOR ks ! (4 * r + 1),
     aes_column x2 x3 x0 x1 XOR ks ! (4 * r + 2), aes_column x3 x0 x1 x2 XOR ks ! (4 * r + 3)) =
   add_round_key (round_key ks r) (mix_columns (shift_rows (sub_bytes (state_bytes (x0, x1, x2, x3)))))"
proof -
  have "mix_columns (shift_rows (sub_bytes (state_bytes (x0, x1, x2, x3)))) =
      word_bytes (aes_column x0 x1 x2 x3) @ word_bytes (aes_column x1 x2 x3 x0) @
      word_bytes (aes_column x2 x3 x0 x1) @ word_bytes (aes_column x3 x0 x1 x2)"
    unfolding shift_sub_bytes aes_column_bytes mix_columns_def upt_4 by simp
  then show ?thesis
    unfolding add_round_key_def round_key_bytes by (simp add: map2_state state_bytes_def word_bytes_xor)
qed

lemma aes_rounds_loop_bytes:
  "i \<le> n \<Longrightarrow> state_bytes (aes_rounds_loop (4 * i) (4 * n) ks x) =
   fold (\<lambda>r s. add_round_key (round_key ks r) (mix_columns (shift_rows (sub_bytes s)))) [i..<n] (state_bytes x)"
proof (induction "n - i" arbitrary: i x)
  case 0
  then show ?case by (subst aes_rounds_loop.simps) (simp split: prod.split)
next
  case (Suc m)
  obtain x0 x1 x2 x3 where x: "x = (x0, x1, x2, x3)" by (cases x)
  have lt: "i < n" "m = n - Suc i" "Suc i \<le> n" using Suc by auto
  have "aes_rounds_loop (4 * i) (4 * n) ks x = aes_rounds_loop (4 * Suc i) (4 * n) ks
      (aes_column x0 x1 x2 x3 XOR ks ! (4 * i), aes_column x1 x2 x3 x0 XOR ks ! (4 * i + 1),
       aes_column x2 x3 x0 x1 XOR ks ! (4 * i + 2), aes_column x3 x0 x1 x2 XOR ks ! (4 * i + 3))"
    using lt(1) by (subst aes_rounds_loop.simps) (simp add: x Let_def add.commute)
  then show ?case
    using Suc.hyps(1) [OF lt(2,3)] lt(1) by (simp only: aes_round_bytes upt_conv_Cons fold_simps x)
qed

lemma aes_rounds_cipher:
  assumes "16 \<le> length inp" "16 \<le> length out" "1 \<le> Nr"
  shows "aes_rounds out inp ks (4 * Nr) = mem_put out 0 (cipher Nr ks (take 16 inp))"
proof -
  let ?x = "(mem_loadU32 inp XOR ks ! 0, mem_loadU32 (drop 4 inp) XOR ks ! 1,
    mem_loadU32 (drop 8 inp) XOR ks ! 2, mem_loadU32 (drop 12 inp) XOR ks ! 3)"
  have inp: "take 16 inp = take 4 inp @ take 4 (drop 4 inp) @ take 4 (drop 8 inp) @ take 4 (drop 12 inp)"
    using take_add [of 4 12 inp] take_add [of 4 8 "drop 4 inp"] take_add [of 4 4 "drop 8 inp"] by simp
  have x: "state_bytes ?x = add_round_key (round_key ks 0) (take 16 inp)"
    unfolding state_bytes_def prod.case word_bytes_xor add_round_key_def round_key_bytes inp
    using assms(1) by (simp add: map2_state word_bytes_load numeral_eq_Suc [of "num.Bit1 num.One"] numeral_2_eq_2)
  obtain x0 x1 x2 x3 where l: "aes_rounds_loop 4 (4 * Nr) ks ?x = (x0, x1, x2, x3)" by (metis prod.exhaust)
  have s: "state_bytes (x0, x1, x2, x3) =
      fold (\<lambda>r s. add_round_key (round_key ks r) (mix_columns (shift_rows (sub_bytes s)))) [1..<Nr] (add_round_key (round_key ks 0) (take 16 inp))"
    using aes_rounds_loop_bytes [of 1 Nr ks ?x] assms(3) l x by simp
  let ?o0 = "word_bytes (aes_lastColumn (ks ! (4 * Nr)) x0 x1 x2 x3)"
    and ?o1 = "word_bytes (aes_lastColumn (ks ! (4 * Nr + 1)) x1 x2 x3 x0)"
    and ?o2 = "word_bytes (aes_lastColumn (ks ! (4 * Nr + 2)) x2 x3 x0 x1)"
    and ?o3 = "word_bytes (aes_lastColumn (ks ! (4 * Nr + 3)) x3 x0 x1 x2)"
  have "cipher Nr ks (take 16 inp) = ?o0 @ ?o1 @ ?o2 @ ?o3"
    unfolding cipher_def Let_def s [symmetric]
    unfolding shift_sub_bytes add_round_key_def round_key_bytes aes_lastColumn_bytes
    by (rule map2_state) simp_all
  moreover have "aes_rounds out inp ks (4 * Nr) = mem_put out 0 (?o0 @ ?o1 @ ?o2 @ ?o3)"
  proof -
    have "mem_put (mem_put (mem_put (mem_put out 0 ?o0) 4 ?o1) 8 ?o2) 12 ?o3 = mem_put out 0 (((?o0 @ ?o1) @ ?o2) @ ?o3)"
      using mem_put_append [of 0 ?o0 ?o1 out] mem_put_append [of 0 "?o0 @ ?o1" ?o2 out]
        mem_put_append [of 0 "(?o0 @ ?o1) @ ?o2" ?o3 out] assms(2) by simp
    then show ?thesis unfolding aes_rounds_def Let_def mem_storeU32_def le_bytes_word using l by simp
  qed
  ultimately show ?thesis by simp
qed

section \<open>Key expansion\<close>

lemma aes_subRotWord_eq: "aes_subRotWord t = sub_word (rot_word t)"
proof -
  have r: "word_bytes (rot_word t) = [ucast (drop_bit 8 t), ucast (drop_bit 16 t), ucast (drop_bit 24 t), ucast t]"
    unfolding rot_word_def by (subst word_bytes_load) (simp_all add: word_bytes_def)
  have "aes_subRotWord t = ucast (sbox (ucast (drop_bit 8 t))) XOR push_bit 8 (ucast (sbox (ucast (drop_bit 16 t)))) XOR
      push_bit 16 (ucast (sbox (ucast (drop_bit 24 t)))) XOR push_bit 24 (ucast (sbox (ucast t)))"
    unfolding aes_subRotWord_def aes_sbox_bytes by (simp only: ac_simps)
  then have "word_bytes (aes_subRotWord t) = map sbox (word_bytes (rot_word t))"
    by (simp only: word_bytes_join r list.map)
  then show ?thesis unfolding sub_word_def by (metis load_word_bytes)
qed

lemma aes_subWord_eq: "aes_subWord t = sub_word t"
proof -
  have "aes_subWord t = ucast (sbox (ucast t)) XOR push_bit 8 (ucast (sbox (ucast (drop_bit 8 t)))) XOR
      push_bit 16 (ucast (sbox (ucast (drop_bit 16 t)))) XOR push_bit 24 (ucast (sbox (ucast (drop_bit 24 t))))"
    unfolding aes_subWord_def aes_sbox_bytes by (simp only: ac_simps)
  then have "word_bytes (aes_subWord t) = map sbox (word_bytes t)"
    by (simp only: word_bytes_join) (simp add: word_bytes_def)
  then show ?thesis unfolding sub_word_def by (metis load_word_bytes)
qed

lemma length_key_expansion [simp]: "length (key_expansion Nk n ks) = length ks + n"
  by (induction n) (simp_all add: Let_def)

declare key_expansion.simps [simp del]

lemma xtime_power_values:
  "(xtime ^^ 0) 1 = 1" "(xtime ^^ 1) 1 = 2" "(xtime ^^ 2) 1 = 4" "(xtime ^^ 3) 1 = 8" "(xtime ^^ 4) 1 = 0x10"
  "(xtime ^^ 5) 1 = 0x20" "(xtime ^^ 6) 1 = 0x40" "(xtime ^^ 7) 1 = 0x80" "(xtime ^^ 8) 1 = 0x1B"
  "(xtime ^^ 9) 1 = 0x36" "(xtime ^^ 10) 1 = 0x6C"
proof -
  have step: "(xtime ^^ Suc j) 1 = xtime ((xtime ^^ j) 1)" for j by simp
  show p0: "(xtime ^^ 0) 1 = 1" by simp
  show p1: "(xtime ^^ 1) 1 = 2" using step [of 0] by (simp add: xtime_def)
  show p2: "(xtime ^^ 2) 1 = 4" using step [of 1] p1 by (simp add: xtime_def numeral_2_eq_2)
  show p3: "(xtime ^^ 3) 1 = 8" using step [of 2, simplified Suc_numeral semiring_norm] p2 by (simp add: xtime_def)
  show p4: "(xtime ^^ 4) 1 = 0x10" using step [of 3, simplified Suc_numeral semiring_norm] p3 by (simp add: xtime_def)
  show p5: "(xtime ^^ 5) 1 = 0x20" using step [of 4, simplified Suc_numeral semiring_norm] p4 by (simp add: xtime_def)
  show p6: "(xtime ^^ 6) 1 = 0x40" using step [of 5, simplified Suc_numeral semiring_norm] p5 by (simp add: xtime_def)
  show p7: "(xtime ^^ 7) 1 = 0x80" using step [of 6, simplified Suc_numeral semiring_norm] p6 by (simp add: xtime_def)
  show p8: "(xtime ^^ 8) 1 = 0x1B" using step [of 7, simplified Suc_numeral semiring_norm] p7 by (simp add: xtime_def)
  show p9: "(xtime ^^ 9) 1 = 0x36" using step [of 8, simplified Suc_numeral semiring_norm] p8 by (simp add: xtime_def)
  show "(xtime ^^ 10) 1 = 0x6C" using step [of 9, simplified Suc_numeral semiring_norm] p9 by (simp add: xtime_def)
qed

lemma rcon_next:
  "j < 10 \<Longrightarrow> (if j = 7 then 0x1B else push_bit 1 (rcon (j + 1))) = rcon (j + 2)"
proof -
  assume "j < 10"
  then have "j \<in> set [0..<10]" by simp
  moreover have "[0..<10] = [0, 1, 2, 3, 4, 5, 6, 7, 8, 9::nat]" by code_simp
  ultimately have "j \<in> set [0, 1, 2, 3, 4, 5, 6, 7, 8, 9]" by metis
  then show ?thesis using xtime_power_values by (auto simp: rcon_def xtime_def)
qed

lemma put_four:
  assumes "length w = i"
  shows "(w @ replicate (4 + n) z)[i := a0, i + 1 := a1, i + 2 := a2, i + 3 := a3] = w @ [a0, a1, a2, a3] @ replicate n z"
  using assms by (simp add: list_update_append numeral_eq_Suc)

lemma key_step_start:
  assumes "w = key_expansion Nk n ks" "length w mod Nk = 0" "0 < length w"
  shows "key_expansion Nk (Suc n) ks = w @ [w ! (length w - Nk) XOR (sub_word (rot_word (w ! (length w - 1))) XOR rcon (length w div Nk))]"
  using assms by (simp add: Let_def key_expansion.simps)

lemma key_step_mid:
  assumes "w = key_expansion 8 n ks" "length w mod 8 = 4"
  shows "key_expansion 8 (Suc n) ks = w @ [w ! (length w - 8) XOR sub_word (w ! (length w - 1))]"
  using assms by (simp add: Let_def key_expansion.simps)

lemma key_step_plain:
  assumes "w = key_expansion Nk n ks" "length w mod Nk \<noteq> 0" "\<not> (Nk > 6 \<and> length w mod Nk = 4)"
  shows "key_expansion Nk (Suc n) ks = w @ [w ! (length w - Nk) XOR w ! (length w - 1)]"
  using assms by (auto simp: Let_def key_expansion.simps)

lemma aes128_expand_group:
  assumes "length ks = 4" "key_expansion 4 (4 * r) ks = pre @ [t0, t1, t2, t3]"
  defines "u0 \<equiv> t0 XOR (rcon (r + 1) XOR aes_subRotWord t3)"
  shows "key_expansion 4 (4 * Suc r) ks = pre @ [t0, t1, t2, t3] @
    [u0, t1 XOR u0, t2 XOR (t1 XOR u0), t3 XOR (t2 XOR (t1 XOR u0))]"
proof -
  have len: "length pre = 4 * r" using arg_cong [OF assms(2), of length] assms(1) by simp
  let ?w0 = "pre @ [t0, t1, t2, t3]"
  let ?w1 = "?w0 @ [u0]"
  let ?w2 = "?w1 @ [t1 XOR u0]"
  let ?w3 = "?w2 @ [t2 XOR (t1 XOR u0)]"
  have 1: "key_expansion 4 (Suc (4 * r)) ks = ?w1"
    using key_step_start [OF assms(2) [symmetric]] len
    by (simp add: nth_append u0_def aes_subRotWord_eq xor.commute)
  have 2: "key_expansion 4 (Suc (Suc (4 * r))) ks = ?w2"
    using key_step_plain [OF 1 [symmetric]] len by (simp add: nth_append mod_Suc)
  have 3: "key_expansion 4 (Suc (Suc (Suc (4 * r)))) ks = ?w3"
    using key_step_plain [OF 2 [symmetric]] len by (simp add: nth_append mod_Suc)
  have "key_expansion 4 (Suc (Suc (Suc (Suc (4 * r))))) ks = ?w3 @ [t3 XOR (t2 XOR (t1 XOR u0))]"
    using key_step_plain [OF 3 [symmetric]] len by (simp add: nth_append mod_Suc)
  moreover have "4 * Suc r = Suc (Suc (Suc (Suc (4 * r))))" by simp
  ultimately show ?thesis by (simp only: append_assoc append_Cons append_Nil)
qed

lemma aes128_expand_eq:
  assumes "length ks = 4" "r \<le> 10" "key_expansion 4 (4 * r) ks = pre @ [t0, t1, t2, t3]"
  shows "aes128_expand (4 * Suc r) (rcon (r + 1)) (t0, t1, t2, t3) (key_expansion 4 (4 * r) ks @ replicate (4 * (10 - r)) 0) =
    key_expansion 4 40 ks"
  using assms(2,3)
proof (induction "10 - r" arbitrary: r pre t0 t1 t2 t3)
  case 0
  then have "r = 10" by simp
  then show ?case by (subst aes128_expand.simps) simp
next
  case (Suc m)
  have r: "r < 10" "m = 10 - Suc r" "Suc r \<le> 10" using Suc.hyps(2) by auto
  define u0 where "u0 = t0 XOR (rcon (r + 1) XOR aes_subRotWord t3)"
  define u1 where "u1 = t1 XOR u0"
  define u2 where "u2 = t2 XOR u1"
  define u3 where "u3 = t3 XOR u2"
  have ke: "key_expansion 4 (4 * Suc r) ks = (pre @ [t0, t1, t2, t3]) @ [u0, u1, u2, u3]"
    using aes128_expand_group [OF assms(1) Suc.prems(2)] by (simp add: u0_def u1_def u2_def u3_def)
  have len: "length (key_expansion 4 (4 * r) ks) = 4 * Suc r" using assms(1) by simp
  have rest: "4 * (10 - r) = 4 + 4 * (10 - Suc r)" using r(1) by simp
  have pow: "(if 4 * Suc r = 32 then 0x1B else push_bit 1 (rcon (r + 1))) = rcon (Suc r + 1)"
    using rcon_next [OF r(1)] by (simp split: if_splits)
  have "aes128_expand (4 * Suc r) (rcon (r + 1)) (t0, t1, t2, t3) (key_expansion 4 (4 * r) ks @ replicate (4 * (10 - r)) 0) =
      aes128_expand (4 * Suc r + 4) (rcon (Suc r + 1)) (u0, u1, u2, u3)
        ((key_expansion 4 (4 * r) ks @ replicate (4 + 4 * (10 - Suc r)) 0)[4 * Suc r := u0, 4 * Suc r + 1 := u1, 4 * Suc r + 2 := u2, 4 * Suc r + 3 := u3])"
    unfolding rest using r(1)
    by (subst aes128_expand.simps) (simp only: prod.case Let_def pow u0_def [symmetric] u1_def [symmetric] u2_def [symmetric] u3_def [symmetric], simp)
  also have "\<dots> = aes128_expand (4 * Suc (Suc r)) (rcon (Suc r + 1)) (u0, u1, u2, u3)
      (key_expansion 4 (4 * Suc r) ks @ replicate (4 * (10 - Suc r)) 0)"
    unfolding put_four [OF len] unfolding ke Suc.prems(2) by (simp add: add.commute)
  also have "\<dots> = key_expansion 4 40 ks"
    by (rule Suc.hyps(1) [OF r(2,3) ke])
  finally show ?case .
qed

lemma aes256_expand_lower:
  assumes "length ks = 8" "key_expansion 8 (8 * r) ks = pre @ [t0, t1, t2, t3, t4, t5, t6, t7]"
  defines "u0 \<equiv> t0 XOR (rcon (r + 1) XOR aes_subRotWord t7)"
  shows "key_expansion 8 (8 * r + 4) ks = pre @ [t0, t1, t2, t3, t4, t5, t6, t7] @
    [u0, t1 XOR u0, t2 XOR (t1 XOR u0), t3 XOR (t2 XOR (t1 XOR u0))]"
proof -
  have len: "length pre = 8 * r" using arg_cong [OF assms(2), of length] assms(1) by simp
  let ?w0 = "pre @ [t0, t1, t2, t3, t4, t5, t6, t7]"
  let ?w1 = "?w0 @ [u0]"
  let ?w2 = "?w1 @ [t1 XOR u0]"
  let ?w3 = "?w2 @ [t2 XOR (t1 XOR u0)]"
  have 1: "key_expansion 8 (Suc (8 * r)) ks = ?w1"
    using key_step_start [OF assms(2) [symmetric]] len
    by (simp add: nth_append u0_def aes_subRotWord_eq xor.commute)
  have 2: "key_expansion 8 (Suc (Suc (8 * r))) ks = ?w2"
    using key_step_plain [OF 1 [symmetric]] len by (simp add: nth_append mod_Suc)
  have 3: "key_expansion 8 (Suc (Suc (Suc (8 * r)))) ks = ?w3"
    using key_step_plain [OF 2 [symmetric]] len by (simp add: nth_append mod_Suc)
  have "key_expansion 8 (Suc (Suc (Suc (Suc (8 * r))))) ks = ?w3 @ [t3 XOR (t2 XOR (t1 XOR u0))]"
    using key_step_plain [OF 3 [symmetric]] len by (simp add: nth_append mod_Suc)
  moreover have "8 * r + 4 = Suc (Suc (Suc (Suc (8 * r))))" by simp
  ultimately show ?thesis by (simp only: append_assoc append_Cons append_Nil)
qed

lemma aes256_expand_upper:
  assumes "length ks = 8" "key_expansion 8 (8 * r + 4) ks = pre @ [t4, t5, t6, t7, u0, u1, u2, u3]"
  defines "u4 \<equiv> t4 XOR aes_subWord u3"
  shows "key_expansion 8 (8 * Suc r) ks = pre @ [t4, t5, t6, t7, u0, u1, u2, u3] @
    [u4, t5 XOR u4, t6 XOR (t5 XOR u4), t7 XOR (t6 XOR (t5 XOR u4))]"
proof -
  have len: "length pre = 8 * r + 4" using arg_cong [OF assms(2), of length] assms(1) by simp
  let ?w0 = "pre @ [t4, t5, t6, t7, u0, u1, u2, u3]"
  let ?w1 = "?w0 @ [u4]"
  let ?w2 = "?w1 @ [t5 XOR u4]"
  let ?w3 = "?w2 @ [t6 XOR (t5 XOR u4)]"
  have 1: "key_expansion 8 (Suc (8 * r + 4)) ks = ?w1"
    using key_step_mid [OF assms(2) [symmetric]] len
    by (simp add: nth_append u4_def aes_subWord_eq mod_Suc)
  have 2: "key_expansion 8 (Suc (Suc (8 * r + 4))) ks = ?w2"
    using key_step_plain [OF 1 [symmetric]] len by (simp add: nth_append mod_Suc)
  have 3: "key_expansion 8 (Suc (Suc (Suc (8 * r + 4)))) ks = ?w3"
    using key_step_plain [OF 2 [symmetric]] len by (simp add: nth_append mod_Suc)
  have "key_expansion 8 (Suc (Suc (Suc (Suc (8 * r + 4))))) ks = ?w3 @ [t7 XOR (t6 XOR (t5 XOR u4))]"
    using key_step_plain [OF 3 [symmetric]] len by (simp add: nth_append mod_Suc)
  moreover have "8 * Suc r = Suc (Suc (Suc (Suc (8 * r + 4))))" by simp
  ultimately show ?thesis by (simp only: append_assoc append_Cons append_Nil)
qed

lemma aes256_expand_eq:
  assumes "length ks = 8" "r \<le> 6" "key_expansion 8 (8 * r) ks = pre @ [t0, t1, t2, t3, t4, t5, t6, t7]"
  shows "aes256_expand (8 * Suc r) (rcon (r + 1)) (t0, t1, t2, t3) (t4, t5, t6, t7)
      (key_expansion 8 (8 * r) ks @ replicate (4 + 8 * (6 - r)) 0) = key_expansion 8 52 ks"
  using assms(2,3)
proof (induction "6 - r" arbitrary: r pre t0 t1 t2 t3 t4 t5 t6 t7)
  case 0
  then have r: "r = 6" by simp
  define u0 where "u0 = t0 XOR (rcon (r + 1) XOR aes_subRotWord t7)"
  have "key_expansion 8 52 ks = key_expansion 8 48 ks @ [u0, t1 XOR u0, t2 XOR (t1 XOR u0), t3 XOR (t2 XOR (t1 XOR u0))]"
    using aes256_expand_lower [OF assms(1) 0(3)] 0(3) by (simp add: r u0_def)
  moreover have "length (key_expansion 8 48 ks) = 56" using assms(1) by simp
  ultimately show ?case
    using put_four [of "key_expansion 8 48 ks" 56 0 0] by (subst aes256_expand.simps) (simp add: r Let_def u0_def)
next
  case (Suc m)
  have r: "r < 6" "m = 6 - Suc r" "Suc r \<le> 6" using Suc.hyps(2) by auto
  define u0 where "u0 = t0 XOR (rcon (r + 1) XOR aes_subRotWord t7)"
  define u1 where "u1 = t1 XOR u0"
  define u2 where "u2 = t2 XOR u1"
  define u3 where "u3 = t3 XOR u2"
  define u4 where "u4 = t4 XOR aes_subWord u3"
  define u5 where "u5 = t5 XOR u4"
  define u6 where "u6 = t6 XOR u5"
  define u7 where "u7 = t7 XOR u6"
  note us [symmetric] = u0_def u1_def u2_def u3_def u4_def u5_def u6_def u7_def
  have lo: "key_expansion 8 (8 * r + 4) ks = (pre @ [t0, t1, t2, t3]) @ [t4, t5, t6, t7, u0, u1, u2, u3]"
    using aes256_expand_lower [OF assms(1) Suc.prems(2)] by (simp add: u0_def u1_def u2_def u3_def)
  have ke: "key_expansion 8 (8 * Suc r) ks = (pre @ [t0, t1, t2, t3, t4, t5, t6, t7]) @ [u0, u1, u2, u3, u4, u5, u6, u7]"
    using aes256_expand_upper [OF assms(1) lo] by (simp add: u4_def u5_def u6_def u7_def)
  have len: "length (key_expansion 8 (8 * r) ks) = 8 * Suc r"
    and len': "length (key_expansion 8 (8 * r) ks @ [u0, u1, u2, u3]) = 8 * Suc r + 4" using assms(1) by simp_all
  have rest: "4 + 8 * (6 - r) = 4 + (4 + (4 + 8 * (6 - Suc r)))" using r(1) by simp
  have pow: "push_bit 1 (rcon (r + 1)) = rcon (Suc r + 1)"
    using rcon_next [of r] r(1) by (simp split: if_splits)
  have "aes256_expand (8 * Suc r) (rcon (r + 1)) (t0, t1, t2, t3) (t4, t5, t6, t7)
        (key_expansion 8 (8 * r) ks @ replicate (4 + 8 * (6 - r)) 0) =
      aes256_expand (8 * Suc r + 8) (rcon (Suc r + 1)) (u0, u1, u2, u3) (u4, u5, u6, u7)
        (((key_expansion 8 (8 * r) ks @ replicate (4 + (4 + (4 + 8 * (6 - Suc r)))) 0)
          [8 * Suc r := u0, 8 * Suc r + 1 := u1, 8 * Suc r + 2 := u2, 8 * Suc r + 3 := u3])
          [8 * Suc r + 4 := u4, 8 * Suc r + 4 + 1 := u5, 8 * Suc r + 4 + 2 := u6, 8 * Suc r + 4 + 3 := u7])"
    unfolding rest using r(1)
    by (subst aes256_expand.simps) (simp only: prod.case Let_def pow us, simp)
  also have "\<dots> = aes256_expand (8 * Suc (Suc r)) (rcon (Suc r + 1)) (u0, u1, u2, u3) (u4, u5, u6, u7)
      (key_expansion 8 (8 * Suc r) ks @ replicate (4 + 8 * (6 - Suc r)) 0)"
  proof -
    have "(key_expansion 8 (8 * r) ks @ replicate (4 + (4 + (4 + 8 * (6 - Suc r)))) 0)
        [8 * Suc r := u0, 8 * Suc r + 1 := u1, 8 * Suc r + 2 := u2, 8 * Suc r + 3 := u3] =
        (key_expansion 8 (8 * r) ks @ [u0, u1, u2, u3]) @ replicate (4 + (4 + 8 * (6 - Suc r))) 0"
      unfolding put_four [OF len] by simp
    then show ?thesis
      unfolding put_four [OF len'] ke Suc.prems(2) by (simp only: put_four [OF len', unfolded Suc.prems(2)]) (simp add: add.commute)
  qed
  also have "\<dots> = key_expansion 8 52 ks"
    by (rule Suc.hyps(1) [OF r(2,3) ke])
  finally show ?case .
qed

section \<open>Block functions and tables\<close>

definition key_words :: "nat \<Rightarrow> u8 list \<Rightarrow> u32 list" where
  "key_words n key = map (\<lambda>i. mem_loadU32 (drop (4 * i) key)) [0..<n]"

lemma aes128_block_eq:
  assumes "16 \<le> length inp" "16 \<le> length out"
  shows "aes128_block out inp key = mem_put out 0 (cipher 10 (key_expansion 4 40 (key_words 4 key)) (take 16 inp))"
proof -
  obtain t0 t1 t2 t3 where ks: "key_words 4 key = [t0, t1, t2, t3]"
    and t: "t0 = mem_loadU32 key" "t1 = mem_loadU32 (drop 4 key)" "t2 = mem_loadU32 (drop 8 key)" "t3 = mem_loadU32 (drop 12 key)"
    by (simp add: key_words_def upt_4)
  have "aes128_expand 4 1 (t0, t1, t2, t3) ([t0, t1, t2, t3] @ replicate 40 0) = key_expansion 4 40 [t0, t1, t2, t3]"
    using aes128_expand_eq [of "[t0, t1, t2, t3]" 0 "[]" t0 t1 t2 t3] by (simp add: key_expansion.simps rcon_def)
  moreover have "(replicate 44 0)[0 := t0, 1 := t1, 2 := t2, 3 := t3] = [t0, t1, t2, t3] @ replicate 40 0"
    using put_four [of "[]" 0 40 0 t0 t1 t2 t3] by (simp add: numeral_2_eq_2)
  ultimately show ?thesis
    using aes_rounds_cipher [OF assms, of 10] ks unfolding aes128_block_def Let_def t [symmetric] by simp
qed

lemma aes256_block_eq:
  assumes "16 \<le> length inp" "16 \<le> length out"
  shows "aes256_block out inp key = mem_put out 0 (cipher 14 (key_expansion 8 52 (key_words 8 key)) (take 16 inp))"
proof -
  have "[0..<8] = [0, 1, 2, 3, 4, 5, 6, 7::nat]" by code_simp
  then obtain t0 t1 t2 t3 t4 t5 t6 t7 where ks: "key_words 8 key = [t0, t1, t2, t3, t4, t5, t6, t7]"
    and t: "t0 = mem_loadU32 key" "t1 = mem_loadU32 (drop 4 key)" "t2 = mem_loadU32 (drop 8 key)" "t3 = mem_loadU32 (drop 12 key)"
      "t4 = mem_loadU32 (drop 16 key)" "t5 = mem_loadU32 (drop 20 key)" "t6 = mem_loadU32 (drop 24 key)" "t7 = mem_loadU32 (drop 28 key)"
    by (simp add: key_words_def)
  have "aes256_expand 8 1 (t0, t1, t2, t3) (t4, t5, t6, t7) ([t0, t1, t2, t3, t4, t5, t6, t7] @ replicate 52 0) =
      key_expansion 8 52 [t0, t1, t2, t3, t4, t5, t6, t7]"
    using aes256_expand_eq [of "[t0, t1, t2, t3, t4, t5, t6, t7]" 0 "[]" t0 t1 t2 t3 t4 t5 t6 t7]
    by (simp add: key_expansion.simps rcon_def)
  moreover have "(replicate 60 0)[0 := t0, 1 := t1, 2 := t2, 3 := t3, 4 := t4, 5 := t5, 6 := t6, 7 := t7] =
      [t0, t1, t2, t3, t4, t5, t6, t7] @ replicate 52 0"
    using put_four [of "[]" 0 56 0 t0 t1 t2 t3] put_four [of "[t0, t1, t2, t3]" 4 52 0 t4 t5 t6 t7] by (simp add: numeral_2_eq_2)
  ultimately show ?thesis
    using aes_rounds_cipher [OF assms, of 14] ks unfolding aes256_block_def Let_def t [symmetric] by simp
qed

text \<open>
  C30: for every key and every input block, \<open>aes128_block\<close> and \<open>aes256_block\<close> overwrite exactly the
  first sixteen bytes of the output with the FIPS 197 encryption of the block: ten, respectively
  fourteen, rounds of SubBytes, ShiftRows, MixColumns and AddRoundKey under the expanded key. The
  output buffer may be the input buffer.
\<close>
theorem aes_block_correct:
  assumes "16 \<le> length inp" "16 \<le> length out"
  shows "aes128_block out inp key = mem_put out 0 (cipher 10 (key_expansion 4 40 (key_words 4 key)) (take 16 inp)) \<and>
    aes256_block out inp key = mem_put out 0 (cipher 14 (key_expansion 8 52 (key_words 8 key)) (take 16 inp)) \<and>
    drop 16 (aes128_block out inp key) = drop 16 out \<and> drop 16 (aes256_block out inp key) = drop 16 out"
proof -
  have len: "length (cipher Nr ks (take 16 inp)) = 16" for Nr ks
    by (simp add: cipher_def add_round_key_def round_key_bytes shift_rows_def Let_def)
  show ?thesis
    unfolding aes128_block_eq [OF assms] aes256_block_eq [OF assms] mem_put_def using assms(2) len by simp
qed

text \<open>The witness encrypts the zero block under a zero key, in place.\<close>

theorem aes_block_correct_witness:
  "drop 16 (aes128_block (replicate 20 0) (replicate 20 0) (replicate 16 0)) = replicate 4 0 \<and>
   take 16 (aes128_block (replicate 20 0) (replicate 20 0) (replicate 16 0)) =
     cipher 10 (key_expansion 4 40 (key_words 4 (replicate 16 0))) (replicate 16 0)"
proof -
  have len: "length (cipher 10 ks (replicate 16 0)) = 16" for ks
    by (simp add: cipher_def add_round_key_def round_key_bytes shift_rows_def Let_def)
  show ?thesis
    using aes_block_correct [of "replicate 20 0" "replicate 20 0" "replicate 16 0"] by (simp add: mem_put_def len)
qed

text \<open>
  The tables of the source are the ones the algorithm asks for. The S-box sends zero to 0x63 and
  every other byte to the affine image of its inverse in GF(2^8), and entry \<open>b\<close> of the round table
  is the column of products of \<open>S(b)\<close> by 2, 1, 1 and 3.
\<close>
theorem aes_tables_correct:
  "length aes_sboxTable = 256 \<and> length aes_encTable = 256 \<and> sbox 0 = 0x63 \<and>
   list_all2 (\<lambda>x s. \<exists>y. gf_mul 8 x y = 1 \<and> s = affine y) (map word_of_nat [1..<256]) (tl aes_sboxTable) \<and>
   (\<forall>b. word_bytes (aes_encTable ! unat b) = [gf_mul 8 (sbox b) 2, sbox b, sbox b, gf_mul 8 (sbox b) 3])"
proof (intro conjI allI)
  show "length aes_sboxTable = 256" "length aes_encTable = 256" by (simp_all add: encTable_eq)
  show "sbox 0 = 0x63" by (simp add: sbox_def aes_sboxTable_def)
  show "list_all2 (\<lambda>x s. \<exists>y. gf_mul 8 x y = 1 \<and> s = affine y) (map word_of_nat [1..<256]) (tl aes_sboxTable)"
    using sbox_field by (rule list_all2_mono) (metis sbox_entry_def)
next
  fix b :: u8
  have "aes_encTable ! unat b = enc_word (sbox b)"
    using unat_less_width(1) [of b] by (simp add: encTable_eq sbox_def)
  then show "word_bytes (aes_encTable ! unat b) = [gf_mul 8 (sbox b) 2, sbox b, sbox b, gf_mul 8 (sbox b) 3]"
    by (simp add: word_bytes_enc gf_mul_8 xor.commute)
qed

end
