(* ===== verification/GF25519.thy ===== *)
theory GF25519
  imports Hc_Prelude
begin

text \<open>
  The ring of integers modulo \<open>2^255 - 19\<close>, the specification type of the field arithmetic in
  \<^verbatim>\<open>src/hc/core/hc/crypto/curve25519.c\<close>. It is an instance of the class of commutative rings, so the
  library's ring lemmas apply to it; the limb code is related to it in \<open>Curve25519\<close>.
\<close>

definition gf_p :: int where
  "gf_p = 2 ^ 255 - 19"

lemma gf_p_pos [simp]: "0 < gf_p" "1 < gf_p" "gf_p \<noteq> 0"
  by (simp_all add: gf_p_def)

typedef gf = "{0..<gf_p}"
  morphisms gf_rep gf_abs
  using gf_p_pos(1) by (intro exI [of _ 0]) simp

setup_lifting type_definition_gf

instantiation gf :: comm_ring_1
begin

lift_definition zero_gf :: gf is 0 by simp

lift_definition one_gf :: gf is 1 by simp

lift_definition plus_gf :: "gf \<Rightarrow> gf \<Rightarrow> gf" is "\<lambda>x y. (x + y) mod gf_p" by simp

lift_definition minus_gf :: "gf \<Rightarrow> gf \<Rightarrow> gf" is "\<lambda>x y. (x - y) mod gf_p" by simp

lift_definition uminus_gf :: "gf \<Rightarrow> gf" is "\<lambda>x. (- x) mod gf_p" by simp

lift_definition times_gf :: "gf \<Rightarrow> gf \<Rightarrow> gf" is "\<lambda>x y. x * y mod gf_p" by simp

instance
proof
  fix a b c :: gf
  show "a * b * c = a * (b * c)" by transfer (simp add: mod_simps mult.assoc)
  show "a * b = b * a" by transfer (simp add: mult.commute)
  show "1 * a = a" by transfer simp
  show "a + b + c = a + (b + c)" by transfer (simp add: mod_simps add.assoc)
  show "a + b = b + a" by transfer (simp add: add.commute)
  show "0 + a = a" by transfer simp
  show "- a + a = 0" by transfer (simp add: mod_simps)
  show "a - b = a + - b" by transfer (simp add: mod_simps)
  show "(a + b) * c = a * c + b * c" by transfer (simp add: mod_simps distrib_right)
  show "(0::gf) \<noteq> 1" by transfer simp
qed

end

instantiation gf :: equal
begin

definition equal_gf :: "gf \<Rightarrow> gf \<Rightarrow> bool" where
  "equal_gf a b \<longleftrightarrow> gf_rep a = gf_rep b"

instance
  by standard (simp add: equal_gf_def gf_rep_inject)

end

lemma gf_rep_of_nat: "gf_rep (of_nat n) = int n mod gf_p"
proof (induction n)
  case 0
  then show ?case by (simp add: zero_gf.rep_eq)
next
  case (Suc n)
  then show ?case by (simp add: plus_gf.rep_eq one_gf.rep_eq mod_simps add.commute)
qed

lemma gf_of_nat_eq_iff: "(of_nat m :: gf) = of_nat n \<longleftrightarrow> int m mod gf_p = int n mod gf_p"
  by (simp add: gf_rep_inject [symmetric] gf_rep_of_nat)

lemma gf_exp_255: "(2 :: gf) ^ 255 = 19"
proof -
  have "(of_nat (2 ^ 255) :: gf) = of_nat 19"
    unfolding gf_of_nat_eq_iff by (simp add: gf_p_def)
  then show ?thesis by simp
qed

lemma gf_rep_bounds: "0 \<le> gf_rep a" "gf_rep a < gf_p"
  using gf_rep [of a] by simp_all

lemma gf_of_nat_canonical: "int n < gf_p \<Longrightarrow> int n = gf_rep (of_nat n)"
  by (simp add: gf_rep_of_nat)

lemma gf_of_nat_mod: "(of_nat (x + (2 ^ 255 - 19) * k) :: gf) = of_nat x"
proof -
  have "int (x + (2 ^ 255 - 19) * k) = int x + gf_p * int k" by (simp add: gf_p_def)
  then show ?thesis unfolding gf_of_nat_eq_iff by (simp only: mod_mult_self2)
qed

end
