(* ===== verification/Curve25519.thy ===== *)
theory Curve25519
  imports GF25519 Limbs Block_Stream
begin

text \<open>
  \<^verbatim>\<open>src/hc/core/hc/crypto/curve25519.c\<close>: arithmetic modulo \<open>2^255 - 19\<close> on five limbs of 51 bits. A
  \<open>uint64_t [5]\<close> is a five-tuple; every operation reads limb \<open>i\<close> of its arguments before it writes
  limb \<open>i\<close> of its result and never afterwards, so results are returned by value also where the
  source passes the same array twice. Each operation refines the ring operation on \<open>gf\<close>, under
  bounds on the limbs that exclude overflow; the relation \<open>fe_rel\<close> carries both.
\<close>

type_synonym fe = "u64 \<times> u64 \<times> u64 \<times> u64 \<times> u64"

section \<open>The code\<close>

definition curve25519_zero :: fe where
  "curve25519_zero = (0, 0, 0, 0, 0)"

definition curve25519_load :: "bytes \<Rightarrow> fe" where
  "curve25519_load inp =
     (mem_loadU64 inp AND 0x7FFFFFFFFFFFF,
      drop_bit 3 (mem_loadU64 (drop 6 inp)) AND 0x7FFFFFFFFFFFF,
      drop_bit 6 (mem_loadU64 (drop 12 inp)) AND 0x7FFFFFFFFFFFF,
      drop_bit 1 (mem_loadU64 (drop 19 inp)) AND 0x7FFFFFFFFFFFF,
      drop_bit 12 (mem_loadU64 (drop 24 inp)) AND 0x7FFFFFFFFFFFF)"

definition curve25519_store :: "bytes \<Rightarrow> fe \<Rightarrow> bytes" where
  "curve25519_store out a =
     (case a of (a0, a1, a2, a3, a4) \<Rightarrow>
        let out = mem_storeU64 out 0 (a0 OR push_bit 51 a1);
            out = mem_storeU64 out 8 (drop_bit 13 a1 OR push_bit 38 a2);
            out = mem_storeU64 out 16 (drop_bit 26 a2 OR push_bit 25 a3);
            out = mem_storeU64 out 24 (drop_bit 39 a3 OR push_bit 12 a4)
        in out)"

text \<open>The carry pass that \<open>curve25519_reduce\<close> repeats three times.\<close>

definition curve25519_carryPass :: "fe \<Rightarrow> fe" where
  "curve25519_carryPass a =
     (case a of (a0, a1, a2, a3, a4) \<Rightarrow>
        let a1 = a1 + drop_bit 51 a0;
            a0 = a0 AND 0x7FFFFFFFFFFFF;
            a2 = a2 + drop_bit 51 a1;
            a1 = a1 AND 0x7FFFFFFFFFFFF;
            a3 = a3 + drop_bit 51 a2;
            a2 = a2 AND 0x7FFFFFFFFFFFF;
            a4 = a4 + drop_bit 51 a3;
            a3 = a3 AND 0x7FFFFFFFFFFFF;
            a0 = a0 + 19 * drop_bit 51 a4;
            a4 = a4 AND 0x7FFFFFFFFFFFF
        in (a0, a1, a2, a3, a4))"

definition curve25519_reduce :: "fe \<Rightarrow> fe" where
  "curve25519_reduce a =
     (let a = curve25519_carryPass a;
          a = curve25519_carryPass a;
          (a0, a1, a2, a3, a4) = a;
          a0 = a0 + 19;
          (a0, a1, a2, a3, a4) = curve25519_carryPass (a0, a1, a2, a3, a4);
          a0 = a0 + (0x8000000000000 - 19);
          a1 = a1 + (0x8000000000000 - 1);
          a2 = a2 + (0x8000000000000 - 1);
          a3 = a3 + (0x8000000000000 - 1);
          a4 = a4 + (0x8000000000000 - 1);
          a1 = a1 + drop_bit 51 a0;
          a2 = a2 + drop_bit 51 a1;
          a3 = a3 + drop_bit 51 a2;
          a4 = a4 + drop_bit 51 a3;
          a0 = a0 AND 0x7FFFFFFFFFFFF;
          a1 = a1 AND 0x7FFFFFFFFFFFF;
          a2 = a2 AND 0x7FFFFFFFFFFFF;
          a3 = a3 AND 0x7FFFFFFFFFFFF;
          a4 = a4 AND 0x7FFFFFFFFFFFF
      in (a0, a1, a2, a3, a4))"

definition curve25519_cSwap_limb :: "u64 \<Rightarrow> u64 \<Rightarrow> u64 \<Rightarrow> u64 \<times> u64" where
  "curve25519_cSwap_limb swap a b = (let x = swap AND (a XOR b) in (a XOR x, b XOR x))"

definition curve25519_cSwap :: "fe \<Rightarrow> fe \<Rightarrow> u64 \<Rightarrow> fe \<times> fe" where
  "curve25519_cSwap a b shouldSwap =
     (case (a, b) of ((a0, a1, a2, a3, a4), (b0, b1, b2, b3, b4)) \<Rightarrow>
        let swap = - shouldSwap;
            (a0, b0) = curve25519_cSwap_limb swap a0 b0;
            (a1, b1) = curve25519_cSwap_limb swap a1 b1;
            (a2, b2) = curve25519_cSwap_limb swap a2 b2;
            (a3, b3) = curve25519_cSwap_limb swap a3 b3;
            (a4, b4) = curve25519_cSwap_limb swap a4 b4
        in ((a0, a1, a2, a3, a4), (b0, b1, b2, b3, b4)))"

definition curve25519_add :: "fe \<Rightarrow> fe \<Rightarrow> fe" where
  "curve25519_add a b =
     (case (a, b) of ((a0, a1, a2, a3, a4), (b0, b1, b2, b3, b4)) \<Rightarrow>
        let out0 = a0 + b0;
            out1 = a1 + b1 + drop_bit 51 out0;
            out0 = out0 AND 0x7FFFFFFFFFFFF;
            out2 = a2 + b2 + drop_bit 51 out1;
            out1 = out1 AND 0x7FFFFFFFFFFFF;
            out3 = a3 + b3 + drop_bit 51 out2;
            out2 = out2 AND 0x7FFFFFFFFFFFF;
            out4 = a4 + b4 + drop_bit 51 out3;
            out3 = out3 AND 0x7FFFFFFFFFFFF;
            out0 = out0 + drop_bit 51 out4 * 19;
            out4 = out4 AND 0x7FFFFFFFFFFFF
        in (out0, out1, out2, out3, out4))"

definition curve25519_addNoReduce :: "fe \<Rightarrow> fe \<Rightarrow> fe" where
  "curve25519_addNoReduce a b =
     (case (a, b) of ((a0, a1, a2, a3, a4), (b0, b1, b2, b3, b4)) \<Rightarrow>
        (a0 + b0, a1 + b1, a2 + b2, a3 + b3, a4 + b4))"

definition curve25519_sub :: "fe \<Rightarrow> fe \<Rightarrow> fe" where
  "curve25519_sub a b =
     (case (a, b) of ((a0, a1, a2, a3, a4), (b0, b1, b2, b3, b4)) \<Rightarrow>
        let out0 = a0 + 0x0FFFFFFFFFFFDA - b0;
            out1 = a1 + 0x0FFFFFFFFFFFFE - b1 + drop_bit 51 out0;
            out0 = out0 AND 0x7FFFFFFFFFFFF;
            out2 = a2 + 0x0FFFFFFFFFFFFE - b2 + drop_bit 51 out1;
            out1 = out1 AND 0x7FFFFFFFFFFFF;
            out3 = a3 + 0x0FFFFFFFFFFFFE - b3 + drop_bit 51 out2;
            out2 = out2 AND 0x7FFFFFFFFFFFF;
            out4 = a4 + 0x0FFFFFFFFFFFFE - b4 + drop_bit 51 out3;
            out3 = out3 AND 0x7FFFFFFFFFFFF;
            out0 = out0 + drop_bit 51 out4 * 19;
            out4 = out4 AND 0x7FFFFFFFFFFFF
        in (out0, out1, out2, out3, out4))"

definition curve25519_subNoReduce :: "fe \<Rightarrow> fe \<Rightarrow> fe" where
  "curve25519_subNoReduce a b =
     (case (a, b) of ((a0, a1, a2, a3, a4), (b0, b1, b2, b3, b4)) \<Rightarrow>
        (a0 + 0x0FFFFFFFFFFFDA - b0, a1 + 0x0FFFFFFFFFFFFE - b1, a2 + 0x0FFFFFFFFFFFFE - b2,
         a3 + 0x0FFFFFFFFFFFFE - b3, a4 + 0x0FFFFFFFFFFFFE - b4))"

definition curve25519_subNoReduceFourP :: "fe \<Rightarrow> fe \<Rightarrow> fe" where
  "curve25519_subNoReduceFourP a b =
     (case (a, b) of ((a0, a1, a2, a3, a4), (b0, b1, b2, b3, b4)) \<Rightarrow>
        (a0 + 0x1FFFFFFFFFFFB4 - b0, a1 + 0x1FFFFFFFFFFFFC - b1, a2 + 0x1FFFFFFFFFFFFC - b2,
         a3 + 0x1FFFFFFFFFFFFC - b3, a4 + 0x1FFFFFFFFFFFFC - b4))"

definition curve25519_mulScalar :: "fe \<Rightarrow> u64 \<Rightarrow> fe" where
  "curve25519_mulScalar a scalar =
     (case a of (a0, a1, a2, a3, a4) \<Rightarrow>
        let x = mul128_64x64 a0 scalar;
            out0 = ucast x AND 0x7FFFFFFFFFFFF;
            x = mul128_64x64 a1 scalar + ucast (ucast (drop_bit 51 x) :: u64);
            out1 = ucast x AND 0x7FFFFFFFFFFFF;
            x = mul128_64x64 a2 scalar + ucast (ucast (drop_bit 51 x) :: u64);
            out2 = ucast x AND 0x7FFFFFFFFFFFF;
            x = mul128_64x64 a3 scalar + ucast (ucast (drop_bit 51 x) :: u64);
            out3 = ucast x AND 0x7FFFFFFFFFFFF;
            x = mul128_64x64 a4 scalar + ucast (ucast (drop_bit 51 x) :: u64);
            out4 = ucast x AND 0x7FFFFFFFFFFFF;
            out0 = out0 + ucast (drop_bit 51 x) * 19
        in (out0, out1, out2, out3, out4))"

text \<open>The carry chain that ends both \<open>curve25519_mul\<close> and each turn of \<open>curve25519_squareN\<close>.\<close>

definition curve25519_carryChain :: "u128 \<Rightarrow> u128 \<Rightarrow> u128 \<Rightarrow> u128 \<Rightarrow> u128 \<Rightarrow> fe" where
  "curve25519_carryChain t0 t1 t2 t3 t4 =
     (let r0 = ucast t0 AND 0x7FFFFFFFFFFFF;
          t1 = t1 + ucast (ucast (drop_bit 51 t0) :: u64);
          r1 = ucast t1 AND 0x7FFFFFFFFFFFF;
          t2 = t2 + ucast (ucast (drop_bit 51 t1) :: u64);
          r2 = ucast t2 AND 0x7FFFFFFFFFFFF;
          t3 = t3 + ucast (ucast (drop_bit 51 t2) :: u64);
          r3 = ucast t3 AND 0x7FFFFFFFFFFFF;
          t4 = t4 + ucast (ucast (drop_bit 51 t3) :: u64);
          r4 = ucast t4 AND 0x7FFFFFFFFFFFF;
          r0 = r0 + ucast (drop_bit 51 t4) * 19;
          r1 = r1 + drop_bit 51 r0;
          r0 = r0 AND 0x7FFFFFFFFFFFF
      in (r0, r1, r2, r3, r4))"

definition curve25519_mul :: "fe \<Rightarrow> fe \<Rightarrow> fe" where
  "curve25519_mul a b =
     (case (b, a) of ((r0, r1, r2, r3, r4), (s0, s1, s2, s3, s4)) \<Rightarrow>
        let t0 = mul128_64x64 r0 s0;
            t1 = mul128_64x64 r0 s1 + mul128_64x64 r1 s0;
            t2 = mul128_64x64 r0 s2 + mul128_64x64 r2 s0 + mul128_64x64 r1 s1;
            t3 = mul128_64x64 r0 s3 + mul128_64x64 r3 s0 + mul128_64x64 r1 s2 + mul128_64x64 r2 s1;
            t4 = mul128_64x64 r0 s4 + mul128_64x64 r4 s0 + mul128_64x64 r3 s1 + mul128_64x64 r1 s3 + mul128_64x64 r2 s2;
            r4 = r4 * 19;
            r1 = r1 * 19;
            r2 = r2 * 19;
            r3 = r3 * 19;
            t0 = t0 + (mul128_64x64 r4 s1 + mul128_64x64 r1 s4 + mul128_64x64 r2 s3 + mul128_64x64 r3 s2);
            t1 = t1 + (mul128_64x64 r4 s2 + mul128_64x64 r2 s4 + mul128_64x64 r3 s3);
            t2 = t2 + (mul128_64x64 r4 s3 + mul128_64x64 r3 s4);
            t3 = t3 + mul128_64x64 r4 s4
        in curve25519_carryChain t0 t1 t2 t3 t4)"

text \<open>One turn of the loop of \<open>curve25519_squareN\<close>.\<close>

definition curve25519_square :: "fe \<Rightarrow> fe" where
  "curve25519_square r =
     (case r of (r0, r1, r2, r3, r4) \<Rightarrow>
        let d0 = r0 * 2;
            d1 = r1 * 2;
            d2 = r2 * 2 * 19;
            d419 = r4 * 19;
            d4 = d419 * 2;
            t0 = mul128_64x64 r0 r0 + mul128_64x64 d4 r1 + mul128_64x64 d2 r3;
            t1 = mul128_64x64 d0 r1 + mul128_64x64 d4 r2 + mul128_64x64 r3 (r3 * 19);
            t2 = mul128_64x64 d0 r2 + mul128_64x64 r1 r1 + mul128_64x64 d4 r3;
            t3 = mul128_64x64 d0 r3 + mul128_64x64 d1 r2 + mul128_64x64 r4 d419;
            t4 = mul128_64x64 d0 r4 + mul128_64x64 d1 r3 + mul128_64x64 r2 r2
        in curve25519_carryChain t0 t1 t2 t3 t4)"

text \<open>
  \<open>do { ... } while (--n)\<close>: at least one turn, and \<open>n = 0\<close> wraps to \<open>2^64\<close> turns.
\<close>

lemma pred_less: "n \<noteq> 0 \<Longrightarrow> unat (n - 1) < unat n" for n :: u64
  using unat_minus_one [of n] unat_gt_0 [of n] by simp

function curve25519_squareN :: "fe \<Rightarrow> u64 \<Rightarrow> fe" where
  "curve25519_squareN a n =
     (let r = curve25519_square a; n' = n - 1
      in if n' = 0 then r else curve25519_squareN r n')"
  by pat_completeness auto
termination
proof (relation "measure (\<lambda>(a, n). unat (n - 1))")
  fix a r :: fe and n n' :: u64
  assume "n' = n - 1" "n' \<noteq> 0"
  then have "unat (n' - 1) < unat n'" by (intro pred_less)
  then show "((r, n'), a, n) \<in> measure (\<lambda>(a, n). unat (n - 1))" using \<open>n' = n - 1\<close> by simp
qed simp

declare curve25519_squareN.simps [simp del]

definition curve25519_pow11PowTwo250mtwo0 :: "fe \<Rightarrow> fe \<times> fe" where
  "curve25519_pow11PowTwo250mtwo0 z =
     (let a = curve25519_squareN z 1;
          t0 = curve25519_squareN a 2;
          b = curve25519_mul t0 z;
          a = curve25519_mul b a;
          t0 = curve25519_squareN a 1;
          b = curve25519_mul t0 b;
          t0 = curve25519_squareN b 5;
          b = curve25519_mul t0 b;
          t0 = curve25519_squareN b 10;
          c = curve25519_mul t0 b;
          t0 = curve25519_squareN c 20;
          t0 = curve25519_mul t0 c;
          t0 = curve25519_squareN t0 10;
          b = curve25519_mul t0 b;
          t0 = curve25519_squareN b 50;
          c = curve25519_mul t0 b;
          t0 = curve25519_squareN c 100;
          t0 = curve25519_mul t0 c;
          t0 = curve25519_squareN t0 50;
          b = curve25519_mul t0 b
      in (a, b))"

definition curve25519_invert :: "fe \<Rightarrow> fe" where
  "curve25519_invert z =
     (let (a, b) = curve25519_pow11PowTwo250mtwo0 z;
          b = curve25519_squareN b 5
      in curve25519_mul b a)"

definition curve25519_powTwo252m3 :: "fe \<Rightarrow> fe" where
  "curve25519_powTwo252m3 z =
     (let (a, b) = curve25519_pow11PowTwo250mtwo0 z;
          b = curve25519_squareN b 2
      in curve25519_mul b z)"

section \<open>Limbs, bounds and values\<close>

definition fe_nat :: "fe \<Rightarrow> nat" where
  "fe_nat a = (case a of (a0, a1, a2, a3, a4) \<Rightarrow>
     unat a0 + 2 ^ 51 * unat a1 + 2 ^ 102 * unat a2 + 2 ^ 153 * unat a3 + 2 ^ 204 * unat a4)"

definition fe_le :: "nat \<Rightarrow> fe \<Rightarrow> bool" where
  "fe_le m a = (case a of (a0, a1, a2, a3, a4) \<Rightarrow>
     unat a0 \<le> m \<and> unat a1 \<le> m \<and> unat a2 \<le> m \<and> unat a3 \<le> m \<and> unat a4 \<le> m)"

definition fe_val :: "fe \<Rightarrow> gf" where
  "fe_val a = of_nat (fe_nat a)"

definition fe_rel :: "nat \<Rightarrow> fe \<Rightarrow> gf \<Rightarrow> bool" where
  "fe_rel m a x \<longleftrightarrow> fe_le m a \<and> fe_val a = x"


lemma unat_and_51: "unat (x AND 0x7FFFFFFFFFFFF) = unat x mod 2 ^ 51" for x :: u64
proof -
  have "(0x7FFFFFFFFFFFF :: u64) = mask 51" by (simp add: mask_eq_exp_minus_1)
  then show ?thesis by (simp only: unat_and_mask)
qed

lemma fe_val_cong: "fe_nat a + (2 ^ 255 - 19) * k = n \<Longrightarrow> fe_val a = of_nat n"
  using gf_of_nat_mod [of "fe_nat a" k] by (simp only: fe_val_def)

lemma fe_rel_mono: "fe_rel m a x \<Longrightarrow> m \<le> n \<Longrightarrow> fe_rel n a x"
  by (auto simp: fe_rel_def fe_le_def)

lemma fe_carry_nat:
  fixes d0 d1 d2 d3 d4 :: nat
  defines "e1 \<equiv> d1 + d0 div 2 ^ 51"
  defines "e2 \<equiv> d2 + e1 div 2 ^ 51"
  defines "e3 \<equiv> d3 + e2 div 2 ^ 51"
  defines "e4 \<equiv> d4 + e3 div 2 ^ 51"
  shows "d0 mod 2 ^ 51 + e4 div 2 ^ 51 * 19 + 2 ^ 51 * (e1 mod 2 ^ 51) + 2 ^ 102 * (e2 mod 2 ^ 51) +
      2 ^ 153 * (e3 mod 2 ^ 51) + 2 ^ 204 * (e4 mod 2 ^ 51) + (2 ^ 255 - 19) * (e4 div 2 ^ 51) =
    d0 + 2 ^ 51 * d1 + 2 ^ 102 * d2 + 2 ^ 153 * d3 + 2 ^ 204 * d4"
proof -
  have "d0 = d0 mod 2 ^ 51 + 2 ^ 51 * (d0 div 2 ^ 51)" "e1 = e1 mod 2 ^ 51 + 2 ^ 51 * (e1 div 2 ^ 51)"
    "e2 = e2 mod 2 ^ 51 + 2 ^ 51 * (e2 div 2 ^ 51)" "e3 = e3 mod 2 ^ 51 + 2 ^ 51 * (e3 div 2 ^ 51)"
    "e4 = e4 mod 2 ^ 51 + 2 ^ 51 * (e4 div 2 ^ 51)"
    by (simp_all only: mod_mult_div_eq)
  moreover have "m0 + k4 * 19 + 2 ^ 51 * m1 + 2 ^ 102 * m2 + 2 ^ 153 * m3 + 2 ^ 204 * m4 + (2 ^ 255 - 19) * k4 =
      d0 + 2 ^ 51 * d1 + 2 ^ 102 * d2 + 2 ^ 153 * d3 + 2 ^ 204 * d4"
    if "d0 = m0 + 2 ^ 51 * k0" "e1 = m1 + 2 ^ 51 * k1" "e2 = m2 + 2 ^ 51 * k2" "e3 = m3 + 2 ^ 51 * k3" "e4 = m4 + 2 ^ 51 * k4"
      "e1 = d1 + k0" "e2 = d2 + k1" "e3 = d3 + k2" "e4 = d4 + k3" for m0 m1 m2 m3 m4 k0 k1 k2 k3 k4
    using that by simp
  ultimately show ?thesis unfolding e1_def e2_def e3_def e4_def by blast
qed

lemma carry_bound: "d \<le> c * 2 ^ 108 + 2 ^ 64 \<Longrightarrow> d div 2 ^ 51 \<le> c * 2 ^ 57 + 2 ^ 13" for c d :: nat
proof -
  assume "d \<le> c * 2 ^ 108 + 2 ^ 64"
  then have "d div 2 ^ 51 \<le> (2 ^ 51 * (c * 2 ^ 57 + 2 ^ 13)) div 2 ^ 51" by (intro div_le_mono) simp
  moreover have "2 ^ 51 * x div 2 ^ 51 = x" for x :: nat by simp
  ultimately show ?thesis by (simp only:)
qed

lemma carryChain_correct:
  assumes b: "unat t0 \<le> 77 * 2 ^ 108" "unat t1 \<le> 59 * 2 ^ 108" "unat t2 \<le> 41 * 2 ^ 108" "unat t3 \<le> 23 * 2 ^ 108" "unat t4 \<le> 5 * 2 ^ 108"
  shows "fe_rel (2 ^ 51 + 2 ^ 13) (curve25519_carryChain t0 t1 t2 t3 t4)
    (of_nat (unat t0 + 2 ^ 51 * unat t1 + 2 ^ 102 * unat t2 + 2 ^ 153 * unat t3 + 2 ^ 204 * unat t4))"
proof -
  define e1 where "e1 = t1 + ucast (ucast (drop_bit 51 t0) :: u64)"
  define e2 where "e2 = t2 + ucast (ucast (drop_bit 51 e1) :: u64)"
  define e3 where "e3 = t3 + ucast (ucast (drop_bit 51 e2) :: u64)"
  define e4 where "e4 = t4 + ucast (ucast (drop_bit 51 e3) :: u64)"
  define g0 where "g0 = (ucast t0 AND 0x7FFFFFFFFFFFF) + ucast (drop_bit 51 e4) * (19 :: u64)"
  have eq: "curve25519_carryChain t0 t1 t2 t3 t4 = (g0 AND 0x7FFFFFFFFFFFF, (ucast e1 AND 0x7FFFFFFFFFFFF) + drop_bit 51 g0,
      ucast e2 AND 0x7FFFFFFFFFFFF, ucast e3 AND 0x7FFFFFFFFFFFF, ucast e4 AND 0x7FFFFFFFFFFFF)"
    unfolding curve25519_carryChain_def Let_def e1_def e2_def e3_def e4_def g0_def ..
  have c0: "unat t0 div 2 ^ 51 \<le> 77 * 2 ^ 57 + 2 ^ 13" using b(1) by (intro carry_bound) simp
  have e1: "unat e1 = unat t1 + unat t0 div 2 ^ 51" unfolding e1_def using b(2) c0 by (intro carry128) simp_all
  have c1: "unat e1 div 2 ^ 51 \<le> 59 * 2 ^ 57 + 2 ^ 13" using b(2) c0 e1 by (intro carry_bound) simp
  have e2: "unat e2 = unat t2 + unat e1 div 2 ^ 51" unfolding e2_def using b(3) c1 by (intro carry128) simp_all
  have c2: "unat e2 div 2 ^ 51 \<le> 41 * 2 ^ 57 + 2 ^ 13" using b(3) c1 e2 by (intro carry_bound) simp
  have e3: "unat e3 = unat t3 + unat e2 div 2 ^ 51" unfolding e3_def using b(4) c2 by (intro carry128) simp_all
  have c3: "unat e3 div 2 ^ 51 \<le> 23 * 2 ^ 57 + 2 ^ 13" using b(4) c2 e3 by (intro carry_bound) simp
  have e4: "unat e4 = unat t4 + unat e3 div 2 ^ 51" unfolding e4_def using b(5) c3 by (intro carry128) simp_all
  have c4: "unat e4 div 2 ^ 51 \<le> 5 * 2 ^ 57 + 2 ^ 13" using b(5) c3 e4 by (intro carry_bound) simp
  have low: "unat (ucast t AND 0x7FFFFFFFFFFFF :: u64) = unat t mod 2 ^ 51" for t :: u128
    by (simp only: unat_and_51 unat_ucast_low)
  have m: "unat t mod 2 ^ 51 < 2 ^ 51" for t :: u128 by simp
  have g0: "unat g0 = unat t0 mod 2 ^ 51 + unat e4 div 2 ^ 51 * 19"
  proof -
    have "unat (ucast (drop_bit 51 e4) :: u64) = unat e4 div 2 ^ 51"
      using c4 by (subst unat_ucast_small) (simp_all add: unat_drop_bit)
    then have "unat (ucast (drop_bit 51 e4) * (19 :: u64)) = unat e4 div 2 ^ 51 * 19"
      using c4 by (subst unat_mult64) simp_all
    then show ?thesis unfolding g0_def using c4 m [of t0] low [of t0] by (subst unat_add64) simp_all
  qed
  have k: "unat g0 div 2 ^ 51 \<le> 2 ^ 13"
  proof -
    have "unat g0 < 2 ^ 64" using unat_less [of g0] by simp
    then have "unat g0 div 2 ^ 51 < 2 ^ 13" by (intro less_mult_imp_div_less) simp
    then show ?thesis by simp
  qed
  have r1: "unat ((ucast e1 AND 0x7FFFFFFFFFFFF) + drop_bit 51 g0) = unat e1 mod 2 ^ 51 + unat g0 div 2 ^ 51"
    using k m [of e1] low [of e1] by (subst unat_add64) (simp_all add: unat_drop_bit)
  have "fe_le (2 ^ 51 + 2 ^ 13) (curve25519_carryChain t0 t1 t2 t3 t4)"
    unfolding eq fe_le_def prod.case low r1 unfolding unat_and_51
    using k m [of e1] m [of e2] m [of e3] m [of e4] mod_less_divisor [of "2 ^ 51" "unat g0"] by auto
  moreover have "fe_val (curve25519_carryChain t0 t1 t2 t3 t4) =
      of_nat (unat t0 + 2 ^ 51 * unat t1 + 2 ^ 102 * unat t2 + 2 ^ 153 * unat t3 + 2 ^ 204 * unat t4)"
  proof (rule fe_val_cong)
    have "fe_nat (curve25519_carryChain t0 t1 t2 t3 t4) =
        unat g0 mod 2 ^ 51 + 2 ^ 51 * (unat e1 mod 2 ^ 51 + unat g0 div 2 ^ 51) + 2 ^ 102 * (unat e2 mod 2 ^ 51) +
        2 ^ 153 * (unat e3 mod 2 ^ 51) + 2 ^ 204 * (unat e4 mod 2 ^ 51)"
      unfolding eq fe_nat_def prod.case low r1 unfolding unat_and_51 ..
    also have "\<dots> = unat g0 + 2 ^ 51 * (unat e1 mod 2 ^ 51) + 2 ^ 102 * (unat e2 mod 2 ^ 51) +
        2 ^ 153 * (unat e3 mod 2 ^ 51) + 2 ^ 204 * (unat e4 mod 2 ^ 51)"
      using mod_mult_div_eq [of "unat g0" "2 ^ 51"] by (simp only: distrib_left)
    finally have nat: "fe_nat (curve25519_carryChain t0 t1 t2 t3 t4) = \<dots>" .
    show "fe_nat (curve25519_carryChain t0 t1 t2 t3 t4) + (2 ^ 255 - 19) * (unat e4 div 2 ^ 51) =
        unat t0 + 2 ^ 51 * unat t1 + 2 ^ 102 * unat t2 + 2 ^ 153 * unat t3 + 2 ^ 204 * unat t4"
      unfolding nat g0 e1 e2 e3 e4 by (rule fe_carry_nat)
  qed
  ultimately show ?thesis unfolding fe_rel_def by blast
qed

section \<open>Products\<close>

lemma mul128_of_nat: "mul128_64x64 a b = word_of_nat (unat a * unat b)"
  by (rule unat_eqI) (metis mul128_eq word_of_nat_unat)

lemma unat_of_nat_128: "n < 2 ^ 128 \<Longrightarrow> unat (word_of_nat n :: u128) = n"
  by (simp add: unat_of_nat)

lemma fe_product_nat:
  fixes a0 a1 a2 a3 a4 b0 b1 b2 b3 b4 :: nat
  shows "(a0 + 2 ^ 51 * a1 + 2 ^ 102 * a2 + 2 ^ 153 * a3 + 2 ^ 204 * a4) * (b0 + 2 ^ 51 * b1 + 2 ^ 102 * b2 + 2 ^ 153 * b3 + 2 ^ 204 * b4) =
    (b0 * a0 + (19 * b4 * a1 + 19 * b1 * a4 + 19 * b2 * a3 + 19 * b3 * a2)) +
    2 ^ 51 * (b0 * a1 + b1 * a0 + (19 * b4 * a2 + 19 * b2 * a4 + 19 * b3 * a3)) +
    2 ^ 102 * (b0 * a2 + b2 * a0 + b1 * a1 + (19 * b4 * a3 + 19 * b3 * a4)) +
    2 ^ 153 * (b0 * a3 + b3 * a0 + b1 * a2 + b2 * a1 + 19 * b4 * a4) +
    2 ^ 204 * (b0 * a4 + b4 * a0 + b3 * a1 + b1 * a3 + b2 * a2) +
    (2 ^ 255 - 19) * (a1 * b4 + a4 * b1 + a2 * b3 + a3 * b2 + 2 ^ 51 * (a2 * b4 + a4 * b2 + a3 * b3) +
      2 ^ 102 * (a3 * b4 + a4 * b3) + 2 ^ 153 * (a4 * b4))"
  by (simp add: algebra_simps)

lemma fe_relI: "fe_rel m r (of_nat t) \<Longrightarrow> x * y = t + (2 ^ 255 - 19) * k \<Longrightarrow> fe_rel m r (of_nat x * of_nat y)"
  using gf_of_nat_mod [of t k] by (simp only: of_nat_mult [symmetric])

lemma limb_product_le: "x \<le> 2 ^ 54 \<Longrightarrow> y \<le> 2 ^ 54 \<Longrightarrow> x * y \<le> 2 ^ 108" for x y :: nat
  using mult_le_mono [of x "2 ^ 54" y "2 ^ 54"] by simp

lemma mul_correct:
  assumes "fe_rel (2 ^ 54) a x" "fe_rel (2 ^ 54) b y"
  shows "fe_rel (2 ^ 51 + 2 ^ 13) (curve25519_mul a b) (x * y)"
proof -
  obtain s0 s1 s2 s3 s4 where a: "a = (s0, s1, s2, s3, s4)" by (metis prod.exhaust)
  obtain r0 r1 r2 r3 r4 where b: "b = (r0, r1, r2, r3, r4)" by (metis prod.exhaust)
  have sb: "unat s0 \<le> 2 ^ 54" "unat s1 \<le> 2 ^ 54" "unat s2 \<le> 2 ^ 54" "unat s3 \<le> 2 ^ 54" "unat s4 \<le> 2 ^ 54"
    and rb: "unat r0 \<le> 2 ^ 54" "unat r1 \<le> 2 ^ 54" "unat r2 \<le> 2 ^ 54" "unat r3 \<le> 2 ^ 54" "unat r4 \<le> 2 ^ 54"
    using assms unfolding a b fe_rel_def fe_le_def prod.case by blast+
  have n19: "unat (r * 19) = 19 * unat r" if "unat r \<le> 2 ^ 54" for r :: u64
    using that by (subst unat_mult64) simp_all
  note s = n19 [OF rb(1)] n19 [OF rb(2)] n19 [OF rb(3)] n19 [OF rb(4)] n19 [OF rb(5)]
  let ?T0 = "unat r0 * unat s0 + (19 * unat r4 * unat s1 + 19 * unat r1 * unat s4 + 19 * unat r2 * unat s3 + 19 * unat r3 * unat s2)"
    and ?T1 = "unat r0 * unat s1 + unat r1 * unat s0 + (19 * unat r4 * unat s2 + 19 * unat r2 * unat s4 + 19 * unat r3 * unat s3)"
    and ?T2 = "unat r0 * unat s2 + unat r2 * unat s0 + unat r1 * unat s1 + (19 * unat r4 * unat s3 + 19 * unat r3 * unat s4)"
    and ?T3 = "unat r0 * unat s3 + unat r3 * unat s0 + unat r1 * unat s2 + unat r2 * unat s1 + 19 * unat r4 * unat s4"
    and ?T4 = "unat r0 * unat s4 + unat r4 * unat s0 + unat r3 * unat s1 + unat r1 * unat s3 + unat r2 * unat s2"
  note p = limb_product_le
  have T: "?T0 \<le> 77 * 2 ^ 108" "?T1 \<le> 59 * 2 ^ 108" "?T2 \<le> 41 * 2 ^ 108" "?T3 \<le> 23 * 2 ^ 108" "?T4 \<le> 5 * 2 ^ 108"
    using p [OF rb(1) sb(1)] p [OF rb(5) sb(2)] p [OF rb(2) sb(5)] p [OF rb(3) sb(4)] p [OF rb(4) sb(3)]
      p [OF rb(1) sb(2)] p [OF rb(2) sb(1)] p [OF rb(5) sb(3)] p [OF rb(3) sb(5)] p [OF rb(4) sb(4)]
      p [OF rb(1) sb(3)] p [OF rb(3) sb(1)] p [OF rb(2) sb(2)] p [OF rb(5) sb(4)] p [OF rb(4) sb(5)]
      p [OF rb(1) sb(4)] p [OF rb(4) sb(1)] p [OF rb(2) sb(3)] p [OF rb(3) sb(2)] p [OF rb(5) sb(5)]
      p [OF rb(1) sb(5)] p [OF rb(5) sb(1)] p [OF rb(4) sb(2)] p [OF rb(2) sb(4)] p [OF rb(3) sb(3)]
    by (simp_all only: mult.assoc)
  have u: "unat (word_of_nat n :: u128) = n" if "n \<le> k * 2 ^ 108" "k \<le> 77" for n k
  proof -
    have "k * 2 ^ 108 \<le> 77 * 2 ^ 108" using that(2) by (rule mult_le_mono1)
    then show ?thesis using that(1) by (intro unat_of_nat_128) simp
  qed
  have ts: "unat (word_of_nat ?T0 :: u128) = ?T0" "unat (word_of_nat ?T1 :: u128) = ?T1" "unat (word_of_nat ?T2 :: u128) = ?T2"
    "unat (word_of_nat ?T3 :: u128) = ?T3" "unat (word_of_nat ?T4 :: u128) = ?T4"
    by (rule u, rule T, simp)+
  have "curve25519_mul a b = curve25519_carryChain (word_of_nat ?T0) (word_of_nat ?T1) (word_of_nat ?T2) (word_of_nat ?T3) (word_of_nat ?T4)"
    unfolding curve25519_mul_def a b prod.case Let_def mul128_of_nat s by (simp only: of_nat_add)
  then have "fe_rel (2 ^ 51 + 2 ^ 13) (curve25519_mul a b) (of_nat (?T0 + 2 ^ 51 * ?T1 + 2 ^ 102 * ?T2 + 2 ^ 153 * ?T3 + 2 ^ 204 * ?T4))"
    using carryChain_correct [of "word_of_nat ?T0" "word_of_nat ?T1" "word_of_nat ?T2" "word_of_nat ?T3" "word_of_nat ?T4"]
    unfolding ts using T by simp
  then have "fe_rel (2 ^ 51 + 2 ^ 13) (curve25519_mul a b) (of_nat (fe_nat a) * of_nat (fe_nat b))"
    by (rule fe_relI) (simp only: a b fe_nat_def prod.case fe_product_nat)
  then show ?thesis using assms unfolding fe_rel_def fe_val_def by simp
qed

lemma arg_cong5: "a = a' \<Longrightarrow> b = b' \<Longrightarrow> c = c' \<Longrightarrow> d = d' \<Longrightarrow> e = e' \<Longrightarrow>
  curve25519_carryChain (word_of_nat a) (word_of_nat b) (word_of_nat c) (word_of_nat d) (word_of_nat e) =
  curve25519_carryChain (word_of_nat a') (word_of_nat b') (word_of_nat c') (word_of_nat d') (word_of_nat e')"
  by simp

lemma square_eq_mul: "fe_le (2 ^ 54) a \<Longrightarrow> curve25519_square a = curve25519_mul a a"
proof -
  assume le: "fe_le (2 ^ 54) a"
  obtain r0 r1 r2 r3 r4 where a: "a = (r0, r1, r2, r3, r4)" by (metis prod.exhaust)
  have rb: "unat r0 \<le> 2 ^ 54" "unat r1 \<le> 2 ^ 54" "unat r2 \<le> 2 ^ 54" "unat r3 \<le> 2 ^ 54" "unat r4 \<le> 2 ^ 54"
    using le unfolding a fe_le_def prod.case by blast+
  have "unat (r * 19) = 19 * unat r" "unat (r * 2) = 2 * unat r" if "unat r \<le> 2 ^ 54" for r :: u64
    using that by (subst unat_mult64; simp)+
  note s = this(1) [OF rb(1)] this(1) [OF rb(2)] this(1) [OF rb(3)] this(1) [OF rb(4)] this(1) [OF rb(5)]
    this(2) [OF rb(1)] this(2) [OF rb(2)] this(2) [OF rb(3)] this(2) [OF rb(4)] this(2) [OF rb(5)]
  have d: "unat (r2 * 2 * 19) = 38 * unat r2" "unat (r4 * 19 * 2) = 38 * unat r4"
    using rb(3,5) s by (subst unat_mult64; simp)+
  let ?t = "\<lambda>n. word_of_nat n :: u128"
  have "curve25519_square a = curve25519_carryChain
      (?t (unat r0 * unat r0 + 38 * unat r4 * unat r1 + 38 * unat r2 * unat r3))
      (?t (2 * unat r0 * unat r1 + 38 * unat r4 * unat r2 + unat r3 * (19 * unat r3)))
      (?t (2 * unat r0 * unat r2 + unat r1 * unat r1 + 38 * unat r4 * unat r3))
      (?t (2 * unat r0 * unat r3 + 2 * unat r1 * unat r2 + unat r4 * (19 * unat r4)))
      (?t (2 * unat r0 * unat r4 + 2 * unat r1 * unat r3 + unat r2 * unat r2))"
    unfolding curve25519_square_def a prod.case Let_def mul128_of_nat s d by (simp only: of_nat_add)
  also have "\<dots> = curve25519_mul a a"
    unfolding curve25519_mul_def a prod.case Let_def mul128_of_nat s of_nat_add [symmetric]
    by (intro arg_cong5) (simp_all add: algebra_simps)
  finally show ?thesis .
qed

lemma square_correct:
  assumes "fe_rel (2 ^ 54) a x"
  shows "fe_rel (2 ^ 51 + 2 ^ 13) (curve25519_square a) (x ^ 2)"
  using mul_correct [OF assms assms] assms by (simp add: square_eq_mul fe_rel_def power2_eq_square)

lemma squareN_steps:
  assumes "fe_rel (2 ^ 54) a x" "unat n = Suc k"
  shows "fe_rel (2 ^ 51 + 2 ^ 13) (curve25519_squareN a n) (x ^ 2 ^ Suc k)"
  using assms
proof (induction k arbitrary: a x n)
  case 0
  then have "n = 1" by (intro unat_eqI) simp
  then show ?case using square_correct [OF 0(1)] by (subst curve25519_squareN.simps) simp
next
  case (Suc k)
  have n: "unat (n - 1) = Suc k" using Suc.prems(2) by (subst unat_minus_one) auto
  then have "n - 1 \<noteq> 0" by auto
  then have "curve25519_squareN a n = curve25519_squareN (curve25519_square a) (n - 1)"
    by (subst curve25519_squareN.simps) (simp add: Let_def)
  moreover have "fe_rel (2 ^ 54) (curve25519_square a) (x ^ 2)"
    using square_correct [OF Suc.prems(1)] by (rule fe_rel_mono) simp
  ultimately show ?case
    using Suc.IH [OF _ n, of "curve25519_square a" "x ^ 2"] by (simp add: power_mult [symmetric])
qed

lemma squareN_correct:
  "fe_rel (2 ^ 54) a x \<Longrightarrow> n \<noteq> 0 \<Longrightarrow> fe_rel (2 ^ 51 + 2 ^ 13) (curve25519_squareN a n) (x ^ 2 ^ unat n)"
  using squareN_steps [of a x n "unat n - 1"] unat_gt_0 [of n] by simp

section \<open>Sums and differences\<close>

lemma addNoReduce_nat:
  assumes "fe_le m a" "fe_le n b" "m + n < 2 ^ 64"
  shows "fe_nat (curve25519_addNoReduce a b) = fe_nat a + fe_nat b" "fe_le (m + n) (curve25519_addNoReduce a b)"
proof -
  obtain a0 a1 a2 a3 a4 where a: "a = (a0, a1, a2, a3, a4)" by (metis prod.exhaust)
  obtain b0 b1 b2 b3 b4 where b: "b = (b0, b1, b2, b3, b4)" by (metis prod.exhaust)
  have add: "unat (u + v) = unat u + unat v" if "unat u \<le> m" "unat v \<le> n" for u v :: u64
    using that assms(3) by (intro unat_add64) simp
  have s: "unat (a0 + b0) = unat a0 + unat b0" "unat (a1 + b1) = unat a1 + unat b1" "unat (a2 + b2) = unat a2 + unat b2"
    "unat (a3 + b3) = unat a3 + unat b3" "unat (a4 + b4) = unat a4 + unat b4"
    using assms(1,2) by (simp_all add: add a b fe_le_def)
  show "fe_nat (curve25519_addNoReduce a b) = fe_nat a + fe_nat b"
    unfolding a b fe_nat_def curve25519_addNoReduce_def prod.case s by simp
  show "fe_le (m + n) (curve25519_addNoReduce a b)"
    using assms(1,2) unfolding a b fe_le_def curve25519_addNoReduce_def prod.case s by auto
qed

lemma addNoReduce_correct:
  assumes "fe_rel m a x" "fe_rel n b y" "m + n < 2 ^ 64"
  shows "fe_rel (m + n) (curve25519_addNoReduce a b) (x + y)"
  using addNoReduce_nat [of m a n b] assms by (simp add: fe_rel_def fe_val_def)

lemma limb_sum_eq:
  fixes r0 r1 r2 r3 r4 :: nat
  assumes "r0 + b0 = a0 + c0" "r1 + b1 = a1 + c1" "r2 + b2 = a2 + c2" "r3 + b3 = a3 + c3" "r4 + b4 = a4 + c4"
  shows "r0 + 2 ^ 51 * r1 + 2 ^ 102 * r2 + 2 ^ 153 * r3 + 2 ^ 204 * r4 +
      (b0 + 2 ^ 51 * b1 + 2 ^ 102 * b2 + 2 ^ 153 * b3 + 2 ^ 204 * b4) =
    a0 + 2 ^ 51 * a1 + 2 ^ 102 * a2 + 2 ^ 153 * a3 + 2 ^ 204 * a4 +
      (c0 + 2 ^ 51 * c1 + 2 ^ 102 * c2 + 2 ^ 153 * c3 + 2 ^ 204 * c4)"
  using assms by simp

lemma sub_limbs:
  fixes c0 c :: u64
  assumes "fe_rel m a x" "fe_rel n b y" "n \<le> unat c0" "n \<le> unat c" "m + unat c0 < 2 ^ 64" "m + unat c < 2 ^ 64"
    and p: "unat c0 + 2 ^ 51 * unat c + 2 ^ 102 * unat c + 2 ^ 153 * unat c + 2 ^ 204 * unat c = (2 ^ 255 - 19) * k"
  shows "case (a, b) of ((a0, a1, a2, a3, a4), (b0, b1, b2, b3, b4)) \<Rightarrow>
    fe_rel (m + max (unat c0) (unat c)) (a0 + c0 - b0, a1 + c - b1, a2 + c - b2, a3 + c - b3, a4 + c - b4) (x - y)"
proof -
  obtain a0 a1 a2 a3 a4 where a: "a = (a0, a1, a2, a3, a4)" by (metis prod.exhaust)
  obtain b0 b1 b2 b3 b4 where b: "b = (b0, b1, b2, b3, b4)" by (metis prod.exhaust)
  have ab: "unat a0 \<le> m" "unat a1 \<le> m" "unat a2 \<le> m" "unat a3 \<le> m" "unat a4 \<le> m"
    and bb: "unat b0 \<le> n" "unat b1 \<le> n" "unat b2 \<le> n" "unat b3 \<le> n" "unat b4 \<le> n"
    using assms(1,2) by (simp_all add: fe_rel_def fe_le_def a b)
  have sub: "unat (u + d - v) + unat v = unat u + unat d" "unat (u + d - v) \<le> m + max (unat c0) (unat c)"
    if "unat u \<le> m" "unat v \<le> n" "n \<le> unat d" "m + unat d < 2 ^ 64" "unat d \<le> max (unat c0) (unat c)" for u v d :: u64
  proof -
    have s: "unat (u + d) = unat u + unat d" using that by (intro unat_add64) simp
    then have "v \<le> u + d" using that by (simp add: word_le_nat_alt)
    then show "unat (u + d - v) + unat v = unat u + unat d" using s that by (simp add: unat_sub)
    then show "unat (u + d - v) \<le> m + max (unat c0) (unat c)" using that by linarith
  qed
  note s0 = sub [OF ab(1) bb(1) assms(3,5) max.cobounded1] and s1 = sub [OF ab(2) bb(2) assms(4,6) max.cobounded2]
    and s2 = sub [OF ab(3) bb(3) assms(4,6) max.cobounded2] and s3 = sub [OF ab(4) bb(4) assms(4,6) max.cobounded2]
    and s4 = sub [OF ab(5) bb(5) assms(4,6) max.cobounded2]
  let ?r = "(a0 + c0 - b0, a1 + c - b1, a2 + c - b2, a3 + c - b3, a4 + c - b4)"
  have "fe_nat ?r + fe_nat b = fe_nat a + (2 ^ 255 - 19) * k"
    unfolding p [symmetric] a b fe_nat_def prod.case using s0(1) s1(1) s2(1) s3(1) s4(1) by (rule limb_sum_eq)
  then have "(of_nat (fe_nat ?r + fe_nat b) :: gf) = of_nat (fe_nat a)" by (simp only: gf_of_nat_mod)
  then have "fe_val ?r + y = x" using assms(1,2) by (simp add: fe_rel_def fe_val_def)
  then have "fe_val ?r = x - y" by (simp add: eq_diff_eq)
  then show ?thesis unfolding a b prod.case fe_rel_def fe_le_def using s0(2) s1(2) s2(2) s3(2) s4(2) by blast
qed

lemma subNoReduce_correct:
  assumes "fe_rel m a x" "fe_rel n b y" "n \<le> 2 ^ 52 - 38" "m \<le> 2 ^ 63"
  shows "fe_rel (m + 2 ^ 52) (curve25519_subNoReduce a b) (x - y)"
proof (rule fe_rel_mono)
  show "fe_rel (m + max (unat (0x0FFFFFFFFFFFDA :: u64)) (unat (0x0FFFFFFFFFFFFE :: u64))) (curve25519_subNoReduce a b) (x - y)"
    using sub_limbs [OF assms(1,2), of "0x0FFFFFFFFFFFDA" "0x0FFFFFFFFFFFFE" 2] assms(3,4)
    unfolding curve25519_subNoReduce_def by (auto split: prod.splits)
qed simp

lemma subNoReduceFourP_correct:
  assumes "fe_rel m a x" "fe_rel n b y" "n \<le> 2 ^ 53 - 76" "m \<le> 2 ^ 63"
  shows "fe_rel (m + 2 ^ 53) (curve25519_subNoReduceFourP a b) (x - y)"
proof (rule fe_rel_mono)
  show "fe_rel (m + max (unat (0x1FFFFFFFFFFFB4 :: u64)) (unat (0x1FFFFFFFFFFFFC :: u64))) (curve25519_subNoReduceFourP a b) (x - y)"
    using sub_limbs [OF assms(1,2), of "0x1FFFFFFFFFFFB4" "0x1FFFFFFFFFFFFC" 4] assms(3,4)
    unfolding curve25519_subNoReduceFourP_def by (auto split: prod.splits)
qed simp

section \<open>Carry passes\<close>

lemma add_is_carryPass: "curve25519_add a b = curve25519_carryPass (curve25519_addNoReduce a b)"
  by (simp add: curve25519_add_def curve25519_carryPass_def curve25519_addNoReduce_def Let_def mult.commute split: prod.splits)

lemma sub_is_carryPass: "curve25519_sub a b = curve25519_carryPass (curve25519_subNoReduce a b)"
  by (simp add: curve25519_sub_def curve25519_carryPass_def curve25519_subNoReduce_def Let_def mult.commute split: prod.splits)

text \<open>The limbs of a carried number, as naturals: the last component is the carry out of the top limb.\<close>

definition carried :: "nat \<times> nat \<times> nat \<times> nat \<times> nat \<Rightarrow> nat \<times> nat \<times> nat \<times> nat \<times> nat \<times> nat" where
  "carried d = (case d of (d0, d1, d2, d3, d4) \<Rightarrow>
     let e1 = d1 + d0 div 2 ^ 51; e2 = d2 + e1 div 2 ^ 51; e3 = d3 + e2 div 2 ^ 51; e4 = d4 + e3 div 2 ^ 51
     in (d0 mod 2 ^ 51, e1 mod 2 ^ 51, e2 mod 2 ^ 51, e3 mod 2 ^ 51, e4 mod 2 ^ 51, e4 div 2 ^ 51))"

lemma carried_value:
  assumes "carried (d0, d1, d2, d3, d4) = (l0, l1, l2, l3, l4, q)"
  defines "V \<equiv> d0 + 2 ^ 51 * d1 + 2 ^ 102 * d2 + 2 ^ 153 * d3 + 2 ^ 204 * d4"
    and "L \<equiv> l0 + 2 ^ 51 * l1 + 2 ^ 102 * l2 + 2 ^ 153 * l3 + 2 ^ 204 * l4"
  shows "q = V div 2 ^ 255" "L = V mod 2 ^ 255" "l0 < 2 ^ 51" "l1 < 2 ^ 51" "l2 < 2 ^ 51" "l3 < 2 ^ 51" "l4 < 2 ^ 51"
proof -
  define e1 where "e1 = d1 + d0 div 2 ^ 51"
  define e2 where "e2 = d2 + e1 div 2 ^ 51"
  define e3 where "e3 = d3 + e2 div 2 ^ 51"
  define e4 where "e4 = d4 + e3 div 2 ^ 51"
  have l: "l0 = d0 mod 2 ^ 51" "l1 = e1 mod 2 ^ 51" "l2 = e2 mod 2 ^ 51" "l3 = e3 mod 2 ^ 51" "l4 = e4 mod 2 ^ 51" "q = e4 div 2 ^ 51"
    using assms(1) unfolding carried_def prod.case Let_def e1_def e2_def e3_def e4_def by simp_all
  show b: "l0 < 2 ^ 51" "l1 < 2 ^ 51" "l2 < 2 ^ 51" "l3 < 2 ^ 51" "l4 < 2 ^ 51" unfolding l by simp_all
  have "l0 + q * 19 + 2 ^ 51 * l1 + 2 ^ 102 * l2 + 2 ^ 153 * l3 + 2 ^ 204 * l4 + (2 ^ 255 - 19) * q = V"
    unfolding V_def l e4_def e3_def e2_def e1_def by (rule fe_carry_nat)
  then have "V = L + 2 ^ 255 * q" unfolding L_def by simp
  moreover have "L < 2 ^ 255" using b unfolding L_def by simp
  ultimately show "q = V div 2 ^ 255" "L = V mod 2 ^ 255" by simp_all
qed

definition fe_limbs :: "fe \<Rightarrow> nat \<times> nat \<times> nat \<times> nat \<times> nat" where
  "fe_limbs a = (case a of (a0, a1, a2, a3, a4) \<Rightarrow> (unat a0, unat a1, unat a2, unat a3, unat a4))"

lemma div_51: "x < 2 ^ 64 \<Longrightarrow> x div 2 ^ 51 < 2 ^ 13" for x :: nat
  by (intro less_mult_imp_div_less) simp

lemma carry_words:
  assumes "fe_le (2 ^ 63) (a0, a1, a2, a3, a4)"
  defines "e1 \<equiv> a1 + drop_bit 51 a0"
  defines "e2 \<equiv> a2 + drop_bit 51 e1"
  defines "e3 \<equiv> a3 + drop_bit 51 e2"
  defines "e4 \<equiv> a4 + drop_bit 51 e3"
  shows "carried (fe_limbs (a0, a1, a2, a3, a4)) =
    (unat (a0 AND 0x7FFFFFFFFFFFF), unat (e1 AND 0x7FFFFFFFFFFFF), unat (e2 AND 0x7FFFFFFFFFFFF), unat (e3 AND 0x7FFFFFFFFFFFF),
     unat (e4 AND 0x7FFFFFFFFFFFF), unat (drop_bit 51 e4))"
proof -
  have carry: "unat (x + drop_bit 51 y) = unat x + unat y div 2 ^ 51" if "unat x \<le> 2 ^ 63" for x y :: u64
    using that div_51 [of "unat y"] unat_less [of y] by (subst unat_add64) (simp_all add: unat_drop_bit)
  have e: "unat e1 = unat a1 + unat a0 div 2 ^ 51" "unat e2 = unat a2 + unat e1 div 2 ^ 51"
    "unat e3 = unat a3 + unat e2 div 2 ^ 51" "unat e4 = unat a4 + unat e3 div 2 ^ 51"
    using assms(1) unfolding fe_le_def prod.case e1_def e2_def e3_def e4_def by (blast intro: carry)+
  show ?thesis unfolding carried_def fe_limbs_def prod.case Let_def unat_and_51 unat_drop_bit e ..
qed

lemma carryPass_limbs:
  assumes "fe_le (2 ^ 63) a" "carried (fe_limbs a) = (l0, l1, l2, l3, l4, q)"
  shows "fe_limbs (curve25519_carryPass a) = (l0 + 19 * q, l1, l2, l3, l4)" "q \<le> 2 ^ 13"
proof -
  obtain a0 a1 a2 a3 a4 where a: "a = (a0, a1, a2, a3, a4)" by (metis prod.exhaust)
  define e1 where "e1 = a1 + drop_bit 51 a0"
  define e2 where "e2 = a2 + drop_bit 51 e1"
  define e3 where "e3 = a3 + drop_bit 51 e2"
  define e4 where "e4 = a4 + drop_bit 51 e3"
  have l: "l0 = unat (a0 AND 0x7FFFFFFFFFFFF)" "l1 = unat (e1 AND 0x7FFFFFFFFFFFF)" "l2 = unat (e2 AND 0x7FFFFFFFFFFFF)"
    "l3 = unat (e3 AND 0x7FFFFFFFFFFFF)" "l4 = unat (e4 AND 0x7FFFFFFFFFFFF)" "q = unat (drop_bit 51 e4)"
    using carry_words [OF assms(1) [unfolded a]] assms(2) unfolding a e1_def e2_def e3_def e4_def by simp_all
  have q: "unat (drop_bit 51 e4) \<le> 2 ^ 13"
    using div_51 [of "unat e4"] unat_less [of e4] by (simp add: unat_drop_bit)
  then show "q \<le> 2 ^ 13" using l by simp
  have "unat ((a0 AND 0x7FFFFFFFFFFFF) + 19 * drop_bit 51 e4) = l0 + 19 * q"
  proof -
    have "unat (19 * drop_bit 51 e4) = 19 * q" using q l(6) by (subst unat_mult64) simp_all
    moreover have "l0 < 2 ^ 51" unfolding l unat_and_51 by simp
    ultimately show ?thesis using l(1) \<open>q \<le> 2 ^ 13\<close> by (subst unat_add64) simp_all
  qed
  then show "fe_limbs (curve25519_carryPass a) = (l0 + 19 * q, l1, l2, l3, l4)"
    unfolding a curve25519_carryPass_def prod.case Let_def e1_def [symmetric] e2_def [symmetric] e3_def [symmetric] e4_def [symmetric]
    unfolding fe_limbs_def prod.case l by simp
qed

lemma fe_limbs_nat: "fe_limbs a = (l0, l1, l2, l3, l4) \<Longrightarrow> fe_nat a = l0 + 2 ^ 51 * l1 + 2 ^ 102 * l2 + 2 ^ 153 * l3 + 2 ^ 204 * l4"
  by (cases a) (auto simp: fe_limbs_def fe_nat_def)

lemma fe_limbs_le: "fe_limbs a = (l0, l1, l2, l3, l4) \<Longrightarrow> fe_le m a \<longleftrightarrow> l0 \<le> m \<and> l1 \<le> m \<and> l2 \<le> m \<and> l3 \<le> m \<and> l4 \<le> m"
  by (cases a) (auto simp: fe_limbs_def fe_le_def)

lemma carryPass_value:
  assumes "fe_le (2 ^ 63) a"
  defines "V \<equiv> fe_nat a"
  shows "fe_nat (curve25519_carryPass a) = V mod 2 ^ 255 + 19 * (V div 2 ^ 255)"
    "fe_le (2 ^ 51 + 19 * 2 ^ 13) (curve25519_carryPass a)"
    "V < 2 ^ 255 + 2 ^ 20 \<Longrightarrow> fe_le (2 ^ 51 - 1) (curve25519_carryPass a)"
proof -
  obtain d0 d1 d2 d3 d4 where d: "fe_limbs a = (d0, d1, d2, d3, d4)" by (metis prod.exhaust)
  obtain l0 l1 l2 l3 l4 q where l: "carried (fe_limbs a) = (l0, l1, l2, l3, l4, q)" by (metis prod.exhaust)
  note r = carryPass_limbs [OF assms(1) l]
  note v = carried_value [OF l [unfolded d], folded fe_limbs_nat [OF d], folded V_def]
  show "fe_nat (curve25519_carryPass a) = V mod 2 ^ 255 + 19 * (V div 2 ^ 255)"
    unfolding fe_limbs_nat [OF r(1)] v(1,2) [symmetric] by simp
  show "fe_le (2 ^ 51 + 19 * 2 ^ 13) (curve25519_carryPass a)"
    unfolding fe_limbs_le [OF r(1)] using r(2) v(3-7) by simp
  show "fe_le (2 ^ 51 - 1) (curve25519_carryPass a)" if V: "V < 2 ^ 255 + 2 ^ 20"
  proof -
    have "l0 + 19 * q < 2 ^ 51"
    proof (cases "V < 2 ^ 255")
      case True
      then show ?thesis using v(1,3) by simp
    next
      case False
      then have "V mod 2 ^ 255 = V - 2 ^ 255" "q = 1" using V v(1)
        by (simp_all add: le_mod_geq le_div_geq)
      then show ?thesis using V v(2) by simp
    qed
    then show ?thesis unfolding fe_limbs_le [OF r(1)] using v(4-7) by simp
  qed
qed

lemma carryPass_correct:
  assumes "fe_rel (2 ^ 63) a x"
  shows "fe_rel (2 ^ 51 + 19 * 2 ^ 13) (curve25519_carryPass a) x"
proof -
  have le: "fe_le (2 ^ 63) a" and x: "x = of_nat (fe_nat a)" using assms by (auto simp: fe_rel_def fe_val_def)
  have "fe_val (curve25519_carryPass a) = of_nat (fe_nat a)"
  proof (rule fe_val_cong)
    have "19 * q + (2 ^ 255 - 19) * q = 2 ^ 255 * q" for q :: nat by simp
    then show "fe_nat (curve25519_carryPass a) + (2 ^ 255 - 19) * (fe_nat a div 2 ^ 255) = fe_nat a"
      unfolding carryPass_value(1) [OF le] add.assoc by (simp only: mod_mult_div_eq)
  qed
  then show ?thesis using carryPass_value(2) [OF le] x by (simp only: fe_rel_def)
qed

lemma add_correct:
  assumes "fe_rel m a x" "fe_rel n b y" "m + n \<le> 2 ^ 63"
  shows "fe_rel (2 ^ 51 + 19 * 2 ^ 13) (curve25519_add a b) (x + y)"
  unfolding add_is_carryPass
  by (intro carryPass_correct fe_rel_mono [OF addNoReduce_correct [OF assms(1,2)]]) (use assms(3) in simp_all)

lemma sub_correct:
  assumes "fe_rel m a x" "fe_rel n b y" "n \<le> 2 ^ 52 - 38" "m \<le> 2 ^ 62"
  shows "fe_rel (2 ^ 51 + 19 * 2 ^ 13) (curve25519_sub a b) (x - y)"
  unfolding sub_is_carryPass
  by (intro carryPass_correct fe_rel_mono [OF subNoReduce_correct [OF assms(1-3)]]) (use assms(4) in simp_all)

section \<open>Full reduction\<close>

text \<open>The last step of \<open>curve25519_reduce\<close>: carry without wrapping round, and drop the top bit.\<close>

definition carry_mask :: "fe \<Rightarrow> fe" where
  "carry_mask a = (case a of (a0, a1, a2, a3, a4) \<Rightarrow>
     let a1 = a1 + drop_bit 51 a0; a2 = a2 + drop_bit 51 a1; a3 = a3 + drop_bit 51 a2; a4 = a4 + drop_bit 51 a3
     in (a0 AND 0x7FFFFFFFFFFFF, a1 AND 0x7FFFFFFFFFFFF, a2 AND 0x7FFFFFFFFFFFF, a3 AND 0x7FFFFFFFFFFFF, a4 AND 0x7FFFFFFFFFFFF))"

lemma carry_mask_value:
  assumes "fe_le (2 ^ 63) a"
  shows "fe_nat (carry_mask a) = fe_nat a mod 2 ^ 255" "fe_le (2 ^ 51 - 1) (carry_mask a)"
proof -
  obtain a0 a1 a2 a3 a4 where a: "a = (a0, a1, a2, a3, a4)" by (metis prod.exhaust)
  define e1 where "e1 = a1 + drop_bit 51 a0"
  define e2 where "e2 = a2 + drop_bit 51 e1"
  define e3 where "e3 = a3 + drop_bit 51 e2"
  define e4 where "e4 = a4 + drop_bit 51 e3"
  note c = carry_words [OF assms(1) [unfolded a], folded e1_def, folded e2_def, folded e3_def, folded e4_def, unfolded fe_limbs_def prod.case]
  have m: "carry_mask a = (a0 AND 0x7FFFFFFFFFFFF, e1 AND 0x7FFFFFFFFFFFF, e2 AND 0x7FFFFFFFFFFFF, e3 AND 0x7FFFFFFFFFFFF, e4 AND 0x7FFFFFFFFFFFF)"
    unfolding a carry_mask_def prod.case Let_def e1_def e2_def e3_def e4_def ..
  note v = carried_value [OF c]
  show "fe_nat (carry_mask a) = fe_nat a mod 2 ^ 255"
    unfolding m unfolding fe_nat_def a prod.case by (rule v(2))
  have "x \<le> 2 ^ 51 - 1" if "x < 2 ^ 51" for x :: nat using that by simp
  then show "fe_le (2 ^ 51 - 1) (carry_mask a)"
    unfolding m fe_le_def prod.case using v(3-7) by blast
qed

lemma reduce_eq:
  "curve25519_reduce a =
    carry_mask (curve25519_addNoReduce
      (curve25519_carryPass (curve25519_addNoReduce (curve25519_carryPass (curve25519_carryPass a)) (19, 0, 0, 0, 0)))
      (0x7FFFFFFFFFFED, 0x7FFFFFFFFFFFF, 0x7FFFFFFFFFFFF, 0x7FFFFFFFFFFFF, 0x7FFFFFFFFFFFF))"
  by (simp add: curve25519_reduce_def carry_mask_def curve25519_addNoReduce_def Let_def split: prod.splits)

lemma wrap_once:
  fixes V :: nat
  assumes "V < 2 ^ 255 + 2 ^ 20"
  shows "V mod 2 ^ 255 + 19 * (V div 2 ^ 255) = (if V < 2 ^ 255 then V else V - (2 ^ 255 - 19))"
  using assms by (auto simp: le_mod_geq le_div_geq)

lemma fe_nat_less: "fe_le (2 ^ 51 - 1) a \<Longrightarrow> fe_nat a < 2 ^ 255"
  by (cases a) (simp add: fe_le_def fe_nat_def)

lemma fe_le_mono: "fe_le m a \<Longrightarrow> m \<le> n \<Longrightarrow> fe_le n a"
  by (auto simp: fe_le_def)

lemma carryPass_small: "fe_le (2 ^ 63) a \<Longrightarrow> fe_nat (curve25519_carryPass a) < 2 ^ 255 + 2 ^ 20"
proof -
  assume "fe_le (2 ^ 63) a"
  obtain l0 l1 l2 l3 l4 q where l: "carried (fe_limbs a) = (l0, l1, l2, l3, l4, q)" by (metis prod.exhaust)
  obtain d0 d1 d2 d3 d4 where d: "fe_limbs a = (d0, d1, d2, d3, d4)" by (metis prod.exhaust)
  note r = carryPass_limbs [OF \<open>fe_le (2 ^ 63) a\<close> l] and v = carried_value(3-7) [OF l [unfolded d]]
  show ?thesis unfolding fe_limbs_nat [OF r(1)] using r(2) v by simp
qed

lemma carryPass_mod: "fe_le (2 ^ 63) a \<Longrightarrow> fe_nat (curve25519_carryPass a) mod (2 ^ 255 - 19) = fe_nat a mod (2 ^ 255 - 19)"
proof -
  assume "fe_le (2 ^ 63) a"
  moreover have "19 * q + (2 ^ 255 - 19) * q = 2 ^ 255 * q" for q :: nat by simp
  ultimately have "fe_nat (curve25519_carryPass a) + (2 ^ 255 - 19) * (fe_nat a div 2 ^ 255) = fe_nat a"
    by (simp only: carryPass_value(1) add.assoc mod_mult_div_eq)
  then show ?thesis by (metis mod_mult_self2)
qed

lemma carryPass_once:
  assumes "fe_le (2 ^ 63) a" "fe_nat a < 2 ^ 255 + 2 ^ 20"
  shows "fe_nat (curve25519_carryPass a) = (if fe_nat a < 2 ^ 255 then fe_nat a else fe_nat a - (2 ^ 255 - 19))"
    "fe_le (2 ^ 51 - 1) (curve25519_carryPass a)"
  unfolding carryPass_value(1) [OF assms(1)] wrap_once [OF assms(2)] by (rule refl, rule carryPass_value(3) [OF assms])

lemma offset_mod:
  fixes C :: nat
  assumes "C < 2 ^ 255"
  shows "(if C + 19 < 2 ^ 255 then C + 19 else C + 19 - (2 ^ 255 - 19)) = C mod (2 ^ 255 - 19) + 19"
  using assms by (auto simp: le_mod_geq)

lemma reduce_value:
  assumes "fe_le (2 ^ 63) a"
  shows "fe_nat (curve25519_reduce a) = fe_nat a mod (2 ^ 255 - 19)" "fe_le (2 ^ 51 - 1) (curve25519_reduce a)"
proof -
  define b where "b = curve25519_carryPass a"
  define c where "c = curve25519_carryPass b"
  define c' where "c' = curve25519_addNoReduce c (19, 0, 0, 0, 0)"
  define d where "d = curve25519_carryPass c'"
  let ?k = "(0x7FFFFFFFFFFED, 0x7FFFFFFFFFFFF, 0x7FFFFFFFFFFFF, 0x7FFFFFFFFFFFF, 0x7FFFFFFFFFFFF) :: fe"
  have r: "curve25519_reduce a = carry_mask (curve25519_addNoReduce d ?k)"
    unfolding reduce_eq b_def c_def c'_def d_def ..
  have b63: "fe_le (2 ^ 63) b" unfolding b_def by (rule fe_le_mono [OF carryPass_value(2) [OF assms]]) simp
  note c = carryPass_once [OF b63 carryPass_small [OF assms, folded b_def], folded c_def]
  have c': "fe_nat c' = fe_nat c + 19" "fe_le (2 ^ 51 - 1 + 19) c'"
    using addNoReduce_nat [OF c(2), of 19 "(19, 0, 0, 0, 0)"] by (simp_all add: c'_def fe_le_def fe_nat_def)
  have c63: "fe_le (2 ^ 63) c'" by (rule fe_le_mono [OF c'(2)]) simp
  have "fe_nat c' < 2 ^ 255 + 2 ^ 20" using fe_nat_less [OF c(2)] c'(1) by simp
  note d = carryPass_once [OF c63 this, folded d_def]
  have dV: "fe_nat d = fe_nat c mod (2 ^ 255 - 19) + 19"
    unfolding d(1) c'(1) by (rule offset_mod [OF fe_nat_less [OF c(2)]])
  have k: "fe_nat ?k = 2 ^ 255 - 19" "fe_le (2 ^ 51 - 1) ?k" by (simp_all add: fe_nat_def fe_le_def)
  note e = addNoReduce_nat [OF d(2) k(2), simplified dV k(1)]
  have e63: "fe_le (2 ^ 63) (curve25519_addNoReduce d ?k)"
    by (rule fe_le_mono [OF addNoReduce_nat(2) [OF d(2) k(2)]]) simp_all
  have "fe_nat c mod (2 ^ 255 - 19) = fe_nat a mod (2 ^ 255 - 19)"
    unfolding c_def b_def using carryPass_mod [OF b63] carryPass_mod [OF assms] by (simp only: b_def)
  moreover have "(m + 19 + (2 ^ 255 - 19)) mod 2 ^ 255 = m" if "m < 2 ^ 255 - 19" for m :: nat
  proof -
    have "m + 19 + (2 ^ 255 - 19) = m + 2 ^ 255" by simp
    then show ?thesis using that by (simp only: mod_add_self2) simp
  qed
  moreover have "fe_nat c mod (2 ^ 255 - 19) < 2 ^ 255 - 19" by (rule mod_less_divisor) simp
  ultimately show "fe_nat (curve25519_reduce a) = fe_nat a mod (2 ^ 255 - 19)"
    unfolding r carry_mask_value(1) [OF e63] using addNoReduce_nat(1) [OF d(2) k(2)] by (simp only: dV k(1)) simp
  show "fe_le (2 ^ 51 - 1) (curve25519_reduce a)" unfolding r by (rule carry_mask_value(2) [OF e63])
qed

lemma reduce_rep:
  assumes "fe_rel (2 ^ 63) a x"
  shows "int (fe_nat (curve25519_reduce a)) = gf_rep x"
proof -
  have "x = of_nat (fe_nat a)" "fe_le (2 ^ 63) a" using assms by (auto simp: fe_rel_def fe_val_def)
  then show ?thesis
    unfolding gf_rep_of_nat [of "fe_nat a"] \<open>x = of_nat (fe_nat a)\<close> reduce_value(1) [OF \<open>fe_le (2 ^ 63) a\<close>] zmod_int gf_p_def by simp
qed

section \<open>Bytes\<close>

lemma load_window:
  assumes "k + 8 \<le> length inp" "j \<le> 13" "n = 8 * k + j"
  shows "unat (drop_bit j (mem_loadU64 (drop k inp)) AND 0x7FFFFFFFFFFFF) = le_nat inp div 2 ^ n mod 2 ^ 51"
proof -
  have split: "inp = take k inp @ take 8 (drop k inp) @ drop (k + 8) inp" by (simp add: take_add [symmetric] append_assoc [symmetric] add.commute)
  have "le_nat inp = le_nat (take k inp) + 256 ^ k * (le_nat (take 8 (drop k inp)) + 256 ^ 8 * le_nat (drop (k + 8) inp))"
    using assms(1) by (subst split) (simp only: le_nat_append length_take length_drop, simp)
  moreover have "le_nat (take k inp) < 256 ^ k" using le_nat_bound [of "take k inp"] assms(1) by simp
  ultimately have w: "le_nat inp div 2 ^ (8 * k) = le_nat (take 8 (drop k inp)) + 2 ^ 64 * le_nat (drop (k + 8) inp)"
    by (simp add: power_mult)
  have "(x + 2 ^ 64 * y) div 2 ^ j mod 2 ^ 51 = x div 2 ^ j mod 2 ^ 51" for x y :: nat
  proof -
    have eq: "2 ^ 64 * y = 2 ^ j * (2 ^ 51 * (2 ^ (13 - j) * y))"
      using assms(2) by (simp add: mult.assoc [symmetric] power_add [symmetric])
    show ?thesis unfolding eq by simp
  qed
  then show ?thesis
    unfolding assms(3) unat_and_51 unat_drop_bit power_add div_mult2_eq w unat_loadU64 by (simp only:)
qed

lemma digits_51:
  fixes N :: nat
  shows "N mod 2 ^ 51 + 2 ^ 51 * (N div 2 ^ 51 mod 2 ^ 51) + 2 ^ 102 * (N div 2 ^ 102 mod 2 ^ 51) +
    2 ^ 153 * (N div 2 ^ 153 mod 2 ^ 51) + 2 ^ 204 * (N div 2 ^ 204 mod 2 ^ 51) = N mod 2 ^ 255"
  using mod_mult2_eq [of N "2 ^ 51" "2 ^ 51"] mod_mult2_eq [of N "2 ^ 102" "2 ^ 51"] mod_mult2_eq [of N "2 ^ 153" "2 ^ 51"]
    mod_mult2_eq [of N "2 ^ 204" "2 ^ 51"] by (simp only: power_add [symmetric]) simp

lemma load_value:
  assumes "32 \<le> length inp"
  shows "fe_nat (curve25519_load inp) = le_nat inp mod 2 ^ 255" "fe_le (2 ^ 51 - 1) (curve25519_load inp)"
proof -
  have w0: "unat (mem_loadU64 inp AND 0x7FFFFFFFFFFFF) = le_nat inp mod 2 ^ 51"
    using load_window [of 0 inp 0 0] assms by simp
  have "unat (drop_bit 3 (mem_loadU64 (drop 6 inp)) AND 0x7FFFFFFFFFFFF) = le_nat inp div 2 ^ 51 mod 2 ^ 51"
    "unat (drop_bit 6 (mem_loadU64 (drop 12 inp)) AND 0x7FFFFFFFFFFFF) = le_nat inp div 2 ^ 102 mod 2 ^ 51"
    "unat (drop_bit 1 (mem_loadU64 (drop 19 inp)) AND 0x7FFFFFFFFFFFF) = le_nat inp div 2 ^ 153 mod 2 ^ 51"
    "unat (drop_bit 12 (mem_loadU64 (drop 24 inp)) AND 0x7FFFFFFFFFFFF) = le_nat inp div 2 ^ 204 mod 2 ^ 51"
    by (rule load_window; use assms in simp)+
  note w = w0 this
  show "fe_nat (curve25519_load inp) = le_nat inp mod 2 ^ 255"
    unfolding curve25519_load_def fe_nat_def prod.case w by (rule digits_51)
  have "x mod 2 ^ 51 \<le> 2 ^ 51 - 1" for x :: nat using mod_less_divisor [of "2 ^ 51" x] by simp
  then show "fe_le (2 ^ 51 - 1) (curve25519_load inp)"
    unfolding curve25519_load_def fe_le_def prod.case w by blast
qed

lemma store_words_value:
  fixes a0 a1 a2 a3 a4 :: nat
  shows "(a0 + 2 ^ 51 * (a1 mod 2 ^ 13)) + 2 ^ 64 * ((a1 div 2 ^ 13 + 2 ^ 38 * (a2 mod 2 ^ 26)) +
      2 ^ 64 * ((a2 div 2 ^ 26 + 2 ^ 25 * (a3 mod 2 ^ 39)) + 2 ^ 64 * (a3 div 2 ^ 39 + 2 ^ 12 * a4))) =
    a0 + 2 ^ 51 * a1 + 2 ^ 102 * a2 + 2 ^ 153 * a3 + 2 ^ 204 * a4"
proof -
  have "a1 = a1 mod 2 ^ 13 + 2 ^ 13 * (a1 div 2 ^ 13)" "a2 = a2 mod 2 ^ 26 + 2 ^ 26 * (a2 div 2 ^ 26)" "a3 = a3 mod 2 ^ 39 + 2 ^ 39 * (a3 div 2 ^ 39)"
    by (simp_all only: mod_mult_div_eq)
  moreover have "(a0 + 2 ^ 51 * m1) + 2 ^ 64 * ((k1 + 2 ^ 38 * m2) + 2 ^ 64 * ((k2 + 2 ^ 25 * m3) + 2 ^ 64 * (k3 + 2 ^ 12 * a4))) =
      a0 + 2 ^ 51 * a1 + 2 ^ 102 * a2 + 2 ^ 153 * a3 + 2 ^ 204 * a4"
    if "a1 = m1 + 2 ^ 13 * k1" "a2 = m2 + 2 ^ 26 * k2" "a3 = m3 + 2 ^ 39 * k3" for m1 m2 m3 k1 k2 k3
    using that by simp
  ultimately show ?thesis by blast
qed

lemma le_bytes_word64: "le_bytes (8 + n) (unat w + 2 ^ 64 * y) = le_bytes 8 (unat w) @ le_bytes n y" for w :: u64
proof -
  have x: "unat w < 2 ^ 64" using unat_less [of w] by simp
  then have "(unat w + 2 ^ 64 * y) mod 256 ^ 8 = unat w" "(unat w + 2 ^ 64 * y) div 256 ^ 8 = y"
    by (simp_all only: power256) simp_all
  then show ?thesis
    using le_bytes_append [of 8 n "unat w + 2 ^ 64 * y"] le_bytes_mod [of 8 "unat w + 2 ^ 64 * y"] by simp
qed

lemma store_value:
  assumes "fe_le (2 ^ 51 - 1) a" "32 \<le> length out"
  shows "curve25519_store out a = mem_put out 0 (le_bytes 32 (fe_nat a))"
proof -
  obtain a0 a1 a2 a3 a4 where a: "a = (a0, a1, a2, a3, a4)" by (metis prod.exhaust)
  have b: "unat a0 < 2 ^ 51" "unat a1 < 2 ^ 51" "unat a2 < 2 ^ 51" "unat a3 < 2 ^ 51" "unat a4 < 2 ^ 51"
    using assms(1) by (simp_all add: fe_le_def a)
  have sm: "unat (drop_bit 13 a1) < 2 ^ 38" "unat (drop_bit 26 a2) < 2 ^ 25" "unat (drop_bit 39 a3) < 2 ^ 12"
    unfolding unat_drop_bit using b by (auto intro!: less_mult_imp_div_less)
  define w0 where "w0 = a0 OR push_bit 51 a1"
  define w1 where "w1 = drop_bit 13 a1 OR push_bit 38 a2"
  define w2 where "w2 = drop_bit 26 a2 OR push_bit 25 a3"
  define w3 where "w3 = drop_bit 39 a3 OR push_bit 12 a4"
  have m4: "unat a4 mod 2 ^ 52 = unat a4" using b(5) by simp
  have w: "unat w0 = unat a0 + 2 ^ 51 * (unat a1 mod 2 ^ 13)" "unat w1 = unat a1 div 2 ^ 13 + 2 ^ 38 * (unat a2 mod 2 ^ 26)"
    "unat w2 = unat a2 div 2 ^ 26 + 2 ^ 25 * (unat a3 mod 2 ^ 39)" "unat w3 = unat a3 div 2 ^ 39 + 2 ^ 12 * unat a4"
    using unat_or_push [OF b(1), of a1] unat_or_push [OF sm(1), of a2] unat_or_push [OF sm(2), of a3] unat_or_push [OF sm(3), of a4] m4
    unfolding w0_def w1_def w2_def w3_def by (simp_all add: unat_drop_bit mult.commute)
  have "fe_nat a = unat w0 + 2 ^ 64 * (unat w1 + 2 ^ 64 * (unat w2 + 2 ^ 64 * (unat w3 + 2 ^ 64 * 0)))"
    unfolding a fe_nat_def prod.case store_words_value [symmetric] w by simp
  then have bytes: "le_bytes 32 (fe_nat a) = ((le_bytes 8 (unat w0) @ le_bytes 8 (unat w1)) @ le_bytes 8 (unat w2)) @ le_bytes 8 (unat w3)"
    using le_bytes_word64 [of 24 w0] le_bytes_word64 [of 16 w1] le_bytes_word64 [of 8 w2] le_bytes_word64 [of 0 w3 0]
    by (simp only: numeral_plus_numeral semiring_norm add_0_right append_assoc le_bytes.simps append_Nil2)
  have "mem_storeU64 (mem_storeU64 (mem_storeU64 (mem_storeU64 out 0 w0) 8 w1) 16 w2) 24 w3 = mem_put out 0 (le_bytes 32 (fe_nat a))"
    unfolding bytes mem_storeU64_def
    using mem_put_append [of 0 "le_bytes 8 (unat w0)" "le_bytes 8 (unat w1)" out]
      mem_put_append [of 0 "le_bytes 8 (unat w0) @ le_bytes 8 (unat w1)" "le_bytes 8 (unat w2)" out]
      mem_put_append [of 0 "(le_bytes 8 (unat w0) @ le_bytes 8 (unat w1)) @ le_bytes 8 (unat w2)" "le_bytes 8 (unat w3)" out] assms(2)
    by simp
  then show ?thesis unfolding a curve25519_store_def prod.case Let_def w0_def w1_def w2_def w3_def .
qed

section \<open>Conditional swap and scalar products\<close>

lemma cSwap_correct:
  "curve25519_cSwap a b 0 = (a, b)" "curve25519_cSwap a b 1 = (b, a)"
proof -
  have "curve25519_cSwap_limb 0 x y = (x, y)" "curve25519_cSwap_limb (- 1) x y = (y, x)" for x y
    by (simp_all add: curve25519_cSwap_limb_def Let_def xor.left_commute)
  then show "curve25519_cSwap a b 0 = (a, b)" "curve25519_cSwap a b 1 = (b, a)"
    by (simp_all add: curve25519_cSwap_def split: prod.splits)
qed

lemma mulScalar_correct:
  assumes "fe_rel (2 ^ 54) a x" "unat scalar \<le> 2 ^ 32"
  shows "fe_rel (2 ^ 51 + 2 ^ 41) (curve25519_mulScalar a scalar) (x * of_nat (unat scalar))"
proof -
  obtain a0 a1 a2 a3 a4 where a: "a = (a0, a1, a2, a3, a4)" by (metis prod.exhaust)
  have ab: "unat a0 \<le> 2 ^ 54" "unat a1 \<le> 2 ^ 54" "unat a2 \<le> 2 ^ 54" "unat a3 \<le> 2 ^ 54" "unat a4 \<le> 2 ^ 54"
    using assms(1) unfolding a fe_rel_def fe_le_def prod.case by blast+
  define t0 where "t0 = mul128_64x64 a0 scalar"
  define e1 where "e1 = mul128_64x64 a1 scalar + ucast (ucast (drop_bit 51 t0) :: u64)"
  define e2 where "e2 = mul128_64x64 a2 scalar + ucast (ucast (drop_bit 51 e1) :: u64)"
  define e3 where "e3 = mul128_64x64 a3 scalar + ucast (ucast (drop_bit 51 e2) :: u64)"
  define e4 where "e4 = mul128_64x64 a4 scalar + ucast (ucast (drop_bit 51 e3) :: u64)"
  have eq: "curve25519_mulScalar a scalar = ((ucast t0 AND 0x7FFFFFFFFFFFF) + ucast (drop_bit 51 e4) * (19 :: u64), ucast e1 AND 0x7FFFFFFFFFFFF,
      ucast e2 AND 0x7FFFFFFFFFFFF, ucast e3 AND 0x7FFFFFFFFFFFF, ucast e4 AND 0x7FFFFFFFFFFFF)"
    unfolding curve25519_mulScalar_def a prod.case Let_def t0_def e1_def e2_def e3_def e4_def ..
  have p: "unat u * unat scalar \<le> 2 ^ 86" if "unat u \<le> 2 ^ 54" for u :: u64
    using mult_le_mono [OF that assms(2)] by simp
  have step: "unat (mul128_64x64 u scalar + ucast (ucast (drop_bit 51 e) :: u64)) = unat u * unat scalar + unat e div 2 ^ 51 \<and>
      unat (mul128_64x64 u scalar + ucast (ucast (drop_bit 51 e) :: u64)) \<le> 2 ^ 87"
    if u: "unat u \<le> 2 ^ 54" and e: "unat e \<le> 2 ^ 87" for u :: u64 and e :: u128
  proof -
    have c: "unat e div 2 ^ 51 \<le> 2 ^ 36" using div_le_mono [OF e, of "2 ^ 51"] by simp
    then have s: "unat (mul128_64x64 u scalar + ucast (ucast (drop_bit 51 e) :: u64)) = unat u * unat scalar + unat e div 2 ^ 51"
      using p [OF u] carry128 [of e 51 "mul128_64x64 u scalar"] by (simp add: mul128_eq)
    show ?thesis unfolding s using c p [OF u] by simp
  qed
  have t0: "unat t0 = unat a0 * unat scalar" "unat t0 \<le> 2 ^ 87" using p [OF ab(1)] by (simp_all add: t0_def mul128_eq)
  note e1 = step [OF ab(2) t0(2), folded e1_def]
  note e2 = step [OF ab(3) e1 [THEN conjunct2], folded e2_def]
  note e3 = step [OF ab(4) e2 [THEN conjunct2], folded e3_def]
  note e4 = step [OF ab(5) e3 [THEN conjunct2], folded e4_def]
  have c4: "unat e4 div 2 ^ 51 \<le> 2 ^ 36" using div_le_mono [OF e4 [THEN conjunct2], of "2 ^ 51"] by simp
  have low: "unat (ucast t AND 0x7FFFFFFFFFFFF :: u64) = unat t mod 2 ^ 51" for t :: u128
    by (simp only: unat_and_51 unat_ucast_low)
  have g0: "unat ((ucast t0 AND 0x7FFFFFFFFFFFF) + ucast (drop_bit 51 e4) * (19 :: u64)) = unat t0 mod 2 ^ 51 + unat e4 div 2 ^ 51 * 19"
  proof -
    have "unat (ucast (drop_bit 51 e4) :: u64) = unat e4 div 2 ^ 51"
      using c4 by (subst unat_ucast_small) (simp_all add: unat_drop_bit)
    then have "unat (ucast (drop_bit 51 e4) * (19 :: u64)) = unat e4 div 2 ^ 51 * 19" using c4 by (subst unat_mult64) simp_all
    then show ?thesis using c4 low [of t0] mod_less_divisor [of "2 ^ 51" "unat t0"] by (subst unat_add64) simp_all
  qed
  have "fe_le (2 ^ 51 + 2 ^ 41) (curve25519_mulScalar a scalar)"
  proof -
    have "u mod 2 ^ 51 \<le> 2 ^ 51 + 2 ^ 41" for u :: nat using mod_less_divisor [of "2 ^ 51" u] by simp
    moreover have "unat t0 mod 2 ^ 51 + unat e4 div 2 ^ 51 * 19 \<le> 2 ^ 51 + 2 ^ 41" using c4 mod_less_divisor [of "2 ^ 51" "unat t0"] by simp
    ultimately show ?thesis unfolding eq fe_le_def prod.case low g0 by blast
  qed
  moreover have "fe_val (curve25519_mulScalar a scalar) = of_nat (fe_nat a * unat scalar)"
  proof (rule fe_val_cong)
    show "fe_nat (curve25519_mulScalar a scalar) + (2 ^ 255 - 19) * (unat e4 div 2 ^ 51) = fe_nat a * unat scalar"
      unfolding eq fe_nat_def prod.case low g0
      unfolding e4 [THEN conjunct1] e3 [THEN conjunct1] e2 [THEN conjunct1] e1 [THEN conjunct1] t0 fe_carry_nat a prod.case
      by (simp add: distrib_right)
  qed
  ultimately show ?thesis using assms(1) by (simp add: fe_rel_def fe_val_def)
qed

section \<open>Powers\<close>

lemma mul_power:
  assumes "fe_rel (2 ^ 54) a (x ^ i)" "fe_rel (2 ^ 54) b (x ^ j)" "k = i + j"
  shows "fe_rel (2 ^ 54) (curve25519_mul a b) (x ^ k)"
  unfolding assms(3) power_add by (rule fe_rel_mono [OF mul_correct [OF assms(1,2)]]) simp

lemma squareN_power:
  assumes "fe_rel (2 ^ 54) a (x ^ i)" "n \<noteq> 0" "k = i * 2 ^ unat n"
  shows "fe_rel (2 ^ 54) (curve25519_squareN a n) (x ^ k)"
  unfolding assms(3) power_mult by (rule fe_rel_mono [OF squareN_correct [OF assms(1,2)]]) simp

lemma pow11_correct:
  assumes z: "fe_rel (2 ^ 54) z x" and res: "curve25519_pow11PowTwo250mtwo0 z = (a, b)"
  shows "fe_rel (2 ^ 54) a (x ^ 11)" "fe_rel (2 ^ 54) b (x ^ (2 ^ 250 - 1))"
proof -
  have z1: "fe_rel (2 ^ 54) z (x ^ 1)" using z by simp
  define a2 where "a2 = curve25519_squareN z 1"
  define b9 where "b9 = curve25519_mul (curve25519_squareN a2 2) z"
  define a11 where "a11 = curve25519_mul b9 a2"
  define b5 where "b5 = curve25519_mul (curve25519_squareN a11 1) b9"
  define b10 where "b10 = curve25519_mul (curve25519_squareN b5 5) b5"
  define c20 where "c20 = curve25519_mul (curve25519_squareN b10 10) b10"
  define t40 where "t40 = curve25519_mul (curve25519_squareN c20 20) c20"
  define b50 where "b50 = curve25519_mul (curve25519_squareN t40 10) b10"
  define c100 where "c100 = curve25519_mul (curve25519_squareN b50 50) b50"
  define t200 where "t200 = curve25519_mul (curve25519_squareN c100 100) c100"
  define b250 where "b250 = curve25519_mul (curve25519_squareN t200 50) b50"
  have "curve25519_pow11PowTwo250mtwo0 z = (a11, b250)"
    unfolding curve25519_pow11PowTwo250mtwo0_def Let_def a2_def b9_def a11_def b5_def b10_def c20_def t40_def b50_def
      c100_def t200_def b250_def ..
  then have ab: "a = a11" "b = b250" using res by simp_all
  have s2: "fe_rel (2 ^ 54) a2 (x ^ 2)" unfolding a2_def by (rule squareN_power [OF z1]) simp_all
  have s9: "fe_rel (2 ^ 54) b9 (x ^ 9)" unfolding b9_def by (rule mul_power [OF squareN_power [OF s2] z1]) (rule refl | simp)+
  have s11: "fe_rel (2 ^ 54) a11 (x ^ 11)" unfolding a11_def by (rule mul_power [OF s9 s2]) simp
  have s5: "fe_rel (2 ^ 54) b5 (x ^ (2 ^ 5 - 1))" unfolding b5_def by (rule mul_power [OF squareN_power [OF s11] s9]) (rule refl | simp)+
  have s10: "fe_rel (2 ^ 54) b10 (x ^ (2 ^ 10 - 1))" unfolding b10_def by (rule mul_power [OF squareN_power [OF s5] s5]) (rule refl | simp)+
  have s20: "fe_rel (2 ^ 54) c20 (x ^ (2 ^ 20 - 1))" unfolding c20_def by (rule mul_power [OF squareN_power [OF s10] s10]) (rule refl | simp)+
  have s40: "fe_rel (2 ^ 54) t40 (x ^ (2 ^ 40 - 1))" unfolding t40_def by (rule mul_power [OF squareN_power [OF s20] s20]) (rule refl | simp)+
  have s50: "fe_rel (2 ^ 54) b50 (x ^ (2 ^ 50 - 1))" unfolding b50_def by (rule mul_power [OF squareN_power [OF s40] s10]) (rule refl | simp)+
  have s100: "fe_rel (2 ^ 54) c100 (x ^ (2 ^ 100 - 1))" unfolding c100_def by (rule mul_power [OF squareN_power [OF s50] s50]) (rule refl | simp)+
  have s200: "fe_rel (2 ^ 54) t200 (x ^ (2 ^ 200 - 1))" unfolding t200_def by (rule mul_power [OF squareN_power [OF s100] s100]) (rule refl | simp)+
  have s250: "fe_rel (2 ^ 54) b250 (x ^ (2 ^ 250 - 1))" unfolding b250_def by (rule mul_power [OF squareN_power [OF s200] s50]) (rule refl | simp)+
  show "fe_rel (2 ^ 54) a (x ^ 11)" "fe_rel (2 ^ 54) b (x ^ (2 ^ 250 - 1))" unfolding ab by (fact s11, fact s250)
qed

lemma invert_power:
  assumes z: "fe_rel (2 ^ 54) z x"
  shows "fe_rel (2 ^ 51 + 2 ^ 13) (curve25519_invert z) (x ^ (2 ^ 255 - 21))"
proof -
  obtain a b where ab: "curve25519_pow11PowTwo250mtwo0 z = (a, b)" by (metis prod.exhaust)
  note p = pow11_correct [OF z ab]
  have "x ^ (2 ^ 255 - 21) = (x ^ ((2 ^ 250 - 1) * 2 ^ 5)) * x ^ 11" unfolding power_add [symmetric] by simp
  moreover have "fe_rel (2 ^ 54) (curve25519_squareN b 5) (x ^ ((2 ^ 250 - 1) * 2 ^ 5))"
    by (rule squareN_power [OF p(2)]) simp_all
  ultimately show ?thesis using mul_correct [OF _ p(1)] by (simp only: curve25519_invert_def ab Let_def prod.case)
qed

lemma powTwo252m3_power:
  assumes z: "fe_rel (2 ^ 54) z x"
  shows "fe_rel (2 ^ 51 + 2 ^ 13) (curve25519_powTwo252m3 z) (x ^ (2 ^ 252 - 3))"
proof -
  obtain a b where ab: "curve25519_pow11PowTwo250mtwo0 z = (a, b)" by (metis prod.exhaust)
  note p = pow11_correct [OF z ab]
  have "x ^ (2 ^ 252 - 3) = (x ^ ((2 ^ 250 - 1) * 2 ^ 2)) * x ^ 1" unfolding power_add [symmetric] by simp
  moreover have "fe_rel (2 ^ 54) (curve25519_squareN b 2) (x ^ ((2 ^ 250 - 1) * 2 ^ 2))"
    by (rule squareN_power [OF p(2)]) simp_all
  ultimately show ?thesis using mul_correct [OF _ z] by (simp only: curve25519_powTwo252m3_def ab Let_def prod.case power_one_right)
qed

section \<open>The interface\<close>

text \<open>
  What the curve code relies on: a relation between limb vectors, bounds on their limbs and ring
  elements, and the laws of the field operations it calls.
\<close>

locale limb_field =
  fixes rel :: "nat \<Rightarrow> 'e \<Rightarrow> gf \<Rightarrow> bool"
    and mul addN add subN sub4 sub :: "'e \<Rightarrow> 'e \<Rightarrow> 'e"
    and sqN :: "'e \<Rightarrow> u64 \<Rightarrow> 'e" and mulS :: "'e \<Rightarrow> u64 \<Rightarrow> 'e"
    and inv pow252 reduce :: "'e \<Rightarrow> 'e" and swap :: "'e \<Rightarrow> 'e \<Rightarrow> u64 \<Rightarrow> 'e \<times> 'e"
  assumes rel_weaken: "rel m a x \<Longrightarrow> m \<le> n \<Longrightarrow> rel n a x"
    and mul_law: "rel (2 ^ 54) a x \<Longrightarrow> rel (2 ^ 54) b y \<Longrightarrow> rel (2 ^ 51 + 2 ^ 13) (mul a b) (x * y)"
    and sqN_law: "rel (2 ^ 54) a x \<Longrightarrow> w \<noteq> 0 \<Longrightarrow> rel (2 ^ 51 + 2 ^ 13) (sqN a w) (x ^ 2 ^ unat w)"
    and addN_law: "rel m a x \<Longrightarrow> rel n b y \<Longrightarrow> m + n < 2 ^ 64 \<Longrightarrow> rel (m + n) (addN a b) (x + y)"
    and add_law: "rel m a x \<Longrightarrow> rel n b y \<Longrightarrow> m + n \<le> 2 ^ 63 \<Longrightarrow> rel (2 ^ 51 + 19 * 2 ^ 13) (add a b) (x + y)"
    and subN_law: "rel m a x \<Longrightarrow> rel n b y \<Longrightarrow> n \<le> 2 ^ 52 - 38 \<Longrightarrow> m \<le> 2 ^ 63 \<Longrightarrow> rel (m + 2 ^ 52) (subN a b) (x - y)"
    and sub4_law: "rel m a x \<Longrightarrow> rel n b y \<Longrightarrow> n \<le> 2 ^ 53 - 76 \<Longrightarrow> m \<le> 2 ^ 63 \<Longrightarrow> rel (m + 2 ^ 53) (sub4 a b) (x - y)"
    and sub_law: "rel m a x \<Longrightarrow> rel n b y \<Longrightarrow> n \<le> 2 ^ 52 - 38 \<Longrightarrow> m \<le> 2 ^ 62 \<Longrightarrow> rel (2 ^ 51 + 19 * 2 ^ 13) (sub a b) (x - y)"
    and mulS_law: "rel (2 ^ 54) a x \<Longrightarrow> unat s \<le> 2 ^ 32 \<Longrightarrow> rel (2 ^ 51 + 2 ^ 41) (mulS a s) (x * of_nat (unat s))"
    and inv_law: "rel (2 ^ 54) a x \<Longrightarrow> rel (2 ^ 51 + 2 ^ 13) (inv a) (x ^ (2 ^ 255 - 21))"
    and pow252_law: "rel (2 ^ 54) a x \<Longrightarrow> rel (2 ^ 51 + 2 ^ 13) (pow252 a) (x ^ (2 ^ 252 - 3))"
    and reduce_law: "rel (2 ^ 63) a x \<Longrightarrow> rel (2 ^ 51 - 1) (reduce a) x"
    and swap_law: "swap a b 0 = (a, b)" "swap a b 1 = (b, a)"
begin

lemma mul_tight: "rel m a x \<Longrightarrow> rel n b y \<Longrightarrow> m \<le> 2 ^ 54 \<Longrightarrow> n \<le> 2 ^ 54 \<Longrightarrow> rel (2 ^ 51 + 2 ^ 13) (mul a b) (x * y)"
  by (intro mul_law) (erule rel_weaken, assumption)+

lemma sq_tight: "rel m a x \<Longrightarrow> m \<le> 2 ^ 54 \<Longrightarrow> rel (2 ^ 51 + 2 ^ 13) (sqN a 1) (x * x)"
  using sqN_law [of a x 1] rel_weaken [of m a x "2 ^ 54"] by (simp add: power2_eq_square)

lemma pow252_tight: "rel m a x \<Longrightarrow> m \<le> 2 ^ 54 \<Longrightarrow> rel (2 ^ 51 + 2 ^ 13) (pow252 a) (x ^ (2 ^ 252 - 3))"
  by (intro pow252_law) (erule rel_weaken, assumption)

lemma inv_tight: "rel m a x \<Longrightarrow> m \<le> 2 ^ 54 \<Longrightarrow> rel (2 ^ 51 + 2 ^ 13) (inv a) (x ^ (2 ^ 255 - 21))"
  by (intro inv_law) (erule rel_weaken, assumption)

lemma reduce_tight: "rel m a x \<Longrightarrow> m \<le> 2 ^ 63 \<Longrightarrow> rel (2 ^ 51 - 1) (reduce a) x"
  by (intro reduce_law) (erule rel_weaken, assumption)

end

lemma reduce_correct: "fe_rel (2 ^ 63) a x \<Longrightarrow> fe_rel (2 ^ 51 - 1) (curve25519_reduce a) x"
proof -
  assume r: "fe_rel (2 ^ 63) a x"
  then have "x = of_nat (fe_nat a)" "fe_le (2 ^ 63) a" by (auto simp: fe_rel_def fe_val_def)
  moreover have "fe_val (curve25519_reduce a) = of_nat (fe_nat a)"
    by (rule fe_val_cong [of _ "fe_nat a div (2 ^ 255 - 19)"]) (simp only: reduce_value(1) [OF \<open>fe_le (2 ^ 63) a\<close>] mod_mult_div_eq)
  ultimately show ?thesis using reduce_value(2) by (simp only: fe_rel_def)
qed

interpretation fe: limb_field fe_rel curve25519_mul curve25519_addNoReduce curve25519_add curve25519_subNoReduce
  curve25519_subNoReduceFourP curve25519_sub curve25519_squareN curve25519_mulScalar curve25519_invert curve25519_powTwo252m3
  curve25519_reduce curve25519_cSwap
  by (unfold_locales; (rule fe_rel_mono mul_correct squareN_correct addNoReduce_correct add_correct subNoReduce_correct
      subNoReduceFourP_correct sub_correct mulScalar_correct invert_power powTwo252m3_power reduce_correct cSwap_correct); assumption)

section \<open>Ring operations, encoding and powers\<close>

text \<open>
  C29: the limb operations refine the operations of the ring of integers modulo \<open>2^255 - 19\<close>, and no
  limb operation overflows. Given limbs of at most 54 bits, a product or a repeated square has limbs
  of at most \<open>2^51 + 2^13\<close>; sums and differences without reduction add up their bounds, a difference
  being safe as long as the limbs of the subtrahend stay below the constant that is added.
\<close>
theorem curve25519_refines_field:
  assumes "fe_rel (2 ^ 54) a x" "fe_rel (2 ^ 54) b y" "n \<noteq> 0" "fe_rel (2 ^ 52 - 38) c z" "unat s \<le> 2 ^ 32"
  shows "fe_rel (2 ^ 51 + 2 ^ 13) (curve25519_mul a b) (x * y) \<and>
    fe_rel (2 ^ 51 + 2 ^ 13) (curve25519_squareN a n) (x ^ 2 ^ unat n) \<and>
    fe_rel (2 ^ 55) (curve25519_addNoReduce a b) (x + y) \<and>
    fe_rel (2 ^ 51 + 19 * 2 ^ 13) (curve25519_add a b) (x + y) \<and>
    fe_rel (2 ^ 54 + 2 ^ 52) (curve25519_subNoReduce a c) (x - z) \<and>
    fe_rel (2 ^ 51 + 19 * 2 ^ 13) (curve25519_sub a c) (x - z) \<and>
    fe_rel (2 ^ 54 + 2 ^ 53) (curve25519_subNoReduceFourP a c) (x - z) \<and>
    fe_rel (2 ^ 51 + 2 ^ 41) (curve25519_mulScalar a s) (x * of_nat (unat s))"
  using mul_correct [OF assms(1,2)] squareN_correct [OF assms(1,3)] addNoReduce_correct [OF assms(1,2)] add_correct [OF assms(1,2)]
    subNoReduce_correct [OF assms(1,4)] sub_correct [OF assms(1,4)] subNoReduceFourP_correct [OF assms(1,4)] mulScalar_correct [OF assms(1,5)]
  by simp

theorem curve25519_refines_field_witness:
  "fe_rel (2 ^ 51 + 2 ^ 13) (curve25519_mul (3, 0, 0, 0, 0) (5, 0, 0, 0, 0)) 15 \<and>
   fe_rel (2 ^ 54 + 2 ^ 52) (curve25519_subNoReduce (3, 0, 0, 0, 0) (5, 0, 0, 0, 0)) (- 2)"
proof -
  have "fe_rel m (3, 0, 0, 0, 0) 3" "fe_rel m (5, 0, 0, 0, 0) 5" if "8 \<le> m" for m
    using that by (simp_all add: fe_rel_def fe_le_def fe_val_def fe_nat_def)
  from curve25519_refines_field [OF this(1) this(2) _ this(2), of 1 7] show ?thesis by simp
qed

text \<open>
  \<open>curve25519_reduce\<close> followed by \<open>curve25519_store\<close> writes the 32 little-endian bytes of the one
  representative in \<open>[0, 2^255 - 19)\<close>, whatever limbs of at most 63 bits it starts from, and
  \<open>curve25519_load\<close> reads those bytes back as the same ring element; in general it reads a 32-byte
  number modulo \<open>2^255\<close> (the top bit is ignored).
\<close>
theorem curve25519_store_load:
  assumes "fe_rel (2 ^ 63) a x" "32 \<le> length out" "32 \<le> length inp"
  shows "curve25519_store out (curve25519_reduce a) = mem_put out 0 (le_bytes 32 (nat (gf_rep x))) \<and>
    fe_rel (2 ^ 51 - 1) (curve25519_load (take 32 (curve25519_store out (curve25519_reduce a)))) x \<and>
    fe_rel (2 ^ 51 - 1) (curve25519_load (take 32 inp)) (of_nat (le_nat (take 32 inp) mod 2 ^ 255))"
proof -
  have le: "fe_le (2 ^ 63) a" and x: "x = of_nat (fe_nat a)" using assms(1) by (auto simp: fe_rel_def fe_val_def)
  define N where "N = nat (gf_rep x)"
  have nat: "fe_nat (curve25519_reduce a) = N" unfolding N_def reduce_rep [OF assms(1), symmetric] by simp
  then have st: "curve25519_store out (curve25519_reduce a) = mem_put out 0 (le_bytes 32 N)"
    using store_value [OF reduce_value(2) [OF le] assms(2)] by simp
  have N: "N < 2 ^ 255" using fe_nat_less [OF reduce_value(2) [OF le]] nat by simp
  have t: "take 32 (mem_put out 0 (le_bytes 32 N)) = le_bytes 32 N" using assms(2) by (simp add: mem_put_def)
  have "le_nat (le_bytes 32 N) = N" using N by (simp add: le_nat_le_bytes)
  then have "fe_nat (curve25519_load (le_bytes 32 N)) = N" using load_value(1) [of "le_bytes 32 N"] N by simp
  moreover have "of_nat N = x" using fe.reduce_tight [OF assms(1)] nat by (simp add: fe_rel_def fe_val_def)
  ultimately have "fe_rel (2 ^ 51 - 1) (curve25519_load (le_bytes 32 N)) x"
    using load_value(2) [of "le_bytes 32 N"] by (simp add: fe_rel_def fe_val_def)
  moreover have "fe_rel (2 ^ 51 - 1) (curve25519_load (take 32 inp)) (of_nat (le_nat (take 32 inp) mod 2 ^ 255))"
    using load_value [of "take 32 inp"] assms(3) by (simp add: fe_rel_def fe_val_def)
  ultimately show ?thesis unfolding st t unfolding N_def by blast
qed

theorem curve25519_store_load_witness:
  "curve25519_store (replicate 40 0) (curve25519_reduce (2 ^ 62, 0, 0, 0, 1)) = mem_put (replicate 40 0) 0 (le_bytes 32 (2 ^ 204 + 2 ^ 62))"
proof -
  have rel: "fe_rel (2 ^ 63) (2 ^ 62, 0, 0, 0, 1) (of_nat (2 ^ 204 + 2 ^ 62))"
    by (simp add: fe_rel_def fe_le_def fe_val_def fe_nat_def)
  moreover have "nat (gf_rep (of_nat (2 ^ 204 + 2 ^ 62))) = 2 ^ 204 + 2 ^ 62"
    unfolding gf_rep_of_nat by (simp add: gf_p_def)
  ultimately show ?thesis using curve25519_store_load [OF rel, of "replicate 40 0" "replicate 32 0"] by simp
qed

text \<open>
  \<open>curve25519_invert\<close> computes \<open>z^(2^255 - 21)\<close>, that is \<open>z^(p - 2)\<close>, and \<open>curve25519_powTwo252m3\<close>
  computes \<open>z^(2^252 - 3)\<close>, that is \<open>z^((p - 5) / 8)\<close>, with the addition chain of the source and
  without overflow.
\<close>
theorem curve25519_powers:
  assumes "fe_rel (2 ^ 54) z x"
  shows "fe_rel (2 ^ 51 + 2 ^ 13) (curve25519_invert z) (x ^ nat (gf_p - 2)) \<and>
    fe_rel (2 ^ 51 + 2 ^ 13) (curve25519_powTwo252m3 z) (x ^ nat ((gf_p - 5) div 8))"
proof -
  have "nat (gf_p - 2) = 2 ^ 255 - 21" "nat ((gf_p - 5) div 8) = 2 ^ 252 - 3" by (simp_all add: gf_p_def)
  then show ?thesis using invert_power [OF assms] powTwo252m3_power [OF assms] by (simp only: simp_thms)
qed

theorem curve25519_powers_witness:
  "fe_rel (2 ^ 51 + 2 ^ 13) (curve25519_invert (9, 0, 0, 0, 0)) (9 ^ nat (gf_p - 2))"
proof -
  have "fe_rel (2 ^ 54) (9, 0, 0, 0, 0) 9" by (simp add: fe_rel_def fe_le_def fe_val_def fe_nat_def)
  from curve25519_powers [OF this] show ?thesis by blast
qed

end
