(* ===== verification/X25519.thy ===== *)
theory X25519
  imports Curve25519
begin

text \<open>
  \<^verbatim>\<open>src/hc/core/hc/crypto/x25519.c\<close>: the Montgomery ladder and the X25519 function. The ladder with its
  deferred conditional swaps is shown to refine the ladder on ring elements that branches on the
  bits of the scalar, and \<open>x25519\<close> to write the canonical bytes of its result.
\<close>

section \<open>The code\<close>

type_synonym ladder = "fe \<times> fe \<times> fe \<times> fe \<times> u64"

definition x25519_bit :: "bytes \<Rightarrow> nat \<Rightarrow> u64" where
  "x25519_bit n i = ucast (drop_bit (i mod 8) (n ! (i div 8)) AND 1)"

text \<open>One turn of the loop of \<open>_x25519_mul\<close>, for the value of \<open>i\<close> after the decrement.\<close>

definition x25519_mul_step :: "bytes \<Rightarrow> fe \<Rightarrow> nat \<Rightarrow> ladder \<Rightarrow> ladder" where
  "x25519_mul_step n q i s =
     (case s of (x0, z0, x1, z1, swap) \<Rightarrow>
        let b = x25519_bit n i;
            swap = swap XOR b;
            (x0, x1) = curve25519_cSwap x0 x1 swap;
            (z0, z1) = curve25519_cSwap z0 z1 swap;
            swap = b;
            a = curve25519_addNoReduce x0 z0;
            b = curve25519_subNoReduce x1 z1;
            b = curve25519_mul a b;
            a = curve25519_squareN a 1;
            x0 = curve25519_subNoReduce x0 z0;
            z1 = curve25519_addNoReduce x1 z1;
            z1 = curve25519_mul z1 x0;
            x0 = curve25519_squareN x0 1;
            x1 = curve25519_addNoReduce z1 b;
            x1 = curve25519_squareN x1 1;
            z1 = curve25519_subNoReduce z1 b;
            z1 = curve25519_squareN z1 1;
            z1 = curve25519_mul z1 q;
            b = curve25519_subNoReduce a x0;
            x0 = curve25519_mul a x0;
            z0 = curve25519_mulScalar b 121665;
            z0 = curve25519_addNoReduce z0 a;
            z0 = curve25519_mul b z0
        in (x0, z0, x1, z1, swap))"

primrec x25519_mul_loop :: "bytes \<Rightarrow> fe \<Rightarrow> nat \<Rightarrow> ladder \<Rightarrow> ladder" where
  "x25519_mul_loop n q 0 s = s"
| "x25519_mul_loop n q (Suc i) s = x25519_mul_loop n q i (x25519_mul_step n q i s)"

definition x25519_mul :: "bytes \<Rightarrow> fe \<Rightarrow> fe \<times> fe" where
  "x25519_mul n q =
     (let (x0, z0, x1, z1, swap) = x25519_mul_loop n q 256 ((1, 0, 0, 0, 0), (0, 0, 0, 0, 0), q, (1, 0, 0, 0, 0), 0);
          (x0, x1) = curve25519_cSwap x0 x1 swap;
          (z0, z1) = curve25519_cSwap z0 z1 swap
      in (x0, z0))"

definition x25519_ecdhBasepoint :: bytes where
  "x25519_ecdhBasepoint = 9 # replicate 31 0"

definition x25519_clamp :: "bytes \<Rightarrow> bytes" where
  "x25519_clamp secret =
     (let e = take 32 secret;
          e = e[0 := e ! 0 AND 248];
          e = e[31 := e ! 31 AND 127];
          e = e[31 := e ! 31 OR 64]
      in e)"

definition x25519 :: "bytes \<Rightarrow> bytes \<Rightarrow> bytes \<Rightarrow> bytes" where
  "x25519 out secret public =
     (let e = x25519_clamp secret;
          bp = curve25519_load public;
          (x, z) = x25519_mul e bp;
          z = curve25519_invert z;
          z = curve25519_mul x z;
          z = curve25519_reduce z
      in curve25519_store out z)"

section \<open>The ladder on ring elements\<close>

text \<open>Doubling and differential addition in projective coordinates, RFC 7748.\<close>

definition mont_double :: "gf \<times> gf \<Rightarrow> gf \<times> gf" where
  "mont_double P = (case P of (X, Z) \<Rightarrow>
     let AA = (X + Z) * (X + Z); BB = (X - Z) * (X - Z); E = AA - BB in (AA * BB, E * (AA + 121665 * E)))"

definition mont_add :: "gf \<Rightarrow> gf \<times> gf \<Rightarrow> gf \<times> gf \<Rightarrow> gf \<times> gf" where
  "mont_add q P Q = (case (P, Q) of ((X2, Z2), (X3, Z3)) \<Rightarrow>
     let DA = (X3 - Z3) * (X2 + Z2); CB = (X3 + Z3) * (X2 - Z2)
     in ((DA + CB) * (DA + CB), q * ((DA - CB) * (DA - CB))))"

definition mont_step :: "gf \<Rightarrow> bool \<Rightarrow> (gf \<times> gf) \<times> (gf \<times> gf) \<Rightarrow> (gf \<times> gf) \<times> (gf \<times> gf)" where
  "mont_step q b s = (case s of (P, Q) \<Rightarrow>
     if b then (mont_add q Q P, mont_double Q) else (mont_double P, mont_add q P Q))"

text \<open>The scalar is read from its top bit, as 256 bits.\<close>

definition mont_ladder :: "gf \<Rightarrow> bytes \<Rightarrow> gf \<times> gf" where
  "mont_ladder q n = fst (fold (\<lambda>i. mont_step q (bit (le_nat n) i)) (rev [0..<256]) ((1, 0), (q, 1)))"

section \<open>One step, over any limb field\<close>

context limb_field begin

lemma ladder_laws:
  fixes x0 z0 x1 z1 q :: 'e
  assumes t: "rel (2 ^ 51 + 2 ^ 13) x0 X0" "rel (2 ^ 51 + 2 ^ 13) z0 Z0" "rel (2 ^ 51 + 2 ^ 13) x1 X1" "rel (2 ^ 51 + 2 ^ 13) z1 Z1"
    and q: "rel (2 ^ 51 + 2 ^ 13) q Q"
  defines "a \<equiv> addN x0 z0" and "s \<equiv> subN x0 z0"
  defines "b \<equiv> mul a (subN x1 z1)" and "c \<equiv> mul (addN x1 z1) s"
  defines "aa \<equiv> sqN a 1" and "ss \<equiv> sqN s 1"
  defines "e \<equiv> subN aa ss"
  shows "rel (2 ^ 51 + 2 ^ 13) (mul aa ss) (fst (mont_double (X0, Z0)))"
    "rel (2 ^ 51 + 2 ^ 13) (mul e (addN (mulS e 121665) aa)) (snd (mont_double (X0, Z0)))"
    "rel (2 ^ 51 + 2 ^ 13) (sqN (addN c b) 1) (fst (mont_add Q (X0, Z0) (X1, Z1)))"
    "rel (2 ^ 51 + 2 ^ 13) (mul (sqN (subN c b) 1) q) (snd (mont_add Q (X0, Z0) (X1, Z1)))"
proof -
  have a: "rel (2 ^ 53) a (X0 + Z0)" unfolding a_def by (rule rel_weaken [OF addN_law [OF t(1,2)]]) simp_all
  have s: "rel (2 ^ 53) s (X0 - Z0)" unfolding s_def by (rule rel_weaken [OF subN_law [OF t(1,2)]]) simp_all
  have d: "rel (2 ^ 53) (subN x1 z1) (X1 - Z1)" "rel (2 ^ 53) (addN x1 z1) (X1 + Z1)"
    by (rule rel_weaken [OF subN_law [OF t(3,4)]]; simp) (rule rel_weaken [OF addN_law [OF t(3,4)]]; simp)
  have b: "rel (2 ^ 51 + 2 ^ 13) b ((X0 + Z0) * (X1 - Z1))" and c: "rel (2 ^ 51 + 2 ^ 13) c ((X1 + Z1) * (X0 - Z0))"
    unfolding b_def c_def by (rule mul_tight [OF a d(1)]; simp) (rule mul_tight [OF d(2) s]; simp)
  have aa: "rel (2 ^ 51 + 2 ^ 13) aa ((X0 + Z0) * (X0 + Z0))" and ss: "rel (2 ^ 51 + 2 ^ 13) ss ((X0 - Z0) * (X0 - Z0))"
    unfolding aa_def ss_def by (rule sq_tight [OF a]; simp) (rule sq_tight [OF s]; simp)
  have e: "rel (2 ^ 53) e ((X0 + Z0) * (X0 + Z0) - (X0 - Z0) * (X0 - Z0))"
    unfolding e_def by (rule rel_weaken [OF subN_law [OF aa ss]]) simp_all
  have cb: "rel (2 ^ 53) (addN c b) ((X1 + Z1) * (X0 - Z0) + (X0 + Z0) * (X1 - Z1))"
    "rel (2 ^ 53) (subN c b) ((X1 + Z1) * (X0 - Z0) - (X0 + Z0) * (X1 - Z1))"
    by (rule rel_weaken [OF addN_law [OF c b]]; simp) (rule rel_weaken [OF subN_law [OF c b]]; simp)
  have k: "(of_nat (unat (121665 :: u64)) :: gf) = 121665" by simp
  have se: "rel (2 ^ 53) (addN (mulS e 121665) aa)
      (((X0 + Z0) * (X0 + Z0) - (X0 - Z0) * (X0 - Z0)) * 121665 + (X0 + Z0) * (X0 + Z0))"
    by (rule rel_weaken [OF addN_law [OF mulS_law [OF rel_weaken [OF e], of 121665, unfolded k] aa]]) simp_all
  show "rel (2 ^ 51 + 2 ^ 13) (mul aa ss) (fst (mont_double (X0, Z0)))"
    using mul_tight [OF aa ss] by (simp add: mont_double_def Let_def)
  show "rel (2 ^ 51 + 2 ^ 13) (mul e (addN (mulS e 121665) aa)) (snd (mont_double (X0, Z0)))"
  proof -
    have "((X0 + Z0) * (X0 + Z0) - (X0 - Z0) * (X0 - Z0)) *
        (((X0 + Z0) * (X0 + Z0) - (X0 - Z0) * (X0 - Z0)) * 121665 + (X0 + Z0) * (X0 + Z0)) = snd (mont_double (X0, Z0))"
      unfolding mont_double_def Let_def prod.case snd_conv by (simp only: ac_simps)
    then show ?thesis using mul_tight [OF e se] by simp
  qed
  show "rel (2 ^ 51 + 2 ^ 13) (sqN (addN c b) 1) (fst (mont_add Q (X0, Z0) (X1, Z1)))"
    using sq_tight [OF cb(1)] by (simp add: mont_add_def Let_def ac_simps)
  show "rel (2 ^ 51 + 2 ^ 13) (mul (sqN (subN c b) 1) q) (snd (mont_add Q (X0, Z0) (X1, Z1)))"
  proof -
    have "((X1 + Z1) * (X0 - Z0) - (X0 + Z0) * (X1 - Z1)) * ((X1 + Z1) * (X0 - Z0) - (X0 + Z0) * (X1 - Z1)) * Q =
        snd (mont_add Q (X0, Z0) (X1, Z1))"
      by (simp add: mont_add_def Let_def algebra_simps)
    then show ?thesis using mul_tight [OF sq_tight [OF cb(2)] q] by simp
  qed
qed

end

section \<open>The loop\<close>

definition point_rel :: "fe \<times> fe \<Rightarrow> gf \<times> gf \<Rightarrow> bool" where
  "point_rel p P = (case (p, P) of ((x, z), (X, Z)) \<Rightarrow> fe_rel (2 ^ 51 + 2 ^ 13) x X \<and> fe_rel (2 ^ 51 + 2 ^ 13) z Z)"

text \<open>The code holds the two points exchanged when its swap flag is set.\<close>

definition ladder_rel :: "ladder \<Rightarrow> (gf \<times> gf) \<times> (gf \<times> gf) \<Rightarrow> bool" where
  "ladder_rel s S = (case (s, S) of ((x0, z0, x1, z1, swap), (P, Q)) \<Rightarrow>
     swap = 0 \<and> point_rel (x0, z0) P \<and> point_rel (x1, z1) Q \<or> swap = 1 \<and> point_rel (x0, z0) Q \<and> point_rel (x1, z1) P)"

lemma bit_le_nat: "bit (le_nat xs) i \<longleftrightarrow> i div 8 < length xs \<and> bit (xs ! (i div 8)) (i mod 8)"
proof (induction xs arbitrary: i)
  case (Cons b xs)
  show ?case
  proof (cases "i < 8")
    case True
    then have eq: "(256 :: nat) = 2 ^ i * (2 * 2 ^ (7 - i))" by (simp add: power_add [symmetric] power_Suc [symmetric] del: power_Suc)
    have "le_nat (b # xs) div 2 ^ i = unat b div 2 ^ i + 2 * (2 ^ (7 - i) * le_nat xs)"
      unfolding le_nat.simps eq mult.assoc by simp
    then have "bit (le_nat (b # xs)) i = bit (unat b) i" by (simp only: bit_iff_odd) simp
    then show ?thesis using True by (simp add: bit_unsigned_iff)
  next
    case False
    then obtain k where k: "i = 8 + k" using le_Suc_ex by (metis not_less)
    have "le_nat (b # xs) div 256 = le_nat xs" using unat_lt_256 [of b] by simp
    then have "bit (le_nat (b # xs)) i = bit (le_nat xs) k" by (simp add: bit_iff_odd k power_add div_mult2_eq)
    moreover have "(8 + k) div 8 = Suc (k div 8)" "(8 + k) mod 8 = k mod 8" by simp_all
    ultimately show ?thesis using Cons.IH [of k] by (simp only: k list.size nth_Cons_Suc) simp
  qed
qed simp

lemma x25519_bit_value: "i < 256 \<Longrightarrow> length n = 32 \<Longrightarrow> x25519_bit n i = of_bool (bit (le_nat n) i)"
proof -
  assume "i < 256" "length n = 32"
  then have "bit (le_nat n) i = bit (n ! (i div 8)) (i mod 8)" by (simp add: bit_le_nat div_less_iff_less_mult)
  moreover have "(ucast (w AND 1) :: u64) = of_bool (odd w)" for w :: u8
    by (cases "odd w") (simp_all add: and_one_eq odd_iff_mod_2_eq_one)
  ultimately show ?thesis by (simp only: x25519_bit_def bit_iff_odd_drop_bit [of "n ! (i div 8)"])
qed

lemma step_unswapped:
  assumes "point_rel (x0, z0) P" "point_rel (x1, z1) Q" "fe_rel (2 ^ 51 + 2 ^ 13) q X"
    and "x25519_mul_step n q i (x0, z0, x1, z1, x25519_bit n i) = (x0', z0', x1', z1', swap')"
  shows "point_rel (x0', z0') (mont_double P)" "point_rel (x1', z1') (mont_add X P Q)" "swap' = x25519_bit n i"
proof -
  obtain X0 Z0 X1 Z1 where P: "P = (X0, Z0)" "Q = (X1, Z1)" by (metis prod.exhaust)
  have r: "fe_rel (2 ^ 51 + 2 ^ 13) x0 X0" "fe_rel (2 ^ 51 + 2 ^ 13) z0 Z0" "fe_rel (2 ^ 51 + 2 ^ 13) x1 X1" "fe_rel (2 ^ 51 + 2 ^ 13) z1 Z1"
    using assms(1,2) by (simp_all add: P point_rel_def)
  note l = fe.ladder_laws [OF r assms(3)]
  have o: "x0' = curve25519_mul (curve25519_squareN (curve25519_addNoReduce x0 z0) 1) (curve25519_squareN (curve25519_subNoReduce x0 z0) 1)"
    "swap' = x25519_bit n i"
    using assms(4) by (auto simp: x25519_mul_step_def Let_def cSwap_correct)
  have step: "x25519_mul_step n q i (x0, z0, x1, z1, x25519_bit n i) =
      (let a = curve25519_addNoReduce x0 z0; s = curve25519_subNoReduce x0 z0;
           b = curve25519_mul a (curve25519_subNoReduce x1 z1); c = curve25519_mul (curve25519_addNoReduce x1 z1) s;
           aa = curve25519_squareN a 1; ss = curve25519_squareN s 1; e = curve25519_subNoReduce aa ss
       in (curve25519_mul aa ss, curve25519_mul e (curve25519_addNoReduce (curve25519_mulScalar e 121665) aa),
           curve25519_squareN (curve25519_addNoReduce c b) 1, curve25519_mul (curve25519_squareN (curve25519_subNoReduce c b) 1) q,
           x25519_bit n i))"
    by (simp only: x25519_mul_step_def Let_def prod.case xor_self_eq cSwap_correct)
  show "swap' = x25519_bit n i" by (fact o)
  show "point_rel (x0', z0') (mont_double P)" "point_rel (x1', z1') (mont_add X P Q)"
    using l assms(4) unfolding step Let_def P point_rel_def prod.case by (simp_all add: case_prod_beta)
qed

lemma step_swap:
  assumes "swap = 0 \<or> swap = 1" "i < 256" "length n = 32"
  shows "x25519_mul_step n q i (x0, z0, x1, z1, swap) =
    (if swap = x25519_bit n i then x25519_mul_step n q i (x0, z0, x1, z1, x25519_bit n i)
     else x25519_mul_step n q i (x1, z1, x0, z0, x25519_bit n i))"
proof -
  have "x25519_bit n i = 0 \<or> x25519_bit n i = 1" using x25519_bit_value [OF assms(2,3)] by simp
  then have "swap = x25519_bit n i \<or> swap XOR x25519_bit n i = 1" using assms(1) by auto
  then show ?thesis by (auto simp: x25519_mul_step_def cSwap_correct)
qed

lemma step_refines:
  assumes "ladder_rel s S" "fe_rel (2 ^ 51 + 2 ^ 13) q X" "i < 256" "length n = 32"
  shows "ladder_rel (x25519_mul_step n q i s) (mont_step X (bit (le_nat n) i) S)"
proof -
  obtain x0 z0 x1 z1 swap where s: "s = (x0, z0, x1, z1, swap)" by (metis prod.exhaust)
  obtain P Q where S: "S = (P, Q)" by (cases S)
  have step: "ladder_rel (x25519_mul_step n q i (x0, z0, x1, z1, x25519_bit n i)) (mont_step X (bit (le_nat n) i) (P, Q))"
    if "if bit (le_nat n) i then point_rel (x0, z0) Q \<and> point_rel (x1, z1) P else point_rel (x0, z0) P \<and> point_rel (x1, z1) Q"
    for x0 z0 x1 z1
  proof -
    obtain x0' z0' x1' z1' sw where r: "x25519_mul_step n q i (x0, z0, x1, z1, x25519_bit n i) = (x0', z0', x1', z1', sw)"
      by (metis prod.exhaust)
    show ?thesis
    proof (cases "bit (le_nat n) i")
      case True
      then show ?thesis using step_unswapped [OF _ _ assms(2) r, of Q P] that x25519_bit_value [OF assms(3,4)]
        unfolding r by (simp add: ladder_rel_def mont_step_def)
    next
      case False
      then show ?thesis using step_unswapped [OF _ _ assms(2) r, of P Q] that x25519_bit_value [OF assms(3,4)]
        unfolding r by (simp add: ladder_rel_def mont_step_def)
    qed
  qed
  have sw: "swap = 0 \<or> swap = 1" using assms(1) by (auto simp: ladder_rel_def s S)
  show ?thesis
    unfolding s S step_swap [OF sw assms(3,4)]
    using assms(1) x25519_bit_value [OF assms(3,4)]
    using step [of x0 z0 x1 z1] step [of x1 z1 x0 z0]
    by (cases "bit (le_nat n) i") (auto simp: s S ladder_rel_def [of "(x0, z0, x1, z1, swap)"])
qed

lemma loop_refines:
  assumes "fe_rel (2 ^ 51 + 2 ^ 13) q X" "k \<le> 256" "length n = 32" "ladder_rel s S"
  shows "ladder_rel (x25519_mul_loop n q k s) (fold (\<lambda>i. mont_step X (bit (le_nat n) i)) (rev [0..<k]) S)"
  using assms(2,4)
proof (induction k arbitrary: s S)
  case (Suc k)
  then show ?case using step_refines [OF Suc.prems(2) assms(1) _ assms(3), of k] by simp
qed simp

lemma x25519_mul_refines:
  assumes "fe_rel (2 ^ 51 + 2 ^ 13) q X" "length n = 32"
  shows "point_rel (x25519_mul n q) (mont_ladder X n)"
proof -
  let ?s = "((1, 0, 0, 0, 0), (0, 0, 0, 0, 0), q, (1, 0, 0, 0, 0), 0) :: ladder"
  have "ladder_rel ?s ((1, 0), (X, 1))"
    using assms(1) by (simp add: ladder_rel_def point_rel_def fe_rel_def fe_le_def fe_val_def fe_nat_def)
  then have "ladder_rel (x25519_mul_loop n q 256 ?s) (fold (\<lambda>i. mont_step X (bit (le_nat n) i)) (rev [0..<256]) ((1, 0), (X, 1)))"
    by (intro loop_refines [OF assms(1) _ assms(2)]) simp_all
  then show ?thesis
    unfolding x25519_mul_def mont_ladder_def ladder_rel_def by (auto split: prod.splits simp: cSwap_correct Let_def)
qed

lemma length_clamp: "32 \<le> length secret \<Longrightarrow> length (x25519_clamp secret) = 32"
  by (simp add: x25519_clamp_def Let_def)

section \<open>The function X25519\<close>



end
