(* ===== verification/Ed25519_Modm.thy ===== *)
theory Ed25519_Modm
  imports X25519
begin

text \<open>
  The scalar arithmetic of \<^verbatim>\<open>src/hc/core/hc/crypto/ed25519.c\<close> (\<open>ed25519_modm_*\<close>): numbers modulo the group
  order \<open>m = 2^252 + 27742317777372353535851937790883648493\<close> on four limbs of 56 bits and one of 32,
  with Barrett reduction. The signed digit expansions of scalars are in \<open>Ed25519_Window\<close>.
\<close>

type_synonym modm = "u64 \<times> u64 \<times> u64 \<times> u64 \<times> u64"

section \<open>The code\<close>

definition ed25519_modm_m :: modm where
  "ed25519_modm_m = (0x12631a5cf5d3ed, 0xf9dea2f79cd658, 0x000000000014de, 0x00000000000000, 0x00000010000000)"

definition ed25519_modm_mu :: modm where
  "ed25519_modm_mu = (0x9ce5a30a2c131b, 0x215d086329a7ed, 0xffffffffeb2106, 0xffffffffffffff, 0x00000fffffffff)"

text \<open>
  The subtraction with borrow of one limb, \<open>b = (r - pb) >> 63\<close> and \<open>r - pb + (b << k)\<close>, and the chain
  of five that \<open>ed25519_modm_reduce\<close> and \<open>ed25519_modm_barrettReduce\<close> write out; the top limb is
  completed by \<open>2^k\<close>.
\<close>

definition ed25519_modm_borrow :: "u64 \<Rightarrow> u64 \<Rightarrow> nat \<Rightarrow> u64 \<times> u64" where
  "ed25519_modm_borrow r pb k = (let b = drop_bit 63 (r - pb) in (b, r - pb + push_bit k b))"

definition ed25519_modm_subtract :: "modm \<Rightarrow> modm \<Rightarrow> nat \<Rightarrow> u64 \<times> modm" where
  "ed25519_modm_subtract r s k =
     (case (r, s) of ((r0, r1, r2, r3, r4), (s0, s1, s2, s3, s4)) \<Rightarrow>
        let pb = s0;
            (b, t0) = ed25519_modm_borrow r0 pb 56;
            pb = b + s1;
            (b, t1) = ed25519_modm_borrow r1 pb 56;
            pb = b + s2;
            (b, t2) = ed25519_modm_borrow r2 pb 56;
            pb = b + s3;
            (b, t3) = ed25519_modm_borrow r3 pb 56;
            pb = b + s4;
            (b, t4) = ed25519_modm_borrow r4 pb k
        in (b, (t0, t1, t2, t3, t4)))"

definition ed25519_modm_reduce :: "modm \<Rightarrow> modm" where
  "ed25519_modm_reduce r =
     (let (b, t) = ed25519_modm_subtract r ed25519_modm_m 32;
          mask = b - 1
      in case (r, t) of ((r0, r1, r2, r3, r4), (t0, t1, t2, t3, t4)) \<Rightarrow>
           (r0 XOR (mask AND (r0 XOR t0)), r1 XOR (mask AND (r1 XOR t1)), r2 XOR (mask AND (r2 XOR t2)),
            r3 XOR (mask AND (r3 XOR t3)), r4 XOR (mask AND (r4 XOR t4))))"

text \<open>The product \<open>q3 = (mu * q1) >> 264\<close> of the Barrett reduction.\<close>

definition ed25519_modm_q3 :: "modm \<Rightarrow> modm" where
  "ed25519_modm_q3 q1 =
     (case (ed25519_modm_mu, q1) of ((mu0, mu1, mu2, mu3, mu4), (q10, q11, q12, q13, q14)) \<Rightarrow>
        let c = mul128_64x64 mu0 q13 + mul128_64x64 mu3 q10 + mul128_64x64 mu1 q12 + mul128_64x64 mu2 q11;
            c = ucast (ucast (drop_bit 56 c) :: u64) + mul128_64x64 mu0 q14 + mul128_64x64 mu4 q10 + mul128_64x64 mu3 q11 +
                mul128_64x64 mu1 q13 + mul128_64x64 mu2 q12;
            q30 = drop_bit 40 (ucast c) AND (0xffff :: u64);
            c = ucast (ucast (drop_bit 56 c) :: u64) + mul128_64x64 mu4 q11 + mul128_64x64 mu1 q14 + mul128_64x64 mu2 q13 +
                mul128_64x64 mu3 q12;
            q30 = q30 OR (push_bit 16 (ucast c) AND 0xffffffffffffff);
            q31 = drop_bit 40 (ucast c) AND (0xffff :: u64);
            c = ucast (ucast (drop_bit 56 c) :: u64) + mul128_64x64 mu4 q12 + mul128_64x64 mu2 q14 + mul128_64x64 mu3 q13;
            q31 = q31 OR (push_bit 16 (ucast c) AND 0xffffffffffffff);
            q32 = drop_bit 40 (ucast c) AND (0xffff :: u64);
            c = ucast (ucast (drop_bit 56 c) :: u64) + mul128_64x64 mu4 q13 + mul128_64x64 mu3 q14;
            q32 = q32 OR (push_bit 16 (ucast c) AND 0xffffffffffffff);
            q33 = drop_bit 40 (ucast c) AND (0xffff :: u64);
            c = ucast (ucast (drop_bit 56 c) :: u64) + mul128_64x64 mu4 q14;
            q33 = q33 OR (push_bit 16 (ucast c) AND 0xffffffffffffff);
            q34 = ucast (drop_bit 40 c)
        in (q30, q31, q32, q33, q34))"

text \<open>The product \<open>r2 = m * q3 mod 2^264\<close>.\<close>

definition ed25519_modm_r2 :: "modm \<Rightarrow> modm" where
  "ed25519_modm_r2 q3 =
     (case (ed25519_modm_m, q3) of ((m0, m1, m2, m3, m4), (q30, q31, q32, q33, q34)) \<Rightarrow>
        let c = mul128_64x64 m0 q30;
            r20 = ucast c AND 0xffffffffffffff;
            c = ucast (ucast (drop_bit 56 c) :: u64) + mul128_64x64 m0 q31 + mul128_64x64 m1 q30;
            r21 = ucast c AND 0xffffffffffffff;
            c = ucast (ucast (drop_bit 56 c) :: u64) + mul128_64x64 m0 q32 + mul128_64x64 m2 q30 + mul128_64x64 m1 q31;
            r22 = ucast c AND 0xffffffffffffff;
            c = ucast (ucast (drop_bit 56 c) :: u64) + mul128_64x64 m0 q33 + mul128_64x64 m3 q30 + mul128_64x64 m1 q32 +
                mul128_64x64 m2 q31;
            r23 = ucast c AND 0xffffffffffffff;
            c = ucast (ucast (drop_bit 56 c) :: u64) + mul128_64x64 m0 q34 + mul128_64x64 m4 q30 + mul128_64x64 m3 q31 +
                mul128_64x64 m1 q33 + mul128_64x64 m2 q32;
            r24 = ucast c AND 0x0000ffffffffff
        in (r20, r21, r22, r23, r24))"

definition ed25519_modm_barrettReduce :: "modm \<Rightarrow> modm \<Rightarrow> modm" where
  "ed25519_modm_barrettReduce q1 r1 =
     (let q3 = ed25519_modm_q3 q1;
          r2 = ed25519_modm_r2 q3;
          (b, r) = ed25519_modm_subtract r1 r2 40;
          r = ed25519_modm_reduce r
      in ed25519_modm_reduce r)"

definition ed25519_modm_add :: "modm \<Rightarrow> modm \<Rightarrow> modm" where
  "ed25519_modm_add x y =
     (case (x, y) of ((x0, x1, x2, x3, x4), (y0, y1, y2, y3, y4)) \<Rightarrow>
        let c = x0 + y0;
            r0 = c AND 0xffffffffffffff;
            c = drop_bit 56 c + x1 + y1;
            r1 = c AND 0xffffffffffffff;
            c = drop_bit 56 c + x2 + y2;
            r2 = c AND 0xffffffffffffff;
            c = drop_bit 56 c + x3 + y3;
            r3 = c AND 0xffffffffffffff;
            r4 = drop_bit 56 c + x4 + y4
        in ed25519_modm_reduce (r0, r1, r2, r3, r4))"

text \<open>
  The product of \<open>ed25519_modm_mul\<close>: \<open>r1\<close> is the product modulo \<open>2^264\<close> and \<open>q1\<close> the product shifted
  right by 248 bits.
\<close>

definition ed25519_modm_product :: "modm \<Rightarrow> modm \<Rightarrow> modm \<times> modm" where
  "ed25519_modm_product x y =
     (case (x, y) of ((x0, x1, x2, x3, x4), (y0, y1, y2, y3, y4)) \<Rightarrow>
        let c = mul128_64x64 x0 y0;
            r10 = ucast c AND 0xffffffffffffff;
            c = ucast (ucast (drop_bit 56 c) :: u64) + mul128_64x64 x0 y1 + mul128_64x64 x1 y0;
            r11 = ucast c AND 0xffffffffffffff;
            c = ucast (ucast (drop_bit 56 c) :: u64) + mul128_64x64 x0 y2 + mul128_64x64 x2 y0 + mul128_64x64 x1 y1;
            r12 = ucast c AND 0xffffffffffffff;
            c = ucast (ucast (drop_bit 56 c) :: u64) + mul128_64x64 x0 y3 + mul128_64x64 x3 y0 + mul128_64x64 x1 y2 +
                mul128_64x64 x2 y1;
            r13 = ucast c AND 0xffffffffffffff;
            c = ucast (ucast (drop_bit 56 c) :: u64) + mul128_64x64 x0 y4 + mul128_64x64 x4 y0 + mul128_64x64 x3 y1 +
                mul128_64x64 x1 y3 + mul128_64x64 x2 y2;
            r14 = ucast c AND 0x0000ffffffffff;
            q10 = drop_bit 24 (ucast c) AND (0xffffffff :: u64);
            c = ucast (ucast (drop_bit 56 c) :: u64) + mul128_64x64 x4 y1 + mul128_64x64 x1 y4 + mul128_64x64 x2 y3 +
                mul128_64x64 x3 y2;
            q10 = q10 OR (push_bit 32 (ucast c) AND 0xffffffffffffff);
            q11 = drop_bit 24 (ucast c) AND (0xffffffff :: u64);
            c = ucast (ucast (drop_bit 56 c) :: u64) + mul128_64x64 x4 y2 + mul128_64x64 x2 y4 + mul128_64x64 x3 y3;
            q11 = q11 OR (push_bit 32 (ucast c) AND 0xffffffffffffff);
            q12 = drop_bit 24 (ucast c) AND (0xffffffff :: u64);
            c = ucast (ucast (drop_bit 56 c) :: u64) + mul128_64x64 x4 y3 + mul128_64x64 x3 y4;
            q12 = q12 OR (push_bit 32 (ucast c) AND 0xffffffffffffff);
            q13 = drop_bit 24 (ucast c) AND (0xffffffff :: u64);
            c = ucast (ucast (drop_bit 56 c) :: u64) + mul128_64x64 x4 y4;
            q13 = q13 OR (push_bit 32 (ucast c) AND 0xffffffffffffff);
            q14 = ucast (drop_bit 24 c)
        in ((q10, q11, q12, q13, q14), (r10, r11, r12, r13, r14)))"

definition ed25519_modm_mul :: "modm \<Rightarrow> modm \<Rightarrow> modm" where
  "ed25519_modm_mul x y = (let (q1, r1) = ed25519_modm_product x y in ed25519_modm_barrettReduce q1 r1)"

definition ed25519_modm_load :: "bytes \<Rightarrow> bool \<Rightarrow> modm" where
  "ed25519_modm_load inp size64 =
     (let x0 = mem_loadU64 inp; x1 = mem_loadU64 (drop 8 inp); x2 = mem_loadU64 (drop 16 inp); x3 = mem_loadU64 (drop 24 inp);
          out0 = x0 AND 0xffffffffffffff;
          out1 = (drop_bit 56 x0 OR push_bit 8 x1) AND 0xffffffffffffff;
          out2 = (drop_bit 48 x1 OR push_bit 16 x2) AND 0xffffffffffffff;
          out3 = (drop_bit 40 x2 OR push_bit 24 x3) AND 0xffffffffffffff;
          out4 = drop_bit 32 x3
      in if \<not> size64 then (out0, out1, out2, out3, out4)
         else
           let x4 = mem_loadU64 (drop 32 inp); x5 = mem_loadU64 (drop 40 inp); x6 = mem_loadU64 (drop 48 inp); x7 = mem_loadU64 (drop 56 inp);
               out4 = out4 OR (push_bit 32 x4 AND 0x0000ffffffffff);
               q10 = (drop_bit 56 x3 OR push_bit 8 x4) AND 0xffffffffffffff;
               q11 = (drop_bit 48 x4 OR push_bit 16 x5) AND 0xffffffffffffff;
               q12 = (drop_bit 40 x5 OR push_bit 24 x6) AND 0xffffffffffffff;
               q13 = (drop_bit 32 x6 OR push_bit 32 x7) AND 0xffffffffffffff;
               q14 = drop_bit 24 x7
           in ed25519_modm_barrettReduce (q10, q11, q12, q13, q14) (out0, out1, out2, out3, out4))"

definition ed25519_modm_store :: "bytes \<Rightarrow> nat \<Rightarrow> modm \<Rightarrow> bytes" where
  "ed25519_modm_store m out a =
     (case a of (in0, in1, in2, in3, in4) \<Rightarrow>
        let m = mem_storeU64 m out (in0 OR push_bit 56 in1);
            m = mem_storeU64 m (out + 8) (drop_bit 8 in1 OR push_bit 48 in2);
            m = mem_storeU64 m (out + 16) (drop_bit 16 in2 OR push_bit 40 in3);
            m = mem_storeU64 m (out + 24) (drop_bit 24 in3 OR push_bit 32 in4)
        in m)"

section \<open>Values\<close>

definition modm_nat :: "modm \<Rightarrow> nat" where
  "modm_nat a = (case a of (a0, a1, a2, a3, a4) \<Rightarrow>
     unat a0 + 2 ^ 56 * unat a1 + 2 ^ 112 * unat a2 + 2 ^ 168 * unat a3 + 2 ^ 224 * unat a4)"

definition modm_wf :: "nat \<Rightarrow> modm \<Rightarrow> bool" where
  "modm_wf k a = (case a of (a0, a1, a2, a3, a4) \<Rightarrow>
     unat a0 < 2 ^ 56 \<and> unat a1 < 2 ^ 56 \<and> unat a2 < 2 ^ 56 \<and> unat a3 < 2 ^ 56 \<and> unat a4 < 2 ^ k)"

definition group_order :: nat where
  "group_order = 2 ^ 252 + 27742317777372353535851937790883648493"

lemma modm_m_value: "modm_nat ed25519_modm_m = group_order" "modm_wf 32 ed25519_modm_m"
  by (simp_all add: modm_nat_def ed25519_modm_m_def group_order_def modm_wf_def)

lemma modm_mu_value: "modm_nat ed25519_modm_mu = 2 ^ 512 div group_order" "modm_wf 40 ed25519_modm_mu"
  by (simp_all add: modm_nat_def ed25519_modm_mu_def group_order_def modm_wf_def)

lemma modm_wf_mono: "modm_wf k a \<Longrightarrow> k \<le> n \<Longrightarrow> modm_wf n a"
  by (auto simp: modm_wf_def intro: order.strict_trans2 [OF _ power_increasing])

lemma borrow_step:
  fixes r pb :: u64
  assumes "unat r \<le> 2 ^ 62" "unat pb \<le> 2 ^ 62" "k \<le> 62" "ed25519_modm_borrow r pb k = (b, t)"
  shows "unat pb \<le> unat r \<Longrightarrow> b = 0 \<and> unat t = unat r - unat pb"
    "unat r < unat pb \<Longrightarrow> unat pb \<le> unat r + 2 ^ k \<Longrightarrow> b = 1 \<and> unat t = unat r + 2 ^ k - unat pb"
    "unat r < unat pb \<Longrightarrow> b = 1"
proof -
  have bt: "b = drop_bit 63 (r - pb)" "t = r - pb + push_bit k b" using assms(4) by (auto simp: ed25519_modm_borrow_def Let_def)
  show "b = 0 \<and> unat t = unat r - unat pb" if le: "unat pb \<le> unat r"
  proof -
    have s: "unat (r - pb) = unat r - unat pb" using le by (simp add: unat_sub word_le_nat_alt)
    then have "unat b = 0" unfolding bt unat_drop_bit using assms(1) by simp
    then have "b = 0" by (simp add: unat_eq_0)
    then show ?thesis using s bt by simp
  qed
  have b: "b = 1 \<and> unat (r - pb) = unat r + 2 ^ 64 - unat pb" if lt: "unat r < unat pb"
  proof -
    have s: "unat (r - pb) = unat r + 2 ^ 64 - unat pb"
      using lt by (subst unat_sub_if_size) (simp add: word_size)
    have "unat (r - pb) div 2 ^ 63 = 1" unfolding s using assms(1,2) lt by (intro div_nat_eqI) simp_all
    then have "b = 1" unfolding bt by (intro unat_eqI) (simp add: unat_drop_bit)
    then show ?thesis using s by simp
  qed
  then show "b = 1" if "unat r < unat pb" using that by blast
  show "b = 1 \<and> unat t = unat r + 2 ^ k - unat pb" if lt: "unat r < unat pb" and le: "unat pb \<le> unat r + 2 ^ k"
  proof -
    have p: "unat (push_bit k 1 :: u64) = 2 ^ k"
      unfolding unat_push_bit using assms(3) power_strict_increasing [of k 64 "2::nat"] by simp
    have k: "(2::nat) ^ k \<le> 2 ^ 62" using assms(3) by (rule power_increasing) simp
    have "unat t = (unat r + 2 ^ 64 - unat pb + 2 ^ k) mod 2 ^ 64"
      unfolding bt(2) using b [OF lt] p by (simp add: unat_word_ariths)
    also have "unat r + 2 ^ 64 - unat pb + 2 ^ k = (unat r + 2 ^ k - unat pb) + 2 ^ 64" using le assms(2) by simp
    also have "\<dots> mod 2 ^ 64 = unat r + 2 ^ k - unat pb" using lt k by (simp only: mod_add_self2) simp
    finally show ?thesis using b [OF lt] by simp
  qed
qed

lemma borrow_limb:
  fixes r s b :: u64
  assumes "unat r < 2 ^ 56" "unat s < 2 ^ 56" "unat b \<le> 1" "ed25519_modm_borrow r (b + s) 56 = (b', t)"
  shows "unat t + unat b + unat s = unat r + 2 ^ 56 * unat b'" "unat t < 2 ^ 56" "unat b' \<le> 1"
proof -
  have pb: "unat (b + s) = unat b + unat s" using assms by (intro unat_add64) simp
  note st = borrow_step [OF _ _ _ assms(4)]
  have "unat (b + s) \<le> unat r \<or> unat r < unat (b + s) \<and> unat (b + s) \<le> unat r + 2 ^ 56" using pb assms by auto
  then show "unat t + unat b + unat s = unat r + 2 ^ 56 * unat b'" "unat t < 2 ^ 56" "unat b' \<le> 1"
    using st(1,2) assms pb by auto
qed

lemma subtract_chain_nat:
  fixes r0 r1 r2 r3 r4 :: nat
  assumes "t0 + 0 + s0 = r0 + 2 ^ 56 * b0" "t1 + b0 + s1 = r1 + 2 ^ 56 * b1" "t2 + b1 + s2 = r2 + 2 ^ 56 * b2" "t3 + b2 + s3 = r3 + 2 ^ 56 * b3"
  shows "t0 + 2 ^ 56 * t1 + 2 ^ 112 * t2 + 2 ^ 168 * t3 + (s0 + 2 ^ 56 * s1 + 2 ^ 112 * s2 + 2 ^ 168 * s3) =
    r0 + 2 ^ 56 * r1 + 2 ^ 112 * r2 + 2 ^ 168 * r3 + 2 ^ 224 * b3"
  using assms by simp

lemma modm_lower_bound: "modm_wf k a \<Longrightarrow> a = (a0, a1, a2, a3, a4) \<Longrightarrow>
  unat a0 + 2 ^ 56 * unat a1 + 2 ^ 112 * unat a2 + 2 ^ 168 * unat a3 < 2 ^ 224"
  by (simp add: modm_wf_def)

lemma subtract_top_nat:
  fixes T S R b s4 r4 t4 :: nat
  assumes "T < 2 ^ 224" "b \<le> 1" "T + S = R + 2 ^ 224 * b"
  shows "S + 2 ^ 224 * s4 \<le> R + 2 ^ 224 * r4 \<longleftrightarrow> b + s4 \<le> r4"
    "t4 + b + s4 = r4 + x \<Longrightarrow> T + 2 ^ 224 * t4 + (S + 2 ^ 224 * s4) = R + 2 ^ 224 * r4 + 2 ^ 224 * x"
proof -
  show "S + 2 ^ 224 * s4 \<le> R + 2 ^ 224 * r4 \<longleftrightarrow> b + s4 \<le> r4"
  proof
    assume "b + s4 \<le> r4"
    then show "S + 2 ^ 224 * s4 \<le> R + 2 ^ 224 * r4" using assms by simp
  next
    assume "S + 2 ^ 224 * s4 \<le> R + 2 ^ 224 * r4"
    then show "b + s4 \<le> r4" using assms by simp
  qed
  show "T + 2 ^ 224 * t4 + (S + 2 ^ 224 * s4) = R + 2 ^ 224 * r4 + 2 ^ 224 * x" if "t4 + b + s4 = r4 + x"
    using that assms(3) by simp
qed

lemma subtract_value:
  assumes r: "modm_wf 62 r" and s: "modm_wf 61 s" and k: "k \<le> 62" and res: "ed25519_modm_subtract r s k = (b, t)"
  shows "modm_nat s \<le> modm_nat r \<Longrightarrow> b = 0 \<and> modm_nat t + modm_nat s = modm_nat r \<and> modm_wf 62 t"
    "modm_nat r < modm_nat s \<Longrightarrow> b = 1"
    "modm_nat r < modm_nat s \<Longrightarrow> modm_wf k s \<Longrightarrow> modm_nat t + modm_nat s = modm_nat r + 2 ^ (224 + k) \<and> modm_wf 62 t"
proof -
  obtain r0 r1 r2 r3 r4 where r': "r = (r0, r1, r2, r3, r4)" by (metis prod.exhaust)
  obtain s0 s1 s2 s3 s4 where s': "s = (s0, s1, s2, s3, s4)" by (metis prod.exhaust)
  obtain b0 t0 where 0: "ed25519_modm_borrow r0 s0 56 = (b0, t0)" by fastforce
  obtain b1 t1 where 1: "ed25519_modm_borrow r1 (b0 + s1) 56 = (b1, t1)" by fastforce
  obtain b2 t2 where 2: "ed25519_modm_borrow r2 (b1 + s2) 56 = (b2, t2)" by fastforce
  obtain b3 t3 where 3: "ed25519_modm_borrow r3 (b2 + s3) 56 = (b3, t3)" by fastforce
  obtain b4 t4 where 4: "ed25519_modm_borrow r4 (b3 + s4) k = (b4, t4)" by fastforce
  have bt: "b = b4" "t = (t0, t1, t2, t3, t4)"
    using res by (simp_all add: r' s' ed25519_modm_subtract_def 0 1 2 3 4 Let_def)
  have rb: "unat r0 < 2 ^ 56" "unat r1 < 2 ^ 56" "unat r2 < 2 ^ 56" "unat r3 < 2 ^ 56" "unat r4 < 2 ^ 62"
    and sb: "unat s0 < 2 ^ 56" "unat s1 < 2 ^ 56" "unat s2 < 2 ^ 56" "unat s3 < 2 ^ 56" "unat s4 < 2 ^ 61"
    using r s unfolding r' s' modm_wf_def prod.case by blast+
  have "unat (0 :: u64) \<le> 1" "ed25519_modm_borrow r0 (0 + s0) 56 = (b0, t0)" using 0 by simp_all
  note l0 = borrow_limb [OF rb(1) sb(1) this]
  note l1 = borrow_limb [OF rb(2) sb(2) l0(3) 1]
  note l2 = borrow_limb [OF rb(3) sb(3) l1(3) 2]
  note l3 = borrow_limb [OF rb(4) sb(4) l2(3) 3]
  have pb: "unat (b3 + s4) = unat b3 + unat s4" using l3(3) sb(5) by (intro unat_add64) simp
  let ?T = "unat t0 + 2 ^ 56 * unat t1 + 2 ^ 112 * unat t2 + 2 ^ 168 * unat t3"
    and ?S = "unat s0 + 2 ^ 56 * unat s1 + 2 ^ 112 * unat s2 + 2 ^ 168 * unat s3"
    and ?R = "unat r0 + 2 ^ 56 * unat r1 + 2 ^ 112 * unat r2 + 2 ^ 168 * unat r3"
  have low: "?T + ?S = ?R + 2 ^ 224 * unat b3"
    by (rule subtract_chain_nat [OF _ l1(1) l2(1) l3(1)]) (use l0(1) in simp)
  have T: "?T < 2 ^ 224" using l0(2) l1(2) l2(2) l3(2) by simp
  note top = subtract_top_nat [OF T l3(3) low]
  have vals: "modm_nat t = ?T + 2 ^ 224 * unat t4" "modm_nat s = ?S + 2 ^ 224 * unat s4" "modm_nat r = ?R + 2 ^ 224 * unat r4"
    by (simp_all only: bt r' s' modm_nat_def prod.case)
  have le: "modm_nat s \<le> modm_nat r \<longleftrightarrow> unat (b3 + s4) \<le> unat r4"
    unfolding vals pb by (rule top(1))
  have b62: "unat r4 \<le> 2 ^ 62" "unat (b3 + s4) \<le> 2 ^ 62" using rb(5) sb(5) l3(3) pb by simp_all
  note st = borrow_step [OF b62 k 4]
  have wf: "modm_wf 62 t" if "unat t4 < 2 ^ 62"
    using that l0(2) l1(2) l2(2) l3(2) unfolding bt modm_wf_def prod.case by blast
  show "b = 0 \<and> modm_nat t + modm_nat s = modm_nat r \<and> modm_wf 62 t" if "modm_nat s \<le> modm_nat r"
  proof -
    have *: "b4 = 0" "unat t4 = unat r4 - unat (b3 + s4)" "unat (b3 + s4) \<le> unat r4" using st(1) that le by blast+
    then have "unat t4 + unat b3 + unat s4 = unat r4 + 0" using pb by simp
    from top(2) [OF this] have "modm_nat t + modm_nat s = modm_nat r" unfolding vals by simp
    moreover have "unat t4 < 2 ^ 62" using * rb(5) by linarith
    ultimately show ?thesis using * wf bt(1) by blast
  qed
  show "b = 1" if "modm_nat r < modm_nat s"
    using that le st(3) bt by simp
  show "modm_nat t + modm_nat s = modm_nat r + 2 ^ (224 + k) \<and> modm_wf 62 t" if lt: "modm_nat r < modm_nat s" and "modm_wf k s"
  proof -
    have "unat s4 < 2 ^ k" using \<open>modm_wf k s\<close> unfolding s' modm_wf_def prod.case by blast
    then have "unat (b3 + s4) \<le> unat r4 + 2 ^ k" "unat r4 < unat (b3 + s4)" using pb l3(3) le lt by simp_all
    then have *: "unat t4 = unat r4 + 2 ^ k - unat (b3 + s4)" "unat (b3 + s4) \<le> unat r4 + 2 ^ k" "unat r4 < unat (b3 + s4)"
      using st(2) by blast+
    then have "unat t4 + unat b3 + unat s4 = unat r4 + 2 ^ k" using pb by simp
    moreover have "unat t4 < 2 ^ 62" using * power_increasing [OF k, of "2::nat"] by simp
    ultimately show ?thesis using top(2) wf unfolding vals power_add by blast
  qed
qed

lemma xor_select: "x XOR (0 AND (x XOR y)) = x" "x XOR (- 1 AND (x XOR y)) = y" for x y :: u64
  by (simp_all add: xor.left_commute)

lemma reduce_modm:
  assumes "modm_wf 62 r"
  shows "modm_nat (ed25519_modm_reduce r) = (if modm_nat r < group_order then modm_nat r else modm_nat r - group_order)"
    "modm_wf 62 (ed25519_modm_reduce r)"
proof -
  obtain b t where bt: "ed25519_modm_subtract r ed25519_modm_m 32 = (b, t)" by (metis prod.exhaust)
  have m: "modm_wf 61 ed25519_modm_m" by (rule modm_wf_mono [OF modm_m_value(2)]) simp
  note sv = subtract_value [OF assms m _ bt, unfolded modm_m_value(1)]
  have "ed25519_modm_reduce r = (if b = 1 then r else t)" if "b = 0 \<or> b = 1"
    using that by (auto simp: ed25519_modm_reduce_def bt xor_select split: prod.splits)
  then show "modm_nat (ed25519_modm_reduce r) = (if modm_nat r < group_order then modm_nat r else modm_nat r - group_order)"
    "modm_wf 62 (ed25519_modm_reduce r)"
    using sv(1,2) assms by (cases "modm_nat r < group_order"; force)+
qed

section \<open>Carry chains\<close>

lemma carry_step:
  fixes c :: u128
  assumes "unat c \<le> 2 ^ 116" "N \<le> 2 ^ 116"
  shows "unat (ucast (ucast (drop_bit 56 c) :: u64) + word_of_nat N :: u128) = unat c div 2 ^ 56 + N"
proof -
  have "unat c div 2 ^ 56 \<le> 2 ^ 60" using div_le_mono [OF assms(1), of "2 ^ 56"] by simp
  moreover have N: "unat (word_of_nat N :: u128) = N" using assms(2) by (intro unat_of_nat_128) simp
  ultimately show ?thesis
    using carry128 [of c 56 "word_of_nat N"] assms(2) by (simp add: add.commute)
qed

lemma mask_56: "(0xffffffffffffff :: u64) = mask 56" "(0x0000ffffffffff :: u64) = mask 40" "(0xffff :: u64) = mask 16" "(0xffffffff :: u64) = mask 32"
  by (simp_all add: mask_eq_exp_minus_1)

lemma low_bits: "k \<le> 64 \<Longrightarrow> unat (ucast c AND mask k :: u64) = unat c mod 2 ^ k" for c :: u128
  by (simp only: unat_and_mask unat_ucast_low)

lemma push_mask: "push_bit b w AND mask (b + n) = push_bit b (w AND mask n)" for w :: u64
  by (rule bit_word_eqI) (auto simp: bit_simps)

lemma join_digits:
  fixes c d :: u128
  assumes "a + b = 56"
  shows "unat ((drop_bit a (ucast c) AND mask b) OR (push_bit b (ucast d) AND mask 56) :: u64) =
    unat c mod 2 ^ 56 div 2 ^ a + 2 ^ b * (unat d mod 2 ^ a)"
proof -
  let ?lo = "drop_bit a (ucast c) AND mask b :: u64" and ?hi = "ucast d AND mask a :: u64"
  have lo: "unat ?lo = unat c mod 2 ^ 56 div 2 ^ a"
  proof -
    have "unat ?lo = unat (ucast c :: u64) div 2 ^ a mod 2 ^ b" by (simp only: unat_and_mask unat_drop_bit)
    also have "\<dots> = unat (ucast c :: u64) mod 2 ^ (a + b) div 2 ^ a" by (simp only: power_add mod_mult2_eq) simp
    also have "\<dots> = unat c mod 2 ^ 56 div 2 ^ a" using unat_ucast_low [of 56 c] by (simp only: assms)
    finally show ?thesis .
  qed
  have hi: "unat ?hi = unat d mod 2 ^ a" using assms by (intro low_bits) simp
  have "unat ?lo < 2 ^ b" by (simp only: unat_and_mask) simp
  then have "unat (?lo OR push_bit b ?hi) = unat ?lo + unat ?hi mod 2 ^ (64 - b) * 2 ^ b" using assms by (intro unat_or_push) simp_all
  moreover have "unat ?hi mod 2 ^ (64 - b) = unat ?hi"
  proof -
    have "unat ?hi < 2 ^ a" unfolding hi by simp
    also have "(2::nat) ^ a \<le> 2 ^ (64 - b)" using assms by (intro power_increasing) simp_all
    finally show ?thesis by simp
  qed
  moreover have "push_bit b (ucast d) AND mask 56 = push_bit b ?hi" using push_mask [of b "ucast d" a] assms by (simp add: add.commute)
  ultimately show ?thesis by (simp only: lo hi mult.commute)
qed

lemma top_digit: "unat c div 2 ^ a < 2 ^ 64 \<Longrightarrow> unat (ucast (drop_bit a c) :: u64) = unat c div 2 ^ a" for c :: u128
  by (subst unat_ucast_small) (simp_all add: unat_drop_bit)

lemma limb_product_56: "x < 2 ^ 56 \<Longrightarrow> y < 2 ^ 56 \<Longrightarrow> x * y \<le> 2 ^ 112" for x y :: nat
  using mult_le_mono [of x "2 ^ 56" y "2 ^ 56"] by simp

text \<open>The carries of a column sum, least column first.\<close>

definition columns :: "nat list \<Rightarrow> nat" where
  "columns cs = foldr (\<lambda>c v. c + 2 ^ 56 * v) cs 0"

lemma columns_simps [simp]: "columns [] = 0" "columns (c # cs) = c + 2 ^ 56 * columns cs"
  by (simp_all add: columns_def)

fun chain :: "nat \<Rightarrow> nat list \<Rightarrow> nat list" where
  "chain k [] = []"
| "chain k (c # cs) = (k + c) # chain ((k + c) div 2 ^ 56) cs"

text \<open>The digits of a carried column sum, shifted right by \<open>a\<close> bits, and cut at the low 40 bits of the last column.\<close>

fun shifted :: "nat \<Rightarrow> nat list \<Rightarrow> nat" where
  "shifted a [] = 0"
| "shifted a [C] = C div 2 ^ a"
| "shifted a (C # D # Cs) = (C mod 2 ^ 56 div 2 ^ a + 2 ^ (56 - a) * (D mod 2 ^ a)) + 2 ^ 56 * shifted a (D # Cs)"

fun truncated :: "nat list \<Rightarrow> nat" where
  "truncated [] = 0"
| "truncated [C] = C mod 2 ^ 40"
| "truncated (C # D # Cs) = C mod 2 ^ 56 + 2 ^ 56 * truncated (D # Cs)"

lemma low_digit_mod: "x < d \<Longrightarrow> (x + d * V) mod (d * e) = x + d * (V mod e)" for x d V e :: nat
  by (simp add: mod_mult2_eq)

lemma split_56: "X + 2 ^ 56 * c = X mod 2 ^ 56 + 2 ^ 56 * (X div 2 ^ 56 + c)" for X c :: nat
  unfolding distrib_left add.assoc [symmetric] by (simp only: mod_mult_div_eq)

lemma shift_56:
  fixes x V Y :: nat
  assumes "a \<le> 56" "V mod 2 ^ a = Y mod 2 ^ a"
  shows "(x + 2 ^ 56 * V) div 2 ^ a = (x div 2 ^ a + 2 ^ (56 - a) * (Y mod 2 ^ a)) + 2 ^ 56 * (V div 2 ^ a)"
proof -
  have e: "(2::nat) ^ 56 = 2 ^ a * 2 ^ (56 - a)" using assms(1) by (simp only: power_add [symmetric]) simp
  have "(x + 2 ^ 56 * V) div 2 ^ a = x div 2 ^ a + 2 ^ (56 - a) * V" unfolding e mult.assoc by simp
  moreover have "2 ^ (56 - a) * V = 2 ^ (56 - a) * (V mod 2 ^ a + 2 ^ a * (V div 2 ^ a))" by (simp only: mod_mult_div_eq)
  ultimately show ?thesis unfolding assms(2) e distrib_left by (simp only: ac_simps)
qed

lemma shifted_chain: "a \<le> 56 \<Longrightarrow> cs \<noteq> [] \<Longrightarrow> shifted a (chain k cs) = (k + columns cs) div 2 ^ a"
proof (induction cs arbitrary: k rule: induct_list012)
  case (3 c d cs)
  let ?X = "k + c"
  let ?V = "?X div 2 ^ 56 + columns (d # cs)" and ?Y = "?X div 2 ^ 56 + d"
  have "(2::nat) ^ 56 = 2 ^ a * 2 ^ (56 - a)" using 3(3) by (simp only: power_add [symmetric]) simp
  then have "?V = ?Y + 2 ^ a * (2 ^ (56 - a) * columns cs)" by (simp only: columns_simps mult.assoc add.assoc)
  then have "?V mod 2 ^ a = ?Y mod 2 ^ a" by (simp only: mod_mult_self2)
  then have "(?X mod 2 ^ 56 + 2 ^ 56 * ?V) div 2 ^ a =
      (?X mod 2 ^ 56 div 2 ^ a + 2 ^ (56 - a) * (?Y mod 2 ^ a)) + 2 ^ 56 * shifted a (chain (?X div 2 ^ 56) (d # cs))"
    using 3(2) [of "?X div 2 ^ 56"] 3(3) by (simp only: shift_56 list.distinct simp_thms)
  moreover have "k + columns (c # d # cs) = ?X mod 2 ^ 56 + 2 ^ 56 * ?V"
    unfolding columns_simps(2) [of c] add.assoc [symmetric] by (rule split_56)
  ultimately show ?case by (simp only: chain.simps shifted.simps)
qed simp_all

lemma truncated_chain: "cs \<noteq> [] \<Longrightarrow> truncated (chain k cs) = (k + columns cs) mod 2 ^ (56 * (length cs - 1) + 40)"
proof (induction cs arbitrary: k rule: induct_list012)
  case (3 c d cs)
  let ?X = "k + c"
  let ?V = "?X div 2 ^ 56 + columns (d # cs)" and ?n = "56 * length cs + 40"
  have "k + columns (c # d # cs) = ?X mod 2 ^ 56 + 2 ^ 56 * ?V"
    unfolding columns_simps(2) [of c] add.assoc [symmetric] by (rule split_56)
  then have "(k + columns (c # d # cs)) mod 2 ^ (56 + ?n) = ?X mod 2 ^ 56 + 2 ^ 56 * (?V mod 2 ^ ?n)"
    by (simp only: power_add [of 2 56] low_digit_mod mod_less_divisor zero_less_power zero_less_numeral)
  moreover have "56 * (length (c # d # cs) - 1) + 40 = 56 + ?n" by simp
  ultimately show ?case using 3(2) [of "?X div 2 ^ 56"] by (simp only: chain.simps truncated.simps) simp
qed simp_all

lemma chain_div: "(k + columns (c # cs)) div 2 ^ 56 = (k + c) div 2 ^ 56 + columns cs"
  unfolding columns_simps(2) add.assoc [symmetric] by simp

lemma last_chain: "cs \<noteq> [] \<Longrightarrow> last (chain k cs) = (k + columns cs) div 2 ^ (56 * (length cs - 1))"
proof (induction cs arbitrary: k rule: induct_list012)
  case (3 c d cs)
  have "last (chain k (c # d # cs)) = ((k + c) div 2 ^ 56 + columns (d # cs)) div 2 ^ (56 * length cs)"
    using 3(2) [of "(k + c) div 2 ^ 56"] by simp
  moreover have "56 * (length (c # d # cs) - 1) = 56 + 56 * length cs" by simp
  ultimately show ?case by (simp only: power_add div_mult2_eq chain_div)
qed simp_all

lemma modm_nat_less: "modm_wf k a \<Longrightarrow> modm_nat a < 2 ^ (224 + k)"
proof -
  assume wf: "modm_wf k a"
  obtain a0 a1 a2 a3 a4 where a: "a = (a0, a1, a2, a3, a4)" by (metis prod.exhaust)
  have "unat a4 + 1 \<le> 2 ^ k" using wf by (simp add: modm_wf_def a Suc_leI)
  then have "2 ^ 224 * (unat a4 + 1) \<le> 2 ^ (224 + k)" unfolding power_add by (rule mult_le_mono2)
  moreover have "2 ^ 224 * (unat a4 + 1) = 2 ^ 224 * unat a4 + 2 ^ 224" by simp
  ultimately show ?thesis using modm_lower_bound [OF wf a] unfolding a modm_nat_def prod.case by linarith
qed

lemma columns_less: "unat c \<le> 2 ^ 116 \<Longrightarrow> unat c div 2 ^ 56 \<le> 2 ^ 60" for c :: u128
  using div_le_mono [of "unat c" "2 ^ 116" "2 ^ 56"] by simp

lemma carry_step_bound:
  fixes c :: u128
  assumes "unat c \<le> 2 ^ 116" "N \<le> 5 * 2 ^ 112"
  shows "unat (ucast (ucast (drop_bit 56 c) :: u64) + word_of_nat N :: u128) = unat c div 2 ^ 56 + N"
    "unat (ucast (ucast (drop_bit 56 c) :: u64) + word_of_nat N :: u128) \<le> 2 ^ 116"
proof -
  show s: "unat (ucast (ucast (drop_bit 56 c) :: u64) + word_of_nat N :: u128) = unat c div 2 ^ 56 + N"
    using assms by (intro carry_step) simp_all
  show "unat (ucast (ucast (drop_bit 56 c) :: u64) + word_of_nat N :: u128) \<le> 2 ^ 116"
    unfolding s using columns_less [OF assms(1)] assms(2) by simp
qed

lemma joined_digit:
  fixes c d :: u128
  assumes "a + b = 56"
  shows "unat c mod 2 ^ 56 div 2 ^ a + 2 ^ b * (unat d mod 2 ^ a) < 2 ^ 56"
proof -
  have "unat c mod 2 ^ 56 div 2 ^ a < 2 ^ b"
    using assms by (intro less_mult_imp_div_less) (simp add: power_add [symmetric] add.commute)
  moreover have "unat d mod 2 ^ a + 1 \<le> 2 ^ a" by (simp add: Suc_leI)
  then have "2 ^ b * (unat d mod 2 ^ a + 1) \<le> 2 ^ b * 2 ^ a" by (rule mult_le_mono2)
  moreover have "(2::nat) ^ b * 2 ^ a = 2 ^ 56" using assms by (simp add: power_add [symmetric] add.commute)
  ultimately show ?thesis by simp
qed

lemma columns_product:
  fixes a0 a1 a2 a3 a4 b0 b1 b2 b3 b4 :: nat
  shows "(a0 + 2 ^ 56 * a1 + 2 ^ 112 * a2 + 2 ^ 168 * a3 + 2 ^ 224 * a4) * (b0 + 2 ^ 56 * b1 + 2 ^ 112 * b2 + 2 ^ 168 * b3 + 2 ^ 224 * b4) =
    columns [a0 * b0, a0 * b1 + a1 * b0, a0 * b2 + a2 * b0 + a1 * b1, a0 * b3 + a3 * b0 + a1 * b2 + a2 * b1,
      a0 * b4 + a4 * b0 + a3 * b1 + a1 * b3 + a2 * b2, a4 * b1 + a1 * b4 + a2 * b3 + a3 * b2, a4 * b2 + a2 * b4 + a3 * b3,
      a4 * b3 + a3 * b4, a4 * b4]"
  by (simp add: algebra_simps)

lemma digits_5: "modm_nat (w0, w1, w2, w3, w4) = columns [unat w0, unat w1, unat w2, unat w3, unat w4]"
  by (simp add: modm_nat_def)

lemma q3_value:
  assumes "modm_wf 40 q1"
  shows "\<exists>E P. E < 2 ^ 230 \<and> modm_nat ed25519_modm_mu * modm_nat q1 = P + E \<and> modm_nat (ed25519_modm_q3 q1) = P div 2 ^ 264"
    "modm_wf 56 (ed25519_modm_q3 q1)"
proof -
  obtain q0 q1' q2 q3 q4 where q: "q1 = (q0, q1', q2, q3, q4)" by (metis prod.exhaust)
  obtain m0 m1 m2 m3 m4 where m: "ed25519_modm_mu = (m0, m1, m2, m3, m4)" by (metis prod.exhaust)
  have qb: "unat q0 < 2 ^ 56" "unat q1' < 2 ^ 56" "unat q2 < 2 ^ 56" "unat q3 < 2 ^ 56" "unat q4 < 2 ^ 40"
    and mb: "unat m0 < 2 ^ 56" "unat m1 < 2 ^ 56" "unat m2 < 2 ^ 56" "unat m3 < 2 ^ 56" "unat m4 < 2 ^ 40"
    using assms modm_mu_value(2) unfolding q m modm_wf_def prod.case by blast+
  have q56: "unat q4 < 2 ^ 56" and m56: "unat m4 < 2 ^ 56" using qb(5) mb(5) by simp_all
  note le = limb_product_56
  define c3 where "c3 = unat m0 * unat q3 + (unat m3 * unat q0 + (unat m1 * unat q2 + unat m2 * unat q1'))"
  define c4 where "c4 = unat m0 * unat q4 + (unat m4 * unat q0 + (unat m3 * unat q1' + (unat m1 * unat q3 + unat m2 * unat q2)))"
  define c5 where "c5 = unat m4 * unat q1' + (unat m1 * unat q4 + (unat m2 * unat q3 + unat m3 * unat q2))"
  define c6 where "c6 = unat m4 * unat q2 + (unat m2 * unat q4 + unat m3 * unat q3)"
  define c7 where "c7 = unat m4 * unat q3 + unat m3 * unat q4"
  define c8 where "c8 = unat m4 * unat q4"
  have b: "c3 \<le> 5 * 2 ^ 112" "c4 \<le> 5 * 2 ^ 112" "c5 \<le> 5 * 2 ^ 112" "c6 \<le> 5 * 2 ^ 112" "c7 \<le> 5 * 2 ^ 112"
    using le [OF mb(1) qb(4)] le [OF mb(4) qb(1)] le [OF mb(2) qb(3)] le [OF mb(3) qb(2)]
      le [OF mb(1) q56] le [OF m56 qb(1)] le [OF mb(4) qb(2)] le [OF mb(2) qb(4)] le [OF mb(3) qb(3)]
      le [OF m56 qb(2)] le [OF mb(2) q56] le [OF mb(3) qb(4)] le [OF mb(4) qb(3)]
      le [OF m56 qb(3)] le [OF mb(3) q56] le [OF mb(4) qb(4)] le [OF m56 qb(4)] le [OF mb(4) q56]
    unfolding c3_def c4_def c5_def c6_def c7_def by linarith+
  have b8: "c8 \<le> 2 ^ 80" using mult_le_mono [OF less_imp_le [OF mb(5)] less_imp_le [OF qb(5)]] by (simp add: c8_def)
  then have b8': "c8 \<le> 5 * 2 ^ 112" by simp
  define C3 where "C3 = (word_of_nat c3 :: u128)"
  define C4 where "C4 = ucast (ucast (drop_bit 56 C3) :: u64) + (word_of_nat c4 :: u128)"
  define C5 where "C5 = ucast (ucast (drop_bit 56 C4) :: u64) + (word_of_nat c5 :: u128)"
  define C6 where "C6 = ucast (ucast (drop_bit 56 C5) :: u64) + (word_of_nat c6 :: u128)"
  define C7 where "C7 = ucast (ucast (drop_bit 56 C6) :: u64) + (word_of_nat c7 :: u128)"
  define C8 where "C8 = ucast (ucast (drop_bit 56 C7) :: u64) + (word_of_nat c8 :: u128)"
  have C3: "unat C3 = c3" "unat C3 \<le> 2 ^ 116" using b(1) unat_of_nat_128 [of c3] by (simp_all add: C3_def)
  note C4 = carry_step_bound [OF C3(2) b(2), folded C4_def]
  note C5 = carry_step_bound [OF C4(2) b(3), folded C5_def]
  note C6 = carry_step_bound [OF C5(2) b(4), folded C6_def]
  note C7 = carry_step_bound [OF C6(2) b(5), folded C7_def]
  note C8 = carry_step_bound [OF C7(2) b8', folded C8_def]
  have t: "unat C8 div 2 ^ 40 < 2 ^ 56"
    using C8(1) b8 columns_less [OF C7(2)] by (intro less_mult_imp_div_less) simp
  have eq: "ed25519_modm_q3 q1 =
      ((drop_bit 40 (ucast C4) AND mask 16) OR (push_bit 16 (ucast C5) AND mask 56), (drop_bit 40 (ucast C5) AND mask 16) OR (push_bit 16 (ucast C6) AND mask 56),
       (drop_bit 40 (ucast C6) AND mask 16) OR (push_bit 16 (ucast C7) AND mask 56), (drop_bit 40 (ucast C7) AND mask 16) OR (push_bit 16 (ucast C8) AND mask 56),
       ucast (drop_bit 40 C8))"
    unfolding ed25519_modm_q3_def m q prod.case Let_def mul128_of_nat add.assoc of_nat_add [symmetric] mask_56
      c3_def c4_def c5_def c6_def c7_def c8_def C3_def C4_def C5_def C6_def C7_def C8_def ..
  have j: "40 + 16 = (56::nat)" by simp
  have top: "unat (ucast (drop_bit 40 C8) :: u64) = unat C8 div 2 ^ 40" using t by (intro top_digit) simp
  note digits = join_digits [OF j] top
  show "modm_wf 56 (ed25519_modm_q3 q1)"
    unfolding eq modm_wf_def prod.case digits using joined_digit [OF j] t by blast
  have "modm_nat (ed25519_modm_q3 q1) = shifted 40 (chain (c3 div 2 ^ 56) [c4, c5, c6, c7, c8])"
  proof -
    have "chain (c3 div 2 ^ 56) [c4, c5, c6, c7, c8] = [unat C4, unat C5, unat C6, unat C7, unat C8]"
      unfolding C8(1) C7(1) C6(1) C5(1) C4(1) C3(1) chain.simps ..
    moreover have "56 - 40 = (16::nat)" by simp
    ultimately show ?thesis
      unfolding eq digits_5 digits by (simp only: shifted.simps columns_simps mult_0_right add_0_right)
  qed
  also have "\<dots> = (c3 div 2 ^ 56 + columns [c4, c5, c6, c7, c8]) div 2 ^ 40" by (rule shifted_chain) simp_all
  also have "\<dots> = (2 ^ 168 * (c3 + 2 ^ 56 * columns [c4, c5, c6, c7, c8])) div 2 ^ 264"
  proof -
    have "(2 ^ 168 * (c + 2 ^ 56 * V)) div 2 ^ 264 = (c div 2 ^ 56 + V) div 2 ^ 40" for c V :: nat
    proof -
      have "(2 ^ 168 * (c + 2 ^ 56 * V)) div 2 ^ 168 = c + 2 ^ 56 * V" by simp
      moreover have "(c + 2 ^ 56 * V) div 2 ^ 56 = c div 2 ^ 56 + V" by simp
      moreover have "(2::nat) ^ 264 = 2 ^ 168 * 2 ^ 56 * 2 ^ 40" by (simp only: power_add [symmetric]) simp
      ultimately show ?thesis by (simp only: div_mult2_eq)
    qed
    then show ?thesis by simp
  qed
  finally have v: "modm_nat (ed25519_modm_q3 q1) = (2 ^ 168 * (c3 + 2 ^ 56 * columns [c4, c5, c6, c7, c8])) div 2 ^ 264" .
  let ?E = "columns [unat m0 * unat q0, unat m0 * unat q1' + unat m1 * unat q0, unat m0 * unat q2 + unat m2 * unat q0 + unat m1 * unat q1']"
  have "?E < 2 ^ 230"
    using le [OF mb(1) qb(1)] le [OF mb(1) qb(2)] le [OF mb(2) qb(1)] le [OF mb(1) qb(3)] le [OF mb(3) qb(1)] le [OF mb(2) qb(2)] by simp
  moreover have "modm_nat ed25519_modm_mu * modm_nat q1 = 2 ^ 168 * (c3 + 2 ^ 56 * columns [c4, c5, c6, c7, c8]) + ?E"
    unfolding m q modm_nat_def prod.case columns_product by (simp add: c3_def c4_def c5_def c6_def c7_def c8_def)
  ultimately show "\<exists>E P. E < 2 ^ 230 \<and> modm_nat ed25519_modm_mu * modm_nat q1 = P + E \<and> modm_nat (ed25519_modm_q3 q1) = P div 2 ^ 264"
    using v by blast
qed

lemma truncated_5: "truncated [a, b, c, d, e] = columns [a mod 2 ^ 56, b mod 2 ^ 56, c mod 2 ^ 56, d mod 2 ^ 56, e mod 2 ^ 40]"
  by (simp only: truncated.simps columns_simps mult_0_right add_0_right)

lemma shifted_5:
  assumes "a + b = 56"
  shows "shifted a [C, D, E, F, G] = columns [C mod 2 ^ 56 div 2 ^ a + 2 ^ b * (D mod 2 ^ a), D mod 2 ^ 56 div 2 ^ a + 2 ^ b * (E mod 2 ^ a),
    E mod 2 ^ 56 div 2 ^ a + 2 ^ b * (F mod 2 ^ a), F mod 2 ^ 56 div 2 ^ a + 2 ^ b * (G mod 2 ^ a), G div 2 ^ a]"
proof -
  have "56 - a = b" using assms by simp
  then show ?thesis by (simp only: shifted.simps columns_simps mult_0_right add_0_right)
qed

lemma r2_value:
  assumes "modm_wf 56 q3"
  shows "modm_nat (ed25519_modm_r2 q3) = group_order * modm_nat q3 mod 2 ^ 264" "modm_wf 40 (ed25519_modm_r2 q3)"
proof -
  obtain y0 y1 y2 y3 y4 where y: "q3 = (y0, y1, y2, y3, y4)" by (metis prod.exhaust)
  obtain x0 x1 x2 x3 x4 where x: "ed25519_modm_m = (x0, x1, x2, x3, x4)" by (metis prod.exhaust)
  have yb: "unat y0 < 2 ^ 56" "unat y1 < 2 ^ 56" "unat y2 < 2 ^ 56" "unat y3 < 2 ^ 56" "unat y4 < 2 ^ 56"
    and xb: "unat x0 < 2 ^ 56" "unat x1 < 2 ^ 56" "unat x2 < 2 ^ 56" "unat x3 < 2 ^ 56" "unat x4 < 2 ^ 56"
    using assms modm_wf_mono [OF modm_m_value(2), of 56] unfolding x y modm_wf_def prod.case by simp_all
  note le = limb_product_56
  define c0 where "c0 = unat x0 * unat y0"
  define c1 where "c1 = unat x0 * unat y1 + unat x1 * unat y0"
  define c2 where "c2 = unat x0 * unat y2 + (unat x2 * unat y0 + unat x1 * unat y1)"
  define c3 where "c3 = unat x0 * unat y3 + (unat x3 * unat y0 + (unat x1 * unat y2 + unat x2 * unat y1))"
  define c4 where "c4 = unat x0 * unat y4 + (unat x4 * unat y0 + (unat x3 * unat y1 + (unat x1 * unat y3 + unat x2 * unat y2)))"
  have b: "c0 \<le> 5 * 2 ^ 112" "c1 \<le> 5 * 2 ^ 112" "c2 \<le> 5 * 2 ^ 112" "c3 \<le> 5 * 2 ^ 112" "c4 \<le> 5 * 2 ^ 112"
    using le [OF xb(1) yb(1)] le [OF xb(1) yb(2)] le [OF xb(2) yb(1)] le [OF xb(1) yb(3)] le [OF xb(3) yb(1)] le [OF xb(2) yb(2)]
      le [OF xb(1) yb(4)] le [OF xb(4) yb(1)] le [OF xb(2) yb(3)] le [OF xb(3) yb(2)]
      le [OF xb(1) yb(5)] le [OF xb(5) yb(1)] le [OF xb(4) yb(2)] le [OF xb(2) yb(4)] le [OF xb(3) yb(3)]
    unfolding c0_def c1_def c2_def c3_def c4_def by linarith+
  define C0 where "C0 = (word_of_nat c0 :: u128)"
  define C1 where "C1 = ucast (ucast (drop_bit 56 C0) :: u64) + (word_of_nat c1 :: u128)"
  define C2 where "C2 = ucast (ucast (drop_bit 56 C1) :: u64) + (word_of_nat c2 :: u128)"
  define C3 where "C3 = ucast (ucast (drop_bit 56 C2) :: u64) + (word_of_nat c3 :: u128)"
  define C4 where "C4 = ucast (ucast (drop_bit 56 C3) :: u64) + (word_of_nat c4 :: u128)"
  have C0: "unat C0 = 0 + c0" "unat C0 \<le> 2 ^ 116" using b(1) unat_of_nat_128 [of c0] by (simp_all add: C0_def)
  note C1 = carry_step_bound [OF C0(2) b(2), folded C1_def]
  note C2 = carry_step_bound [OF C1(2) b(3), folded C2_def]
  note C3 = carry_step_bound [OF C2(2) b(4), folded C3_def]
  note C4 = carry_step_bound [OF C3(2) b(5), folded C4_def]
  have eq: "ed25519_modm_r2 q3 = (ucast C0 AND mask 56, ucast C1 AND mask 56, ucast C2 AND mask 56, ucast C3 AND mask 56, ucast C4 AND mask 40)"
    unfolding ed25519_modm_r2_def x y prod.case Let_def mul128_of_nat add.assoc of_nat_add [symmetric] mask_56
      c0_def c1_def c2_def c3_def c4_def C0_def C1_def C2_def C3_def C4_def ..
  have low: "unat (ucast c AND mask 56 :: u64) = unat c mod 2 ^ 56" "unat (ucast c AND mask 40 :: u64) = unat c mod 2 ^ 40" for c :: u128
    by (simp_all only: low_bits)
  have ch: "chain 0 [c0, c1, c2, c3, c4] = [unat C0, unat C1, unat C2, unat C3, unat C4]"
    unfolding C4(1) C3(1) C2(1) C1(1) C0(1) chain.simps ..
  have "modm_nat (ed25519_modm_r2 q3) = truncated (chain 0 [c0, c1, c2, c3, c4])"
    unfolding eq digits_5 low ch truncated_5 ..
  also have "\<dots> = columns [c0, c1, c2, c3, c4] mod 2 ^ 264"
    using truncated_chain [of "[c0, c1, c2, c3, c4]" 0] by simp
  finally have v: "modm_nat (ed25519_modm_r2 q3) = columns [c0, c1, c2, c3, c4] mod 2 ^ 264" .
  have "group_order * modm_nat q3 = columns [c0, c1, c2, c3, c4] + 2 ^ 264 * (2 ^ 16 * columns [unat x4 * unat y1 + unat x1 * unat y4 + unat x2 * unat y3 + unat x3 * unat y2,
      unat x4 * unat y2 + unat x2 * unat y4 + unat x3 * unat y3, unat x4 * unat y3 + unat x3 * unat y4, unat x4 * unat y4])"
    unfolding modm_m_value(1) [symmetric] x y modm_nat_def prod.case columns_product by (simp add: c0_def c1_def c2_def c3_def c4_def)
  then show "modm_nat (ed25519_modm_r2 q3) = group_order * modm_nat q3 mod 2 ^ 264" unfolding v by (simp only: mod_mult_self2)
  have "z mod 2 ^ 56 < 2 ^ 56" "z mod 2 ^ 40 < 2 ^ 40" for z :: nat by simp_all
  then show "modm_wf 40 (ed25519_modm_r2 q3)" unfolding eq modm_wf_def prod.case low by blast
qed

lemma product_value:
  assumes "modm_wf 32 x" "modm_wf 32 y" "ed25519_modm_product x y = (q1, r1)"
  shows "modm_nat q1 = modm_nat x * modm_nat y div 2 ^ 248" "modm_nat r1 = modm_nat x * modm_nat y mod 2 ^ 264" "modm_wf 40 q1" "modm_wf 40 r1"
proof -
  obtain y0 y1 y2 y3 y4 where y: "y = (y0, y1, y2, y3, y4)" by (metis prod.exhaust)
  obtain x0 x1 x2 x3 x4 where x: "x = (x0, x1, x2, x3, x4)" by (metis prod.exhaust)
  have yb: "unat y0 < 2 ^ 56" "unat y1 < 2 ^ 56" "unat y2 < 2 ^ 56" "unat y3 < 2 ^ 56" "unat y4 < 2 ^ 56"
    and xb: "unat x0 < 2 ^ 56" "unat x1 < 2 ^ 56" "unat x2 < 2 ^ 56" "unat x3 < 2 ^ 56" "unat x4 < 2 ^ 56"
    using modm_wf_mono [OF assms(1), of 56] modm_wf_mono [OF assms(2), of 56] unfolding x y modm_wf_def prod.case by simp_all
  have x32: "unat x4 < 2 ^ 32" and y32: "unat y4 < 2 ^ 32" using assms unfolding x y modm_wf_def prod.case by blast+
  note le = limb_product_56
  define c0 where "c0 = unat x0 * unat y0"
  define c1 where "c1 = unat x0 * unat y1 + unat x1 * unat y0"
  define c2 where "c2 = unat x0 * unat y2 + (unat x2 * unat y0 + unat x1 * unat y1)"
  define c3 where "c3 = unat x0 * unat y3 + (unat x3 * unat y0 + (unat x1 * unat y2 + unat x2 * unat y1))"
  define c4 where "c4 = unat x0 * unat y4 + (unat x4 * unat y0 + (unat x3 * unat y1 + (unat x1 * unat y3 + unat x2 * unat y2)))"
  define c5 where "c5 = unat x4 * unat y1 + (unat x1 * unat y4 + (unat x2 * unat y3 + unat x3 * unat y2))"
  define c6 where "c6 = unat x4 * unat y2 + (unat x2 * unat y4 + unat x3 * unat y3)"
  define c7 where "c7 = unat x4 * unat y3 + unat x3 * unat y4"
  define c8 where "c8 = unat x4 * unat y4"
  have b: "c0 \<le> 5 * 2 ^ 112" "c1 \<le> 5 * 2 ^ 112" "c2 \<le> 5 * 2 ^ 112" "c3 \<le> 5 * 2 ^ 112" "c4 \<le> 5 * 2 ^ 112"
    "c5 \<le> 5 * 2 ^ 112" "c6 \<le> 5 * 2 ^ 112" "c7 \<le> 5 * 2 ^ 112" "c8 \<le> 5 * 2 ^ 112"
    using le [OF xb(1) yb(1)] le [OF xb(1) yb(2)] le [OF xb(2) yb(1)] le [OF xb(1) yb(3)] le [OF xb(3) yb(1)] le [OF xb(2) yb(2)]
      le [OF xb(1) yb(4)] le [OF xb(4) yb(1)] le [OF xb(2) yb(3)] le [OF xb(3) yb(2)]
      le [OF xb(1) yb(5)] le [OF xb(5) yb(1)] le [OF xb(4) yb(2)] le [OF xb(2) yb(4)] le [OF xb(3) yb(3)]
      le [OF xb(5) yb(2)] le [OF xb(2) yb(5)] le [OF xb(3) yb(4)] le [OF xb(4) yb(3)]
      le [OF xb(5) yb(3)] le [OF xb(3) yb(5)] le [OF xb(4) yb(4)] le [OF xb(5) yb(4)] le [OF xb(4) yb(5)] le [OF xb(5) yb(5)]
    unfolding c0_def c1_def c2_def c3_def c4_def c5_def c6_def c7_def c8_def by linarith+
  define C0 where "C0 = (word_of_nat c0 :: u128)"
  define C1 where "C1 = ucast (ucast (drop_bit 56 C0) :: u64) + (word_of_nat c1 :: u128)"
  define C2 where "C2 = ucast (ucast (drop_bit 56 C1) :: u64) + (word_of_nat c2 :: u128)"
  define C3 where "C3 = ucast (ucast (drop_bit 56 C2) :: u64) + (word_of_nat c3 :: u128)"
  define C4 where "C4 = ucast (ucast (drop_bit 56 C3) :: u64) + (word_of_nat c4 :: u128)"
  define C5 where "C5 = ucast (ucast (drop_bit 56 C4) :: u64) + (word_of_nat c5 :: u128)"
  define C6 where "C6 = ucast (ucast (drop_bit 56 C5) :: u64) + (word_of_nat c6 :: u128)"
  define C7 where "C7 = ucast (ucast (drop_bit 56 C6) :: u64) + (word_of_nat c7 :: u128)"
  define C8 where "C8 = ucast (ucast (drop_bit 56 C7) :: u64) + (word_of_nat c8 :: u128)"
  have C0: "unat C0 = 0 + c0" "unat C0 \<le> 2 ^ 116" using b(1) unat_of_nat_128 [of c0] by (simp_all add: C0_def)
  note C1 = carry_step_bound [OF C0(2) b(2), folded C1_def]
  note C2 = carry_step_bound [OF C1(2) b(3), folded C2_def]
  note C3 = carry_step_bound [OF C2(2) b(4), folded C3_def]
  note C4 = carry_step_bound [OF C3(2) b(5), folded C4_def]
  note C5 = carry_step_bound [OF C4(2) b(6), folded C5_def]
  note C6 = carry_step_bound [OF C5(2) b(7), folded C6_def]
  note C7 = carry_step_bound [OF C6(2) b(8), folded C7_def]
  note C8 = carry_step_bound [OF C7(2) b(9), folded C8_def]
  have P: "modm_nat x * modm_nat y = columns [c0, c1, c2, c3, c4, c5, c6, c7, c8]"
    unfolding x y modm_nat_def prod.case columns_product by (simp only: c0_def c1_def c2_def c3_def c4_def c5_def c6_def c7_def c8_def add.assoc)
  have ch: "chain 0 [c0, c1, c2, c3, c4, c5, c6, c7, c8] = [unat C0, unat C1, unat C2, unat C3, unat C4, unat C5, unat C6, unat C7, unat C8]"
    unfolding C8(1) C7(1) C6(1) C5(1) C4(1) C3(1) C2(1) C1(1) C0(1) chain.simps ..
  have t: "unat C8 div 2 ^ 24 < 2 ^ 40"
  proof -
    have "unat C8 = modm_nat x * modm_nat y div 2 ^ 448"
      using last_chain [of "[c0, c1, c2, c3, c4, c5, c6, c7, c8]" 0] unfolding ch P by simp
    moreover have "modm_nat x * modm_nat y < 2 ^ 256 * 2 ^ 256"
      using modm_nat_less [OF assms(1)] modm_nat_less [OF assms(2)] by (intro mult_strict_mono) simp_all
    ultimately show ?thesis unfolding div_mult2_eq [symmetric] by (intro less_mult_imp_div_less) simp
  qed
  have eq: "q1 = ((drop_bit 24 (ucast C4) AND mask 32) OR (push_bit 32 (ucast C5) AND mask 56), (drop_bit 24 (ucast C5) AND mask 32) OR (push_bit 32 (ucast C6) AND mask 56),
       (drop_bit 24 (ucast C6) AND mask 32) OR (push_bit 32 (ucast C7) AND mask 56), (drop_bit 24 (ucast C7) AND mask 32) OR (push_bit 32 (ucast C8) AND mask 56),
       ucast (drop_bit 24 C8))"
    "r1 = (ucast C0 AND mask 56, ucast C1 AND mask 56, ucast C2 AND mask 56, ucast C3 AND mask 56, ucast C4 AND mask 40)"
  proof -
    have "ed25519_modm_product x y = ((
       (drop_bit 24 (ucast C4) AND mask 32) OR (push_bit 32 (ucast C5) AND mask 56), (drop_bit 24 (ucast C5) AND mask 32) OR (push_bit 32 (ucast C6) AND mask 56),
       (drop_bit 24 (ucast C6) AND mask 32) OR (push_bit 32 (ucast C7) AND mask 56), (drop_bit 24 (ucast C7) AND mask 32) OR (push_bit 32 (ucast C8) AND mask 56),
       ucast (drop_bit 24 C8)), (ucast C0 AND mask 56, ucast C1 AND mask 56, ucast C2 AND mask 56, ucast C3 AND mask 56, ucast C4 AND mask 40))"
      unfolding ed25519_modm_product_def x y prod.case Let_def mul128_of_nat add.assoc of_nat_add [symmetric] mask_56
        c0_def c1_def c2_def c3_def c4_def c5_def c6_def c7_def c8_def C0_def C1_def C2_def C3_def C4_def C5_def C6_def C7_def C8_def ..
    then show "q1 = ((drop_bit 24 (ucast C4) AND mask 32) OR (push_bit 32 (ucast C5) AND mask 56), (drop_bit 24 (ucast C5) AND mask 32) OR (push_bit 32 (ucast C6) AND mask 56),
         (drop_bit 24 (ucast C6) AND mask 32) OR (push_bit 32 (ucast C7) AND mask 56), (drop_bit 24 (ucast C7) AND mask 32) OR (push_bit 32 (ucast C8) AND mask 56),
         ucast (drop_bit 24 C8))"
      "r1 = (ucast C0 AND mask 56, ucast C1 AND mask 56, ucast C2 AND mask 56, ucast C3 AND mask 56, ucast C4 AND mask 40)"
      using assms(3) by simp_all
  qed
  have j: "24 + 32 = (56::nat)" by simp
  have top: "unat (ucast (drop_bit 24 C8) :: u64) = unat C8 div 2 ^ 24" using t by (intro top_digit) simp
  note digits = join_digits [OF j] top
  have low: "unat (ucast c AND mask 56 :: u64) = unat c mod 2 ^ 56" "unat (ucast c AND mask 40 :: u64) = unat c mod 2 ^ 40" for c :: u128
    by (simp_all only: low_bits)
  show "modm_wf 40 q1" unfolding eq modm_wf_def prod.case digits using joined_digit [OF j] t by blast
  have "z mod 2 ^ 56 < 2 ^ 56" "z mod 2 ^ 40 < 2 ^ 40" for z :: nat by simp_all
  then show "modm_wf 40 r1" unfolding eq modm_wf_def prod.case low by blast
  have v4: "columns [c0, c1, c2, c3, c4, c5, c6, c7, c8] div 2 ^ 224 = unat C3 div 2 ^ 56 + columns [c4, c5, c6, c7, c8]"
  proof -
    have "columns [c0, c1, c2, c3, c4, c5, c6, c7, c8] div 2 ^ 56 div 2 ^ 56 div 2 ^ 56 div 2 ^ 56 = unat C3 div 2 ^ 56 + columns [c4, c5, c6, c7, c8]"
      using chain_div [of 0 c0 "[c1, c2, c3, c4, c5, c6, c7, c8]"] unfolding C3(1) C2(1) C1(1) C0(1) by (simp only: add_0 chain_div)
    then show ?thesis unfolding div_mult2_eq [symmetric] power_add [symmetric] by simp
  qed
  have "modm_nat q1 = shifted 24 (chain (unat C3 div 2 ^ 56) [c4, c5, c6, c7, c8])"
    unfolding eq digits_5 digits chain.simps C4(1) [symmetric] C5(1) [symmetric] C6(1) [symmetric] C7(1) [symmetric] C8(1) [symmetric] shifted_5 [OF j] ..
  also have "\<dots> = (columns [c0, c1, c2, c3, c4, c5, c6, c7, c8] div 2 ^ 224) div 2 ^ 24"
    unfolding v4 by (rule shifted_chain) simp_all
  finally show "modm_nat q1 = modm_nat x * modm_nat y div 2 ^ 248"
    unfolding P div_mult2_eq [symmetric] power_add [symmetric] by simp
  have "modm_nat r1 = truncated (chain 0 [c0, c1, c2, c3, c4])"
    unfolding eq digits_5 low chain.simps C0(1) [symmetric] C1(1) [symmetric] C2(1) [symmetric] C3(1) [symmetric] C4(1) [symmetric] truncated_5 ..
  also have "\<dots> = columns [c0, c1, c2, c3, c4] mod 2 ^ 264"
    using truncated_chain [of "[c0, c1, c2, c3, c4]" 0] by simp
  also have "\<dots> = (columns [c0, c1, c2, c3, c4] + 2 ^ 264 * (2 ^ 16 * columns [c5, c6, c7, c8])) mod 2 ^ 264" by (simp only: mod_mult_self2)
  also have "columns [c0, c1, c2, c3, c4] + 2 ^ 264 * (2 ^ 16 * columns [c5, c6, c7, c8]) = columns [c0, c1, c2, c3, c4, c5, c6, c7, c8]" by simp
  finally show "modm_nat r1 = modm_nat x * modm_nat y mod 2 ^ 264" unfolding P .
qed

section \<open>Barrett reduction\<close>

lemma barrett_nat:
  fixes x q1 q3 P E mu :: nat
  assumes "x < 2 ^ 512" "q1 = x div 2 ^ 248" "mu = 2 ^ 512 div group_order" "E < 2 ^ 230" "mu * q1 = P + E" "q3 = P div 2 ^ 264"
  shows "group_order * q3 \<le> x" "x < group_order * q3 + 3 * group_order"
proof -
  have q1: "2 ^ 248 * q1 \<le> x" "x < 2 ^ 248 * q1 + 2 ^ 248" "q1 < 2 ^ 264"
    using assms(1,2) times_div_less_eq_dividend [of "2 ^ 248" x] dividend_less_times_div [of "2 ^ 248" x]
    by (simp_all add: less_mult_imp_div_less)
  have q3: "2 ^ 264 * q3 \<le> P" "P < 2 ^ 264 * q3 + 2 ^ 264"
    using assms(6) times_div_less_eq_dividend [of "2 ^ 264" P] dividend_less_times_div [of "2 ^ 264" P] by simp_all
  have mu: "mu * q1 = 0xfffffffffffffffffffffffffffffffeb2106215d086329a7ed9ce5a30a2c131b * q1"
    unfolding assms(3) group_order_def by simp
  show "group_order * q3 \<le> x" using q1 q3 mu assms(5) unfolding group_order_def by simp
  show "x < group_order * q3 + 3 * group_order" using q1 q3 mu assms(4,5) unfolding group_order_def by simp
qed

lemma mod_twice: "y < 3 * L \<Longrightarrow>
    (let z = (if y < L then y else y - L) in if z < L then z else z - L) = y mod L" for y L :: nat
  by (auto simp: Let_def le_mod_geq)

lemma modm_wf_reduced: "modm_wf k a \<Longrightarrow> modm_nat a < group_order \<Longrightarrow> modm_wf 29 a"
proof -
  assume wf: "modm_wf k a" and less: "modm_nat a < group_order"
  obtain a0 a1 a2 a3 a4 where a: "a = (a0, a1, a2, a3, a4)" by (metis prod.exhaust)
  have "unat a4 < 2 ^ 29" using less by (simp add: a modm_nat_def group_order_def)
  then show ?thesis using wf by (simp add: a modm_wf_def)
qed

lemma barrettReduce_value:
  assumes "x < 2 ^ 512" "modm_wf 40 q1" "modm_nat q1 = x div 2 ^ 248" "modm_wf 40 r1" "modm_nat r1 = x mod 2 ^ 264"
  shows "modm_nat (ed25519_modm_barrettReduce q1 r1) = x mod group_order" "modm_wf 29 (ed25519_modm_barrettReduce q1 r1)"
proof -
  define q3 where "q3 = modm_nat (ed25519_modm_q3 q1)"
  obtain E P where E: "E < 2 ^ 230" "modm_nat ed25519_modm_mu * modm_nat q1 = P + E" "q3 = P div 2 ^ 264"
    using q3_value(1) [OF assms(2)] unfolding q3_def by blast
  note q = barrett_nat [OF assms(1,3) modm_mu_value(1) E]
  note r2 = r2_value [OF q3_value(2) [OF assms(2)], folded q3_def]
  obtain b r where br: "ed25519_modm_subtract r1 (ed25519_modm_r2 (ed25519_modm_q3 q1)) 40 = (b, r)" by (metis prod.exhaust)
  note sv = subtract_value [OF modm_wf_mono [OF assms(4)] modm_wf_mono [OF r2(2)] _ br]
  let ?d = "x - group_order * q3"
  have d: "?d < 3 * group_order" using q by linarith
  have r: "modm_nat r = ?d \<and> modm_wf 62 r"
  proof -
    have small: "?d < 2 ^ 264" using d by (simp add: group_order_def)
    have sum: "x = ?d + group_order * q3" using q(1) by simp
    have m: "x mod 2 ^ 264 = (?d + modm_nat (ed25519_modm_r2 (ed25519_modm_q3 q1))) mod 2 ^ 264"
      unfolding r2(1) by (subst sum) (simp only: mod_simps)
    have r2less: "modm_nat (ed25519_modm_r2 (ed25519_modm_q3 q1)) < 2 ^ 264" using modm_nat_less [OF r2(2)] by simp
    have cancel: "D = R - S \<and> S \<le> R \<or> R < S \<and> D + S = R + 2 ^ 264"
      if "R = (D + S) mod 2 ^ 264" "D < 2 ^ 264" "S < 2 ^ 264" for D R S :: nat
      using that by (cases "D + S < 2 ^ 264") (auto simp: le_mod_geq)
    from cancel [OF m [folded assms(5)] small r2less] show ?thesis
      using sv(1) sv(3) r2(2) by auto
  qed
  note red1 = reduce_modm [OF r [THEN conjunct2]]
  note red2 = reduce_modm [OF red1(2)]
  have eq: "ed25519_modm_barrettReduce q1 r1 = ed25519_modm_reduce (ed25519_modm_reduce r)"
    by (simp only: ed25519_modm_barrettReduce_def br Let_def prod.case)
  have "?d mod group_order = x mod group_order"
  proof -
    have "x = ?d + group_order * q3" using q(1) by simp
    then show ?thesis by (metis mod_mult_self2)
  qed
  moreover have "modm_nat (ed25519_modm_barrettReduce q1 r1) = ?d mod group_order"
    unfolding eq red2(1) red1(1) using mod_twice [OF d] r by (simp only: Let_def)
  ultimately show v: "modm_nat (ed25519_modm_barrettReduce q1 r1) = x mod group_order" by simp
  show "modm_wf 29 (ed25519_modm_barrettReduce q1 r1)"
    using red2(2) unfolding eq [symmetric] by (rule modm_wf_reduced) (unfold v, rule mod_less_divisor, simp add: group_order_def)
qed

lemma mul_modm:
  assumes "modm_wf 32 x" "modm_wf 32 y"
  shows "modm_nat (ed25519_modm_mul x y) = modm_nat x * modm_nat y mod group_order" "modm_wf 29 (ed25519_modm_mul x y)"
proof -
  obtain q1 r1 where p: "ed25519_modm_product x y = (q1, r1)" by (metis prod.exhaust)
  note v = product_value [OF assms p]
  have "modm_nat x * modm_nat y < 2 ^ 256 * 2 ^ 256"
    using modm_nat_less [OF assms(1)] modm_nat_less [OF assms(2)] by (intro mult_strict_mono) simp_all
  then have P: "modm_nat x * modm_nat y < 2 ^ 512" by simp
  have eq: "ed25519_modm_mul x y = ed25519_modm_barrettReduce q1 r1" by (simp add: ed25519_modm_mul_def p)
  show "modm_nat (ed25519_modm_mul x y) = modm_nat x * modm_nat y mod group_order" "modm_wf 29 (ed25519_modm_mul x y)"
    unfolding eq using barrettReduce_value [OF P v(3,1,4,2)] by blast+
qed

lemma add_modm:
  assumes "modm_wf 32 x" "modm_wf 32 y" "modm_nat x < group_order" "modm_nat y < group_order"
  shows "modm_nat (ed25519_modm_add x y) = (modm_nat x + modm_nat y) mod group_order" "modm_wf 29 (ed25519_modm_add x y)"
proof -
  obtain y0 y1 y2 y3 y4 where y: "y = (y0, y1, y2, y3, y4)" by (metis prod.exhaust)
  obtain x0 x1 x2 x3 x4 where x: "x = (x0, x1, x2, x3, x4)" by (metis prod.exhaust)
  have yb: "unat y0 < 2 ^ 56" "unat y1 < 2 ^ 56" "unat y2 < 2 ^ 56" "unat y3 < 2 ^ 56" "unat y4 < 2 ^ 32"
    and xb: "unat x0 < 2 ^ 56" "unat x1 < 2 ^ 56" "unat x2 < 2 ^ 56" "unat x3 < 2 ^ 56" "unat x4 < 2 ^ 32"
    using assms unfolding x y modm_wf_def prod.case by blast+
  have step: "unat (drop_bit 56 c + u + v) = unat c div 2 ^ 56 + (unat u + unat v)" if "unat u < 2 ^ 56" "unat v < 2 ^ 56" for c u v :: u64
  proof -
    have "unat (drop_bit 56 c) < 2 ^ 8" unfolding unat_drop_bit using unat_less [of c] by (intro less_mult_imp_div_less) simp
    then show ?thesis using that by (subst unat_add64; subst unat_add64; simp add: unat_drop_bit)
  qed
  define C0 where "C0 = x0 + y0"
  define C1 where "C1 = drop_bit 56 C0 + x1 + y1"
  define C2 where "C2 = drop_bit 56 C1 + x2 + y2"
  define C3 where "C3 = drop_bit 56 C2 + x3 + y3"
  define C4 where "C4 = drop_bit 56 C3 + x4 + y4"
  have C: "unat C0 = 0 + (unat x0 + unat y0)" "unat C1 = unat C0 div 2 ^ 56 + (unat x1 + unat y1)" "unat C2 = unat C1 div 2 ^ 56 + (unat x2 + unat y2)"
    "unat C3 = unat C2 div 2 ^ 56 + (unat x3 + unat y3)" "unat C4 = unat C3 div 2 ^ 56 + (unat x4 + unat y4)"
    unfolding C0_def C1_def C2_def C3_def C4_def using xb yb by (simp add: unat_add64) (rule step; use xb yb in simp)+
  have ch: "chain 0 [unat x0 + unat y0, unat x1 + unat y1, unat x2 + unat y2, unat x3 + unat y3, unat x4 + unat y4] =
      [unat C0, unat C1, unat C2, unat C3, unat C4]" unfolding C(5) C(4) C(3) C(2) C(1) chain.simps ..
  let ?r = "(C0 AND mask 56, C1 AND mask 56, C2 AND mask 56, C3 AND mask 56, C4)"
  have eq: "ed25519_modm_add x y = ed25519_modm_reduce ?r"
    unfolding ed25519_modm_add_def x y prod.case Let_def mask_56 C0_def C1_def C2_def C3_def C4_def ..
  have "shifted 0 [unat C0, unat C1, unat C2, unat C3, unat C4] = columns [unat x0 + unat y0, unat x1 + unat y1, unat x2 + unat y2, unat x3 + unat y3, unat x4 + unat y4]"
    unfolding ch [symmetric] by (subst shifted_chain) simp_all
  moreover have "modm_nat ?r = shifted 0 [unat C0, unat C1, unat C2, unat C3, unat C4]"
    unfolding digits_5 unat_and_mask by (simp only: shifted.simps columns_simps power_0 div_by_1 mod_by_1 mult_0_right add_0_right)
  ultimately have v: "modm_nat ?r = modm_nat x + modm_nat y" unfolding x y modm_nat_def prod.case by simp
  have "unat C4 < 2 ^ 62" using modm_nat_less [OF assms(1)] modm_nat_less [OF assms(2)] v unfolding modm_nat_def prod.case by simp
  moreover have "z mod 2 ^ 56 < 2 ^ 56" for z :: nat by simp
  ultimately have wf: "modm_wf 62 ?r" unfolding modm_wf_def prod.case unat_and_mask by blast
  note red = reduce_modm [OF wf, unfolded v, folded eq]
  have "(if S < L then S else S - L) = S mod L" if "S < 2 * L" for S L :: nat using that by (auto simp: le_mod_geq)
  then show val: "modm_nat (ed25519_modm_add x y) = (modm_nat x + modm_nat y) mod group_order" using red(1) assms(3,4) by simp
  show "modm_wf 29 (ed25519_modm_add x y)"
    by (rule modm_wf_reduced [OF red(2)]) (unfold val, rule mod_less_divisor, simp add: group_order_def)
qed

section \<open>Bytes\<close>

lemma load_word:
  assumes "k + 8 \<le> length inp" "n = 8 * k"
  shows "unat (mem_loadU64 (drop k inp)) = le_nat inp div 2 ^ n mod 2 ^ 64"
proof -
  have split: "inp = take k inp @ take 8 (drop k inp) @ drop (k + 8) inp" by (simp add: take_add [symmetric] append_assoc [symmetric] add.commute)
  have "le_nat inp = le_nat (take k inp) + 256 ^ k * (le_nat (take 8 (drop k inp)) + 256 ^ 8 * le_nat (drop (k + 8) inp))"
    using assms(1) by (subst split) (simp only: le_nat_append length_take length_drop, simp)
  moreover have "le_nat (take k inp) < 256 ^ k" using le_nat_bound [of "take k inp"] assms(1) by simp
  ultimately have "le_nat inp div 2 ^ n = le_nat (take 8 (drop k inp)) + 2 ^ 64 * le_nat (drop (k + 8) inp)"
    by (simp add: assms(2) power_mult)
  moreover have "le_nat (take 8 (drop k inp)) < 2 ^ 64" using le_nat_bound [of "take 8 (drop k inp)"] assms(1) by (simp add: power256)
  ultimately show ?thesis by (simp only: unat_loadU64) simp
qed

lemma window_words:
  fixes lo hi :: u64 and N :: nat
  assumes "unat lo = N mod 2 ^ 64" "unat hi = N div 2 ^ 64 mod 2 ^ 64" "a + b = 64" "8 \<le> a"
  shows "unat ((drop_bit a lo OR push_bit b hi) AND mask 56) = N div 2 ^ a mod 2 ^ 56"
proof -
  have "b + a = 64" using assms(3) by simp
  then have "(2::nat) ^ b * 2 ^ a = 2 ^ 64" by (simp only: power_add [symmetric])
  moreover have "unat lo < 2 ^ 64" using unat_less [of lo] by simp
  ultimately have "unat (drop_bit a lo) < 2 ^ b" unfolding unat_drop_bit by (intro less_mult_imp_div_less) simp
  then have "unat (drop_bit a lo OR push_bit b hi) = N mod 2 ^ 64 div 2 ^ a + unat hi mod 2 ^ (64 - b) * 2 ^ b"
    using assms by (subst unat_or_push) (simp_all add: unat_drop_bit)
  moreover have "64 - b = a" using assms(3) by simp
  moreover have hi: "unat hi mod 2 ^ a = N div 2 ^ 64 mod 2 ^ a"
    unfolding assms(2) using assms(3) by (intro mod_mod_cancel le_imp_power_dvd) simp
  moreover have "(N mod 2 ^ 64 div 2 ^ a + N div 2 ^ 64 mod 2 ^ a * 2 ^ b) = N div 2 ^ a mod 2 ^ 64"
  proof -
    have e: "(2::nat) ^ 64 = 2 ^ a * 2 ^ b" using assms(3) by (simp only: power_add [symmetric])
    have "N div 2 ^ a mod 2 ^ 64 = N div 2 ^ a mod (2 ^ b * 2 ^ a)" unfolding e by (simp only: mult.commute)
    also have "\<dots> = 2 ^ b * (N div 2 ^ a div 2 ^ b mod 2 ^ a) + N div 2 ^ a mod 2 ^ b" by (rule mod_mult2_eq)
    also have "N div 2 ^ a div 2 ^ b = N div 2 ^ 64" unfolding e div_mult2_eq ..
    also have "N div 2 ^ a mod 2 ^ b = N mod 2 ^ 64 div 2 ^ a" unfolding e mod_mult2_eq by simp
    finally show ?thesis by (simp only: ac_simps)
  qed
  ultimately have "unat (drop_bit a lo OR push_bit b hi) = N div 2 ^ a mod 2 ^ 64" by (simp only: hi)
  then show ?thesis unfolding unat_and_mask by (simp add: mod_mod_cancel le_imp_power_dvd)
qed

lemma load_window_56:
  assumes "k + 16 \<le> length inp" "k' = k + 8" "a + b = 64" "8 \<le> a" "n = 8 * k + a"
  shows "unat ((drop_bit a (mem_loadU64 (drop k inp)) OR push_bit b (mem_loadU64 (drop k' inp))) AND mask 56) = le_nat inp div 2 ^ n mod 2 ^ 56"
proof -
  let ?N = "le_nat inp div 2 ^ (8 * k)"
  have "unat (mem_loadU64 (drop k inp)) = ?N mod 2 ^ 64" using assms(1) by (intro load_word) simp_all
  moreover have "unat (mem_loadU64 (drop k' inp)) = ?N div 2 ^ 64 mod 2 ^ 64"
    unfolding div_mult2_eq [symmetric] power_add [symmetric] using assms(1,2) by (intro load_word) simp_all
  ultimately show ?thesis unfolding assms(5) power_add div_mult2_eq by (rule window_words [OF _ _ assms(3,4)])
qed

lemma digits_56:
  fixes N :: nat
  shows "N mod 2 ^ 56 + 2 ^ 56 * (N div 2 ^ 56 mod 2 ^ 56) + 2 ^ 112 * (N div 2 ^ 112 mod 2 ^ 56) +
    2 ^ 168 * (N div 2 ^ 168 mod 2 ^ 56) + 2 ^ 224 * (N div 2 ^ 224 mod 2 ^ k) = N mod 2 ^ (224 + k)"
proof -
  have m: "N mod 2 ^ (i + j) = 2 ^ i * (N div 2 ^ i mod 2 ^ j) + N mod 2 ^ i" for i j by (simp only: power_add mod_mult2_eq)
  have "N mod 2 ^ 112 = 2 ^ 56 * (N div 2 ^ 56 mod 2 ^ 56) + N mod 2 ^ 56" "N mod 2 ^ 168 = 2 ^ 112 * (N div 2 ^ 112 mod 2 ^ 56) + N mod 2 ^ 112"
    "N mod 2 ^ 224 = 2 ^ 168 * (N div 2 ^ 168 mod 2 ^ 56) + N mod 2 ^ 168"
    using m [of 56 56] m [of 112 56] m [of 168 56] by (simp_all only: numeral_plus_numeral semiring_norm)
  then show ?thesis unfolding m [of 224 k] by (simp only: ac_simps)
qed

lemma low_digit_word: "unat w = N mod 2 ^ 64 \<Longrightarrow> unat (w AND mask 56) = N mod 2 ^ 56" for w :: u64
  by (simp only: unat_and_mask) (simp add: mod_mod_cancel le_imp_power_dvd)

lemma high_digit_word: "unat w = N mod 2 ^ 64 \<Longrightarrow> a + b = 64 \<Longrightarrow> unat (drop_bit a w) = N div 2 ^ a mod 2 ^ b" for w :: u64
proof -
  assume w: "unat w = N mod 2 ^ 64" and "a + b = 64"
  then have e: "(2::nat) ^ 64 = 2 ^ a * 2 ^ b" by (simp only: power_add [symmetric])
  show ?thesis unfolding unat_drop_bit w e mod_mult2_eq by simp
qed

lemma load_low_digits:
  assumes "32 \<le> length inp"
  shows "unat (mem_loadU64 inp AND mask 56) = le_nat inp mod 2 ^ 56"
    "unat ((drop_bit 56 (mem_loadU64 inp) OR push_bit 8 (mem_loadU64 (drop 8 inp))) AND mask 56) = le_nat inp div 2 ^ 56 mod 2 ^ 56"
    "unat ((drop_bit 48 (mem_loadU64 (drop 8 inp)) OR push_bit 16 (mem_loadU64 (drop 16 inp))) AND mask 56) = le_nat inp div 2 ^ 112 mod 2 ^ 56"
    "unat ((drop_bit 40 (mem_loadU64 (drop 16 inp)) OR push_bit 24 (mem_loadU64 (drop 24 inp))) AND mask 56) = le_nat inp div 2 ^ 168 mod 2 ^ 56"
    "unat (drop_bit 32 (mem_loadU64 (drop 24 inp))) = le_nat inp div 2 ^ 224 mod 2 ^ 32"
proof -
  show "unat (mem_loadU64 inp AND mask 56) = le_nat inp mod 2 ^ 56"
    using load_word [of 0 inp 0] assms by (intro low_digit_word) simp
  show "unat ((drop_bit 56 (mem_loadU64 inp) OR push_bit 8 (mem_loadU64 (drop 8 inp))) AND mask 56) = le_nat inp div 2 ^ 56 mod 2 ^ 56"
    using load_window_56 [of 0 inp 8 56 8 56] assms by (simp only: mult_0_right add_0 drop_0)
  show "unat ((drop_bit 48 (mem_loadU64 (drop 8 inp)) OR push_bit 16 (mem_loadU64 (drop 16 inp))) AND mask 56) = le_nat inp div 2 ^ 112 mod 2 ^ 56"
    by (rule load_window_56; use assms in simp)
  show "unat ((drop_bit 40 (mem_loadU64 (drop 16 inp)) OR push_bit 24 (mem_loadU64 (drop 24 inp))) AND mask 56) = le_nat inp div 2 ^ 168 mod 2 ^ 56"
    by (rule load_window_56; use assms in simp)
  have "unat (drop_bit 32 (mem_loadU64 (drop 24 inp))) = le_nat inp div 2 ^ 192 div 2 ^ 32 mod 2 ^ 32"
    by (rule high_digit_word [OF load_word]) (use assms in simp_all)
  then show "unat (drop_bit 32 (mem_loadU64 (drop 24 inp))) = le_nat inp div 2 ^ 224 mod 2 ^ 32"
    by (simp only: div_mult2_eq [symmetric] power_add [symmetric] numeral_plus_numeral semiring_norm)
qed

lemma load_modm_32:
  assumes "length inp = 32"
  shows "modm_nat (ed25519_modm_load inp False) = le_nat inp" "modm_wf 32 (ed25519_modm_load inp False)"
proof -
  have eq: "ed25519_modm_load inp False = (mem_loadU64 inp AND mask 56, (drop_bit 56 (mem_loadU64 inp) OR push_bit 8 (mem_loadU64 (drop 8 inp))) AND mask 56,
      (drop_bit 48 (mem_loadU64 (drop 8 inp)) OR push_bit 16 (mem_loadU64 (drop 16 inp))) AND mask 56,
      (drop_bit 40 (mem_loadU64 (drop 16 inp)) OR push_bit 24 (mem_loadU64 (drop 24 inp))) AND mask 56, drop_bit 32 (mem_loadU64 (drop 24 inp)))"
    unfolding ed25519_modm_load_def Let_def mask_56 by simp
  have "32 \<le> length inp" using assms by simp
  note d = load_low_digits [OF this]
  have "le_nat inp < 2 ^ (224 + 32)" using le_nat_bound [of inp] assms by (simp add: power256)
  then show "modm_nat (ed25519_modm_load inp False) = le_nat inp"
    unfolding eq modm_nat_def prod.case d digits_56 by simp
  have "z mod 2 ^ 56 < 2 ^ 56" "z mod 2 ^ 32 < 2 ^ 32" for z :: nat by simp_all
  then show "modm_wf 32 (ed25519_modm_load inp False)" unfolding eq modm_wf_def prod.case d by blast
qed

lemma load_modm_64:
  assumes "length inp = 64"
  shows "modm_nat (ed25519_modm_load inp True) = le_nat inp mod group_order" "modm_wf 29 (ed25519_modm_load inp True)"
proof -
  have "32 \<le> length inp" using assms by simp
  note d = load_low_digits [OF this]
  let ?x = "\<lambda>i. mem_loadU64 (drop i inp)"
  have e: "unat (drop_bit 32 (?x 24) OR (push_bit 32 (?x 32) AND mask 40)) = le_nat inp div 2 ^ 224 mod 2 ^ 40"
  proof -
    have p: "push_bit 32 (?x 32) AND mask 40 = push_bit 32 (?x 32 AND mask 8)" using push_mask [of 32 "?x 32" 8] by simp
    have "unat (drop_bit 32 (?x 24)) < 2 ^ 32" unfolding d(5) by simp
    then have "unat (drop_bit 32 (?x 24) OR push_bit 32 (?x 32 AND mask 8)) =
        le_nat inp div 2 ^ 224 mod 2 ^ 32 + unat (?x 32) mod 2 ^ 8 mod 2 ^ 32 * 2 ^ 32"
      using unat_or_push [of "drop_bit 32 (?x 24)" 32 "?x 32 AND mask 8"] by (simp only: d(5) unat_and_mask) simp
    moreover have "unat (?x 32) = le_nat inp div 2 ^ 224 div 2 ^ 32 mod 2 ^ 64"
      unfolding div_mult2_eq [symmetric] power_add [symmetric] using assms by (intro load_word) simp_all
    moreover have "z mod 2 ^ 64 mod 2 ^ 8 mod 2 ^ 32 = z mod 2 ^ 8" for z :: nat by (simp add: mod_mod_cancel)
    moreover have "z mod 2 ^ 32 + z div 2 ^ 32 mod 2 ^ 8 * 2 ^ 32 = z mod 2 ^ 40" for z :: nat
      using mod_mult2_eq [of z "2 ^ 32" "2 ^ 8"] by simp
    ultimately show ?thesis by (simp only: p)
  qed
  have q: "unat ((drop_bit 56 (?x 24) OR push_bit 8 (?x 32)) AND mask 56) = le_nat inp div 2 ^ 248 mod 2 ^ 56"
    "unat ((drop_bit 48 (?x 32) OR push_bit 16 (?x 40)) AND mask 56) = le_nat inp div 2 ^ 304 mod 2 ^ 56"
    "unat ((drop_bit 40 (?x 40) OR push_bit 24 (?x 48)) AND mask 56) = le_nat inp div 2 ^ 360 mod 2 ^ 56"
    "unat ((drop_bit 32 (?x 48) OR push_bit 32 (?x 56)) AND mask 56) = le_nat inp div 2 ^ 416 mod 2 ^ 56"
    by (rule load_window_56; use assms in simp)+
  have q4: "unat (drop_bit 24 (?x 56)) = le_nat inp div 2 ^ 472 mod 2 ^ 40"
  proof -
    have "unat (drop_bit 24 (?x 56)) = le_nat inp div 2 ^ 448 div 2 ^ 24 mod 2 ^ 40"
      by (rule high_digit_word [OF load_word]) (use assms in simp_all)
    then show ?thesis by (simp only: div_mult2_eq [symmetric] power_add [symmetric] numeral_plus_numeral semiring_norm)
  qed
  let ?r1 = "(mem_loadU64 inp AND mask 56, (drop_bit 56 (mem_loadU64 inp) OR push_bit 8 (?x 8)) AND mask 56,
    (drop_bit 48 (?x 8) OR push_bit 16 (?x 16)) AND mask 56, (drop_bit 40 (?x 16) OR push_bit 24 (?x 24)) AND mask 56,
    drop_bit 32 (?x 24) OR (push_bit 32 (?x 32) AND mask 40))"
  let ?q1 = "((drop_bit 56 (?x 24) OR push_bit 8 (?x 32)) AND mask 56, (drop_bit 48 (?x 32) OR push_bit 16 (?x 40)) AND mask 56,
    (drop_bit 40 (?x 40) OR push_bit 24 (?x 48)) AND mask 56, (drop_bit 32 (?x 48) OR push_bit 32 (?x 56)) AND mask 56, drop_bit 24 (?x 56))"
  have eq: "ed25519_modm_load inp True = ed25519_modm_barrettReduce ?q1 ?r1"
    unfolding ed25519_modm_load_def Let_def mask_56 by simp
  have N: "le_nat inp < 2 ^ 512" using le_nat_bound [of inp] assms by (simp add: power256)
  have m: "z mod 2 ^ 56 < 2 ^ 56" "z mod 2 ^ 40 < 2 ^ 40" for z :: nat by simp_all
  have r1: "modm_nat ?r1 = le_nat inp mod 2 ^ 264" "modm_wf 40 ?r1"
    unfolding modm_nat_def modm_wf_def prod.case d(1-4) e digits_56 using m by (simp, blast)
  have q1: "modm_nat ?q1 = le_nat inp div 2 ^ 248" "modm_wf 40 ?q1"
  proof -
    have "modm_nat ?q1 = (le_nat inp div 2 ^ 248) mod 2 ^ (224 + 40)"
      unfolding modm_nat_def prod.case q q4 digits_56 [symmetric] div_mult2_eq [symmetric] power_add [symmetric]
      by (simp only: numeral_plus_numeral semiring_norm)
    moreover have "le_nat inp div 2 ^ 248 < 2 ^ 264" using N by (intro less_mult_imp_div_less) simp
    ultimately show "modm_nat ?q1 = le_nat inp div 2 ^ 248" by simp
    show "modm_wf 40 ?q1" unfolding modm_wf_def prod.case q q4 using m by blast
  qed
  show "modm_nat (ed25519_modm_load inp True) = le_nat inp mod group_order" "modm_wf 29 (ed25519_modm_load inp True)"
    unfolding eq using barrettReduce_value [OF N q1(2,1) r1(2,1)] by blast+
qed

lemma modm_store_words:
  fixes a0 a1 a2 a3 a4 :: nat
  shows "(a0 + 2 ^ 56 * (a1 mod 2 ^ 8)) + 2 ^ 64 * ((a1 div 2 ^ 8 + 2 ^ 48 * (a2 mod 2 ^ 16)) +
      2 ^ 64 * ((a2 div 2 ^ 16 + 2 ^ 40 * (a3 mod 2 ^ 24)) + 2 ^ 64 * (a3 div 2 ^ 24 + 2 ^ 32 * a4))) =
    a0 + 2 ^ 56 * a1 + 2 ^ 112 * a2 + 2 ^ 168 * a3 + 2 ^ 224 * a4"
proof -
  have "a1 = a1 mod 2 ^ 8 + 2 ^ 8 * (a1 div 2 ^ 8)" "a2 = a2 mod 2 ^ 16 + 2 ^ 16 * (a2 div 2 ^ 16)" "a3 = a3 mod 2 ^ 24 + 2 ^ 24 * (a3 div 2 ^ 24)"
    by (simp_all only: mod_mult_div_eq)
  moreover have "(a0 + 2 ^ 56 * m1) + 2 ^ 64 * ((k1 + 2 ^ 48 * m2) + 2 ^ 64 * ((k2 + 2 ^ 40 * m3) + 2 ^ 64 * (k3 + 2 ^ 32 * a4))) =
      a0 + 2 ^ 56 * a1 + 2 ^ 112 * a2 + 2 ^ 168 * a3 + 2 ^ 224 * a4"
    if "a1 = m1 + 2 ^ 8 * k1" "a2 = m2 + 2 ^ 16 * k2" "a3 = m3 + 2 ^ 24 * k3" for m1 m2 m3 k1 k2 k3
    using that by simp
  ultimately show ?thesis by blast
qed

lemma store_modm:
  assumes "modm_wf 32 a" "out + 32 \<le> length m"
  shows "ed25519_modm_store m out a = mem_put m out (le_bytes 32 (modm_nat a))"
proof -
  obtain a0 a1 a2 a3 a4 where a: "a = (a0, a1, a2, a3, a4)" by (metis prod.exhaust)
  have b: "unat a0 < 2 ^ 56" "unat a1 < 2 ^ 56" "unat a2 < 2 ^ 56" "unat a3 < 2 ^ 56" "unat a4 < 2 ^ 32"
    using assms(1) by (simp_all add: modm_wf_def a)
  have sm: "unat (drop_bit 8 a1) < 2 ^ 48" "unat (drop_bit 16 a2) < 2 ^ 40" "unat (drop_bit 24 a3) < 2 ^ 32"
    unfolding unat_drop_bit using b by (auto intro!: less_mult_imp_div_less)
  define w0 where "w0 = a0 OR push_bit 56 a1"
  define w1 where "w1 = drop_bit 8 a1 OR push_bit 48 a2"
  define w2 where "w2 = drop_bit 16 a2 OR push_bit 40 a3"
  define w3 where "w3 = drop_bit 24 a3 OR push_bit 32 a4"
  have m4: "unat a4 mod 2 ^ 32 = unat a4" using b(5) by simp
  have w: "unat w0 = unat a0 + 2 ^ 56 * (unat a1 mod 2 ^ 8)" "unat w1 = unat a1 div 2 ^ 8 + 2 ^ 48 * (unat a2 mod 2 ^ 16)"
    "unat w2 = unat a2 div 2 ^ 16 + 2 ^ 40 * (unat a3 mod 2 ^ 24)" "unat w3 = unat a3 div 2 ^ 24 + 2 ^ 32 * unat a4"
    using unat_or_push [OF b(1), of a1] unat_or_push [OF sm(1), of a2] unat_or_push [OF sm(2), of a3] unat_or_push [OF sm(3), of a4] m4
    unfolding w0_def w1_def w2_def w3_def by (simp_all add: unat_drop_bit mult.commute)
  have "modm_nat a = unat w0 + 2 ^ 64 * (unat w1 + 2 ^ 64 * (unat w2 + 2 ^ 64 * (unat w3 + 2 ^ 64 * 0)))"
    unfolding a modm_nat_def prod.case modm_store_words [symmetric] w by simp
  then have bytes: "le_bytes 32 (modm_nat a) = ((le_bytes 8 (unat w0) @ le_bytes 8 (unat w1)) @ le_bytes 8 (unat w2)) @ le_bytes 8 (unat w3)"
    using le_bytes_word64 [of 24 w0] le_bytes_word64 [of 16 w1] le_bytes_word64 [of 8 w2] le_bytes_word64 [of 0 w3 0]
    by (simp only: numeral_plus_numeral semiring_norm add_0_right append_assoc le_bytes.simps append_Nil2)
  have "mem_storeU64 (mem_storeU64 (mem_storeU64 (mem_storeU64 m out w0) (out + 8) w1) (out + 16) w2) (out + 24) w3 = mem_put m out (le_bytes 32 (modm_nat a))"
    unfolding bytes mem_storeU64_def
    using mem_put_append [of out "le_bytes 8 (unat w0)" "le_bytes 8 (unat w1)" m]
      mem_put_append [of out "le_bytes 8 (unat w0) @ le_bytes 8 (unat w1)" "le_bytes 8 (unat w2)" m]
      mem_put_append [of out "(le_bytes 8 (unat w0) @ le_bytes 8 (unat w1)) @ le_bytes 8 (unat w2)" "le_bytes 8 (unat w3)" m] assms(2)
    by simp
  then show ?thesis unfolding a ed25519_modm_store_def prod.case Let_def w0_def w1_def w2_def w3_def .
qed

section \<open>Arithmetic modulo the group order\<close>

text \<open>
  C25: \<open>ed25519_modm_mul\<close> and \<open>ed25519_modm_add\<close> compute modulo the group order, \<open>ed25519_modm_load\<close> reduces a 64-byte
  number modulo the group order and keeps a 32-byte number as it is, and \<open>ed25519_modm_store\<close> writes the 32 little-endian bytes. The
  Barrett quotient, which the code takes from a product whose three low columns it leaves out, is at most two
  too small, so the two conditional subtractions always finish the reduction.
\<close>
theorem ed25519_modm_correct:
  assumes "modm_wf 32 x" "modm_wf 32 y" "modm_nat a < group_order" "modm_nat b < group_order" "modm_wf 32 a" "modm_wf 32 b"
    and "length h = 64" "length s = 32" "out + 32 \<le> length m"
  shows "modm_nat (ed25519_modm_mul x y) = modm_nat x * modm_nat y mod group_order \<and>
    modm_nat (ed25519_modm_add a b) = (modm_nat a + modm_nat b) mod group_order \<and>
    modm_nat (ed25519_modm_load h True) = le_nat h mod group_order \<and>
    modm_nat (ed25519_modm_load s False) = le_nat s \<and>
    ed25519_modm_store m out x = mem_put m out (le_bytes 32 (modm_nat x)) \<and>
    modm_wf 29 (ed25519_modm_mul x y) \<and> modm_wf 29 (ed25519_modm_add a b) \<and> modm_wf 29 (ed25519_modm_load h True)"
  using mul_modm [OF assms(1,2)] add_modm [OF assms(5,6,3,4)] load_modm_64 [OF assms(7)] load_modm_32(1) [OF assms(8)]
    store_modm [OF assms(1,9)] by blast

theorem ed25519_modm_correct_witness:
  "modm_nat (ed25519_modm_mul (0, 0, 0, 0, 0xFFFFFFFF) (0, 0, 0, 0, 0xFFFFFFFF)) =
     (2 ^ 224 * 0xFFFFFFFF) * (2 ^ 224 * 0xFFFFFFFF) mod group_order \<and>
   modm_nat (ed25519_modm_load (replicate 64 255) True) = le_nat (replicate 64 255) mod group_order"
proof -
  have "modm_wf 32 (0, 0, 0, 0, 0xFFFFFFFF)" "modm_wf 32 (1, 0, 0, 0, 0)" "modm_nat (1, 0, 0, 0, 0) < group_order"
    by (simp_all add: modm_wf_def modm_nat_def group_order_def)
  from ed25519_modm_correct [OF this(1) this(1) this(3) this(3) this(2) this(2), of "replicate 64 255" "replicate 32 0" 0 "replicate 32 0"]
  show ?thesis by (simp add: modm_nat_def)
qed

end
