(* ===== verification/Ed25519_Window.thy ===== *)
theory Ed25519_Window
  imports Ed25519_Modm
begin

text \<open>
  The digit expansions of scalars in \<^verbatim>\<open>src/hc/core/hc/crypto/ed25519.c\<close>: the signed radix 16 digits of
  \<open>_ed25519_modm_window4\<close>, which the fixed base multiplication uses, and the sliding window digits of
  \<open>ed25519_modm_slidingWindow\<close>, which the double scalar multiplication uses.
\<close>

section \<open>Digit expansions\<close>

text \<open>
  \<open>int8_t\<close> values are integers in \<open>[-128, 128)\<close>; a store converts with \<open>int8\<close>, the arithmetic in between is that of
  \<open>int\<close>. \<open>quads\<close> is the inner loop \<open>*quads++ = v & 15; v >>= 4\<close> and \<open>bits\<close> the one that peels single bits.
\<close>

definition int8 :: "int \<Rightarrow> int" where
  "int8 x = signed_take_bit 7 x"

primrec ed25519_modm_quads :: "nat \<Rightarrow> u64 \<Rightarrow> int list" where
  "ed25519_modm_quads 0 v = []"
| "ed25519_modm_quads (Suc n) v = int8 (uint (v AND 15)) # ed25519_modm_quads n (drop_bit 4 v)"

primrec ed25519_modm_bits :: "nat \<Rightarrow> u64 \<Rightarrow> int list" where
  "ed25519_modm_bits 0 v = []"
| "ed25519_modm_bits (Suc n) v = int8 (uint (v AND 1)) # ed25519_modm_bits n (drop_bit 1 v)"

text \<open>One turn of the loop that makes the quads signed; \<open>r\<close> is the array and the carry.\<close>

definition ed25519_modm_window4_step :: "nat \<Rightarrow> int list \<times> int \<Rightarrow> int list \<times> int" where
  "ed25519_modm_window4_step i rc =
     (case rc of (r, carry) \<Rightarrow>
        let r = r[i := int8 (r ! i + carry)];
            r = r[i + 1 := int8 (r ! (i + 1) + drop_bit 4 (r ! i))];
            r = r[i := int8 (r ! i AND 15)];
            carry = int8 (drop_bit 3 (r ! i));
            r = r[i := int8 (r ! i - push_bit 4 carry)]
        in (r, carry))"

definition ed25519_modm_window4 :: "modm \<Rightarrow> int list" where
  "ed25519_modm_window4 s =
     (case s of (s0, s1, s2, s3, s4) \<Rightarrow>
        let r = ed25519_modm_quads 14 s0 @ ed25519_modm_quads 14 s1 @ ed25519_modm_quads 14 s2 @ ed25519_modm_quads 14 s3 @ ed25519_modm_quads 8 s4;
            (r, carry) = fold ed25519_modm_window4_step [0..<63] (r, 0)
        in r[63 := int8 (r ! 63 + carry)])"

text \<open>The loop over \<open>k\<close> that carries a borrowed bit: \<open>n\<close> positions are left.\<close>

primrec ed25519_modm_window_carry :: "nat \<Rightarrow> nat \<Rightarrow> int list \<Rightarrow> int list" where
  "ed25519_modm_window_carry 0 k r = r"
| "ed25519_modm_window_carry (Suc n) k r =
     (if r ! k = 0 then r[k := 1] else ed25519_modm_window_carry n (k + 1) (r[k := 0]))"

text \<open>The loop over \<open>b\<close>: \<open>n\<close> values are left.\<close>

primrec ed25519_modm_window_digit :: "int \<Rightarrow> nat \<Rightarrow> nat \<Rightarrow> nat \<Rightarrow> int list \<Rightarrow> int list" where
  "ed25519_modm_window_digit m j 0 b r = r"
| "ed25519_modm_window_digit m j (Suc n) b r =
     (let x = r ! j + push_bit b (r ! (j + b))
      in if x \<le> m then ed25519_modm_window_digit m j n (b + 1) (r[j := int8 x, j + b := 0])
         else
           let x = r ! j - push_bit b (r ! (j + b))
           in if x \<ge> - m then
                ed25519_modm_window_digit m j n (b + 1) (ed25519_modm_window_carry (256 - (j + b)) (j + b) (r[j := int8 x]))
              else if r ! (j + b) \<noteq> 0 then r
              else ed25519_modm_window_digit m j n (b + 1) r)"

definition ed25519_modm_window :: "modm \<Rightarrow> int \<Rightarrow> int list" where
  "ed25519_modm_window s m =
     (case s of (s0, s1, s2, s3, s4) \<Rightarrow>
        let r = ed25519_modm_bits 56 s0 @ ed25519_modm_bits 56 s1 @ ed25519_modm_bits 56 s2 @ ed25519_modm_bits 56 s3 @ ed25519_modm_bits 32 s4
        in fold (\<lambda>j r. if r ! j = 0 then r
              else let bEnd = 256 - j; bEnd = (if bEnd > 7 then 7 else bEnd)
                   in ed25519_modm_window_digit m j (bEnd - 1) 1 r) [0..<256] r)"

section \<open>Signed digits\<close>

definition radix_value :: "int \<Rightarrow> int list \<Rightarrow> int" where
  "radix_value B r = foldr (\<lambda>x v. x + B * v) r 0"

lemma radix_value_simps [simp]: "radix_value B [] = 0" "radix_value B (x # r) = x + B * radix_value B r"
  by (simp_all add: radix_value_def)

lemma radix_value_append: "radix_value B (r @ q) = radix_value B r + B ^ length r * radix_value B q"
  by (induction r) (simp_all add: algebra_simps)

lemma radix_value_update: "i < length r \<Longrightarrow> radix_value B (r[i := y]) = radix_value B r + (y - r ! i) * B ^ i"
proof (induction r arbitrary: i)
  case (Cons x r)
  show ?case
  proof (cases i)
    case (Suc n)
    then have IH: "radix_value B (r[n := y]) = radix_value B r + (y - r ! n) * B ^ n" using Cons by simp
    show ?thesis unfolding Suc list_update.simps nat.case radix_value_simps IH by (simp add: algebra_simps)
  qed simp
qed simp

lemma int8_id: "- 128 \<le> x \<Longrightarrow> x < 128 \<Longrightarrow> int8 x = x"
  unfolding int8_def by (intro signed_take_bit_int_eq_self) simp_all

lemma uint_and_15: "uint (v AND 15) = uint v mod 16" for v :: u64
proof -
  have "(15 :: u64) = mask 4" by (simp add: mask_eq_exp_minus_1)
  then show ?thesis by (simp only: uint_nat unat_and_mask zmod_int) simp
qed

lemma quads_props:
  "length (ed25519_modm_quads n v) = n" "x \<in> set (ed25519_modm_quads n v) \<Longrightarrow> 0 \<le> x \<and> x \<le> 15"
  "uint v < 16 ^ n \<Longrightarrow> radix_value 16 (ed25519_modm_quads n v) = uint v"
proof (induction n arbitrary: v)
  case 0
  { case 3
    have "0 \<le> uint v" by simp
    moreover have "uint v < 1" using 3 by simp
    ultimately have "uint v = 0" by linarith
    then show ?case by simp }
next
  case (Suc n)
  { case 1 then show ?case using Suc by simp }
  { case 2 then show ?case using Suc(2) by (auto simp: uint_and_15 int8_id) }
  { case 3
    have "uint (drop_bit 4 v) = uint v div 16" by (simp only: uint_nat unat_drop_bit zdiv_int) simp
    moreover have v: "uint v mod 16 + 16 * (uint v div 16) = uint v" by (simp add: mod_mult_div_eq)
    moreover have "uint v < 16 * 16 ^ n" "0 \<le> uint v mod 16" using 3 by simp_all
    then have "uint v div 16 < 16 ^ n" using v by linarith
    ultimately show ?case using Suc(3) [of "drop_bit 4 v"] by (simp add: uint_and_15 int8_id) }
qed simp_all

text \<open>
  Before turn \<open>n\<close>: the digits below \<open>n\<close> are final, digit \<open>n\<close> may have received a carry in place, the others are
  quads, and the carry stands for one unit of digit \<open>n\<close>.
\<close>

definition window4_inv :: "int \<Rightarrow> nat \<Rightarrow> int list \<times> int \<Rightarrow> bool" where
  "window4_inv V n rc = (case rc of (r, carry) \<Rightarrow>
     length r = 64 \<and> radix_value 16 r + carry * 16 ^ n = V \<and> 0 \<le> carry \<and> carry \<le> 1 \<and>
     (\<forall>k<n. - 8 \<le> r ! k \<and> r ! k \<le> 7) \<and> 0 \<le> r ! n \<and> r ! n + carry \<le> 16 \<and>
     (\<forall>k. n < k \<and> k < 64 \<longrightarrow> 0 \<le> r ! k \<and> r ! k \<le> 15))"

lemma quad_bounds:
  fixes x :: int
  assumes "0 \<le> x" "x \<le> 16"
  defines "m \<equiv> x mod 16" and "d \<equiv> x div 16"
  shows "m - 16 * (m div 8) = x - 16 * (d + m div 8) \<and> - 8 \<le> m - 16 * (m div 8) \<and> m - 16 * (m div 8) \<le> 7 \<and>
    0 \<le> d \<and> 0 \<le> m div 8 \<and> d + m div 8 \<le> 1"
proof -
  define c where "c = m div 8"
  define e where "e = m mod 8"
  have x: "x = 16 * d + m" by (simp only: d_def m_def mult_div_mod_eq)
  have m: "m = 8 * c + e" by (simp only: c_def e_def mult_div_mod_eq)
  have b: "0 \<le> m" "m < 16" "0 \<le> e" "e < 8" by (simp_all add: m_def e_def)
  have c: "0 \<le> c" "c \<le> 1" using b m by linarith+
  have d: "0 \<le> d" "d \<le> 1" using x b assms(1,2) by linarith+
  have "d + c \<le> 1" by (cases "d \<le> 0") (use x m b c d assms(2) in linarith)+
  then show ?thesis unfolding c_def [symmetric] using b c d by (simp add: x m)
qed

lemma quad_split:
  fixes x :: int
  assumes "0 \<le> x" "x \<le> 16"
  shows "drop_bit 4 x = x div 16" "x AND 15 = x mod 16" "drop_bit 3 (x AND 15) = x mod 16 div 8"
    "x mod 16 - push_bit 4 (x mod 16 div 8) = x - 16 * (x div 16 + x mod 16 div 8)"
    "- 8 \<le> x mod 16 - push_bit 4 (x mod 16 div 8)" "x mod 16 - push_bit 4 (x mod 16 div 8) \<le> 7"
    "0 \<le> x div 16" "0 \<le> x mod 16 div 8" "x div 16 + x mod 16 div 8 \<le> 1"
proof -
  have "(15 :: int) = mask 4" by (simp add: mask_eq_exp_minus_1)
  then show a: "x AND 15 = x mod 16" by (simp only: take_bit_eq_mask [symmetric] take_bit_eq_mod) simp
  show "drop_bit 4 x = x div 16" "drop_bit 3 (x AND 15) = x mod 16 div 8" by (simp_all add: drop_bit_eq_div a)
  have p: "push_bit 4 (x mod 16 div 8) = 16 * (x mod 16 div 8)" by (simp add: push_bit_eq_mult)
  show "x mod 16 - push_bit 4 (x mod 16 div 8) = x - 16 * (x div 16 + x mod 16 div 8)"
    "- 8 \<le> x mod 16 - push_bit 4 (x mod 16 div 8)" "x mod 16 - push_bit 4 (x mod 16 div 8) \<le> 7"
    "0 \<le> x div 16" "0 \<le> x mod 16 div 8" "x div 16 + x mod 16 div 8 \<le> 1"
    unfolding p using quad_bounds [OF assms] by blast+
qed

lemma window4_step_inv:
  assumes "window4_inv V n rc" "n < 63"
  shows "window4_inv V (Suc n) (ed25519_modm_window4_step n rc)"
proof -
  obtain r carry where rc: "rc = (r, carry)" by (cases rc)
  have inv: "length r = 64" "radix_value 16 r + carry * 16 ^ n = V" "0 \<le> carry" "carry \<le> 1" "\<forall>k<n. - 8 \<le> r ! k \<and> r ! k \<le> 7"
    "0 \<le> r ! n" "r ! n + carry \<le> 16" "\<forall>k. n < k \<and> k < 64 \<longrightarrow> 0 \<le> r ! k \<and> r ! k \<le> 15"
    using assms(1) unfolding rc window4_inv_def prod.case by blast+
  define x where "x = r ! n + carry"
  have x: "0 \<le> x" "x \<le> 16" using inv by (simp_all add: x_def)
  note q = quad_split [OF x]
  define c where "c = x mod 16 div 8"
  define z where "z = x - 16 * (x div 16 + c)"
  define y where "y = r ! (n + 1) + x div 16"
  have y: "0 \<le> r ! (n + 1)" "r ! (n + 1) \<le> 15" using inv(8) assms(2) by auto
  have c: "0 \<le> c" using q(8) by (simp only: c_def)
  have c': "c \<le> 1" using q(7,9) unfolding c_def by linarith
  have z: "- 8 \<le> z" "z \<le> 7" "x mod 16 - push_bit 4 c = z" using q(4-6) by (simp_all only: c_def z_def)
  have yc: "0 \<le> y" "y + c \<le> 16" using q(7,9) y unfolding c_def y_def by linarith+
  have step: "ed25519_modm_window4_step n rc = (r[n := z, n + 1 := y], c)"
  proof -
    have m: "0 \<le> x mod 16" "x mod 16 < 16" by simp_all
    have i: "int8 x = x" "int8 y = y" "int8 (x mod 16) = x mod 16" "int8 c = c" "int8 z = z"
      by (rule int8_id; use x yc c c' z m in linarith)+
    have c3: "drop_bit 3 (x mod 16) = c" using q(2,3) by (simp only: c_def)
    have l: "n < length r" "n + 1 < length r" "n \<noteq> n + 1" "n + 1 \<noteq> n" using inv(1) assms(2) by simp_all
    show ?thesis
      unfolding ed25519_modm_window4_step_def rc prod.case Let_def
      by (simp only: x_def [symmetric] i(1) nth_list_update_eq nth_list_update_neq l length_list_update q(1,2) c3 y_def [symmetric]
          i(2,3) c_def [symmetric] i(4) z(3) i(5) list_update_overwrite list_update_swap [OF l(3)] not_False_eq_True)
  qed
  have "radix_value 16 (r[n := z, n + 1 := y]) = radix_value 16 r + (z - r ! n) * 16 ^ n + (y - r ! (n + 1)) * 16 ^ (n + 1)"
    using inv(1) assms(2) by (simp add: radix_value_update)
  then have "radix_value 16 (r[n := z, n + 1 := y]) + c * 16 ^ Suc n = V"
    unfolding inv(2) [symmetric] by (simp add: z_def y_def x_def algebra_simps)
  then show ?thesis
    unfolding step window4_inv_def prod.case using inv assms(2) c c' z(1,2) yc by (auto simp: nth_list_update less_Suc_eq)
qed

lemma window4_digits:
  assumes "modm_wf 32 s"
  shows "length (ed25519_modm_window4 s) = 64" "radix_value 16 (ed25519_modm_window4 s) = int (modm_nat s)"
    "k < 63 \<Longrightarrow> - 8 \<le> ed25519_modm_window4 s ! k \<and> ed25519_modm_window4 s ! k \<le> 7"
    "0 \<le> ed25519_modm_window4 s ! 63" "ed25519_modm_window4 s ! 63 \<le> 16"
proof -
  obtain s0 s1 s2 s3 s4 where s: "s = (s0, s1, s2, s3, s4)" by (metis prod.exhaust)
  define r0 where "r0 = ed25519_modm_quads 14 s0 @ ed25519_modm_quads 14 s1 @ ed25519_modm_quads 14 s2 @ ed25519_modm_quads 14 s3 @ ed25519_modm_quads 8 s4"
  have b: "uint s0 < 16 ^ 14" "uint s1 < 16 ^ 14" "uint s2 < 16 ^ 14" "uint s3 < 16 ^ 14" "uint s4 < 16 ^ 8"
  proof -
    have lt: "uint w < int k" if "unat w < k" for w :: u64 and k using that by (simp only: uint_nat of_nat_less_iff)
    have u: "unat s0 < 2 ^ 56" "unat s1 < 2 ^ 56" "unat s2 < 2 ^ 56" "unat s3 < 2 ^ 56" "unat s4 < 2 ^ 32"
      using assms unfolding s modm_wf_def prod.case by blast+
    show "uint s0 < 16 ^ 14" "uint s1 < 16 ^ 14" "uint s2 < 16 ^ 14" "uint s3 < 16 ^ 14" "uint s4 < 16 ^ 8"
      using lt [OF u(1)] lt [OF u(2)] lt [OF u(3)] lt [OF u(4)] lt [OF u(5)] by simp_all
  qed
  have V: "radix_value 16 r0 = int (modm_nat s)"
    unfolding r0_def radix_value_append quads_props(1) quads_props(3) [OF b(1)] quads_props(3) [OF b(2)] quads_props(3) [OF b(3)]
      quads_props(3) [OF b(4)] quads_props(3) [OF b(5)]
    by (simp add: s modm_nat_def)
  have len: "length r0 = 64" by (simp add: r0_def quads_props(1))
  have d: "0 \<le> r0 ! k" "r0 ! k \<le> 15" if "k < 64" for k
  proof -
    have "r0 ! k \<in> set r0" using that by (intro nth_mem) (simp add: len)
    then show "0 \<le> r0 ! k" "r0 ! k \<le> 15" using quads_props(2) by (auto simp: r0_def)
  qed
  have "r0 ! 0 + 0 \<le> 16" using d(2) [of 0] by simp
  then have "window4_inv (int (modm_nat s)) 0 (r0, 0)"
    unfolding window4_inv_def prod.case using V len d(1) [of 0] by (intro conjI allI impI) (simp_all add: d)
  then have "window4_inv (int (modm_nat s)) n (fold ed25519_modm_window4_step [0..<n] (r0, 0))" if "n \<le> 63" for n
    using that by (induction n) (auto intro: window4_step_inv)
  then have inv: "window4_inv (int (modm_nat s)) 63 (fold ed25519_modm_window4_step [0..<63] (r0, 0))" by simp
  obtain r carry where rc: "fold ed25519_modm_window4_step [0..<63] (r0, 0) = (r, carry)" by (metis prod.exhaust)
  have i: "length r = 64" "radix_value 16 r + carry * 16 ^ 63 = int (modm_nat s)" "0 \<le> carry" "carry \<le> 1" "\<forall>k<63. - 8 \<le> r ! k \<and> r ! k \<le> 7"
    "0 \<le> r ! 63" "r ! 63 + carry \<le> 16"
    using inv unfolding rc window4_inv_def prod.case by blast+
  have w: "ed25519_modm_window4 s = r[63 := r ! 63 + carry]"
    using i by (simp add: ed25519_modm_window4_def s r0_def [symmetric] rc int8_id)
  show "length (ed25519_modm_window4 s) = 64" "k < 63 \<Longrightarrow> - 8 \<le> ed25519_modm_window4 s ! k \<and> ed25519_modm_window4 s ! k \<le> 7"
    "0 \<le> ed25519_modm_window4 s ! 63" "ed25519_modm_window4 s ! 63 \<le> 16"
    unfolding w using i by simp_all
  show "radix_value 16 (ed25519_modm_window4 s) = int (modm_nat s)"
    unfolding w using i(1,2) by (subst radix_value_update) (simp_all add: algebra_simps)
qed

lemma radix_value_lower: "\<forall>x\<in>set r. - 8 \<le> x \<Longrightarrow> - (16 ^ length r) < radix_value 16 r"
  by (induction r) auto

lemma window4_last:
  assumes "modm_wf 32 s" "modm_nat s < 2 ^ 255"
  shows "ed25519_modm_window4 s ! 63 \<le> 8"
proof (rule ccontr)
  define d where "d = ed25519_modm_window4 s"
  assume "\<not> ed25519_modm_window4 s ! 63 \<le> 8"
  then have top: "9 \<le> d ! 63" by (simp add: d_def)
  have len: "length d = 64" and V: "radix_value 16 d = int (modm_nat s)"
    using window4_digits [OF assms(1)] by (auto simp: d_def)
  have ge: "- 8 \<le> d ! k" if "k < 63" for k using window4_digits(3) [OF assms(1) that] by (simp add: d_def)
  have "radix_value 16 d = radix_value 16 (take 63 d) + 16 ^ 63 * d ! 63"
    using radix_value_append [of 16 "take 63 d" "[d ! 63]"] take_Suc_conv_app_nth [of 63 d] len by simp
  moreover have "- (16 ^ length (take 63 d)) < radix_value 16 (take 63 d)"
    using ge len by (intro radix_value_lower) (auto simp: in_set_conv_nth)
  then have "- (16 ^ 63) < radix_value 16 (take 63 d)" using len by simp
  moreover have "int (modm_nat s) < int (2 ^ 255)" using assms(2) by (simp only: of_nat_less_iff)
  ultimately show False using V top by simp
qed

lemma window4_range:
  assumes "modm_wf 32 s" and "modm_nat s < 2 ^ 255" and "k < 64"
  shows "- 8 \<le> ed25519_modm_window4 s ! k \<and> ed25519_modm_window4 s ! k \<le> 8"
proof (cases "k = 63")
  case True
  then show ?thesis using window4_digits(4) [OF assms(1)] window4_last [OF assms(1,2)] by simp
next
  case False
  then show ?thesis using window4_digits(3) [OF assms(1), of k] assms(3) by simp
qed

section \<open>Sliding windows\<close>

definition bits_from :: "nat \<Rightarrow> int list \<Rightarrow> bool" where
  "bits_from k r \<longleftrightarrow> (\<forall>i. k \<le> i \<and> i < 256 \<longrightarrow> r ! i = 0 \<or> r ! i = 1)"

definition upper :: "nat \<Rightarrow> int list \<Rightarrow> int" where
  "upper k r = radix_value 2 (drop k r)"

lemma upper_Cons: "k < length r \<Longrightarrow> upper k r = r ! k + 2 * upper (Suc k) r"
  by (simp add: upper_def Cons_nth_drop_Suc [symmetric])

lemma upper_split: "k \<le> length r \<Longrightarrow> radix_value 2 r = radix_value 2 (take k r) + 2 ^ k * upper k r"
  using radix_value_append [of 2 "take k r" "drop k r"] by (simp add: upper_def min_absorb2)

lemma upper_zeros:
  assumes "\<And>i. k \<le> i \<Longrightarrow> i < k + n \<Longrightarrow> r ! i = 0" "k + n \<le> length r"
  shows "upper k r = 2 ^ n * upper (k + n) r"
  using assms
proof (induction n)
  case (Suc n)
  then have "upper k r = 2 ^ n * upper (k + n) r" by simp
  moreover have "upper (k + n) r = 2 * upper (k + Suc n) r" using Suc.prems upper_Cons [of "k + n" r] by simp
  ultimately show ?case by simp
qed simp

lemma upper_nonneg: "length r = 256 \<Longrightarrow> bits_from k r \<Longrightarrow> 0 \<le> upper k r"
proof (induction "256 - k" arbitrary: k)
  case 0
  then show ?case by (simp add: upper_def)
next
  case (Suc n)
  then have "0 \<le> upper (Suc k) r" by (intro Suc.hyps(1)) (auto simp: bits_from_def)
  moreover have "r ! k = 0 \<or> r ! k = 1" using Suc by (auto simp: bits_from_def)
  ultimately show ?case using Suc upper_Cons [of k r] by auto
qed

lemma upper_update_low: "i < k \<Longrightarrow> upper k (r[i := y]) = upper k r"
  by (simp add: upper_def)

lemma bits_from_Suc: "bits_from (Suc k) r \<Longrightarrow> r ! k = 0 \<or> r ! k = 1 \<Longrightarrow> bits_from k r"
  unfolding bits_from_def by (metis Suc_leI le_neq_implies_less)

lemma bits_from_update: "bits_from k r \<Longrightarrow> i < k \<or> y = 0 \<or> y = 1 \<Longrightarrow> i < length r \<Longrightarrow> bits_from k (r[i := y])"
  unfolding bits_from_def by (metis nth_list_update not_less)

lemma window_carry_spec:
  assumes "length r = 256" "n = 256 - k" "k \<le> 256" "bits_from k r" "upper k r < 2 ^ n - 1"
  shows "length (ed25519_modm_window_carry n k r) = 256 \<and> take k (ed25519_modm_window_carry n k r) = take k r \<and>
    bits_from k (ed25519_modm_window_carry n k r) \<and> upper k (ed25519_modm_window_carry n k r) = upper k r + 1"
  using assms
proof (induction n arbitrary: k r)
  case 0
  then show ?case by (simp add: upper_def)
next
  case (Suc n)
  have k: "k < length r" using Suc.prems by simp
  have bit: "r ! k = 0 \<or> r ! k = 1" using Suc.prems k by (auto simp: bits_from_def)
  show ?case
  proof (cases "r ! k = 0")
    case True
    have "upper k (r[k := 1]) = upper k r + 1"
      using upper_Cons [of k "r[k := 1]"] upper_Cons [OF k] k True by (simp add: upper_update_low)
    moreover have w: "ed25519_modm_window_carry (Suc n) k r = r[k := 1]" using True by simp
    ultimately show ?thesis unfolding w using Suc.prems(1,4) k by (auto simp: bits_from_def nth_list_update)
  next
    case False
    let ?r = "r[k := 0]"
    have "upper k r = 1 + 2 * upper (Suc k) r" using upper_Cons [OF k] bit False by simp
    then have "upper (Suc k) ?r < 2 ^ n - 1" using Suc.prems(5) by (simp add: upper_update_low)
    moreover have "bits_from (Suc k) ?r" using Suc.prems by (auto simp: bits_from_def nth_list_update)
    ultimately have IH: "length (ed25519_modm_window_carry n (Suc k) ?r) = 256 \<and> take (Suc k) (ed25519_modm_window_carry n (Suc k) ?r) = take (Suc k) ?r \<and>
        bits_from (Suc k) (ed25519_modm_window_carry n (Suc k) ?r) \<and> upper (Suc k) (ed25519_modm_window_carry n (Suc k) ?r) = upper (Suc k) ?r + 1"
      using Suc.prems by (intro Suc.IH) simp_all
    let ?q = "ed25519_modm_window_carry n (Suc k) ?r"
    have t: "take (Suc k) ?q = take (Suc k) ?r" using IH by blast
    have "?q ! k = take (Suc k) ?q ! k" by simp
    then have q1: "?q ! k = 0" unfolding t using k by simp
    have "take k ?q = take k (take (Suc k) ?q)" by (simp add: min_def)
    then have q2: "take k ?q = take k r" unfolding t by (simp add: min_def)
    note q = q1 q2
    have "upper k ?q = upper k r + 1"
      using q upper_Cons [of k ?q] IH k Suc.prems(1) \<open>upper k r = _\<close> by (simp add: upper_update_low)
    moreover have "bits_from k ?q" using IH q(1) bits_from_Suc [of k ?q] by blast
    ultimately show ?thesis using False IH q by simp
  qed
qed

lemma upper_update: "k \<le> i \<Longrightarrow> i < length r \<Longrightarrow> upper k (r[i := y]) = upper k r + (y - r ! i) * 2 ^ (i - k)"
  using radix_value_update [of "i - k" "drop k r" 2 y] by (simp add: upper_def drop_update_swap)

text \<open>
  The state of the loop for digit \<open>j\<close> before step \<open>b\<close>, for the window bound \<open>2^t - 1\<close>: up to step \<open>t\<close> the digit is
  positive and below \<open>2^b\<close> and the bits passed over are cleared.
\<close>

definition digit_inv :: "nat \<Rightarrow> int \<Rightarrow> int list \<Rightarrow> nat \<Rightarrow> nat \<Rightarrow> int list \<Rightarrow> bool" where
  "digit_inv t V L j b r \<longleftrightarrow> length r = 256 \<and> take j r = L \<and> radix_value 2 r = V \<and> bits_from (j + 1) r \<and> odd (r ! j) \<and>
     - (2 ^ t - 1) \<le> r ! j \<and> r ! j \<le> 2 ^ t - 1 \<and> upper (j + 1) r * 2 ^ (j + 1) \<le> 2 ^ 253 \<and>
     (b \<le> t \<longrightarrow> 0 < r ! j \<and> r ! j < 2 ^ b \<and> (\<forall>i. j < i \<and> i < j + b \<longrightarrow> r ! i = 0) \<and> upper (j + 1) r * 2 ^ (j + 1) < 2 ^ 253)"

lemma digit_int8: "t \<le> 6 \<Longrightarrow> - (2 ^ t - 1) \<le> x \<Longrightarrow> x \<le> 2 ^ t - 1 \<Longrightarrow> int8 x = x"
proof -
  assume "t \<le> 6" and x: "- (2 ^ t - 1) \<le> x" "x \<le> 2 ^ t - 1"
  then have "(2::int) ^ t \<le> 2 ^ 6" by (intro power_increasing) simp_all
  then show ?thesis using x by (intro int8_id) simp_all
qed

lemma digit_absorb:
  assumes inv: "digit_inv t V L j b r" and b: "1 \<le> b" "j + b < 256" "t \<le> 6"
    and x: "r ! j + push_bit b (r ! (j + b)) \<le> 2 ^ t - 1"
  shows "digit_inv t V L j (b + 1) (r[j := int8 (r ! j + push_bit b (r ! (j + b))), j + b := 0])"
proof -
  define w where "w = r ! (j + b)"
  define x' where "x' = r ! j + w * 2 ^ b"
  have w: "w = 0 \<or> w = 1" using inv b unfolding digit_inv_def bits_from_def w_def by auto
  have i: "length r = 256" "take j r = L" "radix_value 2 r = V" "bits_from (j + 1) r" "odd (r ! j)" "- (2 ^ t - 1) \<le> r ! j" "r ! j \<le> 2 ^ t - 1"
    "upper (j + 1) r * 2 ^ (j + 1) \<le> 2 ^ 253"
    and it: "b \<le> t \<Longrightarrow> 0 < r ! j \<and> r ! j < 2 ^ b \<and> (\<forall>i. j < i \<and> i < j + b \<longrightarrow> r ! i = 0) \<and> upper (j + 1) r * 2 ^ (j + 1) < 2 ^ 253"
    using inv unfolding digit_inv_def by blast+
  have xle: "x' \<le> 2 ^ t - 1" using x by (simp add: x'_def w_def push_bit_eq_mult)
  have w0: "0 \<le> w * 2 ^ b" using w by auto
  have xge: "- (2 ^ t - 1) \<le> x'" using i(6) w0 by (simp add: x'_def)
  have r': "r[j := int8 (r ! j + push_bit b (r ! (j + b))), j + b := 0] = r[j := x', j + b := 0]"
    using digit_int8 [OF b(3) xge xle] by (simp add: x'_def w_def push_bit_eq_mult)
  let ?r = "r[j := x', j + b := 0]"
  have val: "radix_value 2 ?r = V"
    using i(1,3) b by (simp add: radix_value_update x'_def w_def power_add algebra_simps)
  have "odd x'" using i(5) b(1) by (simp add: x'_def)
  have u: "upper (j + 1) ?r = upper (j + 1) r - w * 2 ^ (b - 1)"
    using i(1) b by (simp add: upper_update upper_update_low w_def)
  then have ule: "upper (j + 1) ?r * 2 ^ (j + 1) \<le> upper (j + 1) r * 2 ^ (j + 1)" using w by auto
  have small: "0 < x' \<and> x' < 2 ^ (b + 1)" if "b + 1 \<le> t" using it that w by (auto simp: x'_def)
  have bits: "bits_from (j + 1) ?r" using i(1,4) b by (intro bits_from_update) simp_all
  have zeros: "\<forall>i. j < i \<and> i < j + (b + 1) \<longrightarrow> ?r ! i = 0" if "b + 1 \<le> t" using it that i(1) b by (auto simp: nth_list_update less_Suc_eq)
  have nth: "?r ! j = x'" "take j ?r = L" "length ?r = 256" using i(1,2) b by simp_all
  have ult: "upper (j + 1) ?r * 2 ^ (j + 1) < 2 ^ 253" if "b + 1 \<le> t" using order.strict_trans1 [OF ule] it that by auto
  show ?thesis
    unfolding r' digit_inv_def nth
    using val \<open>odd x'\<close> small bits zeros ult xge xle order.trans [OF ule i(8)] by blast
qed

lemma digit_borrow_top:
  assumes inv: "digit_inv t V L j b r" and b: "1 \<le> b" "j + b < 256"
    and x: "\<not> r ! j + push_bit b (r ! (j + b)) \<le> 2 ^ t - 1" and y: "r ! j - push_bit b (r ! (j + b)) \<ge> - (2 ^ t - 1)"
  shows "r ! (j + b) = 1" "b = t"
proof -
  have i: "r ! j \<le> 2 ^ t - 1" "bits_from (j + 1) r" "b \<le> t \<Longrightarrow> 0 < r ! j \<and> r ! j < 2 ^ b"
    using inv unfolding digit_inv_def by blast+
  have "r ! (j + b) = 0 \<or> r ! (j + b) = 1" using i(2) b by (auto simp: bits_from_def)
  then show w: "r ! (j + b) = 1" using x i(1) by auto
  show "b = t"
  proof (rule ccontr)
    assume "b \<noteq> t"
    then consider "b + 1 \<le> t" | "t + 1 \<le> b" by linarith
    then show False
    proof cases
      case 1
      then have "(2::int) ^ (b + 1) \<le> 2 ^ t" by (intro power_increasing) simp_all
      then show False using i(3) 1 x w by (simp add: push_bit_eq_mult)
    next
      case 2
      then have "(2::int) ^ (t + 1) \<le> 2 ^ b" by (intro power_increasing) simp_all
      then show False using i(1) y w by (simp add: push_bit_eq_mult)
    qed
  qed
qed

lemma digit_borrow:
  assumes inv: "digit_inv t V L j b r" and b: "1 \<le> b" "j + b < 256" "t \<le> 6"
    and x: "\<not> r ! j + push_bit b (r ! (j + b)) \<le> 2 ^ t - 1" and y: "r ! j - push_bit b (r ! (j + b)) \<ge> - (2 ^ t - 1)"
  shows "digit_inv t V L j (b + 1) (ed25519_modm_window_carry (256 - (j + b)) (j + b) (r[j := int8 (r ! j - push_bit b (r ! (j + b)))]))"
proof -
  note top = digit_borrow_top [OF inv b(1,2) x y]
  have i: "length r = 256" "take j r = L" "radix_value 2 r = V" "bits_from (j + 1) r" "odd (r ! j)" "r ! j \<le> 2 ^ t - 1"
    and it: "0 < r ! j" "r ! j < 2 ^ b" "\<forall>i. j < i \<and> i < j + b \<longrightarrow> r ! i = 0" "upper (j + 1) r * 2 ^ (j + 1) < 2 ^ 253"
    using inv top(2) unfolding digit_inv_def by blast+
  define y' where "y' = r ! j - 2 ^ b"
  define p where "p = j + b"
  define H where "H = upper p r"
  have yge: "- (2 ^ t - 1) \<le> y'" and yle: "y' \<le> 2 ^ t - 1"
  proof -
    show "- (2 ^ t - 1) \<le> y'" using y top(1) by (simp add: y'_def push_bit_eq_mult)
    show "y' \<le> 2 ^ t - 1" using i(6) zero_less_power [of "2::int" b] unfolding y'_def by linarith
  qed
  have arg: "r[j := int8 (r ! j - push_bit b (r ! (j + b)))] = r[j := y']"
    using digit_int8 [OF b(3) yge yle] top(1) by (simp add: y'_def push_bit_eq_mult)
  have p: "j < p" "p < 256" "j + 1 + (b - 1) = p" using b by (simp_all add: p_def)
  have pw: "(2::int) ^ (b - 1) * 2 ^ (j + 1) = 2 ^ p" unfolding power_add [symmetric] using b by (simp add: p_def)
  have scaled: "upper (j + 1) q * 2 ^ (j + 1) = 2 ^ p * upper p q" if "length q = 256" "\<forall>i. j < i \<and> i < p \<longrightarrow> q ! i = 0" for q
  proof -
    have "upper (j + 1) q = 2 ^ (b - 1) * upper (j + 1 + (b - 1)) q" using that p by (intro upper_zeros) auto
    then show ?thesis unfolding p(3) pw [symmetric] by (simp only: ac_simps)
  qed
  have "bits_from (Suc p) r" "bits_from p r" using i(4) p by (auto simp: bits_from_def)
  then have H1: "1 \<le> H" using upper_Cons [of p r] upper_nonneg [OF i(1), of "Suc p"] top(1) i(1) p by (simp add: H_def p_def)
  have less: "2 ^ p * H < 2 ^ 253" using scaled [OF i(1)] it(3,4) by (simp add: H_def p_def)
  have p253: "p < 253"
  proof (rule ccontr)
    assume "\<not> p < 253"
    then have "(2::int) ^ 253 \<le> 2 ^ p" by (intro power_increasing) simp_all
    also have "\<dots> \<le> 2 ^ p * H" using H1 by simp
    finally show False using less by simp
  qed
  have e: "(2::int) ^ 253 = 2 ^ p * 2 ^ (253 - p)" unfolding power_add [symmetric] using p253 by simp
  have Hlt: "H + 1 \<le> 2 ^ (253 - p)" using less unfolding e by simp
  have "(2::int) ^ (253 - p) < 2 ^ (256 - p)" using p253 by (intro power_strict_increasing) simp_all
  then have room: "upper p (r[j := y']) < 2 ^ (256 - p) - 1" 
    unfolding upper_update_low [OF p(1)] H_def [symmetric] using Hlt by linarith
  define r2 where "r2 = ed25519_modm_window_carry (256 - p) p (r[j := y'])"
  have "bits_from p (r[j := y'])" using \<open>bits_from p r\<close> p by (auto simp: bits_from_def)
  then have c: "length r2 = 256" "take p r2 = take p (r[j := y'])" "bits_from p r2" "upper p r2 = H + 1"
    using window_carry_spec [of "r[j := y']" "256 - p" p] i(1) p(1,2) room by (auto simp: r2_def upper_update_low H_def)
  have nth: "r2 ! k = r[j := y'] ! k" if "k < p" for k using arg_cong [OF c(2), of "\<lambda>l. l ! k"] that by simp
  have "take j r2 = take j (take p r2)" using p by (simp add: min_def)
  then have tj: "take j r2 = L" unfolding c(2) using p i(2) by (simp add: min_def)
  have V: "radix_value 2 r2 = V"
  proof -
    have "radix_value 2 r2 = radix_value 2 (take p (r[j := y'])) + 2 ^ p * upper p (r[j := y']) + 2 ^ p"
      using upper_split [of p r2] c p by (simp add: upper_update_low H_def algebra_simps)
    also have "\<dots> = radix_value 2 (r[j := y']) + 2 ^ p" using upper_split [of p "r[j := y']"] i(1) p by simp
    also have "\<dots> = V" using i(1,3) p by (simp add: radix_value_update y'_def p_def power_add algebra_simps)
    finally show ?thesis .
  qed
  have z: "\<forall>i. j < i \<and> i < p \<longrightarrow> r2 ! i = 0" using nth it(3) by (auto simp: p_def)
  have U: "upper (j + 1) r2 * 2 ^ (j + 1) \<le> 2 ^ 253" unfolding scaled [OF c(1) z] c(4) e using Hlt by simp
  have bits: "bits_from (j + 1) r2" using c(3) z by (auto simp: bits_from_def) (metis not_less Suc_le_lessD)
  have "r2 ! j = y'" using nth [of j] i(1) p by simp
  moreover have "odd y'" using i(5) b(1) by (simp add: y'_def)
  ultimately have "digit_inv t V L j (b + 1) r2"
    unfolding digit_inv_def using c(1) tj V bits yge yle U top(2) by simp
  moreover have "ed25519_modm_window_carry (256 - (j + b)) (j + b) (r[j := int8 (r ! j - push_bit b (r ! (j + b)))]) = r2"
    unfolding r2_def p_def arg ..
  ultimately show ?thesis by (simp only:)
qed

lemma window_digit_inv:
  assumes "digit_inv t V L j b r" "1 \<le> b" "j + b + n \<le> 256" "t \<le> 6"
  shows "\<exists>b'. digit_inv t V L j b' (ed25519_modm_window_digit (2 ^ t - 1) j n b r)"
  using assms
proof (induction n arbitrary: b r)
  case (Suc n)
  have b: "1 \<le> b" "j + b < 256" using Suc.prems by simp_all
  consider (absorb) "r ! j + push_bit b (r ! (j + b)) \<le> 2 ^ t - 1"
    | (borrow) "\<not> r ! j + push_bit b (r ! (j + b)) \<le> 2 ^ t - 1" "r ! j - push_bit b (r ! (j + b)) \<ge> - (2 ^ t - 1)"
    | (stop) "\<not> r ! j + push_bit b (r ! (j + b)) \<le> 2 ^ t - 1" "\<not> r ! j - push_bit b (r ! (j + b)) \<ge> - (2 ^ t - 1)" "r ! (j + b) \<noteq> 0"
    | (none) "\<not> r ! j + push_bit b (r ! (j + b)) \<le> 2 ^ t - 1" "r ! (j + b) = 0"
    by blast
  then show ?case
  proof cases
    case absorb
    then show ?thesis
      using Suc.IH [OF digit_absorb [OF Suc.prems(1) b Suc.prems(4) absorb]] Suc.prems by (simp add: Let_def)
  next
    case borrow
    then show ?thesis
      using Suc.IH [OF digit_borrow [OF Suc.prems(1) b Suc.prems(4) borrow]] Suc.prems by (simp add: Let_def)
  next
    case stop
    then show ?thesis using Suc.prems(1) by (auto simp: Let_def)
  next
    case none
    then show ?thesis using Suc.prems(1) by (simp add: digit_inv_def)
  qed
qed auto

definition window_inv :: "nat \<Rightarrow> int \<Rightarrow> nat \<Rightarrow> int list \<Rightarrow> bool" where
  "window_inv t V j r \<longleftrightarrow> length r = 256 \<and> radix_value 2 r = V \<and> bits_from j r \<and> upper j r * 2 ^ j \<le> 2 ^ 253 \<and>
     (\<forall>i<j. r ! i = 0 \<or> odd (r ! i) \<and> - (2 ^ t - 1) \<le> r ! i \<and> r ! i \<le> 2 ^ t - 1)"

lemma digit_inv_window:
  assumes d: "digit_inv t V L j b q" and L: "L = take j r"
    and r: "\<forall>i<j. r ! i = 0 \<or> odd (r ! i) \<and> - (2 ^ t - 1) \<le> r ! i \<and> r ! i \<le> 2 ^ t - 1"
  shows "window_inv t V (Suc j) q"
proof -
  have q: "length q = 256" "take j q = take j r" "radix_value 2 q = V" "bits_from (j + 1) q" "odd (q ! j)" "- (2 ^ t - 1) \<le> q ! j"
    "q ! j \<le> 2 ^ t - 1" "upper (j + 1) q * 2 ^ (j + 1) \<le> 2 ^ 253"
    using d unfolding digit_inv_def L by blast+
  have k: "q ! k = r ! k" if "k < j" for k using arg_cong [OF q(2), of "\<lambda>l. l ! k"] that by simp
  have "\<forall>i<Suc j. q ! i = 0 \<or> odd (q ! i) \<and> - (2 ^ t - 1) \<le> q ! i \<and> q ! i \<le> 2 ^ t - 1"
    unfolding less_Suc_eq using q(5-7) r k by metis
  then show ?thesis unfolding window_inv_def using q by simp
qed

lemma window_step_inv:
  assumes inv: "window_inv t V j r" and j: "j < 256" and t: "1 \<le> t" "t \<le> 6"
  shows "window_inv t V (Suc j) (if r ! j = 0 then r
    else let bEnd = 256 - j; bEnd = (if bEnd > 7 then 7 else bEnd) in ed25519_modm_window_digit (2 ^ t - 1) j (bEnd - 1) 1 r)"
proof -
  have i: "length r = 256" "radix_value 2 r = V" "bits_from j r" "upper j r * 2 ^ j \<le> 2 ^ 253"
    "\<forall>i<j. r ! i = 0 \<or> odd (r ! i) \<and> - (2 ^ t - 1) \<le> r ! i \<and> r ! i \<le> 2 ^ t - 1"
    using inv unfolding window_inv_def by blast+
  have u: "upper j r = r ! j + 2 * upper (Suc j) r" using upper_Cons [of j r] i(1) j by simp
  have bs: "bits_from (Suc j) r" using i(3) by (auto simp: bits_from_def)
  show ?thesis
  proof (cases "r ! j = 0")
    case True
    then show ?thesis using i u bs by (auto simp: window_inv_def less_Suc_eq ac_simps)
  next
    case False
    then have one: "r ! j = 1" using i(3) j by (auto simp: bits_from_def)
    have "(1 + 2 * upper (Suc j) r) * 2 ^ j \<le> 2 ^ 253" using i(4) u one by simp
    moreover have "(1 + 2 * upper (Suc j) r) * 2 ^ j = 2 ^ j + upper (Suc j) r * 2 ^ Suc j" by (simp add: algebra_simps)
    ultimately have less: "upper (Suc j) r * 2 ^ Suc j < 2 ^ 253" using zero_less_power [of "2::int" j] by linarith
    have t2: "(2::int) \<le> 2 ^ t" using power_increasing [of 1 t "2::int"] t by simp
    have "digit_inv t V (take j r) j 1 r"
      unfolding digit_inv_def using i one bs less t2 by auto
    moreover have "j + 1 + ((if 256 - j > 7 then 7 else 256 - j) - 1) \<le> 256" using j by auto
    ultimately obtain b' where "digit_inv t V (take j r) j b' (ed25519_modm_window_digit (2 ^ t - 1) j ((if 256 - j > 7 then 7 else 256 - j) - 1) 1 r)"
      using window_digit_inv [of t V "take j r" j 1 r "(if 256 - j > 7 then 7 else 256 - j) - 1"] t(2) by blast
    from digit_inv_window [OF this refl i(5)]
    show ?thesis using False by (simp only: Let_def if_False)
  qed
qed

lemma uint_and_1: "uint (v AND 1) = uint v mod 2" for v :: u64
proof -
  have "unat (v AND mask 1) = unat v mod 2 ^ 1" by (rule unat_and_mask)
  then have "int (unat (v AND 1)) = int (unat v mod 2)" by simp
  then show ?thesis by (simp only: uint_nat zmod_int) simp
qed

lemma int8_bit: "int8 (uint (v AND 1)) = 0 \<or> int8 (uint (v AND 1)) = 1" for v :: u64
proof -
  have "uint v mod 2 = 0 \<or> uint v mod 2 = 1" by auto
  then show ?thesis unfolding uint_and_1 by (auto simp: int8_id)
qed

lemma bits_props:
  "length (ed25519_modm_bits n v) = n" "x \<in> set (ed25519_modm_bits n v) \<Longrightarrow> x = 0 \<or> x = 1"
  "uint v < 2 ^ n \<Longrightarrow> radix_value 2 (ed25519_modm_bits n v) = uint v"
proof (induction n arbitrary: v)
  case 0
  { case 3
    have "0 \<le> uint v" by simp
    moreover have "uint v < 1" using 3 by simp
    ultimately have "uint v = 0" by linarith
    then show ?case by simp }
next
  case (Suc n)
  { case 1 then show ?case using Suc by simp }
  { case 2
    then consider "x = int8 (uint (v AND 1))" | "x \<in> set (ed25519_modm_bits n (drop_bit 1 v))" by auto
    then show ?case using Suc(2) [of "drop_bit 1 v"] int8_bit [of v] by cases blast+ }
  { case 3
    have "uint (drop_bit 1 v) = uint v div 2" by (simp only: uint_nat unat_drop_bit zdiv_int) simp
    moreover have v: "uint v mod 2 + 2 * (uint v div 2) = uint v" by (simp add: mod_mult_div_eq)
    moreover have "uint v < 2 * 2 ^ n" "0 \<le> uint v mod 2" using 3 by simp_all
    then have "uint v div 2 < 2 ^ n" using v by linarith
    ultimately show ?case using Suc(3) [of "drop_bit 1 v"] by (simp add: uint_and_1 int8_id) }
qed simp_all

lemma window_digits:
  assumes wf: "modm_wf 32 s" and V: "modm_nat s < 2 ^ 253" and t: "1 \<le> t" "t \<le> 6"
  defines "r \<equiv> ed25519_modm_window s (2 ^ t - 1)"
  shows "length r = 256" "radix_value 2 r = int (modm_nat s)"
    "i < 256 \<Longrightarrow> r ! i = 0 \<or> odd (r ! i) \<and> - (2 ^ t - 1) \<le> r ! i \<and> r ! i \<le> 2 ^ t - 1"
proof -
  obtain s0 s1 s2 s3 s4 where s: "s = (s0, s1, s2, s3, s4)" by (metis prod.exhaust)
  define r0 where "r0 = ed25519_modm_bits 56 s0 @ ed25519_modm_bits 56 s1 @ ed25519_modm_bits 56 s2 @ ed25519_modm_bits 56 s3 @ ed25519_modm_bits 32 s4"
  have lt: "uint w < int k" if "unat w < k" for w :: u64 and k using that by (simp only: uint_nat of_nat_less_iff)
  have u: "unat s0 < 2 ^ 56" "unat s1 < 2 ^ 56" "unat s2 < 2 ^ 56" "unat s3 < 2 ^ 56" "unat s4 < 2 ^ 32"
    using wf unfolding s modm_wf_def prod.case by blast+
  have b: "uint s0 < 2 ^ 56" "uint s1 < 2 ^ 56" "uint s2 < 2 ^ 56" "uint s3 < 2 ^ 56" "uint s4 < 2 ^ 32"
    using lt [OF u(1)] lt [OF u(2)] lt [OF u(3)] lt [OF u(4)] lt [OF u(5)] by simp_all
  have V0: "radix_value 2 r0 = int (modm_nat s)"
    unfolding r0_def radix_value_append bits_props(1) bits_props(3) [OF b(1)] bits_props(3) [OF b(2)] bits_props(3) [OF b(3)]
      bits_props(3) [OF b(4)] bits_props(3) [OF b(5)]
    by (simp add: s modm_nat_def)
  have len: "length r0 = 256" by (simp add: r0_def bits_props(1))
  have "bits_from 0 r0"
  proof -
    have "r0 ! k = 0 \<or> r0 ! k = 1" if "k < 256" for k
    proof -
      have "r0 ! k \<in> set r0" using that by (intro nth_mem) (simp add: len)
      then show ?thesis using bits_props(2) by (auto simp: r0_def)
    qed
    then show ?thesis by (simp add: bits_from_def)
  qed
  moreover have "int (modm_nat s) < int (2 ^ 253)" using V by (simp only: of_nat_less_iff)
  ultimately have "window_inv t (int (modm_nat s)) 0 r0"
    unfolding window_inv_def using V0 len by (simp add: upper_def)
  then have "window_inv t (int (modm_nat s)) n (fold (\<lambda>j r. if r ! j = 0 then r
      else let bEnd = 256 - j; bEnd = (if bEnd > 7 then 7 else bEnd) in ed25519_modm_window_digit (2 ^ t - 1) j (bEnd - 1) 1 r) [0..<n] r0)" if "n \<le> 256" for n
    using that
  proof (induction n)
    case (Suc n)
    then show ?case using window_step_inv [OF _ _ t] by (simp only: upt_Suc_append fold_append fold_simps comp_apply)
  qed simp
  then have inv: "window_inv t (int (modm_nat s)) 256 r"
    unfolding r_def ed25519_modm_window_def s prod.case r0_def [symmetric] Let_def by blast
  show "length r = 256" "radix_value 2 r = int (modm_nat s)"
    "i < 256 \<Longrightarrow> r ! i = 0 \<or> odd (r ! i) \<and> - (2 ^ t - 1) \<le> r ! i \<and> r ! i \<le> 2 ^ t - 1"
    using inv unfolding window_inv_def by blast+
qed

lemma window_digits_odd:
  assumes "modm_wf 32 s" and "modm_nat s < 2 ^ 253" and "m = 15 \<or> m = 63"
  shows "length (ed25519_modm_window s m) = 256" "radix_value 2 (ed25519_modm_window s m) = int (modm_nat s)"
    "\<forall>i<256. ed25519_modm_window s m ! i = 0 \<or> odd (ed25519_modm_window s m ! i) \<and> \<bar>ed25519_modm_window s m ! i\<bar> \<le> m"
proof -
  obtain t where t: "1 \<le> t" "t \<le> 6" and m: "m = 2 ^ t - 1"
  proof
    show "1 \<le> (if m = 15 then 4 else 6 :: nat)" "(if m = 15 then 4 else 6 :: nat) \<le> 6" "m = 2 ^ (if m = 15 then 4 else 6) - 1"
      using assms(3) by auto
  qed
  have "\<bar>x\<bar> \<le> 2 ^ t - 1" if "- (2 ^ t - 1) \<le> x" "x \<le> 2 ^ t - 1" for x :: int using that by (simp add: abs_le_iff)
  then show "length (ed25519_modm_window s m) = 256" "radix_value 2 (ed25519_modm_window s m) = int (modm_nat s)"
    "\<forall>i<256. ed25519_modm_window s m ! i = 0 \<or> odd (ed25519_modm_window s m ! i) \<and> \<bar>ed25519_modm_window s m ! i\<bar> \<le> m"
    unfolding m using window_digits [OF assms(1,2) t] by blast+
qed

section \<open>The digits represent the scalar\<close>

text \<open>
  The 64 digits that \<open>_ed25519_modm_window4\<close> writes are the scalar in radix 16, and all but the last lie in
  \<open>[-8, 7]\<close>, so the eight table rows per position that \<open>_ed25519_ge_scalarmultBaseChooseNiels\<close> scans cover
  every digit; for a scalar below \<open>2^255\<close>, as the clamping of the secret key gives, so does the last digit.
\<close>
theorem ed25519_modm_window4_digits:
  assumes "modm_wf 32 s" and "modm_nat s < 2 ^ 255"
  shows "length (ed25519_modm_window4 s) = 64 \<and> radix_value 16 (ed25519_modm_window4 s) = int (modm_nat s) \<and>
    (\<forall>k<64. - 8 \<le> ed25519_modm_window4 s ! k \<and> ed25519_modm_window4 s ! k \<le> 8)"
  using window4_digits(1,2) [OF assms(1)] window4_range [OF assms] by blast

theorem ed25519_modm_window4_digits_witness:
  "radix_value 16 (ed25519_modm_window4 (0xFFFFFFFFFFFFFF, 0, 0, 0, 0x7FFFFFFF)) = 2 ^ 56 - 1 + 2 ^ 224 * 0x7FFFFFFF"
proof -
  have "modm_wf 32 (0xFFFFFFFFFFFFFF, 0, 0, 0, 0x7FFFFFFF)" "modm_nat (0xFFFFFFFFFFFFFF, 0, 0, 0, 0x7FFFFFFF) < 2 ^ 255"
    by (simp_all add: modm_wf_def modm_nat_def)
  from ed25519_modm_window4_digits [OF this] show ?thesis by (simp add: modm_nat_def)
qed

text \<open>
  The 256 digits that \<open>ed25519_modm_window\<close> writes for a scalar below \<open>2^253\<close> (the check of the three top bits in
  \<open>ed25519_verify\<close>) are a signed binary expansion of the scalar; every digit is zero or odd and no larger than
  \<open>m\<close>, so that \<open>abs(digit) >> 1\<close> indexes the table of odd multiples in range. In particular the loop
  that propagates a borrow never runs off the end of the array and no digit wraps around at 8 bits.
\<close>
theorem ed25519_modm_window_digits:
  assumes "modm_wf 32 s" and "modm_nat s < 2 ^ 253" and "m = 15 \<or> m = 63"
  shows "length (ed25519_modm_window s m) = 256 \<and> radix_value 2 (ed25519_modm_window s m) = int (modm_nat s) \<and>
    (\<forall>i<256. ed25519_modm_window s m ! i = 0 \<or>
       odd (ed25519_modm_window s m ! i) \<and> \<bar>ed25519_modm_window s m ! i\<bar> \<le> m)"
  using window_digits_odd [OF assms] by blast

theorem ed25519_modm_window_digits_witness:
  "radix_value 2 (ed25519_modm_window (0xFFFFFFFFFFFFFF, 0, 0, 0, 0x1FFFFFFF) 15) = 2 ^ 56 - 1 + 2 ^ 224 * 0x1FFFFFFF \<and>
     \<bar>ed25519_modm_window (0xFFFFFFFFFFFFFF, 0, 0, 0, 0x1FFFFFFF) 15 ! 252\<bar> \<le> 15"
proof -
  have "modm_wf 32 (0xFFFFFFFFFFFFFF, 0, 0, 0, 0x1FFFFFFF)" "modm_nat (0xFFFFFFFFFFFFFF, 0, 0, 0, 0x1FFFFFFF) < 2 ^ 253"
    by (simp_all add: modm_wf_def modm_nat_def)
  note w = ed25519_modm_window_digits [OF this, of 15, simplified]
  have "(252 :: nat) < 256" by simp
  with w have "\<bar>ed25519_modm_window (0xFFFFFFFFFFFFFF, 0, 0, 0, 0x1FFFFFFF) 15 ! 252\<bar> \<le> 15" by fastforce
  with w show ?thesis by (simp add: modm_nat_def)
qed

end
