(* ===== verification/Ed25519_Ge.thy ===== *)
theory Ed25519_Ge
  imports Ed25519_Tables
begin

text \<open>
  The group operations of \<^verbatim>\<open>src/hc/core/hc/crypto/ed25519.c\<close> (\<open>ed25519_ge_*\<close>): conversions between the
  coordinate systems, doubling, addition, compression, decompression and the two scalar
  multiplications. They are shown to refine the Edwards formulas over the ring of integers modulo
  \<open>2^255 - 19\<close>, with the limb bounds that keep every machine operation exact.
\<close>

section \<open>The code\<close>

definition ed25519_ge_p1p1ToPartial :: "ed25519_ge \<Rightarrow> ed25519_ge_p1p1 \<Rightarrow> ed25519_ge" where
  "ed25519_ge_p1p1ToPartial r p = r\<lparr>
     ge_x := curve25519_mul (p1p1_x p) (p1p1_t p),
     ge_y := curve25519_mul (p1p1_y p) (p1p1_z p),
     ge_z := curve25519_mul (p1p1_z p) (p1p1_t p)\<rparr>"

definition ed25519_ge_p1p1ToFull :: "ed25519_ge_p1p1 \<Rightarrow> ed25519_ge" where
  "ed25519_ge_p1p1ToFull p = \<lparr>
     ge_x = curve25519_mul (p1p1_x p) (p1p1_t p),
     ge_y = curve25519_mul (p1p1_y p) (p1p1_z p),
     ge_z = curve25519_mul (p1p1_z p) (p1p1_t p),
     ge_t = curve25519_mul (p1p1_x p) (p1p1_y p)\<rparr>"

definition ed25519_ge_fullToPniels :: "ed25519_ge \<Rightarrow> ed25519_ge_pniels" where
  "ed25519_ge_fullToPniels r = \<lparr>
     pniels_ysubx = curve25519_subNoReduce (ge_y r) (ge_x r),
     pniels_xaddy = curve25519_addNoReduce (ge_y r) (ge_x r),
     pniels_z = ge_z r,
     pniels_t2d = curve25519_mul (ge_t r) ed25519_ge_ec2d\<rparr>"

definition ed25519_ge_doubleP1p1 :: "ed25519_ge \<Rightarrow> ed25519_ge_p1p1" where
  "ed25519_ge_doubleP1p1 p =
     (let a = curve25519_squareN (ge_x p) 1;
          b = curve25519_squareN (ge_y p) 1;
          c = curve25519_squareN (ge_z p) 1;
          c = curve25519_add c c;
          rx = curve25519_addNoReduce (ge_x p) (ge_y p);
          rx = curve25519_squareN rx 1;
          ry = curve25519_addNoReduce b a;
          rz = curve25519_subNoReduce b a;
          rx = curve25519_subNoReduceFourP rx ry;
          rt = curve25519_subNoReduceFourP c rz
      in \<lparr>p1p1_x = rx, p1p1_y = ry, p1p1_z = rz, p1p1_t = rt\<rparr>)"

text \<open>
  The two mixed additions read the first two fields of \<open>q\<close> and the last two of \<open>r\<close> as arrays indexed
  by the sign bit.
\<close>

definition ed25519_ge_nielsAddP1p1 :: "ed25519_ge \<Rightarrow> ed25519_ge_niels \<Rightarrow> u8 \<Rightarrow> ed25519_ge_p1p1" where
  "ed25519_ge_nielsAddP1p1 p q signbit =
     (let qb = [niels_ysubx q, niels_xaddy q, niels_t2d q];
          a = curve25519_subNoReduce (ge_y p) (ge_x p);
          b = curve25519_addNoReduce (ge_y p) (ge_x p);
          a = curve25519_mul a (qb ! unat signbit);
          rx = curve25519_mul b (qb ! unat (signbit XOR 1));
          ry = curve25519_addNoReduce rx a;
          rx = curve25519_subNoReduce rx a;
          c = curve25519_mul (ge_t p) (niels_t2d q);
          rt = curve25519_add (ge_z p) (ge_z p);
          rz = rt;
          rb = [rx, ry, rz, rt];
          rb = rb[2 + unat signbit := curve25519_addNoReduce (rb ! (2 + unat signbit)) c];
          rb = rb[2 + unat (signbit XOR 1) := curve25519_subNoReduce (rb ! (2 + unat (signbit XOR 1))) c]
      in \<lparr>p1p1_x = rb ! 0, p1p1_y = rb ! 1, p1p1_z = rb ! 2, p1p1_t = rb ! 3\<rparr>)"

definition ed25519_ge_pnielsAddP1p1 :: "ed25519_ge \<Rightarrow> ed25519_ge_pniels \<Rightarrow> u8 \<Rightarrow> ed25519_ge_p1p1" where
  "ed25519_ge_pnielsAddP1p1 p q signbit =
     (let qb = [pniels_ysubx q, pniels_xaddy q, pniels_z q, pniels_t2d q];
          a = curve25519_subNoReduce (ge_y p) (ge_x p);
          b = curve25519_addNoReduce (ge_y p) (ge_x p);
          a = curve25519_mul a (qb ! unat signbit);
          rx = curve25519_mul b (qb ! unat (signbit XOR 1));
          ry = curve25519_addNoReduce rx a;
          rx = curve25519_subNoReduce rx a;
          c = curve25519_mul (ge_t p) (pniels_t2d q);
          rt = curve25519_mul (ge_z p) (pniels_z q);
          rt = curve25519_add rt rt;
          rz = rt;
          rb = [rx, ry, rz, rt];
          rb = rb[2 + unat signbit := curve25519_addNoReduce (rb ! (2 + unat signbit)) c];
          rb = rb[2 + unat (signbit XOR 1) := curve25519_subNoReduce (rb ! (2 + unat (signbit XOR 1))) c]
      in \<lparr>p1p1_x = rb ! 0, p1p1_y = rb ! 1, p1p1_z = rb ! 2, p1p1_t = rb ! 3\<rparr>)"

definition ed25519_ge_doublePartial :: "ed25519_ge \<Rightarrow> ed25519_ge \<Rightarrow> ed25519_ge" where
  "ed25519_ge_doublePartial r p = ed25519_ge_p1p1ToPartial r (ed25519_ge_doubleP1p1 p)"

definition ed25519_ge_double :: "ed25519_ge \<Rightarrow> ed25519_ge" where
  "ed25519_ge_double p = ed25519_ge_p1p1ToFull (ed25519_ge_doubleP1p1 p)"

definition ed25519_ge_nielsAdd :: "ed25519_ge \<Rightarrow> ed25519_ge_niels \<Rightarrow> ed25519_ge" where
  "ed25519_ge_nielsAdd r q =
     (let a = curve25519_subNoReduce (ge_y r) (ge_x r);
          b = curve25519_addNoReduce (ge_y r) (ge_x r);
          a = curve25519_mul a (niels_ysubx q);
          e = curve25519_mul b (niels_xaddy q);
          h = curve25519_addNoReduce e a;
          e = curve25519_subNoReduce e a;
          c = curve25519_mul (ge_t r) (niels_t2d q);
          f = curve25519_addNoReduce (ge_z r) (ge_z r);
          g = curve25519_addNoReduce f c;
          f = curve25519_subNoReduce f c
      in \<lparr>ge_x = curve25519_mul e f, ge_y = curve25519_mul h g, ge_z = curve25519_mul g f, ge_t = curve25519_mul e h\<rparr>)"

definition ed25519_ge_pnielsAdd :: "ed25519_ge \<Rightarrow> ed25519_ge_pniels \<Rightarrow> ed25519_ge_pniels" where
  "ed25519_ge_pnielsAdd p q =
     (let a = curve25519_subNoReduce (ge_y p) (ge_x p);
          b = curve25519_addNoReduce (ge_y p) (ge_x p);
          a = curve25519_mul a (pniels_ysubx q);
          x = curve25519_mul b (pniels_xaddy q);
          y = curve25519_addNoReduce x a;
          x = curve25519_subNoReduce x a;
          c = curve25519_mul (ge_t p) (pniels_t2d q);
          t = curve25519_mul (ge_z p) (pniels_z q);
          t = curve25519_addNoReduce t t;
          z = curve25519_addNoReduce t c;
          t = curve25519_subNoReduce t c;
          xaddy = curve25519_mul x t;
          ysubx = curve25519_mul y z;
          rz = curve25519_mul z t;
          t2d = curve25519_mul x y;
          y = ysubx;
          ysubx = curve25519_subNoReduce ysubx xaddy;
          xaddy = curve25519_addNoReduce xaddy y;
          t2d = curve25519_mul t2d ed25519_ge_ec2d
      in \<lparr>pniels_ysubx = ysubx, pniels_xaddy = xaddy, pniels_z = rz, pniels_t2d = t2d\<rparr>)"

definition fe_limb0 :: "fe \<Rightarrow> u64" where
  "fe_limb0 a = fst a"

definition ed25519_ge_pack :: "bytes \<Rightarrow> ed25519_ge \<Rightarrow> bytes" where
  "ed25519_ge_pack r p =
     (let zi = curve25519_invert (ge_z p);
          tx = curve25519_mul (ge_x p) zi;
          ty = curve25519_mul (ge_y p) zi;
          ty = curve25519_reduce ty;
          r = curve25519_store r ty;
          tx = curve25519_reduce tx
      in r[31 := r ! 31 XOR ucast (push_bit 7 (fe_limb0 tx AND 1))])"

text \<open>The memory of an array of words, and of the five limbs of a field element.\<close>

definition words_bytes :: "u64 list \<Rightarrow> bytes" where
  "words_bytes ws = concat (map (\<lambda>w. le_bytes 8 (unat w)) ws)"

definition fe_bytes :: "fe \<Rightarrow> bytes" where
  "fe_bytes a = (case a of (a0, a1, a2, a3, a4) \<Rightarrow> words_bytes [a0, a1, a2, a3, a4])"

text \<open>\<open>None\<close> is the return value 0: neither candidate is a square root.\<close>

definition ed25519_ge_unpackNegativeVartime :: "bytes \<Rightarrow> ed25519_ge option" where
  "ed25519_ge_unpackNegativeVartime p =
     (let parity = drop_bit 7 (p ! 31);
          y = curve25519_load p;
          z = (1, 0, 0, 0, 0);
          num = curve25519_squareN y 1;
          den = curve25519_mul num ed25519_ge_ecd;
          num = curve25519_subNoReduce num z;
          den = curve25519_addNoReduce den z;
          t = curve25519_squareN den 1;
          d3 = curve25519_mul t den;
          x = curve25519_squareN d3 1;
          x = curve25519_mul x den;
          x = curve25519_mul x num;
          x = curve25519_powTwo252m3 x;
          x = curve25519_mul x d3;
          x = curve25519_mul x num;
          t = curve25519_squareN x 1;
          t = curve25519_mul t den;
          root = curve25519_subNoReduceFourP t num;
          root = curve25519_reduce root;
          x = (if mem_compare (fe_bytes root) (fe_bytes curve25519_zero) 40 \<noteq> 0 then
                 let t = curve25519_addNoReduce t num; t = curve25519_reduce t
                 in if mem_compare (fe_bytes t) (fe_bytes curve25519_zero) 40 \<noteq> 0 then None
                    else Some (curve25519_mul x ed25519_ge_sqrtneg1)
               else Some x)
      in case x of None \<Rightarrow> None
         | Some x \<Rightarrow>
           let x = curve25519_reduce x;
               x = (if fe_limb0 x AND 1 = ucast parity then curve25519_sub curve25519_zero x else x);
               t = curve25519_mul x y
           in Some \<lparr>ge_x = x, ge_y = y, ge_z = z, ge_t = t\<rparr>)"

subsection \<open>Double scalar multiplication\<close>

definition ed25519_signbit :: "int \<Rightarrow> u8" where
  "ed25519_signbit d = drop_bit 7 (word_of_int d)"

definition ed25519_ge_pre1 :: "ed25519_ge \<Rightarrow> ed25519_ge_pniels list" where
  "ed25519_ge_pre1 p1 =
     (let d1 = ed25519_ge_double p1
      in fold (\<lambda>i pre1. pre1 @ [ed25519_ge_pnielsAdd d1 (pre1 ! i)]) [0..<7] [ed25519_ge_fullToPniels p1])"

text \<open>The search for the highest digit; \<open>n\<close> is \<open>i + 1\<close>.\<close>

primrec ed25519_ge_highest :: "int list \<Rightarrow> int list \<Rightarrow> nat \<Rightarrow> nat" where
  "ed25519_ge_highest slide1 slide2 0 = 0"
| "ed25519_ge_highest slide1 slide2 (Suc i) =
     (if slide1 ! i OR slide2 ! i = 0 then ed25519_ge_highest slide1 slide2 i else Suc i)"

definition ed25519_ge_doubleScalarmult_step ::
  "int list \<Rightarrow> int list \<Rightarrow> ed25519_ge_pniels list \<Rightarrow> nat \<Rightarrow> ed25519_ge \<Rightarrow> ed25519_ge" where
  "ed25519_ge_doubleScalarmult_step slide1 slide2 pre1 i r =
     (let t = ed25519_ge_doubleP1p1 r;
          (r, t) = (if slide1 ! i \<noteq> 0 then
                      let r = ed25519_ge_p1p1ToFull t
                      in (r, ed25519_ge_pnielsAddP1p1 r (pre1 ! nat (drop_bit 1 \<bar>slide1 ! i\<bar>)) (ed25519_signbit (slide1 ! i)))
                    else (r, t));
          (r, t) = (if slide2 ! i \<noteq> 0 then
                      let r = ed25519_ge_p1p1ToFull t
                      in (r, ed25519_ge_nielsAddP1p1 r (ed25519_ge_nielsSlidingMultiples ! nat (drop_bit 1 \<bar>slide2 ! i\<bar>)) (ed25519_signbit (slide2 ! i)))
                    else (r, t))
      in ed25519_ge_p1p1ToPartial r t)"

primrec ed25519_ge_doubleScalarmult_loop ::
  "int list \<Rightarrow> int list \<Rightarrow> ed25519_ge_pniels list \<Rightarrow> nat \<Rightarrow> ed25519_ge \<Rightarrow> ed25519_ge" where
  "ed25519_ge_doubleScalarmult_loop slide1 slide2 pre1 0 r = r"
| "ed25519_ge_doubleScalarmult_loop slide1 slide2 pre1 (Suc i) r =
     ed25519_ge_doubleScalarmult_loop slide1 slide2 pre1 i (ed25519_ge_doubleScalarmult_step slide1 slide2 pre1 i r)"

definition ed25519_ge_neutral :: ed25519_ge where
  "ed25519_ge_neutral = \<lparr>ge_x = (0, 0, 0, 0, 0), ge_y = (1, 0, 0, 0, 0), ge_z = (1, 0, 0, 0, 0), ge_t = (0, 0, 0, 0, 0)\<rparr>"

definition ed25519_ge_doubleScalarmultVartime :: "ed25519_ge \<Rightarrow> modm \<Rightarrow> modm \<Rightarrow> ed25519_ge" where
  "ed25519_ge_doubleScalarmultVartime p1 s1 s2 =
     (let slide1 = ed25519_modm_window s1 15;
          slide2 = ed25519_modm_window s2 63;
          pre1 = ed25519_ge_pre1 p1;
          i = ed25519_ge_highest slide1 slide2 256
      in ed25519_ge_doubleScalarmult_loop slide1 slide2 pre1 i ed25519_ge_neutral)"

subsection \<open>Fixed base scalar multiplication\<close>

definition ed25519_move96BytesConditional :: "u64 list \<Rightarrow> u64 list \<Rightarrow> u64 \<Rightarrow> u64 list" where
  "ed25519_move96BytesConditional out inp flag =
     (let nb = flag - 1; b = NOT nb
      in fold (\<lambda>i out. out[i := (out ! i AND nb) OR (inp ! i AND b)]) [0..<12] out)"

definition ed25519_ge_scalarmultBaseChooseNiels :: "u32 \<Rightarrow> int \<Rightarrow> ed25519_ge_niels" where
  "ed25519_ge_scalarmultBaseChooseNiels pos b =
     (let sign = ucast (drop_bit 7 (word_of_int b :: u8)) :: u32;
          mask = NOT (sign - 1);
          u = (word_of_int b + mask) XOR mask;
          packed = replicate 12 0;
          packed = packed[0 := 1];
          packed = packed[4 := 1];
          packed = fold (\<lambda>i packed. ed25519_move96BytesConditional packed
                      (ed25519_ge_nielsBaseMultiples ! unat (push_bit 3 pos + word_of_nat i))
                      (ucast (drop_bit 31 ((u XOR (word_of_nat i + 1)) - 1)))) [0..<8] packed;
          ysubx = curve25519_load (words_bytes (drop 0 packed));
          xaddy = curve25519_load (words_bytes (drop 4 packed));
          t2d = curve25519_load (words_bytes (drop 8 packed));
          (ysubx, xaddy) = curve25519_cSwap ysubx xaddy (ucast sign);
          neg = curve25519_sub curve25519_zero t2d;
          (t2d, neg) = curve25519_cSwap t2d neg (ucast sign)
      in \<lparr>niels_ysubx = ysubx, niels_xaddy = xaddy, niels_t2d = t2d\<rparr>)"

definition ed25519_ge_scalarmultBaseNiels :: "modm \<Rightarrow> ed25519_ge" where
  "ed25519_ge_scalarmultBaseNiels s =
     (let b = ed25519_modm_window4 s;
          t = ed25519_ge_scalarmultBaseChooseNiels 0 (b ! 1);
          r = \<lparr>ge_x = curve25519_sub (niels_xaddy t) (niels_ysubx t), ge_y = curve25519_add (niels_xaddy t) (niels_ysubx t),
               ge_z = (2, 0, 0, 0, 0), ge_t = niels_t2d t\<rparr>;
          r = fold (\<lambda>i r. ed25519_ge_nielsAdd r (ed25519_ge_scalarmultBaseChooseNiels (word_of_nat (drop_bit 1 i)) (b ! i)))
                (map (\<lambda>k. 3 + 2 * k) [0..<31]) r;
          r = ed25519_ge_doublePartial r r;
          r = ed25519_ge_doublePartial r r;
          r = ed25519_ge_doublePartial r r;
          r = ed25519_ge_double r;
          t = ed25519_ge_scalarmultBaseChooseNiels 0 (b ! 0);
          t = t\<lparr>niels_t2d := curve25519_mul (niels_t2d t) ed25519_ge_ecd\<rparr>;
          r = ed25519_ge_nielsAdd r t
      in fold (\<lambda>i r. ed25519_ge_nielsAdd r (ed25519_ge_scalarmultBaseChooseNiels (word_of_nat (drop_bit 1 i)) (b ! i)))
           (map (\<lambda>k. 2 + 2 * k) [0..<31]) r)"

section \<open>Limb bounds\<close>

text \<open>
  Three classes of bounds are enough: products and carried sums are tight, one sum or difference of
  tight elements is medium, and everything that may enter a multiplication is loose.
\<close>

definition tight :: "fe \<Rightarrow> gf \<Rightarrow> bool" where
  "tight a x \<longleftrightarrow> fe_rel (2 ^ 51 + 19 * 2 ^ 13) a x"

definition medium :: "fe \<Rightarrow> gf \<Rightarrow> bool" where
  "medium a x \<longleftrightarrow> fe_rel (2 ^ 53 - 76) a x"

definition loose :: "fe \<Rightarrow> gf \<Rightarrow> bool" where
  "loose a x \<longleftrightarrow> fe_rel (2 ^ 54) a x"

lemmas limb_classes = tight_def medium_def loose_def

lemma limb_class_mono: "tight a x \<Longrightarrow> medium a x" "tight a x \<Longrightarrow> loose a x" "medium a x \<Longrightarrow> loose a x"
  unfolding limb_classes by (erule fe_rel_mono; simp)+

lemma class_mul: "loose a x \<Longrightarrow> loose b y \<Longrightarrow> tight (curve25519_mul a b) (x * y)"
  unfolding limb_classes by (rule fe_rel_mono [OF fe.mul_law], assumption, assumption) simp_all

lemma class_square: "loose a x \<Longrightarrow> tight (curve25519_squareN a 1) (x * x)"
  unfolding limb_classes by (rule fe_rel_mono [OF fe.sq_tight], assumption) simp_all

lemma class_add: "tight a x \<Longrightarrow> tight b y \<Longrightarrow> tight (curve25519_add a b) (x + y)"
  unfolding limb_classes by (rule fe.add_law, assumption, assumption) simp

lemma class_sub: "tight a x \<Longrightarrow> tight b y \<Longrightarrow> tight (curve25519_sub a b) (x - y)"
  unfolding limb_classes by (rule fe.sub_law, assumption, assumption) simp_all

lemma class_addN: "tight a x \<Longrightarrow> tight b y \<Longrightarrow> medium (curve25519_addNoReduce a b) (x + y)"
  unfolding limb_classes by (rule fe_rel_mono [OF fe.addN_law], assumption, assumption) simp_all

lemma class_subN: "tight a x \<Longrightarrow> tight b y \<Longrightarrow> medium (curve25519_subNoReduce a b) (x - y)"
  unfolding limb_classes by (rule fe_rel_mono [OF fe.subN_law], assumption, assumption) simp_all

lemma class_addN': "medium a x \<Longrightarrow> tight b y \<Longrightarrow> loose (curve25519_addNoReduce a b) (x + y)"
  unfolding limb_classes by (rule fe_rel_mono [OF fe.addN_law], assumption, assumption) simp_all

lemma class_subN': "medium a x \<Longrightarrow> tight b y \<Longrightarrow> loose (curve25519_subNoReduce a b) (x - y)"
  unfolding limb_classes by (rule fe_rel_mono [OF fe.subN_law], assumption, assumption) simp_all

lemma class_sub4: "tight a x \<Longrightarrow> medium b y \<Longrightarrow> loose (curve25519_subNoReduceFourP a b) (x - y)"
  unfolding limb_classes by (rule fe_rel_mono [OF fe.sub4_law], assumption, assumption) simp_all

lemmas class_laws = class_mul class_square class_add class_sub class_addN class_subN class_addN' class_subN' class_sub4

lemma class_constants:
  "tight ed25519_ge_ecd ed_d" "tight ed25519_ge_ec2d (2 * ed_d)" "tight ed25519_ge_sqrtneg1 (fe_val ed25519_ge_sqrtneg1)"
  "tight (0, 0, 0, 0, 0) 0" "tight (1, 0, 0, 0, 0) 1" "tight (2, 0, 0, 0, 0) 2"
  using fe_le_mono [OF constant_limbs(1)] fe_le_mono [OF constant_limbs(2)] fe_le_mono [OF constant_limbs(3)]
  by (simp_all add: tight_def fe_rel_def ed_d_def curve_constants(2) [unfolded ed_d_def]) (simp_all add: fe_le_def fe_val_def fe_nat_def)

lemma class_zero: "tight curve25519_zero 0"
  using class_constants(4) by (simp add: curve25519_zero_def)

section \<open>The formulas over the ring\<close>

text \<open>
  Points over the ring in projective coordinates \<open>(X, Y, Z)\<close>, in extended coordinates with \<open>T = X Y / Z\<close>,
  and in completed coordinates; \<open>ed_niels\<close> is the second summand of an addition, prepared as
  \<open>(Y - X, Y + X, Z, 2 d T)\<close>.
\<close>

type_synonym ed_projective = "gf \<times> gf \<times> gf"

type_synonym ed_point = "gf \<times> gf \<times> gf \<times> gf"

type_synonym ed_completed = "gf \<times> gf \<times> gf \<times> gf"

type_synonym ed_niels = "gf \<times> gf \<times> gf \<times> gf"

definition ed_double :: "ed_projective \<Rightarrow> ed_completed" where
  "ed_double P = (case P of (X, Y, Z) \<Rightarrow>
     ((X + Y) * (X + Y) - (Y * Y + X * X), Y * Y + X * X, Y * Y - X * X, (Z * Z + Z * Z) - (Y * Y - X * X)))"

definition ed_add :: "ed_point \<Rightarrow> ed_niels \<Rightarrow> ed_completed" where
  "ed_add P N = (case (P, N) of ((X, Y, Z, T), (m, s, z, t)) \<Rightarrow>
     ((Y + X) * s - (Y - X) * m, (Y + X) * s + (Y - X) * m, (Z * z + Z * z) + T * t, (Z * z + Z * z) - T * t))"

definition ed_complete :: "ed_completed \<Rightarrow> ed_point" where
  "ed_complete C = (case C of (x, y, z, t) \<Rightarrow> (x * t, y * z, z * t, x * y))"

definition ed_partial :: "ed_point \<Rightarrow> ed_projective" where
  "ed_partial P = (case P of (X, Y, Z, T) \<Rightarrow> (X, Y, Z))"

definition ed_negate :: "ed_niels \<Rightarrow> ed_niels" where
  "ed_negate N = (case N of (m, s, z, t) \<Rightarrow> (s, m, z, - t))"

definition ed_prepare :: "ed_point \<Rightarrow> ed_niels" where
  "ed_prepare P = (case P of (X, Y, Z, T) \<Rightarrow> (Y - X, Y + X, Z, T * (2 * ed_d)))"

subsection \<open>The representation relations\<close>

definition partial_rel :: "ed25519_ge \<Rightarrow> ed_projective \<Rightarrow> bool" where
  "partial_rel p P \<longleftrightarrow> (case P of (X, Y, Z) \<Rightarrow> tight (ge_x p) X \<and> tight (ge_y p) Y \<and> tight (ge_z p) Z)"

definition ge_rel :: "ed25519_ge \<Rightarrow> ed_point \<Rightarrow> bool" where
  "ge_rel p P \<longleftrightarrow> (case P of (X, Y, Z, T) \<Rightarrow> tight (ge_x p) X \<and> tight (ge_y p) Y \<and> tight (ge_z p) Z \<and> tight (ge_t p) T)"

definition p1p1_rel :: "ed25519_ge_p1p1 \<Rightarrow> ed_completed \<Rightarrow> bool" where
  "p1p1_rel p P \<longleftrightarrow> (case P of (X, Y, Z, T) \<Rightarrow> loose (p1p1_x p) X \<and> loose (p1p1_y p) Y \<and> loose (p1p1_z p) Z \<and> loose (p1p1_t p) T)"

definition niels_rel :: "ed25519_ge_niels \<Rightarrow> ed_niels \<Rightarrow> bool" where
  "niels_rel q N \<longleftrightarrow> (case N of (m, s, z, t) \<Rightarrow> tight (niels_ysubx q) m \<and> tight (niels_xaddy q) s \<and> z = 1 \<and> tight (niels_t2d q) t)"

definition pniels_rel :: "ed25519_ge_pniels \<Rightarrow> ed_niels \<Rightarrow> bool" where
  "pniels_rel q N \<longleftrightarrow> (case N of (m, s, z, t) \<Rightarrow>
     loose (pniels_ysubx q) m \<and> loose (pniels_xaddy q) s \<and> loose (pniels_z q) z \<and> loose (pniels_t2d q) t)"

lemmas point_rels = partial_rel_def ge_rel_def p1p1_rel_def niels_rel_def pniels_rel_def
lemmas point_ops = ed_double_def ed_add_def ed_complete_def ed_partial_def ed_negate_def ed_prepare_def

section \<open>The operations refine the formulas\<close>

lemma ge_rel_partial: "ge_rel p P \<Longrightarrow> partial_rel p (ed_partial P)"
  by (auto simp: point_rels point_ops)

lemma p1p1ToFull_refines: "p1p1_rel p P \<Longrightarrow> ge_rel (ed25519_ge_p1p1ToFull p) (ed_complete P)"
  by (auto simp: point_rels point_ops ed25519_ge_p1p1ToFull_def intro: class_mul)

lemma p1p1ToPartial_refines: "p1p1_rel p P \<Longrightarrow> partial_rel (ed25519_ge_p1p1ToPartial r p) (ed_partial (ed_complete P))"
  by (auto simp: point_rels point_ops ed25519_ge_p1p1ToPartial_def intro: class_mul)

lemma doubleP1p1_refines:
  assumes "partial_rel p P"
  shows "p1p1_rel (ed25519_ge_doubleP1p1 p) (ed_double P)"
proof -
  obtain X Y Z where P: "P = (X, Y, Z)" by (metis prod.exhaust)
  have t: "tight (ge_x p) X" "tight (ge_y p) Y" "tight (ge_z p) Z" using assms by (simp_all add: partial_rel_def P)
  note s = class_square [OF limb_class_mono(2) [OF t(1)]] class_square [OF limb_class_mono(2) [OF t(2)]]
    class_square [OF limb_class_mono(2) [OF t(3)]]
  note xy = class_square [OF limb_class_mono(3) [OF class_addN [OF t(1,2)]]]
  note y = class_addN [OF s(2,1)] and z = class_subN [OF s(2,1)]
  show ?thesis
    unfolding ed25519_ge_doubleP1p1_def Let_def P ed_double_def p1p1_rel_def prod.case
    using class_sub4 [OF xy y] limb_class_mono(3) [OF y] limb_class_mono(3) [OF z] class_sub4 [OF class_add [OF s(3,3)] z] by simp
qed

lemma double_refines:
  "partial_rel p P \<Longrightarrow> ge_rel (ed25519_ge_double p) (ed_complete (ed_double P))"
  "partial_rel p P \<Longrightarrow> partial_rel (ed25519_ge_doublePartial r p) (ed_partial (ed_complete (ed_double P)))"
  unfolding ed25519_ge_double_def ed25519_ge_doublePartial_def
  by (intro p1p1ToFull_refines p1p1ToPartial_refines doubleP1p1_refines; assumption)+

lemma sum_refines:
  assumes "ge_rel p (X, Y, Z, T)" "loose m M" "loose s S"
  defines "a \<equiv> curve25519_mul (curve25519_subNoReduce (ge_y p) (ge_x p)) m"
    and "b \<equiv> curve25519_mul (curve25519_addNoReduce (ge_y p) (ge_x p)) s"
  shows "medium (curve25519_addNoReduce b a) ((Y + X) * S + (Y - X) * M)" "medium (curve25519_subNoReduce b a) ((Y + X) * S - (Y - X) * M)"
proof -
  have t: "tight (ge_x p) X" "tight (ge_y p) Y" using assms(1) by (simp_all add: ge_rel_def)
  have "tight a ((Y - X) * M)" "tight b ((Y + X) * S)"
    unfolding a_def b_def
    by (rule class_mul [OF limb_class_mono(3) [OF class_subN [OF t(2,1)]] assms(2)],
        rule class_mul [OF limb_class_mono(3) [OF class_addN [OF t(2,1)]] assms(3)])
  then show "medium (curve25519_addNoReduce b a) ((Y + X) * S + (Y - X) * M)" "medium (curve25519_subNoReduce b a) ((Y + X) * S - (Y - X) * M)"
    by (simp_all only: class_addN class_subN)
qed

lemma nielsAdd_refines:
  assumes "ge_rel r P" "niels_rel q N"
  shows "ge_rel (ed25519_ge_nielsAdd r q) (ed_complete (ed_add P N))"
proof -
  obtain X Y Z T m s t where P: "P = (X, Y, Z, T)" and N: "N = (m, s, 1, t)"
    using assms(2) by (cases P; cases N) (auto simp: niels_rel_def)
  have q: "loose (niels_ysubx q) m" "loose (niels_xaddy q) s" "loose (niels_t2d q) t"
    using assms(2) limb_class_mono(2) by (auto simp: niels_rel_def N)
  have z: "tight (ge_z r) Z" "loose (ge_t r) T" using assms(1) limb_class_mono(2) by (auto simp: ge_rel_def P)
  note c = class_mul [OF z(2) q(3)] and e = sum_refines [OF assms(1) [unfolded P] q(1,2)]
  note f = class_addN [OF z(1,1)]
  note g = class_addN' [OF f c] and f' = class_subN' [OF f c]
  show ?thesis
    unfolding ed25519_ge_nielsAdd_def Let_def P N ed_add_def ed_complete_def ge_rel_def prod.case
    using class_mul [OF limb_class_mono(3) [OF e(2)] f'] class_mul [OF limb_class_mono(3) [OF e(1)] g] class_mul [OF g f']
      class_mul [OF limb_class_mono(3) [OF e(2)] limb_class_mono(3) [OF e(1)]]
    by simp
qed

lemma fullToPniels_refines:
  assumes "ge_rel r P"
  shows "pniels_rel (ed25519_ge_fullToPniels r) (ed_prepare P)"
proof -
  obtain X Y Z T where P: "P = (X, Y, Z, T)" by (metis prod.exhaust)
  have t: "tight (ge_x r) X" "tight (ge_y r) Y" "loose (ge_z r) Z" "loose (ge_t r) T"
    using assms limb_class_mono(2) by (auto simp: ge_rel_def P)
  show ?thesis
    unfolding ed25519_ge_fullToPniels_def P ed_prepare_def pniels_rel_def prod.case
    using limb_class_mono(3) [OF class_subN [OF t(2,1)]] limb_class_mono(3) [OF class_addN [OF t(2,1)]] t(3)
      limb_class_mono(2) [OF class_mul [OF t(4) limb_class_mono(2) [OF class_constants(2)]]]
    by simp
qed

lemma pnielsAdd_refines:
  assumes "ge_rel p P" "pniels_rel q N"
  shows "pniels_rel (ed25519_ge_pnielsAdd p q) (ed_prepare (ed_complete (ed_add P N)))"
proof -
  obtain X Y Z T m s z t where P: "P = (X, Y, Z, T)" and N: "N = (m, s, z, t)" by (metis prod.exhaust)
  have q: "loose (pniels_ysubx q) m" "loose (pniels_xaddy q) s" "loose (pniels_z q) z" "loose (pniels_t2d q) t"
    using assms(2) by (simp_all add: pniels_rel_def N)
  have z: "loose (ge_z p) Z" "loose (ge_t p) T" using assms(1) limb_class_mono(2) by (auto simp: ge_rel_def P)
  note c = class_mul [OF z(2) q(4)] and e = sum_refines [OF assms(1) [unfolded P] q(1,2)] and d = class_mul [OF z(1) q(3)]
  note f = class_addN [OF d d]
  note g = class_addN' [OF f c] and f' = class_subN' [OF f c]
  note xt = class_mul [OF limb_class_mono(3) [OF e(2)] f'] and yz = class_mul [OF limb_class_mono(3) [OF e(1)] g]
  note xy = class_mul [OF limb_class_mono(3) [OF e(2)] limb_class_mono(3) [OF e(1)]]
  show ?thesis
    unfolding ed25519_ge_pnielsAdd_def Let_def P N ed_add_def ed_complete_def ed_prepare_def pniels_rel_def prod.case
    using limb_class_mono(3) [OF class_subN [OF yz xt]] limb_class_mono(3) [OF class_addN [OF xt yz]]
      limb_class_mono(2) [OF class_mul [OF g f']]
      limb_class_mono(2) [OF class_mul [OF limb_class_mono(2) [OF xy] limb_class_mono(2) [OF class_constants(2)]]]
    by (simp add: add.commute)
qed

text \<open>The sign bit selects the summand or its negative.\<close>

definition ed_signed :: "u8 \<Rightarrow> ed_niels \<Rightarrow> ed_niels" where
  "ed_signed b N = (if b = 0 then N else ed_negate N)"

lemma nielsAddP1p1_refines:
  assumes "ge_rel p P" "niels_rel q N" "b = 0 \<or> b = 1"
  shows "p1p1_rel (ed25519_ge_nielsAddP1p1 p q b) (ed_add P (ed_signed b N))"
proof -
  obtain X Y Z T m s t where P: "P = (X, Y, Z, T)" and N: "N = (m, s, 1, t)"
    using assms(2) by (cases P; cases N) (auto simp: niels_rel_def)
  have q: "loose (niels_ysubx q) m" "loose (niels_xaddy q) s" "loose (niels_t2d q) t"
    using assms(2) limb_class_mono(2) by (auto simp: niels_rel_def N)
  have z: "tight (ge_z p) Z" "loose (ge_t p) T" using assms(1) limb_class_mono(2) by (auto simp: ge_rel_def P)
  note c = class_mul [OF z(2) q(3)] and e = sum_refines [OF assms(1) [unfolded P] q(1,2)] sum_refines [OF assms(1) [unfolded P] q(2,1)]
  note f = class_add [OF z(1,1)]
  show ?thesis
    using assms(3) e [THEN limb_class_mono(3)] limb_class_mono(3) [OF class_addN [OF f c]] limb_class_mono(3) [OF class_subN [OF f c]]
    by (auto simp: ed25519_ge_nielsAddP1p1_def Let_def P N ed_add_def ed_signed_def ed_negate_def p1p1_rel_def)
qed

lemma pnielsAddP1p1_refines:
  assumes "ge_rel p P" "pniels_rel q N" "b = 0 \<or> b = 1"
  shows "p1p1_rel (ed25519_ge_pnielsAddP1p1 p q b) (ed_add P (ed_signed b N))"
proof -
  obtain X Y Z T m s z t where P: "P = (X, Y, Z, T)" and N: "N = (m, s, z, t)" by (metis prod.exhaust)
  have q: "loose (pniels_ysubx q) m" "loose (pniels_xaddy q) s" "loose (pniels_z q) z" "loose (pniels_t2d q) t"
    using assms(2) by (simp_all add: pniels_rel_def N)
  have z: "loose (ge_z p) Z" "loose (ge_t p) T" using assms(1) limb_class_mono(2) by (auto simp: ge_rel_def P)
  note c = class_mul [OF z(2) q(4)] and e = sum_refines [OF assms(1) [unfolded P] q(1,2)] sum_refines [OF assms(1) [unfolded P] q(2,1)]
    and d = class_mul [OF z(1) q(3)]
  note f = class_add [OF d d]
  show ?thesis
    using assms(3) e [THEN limb_class_mono(3)] limb_class_mono(3) [OF class_addN [OF f c]] limb_class_mono(3) [OF class_subN [OF f c]]
    by (auto simp: ed25519_ge_pnielsAddP1p1_def Let_def P N ed_add_def ed_signed_def ed_negate_def p1p1_rel_def)
qed

section \<open>Double scalar multiplication\<close>

definition ed_pre1 :: "ed_point \<Rightarrow> ed_niels list" where
  "ed_pre1 P = fold (\<lambda>i pre. pre @ [ed_prepare (ed_complete (ed_add (ed_complete (ed_double (ed_partial P))) (pre ! i)))]) [0..<7] [ed_prepare P]"

lemma pre1_refines:
  assumes "ge_rel p P"
  shows "list_all2 pniels_rel (ed25519_ge_pre1 p) (ed_pre1 P)" "length (ed25519_ge_pre1 p) = 8"
proof -
  note d = double_refines(1) [OF ge_rel_partial [OF assms]]
  have "list_all2 pniels_rel (fold (\<lambda>i pre. pre @ [ed25519_ge_pnielsAdd (ed25519_ge_double p) (pre ! i)]) [0..<n] [ed25519_ge_fullToPniels p])
      (fold (\<lambda>i pre. pre @ [ed_prepare (ed_complete (ed_add (ed_complete (ed_double (ed_partial P))) (pre ! i)))]) [0..<n] [ed_prepare P]) \<and>
    length (fold (\<lambda>i pre. pre @ [ed25519_ge_pnielsAdd (ed25519_ge_double p) (pre ! i)]) [0..<n] [ed25519_ge_fullToPniels p]) = Suc n" for n
  proof (induction n)
    case 0
    show ?case using fullToPniels_refines [OF assms] by simp
  next
    case (Suc n)
    then show ?case
      by (auto intro!: list_all2_appendI pnielsAdd_refines [OF d] simp: list_all2_nthD)
  qed
  from this [of 7] show "list_all2 pniels_rel (ed25519_ge_pre1 p) (ed_pre1 P)" "length (ed25519_ge_pre1 p) = 8"
    unfolding ed25519_ge_pre1_def ed_pre1_def Let_def by simp_all
qed

definition niels_val :: "ed25519_ge_niels \<Rightarrow> ed_niels" where
  "niels_val q = (fe_val (niels_ysubx q), fe_val (niels_xaddy q), 1, fe_val (niels_t2d q))"

definition ed_sliding :: "ed_niels list" where
  "ed_sliding = map niels_val ed25519_ge_nielsSlidingMultiples"

lemma tight_limbs: "fe_le (2 ^ 51 - 1) a \<Longrightarrow> tight a (fe_val a)"
  using fe_le_mono [of "2 ^ 51 - 1" a] by (simp add: tight_def fe_rel_def)

lemma sliding_refines: "i < 32 \<Longrightarrow> niels_rel (ed25519_ge_nielsSlidingMultiples ! i) (ed_sliding ! i)"
  using sliding_limbs tight_limbs nth_mem [of i ed25519_ge_nielsSlidingMultiples]
  by (simp add: niels_rel_def ed_sliding_def niels_val_def length_tables)

text \<open>The summand for an odd digit, from the table of odd multiples.\<close>

definition ed_digit :: "ed_niels list \<Rightarrow> int \<Rightarrow> ed_niels" where
  "ed_digit tab d = (if d < 0 then ed_negate (tab ! nat (\<bar>d\<bar> div 2)) else tab ! nat (\<bar>d\<bar> div 2))"

definition ed_slide_step :: "int list \<Rightarrow> int list \<Rightarrow> ed_niels list \<Rightarrow> nat \<Rightarrow> ed_projective \<Rightarrow> ed_projective" where
  "ed_slide_step slide1 slide2 pre i P =
     (let C = ed_double P;
          C = (if slide1 ! i = 0 then C else ed_add (ed_complete C) (ed_digit pre (slide1 ! i)));
          C = (if slide2 ! i = 0 then C else ed_add (ed_complete C) (ed_digit ed_sliding (slide2 ! i)))
      in ed_partial (ed_complete C))"

text \<open>The interleaved double and add over all digits, the leading zeros included.\<close>

definition ed_slide :: "int list \<Rightarrow> int list \<Rightarrow> ed_niels list \<Rightarrow> ed_projective" where
  "ed_slide slide1 slide2 pre = fold (ed_slide_step slide1 slide2 pre) (rev [0..<256]) (0, 1, 1)"

lemma signbit_cases:
  assumes "- 128 \<le> d" "d < 128"
  shows "ed25519_signbit d = (if d < 0 then 1 else 0)"
proof -
  have "d mod 256 = (if d < 0 then d + 256 else d)" 
    using assms mod_pos_pos_trivial [of d 256] mod_pos_pos_trivial [of "d + 256" 256] mod_add_self2 [of d 256] by auto
  moreover have "uint (word_of_int d :: u8) = d mod 256" by (simp add: uint_word_of_int)
  moreover have "nat (d + 256) div 128 = 1" if "d < 0" using that assms(1) by (intro div_nat_eqI) auto
  ultimately have "unat (word_of_int d :: u8) div 128 = (if d < 0 then 1 else 0)"
    using assms(2) by (auto simp: unat_eq_nat_uint)
  then have "unat (ed25519_signbit d) = unat (if d < 0 then 1 else 0 :: u8)" by (simp add: ed25519_signbit_def unat_drop_bit)
  then show ?thesis by (simp only: word_unat_eq_iff)
qed

lemma ed_digit_signed:
  assumes "- 128 \<le> d" "d < 128"
  shows "ed_signed (ed25519_signbit d) (tab ! nat (drop_bit 1 \<bar>d\<bar>)) = ed_digit tab d" "ed25519_signbit d = 0 \<or> ed25519_signbit d = 1"
  using signbit_cases [OF assms] by (simp_all add: ed_signed_def ed_digit_def drop_bit_eq_div)

lemma slide_step_refines:
  assumes r: "partial_rel r P" and pre: "list_all2 pniels_rel pre1 N" "length pre1 = 8"
    and d1: "slide1 ! i = 0 \<or> odd (slide1 ! i) \<and> \<bar>slide1 ! i\<bar> \<le> 15" and d2: "slide2 ! i = 0 \<or> odd (slide2 ! i) \<and> \<bar>slide2 ! i\<bar> \<le> 63"
  shows "partial_rel (ed25519_ge_doubleScalarmult_step slide1 slide2 pre1 i r) (ed_slide_step slide1 slide2 N i P)"
proof -
  define t1 where "t1 = (if slide1 ! i = 0 then ed25519_ge_doubleP1p1 r else ed25519_ge_pnielsAddP1p1 (ed25519_ge_p1p1ToFull (ed25519_ge_doubleP1p1 r))
    (pre1 ! nat (drop_bit 1 \<bar>slide1 ! i\<bar>)) (ed25519_signbit (slide1 ! i)))"
  define C1 where "C1 = (if slide1 ! i = 0 then ed_double P else ed_add (ed_complete (ed_double P)) (ed_digit N (slide1 ! i)))"
  define t2 where "t2 = (if slide2 ! i = 0 then t1 else ed25519_ge_nielsAddP1p1 (ed25519_ge_p1p1ToFull t1)
    (ed25519_ge_nielsSlidingMultiples ! nat (drop_bit 1 \<bar>slide2 ! i\<bar>)) (ed25519_signbit (slide2 ! i)))"
  define C2 where "C2 = (if slide2 ! i = 0 then C1 else ed_add (ed_complete C1) (ed_digit ed_sliding (slide2 ! i)))"
  note dbl = doubleP1p1_refines [OF r]
  have 1: "p1p1_rel t1 C1"
  proof (cases "slide1 ! i = 0")
    case False
    then have b: "- 128 \<le> slide1 ! i" "slide1 ! i < 128" "nat (drop_bit 1 \<bar>slide1 ! i\<bar>) < 8" using d1 by (auto simp: drop_bit_eq_div)
    have "pniels_rel (pre1 ! nat (drop_bit 1 \<bar>slide1 ! i\<bar>)) (N ! nat (drop_bit 1 \<bar>slide1 ! i\<bar>))"
      using list_all2_nthD [OF pre(1)] pre(2) b(3) by simp
    from pnielsAddP1p1_refines [OF p1p1ToFull_refines [OF dbl] this ed_digit_signed(2) [OF b(1,2)]]
    show ?thesis using False ed_digit_signed(1) [OF b(1,2), of N] by (simp add: t1_def C1_def)
  qed (simp add: t1_def C1_def dbl)
  have 2: "p1p1_rel t2 C2"
  proof (cases "slide2 ! i = 0")
    case False
    then have b: "- 128 \<le> slide2 ! i" "slide2 ! i < 128" "nat (drop_bit 1 \<bar>slide2 ! i\<bar>) < 32" using d2 by (auto simp: drop_bit_eq_div)
    from nielsAddP1p1_refines [OF p1p1ToFull_refines [OF 1] sliding_refines [OF b(3)] ed_digit_signed(2) [OF b(1,2)]]
    show ?thesis using False ed_digit_signed(1) [OF b(1,2), of ed_sliding] by (simp add: t2_def C2_def)
  qed (simp add: t2_def C2_def 1)
  obtain r' where "ed25519_ge_doubleScalarmult_step slide1 slide2 pre1 i r = ed25519_ge_p1p1ToPartial r' t2"
    unfolding ed25519_ge_doubleScalarmult_step_def Let_def t2_def t1_def by (cases "slide1 ! i = 0"; cases "slide2 ! i = 0") auto
  moreover have "ed_slide_step slide1 slide2 N i P = ed_partial (ed_complete C2)"
    unfolding ed_slide_step_def Let_def C2_def C1_def ..
  ultimately show ?thesis using p1p1ToPartial_refines [OF 2, of r'] by simp
qed

lemma slide_loop_refines:
  assumes "partial_rel r P" "list_all2 pniels_rel pre1 N" "length pre1 = 8" "n \<le> 256"
    and "\<forall>i<256. slide1 ! i = 0 \<or> odd (slide1 ! i) \<and> \<bar>slide1 ! i\<bar> \<le> 15" "\<forall>i<256. slide2 ! i = 0 \<or> odd (slide2 ! i) \<and> \<bar>slide2 ! i\<bar> \<le> 63"
  shows "partial_rel (ed25519_ge_doubleScalarmult_loop slide1 slide2 pre1 n r) (fold (ed_slide_step slide1 slide2 N) (rev [0..<n]) P)"
  using assms(1,4)
proof (induction n arbitrary: r P)
  case (Suc n)
  then show ?case using slide_step_refines [OF Suc.prems(1) assms(2,3), of slide1 n slide2] assms(5,6) by simp
qed simp

text \<open>Doubling leaves the neutral element as it is, so skipping the leading zeros changes nothing.\<close>

lemma slide_neutral: "slide1 ! i = 0 \<Longrightarrow> slide2 ! i = 0 \<Longrightarrow> ed_slide_step slide1 slide2 N i (0, 1, 1) = (0, 1, 1)"
  by (simp add: ed_slide_step_def point_ops)

lemma highest_skip:
  "fold (ed_slide_step slide1 slide2 N) (rev [0..<ed25519_ge_highest slide1 slide2 n]) (0, 1, 1) = fold (ed_slide_step slide1 slide2 N) (rev [0..<n]) (0, 1, 1)"
  "ed25519_ge_highest slide1 slide2 n \<le> n"
  by (induction n) (auto simp: slide_neutral or_eq_0_iff)

lemma doubleScalarmult_refines:
  assumes "ge_rel p P" "modm_wf 32 s1" "modm_nat s1 < 2 ^ 253" "modm_wf 32 s2" "modm_nat s2 < 2 ^ 253"
  shows "partial_rel (ed25519_ge_doubleScalarmultVartime p s1 s2)
    (ed_slide (ed25519_modm_window s1 15) (ed25519_modm_window s2 63) (ed_pre1 P))"
proof -
  have "partial_rel ed25519_ge_neutral (0, 1, 1)"
    using class_constants by (simp add: partial_rel_def ed25519_ge_neutral_def)
  from slide_loop_refines [OF this pre1_refines [OF assms(1)] highest_skip(2) window_digits_odd(3) [OF assms(2,3)] window_digits_odd(3) [OF assms(4,5)]]
  have "partial_rel (ed25519_ge_doubleScalarmult_loop (ed25519_modm_window s1 15) (ed25519_modm_window s2 63) (ed25519_ge_pre1 p)
      (ed25519_ge_highest (ed25519_modm_window s1 15) (ed25519_modm_window s2 63) 256) ed25519_ge_neutral)
    (fold (ed_slide_step (ed25519_modm_window s1 15) (ed25519_modm_window s2 63) (ed_pre1 P))
      (rev [0..<ed25519_ge_highest (ed25519_modm_window s1 15) (ed25519_modm_window s2 63) 256]) (0, 1, 1))"
    by blast
  then show ?thesis
    unfolding ed25519_ge_doubleScalarmultVartime_def Let_def ed_slide_def highest_skip(1) .
qed

section \<open>Fixed base scalar multiplication\<close>

lemma rows_length: "i < 256 \<Longrightarrow> length (ed25519_ge_nielsBaseMultiples ! i) = 12"
proof -
  have "list_all (\<lambda>r. length r = 12) ed25519_ge_nielsBaseMultiples_0" "list_all (\<lambda>r. length r = 12) ed25519_ge_nielsBaseMultiples_1"
    "list_all (\<lambda>r. length r = 12) ed25519_ge_nielsBaseMultiples_2" "list_all (\<lambda>r. length r = 12) ed25519_ge_nielsBaseMultiples_3"
    by code_simp+
  then have "list_all (\<lambda>r. length r = 12) ed25519_ge_nielsBaseMultiples" by (simp add: ed25519_ge_nielsBaseMultiples_def)
  then show "i < 256 \<Longrightarrow> length (ed25519_ge_nielsBaseMultiples ! i) = 12"
    by (simp add: list_all_length length_nielsBaseMultiples)
qed

lemma move96_flag:
  assumes "length out = 12" "length inp = 12"
  shows "ed25519_move96BytesConditional out inp 0 = out" "ed25519_move96BytesConditional out inp 1 = inp"
proof -
  have 12: "[0..<12] = [0, 1, 2, 3, 4, 5, 6, 7, 8, 9, 10, 11]" by (simp add: upt_conv_Cons)
  have "fold (\<lambda>i out. out[i := out ! i]) is out = out" for "is" by (induction "is") simp_all
  then show "ed25519_move96BytesConditional out inp 0 = out" by (simp add: ed25519_move96BytesConditional_def)
  have "k < 12 \<Longrightarrow> fold (\<lambda>i out. out[i := inp ! i]) [0..<12] out ! k = inp ! k" "length (fold (\<lambda>i out. out[i := inp ! i]) [0..<12] out) = 12" for k
    using assms(1) unfolding 12 by (simp_all add: nth_list_update less_Suc_eq numeral_eq_Suc) auto
  then have "fold (\<lambda>i out. out[i := inp ! i]) [0..<12] out = inp" using assms(2) by (intro nth_equalityI) simp_all
  then show "ed25519_move96BytesConditional out inp 1 = inp" by (simp add: ed25519_move96BytesConditional_def)
qed

text \<open>The row of the table at a position, and the summand for a digit.\<close>

definition packed_val :: "u64 list \<Rightarrow> gf" where
  "packed_val ws = of_nat (le_nat (words_bytes ws) mod 2 ^ 255)"

definition packed_niels :: "u64 list \<Rightarrow> ed_niels" where
  "packed_niels row = (packed_val row, packed_val (drop 4 row), 1, packed_val (drop 8 row))"

definition ed_base_digit :: "nat \<Rightarrow> int \<Rightarrow> ed_niels" where
  "ed_base_digit pos b =
     (if b = 0 then (1, 1, 1, 0)
      else if b < 0 then ed_negate (packed_niels (ed25519_ge_nielsBaseMultiples ! (8 * pos + nat (- b) - 1)))
      else packed_niels (ed25519_ge_nielsBaseMultiples ! (8 * pos + nat b - 1)))"

lemma length_words_bytes: "length (words_bytes ws) = 8 * length ws"
  by (induction ws) (simp_all add: words_bytes_def)

lemma le_nat_words_bytes [simp]:
  "le_nat (words_bytes []) = 0" "le_nat (words_bytes (w # ws)) = unat w + 2 ^ 64 * le_nat (words_bytes ws)"
proof -
  have "unat w < 2 ^ 64" using unat_less [of w] by simp
  then show "le_nat (words_bytes (w # ws)) = unat w + 2 ^ 64 * le_nat (words_bytes ws)"
    by (simp add: words_bytes_def le_nat_append le_nat_le_bytes)
qed (simp add: words_bytes_def)

lemma load_packed: "4 \<le> length ws \<Longrightarrow> tight (curve25519_load (words_bytes ws)) (packed_val ws)"
  using load_value [of "words_bytes ws"] fe_le_mono [of "2 ^ 51 - 1" "curve25519_load (words_bytes ws)"]
  by (simp add: tight_def fe_rel_def fe_val_def packed_val_def length_words_bytes)

text \<open>The sign, the absolute value and the flag of a table row are computed without branches.\<close>

lemma digit_sign:
  assumes "- 8 \<le> b" "b \<le> 8"
  defines "sign \<equiv> ucast (drop_bit 7 (word_of_int b :: u8)) :: u32"
  shows "sign = (if b < 0 then 1 else 0)" "(word_of_int b + NOT (sign - 1)) XOR NOT (sign - 1) = word_of_nat (nat \<bar>b\<bar>)"
proof -
  have all: "list_all (\<lambda>b. let sign = ucast (drop_bit 7 (word_of_int b :: u8)) :: u32
      in (word_of_int b + NOT (sign - 1)) XOR NOT (sign - 1) = word_of_nat (nat \<bar>b\<bar>) \<and> sign = (if b < 0 then 1 else 0)) [-8..8]"
    by code_simp
  have "b \<in> set [-8..8]" using assms(1,2) by (simp only: set_upto atLeastAtMost_iff)
  from bspec [OF all [unfolded list_all_iff] this]
  show "sign = (if b < 0 then 1 else 0)" "(word_of_int b + NOT (sign - 1)) XOR NOT (sign - 1) = word_of_nat (nat \<bar>b\<bar>)"
    unfolding sign_def Let_def by (rule conjunct2, rule conjunct1)
qed

lemma row_flag:
  assumes "k \<le> 8" "i < 8"
  shows "(drop_bit 31 ((word_of_nat k XOR (word_of_nat i + 1 :: u32)) - 1)) = (if k = i + 1 then 1 else 0)"
proof -
  have "list_all (\<lambda>k. list_all (\<lambda>i. drop_bit 31 ((word_of_nat k XOR (word_of_nat i + 1 :: u32)) - 1) = (if k = i + 1 then 1 else 0)) [0..<8]) [0..<9]"
    by code_simp
  then show ?thesis using assms by (simp add: list_all_iff)
qed

lemma choose_row:
  assumes "length packed = 12" "\<And>i. length (row i) = 12" "n \<le> 8" "k \<le> 8"
  shows "fold (\<lambda>i packed. ed25519_move96BytesConditional packed (row i)
      (ucast (drop_bit 31 ((word_of_nat k XOR (word_of_nat i + 1 :: u32)) - 1)))) [0..<n] packed =
    (if 0 < k \<and> k \<le> n then row (k - 1) else packed)"
  using assms(3)
proof (induction n)
  case (Suc n)
  consider "k = Suc n" | "0 < k" "k \<le> n" | "k = 0" | "Suc n < k" by linarith
  then show ?case
  proof cases
    case 1
    then show ?thesis using Suc row_flag [OF assms(4), of n] assms(1) assms(2) [of n] by (simp add: move96_flag)
  next
    case 2
    then show ?thesis using Suc row_flag [OF assms(4), of n] assms(2) [of n] assms(2) [of "k - 1"] by (simp add: move96_flag)
  qed (use Suc row_flag [OF assms(4), of n] assms(1) assms(2) [of n] in \<open>simp_all add: move96_flag\<close>)
qed auto

lemma base_index: "pos < 32 \<Longrightarrow> i < 8 \<Longrightarrow> unat (push_bit 3 (word_of_nat pos) + word_of_nat i :: u32) = 8 * pos + i"
proof -
  assume "pos < 32" "i < 8"
  then have "8 * pos + i < 2 ^ 32" by simp
  then have "unat (word_of_nat (8 * pos + i) :: u32) = 8 * pos + i" by (simp only: unat_of_nat) simp
  moreover have "(push_bit 3 (word_of_nat pos) + word_of_nat i :: u32) = word_of_nat (8 * pos + i)" by (simp add: push_bit_eq_mult)
  ultimately show "unat (push_bit 3 (word_of_nat pos) + word_of_nat i :: u32) = 8 * pos + i" by simp
qed

lemma choose_refines:
  assumes "pos < 32" "- 8 \<le> b" "b \<le> 8"
  shows "niels_rel (ed25519_ge_scalarmultBaseChooseNiels (word_of_nat pos) b) (ed_base_digit pos b)"
proof -
  define sign where "sign = (ucast (drop_bit 7 (word_of_int b :: u8)) :: u32)"
  note ds = digit_sign [OF assms(2,3), folded sign_def]
  define init where "init = (replicate 12 0)[0 := 1, 4 := (1 :: u64)]"
  define row where "row i = (if i < 8 then ed25519_ge_nielsBaseMultiples ! unat (push_bit 3 (word_of_nat pos) + word_of_nat i :: u32) else init)" for i
  define packed where "packed = (if b = 0 then init else ed25519_ge_nielsBaseMultiples ! (8 * pos + nat \<bar>b\<bar> - 1))"
  have init: "length init = 12" by (simp add: init_def)
  have row: "length (row i) = 12" for i using init base_index [OF assms(1)] rows_length assms(1) by (simp add: row_def)
  have k: "nat \<bar>b\<bar> \<le> 8" using assms(2,3) by simp
  have fold: "fold (\<lambda>i packed. ed25519_move96BytesConditional packed
        (ed25519_ge_nielsBaseMultiples ! unat (push_bit 3 (word_of_nat pos) + word_of_nat i :: u32))
        (ucast (drop_bit 31 ((word_of_nat (nat \<bar>b\<bar>) XOR (word_of_nat i + 1 :: u32)) - 1)))) [0..<8] init = packed"
  proof -
    have "fold (\<lambda>i packed. ed25519_move96BytesConditional packed
        (ed25519_ge_nielsBaseMultiples ! unat (push_bit 3 (word_of_nat pos) + word_of_nat i :: u32))
        (ucast (drop_bit 31 ((word_of_nat (nat \<bar>b\<bar>) XOR (word_of_nat i + 1 :: u32)) - 1)))) [0..<8] init =
      fold (\<lambda>i packed. ed25519_move96BytesConditional packed (row i)
        (ucast (drop_bit 31 ((word_of_nat (nat \<bar>b\<bar>) XOR (word_of_nat i + 1 :: u32)) - 1)))) [0..<8] init"
      by (rule fold_cong) (simp_all add: row_def)
    also have "\<dots> = (if 0 < nat \<bar>b\<bar> \<and> nat \<bar>b\<bar> \<le> 8 then row (nat \<bar>b\<bar> - 1) else init)" by (rule choose_row [OF init row order_refl k])
    also have "\<dots> = packed"
      using k base_index [OF assms(1), of "nat \<bar>b\<bar> - 1"] by (cases "b = 0") (simp_all add: packed_def row_def, auto)
    finally show ?thesis .
  qed
  define N where "N = (if b = 0 then (1, 1, 1, 0) else packed_niels (ed25519_ge_nielsBaseMultiples ! (8 * pos + nat \<bar>b\<bar> - 1)))"
  have one: "packed_val init = 1" "packed_val (drop 4 init) = 1" "packed_val (drop 8 init) = 0"
  proof -
    have "init = [1, 0, 0, 0, 1, 0, 0, 0, 0, 0, 0, 0]" by (simp add: init_def numeral_eq_Suc)
    then show "packed_val init = 1" "packed_val (drop 4 init) = 1" "packed_val (drop 8 init) = 0"
      by (simp_all add: packed_val_def le_nat_words_bytes)
  qed
  have N: "N = packed_niels packed" using one by (simp add: N_def packed_def packed_niels_def)
  have len: "length packed = 12" using rows_length [of "8 * pos + nat \<bar>b\<bar> - 1"] init k assms(1) by (simp add: packed_def)
  have t: "tight (curve25519_load (words_bytes packed)) (packed_val packed)" "tight (curve25519_load (words_bytes (drop 4 packed))) (packed_val (drop 4 packed))"
    "tight (curve25519_load (words_bytes (drop 8 packed))) (packed_val (drop 8 packed))"
    using len by (simp_all add: load_packed)
  note neg = class_sub [OF class_zero t(3)]
  have digit: "ed_base_digit pos b = (if b < 0 then ed_negate N else N)" by (auto simp: ed_base_digit_def N_def)
  have code: "ed25519_ge_scalarmultBaseChooseNiels (word_of_nat pos) b =
      (let (ysubx, xaddy) = curve25519_cSwap (curve25519_load (words_bytes packed)) (curve25519_load (words_bytes (drop 4 packed))) (ucast sign);
           (t2d, neg) = curve25519_cSwap (curve25519_load (words_bytes (drop 8 packed)))
             (curve25519_sub curve25519_zero (curve25519_load (words_bytes (drop 8 packed)))) (ucast sign)
       in \<lparr>niels_ysubx = ysubx, niels_xaddy = xaddy, niels_t2d = t2d\<rparr>)"
    unfolding ed25519_ge_scalarmultBaseChooseNiels_def sign_def [symmetric] Let_def ds(2) init_def [symmetric] fold drop_0 ..
  show ?thesis
    unfolding code digit using t neg by (simp add: ds(1) cSwap_correct N packed_niels_def ed_negate_def niels_rel_def)
qed

text \<open>The scalar multiplication over the ring, on the radix 16 digits.\<close>

definition ed_base_sum :: "int list \<Rightarrow> nat list \<Rightarrow> ed_point \<Rightarrow> ed_point" where
  "ed_base_sum b ks P = fold (\<lambda>i P. ed_complete (ed_add P (ed_base_digit (i div 2) (b ! i)))) ks P"

definition ed_base_mult :: "int list \<Rightarrow> ed_point" where
  "ed_base_mult b =
     (let (m, s, z, t) = ed_base_digit 0 (b ! 1);
          P = ed_base_sum b (map (\<lambda>k. 3 + 2 * k) [0..<31]) (s - m, s + m, 2, t);
          P = ed_complete (ed_double (ed_partial P));
          P = ed_complete (ed_double (ed_partial P));
          P = ed_complete (ed_double (ed_partial P));
          P = ed_complete (ed_double (ed_partial P));
          (m, s, z, t) = ed_base_digit 0 (b ! 0);
          P = ed_complete (ed_add P (m, s, z, t * ed_d))
      in ed_base_sum b (map (\<lambda>k. 2 + 2 * k) [0..<31]) P)"

lemma base_sum_refines:
  assumes "\<forall>i<64. - 8 \<le> b ! i \<and> b ! i \<le> 8" "ge_rel r P" "\<forall>i\<in>set ks. i < 64"
  shows "ge_rel (fold (\<lambda>i r. ed25519_ge_nielsAdd r (ed25519_ge_scalarmultBaseChooseNiels (word_of_nat (drop_bit 1 i)) (b ! i))) ks r) (ed_base_sum b ks P)"
  using assms(2,3) unfolding ed_base_sum_def
proof (induction ks arbitrary: r P)
  case (Cons i ks)
  have i: "i div 2 < 32" "- 8 \<le> b ! i" "b ! i \<le> 8" using Cons.prems assms(1) by auto
  have "drop_bit 1 i = i div 2" by (simp add: drop_bit_eq_div)
  then show ?case using Cons.IH [OF nielsAdd_refines [OF Cons.prems(1) choose_refines [OF i]]] Cons.prems by simp
qed simp

lemma scalarmultBase_refines:
  assumes "modm_wf 32 s" "modm_nat s < 2 ^ 255"
  shows "ge_rel (ed25519_ge_scalarmultBaseNiels s) (ed_base_mult (ed25519_modm_window4 s))"
proof -
  define b where "b = ed25519_modm_window4 s"
  have b: "\<forall>i<64. - 8 \<le> b ! i \<and> b ! i \<le> 8" using window4_range [OF assms] by (simp add: b_def)
  obtain m1 s1 z1 t1 where d1: "ed_base_digit 0 (b ! 1) = (m1, s1, z1, t1)" by (metis prod.exhaust)
  obtain m0 s0 z0 t0 where d0: "ed_base_digit 0 (b ! 0) = (m0, s0, z0, t0)" by (metis prod.exhaust)
  define c where "c i = ed25519_ge_scalarmultBaseChooseNiels 0 (b ! i)" for i
  have "niels_rel (c i) (ed_base_digit 0 (b ! i))" if "i < 64" for i
    using choose_refines [of 0 "b ! i"] b that by (simp add: c_def)
  from this [of 1] this [of 0] have n: "niels_rel (c 1) (m1, s1, z1, t1)" "niels_rel (c 0) (m0, s0, z0, t0)" unfolding d1 d0 by simp_all
  then have t: "tight (niels_ysubx (c 1)) m1" "tight (niels_xaddy (c 1)) s1" "tight (niels_t2d (c 1)) t1" "loose (niels_t2d (c 0)) t0"
    using limb_class_mono(2) by (auto simp: niels_rel_def)
  define r where "r = \<lparr>ge_x = curve25519_sub (niels_xaddy (c 1)) (niels_ysubx (c 1)), ge_y = curve25519_add (niels_xaddy (c 1)) (niels_ysubx (c 1)),
    ge_z = (2, 0, 0, 0, 0), ge_t = niels_t2d (c 1)\<rparr>"
  have 0: "ge_rel r (s1 - m1, s1 + m1, 2, t1)"
    using class_sub [OF t(2,1)] class_add [OF t(2,1)] class_constants(6) t(3) by (simp add: ge_rel_def r_def)
  define q where "q = (c 0)\<lparr>niels_t2d := curve25519_mul (niels_t2d (c 0)) ed25519_ge_ecd\<rparr>"
  have q: "niels_rel q (m0, s0, z0, t0 * ed_d)"
    using n(2) class_mul [OF t(4) limb_class_mono(2) [OF class_constants(1)]] by (simp add: niels_rel_def q_def)
  have ks: "\<forall>i\<in>set (map (\<lambda>k. 3 + 2 * k) [0..<31]). i < 64" "\<forall>i\<in>set (map (\<lambda>k. 2 + 2 * k) [0..<31]). i < 64" by auto
  note 1 = base_sum_refines [OF b 0 ks(1)]
  note 2 = double_refines(2) [OF double_refines(2) [OF double_refines(2) [OF ge_rel_partial [OF 1]]]]
  note 3 = nielsAdd_refines [OF double_refines(1) [OF 2] q]
  show ?thesis
    using base_sum_refines [OF b 3 ks(2)]
    unfolding ed25519_ge_scalarmultBaseNiels_def b_def [symmetric] Let_def ed_base_mult_def d0 d1 prod.case c_def [symmetric] r_def [symmetric] q_def [symmetric] .
qed

section \<open>Compression and decompression\<close>

text \<open>The encoding of a point: its \<open>y\<close> coordinate with the parity of \<open>x\<close> as the top bit.\<close>

definition ed_encode :: "ed_projective \<Rightarrow> bytes" where
  "ed_encode P = (case P of (X, Y, Z) \<Rightarrow>
     let x = nat (gf_rep (X * Z ^ nat (gf_p - 2))); y = nat (gf_rep (Y * Z ^ nat (gf_p - 2)))
     in le_bytes 32 (y + 2 ^ 255 * (x mod 2)))"

lemma xor_top_bit:
  assumes "n < 2 ^ 255" "k < 2"
  shows "(le_bytes 32 n)[31 := le_bytes 32 n ! 31 XOR word_of_nat (128 * k)] = le_bytes 32 (n + 2 ^ 255 * k)"
proof -
  have split: "le_bytes 32 m = le_bytes 31 m @ [word_of_nat (m div 256 ^ 31)]" for m using le_bytes_append [of 31 1 m] by simp
  have "le_bytes 31 (n + 2 ^ 255 * k) = le_bytes 31 ((n + 256 ^ 31 * (128 * k)) mod 256 ^ 31)" by (simp only: le_bytes_mod) simp
  also have "\<dots> = le_bytes 31 n" unfolding mod_mult_self2 by (rule le_bytes_mod)
  finally have low: "le_bytes 31 (n + 2 ^ 255 * k) = le_bytes 31 n" .
  define h where "h = n div 256 ^ 31"
  have h: "h < 128" using assms(1) by (simp add: h_def less_mult_imp_div_less)
  have "(n + 256 ^ 31 * (128 * k)) div 256 ^ 31 = 128 * k + h" unfolding h_def by (rule div_mult_self2) simp
  then have high: "(n + 2 ^ 255 * k) div 256 ^ 31 = h + 128 * k" by simp
  have "(word_of_nat h XOR word_of_nat (128 * k) :: u8) = word_of_nat (h + 128 * k)"
  proof -
    have "k = 0 \<or> k = 1" using assms(2) by auto
    moreover have "(word_of_nat h XOR 128 :: u8) = word_of_nat (h + 128)"
    proof -
      have "list_all (\<lambda>h. (word_of_nat h XOR 128 :: u8) = word_of_nat (h + 128)) [0..<128]" by code_simp
      then show ?thesis using h by (simp add: list_all_iff)
    qed
    ultimately show ?thesis by auto
  qed
  then show ?thesis unfolding split low high h_def [symmetric] by (simp add: nth_append list_update_append)
qed

lemma loose_63: "loose a x \<Longrightarrow> fe_rel (2 ^ 63) a x"
  unfolding loose_def by (erule fe_rel_mono) simp

lemma reduce_odd:
  assumes "loose a x"
  shows "fe_limb0 (curve25519_reduce a) AND 1 = of_bool (odd (gf_rep x))"
proof -
  obtain a0 a1 a2 a3 a4 where r: "curve25519_reduce a = (a0, a1, a2, a3, a4)" by (metis prod.exhaust)
  have "int (fe_nat (curve25519_reduce a)) = gf_rep x" by (rule reduce_rep [OF loose_63 [OF assms]])
  then have "odd (gf_rep x) \<longleftrightarrow> odd (int (fe_nat (curve25519_reduce a)))" by simp
  then have "odd (gf_rep x) \<longleftrightarrow> odd (fe_nat (a0, a1, a2, a3, a4))" unfolding r by (simp only: even_of_nat)
  then have "odd (gf_rep x) \<longleftrightarrow> odd (unat a0)" unfolding fe_nat_def prod.case by simp
  moreover have "odd (unat a0) \<longleftrightarrow> odd a0" unfolding bit_0 [symmetric] by (simp add: bit_unsigned_iff)
  ultimately show ?thesis by (simp add: r fe_limb0_def and_one_eq odd_iff_mod_2_eq_one)
qed

lemma pack_refines:
  assumes "partial_rel p P" "32 \<le> length r"
  shows "ed25519_ge_pack r p = mem_put r 0 (ed_encode P)"
proof -
  obtain X Y Z where P: "P = (X, Y, Z)" by (metis prod.exhaust)
  have t: "loose (ge_x p) X" "loose (ge_y p) Y" "loose (ge_z p) Z" using assms(1) limb_class_mono(2) by (auto simp: partial_rel_def P)
  have e: "nat (gf_p - 2) = 2 ^ 255 - 21" by (simp add: gf_p_def)
  define zi where "zi = curve25519_invert (ge_z p)"
  have "fe_rel (2 ^ 51 + 2 ^ 13) zi (Z ^ nat (gf_p - 2))" unfolding zi_def e using fe.inv_law t(3) by (simp add: loose_def)
  then have zi: "loose zi (Z ^ nat (gf_p - 2))" unfolding loose_def by (rule fe_rel_mono) simp
  note x = limb_class_mono(2) [OF class_mul [OF t(1) zi]] and y = limb_class_mono(2) [OF class_mul [OF t(2) zi]]
  define yv where "yv = nat (gf_rep (Y * Z ^ nat (gf_p - 2)))"
  define xv where "xv = nat (gf_rep (X * Z ^ nat (gf_p - 2)))"
  have le: "fe_le (2 ^ 63) (curve25519_mul (ge_y p) zi)" using loose_63 [OF y] by (simp add: fe_rel_def)
  have store: "curve25519_store r (curve25519_reduce (curve25519_mul (ge_y p) zi)) = mem_put r 0 (le_bytes 32 yv)"
    using store_value [OF reduce_value(2) [OF le] assms(2)] reduce_rep [OF loose_63 [OF y]] unfolding yv_def by (metis nat_int)
  have yb: "yv < 2 ^ 255" using gf_rep_bounds [of "Y * Z ^ nat (gf_p - 2)"] by (simp add: yv_def gf_p_def)
  have "(ucast (push_bit 7 (of_bool b :: u64)) :: u8) = word_of_nat (128 * of_bool b)" for b by (cases b) simp_all
  moreover have "odd (gf_rep (X * Z ^ nat (gf_p - 2))) \<longleftrightarrow> odd xv" using gf_rep_bounds(1) by (simp add: xv_def even_nat_iff)
  ultimately have par: "(ucast (push_bit 7 (fe_limb0 (curve25519_reduce (curve25519_mul (ge_x p) zi)) AND 1)) :: u8) = word_of_nat (128 * (xv mod 2))"
    unfolding reduce_odd [OF x] by (simp add: mod_2_eq_odd)
  have put: "(mem_put r 0 bs)[31 := mem_put r 0 bs ! 31 XOR w] = mem_put r 0 (bs[31 := bs ! 31 XOR w])" if "length bs = 32" for bs and w :: u8
    using that by (simp add: mem_put_def list_update_append nth_append)
  show ?thesis
    unfolding ed25519_ge_pack_def Let_def zi_def [symmetric] store par P ed_encode_def prod.case yv_def [symmetric] xv_def [symmetric]
    using put [of "le_bytes 32 yv" "word_of_nat (128 * (xv mod 2))"] xor_top_bit [OF yb, of "xv mod 2"] by (simp only: length_le_bytes)
qed

lemma zero_test:
  assumes "loose a x"
  shows "mem_compare (fe_bytes (curve25519_reduce a)) (fe_bytes curve25519_zero) 40 = 0 \<longleftrightarrow> x = 0"
proof -
  obtain a0 a1 a2 a3 a4 where r: "curve25519_reduce a = (a0, a1, a2, a3, a4)" by (metis prod.exhaust)
  have len: "length (words_bytes [b0, b1, b2, b3, b4]) = 40" for b0 b1 b2 b3 b4 by (simp add: length_words_bytes)
  have "mem_compare (fe_bytes (curve25519_reduce a)) (fe_bytes curve25519_zero) 40 = 0 \<longleftrightarrow>
      words_bytes [a0, a1, a2, a3, a4] = words_bytes [0, 0, 0, 0, 0]"
    using mem_compare_eq_0_iff [of 40 "words_bytes [a0, a1, a2, a3, a4]" "words_bytes [0, 0, 0, 0, 0]"] len
    by (simp add: r fe_bytes_def curve25519_zero_def)
  also have "\<dots> \<longleftrightarrow> fe_nat (a0, a1, a2, a3, a4) = 0"
  proof
    assume "words_bytes [a0, a1, a2, a3, a4] = words_bytes [0, 0, 0, 0, 0]"
    then have "le_nat (words_bytes [a0, a1, a2, a3, a4]) = le_nat (words_bytes [0, 0, 0, 0, 0])" by (simp only:)
    then show "fe_nat (a0, a1, a2, a3, a4) = 0" by (simp add: fe_nat_def)
  next
    assume "fe_nat (a0, a1, a2, a3, a4) = 0"
    then have "a0 = 0" "a1 = 0" "a2 = 0" "a3 = 0" "a4 = 0" by (simp_all add: fe_nat_def unat_eq_0)
    then show "words_bytes [a0, a1, a2, a3, a4] = words_bytes [0, 0, 0, 0, 0]" by simp
  qed
  also have "\<dots> \<longleftrightarrow> gf_rep x = 0" using reduce_rep [OF loose_63 [OF assms]] unfolding r by linarith
  also have "\<dots> \<longleftrightarrow> x = 0" by (metis gf_rep_inject zero_gf.rep_eq)
  finally show ?thesis .
qed

lemma gf_rep_minus_odd: "x \<noteq> 0 \<Longrightarrow> odd (gf_rep (- x)) \<longleftrightarrow> even (gf_rep x)"
proof -
  assume "x \<noteq> 0"
  then have "0 < gf_rep x" using gf_rep_bounds(1) [of x] by (metis gf_rep_inject zero_gf.rep_eq order_le_less)
  then have "gf_rep (- x) = gf_p - gf_rep x"
    using gf_rep_bounds(2) [of x] mod_add_self2 [of "- gf_rep x" gf_p] mod_pos_pos_trivial [of "gf_p - gf_rep x" gf_p]
    by (simp add: uminus_gf.rep_eq)
  moreover have "odd gf_p" by (simp add: gf_p_def)
  ultimately show ?thesis by simp
qed

text \<open>The candidate for the square root of \<open>num / den\<close>.\<close>

definition ed_candidate :: "gf \<Rightarrow> gf \<Rightarrow> gf" where
  "ed_candidate num den = (num * den ^ 7) ^ (2 ^ 252 - 3) * den ^ 3 * num"

definition ed_num :: "gf \<Rightarrow> gf" where
  "ed_num y = y * y - 1"

definition ed_den :: "gf \<Rightarrow> gf" where
  "ed_den y = y * y * ed_d + 1"

text \<open>The part of the decompression that looks for the root.\<close>

definition unpack_root :: "fe \<Rightarrow> fe \<Rightarrow> fe option" where
  "unpack_root num den =
     (let t = curve25519_squareN den 1;
          d3 = curve25519_mul t den;
          x = curve25519_mul (curve25519_mul (curve25519_powTwo252m3 (curve25519_mul (curve25519_mul (curve25519_squareN d3 1) den) num)) d3) num;
          t = curve25519_mul (curve25519_squareN x 1) den
      in if mem_compare (fe_bytes (curve25519_reduce (curve25519_subNoReduceFourP t num))) (fe_bytes curve25519_zero) 40 \<noteq> 0 then
           if mem_compare (fe_bytes (curve25519_reduce (curve25519_addNoReduce t num))) (fe_bytes curve25519_zero) 40 \<noteq> 0 then None
           else Some (curve25519_mul x ed25519_ge_sqrtneg1)
         else Some x)"

lemma unpack_root_refines:
  assumes "medium num n" "medium den d"
  defines "x \<equiv> ed_candidate n d"
  shows "x * x * d = n \<Longrightarrow> \<exists>r. unpack_root num den = Some r \<and> tight r x"
    "x * x * d \<noteq> n \<Longrightarrow> x * x * d = - n \<Longrightarrow> \<exists>r. unpack_root num den = Some r \<and> tight r (x * fe_val ed25519_ge_sqrtneg1)"
    "x * x * d \<noteq> n \<Longrightarrow> x * x * d \<noteq> - n \<Longrightarrow> unpack_root num den = None"
proof -
  note l = limb_class_mono(3) [OF assms(1)] limb_class_mono(3) [OF assms(2)]
  note tl = limb_class_mono(2)
  note d3 = class_mul [OF tl [OF class_square [OF l(2)]] l(2)]
  note d7 = class_mul [OF tl [OF class_mul [OF tl [OF class_square [OF tl [OF d3]]] l(2)]] l(1)]
  have pow: "d * d * d = d ^ 3" "d * d * d * (d * d * d) * d * n = n * d ^ 7" by (simp_all add: numeral_eq_Suc algebra_simps)
  define X where "X = curve25519_mul (curve25519_mul (curve25519_powTwo252m3 (curve25519_mul (curve25519_mul (curve25519_squareN
    (curve25519_mul (curve25519_squareN den 1) den) 1) den) num)) (curve25519_mul (curve25519_squareN den 1) den)) num"
  have "loose (curve25519_powTwo252m3 (curve25519_mul (curve25519_mul (curve25519_squareN (curve25519_mul (curve25519_squareN den 1) den) 1) den) num))
      ((n * d ^ 7) ^ (2 ^ 252 - 3))"
    using fe.pow252_law [OF tl [OF d7, unfolded loose_def]] unfolding pow(2) loose_def by (rule fe_rel_mono) simp
  from class_mul [OF tl [OF class_mul [OF this tl [OF d3]]] l(1)]
  have X: "tight X x" unfolding X_def x_def ed_candidate_def pow(1) .
  define t where "t = curve25519_mul (curve25519_squareN X 1) den"
  have t: "tight t (x * x * d)" unfolding t_def by (rule class_mul [OF tl [OF class_square [OF tl [OF X]]] l(2)])
  have "loose (curve25519_addNoReduce t num) (x * x * d + n)"
    unfolding loose_def by (rule fe_rel_mono [OF fe.addN_law [OF t [unfolded tight_def] assms(1) [unfolded medium_def]]]) simp_all
  note z = zero_test [OF class_sub4 [OF t assms(1)]] zero_test [OF this]
  note m = class_mul [OF tl [OF X] tl [OF class_constants(3)]]
  have code: "unpack_root num den =
      (if x * x * d - n \<noteq> 0 then if x * x * d + n \<noteq> 0 then None else Some (curve25519_mul X ed25519_ge_sqrtneg1) else Some X)"
    unfolding unpack_root_def Let_def X_def [symmetric] t_def [symmetric] z ..
  show "x * x * d = n \<Longrightarrow> \<exists>r. unpack_root num den = Some r \<and> tight r x" unfolding code using X by simp
  show "x * x * d \<noteq> n \<Longrightarrow> x * x * d = - n \<Longrightarrow> \<exists>r. unpack_root num den = Some r \<and> tight r (x * fe_val ed25519_ge_sqrtneg1)"
    unfolding code using m by simp
  show "x * x * d \<noteq> n \<Longrightarrow> x * x * d \<noteq> - n \<Longrightarrow> unpack_root num den = None"
    unfolding code by (simp add: eq_neg_iff_add_eq_0)
qed

lemma unpack_root_square:
  assumes "medium num n" "medium den d" "unpack_root num den = Some r"
  obtains x where "tight r x" "x * x * d = n"
proof -
  define c where "c = ed_candidate n d"
  note u = unpack_root_refines [OF assms(1,2), folded c_def]
  consider "c * c * d = n" | "c * c * d \<noteq> n" "c * c * d = - n" using u(3) assms(3) by fastforce
  then show thesis
  proof cases
    case 1
    then show thesis using u(1) assms(3) that by auto
  next
    case 2
    define i where "i = fe_val ed25519_ge_sqrtneg1"
    have "(c * i) * (c * i) * d = (c * c * d) * (i * i)" by (simp add: algebra_simps)
    also have "\<dots> = n" using 2 curve_constants(3) by (simp add: i_def)
    finally show thesis using u(2) [OF 2] assms(3) that unfolding i_def by auto
  qed
qed

lemma unpack_code:
  "ed25519_ge_unpackNegativeVartime p =
     (let y = curve25519_load p; yy = curve25519_squareN y 1;
          num = curve25519_subNoReduce yy (1, 0, 0, 0, 0);
          den = curve25519_addNoReduce (curve25519_mul yy ed25519_ge_ecd) (1, 0, 0, 0, 0)
      in case unpack_root num den of None \<Rightarrow> None
         | Some x \<Rightarrow>
           let x = curve25519_reduce x;
               x = (if fe_limb0 x AND 1 = ucast (drop_bit 7 (p ! 31)) then curve25519_sub curve25519_zero x else x)
           in Some \<lparr>ge_x = x, ge_y = y, ge_z = (1, 0, 0, 0, 0), ge_t = curve25519_mul x y\<rparr>)"
  unfolding ed25519_ge_unpackNegativeVartime_def unpack_root_def Let_def ..

lemma unpack_operands:
  assumes "length p = 32"
  defines "Y \<equiv> of_nat (le_nat p mod 2 ^ 255)" and "yy \<equiv> curve25519_squareN (curve25519_load p) 1"
  shows "tight (curve25519_load p) Y" "medium (curve25519_subNoReduce yy (1, 0, 0, 0, 0)) (ed_num Y)"
    "medium (curve25519_addNoReduce (curve25519_mul yy ed25519_ge_ecd) (1, 0, 0, 0, 0)) (ed_den Y)"
proof -
  have y: "tight (curve25519_load p) Y"
    using load_value [of p] fe_le_mono [of "2 ^ 51 - 1" "curve25519_load p"] assms(1) by (simp add: tight_def fe_rel_def fe_val_def Y_def)
  note yy = class_square [OF limb_class_mono(2) [OF y], folded yy_def]
  show "tight (curve25519_load p) Y" by (rule y)
  show "medium (curve25519_subNoReduce yy (1, 0, 0, 0, 0)) (ed_num Y)"
    unfolding ed_num_def by (rule class_subN [OF yy class_constants(5)])
  show "medium (curve25519_addNoReduce (curve25519_mul yy ed25519_ge_ecd) (1, 0, 0, 0, 0)) (ed_den Y)"
    unfolding ed_den_def
    by (rule class_addN [OF class_mul [OF limb_class_mono(2) [OF yy] limb_class_mono(2) [OF class_constants(1)]] class_constants(5)])
qed

lemma top_bit:
  assumes "length p = 32"
  shows "(ucast (drop_bit 7 (p ! 31)) :: u64) = of_bool (2 ^ 255 \<le> le_nat p)"
proof -
  have "p = take 31 p @ [p ! 31]" using assms take_Suc_conv_app_nth [of 31 p] by simp
  then have "le_nat p = le_nat (take 31 p) + 256 ^ 31 * unat (p ! 31)" using le_nat_append [of "take 31 p" "[p ! 31]"] assms by simp
  moreover have "le_nat (take 31 p) < 256 ^ 31" using le_nat_bound [of "take 31 p"] assms by simp
  ultimately have "2 ^ 255 \<le> le_nat p \<longleftrightarrow> 128 \<le> unat (p ! 31)" by auto
  moreover have all: "list_all (\<lambda>b. (ucast (drop_bit 7 (word_of_nat b :: u8)) :: u64) = of_bool (128 \<le> b)) [0..<256]" by code_simp
  have "unat (p ! 31) \<in> set [0..<256]" using unat_lt_256 [of "p ! 31"] by simp
  from bspec [OF all [unfolded list_all_iff] this]
  have "(ucast (drop_bit 7 (p ! 31)) :: u64) = of_bool (128 \<le> unat (p ! 31))" by (simp only: of_nat_unat ucast_id)
  ultimately show ?thesis by simp
qed

text \<open>
  The decompressed point: a square root of \<open>(y^2 - 1) / (d y^2 + 1)\<close> whose parity differs from the sign
  bit, so that the point is the negative of the encoded one.
\<close>

lemma unpack_sound:
  assumes "length p = 32" "ed25519_ge_unpackNegativeVartime p = Some r"
  defines "Y \<equiv> of_nat (le_nat p mod 2 ^ 255)"
  obtains X where "ge_rel r (X, Y, 1, X * Y)" "X * X * ed_den Y = ed_num Y" "X = 0 \<or> (odd (gf_rep X) \<longleftrightarrow> le_nat p < 2 ^ 255)"
proof -
  define yy where "yy = curve25519_squareN (curve25519_load p) 1"
  define num where "num = curve25519_subNoReduce yy (1, 0, 0, 0, 0)"
  define den where "den = curve25519_addNoReduce (curve25519_mul yy ed25519_ge_ecd) (1, 0, 0, 0, 0)"
  note o = unpack_operands [OF assms(1), folded Y_def yy_def, folded num_def den_def]
  from assms(2) obtain x where x: "unpack_root num den = Some x"
    and r: "r = (let x = curve25519_reduce x; x = (if fe_limb0 x AND 1 = ucast (drop_bit 7 (p ! 31)) then curve25519_sub curve25519_zero x else x)
      in \<lparr>ge_x = x, ge_y = curve25519_load p, ge_z = (1, 0, 0, 0, 0), ge_t = curve25519_mul x (curve25519_load p)\<rparr>)"
    unfolding unpack_code Let_def yy_def [symmetric] num_def [symmetric] den_def [symmetric] by (auto split: option.splits)
  from unpack_root_square [OF o(2,3) x] obtain X where X: "tight x X" "X * X * ed_den Y = ed_num Y" .
  have red: "tight (curve25519_reduce x) X"
    unfolding tight_def using fe.reduce_law [OF loose_63 [OF limb_class_mono(2) [OF X(1)]]] by (rule fe_rel_mono) simp
  have neg: "tight (curve25519_sub curve25519_zero (curve25519_reduce x)) (- X)" using class_sub [OF class_zero red] by simp
  have bit: "fe_limb0 (curve25519_reduce x) AND 1 = ucast (drop_bit 7 (p ! 31)) \<longleftrightarrow> (odd (gf_rep X) \<longleftrightarrow> 2 ^ 255 \<le> le_nat p)"
    unfolding top_bit [OF assms(1)] reduce_odd [OF limb_class_mono(2) [OF X(1)]] by simp
  define X' where "X' = (if odd (gf_rep X) \<longleftrightarrow> 2 ^ 255 \<le> le_nat p then - X else X)"
  define x' where "x' = (if odd (gf_rep X) \<longleftrightarrow> 2 ^ 255 \<le> le_nat p then curve25519_sub curve25519_zero (curve25519_reduce x) else curve25519_reduce x)"
  have x': "tight x' X'" using red neg by (simp add: x'_def X'_def)
  have "ge_rel r (X', Y, 1, X' * Y)"
    unfolding r Let_def bit x'_def [symmetric] ge_rel_def prod.case
    using x' o(1) class_constants(5) class_mul [OF limb_class_mono(2) [OF x'] limb_class_mono(2) [OF o(1)]] by simp
  moreover have "X' * X' * ed_den Y = ed_num Y" using X(2) by (simp add: X'_def)
  moreover have "X' = 0 \<or> (odd (gf_rep X') \<longleftrightarrow> le_nat p < 2 ^ 255)" using gf_rep_minus_odd [of X] by (auto simp: X'_def)
  ultimately show thesis by (rule that)
qed

lemma unpack_complete:
  assumes "length p = 32"
  defines "Y \<equiv> of_nat (le_nat p mod 2 ^ 255)"
  defines "c \<equiv> ed_candidate (ed_num Y) (ed_den Y)"
  shows "ed25519_ge_unpackNegativeVartime p = None \<longleftrightarrow> c * c * ed_den Y \<noteq> ed_num Y \<and> c * c * ed_den Y \<noteq> - ed_num Y"
proof -
  note o = unpack_operands [OF assms(1), folded Y_def]
  note u = unpack_root_refines [OF o(2,3), folded c_def]
  have "ed25519_ge_unpackNegativeVartime p = None \<longleftrightarrow> unpack_root (curve25519_subNoReduce (curve25519_squareN (curve25519_load p) 1) (1, 0, 0, 0, 0))
      (curve25519_addNoReduce (curve25519_mul (curve25519_squareN (curve25519_load p) 1) ed25519_ge_ecd) (1, 0, 0, 0, 0)) = None"
    unfolding unpack_code Let_def by (auto split: option.splits)
  then show ?thesis using u by (metis option.distinct(1))
qed

section \<open>The addition law\<close>

text \<open>
  The Edwards addition law, in division-free form: \<open>(x3, y3)\<close> is the sum of \<open>(x1, y1)\<close> and \<open>(x2, y2)\<close>
  on the curve \<open>-x^2 + y^2 = 1 + d x^2 y^2\<close>.
\<close>

definition on_curve :: "gf \<times> gf \<Rightarrow> bool" where
  "on_curve p \<longleftrightarrow> (case p of (x, y) \<Rightarrow> y * y - x * x = 1 + ed_d * (x * x) * (y * y))"

definition ed_sum :: "gf \<times> gf \<Rightarrow> gf \<times> gf \<Rightarrow> gf \<times> gf \<Rightarrow> bool" where
  "ed_sum p q r \<longleftrightarrow> (case (p, q, r) of ((x1, y1), (x2, y2), (x3, y3)) \<Rightarrow>
     x3 * (1 + ed_d * x1 * x2 * y1 * y2) = x1 * y2 + x2 * y1 \<and> y3 * (1 - ed_d * x1 * x2 * y1 * y2) = y1 * y2 + x1 * x2)"

definition represents :: "ed_point \<Rightarrow> gf \<times> gf \<Rightarrow> bool" where
  "represents P p \<longleftrightarrow> (case (P, p) of ((X, Y, Z, T), (x, y)) \<Rightarrow> X = x * Z \<and> Y = y * Z \<and> T = x * y * Z)"

definition prepares :: "ed_niels \<Rightarrow> gf \<times> gf \<Rightarrow> bool" where
  "prepares N p \<longleftrightarrow> (case (N, p) of ((m, s, z, t), (x, y)) \<Rightarrow> m = (y - x) * z \<and> s = (y + x) * z \<and> t = 2 * ed_d * x * y * z)"

lemma add_represents:
  assumes "represents P p" "prepares N q" "ed_sum p q r"
  shows "represents (ed_complete (ed_add P N)) r"
proof -
  obtain x1 y1 x2 y2 x3 y3 where p: "p = (x1, y1)" "q = (x2, y2)" "r = (x3, y3)" by (metis prod.exhaust)
  obtain X Y Z T m s z t where P: "P = (X, Y, Z, T)" "N = (m, s, z, t)" by (metis prod.exhaust)
  have e: "X = x1 * Z" "Y = y1 * Z" "T = x1 * y1 * Z" "m = (y2 - x2) * z" "s = (y2 + x2) * z" "t = 2 * ed_d * x2 * y2 * z"
    using assms(1,2) by (simp_all add: represents_def prepares_def p P)
  define k where "k = ed_d * x1 * x2 * y1 * y2"
  define c where "c = 2 * Z * z"
  have C: "ed_add P N = (c * (x1 * y2 + x2 * y1), c * (y1 * y2 + x1 * x2), c * (1 + k), c * (1 - k))"
    unfolding ed_add_def P prod.case e c_def k_def by (simp add: algebra_simps)
  have s: "x1 * y2 + x2 * y1 = x3 * (1 + k)" "y1 * y2 + x1 * x2 = y3 * (1 - k)"
    using assms(3) by (simp_all add: ed_sum_def p k_def)
  show ?thesis unfolding C ed_complete_def represents_def p prod.case s by (simp add: algebra_simps)
qed

lemma double_represents:
  assumes "represents P p" "on_curve p" "ed_sum p p r"
  shows "represents (ed_complete (ed_double (ed_partial P))) r"
proof -
  obtain x y x3 y3 where p: "p = (x, y)" "r = (x3, y3)" by (metis prod.exhaust)
  obtain X Y Z T where P: "P = (X, Y, Z, T)" by (metis prod.exhaust)
  have e: "X = x * Z" "Y = y * Z" using assms(1) by (simp_all add: represents_def p P)
  define k where "k = ed_d * (x * x) * (y * y)"
  have c: "y * y - x * x = 1 + k" using assms(2) by (simp add: on_curve_def p k_def)
  have k': "ed_d * x * x * y * y = k" by (simp add: k_def algebra_simps)
  have s: "x * y + x * y = x3 * (1 + k)" "y * y + x * x = y3 * (1 - k)" using assms(3) by (simp_all add: ed_sum_def p k')
  have "ed_double (ed_partial P) = (Z * Z * (x * y + x * y), Z * Z * (y * y + x * x), Z * Z * (y * y - x * x), Z * Z * (2 - (y * y - x * x)))"
    unfolding ed_double_def ed_partial_def P prod.case e by (simp add: algebra_simps)
  also have "\<dots> = (Z * Z * (x3 * (1 + k)), Z * Z * (y3 * (1 - k)), Z * Z * (1 + k), Z * Z * (1 - k))" unfolding c s by (simp add: algebra_simps)
  finally show ?thesis unfolding ed_complete_def represents_def p prod.case by (simp add: algebra_simps)
qed

lemma negate_prepares: "prepares N (x, y) \<Longrightarrow> prepares (ed_negate N) (- x, y)"
  by (auto simp: prepares_def ed_negate_def)

lemma prepare_represents: "represents P p \<Longrightarrow> prepares (ed_prepare P) p"
  by (auto simp: prepares_def represents_def ed_prepare_def algebra_simps)

lemma neutral_law: "represents (0, 1, 1, 0) (0, 1)" "on_curve (0, 1)" "ed_sum p (0, 1) p"
  by (auto simp: represents_def on_curve_def ed_sum_def)

section \<open>Points and scalar multiplication\<close>

text \<open>
  C22: The additions and doublings of the code follow the Edwards addition law. If the arguments represent the
  points \<open>p\<close> and \<open>q\<close> of the curve \<open>-x^2 + y^2 = 1 + d x^2 y^2\<close>, then \<open>ed25519_ge_nielsAdd\<close>, \<open>ed25519_ge_pnielsAdd\<close> (up to the
  prepared form of its result) and \<open>ed25519_ge_double\<close> return extended coordinates of \<open>p + q\<close> and \<open>p + p\<close>,
  and with the sign bit set the mixed additions add \<open>-q\<close>; no limb overflows on the way.
\<close>
theorem ed25519_ge_addition_law:
  assumes "ge_rel r P" "represents P p" "niels_rel q N" "prepares N (x, y)" "pniels_rel q' N'" "prepares N' (x, y)"
    and "ed_sum p (x, y) s" "ed_sum p (- x, y) d" "on_curve p" "ed_sum p p e"
  shows "(\<exists>R. ge_rel (ed25519_ge_nielsAdd r q) R \<and> represents R s) \<and>
    (\<exists>R. pniels_rel (ed25519_ge_pnielsAdd r q') R \<and> prepares R s) \<and>
    (\<exists>R. ge_rel (ed25519_ge_p1p1ToFull (ed25519_ge_nielsAddP1p1 r q 1)) R \<and> represents R d) \<and>
    (\<exists>R. ge_rel (ed25519_ge_p1p1ToFull (ed25519_ge_pnielsAddP1p1 r q' 1)) R \<and> represents R d) \<and>
    (\<exists>R. ge_rel (ed25519_ge_double r) R \<and> represents R e)"
proof -
  have n: "ed_signed 1 M = ed_negate M" for M by (simp add: ed_signed_def)
  have "ge_rel (ed25519_ge_nielsAdd r q) (ed_complete (ed_add P N))" by (rule nielsAdd_refines [OF assms(1,3)])
  moreover have "pniels_rel (ed25519_ge_pnielsAdd r q') (ed_prepare (ed_complete (ed_add P N')))" by (rule pnielsAdd_refines [OF assms(1,5)])
  moreover have "ge_rel (ed25519_ge_p1p1ToFull (ed25519_ge_nielsAddP1p1 r q 1)) (ed_complete (ed_add P (ed_negate N)))"
    using p1p1ToFull_refines [OF nielsAddP1p1_refines [OF assms(1,3), of 1]] by (simp add: n)
  moreover have "ge_rel (ed25519_ge_p1p1ToFull (ed25519_ge_pnielsAddP1p1 r q' 1)) (ed_complete (ed_add P (ed_negate N')))"
    using p1p1ToFull_refines [OF pnielsAddP1p1_refines [OF assms(1,5), of 1]] by (simp add: n)
  moreover have "ge_rel (ed25519_ge_double r) (ed_complete (ed_double (ed_partial P)))" by (rule double_refines(1) [OF ge_rel_partial [OF assms(1)]])
  ultimately show ?thesis
    using add_represents [OF assms(2,4,7)] prepare_represents [OF add_represents [OF assms(2,6,7)]]
      add_represents [OF assms(2) negate_prepares [OF assms(4)] assms(8)] add_represents [OF assms(2) negate_prepares [OF assms(6)] assms(8)]
      double_represents [OF assms(2,9,10)]
    by blast
qed

text \<open>The witness adds the point \<open>(0, -1)\<close> of order two to itself.\<close>

theorem ed25519_ge_addition_law_witness:
  "\<exists>R. ge_rel (ed25519_ge_double \<lparr>ge_x = (0, 0, 0, 0, 0), ge_y = curve25519_sub (0, 0, 0, 0, 0) (1, 0, 0, 0, 0), ge_z = (1, 0, 0, 0, 0), ge_t = (0, 0, 0, 0, 0)\<rparr>) R \<and>
     represents R (0, 1)"
proof -
  let ?m = "curve25519_sub (0, 0, 0, 0, 0) (1, 0, 0, 0, 0)"
  let ?r = "\<lparr>ge_x = (0, 0, 0, 0, 0), ge_y = ?m, ge_z = (1, 0, 0, 0, 0), ge_t = (0, 0, 0, 0, 0)\<rparr>"
  let ?q = "\<lparr>niels_ysubx = ?m, niels_xaddy = ?m, niels_t2d = (0, 0, 0, 0, 0)\<rparr>"
  let ?p = "\<lparr>pniels_ysubx = ?m, pniels_xaddy = ?m, pniels_z = (1, 0, 0, 0, 0), pniels_t2d = (0, 0, 0, 0, 0)\<rparr>"
  have m: "tight ?m (- 1)" using class_sub [OF class_constants(4,5)] by simp
  have "ge_rel ?r (0, - 1, 1, 0)" "niels_rel ?q (- 1, - 1, 1, 0)" using m class_constants by (simp_all add: point_rels)
  moreover have "pniels_rel ?p (- 1, - 1, 1, 0)"
    using m [THEN limb_class_mono(2)] class_constants(4,5) [THEN limb_class_mono(2)] by (simp add: point_rels)
  moreover have "represents (0, - 1, 1, 0) (0, - 1)" "prepares (- 1, - 1, 1, 0) (0, - 1)" "on_curve (0, - 1)" "ed_sum (0, - 1) (0, - 1) (0, 1)"
    "ed_sum (0, - 1) (- 0, - 1) (0, 1)"
    by (simp_all add: represents_def prepares_def on_curve_def ed_sum_def)
  ultimately show ?thesis
    using ed25519_ge_addition_law [of ?r "(0, - 1, 1, 0)" "(0, - 1)" ?q "(- 1, - 1, 1, 0)" 0 "- 1" ?p "(- 1, - 1, 1, 0)" "(0, 1)" "(0, 1)" "(0, 1)"] by blast
qed

text \<open>
  The selection of a table row without secret-dependent branches or addresses equals the table lookup: for every position and every
  digit from -8 to 8, \<open>_ed25519_ge_scalarmultBaseChooseNiels\<close> returns the neutral element for 0 and
  otherwise row \<open>8 pos + |b| - 1\<close> of the packed table, negated for a negative digit.
\<close>
theorem ed25519_choose_is_lookup:
  assumes "pos < 32" "- 8 \<le> b" "b \<le> 8"
  shows "niels_rel (ed25519_ge_scalarmultBaseChooseNiels (word_of_nat pos) b)
    (if b = 0 then (1, 1, 1, 0)
     else if b < 0 then ed_negate (packed_niels (ed25519_ge_nielsBaseMultiples ! (8 * pos + nat (- b) - 1)))
     else packed_niels (ed25519_ge_nielsBaseMultiples ! (8 * pos + nat b - 1)))"
  using choose_refines [OF assms] unfolding ed_base_digit_def .

theorem ed25519_choose_is_lookup_witness:
  "niels_rel (ed25519_ge_scalarmultBaseChooseNiels 31 (- 8)) (ed_negate (packed_niels (ed25519_ge_nielsBaseMultiples ! 255)))"
  using ed25519_choose_is_lookup [of 31 "- 8"] by simp

text \<open>
  C23: Both scalar multiplications refine their double-and-add algorithms over the ring of integers modulo
  \<open>2^255 - 19\<close>: the fixed base one on the radix 16 digits of the scalar, the variable one on the two sliding window
  expansions. Skipping the leading zero digits does not change the result, every table index is in range, and
  no limb overflows.
\<close>
theorem ed25519_scalarmult_refines:
  assumes "modm_wf 32 s" "modm_nat s < 2 ^ 255" "ge_rel p P"
    and "modm_wf 32 s1" "modm_nat s1 < 2 ^ 253" "modm_wf 32 s2" "modm_nat s2 < 2 ^ 253"
  shows "ge_rel (ed25519_ge_scalarmultBaseNiels s) (ed_base_mult (ed25519_modm_window4 s)) \<and>
    partial_rel (ed25519_ge_doubleScalarmultVartime p s1 s2) (ed_slide (ed25519_modm_window s1 15) (ed25519_modm_window s2 63) (ed_pre1 P))"
  using scalarmultBase_refines [OF assms(1,2)] doubleScalarmult_refines [OF assms(3-7)] by blast

theorem ed25519_scalarmult_refines_witness:
  "ge_rel (ed25519_ge_scalarmultBaseNiels (5, 0, 0, 0, 0x40000000)) (ed_base_mult (ed25519_modm_window4 (5, 0, 0, 0, 0x40000000)))"
proof -
  have "ge_rel ed25519_ge_neutral (0, 1, 1, 0)" using class_constants by (simp add: ge_rel_def ed25519_ge_neutral_def)
  moreover have "modm_wf 32 (5, 0, 0, 0, 0x40000000)" "modm_nat (5, 0, 0, 0, 0x40000000) < 2 ^ 255" "modm_wf 32 (5, 0, 0, 0, 0)" "modm_nat (5, 0, 0, 0, 0) < 2 ^ 253"
    by (simp_all add: modm_wf_def modm_nat_def)
  ultimately show ?thesis using ed25519_scalarmult_refines [of "(5, 0, 0, 0, 0x40000000)" ed25519_ge_neutral "(0, 1, 1, 0)" "(5, 0, 0, 0, 0)" "(5, 0, 0, 0, 0)"] by blast
qed

text \<open>
  C24: Decompression returns the negative of the encoded point, or fails. When \<open>ed25519_ge_unpackNegativeVartime\<close> succeeds, the
  result has \<open>Z = 1\<close>, \<open>T = X Y\<close>, the \<open>y\<close> coordinate of the encoding, satisfies the curve equation and, unless \<open>x = 0\<close>,
  has the parity opposite to the sign bit. It fails exactly when neither the candidate root nor its multiple by the square
  root of -1 is a root. \<open>ed25519_ge_pack\<close> writes the canonical 32 bytes of a point.
\<close>
theorem ed25519_unpack_pack:
  assumes "length enc = 32" "partial_rel g P" "32 \<le> length out"
  defines "Y \<equiv> of_nat (le_nat enc mod 2 ^ 255)"
  defines "c \<equiv> ed_candidate (ed_num Y) (ed_den Y)"
  shows "(case ed25519_ge_unpackNegativeVartime enc of
      None \<Rightarrow> c * c * ed_den Y \<noteq> ed_num Y \<and> c * c * ed_den Y \<noteq> - ed_num Y
    | Some r \<Rightarrow> \<exists>X. ge_rel r (X, Y, 1, X * Y) \<and> on_curve (X, Y) \<and> (X = 0 \<or> (odd (gf_rep X) \<longleftrightarrow> le_nat enc < 2 ^ 255))) \<and>
    ed25519_ge_pack out g = mem_put out 0 (ed_encode P)"
proof -
  have curve: "on_curve (X, Y)" if "X * X * ed_den Y = ed_num Y" for X
    using that unfolding on_curve_def prod.case ed_den_def ed_num_def by (simp add: algebra_simps)
  show ?thesis
  proof (cases "ed25519_ge_unpackNegativeVartime enc")
    case None
    then show ?thesis using unpack_complete [OF assms(1)] pack_refines [OF assms(2,3)] by (simp add: c_def Y_def)
  next
    case (Some r)
    from unpack_sound [OF assms(1) Some] curve show ?thesis
      unfolding Some option.case Y_def [symmetric] using pack_refines [OF assms(2,3)] by blast
  qed
qed

theorem ed25519_unpack_pack_witness:
  "\<exists>c. case ed25519_ge_unpackNegativeVartime (1 # replicate 31 0) of
      None \<Rightarrow> c * c * ed_den 1 \<noteq> ed_num 1 \<and> c * c * ed_den 1 \<noteq> - ed_num 1
    | Some r \<Rightarrow> \<exists>X. ge_rel r (X, 1, 1, X * 1) \<and> on_curve (X, 1)"
proof -
  have z: "le_nat (replicate n 0) = 0" for n by (induction n) simp_all
  have "partial_rel ed25519_ge_neutral (0, 1, 1)" using class_constants by (simp add: partial_rel_def ed25519_ge_neutral_def)
  from ed25519_unpack_pack [of "1 # replicate 31 0", OF _ this, of "replicate 32 0"]
  show ?thesis by (auto simp: z split: option.splits)
qed

end
