(* ===== verification/Ed25519.thy ===== *)
theory Ed25519
  imports Ed25519_Ge Sha512
begin

text \<open>
  The signature scheme of \<^verbatim>\<open>src/hc/core/hc/crypto/ed25519.c\<close>: key expansion, \<open>ed25519_public\<close>, \<open>ed25519_sign\<close>,
  \<open>ed25519_verify\<close> and the base point multiplication for X25519. The hash is the model of SHA-512, the group
  and scalar operations are the ones of \<open>Ed25519_Ge\<close> and \<open>Ed25519_Modm\<close>. The parameter \<open>u\<close> is the contents
  of the uninitialised \<open>struct sha512\<close> on the stack.
\<close>

section \<open>The code\<close>

definition ed25519_extSecret :: "sha512 \<Rightarrow> bytes \<Rightarrow> bytes" where
  "ed25519_extSecret u secret =
     (let sha512 = sha512_init u;
          sha512 = sha512_update sha512 (take 32 secret);
          extSecret = snd (sha512_finish sha512 (replicate 64 0));
          extSecret = extSecret[0 := extSecret ! 0 AND 248];
          extSecret = extSecret[31 := extSecret ! 31 AND 127]
      in extSecret[31 := extSecret ! 31 OR 64])"

definition ed25519_hram :: "sha512 \<Rightarrow> bytes \<Rightarrow> bytes \<Rightarrow> bytes \<Rightarrow> bytes" where
  "ed25519_hram u signature public message =
     (let sha512 = sha512_init u;
          sha512 = sha512_update sha512 (take 32 signature);
          sha512 = sha512_update sha512 (take 32 public);
          sha512 = sha512_update sha512 message
      in snd (sha512_finish sha512 (replicate 64 0)))"

definition ed25519_public :: "sha512 \<Rightarrow> bytes \<Rightarrow> bytes \<Rightarrow> bytes" where
  "ed25519_public u publicOut secret =
     (let extSecret = ed25519_extSecret u secret;
          a = ed25519_modm_load extSecret False;
          A = ed25519_ge_scalarmultBaseNiels a
      in ed25519_ge_pack publicOut A)"

definition ed25519_sign :: "sha512 \<Rightarrow> bytes \<Rightarrow> bytes \<Rightarrow> bytes \<Rightarrow> bytes \<Rightarrow> bytes" where
  "ed25519_sign u signatureOut message secret public =
     (let extSecret = ed25519_extSecret u secret;
          sha512 = sha512_init u;
          sha512 = sha512_update sha512 (take 32 (drop 32 extSecret));
          sha512 = sha512_update sha512 message;
          hashr = snd (sha512_finish sha512 (replicate 64 0));
          r = ed25519_modm_load hashr True;
          R = ed25519_ge_scalarmultBaseNiels r;
          signatureOut = ed25519_ge_pack signatureOut R;
          hram = ed25519_hram u signatureOut public message;
          S = ed25519_modm_load hram True;
          a = ed25519_modm_load extSecret False;
          S = ed25519_modm_mul S a;
          S = ed25519_modm_add S r
      in ed25519_modm_store signatureOut 32 S)"

definition ed25519_verify :: "sha512 \<Rightarrow> bytes \<Rightarrow> bytes \<Rightarrow> bytes \<Rightarrow> int" where
  "ed25519_verify u message public signature =
     (if signature ! 63 AND 224 \<noteq> 0 then 1
      else
        case ed25519_ge_unpackNegativeVartime public of None \<Rightarrow> 1
        | Some A \<Rightarrow>
          let hash = ed25519_hram u signature public message;
              hram = ed25519_modm_load hash True;
              S = ed25519_modm_load (drop 32 signature) False;
              R = ed25519_ge_doubleScalarmultVartime A hram S;
              checkR = ed25519_ge_pack (replicate 32 0) R
          in mem_compare signature checkR 32)"

definition ed25519_x25519Basepoint :: "bytes \<Rightarrow> bytes \<Rightarrow> bytes" where
  "ed25519_x25519Basepoint publicOut secret =
     (let ec = take 32 secret;
          ec = ec[0 := ec ! 0 AND 248];
          ec = ec[31 := ec ! 31 AND 127];
          ec = ec[31 := ec ! 31 OR 64];
          s = ed25519_modm_load ec False;
          p = ed25519_ge_scalarmultBaseNiels s;
          yplusz = curve25519_addNoReduce (ge_y p) (ge_z p);
          zminusy = curve25519_subNoReduce (ge_z p) (ge_y p);
          zminusy = curve25519_invert zminusy;
          yplusz = curve25519_mul yplusz zminusy;
          yplusz = curve25519_reduce yplusz
      in curve25519_store publicOut yplusz)"

section \<open>The specification\<close>

text \<open>The hash of a sequence of parts, as SHA-512 of FIPS 180-4, and the clamped key.\<close>

definition ed_hash :: "bytes list \<Rightarrow> bytes" where
  "ed_hash parts = sha512_digest sha512_H0 (concat parts)"

definition ed_clamp :: "bytes \<Rightarrow> bytes" where
  "ed_clamp h = (h[0 := h ! 0 AND 248])[31 := (h ! 31 AND 127) OR 64]"

text \<open>The encoded multiple of the base point for a scalar given by its limbs.\<close>

definition ed_base_point :: "modm \<Rightarrow> bytes" where
  "ed_base_point s = ed_encode (ed_partial (ed_base_mult (ed25519_modm_window4 s)))"

definition ed_signature :: "bytes \<Rightarrow> bytes \<Rightarrow> bytes \<Rightarrow> bytes" where
  "ed_signature message secret public =
     (let h = ed_hash [secret];
          a = le_nat (take 32 (ed_clamp h));
          r = ed_hash [drop 32 h, message];
          R = ed_base_point (ed25519_modm_load r True);
          k = ed_hash [R, public, message]
      in R @ le_bytes 32 ((le_nat r + le_nat k * a) mod group_order))"

lemma length_ed_hash [simp]: "length (ed_hash parts) = 64"
proof -
  have "length (concat (map (\<lambda>x. be_bytes 8 (unat (x :: u64))) ws)) = 8 * length ws" for ws by (induction ws) simp_all
  moreover have "length (fold sha512_compress bs sha512_H0) = 8" for bs
    by (induction bs rule: rev_induct) (simp_all add: sha2_compress_def Let_def sha512_H0_def)
  ultimately show ?thesis by (simp add: ed_hash_def sha512_digest_def)
qed

lemma hash_parts:
  assumes "length (sha512_buffer u) = 128" "length (concat parts) < 2 ^ 71"
  shows "snd (sha512_finish (fold (\<lambda>p s. sha512_update s p) parts (sha512_init u)) (replicate 64 0)) = ed_hash parts"
proof -
  have "sha512_view (sha512_init u) = ((sha512_H0, 0), sha512_buffer u, 0)" by (simp add: sha512_view_def sha512_init_def sha512_H0_def)
  from sha512_stream_digest [OF this assms(1) _ _ assms(2), of "replicate 64 0"]
  show ?thesis using length_ed_hash [of parts] by (simp add: ed_hash_def sha512_H0_def mem_put_def)
qed

lemma extSecret_value:
  assumes "length (sha512_buffer u) = 128" "length secret = 32"
  shows "ed25519_extSecret u secret = ed_clamp (ed_hash [secret])"
  using hash_parts [OF assms(1), of "[secret]"] assms(2) by (simp add: ed25519_extSecret_def ed_clamp_def Let_def)

lemma hram_value:
  assumes "length (sha512_buffer u) = 128" "length public = 32" "length message < 2 ^ 70"
  shows "ed25519_hram u signature public message = ed_hash [take 32 signature, public, message]"
  using hash_parts [OF assms(1), of "[take 32 signature, public, message]"] assms(2,3) by (simp add: ed25519_hram_def Let_def)

lemma clamp_bound:
  assumes "32 \<le> length h"
  shows "le_nat (take 32 (ed_clamp h)) < 2 ^ 255"
proof -
  define e where "e = take 32 (ed_clamp h)"
  have len: "length e = 32" using assms by (simp add: e_def ed_clamp_def)
  have "e ! 31 = (h ! 31 AND 127) OR 64" using assms by (simp add: e_def ed_clamp_def)
  moreover have "list_all (\<lambda>b. unat ((word_of_nat b AND 127) OR 64 :: u8) < 128) [0..<256]" by code_simp
  moreover have "unat (h ! 31) \<in> set [0..<256]" using unat_lt_256 [of "h ! 31"] by simp
  ultimately have "unat (e ! 31) < 128" unfolding list_all_iff by (metis of_nat_unat ucast_id)
  moreover have "e = take 31 e @ [e ! 31]" using len take_Suc_conv_app_nth [of 31 e] by simp
  then have "le_nat e = le_nat (take 31 e) + 256 ^ 31 * unat (e ! 31)" using le_nat_append [of "take 31 e" "[e ! 31]"] len by simp
  moreover have "le_nat (take 31 e) < 256 ^ 31" using le_nat_bound [of "take 31 e"] len by simp
  ultimately show ?thesis unfolding e_def [symmetric] by simp
qed

lemma load_take: "32 \<le> length e \<Longrightarrow> ed25519_modm_load e False = ed25519_modm_load (take 32 e) False"
  by (simp add: ed25519_modm_load_def mem_loadU64_def Let_def drop_take take_take min_def)

lemma load_secret:
  assumes "32 \<le> length h"
  defines "a \<equiv> ed25519_modm_load (ed_clamp h) False"
  shows "modm_wf 32 a" "modm_nat a = le_nat (take 32 (ed_clamp h))" "modm_nat a < 2 ^ 255"
proof -
  have len: "32 \<le> length (ed_clamp h)" using assms(1) by (simp add: ed_clamp_def)
  then show "modm_wf 32 a" "modm_nat a = le_nat (take 32 (ed_clamp h))"
    unfolding a_def load_take [OF len] by (simp_all add: load_modm_32)
  then show "modm_nat a < 2 ^ 255" using clamp_bound [OF assms(1)] by simp
qed

lemma base_pack:
  assumes "modm_wf 32 s" "modm_nat s < 2 ^ 255" "32 \<le> length out"
  shows "ed25519_ge_pack out (ed25519_ge_scalarmultBaseNiels s) = mem_put out 0 (ed_base_point s)"
  unfolding ed_base_point_def by (rule pack_refines [OF ge_rel_partial [OF scalarmultBase_refines [OF assms(1,2)]] assms(3)])

lemma length_ed_encode [simp]: "length (ed_encode P) = 32"
  by (cases P) (simp add: ed_encode_def Let_def)

lemma length_base_point [simp]: "length (ed_base_point s) = 32"
  by (simp add: ed_base_point_def)

lemma group_order_bounds: "0 < group_order" "group_order < 2 ^ 253"
  by (simp_all add: group_order_def)

lemma load_hash:
  assumes "length h = 64"
  shows "modm_wf 32 (ed25519_modm_load h True)" "modm_nat (ed25519_modm_load h True) = le_nat h mod group_order"
    "modm_nat (ed25519_modm_load h True) < group_order"
  using load_modm_64 [OF assms] modm_wf_mono [of 29 _ 32] group_order_bounds(1) by simp_all

lemma sign_value:
  assumes u: "length (sha512_buffer u) = 128" and len: "length secret = 32" "length public = 32" "64 \<le> length out" "length message < 2 ^ 70"
  shows "ed25519_sign u out message secret public = mem_put out 0 (ed_signature message secret public)"
proof -
  define h where "h = ed_hash [secret]"
  define hr where "hr = ed_hash [drop 32 h, message]"
  define r where "r = ed25519_modm_load hr True"
  define a where "a = ed25519_modm_load (ed_clamp h) False"
  have ext: "ed25519_extSecret u secret = ed_clamp h" unfolding h_def by (rule extSecret_value [OF u len(1)])
  have h: "length h = 64" "length hr = 64" by (simp_all add: h_def hr_def)
  have "take 32 (drop 32 (ed_clamp h)) = drop 32 h" using h by (simp add: ed_clamp_def drop_update_cancel)
  then have hashr: "snd (sha512_finish (sha512_update (sha512_update (sha512_init u) (take 32 (drop 32 (ed_clamp h)))) message) (replicate 64 0)) = hr"
    using hash_parts [OF u, of "[drop 32 h, message]"] len(4) h by (simp add: hr_def)
  note lr = load_hash [OF h(2), folded r_def]
  have "modm_nat r < 2 ^ 255" using lr(3) group_order_bounds(2) by simp
  then have R: "ed25519_ge_pack out (ed25519_ge_scalarmultBaseNiels r) = mem_put out 0 (ed_base_point r)"
    using base_pack [OF lr(1)] len(3) by simp
  define k where "k = ed_hash [ed_base_point r, public, message]"
  have "take 32 (mem_put out 0 (ed_base_point r)) = ed_base_point r" by (simp add: mem_put_def)
  then have hram: "ed25519_hram u (mem_put out 0 (ed_base_point r)) public message = k"
    using hram_value [OF u len(2,4)] by (simp add: k_def)
  have lk: "length k = 64" by (simp add: k_def)
  have "32 \<le> length h" using h by simp
  note la = load_secret [OF this, folded a_def]
  note m = mul_modm [OF load_hash(1) [OF lk] la(1)]
  have ma: "modm_nat (ed25519_modm_mul (ed25519_modm_load k True) a) < group_order" using m(1) group_order_bounds(1) by simp
  note s = add_modm [OF modm_wf_mono [OF m(2)] lr(1) ma lr(3)]
  have "modm_nat (ed25519_modm_add (ed25519_modm_mul (ed25519_modm_load k True) a) r) = (le_nat hr + le_nat k * modm_nat a) mod group_order"
    using s(1) unfolding m(1) lr(2) load_hash(2) [OF lk] by (simp add: mod_simps add.commute)
  moreover have "ed25519_modm_store (mem_put out 0 (ed_base_point r)) 32 (ed25519_modm_add (ed25519_modm_mul (ed25519_modm_load k True) a) r) =
      mem_put (mem_put out 0 (ed_base_point r)) 32 (le_bytes 32 (modm_nat (ed25519_modm_add (ed25519_modm_mul (ed25519_modm_load k True) a) r)))"
    by (rule store_modm [OF modm_wf_mono [OF s(2)]]) (use len(3) in simp_all)
  moreover have "mem_put (mem_put out 0 (ed_base_point r)) 32 bs = mem_put out 0 (ed_base_point r @ bs)" if "length bs = 32" for bs
    using mem_put_append [of 0 "ed_base_point r" bs out] len(3) that by simp
  ultimately show ?thesis
    unfolding ed25519_sign_def Let_def ext hashr r_def [symmetric] R hram a_def [symmetric]
    by (simp add: ed_signature_def Let_def h_def [symmetric] hr_def [symmetric] r_def [symmetric] k_def [symmetric] la(2))
qed

section \<open>Verification\<close>

text \<open>The equation that a valid signature satisfies: \<open>R = S B - H(R, A, M) A\<close>, where \<open>(X, Y)\<close> is \<open>-A\<close>.\<close>

definition ed_check :: "bytes \<Rightarrow> bytes \<Rightarrow> bytes \<Rightarrow> gf \<times> gf \<Rightarrow> bytes" where
  "ed_check message public signature p = (case p of (X, Y) \<Rightarrow>
     ed_encode (ed_slide (ed25519_modm_window (ed25519_modm_load (ed_hash [take 32 signature, public, message]) True) 15)
       (ed25519_modm_window (ed25519_modm_load (drop 32 signature) False) 63) (ed_pre1 (X, Y, 1, X * Y))))"

lemma top_bits:
  assumes "length s = 32"
  shows "s ! 31 AND 224 = 0 \<longleftrightarrow> le_nat s < 2 ^ 253"
proof -
  have "s = take 31 s @ [s ! 31]" using assms take_Suc_conv_app_nth [of 31 s] by simp
  then have "le_nat s = le_nat (take 31 s) + 256 ^ 31 * unat (s ! 31)" using le_nat_append [of "take 31 s" "[s ! 31]"] assms by simp
  moreover have "le_nat (take 31 s) < 256 ^ 31" using le_nat_bound [of "take 31 s"] assms by simp
  ultimately have "le_nat s < 2 ^ 253 \<longleftrightarrow> unat (s ! 31) < 32" by auto
  moreover have all: "list_all (\<lambda>b. (word_of_nat b AND 224 = (0 :: u8)) = (b < 32)) [0..<256]" by code_simp
  have "unat (s ! 31) \<in> set [0..<256]" using unat_lt_256 [of "s ! 31"] by simp
  from bspec [OF all [unfolded list_all_iff] this] have "s ! 31 AND 224 = 0 \<longleftrightarrow> unat (s ! 31) < 32" by (simp only: of_nat_unat ucast_id)
  ultimately show ?thesis by simp
qed

lemma verify_rejects:
  assumes "length signature = 64"
  shows "2 ^ 253 \<le> le_nat (drop 32 signature) \<Longrightarrow> ed25519_verify u message public signature = 1"
    "ed25519_ge_unpackNegativeVartime public = None \<Longrightarrow> ed25519_verify u message public signature = 1"
proof -
  have "drop 32 signature ! 31 = signature ! 63" using assms by simp
  then have "signature ! 63 AND 224 = 0 \<longleftrightarrow> le_nat (drop 32 signature) < 2 ^ 253" using top_bits [of "drop 32 signature"] assms by simp
  then show "2 ^ 253 \<le> le_nat (drop 32 signature) \<Longrightarrow> ed25519_verify u message public signature = 1" by (simp add: ed25519_verify_def)
  show "ed25519_ge_unpackNegativeVartime public = None \<Longrightarrow> ed25519_verify u message public signature = 1" by (simp add: ed25519_verify_def)
qed

lemma verify_value:
  assumes u: "length (sha512_buffer u) = 128" and len: "length signature = 64" "length public = 32" "length message < 2 ^ 70"
    and S: "le_nat (drop 32 signature) < 2 ^ 253" and A: "ed25519_ge_unpackNegativeVartime public = Some A" "ge_rel A (X, Y, 1, X * Y)"
  shows "ed25519_verify u message public signature = 0 \<longleftrightarrow> take 32 signature = ed_check message public signature (X, Y)"
proof -
  define h where "h = ed25519_modm_load (ed_hash [take 32 signature, public, message]) True"
  define s where "s = ed25519_modm_load (drop 32 signature) False"
  have top: "signature ! 63 AND 224 = 0" using top_bits [of "drop 32 signature"] S len(1) by simp
  have lh: "modm_wf 32 h" "modm_nat h < 2 ^ 253"
    unfolding h_def using load_hash(1,3) [of "ed_hash [take 32 signature, public, message]"] group_order_bounds(2) by simp_all
  have ls: "modm_wf 32 s" "modm_nat s < 2 ^ 253" using load_modm_32 [of "drop 32 signature"] len(1) S by (simp_all add: s_def)
  have pack: "ed25519_ge_pack (replicate 32 0) (ed25519_ge_doubleScalarmultVartime A h s) = ed_check message public signature (X, Y)"
    using pack_refines [OF doubleScalarmult_refines [OF A(2) lh ls], of "replicate 32 0"]
    by (simp add: ed_check_def h_def [symmetric] s_def [symmetric] mem_put_def)
  have "ed25519_verify u message public signature = mem_compare signature (ed_check message public signature (X, Y)) 32"
    unfolding ed25519_verify_def Let_def A(1) option.case hram_value [OF u len(2,3)] h_def [symmetric] s_def [symmetric] pack using top by simp
  moreover have "length (ed_check message public signature (X, Y)) = 32" by (simp add: ed_check_def)
  ultimately show ?thesis using mem_compare_eq_0_iff [of 32 signature "ed_check message public signature (X, Y)"] len(1) by simp
qed

section \<open>Signatures\<close>



text \<open>
  C2: \<open>ed25519_verify\<close> accepts a signature exactly when \<open>S\<close> is below \<open>2^253\<close>, the public key decompresses to a point
  and the encoding of \<open>S B - H(R, A, M) A\<close>, computed by the interleaved sliding windows, equals the first 32 bytes.
  A signature with one of the three top bits set and an undecodable key are rejected with 1 before any hashing.
\<close>
theorem ed25519_verify_correct:
  assumes "length (sha512_buffer u) = 128" "length signature = 64" "length public = 32" "length message < 2 ^ 70"
  shows "ed25519_verify u message public signature = 0 \<longleftrightarrow>
      le_nat (drop 32 signature) < 2 ^ 253 \<and>
      (\<exists>A X. ed25519_ge_unpackNegativeVartime public = Some A \<and> ge_rel A (X, of_nat (le_nat public mod 2 ^ 255), 1, X * of_nat (le_nat public mod 2 ^ 255)) \<and>
         take 32 signature = ed_check message public signature (X, of_nat (le_nat public mod 2 ^ 255)))"
proof (cases "le_nat (drop 32 signature) < 2 ^ 253 \<and> ed25519_ge_unpackNegativeVartime public \<noteq> None")
  case True
  then obtain A where A: "ed25519_ge_unpackNegativeVartime public = Some A" by auto
  from unpack_sound [OF assms(3) A] obtain X where X: "ge_rel A (X, of_nat (le_nat public mod 2 ^ 255), 1, X * of_nat (le_nat public mod 2 ^ 255))" .
  have v: "ed25519_verify u message public signature = 0 \<longleftrightarrow> take 32 signature = ed_check message public signature (X', of_nat (le_nat public mod 2 ^ 255))"
    if "ge_rel A (X', of_nat (le_nat public mod 2 ^ 255), 1, X' * of_nat (le_nat public mod 2 ^ 255))" for X'
    using verify_value [OF assms _ A that] True by blast
  show ?thesis using True A X v by auto
next
  case False
  then show ?thesis using verify_rejects(1) [OF assms(2), where u = u] verify_rejects(2) [OF assms(2), where u = u] by fastforce
qed

theorem ed25519_verify_correct_witness:
  "ed25519_verify \<lparr>sha512_state = [], sha512_blockCounter = 0, sha512_buffer = replicate 128 7, sha512_bufferSize = 0\<rparr> [1, 2]
     (replicate 32 3) (replicate 63 0 @ [255]) \<noteq> 0"
proof -
  have "drop 32 (replicate 63 0 @ [255 :: u8]) = replicate 31 0 @ [255]" by (simp add: drop_append)
  moreover have z: "le_nat (replicate n 0) = 0" for n by (induction n) simp_all
  ultimately have "le_nat (drop 32 (replicate 63 0 @ [255 :: u8])) = 255 * 256 ^ 31" by (simp only: le_nat_append length_replicate) simp
  then show ?thesis
    using ed25519_verify_correct [of "\<lparr>sha512_state = [], sha512_blockCounter = 0, sha512_buffer = replicate 128 7, sha512_bufferSize = 0\<rparr>"
      "replicate 63 0 @ [255]" "replicate 32 3" "[1, 2]"] by simp
qed

text \<open>
  \<open>ed25519_x25519Basepoint\<close> clamps the secret exactly as \<open>x25519\<close> does and writes the canonical bytes of the
  Montgomery coordinate \<open>u = (Z + Y) / (Z - Y)\<close> of the multiple \<open>(X : Y : Z)\<close> of the base point.
\<close>
theorem ed25519_x25519Basepoint_correct:
  assumes "length secret = 32" "32 \<le> length out"
  shows "ed25519_x25519Basepoint out secret =
    (case ed_partial (ed_base_mult (ed25519_modm_window4 (ed25519_modm_load (x25519_clamp secret) False))) of (X, Y, Z) \<Rightarrow>
       mem_put out 0 (le_bytes 32 (nat (gf_rep ((Y + Z) * (Z - Y) ^ nat (gf_p - 2))))))"
proof -
  define s where "s = ed25519_modm_load (x25519_clamp secret) False"
  have clamp: "x25519_clamp secret = ed_clamp secret" using assms(1) by (simp add: x25519_clamp_def ed_clamp_def Let_def)
  have s: "modm_wf 32 s" "modm_nat s < 2 ^ 255" using load_secret [of secret] assms(1) by (simp_all add: s_def clamp)
  define p where "p = ed25519_ge_scalarmultBaseNiels s"
  obtain X Y Z where P: "ed_partial (ed_base_mult (ed25519_modm_window4 s)) = (X, Y, Z)" by (metis prod.exhaust)
  have t: "tight (ge_y p) Y" "tight (ge_z p) Z"
    using ge_rel_partial [OF scalarmultBase_refines [OF s]] by (simp_all add: P partial_rel_def p_def)
  have e: "nat (gf_p - 2) = 2 ^ 255 - 21" by (simp add: gf_p_def)
  have "fe_rel (2 ^ 51 + 2 ^ 13) (curve25519_invert (curve25519_subNoReduce (ge_z p) (ge_y p))) ((Z - Y) ^ nat (gf_p - 2))"
    unfolding e using fe.inv_law limb_class_mono(3) [OF class_subN [OF t(2,1)]] by (simp add: loose_def)
  then have i: "loose (curve25519_invert (curve25519_subNoReduce (ge_z p) (ge_y p))) ((Z - Y) ^ nat (gf_p - 2))"
    unfolding loose_def by (rule fe_rel_mono) simp
  note m = limb_class_mono(2) [OF class_mul [OF limb_class_mono(3) [OF class_addN [OF t]] i]]
  have le: "fe_le (2 ^ 63) (curve25519_mul (curve25519_addNoReduce (ge_y p) (ge_z p)) (curve25519_invert (curve25519_subNoReduce (ge_z p) (ge_y p))))"
    using loose_63 [OF m] by (simp add: fe_rel_def)
  have "ed25519_x25519Basepoint out secret =
      curve25519_store out (curve25519_reduce (curve25519_mul (curve25519_addNoReduce (ge_y p) (ge_z p)) (curve25519_invert (curve25519_subNoReduce (ge_z p) (ge_y p)))))"
    unfolding ed25519_x25519Basepoint_def p_def s_def x25519_clamp_def Let_def ..
  then show ?thesis
    unfolding s_def [symmetric] P prod.case
    using store_value [OF reduce_value(2) [OF le] assms(2)] reduce_rep [OF loose_63 [OF m]] by (metis nat_int)
qed

theorem ed25519_x25519Basepoint_correct_witness:
  "\<exists>Y Z. ed25519_x25519Basepoint (replicate 32 0) (replicate 32 9) = le_bytes 32 (nat (gf_rep ((Y + Z) * (Z - Y) ^ nat (gf_p - 2))))"
  using ed25519_x25519Basepoint_correct [of "replicate 32 9" "replicate 32 0"]
  by (auto simp: mem_put_def split: prod.splits)

end
