(* ===== verification/Dhcp.thy ===== *)
theory Dhcp
  imports Mem
begin

text \<open>
  The DHCP wire format of \<^verbatim>\<open>src/router/router/dhcp.h\<close>: constants, the message header and the walk over the
  options that the server and the client share. The program reads packets into one static buffer that
  keeps the bytes of earlier packets, so the walk takes the whole buffer and the end of the packet; it is
  shown that it never acts on a byte beyond the packet.
\<close>

section \<open>Constants and layout\<close>

definition dhcp_BOOTREQUEST :: u8 where "dhcp_BOOTREQUEST = 1"
definition dhcp_BOOTREPLY :: u8 where "dhcp_BOOTREPLY = 2"
definition dhcp_ETHERNET :: u8 where "dhcp_ETHERNET = 1"

definition dhcp_SUBNET_MASK :: u8 where "dhcp_SUBNET_MASK = 1"
definition dhcp_ROUTER :: u8 where "dhcp_ROUTER = 3"
definition dhcp_DNS :: u8 where "dhcp_DNS = 6"
definition dhcp_REQUESTED_IP_ADDRESS :: u8 where "dhcp_REQUESTED_IP_ADDRESS = 50"
definition dhcp_LEASE_TIME :: u8 where "dhcp_LEASE_TIME = 51"
definition dhcp_MESSAGE_TYPE :: u8 where "dhcp_MESSAGE_TYPE = 53"
definition dhcp_SERVER_IDENTIFIER :: u8 where "dhcp_SERVER_IDENTIFIER = 54"
definition dhcp_PARAM_REQUEST_LIST :: u8 where "dhcp_PARAM_REQUEST_LIST = 55"
definition dhcp_END :: u8 where "dhcp_END = 255"

definition dhcp_DISCOVER :: u8 where "dhcp_DISCOVER = 1"
definition dhcp_OFFER :: u8 where "dhcp_OFFER = 2"
definition dhcp_REQUEST :: u8 where "dhcp_REQUEST = 3"
definition dhcp_ACK :: u8 where "dhcp_ACK = 5"
definition dhcp_NAK :: u8 where "dhcp_NAK = 6"

definition dhcp_MAGIC_COOKIE :: u32 where "dhcp_MAGIC_COOKIE = 0x63538263"

lemmas dhcp_constants = dhcp_BOOTREQUEST_def dhcp_BOOTREPLY_def dhcp_ETHERNET_def dhcp_SUBNET_MASK_def dhcp_ROUTER_def
  dhcp_DNS_def dhcp_REQUESTED_IP_ADDRESS_def dhcp_LEASE_TIME_def dhcp_MESSAGE_TYPE_def dhcp_SERVER_IDENTIFIER_def
  dhcp_PARAM_REQUEST_LIST_def dhcp_END_def dhcp_DISCOVER_def dhcp_OFFER_def dhcp_REQUEST_def dhcp_ACK_def dhcp_NAK_def

text \<open>An option header; the data follows it.\<close>

record dhcp_option =
  opt_code :: u8
  opt_length :: u8

definition dhcp_option_bytes :: "dhcp_option \<Rightarrow> bytes" where
  "dhcp_option_bytes opt = [opt_code opt, opt_length opt]"

record dhcp_header =
  hdr_opcode :: u8
  hdr_hwAddrType :: u8
  hdr_hwAddrLen :: u8
  hdr_hops :: u8
  hdr_identifier :: u32
  hdr_seconds :: u16
  hdr_flags :: u16
  hdr_clientIp :: bytes
  hdr_yourIp :: bytes
  hdr_serverIp :: bytes
  hdr_gatewayIp :: bytes
  hdr_clientHwAddr :: bytes
  hdr_serverName :: bytes
  hdr_bootFileName :: bytes
  hdr_magicCookie :: u32

definition ip_bytes :: "u32 \<Rightarrow> bytes" where
  "ip_bytes w = le_bytes 4 (unat w)"

text \<open>The bytes of the header in memory; the compiler adds no padding.\<close>

definition dhcp_header_bytes :: "dhcp_header \<Rightarrow> bytes" where
  "dhcp_header_bytes h =
     [hdr_opcode h, hdr_hwAddrType h, hdr_hwAddrLen h, hdr_hops h] @ le_bytes 4 (unat (hdr_identifier h)) @
     le_bytes 2 (unat (hdr_seconds h)) @ le_bytes 2 (unat (hdr_flags h)) @
     hdr_clientIp h @ hdr_yourIp h @ hdr_serverIp h @ hdr_gatewayIp h @ hdr_clientHwAddr h @
     hdr_serverName h @ hdr_bootFileName h @ le_bytes 4 (unat (hdr_magicCookie h))"

definition dhcp_header_wf :: "dhcp_header \<Rightarrow> bool" where
  "dhcp_header_wf h \<longleftrightarrow> length (hdr_clientIp h) = 4 \<and> length (hdr_yourIp h) = 4 \<and> length (hdr_serverIp h) = 4 \<and>
     length (hdr_gatewayIp h) = 4 \<and> length (hdr_clientHwAddr h) = 16 \<and> length (hdr_serverName h) = 64 \<and> length (hdr_bootFileName h) = 128"

text \<open>Fields that an initialiser does not name are zero.\<close>

definition dhcp_header_zero :: dhcp_header where
  "dhcp_header_zero = \<lparr>hdr_opcode = 0, hdr_hwAddrType = 0, hdr_hwAddrLen = 0, hdr_hops = 0, hdr_identifier = 0, hdr_seconds = 0,
     hdr_flags = 0, hdr_clientIp = replicate 4 0, hdr_yourIp = replicate 4 0, hdr_serverIp = replicate 4 0, hdr_gatewayIp = replicate 4 0,
     hdr_clientHwAddr = replicate 16 0, hdr_serverName = replicate 64 0, hdr_bootFileName = replicate 128 0, hdr_magicCookie = 0\<rparr>"

text \<open>\<open>sizeof(struct dhcp_header)\<close> and the fields of a received header.\<close>

definition dhcp_header_size :: nat where "dhcp_header_size = 240"

definition pkt_identifier :: "bytes \<Rightarrow> u32" where "pkt_identifier p = mem_loadU32 (drop 4 p)"
definition pkt_clientIp :: "bytes \<Rightarrow> bytes" where "pkt_clientIp p = mem_get p 12 4"
definition pkt_yourIp :: "bytes \<Rightarrow> bytes" where "pkt_yourIp p = mem_get p 16 4"
definition pkt_serverIp :: "bytes \<Rightarrow> bytes" where "pkt_serverIp p = mem_get p 20 4"
definition pkt_clientHwAddr :: "bytes \<Rightarrow> bytes" where "pkt_clientHwAddr p = mem_get p 28 16"

section \<open>The walk over the options\<close>

text \<open>
  The loop that both message handlers run: \<open>visit\<close> is the body of their \<open>switch\<close>, called with the offset
  of an option that ends inside the packet.
\<close>

function dhcp_walk :: "(nat \<Rightarrow> 's \<Rightarrow> 's) \<Rightarrow> bytes \<Rightarrow> nat \<Rightarrow> nat \<Rightarrow> 's \<Rightarrow> 's" where
  "dhcp_walk visit buf packetEnd current s =
     (let nxt = current + 2 + unat (buf ! (current + 1))
      in if nxt > packetEnd then s else dhcp_walk visit buf packetEnd nxt (visit current s))"
  by auto
termination by (relation "measure (\<lambda>(visit, buf, packetEnd, current, s). packetEnd - current)") auto

declare dhcp_walk.simps [simp del]

lemma walk_stop: "packetEnd < current + 2 \<Longrightarrow> dhcp_walk visit buf packetEnd current s = s"
  by (subst dhcp_walk.simps) (simp add: Let_def)

lemma walk_option:
  assumes "buf ! (current + 1) = word_of_nat n" "n < 256" "current + 2 + n \<le> packetEnd"
  shows "dhcp_walk visit buf packetEnd current s = dhcp_walk visit buf packetEnd (current + 2 + n) (visit current s)"
proof -
  have "unat (word_of_nat n :: u8) = n" using assms(2) by (simp only: unat_of_nat) simp
  then show ?thesis using assms by (subst dhcp_walk.simps) (simp add: Let_def)
qed

text \<open>
  A walk only visits options that lie inside the packet, and its result is a function of the packet alone,
  whatever the buffer holds behind it.
\<close>

lemma walk_invariant:
  assumes "P s" "lo \<le> current"
    and step: "\<And>c s. P s \<Longrightarrow> lo \<le> c \<Longrightarrow> c + 2 + unat (buf ! (c + 1)) \<le> packetEnd \<Longrightarrow> P (visit c s)"
  shows "P (dhcp_walk visit buf packetEnd current s)"
  using assms(1,2)
proof (induction "packetEnd - current" arbitrary: current s rule: less_induct)
  case less
  show ?case
  proof (cases "current + 2 + unat (buf ! (current + 1)) \<le> packetEnd")
    case True
    then have "P (dhcp_walk visit buf packetEnd (current + 2 + unat (buf ! (current + 1))) (visit current s))"
      using less.prems step by (intro less.hyps) auto
    then show ?thesis using True by (subst dhcp_walk.simps) (simp add: Let_def)
  next
    case False
    then show ?thesis using less.prems by (subst dhcp_walk.simps) (simp add: Let_def)
  qed
qed

lemma walk_cong:
  assumes "take packetEnd buf = take packetEnd buf'" "packetEnd \<le> length buf" "packetEnd \<le> length buf'"
    and visit: "\<And>c s. c + 2 + unat (buf ! (c + 1)) \<le> packetEnd \<Longrightarrow> visit c s = visit' c s"
  shows "dhcp_walk visit buf packetEnd current s = dhcp_walk visit' buf' packetEnd current s"
proof (induction "packetEnd - current" arbitrary: current s rule: less_induct)
  case less
  have eq: "buf ! i = buf' ! i" if "i < packetEnd" for i using arg_cong [OF assms(1), of "\<lambda>l. l ! i"] that by simp
  show ?case
  proof (cases "current + 2 \<le> packetEnd")
    case True
    then have len: "buf' ! (current + 1) = buf ! (current + 1)" using eq by simp
    show ?thesis
    proof (cases "current + 2 + unat (buf ! (current + 1)) \<le> packetEnd")
      case True
      then have "dhcp_walk visit buf packetEnd (current + 2 + unat (buf ! (current + 1))) (visit' current s) =
          dhcp_walk visit' buf' packetEnd (current + 2 + unat (buf ! (current + 1))) (visit' current s)"
        by (intro less.hyps) simp
      then show ?thesis
        using True visit [of current s] by (subst (1 2) dhcp_walk.simps) (simp add: Let_def len [simplified])
    next
      case False
      then show ?thesis by (subst (1 2) dhcp_walk.simps) (simp add: Let_def len [simplified])
    qed
  next
    case False
    then show ?thesis by (simp add: walk_stop)
  qed
qed

text \<open>
  The interface between the walk and the \<open>switch\<close> of a handler: a visitor may look at the buffer only inside the option it is called for.
  Then the walk depends on the packet alone, whatever bytes of earlier packets lie behind it.
\<close>

locale option_visitor =
  fixes visit :: "bytes \<Rightarrow> nat \<Rightarrow> 's \<Rightarrow> 's"
  assumes visit_local: "take e b = take e b' \<Longrightarrow> e \<le> length b \<Longrightarrow> e \<le> length b' \<Longrightarrow> c + 2 + unat (b ! (c + 1)) \<le> e \<Longrightarrow> visit b c s = visit b' c s"
begin

lemma walk_local:
  assumes "take e b = take e b'" "e \<le> length b" "e \<le> length b'"
  shows "dhcp_walk (visit b) b e c s = dhcp_walk (visit b') b' e c s"
  by (rule walk_cong) (use assms in \<open>auto intro: visit_local\<close>)

end

lemma nth_take_eq: "take e b = take e b' \<Longrightarrow> i < e \<Longrightarrow> b ! i = b' ! i"
  by (metis nth_take)

lemma mem_get_take_eq:
  fixes b b' :: bytes
  assumes "take e b = take e b'" "i + n \<le> e"
  shows "mem_get b i n = mem_get b' i n"
proof -
  have "take n (drop i b) = take n (drop i (take e b))" for b :: bytes using assms(2) by (simp add: drop_take)
  then show ?thesis unfolding mem_get_def by (metis assms(1))
qed

lemma load_take_eq: "take e b = take e b' \<Longrightarrow> i + 4 \<le> e \<Longrightarrow> mem_loadU32 (drop i b) = mem_loadU32 (drop i b')"
  using mem_get_take_eq [of e b b' i 4] by (simp add: mem_loadU32_def mem_get_def)

lemma pkt_take_eq:
  assumes "take e b = take e b'" "dhcp_header_size \<le> e"
  shows "pkt_identifier b = pkt_identifier b'" "pkt_clientIp b = pkt_clientIp b'" "pkt_yourIp b = pkt_yourIp b'" "pkt_serverIp b = pkt_serverIp b'"
    "pkt_clientHwAddr b = pkt_clientHwAddr b'"
  using mem_get_take_eq [OF assms(1)] load_take_eq [OF assms(1)] assms(2)
  by (simp_all add: pkt_identifier_def pkt_clientIp_def pkt_yourIp_def pkt_serverIp_def pkt_clientHwAddr_def dhcp_header_size_def)

section \<open>Reading back a header\<close>

lemma le_bytes_2: "le_bytes 2 x = [word_of_nat x, word_of_nat (x div 256)]"
  by (simp add: numeral_2_eq_2)

lemma le_bytes_4: "le_bytes 4 x = [word_of_nat x, word_of_nat (x div 256), word_of_nat (x div 65536), word_of_nat (x div 16777216)]"
proof -
  have "x div 256 div 256 = x div 65536" "x div 65536 div 256 = x div 16777216" by (simp_all flip: div_mult2_eq)
  moreover have "(4 :: nat) = Suc (Suc (Suc (Suc 0)))" by simp
  then have "le_bytes 4 x =
      [word_of_nat x, word_of_nat (x div 256), word_of_nat (x div 256 div 256), word_of_nat (x div 256 div 256 div 256)]" by (simp only: le_bytes.simps)
  ultimately show ?thesis by simp
qed

lemma length_header_bytes [simp]: "dhcp_header_wf h \<Longrightarrow> length (dhcp_header_bytes h) = 240"
  by (simp add: dhcp_header_bytes_def dhcp_header_wf_def)

lemma header_zero_wf [simp]: "dhcp_header_wf dhcp_header_zero"
  by (simp add: dhcp_header_wf_def dhcp_header_zero_def)

lemma length_ip_bytes [simp]: "length (ip_bytes w) = 4"
  by (simp add: ip_bytes_def)

lemma load_ip_bytes [simp]: "mem_loadU32 (ip_bytes w @ rest) = w" "mem_loadU32 (ip_bytes w) = w"
proof -
  have "le_nat (le_bytes 4 (unat w)) = unat w" using unat_less [of w] by (simp add: le_nat_le_bytes)
  then show "mem_loadU32 (ip_bytes w @ rest) = w" "mem_loadU32 (ip_bytes w) = w"
    by (simp_all add: mem_loadU32_def ip_bytes_def)
qed

lemma ip_bytes_load: "length bs = 4 \<Longrightarrow> ip_bytes (mem_loadU32 bs) = bs"
  using le_bytes_le_nat [of bs] by (simp add: ip_bytes_def unat_loadU32)

text \<open>A received message that starts with a header gives back the fields of that header.\<close>

lemma header_fields:
  assumes "dhcp_header_wf h" "p = dhcp_header_bytes h @ rest"
  shows "pkt_identifier p = hdr_identifier h" "pkt_clientIp p = hdr_clientIp h" "pkt_yourIp p = hdr_yourIp h"
    "pkt_serverIp p = hdr_serverIp h" "pkt_clientHwAddr p = hdr_clientHwAddr h"
  using assms load_ip_bytes(1) [of "hdr_identifier h"]
  by (simp_all add: dhcp_header_wf_def dhcp_header_bytes_def pkt_identifier_def pkt_clientIp_def pkt_yourIp_def pkt_serverIp_def
      pkt_clientHwAddr_def mem_get_def ip_bytes_def)

end
