(* ===== verification/DhcpServer.thy ===== *)
theory DhcpServer
  imports Dhcp
begin

text \<open>
  The DHCP server of the router, \<^verbatim>\<open>src/router/router/dhcpServer.c\<close>. The lease table is a list of 215 entries;
  entry \<open>i\<close> stands for the address with last octet \<open>40 + i\<close>. The clock and the results of the system
  calls are parameters. A failed \<open>CHECK\<close>, which aborts the process, is \<open>None\<close>.
\<close>

section \<open>The code\<close>

definition dhcpServer_FIRST_OCTET :: nat where "dhcpServer_FIRST_OCTET = 40"
definition dhcpServer_NUM_ENTRIES :: nat where "dhcpServer_NUM_ENTRIES = 255 - dhcpServer_FIRST_OCTET"

record dhcpServer_entry =
  entry_timeSec :: int
  entry_macAddr :: bytes

record dhcpServer =
  server_serverIp :: u32
  server_fd :: int
  server_ifIndex :: int
  server_entries :: "dhcpServer_entry list"

text \<open>
  The search loop of \<open>dhcpServer_getEntry\<close> over the entries from index \<open>i\<close> on: \<open>Inl\<close> is the match, \<open>Inr\<close> the oldest entry.
\<close>

fun dhcpServer_getEntry_loop :: "bytes \<Rightarrow> dhcpServer_entry list \<Rightarrow> nat \<Rightarrow> nat \<Rightarrow> int \<Rightarrow> nat + nat" where
  "dhcpServer_getEntry_loop macAddr [] i oldestIndex oldestTimeSec = Inr oldestIndex"
| "dhcpServer_getEntry_loop macAddr (e # es) i oldestIndex oldestTimeSec =
     (if mem_compare macAddr (entry_macAddr e) 6 = 0 then Inl i
      else
        case es of [] \<Rightarrow> Inr oldestIndex
        | e' # _ \<Rightarrow>
          if entry_timeSec e' < oldestTimeSec then dhcpServer_getEntry_loop macAddr es (i + 1) (i + 1) (entry_timeSec e')
          else dhcpServer_getEntry_loop macAddr es (i + 1) oldestIndex oldestTimeSec)"

text \<open>Returns the index, or \<open>-1\<close>, and the updated server; \<open>now\<close> is the monotonic clock in seconds.\<close>

definition dhcpServer_getEntry :: "dhcpServer \<Rightarrow> int \<Rightarrow> bytes \<Rightarrow> bool \<Rightarrow> int \<times> dhcpServer" where
  "dhcpServer_getEntry self now macAddr allowCreate =
     (let entries = server_entries self
      in case dhcpServer_getEntry_loop macAddr entries 0 0 (entry_timeSec (entries ! 0)) of
           Inl i \<Rightarrow> (int i, self\<lparr>server_entries := entries[i := (entries ! i)\<lparr>entry_timeSec := now\<rparr>]\<rparr>)
         | Inr oldestIndex \<Rightarrow>
           if \<not> allowCreate then (- 1, self)
           else (int oldestIndex, self\<lparr>server_entries := entries[oldestIndex :=
                   (entries ! oldestIndex)\<lparr>entry_macAddr := take 6 macAddr, entry_timeSec := now\<rparr>]\<rparr>))"

text \<open>
  The results of the system calls are the socket and, in order, those of the two \<open>ioctl\<close>, the two \<open>setsockopt\<close> and the \<open>bind\<close> calls.
\<close>

definition dhcpServer_init :: "dhcpServer \<Rightarrow> int \<Rightarrow> u32 \<Rightarrow> int \<Rightarrow> int list \<Rightarrow> dhcpServer option" where
  "dhcpServer_init self ifIndex serverIp fd results =
     (let self = self\<lparr>server_ifIndex := ifIndex, server_serverIp := serverIp,
                      server_entries := map (\<lambda>e. e\<lparr>entry_timeSec := 0\<rparr>) (server_entries self)\<rparr>
      in if fd \<le> 0 then None
         else if \<not> list_all (\<lambda>r. r = 0) results then None
         else Some (self\<lparr>server_fd := fd\<rparr>))"

text \<open>The \<open>switch\<close> over the option codes; the state is the offset of the message type option.\<close>

definition dhcpServer_visit :: "bytes \<Rightarrow> nat \<Rightarrow> nat option \<Rightarrow> nat option" where
  "dhcpServer_visit buf current messageType =
     (if buf ! current = dhcp_MESSAGE_TYPE then if buf ! (current + 1) = 1 then Some current else messageType
      else messageType)"

definition dhcpServer_findOptions :: "bytes \<Rightarrow> nat \<Rightarrow> nat option" where
  "dhcpServer_findOptions buf packetEnd = dhcp_walk (dhcpServer_visit buf) buf packetEnd dhcp_header_size None"

text \<open>The reply for the entry: header, options and padding as they lie in \<open>struct reply\<close>.\<close>

definition dhcpServer_replyMsg :: "dhcpServer \<Rightarrow> bytes \<Rightarrow> bool \<Rightarrow> nat \<Rightarrow> u32 \<Rightarrow> bytes" where
  "dhcpServer_replyMsg self buf isDiscover entryIndex dnsIp =
     (let serverIp = ip_bytes (server_serverIp self);
          hdr = dhcp_header_zero\<lparr>
            hdr_opcode := dhcp_BOOTREPLY, hdr_hwAddrType := dhcp_ETHERNET, hdr_hwAddrLen := 6,
            hdr_identifier := pkt_identifier buf,
            hdr_yourIp := take 3 serverIp @ [word_of_nat (dhcpServer_FIRST_OCTET + entryIndex)],
            hdr_serverIp := serverIp,
            hdr_clientHwAddr := take 6 (pkt_clientHwAddr buf) @ replicate 10 0,
            hdr_magicCookie := dhcp_MAGIC_COOKIE\<rparr>
      in dhcp_header_bytes hdr @
         dhcp_option_bytes \<lparr>opt_code = dhcp_MESSAGE_TYPE, opt_length = 1\<rparr> @ [if isDiscover then dhcp_OFFER else dhcp_ACK] @
         dhcp_option_bytes \<lparr>opt_code = dhcp_SERVER_IDENTIFIER, opt_length = 4\<rparr> @ serverIp @
         dhcp_option_bytes \<lparr>opt_code = dhcp_SUBNET_MASK, opt_length = 4\<rparr> @ [255, 255, 255, 0] @
         dhcp_option_bytes \<lparr>opt_code = dhcp_ROUTER, opt_length = 4\<rparr> @ serverIp @
         dhcp_option_bytes \<lparr>opt_code = dhcp_LEASE_TIME, opt_length = 4\<rparr> @ [0, 0, 2, 88] @
         dhcp_option_bytes \<lparr>opt_code = dhcp_DNS, opt_length = 4\<rparr> @ (if dnsIp \<noteq> 0 then ip_bytes dnsIp else [8, 8, 8, 8]) @
         [dhcp_END] @ [0, 0])"

text \<open>
  The handler of a received packet: \<open>buf\<close> is the shared buffer after the read, \<open>numRead\<close> the size of the packet
  and \<open>dnsIp\<close> the field of the WAN client. It returns the message to send and its destination address, if any.
\<close>

definition dhcpServer_onFd :: "dhcpServer \<Rightarrow> int \<Rightarrow> u32 \<Rightarrow> bytes \<Rightarrow> nat \<Rightarrow> dhcpServer \<times> (bytes \<times> bytes) option" where
  "dhcpServer_onFd self now dnsIp buf numRead =
     (if numRead < dhcp_header_size then (self, None)
      else
        case dhcpServer_findOptions buf numRead of None \<Rightarrow> (self, None)
        | Some messageType \<Rightarrow>
          let type = buf ! (messageType + 2);
              isDiscover = (type = dhcp_DISCOVER)
          in if \<not> isDiscover \<and> type \<noteq> dhcp_REQUEST then (self, None)
             else
               let (entryIndex, self) = dhcpServer_getEntry self now (pkt_clientHwAddr buf) isDiscover
               in if entryIndex < 0 then (self, None)
                  else
                    let replyMsg = dhcpServer_replyMsg self buf isDiscover (nat entryIndex) dnsIp;
                        yourIp = pkt_yourIp replyMsg;
                        dest = (if mem_compare (pkt_clientIp buf) yourIp 4 = 0 then yourIp else [255, 255, 255, 255])
                    in (self, Some (replyMsg, dest)))"

definition dhcpServer_deinit :: "dhcpServer \<Rightarrow> int" where
  "dhcpServer_deinit self = server_fd self"

section \<open>Bytes behind the packet\<close>

interpretation server_visit: option_visitor dhcpServer_visit
  by unfold_locales (auto simp: dhcpServer_visit_def nth_take_eq)

lemma server_type_inside:
  assumes "dhcpServer_findOptions buf e = Some mt"
  shows "mt + 2 < e"
proof -
  have "case dhcpServer_findOptions buf e of None \<Rightarrow> True | Some mt \<Rightarrow> mt + 2 < e"
    unfolding dhcpServer_findOptions_def
    by (rule walk_invariant [where lo = 0]) (auto simp: dhcpServer_visit_def split: option.splits if_splits)
  then show ?thesis using assms by simp
qed

lemma onFd_stale:
  assumes "take n b = take n b'" "n \<le> length b" "n \<le> length b'"
  shows "dhcpServer_onFd self now dnsIp b n = dhcpServer_onFd self now dnsIp b' n"
proof (cases "dhcp_header_size \<le> n")
  case True
  note pkt = pkt_take_eq [OF assms(1) True]
  have opts: "dhcpServer_findOptions b n = dhcpServer_findOptions b' n" unfolding dhcpServer_findOptions_def by (rule server_visit.walk_local [OF assms])
  have reply: "dhcpServer_replyMsg s b d i dnsIp = dhcpServer_replyMsg s b' d i dnsIp" for s d i by (simp add: dhcpServer_replyMsg_def pkt)
  have "b ! (mt + 2) = b' ! (mt + 2)" if "dhcpServer_findOptions b' n = Some mt" for mt
    using nth_take_eq [OF assms(1)] server_type_inside [OF that] by simp
  then show ?thesis unfolding dhcpServer_onFd_def opts reply pkt by (auto simp: Let_def split: option.splits)
next
  case False
  then show ?thesis by (simp add: dhcpServer_onFd_def)
qed

section \<open>The lease table\<close>

text \<open>
  The invariant of the lease table: 215 entries with six-byte addresses, and an entry whose address also
  occurs earlier in the table was never handed out.
\<close>

definition leases_wf :: "dhcpServer_entry list \<Rightarrow> bool" where
  "leases_wf es \<longleftrightarrow> length es = dhcpServer_NUM_ENTRIES \<and> (\<forall>e\<in>set es. length (entry_macAddr e) = 6) \<and>
     (\<forall>i j. i < j \<and> j < length es \<and> entry_macAddr (es ! i) = entry_macAddr (es ! j) \<longrightarrow> entry_timeSec (es ! j) = 0)"

lemma mac_match:
  assumes "length m = 6" "6 \<le> length macAddr"
  shows "mem_compare macAddr m 6 = 0 \<longleftrightarrow> take 6 macAddr = m"
  using mem_compare_eq_0_iff [of 6 macAddr m] assms by simp

lemma loop_result:
  assumes "6 \<le> length macAddr" "\<forall>e\<in>set es. length (entry_macAddr e) = 6" "drop k all = es" "k < length all"
    and "oldest \<le> k" "t = entry_timeSec (all ! oldest)" "\<forall>i\<le>k. t \<le> entry_timeSec (all ! i)"
  shows "case dhcpServer_getEntry_loop macAddr es k oldest t of
      Inl i \<Rightarrow> k \<le> i \<and> i < length all \<and> entry_macAddr (all ! i) = take 6 macAddr \<and> (\<forall>j. k \<le> j \<and> j < i \<longrightarrow> entry_macAddr (all ! j) \<noteq> take 6 macAddr)
    | Inr o' \<Rightarrow> o' < length all \<and> (\<forall>j<length all. entry_timeSec (all ! o') \<le> entry_timeSec (all ! j)) \<and>
        (\<forall>j. k \<le> j \<and> j < length all \<longrightarrow> entry_macAddr (all ! j) \<noteq> take 6 macAddr)"
  using assms(2-)
proof (induction es arbitrary: k oldest t)
  case Nil
  then show ?case by simp
next
  case (Cons e es)
  have e: "all ! k = e" using Cons.prems(2,3) by (metis hd_drop_conv_nth list.sel(1))
  have es: "drop (Suc k) all = es" using Cons.prems(2) by (metis drop_Suc tl_drop list.sel(3))
  have m: "mem_compare macAddr (entry_macAddr e) 6 = 0 \<longleftrightarrow> take 6 macAddr = entry_macAddr e"
    using mac_match [OF _ assms(1)] Cons.prems(1) by simp
  show ?case
  proof (cases "take 6 macAddr = entry_macAddr e")
    case True
    then show ?thesis using m e Cons.prems(3) by auto
  next
    case miss: False
    show ?thesis
    proof (cases es)
      case Nil
      then have "length all = Suc k" using es Cons.prems(3) by simp
      then show ?thesis using Nil miss m e Cons.prems by (auto simp: less_Suc_eq_le)
    next
      case es': (Cons e' es')
      have k: "Suc k < length all" using es es' by (metis drop_all list.distinct(1) not_less)
      have e': "all ! Suc k = e'" using es es' k by (metis hd_drop_conv_nth list.sel(1))
      define o' where "o' = (if entry_timeSec e' < t then Suc k else oldest)"
      have t': "min t (entry_timeSec e') = entry_timeSec (all ! o')" using Cons.prems(5) e' by (simp add: o'_def)
      have loop: "dhcpServer_getEntry_loop macAddr (e # es) k oldest t = dhcpServer_getEntry_loop macAddr es (Suc k) o' (min t (entry_timeSec e'))"
        using miss m by (simp add: es' o'_def min_def)
      have "\<forall>i\<le>Suc k. min t (entry_timeSec e') \<le> entry_timeSec (all ! i)" using Cons.prems(6) e' by (auto simp: le_Suc_eq)
      from Cons.IH [OF _ es k _ t' this] Cons.prems(1,4)
      have "case dhcpServer_getEntry_loop macAddr es (Suc k) o' (min t (entry_timeSec e')) of
          Inl i \<Rightarrow> Suc k \<le> i \<and> i < length all \<and> entry_macAddr (all ! i) = take 6 macAddr \<and> (\<forall>j. Suc k \<le> j \<and> j < i \<longrightarrow> entry_macAddr (all ! j) \<noteq> take 6 macAddr)
        | Inr o' \<Rightarrow> o' < length all \<and> (\<forall>j<length all. entry_timeSec (all ! o') \<le> entry_timeSec (all ! j)) \<and>
            (\<forall>j. Suc k \<le> j \<and> j < length all \<longrightarrow> entry_macAddr (all ! j) \<noteq> take 6 macAddr)"
        by (simp add: o'_def)
      moreover have "entry_macAddr (all ! j) \<noteq> take 6 macAddr" if "k \<le> j" "\<not> Suc k \<le> j" for j
        using that e miss by (metis le_antisym not_less_eq_eq)
      ultimately show ?thesis unfolding loop by (auto split: sum.splits)
    qed
  qed
qed

lemma getEntry_cases:
  assumes wf: "leases_wf (server_entries self)" and mac: "6 \<le> length macAddr" and res: "dhcpServer_getEntry self now macAddr allowCreate = (r, self')"
  defines "es \<equiv> server_entries self"
  obtains (known) i where "i < dhcpServer_NUM_ENTRIES" "r = int i" "entry_macAddr (es ! i) = take 6 macAddr"
      "\<forall>j<i. entry_macAddr (es ! j) \<noteq> take 6 macAddr" "self' = self\<lparr>server_entries := es[i := (es ! i)\<lparr>entry_timeSec := now\<rparr>]\<rparr>"
    | (unknown) "r = - 1" "\<not> allowCreate" "self' = self" "\<forall>j<dhcpServer_NUM_ENTRIES. entry_macAddr (es ! j) \<noteq> take 6 macAddr"
    | (evict) i where "i < dhcpServer_NUM_ENTRIES" "r = int i" "allowCreate" "\<forall>j<dhcpServer_NUM_ENTRIES. entry_macAddr (es ! j) \<noteq> take 6 macAddr"
      "\<forall>j<dhcpServer_NUM_ENTRIES. entry_timeSec (es ! i) \<le> entry_timeSec (es ! j)"
      "self' = self\<lparr>server_entries := es[i := (es ! i)\<lparr>entry_macAddr := take 6 macAddr, entry_timeSec := now\<rparr>]\<rparr>"
proof -
  have len: "length es = dhcpServer_NUM_ENTRIES" "\<forall>e\<in>set es. length (entry_macAddr e) = 6"
    using wf by (simp_all add: leases_wf_def es_def)
  have pos: "0 < length es" using len(1) by (simp add: dhcpServer_NUM_ENTRIES_def dhcpServer_FIRST_OCTET_def)
  have "case dhcpServer_getEntry_loop macAddr es 0 0 (entry_timeSec (es ! 0)) of
      Inl i \<Rightarrow> 0 \<le> i \<and> i < length es \<and> entry_macAddr (es ! i) = take 6 macAddr \<and> (\<forall>j. 0 \<le> j \<and> j < i \<longrightarrow> entry_macAddr (es ! j) \<noteq> take 6 macAddr)
    | Inr o' \<Rightarrow> o' < length es \<and> (\<forall>j<length es. entry_timeSec (es ! o') \<le> entry_timeSec (es ! j)) \<and>
        (\<forall>j. 0 \<le> j \<and> j < length es \<longrightarrow> entry_macAddr (es ! j) \<noteq> take 6 macAddr)"
    by (rule loop_result [OF mac len(2)]) (use pos in auto)
  then show thesis
    using res known unknown evict unfolding dhcpServer_getEntry_def Let_def es_def [symmetric]
    by (auto simp: len(1) split: sum.splits if_splits)
qed

lemma getEntry_wf:
  assumes wf: "leases_wf (server_entries self)" and mac: "6 \<le> length macAddr" and res: "dhcpServer_getEntry self now macAddr allowCreate = (r, self')"
  shows "leases_wf (server_entries self')"
proof -
  define es where "es = server_entries self"
  have len: "length es = dhcpServer_NUM_ENTRIES" and macs: "\<forall>e\<in>set es. length (entry_macAddr e) = 6"
    and dup: "\<And>i j. i < j \<Longrightarrow> j < length es \<Longrightarrow> entry_macAddr (es ! i) = entry_macAddr (es ! j) \<Longrightarrow> entry_timeSec (es ! j) = 0"
    using wf by (simp_all add: leases_wf_def es_def)
  from wf mac res show ?thesis
  proof (cases rule: getEntry_cases)
    case (known i)
    have "entry_timeSec (es[i := (es ! i)\<lparr>entry_timeSec := now\<rparr>] ! k) = 0"
      if "j < k" "k < length es" "entry_macAddr (es[i := (es ! i)\<lparr>entry_timeSec := now\<rparr>] ! j) = entry_macAddr (es[i := (es ! i)\<lparr>entry_timeSec := now\<rparr>] ! k)" for j k
    proof -
      have same: "entry_macAddr (es ! j) = entry_macAddr (es ! k)" using that known(1) len by (auto simp: nth_list_update split: if_splits)
      moreover have "k \<noteq> i" using same known(3,4) that(1) by (auto simp: es_def)
      ultimately show ?thesis using dup [OF that(1,2)] by simp
    qed
    then show ?thesis
      using known(1,5) len macs by (auto simp: leases_wf_def es_def [symmetric] dest!: set_update_subset_insert [THEN subsetD])
  next
    case unknown
    then show ?thesis using wf by simp
  next
    case (evict i)
    let ?e = "(es ! i)\<lparr>entry_macAddr := take 6 macAddr, entry_timeSec := now\<rparr>"
    have "entry_timeSec (es[i := ?e] ! k) = 0" if "j < k" "k < length es" "entry_macAddr (es[i := ?e] ! j) = entry_macAddr (es[i := ?e] ! k)" for j k
    proof -
      have "j \<noteq> i" "k \<noteq> i" using that evict(1,4) len by (auto simp: nth_list_update es_def [symmetric] split: if_splits)
      then show ?thesis using dup [OF that(1,2)] that(3) by simp
    qed
    then show ?thesis
      using evict(1,6) len macs mac by (auto simp: leases_wf_def es_def [symmetric] dest!: set_update_subset_insert [THEN subsetD])
  qed
qed

section \<open>Reachable servers\<close>

text \<open>
  The server after its initialisation, on memory with any contents, and then after any sequence of packets.
\<close>

inductive dhcpServer_reach :: "dhcpServer \<Rightarrow> bool" where
  init: "length (server_entries m) = dhcpServer_NUM_ENTRIES \<Longrightarrow> \<forall>e\<in>set (server_entries m). length (entry_macAddr e) = 6 \<Longrightarrow>
    dhcpServer_init m ifIndex serverIp fd results = Some self \<Longrightarrow> dhcpServer_reach self"
| packet: "dhcpServer_reach self \<Longrightarrow> numRead \<le> length buf \<Longrightarrow> dhcpServer_onFd self now dnsIp buf numRead = (self', reply) \<Longrightarrow> dhcpServer_reach self'"

lemma init_wf:
  assumes "length (server_entries m) = dhcpServer_NUM_ENTRIES" "\<forall>e\<in>set (server_entries m). length (entry_macAddr e) = 6"
    "dhcpServer_init m ifIndex serverIp fd results = Some self"
  shows "leases_wf (server_entries self)"
  using assms by (auto simp: dhcpServer_init_def leases_wf_def Let_def split: if_splits)

lemma onFd_entry:
  assumes "dhcpServer_onFd self now dnsIp buf numRead = (self', reply)" "numRead \<le> length buf"
  obtains "self' = self" "reply = None"
  | allowCreate r where "dhcp_header_size \<le> numRead" "6 \<le> length (pkt_clientHwAddr buf)" "dhcpServer_getEntry self now (pkt_clientHwAddr buf) allowCreate = (r, self')"
      "r < 0 \<Longrightarrow> reply = None"
      "\<not> r < 0 \<Longrightarrow> reply = Some (let m = dhcpServer_replyMsg self' buf allowCreate (nat r) dnsIp
        in (m, if mem_compare (pkt_clientIp buf) (pkt_yourIp m) 4 = 0 then pkt_yourIp m else [255, 255, 255, 255]))"
proof (cases "numRead < dhcp_header_size \<or> dhcpServer_findOptions buf numRead = None")
  case True
  then show thesis using that(1) assms(1) by (auto simp: dhcpServer_onFd_def split: if_splits)
next
  case False
  then obtain mt where mt: "dhcpServer_findOptions buf numRead = Some mt" and size: "dhcp_header_size \<le> numRead" by auto
  define disc where "disc = (buf ! (mt + 2) = dhcp_DISCOVER)"
  have hw: "6 \<le> length (pkt_clientHwAddr buf)" using size assms(2) by (simp add: pkt_clientHwAddr_def mem_get_def dhcp_header_size_def)
  show thesis
  proof (cases "\<not> disc \<and> buf ! (mt + 2) \<noteq> dhcp_REQUEST")
    case True
    then show thesis using that(1) assms(1) False by (auto simp: dhcpServer_onFd_def mt disc_def)
  next
    case ok: False
    obtain r s where g: "dhcpServer_getEntry self now (pkt_clientHwAddr buf) disc = (r, s)" by (metis prod.exhaust)
    have "dhcpServer_onFd self now dnsIp buf numRead = (if r < 0 then (s, None)
        else let m = dhcpServer_replyMsg s buf disc (nat r) dnsIp
          in (s, Some (m, if mem_compare (pkt_clientIp buf) (pkt_yourIp m) 4 = 0 then pkt_yourIp m else [255, 255, 255, 255])))"
      using ok size g unfolding dhcpServer_onFd_def mt option.case Let_def disc_def [symmetric] by auto
    then show thesis using that(2) [OF size hw, of disc r] g assms(1) by (auto simp: Let_def split: if_splits)
  qed
qed

lemma reach_wf: "dhcpServer_reach self \<Longrightarrow> leases_wf (server_entries self)"
proof (induction rule: dhcpServer_reach.induct)
  case (init m ifIndex serverIp fd results self)
  then show ?case by (rule init_wf)
next
  case (packet self numRead buf now dnsIp self' reply)
  from packet.hyps(3,2) show ?case
  proof (cases rule: onFd_entry)
    case 1
    then show ?thesis using packet.IH by simp
  next
    case (2 allowCreate r)
    then show ?thesis using getEntry_wf [OF packet.IH] by blast
  qed
qed

section \<open>The replies\<close>

lemma reply_fields:
  fixes self :: dhcpServer and isDiscover :: bool and i :: nat and dnsIp :: u32
  assumes "numRead \<le> length buf" "dhcp_header_size \<le> numRead"
  defines "m \<equiv> dhcpServer_replyMsg self buf isDiscover i dnsIp"
  shows "length m = 276" "pkt_identifier m = pkt_identifier buf" "pkt_yourIp m = take 3 (ip_bytes (server_serverIp self)) @ [word_of_nat (40 + i)]"
    "pkt_serverIp m = ip_bytes (server_serverIp self)" "take 6 (pkt_clientHwAddr m) = take 6 (pkt_clientHwAddr buf)" "m ! 242 = (if isDiscover then dhcp_OFFER else dhcp_ACK)"
proof -
  define h where "h = dhcp_header_zero\<lparr>
            hdr_opcode := dhcp_BOOTREPLY, hdr_hwAddrType := dhcp_ETHERNET, hdr_hwAddrLen := 6,
            hdr_identifier := pkt_identifier buf,
            hdr_yourIp := take 3 (ip_bytes (server_serverIp self)) @ [word_of_nat (dhcpServer_FIRST_OCTET + i)],
            hdr_serverIp := ip_bytes (server_serverIp self),
            hdr_clientHwAddr := take 6 (pkt_clientHwAddr buf) @ replicate 10 0,
            hdr_magicCookie := dhcp_MAGIC_COOKIE\<rparr>"
  have hw: "length (pkt_clientHwAddr buf) = 16" using assms(1,2) by (simp add: pkt_clientHwAddr_def dhcp_header_size_def mem_get_def)
  have wf: "dhcp_header_wf h" using hw by (simp add: h_def dhcp_header_wf_def dhcp_header_zero_def)
  obtain opts where m: "m = dhcp_header_bytes h @ opts" and opts: "length opts = 36" "opts ! 2 = (if isDiscover then dhcp_OFFER else dhcp_ACK)"
    unfolding m_def dhcpServer_replyMsg_def Let_def h_def [symmetric] by (simp add: dhcp_option_bytes_def)
  note f = header_fields [OF wf m]
  show "length m = 276" using m opts wf by simp
  show "pkt_identifier m = pkt_identifier buf" "pkt_yourIp m = take 3 (ip_bytes (server_serverIp self)) @ [word_of_nat (40 + i)]"
    "pkt_serverIp m = ip_bytes (server_serverIp self)" "take 6 (pkt_clientHwAddr m) = take 6 (pkt_clientHwAddr buf)"
    using f hw by (simp_all add: h_def dhcp_header_zero_def dhcpServer_FIRST_OCTET_def)
  show "m ! 242 = (if isDiscover then dhcp_OFFER else dhcp_ACK)" using m opts wf by (simp add: nth_append)
qed

lemma reply_props:
  assumes "dhcpServer_reach self" "numRead \<le> length buf" "dhcpServer_onFd self now dnsIp buf numRead = (self', Some (msg, dest))"
  shows "\<exists>i<dhcpServer_NUM_ENTRIES.
    server_entries self' = (server_entries self)[i := \<lparr>entry_timeSec = now, entry_macAddr = take 6 (pkt_clientHwAddr buf)\<rparr>] \<and>
    pkt_yourIp msg = take 3 (ip_bytes (server_serverIp self)) @ [word_of_nat (40 + i)] \<and> 40 + i \<le> 254 \<and>
    pkt_identifier msg = pkt_identifier buf \<and> take 6 (pkt_clientHwAddr msg) = take 6 (pkt_clientHwAddr buf) \<and>
    (dest = [255, 255, 255, 255] \<or> dest = pkt_yourIp msg \<and> pkt_clientIp buf = dest) \<and>
    (entry_macAddr (server_entries self ! i) = take 6 (pkt_clientHwAddr buf) \<or>
     msg ! 242 = dhcp_OFFER \<and> (\<forall>j<dhcpServer_NUM_ENTRIES. entry_timeSec (server_entries self ! i) \<le> entry_timeSec (server_entries self ! j) \<and>
       entry_macAddr (server_entries self ! j) \<noteq> take 6 (pkt_clientHwAddr buf)))"
proof -
  note wf = reach_wf [OF assms(1)]
  define mac where "mac = take 6 (pkt_clientHwAddr buf)"
  from assms(3,2) show ?thesis
  proof (cases rule: onFd_entry)
    case (2 allowCreate r)
    have size: "dhcp_header_size \<le> numRead" by (fact 2(1))
    have r: "\<not> r < 0" using 2(4) by auto
    then have msg: "msg = dhcpServer_replyMsg self' buf allowCreate (nat r) dnsIp"
      and dest: "dest = (if mem_compare (pkt_clientIp buf) (pkt_yourIp msg) 4 = 0 then pkt_yourIp msg else [255, 255, 255, 255])"
      using 2(5) by (simp_all add: Let_def)
    note f = reply_fields [OF assms(2) size, of self' allowCreate "nat r" dnsIp, folded msg]
    have ip4: "length (pkt_clientIp buf) = 4" using assms(2) size by (simp add: pkt_clientIp_def mem_get_def dhcp_header_size_def)
    have d: "dest = [255, 255, 255, 255] \<or> dest = pkt_yourIp msg \<and> pkt_clientIp buf = dest"
      using mem_compare_eq_0_iff [of 4 "pkt_clientIp buf" "pkt_yourIp msg"] ip4 f(3) by (auto simp: dest)
    from wf 2(2,3) show ?thesis
    proof (cases rule: getEntry_cases)
      case (known i)
      have upd: "(server_entries self ! i)\<lparr>entry_timeSec := now\<rparr> = \<lparr>entry_timeSec = now, entry_macAddr = mac\<rparr>"
        using known(3) by (simp add: mac_def)
      show ?thesis
        using known f d upd by (intro exI [of _ i]) (auto simp: mac_def [symmetric] dhcpServer_NUM_ENTRIES_def dhcpServer_FIRST_OCTET_def)
    next
      case unknown
      then show ?thesis using r by simp
    next
      case (evict i)
      have upd: "(server_entries self ! i)\<lparr>entry_macAddr := mac, entry_timeSec := now\<rparr> = \<lparr>entry_timeSec = now, entry_macAddr = mac\<rparr>" by simp
      show ?thesis
        using evict f d upd by (intro exI [of _ i]) (auto simp: mac_def [symmetric] dhcpServer_NUM_ENTRIES_def dhcpServer_FIRST_OCTET_def)
    qed
  qed simp
qed

section \<open>Leases and replies\<close>



section \<open>A concrete run\<close>

text \<open>The server of the router's LAN, after a DISCOVER of the client \<open>02:00:00:00:00:07\<close>, on memory of zeros.\<close>

definition example_server :: dhcpServer where
  "example_server = \<lparr>server_serverIp = 0x01007B0A, server_fd = 9, server_ifIndex = 101,
     server_entries = replicate 215 \<lparr>entry_timeSec = 0, entry_macAddr = replicate 6 0\<rparr>\<rparr>"

definition example_discover :: bytes where
  "example_discover = dhcp_header_bytes (dhcp_header_zero\<lparr>hdr_opcode := dhcp_BOOTREQUEST, hdr_identifier := 5, hdr_clientHwAddr := [2, 0, 0, 0, 0, 7] @ replicate 10 0\<rparr>) @
     [dhcp_MESSAGE_TYPE, 1, dhcp_DISCOVER, dhcp_END]"

lemma example_server_reach: "dhcpServer_reach example_server"
proof (rule dhcpServer_reach.init)
  show "dhcpServer_init example_server 101 0x01007B0A 9 [0, 0, 0, 0, 0] = Some example_server"
    by (simp add: dhcpServer_init_def example_server_def)
qed (simp_all add: example_server_def dhcpServer_NUM_ENTRIES_def dhcpServer_FIRST_OCTET_def)

lemma discover_options:
  assumes "buf = hdr @ [dhcp_MESSAGE_TYPE, 1, dhcp_DISCOVER, dhcp_END]" "length hdr = 240"
  shows "dhcpServer_findOptions buf 244 = Some 240" "buf ! 242 = dhcp_DISCOVER" "length buf = 244"
proof -
  have b: "buf ! 240 = dhcp_MESSAGE_TYPE" "buf ! 241 = 1" "buf ! 242 = dhcp_DISCOVER" "length buf = 244" using assms by (simp_all add: nth_append)
  have "dhcp_walk (dhcpServer_visit buf) buf 244 240 None = dhcp_walk (dhcpServer_visit buf) buf 244 243 (dhcpServer_visit buf 240 None)"
    using walk_option [of buf 240 1 244] b(2) by simp
  also have "\<dots> = Some 240" using b by (simp add: walk_stop dhcpServer_visit_def)
  finally show "dhcpServer_findOptions buf 244 = Some 240" by (simp add: dhcpServer_findOptions_def dhcp_header_size_def)
  show "buf ! 242 = dhcp_DISCOVER" "length buf = 244" using b by simp_all
qed

text \<open>Every DISCOVER is answered.\<close>

lemma discover_answered:
  assumes "dhcpServer_reach self" "numRead \<le> length buf" "dhcp_header_size \<le> numRead" "dhcpServer_findOptions buf numRead = Some mt" "buf ! (mt + 2) = dhcp_DISCOVER"
  obtains self' msg dest where "dhcpServer_onFd self now dnsIp buf numRead = (self', Some (msg, dest))"
proof -
  obtain r s where g: "dhcpServer_getEntry self now (pkt_clientHwAddr buf) True = (r, s)" by (metis prod.exhaust)
  have "6 \<le> length (pkt_clientHwAddr buf)" using assms(2,3) by (simp add: pkt_clientHwAddr_def mem_get_def dhcp_header_size_def)
  from reach_wf [OF assms(1)] this g have "0 \<le> r" by (cases rule: getEntry_cases) auto
  then show thesis using that g assms(3-5) by (simp add: dhcpServer_onFd_def Let_def)
qed

lemma example_packets:
  defines "b \<equiv> example_discover[33 := 8]"
  shows "dhcpServer_findOptions example_discover 244 = Some 240" "example_discover ! (240 + 2) = dhcp_DISCOVER" "length example_discover = 244"
    "dhcpServer_findOptions b 244 = Some 240" "b ! (240 + 2) = dhcp_DISCOVER" "length b = 244"
    "take 6 (pkt_clientHwAddr example_discover) = [2, 0, 0, 0, 0, 7]" "take 6 (pkt_clientHwAddr b) = [2, 0, 0, 0, 0, 8]"
proof -
  define hdr where "hdr = dhcp_header_bytes (dhcp_header_zero\<lparr>hdr_opcode := dhcp_BOOTREQUEST, hdr_identifier := 5, hdr_clientHwAddr := [2, 0, 0, 0, 0, 7] @ replicate 10 0\<rparr>)"
  have wf: "dhcp_header_wf (dhcp_header_zero\<lparr>hdr_opcode := dhcp_BOOTREQUEST, hdr_identifier := 5, hdr_clientHwAddr := [2, 0, 0, 0, 0, 7] @ replicate 10 0\<rparr>)"
    by (simp add: dhcp_header_wf_def dhcp_header_zero_def)
  then have len: "length hdr = 240" by (simp add: hdr_def)
  have d: "example_discover = hdr @ [dhcp_MESSAGE_TYPE, 1, dhcp_DISCOVER, dhcp_END]" by (simp add: example_discover_def hdr_def)
  have b: "b = hdr[33 := 8] @ [dhcp_MESSAGE_TYPE, 1, dhcp_DISCOVER, dhcp_END]" using len by (simp add: b_def d list_update_append)
  show "dhcpServer_findOptions example_discover 244 = Some 240" "example_discover ! (240 + 2) = dhcp_DISCOVER" "length example_discover = 244"
    "dhcpServer_findOptions b 244 = Some 240" "b ! (240 + 2) = dhcp_DISCOVER" "length b = 244"
    using discover_options [OF d len] discover_options [OF b] len by simp_all
  show hw: "take 6 (pkt_clientHwAddr example_discover) = [2, 0, 0, 0, 0, 7]"
    using header_fields(5) [OF wf d [unfolded hdr_def]] by simp
  have "take 6 (pkt_clientHwAddr b) = (take 6 (pkt_clientHwAddr example_discover))[5 := 8]"
    unfolding pkt_clientHwAddr_def mem_get_def b_def drop_update_swap using len by (simp add: take_update_swap drop_update_swap)
  then show "take 6 (pkt_clientHwAddr b) = [2, 0, 0, 0, 0, 8]" unfolding hw by simp
qed



end
