(* ===== verification/Netlink.thy ===== *)
theory Netlink
  imports Mem HcMath
begin

text \<open>
  Netlink messages: \<^verbatim>\<open>src/router/router/netlink/netlink.c\<close> and \<^verbatim>\<open>genetlink.c\<close>, with the message headers
  of \<^verbatim>\<open>src/hc/core/hc/linux/linux.h\<close> they use. Replies are received into the program's one static buffer, which is
  therefore part of the state, next to the datagrams that wait on the socket. The kernel is a parameter: a function from a request to the
  result of \<open>sendmsg\<close> and the datagrams it sends back. A failed \<open>CHECK\<close>, which aborts the process, is
  \<open>None\<close>; \<open>debug_ASSERT\<close> does nothing in a release build and is left out.
\<close>

section \<open>The code\<close>

definition buffer_size :: nat where "buffer_size = 66000"

definition NLM_F_REQUEST :: nat where "NLM_F_REQUEST = 0x01"
definition NLM_F_ACK :: nat where "NLM_F_ACK = 0x04"
definition NLM_F_REPLACE :: nat where "NLM_F_REPLACE = 0x100"
definition NLM_F_DUMP :: nat where "NLM_F_DUMP = 0x300"
definition NLM_F_CREATE :: nat where "NLM_F_CREATE = 0x400"
definition NLMSG_ERROR :: nat where "NLMSG_ERROR = 2"
definition NLMSG_DONE :: nat where "NLMSG_DONE = 3"
definition NLA_F_NESTED :: nat where "NLA_F_NESTED = 0x8000"

lemmas netlink_constants = NLM_F_REQUEST_def NLM_F_ACK_def NLM_F_REPLACE_def NLM_F_DUMP_def NLM_F_CREATE_def
  NLMSG_ERROR_def NLMSG_DONE_def NLA_F_NESTED_def

text \<open>\<open>struct nlmsghdr\<close>; the sender's port is never set.\<close>

definition nlmsghdr :: "nat \<Rightarrow> nat \<Rightarrow> nat \<Rightarrow> nat \<Rightarrow> bytes" where
  "nlmsghdr nlmsg_len nlmsg_type nlmsg_flags nlmsg_seq =
     le_bytes 4 nlmsg_len @ le_bytes 2 nlmsg_type @ le_bytes 2 nlmsg_flags @ le_bytes 4 nlmsg_seq @ le_bytes 4 0"

definition nlattr :: "nat \<Rightarrow> nat \<Rightarrow> bytes" where
  "nlattr nla_len nla_type = le_bytes 2 nla_len @ le_bytes 2 nla_type"

definition genlmsghdr :: "u8 \<Rightarrow> u8 \<Rightarrow> bytes" where
  "genlmsghdr cmd version = [cmd, version, 0, 0]"

text \<open>The headers of route, address and link messages; fields that no request sets are zero. A signed index is stored as its 32-bit pattern.\<close>

definition i32_bytes :: "int \<Rightarrow> bytes" where "i32_bytes i = le_bytes 4 (unat (word_of_int i :: u32))"

definition AF_INET :: u8 where "AF_INET = 2"
definition AF_UNSPEC :: u8 where "AF_UNSPEC = 0"
definition RTM_NEWLINK :: nat where "RTM_NEWLINK = 16"
definition RTM_NEWADDR :: nat where "RTM_NEWADDR = 20"
definition RTM_DELADDR :: nat where "RTM_DELADDR = 21"
definition RTM_NEWROUTE :: nat where "RTM_NEWROUTE = 24"
definition IFA_LOCAL :: nat where "IFA_LOCAL = 2"
definition RTA_DST :: nat where "RTA_DST = 1"
definition RTA_OIF :: nat where "RTA_OIF = 4"
definition RTA_GATEWAY :: nat where "RTA_GATEWAY = 5"
definition RTA_PRIORITY :: nat where "RTA_PRIORITY = 6"
definition RT_TABLE_MAIN :: u8 where "RT_TABLE_MAIN = 254"
definition RT_SCOPE_UNIVERSE :: u8 where "RT_SCOPE_UNIVERSE = 0"
definition RT_SCOPE_LINK :: u8 where "RT_SCOPE_LINK = 253"
definition RTN_UNICAST :: u8 where "RTN_UNICAST = 1"
definition RTPROT_BOOT :: u8 where "RTPROT_BOOT = 3"

definition ifaddrmsg :: "u8 \<Rightarrow> u8 \<Rightarrow> int \<Rightarrow> bytes" where
  "ifaddrmsg ifa_family ifa_prefixlen ifa_index = [ifa_family, ifa_prefixlen, 0, 0] @ i32_bytes ifa_index"

definition rtmsg :: "u8 \<Rightarrow> u8 \<Rightarrow> u8 \<Rightarrow> u8 \<Rightarrow> u8 \<Rightarrow> u8 \<Rightarrow> bytes" where
  "rtmsg rtm_family rtm_dst_len rtm_table rtm_protocol rtm_scope rtm_type =
     [rtm_family, rtm_dst_len, 0, 0, rtm_table, rtm_protocol, rtm_scope, rtm_type] @ le_bytes 4 0"

definition ifinfomsg :: "u8 \<Rightarrow> nat \<Rightarrow> int \<Rightarrow> u32 \<Rightarrow> u32 \<Rightarrow> bytes" where
  "ifinfomsg ifi_family ifi_type ifi_index ifi_flags ifi_change =
     [ifi_family, 0] @ le_bytes 2 ifi_type @ i32_bytes ifi_index @ le_bytes 4 (unat ifi_flags) @ le_bytes 4 (unat ifi_change)"

definition nlmsg_len :: "bytes \<Rightarrow> nat \<Rightarrow> u32" where "nlmsg_len buf p = mem_loadU32 (drop p buf)"
definition nlmsg_type :: "bytes \<Rightarrow> nat \<Rightarrow> u16" where "nlmsg_type buf p = mem_loadU16 (drop (p + 4) buf)"
definition nla_len :: "bytes \<Rightarrow> nat \<Rightarrow> u16" where "nla_len buf p = mem_loadU16 (drop p buf)"
definition nla_type :: "bytes \<Rightarrow> nat \<Rightarrow> u16" where "nla_type buf p = mem_loadU16 (drop (p + 2) buf)"

text \<open>
  The loop over the messages of one datagram, which ends at offset \<open>packetEnd\<close>: the error code that the final \<open>CHECK\<close> looks at, 0 where the
  loop returns without one. A message of length 0 makes it run forever.
\<close>

partial_function (option) netlink_receive_messages :: "bytes \<Rightarrow> nat \<Rightarrow> nat \<Rightarrow> int option" where
  "netlink_receive_messages buf packetEnd respHdr =
     (if unat (nlmsg_type buf respHdr) = NLMSG_ERROR \<or> unat (nlmsg_type buf respHdr) = NLMSG_DONE
      then Some (sint (mem_loadU32 (drop (respHdr + 16) buf)))
      else
        let nxt = respHdr + unat (math_ALIGN_FORWARD (nlmsg_len buf respHdr) 4)
        in if nxt = packetEnd then Some 0 else netlink_receive_messages buf packetEnd nxt)"

text \<open>
  \<open>netlink_receive\<close>: the inner loop is only left by a return, so the outer loop of the source has one iteration, with
  \<open>recvOffset = 0\<close>; the rest of the queue stays on the socket. An empty queue is an error of the non-blocking receive.
\<close>

definition netlink_receive :: "bytes \<Rightarrow> bytes list \<Rightarrow> (bytes \<times> bytes list) option" where
  "netlink_receive buf queue =
     (let remainingBuffer = int buffer_size - 0
      in if remainingBuffer < 8192 then None
         else
           case queue of [] \<Rightarrow> None
           | datagram # queue \<Rightarrow>
             let received = min (length datagram) (nat remainingBuffer);
                 buf = mem_put buf 0 (take received datagram)
             in if received \<le> 16 then None
                else
                  case netlink_receive_messages buf received 0 of None \<Rightarrow> None
                  | Some error \<Rightarrow> if error = 0 then Some (buf, queue) else None)"

text \<open>\<open>netlink_talk\<close>: sends the segments of the request and receives the reply; \<open>kern\<close> sees the request's bytes.\<close>

definition netlink_talk :: "(bytes \<Rightarrow> int \<times> bytes list) \<Rightarrow> bytes \<times> bytes list \<Rightarrow> bytes list \<Rightarrow> (bytes \<times> bytes list) option" where
  "netlink_talk kern st request =
     (let (buf, queue) = st;
          (sent, replies) = kern (concat request)
      in if sent \<noteq> uint (nlmsg_len (hd request) 0) then None
         else netlink_receive buf (queue @ replies))"

text \<open>
  \<open>netlink_findAttr\<close>: the offset of the attribute; the inner \<open>None\<close> is the failed \<open>CHECK\<close>, the outer one a loop that does not end.
  The attribute length is promoted to \<open>int\<close>, so the alignment does not wrap at 16 bits.
\<close>

partial_function (option) netlink_findAttr :: "bytes \<Rightarrow> nat \<Rightarrow> nat \<Rightarrow> u16 \<Rightarrow> nat option option" where
  "netlink_findAttr buf start regionEnd attrType =
     (let nxt = start + unat (math_ALIGN_FORWARD (ucast (nla_len buf start) :: u32) 4)
      in if nxt > regionEnd then Some None
         else if nla_type buf start = attrType then Some (Some start)
         else netlink_findAttr buf nxt regionEnd attrType)"

text \<open>Generic netlink: one socket, and attributes that follow the two headers at the start of the buffer.\<close>

record genetlink =
  genetlink_fd :: int

definition genetlink_init :: "int \<Rightarrow> genetlink option" where
  "genetlink_init fd = (if fd > 0 then Some \<lparr>genetlink_fd = fd\<rparr> else None)"

definition genetlink_talk :: "(bytes \<Rightarrow> int \<times> bytes list) \<Rightarrow> bytes \<times> bytes list \<Rightarrow> bytes list \<Rightarrow> (bytes \<times> bytes list) option" where
  "genetlink_talk kern st request = netlink_talk kern st request"

definition genetlink_findAttr :: "bytes \<Rightarrow> u16 \<Rightarrow> nat option option" where
  "genetlink_findAttr buf attrType = netlink_findAttr buf (16 + 4) (unat (nlmsg_len buf 0)) attrType"

definition GENL_ID_CTRL :: nat where "GENL_ID_CTRL = 0x10"
definition CTRL_CMD_GETFAMILY :: u8 where "CTRL_CMD_GETFAMILY = 3"
definition CTRL_ATTR_FAMILY_ID :: nat where "CTRL_ATTR_FAMILY_ID = 1"
definition CTRL_ATTR_FAMILY_NAME :: nat where "CTRL_ATTR_FAMILY_NAME = 2"

text \<open>
  The segments of the request for the family \<open>nameZ\<close>, which includes its terminator; the padding is taken from the start of the
  request itself. The length field of the message is the 16-bit cast of the request's length.
\<close>

definition genetlink_requestFamily_iov :: "bytes \<Rightarrow> nat \<Rightarrow> bytes list" where
  "genetlink_requestFamily_iov nameZ nameLen =
     (let nameSize = nameLen + 1;
          namePadSize = unat (math_PAD_BYTES (word_of_nat nameSize :: u32) 4);
          requestLen = 24 + nameSize + namePadSize;
          request = nlmsghdr (requestLen mod 65536) GENL_ID_CTRL NLM_F_REQUEST 0 @ genlmsghdr CTRL_CMD_GETFAMILY 1 @
                    nlattr (4 + nameSize mod 65536) CTRL_ATTR_FAMILY_NAME
      in [request, take nameSize nameZ, take namePadSize request])"

definition genetlink_requestFamily :: "(bytes \<Rightarrow> int \<times> bytes list) \<Rightarrow> bytes \<times> bytes list \<Rightarrow> bytes \<Rightarrow> nat \<Rightarrow> (bytes \<times> bytes list) option" where
  "genetlink_requestFamily kern st nameZ nameLen = genetlink_talk kern st (genetlink_requestFamily_iov nameZ nameLen)"

definition genetlink_deinit :: "genetlink \<Rightarrow> int" where
  "genetlink_deinit g = genetlink_fd g"

section \<open>Lengths and headers\<close>

lemma length_nlmsghdr [simp]: "length (nlmsghdr l t f s) = 16"
  by (simp add: nlmsghdr_def)

lemma length_nlattr [simp]: "length (nlattr l t) = 4"
  by (simp add: nlattr_def)

lemma length_i32_bytes [simp]: "length (i32_bytes i) = 4"
  by (simp add: i32_bytes_def)

lemma length_ifaddrmsg [simp]: "length (ifaddrmsg f p i) = 8"
  by (simp add: ifaddrmsg_def)

lemma length_rtmsg [simp]: "length (rtmsg f d t p s y) = 12"
  by (simp add: rtmsg_def)

lemma length_ifinfomsg [simp]: "length (ifinfomsg f t i l c) = 16"
  by (simp add: ifinfomsg_def)

lemma length_genlmsghdr [simp]: "length (genlmsghdr c v) = 4"
  by (simp add: genlmsghdr_def)

lemma loadU16_le_bytes [simp]: "n < 65536 \<Longrightarrow> mem_loadU16 (le_bytes 2 n @ rest) = word_of_nat n"
  by (simp add: mem_loadU16_def le_nat_le_bytes)

lemma loadU32_le_bytes [simp]: "n < 4294967296 \<Longrightarrow> mem_loadU32 (le_bytes 4 n @ rest) = word_of_nat n"
  by (simp add: mem_loadU32_def le_nat_le_bytes)

lemma nlmsg_header [simp]:
  "l < 4294967296 \<Longrightarrow> nlmsg_len (nlmsghdr l t f s @ rest) 0 = word_of_nat l"
  "t < 65536 \<Longrightarrow> nlmsg_type (nlmsghdr l t f s @ rest) 0 = word_of_nat t"
  by (simp_all add: nlmsg_len_def nlmsg_type_def nlmsghdr_def)

lemma uint_of_nat: "n < 2 ^ LENGTH('a) \<Longrightarrow> uint (word_of_nat n :: 'a::len word) = int n"
  by (simp only: unat_eq_nat_uint [symmetric] uint_nat unat_of_nat mod_less)

lemma align4: "n < 4294967292 \<Longrightarrow> unat (math_ALIGN_FORWARD (word_of_nat n :: u32) 4) = (n + 3) div 4 * 4"
  using unat_ALIGN_FORWARD [of 2 "word_of_nat n :: u32"] by (simp add: unat_of_nat)

section \<open>Acknowledged requests\<close>

text \<open>
  The reply of the kernel to an accepted request with \<open>NLM_F_ACK\<close>: an error message with code 0 that repeats the 16 bytes of the
  request's header. It replaces the first 36 bytes of the buffer and nothing else.
\<close>

definition netlink_ack :: "bytes \<Rightarrow> bool" where
  "netlink_ack d \<longleftrightarrow> length d = 36 \<and> unat (nlmsg_type d 0) = NLMSG_ERROR \<and> mem_loadU32 (drop 16 d) = 0"

definition kernel_acks :: "(bytes \<Rightarrow> int \<times> bytes list) \<Rightarrow> bool" where
  "kernel_acks kern \<longleftrightarrow> (\<forall>r. \<exists>ack. kern r = (int (length r), [ack]) \<and> netlink_ack ack)"

text \<open>A kernel that accepts every request.\<close>

definition acking_kernel :: "bytes \<Rightarrow> int \<times> bytes list" where
  "acking_kernel r = (int (length r), [nlmsghdr 36 NLMSG_ERROR 0 0 @ le_bytes 4 0 @ nlmsghdr 0 0 0 0])"

lemma acking_kernel_acks: "kernel_acks acking_kernel"
  unfolding kernel_acks_def acking_kernel_def by (simp add: netlink_ack_def NLMSG_ERROR_def unat_of_nat)

lemma load_mem_put_prefix:
  assumes "k + 4 \<le> length d" "length d \<le> length buf"
  shows "mem_loadU32 (drop k (mem_put buf 0 d)) = mem_loadU32 (drop k d)"
    "mem_loadU16 (drop k (mem_put buf 0 d)) = mem_loadU16 (drop k d)"
  using assms by (simp_all add: mem_put_def mem_loadU32_def mem_loadU16_def)

lemma receive_ack:
  assumes "netlink_ack d" "length buf = buffer_size"
  shows "netlink_receive buf (d # queue) = Some (mem_put buf 0 d, queue)"
proof -
  have d: "length d = 36" "unat (nlmsg_type d 0) = NLMSG_ERROR" "mem_loadU32 (drop 16 d) = 0" using assms(1) by (simp_all add: netlink_ack_def)
  have "netlink_receive_messages (mem_put buf 0 d) 36 0 = Some 0"
    using d assms(2) by (subst netlink_receive_messages.simps) (simp add: nlmsg_type_def load_mem_put_prefix buffer_size_def)
  then show ?thesis using d by (simp add: netlink_receive_def buffer_size_def)
qed

text \<open>A request whose length field counts all its segments is sent, and its reply received.\<close>

lemma talk_ack:
  assumes "kernel_acks kern" "length buf = buffer_size" "nlmsg_len (hd request) 0 = word_of_nat (length (concat request))" "length (concat request) < 4294967296"
  obtains ack where "netlink_talk kern (buf, []) request = Some (mem_put buf 0 ack, [])" "netlink_ack ack"
proof -
  obtain ack where "kern (concat request) = (int (length (concat request)), [ack])" "netlink_ack ack"
    using assms(1) unfolding kernel_acks_def by blast
  then show thesis
    using that assms(2-4) uint_of_nat [of "length (concat request)", where 'a = 32] by (simp add: netlink_talk_def receive_ack)
qed

lemma talk_single:
  assumes "kernel_acks kern" "length buf = buffer_size" "nlmsg_len r 0 = word_of_nat (length r)" "length r < 4294967296"
  shows "\<exists>ack. netlink_talk kern (buf, []) [r] = Some (mem_put buf 0 ack, []) \<and> netlink_ack ack"
  by (rule talk_ack [OF assms(1,2), of "[r]"]) (use assms(3,4) in auto)

text \<open>A reply of one message that is neither an error nor the end of a dump.\<close>

lemma receive_message:
  assumes "length buf = buffer_size" "unat (nlmsg_type d 0) \<noteq> NLMSG_ERROR" "unat (nlmsg_type d 0) \<noteq> NLMSG_DONE"
    and "nlmsg_len d 0 = word_of_nat (length d)" "4 dvd length d" "16 < length d" "length d \<le> buffer_size"
  shows "netlink_receive buf (d # queue) = Some (mem_put buf 0 d, queue)"
proof -
  have hdr: "nlmsg_type (mem_put buf 0 d) 0 = nlmsg_type d 0" "nlmsg_len (mem_put buf 0 d) 0 = word_of_nat (length d)"
    using assms(1,4,6,7) load_mem_put_prefix [of 4 d buf] load_mem_put_prefix [of 0 d buf] by (simp_all add: nlmsg_type_def nlmsg_len_def)
  have "(length d + 3) div 4 * 4 = length d" using assms(5) by (auto elim!: dvdE)
  then have "unat (math_ALIGN_FORWARD (nlmsg_len (mem_put buf 0 d) 0) 4) = length d"
    using assms(7) align4 [of "length d"] by (simp add: hdr(2) buffer_size_def)
  then have "netlink_receive_messages (mem_put buf 0 d) (length d) 0 = Some 0"
    using assms(2,3) by (subst netlink_receive_messages.simps) (simp add: hdr(1) Let_def)
  then show ?thesis using assms(6,7) by (simp add: netlink_receive_def buffer_size_def)
qed

section \<open>Attribute lists\<close>

text \<open>An attribute with its data and the padding to a multiple of four, as the kernel lays attributes out, and the offset of each type.\<close>

definition attr_bytes :: "nat \<times> bytes \<Rightarrow> bytes" where
  "attr_bytes a = nlattr (4 + length (snd a)) (fst a) @ snd a @ replicate ((4 - length (snd a) mod 4) mod 4) 0"

definition attrs_bytes :: "(nat \<times> bytes) list \<Rightarrow> bytes" where
  "attrs_bytes as = concat (map attr_bytes as)"

definition attr_wf :: "nat \<times> bytes \<Rightarrow> bool" where
  "attr_wf a \<longleftrightarrow> fst a < 65536 \<and> 4 + length (snd a) < 65536"

lemma pad4: "n + (4 - n mod 4) mod 4 = (n + 3) div 4 * (4 :: nat)"
proof -
  obtain q r where n: "n = 4 * q + r" "r < 4" by (metis mod_less_divisor mult_div_mod_eq zero_less_numeral)
  then consider "r = 0" | "r = 1" | "r = 2" | "r = 3" by linarith
  moreover have "(4 * q + r + 3) div 4 = q + (r + 3) div 4" "(4 * q + r) mod 4 = r" using n(2) by simp_all
  ultimately show ?thesis unfolding n(1) by cases (simp_all only:, simp_all)
qed

lemma length_attr_bytes: "length (attr_bytes a) = (4 + length (snd a) + 3) div 4 * 4"
proof -
  have "(4 + n + 3) div 4 * 4 = 4 + (n + 3) div 4 * (4 :: nat)" for n
    using div_add_self1 [of 4 "n + 3"] by (simp only: add.assoc) simp
  then show ?thesis using pad4 [of "length (snd a)"] by (simp add: attr_bytes_def)
qed

lemma attrs_bytes_simps [simp]: "attrs_bytes [] = []" "attrs_bytes (a # as) = attr_bytes a @ attrs_bytes as"
  by (simp_all add: attrs_bytes_def)

lemma attr_header:
  assumes "attr_wf a"
  shows "nla_len (pre @ attr_bytes a @ post) (length pre) = word_of_nat (4 + length (snd a))"
    "nla_type (pre @ attr_bytes a @ post) (length pre) = word_of_nat (fst a)"
proof -
  define n where "n = 4 + length (snd a)"
  have n: "n < 65536" "fst a < 65536" using assms by (simp_all add: attr_wf_def n_def)
  define rest where "rest = snd a @ replicate ((4 - length (snd a) mod 4) mod 4) 0 @ post"
  have b: "pre @ attr_bytes a @ post = pre @ le_bytes 2 n @ le_bytes 2 (fst a) @ rest"
    by (simp add: attr_bytes_def nlattr_def n_def rest_def)
  show "nla_len (pre @ attr_bytes a @ post) (length pre) = word_of_nat (4 + length (snd a))"
    unfolding b nla_len_def n_def [symmetric] using n by simp
  show "nla_type (pre @ attr_bytes a @ post) (length pre) = word_of_nat (fst a)"
    unfolding b nla_type_def using n by simp
qed

lemma findAttr_step:
  assumes "attr_wf a" "length pre + length (attr_bytes a) \<le> regionEnd"
  shows "netlink_findAttr (pre @ attr_bytes a @ post) (length pre) regionEnd t =
    (if word_of_nat (fst a) = t then Some (Some (length pre))
     else netlink_findAttr (pre @ attr_bytes a @ post) (length pre + length (attr_bytes a)) regionEnd t)"
proof -
  define n where "n = 4 + length (snd a)"
  have n: "n < 65536" using assms(1) by (simp add: attr_wf_def n_def)
  have "(ucast (word_of_nat n :: u16) :: u32) = word_of_nat n" using n by (intro unat_eqI) (simp add: unat_ucast unat_of_nat)
  then have "unat (math_ALIGN_FORWARD (ucast (nla_len (pre @ attr_bytes a @ post) (length pre)) :: u32) 4) = length (attr_bytes a)"
    using n attr_header(1) [OF assms(1), of pre post] align4 [of n] by (simp add: n_def length_attr_bytes del: of_nat_add)
  then show ?thesis using attr_header(2) [OF assms(1), of pre post] assms(2) by (subst netlink_findAttr.simps) (simp add: Let_def)
qed

lemma findAttr_attrs:
  assumes "\<forall>a\<in>set as. attr_wf a" "t \<in> fst ` set as"
  shows "netlink_findAttr (pre @ attrs_bytes as @ post) (length pre) (length pre + length (attrs_bytes as)) (word_of_nat t) =
    Some (Some (length pre + length (attrs_bytes (takeWhile (\<lambda>a. fst a \<noteq> t) as))))"
  using assms
proof (induction as arbitrary: pre)
  case Nil
  then show ?case by simp
next
  case (Cons a as)
  have t: "t < 65536" "fst a < 65536" using Cons.prems by (auto simp: attr_wf_def)
  have eq: "(word_of_nat (fst a) :: u16) = word_of_nat t \<longleftrightarrow> fst a = t"
    using t by (simp add: word_unat_eq_iff unat_of_nat)
  show ?case
    using findAttr_step [of a pre "length pre + length (attrs_bytes (a # as))" "attrs_bytes as @ post" "word_of_nat t"]
      Cons.IH [of "pre @ attr_bytes a"] Cons.prems by (auto simp: eq add.assoc image_iff)
qed

text \<open>The data of the attribute that is found.\<close>

lemma attrs_split:
  assumes "map_of as t = Some d"
  obtains rest where "as = takeWhile (\<lambda>a. fst a \<noteq> t) as @ (t, d) # rest"
proof -
  have "\<exists>rest. as = takeWhile (\<lambda>a. fst a \<noteq> t) as @ (t, d) # rest"
    using assms by (induction as) (auto split: if_splits)
  then show thesis using that by blast
qed

lemma findAttr_data:
  assumes "\<forall>a\<in>set as. attr_wf a" "map_of as t = Some d"
  shows "\<exists>p. netlink_findAttr (pre @ attrs_bytes as @ post) (length pre) (length pre + length (attrs_bytes as)) (word_of_nat t) = Some (Some p) \<and>
    mem_get (pre @ attrs_bytes as @ post) (p + 4) (length d) = d"
proof -
  obtain rest where split: "as = takeWhile (\<lambda>a. fst a \<noteq> t) as @ (t, d) # rest" by (rule attrs_split [OF assms(2)])
  define xs where "xs = takeWhile (\<lambda>a. fst a \<noteq> t) as"
  have t: "t \<in> fst ` set as" using assms(2) by (metis map_of_SomeD fst_conv image_eqI)
  have "attrs_bytes as = attrs_bytes xs @ nlattr (4 + length d) t @ d @ replicate ((4 - length d mod 4) mod 4) 0 @ attrs_bytes rest"
    using arg_cong [OF split, of attrs_bytes] by (simp add: attrs_bytes_def attr_bytes_def xs_def)
  then have "mem_get (pre @ attrs_bytes as @ post) (length pre + length (attrs_bytes xs) + 4) (length d) = d" by (simp add: mem_get_def)
  then show ?thesis using findAttr_attrs [OF assms(1) t, of pre post] by (auto simp: xs_def)
qed

text \<open>
  The \<open>CHECK\<close> of \<open>netlink_findAttr\<close> does not catch an absent attribute where zeros follow the region, as they do in
  the static buffer: the loop then stays at the region's end.
\<close>

lemma findAttr_absent_diverges:
  assumes "nla_len buf start = 0" "nla_type buf start \<noteq> t" "start \<le> regionEnd"
  shows "netlink_findAttr buf start regionEnd t = None"
proof (rule ccontr)
  assume "netlink_findAttr buf start regionEnd t \<noteq> None"
  then obtain r where "netlink_findAttr buf start regionEnd t = Some r" by blast
  then have "\<not> (nla_len buf start = 0 \<and> nla_type buf start \<noteq> t \<and> start \<le> regionEnd)"
    by (rule netlink_findAttr.raw_induct [where P = "\<lambda>b p e t y. \<not> (nla_len b p = 0 \<and> nla_type b p \<noteq> t \<and> p \<le> e)", rotated]) (auto simp: Let_def math_ALIGN_FORWARD_def split: if_splits, meson not_less)
  then show False using assms by simp
qed

section \<open>Requests for a family\<close>

text \<open>The length field of a family request counts its segments, padding included, as \<open>netlink_talk\<close> requires.\<close>

lemma requestFamily_length:
  assumes "length nameZ = nameLen + 1" "nameLen < 65000"
  defines "iov \<equiv> genetlink_requestFamily_iov nameZ nameLen"
  shows "nlmsg_len (hd iov) 0 = word_of_nat (length (concat iov))" "length (concat iov) mod 4 = 0"
proof -
  define pad where "pad = unat (math_PAD_BYTES (word_of_nat (nameLen + 1) :: u32) 4)"
  have pad: "pad = (4 - (nameLen + 1) mod 4) mod 4"
    using unat_PAD_BYTES [of 2 "word_of_nat (nameLen + 1) :: u32"] assms(2) by (simp add: pad_def unat_of_nat del: of_nat_add of_nat_Suc)
  then have "pad \<le> 3" by simp
  then have len: "length (concat iov) = 24 + (nameLen + 1) + pad" "24 + (nameLen + 1) + pad < 65536"
    using assms(1,2) by (simp_all add: iov_def genetlink_requestFamily_iov_def Let_def pad_def del: of_nat_add of_nat_Suc)
  show "nlmsg_len (hd iov) 0 = word_of_nat (length (concat iov))"
    unfolding len(1) using len(2) by (simp add: iov_def genetlink_requestFamily_iov_def Let_def pad_def del: of_nat_add of_nat_Suc)
  have "24 + a + p = 4 * (6 + d)" if "a + p = d * 4" for a p d :: nat using that by simp
  from this [OF pad4 [of "nameLen + 1", folded pad]] show "length (concat iov) mod 4 = 0" unfolding len(1) by (simp only: mod_mult_self1_is_0)
qed

section \<open>Attribute search\<close>

text \<open>
  C20: On a well-formed attribute list that contains the type, anywhere in the buffer and whatever surrounds it, \<open>netlink_findAttr\<close>
  returns, its \<open>CHECK\<close> holds, and the data behind the returned header is that of the first attribute of the type.
\<close>
theorem netlink_findAttr_correct:
  assumes "\<forall>a\<in>set as. attr_wf a" "map_of as t = Some d"
  shows "\<exists>p. netlink_findAttr (pre @ attrs_bytes as @ post) (length pre) (length pre + length (attrs_bytes as)) (word_of_nat t) = Some (Some p) \<and>
    nla_type (pre @ attrs_bytes as @ post) p = word_of_nat t \<and> unat (nla_len (pre @ attrs_bytes as @ post) p) = 4 + length d \<and>
    mem_get (pre @ attrs_bytes as @ post) (p + 4) (length d) = d"
proof -
  obtain rest where split: "as = takeWhile (\<lambda>a. fst a \<noteq> t) as @ (t, d) # rest" by (rule attrs_split [OF assms(2)])
  define xs where "xs = takeWhile (\<lambda>a. fst a \<noteq> t) as"
  have t: "t \<in> fst ` set as" using assms(2) by (metis map_of_SomeD fst_conv image_eqI)
  have wf: "attr_wf (t, d)" using assms(1) map_of_SomeD [OF assms(2)] by blast
  have bytes: "pre @ attrs_bytes as @ post = (pre @ attrs_bytes xs) @ attr_bytes (t, d) @ (attrs_bytes rest @ post)"
    using arg_cong [OF split, of attrs_bytes] by (simp add: attrs_bytes_def xs_def)
  note hdr = attr_header [OF wf, of "pre @ attrs_bytes xs" "attrs_bytes rest @ post", folded bytes]
  have "mem_get (pre @ attrs_bytes as @ post) (length (pre @ attrs_bytes xs) + 4) (length d) = d"
    unfolding bytes by (simp add: mem_get_def attr_bytes_def)
  moreover have "unat (word_of_nat (4 + length d) :: u16) = 4 + length d" using wf by (simp add: attr_wf_def unat_of_nat del: of_nat_add)
  ultimately show ?thesis
    using findAttr_attrs [OF assms(1) t, of pre post] hdr by (intro exI [of _ "length (pre @ attrs_bytes xs)"]) (simp add: xs_def)
qed

theorem netlink_findAttr_correct_witness:
  "\<exists>p. netlink_findAttr (attrs_bytes [(7, [1, 2, 3]), (3, [9])]) 0 (length (attrs_bytes [(7, [1, 2, 3]), (3, [9])])) 3 = Some (Some p)"
  using netlink_findAttr_correct [of "[(7, [1, 2, 3]), (3, [9])]" 3 "[9]" "[]" "[]"] by (auto simp: attr_wf_def)

end
