(* ===== verification/DhcpClient.thy ===== *)
theory DhcpClient
  imports Dhcp Netlink Util
begin

text \<open>
  The DHCP client of the router's WAN side, \<^verbatim>\<open>src/router/router/dhcpClient.c\<close>. The handlers take the shared buffer and the
  netlink socket's queue as state, the results of the checked system calls and the kernel's netlink side as parameters, and return the
  effects in the order they happen. A failed \<open>CHECK\<close>, which aborts the process, is \<open>None\<close>.
\<close>

section \<open>The code\<close>

record dhcpClient =
  client_fd :: int
  client_packetFd :: int
  client_timerFd :: int
  client_dnsIp :: u32
  client_currentIdentifier :: u32
  client_leasedIp :: u32
  client_renewServerIp :: u32
  client_ifIndex :: int
  client_routePriority :: u32
  client_ifName :: bytes
  client_ifMacAddress :: bytes
  client_leasedIpNetmask :: u8

text \<open>
  The effects: a datagram to an address and port, a link-level broadcast on an interface, a netlink request, arming the timer with a
  number of seconds, and output on standard error.
\<close>

datatype dhcpClient_effect =
    Send_to bytes nat bytes
  | Send_broadcast int bytes
  | Netlink_request bytes
  | Set_timer nat
  | Print bytes

text \<open>
  \<open>results\<close> are the results of the two \<open>ioctl\<close>, the two \<open>setsockopt\<close> and the \<open>bind\<close>
  call; \<open>ifName\<close> and \<open>hwAddr\<close> what the \<open>ioctl\<close> calls store in the request.
\<close>

definition dhcpClient_init :: "dhcpClient \<Rightarrow> int \<Rightarrow> u32 \<Rightarrow> int \<Rightarrow> int list \<Rightarrow> bytes \<Rightarrow> bytes \<Rightarrow> int \<Rightarrow> int \<Rightarrow> int \<Rightarrow> (dhcpClient \<times> dhcpClient_effect list) option" where
  "dhcpClient_init self ifIndex routePriority fd results ifName hwAddr packetFd timerFd settime =
     (let self = self\<lparr>client_dnsIp := 0, client_currentIdentifier := 0, client_leasedIp := 0, client_renewServerIp := 0,
                      client_leasedIpNetmask := 0, client_ifIndex := ifIndex, client_routePriority := routePriority, client_fd := fd\<rparr>
      in if \<not> fd > 0 then None
         else if \<not> list_all (\<lambda>r. r = 0) results then None
         else
           let self = self\<lparr>client_ifName := take 16 ifName, client_ifMacAddress := take 6 (drop 2 hwAddr), client_packetFd := packetFd\<rparr>
           in if \<not> packetFd > 0 then None
              else if \<not> timerFd > 0 then None
              else if settime \<noteq> 0 then None
              else Some (self\<lparr>client_timerFd := timerFd\<rparr>, [Set_timer 10]))"

text \<open>The message of the timer handler: header, message type, parameter list, end and padding as they lie in \<open>requestMsg\<close>.\<close>

definition dhcpClient_timerHdr :: "dhcpClient \<Rightarrow> dhcp_header" where
  "dhcpClient_timerHdr self = dhcp_header_zero\<lparr>
     hdr_opcode := dhcp_BOOTREQUEST, hdr_hwAddrType := dhcp_ETHERNET, hdr_hwAddrLen := 6,
     hdr_identifier := hc_BSWAP32 (client_currentIdentifier self),
     hdr_clientHwAddr := client_ifMacAddress self @ replicate 10 0,
     hdr_magicCookie := dhcp_MAGIC_COOKIE\<rparr>"

definition dhcpClient_timerMsg :: "dhcp_header \<Rightarrow> u8 \<Rightarrow> bytes" where
  "dhcpClient_timerMsg hdr messageType =
     dhcp_header_bytes hdr @
     dhcp_option_bytes \<lparr>opt_code = dhcp_MESSAGE_TYPE, opt_length = 1\<rparr> @ [messageType] @
     dhcp_option_bytes \<lparr>opt_code = dhcp_PARAM_REQUEST_LIST, opt_length = 3\<rparr> @ [dhcp_SUBNET_MASK, dhcp_ROUTER, dhcp_DNS] @
     [dhcp_END] @ [0, 0, 0]"

definition timerMsg_size :: nat where "timerMsg_size = 252"

text \<open>The IP and UDP headers that precede a DISCOVER.\<close>

definition u16_bytes :: "u16 \<Rightarrow> bytes" where "u16_bytes w = le_bytes 2 (unat w)"

definition dhcpClient_ipUdpHeader :: bytes where
  "dhcpClient_ipUdpHeader =
     [0x45, 0] @ u16_bytes (hc_BSWAP16 (word_of_nat (28 + timerMsg_size))) @ u16_bytes 0 @ u16_bytes (hc_BSWAP16 (push_bit 13 2)) @
     [64, 17] @ u16_bytes (hc_BSWAP16 0x39d6) @ ip_bytes 0 @ ip_bytes 0xFFFFFFFF @
     u16_bytes (hc_BSWAP16 68) @ u16_bytes (hc_BSWAP16 67) @ u16_bytes (hc_BSWAP16 (word_of_nat (8 + timerMsg_size))) @ u16_bytes 0"

text \<open>\<open>hc_PREPEND\<close>: writes in front of the position \<open>pos\<close> of the array \<open>m\<close>.\<close>

definition hc_PREPEND :: "bytes \<times> nat \<Rightarrow> bytes \<Rightarrow> bytes \<times> nat" where
  "hc_PREPEND mp buf = (let (m, pos) = mp; pos = pos - length buf in (mem_put m pos buf, pos))"

definition ifName_str :: "dhcpClient \<Rightarrow> bytes" where
  "ifName_str self = take (util_cstrLen (client_ifName self)) (client_ifName self)"

definition dhcpClient_lostPrint :: "dhcpClient \<Rightarrow> bytes" where
  "dhcpClient_lostPrint self =
     (let print = replicate (16 + 15) 0;
          mp = (print, length print);
          mp = hc_PREPEND mp (bytes_of '' lost IP lease'' @ [10]);
          mp = hc_PREPEND mp (ifName_str self)
      in drop (snd mp) (fst mp))"

definition dhcpClient_delAddr :: "dhcpClient \<Rightarrow> bytes" where
  "dhcpClient_delAddr self =
     nlmsghdr 32 RTM_DELADDR (NLM_F_REQUEST + NLM_F_ACK) 0 @ ifaddrmsg AF_INET 0 (client_ifIndex self) @
     nlattr (4 + 4) IFA_LOCAL @ ip_bytes (client_leasedIp self)"

text \<open>The branch of the timer handler without a lease to renew: drop the address that is still configured, if any, and send a DISCOVER.\<close>

definition dhcpClient_discover :: "(bytes \<Rightarrow> int \<times> bytes list) \<Rightarrow> dhcpClient \<Rightarrow> bytes \<times> bytes list \<Rightarrow> (dhcpClient \<times> (bytes \<times> bytes list) \<times> dhcpClient_effect list) option" where
  "dhcpClient_discover kern self st =
     (let msg = dhcpClient_timerMsg ((dhcpClient_timerHdr self)\<lparr>hdr_flags := hc_BSWAP16 0x8000\<rparr>) dhcp_DISCOVER;
          send = Send_broadcast (client_ifIndex self) (dhcpClient_ipUdpHeader @ msg)
      in if client_leasedIp self \<noteq> 0 then
           case netlink_talk kern st [dhcpClient_delAddr self] of None \<Rightarrow> None
           | Some st \<Rightarrow>
             Some (self\<lparr>client_leasedIp := 0\<rparr>, st,
                   [Print (dhcpClient_lostPrint self), Netlink_request (dhcpClient_delAddr self), send])
         else Some (self, st, [send]))"

definition dhcpClient_onTimerFd :: "(bytes \<Rightarrow> int \<times> bytes list) \<Rightarrow> dhcpClient \<Rightarrow> bytes \<times> bytes list \<Rightarrow> int \<Rightarrow> int \<Rightarrow> (dhcpClient \<times> (bytes \<times> bytes list) \<times> dhcpClient_effect list) option" where
  "dhcpClient_onTimerFd kern self st numRead settime =
     (if numRead \<noteq> 8 then None
      else
        let self = self\<lparr>client_currentIdentifier := client_currentIdentifier self + 1\<rparr>;
            result =
              (if client_leasedIp self \<noteq> 0 \<and> client_renewServerIp self \<noteq> 0 then
                 let msg = dhcpClient_timerMsg ((dhcpClient_timerHdr self)\<lparr>hdr_clientIp := ip_bytes (client_leasedIp self)\<rparr>) dhcp_REQUEST
                 in Some (self\<lparr>client_renewServerIp := 0\<rparr>, st, [Send_to (ip_bytes (client_renewServerIp self)) 67 msg])
               else dhcpClient_discover kern self st)
        in case result of None \<Rightarrow> None
           | Some (self, st, effects) \<Rightarrow>
             if settime \<noteq> 0 then None else Some (self, st, effects @ [Set_timer 10]))"

text \<open>The options the packet handler looks for, as offsets into the buffer.\<close>

record dhcpClient_options =
  opt_messageType :: "nat option"
  opt_subnetMask :: "nat option"
  opt_router :: "nat option"
  opt_dns :: "nat option"
  opt_leaseTime :: "nat option"

definition dhcpClient_visit :: "bytes \<Rightarrow> nat \<Rightarrow> dhcpClient_options \<Rightarrow> dhcpClient_options" where
  "dhcpClient_visit buf current s =
     (let code = buf ! current; len = buf ! (current + 1)
      in if code = dhcp_MESSAGE_TYPE then if len = 1 then s\<lparr>opt_messageType := Some current\<rparr> else s
         else if code = dhcp_SUBNET_MASK then if len = 4 then s\<lparr>opt_subnetMask := Some current\<rparr> else s
         else if code = dhcp_ROUTER then if len \<ge> 4 then s\<lparr>opt_router := Some current\<rparr> else s
         else if code = dhcp_DNS then if len \<ge> 4 then s\<lparr>opt_dns := Some current\<rparr> else s
         else if code = dhcp_LEASE_TIME then if len = 4 then s\<lparr>opt_leaseTime := Some current\<rparr> else s
         else s)"

definition dhcpClient_findOptions :: "bytes \<Rightarrow> nat \<Rightarrow> dhcpClient_options" where
  "dhcpClient_findOptions buf packetEnd =
     dhcp_walk (dhcpClient_visit buf) buf packetEnd dhcp_header_size
       \<lparr>opt_messageType = None, opt_subnetMask = None, opt_router = None, opt_dns = None, opt_leaseTime = None\<rparr>"

text \<open>The answer to an OFFER.\<close>

definition dhcpClient_requestMsg :: "dhcpClient \<Rightarrow> bytes \<Rightarrow> nat \<Rightarrow> bytes" where
  "dhcpClient_requestMsg self buf leaseTime =
     (let hdr = dhcp_header_zero\<lparr>
            hdr_opcode := dhcp_BOOTREQUEST, hdr_hwAddrType := dhcp_ETHERNET, hdr_hwAddrLen := 6,
            hdr_identifier := hc_BSWAP32 (client_currentIdentifier self), hdr_flags := hc_BSWAP16 0x8000,
            hdr_clientHwAddr := client_ifMacAddress self @ replicate 10 0,
            hdr_magicCookie := dhcp_MAGIC_COOKIE\<rparr>
      in dhcp_header_bytes hdr @
         dhcp_option_bytes \<lparr>opt_code = dhcp_MESSAGE_TYPE, opt_length = 1\<rparr> @ [dhcp_REQUEST] @
         dhcp_option_bytes \<lparr>opt_code = dhcp_PARAM_REQUEST_LIST, opt_length = 3\<rparr> @ [dhcp_SUBNET_MASK, dhcp_ROUTER, dhcp_DNS] @
         dhcp_option_bytes \<lparr>opt_code = dhcp_LEASE_TIME, opt_length = 4\<rparr> @ mem_get buf (leaseTime + 2) 4 @
         dhcp_option_bytes \<lparr>opt_code = dhcp_SERVER_IDENTIFIER, opt_length = 4\<rparr> @ pkt_serverIp buf @
         dhcp_option_bytes \<lparr>opt_code = dhcp_REQUESTED_IP_ADDRESS, opt_length = 4\<rparr> @ pkt_yourIp buf @
         [dhcp_END] @ [0])"

definition hc_POPCOUNT32 :: "u32 \<Rightarrow> nat" where
  "hc_POPCOUNT32 w = length (filter (bit w) [0..<32])"

text \<open>The text that reports a new lease; \<open>print\<close> has room for 48 characters.\<close>

definition prepend_uint :: "bytes \<times> nat \<Rightarrow> u8 \<Rightarrow> bytes \<times> nat" where
  "prepend_uint mp n = util_uintToStr (fst mp) (snd mp) (ucast n)"

definition dhcpClient_leasedPrint :: "dhcpClient \<Rightarrow> bytes" where
  "dhcpClient_leasedPrint self =
     (let print = replicate (16 + 12 + 3 + 1 + 3 + 1 + 3 + 1 + 3 + 1 + 3 + 1) 0;
          ip = ip_bytes (client_leasedIp self);
          mp = (print, length print);
          mp = hc_PREPEND mp [10];
          mp = prepend_uint mp (client_leasedIpNetmask self);
          mp = hc_PREPEND mp (bytes_of ''/'');
          mp = prepend_uint mp (ip ! 3);
          mp = hc_PREPEND mp (bytes_of ''.'');
          mp = prepend_uint mp (ip ! 2);
          mp = hc_PREPEND mp (bytes_of ''.'');
          mp = prepend_uint mp (ip ! 1);
          mp = hc_PREPEND mp (bytes_of ''.'');
          mp = prepend_uint mp (ip ! 0);
          mp = hc_PREPEND mp (bytes_of '' leased IP: '');
          mp = hc_PREPEND mp (ifName_str self)
      in drop (snd mp) (fst mp))"

definition dhcpClient_newAddr :: "dhcpClient \<Rightarrow> bytes \<Rightarrow> bytes" where
  "dhcpClient_newAddr self yourIp =
     nlmsghdr 32 RTM_NEWADDR (NLM_F_REQUEST + NLM_F_ACK + NLM_F_CREATE + NLM_F_REPLACE) 0 @
     ifaddrmsg AF_INET (client_leasedIpNetmask self) (client_ifIndex self) @
     nlattr (4 + 4) IFA_LOCAL @ yourIp"

definition dhcpClient_newRoute :: "dhcpClient \<Rightarrow> bytes \<Rightarrow> bytes" where
  "dhcpClient_newRoute self gateway =
     nlmsghdr 44 RTM_NEWROUTE (NLM_F_REQUEST + NLM_F_ACK + NLM_F_CREATE + NLM_F_REPLACE) 0 @
     rtmsg AF_INET 0 RT_TABLE_MAIN 0 RT_SCOPE_UNIVERSE RTN_UNICAST @
     nlattr (4 + 4) RTA_GATEWAY @ gateway @
     nlattr (4 + 4) RTA_PRIORITY @ le_bytes 4 (unat (client_routePriority self))"

text \<open>
  The ACK: the requests to the kernel overwrite the start of the buffer in which the packet still lies, and the router option is
  read after the first of them.
\<close>

definition dhcpClient_onAck ::
  "(bytes \<Rightarrow> int \<times> bytes list) \<Rightarrow> dhcpClient \<Rightarrow> bytes \<times> bytes list \<Rightarrow> dhcpClient_options \<Rightarrow> int \<Rightarrow> (dhcpClient \<times> (bytes \<times> bytes list) \<times> dhcpClient_effect list) option" where
  "dhcpClient_onAck kern self st options settime =
     (case (opt_subnetMask options, opt_router options, opt_leaseTime options) of
        (Some subnetMask, Some router, Some leaseTime) \<Rightarrow>
          (let buf = fst st;
               self = self\<lparr>client_dnsIp := (case opt_dns options of Some dns \<Rightarrow> mem_loadU32 (drop (dns + 2) buf) | None \<Rightarrow> 0)\<rparr>;
               leaseTimeValue = hc_BSWAP32 (mem_loadU32 (drop (leaseTime + 2) buf));
               timer = unat ((leaseTimeValue + 1) div 2)
           in if settime \<noteq> 0 then None
              else
                let netmask = mem_loadU32 (drop (subnetMask + 2) buf);
                    self = self\<lparr>client_leasedIpNetmask := word_of_nat (hc_POPCOUNT32 netmask), client_renewServerIp := mem_loadU32 (pkt_serverIp buf)\<rparr>;
                    changed = (mem_compare (ip_bytes (client_leasedIp self)) (pkt_yourIp buf) 4 \<noteq> 0);
                    self = (if changed then self\<lparr>client_leasedIp := mem_loadU32 (pkt_yourIp buf)\<rparr> else self);
                    prints = (if changed then [Print (dhcpClient_leasedPrint self)] else []);
                    addr = dhcpClient_newAddr self (pkt_yourIp buf)
                in case netlink_talk kern st [addr] of None \<Rightarrow> None
                   | Some st \<Rightarrow>
                     let route = dhcpClient_newRoute self (mem_get (fst st) (router + 2) 4)
                     in case netlink_talk kern st [route] of None \<Rightarrow> None
                        | Some st \<Rightarrow> Some (self, st, [Set_timer timer] @ prints @ [Netlink_request addr, Netlink_request route]))
      | _ \<Rightarrow> Some (self, st, []))"

definition dhcpClient_onFd ::
  "(bytes \<Rightarrow> int \<times> bytes list) \<Rightarrow> dhcpClient \<Rightarrow> bytes \<times> bytes list \<Rightarrow> int \<Rightarrow> int \<Rightarrow> (dhcpClient \<times> (bytes \<times> bytes list) \<times> dhcpClient_effect list) option" where
  "dhcpClient_onFd kern self st numRead settime =
     (let buf = fst st
      in if numRead < int dhcp_header_size then Some (self, st, [])
         else if mem_compare (pkt_clientHwAddr buf) (client_ifMacAddress self) 6 \<noteq> 0 then Some (self, st, [])
         else
           let options = dhcpClient_findOptions buf (nat numRead)
           in case opt_messageType options of None \<Rightarrow> Some (self, st, [])
              | Some messageType \<Rightarrow>
                if buf ! (messageType + 2) = dhcp_OFFER then
                  case opt_leaseTime options of None \<Rightarrow> Some (self, st, [])
                  | Some leaseTime \<Rightarrow>
                    if settime \<noteq> 0 then None
                    else Some (self, st, [Send_to [255, 255, 255, 255] 67 (dhcpClient_requestMsg self buf leaseTime), Set_timer 10])
                else if buf ! (messageType + 2) = dhcp_NAK then
                  if settime \<noteq> 0 then None else Some (self, st, [Set_timer 5])
                else if buf ! (messageType + 2) = dhcp_ACK then dhcpClient_onAck kern self st options settime
                else Some (self, st, []))"

text \<open>The descriptors that are closed.\<close>

definition dhcpClient_deinit :: "dhcpClient \<Rightarrow> int list" where
  "dhcpClient_deinit self = [client_timerFd self, client_fd self]"

section \<open>Well-formed clients\<close>

definition client_wf :: "dhcpClient \<Rightarrow> bool" where
  "client_wf self \<longleftrightarrow> length (client_ifName self) = 16 \<and> 0 \<in> set (client_ifName self) \<and> length (client_ifMacAddress self) = 6 \<and>
     unat (client_leasedIpNetmask self) \<le> 32"

text \<open>The states a client can be in; the name that the kernel reports is terminated.\<close>

inductive dhcpClient_reach :: "dhcpClient \<Rightarrow> bool" where
  init: "\<lbrakk>length ifName = 16; 0 \<in> set ifName; length hwAddr = 16;
      dhcpClient_init self0 ifIndex routePriority fd results ifName hwAddr packetFd timerFd settime = Some (self, effects)\<rbrakk> \<Longrightarrow> dhcpClient_reach self"
| timer: "\<lbrakk>dhcpClient_reach self; dhcpClient_onTimerFd kern self st numRead settime = Some (self', st', effects)\<rbrakk> \<Longrightarrow> dhcpClient_reach self'"
| packet: "\<lbrakk>dhcpClient_reach self; dhcpClient_onFd kern self st numRead settime = Some (self', st', effects)\<rbrakk> \<Longrightarrow> dhcpClient_reach self'"

lemma popcount_le: "hc_POPCOUNT32 w \<le> 32"
  using length_filter_le [of "bit w" "[0..<32]"] by (simp add: hc_POPCOUNT32_def)

lemma onAck_wf:
  assumes "client_wf self" "dhcpClient_onAck kern self st options settime = Some (self', st', effects)"
  shows "client_wf self'"
proof -
  have netmask: "unat (word_of_nat (hc_POPCOUNT32 w) :: u8) \<le> 32" for w
    using popcount_le [of w] by (simp add: unat_of_nat)
  show ?thesis
    using assms by (auto simp: dhcpClient_onAck_def Let_def client_wf_def netmask split: option.splits if_splits)
qed

lemma onFd_wf:
  assumes "client_wf self" "dhcpClient_onFd kern self st numRead settime = Some (self', st', effects)"
  shows "client_wf self'"
  using assms onAck_wf [OF assms(1)] by (auto simp: dhcpClient_onFd_def Let_def split: option.splits if_splits)

lemma onTimerFd_wf:
  assumes "client_wf self" "dhcpClient_onTimerFd kern self st numRead settime = Some (self', st', effects)"
  shows "client_wf self'"
  using assms by (auto simp: dhcpClient_onTimerFd_def dhcpClient_discover_def Let_def client_wf_def split: option.splits if_splits)

lemma client_reach_wf: "dhcpClient_reach self \<Longrightarrow> client_wf self"
proof (induction rule: dhcpClient_reach.induct)
  case init
  then show ?case by (auto simp: dhcpClient_init_def Let_def client_wf_def split: if_splits)
qed (blast intro: onTimerFd_wf onFd_wf)+

section \<open>The printed texts\<close>

text \<open>A text that has been written backwards up to the end of an array of \<open>n\<close> characters.\<close>

definition written :: "nat \<Rightarrow> bytes \<times> nat \<Rightarrow> bytes \<Rightarrow> bool" where
  "written n mp text \<longleftrightarrow> length (fst mp) = n \<and> snd mp + length text = n \<and> drop (snd mp) (fst mp) = text"

definition dec_str :: "u8 \<Rightarrow> bytes" where
  "dec_str k = map dec_char (digits (unat k))"

lemma written_prepend:
  assumes "written n mp text" "length (bs @ text) \<le> n"
  shows "written n (hc_PREPEND mp bs) (bs @ text)"
  using assms by (cases mp) (auto simp: written_def hc_PREPEND_def mem_put_def Let_def)

lemma written_first:
  assumes "length bs \<le> n"
  shows "written n (hc_PREPEND (replicate n 0, n) bs) bs"
  using written_prepend [of n "(replicate n 0, n)" "[]" bs] assms by (simp add: written_def)

lemma length_dec_str: "length (dec_str k) \<le> 3"
  using length_digits_le [of "unat k" 2] unat_less_width(1) [of k] by (simp add: dec_str_def numeral_3_eq_3)

lemma written_uint:
  assumes "written n mp text" "length (dec_str k @ text) \<le> n"
  shows "written n (prepend_uint mp k) (dec_str k @ text)"
proof -
  obtain m pos where mp: "mp = (m, pos)" by (cases mp)
  have k: "unat (ucast k :: u64) = unat k" by (simp add: unat_ucast_up)
  have "prepend_uint mp k = hc_PREPEND mp (dec_str k)"
    using assms uintToStr_eq [of "ucast k" pos m] unfolding mp k
    by (simp add: prepend_uint_def hc_PREPEND_def dec_str_def written_def Let_def)
  then show ?thesis using written_prepend [OF assms] by simp
qed

lemma written_text: "written n mp text \<Longrightarrow> drop (snd mp) (fst mp) = text"
  by (simp add: written_def)

lemma cstrLen_less: "0 \<in> set s \<Longrightarrow> util_cstrLen s < length s"
  by (induction s) auto

lemma length_ifName_str: "client_wf self \<Longrightarrow> length (ifName_str self) \<le> 15"
  using cstrLen_less [of "client_ifName self"] by (auto simp: client_wf_def ifName_str_def)

lemma lostPrint_text:
  assumes "client_wf self"
  shows "dhcpClient_lostPrint self = ifName_str self @ bytes_of '' lost IP lease'' @ [10]"
  unfolding dhcpClient_lostPrint_def Let_def length_replicate
  by (rule written_text [where n = "16 + 15"], rule written_prepend, rule written_first) (use length_ifName_str [OF assms] in simp_all)

lemma leasedPrint_text:
  assumes "client_wf self"
  defines "ip \<equiv> ip_bytes (client_leasedIp self)"
  shows "dhcpClient_leasedPrint self =
    ifName_str self @ bytes_of '' leased IP: '' @ dec_str (ip ! 0) @ bytes_of ''.'' @ dec_str (ip ! 1) @ bytes_of ''.'' @
    dec_str (ip ! 2) @ bytes_of ''.'' @ dec_str (ip ! 3) @ bytes_of ''/'' @ dec_str (client_leasedIpNetmask self) @ [10]"
proof -
  note le = length_dec_str [of "ip ! 0"] length_dec_str [of "ip ! 1"] length_dec_str [of "ip ! 2"] length_dec_str [of "ip ! 3"]
    length_dec_str [of "client_leasedIpNetmask self"] length_ifName_str [OF assms(1)]
  show ?thesis
    unfolding dhcpClient_leasedPrint_def Let_def length_replicate ip_def [symmetric]
    by (rule written_text [where n = "16 + 12 + 3 + 1 + 3 + 1 + 3 + 1 + 3 + 1 + 3 + 1"], (rule written_uint written_prepend)+, rule written_first)
      (use le in simp_all)
qed

section \<open>The DISCOVER datagram\<close>

text \<open>Big-endian 16-bit fields, and the one's complement sum of RFC 1071 over them, which is \<open>0xFFFF\<close> for an intact IP header.\<close>

definition be16 :: "bytes \<Rightarrow> nat \<Rightarrow> nat" where
  "be16 p i = 256 * unat (p ! i) + unat (p ! (i + 1))"

definition ones_sum :: "bytes \<Rightarrow> nat" where
  "ones_sum p = (let s = sum_list (map (\<lambda>i. be16 p (2 * i)) [0..<length p div 2]) in s mod 65536 + s div 65536)"

lemma ipUdpHeader_eq:
  "dhcpClient_ipUdpHeader = [0x45, 0, 1, 0x18, 0, 0, 0x40, 0, 64, 17, 0x39, 0xd6, 0, 0, 0, 0, 255, 255, 255, 255, 0, 68, 0, 67, 1, 4, 0, 0]"
  by (simp add: dhcpClient_ipUdpHeader_def u16_bytes_def hc_BSWAP16_def ip_bytes_def timerMsg_size_def le_bytes_2 le_bytes_4)

lemma ipUdpHeader_fields:
  "length dhcpClient_ipUdpHeader = 28" "ones_sum (take 20 dhcpClient_ipUdpHeader) = 0xFFFF"
  "be16 dhcpClient_ipUdpHeader 2 = 280" "be16 dhcpClient_ipUdpHeader 24 = 260"
  by (simp_all add: ipUdpHeader_eq ones_sum_def be16_def upt_rec)

lemma timerHdr_wf:
  assumes "client_wf self"
  shows "dhcp_header_wf ((dhcpClient_timerHdr self)\<lparr>hdr_flags := fl\<rparr>)" "dhcp_header_wf ((dhcpClient_timerHdr self)\<lparr>hdr_clientIp := ip_bytes ip\<rparr>)"
  using assms by (simp_all add: dhcp_header_wf_def dhcpClient_timerHdr_def dhcp_header_zero_def client_wf_def)

lemma timerMsg_fields:
  assumes "dhcp_header_wf h"
  shows "length (dhcpClient_timerMsg h t) = timerMsg_size" "dhcpClient_timerMsg h t ! 242 = t"
    "pkt_identifier (dhcpClient_timerMsg h t) = hdr_identifier h" "pkt_clientHwAddr (dhcpClient_timerMsg h t) = hdr_clientHwAddr h"
  using assms header_fields [OF assms, of "dhcpClient_timerMsg h t"]
  by (simp_all add: dhcpClient_timerMsg_def timerMsg_size_def dhcp_option_bytes_def nth_append)

definition discoverMsg :: "dhcpClient \<Rightarrow> bytes" where
  "discoverMsg self = dhcpClient_timerMsg ((dhcpClient_timerHdr self)\<lparr>hdr_flags := hc_BSWAP16 0x8000\<rparr>) dhcp_DISCOVER"

lemma discoverMsg_fields:
  assumes "client_wf self"
  shows "length (discoverMsg self) = 252" "discoverMsg self ! 242 = dhcp_DISCOVER"
    "pkt_identifier (discoverMsg self) = hc_BSWAP32 (client_currentIdentifier self)"
    "take 6 (pkt_clientHwAddr (discoverMsg self)) = client_ifMacAddress self"
  using timerMsg_fields [OF timerHdr_wf(1) [OF assms]] assms
  by (simp_all add: discoverMsg_def timerMsg_size_def dhcpClient_timerHdr_def client_wf_def)

text \<open>The branch that sends a DISCOVER, in one equation: the client gives up its address and asks for a new one.\<close>

lemma onTimerFd_discover:
  assumes "client_leasedIp self = 0 \<or> client_renewServerIp self = 0"
    and "dhcpClient_onTimerFd kern self st numRead settime = Some (self', st', effects)"
  defines "self1 \<equiv> self\<lparr>client_currentIdentifier := client_currentIdentifier self + 1\<rparr>"
  shows "self' = self1\<lparr>client_leasedIp := 0\<rparr>"
    "effects = (if client_leasedIp self = 0 then [] else [Print (dhcpClient_lostPrint self1), Netlink_request (dhcpClient_delAddr self1)]) @
       [Send_broadcast (client_ifIndex self) (dhcpClient_ipUdpHeader @ discoverMsg self1), Set_timer 10]"
  using assms(1,2)
  by (auto simp: dhcpClient_onTimerFd_def dhcpClient_discover_def discoverMsg_def self1_def Let_def split: option.splits if_splits)

lemma delAddr_len: "nlmsg_len (dhcpClient_delAddr self) 0 = word_of_nat (length (dhcpClient_delAddr self))" "length (dhcpClient_delAddr self) = 32"
  by (simp_all add: dhcpClient_delAddr_def)

lemma onTimerFd_runs:
  assumes "kernel_acks kern" "length buf = buffer_size"
  obtains self' buf' effects where "dhcpClient_onTimerFd kern self (buf, []) 8 0 = Some (self', (buf', []), effects @ [Set_timer 10])"
    "length buf' = buffer_size"
proof -
  define self1 where "self1 = self\<lparr>client_currentIdentifier := client_currentIdentifier self + 1\<rparr>"
  obtain ack where talk: "netlink_talk kern (buf, []) [dhcpClient_delAddr self1] = Some (mem_put buf 0 ack, [])" "netlink_ack ack"
    using talk_single [OF assms delAddr_len(1), of self1] by (auto simp: delAddr_len)
  have len: "length (mem_put buf 0 ack) = buffer_size" using talk(2) assms(2) by (simp add: netlink_ack_def buffer_size_def)
  obtain self' buf' e where "(if client_leasedIp self1 \<noteq> 0 \<and> client_renewServerIp self1 \<noteq> 0
      then Some (self1\<lparr>client_renewServerIp := 0\<rparr>, (buf, []),
        [Send_to (ip_bytes (client_renewServerIp self1)) 67 (dhcpClient_timerMsg ((dhcpClient_timerHdr self1)\<lparr>hdr_clientIp := ip_bytes (client_leasedIp self1)\<rparr>) dhcp_REQUEST)])
      else dhcpClient_discover kern self1 (buf, [])) = Some (self', (buf', []), e)" "length buf' = buffer_size"
    using len talk(1) assms(2)
    by (cases "client_leasedIp self1 = 0"; cases "client_renewServerIp self1 = 0") (auto simp: dhcpClient_discover_def Let_def)
  then show thesis using that unfolding dhcpClient_onTimerFd_def self1_def [symmetric] Let_def by simp
qed

section \<open>The ACK\<close>

text \<open>The state after an ACK, and the whole effect of one: the kernel's answers do not reach the router option, which lies behind the header.\<close>

definition acked :: "dhcpClient \<Rightarrow> bytes \<Rightarrow> dhcpClient_options \<Rightarrow> nat \<Rightarrow> dhcpClient" where
  "acked self buf options subnetMask = self\<lparr>
     client_dnsIp := (case opt_dns options of Some dns \<Rightarrow> mem_loadU32 (drop (dns + 2) buf) | None \<Rightarrow> 0),
     client_leasedIpNetmask := word_of_nat (hc_POPCOUNT32 (mem_loadU32 (drop (subnetMask + 2) buf))),
     client_renewServerIp := mem_loadU32 (pkt_serverIp buf), client_leasedIp := mem_loadU32 (pkt_yourIp buf)\<rparr>"

lemma newAddr_len: "length y = 4 \<Longrightarrow> nlmsg_len (dhcpClient_newAddr self y) 0 = word_of_nat (length (dhcpClient_newAddr self y))" "length y = 4 \<Longrightarrow> length (dhcpClient_newAddr self y) = 32"
  by (simp_all add: dhcpClient_newAddr_def)

lemma newRoute_len: "length g = 4 \<Longrightarrow> nlmsg_len (dhcpClient_newRoute self g) 0 = word_of_nat (length (dhcpClient_newRoute self g))" "length g = 4 \<Longrightarrow> length (dhcpClient_newRoute self g) = 44"
  by (simp_all add: dhcpClient_newRoute_def)

lemma onAck_run:
  fixes self :: dhcpClient
  assumes "kernel_acks kern" "length buf = buffer_size" "opt_subnetMask options = Some sm" "opt_router options = Some r" "opt_leaseTime options = Some lt"
    and "240 \<le> r" "r + 6 \<le> buffer_size"
  defines "self' \<equiv> acked self buf options sm"
  shows "\<exists>st'. dhcpClient_onAck kern self (buf, []) options 0 = Some (self', st',
    [Set_timer (unat ((hc_BSWAP32 (mem_loadU32 (drop (lt + 2) buf)) + 1) div 2))] @
    (if client_leasedIp self = client_leasedIp self' then [] else [Print (dhcpClient_leasedPrint self')]) @
    [Netlink_request (dhcpClient_newAddr self' (pkt_yourIp buf)), Netlink_request (dhcpClient_newRoute self' (mem_get buf (r + 2) 4))])"
proof -
  have y: "length (pkt_yourIp buf) = 4" using assms(2) by (simp add: pkt_yourIp_def buffer_size_def)
  have same: "mem_compare (ip_bytes (client_leasedIp self)) (pkt_yourIp buf) 4 = 0 \<longleftrightarrow> client_leasedIp self = mem_loadU32 (pkt_yourIp buf)"
    using mem_compare_eq_0_iff [of 4 "ip_bytes (client_leasedIp self)" "pkt_yourIp buf"] y by (auto simp: ip_bytes_load) (metis load_ip_bytes(2))
  obtain ack where talk: "netlink_talk kern (buf, []) [dhcpClient_newAddr self' (pkt_yourIp buf)] = Some (mem_put buf 0 ack, [])" and ack: "length ack = 36"
    using talk_single [OF assms(1,2) newAddr_len(1) [OF y], of self'] by (auto simp: newAddr_len [OF y] netlink_ack_def)
  have buf1: "length (mem_put buf 0 ack) = buffer_size" using ack assms(2) by (simp add: buffer_size_def)
  define gateway where "gateway = mem_get buf (r + 2) 4"
  have gw: "mem_get (mem_put buf 0 ack) (r + 2) 4 = gateway"
    unfolding gateway_def using assms(2,6,7) ack by (intro mem_get_put_disjoint) (auto simp: buffer_size_def)
  have g: "length gateway = 4" unfolding gateway_def using assms(2,7) by (intro length_mem_get) simp
  obtain st' where talk2: "netlink_talk kern (mem_put buf 0 ack, []) [dhcpClient_newRoute self' gateway] = Some st'"
    using talk_single [OF assms(1) buf1 newRoute_len(1) [OF g], of self'] by (auto simp: newRoute_len [OF g])
  define s2 where "s2 = self\<lparr>client_dnsIp := (case opt_dns options of Some dns \<Rightarrow> mem_loadU32 (drop (dns + 2) buf) | None \<Rightarrow> 0),
      client_leasedIpNetmask := word_of_nat (hc_POPCOUNT32 (mem_loadU32 (drop (sm + 2) buf))), client_renewServerIp := mem_loadU32 (pkt_serverIp buf)\<rparr>"
  define changed where "changed = (mem_compare (ip_bytes (client_leasedIp s2)) (pkt_yourIp buf) 4 \<noteq> 0)"
  have changed: "changed \<longleftrightarrow> client_leasedIp self \<noteq> client_leasedIp self'" using same by (simp add: changed_def s2_def self'_def acked_def)
  have s2: "(if changed then s2\<lparr>client_leasedIp := mem_loadU32 (pkt_yourIp buf)\<rparr> else s2) = self'"
    using changed by (simp add: s2_def self'_def acked_def)
  show ?thesis
    unfolding dhcpClient_onAck_def assms(3-5) option.case prod.case Let_def fst_conv if_not_P [OF not_not [THEN iffD2, OF refl]] s2_def [symmetric] changed_def [symmetric] s2
      gateway_def [symmetric]
    using talk talk2 changed by (simp del: add_2_eq_Suc' add: gw)
qed

section \<open>Bytes behind the packet\<close>

interpretation client_visit: option_visitor dhcpClient_visit
  by unfold_locales (auto simp: dhcpClient_visit_def Let_def nth_take_eq)

text \<open>Every option that is found lies behind the header and, with the data the handler uses, inside the packet.\<close>

definition options_inside :: "nat \<Rightarrow> dhcpClient_options \<Rightarrow> bool" where
  "options_inside e s \<longleftrightarrow> pred_option (\<lambda>c. c + 2 < e) (opt_messageType s) \<and> pred_option (\<lambda>c. c + 6 \<le> e) (opt_subnetMask s) \<and>
     pred_option (\<lambda>c. 240 \<le> c \<and> c + 6 \<le> e) (opt_router s) \<and> pred_option (\<lambda>c. c + 6 \<le> e) (opt_dns s) \<and> pred_option (\<lambda>c. c + 6 \<le> e) (opt_leaseTime s)"

lemma client_options_inside: "options_inside e (dhcpClient_findOptions buf e)"
  unfolding dhcpClient_findOptions_def
proof (rule walk_invariant [where lo = 240])
  fix c s
  assume s: "options_inside e s" and c: "240 \<le> c" "c + 2 + unat (buf ! (c + 1)) \<le> e"
  have "4 \<le> unat (buf ! (c + 1))" if "4 \<le> buf ! (c + 1)" using that by (simp add: word_le_nat_alt)
  then show "options_inside e (dhcpClient_visit buf c s)"
    using s c by (auto simp: dhcpClient_visit_def options_inside_def Let_def)
qed (simp_all add: options_inside_def dhcp_header_size_def)

lemma onAck_stale:
  assumes "kernel_acks kern" "take e b = take e b'" "length b = buffer_size" "length b' = buffer_size" "dhcp_header_size \<le> e" "e \<le> buffer_size" "options_inside e options"
  shows "map_option (\<lambda>(self, st, effects). (self, effects)) (dhcpClient_onAck kern self (b, []) options settime) =
    map_option (\<lambda>(self, st, effects). (self, effects)) (dhcpClient_onAck kern self (b', []) options settime)"
proof (cases "opt_subnetMask options = None \<or> opt_router options = None \<or> opt_leaseTime options = None \<or> settime \<noteq> 0")
  case True
  then show ?thesis by (auto simp: dhcpClient_onAck_def Let_def split: option.splits)
next
  case False
  then obtain sm r lt where o: "opt_subnetMask options = Some sm" "opt_router options = Some r" "opt_leaseTime options = Some lt" and st: "settime = 0" by auto
  have inside: "sm + 6 \<le> e" "240 \<le> r" "r + 6 \<le> e" "lt + 6 \<le> e" "\<And>d. opt_dns options = Some d \<Longrightarrow> d + 6 \<le> e"
    using assms(7) o by (simp_all add: options_inside_def)
  have r: "r + 6 \<le> buffer_size" using inside(3) assms(6) by simp
  note pkt = pkt_take_eq [OF assms(2,5)] and load = load_take_eq [OF assms(2)]
  have eq: "acked self b options sm = acked self b' options sm" "mem_loadU32 (drop (lt + 2) b) = mem_loadU32 (drop (lt + 2) b')"
    "mem_get b (r + 2) 4 = mem_get b' (r + 2) 4"
    using load [of "sm + 2"] load [of "lt + 2"] load mem_get_take_eq [OF assms(2), of "r + 2" 4] inside by (auto simp: acked_def pkt split: option.splits)
  show ?thesis
    using onAck_run [OF assms(1,3) o inside(2) r, of self] onAck_run [OF assms(1,4) o inside(2) r, of self] eq by (auto simp: st pkt)
qed

lemma client_onFd_stale:
  assumes "kernel_acks kern" "take n b = take n b'" "length b = buffer_size" "length b' = buffer_size" "n \<le> buffer_size"
  shows "map_option (\<lambda>(self, st, effects). (self, effects)) (dhcpClient_onFd kern self (b, []) (int n) settime) =
    map_option (\<lambda>(self, st, effects). (self, effects)) (dhcpClient_onFd kern self (b', []) (int n) settime)"
proof (cases "dhcp_header_size \<le> n")
  case True
  note pkt = pkt_take_eq [OF assms(2) True]
  define options where "options = dhcpClient_findOptions b n"
  have opts: "dhcpClient_findOptions b' n = options"
    unfolding options_def dhcpClient_findOptions_def by (rule client_visit.walk_local [symmetric]) (use assms in simp_all)
  have inside: "options_inside n options" unfolding options_def by (rule client_options_inside)
  have mt: "b ! (mt + 2) = b' ! (mt + 2)" if "opt_messageType options = Some mt" for mt
    using nth_take_eq [OF assms(2)] inside that by (simp add: options_inside_def)
  have request: "dhcpClient_requestMsg self b lt = dhcpClient_requestMsg self b' lt" if "opt_leaseTime options = Some lt" for lt
    using mem_get_take_eq [OF assms(2), of "lt + 2" 4] inside that by (simp add: dhcpClient_requestMsg_def Let_def pkt options_inside_def)
  note ack = onAck_stale [OF assms(1-4) True assms(5) inside, of self settime]
  show ?thesis
    using True mt request ack unfolding dhcpClient_onFd_def Let_def fst_conv nat_int opts options_def [symmetric] pkt
    by (auto split: option.splits)
next
  case False
  then show ?thesis by (simp add: dhcpClient_onFd_def)
qed

section \<open>Discovery and recovery\<close>

text \<open>
  C11: When the timer of a client without a lease, or with one it failed to renew, fires, the client sends one broadcast datagram
  as its last action before it arms the timer again, and holds no address. The datagram is a valid IP packet: its length field and that of its
  UDP header count the bytes sent, and the precalculated checksum is right, that is, the 16-bit words of the header sum up to \<open>0xFFFF\<close>.
  Its payload is a DISCOVER of 252 bytes with a new identifier and the hardware address of the interface.
\<close>
theorem dhcpClient_discover_correct:
  assumes "dhcpClient_reach self" "client_leasedIp self = 0 \<or> client_renewServerIp self = 0"
    and "dhcpClient_onTimerFd kern self st numRead settime = Some (self', st', effects)"
  shows "client_leasedIp self' = 0 \<and> (\<exists>before ip msg. effects = before @ [Send_broadcast (client_ifIndex self) (ip @ msg), Set_timer 10] \<and>
    length ip = 28 \<and> ones_sum (take 20 ip) = 0xFFFF \<and> be16 ip 2 = length (ip @ msg) \<and> be16 ip 24 = 8 + length msg \<and> length msg = 252 \<and>
    msg ! 242 = dhcp_DISCOVER \<and> pkt_identifier msg = hc_BSWAP32 (client_currentIdentifier self + 1) \<and>
    take 6 (pkt_clientHwAddr msg) = client_ifMacAddress self)"
proof -
  define self1 where "self1 = self\<lparr>client_currentIdentifier := client_currentIdentifier self + 1\<rparr>"
  have "client_wf self1" using client_reach_wf [OF assms(1)] by (simp add: self1_def client_wf_def)
  note msg = discoverMsg_fields [OF this] and run = onTimerFd_discover [OF assms(2,3), folded self1_def]
  obtain before where "effects = before @ [Send_broadcast (client_ifIndex self) (dhcpClient_ipUdpHeader @ discoverMsg self1), Set_timer 10]"
    using run(2) by blast
  moreover have "be16 dhcpClient_ipUdpHeader 2 = length (dhcpClient_ipUdpHeader @ discoverMsg self1)"
    "be16 dhcpClient_ipUdpHeader 24 = 8 + length (discoverMsg self1)" by (simp_all add: ipUdpHeader_fields msg)
  moreover have "client_leasedIp self' = 0" using run(1) by simp
  moreover have "client_ifMacAddress self1 = client_ifMacAddress self" "client_currentIdentifier self1 = client_currentIdentifier self + 1"
    by (simp_all add: self1_def)
  ultimately show ?thesis using ipUdpHeader_fields(1,2) msg by metis
qed


section \<open>A concrete client\<close>

definition example_client :: dhcpClient where
  "example_client = \<lparr>client_fd = 5, client_packetFd = 6, client_timerFd = 7, client_dnsIp = 0, client_currentIdentifier = 0, client_leasedIp = 0,
     client_renewServerIp = 0, client_ifIndex = 100, client_routePriority = 0, client_ifName = bytes_of ''wan'' @ replicate 13 0,
     client_ifMacAddress = [2, 0, 0, 0, 0, 7], client_leasedIpNetmask = 0\<rparr>"

lemma example_client_reach: "dhcpClient_reach example_client"
proof (rule dhcpClient_reach.init)
  show "dhcpClient_init example_client 100 0 5 [0, 0, 0, 0, 0] (bytes_of ''wan'' @ replicate 13 0) ([1, 0, 2, 0, 0, 0, 0, 7] @ replicate 8 0) 6 7 0 =
    Some (example_client, [Set_timer 10])"
    by (simp add: dhcpClient_init_def example_client_def)
qed simp_all


theorem dhcpClient_discover_correct_witness:
  "\<exists>self' st' before ip msg. dhcpClient_onTimerFd acking_kernel example_client (replicate buffer_size 0, []) 8 0 =
      Some (self', st', before @ [Send_broadcast 100 (ip @ msg), Set_timer 10]) \<and> ones_sum (take 20 ip) = 0xFFFF \<and> be16 ip 2 = length (ip @ msg)"
proof -
  obtain self' buf' effects where run: "dhcpClient_onTimerFd acking_kernel example_client (replicate buffer_size 0, []) 8 0 = Some (self', (buf', []), effects @ [Set_timer 10])"
    by (rule onTimerFd_runs [OF acking_kernel_acks, of "replicate buffer_size 0"]) simp_all
  have "client_leasedIp example_client = 0" "client_ifIndex example_client = 100" by (simp_all add: example_client_def)
  then show ?thesis using dhcpClient_discover_correct [OF example_client_reach _ run] run by metis
qed

end
