(* ===== verification/DhcpExchange.thy ===== *)
theory DhcpExchange
  imports DhcpServer DhcpClient
begin

text \<open>
  The DHCP client and server against each other: how each of them reads the messages of the other, whatever its receive buffer
  holds behind the message, and the lease table across the two requests of a client.
\<close>

section \<open>Received messages\<close>

lemma received: "length msg \<le> length stale \<Longrightarrow> mem_put stale 0 msg = msg @ drop (length msg) stale"
  by (simp add: mem_put_def)

lemma pkt_append:
  assumes "240 \<le> length msg"
  shows "pkt_identifier (msg @ rest) = pkt_identifier msg" "pkt_clientIp (msg @ rest) = pkt_clientIp msg" "pkt_yourIp (msg @ rest) = pkt_yourIp msg"
    "pkt_serverIp (msg @ rest) = pkt_serverIp msg" "pkt_clientHwAddr (msg @ rest) = pkt_clientHwAddr msg"
  using assms
  by (simp_all add: pkt_identifier_def pkt_clientIp_def pkt_yourIp_def pkt_serverIp_def pkt_clientHwAddr_def mem_get_def mem_loadU32_def)

text \<open>The walk over the options of a message sees the options only, at offsets from the header's end.\<close>

lemma walk_shift:
  "dhcp_walk visit (hdr @ b) (length hdr + e) (length hdr + c) s = dhcp_walk (\<lambda>c. visit (length hdr + c)) b e c s"
proof (induction "e - c" arbitrary: c s rule: less_induct)
  case less
  have len: "(hdr @ b) ! (length hdr + c + 1) = b ! (c + 1)" by (simp add: nth_append add.assoc)
  show ?case
    using less [of "c + 2 + unat (b ! (c + 1))" "visit (length hdr + c) s"]
    by (subst (1 2) dhcp_walk.simps) (auto simp: Let_def len [simplified] add.assoc)
qed

lemma walk_eval:
  "dhcp_walk visit b e c s =
    (if e < c + 2 then s else if e < c + 2 + unat (b ! (c + 1)) then s else dhcp_walk visit b e (c + 2 + unat (b ! (c + 1))) (visit c s))"
  by (subst dhcp_walk.simps) (auto simp: Let_def)

lemma walk_options:
  assumes "length hdr = 240" "\<And>c s. c + 1 < length opts \<Longrightarrow> visit (240 + c) s = visit' c s"
  shows "dhcp_walk visit (hdr @ opts @ rest) (240 + length opts) 240 s = dhcp_walk visit' opts (length opts) 0 s"
proof -
  have "dhcp_walk visit (hdr @ opts @ rest) (240 + length opts) (240 + 0) s = dhcp_walk (\<lambda>c. visit (240 + c)) (opts @ rest) (length opts) 0 s"
    using walk_shift [of visit hdr "opts @ rest" "length opts" 0 s] assms(1) by (simp only:)
  also have "\<dots> = dhcp_walk visit' opts (length opts) 0 s" by (rule walk_cong) (use assms(2) in auto)
  finally show ?thesis by simp
qed

section \<open>Messages of the client, read by the server\<close>

lemma server_reads:
  assumes "length hdr = 240"
  shows "dhcpServer_findOptions (hdr @ opts @ rest) (240 + length opts) =
    dhcp_walk (\<lambda>c s. if opts ! c = dhcp_MESSAGE_TYPE then if opts ! (c + 1) = 1 then Some (240 + c) else s else s) opts (length opts) 0 None"
  unfolding dhcpServer_findOptions_def dhcp_header_size_def
  by (rule walk_options [OF assms]) (auto simp: dhcpServer_visit_def assms nth_append add.assoc)

lemma discover_parsed:
  assumes "client_wf self"
  shows "dhcpServer_findOptions (discoverMsg self @ rest) 252 = Some 240"
proof -
  have "length (dhcp_header_bytes ((dhcpClient_timerHdr self)\<lparr>hdr_flags := hc_BSWAP16 0x8000\<rparr>)) = 240"
    using timerHdr_wf(1) [OF assms] by (rule length_header_bytes)
  from server_reads [OF this, of "[53, 1, dhcp_DISCOVER, 55, 3, 1, 3, 6, 255, 0, 0, 0]" rest]
  show ?thesis by (simp add: discoverMsg_def dhcpClient_timerMsg_def dhcp_option_bytes_def dhcp_constants walk_eval)
qed

definition requestHdr :: "dhcpClient \<Rightarrow> dhcp_header" where
  "requestHdr self = dhcp_header_zero\<lparr>
     hdr_opcode := dhcp_BOOTREQUEST, hdr_hwAddrType := dhcp_ETHERNET, hdr_hwAddrLen := 6,
     hdr_identifier := hc_BSWAP32 (client_currentIdentifier self), hdr_flags := hc_BSWAP16 0x8000,
     hdr_clientHwAddr := client_ifMacAddress self @ replicate 10 0, hdr_magicCookie := dhcp_MAGIC_COOKIE\<rparr>"

lemma list4: "length xs = 4 \<Longrightarrow> xs = [xs ! 0, xs ! 1, xs ! 2, xs ! 3]"
  by (rule nth_equalityI) (auto simp: less_Suc_eq numeral_eq_Suc)

lemma request_fields:
  assumes "client_wf self" "240 \<le> length offer" "leaseTime + 6 \<le> length offer"
  defines "m \<equiv> dhcpClient_requestMsg self offer leaseTime"
  shows "length m = 268" "dhcpServer_findOptions (m @ rest) 268 = Some 240" "m ! 242 = dhcp_REQUEST" "take 6 (pkt_clientHwAddr m) = client_ifMacAddress self"
    "pkt_identifier m = hc_BSWAP32 (client_currentIdentifier self)" "mem_get m 262 4 = pkt_yourIp offer" "mem_get m 256 4 = pkt_serverIp offer"
proof -
  have wf: "dhcp_header_wf (requestHdr self)" using assms(1) by (simp add: requestHdr_def dhcp_header_wf_def dhcp_header_zero_def client_wf_def)
  define l s y where "l = mem_get offer (leaseTime + 2) 4" and "s = pkt_serverIp offer" and "y = pkt_yourIp offer"
  have len: "length l = 4" "length s = 4" "length y = 4" using assms(2,3) by (simp_all add: l_def s_def y_def pkt_serverIp_def pkt_yourIp_def mem_get_def)
  define opts where "opts = [53, 1, dhcp_REQUEST, 55, 3, 1, 3, 6, 51, 4] @ l @ [54, 4] @ s @ [50, 4] @ y @ [255, 0]"
  have m: "m = dhcp_header_bytes (requestHdr self) @ opts"
    unfolding m_def dhcpClient_requestMsg_def Let_def opts_def l_def s_def y_def requestHdr_def [symmetric]
    by (simp add: dhcp_option_bytes_def dhcp_constants)
  have opts: "length opts = 28" using len by (simp add: opts_def)
  show "length m = 268" using m opts wf by simp
  show "m ! 242 = dhcp_REQUEST" using m wf by (simp add: nth_append opts_def)
  show "pkt_identifier m = hc_BSWAP32 (client_currentIdentifier self)" "take 6 (pkt_clientHwAddr m) = client_ifMacAddress self"
    using header_fields [OF wf m] assms(1) by (simp_all add: requestHdr_def client_wf_def)
  show "mem_get m 262 4 = pkt_yourIp offer" "mem_get m 256 4 = pkt_serverIp offer"
    using m wf len by (simp_all add: mem_get_def opts_def y_def s_def)
  have "dhcpServer_findOptions (m @ rest) 268 =
      dhcp_walk (\<lambda>c s. if opts ! c = dhcp_MESSAGE_TYPE then if opts ! (c + 1) = 1 then Some (240 + c) else s else s) opts 28 0 None"
    using server_reads [OF length_header_bytes [OF wf], of opts rest] by (simp add: m opts)
  also have "\<dots> = Some 240"
    unfolding opts_def using list4 [OF len(1)] list4 [OF len(2)] list4 [OF len(3)]
    by (simp add: walk_eval dhcp_constants nth_append len)
  finally show "dhcpServer_findOptions (m @ rest) 268 = Some 240" .
qed

section \<open>Replies of the server, read by the client\<close>

definition relative_visit :: "bytes \<Rightarrow> nat \<Rightarrow> dhcpClient_options \<Rightarrow> dhcpClient_options" where
  "relative_visit opts c s =
     (if opts ! c = dhcp_MESSAGE_TYPE then if opts ! (c + 1) = 1 then s\<lparr>opt_messageType := Some (240 + c)\<rparr> else s
      else if opts ! c = dhcp_SUBNET_MASK then if opts ! (c + 1) = 4 then s\<lparr>opt_subnetMask := Some (240 + c)\<rparr> else s
      else if opts ! c = dhcp_ROUTER then if opts ! (c + 1) \<ge> 4 then s\<lparr>opt_router := Some (240 + c)\<rparr> else s
      else if opts ! c = dhcp_DNS then if opts ! (c + 1) \<ge> 4 then s\<lparr>opt_dns := Some (240 + c)\<rparr> else s
      else if opts ! c = dhcp_LEASE_TIME then if opts ! (c + 1) = 4 then s\<lparr>opt_leaseTime := Some (240 + c)\<rparr> else s
      else s)"

lemma client_reads:
  assumes "length hdr = 240"
  shows "dhcpClient_findOptions (hdr @ opts @ rest) (240 + length opts) =
    dhcp_walk (relative_visit opts) opts (length opts) 0
      \<lparr>opt_messageType = None, opt_subnetMask = None, opt_router = None, opt_dns = None, opt_leaseTime = None\<rparr>"
  unfolding dhcpClient_findOptions_def dhcp_header_size_def
  by (rule walk_options [OF assms]) (auto simp: dhcpClient_visit_def relative_visit_def Let_def assms nth_append add.assoc)

text \<open>The options of a reply lie at fixed offsets, and the client finds all of them.\<close>

definition reply_options :: dhcpClient_options where
  "reply_options = \<lparr>opt_messageType = Some 240, opt_subnetMask = Some 249, opt_router = Some 255, opt_dns = Some 267, opt_leaseTime = Some 261\<rparr>"

definition reply_dns :: "u32 \<Rightarrow> bytes" where
  "reply_dns dnsIp = (if dnsIp \<noteq> 0 then ip_bytes dnsIp else [8, 8, 8, 8])"

lemma reply_parsed:
  fixes self :: dhcpServer and isDiscover :: bool and i :: nat and dnsIp :: u32
  assumes "numRead \<le> length buf" "dhcp_header_size \<le> numRead"
  defines "m \<equiv> dhcpServer_replyMsg self buf isDiscover i dnsIp"
  shows "dhcpClient_findOptions (m @ rest) 276 = reply_options" "mem_get m 251 4 = [255, 255, 255, 0]" "mem_get m 257 4 = ip_bytes (server_serverIp self)"
    "mem_get m 263 4 = [0, 0, 2, 88]" "mem_get m 269 4 = reply_dns dnsIp"
proof -
  define s where "s = ip_bytes (server_serverIp self)"
  define d where "d = reply_dns dnsIp"
  have len: "length s = 4" "length d = 4" by (simp_all add: s_def d_def reply_dns_def)
  define opts where "opts = [53, 1, if isDiscover then dhcp_OFFER else dhcp_ACK, 54, 4] @ s @ [1, 4, 255, 255, 255, 0, 3, 4] @ s @ [51, 4, 0, 0, 2, 88, 6, 4] @ d @ [255, 0, 0]"
  have opts: "length opts = 36" using len by (simp add: opts_def)
  obtain hdr where m: "m = hdr @ opts"
    unfolding m_def dhcpServer_replyMsg_def Let_def opts_def s_def d_def reply_dns_def dhcp_option_bytes_def by (auto simp: dhcp_constants)
  have hdr: "length hdr = 240" using reply_fields(1) [OF assms(1,2), of self isDiscover i dnsIp] m opts by (simp add: m_def)
  show "mem_get m 251 4 = [255, 255, 255, 0]" "mem_get m 257 4 = ip_bytes (server_serverIp self)"
    "mem_get m 263 4 = [0, 0, 2, 88]" "mem_get m 269 4 = reply_dns dnsIp"
    unfolding m using hdr len by (simp_all add: mem_get_def opts_def s_def [symmetric] d_def [symmetric])
  have "dhcpClient_findOptions (m @ rest) 276 = dhcp_walk (relative_visit opts) opts 36 0
      \<lparr>opt_messageType = None, opt_subnetMask = None, opt_router = None, opt_dns = None, opt_leaseTime = None\<rparr>"
    using client_reads [OF hdr, of opts rest] by (simp add: m opts)
  also have "\<dots> = reply_options"
  proof -
    have n: "opts ! 0 = 53" "opts ! 1 = 1" "opts ! Suc 0 = 1" "opts ! 3 = 54" "opts ! 4 = 4" "opts ! 9 = 1" "opts ! 10 = 4" "opts ! 15 = 3" "opts ! 16 = 4"
      "opts ! 21 = 51" "opts ! 22 = 4" "opts ! 27 = 6" "opts ! 28 = 4" "opts ! 33 = 255" "opts ! 34 = 0"
      using len by (simp_all add: opts_def nth_append)
    have w: "dhcp_walk v opts 36 0 s = dhcp_walk v opts 36 3 (v 0 s)" "dhcp_walk v opts 36 3 s = dhcp_walk v opts 36 9 (v 3 s)"
      "dhcp_walk v opts 36 9 s = dhcp_walk v opts 36 15 (v 9 s)" "dhcp_walk v opts 36 15 s = dhcp_walk v opts 36 21 (v 15 s)"
      "dhcp_walk v opts 36 21 s = dhcp_walk v opts 36 27 (v 21 s)" "dhcp_walk v opts 36 27 s = dhcp_walk v opts 36 33 (v 27 s)"
      "dhcp_walk v opts 36 33 s = dhcp_walk v opts 36 35 (v 33 s)" "dhcp_walk v opts 36 35 s = s"
      for v :: "nat \<Rightarrow> dhcpClient_options \<Rightarrow> dhcpClient_options" and s
      using walk_option [of opts 0 1 36 v s] walk_option [of opts 3 4 36 v s] walk_option [of opts 9 4 36 v s] walk_option [of opts 15 4 36 v s]
        walk_option [of opts 21 4 36 v s] walk_option [of opts 27 4 36 v s] walk_option [of opts 33 0 36 v s] walk_stop [of 36 35 v opts s]
      by (simp_all add: n flip: numeral_3_eq_3)
    show ?thesis unfolding w by (simp add: n relative_visit_def dhcp_constants reply_options_def)
  qed
  finally show "dhcpClient_findOptions (m @ rest) 276 = reply_options" .
qed

section \<open>The lease table across two requests\<close>

text \<open>An entry that matches first is found again.\<close>

lemma getEntry_again:
  assumes "leases_wf (server_entries self)" "6 \<le> length macAddr" "i < dhcpServer_NUM_ENTRIES" "entry_macAddr (server_entries self ! i) = take 6 macAddr"
    "\<forall>j<i. entry_macAddr (server_entries self ! j) \<noteq> take 6 macAddr"
  shows "dhcpServer_getEntry self now macAddr allowCreate =
    (int i, self\<lparr>server_entries := (server_entries self)[i := (server_entries self ! i)\<lparr>entry_timeSec := now\<rparr>]\<rparr>)"
proof -
  obtain r s where g: "dhcpServer_getEntry self now macAddr allowCreate = (r, s)" by (metis prod.exhaust)
  from assms(1,2) g show ?thesis
  proof (cases rule: getEntry_cases)
    case (known i')
    then have "i' = i" using assms(4,5) by (metis linorder_neqE_nat)
    then show ?thesis using g known by simp
  next
    case unknown
    then show ?thesis using assms(3,4) by blast
  next
    case (evict i')
    then show ?thesis using assms(3,4) by blast
  qed
qed

lemma getEntry_twice:
  assumes "leases_wf (server_entries self)" "6 \<le> length macAddr" "dhcpServer_getEntry self now macAddr True = (r, self1)"
    "6 \<le> length macAddr'" "take 6 macAddr' = take 6 macAddr"
  obtains i self2 where "i < dhcpServer_NUM_ENTRIES" "r = int i" "dhcpServer_getEntry self1 now' macAddr' False = (int i, self2)"
    "server_entries self2 ! i = \<lparr>entry_timeSec = now', entry_macAddr = take 6 macAddr\<rparr>" "server_serverIp self1 = server_serverIp self" "server_serverIp self2 = server_serverIp self"
proof -
  have wf1: "leases_wf (server_entries self1)" by (rule getEntry_wf [OF assms(1-3)])
  have len: "length (server_entries self) = dhcpServer_NUM_ENTRIES" using assms(1) by (simp add: leases_wf_def)
  obtain i where i: "i < dhcpServer_NUM_ENTRIES" "r = int i" "entry_macAddr (server_entries self1 ! i) = take 6 macAddr'"
    "\<forall>j<i. entry_macAddr (server_entries self1 ! j) \<noteq> take 6 macAddr'" "server_serverIp self1 = server_serverIp self"
    using assms(1-3) by (cases rule: getEntry_cases) (auto simp: len assms(5))
  have len1: "length (server_entries self1) = dhcpServer_NUM_ENTRIES" using wf1 by (simp add: leases_wf_def)
  show thesis
    by (rule that [OF i(1,2) getEntry_again [OF wf1 assms(4) i(1,3,4)]]) (use i len1 assms(5) in simp_all)
qed

section \<open>The four messages\<close>

lemma server_answers:
  assumes "numRead \<le> length buf" "dhcp_header_size \<le> numRead" "dhcpServer_findOptions buf numRead = Some mt"
    and "buf ! (mt + 2) = (if isDiscover then dhcp_DISCOVER else dhcp_REQUEST)"
    and "dhcpServer_getEntry self now (pkt_clientHwAddr buf) isDiscover = (int i, self')"
  shows "\<exists>dest. dhcpServer_onFd self now dnsIp buf numRead = (self', Some (dhcpServer_replyMsg self' buf isDiscover i dnsIp, dest))"
  using assms by (auto simp: dhcpServer_onFd_def Let_def dhcp_constants)

lemma client_accepts:
  fixes server :: dhcpServer and client :: dhcpClient and isDiscover :: bool and i :: nat and dnsIp :: u32
  assumes "client_wf client" "numRead \<le> length request" "dhcp_header_size \<le> numRead" "take 6 (pkt_clientHwAddr request) = client_ifMacAddress client"
  defines "m \<equiv> dhcpServer_replyMsg server request isDiscover i dnsIp"
  shows "dhcpClient_onFd kern client (m @ rest, queue) 276 0 =
    (if isDiscover then Some (client, (m @ rest, queue), [Send_to [255, 255, 255, 255] 67 (dhcpClient_requestMsg client (m @ rest) 261), Set_timer 10])
     else dhcpClient_onAck kern client (m @ rest, queue) reply_options 0)"
proof -
  note f = reply_fields [OF assms(2,3), of server isDiscover i dnsIp, folded m_def] and p = reply_parsed [OF assms(2,3), of server isDiscover i dnsIp, folded m_def]
  have "mem_compare (pkt_clientHwAddr (m @ rest)) (client_ifMacAddress client) 6 = 0"
    using mem_compare_eq_0_iff [of 6 "pkt_clientHwAddr m" "client_ifMacAddress client"] f(1,5) assms(1,4)
    by (simp add: pkt_append client_wf_def pkt_clientHwAddr_def mem_get_def)
  moreover have "(m @ rest) ! 242 = m ! 242" using f(1) by (simp add: nth_append)
  ultimately show ?thesis using p(1) f(6)
    by (simp add: dhcpClient_onFd_def Let_def dhcp_header_size_def reply_options_def dhcp_constants)
qed

lemma mem_get_prefix: "k + n \<le> length m \<Longrightarrow> mem_get (m @ rest) k n = mem_get m k n"
  by (simp add: mem_get_def)

lemma loadU32_get: "mem_loadU32 (drop k m) = mem_loadU32 (mem_get m k 4)"
  by (simp add: mem_loadU32_def mem_get_def)

lemma reply_numbers:
  "unat ((hc_BSWAP32 (mem_loadU32 [0, 0, 2, 88]) + 1) div 2) = 300" "hc_POPCOUNT32 (mem_loadU32 [255, 255, 255, 0]) = 24"
proof -
  have "mem_loadU32 [0, 0, 2, 88] = 0x58020000" "mem_loadU32 [255, 255, 255, 0] = 0xFFFFFF" by (simp_all add: mem_loadU32_def)
  moreover have "hc_BSWAP32 0x58020000 = 600" by (simp add: hc_BSWAP32_def le_bytes_4)
  moreover have "hc_POPCOUNT32 0xFFFFFF = 24" by code_simp
  ultimately show "unat ((hc_BSWAP32 (mem_loadU32 [0, 0, 2, 88]) + 1) div 2) = 300" "hc_POPCOUNT32 (mem_loadU32 [255, 255, 255, 0]) = 24" by simp_all
qed

text \<open>An ACK of the server gives the client the address, the server's own address as gateway and renewal server, and a timer of half the lease.\<close>

lemma client_leases:
  fixes server :: dhcpServer and client :: dhcpClient and i :: nat and dnsIp :: u32
  assumes "client_wf client" "kernel_acks kern" "numRead \<le> length request" "dhcp_header_size \<le> numRead" "take 6 (pkt_clientHwAddr request) = client_ifMacAddress client"
    and "length rest = buffer_size - 276"
  defines "m \<equiv> dhcpServer_replyMsg server request False i dnsIp"
  shows "\<exists>client' st' before. dhcpClient_onFd kern client (m @ rest, []) 276 0 =
      Some (client', st', Set_timer 300 # before @ [Netlink_request (dhcpClient_newAddr client' (pkt_yourIp m)),
        Netlink_request (dhcpClient_newRoute client' (ip_bytes (server_serverIp server)))]) \<and>
    ip_bytes (client_leasedIp client') = pkt_yourIp m \<and> client_renewServerIp client' = server_serverIp server \<and>
    ip_bytes (client_dnsIp client') = reply_dns dnsIp \<and> client_leasedIpNetmask client' = 24"
proof -
  note f = reply_fields [OF assms(3,4), of server False i dnsIp, folded m_def] and p = reply_parsed [OF assms(3,4), of server False i dnsIp, folded m_def]
  have len: "length (m @ rest) = buffer_size" using f(1) assms(6) by (simp add: buffer_size_def)
  define client' where "client' = acked client (m @ rest) reply_options 249"
  have get: "mem_loadU32 (drop k (m @ rest)) = mem_loadU32 (mem_get m k 4)" if "k + 4 \<le> 276" for k
    using that f(1) by (simp only: loadU32_get mem_get_prefix)
  have loads: "mem_loadU32 (drop 251 (m @ rest)) = mem_loadU32 [255, 255, 255, 0]" "mem_loadU32 (drop 263 (m @ rest)) = mem_loadU32 [0, 0, 2, 88]"
    "mem_loadU32 (drop 269 (m @ rest)) = mem_loadU32 (reply_dns dnsIp)" "mem_get (m @ rest) 257 4 = ip_bytes (server_serverIp server)"
    using get [of 251] get [of 263] get [of 269] mem_get_prefix [of 257 4 m rest] f(1) p(2-5) by simp_all
  have o: "opt_subnetMask reply_options = Some 249" "opt_router reply_options = Some 255" "opt_leaseTime reply_options = Some 261" "opt_dns reply_options = Some 267"
    by (simp_all add: reply_options_def)
  obtain st' where run: "dhcpClient_onAck kern client (m @ rest, []) reply_options 0 = Some (client', st',
      [Set_timer 300] @ (if client_leasedIp client = client_leasedIp client' then [] else [Print (dhcpClient_leasedPrint client')]) @
      [Netlink_request (dhcpClient_newAddr client' (pkt_yourIp m)), Netlink_request (dhcpClient_newRoute client' (ip_bytes (server_serverIp server)))])"
    using onAck_run [OF assms(2) len o(1-3), of client] pkt_append(3) [of m rest] f(1) loads(2,4) reply_numbers(1)
    by (auto simp: client'_def [symmetric] buffer_size_def)
  have dns: "length (reply_dns dnsIp) = 4" by (simp add: reply_dns_def)
  have c: "client_leasedIp client' = mem_loadU32 (pkt_yourIp m)" "client_renewServerIp client' = server_serverIp server"
    "client_dnsIp client' = mem_loadU32 (reply_dns dnsIp)" "client_leasedIpNetmask client' = 24"
    using pkt_append [of m rest] f(1,4) loads reply_numbers(2) by (simp_all add: client'_def acked_def o)
  have "length (pkt_yourIp m) = 4" using f(3) by simp
  then have "ip_bytes (client_leasedIp client') = pkt_yourIp m" "ip_bytes (client_dnsIp client') = reply_dns dnsIp" using c dns by (simp_all add: ip_bytes_load)
  moreover have "dhcpClient_onFd kern client (m @ rest, []) 276 0 = dhcpClient_onAck kern client (m @ rest, []) reply_options 0"
    using client_accepts [OF assms(1,3,4,5), of kern server False i dnsIp rest "[]"] by (simp add: m_def)
  ultimately show ?thesis using run c(2,4) by auto
qed

section \<open>Received requests\<close>

definition fresh :: "dhcpClient \<Rightarrow> dhcpClient" where
  "fresh client = client\<lparr>client_currentIdentifier := client_currentIdentifier client + 1\<rparr>"

lemma fresh_wf: "client_wf client \<Longrightarrow> client_wf (fresh client)" "client_wf client \<Longrightarrow> client_wf ((fresh client)\<lparr>client_leasedIp := 0\<rparr>)"
  "client_ifMacAddress (fresh client) = client_ifMacAddress client"
  by (simp_all add: fresh_def client_wf_def)

lemma discover_sent:
  assumes "client_leasedIp client = 0 \<or> client_renewServerIp client = 0" "kernel_acks kern" "length buf = buffer_size"
  obtains before buf' where "dhcpClient_onTimerFd kern client (buf, []) 8 0 = Some ((fresh client)\<lparr>client_leasedIp := 0\<rparr>, (buf', []),
      before @ [Send_broadcast (client_ifIndex client) (dhcpClient_ipUdpHeader @ discoverMsg (fresh client)), Set_timer 10])"
proof -
  obtain c e buf' where run: "dhcpClient_onTimerFd kern client (buf, []) 8 0 = Some (c, (buf', []), e @ [Set_timer 10])"
    by (rule onTimerFd_runs [OF assms(2,3)])
  note d = onTimerFd_discover [OF assms(1) run, folded fresh_def]
  show thesis by (rule that) (simp only: run d)
qed

text \<open>What the server sees of a message in its buffer.\<close>

definition request_in :: "bytes \<Rightarrow> nat \<Rightarrow> u8 \<Rightarrow> bytes \<Rightarrow> bool" where
  "request_in buf numRead messageType mac \<longleftrightarrow> numRead \<le> length buf \<and> dhcp_header_size \<le> numRead \<and> dhcpServer_findOptions buf numRead = Some 240 \<and>
     buf ! (240 + 2) = messageType \<and> take 6 (pkt_clientHwAddr buf) = mac \<and> 6 \<le> length (pkt_clientHwAddr buf)"

lemma request_inI:
  assumes "n = length msg" "240 < n" "\<And>rest. dhcpServer_findOptions (msg @ rest) n = Some 240" "msg ! 242 = t" "take 6 (pkt_clientHwAddr msg) = mac"
    and "n \<le> length stale" "242 < n"
  shows "request_in (mem_put stale 0 msg) n t mac"
  using assms pkt_append(5) [of msg "drop n stale"]
  by (simp add: request_in_def received dhcp_header_size_def nth_append) (simp add: pkt_clientHwAddr_def mem_get_def)

lemma discover_received:
  assumes "client_wf client" "length stale = buffer_size"
  shows "request_in (mem_put stale 0 (discoverMsg client)) 252 dhcp_DISCOVER (client_ifMacAddress client)"
  using discoverMsg_fields [OF assms(1)] discover_parsed [OF assms(1)] assms(2) by (intro request_inI) (simp_all add: buffer_size_def)

lemma request_received:
  assumes "client_wf client" "length stale = buffer_size" "240 \<le> length offer" "267 \<le> length offer"
  shows "length (dhcpClient_requestMsg client offer 261) = 268"
    "request_in (mem_put stale 0 (dhcpClient_requestMsg client offer 261)) 268 dhcp_REQUEST (client_ifMacAddress client)"
  using request_fields [OF assms(1,3), of 261] assms(2,4) by (simp, intro request_inI) (simp_all add: buffer_size_def)

lemma server_replies:
  assumes "request_in buf numRead (if isDiscover then dhcp_DISCOVER else dhcp_REQUEST) mac" "dhcpServer_getEntry self now (pkt_clientHwAddr buf) isDiscover = (int i, self')"
  shows "\<exists>dest. dhcpServer_onFd self now dnsIp buf numRead = (self', Some (dhcpServer_replyMsg self' buf isDiscover i dnsIp, dest))"
  using server_answers [OF _ _ _ _ assms(2)] assms(1) unfolding request_in_def by blast

end
