(* ===== verification/Config.thy ===== *)
theory Config
  imports Netlink Util Base64
begin

text \<open>
  The network configuration of the router, \<^verbatim>\<open>src/router/router/config.c\<close>: the netlink requests that create the bridges and
  the WireGuard device, and the sequence in which \<open>config_configure\<close> issues them. The state is the module's struct, the shared
  buffer, the queues of the two netlink sockets and the trace of effects; the environment holds the kernel's side of the sockets and the
  results of the file operations. \<open>None\<close> is a failed \<open>CHECK\<close>, or a loop that does not end, in which nothing more happens either.
\<close>

section \<open>The code\<close>

definition config_IFTYPE_WIREGUARD :: bytes where "config_IFTYPE_WIREGUARD = bytes_of ''wireguard'' @ [0, 0, 0]"
definition config_IFTYPE_BRIDGE :: bytes where "config_IFTYPE_BRIDGE = bytes_of ''bridge'' @ [0, 0]"
definition config_WAN_IF_NAME :: bytes where "config_WAN_IF_NAME = bytes_of ''wan'' @ [0]"
definition config_WAN_IF_INDEX :: int where "config_WAN_IF_INDEX = 100"
definition config_LAN_IF_NAME :: bytes where "config_LAN_IF_NAME = bytes_of ''lan'' @ [0]"
definition config_LAN_IF_INDEX :: int where "config_LAN_IF_INDEX = 101"
definition config_WG_IF_NAME :: bytes where "config_WG_IF_NAME = bytes_of ''wg0'' @ [0]"
definition config_WG_IF_INDEX :: int where "config_WG_IF_INDEX = 123"
definition config_WG_LISTEN_PORT :: nat where "config_WG_LISTEN_PORT = 123"

definition IFF_UP :: u32 where "IFF_UP = 1"
definition IFLA_IFNAME :: nat where "IFLA_IFNAME = 3"
definition IFLA_MASTER :: nat where "IFLA_MASTER = 10"
definition IFLA_LINKINFO :: nat where "IFLA_LINKINFO = 18"
definition IFLA_INFO_KIND :: nat where "IFLA_INFO_KIND = 1"
definition WG_GENL_VERSION :: u8 where "WG_GENL_VERSION = 1"
definition WG_CMD_GET_DEVICE :: u8 where "WG_CMD_GET_DEVICE = 0"
definition WG_CMD_SET_DEVICE :: u8 where "WG_CMD_SET_DEVICE = 1"
definition WGDEVICE_A_IFINDEX :: nat where "WGDEVICE_A_IFINDEX = 1"
definition WGDEVICE_A_PRIVATE_KEY :: nat where "WGDEVICE_A_PRIVATE_KEY = 3"
definition WGDEVICE_A_PUBLIC_KEY :: nat where "WGDEVICE_A_PUBLIC_KEY = 4"
definition WGDEVICE_A_LISTEN_PORT :: nat where "WGDEVICE_A_LISTEN_PORT = 6"
definition WGDEVICE_A_PEERS :: nat where "WGDEVICE_A_PEERS = 8"
definition WGPEER_A_PUBLIC_KEY :: nat where "WGPEER_A_PUBLIC_KEY = 1"
definition WGPEER_A_ALLOWEDIPS :: nat where "WGPEER_A_ALLOWEDIPS = 9"
definition WGALLOWEDIP_A_FAMILY :: nat where "WGALLOWEDIP_A_FAMILY = 1"
definition WGALLOWEDIP_A_IPADDR :: nat where "WGALLOWEDIP_A_IPADDR = 2"
definition WGALLOWEDIP_A_CIDR_MASK :: nat where "WGALLOWEDIP_A_CIDR_MASK = 3"

record config =
  config_rtnetlinkFd :: int
  config_wgFamilyId :: u16
  config_wgPublicKey :: bytes

datatype config_effect =
    Route_request bytes
  | Generic_request bytes
  | Write_file string bytes
  | Write_stderr bytes

record config_state =
  cs_config :: config
  cs_buffer :: bytes
  cs_routeQueue :: "bytes list"
  cs_genericQueue :: "bytes list"
  cs_trace :: "config_effect list"

text \<open>
  The environment: the kernel on the route and the generic socket, the result of opening a file and the bytes that can be read from it, the result
  of a write, and the errors of a file that does not exist.
\<close>

record config_env =
  env_route :: "bytes \<Rightarrow> int \<times> bytes list"
  env_generic :: "bytes \<Rightarrow> int \<times> bytes list"
  env_open :: "string \<Rightarrow> int \<times> bytes"
  env_write :: "bytes \<Rightarrow> int"

definition ENOENT :: int where "ENOENT = 2"

definition route_talk :: "config_env \<Rightarrow> bytes list \<Rightarrow> config_state \<Rightarrow> config_state option" where
  "route_talk env iov s =
     (case netlink_talk (env_route env) (cs_buffer s, cs_routeQueue s) iov of None \<Rightarrow> None
      | Some (buf, queue) \<Rightarrow> Some (s\<lparr>cs_buffer := buf, cs_routeQueue := queue, cs_trace := cs_trace s @ [Route_request (concat iov)]\<rparr>))"

definition generic_talk :: "config_env \<Rightarrow> bytes list \<Rightarrow> config_state \<Rightarrow> config_state option" where
  "generic_talk env iov s =
     (case genetlink_talk (env_generic env) (cs_buffer s, cs_genericQueue s) iov of None \<Rightarrow> None
      | Some (buf, queue) \<Rightarrow> Some (s\<lparr>cs_buffer := buf, cs_genericQueue := queue, cs_trace := cs_trace s @ [Generic_request (concat iov)]\<rparr>))"

text \<open>\<open>genetlink_findAttr\<close> on the buffer, with its two kinds of failure merged.\<close>

definition find_attr :: "bytes \<Rightarrow> nat \<Rightarrow> nat option" where
  "find_attr buf t = Option.bind (genetlink_findAttr buf (word_of_nat t)) (\<lambda>r. r)"

definition config_init :: "config_env \<Rightarrow> int \<Rightarrow> config_state \<Rightarrow> config_state option" where
  "config_init env fd s =
     (let s = s\<lparr>cs_config := (cs_config s)\<lparr>config_rtnetlinkFd := fd\<rparr>\<rparr>
      in if \<not> fd > 0 then None
         else
           Option.bind (generic_talk env (genetlink_requestFamily_iov (bytes_of ''wireguard'' @ [0]) 9) s)
             (\<lambda>s. case find_attr (cs_buffer s) CTRL_ATTR_FAMILY_ID of None \<Rightarrow> None
                | Some wgFamilyId \<Rightarrow>
                  Some (s\<lparr>cs_config := (cs_config s)\<lparr>config_wgFamilyId := mem_loadU16 (drop (wgFamilyId + 4) (cs_buffer s))\<rparr>\<rparr>)))"

definition config_addIpv4_request :: "u8 \<Rightarrow> bytes \<Rightarrow> u8 \<Rightarrow> bytes" where
  "config_addIpv4_request ifIndex address prefixLen =
     nlmsghdr 32 RTM_NEWADDR (NLM_F_REQUEST + NLM_F_ACK + NLM_F_CREATE) 0 @
     ifaddrmsg AF_INET prefixLen (uint ifIndex) @
     nlattr (4 + 4) IFA_LOCAL @ take 4 address"

definition config_addIpv4 :: "config_env \<Rightarrow> u8 \<Rightarrow> bytes \<Rightarrow> u8 \<Rightarrow> config_state \<Rightarrow> config_state option" where
  "config_addIpv4 env ifIndex address prefixLen s = route_talk env [config_addIpv4_request ifIndex address prefixLen] s"

definition config_setMaster_request :: "int \<Rightarrow> int \<Rightarrow> u32 \<Rightarrow> u32 \<Rightarrow> bytes" where
  "config_setMaster_request ifIndex masterIfIndex flags flagsMask =
     nlmsghdr 40 RTM_NEWLINK (NLM_F_REQUEST + NLM_F_ACK) 0 @
     ifinfomsg AF_UNSPEC 0 ifIndex flags flagsMask @
     nlattr (4 + 4) IFLA_MASTER @ i32_bytes masterIfIndex"

definition config_setMaster :: "config_env \<Rightarrow> int \<Rightarrow> int \<Rightarrow> u32 \<Rightarrow> u32 \<Rightarrow> config_state \<Rightarrow> config_state option" where
  "config_setMaster env ifIndex masterIfIndex flags flagsMask s =
     route_talk env [config_setMaster_request ifIndex masterIfIndex flags flagsMask] s"

definition config_setFlags_request :: "int \<Rightarrow> u32 \<Rightarrow> u32 \<Rightarrow> bytes" where
  "config_setFlags_request ifIndex flags flagsMask =
     nlmsghdr 32 RTM_NEWLINK (NLM_F_REQUEST + NLM_F_ACK) 0 @ ifinfomsg AF_UNSPEC 0 ifIndex flags flagsMask"

definition config_setFlags :: "config_env \<Rightarrow> int \<Rightarrow> u32 \<Rightarrow> u32 \<Rightarrow> config_state \<Rightarrow> config_state option" where
  "config_setFlags env ifIndex flags flagsMask s = route_talk env [config_setFlags_request ifIndex flags flagsMask] s"

definition config_addWgRoute_request :: bytes where
  "config_addWgRoute_request =
     nlmsghdr 44 RTM_NEWROUTE (NLM_F_REQUEST + NLM_F_ACK + NLM_F_CREATE) 0 @
     rtmsg AF_INET 24 RT_TABLE_MAIN RTPROT_BOOT RT_SCOPE_LINK RTN_UNICAST @
     nlattr (4 + 4) RTA_DST @ [10, 123, 1, 0] @
     nlattr (4 + 4) RTA_OIF @ i32_bytes config_WG_IF_INDEX"

definition config_addWgRoute :: "config_env \<Rightarrow> config_state \<Rightarrow> config_state option" where
  "config_addWgRoute env s = route_talk env [config_addWgRoute_request] s"

text \<open>The lengths of the attributes are cast to 16 bits, that of the message is a 32-bit sum.\<close>

definition config_addIf_iov :: "int \<Rightarrow> bytes \<Rightarrow> u32 \<Rightarrow> bytes \<Rightarrow> u32 \<Rightarrow> u32 \<Rightarrow> u32 \<Rightarrow> bytes list" where
  "config_addIf_iov ifIndex ifName ifNameSize ifType ifTypeSize flags flagsMask =
     (let linkInfoHdr = nlattr ((4 + 4 + unat ifTypeSize) mod 65536) (IFLA_LINKINFO + NLA_F_NESTED) @
                        nlattr ((4 + unat ifTypeSize) mod 65536) IFLA_INFO_KIND;
          baseRequest = nlmsghdr ((36 + unat ifNameSize + 8 + unat ifTypeSize) mod 2 ^ 32) RTM_NEWLINK (NLM_F_REQUEST + NLM_F_ACK + NLM_F_CREATE) 0 @
                        ifinfomsg AF_UNSPEC 0 ifIndex flags flagsMask @
                        nlattr ((4 + unat ifNameSize) mod 65536) IFLA_IFNAME
      in [baseRequest, take (unat ifNameSize) ifName, linkInfoHdr, take (unat ifTypeSize) ifType])"

definition config_addIf :: "config_env \<Rightarrow> int \<Rightarrow> bytes \<Rightarrow> u32 \<Rightarrow> bytes \<Rightarrow> u32 \<Rightarrow> u32 \<Rightarrow> u32 \<Rightarrow> config_state \<Rightarrow> config_state option" where
  "config_addIf env ifIndex ifName ifNameSize ifType ifTypeSize flags flagsMask s =
     route_talk env (config_addIf_iov ifIndex ifName ifNameSize ifType ifTypeSize flags flagsMask) s"

definition config_getDevice_request :: "u16 \<Rightarrow> bytes" where
  "config_getDevice_request wgFamilyId =
     nlmsghdr 28 (unat wgFamilyId) (NLM_F_REQUEST + NLM_F_DUMP) 1 @ genlmsghdr WG_CMD_GET_DEVICE WG_GENL_VERSION @
     nlattr (4 + 4) WGDEVICE_A_IFINDEX @ i32_bytes config_WG_IF_INDEX"

text \<open>The key is encoded from the struct into a separate array, which \<open>base64_encode\<close> sees as the first bytes of one object.\<close>

definition config_printWgPublicKey :: "config_env \<Rightarrow> config_state \<Rightarrow> config_state option" where
  "config_printWgPublicKey env s =
     Option.bind (generic_talk env [config_getDevice_request (config_wgFamilyId (cs_config s))] s)
       (\<lambda>s. case find_attr (cs_buffer s) WGDEVICE_A_PUBLIC_KEY of None \<Rightarrow> None
          | Some wgPublicKey \<Rightarrow>
            let key = mem_get (cs_buffer s) (wgPublicKey + 4) 32;
                base64PublicKey = mem_get (base64_encode (replicate (base64_ENCODE_SIZE 32) 0 @ key) 0 (base64_ENCODE_SIZE 32) 32) 0 (base64_ENCODE_SIZE 32);
                out = bytes_of ''Wireguard PK: '' @ base64PublicKey @ [10];
                s = s\<lparr>cs_config := (cs_config s)\<lparr>config_wgPublicKey := key\<rparr>\<rparr>
            in if env_write env out \<noteq> int (14 + base64_ENCODE_SIZE 32 + 1) then None
               else Some (s\<lparr>cs_trace := cs_trace s @ [Write_stderr out]\<rparr>))"

text \<open>The offsets of \<open>struct setDeviceRequest\<close> that the nested attributes use; \<open>peerEnd\<close> is its size.\<close>

definition peersAttr_offset :: nat where "peersAttr_offset = 72"
definition peerEnd_offset :: nat where "peerEnd_offset = 148"

definition config_setDevice_request :: "u16 \<Rightarrow> bytes \<Rightarrow> bytes \<Rightarrow> bytes" where
  "config_setDevice_request wgFamilyId privateKey peerPublicKey =
     nlmsghdr peerEnd_offset (unat wgFamilyId) (NLM_F_REQUEST + NLM_F_ACK) 0 @ genlmsghdr WG_CMD_SET_DEVICE WG_GENL_VERSION @
     nlattr (4 + 4) WGDEVICE_A_IFINDEX @ i32_bytes config_WG_IF_INDEX @
     nlattr (4 + 32) WGDEVICE_A_PRIVATE_KEY @ privateKey @
     nlattr (4 + 2) WGDEVICE_A_LISTEN_PORT @ le_bytes 2 config_WG_LISTEN_PORT @ [0, 0] @
     nlattr (peerEnd_offset - peersAttr_offset) (WGDEVICE_A_PEERS + NLA_F_NESTED) @
     nlattr (peerEnd_offset - (peersAttr_offset + 4)) NLA_F_NESTED @
     nlattr (4 + 32) WGPEER_A_PUBLIC_KEY @ peerPublicKey @
     nlattr (peerEnd_offset - (peersAttr_offset + 44)) (WGPEER_A_ALLOWEDIPS + NLA_F_NESTED) @
     nlattr (peerEnd_offset - (peersAttr_offset + 48)) NLA_F_NESTED @
     nlattr (4 + 2) WGALLOWEDIP_A_FAMILY @ le_bytes 2 (unat AF_INET) @ [0, 0] @
     nlattr (4 + 4) WGALLOWEDIP_A_IPADDR @ [10, 123, 1, 1] @
     nlattr (4 + 1) WGALLOWEDIP_A_CIDR_MASK @ [32] @ [0, 0, 0]"

text \<open>Reading one key file: \<open>Inl\<close> is the early return or the failed \<open>CHECK\<close>.\<close>

definition read_key :: "config_env \<Rightarrow> string \<Rightarrow> config_state \<Rightarrow> config_state option + bytes" where
  "read_key env path s =
     (let (fd, content) = env_open env path; key = take 32 content
      in if fd = - ENOENT then Inl (Some s)
         else if \<not> fd > 0 then Inl None
         else if length key \<noteq> 32 then Inl None
         else Inr key)"

definition config_setWgDevice :: "config_env \<Rightarrow> config_state \<Rightarrow> config_state option" where
  "config_setWgDevice env s =
     (case read_key env ''/disk/config/wg/key'' s of Inl r \<Rightarrow> r
      | Inr privateKey \<Rightarrow>
        (case read_key env ''/disk/config/wg/peer_pk'' s of Inl r \<Rightarrow> r
         | Inr peerPublicKey \<Rightarrow>
           Option.bind (generic_talk env [config_setDevice_request (config_wgFamilyId (cs_config s)) privateKey peerPublicKey] s)
             (config_printWgPublicKey env)))"

text \<open>\<open>ioctl\<close> is the result of \<open>SIOCGIFINDEX\<close> and the index it stores.\<close>

definition config_getIfIndex :: "(bytes \<Rightarrow> int \<times> int) \<Rightarrow> bytes \<Rightarrow> int" where
  "config_getIfIndex ioctl ifName =
     (let (result, ifr_ifindex) = ioctl (take (util_cstrLen ifName + 1) ifName) in if result < 0 then - 1 else ifr_ifindex)"

definition write_one :: "config_env \<Rightarrow> string \<Rightarrow> config_state \<Rightarrow> config_state option" where
  "write_one env path s =
     (if \<not> fst (env_open env path) > 0 then None
      else if env_write env (bytes_of ''1'') \<noteq> 1 then None
      else Some (s\<lparr>cs_trace := cs_trace s @ [Write_file path (bytes_of ''1'')]\<rparr>))"

text \<open>The statements of \<open>config_configure\<close>, in order; the first failure ends the sequence.\<close>

definition config_configure_steps :: "config_env \<Rightarrow> (config_state \<Rightarrow> config_state option) list" where
  "config_configure_steps env =
     [write_one env ''/proc/sys/net/ipv4/conf/all/arp_ignore'',
      write_one env ''/proc/sys/net/ipv4/conf/all/ignore_routes_with_linkdown'',
      config_addIf env config_WAN_IF_INDEX config_WAN_IF_NAME 4 config_IFTYPE_BRIDGE 8 IFF_UP IFF_UP,
      config_setMaster env 2 config_WAN_IF_INDEX IFF_UP IFF_UP,
      config_setMaster env 3 config_WAN_IF_INDEX IFF_UP IFF_UP,
      config_setMaster env 4 config_WAN_IF_INDEX IFF_UP IFF_UP,
      config_setMaster env 5 config_WAN_IF_INDEX IFF_UP IFF_UP,
      config_addIf env config_LAN_IF_INDEX config_LAN_IF_NAME 4 config_IFTYPE_BRIDGE 8 IFF_UP IFF_UP,
      config_addIpv4 env (word_of_int config_LAN_IF_INDEX) [10, 123, 0, 1] 24,
      config_setMaster env 6 config_LAN_IF_INDEX IFF_UP IFF_UP,
      config_setMaster env 7 config_LAN_IF_INDEX IFF_UP IFF_UP,
      config_setMaster env 8 config_LAN_IF_INDEX IFF_UP IFF_UP,
      config_setMaster env 9 config_LAN_IF_INDEX IFF_UP IFF_UP,
      config_addIf env config_WG_IF_INDEX config_WG_IF_NAME 4 config_IFTYPE_WIREGUARD 12 IFF_UP IFF_UP,
      config_addWgRoute env,
      config_setWgDevice env,
      write_one env ''/proc/sys/net/ipv4/ip_forward'']"

definition config_configure :: "config_env \<Rightarrow> config_state \<Rightarrow> config_state option" where
  "config_configure env s = foldl Option.bind (Some s) (config_configure_steps env)"

definition config_deinit :: "config \<Rightarrow> int" where
  "config_deinit c = config_rtnetlinkFd c"

section \<open>The requests as attribute lists\<close>

lemmas config_constants = config_IFTYPE_WIREGUARD_def config_IFTYPE_BRIDGE_def config_WAN_IF_NAME_def config_LAN_IF_NAME_def config_WG_IF_NAME_def
  IFLA_IFNAME_def IFLA_MASTER_def IFLA_LINKINFO_def IFLA_INFO_KIND_def WGDEVICE_A_IFINDEX_def WGDEVICE_A_PRIVATE_KEY_def WGDEVICE_A_PUBLIC_KEY_def
  WGDEVICE_A_LISTEN_PORT_def WGDEVICE_A_PEERS_def WGPEER_A_PUBLIC_KEY_def WGPEER_A_ALLOWEDIPS_def WGALLOWEDIP_A_FAMILY_def WGALLOWEDIP_A_IPADDR_def
  WGALLOWEDIP_A_CIDR_MASK_def IFA_LOCAL_def RTA_DST_def RTA_OIF_def

text \<open>
  A request of type \<open>t\<close> with headers of \<open>h\<close> bytes behind the message header and the attributes \<open>as\<close>: the
  length field counts all bytes, and the rest is the attribute list.
\<close>

definition is_request :: "bytes \<Rightarrow> nat \<Rightarrow> nat \<Rightarrow> (nat \<times> bytes) list \<Rightarrow> bool" where
  "is_request r t h as \<longleftrightarrow> nlmsg_len r 0 = word_of_nat (length r) \<and> nlmsg_type r 0 = word_of_nat t \<and> 16 + h \<le> length r \<and>
     drop (16 + h) r = attrs_bytes as \<and> (\<forall>a\<in>set as. attr_wf a)"

lemma is_requestI:
  assumes "rest = attrs_bytes as" "l = 16 + length hdr + length rest" "length hdr = h" "l < 4294967296" "t < 65536" "\<forall>a\<in>set as. attr_wf a"
  shows "is_request (nlmsghdr l t f q @ hdr @ rest) t h as"
proof -
  have "length (nlmsghdr l t f q @ hdr @ rest) = l" using assms(2) by simp
  then show ?thesis using assms by (simp add: is_request_def del: length_append of_nat_add)
qed

lemma attr_bytes4: "length d mod 4 = 0 \<Longrightarrow> attr_bytes (t, d) = nlattr (4 + length d) t @ d"
  by (simp add: attr_bytes_def)

lemma attr_bytes_pad: "length d mod 4 = 2 \<Longrightarrow> attr_bytes (t, d) = nlattr (4 + length d) t @ d @ [0, 0]"
  "length d mod 4 = 1 \<Longrightarrow> attr_bytes (t, d) = nlattr (4 + length d) t @ d @ [0, 0, 0]"
  by (simp_all add: attr_bytes_def numeral_2_eq_2 [symmetric]) (simp_all add: numeral_2_eq_2 numeral_3_eq_3)

lemma simple_requests:
  assumes "length address = 4"
  shows "is_request (config_addIpv4_request ifIndex address prefixLen) RTM_NEWADDR 8 [(IFA_LOCAL, address)]"
    "is_request (config_setMaster_request i m fl ch) RTM_NEWLINK 16 [(IFLA_MASTER, i32_bytes m)]"
    "is_request (config_setFlags_request i fl ch) RTM_NEWLINK 16 []"
    "is_request config_addWgRoute_request RTM_NEWROUTE 12 [(RTA_DST, [10, 123, 1, 0]), (RTA_OIF, i32_bytes config_WG_IF_INDEX)]"
  unfolding config_addIpv4_request_def config_setMaster_request_def config_setFlags_request_def config_addWgRoute_request_def
  subgoal by (rule is_requestI) (use assms in \<open>simp_all add: attr_bytes4 attr_wf_def RTM_NEWADDR_def config_constants\<close>)
  subgoal by (rule is_requestI) (simp_all add: attr_bytes4 attr_wf_def RTM_NEWLINK_def config_constants)
  subgoal using is_requestI [of "[]" "[]" 32 "ifinfomsg AF_UNSPEC 0 i fl ch"] by (simp add: RTM_NEWLINK_def)
  subgoal by (rule is_requestI) (simp_all add: attr_bytes4 attr_wf_def RTM_NEWROUTE_def config_constants)
  done

lemma addIf_request:
  assumes "length ifName = unat ifNameSize" "length ifType = unat ifTypeSize" "unat ifNameSize < 65000" "unat ifTypeSize < 65000"
    and "unat ifNameSize mod 4 = 0" "unat ifTypeSize mod 4 = 0"
  shows "is_request (concat (config_addIf_iov i ifName ifNameSize ifType ifTypeSize fl ch)) RTM_NEWLINK 16
    [(IFLA_IFNAME, ifName), (IFLA_LINKINFO + NLA_F_NESTED, attrs_bytes [(IFLA_INFO_KIND, ifType)])]"
    "nlmsg_len (hd (config_addIf_iov i ifName ifNameSize ifType ifTypeSize fl ch)) 0 = word_of_nat (length (concat (config_addIf_iov i ifName ifNameSize ifType ifTypeSize fl ch)))"
proof -
  define l where "l = 44 + unat ifNameSize + unat ifTypeSize"
  have l: "l < 4294967296" "l = 36 + unat ifNameSize + 8 + unat ifTypeSize" using assms(3,4) by (simp_all add: l_def)
  have kind: "attrs_bytes [(IFLA_INFO_KIND, ifType)] = nlattr (4 + unat ifTypeSize) IFLA_INFO_KIND @ ifType" using assms by (simp add: attr_bytes4)
  have small: "(4 + 4 + unat ifTypeSize) mod 65536 = 8 + unat ifTypeSize" "(4 + unat ifTypeSize) mod 65536 = 4 + unat ifTypeSize" "(4 + unat ifNameSize) mod 65536 = 4 + unat ifNameSize"
    using assms(3,4) by simp_all
  have iov: "config_addIf_iov i ifName ifNameSize ifType ifTypeSize fl ch =
      [nlmsghdr l RTM_NEWLINK (NLM_F_REQUEST + NLM_F_ACK + NLM_F_CREATE) 0 @ ifinfomsg AF_UNSPEC 0 i fl ch @ nlattr (4 + unat ifNameSize) IFLA_IFNAME, ifName,
       nlattr (8 + unat ifTypeSize) (IFLA_LINKINFO + NLA_F_NESTED) @ nlattr (4 + unat ifTypeSize) IFLA_INFO_KIND, ifType]"
    using assms(1-4) l by (simp add: config_addIf_iov_def Let_def small)
  have "is_request (nlmsghdr l RTM_NEWLINK (NLM_F_REQUEST + NLM_F_ACK + NLM_F_CREATE) 0 @ ifinfomsg AF_UNSPEC 0 i fl ch @
      (nlattr (4 + unat ifNameSize) IFLA_IFNAME @ ifName @ nlattr (8 + unat ifTypeSize) (IFLA_LINKINFO + NLA_F_NESTED) @ nlattr (4 + unat ifTypeSize) IFLA_INFO_KIND @ ifType))
      RTM_NEWLINK 16 [(IFLA_IFNAME, ifName), (IFLA_LINKINFO + NLA_F_NESTED, attrs_bytes [(IFLA_INFO_KIND, ifType)])]"
    by (rule is_requestI) (use assms l in \<open>simp_all add: kind attr_bytes4 attr_wf_def RTM_NEWLINK_def NLA_F_NESTED_def config_constants l_def\<close>)
  then show "is_request (concat (config_addIf_iov i ifName ifNameSize ifType ifTypeSize fl ch)) RTM_NEWLINK 16
    [(IFLA_IFNAME, ifName), (IFLA_LINKINFO + NLA_F_NESTED, attrs_bytes [(IFLA_INFO_KIND, ifType)])]" by (simp add: iov)
  show "nlmsg_len (hd (config_addIf_iov i ifName ifNameSize ifType ifTypeSize fl ch)) 0 = word_of_nat (length (concat (config_addIf_iov i ifName ifNameSize ifType ifTypeSize fl ch)))"
    using l(1) assms(1,2) by (simp add: iov l_def)
qed

text \<open>The WireGuard device with its one peer, as nested attributes.\<close>

definition peer_attrs :: "bytes \<Rightarrow> (nat \<times> bytes) list" where
  "peer_attrs peerPublicKey =
     [(WGPEER_A_PUBLIC_KEY, peerPublicKey),
      (WGPEER_A_ALLOWEDIPS + NLA_F_NESTED, attrs_bytes
         [(NLA_F_NESTED, attrs_bytes [(WGALLOWEDIP_A_FAMILY, le_bytes 2 2), (WGALLOWEDIP_A_IPADDR, [10, 123, 1, 1]), (WGALLOWEDIP_A_CIDR_MASK, [32])])])]"

definition device_attrs :: "bytes \<Rightarrow> bytes \<Rightarrow> (nat \<times> bytes) list" where
  "device_attrs privateKey peerPublicKey =
     [(WGDEVICE_A_IFINDEX, i32_bytes config_WG_IF_INDEX), (WGDEVICE_A_PRIVATE_KEY, privateKey), (WGDEVICE_A_LISTEN_PORT, le_bytes 2 config_WG_LISTEN_PORT),
      (WGDEVICE_A_PEERS + NLA_F_NESTED, attrs_bytes [(NLA_F_NESTED, attrs_bytes (peer_attrs peerPublicKey))])]"

lemma allowedIp_bytes:
  "attrs_bytes [(WGALLOWEDIP_A_FAMILY, le_bytes 2 2), (WGALLOWEDIP_A_IPADDR, [10, 123, 1, 1]), (WGALLOWEDIP_A_CIDR_MASK, [32])] =
    nlattr (4 + 2) WGALLOWEDIP_A_FAMILY @ le_bytes 2 (unat AF_INET) @ [0, 0] @ nlattr (4 + 4) WGALLOWEDIP_A_IPADDR @ [10, 123, 1, 1] @
    nlattr (4 + 1) WGALLOWEDIP_A_CIDR_MASK @ [32] @ [0, 0, 0]"
  by (simp add: attr_bytes4 attr_bytes_pad AF_INET_def)

lemma peer_bytes:
  assumes "length pk = 32"
  shows "attrs_bytes (peer_attrs pk) = nlattr (4 + 32) WGPEER_A_PUBLIC_KEY @ pk @ nlattr 32 (WGPEER_A_ALLOWEDIPS + NLA_F_NESTED) @ nlattr 28 NLA_F_NESTED @
      nlattr (4 + 2) WGALLOWEDIP_A_FAMILY @ le_bytes 2 (unat AF_INET) @ [0, 0] @ nlattr (4 + 4) WGALLOWEDIP_A_IPADDR @ [10, 123, 1, 1] @
      nlattr (4 + 1) WGALLOWEDIP_A_CIDR_MASK @ [32] @ [0, 0, 0]"
  unfolding peer_attrs_def attrs_bytes_simps(2) [of _ "_ # _"] using assms allowedIp_bytes by (simp add: attr_bytes4)

lemma setDevice_request:
  assumes "length key = 32" "length pk = 32"
  shows "is_request (config_setDevice_request fam key pk) (unat fam) 4 (device_attrs key pk)" "length (config_setDevice_request fam key pk) = 148"
proof -
  note peer = peer_bytes [OF assms(2)]
  have len: "length (attrs_bytes (peer_attrs pk)) = 68" using assms(2) by (simp add: peer)
  then have "length (attrs_bytes [(NLA_F_NESTED, attrs_bytes (peer_attrs pk))]) = 72" by (simp add: attr_bytes4)
  then have dev: "attrs_bytes (device_attrs key pk) = nlattr (4 + 4) WGDEVICE_A_IFINDEX @ i32_bytes config_WG_IF_INDEX @ nlattr (4 + 32) WGDEVICE_A_PRIVATE_KEY @ key @
      nlattr (4 + 2) WGDEVICE_A_LISTEN_PORT @ le_bytes 2 config_WG_LISTEN_PORT @ [0, 0] @ nlattr 76 (WGDEVICE_A_PEERS + NLA_F_NESTED) @ nlattr 72 NLA_F_NESTED @ attrs_bytes (peer_attrs pk)"
    using assms(1) len by (simp add: device_attrs_def attr_bytes4 attr_bytes_pad)
  have r: "config_setDevice_request fam key pk =
      nlmsghdr 148 (unat fam) (NLM_F_REQUEST + NLM_F_ACK) 0 @ genlmsghdr WG_CMD_SET_DEVICE WG_GENL_VERSION @ attrs_bytes (device_attrs key pk)"
    unfolding dev peer by (simp add: config_setDevice_request_def peerEnd_offset_def peersAttr_offset_def)
  show "length (config_setDevice_request fam key pk) = 148" unfolding r dev using assms(1) len by simp
  have wf: "\<forall>a\<in>set (device_attrs key pk). attr_wf a"
    using assms(1) len by (simp add: device_attrs_def attr_wf_def config_constants NLA_F_NESTED_def attr_bytes4)
  show "is_request (config_setDevice_request fam key pk) (unat fam) 4 (device_attrs key pk)"
    unfolding r by (rule is_requestI) (use wf assms(1) len unat_less_width(2) [of fam] in \<open>simp_all add: dev\<close>)
qed

lemma getDevice_request:
  "is_request (config_getDevice_request fam) (unat fam) 4 [(WGDEVICE_A_IFINDEX, i32_bytes config_WG_IF_INDEX)]" "length (config_getDevice_request fam) = 28"
  unfolding config_getDevice_request_def
  subgoal by (rule is_requestI) (use unat_less_width(2) [of fam] in \<open>simp_all add: attr_bytes4 attr_wf_def config_constants\<close>)
  subgoal by simp
  done

section \<open>The sequence\<close>

definition cs_ok :: "config_state \<Rightarrow> bool" where
  "cs_ok s \<longleftrightarrow> length (cs_buffer s) = buffer_size \<and> cs_routeQueue s = []"

text \<open>A step that succeeds, has the effects \<open>t\<close> and changes the buffer at most.\<close>

definition extends :: "config_state \<Rightarrow> config_effect list \<Rightarrow> config_state \<Rightarrow> bool" where
  "extends s t s' \<longleftrightarrow> cs_ok s' \<and> s' = s\<lparr>cs_buffer := cs_buffer s', cs_trace := cs_trace s @ t\<rparr>"

definition does :: "(config_state \<Rightarrow> config_state option) \<Rightarrow> config_effect list \<Rightarrow> bool" where
  "does f t \<longleftrightarrow> (\<forall>s. cs_ok s \<longrightarrow> (\<exists>s'. f s = Some s' \<and> extends s t s'))"

lemma extends_trans: "extends s t s' \<Longrightarrow> extends s' t' s'' \<Longrightarrow> extends s (t @ t') s''"
  by (cases s; cases s'; cases s'') (simp add: extends_def)

lemma does_steps:
  assumes "list_all2 does fs ts" "cs_ok s"
  shows "\<exists>s'. foldl Option.bind (Some s) fs = Some s' \<and> extends s (concat ts) s'"
  using assms
proof (induction arbitrary: s rule: list_all2_induct)
  case Nil
  then show ?case by (simp add: extends_def)
next
  case (Cons f fs t ts)
  then obtain s1 where s1: "f s = Some s1" "extends s t s1" unfolding does_def by blast
  then have "cs_ok s1" by (simp add: extends_def)
  from Cons.IH [OF this] s1 show ?case by (auto dest: extends_trans)
qed

lemma does_route:
  assumes "kernel_acks (env_route env)" "nlmsg_len (hd iov) 0 = word_of_nat (length (concat iov))" "length (concat iov) < 4294967296"
  shows "does (route_talk env iov) [Route_request (concat iov)]"
proof -
  have "\<exists>s'. route_talk env iov s = Some s' \<and> extends s [Route_request (concat iov)] s'" if "cs_ok s" for s
  proof -
    have ok: "length (cs_buffer s) = buffer_size" "cs_routeQueue s = []" using that by (simp_all add: cs_ok_def)
    obtain ack where "netlink_talk (env_route env) (cs_buffer s, []) iov = Some (mem_put (cs_buffer s) 0 ack, [])" "netlink_ack ack"
      by (rule talk_ack [OF assms(1) ok(1) assms(2,3)])
    then show ?thesis using ok by (simp add: route_talk_def extends_def cs_ok_def netlink_ack_def buffer_size_def)
  qed
  then show ?thesis by (simp add: does_def)
qed

lemma does_request: "kernel_acks (env_route env) \<Longrightarrow> is_request r t h as \<Longrightarrow> length r < 4294967296 \<Longrightarrow> does (route_talk env [r]) [Route_request r]"
  using does_route [of env "[r]"] by (simp add: is_request_def)

lemma does_write_one: "fst (env_open env path) > 0 \<Longrightarrow> env_write env (bytes_of ''1'') = 1 \<Longrightarrow> does (write_one env path) [Write_file path (bytes_of ''1'')]"
  by (simp add: does_def write_one_def extends_def cs_ok_def)

lemma does_addIf:
  assumes "kernel_acks (env_route env)" "length ifName = unat ifNameSize" "length ifType = unat ifTypeSize" "unat ifNameSize < 65000" "unat ifTypeSize < 65000"
    and "unat ifNameSize mod 4 = 0" "unat ifTypeSize mod 4 = 0"
  shows "does (config_addIf env i ifName ifNameSize ifType ifTypeSize fl ch) [Route_request (concat (config_addIf_iov i ifName ifNameSize ifType ifTypeSize fl ch))]"
  unfolding config_addIf_def
  by (rule does_route [OF assms(1) addIf_request(2) [OF assms(2-7)]]) (use assms(2-5) in \<open>simp add: config_addIf_iov_def Let_def\<close>)

lemma does_setMaster: "kernel_acks (env_route env) \<Longrightarrow> does (config_setMaster env i m fl ch) [Route_request (config_setMaster_request i m fl ch)]"
  unfolding config_setMaster_def
  by (rule does_request [OF _ simple_requests(2) [of "replicate 4 0"]]) (simp_all add: config_setMaster_request_def)

lemma does_addIpv4: "kernel_acks (env_route env) \<Longrightarrow> length a = 4 \<Longrightarrow> does (config_addIpv4 env i a p) [Route_request (config_addIpv4_request i a p)]"
  unfolding config_addIpv4_def by (rule does_request [OF _ simple_requests(1)]) (simp_all add: config_addIpv4_request_def)

lemma does_addWgRoute: "kernel_acks (env_route env) \<Longrightarrow> does (config_addWgRoute env) [Route_request config_addWgRoute_request]"
  unfolding config_addWgRoute_def
  by (rule does_request [OF _ simple_requests(4) [of "replicate 4 0"]]) (simp_all add: config_addWgRoute_request_def)

text \<open>The effects of the first fifteen steps.\<close>

definition link_effects :: "config_effect list" where
  "link_effects =
     [Write_file ''/proc/sys/net/ipv4/conf/all/arp_ignore'' (bytes_of ''1''),
      Write_file ''/proc/sys/net/ipv4/conf/all/ignore_routes_with_linkdown'' (bytes_of ''1''),
      Route_request (concat (config_addIf_iov config_WAN_IF_INDEX config_WAN_IF_NAME 4 config_IFTYPE_BRIDGE 8 IFF_UP IFF_UP))] @
     map (\<lambda>i. Route_request (config_setMaster_request i config_WAN_IF_INDEX IFF_UP IFF_UP)) [2, 3, 4, 5] @
     [Route_request (concat (config_addIf_iov config_LAN_IF_INDEX config_LAN_IF_NAME 4 config_IFTYPE_BRIDGE 8 IFF_UP IFF_UP)),
      Route_request (config_addIpv4_request 101 [10, 123, 0, 1] 24)] @
     map (\<lambda>i. Route_request (config_setMaster_request i config_LAN_IF_INDEX IFF_UP IFF_UP)) [6, 7, 8, 9] @
     [Route_request (concat (config_addIf_iov config_WG_IF_INDEX config_WG_IF_NAME 4 config_IFTYPE_WIREGUARD 12 IFF_UP IFF_UP)),
      Route_request config_addWgRoute_request]"

definition env_ok :: "config_env \<Rightarrow> bool" where
  "env_ok env \<longleftrightarrow> kernel_acks (env_route env) \<and> env_write env (bytes_of ''1'') = 1 \<and>
     fst (env_open env ''/proc/sys/net/ipv4/conf/all/arp_ignore'') > 0 \<and>
     fst (env_open env ''/proc/sys/net/ipv4/conf/all/ignore_routes_with_linkdown'') > 0 \<and> fst (env_open env ''/proc/sys/net/ipv4/ip_forward'') > 0"

lemma link_steps:
  assumes "env_ok env" "cs_ok s"
  shows "\<exists>s'. foldl Option.bind (Some s) (take 15 (config_configure_steps env)) = Some s' \<and> extends s link_effects s'"
proof -
  have k: "kernel_acks (env_route env)" using assms(1) by (simp add: env_ok_def)
  have "list_all2 does (take 15 (config_configure_steps env)) (map (\<lambda>e. [e]) link_effects)"
    unfolding config_configure_steps_def link_effects_def
    using assms(1) does_addIf [OF k] does_setMaster [OF k] does_addIpv4 [OF k] does_addWgRoute [OF k]
    by (simp add: env_ok_def does_write_one config_constants config_LAN_IF_INDEX_def)
  from does_steps [OF this assms(2)] show ?thesis by (simp add: concat_map_singleton)
qed

section \<open>The WireGuard device\<close>

text \<open>
  The generic netlink side of the kernel for the family \<open>fam\<close>: it accepts the settings of a device, and reports a
  device with the public key \<open>key\<close> among its attributes, followed by any further datagrams.
\<close>

definition device_message :: "u16 \<Rightarrow> (nat \<times> bytes) list \<Rightarrow> bytes" where
  "device_message fam as = nlmsghdr (20 + length (attrs_bytes as)) (unat fam) 2 1 @ genlmsghdr WG_CMD_GET_DEVICE WG_GENL_VERSION @ attrs_bytes as"

definition wg_kernel :: "(bytes \<Rightarrow> int \<times> bytes list) \<Rightarrow> u16 \<Rightarrow> bytes \<Rightarrow> bool" where
  "wg_kernel gen fam key \<longleftrightarrow> 16 \<le> unat fam \<and> length key = 32 \<and>
     (\<forall>sk pk. length sk = 32 \<and> length pk = 32 \<longrightarrow> (\<exists>ack. gen (config_setDevice_request fam sk pk) = (148, [ack]) \<and> netlink_ack ack)) \<and>
     (\<exists>as later. gen (config_getDevice_request fam) = (28, device_message fam as # later) \<and> (\<forall>a\<in>set as. attr_wf a) \<and>
        map_of as WGDEVICE_A_PUBLIC_KEY = Some key \<and> 20 + length (attrs_bytes as) \<le> buffer_size)"

lemma dvd4_attrs: "4 dvd length (attrs_bytes as)"
  by (induction as) (simp_all add: length_attr_bytes)

lemma receive_device:
  assumes "16 \<le> unat fam" "20 + length (attrs_bytes as) \<le> buffer_size" "length buf = buffer_size"
  shows "netlink_receive buf (device_message fam as # later) = Some (mem_put buf 0 (device_message fam as), later)"
    "nlmsg_len (mem_put buf 0 (device_message fam as)) 0 = word_of_nat (20 + length (attrs_bytes as))"
    "length (mem_put buf 0 (device_message fam as)) = buffer_size"
proof -
  define d where "d = device_message fam as"
  have len: "length d = 20 + length (attrs_bytes as)" by (simp add: d_def device_message_def)
  have hdr: "nlmsg_len d 0 = word_of_nat (length d)" "nlmsg_type d 0 = fam"
    using assms(2) unat_less_width(2) [of fam] unfolding len by (simp_all add: d_def device_message_def buffer_size_def del: of_nat_add)
  show "netlink_receive buf (device_message fam as # later) = Some (mem_put buf 0 (device_message fam as), later)"
    unfolding d_def [symmetric]
    by (rule receive_message [OF assms(3)]) (use assms(1,2) hdr len dvd4_attrs [of as] in \<open>simp_all add: NLMSG_ERROR_def NLMSG_DONE_def\<close>)
  show "nlmsg_len (mem_put buf 0 (device_message fam as)) 0 = word_of_nat (20 + length (attrs_bytes as))"
    using hdr(1) len load_mem_put_prefix(1) [of 0 d buf] assms(2,3) unfolding d_def [symmetric] by (simp add: nlmsg_len_def del: of_nat_add)
  show "length (mem_put buf 0 (device_message fam as)) = buffer_size"
    using assms(2,3) len unfolding d_def by simp
qed

lemma find_device_key:
  assumes "16 \<le> unat fam" "20 + length (attrs_bytes as) \<le> buffer_size" "length buf = buffer_size" "\<forall>a\<in>set as. attr_wf a" "map_of as WGDEVICE_A_PUBLIC_KEY = Some key" "length key = 32"
  defines "b \<equiv> mem_put buf 0 (device_message fam as)"
  shows "\<exists>p. find_attr b WGDEVICE_A_PUBLIC_KEY = Some p \<and> mem_get b (p + 4) 32 = key"
proof -
  define pre where "pre = nlmsghdr (20 + length (attrs_bytes as)) (unat fam) 2 1 @ genlmsghdr WG_CMD_GET_DEVICE WG_GENL_VERSION"
  have b: "b = pre @ attrs_bytes as @ drop (20 + length (attrs_bytes as)) buf"
    using assms(2,3) by (simp add: b_def mem_put_def device_message_def pre_def)
  have "unat (nlmsg_len b 0) = length pre + length (attrs_bytes as)"
    using receive_device(2) [OF assms(1-3)] assms(2) by (simp add: b_def pre_def unat_of_nat buffer_size_def del: of_nat_add)
  then show ?thesis
    using findAttr_data [OF assms(4,5), of pre "drop (20 + length (attrs_bytes as)) buf"] assms(6)
    by (simp add: find_attr_def genetlink_findAttr_def b [symmetric]) (auto simp: pre_def)
qed

lemma encode_key:
  assumes "length key = 32"
  shows "mem_get (base64_encode (replicate (base64_ENCODE_SIZE 32) 0 @ key) 0 (base64_ENCODE_SIZE 32) 32) 0 (base64_ENCODE_SIZE 32) = b64 key"
proof -
  define m where "m = replicate 44 0 @ key"
  have n: "base64_ENCODE_SIZE 32 = 44" by (simp add: base64_ENCODE_SIZE_def)
  have m: "length m = 76" "mem_get m 44 32 = key" using assms by (simp_all add: m_def mem_get_def)
  have "base64_encode m 0 44 32 = mem_put m 0 (b64 key)" using base64_encode_eq [of 44 32 m 0] m by (simp add: n)
  then show ?thesis using mem_get_put_same [of 0 "b64 key" m] m(1) assms n by (simp add: m_def length_b64)
qed

definition key_line :: "bytes \<Rightarrow> bytes" where
  "key_line key = bytes_of ''Wireguard PK: '' @ b64 key @ [10]"

text \<open>Setting up the device: both requests, and the line with the public key that the kernel reports.\<close>

lemma printWgPublicKey_runs:
  assumes "wg_kernel (env_generic env) (config_wgFamilyId (cs_config s)) key" "cs_ok s" "cs_genericQueue s = []" "env_write env (key_line key) = 59"
  shows "\<exists>s'. config_printWgPublicKey env s = Some s' \<and> cs_ok s' \<and> config_wgPublicKey (cs_config s') = key \<and>
    cs_trace s' = cs_trace s @ [Generic_request (config_getDevice_request (config_wgFamilyId (cs_config s))), Write_stderr (key_line key)]"
proof -
  define fam where "fam = config_wgFamilyId (cs_config s)"
  obtain as later where gen: "env_generic env (config_getDevice_request fam) = (28, device_message fam as # later)" "\<forall>a\<in>set as. attr_wf a"
    "map_of as WGDEVICE_A_PUBLIC_KEY = Some key" "20 + length (attrs_bytes as) \<le> buffer_size" and fam: "16 \<le> unat fam" and key: "length key = 32"
    using assms(1) unfolding wg_kernel_def fam_def by blast
  have buf: "length (cs_buffer s) = buffer_size" using assms(2) by (simp add: cs_ok_def)
  define b where "b = mem_put (cs_buffer s) 0 (device_message fam as)"
  note r = receive_device [OF fam gen(4) buf, folded b_def]
  have "nlmsg_len (config_getDevice_request fam) 0 = 28" using getDevice_request [of fam] by (simp add: is_request_def)
  then have talk: "generic_talk env [config_getDevice_request fam] s =
      Some (s\<lparr>cs_buffer := b, cs_genericQueue := later, cs_trace := cs_trace s @ [Generic_request (config_getDevice_request fam)]\<rparr>)"
    using gen(1) r(1) assms(3) by (simp add: generic_talk_def genetlink_talk_def netlink_talk_def)
  obtain p where p: "find_attr b WGDEVICE_A_PUBLIC_KEY = Some p" "mem_get b (p + 4) 32 = key"
    using find_device_key [OF fam gen(4) buf gen(2,3) key] unfolding b_def by blast
  have n: "int (14 + base64_ENCODE_SIZE 32 + 1) = 59" by (simp add: base64_ENCODE_SIZE_def)
  show ?thesis
    using talk p assms(2,4) r(3) unfolding config_printWgPublicKey_def fam_def [symmetric] n
    by (simp add: Let_def encode_key [OF key] key_line_def cs_ok_def)
qed

lemma setWgDevice_runs:
  assumes "wg_kernel (env_generic env) (config_wgFamilyId (cs_config s)) key" "cs_ok s" "cs_genericQueue s = []" "env_write env (key_line key) = 59"
    and "env_open env ''/disk/config/wg/key'' = (fd1, sk)" "0 < fd1" "length sk = 32" "env_open env ''/disk/config/wg/peer_pk'' = (fd2, pk)" "0 < fd2" "length pk = 32"
  shows "\<exists>s'. config_setWgDevice env s = Some s' \<and> cs_ok s' \<and> config_wgPublicKey (cs_config s') = key \<and>
    cs_trace s' = cs_trace s @ [Generic_request (config_setDevice_request (config_wgFamilyId (cs_config s)) sk pk),
      Generic_request (config_getDevice_request (config_wgFamilyId (cs_config s))), Write_stderr (key_line key)]"
proof -
  define r where "r = config_setDevice_request (config_wgFamilyId (cs_config s)) sk pk"
  have req: "nlmsg_len r 0 = 148" using setDevice_request [OF assms(7,10)] by (simp add: is_request_def r_def)
  obtain ack where ack: "env_generic env r = (148, [ack])" "netlink_ack ack" using assms(1,7,10) unfolding wg_kernel_def r_def by blast
  define s1 where "s1 = s\<lparr>cs_buffer := mem_put (cs_buffer s) 0 ack, cs_genericQueue := [], cs_trace := cs_trace s @ [Generic_request r]\<rparr>"
  have talk: "generic_talk env [r] s = Some s1"
    using ack req assms(2,3) receive_ack [OF ack(2)] by (simp add: generic_talk_def genetlink_talk_def netlink_talk_def cs_ok_def s1_def)
  have s1: "wg_kernel (env_generic env) (config_wgFamilyId (cs_config s1)) key" "cs_ok s1" "cs_genericQueue s1 = []"
    using assms(1,2) ack(2) by (simp_all add: s1_def cs_ok_def netlink_ack_def buffer_size_def)
  have keys: "read_key env ''/disk/config/wg/key'' s = Inr sk" "read_key env ''/disk/config/wg/peer_pk'' s = Inr pk"
    using assms(5-10) by (simp_all add: read_key_def ENOENT_def)
  have "config_setWgDevice env s = config_printWgPublicKey env s1" using keys talk by (simp add: config_setWgDevice_def r_def)
  then show ?thesis using printWgPublicKey_runs [OF s1 assms(4)] by (auto simp: s1_def r_def)
qed

section \<open>Requests and configuration\<close>

text \<open>
  C16: Every request of the configuration is a well-formed netlink message: its length field counts exactly the bytes of all its segments, and behind the
  headers it is the padded list of the intended attributes, with the nested attributes (link information, peers, allowed addresses) spanning exactly
  their contents. The interface names and types must have sizes divisible by four, as the comment at \<open>config_addIf\<close> demands.
\<close>
theorem config_requests_wellformed:
  assumes "length ifName = unat ifNameSize" "length ifType = unat ifTypeSize" "unat ifNameSize < 65000" "unat ifTypeSize < 65000"
    and "unat ifNameSize mod 4 = 0" "unat ifTypeSize mod 4 = 0" "length address = 4" "length key = 32" "length pk = 32"
  shows "is_request (concat (config_addIf_iov i ifName ifNameSize ifType ifTypeSize fl ch)) RTM_NEWLINK 16
      [(IFLA_IFNAME, ifName), (IFLA_LINKINFO + NLA_F_NESTED, attrs_bytes [(IFLA_INFO_KIND, ifType)])] \<and>
    is_request (config_addIpv4_request x address prefixLen) RTM_NEWADDR 8 [(IFA_LOCAL, address)] \<and>
    is_request (config_setMaster_request i m fl ch) RTM_NEWLINK 16 [(IFLA_MASTER, i32_bytes m)] \<and>
    is_request (config_setFlags_request i fl ch) RTM_NEWLINK 16 [] \<and>
    is_request config_addWgRoute_request RTM_NEWROUTE 12 [(RTA_DST, [10, 123, 1, 0]), (RTA_OIF, i32_bytes config_WG_IF_INDEX)] \<and>
    is_request (config_setDevice_request fam key pk) (unat fam) 4 (device_attrs key pk) \<and>
    is_request (config_getDevice_request fam) (unat fam) 4 [(WGDEVICE_A_IFINDEX, i32_bytes config_WG_IF_INDEX)]"
  using addIf_request(1) [OF assms(1-6)] simple_requests [OF assms(7)] setDevice_request(1) [OF assms(8,9)] getDevice_request(1) by blast

text \<open>
  C6: With a kernel that acknowledges the route requests, \<open>config_configure\<close> runs to its end and has exactly the intended effects, in order: every
  bridge is created before ports join it and before it gets an address, and the WireGuard interface before its route and keys. Without a private key file
  the WireGuard device is left alone; with both key files it is set up, and the line printed is the base64 encoding, which decodes to the public key that the
  kernel reports for the device. Forwarding is only enabled after everything else has succeeded.
\<close>
theorem config_configure_correct:
  assumes "env_ok env" "cs_ok s" "cs_genericQueue s = []"
  shows "(fst (env_open env ''/disk/config/wg/key'') = - ENOENT \<longrightarrow> (\<exists>s'. config_configure env s = Some s' \<and>
      cs_trace s' = cs_trace s @ link_effects @ [Write_file ''/proc/sys/net/ipv4/ip_forward'' (bytes_of ''1'')])) \<and>
    (\<forall>fd1 sk fd2 pk key. env_open env ''/disk/config/wg/key'' = (fd1, sk) \<and> 0 < fd1 \<and> length sk = 32 \<and>
      env_open env ''/disk/config/wg/peer_pk'' = (fd2, pk) \<and> 0 < fd2 \<and> length pk = 32 \<and>
      wg_kernel (env_generic env) (config_wgFamilyId (cs_config s)) key \<and> env_write env (key_line key) = 59 \<longrightarrow>
      b64_decode (b64 key) = key \<and> (\<exists>s'. config_configure env s = Some s' \<and> config_wgPublicKey (cs_config s') = key \<and>
        cs_trace s' = cs_trace s @ link_effects @
          [Generic_request (config_setDevice_request (config_wgFamilyId (cs_config s)) sk pk),
           Generic_request (config_getDevice_request (config_wgFamilyId (cs_config s))), Write_stderr (key_line key),
           Write_file ''/proc/sys/net/ipv4/ip_forward'' (bytes_of ''1'')]))"
proof -
  obtain s1 where s1: "foldl Option.bind (Some s) (take 15 (config_configure_steps env)) = Some s1" "extends s link_effects s1"
    using link_steps [OF assms(1,2)] by blast
  have s1': "cs_ok s1" "cs_genericQueue s1 = []" "cs_config s1 = cs_config s" "cs_trace s1 = cs_trace s @ link_effects"
    using s1(2) assms(3) unfolding extends_def by (metis config_state.surjective config_state.update_convs config_state.select_convs)+
  have steps: "config_configure_steps env = take 15 (config_configure_steps env) @ [config_setWgDevice env, write_one env ''/proc/sys/net/ipv4/ip_forward'']"
    by (simp add: config_configure_steps_def)
  have conf: "config_configure env s = Option.bind (config_setWgDevice env s1) (write_one env ''/proc/sys/net/ipv4/ip_forward'')"
    unfolding config_configure_def by (subst steps) (simp add: s1(1))
  have last: "write_one env ''/proc/sys/net/ipv4/ip_forward'' s2 = Some (s2\<lparr>cs_trace := cs_trace s2 @ [Write_file ''/proc/sys/net/ipv4/ip_forward'' (bytes_of ''1'')]\<rparr>)" for s2
    using assms(1) by (simp add: write_one_def env_ok_def)
  have absent: "config_setWgDevice env s1 = Some s1" if "fst (env_open env ''/disk/config/wg/key'') = - ENOENT"
    using that by (cases "env_open env ''/disk/config/wg/key''") (simp add: config_setWgDevice_def read_key_def)
  show ?thesis
  proof (intro conjI impI allI)
    assume "fst (env_open env ''/disk/config/wg/key'') = - ENOENT"
    then show "\<exists>s'. config_configure env s = Some s' \<and> cs_trace s' = cs_trace s @ link_effects @ [Write_file ''/proc/sys/net/ipv4/ip_forward'' (bytes_of ''1'')]"
      using absent s1'(4) by (simp add: conf last)
  next
    fix fd1 sk fd2 pk key
    assume *: "env_open env ''/disk/config/wg/key'' = (fd1, sk) \<and> 0 < fd1 \<and> length sk = 32 \<and>
      env_open env ''/disk/config/wg/peer_pk'' = (fd2, pk) \<and> 0 < fd2 \<and> length pk = 32 \<and>
      wg_kernel (env_generic env) (config_wgFamilyId (cs_config s)) key \<and> env_write env (key_line key) = 59"
    show "b64_decode (b64 key) = key" by (rule b64_decode_b64)
    show "\<exists>s'. config_configure env s = Some s' \<and> config_wgPublicKey (cs_config s') = key \<and> cs_trace s' = cs_trace s @ link_effects @
          [Generic_request (config_setDevice_request (config_wgFamilyId (cs_config s)) sk pk),
           Generic_request (config_getDevice_request (config_wgFamilyId (cs_config s))), Write_stderr (key_line key),
           Write_file ''/proc/sys/net/ipv4/ip_forward'' (bytes_of ''1'')]"
      using setWgDevice_runs [of env s1 key fd1 sk fd2 pk] * s1' by (auto simp: conf last)
  qed
qed

section \<open>A concrete environment\<close>

text \<open>A kernel that reports the key of 32 bytes 7 for the family 20, and a file system with two keys.\<close>

definition example_generic :: "bytes \<Rightarrow> int \<times> bytes list" where
  "example_generic r = (if r = config_getDevice_request 20 then (28, [device_message 20 [(WGDEVICE_A_PUBLIC_KEY, replicate 32 7)]]) else acking_kernel r)"

definition example_env :: config_env where
  "example_env = \<lparr>env_route = acking_kernel, env_generic = example_generic, env_open = (\<lambda>path. (5, replicate 32 1)), env_write = (\<lambda>out. int (length out))\<rparr>"

definition example_state :: config_state where
  "example_state = \<lparr>cs_config = \<lparr>config_rtnetlinkFd = 4, config_wgFamilyId = 20, config_wgPublicKey = []\<rparr>, cs_buffer = replicate buffer_size 0,
     cs_routeQueue = [], cs_genericQueue = [], cs_trace = []\<rparr>"

lemma example_wg_kernel: "wg_kernel example_generic 20 (replicate 32 7)"
proof -
  have "example_generic (config_setDevice_request 20 sk pk) = acking_kernel (config_setDevice_request 20 sk pk)" if "length sk = 32" "length pk = 32" for sk pk
    using setDevice_request(2) [OF that, of 20] getDevice_request(2) [of 20] by (auto simp: example_generic_def)
  then have "\<exists>ack. example_generic (config_setDevice_request 20 sk pk) = (148, [ack]) \<and> netlink_ack ack" if "length sk = 32" "length pk = 32" for sk pk
    using that acking_kernel_acks setDevice_request(2) [OF that, of 20] unfolding kernel_acks_def by (metis of_nat_numeral)
  moreover have "example_generic (config_getDevice_request 20) = (28, [device_message 20 [(WGDEVICE_A_PUBLIC_KEY, replicate 32 7)]])" by (simp add: example_generic_def)
  ultimately show ?thesis
    unfolding wg_kernel_def by (auto simp: attr_wf_def WGDEVICE_A_PUBLIC_KEY_def length_attr_bytes buffer_size_def intro!: exI [of _ "[(4, replicate 32 7)]"])
qed

theorem config_configure_correct_witness:
  "\<exists>s'. config_configure example_env example_state = Some s' \<and> config_wgPublicKey (cs_config s') = replicate 32 7 \<and>
    cs_trace s' = link_effects @ [Generic_request (config_setDevice_request 20 (replicate 32 1) (replicate 32 1)),
      Generic_request (config_getDevice_request 20), Write_stderr (key_line (replicate 32 7)), Write_file ''/proc/sys/net/ipv4/ip_forward'' (bytes_of ''1'')]"
proof -
  have ok: "env_ok example_env" "cs_ok example_state" "cs_genericQueue example_state = []"
    by (simp_all add: env_ok_def example_env_def acking_kernel_acks cs_ok_def example_state_def)
  have "env_write example_env (key_line (replicate 32 7)) = 59" by (simp add: example_env_def key_line_def length_b64 base64_ENCODE_SIZE_def)
  then show ?thesis
    using config_configure_correct [OF ok] example_wg_kernel by (auto simp: example_env_def example_state_def)
qed

theorem config_requests_wellformed_witness:
  "is_request (concat (config_addIf_iov 101 config_LAN_IF_NAME 4 config_IFTYPE_BRIDGE 8 IFF_UP IFF_UP)) RTM_NEWLINK 16
    [(IFLA_IFNAME, config_LAN_IF_NAME), (IFLA_LINKINFO + NLA_F_NESTED, attrs_bytes [(IFLA_INFO_KIND, config_IFTYPE_BRIDGE)])]"
  using config_requests_wellformed [of config_LAN_IF_NAME 4 config_IFTYPE_BRIDGE 8 "[10, 123, 0, 1]" "replicate 32 0" "replicate 32 0"]
  by (simp add: config_constants)

end
