(* ===== verification/TelnetServer.thy ===== *)
theory TelnetServer
  imports Hc_Prelude
begin

text \<open>
  The telnet server of the router, \<^verbatim>\<open>src/router/router/telnetServer.c\<close> with the constants of
  \<^verbatim>\<open>src/hc/core/hc/telnet.h\<close>: it passes bytes between one client and a terminal and interprets telnet commands. Commands may be
  cut anywhere by the reads; an incomplete one is kept in twelve bytes of state. Results of system calls are parameters, a failed
  \<open>CHECK\<close> is \<open>None\<close>. The shell that \<open>telnetServer_init\<close> starts is another process.
\<close>

section \<open>The code\<close>

definition telnet_SE :: u8 where "telnet_SE = 240"
definition telnet_NOP :: u8 where "telnet_NOP = 241"
definition telnet_GO_AHEAD :: u8 where "telnet_GO_AHEAD = 249"
definition telnet_SB :: u8 where "telnet_SB = 250"
definition telnet_WILL :: u8 where "telnet_WILL = 251"
definition telnet_DO :: u8 where "telnet_DO = 253"
definition telnet_DONT :: u8 where "telnet_DONT = 254"
definition telnet_IAC :: u8 where "telnet_IAC = 255"
definition telnet_OPT_ECHO :: u8 where "telnet_OPT_ECHO = 1"
definition telnet_OPT_SGA :: u8 where "telnet_OPT_SGA = 3"
definition telnet_OPT_NAWS :: u8 where "telnet_OPT_NAWS = 31"

lemmas telnet_constants = telnet_SE_def telnet_NOP_def telnet_GO_AHEAD_def telnet_SB_def telnet_WILL_def telnet_DO_def telnet_DONT_def
  telnet_IAC_def telnet_OPT_ECHO_def telnet_OPT_SGA_def telnet_OPT_NAWS_def

definition CR :: u8 where "CR = 13"
definition NL :: u8 where "NL = 10"

record telnetServer =
  telnet_pidFd :: int
  telnet_listenFd :: int
  telnet_clientFd :: int
  telnet_ptMasterFd :: int
  telnet_saved :: bytes

datatype telnet_effect =
    Pt_write bytes
  | Set_winsize u16 u16
  | Client_send bytes
  | Close_fd int
  | Epoll_add int

text \<open>
  The results are, in order, those of \<open>openat\<close>, the unlock and the peer \<open>ioctl\<close>, \<open>dup3\<close>, \<open>close\<close>, \<open>clone3\<close>
  with the descriptor it stores, \<open>socket\<close>, \<open>bind\<close> and \<open>listen\<close>.
\<close>

definition telnetServer_init ::
  "telnetServer \<Rightarrow> int \<Rightarrow> int \<Rightarrow> int \<Rightarrow> int \<Rightarrow> int \<Rightarrow> int \<Rightarrow> int \<Rightarrow> int \<Rightarrow> int \<Rightarrow> int \<Rightarrow> telnetServer option" where
  "telnetServer_init self ptMasterFd unlock ptSlaveFd dup close clone pidFd listenFd bind listen =
     (if \<not> ptMasterFd > 0 then None
      else if unlock \<noteq> 0 then None
      else if \<not> ptSlaveFd > 0 then None
      else if dup \<noteq> 3 then None
      else if close \<noteq> 0 then None
      else if \<not> clone > 0 then None
      else if \<not> listenFd > 0 then None
      else if bind \<noteq> 0 then None
      else if listen \<noteq> 0 then None
      else Some (self\<lparr>telnet_clientFd := - 1, telnet_ptMasterFd := ptMasterFd, telnet_pidFd := pidFd, telnet_listenFd := listenFd\<rparr>))"

definition telnetServer_kickClient :: "telnetServer \<Rightarrow> telnetServer \<times> telnet_effect list" where
  "telnetServer_kickClient self =
     (if telnet_clientFd self \<ge> 0 then (self\<lparr>telnet_clientFd := - 1\<rparr>, [Close_fd (telnet_clientFd self)]) else (self, []))"

definition telnet_handshake :: bytes where
  "telnet_handshake = [telnet_IAC, telnet_WILL, telnet_OPT_ECHO, telnet_IAC, telnet_WILL, telnet_OPT_SGA, telnet_IAC, telnet_DO, telnet_OPT_NAWS]"

text \<open>\<open>sent\<close> is the result of sending the handshake, \<open>added\<close> that of \<open>epoll_ctl\<close>.\<close>

definition telnetServer_onListenFd :: "telnetServer \<Rightarrow> int \<Rightarrow> int \<Rightarrow> int \<Rightarrow> (telnetServer \<times> telnet_effect list) option" where
  "telnetServer_onListenFd self newClientFd sent added =
     (if newClientFd < 0 then Some (self, [])
      else
        let (self, kicked) = telnetServer_kickClient self
        in if sent \<noteq> int (length telnet_handshake) then
             let (self, kicked') = telnetServer_kickClient self in Some (self, kicked @ kicked')
           else if added \<noteq> 0 then None
           else Some (self\<lparr>telnet_saved := replicate 12 0, telnet_clientFd := newClientFd\<rparr>, kicked @ [Client_send telnet_handshake, Epoll_add newClientFd]))"

text \<open>The inner \<open>while\<close> loops: the first index from \<open>i\<close> on with a byte of \<open>stops\<close>, or the end.\<close>

function telnet_scan :: "u8 list \<Rightarrow> bytes \<Rightarrow> nat \<Rightarrow> nat \<Rightarrow> nat" where
  "telnet_scan stops buf numBuffered i =
     (if i < numBuffered \<and> buf ! i \<notin> set stops then telnet_scan stops buf numBuffered (i + 1) else i)"
  by auto
termination by (relation "measure (\<lambda>(stops, buf, numBuffered, i). numBuffered - i)") auto

declare telnet_scan.simps [simp del]

lemma scan_ge: "i \<le> telnet_scan stops buf numBuffered i"
proof (induction stops buf numBuffered i rule: telnet_scan.induct)
  case (1 stops buf numBuffered i)
  then show ?case by (subst telnet_scan.simps) auto
qed

text \<open>
  The loop of \<open>telnetServer_onPtMasterFd\<close>; \<open>send\<close> is the result of sending bytes to the client. The flag tells whether the client is kept.
\<close>

function telnetServer_onPtMasterFd_loop :: "(bytes \<Rightarrow> int) \<Rightarrow> bytes \<Rightarrow> nat \<Rightarrow> nat \<Rightarrow> telnet_effect list \<times> bool" where
  "telnetServer_onPtMasterFd_loop send buf numBuffered baseI =
     (let i = telnet_scan [CR, NL, telnet_IAC] buf numBuffered baseI;
          toSend = mem_get buf baseI (i - baseI);
          sent = (if i - baseI > 0 then [Client_send toSend] else [])
      in if i - baseI > 0 \<and> send toSend \<noteq> int (i - baseI) then ([], False)
         else if i \<ge> numBuffered then (sent, True)
         else
           let bytes = (if buf ! i = CR then [CR, 0] else if buf ! i = NL then [CR, NL] else [telnet_IAC, telnet_IAC])
           in if send bytes \<noteq> 2 then (sent, False)
              else
                let (effects, keep) = telnetServer_onPtMasterFd_loop send buf numBuffered (i + 1)
                in (sent @ [Client_send bytes] @ effects, keep))"
  by auto
termination
proof (relation "measure (\<lambda>(send, buf, numBuffered, baseI). numBuffered - baseI)", goal_cases)
  case (2 send buf numBuffered baseI i toSend sent bytes)
  then show ?case using scan_ge [of baseI "[CR, NL, telnet_IAC]" buf numBuffered] by simp
qed simp

text \<open>\<open>buf\<close> is the buffer after the read of \<open>numBuffered\<close> bytes.\<close>

definition telnetServer_onPtMasterFd :: "(bytes \<Rightarrow> int) \<Rightarrow> telnetServer \<Rightarrow> bytes \<Rightarrow> int \<Rightarrow> (telnetServer \<times> telnet_effect list) option" where
  "telnetServer_onPtMasterFd send self buf numBuffered =
     (if \<not> numBuffered > 0 then None
      else if telnet_clientFd self < 0 then Some (self, [])
      else
        let (effects, keep) = telnetServer_onPtMasterFd_loop send buf (nat numBuffered) 0
        in if keep then Some (self, effects)
           else let (self, kicked) = telnetServer_kickClient self in Some (self, effects @ kicked))"

text \<open>How the loop over the client's bytes ends: with the bytes to keep, or by kicking the client.\<close>

datatype telnet_stop = Done_writing bytes | Kick_client

text \<open>\<open>Inl\<close>: the bytes from \<open>startI\<close> were saved; \<open>Inr\<close>: the byte and the next index.\<close>

definition telnetServer_getByteOrSave :: "bytes \<Rightarrow> nat \<Rightarrow> bytes \<Rightarrow> nat \<Rightarrow> nat \<Rightarrow> telnet_stop + u8 \<times> nat" where
  "telnetServer_getByteOrSave buf numBuffered saved startI currI =
     (if currI \<ge> numBuffered then
        let toSave = numBuffered - startI
        in Inl (Done_writing (mem_put saved (12 - toSave) (mem_get buf startI toSave)))
      else Inr (buf ! currI, currI + 1))"

text \<open>One byte of a window size; a 255 is doubled.\<close>

definition telnetServer_getNawsByte :: "bytes \<Rightarrow> nat \<Rightarrow> bytes \<Rightarrow> nat \<Rightarrow> nat \<Rightarrow> telnet_stop + u8 \<times> nat" where
  "telnetServer_getNawsByte buf numBuffered saved startI currI =
     (case telnetServer_getByteOrSave buf numBuffered saved startI currI of Inl stop \<Rightarrow> Inl stop
      | Inr (b, currI) \<Rightarrow>
        if b = telnet_IAC then
          (case telnetServer_getByteOrSave buf numBuffered saved startI currI of Inl stop \<Rightarrow> Inl stop
           | Inr (b, currI) \<Rightarrow> if b \<noteq> telnet_IAC then Inl Kick_client else Inr (b, currI))
        else Inr (b, currI))"

definition telnetServer_getNawsU16OrSave :: "bytes \<Rightarrow> nat \<Rightarrow> bytes \<Rightarrow> nat \<Rightarrow> nat \<Rightarrow> telnet_stop + u16 \<times> nat" where
  "telnetServer_getNawsU16OrSave buf numBuffered saved startI currI =
     (case telnetServer_getNawsByte buf numBuffered saved startI currI of Inl stop \<Rightarrow> Inl stop
      | Inr (msb, currI) \<Rightarrow>
        (case telnetServer_getNawsByte buf numBuffered saved startI currI of Inl stop \<Rightarrow> Inl stop
         | Inr (lsb, currI) \<Rightarrow> Inr (ucast (push_bit 8 (ucast msb :: u32)) OR ucast lsb, currI)))"

text \<open>The window size subnegotiation from \<open>currI\<close> on: the effects and the next index.\<close>

definition telnetServer_naws :: "(u16 \<Rightarrow> u16 \<Rightarrow> int) \<Rightarrow> bytes \<Rightarrow> nat \<Rightarrow> bytes \<Rightarrow> nat \<Rightarrow> nat \<Rightarrow> telnet_stop + telnet_effect list \<times> nat" where
  "telnetServer_naws ioctl buf numBuffered saved i currI =
     (case telnetServer_getNawsU16OrSave buf numBuffered saved i currI of Inl stop \<Rightarrow> Inl stop
      | Inr (ws_col, currI) \<Rightarrow>
        (case telnetServer_getNawsU16OrSave buf numBuffered saved i currI of Inl stop \<Rightarrow> Inl stop
         | Inr (ws_row, currI) \<Rightarrow>
           (case telnetServer_getByteOrSave buf numBuffered saved i currI of Inl stop \<Rightarrow> Inl stop
            | Inr (iac, currI) \<Rightarrow>
              (case telnetServer_getByteOrSave buf numBuffered saved i currI of Inl stop \<Rightarrow> Inl stop
               | Inr (se, currI) \<Rightarrow>
                 if iac \<noteq> telnet_IAC \<or> se \<noteq> telnet_SE then Inl Kick_client
                 else if ioctl ws_col ws_row < 0 then Inl Kick_client
                 else Inr ([Set_winsize ws_col ws_row], currI)))))"

text \<open>The handling of the CR or IAC at \<open>i\<close>, with its second byte \<open>followup\<close>; \<open>ptWrite\<close> is the result of a write to the terminal.\<close>

definition telnetServer_special ::
  "(bytes \<Rightarrow> int) \<Rightarrow> (u16 \<Rightarrow> u16 \<Rightarrow> int) \<Rightarrow> bytes \<Rightarrow> nat \<Rightarrow> bytes \<Rightarrow> nat \<Rightarrow> u8 \<Rightarrow> nat \<Rightarrow> telnet_stop + telnet_effect list \<times> nat" where
  "telnetServer_special ptWrite ioctl buf numBuffered saved i followup currI =
     (if buf ! i = telnet_IAC then
        if telnet_NOP \<le> followup \<and> followup \<le> telnet_GO_AHEAD then Inr ([], currI)
        else if telnet_WILL \<le> followup \<and> followup \<le> telnet_DONT then
          (case telnetServer_getByteOrSave buf numBuffered saved i currI of Inl stop \<Rightarrow> Inl stop
           | Inr (opt, currI) \<Rightarrow> Inr ([], currI))
        else if followup = telnet_IAC then
          if ptWrite [buf ! i] \<noteq> 1 then Inl Kick_client else Inr ([Pt_write [buf ! i]], currI)
        else if followup = telnet_SB then
          (case telnetServer_getByteOrSave buf numBuffered saved i currI of Inl stop \<Rightarrow> Inl stop
           | Inr (opt, currI) \<Rightarrow>
             if opt = telnet_OPT_NAWS then telnetServer_naws ioctl buf numBuffered saved i currI else Inl Kick_client)
        else Inl Kick_client
      else
        let valid = (followup = 0 \<or> followup = NL)
        in if \<not> valid \<or> ptWrite [buf ! i] \<noteq> 1 then Inl Kick_client else Inr ([Pt_write [buf ! i]], currI))"

lemma getByteOrSave_progress: "telnetServer_getByteOrSave buf n saved i c = Inr (b, c') \<Longrightarrow> c' = c + 1 \<and> c < n"
  by (auto simp: telnetServer_getByteOrSave_def Let_def split: if_splits)

lemma getNawsByte_progress: "telnetServer_getNawsByte buf n saved i c = Inr (b, c') \<Longrightarrow> c < c'"
  by (auto simp: telnetServer_getNawsByte_def dest!: getByteOrSave_progress split: sum.splits if_splits)

lemma getNaws_progress: "telnetServer_getNawsU16OrSave buf n saved i c = Inr (w, c') \<Longrightarrow> c < c'"
  by (fastforce simp: telnetServer_getNawsU16OrSave_def dest!: getNawsByte_progress split: sum.splits)

lemma special_progress: "telnetServer_special ptWrite ioctl buf n saved i f c = Inr (e, c') \<Longrightarrow> c \<le> c'"
  by (fastforce simp: telnetServer_special_def telnetServer_naws_def Let_def dest!: getByteOrSave_progress getNaws_progress split: sum.splits if_splits)

function telnetServer_onClientFd_loop ::
  "(bytes \<Rightarrow> int) \<Rightarrow> (u16 \<Rightarrow> u16 \<Rightarrow> int) \<Rightarrow> bytes \<Rightarrow> nat \<Rightarrow> bytes \<Rightarrow> nat \<Rightarrow> telnet_effect list \<times> telnet_stop" where
  "telnetServer_onClientFd_loop ptWrite ioctl buf numBuffered saved baseI =
     (let i = telnet_scan [CR, telnet_IAC] buf numBuffered baseI;
          toWrite = mem_get buf baseI (i - baseI);
          written = (if i - baseI > 0 then [Pt_write toWrite] else [])
      in if i - baseI > 0 \<and> ptWrite toWrite \<noteq> int (i - baseI) then ([], Kick_client)
         else if i \<ge> numBuffered then (written, Done_writing saved)
         else
           case telnetServer_getByteOrSave buf numBuffered saved i (i + 1) of Inl stop \<Rightarrow> (written, stop)
           | Inr (followup, currI) \<Rightarrow>
             (case telnetServer_special ptWrite ioctl buf numBuffered saved i followup currI of Inl stop \<Rightarrow> (written, stop)
              | Inr (effects, currI) \<Rightarrow>
                let (effects', stop) = telnetServer_onClientFd_loop ptWrite ioctl buf numBuffered saved currI
                in (written @ effects @ effects', stop)))"
  by auto
termination
proof (relation "measure (\<lambda>(ptWrite, ioctl, buf, numBuffered, saved, baseI). numBuffered - baseI)", goal_cases)
  case (2 ptWrite ioctl buf numBuffered saved baseI i toWrite written p followup currI q effects currI')
  then have "telnetServer_getByteOrSave buf numBuffered saved i (i + 1) = Inr (followup, currI)"
    "telnetServer_special ptWrite ioctl buf numBuffered saved i followup currI = Inr (effects, currI')" by simp_all
  then have "i + 2 \<le> currI'" by (auto dest!: getByteOrSave_progress special_progress)
  then show ?case using scan_ge [of baseI "[CR, telnet_IAC]" buf numBuffered] 2 by simp
qed simp

declare telnetServer_onClientFd_loop.simps [simp del] telnetServer_onPtMasterFd_loop.simps [simp del]

text \<open>The saved bytes are put in front of the received ones; \<open>numRecv\<close> and \<open>received\<close> are the result of \<open>recvfrom\<close>.\<close>

definition telnetServer_onClientFd ::
  "(bytes \<Rightarrow> int) \<Rightarrow> (u16 \<Rightarrow> u16 \<Rightarrow> int) \<Rightarrow> telnetServer \<Rightarrow> bytes \<Rightarrow> int \<Rightarrow> bytes \<Rightarrow> telnetServer \<times> telnet_effect list" where
  "telnetServer_onClientFd ptWrite ioctl self buf numRecv received =
     (let saved = telnet_saved self;
          (numSaved, buf, saved) =
            (case find (\<lambda>i. saved ! i \<noteq> 0) [0..<12] of None \<Rightarrow> (0, buf, saved)
             | Some i \<Rightarrow> (12 - i, mem_put buf 0 (mem_get saved i (12 - i)), mem_put saved i (replicate (12 - i) 0)));
          self = self\<lparr>telnet_saved := saved\<rparr>
      in if numRecv \<le> 0 then telnetServer_kickClient self
         else
           let buf = mem_put buf numSaved received;
               (effects, stop) = telnetServer_onClientFd_loop ptWrite ioctl buf (numSaved + nat numRecv) saved 0
           in case stop of Done_writing saved \<Rightarrow> (self\<lparr>telnet_saved := saved\<rparr>, effects)
              | Kick_client \<Rightarrow> let (self, kicked) = telnetServer_kickClient self in (self, effects @ kicked))"

definition telnetServer_deinit :: "telnetServer \<Rightarrow> telnet_effect list" where
  "telnetServer_deinit self =
     (let (self, kicked) = telnetServer_kickClient self
      in kicked @ [Close_fd (telnet_pidFd self), Close_fd (telnet_listenFd self), Close_fd (telnet_ptMasterFd self)])"

section \<open>The protocol on the byte stream\<close>

text \<open>
  The abstract protocol: parsers on the stream of bytes, which need more input, reject it, or return a value and the rest.
\<close>

datatype 'a parse = Incomplete | Invalid | Parsed 'a bytes

definition bind_parse :: "'a parse \<Rightarrow> ('a \<Rightarrow> bytes \<Rightarrow> 'b parse) \<Rightarrow> 'b parse" where
  "bind_parse p f = (case p of Incomplete \<Rightarrow> Incomplete | Invalid \<Rightarrow> Invalid | Parsed a r \<Rightarrow> f a r)"

fun get_byte :: "bytes \<Rightarrow> u8 parse" where
  "get_byte [] = Incomplete"
| "get_byte (b # bs) = Parsed b bs"

text \<open>What the terminal sees: single bytes and window sizes.\<close>

datatype telnet_event = Typed u8 | Window u16 u16

definition naws_byte :: "bytes \<Rightarrow> u8 parse" where
  "naws_byte xs = bind_parse (get_byte xs) (\<lambda>b xs.
     if b = telnet_IAC then bind_parse (get_byte xs) (\<lambda>c xs. if c = telnet_IAC then Parsed c xs else Invalid) else Parsed b xs)"

definition naws_u16 :: "bytes \<Rightarrow> u16 parse" where
  "naws_u16 xs = bind_parse (naws_byte xs) (\<lambda>msb xs. bind_parse (naws_byte xs) (\<lambda>lsb xs. Parsed (word_of_nat (256 * unat msb + unat lsb)) xs))"

definition naws :: "bytes \<Rightarrow> telnet_event list parse" where
  "naws xs = bind_parse (naws_u16 xs) (\<lambda>col xs. bind_parse (naws_u16 xs) (\<lambda>row xs. bind_parse (get_byte xs) (\<lambda>iac xs. bind_parse (get_byte xs) (\<lambda>se xs.
     if iac = telnet_IAC \<and> se = telnet_SE then Parsed [Window col row] xs else Invalid))))"

text \<open>The bytes behind a CR or IAC.\<close>

definition special :: "u8 \<Rightarrow> u8 \<Rightarrow> bytes \<Rightarrow> telnet_event list parse" where
  "special b f xs =
     (if b = telnet_IAC then
        if telnet_NOP \<le> f \<and> f \<le> telnet_GO_AHEAD then Parsed [] xs
        else if telnet_WILL \<le> f \<and> f \<le> telnet_DONT then bind_parse (get_byte xs) (\<lambda>opt xs. Parsed [] xs)
        else if f = telnet_IAC then Parsed [Typed b] xs
        else if f = telnet_SB then bind_parse (get_byte xs) (\<lambda>opt xs. if opt = telnet_OPT_NAWS then naws xs else Invalid)
        else Invalid
      else if f = 0 \<or> f = NL then Parsed [Typed b] xs else Invalid)"

definition one_unit :: "bytes \<Rightarrow> telnet_event list parse" where
  "one_unit xs = bind_parse (get_byte xs) (\<lambda>b xs.
     if b = CR \<or> b = telnet_IAC then bind_parse (get_byte xs) (special b) else Parsed [Typed b] xs)"

text \<open>A parser that, given more input, does not change its mind, and that consumes at most \<open>k\<close> bytes while it needs more.\<close>

definition robust :: "nat \<Rightarrow> (bytes \<Rightarrow> 'a parse) \<Rightarrow> bool" where
  "robust k p \<longleftrightarrow> (\<forall>xs ys a r. p xs = Parsed a r \<longrightarrow> p (xs @ ys) = Parsed a (r @ ys) \<and> length r \<le> length xs \<and> length xs \<le> length r + k) \<and>
     (\<forall>xs ys. p xs = Invalid \<longrightarrow> p (xs @ ys) = Invalid) \<and> (\<forall>xs. p xs = Incomplete \<longrightarrow> length xs < k)"

lemma robust_bind:
  assumes p: "robust k p" and f: "\<And>a. robust l (f a)"
  shows "robust (k + l) (\<lambda>xs. bind_parse (p xs) f)"
  unfolding robust_def
proof (intro conjI allI impI)
  fix xs ys a r
  assume "bind_parse (p xs) f = Parsed a r"
  then obtain b s where b: "p xs = Parsed b s" "f b s = Parsed a r" by (auto simp: bind_parse_def split: parse.splits)
  then have *: "p (xs @ ys) = Parsed b (s @ ys)" "length s \<le> length xs" "length xs \<le> length s + k" "f b (s @ ys) = Parsed a (r @ ys)" "length r \<le> length s" "length s \<le> length r + l"
    using p f [of b] unfolding robust_def by blast+
  then show "bind_parse (p (xs @ ys)) f = Parsed a (r @ ys)" by (simp add: bind_parse_def)
  show "length r \<le> length xs" "length xs \<le> length r + (k + l)" using * by simp_all
next
  fix xs ys
  assume "bind_parse (p xs) f = Invalid"
  then consider "p xs = Invalid" | b s where "p xs = Parsed b s" "f b s = Invalid" by (auto simp: bind_parse_def split: parse.splits)
  then show "bind_parse (p (xs @ ys)) f = Invalid"
  proof cases
    case 1
    then have "p (xs @ ys) = Invalid" using p unfolding robust_def by blast
    then show ?thesis by (simp add: bind_parse_def)
  next
    case (2 b s)
    then have "p (xs @ ys) = Parsed b (s @ ys)" "f b (s @ ys) = Invalid" using p f [of b] unfolding robust_def by blast+
    then show ?thesis by (simp add: bind_parse_def)
  qed
next
  fix xs
  assume "bind_parse (p xs) f = Incomplete"
  then consider "p xs = Incomplete" | b s where "p xs = Parsed b s" "f b s = Incomplete" by (auto simp: bind_parse_def split: parse.splits)
  then show "length xs < k + l"
  proof cases
    case 1
    then have "length xs < k" using p unfolding robust_def by blast
    then show ?thesis by simp
  next
    case (2 b s)
    then have "length xs \<le> length s + k" "length s < l" using p f [of b] unfolding robust_def by blast+
    then show ?thesis by simp
  qed
qed

lemma robust_mono: "robust k p \<Longrightarrow> k \<le> l \<Longrightarrow> robust l p"
  unfolding robust_def by (meson add_left_mono le_trans less_le_trans)

lemma robust_if: "robust k p \<Longrightarrow> robust k q \<Longrightarrow> robust k (\<lambda>xs. if c then p xs else q xs)"
  by (cases c) simp_all

lemma robust_Parsed: "robust k (Parsed a)"
  by (simp add: robust_def)

lemma robust_Invalid: "robust k (\<lambda>xs. Invalid)"
  by (simp add: robust_def)

lemma robust_get_byte: "robust 1 get_byte"
proof -
  have "get_byte xs = (case xs of [] \<Rightarrow> Incomplete | b # bs \<Rightarrow> Parsed b bs)" for xs by (cases xs) simp_all
  then show ?thesis by (auto simp: robust_def split: list.splits)
qed

lemmas robust_intros = robust_bind robust_if robust_Parsed robust_Invalid robust_get_byte

lemma robust_naws_byte: "robust (1 + (1 + 0)) naws_byte"
  unfolding naws_byte_def
  by (rule robust_bind [OF robust_get_byte robust_if [OF robust_bind [OF robust_get_byte robust_if [OF robust_Parsed robust_Invalid]] robust_Parsed]])

lemma robust_naws_u16: "robust (1 + (1 + 0) + (1 + (1 + 0) + 0)) naws_u16"
  unfolding naws_u16_def by (intro robust_intros robust_naws_byte)

lemma robust_naws: "robust 10 naws"
proof -
  have "robust (1 + (1 + 0) + (1 + (1 + 0) + 0) + (1 + (1 + 0) + (1 + (1 + 0) + 0) + (1 + (1 + 0)))) naws"
    unfolding naws_def by (intro robust_intros robust_naws_u16)
  then show ?thesis by (simp add: eval_nat_numeral)
qed

lemma robust_special: "robust 11 (special b f)"
proof -
  have "robust 11 (\<lambda>xs. bind_parse (get_byte xs) (\<lambda>opt xs. if opt = telnet_OPT_NAWS then naws xs else Invalid))"
    using robust_bind [OF robust_get_byte robust_if [OF robust_naws robust_Invalid]] by simp
  moreover have "robust 11 (\<lambda>xs. bind_parse (get_byte xs) (\<lambda>opt xs. Parsed [] xs :: telnet_event list parse))"
    by (rule robust_mono [OF robust_bind [OF robust_get_byte robust_Parsed [of 0]]]) simp
  ultimately show ?thesis unfolding special_def by (intro robust_if robust_Parsed robust_Invalid)
qed

lemma robust_unit: "robust 13 one_unit"
proof -
  have "robust 12 (\<lambda>xs. bind_parse (get_byte xs) (special b))" for b using robust_bind [OF robust_get_byte robust_special] by simp
  from robust_bind [OF robust_get_byte robust_if [OF this robust_Parsed]] show ?thesis unfolding one_unit_def by simp
qed

lemma special_shrinks: "special b f xs = Parsed e r \<Longrightarrow> length r \<le> length xs"
  using robust_special [of b f] unfolding robust_def by blast

lemma unit_progress: "one_unit xs = Parsed e r \<Longrightarrow> length r < length xs"
proof (cases xs)
  case (Cons b bs)
  assume "one_unit xs = Parsed e r"
  then show ?thesis
    using Cons unfolding one_unit_def by (cases bs) (auto simp: bind_parse_def dest!: special_shrinks split: if_splits)
qed (simp add: one_unit_def bind_parse_def)

text \<open>The whole stream: the events, and the incomplete rest, or \<open>None\<close> where the stream is rejected.\<close>

function decode :: "bytes \<Rightarrow> telnet_event list \<times> bytes option" where
  "decode xs =
     (if xs = [] then ([], Some [])
      else case one_unit xs of Incomplete \<Rightarrow> ([], Some xs) | Invalid \<Rightarrow> ([], None)
           | Parsed e r \<Rightarrow> (let (es, rest) = decode r in (e @ es, rest)))"
  by auto
termination by (relation "measure length") (auto dest: unit_progress)

declare decode.simps [simp del]

lemma decode_Nil [simp]: "decode [] = ([], Some [])"
  by (simp add: decode.simps)

lemma one_unit_Nil: "one_unit xs = Parsed e r \<Longrightarrow> xs \<noteq> []" "one_unit xs = Invalid \<Longrightarrow> xs \<noteq> []"
  by (auto simp: one_unit_def bind_parse_def)

lemma decode_Parsed: "one_unit xs = Parsed e r \<Longrightarrow> decode xs = (e @ fst (decode r), snd (decode r))"
  by (subst decode.simps) (auto simp: one_unit_Nil split: prod.splits)

lemma decode_Invalid: "one_unit xs = Invalid \<Longrightarrow> decode xs = ([], None)"
  by (subst decode.simps) (simp add: one_unit_Nil)

lemma decode_Incomplete: "one_unit xs = Incomplete \<Longrightarrow> decode xs = ([], Some xs)"
  by (subst decode.simps) simp

text \<open>A stream can be decoded piece by piece, if the rest of one piece is put in front of the next.\<close>

lemma decode_append:
  "decode (xs @ ys) = (case decode xs of (es, None) \<Rightarrow> (es, None) | (es, Some r) \<Rightarrow> (es @ fst (decode (r @ ys)), snd (decode (r @ ys))))"
proof (induction xs rule: decode.induct)
  case (1 xs)
  show ?case
  proof (cases "one_unit xs")
    case Incomplete
    then show ?thesis by (simp add: decode_Incomplete)
  next
    case Invalid
    then have "one_unit (xs @ ys) = Invalid" using robust_unit unfolding robust_def by blast
    then show ?thesis using Invalid by (simp add: decode_Invalid)
  next
    case (Parsed e r)
    then have "one_unit (xs @ ys) = Parsed e (r @ ys)" using robust_unit unfolding robust_def by blast
    then show ?thesis
      using Parsed 1 [OF one_unit_Nil(1) [OF Parsed] Parsed] by (simp add: decode_Parsed split: prod.splits option.splits)
  qed
qed

text \<open>The rest is short enough for the twelve bytes, and starts with a CR or IAC, so that it can be found again behind the zeros.\<close>

lemma decode_rest: "decode xs = (es, Some r) \<Longrightarrow> length r \<le> 12 \<and> (r = [] \<or> hd r \<noteq> 0)"
proof (induction xs arbitrary: es rule: decode.induct)
  case (1 xs)
  show ?case
  proof (cases "one_unit xs")
    case Incomplete
    have "length xs < 13" using Incomplete robust_unit unfolding robust_def by blast
    moreover have "xs = [] \<or> hd xs \<noteq> 0" using Incomplete by (cases xs) (auto simp: one_unit_def bind_parse_def CR_def telnet_IAC_def split: if_splits)
    ultimately show ?thesis using 1(2) Incomplete by (simp add: decode_Incomplete)
  next
    case Invalid
    then show ?thesis using 1(2) by (simp add: decode_Invalid)
  next
    case (Parsed e t)
    then have "decode t = (fst (decode t), Some r)" using 1(2) by (auto simp: decode_Parsed prod_eq_iff)
    then show ?thesis using 1(1) [OF one_unit_Nil(1) [OF Parsed] Parsed] by blast
  qed
qed

lemma decode_idem: "decode xs = (es, Some r) \<Longrightarrow> decode r = ([], Some r)"
proof (induction xs arbitrary: es rule: decode.induct)
  case (1 xs)
  show ?case
  proof (cases "one_unit xs")
    case Incomplete
    then show ?thesis using 1(2) by (simp add: decode_Incomplete)
  next
    case Invalid
    then show ?thesis using 1(2) by (simp add: decode_Invalid)
  next
    case (Parsed e t)
    then have "decode t = (fst (decode t), Some r)" using 1(2) by (auto simp: decode_Parsed prod_eq_iff)
    then show ?thesis using 1(1) [OF one_unit_Nil(1) [OF Parsed] Parsed] by blast
  qed
qed

lemma decode_plain: "\<forall>b\<in>set ps. b \<noteq> CR \<and> b \<noteq> telnet_IAC \<Longrightarrow> decode (ps @ xs) = (map Typed ps @ fst (decode xs), snd (decode xs))"
proof (induction ps)
  case (Cons b ps)
  then have "one_unit ((b # ps) @ xs) = Parsed [Typed b] (ps @ xs)" by (simp add: one_unit_def bind_parse_def)
  then show ?case using Cons by (simp add: decode_Parsed)
qed simp

section \<open>The loop decodes the stream\<close>

text \<open>A step of the code against a parser: \<open>sv\<close> are the saved bytes where it needs more input, and \<open>f\<close> relates the values.\<close>

definition matches :: "bytes \<Rightarrow> nat \<Rightarrow> bytes \<Rightarrow> ('a \<Rightarrow> 'b) \<Rightarrow> telnet_stop + 'a \<times> nat \<Rightarrow> 'b parse \<Rightarrow> bool" where
  "matches buf n sv f res p = (case p of Incomplete \<Rightarrow> res = Inl (Done_writing sv) | Invalid \<Rightarrow> res = Inl Kick_client
     | Parsed a r \<Rightarrow> (\<exists>v c. res = Inr (v, c) \<and> f v = a \<and> c \<le> n \<and> r = drop c (take n buf)))"

definition save :: "bytes \<Rightarrow> bytes \<Rightarrow> bytes" where
  "save saved r = mem_put saved (12 - length r) r"

lemma matches_bind:
  assumes "matches buf n sv f res p" "\<And>v c. c \<le> n \<Longrightarrow> res = Inr (v, c) \<Longrightarrow> matches buf n sv g (k v c) (q (f v) (drop c (take n buf)))"
  shows "matches buf n sv g (case res of Inl stop \<Rightarrow> Inl stop | Inr (v, c) \<Rightarrow> k v c) (bind_parse p q)"
proof (cases p)
  case (Parsed a r)
  then obtain v c where v: "res = Inr (v, c)" "f v = a" "c \<le> n" "r = drop c (take n buf)" using assms(1) by (auto simp: matches_def)
  then show ?thesis using assms(2) [OF v(3,1)] Parsed by (simp add: bind_parse_def)
qed (use assms(1) in \<open>simp_all add: matches_def bind_parse_def\<close>)

lemma getByteOrSave_matches:
  assumes "n \<le> length buf" "c \<le> n"
  shows "matches buf n (save saved (drop i (take n buf))) (\<lambda>b. b) (telnetServer_getByteOrSave buf n saved i c) (get_byte (drop c (take n buf)))"
proof (cases "c < n")
  case True
  then have "drop c (take n buf) = buf ! c # drop (c + 1) (take n buf)" using assms(1) by (simp add: Cons_nth_drop_Suc [symmetric])
  then show ?thesis using True by (simp add: matches_def telnetServer_getByteOrSave_def)
next
  case False
  then have "mem_get buf i (n - i) = drop i (take n buf)" by (simp add: mem_get_def drop_take)
  then show ?thesis using False assms by (simp add: matches_def telnetServer_getByteOrSave_def save_def Let_def)
qed

lemma matches_Parsed: "c \<le> n \<Longrightarrow> f v = a \<Longrightarrow> matches buf n sv f (Inr (v, c)) (Parsed a (drop c (take n buf)))"
  by (simp add: matches_def)

lemma matches_Invalid: "matches buf n sv f (Inl Kick_client) Invalid"
  by (simp add: matches_def)

lemma matches_if:
  assumes "matches buf n sv f a p" "matches buf n sv f b q"
  shows "matches buf n sv f (if c then a else b) (if c then p else q)"
  using assms by simp

lemma nawsByte_matches:
  assumes "n \<le> length buf" "c \<le> n"
  shows "matches buf n (save saved (drop i (take n buf))) (\<lambda>b. b) (telnetServer_getNawsByte buf n saved i c) (naws_byte (drop c (take n buf)))"
  unfolding telnetServer_getNawsByte_def naws_byte_def
  by (rule matches_bind [OF getByteOrSave_matches [OF assms]])
    (auto intro!: matches_bind [OF getByteOrSave_matches [OF assms(1)]] simp: matches_Parsed matches_Invalid)

lemma u16_of_bytes: "(ucast (push_bit 8 (ucast msb :: u32)) OR ucast lsb :: u16) = word_of_nat (256 * unat msb + unat lsb)" for msb lsb :: u8
proof -
  have msb: "(ucast (push_bit 8 (ucast msb :: u32)) :: u16) = push_bit 8 (ucast msb)"
    using unat_less_width(1) [of msb] by (intro unat_eqI) (simp add: unat_ucast unat_push_bit)
  have "unat (push_bit 8 (ucast msb :: u16) OR ucast lsb) = unat (ucast msb :: u16) * 2 ^ 8 + unat (ucast lsb :: u16)"
    using unat_less_width(1) [of msb] unat_less_width(1) [of lsb] by (intro unat_push_or) (simp_all add: unat_ucast_up)
  also have "\<dots> = unat (word_of_nat (256 * unat msb + unat lsb) :: u16)"
    using unat_less_width(1) [of msb] unat_less_width(1) [of lsb] by (simp add: unat_ucast_up unat_of_nat del: of_nat_add of_nat_mult)
  finally show ?thesis unfolding msb by (rule unat_eqI)
qed

lemma nawsU16_matches:
  assumes "n \<le> length buf" "c \<le> n"
  shows "matches buf n (save saved (drop i (take n buf))) (\<lambda>b. b) (telnetServer_getNawsU16OrSave buf n saved i c) (naws_u16 (drop c (take n buf)))"
  unfolding telnetServer_getNawsU16OrSave_def naws_u16_def
  by (rule matches_bind [OF nawsByte_matches [OF assms]], rule matches_bind [OF nawsByte_matches [OF assms(1)]]) (auto simp: matches_Parsed u16_of_bytes)

text \<open>The effects that reach the terminal, as events.\<close>

fun event_of :: "telnet_effect \<Rightarrow> telnet_event list" where
  "event_of (Pt_write bs) = map Typed bs"
| "event_of (Set_winsize c r) = [Window c r]"
| "event_of _ = []"

definition events :: "telnet_effect list \<Rightarrow> telnet_event list" where
  "events effects = concat (map event_of effects)"

lemma events_simps [simp]: "events [] = []" "events (e # es) = event_of e @ events es" "events (es @ fs) = events es @ events fs"
  by (simp_all add: events_def)

lemma naws_matches:
  assumes "n \<le> length buf" "c \<le> n" "\<And>col row. 0 \<le> ioctl col row"
  shows "matches buf n (save saved (drop i (take n buf))) events (telnetServer_naws ioctl buf n saved i c) (naws (drop c (take n buf)))"
  unfolding telnetServer_naws_def naws_def
  by (rule matches_bind [OF nawsU16_matches [OF assms(1,2)]], rule matches_bind [OF nawsU16_matches [OF assms(1)]], assumption,
      rule matches_bind [OF getByteOrSave_matches [OF assms(1)]], assumption, rule matches_bind [OF getByteOrSave_matches [OF assms(1)]], assumption)
    (auto simp: assms(3) [THEN leD] matches_Parsed matches_Invalid)

lemma special_matches:
  assumes "n \<le> length buf" "c \<le> n" "\<And>col row. 0 \<le> ioctl col row" "\<And>bs. ptWrite bs = int (length bs)"
  shows "matches buf n (save saved (drop i (take n buf))) events (telnetServer_special ptWrite ioctl buf n saved i f c) (special (buf ! i) f (drop c (take n buf)))"
proof -
  have opt: "matches buf n (save saved (drop i (take n buf))) events
      (case telnetServer_getByteOrSave buf n saved i c of Inl stop \<Rightarrow> Inl stop | Inr (opt, currI) \<Rightarrow> Inr ([], currI))
      (bind_parse (get_byte (drop c (take n buf))) (\<lambda>opt xs. Parsed [] xs))"
    by (rule matches_bind [OF getByteOrSave_matches [OF assms(1,2)]]) (simp add: matches_Parsed)
  have sb: "matches buf n (save saved (drop i (take n buf))) events
      (case telnetServer_getByteOrSave buf n saved i c of Inl stop \<Rightarrow> Inl stop
       | Inr (opt, currI) \<Rightarrow> if opt = telnet_OPT_NAWS then telnetServer_naws ioctl buf n saved i currI else Inl Kick_client)
      (bind_parse (get_byte (drop c (take n buf))) (\<lambda>opt xs. if opt = telnet_OPT_NAWS then naws xs else Invalid))"
    by (rule matches_bind [OF getByteOrSave_matches [OF assms(1,2)]]) (use naws_matches [OF assms(1) _ assms(3)] in \<open>simp add: matches_Invalid\<close>)
  show ?thesis
    unfolding telnetServer_special_def special_def
    by (intro matches_if opt sb) (simp_all add: assms(2,4) matches_Parsed matches_Invalid Let_def)
qed

text \<open>The scan stops at the first of the given bytes, or at the end.\<close>

lemma scan_props:
  fixes stops :: "u8 list"
  assumes "n \<le> length buf" "i \<le> n"
  defines "j \<equiv> telnet_scan stops buf n i"
  shows "i \<le> j" "j \<le> n" "\<forall>b\<in>set (mem_get buf i (j - i)). b \<notin> set stops" "j < n \<Longrightarrow> buf ! j \<in> set stops"
proof -
  have "i \<le> j \<and> j \<le> n \<and> (\<forall>k. i \<le> k \<and> k < j \<longrightarrow> buf ! k \<notin> set stops) \<and> (j < n \<longrightarrow> buf ! j \<in> set stops)"
    using assms(1,2) unfolding j_def
  proof (induction stops buf n i rule: telnet_scan.induct)
    case (1 stops buf n i)
    show ?case
    proof (cases "i < n \<and> buf ! i \<notin> set stops")
      case True
      then have eq: "telnet_scan stops buf n i = telnet_scan stops buf n (i + 1)" by (subst telnet_scan.simps) simp
      from True have "Suc i \<le> n" by simp
      with 1 True show ?thesis unfolding eq by (metis Suc_eq_plus1 Suc_leD le_antisym not_less_eq_eq)
    next
      case False
      then have "telnet_scan stops buf n i = i" by (subst telnet_scan.simps) auto
      then show ?thesis using False 1 by auto
    qed
  qed
  then have *: "i \<le> j" "j \<le> n" "\<And>k. i \<le> k \<Longrightarrow> k < j \<Longrightarrow> buf ! k \<notin> set stops" "j < n \<Longrightarrow> buf ! j \<in> set stops" by blast+
  then show "i \<le> j" "j \<le> n" "j < n \<Longrightarrow> buf ! j \<in> set stops" by blast+
  have "\<exists>k. i \<le> k \<and> k < j \<and> b = buf ! k" if b: "b \<in> set (mem_get buf i (j - i))" for b
  proof -
    obtain k where k: "k < j - i" "b = mem_get buf i (j - i) ! k"
      using b *(2) assms(1) by (auto simp: in_set_conv_nth mem_get_def)
    then have "b = buf ! (i + k)" using nth_mem_get [of i "j - i" buf k] *(1,2) assms(1) by simp
    then show ?thesis using k(1) by (intro exI [of _ "i + k"]) simp
  qed
  then show "\<forall>b\<in>set (mem_get buf i (j - i)). b \<notin> set stops" using *(3) by blast
qed

lemma split_at:
  assumes "n \<le> length buf" "i \<le> j" "j \<le> n"
  shows "drop i (take n buf) = mem_get buf i (j - i) @ drop j (take n buf)"
proof -
  have "drop i (take n buf) = take (j - i) (drop i (take n buf)) @ drop (j - i) (drop i (take n buf))"
    by (rule append_take_drop_id [symmetric])
  moreover have "take (j - i) (drop i (take n buf)) = mem_get buf i (j - i)" using assms by (simp add: mem_get_def drop_take min_def)
  ultimately show ?thesis using assms(2) by simp
qed

lemma loop_decodes:
  assumes "n \<le> length buf" "i \<le> n" "\<And>col row. 0 \<le> ioctl col row" "\<And>bs. ptWrite bs = int (length bs)"
  shows "case telnetServer_onClientFd_loop ptWrite ioctl buf n saved i of (effects, stop) \<Rightarrow>
    events effects = fst (decode (drop i (take n buf))) \<and>
    stop = (case snd (decode (drop i (take n buf))) of None \<Rightarrow> Kick_client | Some r \<Rightarrow> Done_writing (save saved r))"
  using assms(2)
proof (induction "n - i" arbitrary: i rule: less_induct)
  case less
  define L where "L k = drop k (take n buf)" for k
  define j where "j = telnet_scan [CR, telnet_IAC] buf n i"
  note j = scan_props [OF assms(1) less.prems, of "[CR, telnet_IAC]", folded j_def]
  define ps where "ps = mem_get buf i (j - i)"
  have plain: "decode (L i) = (map Typed ps @ fst (decode (L j)), snd (decode (L j)))"
    unfolding L_def split_at [OF assms(1) j(1,2)] ps_def by (rule decode_plain) (use j(3) in auto)
  have wr: "(j - i > 0 \<and> ptWrite ps \<noteq> int (j - i)) = False" using assms(1,4) j(1,2) by (simp add: ps_def mem_get_def)
  define w where "w = (if j - i > 0 then [Pt_write ps] else [])"
  have w: "events w = map Typed ps" by (simp add: w_def ps_def)
  note step = telnetServer_onClientFd_loop.simps [of ptWrite ioctl buf n saved i, unfolded Let_def, folded j_def, folded ps_def, folded w_def, unfolded wr if_False]
  show ?case
  proof (cases "j < n")
    case False
    then have "L j = []" "n = j" using j(2) by (simp_all add: L_def)
    then show ?thesis unfolding step L_def [symmetric] plain using w False by (simp add: save_def)
  next
    case True
    then have Lj: "L j = buf ! j # L (j + 1)" using assms(1) by (simp add: L_def Cons_nth_drop_Suc [symmetric])
    have u: "one_unit (L j) = bind_parse (get_byte (L (j + 1))) (special (buf ! j))"
      using j(4) [OF True] unfolding Lj by (auto simp: one_unit_def bind_parse_def)
    define res where "res = (case telnetServer_getByteOrSave buf n saved j (j + 1) of Inl stop \<Rightarrow> Inl stop
        | Inr (f, c) \<Rightarrow> telnetServer_special ptWrite ioctl buf n saved j f c)"
    have m: "matches buf n (save saved (L j)) events res (one_unit (L j))"
      unfolding u unfolding res_def L_def
      by (rule matches_bind [OF getByteOrSave_matches [OF assms(1)]]) (use True special_matches [OF assms(1) _ assms(3,4)] in auto)
    have loop: "telnetServer_onClientFd_loop ptWrite ioctl buf n saved i =
        (case res of Inl stop \<Rightarrow> (w, stop) | Inr (e, c) \<Rightarrow> (let (e', stop) = telnetServer_onClientFd_loop ptWrite ioctl buf n saved c in (w @ e @ e', stop)))"
      unfolding step res_def using True by (simp add: not_le split: sum.splits)
    show ?thesis
    proof (cases "one_unit (L j)")
      case Incomplete
      then show ?thesis using m w unfolding loop L_def [symmetric] plain by (simp add: matches_def decode_Incomplete)
    next
      case Invalid
      then show ?thesis using m w unfolding loop L_def [symmetric] plain by (simp add: matches_def decode_Invalid)
    next
      case (Parsed e r)
      then obtain v c where c: "res = Inr (v, c)" "events v = e" "c \<le> n" "r = L c" using m by (auto simp: matches_def L_def)
      have "n - c < n - i" using unit_progress [OF Parsed] c(3,4) True j(1) assms(1) unfolding L_def by (simp add: min_def) 
      from less.hyps [OF this c(3)] show ?thesis
        using c(1,2,4) w unfolding loop L_def [symmetric] plain decode_Parsed [OF Parsed] by (simp split: prod.splits)
    qed
  qed
qed

section \<open>Reads that cut commands\<close>

text \<open>The saved bytes: zeros, then the incomplete command \<open>r\<close>.\<close>

definition pending :: "telnetServer \<Rightarrow> bytes \<Rightarrow> bool" where
  "pending self r \<longleftrightarrow> telnet_saved self = replicate (12 - length r) 0 @ r \<and> length r \<le> 12 \<and> (r = [] \<or> hd r \<noteq> 0)"

lemma find_saved:
  assumes "length r \<le> 12" "r \<noteq> []" "hd r \<noteq> 0"
  shows "find (\<lambda>i. (replicate (12 - length r) 0 @ r) ! i \<noteq> 0) [0..<12] = Some (12 - length r)"
proof -
  let ?k = "12 - length r"
  have k: "?k < 12" using assms(1,2) by (cases r) auto
  have "[0..<12] = [0..<?k] @ ?k # [Suc ?k..<12]" using k upt_add_eq_append [of 0 ?k "12 - ?k"] upt_conv_Cons [of ?k 12] by simp
  moreover have "find (\<lambda>i. (replicate ?k 0 @ r) ! i \<noteq> 0) [0..<?k] = None" by (simp add: find_None_iff nth_append)
  moreover have "(replicate ?k 0 @ r) ! ?k \<noteq> 0" using assms(2,3) by (simp add: nth_append hd_conv_nth)
  moreover have "find P (xs @ y # ys) = Some y" if "find P xs = None" "P y" for P xs and y :: nat and ys
    using that by (induction xs) (auto split: if_splits)
  ultimately show ?thesis by metis
qed

lemma find_saved_Nil: "find (\<lambda>i. (replicate 12 0 :: bytes) ! i \<noteq> 0) [0..<12] = None"
  by (simp add: find_None_iff)

lemma restore:
  assumes "pending self r" "12 + length received \<le> length buf"
  shows "telnetServer_onClientFd ptWrite ioctl self buf numRecv received =
    (let self = self\<lparr>telnet_saved := replicate 12 0\<rparr>
     in if numRecv \<le> 0 then telnetServer_kickClient self
        else
          let (effects, stop) = telnetServer_onClientFd_loop ptWrite ioctl (mem_put buf 0 (r @ received)) (length r + nat numRecv) (replicate 12 0) 0
          in case stop of Done_writing saved \<Rightarrow> (self\<lparr>telnet_saved := saved\<rparr>, effects)
             | Kick_client \<Rightarrow> let (self, kicked) = telnetServer_kickClient self in (self, effects @ kicked))"
proof (cases "r = []")
  case True
  then show ?thesis using assms(1) find_saved_Nil by (simp add: telnetServer_onClientFd_def pending_def Let_def)
next
  case False
  have r: "telnet_saved self = replicate (12 - length r) 0 @ r" "length r \<le> 12" "hd r \<noteq> 0" using assms(1) False by (auto simp: pending_def)
  have sub: "12 - (12 - length r) = length r" using r(2) by simp
  have buf: "mem_put (mem_put buf 0 r) (length r) received = mem_put buf 0 (r @ received)"
    using mem_put_append [of 0 r received buf] assms(2) r(2) by simp
  have "mem_get (replicate (12 - length r) 0 @ r) (12 - length r) (length r) = r" "mem_put (replicate (12 - length r) 0 @ r) (12 - length r) (replicate (length r) 0) = replicate 12 0"
    using r(2) by (simp_all add: mem_get_def mem_put_def flip: replicate_add)
  then show ?thesis
    unfolding telnetServer_onClientFd_def Let_def r(1) find_saved [OF r(2) False r(3)] option.case prod.case sub by (simp add: buf)
qed

text \<open>One read: what the terminal sees is what the stream of the kept and the received bytes decodes to.\<close>

lemma onClientFd_decodes:
  assumes "pending self r" "12 + length received \<le> length buf" "received \<noteq> []" "0 \<le> telnet_clientFd self" "\<And>col row. 0 \<le> ioctl col row" "\<And>bs. ptWrite bs = int (length bs)"
    and "telnetServer_onClientFd ptWrite ioctl self buf (int (length received)) received = (self', effects)"
  shows "events effects = fst (decode (r @ received))"
    "case snd (decode (r @ received)) of None \<Rightarrow> telnet_clientFd self' = - 1 | Some r' \<Rightarrow> pending self' r' \<and> telnet_clientFd self' = telnet_clientFd self"
proof -
  define b where "b = mem_put buf 0 (r @ received)"
  have len: "length r + length received \<le> length b" using assms(1,2) by (simp add: b_def pending_def)
  have stream: "take (length r + length received) b = r @ received" using assms(1,2) by (simp add: b_def mem_put_def pending_def)
  obtain e stop where loop: "telnetServer_onClientFd_loop ptWrite ioctl b (length r + length received) (replicate 12 0) 0 = (e, stop)" by (metis prod.exhaust)
  have d: "events e = fst (decode (r @ received))"
    "stop = (case snd (decode (r @ received)) of None \<Rightarrow> Kick_client | Some r \<Rightarrow> Done_writing (save (replicate 12 0) r))"
    using loop_decodes [OF len, of 0 ioctl ptWrite "replicate 12 0"] assms(5,6) by (simp_all add: loop stream)
  have run: "(self', effects) = (case stop of Done_writing saved \<Rightarrow> (self\<lparr>telnet_saved := saved\<rparr>, e)
      | Kick_client \<Rightarrow> let (self, kicked) = telnetServer_kickClient (self\<lparr>telnet_saved := replicate 12 0\<rparr>) in (self, e @ kicked))"
    using assms(3,7) unfolding restore [OF assms(1,2)] nat_int b_def [symmetric] loop by (simp add: Let_def split: telnet_stop.splits)
  show "events effects = fst (decode (r @ received))"
    using run d assms(4) by (auto simp: telnetServer_kickClient_def split: option.splits)
  show "case snd (decode (r @ received)) of None \<Rightarrow> telnet_clientFd self' = - 1 | Some r' \<Rightarrow> pending self' r' \<and> telnet_clientFd self' = telnet_clientFd self"
  proof (cases "snd (decode (r @ received))")
    case None
    then show ?thesis using run d assms(4) by (simp add: telnetServer_kickClient_def)
  next
    case (Some r')
    have "length r' \<le> 12 \<and> (r' = [] \<or> hd r' \<noteq> 0)" by (rule decode_rest [of "r @ received" "fst (decode (r @ received))"]) (simp add: Some [symmetric])
    then have "save (replicate 12 0) r' = replicate (12 - length r') 0 @ r'" by (simp add: save_def mem_put_def)
    then show ?thesis using run d Some \<open>length r' \<le> 12 \<and> _\<close> by (simp add: pending_def)
  qed
qed

text \<open>A client's connection: any sequence of reads, each into a buffer with any contents, until the client is kicked.\<close>

fun telnet_session :: "(bytes \<Rightarrow> int) \<Rightarrow> (u16 \<Rightarrow> u16 \<Rightarrow> int) \<Rightarrow> telnetServer \<Rightarrow> (bytes \<times> bytes) list \<Rightarrow> telnetServer \<times> telnet_effect list" where
  "telnet_session ptWrite ioctl self [] = (self, [])"
| "telnet_session ptWrite ioctl self ((buf, received) # reads) =
     (let (self, effects) = telnetServer_onClientFd ptWrite ioctl self buf (int (length received)) received
      in if telnet_clientFd self < 0 then (self, effects)
         else let (self, effects') = telnet_session ptWrite ioctl self reads in (self, effects @ effects'))"

lemma session_decodes:
  assumes "\<And>col row. 0 \<le> ioctl col row" "\<And>bs. ptWrite bs = int (length bs)"
    and "pending self r" "0 \<le> telnet_clientFd self" "\<forall>(buf, received)\<in>set reads. received \<noteq> [] \<and> 12 + length received \<le> length buf"
    and "decode r = ([], Some r)" "telnet_session ptWrite ioctl self reads = (self', effects)"
  shows "events effects = fst (decode (r @ concat (map snd reads))) \<and> (telnet_clientFd self' < 0 \<longleftrightarrow> snd (decode (r @ concat (map snd reads))) = None)"
  using assms(3-)
proof (induction reads arbitrary: self r effects)
  case Nil
  then show ?case by simp
next
  case (Cons p reads)
  obtain buf received where p: "p = (buf, received)" by (cases p)
  obtain s1 e1 where run: "telnetServer_onClientFd ptWrite ioctl self buf (int (length received)) received = (s1, e1)" by (metis prod.exhaust)
  have rd: "received \<noteq> []" "12 + length received \<le> length buf" using Cons.prems(3) by (simp_all add: p)
  note one = onClientFd_decodes [OF Cons.prems(1) rd(2,1) Cons.prems(2) assms(1,2) run]
  have all: "decode (r @ concat (map snd (p # reads))) = (case decode (r @ received) of (es, None) \<Rightarrow> (es, None)
      | (es, Some r') \<Rightarrow> (es @ fst (decode (r' @ concat (map snd reads))), snd (decode (r' @ concat (map snd reads)))))"
    using decode_append [of "r @ received" "concat (map snd reads)"] by (simp add: p)
  show ?case
  proof (cases "snd (decode (r @ received))")
    case None
    then have "telnet_clientFd s1 = - 1" using one(2) by simp
    then have "effects = e1" "self' = s1" using Cons.prems(5) run by (simp_all add: p)
    then show ?thesis using one(1) None \<open>telnet_clientFd s1 = - 1\<close> unfolding all by (simp add: prod.case_eq_if)
  next
    case (Some r')
    then have s1: "pending s1 r'" "telnet_clientFd s1 = telnet_clientFd self" using one(2) by simp_all
    obtain e2 where e2: "telnet_session ptWrite ioctl s1 reads = (self', e2)" "effects = e1 @ e2"
      using Cons.prems(2,5) run s1(2) by (auto simp: p split: prod.splits)
    have idem: "decode r' = ([], Some r')" by (rule decode_idem [of "r @ received" "fst (decode (r @ received))"]) (simp add: Some [symmetric])
    have "\<forall>(buf, received)\<in>set reads. received \<noteq> [] \<and> 12 + length received \<le> length buf" using Cons.prems(3) by simp
    from Cons.IH [OF s1(1) _ this idem e2(1)] s1(2) Cons.prems(2) show ?thesis
      using one(1) Some e2(2) unfolding all by (simp add: prod.case_eq_if)
  qed
qed

section \<open>Terminal output\<close>

text \<open>How a byte of the terminal goes over the wire, and how a client reads it back.\<close>

definition escape :: "u8 \<Rightarrow> bytes" where
  "escape b = (if b = CR then [CR, 0] else if b = NL then [CR, NL] else if b = telnet_IAC then [telnet_IAC, telnet_IAC] else [b])"

fun unescape :: "bytes \<Rightarrow> bytes" where
  "unescape [] = []"
| "unescape (b # bs) =
     (case bs of [] \<Rightarrow> [b]
      | c # cs \<Rightarrow>
        if b = CR then (if c = 0 then CR else NL) # unescape cs
        else if b = telnet_IAC then telnet_IAC # unescape cs
        else b # unescape bs)"

lemma unescape_escape: "unescape (concat (map escape bs)) = bs"
proof (induction bs)
  case (Cons b bs)
  have "b = CR \<or> b = NL \<or> b = telnet_IAC \<or> escape b = [b]" by (simp add: escape_def)
  moreover have "unescape (b # xs) = b # unescape xs" if "b \<noteq> CR" "b \<noteq> telnet_IAC" for xs using that by (cases xs) simp_all
  ultimately show ?case using Cons by (cases "b = CR"; cases "b = NL"; cases "b = telnet_IAC") (auto simp: escape_def CR_def NL_def telnet_IAC_def)
qed simp

fun sent_bytes :: "telnet_effect \<Rightarrow> bytes" where
  "sent_bytes (Client_send bs) = bs"
| "sent_bytes _ = []"

definition sent :: "telnet_effect list \<Rightarrow> bytes" where
  "sent effects = concat (map sent_bytes effects)"

lemma sent_simps [simp]: "sent [] = []" "sent (e # es) = sent_bytes e @ sent es" "sent (es @ fs) = sent es @ sent fs"
  by (simp_all add: sent_def)

lemma escape_plain: "\<forall>b\<in>set ps. b \<noteq> CR \<and> b \<noteq> NL \<and> b \<noteq> telnet_IAC \<Longrightarrow> concat (map escape ps) = ps"
  by (induction ps) (simp_all add: escape_def)

lemma pt_loop_sends:
  assumes "n \<le> length buf" "i \<le> n"
  shows "case telnetServer_onPtMasterFd_loop send buf n i of (effects, keep) \<Rightarrow>
    (\<exists>rest. concat (map escape (drop i (take n buf))) = sent effects @ rest \<and> (keep \<longrightarrow> rest = [])) \<and> ((\<forall>bs. send bs = int (length bs)) \<longrightarrow> keep)"
  using assms(2)
proof (induction "n - i" arbitrary: i rule: less_induct)
  case less
  define j where "j = telnet_scan [CR, NL, telnet_IAC] buf n i"
  note j = scan_props [OF assms(1) less.prems, of "[CR, NL, telnet_IAC]", folded j_def]
  define ps where "ps = mem_get buf i (j - i)"
  have esc: "concat (map escape (drop i (take n buf))) = ps @ concat (map escape (drop j (take n buf)))"
    unfolding split_at [OF assms(1) j(1,2)] using escape_plain [of ps] j(3) by (simp add: ps_def)
  have len: "length ps = j - i" using j(1,2) assms(1) by (simp add: ps_def mem_get_def)
  define w where "w = (if j - i > 0 then [Client_send ps] else [])"
  have w: "sent w = ps" using len by (auto simp: w_def)
  note step = telnetServer_onPtMasterFd_loop.simps [of send buf n i, unfolded Let_def, folded j_def, folded ps_def, folded w_def]
  consider (fail) "j - i > 0 \<and> send ps \<noteq> int (j - i)" | (ended) "\<not> (j - i > 0 \<and> send ps \<noteq> int (j - i))" "j = n" | (more) "\<not> (j - i > 0 \<and> send ps \<noteq> int (j - i))" "j < n"
    using j(2) by linarith
  then show ?case
  proof cases
    case fail
    have "telnetServer_onPtMasterFd_loop send buf n i = ([], False)" unfolding step if_P [OF fail] by (rule refl)
    moreover have "send ps \<noteq> int (length ps)" using fail unfolding len by blast
    ultimately show ?thesis by auto
  next
    case ended
    then show ?thesis unfolding step esc using w by auto
  next
    case more
    define bs where "bs = (if buf ! j = CR then [CR, 0] else if buf ! j = NL then [CR, NL] else [telnet_IAC, telnet_IAC])"
    have bs: "escape (buf ! j) = bs" "length bs = 2" using j(4) [OF more(2)] by (auto simp: bs_def escape_def)
    have esc': "concat (map escape (drop i (take n buf))) = ps @ bs @ concat (map escape (drop (j + 1) (take n buf)))"
      unfolding esc using more(2) assms(1) bs(1) by (simp add: Cons_nth_drop_Suc [symmetric])
    obtain e keep where rec: "telnetServer_onPtMasterFd_loop send buf n (j + 1) = (e, keep)" by (metis prod.exhaust)
    have loop: "telnetServer_onPtMasterFd_loop send buf n i = (if send bs \<noteq> 2 then (w, False) else (w @ [Client_send bs] @ e, keep))"
      unfolding step if_not_P [OF more(1)] using more(2) rec by (simp add: bs_def [symmetric])
    have "n - (j + 1) < n - i" "j + 1 \<le> n" using more(2) j(1) by simp_all
    note IH = less.hyps [OF this, unfolded rec]
    show ?thesis
    proof (cases "send bs = 2")
      case True
      then show ?thesis using IH w unfolding loop esc' by auto
    next
      case False
      then have "\<not> (\<forall>bs. send bs = int (length bs))" using bs(2) by (metis of_nat_numeral)
      then show ?thesis using False w unfolding loop esc' by auto
    qed
  qed
qed

section \<open>The byte streams\<close>

text \<open>
  C4: What a telnet client does is independent of how the network cuts its bytes into reads. From a fresh connection, with a terminal that
  accepts what is written, for every sequence of nonempty reads into buffers with any stale contents: the bytes and window sizes that reach the terminal are those that the
  protocol assigns to the whole stream, and the client is kicked exactly when that stream is invalid. In particular an incomplete command always fits the twelve saved bytes.
\<close>
theorem telnetServer_input_correct:
  assumes "\<And>col row. 0 \<le> ioctl col row" "\<And>bs. ptWrite bs = int (length bs)"
    and "telnet_saved self = replicate 12 0" "0 \<le> telnet_clientFd self" "\<forall>(buf, received)\<in>set reads. received \<noteq> [] \<and> 12 + length received \<le> length buf"
    and "telnet_session ptWrite ioctl self reads = (self', effects)"
  shows "events effects = fst (decode (concat (map snd reads))) \<and> (telnet_clientFd self' < 0 \<longleftrightarrow> snd (decode (concat (map snd reads))) = None)"
proof -
  have "pending self []" using assms(3) by (simp add: pending_def)
  from session_decodes [OF assms(1,2) this assms(4,5) decode_Nil assms(6)] show ?thesis by simp
qed


section \<open>A concrete session\<close>

definition example_telnet :: telnetServer where
  "example_telnet = \<lparr>telnet_pidFd = 4, telnet_listenFd = 5, telnet_clientFd = 6, telnet_ptMasterFd = 7, telnet_saved = replicate 12 0\<rparr>"

text \<open>A window size command that is cut after its fourth byte.\<close>

theorem telnetServer_input_correct_witness:
  "\<exists>self' effects. telnet_session (\<lambda>bs. int (length bs)) (\<lambda>c r. 0) example_telnet [(replicate 66000 0, [108, 255, 250, 31, 0]), (replicate 66000 9, [80, 0, 24, 255, 240, 115])] = (self', effects) \<and>
    events effects = [Typed 108, Window 80 24, Typed 115] \<and> 0 \<le> telnet_clientFd self'"
proof -
  obtain self' effects where run: "telnet_session (\<lambda>bs. int (length bs)) (\<lambda>c r. 0) example_telnet
      [(replicate 66000 0, [108, 255, 250, 31, 0]), (replicate 66000 9, [80, 0, 24, 255, 240, 115])] = (self', effects)" by (metis prod.exhaust)
  have dec: "decode [108, 255, 250, 31, 0, 80, 0, 24, 255, 240, 115] = ([Typed 108, Window 80 24, Typed 115], Some [])"
    by (simp add: decode.simps one_unit_def special_def naws_def naws_u16_def naws_byte_def bind_parse_def telnet_constants CR_def NL_def)
  have "events effects = fst (decode [108, 255, 250, 31, 0, 80, 0, 24, 255, 240, 115]) \<and> (telnet_clientFd self' < 0 \<longleftrightarrow> snd (decode [108, 255, 250, 31, 0, 80, 0, 24, 255, 240, 115]) = None)"
    using telnetServer_input_correct [OF _ _ _ _ _ run] by (simp add: example_telnet_def)
  then show ?thesis using run unfolding dec by auto
qed


end
