(* ===== verification/PacketDumper.thy ===== *)
theory PacketDumper
  imports Netlink
begin

text \<open>
  The packet dumper of the router, \<^verbatim>\<open>src/router/router/packetDumper.c\<close>: while a client is connected, every packet of an interface is sent to it
  as a pcap stream, except the dumper's own traffic, which a filter program in the kernel sorts out. Results of system calls are parameters, a failed
  \<open>CHECK\<close> is \<open>None\<close>.
\<close>

section \<open>The code\<close>

text \<open>Of \<open>ifreq\<close> the interface name and \<open>ifr_addr\<close>, 16 bytes with the hardware address from offset 2 on.\<close>

record packetDumper =
  dumper_ifr_name :: bytes
  dumper_ifr_addr :: bytes
  dumper_listenFd :: int
  dumper_clientFd :: int
  dumper_packetFd :: int
  dumper_ifIndex :: int
  dumper_port :: u16

record sock_filter =
  bpf_code :: u16
  bpf_jt :: u8
  bpf_jf :: u8
  bpf_k :: u32

datatype dumper_effect =
    Dumper_listen bytes u16
  | Dumper_close int
  | Dumper_timestamping int
  | Dumper_bind int
  | Dumper_filter "sock_filter list"
  | Dumper_epoll int
  | Dumper_send int bytes

text \<open>The results are, in order, those of \<open>socket\<close>, \<open>bind\<close>, \<open>listen\<close>, and of the two \<open>ioctl\<close> calls with what they store.\<close>

definition packetDumper_init ::
  "packetDumper \<Rightarrow> int \<Rightarrow> u16 \<Rightarrow> int \<Rightarrow> int \<Rightarrow> int \<Rightarrow> int \<Rightarrow> bytes \<Rightarrow> int \<Rightarrow> bytes \<Rightarrow> (packetDumper \<times> dumper_effect list) option" where
  "packetDumper_init self ifIndex port listenFd bind listen nameResult name addrResult addr =
     (if \<not> listenFd > 0 then None
      else if bind \<noteq> 0 then None
      else if listen \<noteq> 0 then None
      else if nameResult \<noteq> 0 then None
      else if addrResult \<noteq> 0 then None
      else Some (self\<lparr>dumper_ifIndex := ifIndex, dumper_port := port, dumper_clientFd := - 1, dumper_packetFd := - 1, dumper_listenFd := listenFd,
          dumper_ifr_name := name, dumper_ifr_addr := addr\<rparr>,
        [Dumper_listen [10, 123, 0, 1] (hc_BSWAP16 port)]))"

definition packetDumper_stop :: "packetDumper \<Rightarrow> packetDumper \<times> dumper_effect list" where
  "packetDumper_stop self =
     (if dumper_packetFd self \<ge> 0
      then (self\<lparr>dumper_packetFd := - 1, dumper_clientFd := - 1\<rparr>, [Dumper_close (dumper_packetFd self), Dumper_close (dumper_clientFd self)])
      else (self, []))"

abbreviation instr :: "u16 \<Rightarrow> u8 \<Rightarrow> u8 \<Rightarrow> u32 \<Rightarrow> sock_filter" where
  "instr c jt jf k \<equiv> \<lparr>bpf_code = c, bpf_jt = jt, bpf_jf = jf, bpf_k = k\<rparr>"

definition packetDumper_code :: "packetDumper \<Rightarrow> sock_filter list" where
  "packetDumper_code self =
     (let mac4 = mem_loadU32BE (drop 4 (dumper_ifr_addr self));
          mac2 = ucast (mem_loadU16BE (drop 2 (dumper_ifr_addr self)));
          port = ucast (dumper_port self)
      in [instr 0x20 0 0 0x00000008,
          instr 0x15 0 2 mac4,
          instr 0x28 0 0 0x00000006,
          instr 0x15 4 0 mac2,
          instr 0x20 0 0 0x00000002,
          instr 0x15 0 22 mac4,
          instr 0x28 0 0 0x00000000,
          instr 0x15 0 20 mac2,
          instr 0x28 0 0 0x0000000c,
          instr 0x15 0 18 0x00000800,
          instr 0x30 0 0 0x00000017,
          instr 0x15 0 7 0x00000006,
          instr 0x28 0 0 0x00000014,
          instr 0x45 14 0 0x00001fff,
          instr 0xb1 0 0 0x0000000e,
          instr 0x48 0 0 0x0000000e,
          instr 0x15 10 0 port,
          instr 0x48 0 0 0x00000010,
          instr 0x15 8 9 port,
          instr 0x15 0 8 0x00000011,
          instr 0x28 0 0 0x00000014,
          instr 0x45 6 0 0x00001fff,
          instr 0xb1 0 0 0x0000000e,
          instr 0x48 0 0 0x0000000e,
          instr 0x15 2 0 0x0000007b,
          instr 0x48 0 0 0x00000010,
          instr 0x15 0 1 0x0000007b,
          instr 0x6 0 0 0x00000000,
          instr 0x6 0 0 (word_of_nat buffer_size)])"

definition pcapHeader :: bytes where
  "pcapHeader = le_bytes 4 0xA1B23C4D @ le_bytes 2 2 @ le_bytes 2 4 @ le_bytes 4 0 @ le_bytes 4 0 @ le_bytes 4 buffer_size @ le_bytes 4 1"

text \<open>
  The results are those of \<open>accept4\<close>, \<open>socket\<close>, the first \<open>setsockopt\<close>, \<open>bind\<close>, the second \<open>setsockopt\<close>, the two
  \<open>epoll_ctl\<close> calls and \<open>sendto\<close>. The timestamping flags are \<open>RX_SOFTWARE\<close> and \<open>SOFTWARE\<close>.
\<close>

definition packetDumper_onListenFd ::
  "packetDumper \<Rightarrow> int \<Rightarrow> int \<Rightarrow> int \<Rightarrow> int \<Rightarrow> int \<Rightarrow> int \<Rightarrow> int \<Rightarrow> int \<Rightarrow> (packetDumper \<times> dumper_effect list) option" where
  "packetDumper_onListenFd self newClientFd packetFd timestamping bind attach added1 added2 sent =
     (if newClientFd < 0 then Some (self, [])
      else
        let (self, stopped) = packetDumper_stop self;
            self = self\<lparr>dumper_clientFd := newClientFd, dumper_packetFd := packetFd\<rparr>
        in if \<not> packetFd > 0 then None
           else if timestamping \<noteq> 0 then None
           else if bind \<noteq> 0 then None
           else if attach \<noteq> 0 then None
           else if added1 \<noteq> 0 then None
           else if added2 \<noteq> 0 then None
           else
             let effects = stopped @ [Dumper_timestamping 24, Dumper_bind (dumper_ifIndex self), Dumper_filter (packetDumper_code self),
                   Dumper_epoll (dumper_clientFd self), Dumper_epoll (dumper_packetFd self), Dumper_send (dumper_clientFd self) pcapHeader]
             in if sent \<noteq> int (length pcapHeader) then
                  let (self, stopped) = packetDumper_stop self in Some (self, effects @ stopped)
                else Some (self, effects))"

text \<open>\<open>packet\<close> is what \<open>recvmsg\<close> stored in the buffer, with the first timestamp of the control message.\<close>

definition pcapPacketRecord :: "u64 \<Rightarrow> u64 \<Rightarrow> int \<Rightarrow> bytes" where
  "pcapPacketRecord tv_sec tv_nsec numRead = le_bytes 4 (unat (ucast tv_sec :: u32)) @ le_bytes 4 (unat (ucast tv_nsec :: u32)) @
     le_bytes 4 (unat (word_of_int numRead :: u32)) @ le_bytes 4 (unat (word_of_int numRead :: u32))"

definition packetDumper_onPacketFd ::
  "packetDumper \<Rightarrow> int \<Rightarrow> bytes \<Rightarrow> u64 \<Rightarrow> u64 \<Rightarrow> int \<Rightarrow> (packetDumper \<times> dumper_effect list) option" where
  "packetDumper_onPacketFd self numRead packet tv_sec tv_nsec written =
     (if \<not> numRead > 0 then None
      else
        let record = pcapPacketRecord tv_sec tv_nsec numRead;
            effects = [Dumper_send (dumper_clientFd self) (record @ mem_get packet 0 (nat numRead))]
        in if written \<noteq> 16 + numRead then
             let (self, stopped) = packetDumper_stop self in Some (self, effects @ stopped)
           else Some (self, effects))"

definition packetDumper_onClientFd :: "packetDumper \<Rightarrow> packetDumper \<times> dumper_effect list" where
  "packetDumper_onClientFd self = packetDumper_stop self"

definition packetDumper_deinit :: "packetDumper \<Rightarrow> dumper_effect list" where
  "packetDumper_deinit self = (let (self, stopped) = packetDumper_stop self in stopped @ [Dumper_close (dumper_listenFd self)])"

section \<open>Filter programs\<close>

text \<open>
  The machine that runs a filter program: an accumulator, an index register and forward jumps. A load behind the end of the packet ends the
  program with 0, which drops the packet; another result is the number of bytes to keep.
\<close>

definition load_be :: "bytes \<Rightarrow> nat \<Rightarrow> nat \<Rightarrow> u32 option" where
  "load_be p n off = (if off + n \<le> length p then Some (word_of_nat (le_nat (rev (mem_get p off n)))) else None)"

function bpf_run :: "sock_filter list \<Rightarrow> bytes \<Rightarrow> u32 \<Rightarrow> u32 \<Rightarrow> u32" where
  "bpf_run [] p a x = 0"
| "bpf_run (i # prog) p a x =
     (if bpf_code i = 0x20 then case load_be p 4 (unat (bpf_k i)) of None \<Rightarrow> 0 | Some a \<Rightarrow> bpf_run prog p a x
      else if bpf_code i = 0x28 then case load_be p 2 (unat (bpf_k i)) of None \<Rightarrow> 0 | Some a \<Rightarrow> bpf_run prog p a x
      else if bpf_code i = 0x30 then case load_be p 1 (unat (bpf_k i)) of None \<Rightarrow> 0 | Some a \<Rightarrow> bpf_run prog p a x
      else if bpf_code i = 0x48 then case load_be p 2 (unat x + unat (bpf_k i)) of None \<Rightarrow> 0 | Some a \<Rightarrow> bpf_run prog p a x
      else if bpf_code i = 0xb1 then case load_be p 1 (unat (bpf_k i)) of None \<Rightarrow> 0 | Some b \<Rightarrow> bpf_run prog p a (4 * (b AND 0xF))
      else if bpf_code i = 0x15 then bpf_run (drop (unat (if a = bpf_k i then bpf_jt i else bpf_jf i)) prog) p a x
      else if bpf_code i = 0x45 then bpf_run (drop (unat (if a AND bpf_k i \<noteq> 0 then bpf_jt i else bpf_jf i)) prog) p a x
      else if bpf_code i = 0x6 then bpf_k i
      else 0)"
  by pat_completeness auto
termination by (relation "measure (\<lambda>(prog, _). length prog)") auto

definition be16 :: "bytes \<Rightarrow> nat \<Rightarrow> u16" where
  "be16 p off = word_of_nat (le_nat (rev (mem_get p off 2)))"

definition ip_header_size :: "bytes \<Rightarrow> nat" where
  "ip_header_size p = 4 * (unat (p ! 14) mod 16)"

text \<open>
  The packets to drop: an IPv4 packet from or to the dumper's hardware address, not a later fragment, that is a TCP segment with the dumper's port
  or a UDP datagram with port 123, as source or destination. The comment of the source restricts this to the source port of sent and the destination
  port of received packets.
\<close>

definition source_port :: "bytes \<Rightarrow> u16" where
  "source_port p = be16 p (14 + ip_header_size p)"

definition dest_port :: "bytes \<Rightarrow> u16" where
  "dest_port p = be16 p (14 + ip_header_size p + 2)"

definition own_ports :: "u16 \<Rightarrow> bytes \<Rightarrow> bool" where
  "own_ports port p \<longleftrightarrow> be16 p 12 = 0x800 \<and> be16 p 20 AND 0x1FFF = 0 \<and>
     (p ! 23 = 6 \<and> (source_port p = port \<or> dest_port p = port) \<or> p ! 23 = 17 \<and> (source_port p = 123 \<or> dest_port p = 123))"

definition own_traffic :: "bytes \<Rightarrow> u16 \<Rightarrow> bytes \<Rightarrow> bool" where
  "own_traffic mac port p \<longleftrightarrow> (mem_get p 6 6 = mac \<or> mem_get p 0 6 = mac) \<and> own_ports port p"

definition documented_traffic :: "bytes \<Rightarrow> u16 \<Rightarrow> bytes \<Rightarrow> bool" where
  "documented_traffic mac port p \<longleftrightarrow> be16 p 12 = 0x800 \<and> be16 p 20 AND 0x1FFF = 0 \<and>
     (mem_get p 6 6 = mac \<and> (p ! 23 = 6 \<and> source_port p = port \<or> p ! 23 = 17 \<and> source_port p = 123) \<or>
      mem_get p 0 6 = mac \<and> (p ! 23 = 6 \<and> dest_port p = port \<or> p ! 23 = 17 \<and> dest_port p = 123))"

text \<open>A frame with complete Ethernet, IPv4 and, in a first fragment, port fields.\<close>

definition complete_frame :: "bytes \<Rightarrow> bool" where
  "complete_frame p \<longleftrightarrow> 14 \<le> length p \<and> (be16 p 12 = 0x800 \<longrightarrow> 34 \<le> length p \<and> (be16 p 20 AND 0x1FFF = 0 \<and> p ! 23 \<in> {6, 17} \<longrightarrow> 14 + ip_header_size p + 4 \<le> length p))"


lemma bpf_steps:
  "bpf_run (instr 0x20 j j' k # prog) p a x = (case load_be p 4 (unat k) of None \<Rightarrow> 0 | Some a \<Rightarrow> bpf_run prog p a x)"
  "bpf_run (instr 0x28 j j' k # prog) p a x = (case load_be p 2 (unat k) of None \<Rightarrow> 0 | Some a \<Rightarrow> bpf_run prog p a x)"
  "bpf_run (instr 0x30 j j' k # prog) p a x = (case load_be p 1 (unat k) of None \<Rightarrow> 0 | Some a \<Rightarrow> bpf_run prog p a x)"
  "bpf_run (instr 0x48 j j' k # prog) p a x = (case load_be p 2 (unat x + unat k) of None \<Rightarrow> 0 | Some a \<Rightarrow> bpf_run prog p a x)"
  "bpf_run (instr 0xb1 j j' k # prog) p a x = (case load_be p 1 (unat k) of None \<Rightarrow> 0 | Some b \<Rightarrow> bpf_run prog p a (4 * (b AND 0xF)))"
  "bpf_run (instr 0x15 jt jf k # prog) p a x = (if a = k then bpf_run (drop (unat jt) prog) p a x else bpf_run (drop (unat jf) prog) p a x)"
  "bpf_run (instr 0x45 jt jf k # prog) p a x = (if a AND k \<noteq> 0 then bpf_run (drop (unat jt) prog) p a x else bpf_run (drop (unat jf) prog) p a x)"
  "bpf_run (instr 0x6 j j' k # prog) p a x = k"
  by simp_all

declare bpf_run.simps [simp del]

lemma be_word_eq_iff:
  assumes "length xs = n" "length ys = n" "n \<le> 4"
  shows "(word_of_nat (le_nat (rev xs)) :: u32) = word_of_nat (le_nat (rev ys)) \<longleftrightarrow> xs = ys"
proof
  assume "(word_of_nat (le_nat (rev xs)) :: u32) = word_of_nat (le_nat (rev ys))"
  then have "unat (word_of_nat (le_nat (rev xs)) :: u32) = unat (word_of_nat (le_nat (rev ys)) :: u32)" by simp
  then have "le_nat (rev xs) = le_nat (rev ys)" using assms by (simp add: unat_word_of_le_nat)
  then have "rev xs = rev ys" using assms by (intro le_nat_inj) auto
  then show "xs = ys" by simp
qed simp

lemma ucast_u32: "(ucast x :: u32) = word_of_nat (unat x)" for x :: "'a::len word"
  by (simp add: unsigned_ucast_eq)

lemma load_bytes:
  "off + 4 \<le> length p \<Longrightarrow> load_be p 4 off = Some (word_of_nat (le_nat (rev (mem_get p off 4))))"
  "off + 2 \<le> length p \<Longrightarrow> load_be p 2 off = Some (ucast (be16 p off))"
  "off < length p \<Longrightarrow> load_be p 1 off = Some (ucast (p ! off))"
proof -
  show "load_be p 2 off = Some (ucast (be16 p off))" if "off + 2 \<le> length p"
  proof -
    have "unat (be16 p off) = le_nat (rev (mem_get p off 2))" using that by (simp add: be16_def unat_word_of_le_nat)
    then have "(ucast (be16 p off) :: u32) = word_of_nat (le_nat (rev (mem_get p off 2)))" using ucast_u32 [of "be16 p off"] by metis
    then show ?thesis using that by (simp add: load_be_def)
  qed
  show "load_be p 1 off = Some (ucast (p ! off))" if "off < length p"
  proof -
    have "mem_get p off 1 = [p ! off]" using that by (simp add: mem_get_def take_Suc_conv_app_nth [of 0 "drop off p", simplified] hd_drop_conv_nth)
    then show ?thesis using that ucast_u32 [of "p ! off"] by (simp add: load_be_def)
  qed
qed (simp add: load_be_def)

lemma mac_words:
  assumes "8 \<le> length addr"
  shows "mem_loadU32BE (drop 4 addr) = word_of_nat (le_nat (rev (mem_get addr 4 4)))"
    "(ucast (mem_loadU16BE (drop 2 addr)) :: u32) = word_of_nat (le_nat (rev (mem_get addr 2 2)))"
proof -
  have l: "length (mem_get addr 4 4) = 4" "length (mem_get addr 2 2) = 2" using assms by simp_all
  have "le_bytes 4 (le_nat (mem_get addr 4 4)) = mem_get addr 4 4" using le_bytes_le_nat [of "mem_get addr 4 4"] l(1) by simp
  then show "mem_loadU32BE (drop 4 addr) = word_of_nat (le_nat (rev (mem_get addr 4 4)))"
    by (simp add: mem_loadU32BE_def hc_BSWAP32_def unat_loadU32 mem_get_def)
  have b: "le_bytes 2 (le_nat (mem_get addr 2 2)) = mem_get addr 2 2" using le_bytes_le_nat [of "mem_get addr 2 2"] l(2) by simp
  have "unat (mem_loadU16 (drop 2 addr)) = le_nat (mem_get addr 2 2)" using l by (simp add: mem_loadU16_def unat_word_of_le_nat mem_get_def)
  then have "unat (mem_loadU16BE (drop 2 addr)) = le_nat (rev (mem_get addr 2 2))" using b l by (simp add: mem_loadU16BE_def hc_BSWAP16_def unat_word_of_le_nat)
  then show "(ucast (mem_loadU16BE (drop 2 addr)) :: u32) = word_of_nat (le_nat (rev (mem_get addr 2 2)))"
    using ucast_u32 [of "mem_loadU16BE (drop 2 addr)"] by metis
qed

lemma unat_u32 [simp]: "unat (ucast (x :: u16) :: u32) = unat x" "unat (ucast (b :: u8) :: u32) = unat b"
  by (simp_all add: unat_ucast_up)

lemma ucast_u32_eq:
  "(ucast (x :: u16) :: u32) = ucast y \<longleftrightarrow> x = y" "(ucast (x :: u16) :: u32) = 0x800 \<longleftrightarrow> x = 0x800" "(ucast (x :: u16) :: u32) = 123 \<longleftrightarrow> x = 123"
  "(ucast (b :: u8) :: u32) = 6 \<longleftrightarrow> b = 6" "(ucast (b :: u8) :: u32) = 17 \<longleftrightarrow> b = 17"
  by (simp_all add: word_eq_iff_unsigned [where 'a = nat])

lemma low_bits_u32: "ucast (x :: u16) AND (0x1FFF :: u32) = 0 \<longleftrightarrow> x AND 0x1FFF = 0"
proof -
  have "unat (ucast x AND (mask 13 :: u32)) = unat (x AND mask 13)" by (simp add: unat_and_mask)
  then show ?thesis by (simp add: mask_eq_exp_minus_1 unat_eq_0 [symmetric] del: unat_eq_0)
qed

lemma header_index: "unat (4 * (ucast (b :: u8) AND 0xF) :: u32) = 4 * (unat b mod 16)"
proof -
  have "unat (ucast b AND (mask 4 :: u32)) = unat b mod 16" by (simp add: unat_and_mask)
  then show ?thesis by (subst unat_mult_nowrap) (simp_all add: mask_eq_exp_minus_1)
qed

lemma own_ports_run:
  assumes "complete_frame p"
  shows "bpf_run (drop 8 (packetDumper_code self)) p a x = (if own_ports (dumper_port self) p then 0 else word_of_nat buffer_size)"
proof -
  have len: "14 \<le> length p" "be16 p 12 = 0x800 \<Longrightarrow> 34 \<le> length p"
    "be16 p 12 = 0x800 \<Longrightarrow> be16 p 20 AND 0x1FFF = 0 \<Longrightarrow> p ! 23 \<in> {6, 17} \<Longrightarrow> 14 + ip_header_size p + 4 \<le> length p"
    using assms unfolding complete_frame_def by blast+
  show ?thesis
  proof (cases "be16 p 12 = 0x800 \<and> be16 p 20 AND 0x1FFF = 0 \<and> p ! 23 \<in> {6, 17}")
    case True
    then have "34 \<le> length p" "14 + ip_header_size p + 4 \<le> length p" using len by auto
    then show ?thesis using True
      by (auto simp: packetDumper_code_def Let_def bpf_steps load_bytes load_bytes(3) [simplified] ucast_u32_eq low_bits_u32 own_ports_def source_port_def dest_port_def header_index ip_header_size_def [symmetric] add.commute [of "ip_header_size p"])
  next
    case False
    then show ?thesis using len
      by (auto simp: packetDumper_code_def Let_def bpf_steps load_bytes load_bytes(3) [simplified] ucast_u32_eq low_bits_u32 own_ports_def source_port_def dest_port_def)
  qed
qed


lemma mem_get_mac: "i + 6 \<le> length p \<Longrightarrow> 8 \<le> length addr \<Longrightarrow>
    mem_get p i 6 = mem_get addr 2 6 \<longleftrightarrow> mem_get p i 2 = mem_get addr 2 2 \<and> mem_get p (i + 2) 4 = mem_get addr 4 4"
  using mem_get_append [of p i 2 4] mem_get_append [of addr 2 2 4] by simp

lemma filter_run:
  assumes "8 \<le> length (dumper_ifr_addr self)" "complete_frame p"
  shows "bpf_run (packetDumper_code self) p a x = (if own_traffic (mem_get (dumper_ifr_addr self) 2 6) (dumper_port self) p then 0 else word_of_nat buffer_size)"
proof -
  define tail where "tail = drop 8 (packetDumper_code self)"
  let ?mac = "dumper_ifr_addr self"
  let ?mac4 = "word_of_nat (le_nat (rev (mem_get ?mac 4 4)))" and ?mac2 = "word_of_nat (le_nat (rev (mem_get ?mac 2 2)))"
  have code: "packetDumper_code self = [instr 0x20 0 0 8, instr 0x15 0 2 ?mac4, instr 0x28 0 0 6, instr 0x15 4 0 ?mac2,
      instr 0x20 0 0 2, instr 0x15 0 22 ?mac4, instr 0x28 0 0 0, instr 0x15 0 20 ?mac2] @ tail"
    using mac_words [OF assms(1)] by (simp add: tail_def packetDumper_code_def Let_def)
  have keep: "bpf_run (drop 20 tail) p a x = word_of_nat buffer_size" for a x
    by (simp add: tail_def packetDumper_code_def Let_def bpf_steps)
  have len: "14 \<le> length p" using assms(2) by (simp add: complete_frame_def)
  have l2: "load_be p 2 off = Some (word_of_nat (le_nat (rev (mem_get p off 2))))" if "off + 2 \<le> length p" for off using that by (simp add: load_be_def)
  have eq: "(word_of_nat (le_nat (rev (mem_get p off 4))) :: u32) = ?mac4 \<longleftrightarrow> mem_get p off 4 = mem_get ?mac 4 4"
    "(word_of_nat (le_nat (rev (mem_get p off 2))) :: u32) = ?mac2 \<longleftrightarrow> mem_get p off 2 = mem_get ?mac 2 2" if "off + 4 \<le> length p" for off
    using that assms(1) be_word_eq_iff [of "mem_get p off 4" 4 "mem_get ?mac 4 4"] be_word_eq_iff [of "mem_get p off 2" 2 "mem_get ?mac 2 2"] by simp_all
  have mac: "mem_get p 6 6 = mem_get ?mac 2 6 \<longleftrightarrow> mem_get p 6 2 = mem_get ?mac 2 2 \<and> mem_get p 8 4 = mem_get ?mac 4 4"
    "mem_get p 0 6 = mem_get ?mac 2 6 \<longleftrightarrow> mem_get p 0 2 = mem_get ?mac 2 2 \<and> mem_get p 2 4 = mem_get ?mac 4 4"
    using mem_get_mac [of 6 p ?mac] mem_get_mac [of 0 p ?mac] len assms(1) by (simp_all del: One_nat_def add: numeral_2_eq_2 [symmetric])
  show ?thesis
    unfolding code own_traffic_def mac using len
    by (simp add: bpf_steps load_bytes(1) l2 eq keep own_ports_run [OF assms(2), of self, folded tail_def])
qed


definition example_dumper :: packetDumper where
  "example_dumper = \<lparr>dumper_ifr_name = bytes_of ''lan'', dumper_ifr_addr = [1, 0, 2, 0, 0, 0, 0, 1] @ replicate 8 0, dumper_listenFd = 4, dumper_clientFd = - 1, dumper_packetFd = - 1,
     dumper_ifIndex = 3, dumper_port = 102\<rparr>"

text \<open>A UDP datagram from the interface, with the given source port and the destination port 123.\<close>

definition example_frame :: "u8 \<Rightarrow> bytes" where
  "example_frame sport = replicate 6 255 @ [2, 0, 0, 0, 0, 1, 8, 0, 0x45, 0, 0, 32, 0, 0, 0, 0, 64, 17, 0, 0] @ replicate 8 1 @ [0, sport, 0, 123] @ replicate 8 0"


section \<open>The stream\<close>

text \<open>
  A reader of pcap files: the header with its magic number for nanosecond timestamps, then records with their timestamp and length. A record longer than
  the snapshot length of the header, or one that is cut off, is not valid.
\<close>

function pcap_records :: "nat \<Rightarrow> bytes \<Rightarrow> ((u32 \<times> u32) \<times> bytes) list option" where
  "pcap_records snap bs =
     (if bs = [] then Some []
      else if length bs < 16 then None
      else
        let n = unat (mem_loadU32 (drop 8 bs))
        in if n > snap \<or> length bs < 16 + n \<or> mem_loadU32 (drop 12 bs) \<noteq> mem_loadU32 (drop 8 bs) then None
           else map_option (Cons ((mem_loadU32 bs, mem_loadU32 (drop 4 bs)), mem_get bs 16 n)) (pcap_records snap (drop (16 + n) bs)))"
  by auto
termination by (relation "measure (\<lambda>(_, bs). length bs)") auto

declare pcap_records.simps [simp del]

definition pcap_read :: "bytes \<Rightarrow> ((u32 \<times> u32) \<times> bytes) list option" where
  "pcap_read bs = (if length bs < 24 \<or> mem_loadU32 bs \<noteq> 0xA1B23C4D then None else pcap_records (unat (mem_loadU32 (drop 16 bs))) (drop 24 bs))"

definition sent_to :: "int \<Rightarrow> dumper_effect list \<Rightarrow> bytes" where
  "sent_to fd effects = concat (map (\<lambda>e. case e of Dumper_send fd' bs \<Rightarrow> if fd' = fd then bs else [] | _ \<Rightarrow> []) effects)"

text \<open>
  A session of one client: it begins with an accepted connection, in any state of the dumper, and goes on with packets, as long as everything is sent
  in full. \<open>packets\<close> are the packets so far with the lower 32 bits of their timestamps, \<open>out\<close> the bytes the client was sent.
\<close>

inductive session :: "packetDumper \<Rightarrow> ((u32 \<times> u32) \<times> bytes) list \<Rightarrow> bytes \<Rightarrow> bool" where
  accepted: "packetDumper_onListenFd self newClientFd packetFd timestamping bind attach added1 added2 24 = Some (self', effects) \<Longrightarrow> 0 \<le> newClientFd \<Longrightarrow>
    session self' [] (sent_to newClientFd effects)"
| packet: "session self packets out \<Longrightarrow> length p \<le> buffer_size \<Longrightarrow>
    packetDumper_onPacketFd self (int (length p)) p tv_sec tv_nsec (16 + int (length p)) = Some (self', effects) \<Longrightarrow>
    session self' (packets @ [((ucast tv_sec, ucast tv_nsec), p)]) (out @ sent_to (dumper_clientFd self) effects)"

lemma length_pcapHeader [simp]: "length pcapHeader = 24"
  by (simp add: pcapHeader_def)

definition pcap_record :: "(u32 \<times> u32) \<times> bytes \<Rightarrow> bytes" where
  "pcap_record r = (case r of ((sec, nsec), p) \<Rightarrow> le_bytes 4 (unat sec) @ le_bytes 4 (unat nsec) @ le_bytes 4 (length p) @ le_bytes 4 (length p) @ p)"

lemma records_read:
  assumes "\<forall>(t, p)\<in>set packets. length p \<le> buffer_size"
  shows "pcap_records buffer_size (concat (map pcap_record packets)) = Some packets"
  using assms
proof (induction packets)
  case Nil
  then show ?case by (simp add: pcap_records.simps)
next
  case (Cons r packets)
  obtain sec nsec p where r: "r = ((sec, nsec), p)" by (metis prod.exhaust)
  have len: "length p \<le> buffer_size" "length p < 2 ^ 32" using Cons.prems r by (auto simp: buffer_size_def)
  have un: "unat (word_of_nat (length p) :: u32) = length p" using len(2) by (simp add: unat_of_nat)
  have "unat sec < 2 ^ 32" "unat nsec < 2 ^ 32" using unat_less [of sec] unat_less [of nsec] by simp_all
  moreover have "pcap_record r = le_bytes 4 (unat sec) @ le_bytes 4 (unat nsec) @ le_bytes 4 (length p) @ le_bytes 4 (length p) @ p" by (simp add: r pcap_record_def)
  moreover have "le_bytes 4 n \<noteq> []" for n using length_le_bytes [of 4 n] by (metis list.size(3) zero_neq_numeral)
  ultimately show ?case using Cons len
    by (subst pcap_records.simps) (simp add: r un mem_get_def)
qed

lemma header_read: "pcap_read (pcapHeader @ rest) = pcap_records buffer_size rest"
  by (simp add: pcap_read_def pcapHeader_def buffer_size_def)

lemma session_stream:
  assumes "session self packets out"
  shows "out = pcapHeader @ concat (map pcap_record packets) \<and> (\<forall>(t, p)\<in>set packets. length p \<le> buffer_size) \<and> 0 \<le> dumper_clientFd self \<and> 0 < dumper_packetFd self"
  using assms
proof (induction rule: session.induct)
  case (accepted self newClientFd packetFd timestamping bind attach added1 added2 self' effects)
  then show ?case by (auto simp: packetDumper_onListenFd_def packetDumper_stop_def sent_to_def Let_def split: if_splits prod.splits)
next
  case (packet self packets out p tv_sec tv_nsec self' effects)
  have w: "unat (word_of_int (int (length p)) :: u32) = length p" using packet.hyps(2) by (simp add: buffer_size_def unat_of_nat)
  have "pcapPacketRecord tv_sec tv_nsec (int (length p)) @ p = pcap_record ((ucast tv_sec, ucast tv_nsec), p)"
    by (simp only: pcapPacketRecord_def pcap_record_def w append_assoc prod.case)
  then show ?case using packet by (auto simp: packetDumper_onPacketFd_def sent_to_def Let_def split: if_splits)
qed

text \<open>
  C18: A client receives a valid pcap file. The bytes sent in a session read back as exactly the packets that were captured since the connection was
  accepted, in their order, with the lower 32 bits of their timestamps; both descriptors of the session are open. When the send of a packet falls short, the
  session ends with exactly these two descriptors closed.
\<close>
theorem packetDumper_stream_correct:
  assumes "session self packets out"
  shows "pcap_read out = Some packets \<and> 0 \<le> dumper_clientFd self \<and> 0 < dumper_packetFd self \<and>
    (0 < numRead \<and> written \<noteq> 16 + numRead \<longrightarrow> (\<exists>e. packetDumper_onPacketFd self numRead p tv_sec tv_nsec written =
      Some (self\<lparr>dumper_packetFd := - 1, dumper_clientFd := - 1\<rparr>, e @ [Dumper_close (dumper_packetFd self), Dumper_close (dumper_clientFd self)]) \<and>
      (\<forall>fd. Dumper_close fd \<notin> set e)))"
  using session_stream [OF assms] records_read [of packets] by (auto simp: header_read packetDumper_onPacketFd_def packetDumper_stop_def)

theorem packetDumper_stream_correct_witness:
  "\<exists>self out. session self [((5, 6), [1, 2, 3])] out \<and> pcap_read out = Some [((5, 6), [1, 2, 3])]"
proof -
  obtain self effects where a: "packetDumper_onListenFd example_dumper 7 8 0 0 0 0 0 24 = Some (self, effects)" "dumper_clientFd self = 7"
    by (simp add: packetDumper_onListenFd_def packetDumper_stop_def example_dumper_def Let_def)
  from a(1) have "session self [] (sent_to 7 effects)" by (rule accepted) simp
  moreover obtain self' effects' where "packetDumper_onPacketFd self (int (length [1, 2, 3 :: u8])) [1, 2, 3] 5 6 (16 + int (length [1, 2, 3 :: u8])) = Some (self', effects')"
    by (simp add: packetDumper_onPacketFd_def)
  ultimately have "session self' ([] @ [((ucast (5 :: u64), ucast (6 :: u64)), [1, 2, 3])]) (sent_to 7 effects @ sent_to (dumper_clientFd self) effects')"
    by (intro packet) (simp_all add: buffer_size_def)
  then have s: "session self' [((5, 6), [1, 2, 3])] (sent_to 7 effects @ sent_to (dumper_clientFd self) effects')" by simp
  show ?thesis using packetDumper_stream_correct [OF s, of 0 0 "[]" 0 0] s by blast
qed

end
