(* ===== verification/ModemClient.thy ===== *)
theory ModemClient
  imports DhcpClient
begin

text \<open>
  The modem client of the router, \<^verbatim>\<open>src/router/router/modemClient.c\<close>: it talks to a modem over a serial line, queues AT commands, reads text
  messages and answers the message \<^verbatim>\<open>ip\<close> with the address that the DHCP client leased. The system calls are a record of functions on a world
  that the model passes on. A handler ends normally, or in one of two ways of \<open>modem_stop\<close>: a failed \<open>CHECK\<close>, or behaviour that C leaves
  undefined; a handler that never returns is \<open>None\<close>. Messages to the terminal are left out.
\<close>

section \<open>The state\<close>

text \<open>
  The command queue is an array of 4103 bytes with a record for each command: a tag, a length and the text, or for a constant text the pointer to it. Records
  are only appended at the end and removed at the front, so the queue is a list of commands, and \<open>commandQueueSize\<close> the sum of their sizes.
\<close>

datatype modem_command = Constant bytes | Start_sms bytes | Send_sms bytes

definition modemClient_NO_CMD :: nat where "modemClient_NO_CMD = 0"
definition modemClient_CONSTANT :: nat where "modemClient_CONSTANT = 1"
definition modemClient_START_SMS :: nat where "modemClient_START_SMS = 2"
definition modemClient_SEND_SMS :: nat where "modemClient_SEND_SMS = 3"

fun command_tag :: "modem_command \<Rightarrow> nat" where
  "command_tag (Constant c) = modemClient_CONSTANT"
| "command_tag (Start_sms number) = modemClient_START_SMS"
| "command_tag (Send_sms sms) = modemClient_SEND_SMS"

fun command_size :: "modem_command \<Rightarrow> nat" where
  "command_size (Constant c) = 11"
| "command_size (Start_sms number) = 2 + length number"
| "command_size (Send_sms sms) = 3 + length sms"

record modemClient =
  modem_path :: bytes
  modem_fd :: int
  modem_timerFd :: int
  modem_receivedSize :: nat
  modem_buffer :: bytes
  modem_commandQueue :: "modem_command list"
  modem_pendingCommand :: bool

definition commandQueueSize :: "modemClient \<Rightarrow> nat" where
  "commandQueueSize self = sum_list (map command_size (modem_commandQueue self))"

definition modem_buffer_size :: nat where "modem_buffer_size = 4096"
definition modem_queue_size :: nat where "modem_queue_size = 4103"

definition modemClient_INIT_CMD :: bytes where
  "modemClient_INIT_CMD = bytes_of ''ATE0;+CMGF=1;+CSDH=1;+CSCS=\"UCS2\";+CPMS=\"SM\",\"SM\",\"SM\"'' @ [13]"

definition modemClient_SMS_POLL_CMD :: bytes where
  "modemClient_SMS_POLL_CMD = bytes_of ''AT+CMGD=,3;+CMGL=\"REC UNREAD\"'' @ [13]"

record termios =
  c_iflag :: u32
  c_oflag :: u32
  c_cflag :: u32
  c_lflag :: u32
  c_line :: u8
  c_cc :: bytes

record 'w modem_os =
  modem_write :: "int \<Rightarrow> bytes \<Rightarrow> 'w \<Rightarrow> int \<times> 'w"
  modem_read :: "int \<Rightarrow> nat \<Rightarrow> 'w \<Rightarrow> int \<times> bytes \<times> 'w"
  modem_settime :: "int \<Rightarrow> nat \<Rightarrow> 'w \<Rightarrow> int \<times> 'w"
  modem_openat :: "bytes \<Rightarrow> nat \<Rightarrow> 'w \<Rightarrow> int \<times> 'w"
  modem_tcgets :: "int \<Rightarrow> 'w \<Rightarrow> int \<times> termios \<times> 'w"
  modem_tcsets :: "int \<Rightarrow> termios \<Rightarrow> 'w \<Rightarrow> int \<times> 'w"
  modem_close :: "int \<Rightarrow> 'w \<Rightarrow> int \<times> 'w"
  modem_epollAdd :: "int \<Rightarrow> 'w \<Rightarrow> int \<times> 'w"

datatype modem_stop = Aborted | Undefined_behaviour

section \<open>The command queue\<close>

definition modemClient_pendingCmdTag :: "modemClient \<Rightarrow> nat" where
  "modemClient_pendingCmdTag self = (if modem_pendingCommand self then command_tag (hd (modem_commandQueue self)) else modemClient_NO_CMD)"

text \<open>\<open>timerFd\<close> and \<open>settime\<close> are the results of \<open>timerfd_create\<close> and \<open>timerfd_settime\<close>.\<close>

definition modemClient_init :: "modemClient \<Rightarrow> bytes \<Rightarrow> int \<Rightarrow> int \<Rightarrow> modem_stop + modemClient" where
  "modemClient_init self path timerFd settime =
     (let self = self\<lparr>modem_path := path, modem_fd := - 1, modem_timerFd := timerFd\<rparr>
      in if \<not> timerFd > 0 then Inl Aborted
         else if settime \<noteq> 0 then Inl Aborted
         else Inr self)"

definition modemClient_disconnect :: "'w modem_os \<Rightarrow> modemClient \<Rightarrow> 'w \<Rightarrow> modemClient \<times> 'w" where
  "modemClient_disconnect os self w =
     (if modem_fd self > 0 then
        let (_, w) = modem_write os (modem_fd self) [0x1b] w;
            (_, w) = modem_close os (modem_fd self) w
        in (self\<lparr>modem_fd := - 1\<rparr>, w)
      else (self, w))"

text \<open>The bytes that are written for a command.\<close>

fun command_bytes :: "modem_command \<Rightarrow> bytes" where
  "command_bytes (Constant c) = c"
| "command_bytes (Start_sms number) = bytes_of ''AT+CMGS=\"'' @ number @ bytes_of ''\"'' @ [13]"
| "command_bytes (Send_sms sms) = sms @ [0x1a]"

definition modemClient_processQueue :: "'w modem_os \<Rightarrow> modemClient \<Rightarrow> 'w \<Rightarrow> modem_stop + int \<times> modemClient \<times> 'w" where
  "modemClient_processQueue os self w =
     (if modem_pendingCommand self \<or> modem_commandQueue self = [] then Inr (0, self, w)
      else
        let cmd = hd (modem_commandQueue self);
            (written, w) = modem_write os (modem_fd self) (command_bytes cmd) w
        in if written \<noteq> int (length (command_bytes cmd)) then Inr (- 1, self, w)
           else
             let self = self\<lparr>modem_pendingCommand := True\<rparr>;
                 (settime, w) = modem_settime os (modem_timerFd self) 10 w
             in if settime \<noteq> 0 then Inl Aborted else Inr (0, self, w))"

definition modemClient_queueConstant :: "'w modem_os \<Rightarrow> modemClient \<Rightarrow> bytes \<Rightarrow> 'w \<Rightarrow> modem_stop + int \<times> modemClient \<times> 'w" where
  "modemClient_queueConstant os self c w =
     (if commandQueueSize self > modem_queue_size - 11 then Inr (- 1, self, w)
      else modemClient_processQueue os (self\<lparr>modem_commandQueue := modem_commandQueue self @ [Constant c]\<rparr>) w)"

definition modemClient_queueSms :: "'w modem_os \<Rightarrow> modemClient \<Rightarrow> bytes \<Rightarrow> bytes \<Rightarrow> 'w \<Rightarrow> modem_stop + int \<times> modemClient \<times> 'w" where
  "modemClient_queueSms os self number sms w =
     (let startCmdSize = command_size (Start_sms number);
          sendCmdSize = command_size (Send_sms sms)
      in if int (commandQueueSize self) > int modem_queue_size - int startCmdSize - int sendCmdSize then Inr (- 1, self, w)
         else modemClient_processQueue os (self\<lparr>modem_commandQueue := modem_commandQueue self @ [Start_sms number, Send_sms sms]\<rparr>) w)"

text \<open>Without a pending command, the assumption that one is pending makes the behaviour undefined.\<close>

definition modemClient_ackPending :: "'w modem_os \<Rightarrow> modemClient \<Rightarrow> 'w \<Rightarrow> modem_stop + int \<times> modemClient \<times> 'w" where
  "modemClient_ackPending os self w =
     (if \<not> modem_pendingCommand self then Inl Undefined_behaviour
      else modemClient_processQueue os (self\<lparr>modem_commandQueue := tl (modem_commandQueue self), modem_pendingCommand := False\<rparr>) w)"

section \<open>The timer\<close>

definition modemClient_onTimerFd_fail :: "'w modem_os \<Rightarrow> modemClient \<Rightarrow> 'w \<Rightarrow> modem_stop + modemClient \<times> 'w" where
  "modemClient_onTimerFd_fail os self w =
     (let (self, w) = modemClient_disconnect os self w;
          (settime, w) = modem_settime os (modem_timerFd self) 10 w
      in if settime \<noteq> 0 then Inl Aborted else Inr (self, w))"

definition modemClient_onTimerFd_poll :: "'w modem_os \<Rightarrow> modemClient \<Rightarrow> 'w \<Rightarrow> modem_stop + modemClient \<times> 'w" where
  "modemClient_onTimerFd_poll os self w =
     (case modemClient_queueConstant os self modemClient_SMS_POLL_CMD w of Inl stop \<Rightarrow> Inl stop
      | Inr (status, self, w) \<Rightarrow> if status < 0 then modemClient_onTimerFd_fail os self w else Inr (self, w))"

text \<open>The terminal flags: \<open>IGNCR\<close> for the input, no output processing, eight bits without parity, and no line editing, signals or echo.\<close>

definition modemClient_termios :: "termios \<Rightarrow> termios" where
  "modemClient_termios t = t\<lparr>c_iflag := 0x80, c_oflag := c_oflag t AND NOT 0x2F, c_cflag := (c_cflag t AND NOT 0x130) OR 0x30, c_lflag := c_lflag t AND NOT 0x800B\<rparr>"

definition modemClient_onTimerFd :: "'w modem_os \<Rightarrow> modemClient \<Rightarrow> 'w \<Rightarrow> modem_stop + modemClient \<times> 'w" where
  "modemClient_onTimerFd os self w =
     (if modem_fd self < 0 then
        let (fd, w) = modem_openat os (modem_path self) 0x102 w;
            self = self\<lparr>modem_fd := fd\<rparr>
        in if fd < 0 then modemClient_onTimerFd_fail os self w
           else
             let (status, t, w) = modem_tcgets os fd w
             in if status \<noteq> 0 then modemClient_onTimerFd_fail os self w
                else
                  let (status, w) = modem_tcsets os fd (modemClient_termios t) w
                  in if status \<noteq> 0 then modemClient_onTimerFd_fail os self w
                     else
                       let self = self\<lparr>modem_receivedSize := 0, modem_commandQueue := [], modem_pendingCommand := False\<rparr>
                       in case modemClient_queueConstant os self modemClient_INIT_CMD w of Inl stop \<Rightarrow> Inl stop
                          | Inr (status, self, w) \<Rightarrow>
                              if status < 0 then modemClient_onTimerFd_fail os self w
                              else
                                let (added, w) = modem_epollAdd os (modem_fd self) w
                                in if added \<noteq> 0 then Inl Aborted else modemClient_onTimerFd_poll os self w
      else if modem_pendingCommand self then modemClient_onTimerFd_fail os self w
      else modemClient_onTimerFd_poll os self w)"

section \<open>Lines from the modem\<close>

text \<open>The address and netmask that the DHCP client holds, and its encoding in UCS-2 and hexadecimal digits.\<close>

definition modemClient_printIp :: "dhcpClient \<Rightarrow> bytes" where
  "modemClient_printIp client =
     (let ip = ip_bytes (client_leasedIp client);
          size = 3 + 1 + 3 + 1 + 3 + 1 + 3 + 1 + 3;
          mp = (replicate size 0, size);
          mp = prepend_uint mp (client_leasedIpNetmask client);
          mp = hc_PREPEND mp (bytes_of ''/'');
          mp = prepend_uint mp (ip ! 3);
          mp = hc_PREPEND mp (bytes_of ''.'');
          mp = prepend_uint mp (ip ! 2);
          mp = hc_PREPEND mp (bytes_of ''.'');
          mp = prepend_uint mp (ip ! 1);
          mp = hc_PREPEND mp (bytes_of ''.'');
          mp = prepend_uint mp (ip ! 0)
      in drop (snd mp) (fst mp))"

definition ucs2_hex :: "bytes \<Rightarrow> bytes" where
  "ucs2_hex s = concat (map (\<lambda>c. [chr CHR ''0'', chr CHR ''0'', util_hexTable ! unat (drop_bit 4 c AND 0xF), util_hexTable ! unat (c AND 0xF)]) s)"

text \<open>
  How the handling of one line ends: the rest is incomplete, the connection fails, or the loop goes on behind the final \<open>lineLength\<close>.
\<close>

datatype 'w modem_step = Go_out | Go_fail modemClient 'w | Go_on nat modemClient 'w

definition modem_status :: "(modem_stop + int \<times> modemClient \<times> 'w) \<Rightarrow> nat \<Rightarrow> modem_stop + 'w modem_step" where
  "modem_status r lineLength = (case r of Inl stop \<Rightarrow> Inl stop | Inr (status, self, w) \<Rightarrow> Inr (if status < 0 then Go_fail self w else Go_on lineLength self w))"

text \<open>
  A message: \<open>line\<close> is the received text from the start of its header line of \<open>lineLength\<close> characters on. The slot number ends with the first
  comma, the sender's number starts 15 characters behind that and ends with a quotation mark, and the length of the message follows the last comma.
\<close>

definition modemClient_readSms ::
  "'w modem_os \<Rightarrow> dhcpClient \<Rightarrow> bytes \<Rightarrow> nat \<Rightarrow> modemClient \<Rightarrow> 'w \<Rightarrow> modem_stop + 'w modem_step" where
  "modemClient_readSms os client line lineLength self w =
     (case find (\<lambda>i. line ! i = chr CHR '','') [7..<lineLength] of None \<Rightarrow> Inr (Go_fail self w)
      | Some slotNumberEnd \<Rightarrow>
        let senderNumberIndex = slotNumberEnd + 15
        in case find (\<lambda>i. line ! i = chr CHR ''\"'') [senderNumberIndex..<lineLength] of None \<Rightarrow> Inr (Go_fail self w)
           | Some senderNumberEnd \<Rightarrow>
             let smsLengthIndex = the (find (\<lambda>i. line ! (i - 1) = chr CHR '','') (rev [1..<lineLength + 1]))
             in case util_strToUint (drop smsLengthIndex line) (int (lineLength - smsLengthIndex)) of (parsed, smsLength) \<Rightarrow>
                  if parsed \<le> 0 then Inr (Go_fail self w)
                  else
                    let smsLength = unat (the smsLength);
                        smsContentIndex = lineLength + 1
                    in if smsLength > (length line - smsContentIndex - 1) div 4 then Inr Go_out
                       else
                         let smsSize = smsLength * 4;
                             lineLength = lineLength + (smsSize + 1)
                         in if smsLength \<noteq> 2 \<or> mem_compare (drop smsContentIndex line) (bytes_of ''00690070'') 8 \<noteq> 0 then Inr (Go_on lineLength self w)
                            else
                              let number = mem_get line senderNumberIndex ((senderNumberEnd - senderNumberIndex) mod 256)
                              in modem_status (modemClient_queueSms os self number (ucs2_hex (modemClient_printIp client)) w) lineLength)"

definition modemClient_line ::
  "'w modem_os \<Rightarrow> dhcpClient \<Rightarrow> nat \<Rightarrow> bytes \<Rightarrow> modemClient \<Rightarrow> 'w \<Rightarrow> modem_stop + 'w modem_step" where
  "modemClient_line os client pendingCmdTag line self w =
     (let newLine = find (\<lambda>i. line ! i = 10) [0..<length line];
          lineLength = (case newLine of None \<Rightarrow> length line | Some i \<Rightarrow> i)
      in if newLine = None \<and> (lineLength \<noteq> 2 \<or> line ! 0 \<noteq> chr CHR ''>'' \<or> line ! 1 \<noteq> chr CHR '' '') then Inr Go_out
         else if lineLength = 2 \<and> (line ! 0 = chr CHR ''O'' \<and> line ! 1 = chr CHR ''K'' \<or> line ! 0 = chr CHR ''>'' \<and> line ! 1 = chr CHR '' '') then
           if pendingCmdTag = modemClient_NO_CMD then Inr (Go_fail self w)
           else if line ! 0 = chr CHR ''>'' then
             if pendingCmdTag \<noteq> modemClient_START_SMS then Inr (Go_fail self w)
             else modem_status (modemClient_ackPending os self w) (lineLength - 1)
           else if pendingCmdTag = modemClient_START_SMS then Inr (Go_fail self w)
           else modem_status (modemClient_ackPending os self w) lineLength
         else if lineLength = 5 \<and> mem_compare line (bytes_of ''ERROR'') 5 = 0 then Inr (Go_fail self w)
         else if lineLength \<ge> 7 \<and> mem_compare line (bytes_of ''+CMGL: '') 7 = 0 then modemClient_readSms os client line lineLength self w
         else if lineLength \<ge> 11 \<and> mem_compare line (bytes_of ''+CMTI: \"SM\"'') 11 = 0 then
           modem_status (modemClient_queueConstant os self modemClient_SMS_POLL_CMD w) lineLength
         else Inr (Go_on lineLength self w))"

text \<open>
  The loop over the lines of \<open>received\<close>: whether it is left through \<open>out_fail\<close>, and the value of \<open>lineStart\<close> there. Where nothing is
  left, no line is found.
\<close>

function modemClient_lines ::
  "'w modem_os \<Rightarrow> dhcpClient \<Rightarrow> nat \<Rightarrow> bytes \<Rightarrow> nat \<Rightarrow> modemClient \<Rightarrow> 'w \<Rightarrow> modem_stop + bool \<times> nat \<times> modemClient \<times> 'w" where
  "modemClient_lines os client pendingCmdTag received lineStart self w =
     (if lineStart < length received then
        case modemClient_line os client pendingCmdTag (drop lineStart received) self w of Inl stop \<Rightarrow> Inl stop
        | Inr Go_out \<Rightarrow> Inr (False, lineStart, self, w)
        | Inr (Go_fail self w) \<Rightarrow> Inr (True, lineStart, self, w)
        | Inr (Go_on lineLength self w) \<Rightarrow> modemClient_lines os client pendingCmdTag received (lineStart + lineLength + 1) self w
      else Inr (False, lineStart, self, w))"
  by auto
termination by (relation "measure (\<lambda>(_, _, _, received, lineStart, _). length received - lineStart)") auto

declare modemClient_lines.simps [simp del]

text \<open>
  The labels \<open>out_fail\<close> and \<open>out\<close>: a failure to process the queue goes back to \<open>out_fail\<close>. With more than the received bytes consumed,
  the number of bytes to move is a huge unsigned number.
\<close>

partial_function (option) modemClient_out :: "'w modem_os \<Rightarrow> bool \<Rightarrow> nat \<Rightarrow> modemClient \<Rightarrow> 'w \<Rightarrow> (modem_stop + modemClient \<times> 'w) option" where
  "modemClient_out os fail lineStart self w =
     (let (self, w) = (if fail then modemClient_disconnect os self w else (self, w))
      in case modemClient_processQueue os self w of Inl stop \<Rightarrow> Some (Inl stop)
         | Inr (status, self, w) \<Rightarrow>
             if status < 0 then modemClient_out os True lineStart self w
             else if modem_receivedSize self < lineStart then Some (Inl Undefined_behaviour)
             else
               let remaining = modem_receivedSize self - lineStart
               in Some (Inr (self\<lparr>modem_receivedSize := remaining, modem_buffer := mem_put (modem_buffer self) 0 (mem_get (modem_buffer self) lineStart remaining)\<rparr>, w)))"

definition modemClient_onFd :: "'w modem_os \<Rightarrow> dhcpClient \<Rightarrow> modemClient \<Rightarrow> 'w \<Rightarrow> (modem_stop + modemClient \<times> 'w) option" where
  "modemClient_onFd os client self w =
     (let (numRead, bs, w) = modem_read os (modem_fd self) (modem_buffer_size - modem_receivedSize self) w
      in if numRead \<le> 0 then modemClient_out os True 0 self w
         else
           let self = self\<lparr>modem_buffer := mem_put (modem_buffer self) (modem_receivedSize self) (take (nat numRead) bs),
                           modem_receivedSize := modem_receivedSize self + nat numRead\<rparr>
           in case modemClient_lines os client (modemClient_pendingCmdTag self) (take (modem_receivedSize self) (modem_buffer self)) 0 self w of
                Inl stop \<Rightarrow> Some (Inl stop)
              | Inr (fail, lineStart, self, w) \<Rightarrow> modemClient_out os fail lineStart self w)"

definition modemClient_deinit :: "'w modem_os \<Rightarrow> modemClient \<Rightarrow> 'w \<Rightarrow> 'w" where
  "modemClient_deinit os self w =
     (let (self, w) = modemClient_disconnect os self w;
          (_, w) = modem_close os (modem_timerFd self) w
      in w)"

section \<open>The arrays\<close>

text \<open>Both arrays are within their bounds, and a pending command is in the queue. No call but the handlers themselves touches the buffer.\<close>

definition modem_inv :: "modemClient \<Rightarrow> bool" where
  "modem_inv self \<longleftrightarrow> length (modem_buffer self) = modem_buffer_size \<and> modem_receivedSize self \<le> modem_buffer_size \<and> commandQueueSize self \<le> modem_queue_size \<and>
     (modem_pendingCommand self \<longrightarrow> modem_commandQueue self \<noteq> [])"

definition modem_kept :: "modemClient \<Rightarrow> modemClient \<Rightarrow> bool" where
  "modem_kept self self' \<longleftrightarrow> (modem_inv self \<longrightarrow> modem_inv self') \<and> modem_buffer self' = modem_buffer self \<and> modem_receivedSize self' = modem_receivedSize self"

lemma kept_refl [simp]: "modem_kept self self"
  by (simp add: modem_kept_def)

lemma kept_trans [trans]: "modem_kept a b \<Longrightarrow> modem_kept b c \<Longrightarrow> modem_kept a c"
  by (auto simp: modem_kept_def)

lemma processQueue_kept: "modemClient_processQueue os self w = Inr (status, self', w') \<Longrightarrow> modem_kept self self'"
  by (auto simp: modemClient_processQueue_def Let_def modem_kept_def modem_inv_def commandQueueSize_def split: if_splits prod.splits)

lemma disconnect_kept: "modemClient_disconnect os self w = (self', w') \<Longrightarrow> modem_kept self self'"
  by (auto simp: modemClient_disconnect_def Let_def modem_kept_def modem_inv_def commandQueueSize_def split: if_splits prod.splits)

lemma queue_kept:
  assumes "commandQueueSize self + sum_list (map command_size cmds) \<le> modem_queue_size" "modemClient_processQueue os (self\<lparr>modem_commandQueue := modem_commandQueue self @ cmds\<rparr>) w = Inr (status, self', w')"
  shows "modem_kept self self'"
proof -
  have "modem_kept self (self\<lparr>modem_commandQueue := modem_commandQueue self @ cmds\<rparr>)" using assms(1) by (auto simp: modem_kept_def modem_inv_def commandQueueSize_def)
  then show ?thesis using processQueue_kept [OF assms(2)] by (rule kept_trans)
qed

lemma queueConstant_kept: "modemClient_queueConstant os self c w = Inr (status, self', w') \<Longrightarrow> modem_kept self self'"
  by (auto simp: modemClient_queueConstant_def modem_queue_size_def split: if_splits intro!: queue_kept)

lemma queueSms_kept: "modemClient_queueSms os self number sms w = Inr (status, self', w') \<Longrightarrow> modem_kept self self'"
  by (auto simp: modemClient_queueSms_def modem_queue_size_def Let_def split: if_splits intro!: queue_kept)

lemma ackPending_kept:
  assumes "modemClient_ackPending os self w = Inr (status, self', w')"
  shows "modem_kept self self'"
proof -
  have "modem_kept self (self\<lparr>modem_commandQueue := tl (modem_commandQueue self), modem_pendingCommand := False\<rparr>)"
    by (cases "modem_commandQueue self") (auto simp: modem_kept_def modem_inv_def commandQueueSize_def)
  also have "modem_kept \<dots> self'" using assms by (auto simp: modemClient_ackPending_def split: if_splits intro: processQueue_kept)
  finally show ?thesis .
qed

fun step_kept :: "modemClient \<Rightarrow> 'w modem_step \<Rightarrow> bool" where
  "step_kept self Go_out = True"
| "step_kept self (Go_fail self' w') = modem_kept self self'"
| "step_kept self (Go_on n self' w') = modem_kept self self'"

lemma status_kept:
  assumes "modem_status r n = Inr step" "\<And>status self' w'. r = Inr (status, self', w') \<Longrightarrow> modem_kept self self'"
  shows "step_kept self step"
  using assms by (auto simp: modem_status_def split: sum.splits prod.splits if_splits)

lemmas status_kepts = status_kept [OF _ ackPending_kept] status_kept [OF _ queueConstant_kept] status_kept [OF _ queueSms_kept]

lemma readSms_kept: "modemClient_readSms os client line n self w = Inr step \<Longrightarrow> step_kept self step"
  unfolding modemClient_readSms_def Let_def by (auto split: option.split_asm if_split_asm prod.split_asm intro: status_kepts)

lemma line_kept: "modemClient_line os client tag line self w = Inr step \<Longrightarrow> step_kept self step"
  unfolding modemClient_line_def Let_def by (auto split: if_split_asm intro: status_kepts readSms_kept)

lemma lines_kept: "modemClient_lines os client tag received lineStart self w = Inr (fail, n, self', w') \<Longrightarrow> modem_kept self self'"
proof (induction os client tag received lineStart self w rule: modemClient_lines.induct)
  case (1 os client tag received lineStart self w)
  show ?case
  proof (cases "lineStart < length received")
    case True
    then show ?thesis using 1 line_kept [of os client tag "drop lineStart received" self w]
      by (subst (asm) (2) modemClient_lines.simps) (auto split: sum.split_asm modem_step.split_asm intro: kept_trans)
  next
    case False
    then show ?thesis using "1.prems" by (subst (asm) modemClient_lines.simps) simp
  qed
qed

lemma out_inv:
  assumes "modemClient_out os fail lineStart self w = Some y"
  shows "modem_inv self \<longrightarrow> (\<forall>self' w'. y = Inr (self', w') \<longrightarrow> modem_inv self')"
  using assms
proof (rule modemClient_out.raw_induct [where P = "\<lambda>os fail lineStart self w y. modem_inv self \<longrightarrow> (\<forall>self' w'. y = Inr (self', w') \<longrightarrow> modem_inv self')", rotated])
  fix f and os :: "'a modem_os" and fail lineStart self w y
  assume IH: "\<And>os fail lineStart self w y. f os fail lineStart self w = Some y \<Longrightarrow> modem_inv self \<longrightarrow> (\<forall>self' w'. y = Inr (self', w') \<longrightarrow> modem_inv self')"
    and step: "(let (self, w) = if fail then modemClient_disconnect os self w else (self, w)
       in case modemClient_processQueue os self w of Inl stop \<Rightarrow> Some (Inl stop)
          | Inr (status, self, w) \<Rightarrow> if status < 0 then f os True lineStart self w
              else if modem_receivedSize self < lineStart then Some (Inl Undefined_behaviour)
              else let remaining = modem_receivedSize self - lineStart
                in Some (Inr (self\<lparr>modem_receivedSize := remaining, modem_buffer := mem_put (modem_buffer self) 0 (mem_get (modem_buffer self) lineStart remaining)\<rparr>, w))) = Some y"
  obtain self1 w1 where d: "(if fail then modemClient_disconnect os self w else (self, w)) = (self1, w1)" by fastforce
  have k1: "modem_kept self self1" using d disconnect_kept [of os self w self1 w1] by (auto split: if_split_asm)
  show "modem_inv self \<longrightarrow> (\<forall>self' w'. y = Inr (self', w') \<longrightarrow> modem_inv self')"
  proof (cases "modemClient_processQueue os self1 w1")
    case (Inl stop)
    then show ?thesis using step d by auto
  next
    case (Inr r)
    obtain status self2 w2 where r: "r = (status, self2, w2)" by (metis prod_cases3)
    have k2: "modem_inv self \<Longrightarrow> modem_inv self2" using k1 processQueue_kept Inr r by (fastforce simp: modem_kept_def)
    define self3 where "self3 = self2\<lparr>modem_receivedSize := modem_receivedSize self2 - lineStart,
        modem_buffer := mem_put (modem_buffer self2) 0 (mem_get (modem_buffer self2) lineStart (modem_receivedSize self2 - lineStart))\<rparr>"
    have k3: "modem_inv self3" if "modem_inv self2" "\<not> modem_receivedSize self2 < lineStart"
    proof -
      have b: "length (modem_buffer self2) = modem_buffer_size" "modem_receivedSize self2 \<le> modem_buffer_size" using that(1) by (simp_all add: modem_inv_def)
      then have "length (mem_put (modem_buffer self2) 0 (mem_get (modem_buffer self2) lineStart (modem_receivedSize self2 - lineStart))) = modem_buffer_size"
        using that(2) length_mem_get [of lineStart "modem_receivedSize self2 - lineStart" "modem_buffer self2"] by (simp add: not_less)
      then show ?thesis using that(1) b(2) unfolding modem_inv_def self3_def commandQueueSize_def by auto
    qed
    have "(if status < 0 then f os True lineStart self2 w2 else if modem_receivedSize self2 < lineStart then Some (Inl Undefined_behaviour) else Some (Inr (self3, w2))) = Some y"
      using step unfolding d Let_def prod.case Inr sum.case r self3_def .
    then consider "f os True lineStart self2 w2 = Some y" | "y = Inl Undefined_behaviour" | "y = Inr (self3, w2)" "\<not> modem_receivedSize self2 < lineStart"
      by (metis option.inject)
    then show ?thesis
    proof cases
      case 1
      show ?thesis using IH [OF 1] k2 by blast
    qed (use k2 k3 in simp_all)
  qed
qed

lemma timer_fail_inv: "modemClient_onTimerFd_fail os self w = Inr (self', w') \<Longrightarrow> modem_inv self \<Longrightarrow> modem_inv self'"
  by (auto simp: modemClient_onTimerFd_fail_def Let_def modem_kept_def dest!: disconnect_kept split: prod.split_asm if_split_asm)

lemma timer_poll_inv: "modemClient_onTimerFd_poll os self w = Inr (self', w') \<Longrightarrow> modem_inv self \<Longrightarrow> modem_inv self'"
  by (auto simp: modemClient_onTimerFd_poll_def modem_kept_def dest!: queueConstant_kept split: sum.split_asm prod.split_asm if_split_asm intro: timer_fail_inv)

lemma onTimerFd_inv:
  assumes "modemClient_onTimerFd os self w = Inr (self', w')" "modem_inv self"
  shows "modem_inv self'"
proof -
  have i: "modem_inv (self\<lparr>modem_fd := fd\<rparr>)" "modem_inv (self\<lparr>modem_fd := fd, modem_receivedSize := 0, modem_commandQueue := [], modem_pendingCommand := False\<rparr>)" for fd
    using assms(2) by (simp_all add: modem_inv_def commandQueueSize_def)
  have q: "modem_inv self2" if "modemClient_queueConstant os (self\<lparr>modem_fd := fd, modem_receivedSize := 0, modem_commandQueue := [], modem_pendingCommand := False\<rparr>) c w1 = Inr (status, self2, w2)"
    for fd c w1 status self2 w2 using queueConstant_kept [OF that] i(2) [of fd] by (simp add: modem_kept_def)
  show ?thesis using assms i q unfolding modemClient_onTimerFd_def Let_def
    by (auto split: if_split_asm prod.split_asm sum.split_asm intro: timer_fail_inv timer_poll_inv)
qed

text \<open>
  C19: The handlers stay within their arrays. Given that a read stores at most the number of bytes asked for, whenever the timer handler or the
  input handler returns, the received bytes fit the buffer, the queued commands fit the queue, and a pending command is the first of the queue; whatever the modem sends and whatever the other calls return.
\<close>
theorem modemClient_arrays_safe:
  assumes "\<forall>fd n w. fst (modem_read os fd n w) \<le> int n \<and> length (fst (snd (modem_read os fd n w))) \<le> n" "modem_inv self"
  shows "(\<forall>self' w'. modemClient_onFd os client self w = Some (Inr (self', w')) \<longrightarrow> modem_inv self') \<and> (\<forall>self' w'. modemClient_onTimerFd os self w = Inr (self', w') \<longrightarrow> modem_inv self')"
proof -
  obtain numRead bs w1 where r: "modem_read os (modem_fd self) (modem_buffer_size - modem_receivedSize self) w = (numRead, bs, w1)" by (metis prod_cases3)
  have le: "numRead \<le> int (modem_buffer_size - modem_receivedSize self)" "length bs \<le> modem_buffer_size - modem_receivedSize self"
    using assms(1) [rule_format, of "modem_fd self" "modem_buffer_size - modem_receivedSize self" w] r by simp_all
  define self1 where "self1 = self\<lparr>modem_buffer := mem_put (modem_buffer self) (modem_receivedSize self) (take (nat numRead) bs), modem_receivedSize := modem_receivedSize self + nat numRead\<rparr>"
  have i1: "modem_inv self1" using assms(2) le by (auto simp: self1_def modem_inv_def commandQueueSize_def)
  have "modem_inv self'" if res: "modemClient_onFd os client self w = Some (Inr (self', w'))" for self' w'
  proof (cases "numRead \<le> 0")
    case True
    then have "modemClient_out os True 0 self w1 = Some (Inr (self', w'))" using res r by (simp add: modemClient_onFd_def)
    from out_inv [OF this] show ?thesis using assms(2) by simp
  next
    case False
    then obtain fail n self2 w2 where l: "modemClient_lines os client (modemClient_pendingCmdTag self1) (take (modem_receivedSize self1) (modem_buffer self1)) 0 self1 w1 = Inr (fail, n, self2, w2)"
      "modemClient_out os fail n self2 w2 = Some (Inr (self', w'))"
      using res r unfolding modemClient_onFd_def Let_def self1_def by (auto split: sum.split_asm)
    then show ?thesis using lines_kept [OF l(1)] i1 out_inv [OF l(2)] by (simp add: modem_kept_def)
  qed
  then show ?thesis by (intro conjI allI impI) (simp, rule onTimerFd_inv [OF _ assms(2)])
qed

section \<open>A failed write\<close>

lemma out_hangs:
  assumes "\<forall>bs w. fst (modem_write os (- 1) bs w) < 0" "\<not> modem_pendingCommand self" "modem_commandQueue self \<noteq> []" "0 < modem_fd self"
  shows "modemClient_out os True lineStart self w = None"
proof (rule ccontr)
  let ?Q = "\<lambda>os fail self. (\<forall>bs w. fst (modem_write os (- 1) bs w) < 0) \<and> \<not> modem_pendingCommand self \<and> modem_commandQueue self \<noteq> [] \<and> (fail \<and> 0 < modem_fd self \<or> modem_fd self = - 1)"
  assume "modemClient_out os True lineStart self w \<noteq> None"
  then obtain y where "modemClient_out os True lineStart self w = Some y" by blast
  then have "\<not> ?Q os True self"
  proof (rule modemClient_out.raw_induct [where P = "\<lambda>os fail lineStart self w y. \<not> ?Q os fail self", rotated])
    fix f and os :: "'a modem_os" and fail lineStart self w y
    assume IH: "\<And>os fail lineStart self w y. f os fail lineStart self w = Some y \<Longrightarrow> \<not> ?Q os fail self"
      and step: "(let (self, w) = if fail then modemClient_disconnect os self w else (self, w)
         in case modemClient_processQueue os self w of Inl stop \<Rightarrow> Some (Inl stop)
            | Inr (status, self, w) \<Rightarrow> if status < 0 then f os True lineStart self w
                else if modem_receivedSize self < lineStart then Some (Inl Undefined_behaviour)
                else let remaining = modem_receivedSize self - lineStart
                  in Some (Inr (self\<lparr>modem_receivedSize := remaining, modem_buffer := mem_put (modem_buffer self) 0 (mem_get (modem_buffer self) lineStart remaining)\<rparr>, w))) = Some y"
    show "\<not> ?Q os fail self"
    proof
      assume Q: "?Q os fail self"
      obtain self1 w1 where d: "(if fail then modemClient_disconnect os self w else (self, w)) = (self1, w1)" by fastforce
      have s1: "self1 = self\<lparr>modem_fd := - 1\<rparr>" using d Q by (auto simp: modemClient_disconnect_def Let_def split: if_splits prod.splits)
      obtain r w2 where wr: "modem_write os (- 1) (command_bytes (hd (modem_commandQueue self))) w1 = (r, w2)" by fastforce
      have "r < 0" using Q wr by (metis fst_conv)
      then have "modemClient_processQueue os self1 w1 = Inr (- 1, self1, w2)" using Q wr by (simp add: modemClient_processQueue_def s1)
      then have "f os True lineStart self1 w2 = Some y" using step d by simp
      then show False using IH Q s1 by fastforce
    qed
  qed
  then show False using assms by blast
qed

section \<open>Lines\<close>

lemma find_upt:
  assumes "a \<le> j" "j < n" "P j" "\<And>i. a \<le> i \<Longrightarrow> i < j \<Longrightarrow> \<not> P i"
  shows "find P [a..<n] = Some j"
  unfolding find_Some_iff using assms by (intro exI [of _ "j - a"]) auto

lemma find_upt_none: "(\<And>i. a \<le> i \<Longrightarrow> i < n \<Longrightarrow> \<not> P i) \<Longrightarrow> find P [a..<n] = None"
  by (auto simp: find_None_iff)

lemma find_rev_upt:
  assumes "a \<le> j" "j < n" "P j" "\<And>i. j < i \<Longrightarrow> i < n \<Longrightarrow> \<not> P i"
  shows "find P (rev [a..<n]) = Some j"
  unfolding find_Some_iff using assms by (intro exI [of _ "n - 1 - j"]) (auto simp: rev_nth)

text \<open>A line with its new line character, by the tests in their order.\<close>

lemma whole_line:
  assumes "10 \<notin> set l"
  shows "modemClient_line os client tag (l @ 10 # rest) self w =
    (if l = bytes_of ''OK'' then
       if tag = modemClient_NO_CMD \<or> tag = modemClient_START_SMS then Inr (Go_fail self w) else modem_status (modemClient_ackPending os self w) 2
     else if l = bytes_of ''> '' then
       if tag \<noteq> modemClient_START_SMS then Inr (Go_fail self w) else modem_status (modemClient_ackPending os self w) 1
     else if l = bytes_of ''ERROR'' then Inr (Go_fail self w)
     else if take 7 l = bytes_of ''+CMGL: '' then modemClient_readSms os client (l @ 10 # rest) (length l) self w
     else if take 11 l = bytes_of ''+CMTI: \"SM\"'' then modem_status (modemClient_queueConstant os self modemClient_SMS_POLL_CMD w) (length l)
     else Inr (Go_on (length l) self w))"
proof -
  have f: "find (\<lambda>i. (l @ 10 # rest) ! i = 10) [0..<length (l @ 10 # rest)] = Some (length l)"
    using assms by (intro find_upt) (auto simp: nth_append in_set_conv_nth)
  have two: "length l = 2 \<and> (l @ 10 # rest) ! 0 = a \<and> (l @ 10 # rest) ! 1 = b \<longleftrightarrow> l = [a, b]" for a b
    by (auto simp: nth_append numeral_2_eq_2 length_Suc_conv)
  have cmp: "n \<le> length l \<and> mem_compare (l @ 10 # rest) s n = 0 \<longleftrightarrow> take n l = s" if "length s = n" for s n
  proof (cases "n \<le> length l")
    case True
    then show ?thesis using that mem_compare_eq_0_iff [of n "l @ 10 # rest" s] by simp
  next
    case False
    then have "take n l \<noteq> s" using that by (metis length_take min.absorb1 nle_le order_refl)
    then show ?thesis using False by simp
  qed
  have cmps: "7 \<le> length l \<and> mem_compare (l @ 10 # rest) (bytes_of ''+CMGL: '') 7 = 0 \<longleftrightarrow> take 7 l = bytes_of ''+CMGL: ''"
    "11 \<le> length l \<and> mem_compare (l @ 10 # rest) (bytes_of ''+CMTI: \"SM\"'') 11 = 0 \<longleftrightarrow> take 11 l = bytes_of ''+CMTI: \"SM\"''"
    by (rule cmp, simp)+
  have five: "length l = 5 \<and> mem_compare (l @ 10 # rest) (bytes_of ''ERROR'') 5 = 0 \<longleftrightarrow> l = bytes_of ''ERROR''"
    using cmp [of "bytes_of ''ERROR''" 5] by auto
  have eqs: "bytes_of ''OK'' = [chr CHR ''O'', chr CHR ''K'']" "bytes_of ''> '' = [chr CHR ''>'', chr CHR '' '']" by (simp_all add: bytes_of_def)
  have ne: "chr CHR ''O'' \<noteq> chr CHR ''>''" by (simp add: chr_def)
  show ?thesis
    unfolding modemClient_line_def f Let_def option.case five conj_disj_distribL two eqs
    unfolding cmps using ne by (auto simp: numeral_2_eq_2 modemClient_NO_CMD_def modemClient_START_SMS_def)
qed

lemma prompt_line: "modemClient_line os client tag (bytes_of ''> '') self w =
    (if tag \<noteq> modemClient_START_SMS then Inr (Go_fail self w) else modem_status (modemClient_ackPending os self w) 1)"
proof -
  have "find (\<lambda>i. bytes_of ''> '' ! i = 10) [0..<2] = None"
    by (simp add: upt_conv_Cons bytes_of_def chr_def)
  then show ?thesis by (simp add: modemClient_line_def bytes_of_def chr_def Let_def modemClient_NO_CMD_def modemClient_START_SMS_def)
qed

text \<open>The header line of a message in the modem's list, with the slot number, the sender, anything else, and the length.\<close>

definition sms_header :: "bytes \<Rightarrow> bytes \<Rightarrow> bytes \<Rightarrow> bytes \<Rightarrow> bytes" where
  "sms_header slot number other len = bytes_of ''+CMGL: '' @ slot @ bytes_of '',\"REC UNREAD\",\"'' @ number @ bytes_of ''\"'' @ other @ bytes_of '','' @ len"

definition sms_header_ok :: "bytes \<Rightarrow> bytes \<Rightarrow> bytes \<Rightarrow> bool" where
  "sms_header_ok slot number other \<longleftrightarrow> chr CHR '','' \<notin> set slot \<and> 10 \<notin> set slot \<and> chr CHR ''\"'' \<notin> set number \<and> 10 \<notin> set number \<and> length number < 256 \<and> 10 \<notin> set other"

lemma read_sms:
  assumes "sms_header_ok slot number other" "len \<noteq> []" "chr CHR '','' \<notin> set len"
  defines "l \<equiv> sms_header slot number other len"
  shows "modemClient_readSms os client (l @ 10 # rest) (length l) self w =
    (case util_strToUint (len @ 10 # rest) (int (length len)) of (parsed, smsLength) \<Rightarrow>
       if parsed \<le> 0 then Inr (Go_fail self w)
       else if unat (the smsLength) > (length rest - 1) div 4 then Inr Go_out
       else if unat (the smsLength) \<noteq> 2 \<or> take 8 rest \<noteq> bytes_of ''00690070'' then Inr (Go_on (length l + (unat (the smsLength) * 4 + 1)) self w)
       else modem_status (modemClient_queueSms os self number (ucs2_hex (modemClient_printIp client)) w) (length l + 9))"
proof -
  define pre where "pre = bytes_of ''+CMGL: '' @ slot"
  define pre2 where "pre2 = pre @ bytes_of '',\"REC UNREAD\",\"''"
  define pre3 where "pre3 = pre2 @ number @ bytes_of ''\"'' @ other @ bytes_of '',''"
  have l1: "l = pre @ bytes_of '','' @ bytes_of ''\"REC UNREAD\",\"'' @ number @ bytes_of ''\"'' @ other @ bytes_of '','' @ len"
    and l2: "l = pre2 @ number @ bytes_of ''\"'' @ other @ bytes_of '','' @ len" and l3: "l = pre3 @ len"
    by (simp_all add: l_def sms_header_def pre_def pre2_def pre3_def bytes_of_def)
  have len2: "length pre2 = length pre + 15" by (simp add: pre2_def)
  have slot: "find (\<lambda>i. (l @ 10 # rest) ! i = chr CHR '','') [7..<length l] = Some (length pre)"
  proof (rule find_upt)
    show "\<not> (l @ 10 # rest) ! i = chr CHR '',''" if "7 \<le> i" "i < length pre" for i
      using that assms(1) unfolding l1 by (auto simp: pre_def nth_append sms_header_ok_def in_set_conv_nth)
  qed (simp_all add: l1 pre_def nth_append bytes_of_def)
  have sender: "find (\<lambda>i. (l @ 10 # rest) ! i = chr CHR ''\"'') [length pre + 15..<length l] = Some (length pre + 15 + length number)"
  proof (rule find_upt)
    show "\<not> (l @ 10 # rest) ! i = chr CHR ''\"''" if "length pre + 15 \<le> i" "i < length pre + 15 + length number" for i
      using that assms(1) unfolding l2 by (auto simp: nth_append len2 sms_header_ok_def in_set_conv_nth)
  qed (simp_all add: l2 len2 nth_append bytes_of_def)
  have comma: "find (\<lambda>i. (l @ 10 # rest) ! (i - 1) = chr CHR '','') (rev [1..<length l + 1]) = Some (length pre3)"
  proof (rule find_rev_upt)
    show "\<not> (l @ 10 # rest) ! (i - 1) = chr CHR '',''" if "length pre3 < i" "i < length l + 1" for i
      using that assms(3) unfolding l3 by (auto simp: nth_append in_set_conv_nth)
  qed (simp_all add: l3 pre3_def nth_append bytes_of_def)
  have number: "mem_get (l @ 10 # rest) (length pre + 15) ((length pre + 15 + length number - (length pre + 15)) mod 256) = number"
    using assms(1) by (simp add: l2 len2 [symmetric] mem_get_def sms_header_ok_def)
  have cmp: "mem_compare (drop (length l + 1) (l @ 10 # rest)) (bytes_of ''00690070'') 8 = 0 \<longleftrightarrow> take 8 rest = bytes_of ''00690070''" if "2 \<le> (length rest - 1) div 4"
    using that mem_compare_eq_0_iff [of 8 rest "bytes_of ''00690070''"] by simp
  show ?thesis
    unfolding modemClient_readSms_def slot option.case Let_def sender comma option.sel number
    using cmp by (auto simp: l3 split: prod.split)
qed

section \<open>The dialogue\<close>

text \<open>
  A modem that works: \<open>v\<close> shows the chunks that the next reads return and everything that was written.
\<close>

definition modem_os_ok :: "'w modem_os \<Rightarrow> ('w \<Rightarrow> bytes list \<times> bytes) \<Rightarrow> bool" where
  "modem_os_ok os v \<longleftrightarrow>
     (\<forall>fd bs w. 0 < fd \<longrightarrow> fst (modem_write os fd bs w) = int (length bs) \<and> v (snd (modem_write os fd bs w)) = (fst (v w), snd (v w) @ bs)) \<and>
     (\<forall>fd n w. fst (modem_settime os fd n w) = 0 \<and> v (snd (modem_settime os fd n w)) = v w) \<and>
     (\<forall>fd n w c cs out. 0 < fd \<longrightarrow> v w = (c # cs, out) \<longrightarrow> length c \<le> n \<longrightarrow> (\<exists>w'. modem_read os fd n w = (int (length c), c, w') \<and> v w' = (cs, out)))"

lemma process_writes:
  assumes "modem_os_ok os v" "0 < modem_fd self" "\<not> modem_pendingCommand self" "modem_commandQueue self = c # cs"
  shows "\<exists>w'. modemClient_processQueue os self w = Inr (0, self\<lparr>modem_pendingCommand := True\<rparr>, w') \<and> v w' = (fst (v w), snd (v w) @ command_bytes c)"
proof -
  obtain r w1 where wr: "modem_write os (modem_fd self) (command_bytes c) w = (r, w1)" by fastforce
  obtain r2 w2 where st: "modem_settime os (modem_timerFd self) 10 w1 = (r2, w2)" by fastforce
  have "r = int (length (command_bytes c))" "v w1 = (fst (v w), snd (v w) @ command_bytes c)" "r2 = 0" "v w2 = v w1"
    using assms(1,2) wr st unfolding modem_os_ok_def by (metis fst_conv snd_conv)+
  then show ?thesis using assms(3,4) wr st by (simp add: modemClient_processQueue_def)
qed

lemma process_idle: "modem_pendingCommand self \<or> modem_commandQueue self = [] \<Longrightarrow> modemClient_processQueue os self w = Inr (0, self, w)"
  by (simp add: modemClient_processQueue_def)

text \<open>An acknowledgement that makes the next command go out, and one behind which nothing is queued.\<close>

lemma ack_next:
  assumes "modem_os_ok os v" "0 < modem_fd self" "modem_pendingCommand self" "modem_commandQueue self = c # c' # cs"
  shows "\<exists>w'. modem_status (modemClient_ackPending os self w) n = Inr (Go_on n (self\<lparr>modem_commandQueue := c' # cs\<rparr>) w') \<and> v w' = (fst (v w), snd (v w) @ command_bytes c')"
  using process_writes [OF assms(1), of "self\<lparr>modem_commandQueue := c' # cs, modem_pendingCommand := False\<rparr>" c' cs w] assms(2-4)
  by (cases self) (auto simp: modemClient_ackPending_def modem_status_def)

lemma ack_last:
  assumes "modem_pendingCommand self" "modem_commandQueue self = [c]"
  shows "modem_status (modemClient_ackPending os self w) n = Inr (Go_on n (self\<lparr>modem_commandQueue := [], modem_pendingCommand := False\<rparr>) w)"
  using assms by (simp add: modemClient_ackPending_def modem_status_def process_idle)

text \<open>A read into the empty buffer.\<close>

lemma onFd_read:
  assumes "modem_receivedSize self = 0" "length (modem_buffer self) = modem_buffer_size" "modem_read os (modem_fd self) modem_buffer_size w = (int (length chunk), chunk, w')"
    "chunk \<noteq> []" "length chunk \<le> modem_buffer_size"
  shows "modemClient_onFd os client self w =
    (case modemClient_lines os client (modemClient_pendingCmdTag self) chunk 0 (self\<lparr>modem_buffer := mem_put (modem_buffer self) 0 chunk, modem_receivedSize := length chunk\<rparr>) w' of
       Inl stop \<Rightarrow> Some (Inl stop) | Inr (fail, lineStart, self, w) \<Rightarrow> modemClient_out os fail lineStart self w)"
proof -
  have "take (length chunk) (mem_put (modem_buffer self) 0 chunk) = chunk" using assms(2,5) by (simp add: mem_put_def)
  moreover have "modemClient_pendingCmdTag (self\<lparr>modem_buffer := b, modem_receivedSize := n\<rparr>) = modemClient_pendingCmdTag self" for b n
    by (simp add: modemClient_pendingCmdTag_def)
  ultimately show ?thesis using assms(1,3,4) by (simp add: modemClient_onFd_def Let_def)
qed

text \<open>A read into the empty buffer whose lines are all complete.\<close>

lemma onFd_complete:
  assumes "modem_os_ok os v" "0 < modem_fd self" "modem_receivedSize self = 0" "length (modem_buffer self) = modem_buffer_size"
    "v w = (chunk # chunks, out)" "chunk \<noteq> []" "length chunk \<le> modem_buffer_size"
  defines "self1 \<equiv> self\<lparr>modem_buffer := mem_put (modem_buffer self) 0 chunk, modem_receivedSize := length chunk\<rparr>"
  assumes "\<And>w1. v w1 = (chunks, out) \<Longrightarrow> \<exists>q p w2. modemClient_lines os client (modemClient_pendingCmdTag self) chunk 0 self1 w1 =
      Inr (False, length chunk, self1\<lparr>modem_commandQueue := q, modem_pendingCommand := p\<rparr>, w2) \<and> (p \<or> q = []) \<and> P q p (v w2)"
  shows "\<exists>self' w'. modemClient_onFd os client self w = Some (Inr (self', w')) \<and> modem_fd self' = modem_fd self \<and> modem_receivedSize self' = 0 \<and>
    length (modem_buffer self') = modem_buffer_size \<and> P (modem_commandQueue self') (modem_pendingCommand self') (v w')"
proof -
  obtain w1 where r: "modem_read os (modem_fd self) modem_buffer_size w = (int (length chunk), chunk, w1)" "v w1 = (chunks, out)"
    using assms(1,2,5,7) unfolding modem_os_ok_def by blast
  obtain q p w2 where L: "modemClient_lines os client (modemClient_pendingCmdTag self) chunk 0 self1 w1 =
      Inr (False, length chunk, self1\<lparr>modem_commandQueue := q, modem_pendingCommand := p\<rparr>, w2)" "p \<or> q = []" "P q p (v w2)"
    using assms(9) [OF r(2)] by blast
  have rs: "modem_receivedSize self1 = length chunk" by (simp add: self1_def)
  have "modemClient_onFd os client self w = modemClient_out os False (length chunk) (self1\<lparr>modem_commandQueue := q, modem_pendingCommand := p\<rparr>) w2"
    unfolding onFd_read [OF assms(3,4) r(1) assms(6,7)] self1_def [symmetric] L(1) by simp
  also have "\<dots> = Some (Inr (self1\<lparr>modem_commandQueue := q, modem_pendingCommand := p, modem_receivedSize := 0\<rparr>, w2))"
    using L(2) rs by (subst modemClient_out.simps) (auto simp: process_idle)
  finally show ?thesis using L(3) assms(4,7) by (auto simp: self1_def)
qed

lemma strToUint_2: "util_strToUint (bytes_of ''2'' @ 10 # rest) (int (length (bytes_of ''2''))) = (1, Some 2)"
  by (simp add: util_strToUint_def util_strToUint_loop.simps bytes_of_def chr_def)

lemma printIp_text:
  defines "ip c \<equiv> ip_bytes (client_leasedIp c)"
  shows "modemClient_printIp c = dec_str (ip c ! 0) @ bytes_of ''.'' @ dec_str (ip c ! 1) @ bytes_of ''.'' @ dec_str (ip c ! 2) @ bytes_of ''.'' @
    dec_str (ip c ! 3) @ bytes_of ''/'' @ dec_str (client_leasedIpNetmask c)"
proof -
  note le = length_dec_str [of "ip c ! 0"] length_dec_str [of "ip c ! 1"] length_dec_str [of "ip c ! 2"] length_dec_str [of "ip c ! 3"] length_dec_str [of "client_leasedIpNetmask c"]
  have w0: "written n (replicate n 0, n) []" for n by (simp add: written_def)
  have "written 19 (prepend_uint (replicate 19 0, 19) (client_leasedIpNetmask c)) (dec_str (client_leasedIpNetmask c))"
    using written_uint [OF w0, of "client_leasedIpNetmask c" 19] le by simp
  then show ?thesis
    unfolding modemClient_printIp_def Let_def ip_def [symmetric]
    by (intro written_text [where n = 19], simp, intro written_uint written_prepend) (use le in simp_all)
qed

lemma length_ucs2_hex: "length (ucs2_hex s) = 4 * length s"
  by (induction s) (simp_all add: ucs2_hex_def)

lemma length_printIp: "length (modemClient_printIp c) \<le> 19"
  using length_dec_str [of "ip_bytes (client_leasedIp c) ! 0"] length_dec_str [of "ip_bytes (client_leasedIp c) ! 1"] length_dec_str [of "ip_bytes (client_leasedIp c) ! 2"]
    length_dec_str [of "ip_bytes (client_leasedIp c) ! 3"] length_dec_str [of "client_leasedIpNetmask c"]
  by (simp add: printIp_text)

lemma lines_step:
  assumes "lineStart < length received" "modemClient_line os client tag (drop lineStart received) self w = Inr (Go_on n self' w')"
  shows "modemClient_lines os client tag received lineStart self w = modemClient_lines os client tag received (lineStart + n + 1) self' w'"
  using assms by (subst modemClient_lines.simps) simp

lemma lines_end: "length received \<le> lineStart \<Longrightarrow> modemClient_lines os client tag received lineStart self w = Inr (False, lineStart, self, w)"
  by (subst modemClient_lines.simps) simp

lemma blank_line: "modemClient_line os client tag (10 # rest) self w = Inr (Go_on 0 self w)"
  using whole_line [of "[]" os client tag rest self w] by (simp add: bytes_of_def)

lemma ok_line: "modemClient_line os client tag (bytes_of ''OK'' @ [10]) self w =
    (if tag = modemClient_NO_CMD \<or> tag = modemClient_START_SMS then Inr (Go_fail self w) else modem_status (modemClient_ackPending os self w) 2)"
  using whole_line [of "bytes_of ''OK''" os client tag "[]" self w] by (simp add: bytes_of_def chr_def)

text \<open>The chunk with the message and the acknowledgement of the listing, while a constant command is pending.\<close>

lemma sms_chunk:
  fixes client :: dhcpClient
  assumes "modem_os_ok os v" "0 < modem_fd self" "modem_pendingCommand self" "modem_commandQueue self = [Constant c]" "sms_header_ok slot number other"
  defines "chunk \<equiv> sms_header slot number other (bytes_of ''2'') @ [10] @ bytes_of ''00690070'' @ [10, 10] @ bytes_of ''OK'' @ [10]"
    and "sms \<equiv> ucs2_hex (modemClient_printIp client)"
  shows "\<exists>w'. modemClient_lines os client modemClient_CONSTANT chunk 0 self w =
      Inr (False, length chunk, self\<lparr>modem_commandQueue := [Start_sms number, Send_sms sms]\<rparr>, w') \<and> v w' = (fst (v w), snd (v w) @ command_bytes (Start_sms number))"
proof -
  define l where "l = sms_header slot number other (bytes_of ''2'')"
  define self2 where "self2 = self\<lparr>modem_commandQueue := [Constant c, Start_sms number, Send_sms sms]\<rparr>"
  have ch: "chunk = l @ 10 # bytes_of ''00690070'' @ [10, 10] @ bytes_of ''OK'' @ [10]" by (simp add: chunk_def l_def)
  have nl: "10 \<notin> set l" using assms(5) by (auto simp: l_def sms_header_def sms_header_ok_def bytes_of_def chr_def)
  have hd: "take 7 l = bytes_of ''+CMGL: ''" "7 < length l" by (simp_all add: l_def sms_header_def bytes_of_def)
  have ne: "l \<noteq> bytes_of ''OK''" "l \<noteq> bytes_of ''> ''" "l \<noteq> bytes_of ''ERROR''" using hd(2) by auto
  have q: "modemClient_queueSms os self number sms w = Inr (0, self2, w)"
    using assms(3,4,5) length_printIp [of client]
    by (simp add: modemClient_queueSms_def commandQueueSize_def modem_queue_size_def sms_header_ok_def sms_def length_ucs2_hex process_idle self2_def)
  have two: "bytes_of ''2'' \<noteq> []" "chr CHR '','' \<notin> set (bytes_of ''2'')" by (simp_all add: bytes_of_def chr_def)
  have tk: "take 8 (bytes_of ''00690070'' @ [10, 10] @ bytes_of ''OK'' @ [10]) = bytes_of ''00690070''" by (simp add: bytes_of_def)
  have "modemClient_readSms os client (l @ 10 # bytes_of ''00690070'' @ [10, 10] @ bytes_of ''OK'' @ [10]) (length l) self w = Inr (Go_on (length l + 9) self2 w)"
    unfolding l_def read_sms [OF assms(5) two] strToUint_2 prod.case tk using q by (simp add: modem_status_def sms_def)
  then have "modemClient_line os client modemClient_CONSTANT chunk self w = Inr (Go_on (length l + 9) self2 w)"
    unfolding ch whole_line [OF nl] using ne hd by simp
  then have s1: "modemClient_lines os client modemClient_CONSTANT chunk 0 self w = modemClient_lines os client modemClient_CONSTANT chunk (length l + 10) self2 w"
    using lines_step [of 0 chunk os client modemClient_CONSTANT self w "length l + 9" self2 w] by (simp add: ch add.commute)
  have s2: "\<dots> = modemClient_lines os client modemClient_CONSTANT chunk (length l + 11) self2 w"
    using lines_step [of "length l + 10" chunk os client modemClient_CONSTANT self2 w 0 self2 w] blank_line [of os client modemClient_CONSTANT "bytes_of ''OK'' @ [10]" self2 w]
    by (simp add: ch bytes_of_def add.commute)
  obtain w' where a: "modem_status (modemClient_ackPending os self2 w) 2 = Inr (Go_on 2 (self2\<lparr>modem_commandQueue := [Start_sms number, Send_sms sms]\<rparr>) w')"
    "v w' = (fst (v w), snd (v w) @ command_bytes (Start_sms number))"
    using ack_next [OF assms(1), of self2 "Constant c" "Start_sms number" "[Send_sms sms]" w 2] assms(2,3) by (auto simp: self2_def)
  have s3: "modemClient_lines os client modemClient_CONSTANT chunk (length l + 11) self2 w =
      modemClient_lines os client modemClient_CONSTANT chunk (length l + 14) (self2\<lparr>modem_commandQueue := [Start_sms number, Send_sms sms]\<rparr>) w'"
    using lines_step [of "length l + 11" chunk os client modemClient_CONSTANT self2 w 2] ok_line [of os client modemClient_CONSTANT self2 w] a(1)
    by (simp add: ch add.commute modemClient_CONSTANT_def modemClient_NO_CMD_def modemClient_START_SMS_def)
  show ?thesis unfolding s1 s2 s3 using a(2) by (intro exI [of _ w']) (simp add: lines_end ch self2_def)
qed

lemma prompt_chunk:
  assumes "modem_os_ok os v" "0 < modem_fd self" "modem_pendingCommand self" "modem_commandQueue self = [Start_sms number, Send_sms sms]"
  shows "\<exists>w'. modemClient_lines os client modemClient_START_SMS (bytes_of ''> '') 0 self w = Inr (False, 2, self\<lparr>modem_commandQueue := [Send_sms sms]\<rparr>, w') \<and>
    v w' = (fst (v w), snd (v w) @ command_bytes (Send_sms sms))"
proof -
  obtain w' where a: "modem_status (modemClient_ackPending os self w) 1 = Inr (Go_on 1 (self\<lparr>modem_commandQueue := [Send_sms sms]\<rparr>) w')"
    "v w' = (fst (v w), snd (v w) @ command_bytes (Send_sms sms))"
    using ack_next [OF assms, of w 1] by blast
  have "modemClient_lines os client modemClient_START_SMS (bytes_of ''> '') 0 self w = modemClient_lines os client modemClient_START_SMS (bytes_of ''> '') 2 (self\<lparr>modem_commandQueue := [Send_sms sms]\<rparr>) w'"
    using lines_step [of 0 "bytes_of ''> ''" os client modemClient_START_SMS self w 1] prompt_line [of os client modemClient_START_SMS self w] a(1) by (simp add: numeral_2_eq_2)
  then show ?thesis using a(2) by (simp add: lines_end)
qed

lemma ok_chunk:
  assumes "modem_pendingCommand self" "modem_commandQueue self = [Send_sms sms]"
  shows "modemClient_lines os client modemClient_SEND_SMS (10 # bytes_of ''OK'' @ [10]) 0 self w = Inr (False, 4, self\<lparr>modem_commandQueue := [], modem_pendingCommand := False\<rparr>, w)"
proof -
  let ?c = "10 # bytes_of ''OK'' @ [10]"
  have "modemClient_lines os client modemClient_SEND_SMS ?c 0 self w = modemClient_lines os client modemClient_SEND_SMS ?c 1 self w"
    using lines_step [of 0 ?c os client modemClient_SEND_SMS self w 0 self w] blank_line [of os client modemClient_SEND_SMS "bytes_of ''OK'' @ [10]" self w] by simp
  also have "\<dots> = modemClient_lines os client modemClient_SEND_SMS ?c 4 (self\<lparr>modem_commandQueue := [], modem_pendingCommand := False\<rparr>) w"
    using lines_step [of 1 ?c os client modemClient_SEND_SMS self w 2] ok_line [of os client modemClient_SEND_SMS self w] ack_last [OF assms, of os w 2]
    by (simp add: numeral_eq_Suc modemClient_SEND_SMS_def modemClient_NO_CMD_def modemClient_START_SMS_def)
  finally show ?thesis by (simp add: lines_end)
qed

text \<open>The same for whole calls of the handler.\<close>

definition talking :: "int \<Rightarrow> modem_command list \<Rightarrow> modemClient \<Rightarrow> bool" where
  "talking fd q self \<longleftrightarrow> 0 < fd \<and> modem_fd self = fd \<and> modem_receivedSize self = 0 \<and> length (modem_buffer self) = modem_buffer_size \<and>
     modem_commandQueue self = q \<and> modem_pendingCommand self = (q \<noteq> [])"

lemma onFd_talking:
  assumes "modem_os_ok os v" "talking fd q self" "v w = (chunk # chunks, out)" "chunk \<noteq> []" "length chunk \<le> modem_buffer_size" "q \<noteq> []"
    "\<And>self w. modem_fd self = fd \<Longrightarrow> modem_pendingCommand self \<Longrightarrow> modem_commandQueue self = q \<Longrightarrow> \<exists>w'.
      modemClient_lines os client (command_tag (hd q)) chunk 0 self w = Inr (False, length chunk, self\<lparr>modem_commandQueue := q', modem_pendingCommand := (q' \<noteq> [])\<rparr>, w') \<and>
      v w' = (fst (v w), snd (v w) @ sent)"
  shows "\<exists>self' w'. modemClient_onFd os client self w = Some (Inr (self', w')) \<and> talking fd q' self' \<and> v w' = (chunks, out @ sent)"
proof -
  note t = assms(2) [unfolded talking_def]
  have tag: "modemClient_pendingCmdTag self = command_tag (hd q)" using t assms(6) by (simp add: modemClient_pendingCmdTag_def)
  let ?self1 = "self\<lparr>modem_buffer := mem_put (modem_buffer self) 0 chunk, modem_receivedSize := length chunk\<rparr>"
  have "\<exists>q p w2. modemClient_lines os client (modemClient_pendingCmdTag self) chunk 0 ?self1 w1 =
      Inr (False, length chunk, ?self1\<lparr>modem_commandQueue := q, modem_pendingCommand := p\<rparr>, w2) \<and> (p \<or> q = []) \<and> (q = q' \<and> p = (q' \<noteq> []) \<and> v w2 = (chunks, out @ sent))"
    if "v w1 = (chunks, out)" for w1
    using assms(7) [of ?self1 w1] t assms(6) that unfolding tag by (auto intro!: exI [of _ q'])
  from onFd_complete [where P = "\<lambda>q p o'. q = q' \<and> p = (q' \<noteq> []) \<and> o' = (chunks, out @ sent)", OF assms(1) _ _ _ assms(3,4,5) this] t
  show ?thesis by (auto simp: talking_def)
qed

lemma set_pending: "modem_pendingCommand self \<Longrightarrow> self\<lparr>modem_commandQueue := q, modem_pendingCommand := True\<rparr> = self\<lparr>modem_commandQueue := q\<rparr>"
  by (cases self) simp

text \<open>
  C7: The message \<^verbatim>\<open>ip\<close> is answered. While the listing of messages is pending, the modem delivers a message with this text from some number, the
  end of the listing, the prompt, and the confirmation, each in one read. Then the three calls of the handler return, and
  the client has sent the command for a message to exactly that number, behind the prompt the leased address and netmask in dotted notation as hexadecimal UCS-2, and the end mark;
  the queue is empty and the connection is ready for the next command.
\<close>
theorem modemClient_answers_ip:
  fixes client :: dhcpClient
  assumes "modem_os_ok os v" "0 < modem_fd self" "modem_pendingCommand self" "modem_commandQueue self = [Constant c]" "modem_receivedSize self = 0"
    "length (modem_buffer self) = modem_buffer_size" "sms_header_ok slot number other" "length (sms_header slot number other (bytes_of ''2'')) + 14 \<le> modem_buffer_size"
    "v w = ([sms_header slot number other (bytes_of ''2'') @ [10] @ bytes_of ''00690070'' @ [10, 10] @ bytes_of ''OK'' @ [10], bytes_of ''> '', 10 # bytes_of ''OK'' @ [10]], out)"
  defines "ip \<equiv> ip_bytes (client_leasedIp client)"
  shows "\<exists>self1 w1 self2 w2 self3 w3. modemClient_onFd os client self w = Some (Inr (self1, w1)) \<and> modemClient_onFd os client self1 w1 = Some (Inr (self2, w2)) \<and>
    modemClient_onFd os client self2 w2 = Some (Inr (self3, w3)) \<and>
    v w3 = ([], out @ bytes_of ''AT+CMGS=\"'' @ number @ bytes_of ''\"'' @ [13] @
      ucs2_hex (dec_str (ip ! 0) @ bytes_of ''.'' @ dec_str (ip ! 1) @ bytes_of ''.'' @ dec_str (ip ! 2) @ bytes_of ''.'' @ dec_str (ip ! 3) @ bytes_of ''/'' @
        dec_str (client_leasedIpNetmask client)) @ [0x1a]) \<and>
    modem_fd self3 = modem_fd self \<and> modem_receivedSize self3 = 0 \<and> modem_commandQueue self3 = [] \<and> \<not> modem_pendingCommand self3"
proof -
  define sms where "sms = ucs2_hex (modemClient_printIp client)"
  let ?chunk = "sms_header slot number other (bytes_of ''2'') @ [10] @ bytes_of ''00690070'' @ [10, 10] @ bytes_of ''OK'' @ [10]"
  have t: "talking (modem_fd self) [Constant c] self" using assms(2-6) by (simp add: talking_def)
  note chunks = sms_chunk [OF assms(1) _ _ _ assms(7), where client = client, folded sms_def] prompt_chunk [OF assms(1), where client = client] ok_chunk [where os = os and client = client]
  have "\<exists>self' w'. modemClient_onFd os client self w = Some (Inr (self', w')) \<and> talking (modem_fd self) [Start_sms number, Send_sms sms] self' \<and>
      v w' = ([bytes_of ''> '', 10 # bytes_of ''OK'' @ [10]], out @ command_bytes (Start_sms number))"
    by (rule onFd_talking [OF assms(1) t assms(9)]) (use assms(2,8) chunks(1) in \<open>auto simp: set_pending\<close>)
  then obtain self1 w1 where 1: "modemClient_onFd os client self w = Some (Inr (self1, w1))" "talking (modem_fd self) [Start_sms number, Send_sms sms] self1"
    "v w1 = ([bytes_of ''> '', 10 # bytes_of ''OK'' @ [10]], out @ command_bytes (Start_sms number))" by blast
  have "\<exists>self' w'. modemClient_onFd os client self1 w1 = Some (Inr (self', w')) \<and> talking (modem_fd self) [Send_sms sms] self' \<and>
      v w' = ([10 # bytes_of ''OK'' @ [10]], (out @ command_bytes (Start_sms number)) @ command_bytes (Send_sms sms))"
    by (rule onFd_talking [OF assms(1) 1(2,3)]) (use assms(2) chunks(2) in \<open>auto simp: set_pending numeral_2_eq_2 modem_buffer_size_def bytes_of_def\<close>)
  then obtain self2 w2 where 2: "modemClient_onFd os client self1 w1 = Some (Inr (self2, w2))" "talking (modem_fd self) [Send_sms sms] self2"
    "v w2 = ([10 # bytes_of ''OK'' @ [10]], (out @ command_bytes (Start_sms number)) @ command_bytes (Send_sms sms))" by blast
  have "\<exists>self' w'. modemClient_onFd os client self2 w2 = Some (Inr (self', w')) \<and> talking (modem_fd self) [] self' \<and>
      v w' = ([], ((out @ command_bytes (Start_sms number)) @ command_bytes (Send_sms sms)) @ [])"
    by (rule onFd_talking [OF assms(1) 2(2,3)]) (use chunks(3) in \<open>auto simp: numeral_eq_Suc modem_buffer_size_def bytes_of_def\<close>)
  then obtain self3 w3 where 3: "modemClient_onFd os client self2 w2 = Some (Inr (self3, w3))" "talking (modem_fd self) [] self3"
    "v w3 = ([], out @ command_bytes (Start_sms number) @ command_bytes (Send_sms sms))" by auto
  show ?thesis
    by (rule exI [of _ self1], rule exI [of _ w1], rule exI [of _ self2], rule exI [of _ w2], rule exI [of _ self3], rule exI [of _ w3])
      (use 1(1) 2(1) 3 in \<open>simp add: talking_def sms_def printIp_text ip_def\<close>)
qed

text \<open>A modem whose next reads are the first component of the world, with the output as the second.\<close>

definition example_modem :: "(bytes list \<times> bytes) modem_os" where
  "example_modem = \<lparr>modem_write = (\<lambda>fd bs w. if fd > 0 then (int (length bs), (fst w, snd w @ bs)) else (- 9, w)),
     modem_read = (\<lambda>fd n w. case fst w of [] \<Rightarrow> (- 11, [], w) | c # cs \<Rightarrow> (int (min n (length c)), take n c, (if length c \<le> n then cs else drop n c # cs, snd w))),
     modem_settime = (\<lambda>fd n w. (0, w)), modem_openat = (\<lambda>path flags w. (5, w)), modem_tcgets = (\<lambda>fd w. (0, \<lparr>c_iflag = 0, c_oflag = 0, c_cflag = 0, c_lflag = 0, c_line = 0, c_cc = replicate 19 0\<rparr>, w)),
     modem_tcsets = (\<lambda>fd t w. (0, w)), modem_close = (\<lambda>fd w. (0, w)), modem_epollAdd = (\<lambda>fd w. (0, w))\<rparr>"

definition example_modemClient :: "modem_command list \<Rightarrow> modemClient" where
  "example_modemClient q = \<lparr>modem_path = bytes_of ''/dev/ttyUSB2'', modem_fd = 5, modem_timerFd = 6, modem_receivedSize = 0, modem_buffer = replicate 4096 0,
     modem_commandQueue = q, modem_pendingCommand = True\<rparr>"

lemma example_modem_ok: "modem_os_ok example_modem id"
  by (auto simp: modem_os_ok_def example_modem_def)

theorem modemClient_arrays_safe_witness:
  "\<exists>self' w'. modemClient_onTimerFd example_modem ((example_modemClient [])\<lparr>modem_fd := - 1, modem_pendingCommand := False\<rparr>) ([], []) = Inr (self', w') \<and> modem_inv self'"
proof -
  let ?self = "(example_modemClient [])\<lparr>modem_fd := - 1, modem_pendingCommand := False\<rparr>"
  obtain self' w' where t: "modemClient_onTimerFd example_modem ?self ([], []) = Inr (self', w')"
    by (simp add: modemClient_onTimerFd_def example_modem_def example_modemClient_def modemClient_queueConstant_def modemClient_processQueue_def modemClient_onTimerFd_poll_def
      commandQueueSize_def modem_queue_size_def Let_def)
  have i: "modem_inv ?self" by (simp add: modem_inv_def example_modemClient_def commandQueueSize_def modem_buffer_size_def)
  have r: "\<forall>fd n w. fst (modem_read example_modem fd n w) \<le> int n \<and> length (fst (snd (modem_read example_modem fd n w))) \<le> n"
    by (auto simp: example_modem_def split: list.split)
  show ?thesis using modemClient_arrays_safe [OF r i, of example_client "([], [])"] t by blast
qed

theorem modemClient_answers_ip_witness:
  "\<exists>self1 w1 self2 w2 self3 w3. modemClient_onFd example_modem example_client (example_modemClient [Constant modemClient_SMS_POLL_CMD])
      ([sms_header (bytes_of ''1'') (bytes_of ''004600'') (bytes_of '',,129'') (bytes_of ''2'') @ [10] @ bytes_of ''00690070'' @ [10, 10] @ bytes_of ''OK'' @ [10],
        bytes_of ''> '', 10 # bytes_of ''OK'' @ [10]], []) = Some (Inr (self1, w1)) \<and>
    modemClient_onFd example_modem example_client self1 w1 = Some (Inr (self2, w2)) \<and> modemClient_onFd example_modem example_client self2 w2 = Some (Inr (self3, w3)) \<and>
    take 18 (snd w3) = bytes_of ''AT+CMGS=\"004600\"'' @ [13, chr CHR ''0''] \<and> modem_commandQueue self3 = []"
proof -
  have h: "sms_header_ok (bytes_of ''1'') (bytes_of ''004600'') (bytes_of '',,129'')" by (simp add: sms_header_ok_def bytes_of_def chr_def)
  have e: "0 < modem_fd (example_modemClient q)" "modem_pendingCommand (example_modemClient q)" "modem_commandQueue (example_modemClient q) = q" "modem_receivedSize (example_modemClient q) = 0"
    "length (modem_buffer (example_modemClient q)) = modem_buffer_size" for q by (simp_all add: example_modemClient_def modem_buffer_size_def)
  have l: "length (sms_header (bytes_of ''1'') (bytes_of ''004600'') (bytes_of '',,129'') (bytes_of ''2'')) + 14 \<le> modem_buffer_size" by (simp add: sms_header_def modem_buffer_size_def)
  have u: "\<exists>r. ucs2_hex (dec_str k @ t) = chr CHR ''0'' # r" for k t
    using length_digits_pos [of "unat k"] by (cases "digits (unat k)") (auto simp: ucs2_hex_def dec_str_def)
  let ?in = "[sms_header (bytes_of ''1'') (bytes_of ''004600'') (bytes_of '',,129'') (bytes_of ''2'') @ [10] @ bytes_of ''00690070'' @ [10, 10] @ bytes_of ''OK'' @ [10],
    bytes_of ''> '', 10 # bytes_of ''OK'' @ [10]]"
  have i: "id (?in, []) = (?in, [] :: bytes)" by simp
  obtain self1 w1 self2 w2 self3 w3 t where r: "modemClient_onFd example_modem example_client (example_modemClient [Constant modemClient_SMS_POLL_CMD]) (?in, []) = Some (Inr (self1, w1))"
    "modemClient_onFd example_modem example_client self1 w1 = Some (Inr (self2, w2))" "modemClient_onFd example_modem example_client self2 w2 = Some (Inr (self3, w3))"
    "id w3 = ([], [] @ bytes_of ''AT+CMGS=\"'' @ bytes_of ''004600'' @ bytes_of ''\"'' @ [13] @ ucs2_hex (dec_str (ip_bytes (client_leasedIp example_client) ! 0) @ t) @ [0x1a])" "modem_commandQueue self3 = []"
    using modemClient_answers_ip [where os = example_modem and v = id and self = "example_modemClient [Constant modemClient_SMS_POLL_CMD]" and w = "(?in, [])" and out = "[]" and
        client = example_client, OF example_modem_ok e h l i] by blast
  then have "take 18 (snd w3) = bytes_of ''AT+CMGS=\"004600\"'' @ [13, chr CHR ''0'']"
    using u [of "ip_bytes (client_leasedIp example_client) ! 0" t] by (auto simp: bytes_of_def)
  then show ?thesis using r(1-3,5) by blast
qed

text \<open>
  C39: A write to the modem that fails hangs the process. When the modem acknowledges a command and the write of the next one in the queue falls short, for instance because the
  modem was unplugged, \<open>modemClient_onFd\<close> never returns: it closes the descriptor, and then tries the same command again and again on the descriptor -1.
\<close>
theorem modemClient_failed_write_hangs:
  assumes "\<forall>bs w. fst (modem_write os (- 1) bs w) < 0" "talking fd (c # c' # cs) self" "command_tag c \<noteq> modemClient_START_SMS"
    "modem_read os fd modem_buffer_size w = (3, bytes_of ''OK'' @ [10], w')" "fst (modem_write os fd (command_bytes c') w') \<noteq> int (length (command_bytes c'))"
  shows "modemClient_onFd os client self w = None"
proof -
  note t = assms(2) [unfolded talking_def]
  define self1 where "self1 = self\<lparr>modem_buffer := mem_put (modem_buffer self) 0 (bytes_of ''OK'' @ [10]), modem_receivedSize := 3\<rparr>"
  define self2 where "self2 = self1\<lparr>modem_commandQueue := c' # cs, modem_pendingCommand := False\<rparr>"
  have tag: "modemClient_pendingCmdTag self = command_tag c" "command_tag c \<noteq> modemClient_NO_CMD" using t
    by (cases c; simp add: modemClient_pendingCmdTag_def modemClient_CONSTANT_def modemClient_START_SMS_def modemClient_SEND_SMS_def modemClient_NO_CMD_def)+
  have s1: "modem_pendingCommand self1" "modem_commandQueue self1 = c # c' # cs" "modem_fd self1 = fd" using t by (simp_all add: self1_def)
  obtain r w2 where wr: "modem_write os fd (command_bytes c') w' = (r, w2)" by fastforce
  have "modemClient_ackPending os self1 w' = Inr (- 1, self2, w2)"
    using s1 wr assms(5) by (simp add: modemClient_ackPending_def modemClient_processQueue_def self2_def)
  then have "modemClient_line os client (command_tag c) (bytes_of ''OK'' @ [10]) self1 w' = Inr (Go_fail self2 w2)"
    using assms(3) tag(2) by (simp add: ok_line modem_status_def)
  then have L: "modemClient_lines os client (command_tag c) (bytes_of ''OK'' @ [10]) 0 self1 w' = Inr (True, 0, self2, w2)"
    by (subst modemClient_lines.simps) simp
  have n: "length (bytes_of ''OK'' @ [10 :: u8]) = 3" "bytes_of ''OK'' @ [10 :: u8] \<noteq> []" by simp_all
  have "modemClient_onFd os client self w = modemClient_out os True 0 self2 w2"
    using onFd_read [of self os w "bytes_of ''OK'' @ [10]" w' client] t assms(4) L tag(1) n
    unfolding n(1) self1_def [symmetric] by (simp add: modem_buffer_size_def)
  then show ?thesis using out_hangs [OF assms(1), of self2 0 w2] t by (simp add: self2_def self1_def)
qed

definition dead_modem :: "(bytes list \<times> bytes) modem_os" where
  "dead_modem = example_modem\<lparr>modem_write := (\<lambda>fd bs w. (- 5, w))\<rparr>"

theorem modemClient_failed_write_hangs_witness:
  "modemClient_onFd dead_modem example_client (example_modemClient [Constant modemClient_INIT_CMD, Constant modemClient_SMS_POLL_CMD]) ([bytes_of ''OK'' @ [10]], []) = None"
proof (rule modemClient_failed_write_hangs)
  show "talking 5 [Constant modemClient_INIT_CMD, Constant modemClient_SMS_POLL_CMD] (example_modemClient [Constant modemClient_INIT_CMD, Constant modemClient_SMS_POLL_CMD])"
    by (simp add: talking_def example_modemClient_def modem_buffer_size_def)
  show "modem_read dead_modem 5 modem_buffer_size ([bytes_of ''OK'' @ [10]], []) = (3, bytes_of ''OK'' @ [10], ([], []))"
    by (simp add: dead_modem_def example_modem_def modem_buffer_size_def)
qed (simp_all add: dead_modem_def modemClient_CONSTANT_def modemClient_START_SMS_def)

section \<open>Undefined behaviour\<close>

text \<open>
  The tag of the pending command is read once, before the loop: a second acknowledgement in the same read is taken for that of a command that is no longer pending.
\<close>

lemma second_ok_undefined:
  assumes "talking fd [c] self" "command_tag c \<noteq> modemClient_START_SMS" "modem_read os fd modem_buffer_size w = (6, bytes_of ''OK'' @ [10] @ bytes_of ''OK'' @ [10], w')"
  shows "modemClient_onFd os client self w = Some (Inl Undefined_behaviour)"
proof -
  note t = assms(1) [unfolded talking_def]
  let ?in = "bytes_of ''OK'' @ [10] @ bytes_of ''OK'' @ [10]"
  define self1 where "self1 = self\<lparr>modem_buffer := mem_put (modem_buffer self) 0 ?in, modem_receivedSize := 6\<rparr>"
  define self2 where "self2 = self1\<lparr>modem_commandQueue := [], modem_pendingCommand := False\<rparr>"
  have s1: "modem_pendingCommand self1" "modem_commandQueue self1 = [c]" using t by (simp_all add: self1_def)
  have tag: "modemClient_pendingCmdTag self = command_tag c" "command_tag c \<noteq> modemClient_NO_CMD" using t
    by (cases c; simp add: modemClient_pendingCmdTag_def modemClient_CONSTANT_def modemClient_START_SMS_def modemClient_SEND_SMS_def modemClient_NO_CMD_def)+
  have "modemClient_line os client (command_tag c) ?in self1 w' = Inr (Go_on 2 self2 w')"
    using whole_line [of "bytes_of ''OK''" os client "command_tag c" "bytes_of ''OK'' @ [10]" self1 w'] assms(2) tag(2) ack_last [OF s1, of os w' 2]
    by (simp add: self2_def) (simp add: bytes_of_def chr_def)
  then have "modemClient_lines os client (command_tag c) ?in 0 self1 w' = modemClient_lines os client (command_tag c) ?in 3 self2 w'"
    using lines_step [of 0 ?in os client "command_tag c" self1 w' 2 self2 w'] by (simp add: numeral_eq_Suc)
  also have "\<dots> = Inl Undefined_behaviour"
    using assms(2) tag(2) by (subst modemClient_lines.simps) (simp add: ok_line modem_status_def modemClient_ackPending_def self2_def)
  finally have L: "modemClient_lines os client (command_tag c) ?in 0 self1 w' = Inl Undefined_behaviour" .
  have n: "length ?in = 6" "?in \<noteq> []" by simp_all
  show ?thesis
    using onFd_read [of self os w ?in w' client] t assms(3) L tag(1) n unfolding n(1) self1_def [symmetric] by (simp add: modem_buffer_size_def)
qed

text \<open>
  An empty message whose header line ends the received bytes: the new line behind the message is counted although it has not arrived, so more bytes are consumed
  than were received.
\<close>

lemma empty_sms_undefined:
  assumes "talking fd (c # cs) self" "sms_header_ok slot number other" "length chunk \<le> modem_buffer_size" "modem_read os fd modem_buffer_size w = (int (length chunk), chunk, w')"
  defines "l \<equiv> sms_header slot number other (bytes_of ''0'')"
  assumes "chunk = l @ [10]"
  shows "modemClient_onFd os client self w = Some (Inl Undefined_behaviour)"
proof -
  note t = assms(1) [unfolded talking_def]
  define self1 where "self1 = self\<lparr>modem_buffer := mem_put (modem_buffer self) 0 chunk, modem_receivedSize := length chunk\<rparr>"
  have tag: "modemClient_pendingCmdTag self1 = modemClient_pendingCmdTag self" by (simp add: self1_def modemClient_pendingCmdTag_def)
  have nl: "10 \<notin> set l" using assms(2) by (auto simp: l_def sms_header_def sms_header_ok_def bytes_of_def chr_def)
  have hd: "take 7 l = bytes_of ''+CMGL: ''" "7 < length l" by (simp_all add: l_def sms_header_def bytes_of_def)
  have ne: "l \<noteq> bytes_of ''OK''" "l \<noteq> bytes_of ''> ''" "l \<noteq> bytes_of ''ERROR''" using hd(2) by auto
  have zero: "bytes_of ''0'' \<noteq> []" "chr CHR '','' \<notin> set (bytes_of ''0'')" "util_strToUint (bytes_of ''0'' @ 10 # []) (int (length (bytes_of ''0''))) = (1, Some 0)"
    by (simp_all add: util_strToUint_def util_strToUint_loop.simps bytes_of_def chr_def)
  have "modemClient_readSms os client (l @ 10 # []) (length l) self1 w' = Inr (Go_on (length l + 1) self1 w')"
    unfolding l_def read_sms [OF assms(2) zero(1,2)] zero(3) prod.case by simp
  then have "modemClient_line os client (modemClient_pendingCmdTag self1) chunk self1 w' = Inr (Go_on (length l + 1) self1 w')"
    unfolding assms(6) whole_line [OF nl] using ne hd by simp
  then have L: "modemClient_lines os client (modemClient_pendingCmdTag self1) chunk 0 self1 w' = Inr (False, length l + 2, self1, w')"
    using lines_step [of 0 chunk os client _ self1 w' "length l + 1" self1 w'] assms(6) by (simp add: lines_end)
  have "chunk \<noteq> []" "modem_read os (modem_fd self) modem_buffer_size w = (int (length chunk), chunk, w')" using assms(4,6) t by auto
  then have "modemClient_onFd os client self w = modemClient_out os False (length l + 2) self1 w'"
    using onFd_read [OF _ _ _ _ assms(3), of self os w w' client] t L tag unfolding self1_def [symmetric] by simp
  then show ?thesis using t assms(6) by (subst (asm) modemClient_out.simps) (simp add: process_idle self1_def)
qed

end
