(* ===== verification/IxUtil.thy ===== *)
theory IxUtil
  imports Util HcMath "HOL-Library.Monad_Syntax"
begin

text \<open>
  The Unix layer that the tools share: \<^verbatim>\<open>src/hc/core/hc/ix/util.c\<close>, \<^verbatim>\<open>src/hc/core/hc/allocator.c\<close> and
  \<^verbatim>\<open>src/hc/core/hc/linux/heap.c\<close>. The system calls are a parameter: a record of functions on a world \<open>'w\<close> that the model
  passes on and never looks into, so a call may fail, be interrupted or be short at any time. The value \<open>None\<close> of a definition means that
  the code does not return: a loop that runs forever, or a failed \<open>debug_CHECK\<close>, which aborts the process in a debug build; a release build evaluates
  the expression and goes on.
\<close>

section \<open>System calls\<close>

text \<open>
  A file descriptor is an \<open>int\<close>, a path a byte string without its terminator, an address of the reserved memory its offset.
  \<open>os_read\<close> returns the bytes it stored, \<open>os_getdents\<close> the record length and the name of each entry it stored,
  \<open>os_fstat\<close> the result, the mode and the size.
\<close>

record 'w ix_os =
  os_write :: "int \<Rightarrow> bytes \<Rightarrow> 'w \<Rightarrow> int \<times> 'w"
  os_read :: "int \<Rightarrow> nat \<Rightarrow> 'w \<Rightarrow> int \<times> bytes \<times> 'w"
  os_openat :: "int \<Rightarrow> bytes \<Rightarrow> nat \<Rightarrow> nat \<Rightarrow> 'w \<Rightarrow> int \<times> 'w"
  os_mkdirat :: "int \<Rightarrow> bytes \<Rightarrow> nat \<Rightarrow> 'w \<Rightarrow> int \<times> 'w"
  os_close :: "int \<Rightarrow> 'w \<Rightarrow> int \<times> 'w"
  os_getdents :: "int \<Rightarrow> nat \<Rightarrow> 'w \<Rightarrow> int \<times> (nat \<times> bytes) list \<times> 'w"
  os_fstat :: "int \<Rightarrow> 'w \<Rightarrow> int \<times> nat \<times> int \<times> 'w"
  os_mprotect :: "u64 \<Rightarrow> u64 \<Rightarrow> 'w \<Rightarrow> int \<times> 'w"
  os_mmap_fixed :: "u64 \<Rightarrow> u64 \<Rightarrow> 'w \<Rightarrow> bool \<times> 'w"

definition EINTR :: int where "EINTR = 4"
definition O_RDONLY :: nat where "O_RDONLY = 0"
definition O_WRONLY :: nat where "O_WRONLY = 1"
definition O_CREAT :: nat where "O_CREAT = 0x40"
definition O_EXCL :: nat where "O_EXCL = 0x80"
definition O_TRUNC :: nat where "O_TRUNC = 0x200"
definition AT_FDCWD :: int where "AT_FDCWD = -100"

definition CHECK :: "bool \<Rightarrow> unit option" where
  "CHECK b = (if b then Some () else None)"

lemma CHECK_simps [simp]: "CHECK True = Some ()" "CHECK False = None" "CHECK b = Some u \<longleftrightarrow> b"
  by (simp_all add: CHECK_def)

section \<open>Reading and writing\<close>

text \<open>The arguments of the loops are the bytes that remain to be written, and the number of bytes that remain to be read with those read so far.\<close>

partial_function (option) util_writeAll :: "'w ix_os \<Rightarrow> int \<Rightarrow> bytes \<Rightarrow> 'w \<Rightarrow> (int \<times> 'w) option" where
  "util_writeAll os fd remaining w =
     (if remaining = [] then Some (0, w)
      else case os_write os fd remaining w of (written, w) \<Rightarrow>
        if written < 0 then (if - written = EINTR then util_writeAll os fd remaining w else Some (-1, w))
        else util_writeAll os fd (drop (nat written) remaining) w)"

partial_function (option) util_read :: "'w ix_os \<Rightarrow> int \<Rightarrow> nat \<Rightarrow> 'w \<Rightarrow> (int \<times> bytes \<times> 'w) option" where
  "util_read os fd len w =
     (case os_read os fd len w of (numRead, bs, w) \<Rightarrow>
        if numRead \<ge> 0 then Some (numRead, bs, w)
        else if - numRead \<noteq> EINTR then Some (-1, [], w) else util_read os fd len w)"

partial_function (option) util_readAll_loop :: "'w ix_os \<Rightarrow> int \<Rightarrow> bytes \<Rightarrow> nat \<Rightarrow> 'w \<Rightarrow> (int \<times> bytes \<times> 'w) option" where
  "util_readAll_loop os fd got remaining w =
     (if remaining = 0 then Some (int (length got), got, w)
      else case os_read os fd remaining w of (numRead, bs, w) \<Rightarrow>
        if numRead = 0 then Some (int (length got), got, w)
        else if numRead < 0 then (if - numRead = EINTR then util_readAll_loop os fd got remaining w else Some (-1, got, w))
        else util_readAll_loop os fd (got @ take (nat numRead) bs) (remaining - nat numRead) w)"

definition util_readAll :: "'w ix_os \<Rightarrow> int \<Rightarrow> nat \<Rightarrow> 'w \<Rightarrow> (int \<times> bytes \<times> 'w) option" where
  "util_readAll os fd len w = util_readAll_loop os fd [] len w"

section \<open>The allocator\<close>

text \<open>\<open>ssize_t\<close> values are 64-bit patterns, compared as signed numbers; the page size is a parameter, as in the source.\<close>

record allocator =
  alloc_size :: u64
  alloc_reserveSize :: u64

definition heap_commit :: "'w ix_os \<Rightarrow> u64 \<Rightarrow> u64 \<Rightarrow> 'w \<Rightarrow> int \<times> 'w" where
  "heap_commit os address len w = os_mprotect os address len w"

definition heap_decommit :: "'w ix_os \<Rightarrow> u64 \<Rightarrow> u64 \<Rightarrow> 'w \<Rightarrow> 'w option" where
  "heap_decommit os address len w = (case os_mmap_fixed os address len w of (same, w) \<Rightarrow> do { CHECK same; Some w })"

text \<open>\<open>reserve\<close> is the result of \<open>heap_reserve\<close>: whether the address space was reserved.\<close>

definition allocator_init :: "u64 \<Rightarrow> (u64 \<Rightarrow> bool) \<Rightarrow> u64 \<Rightarrow> allocator option" where
  "allocator_init pageSize reserve reserveSize =
     (let reserveSize = math_ALIGN_FORWARD reserveSize pageSize
      in if reserve reserveSize then Some \<lparr>alloc_size = 0, alloc_reserveSize = reserveSize\<rparr> else None)"

definition allocator_resize :: "'w ix_os \<Rightarrow> u64 \<Rightarrow> allocator \<Rightarrow> u64 \<Rightarrow> 'w \<Rightarrow> (int \<times> allocator \<times> 'w) option" where
  "allocator_resize os pageSize self newSize w =
     (let commitSize = math_ALIGN_FORWARD (alloc_size self) pageSize;
          newCommitSize = math_ALIGN_FORWARD newSize pageSize;
          diff = newCommitSize - commitSize
      in if diff = 0 then Some (0, self\<lparr>alloc_size := newSize\<rparr>, w)
         else if diff <s 0 then do {
           w \<leftarrow> heap_decommit os newCommitSize (- diff) w;
           Some (0, self\<lparr>alloc_size := newSize\<rparr>, w)
         }
         else if alloc_reserveSize self <s newCommitSize then Some (-1, self, w)
         else case heap_commit os commitSize diff w of (status, w) \<Rightarrow>
           if status < 0 then Some (-1, self, w) else Some (0, self\<lparr>alloc_size := newSize\<rparr>, w))"

section \<open>Complete reads and writes\<close>

text \<open>
  A descriptor that takes everything: each call is interrupted, finitely often in a row, or takes a non-empty prefix, which
  \<open>app\<close> appends to what \<open>v\<close> shows of the world.
\<close>

definition accepts :: "'w ix_os \<Rightarrow> int \<Rightarrow> ('w \<Rightarrow> 'v) \<Rightarrow> ('w \<Rightarrow> nat) \<Rightarrow> ('v \<Rightarrow> bytes \<Rightarrow> 'v) \<Rightarrow> ('v \<Rightarrow> bool) \<Rightarrow> bool" where
  "accepts os fd v m app ok \<longleftrightarrow> (\<forall>w b. ok (v w) \<and> b \<noteq> [] \<longrightarrow> (case os_write os fd b w of (n, w') \<Rightarrow>
     (n = - EINTR \<and> v w' = v w \<and> m w' < m w) \<or> (0 < n \<and> nat n \<le> length b \<and> v w' = app (v w) (take (nat n) b))))"

lemma acceptsD:
  assumes "accepts os fd v m app ok" "ok (v w)" "b \<noteq> []" "os_write os fd b w = (n, w')"
  shows "(n = - EINTR \<and> v w' = v w \<and> m w' < m w) \<or> (0 < n \<and> nat n \<le> length b \<and> v w' = app (v w) (take (nat n) b))"
proof -
  have "case os_write os fd b w of (n, w') \<Rightarrow>
     (n = - EINTR \<and> v w' = v w \<and> m w' < m w) \<or> (0 < n \<and> nat n \<le> length b \<and> v w' = app (v w) (take (nat n) b))"
    by (rule assms(1) [unfolded accepts_def, THEN spec, THEN spec, THEN mp, OF conjI [OF assms(2,3)]])
  then show ?thesis by (simp only: assms(4) prod.case)
qed

lemma writeAll_appends:
  assumes "accepts os fd v m app ok" "ok (v w)" "\<And>x b. ok x \<Longrightarrow> ok (app x b)"
    "\<And>x a b. ok x \<Longrightarrow> app (app x a) b = app x (a @ b)" "\<And>x. ok x \<Longrightarrow> app x [] = x"
  shows "\<exists>w'. util_writeAll os fd b w = Some (0, w') \<and> v w' = app (v w) b"
  using assms(2)
proof (induction "(length b, m w)" arbitrary: b w rule: wf_induct_rule [OF wf_lex_prod [OF wf_less_than wf_less_than]])
  case 1
  show ?case
  proof (cases "b = []")
    case True
    then show ?thesis using assms(5) 1(2) by (subst util_writeAll.simps) simp
  next
    case False
    obtain n w' where r: "os_write os fd b w = (n, w')" by fastforce
    consider (intr) "n = - EINTR" "v w' = v w" "m w' < m w" | (some) "0 < n" "nat n \<le> length b" "v w' = app (v w) (take (nat n) b)"
      using acceptsD [OF assms(1) 1(2) False r] by blast
    then show ?thesis
    proof cases
      case intr
      then have "\<exists>w''. util_writeAll os fd b w' = Some (0, w'') \<and> v w'' = app (v w') b" using 1(1) [of b w'] 1(2) by simp
      then show ?thesis using intr False r by (subst util_writeAll.simps) (simp add: EINTR_def)
    next
      case some
      then have "\<exists>w''. util_writeAll os fd (drop (nat n) b) w' = Some (0, w'') \<and> v w'' = app (v w') (drop (nat n) b)"
        using 1(1) [of "drop (nat n) b" w'] 1(2) False assms(3) by simp
      then show ?thesis using some False r assms(4) 1(2) by (subst util_writeAll.simps) auto
    qed
  qed
qed

text \<open>A descriptor that supplies a byte stream: \<open>rest\<close> is what is left of it and \<open>adv\<close> consumes.\<close>

definition supplies :: "'w ix_os \<Rightarrow> int \<Rightarrow> ('w \<Rightarrow> 'v) \<Rightarrow> ('w \<Rightarrow> nat) \<Rightarrow> ('v \<Rightarrow> bytes) \<Rightarrow> ('v \<Rightarrow> nat \<Rightarrow> 'v) \<Rightarrow> ('v \<Rightarrow> bool) \<Rightarrow> bool" where
  "supplies os fd v m rest adv ok \<longleftrightarrow> (\<forall>w n. ok (v w) \<and> 0 < n \<longrightarrow> (case os_read os fd n w of (k, bs, w') \<Rightarrow>
     (k = - EINTR \<and> v w' = v w \<and> m w' < m w) \<or>
     (0 \<le> k \<and> nat k \<le> n \<and> nat k \<le> length (rest (v w)) \<and> (k = 0 \<longrightarrow> rest (v w) = []) \<and> bs = take (nat k) (rest (v w)) \<and> v w' = adv (v w) (nat k))))"

lemma suppliesD:
  assumes "supplies os fd v m rest adv ok" "ok (v w)" "0 < n" "os_read os fd n w = (k, bs, w')"
  shows "(k = - EINTR \<and> v w' = v w \<and> m w' < m w) \<or>
     (0 \<le> k \<and> nat k \<le> n \<and> nat k \<le> length (rest (v w)) \<and> (k = 0 \<longrightarrow> rest (v w) = []) \<and> bs = take (nat k) (rest (v w)) \<and> v w' = adv (v w) (nat k))"
proof -
  have "case os_read os fd n w of (k, bs, w') \<Rightarrow> (k = - EINTR \<and> v w' = v w \<and> m w' < m w) \<or>
     (0 \<le> k \<and> nat k \<le> n \<and> nat k \<le> length (rest (v w)) \<and> (k = 0 \<longrightarrow> rest (v w) = []) \<and> bs = take (nat k) (rest (v w)) \<and> v w' = adv (v w) (nat k))"
    by (rule assms(1) [unfolded supplies_def, THEN spec, THEN spec, THEN mp, OF conjI [OF assms(2,3)]])
  then show ?thesis by (simp only: assms(4) prod.case)
qed

lemma readAll_loop_takes:
  assumes "supplies os fd v m rest adv ok" "ok (v w)" "\<And>x n. ok x \<Longrightarrow> ok (adv x n)"
    "\<And>x i j. ok x \<Longrightarrow> adv (adv x i) j = adv x (i + j)" "\<And>x. ok x \<Longrightarrow> adv x 0 = x" "\<And>x j. ok x \<Longrightarrow> rest (adv x j) = drop j (rest x)"
  shows "\<exists>w'. util_readAll_loop os fd got n w = Some (int (length got + min n (length (rest (v w)))), got @ take n (rest (v w)), w') \<and>
    v w' = adv (v w) (min n (length (rest (v w))))"
  using assms(2)
proof (induction "(n, m w)" arbitrary: n w got rule: wf_induct_rule [OF wf_lex_prod [OF wf_less_than wf_less_than]])
  case 1
  show ?case
  proof (cases "n = 0")
    case True
    then show ?thesis using assms(5) 1(2) by (subst util_readAll_loop.simps) simp
  next
    case False
    obtain k bs w' where r: "os_read os fd n w = (k, bs, w')" by (metis prod_cases3)
    consider (intr) "k = - EINTR" "v w' = v w" "m w' < m w"
      | (none) "k = 0" "rest (v w) = []" "v w' = v w"
      | (some) "0 < k" "nat k \<le> n" "nat k \<le> length (rest (v w))" "bs = take (nat k) (rest (v w))" "v w' = adv (v w) (nat k)"
      using suppliesD [OF assms(1) 1(2) _ r] False assms(5) [OF 1(2)] by fastforce
    then show ?thesis
    proof cases
      case intr
      with 1(1) [of n w' got] 1(2) show ?thesis using False r by (subst util_readAll_loop.simps) (simp add: EINTR_def)
    next
      case none
      then show ?thesis using False r assms(5) 1(2) by (subst util_readAll_loop.simps) simp
    next
      case some
      note IH = 1(1) [of "n - nat k" w' "got @ take (nat k) bs"]
      have "length got + nat k + min (n - nat k) (length (rest (v w)) - nat k) = length got + min n (length (rest (v w)))"
        "nat k + min (n - nat k) (length (rest (v w)) - nat k) = min n (length (rest (v w)))"
        "take (nat k) (rest (v w)) @ take (n - nat k) (drop (nat k) (rest (v w))) = take n (rest (v w))"
        using some(2,3) by (auto simp: min_def simp flip: take_add)
      then show ?thesis using False r some IH 1(2) assms(3,4,6)
        by (subst util_readAll_loop.simps) (auto simp: min_absorb2 simp flip: of_nat_add)
    qed
  qed
qed

lemma readAll_takes:
  assumes "supplies os fd v m rest adv ok" "ok (v w)" "\<And>x n. ok x \<Longrightarrow> ok (adv x n)"
    "\<And>x i j. ok x \<Longrightarrow> adv (adv x i) j = adv x (i + j)" "\<And>x. ok x \<Longrightarrow> adv x 0 = x" "\<And>x j. ok x \<Longrightarrow> rest (adv x j) = drop j (rest x)"
  shows "\<exists>w'. util_readAll os fd n w = Some (int (min n (length (rest (v w)))), take n (rest (v w)), w') \<and>
    v w' = adv (v w) (min n (length (rest (v w))))"
  using readAll_loop_takes [OF assms, of "[]" n] by (simp add: util_readAll_def)

section \<open>What the allocator commits\<close>

definition page_end :: "nat \<Rightarrow> nat \<Rightarrow> nat" where
  "page_end k n = (n + (2 ^ k - 1)) div 2 ^ k * 2 ^ k"

lemma page_end_bounds: "n \<le> page_end k n" "page_end k n < n + 2 ^ k"
proof -
  have p: "0 < (2::nat) ^ k" by simp
  have "page_end k n + (n + (2 ^ k - 1)) mod 2 ^ k = n + (2 ^ k - 1)" unfolding page_end_def by (rule div_mult_mod_eq)
  moreover have "(n + (2 ^ k - 1)) mod 2 ^ k < (2::nat) ^ k" using p by simp
  ultimately show "n \<le> page_end k n" "page_end k n < n + 2 ^ k" using p by linarith+
qed

lemma page_end_mono: "n \<le> n' \<Longrightarrow> page_end k n \<le> page_end k n'"
  by (simp add: page_end_def div_le_mono)

lemma unat_page_end:
  assumes "k < 64" "unat x + 2 ^ k \<le> 2 ^ 63"
  shows "unat (math_ALIGN_FORWARD (x :: u64) (2 ^ k)) = page_end k (unat x)" "page_end k (unat x) < 2 ^ 63"
proof -
  have "unat x + (2 ^ k - 1) < unat x + 2 ^ k" by simp
  then have "unat x + (2 ^ k - 1) < 2 ^ 64" using assms(2) by (rule less_le_trans [OF less_le_trans]) simp
  then show "unat (math_ALIGN_FORWARD x (2 ^ k)) = page_end k (unat x)" using assms(1) by (simp add: page_end_def unat_ALIGN_FORWARD)
  show "page_end k (unat x) < 2 ^ 63" using page_end_bounds(2) [of k "unat x"] assms(2) by linarith
qed

text \<open>Signed comparison of differences of numbers below \<open>2 ^ 63\<close>.\<close>

lemma sint_small:
  assumes "unat (x :: u64) < 2 ^ 63"
  shows "sint x = int (unat x)"
proof -
  have "uint x < 2 ^ 63" using assms by (metis of_nat_less_iff of_nat_numeral of_nat_power uint_nat)
  then have "signed_take_bit 63 (uint x) = uint x" by (intro signed_take_bit_int_eq_self) (auto intro: order_trans [OF _ uint_nonnegative])
  then show ?thesis by (simp add: sint_uint)
qed

lemma sless_small: "unat (x :: u64) < 2 ^ 63 \<Longrightarrow> unat (y :: u64) < 2 ^ 63 \<Longrightarrow> x <s y \<longleftrightarrow> unat x < unat y"
  by (simp only: word_sless_alt sint_small of_nat_less_iff)

lemma diff_small:
  assumes "unat (x :: u64) < 2 ^ 63" "unat (y :: u64) < 2 ^ 63"
  shows "unat y \<le> unat x \<Longrightarrow> unat (x - y) = unat x - unat y" "unat x \<le> unat y \<Longrightarrow> unat (- (x - y)) = unat y - unat x" "x - y <s 0 \<longleftrightarrow> unat x < unat y"
proof -
  show le: "unat y \<le> unat x \<Longrightarrow> unat (x - y) = unat x - unat y" by (simp add: unat_sub word_le_nat_alt)
  show ge: "unat x \<le> unat y \<Longrightarrow> unat (- (x - y)) = unat y - unat x" by (simp add: unat_sub word_le_nat_alt)
  show "x - y <s 0 \<longleftrightarrow> unat x < unat y"
  proof (cases "unat y \<le> unat x")
    case True
    then have "\<not> 2 ^ 63 \<le> unat (x - y)" using le assms(1) by linarith
    then show ?thesis using True by (simp only: sless_0_iff not_less [symmetric] not_not) simp
  next
    case False
    then have "unat (- (y - x)) = 2 ^ 64 - (unat y - unat x)" using unat_uminus_u64 [of "y - x"] unat_sub [of x y] by (auto simp: word_le_nat_alt)
    then have "2 ^ 63 \<le> unat (x - y)" using assms(2) by simp
    then show ?thesis using False by (simp only: sless_0_iff) simp
  qed
qed

text \<open>\<open>committed\<close> shows which bytes of the reservation are accessible; \<open>mprotect\<close> may refuse, and then changes nothing.\<close>

definition commits :: "'w ix_os \<Rightarrow> ('w \<Rightarrow> nat set) \<Rightarrow> bool" where
  "commits os committed \<longleftrightarrow>
     (\<forall>a n w. case os_mprotect os a n w of (r, w') \<Rightarrow>
        committed w' = (if r < 0 then committed w else committed w \<union> {unat a..<unat a + unat n})) \<and>
     (\<forall>a n w. case os_mmap_fixed os a n w of (same, w') \<Rightarrow> same \<and> committed w' = committed w - {unat a..<unat a + unat n})"

lemma commitsD:
  assumes "commits os committed"
  shows "os_mprotect os a n w = (r, w') \<Longrightarrow> committed w' = (if r < 0 then committed w else committed w \<union> {unat a..<unat a + unat n})"
    "os_mmap_fixed os a n w = (same, w') \<Longrightarrow> same"
    "os_mmap_fixed os a n w = (same, w') \<Longrightarrow> committed w' = committed w - {unat a..<unat a + unat n}"
  using assms unfolding commits_def by (metis (mono_tags, lifting) case_prod_conv)+

lemma allocator_resize_cases:
  assumes "k < 64" "unat (alloc_size self) + 2 ^ k \<le> 2 ^ 63" "unat newSize + 2 ^ k \<le> 2 ^ 63" "unat (alloc_reserveSize self) < 2 ^ 63"
  defines "old \<equiv> page_end k (unat (alloc_size self))" and "new \<equiv> page_end k (unat newSize)"
  defines "a \<equiv> math_ALIGN_FORWARD (alloc_size self) (2 ^ k)" and "b \<equiv> math_ALIGN_FORWARD newSize (2 ^ k)"
  shows "allocator_resize os (2 ^ k) self newSize w =
     (if new = old then Some (0, self\<lparr>alloc_size := newSize\<rparr>, w)
      else if new < old then map_option (\<lambda>w. (0, self\<lparr>alloc_size := newSize\<rparr>, w)) (heap_decommit os b (- (b - a)) w)
      else if unat (alloc_reserveSize self) < new then Some (-1, self, w)
      else case os_mprotect os a (b - a) w of (status, w) \<Rightarrow>
        if status < 0 then Some (-1, self, w) else Some (0, self\<lparr>alloc_size := newSize\<rparr>, w))"
    "unat a = old" "unat b = new" "new \<le> old \<Longrightarrow> unat (- (b - a)) = old - new" "old \<le> new \<Longrightarrow> unat (b - a) = new - old"
proof -
  have ab: "unat a = old" "unat b = new" "old < 2 ^ 63" "new < 2 ^ 63"
    unfolding a_def b_def old_def new_def using unat_page_end [OF assms(1)] assms(2,3) by blast+
  then show "unat a = old" "unat b = new" "new \<le> old \<Longrightarrow> unat (- (b - a)) = old - new" "old \<le> new \<Longrightarrow> unat (b - a) = new - old"
    using diff_small [of b a] by simp_all
  have eq: "b - a = 0 \<longleftrightarrow> new = old" using ab by (metis eq_iff_diff_eq_0 word_unat_eq_iff)
  have "b - a <s 0 \<longleftrightarrow> new < old" using diff_small(3) [of b a] ab by simp
  moreover have "alloc_reserveSize self <s b \<longleftrightarrow> unat (alloc_reserveSize self) < new" using sless_small [of "alloc_reserveSize self" b] ab assms(4) by simp
  ultimately show "allocator_resize os (2 ^ k) self newSize w =
     (if new = old then Some (0, self\<lparr>alloc_size := newSize\<rparr>, w)
      else if new < old then map_option (\<lambda>w. (0, self\<lparr>alloc_size := newSize\<rparr>, w)) (heap_decommit os b (- (b - a)) w)
      else if unat (alloc_reserveSize self) < new then Some (-1, self, w)
      else case os_mprotect os a (b - a) w of (status, w) \<Rightarrow>
        if status < 0 then Some (-1, self, w) else Some (0, self\<lparr>alloc_size := newSize\<rparr>, w))"
    unfolding allocator_resize_def Let_def a_def [symmetric] b_def [symmetric] eq heap_commit_def
    by (simp add: map_option_case bind_eq_Some_conv split: option.split)
qed

text \<open>Where the system always has the memory, a size within the reservation is granted.\<close>

definition memory_law :: "'w ix_os \<Rightarrow> ('w \<Rightarrow> 'v) \<Rightarrow> bool" where
  "memory_law os v \<longleftrightarrow> (\<forall>a n w. 0 \<le> fst (os_mprotect os a n w) \<and> v (snd (os_mprotect os a n w)) = v w \<and>
     fst (os_mmap_fixed os a n w) \<and> v (snd (os_mmap_fixed os a n w)) = v w)"

lemma allocator_fits:
  assumes "memory_law os v" "k < 64" "limit < 2 ^ 63" "unat (alloc_reserveSize self) = limit" "unat (alloc_size self) + 2 ^ k \<le> limit" "n + 2 ^ k \<le> limit"
  shows "\<exists>w'. allocator_resize os (2 ^ k) self (word_of_nat n) w = Some (0, self\<lparr>alloc_size := word_of_nat n\<rparr>, w') \<and> v w' = v w"
    "unat (word_of_nat n :: u64) = n"
proof -
  let ?n = "word_of_nat n :: u64"
  have "n < 2 ^ 64" using assms(3,6) by simp
  then show un: "unat ?n = n" by (simp add: unat_of_nat)
  have b: "unat (alloc_size self) + 2 ^ k \<le> 2 ^ 63" "unat ?n + 2 ^ k \<le> 2 ^ 63" "unat (alloc_reserveSize self) < 2 ^ 63"
    using assms(3-6) un by linarith+
  have fit: "\<not> unat (alloc_reserveSize self) < page_end k (unat ?n)"
    unfolding un using page_end_bounds(2) [of k n] assms(4,6) by linarith
  have M: "\<not> fst (os_mprotect os a c w) < 0" "v (snd (os_mprotect os a c w)) = v w" "fst (os_mmap_fixed os a c w)" "v (snd (os_mmap_fixed os a c w)) = v w" for a c w
    using assms(1) unfolding memory_law_def not_less by blast+
  show "\<exists>w'. allocator_resize os (2 ^ k) self ?n w = Some (0, self\<lparr>alloc_size := ?n\<rparr>, w') \<and> v w' = v w"
    unfolding allocator_resize_cases(1) [OF assms(2) b] if_not_P [OF fit] heap_decommit_def
    by (auto simp: case_prod_beta M)
qed


text \<open>A system that commits what it is asked to, with the set of accessible bytes as its world.\<close>

definition example_memory_os :: "nat set ix_os" where
  "example_memory_os = \<lparr>os_write = (\<lambda>_ _ w. (-1, w)), os_read = (\<lambda>_ _ w. (-1, [], w)), os_openat = (\<lambda>_ _ _ _ w. (-1, w)), os_mkdirat = (\<lambda>_ _ _ w. (-1, w)),
     os_close = (\<lambda>_ w. (-1, w)), os_getdents = (\<lambda>_ _ w. (-1, [], w)), os_fstat = (\<lambda>_ w. (-1, 0, 0, w)),
     os_mprotect = (\<lambda>a n w. (0, w \<union> {unat a..<unat a + unat n})), os_mmap_fixed = (\<lambda>a n w. (True, w - {unat a..<unat a + unat n}))\<rparr>"


end
