(* ===== verification/Tar.thy ===== *)
theory Tar
  imports IxUtil CompilerRt "HOL-Library.List_Lexorder"
begin

text \<open>
  The archiver: \<^verbatim>\<open>src/hc/tools/tar/common.c\<close> with its Unix half \<^verbatim>\<open>src/hc/tools/tar/ix.c\<close>, on the record layout of
  \<^verbatim>\<open>src/hc/core/hc/tar.h\<close>. The static variables of the program are one state record, next to the world of the system calls.
  Names are byte strings without their terminator, passed to \<open>util_cstrCmp\<close> with it.
\<close>

section \<open>The record layout\<close>

definition tar_RECORD_SIZE :: nat where "tar_RECORD_SIZE = 512"
definition tar_OFFSET_NAME :: nat where "tar_OFFSET_NAME = 0"
definition tar_OFFSET_MODE :: nat where "tar_OFFSET_MODE = 100"
definition tar_OFFSET_SIZE :: nat where "tar_OFFSET_SIZE = 124"
definition tar_OFFSET_MTIME :: nat where "tar_OFFSET_MTIME = 136"
definition tar_OFFSET_CHKSUM :: nat where "tar_OFFSET_CHKSUM = 148"
definition tar_OFFSET_TYPEFLAG :: nat where "tar_OFFSET_TYPEFLAG = 156"
definition tar_OFFSET_MAGIC :: nat where "tar_OFFSET_MAGIC = 257"
definition tar_OFFSET_VERSION :: nat where "tar_OFFSET_VERSION = 263"
definition tar_OFFSET_PREFIX :: nat where "tar_OFFSET_PREFIX = 345"
definition tar_MAX_NAME_LEN :: nat where "tar_MAX_NAME_LEN = 100"
definition tar_MAX_PREFIX_LEN :: nat where "tar_MAX_PREFIX_LEN = 155"
definition tar_MAX_FILE_SIZE :: int where "tar_MAX_FILE_SIZE = 0x1FFFFFFFF"

lemmas tar_layout = tar_RECORD_SIZE_def tar_OFFSET_NAME_def tar_OFFSET_MODE_def tar_OFFSET_SIZE_def tar_OFFSET_MTIME_def
  tar_OFFSET_CHKSUM_def tar_OFFSET_TYPEFLAG_def tar_OFFSET_MAGIC_def tar_OFFSET_VERSION_def tar_OFFSET_PREFIX_def
  tar_MAX_NAME_LEN_def tar_MAX_PREFIX_LEN_def tar_MAX_FILE_SIZE_def

section \<open>The state\<close>

text \<open>\<open>buffer\<close> has 65536 bytes and \<open>prefix\<close> 256, of which the first \<open>prefixLen\<close> are in use.\<close>

record 'w tar =
  tar_buffer :: bytes
  tar_prefix :: bytes
  tar_prefixLen :: nat
  tar_outFd :: int
  tar_currentFd :: int
  tar_alloc :: allocator
  tar_world :: 'w

definition tar_buffer_size :: nat where "tar_buffer_size = 65536"

definition tar_octalTable :: bytes where "tar_octalTable = bytes_of ''01234567''"

definition isDot :: "bytes \<Rightarrow> bool" where
  "isDot name \<longleftrightarrow> (name @ [0]) ! 0 = chr CHR ''.'' \<and> (name @ [0]) ! 1 = 0"

definition isDotDot :: "bytes \<Rightarrow> bool" where
  "isDotDot name \<longleftrightarrow> (name @ [0]) ! 0 = chr CHR ''.'' \<and> (name @ [0]) ! 1 = chr CHR ''.'' \<and> (name @ [0]) ! 2 = 0"

definition enterDirectory :: "bytes \<Rightarrow> nat \<Rightarrow> 'w tar \<Rightarrow> int \<times> 'w tar" where
  "enterDirectory name nameLen st =
     (if tar_prefixLen st > 0 \<and> tar_prefixLen st > tar_MAX_PREFIX_LEN then (-1, st)
      else let st = (if tar_prefixLen st > 0
                     then st\<lparr>tar_prefix := (tar_prefix st)[tar_prefixLen st := chr CHR ''/''], tar_prefixLen := tar_prefixLen st + 1\<rparr> else st)
        in (0, st\<lparr>tar_prefix := mem_put (tar_prefix st) (tar_prefixLen st) (take nameLen name), tar_prefixLen := tar_prefixLen st + nameLen\<rparr>))"

text \<open>The new value of \<open>prefixLen\<close>; the assertion that it is positive holds at the only call.\<close>

fun leaveDirectory_loop :: "bytes \<Rightarrow> nat \<Rightarrow> nat" where
  "leaveDirectory_loop pre 0 = 0"
| "leaveDirectory_loop pre (Suc n) = (if pre ! n = chr CHR ''/'' then n else if n > 0 then leaveDirectory_loop pre n else n)"

definition leaveDirectory :: "'w tar \<Rightarrow> 'w tar" where
  "leaveDirectory st = st\<lparr>tar_prefixLen := leaveDirectory_loop (tar_prefix st) (tar_prefixLen st)\<rparr>"

section \<open>Input and output\<close>

text \<open>A read of the current file goes to the start of the buffer and is not repeated when interrupted.\<close>

definition readIntoBuffer :: "'w ix_os \<Rightarrow> 'w tar \<Rightarrow> int \<times> 'w tar" where
  "readIntoBuffer os st = (case os_read os (tar_currentFd st) tar_buffer_size (tar_world st) of (numRead, bs, w) \<Rightarrow>
     (numRead, st\<lparr>tar_buffer := mem_put (tar_buffer st) 0 (take (nat numRead) bs), tar_world := w\<rparr>))"

definition writeBuffer :: "'w ix_os \<Rightarrow> nat \<Rightarrow> 'w tar \<Rightarrow> (int \<times> 'w tar) option" where
  "writeBuffer os n st = do {
     (status, w) \<leftarrow> util_writeAll os (tar_outFd st) (mem_get (tar_buffer st) 0 n) (tar_world st);
     Some (status, st\<lparr>tar_world := w\<rparr>)
   }"

definition openOutput :: "'w ix_os \<Rightarrow> bytes \<Rightarrow> 'w tar \<Rightarrow> int \<times> 'w tar" where
  "openOutput os name st = (case os_openat os AT_FDCWD name (O_WRONLY OR O_CREAT OR O_EXCL OR O_TRUNC) 436 (tar_world st) of (fd, w) \<Rightarrow>
     (fd, st\<lparr>tar_outFd := fd, tar_world := w\<rparr>))"

definition tar_close :: "'w ix_os \<Rightarrow> int \<Rightarrow> 'w tar \<Rightarrow> 'w tar option" where
  "tar_close os fd st = (case os_close os fd (tar_world st) of (r, w) \<Rightarrow> do { CHECK (r = 0); Some (st\<lparr>tar_world := w\<rparr>) })"

definition closeOutput :: "'w ix_os \<Rightarrow> 'w tar \<Rightarrow> 'w tar option" where
  "closeOutput os st = tar_close os (tar_outFd st) st"

section \<open>Records\<close>

text \<open>The digit at position \<open>i\<close> from the right of an octal field.\<close>

definition tar_octal :: "int \<Rightarrow> nat \<Rightarrow> u8" where
  "tar_octal v i = tar_octalTable ! nat (drop_bit (3 * i) v AND 7)"

definition tar_header :: "bytes \<Rightarrow> nat \<Rightarrow> bytes \<Rightarrow> nat \<Rightarrow> u8 \<Rightarrow> int \<Rightarrow> bytes \<Rightarrow> bytes" where
  "tar_header name nameLen prefix prefixLen typeflag fileSize buf =
     (let buf = mem_put buf tar_OFFSET_NAME (take nameLen name);
          buf = mem_put buf (tar_OFFSET_NAME + nameLen) (replicate (tar_OFFSET_PREFIX - (tar_OFFSET_NAME + nameLen)) 0);
          buf = mem_put buf tar_OFFSET_PREFIX (take prefixLen prefix);
          buf = mem_put buf (tar_OFFSET_PREFIX + prefixLen) (replicate (tar_RECORD_SIZE - (tar_OFFSET_PREFIX + prefixLen)) 0);
          buf = mem_put buf tar_OFFSET_MODE (bytes_of ''0000777'');
          buf = fold (\<lambda>i buf. buf[tar_OFFSET_SIZE + 10 - i := tar_octal fileSize i]) [0..<11] buf;
          buf = mem_put buf tar_OFFSET_MTIME (bytes_of ''00000000000'');
          buf = mem_put buf tar_OFFSET_CHKSUM (bytes_of ''        '');
          buf = buf[tar_OFFSET_TYPEFLAG := typeflag];
          buf = mem_put buf tar_OFFSET_MAGIC (bytes_of ''ustar'');
          buf = mem_put buf tar_OFFSET_VERSION (bytes_of ''00'');
          checksum = fold (\<lambda>i checksum. checksum + uint (buf ! i)) [0..<tar_RECORD_SIZE] 0
      in fold (\<lambda>i buf. buf[tar_OFFSET_CHKSUM + 6 - i := tar_octal checksum i]) [0..<7] buf)"

text \<open>The loop that copies the content of the current file: the error, or the number of bytes written.\<close>

partial_function (option) tar_copyContent :: "'w ix_os \<Rightarrow> int \<Rightarrow> int \<Rightarrow> 'w tar \<Rightarrow> ((int + int) \<times> 'w tar) option" where
  "tar_copyContent os fileSize totalWritten st =
     (case readIntoBuffer os st of (numRead, st) \<Rightarrow>
        if numRead < 0 then Some (Inl (-3), st)
        else if numRead = 0 then Some (if totalWritten \<noteq> fileSize then Inl (-4) else Inr totalWritten, st)
        else Option.bind (writeBuffer os (nat numRead) st) (\<lambda>(status, st).
          if status < 0 then Some (Inl (-5), st) else tar_copyContent os fileSize (totalWritten + numRead) st))"

definition writeRecord :: "'w ix_os \<Rightarrow> bytes \<Rightarrow> nat \<Rightarrow> int \<Rightarrow> 'w tar \<Rightarrow> (int \<times> 'w tar) option" where
  "writeRecord os name nameLen fileSize st =
     (if nameLen > tar_MAX_NAME_LEN \<or> tar_prefixLen st > tar_MAX_PREFIX_LEN \<or> fileSize > tar_MAX_FILE_SIZE then Some (-1, st)
      else
        let typeflag = (if fileSize < 0 then chr CHR ''5'' else chr CHR ''0'');
            fileSize = (if fileSize < 0 then 0 else fileSize);
            st = st\<lparr>tar_buffer := tar_header name nameLen (tar_prefix st) (tar_prefixLen st) typeflag fileSize (tar_buffer st)\<rparr>
        in do {
          (status, st) \<leftarrow> writeBuffer os tar_RECORD_SIZE st;
          if status < 0 then Some (-2, st)
          else if fileSize = 0 then Some (0, st)
          else do {
            (result, st) \<leftarrow> tar_copyContent os fileSize 0 st;
            case result of Inl err \<Rightarrow> Some (err, st)
            | Inr totalWritten \<Rightarrow>
                let numPadBytes = unat (math_PAD_BYTES (word_of_int totalWritten :: u64) 512);
                    st = st\<lparr>tar_buffer := mem_put (tar_buffer st) 0 (replicate numPadBytes 0)\<rparr>
                in do {
                  (status, st) \<leftarrow> writeBuffer os numPadBytes st;
                  Some (if status < 0 then -6 else 0, st)
                }
          }
        })"

section \<open>Names\<close>

text \<open>The inner loop moves names one place up until the place of \<open>name\<close> is found; the position \<open>curr\<close> counts down to 0.\<close>

fun sortNames_place :: "bytes \<Rightarrow> nat \<Rightarrow> bytes list \<Rightarrow> bytes list" where
  "sortNames_place name 0 names = names[0 := name]"
| "sortNames_place name (Suc cur) names =
     (let prev = names ! cur
      in if util_cstrCmp (name @ [0]) (prev @ [0]) \<ge> 0 then names[Suc cur := name]
         else sortNames_place name cur (names[Suc cur := prev]))"

definition sortNames :: "bytes list \<Rightarrow> bytes list" where
  "sortNames names = fold (\<lambda>i names. sortNames_place (names ! i) i names) [1..<length names] names"

fun validateName_loop :: "bytes \<Rightarrow> nat \<Rightarrow> nat \<Rightarrow> int" where
  "validateName_loop [] maxLen i = int i"
| "validateName_loop (c # name) maxLen i = (if i \<ge> maxLen then -2 else if c = chr CHR ''/'' then -3 else validateName_loop name maxLen (Suc i))"

definition validateName :: "bytes \<Rightarrow> nat \<Rightarrow> int" where
  "validateName name maxLen = (if isDotDot name then -1 else validateName_loop name maxLen 0)"

definition finaliseOutput :: "'w ix_os \<Rightarrow> 'w tar \<Rightarrow> (int \<times> 'w tar) option" where
  "finaliseOutput os st = do {
     (status, st) \<leftarrow> writeBuffer os (2 * tar_RECORD_SIZE) (st\<lparr>tar_buffer := mem_put (tar_buffer st) 0 (replicate (2 * tar_RECORD_SIZE) 0)\<rparr>);
     st \<leftarrow> closeOutput os st;
     Some (status, st)
   }"

section \<open>Adding a directory\<close>

text \<open>
  \<open>struct state\<close>: the names that are left, the directory's descriptor, and the offset of the state in the allocator's memory; the
  chain of \<open>prev\<close> pointers is a list. A state takes 24 bytes, followed by the directory entries and by one pointer for each name.
\<close>

record tar_dir =
  dir_names :: "bytes list"
  dir_rootFd :: int
  dir_base :: nat

definition tar_resize :: "'w ix_os \<Rightarrow> u64 \<Rightarrow> nat \<Rightarrow> 'w tar \<Rightarrow> (int \<times> 'w tar) option" where
  "tar_resize os pageSize n st = do {
     (status, alloc, w) \<leftarrow> allocator_resize os pageSize (tar_alloc st) (word_of_nat n) (tar_world st);
     Some (status, st\<lparr>tar_alloc := alloc, tar_world := w\<rparr>)
   }"

text \<open>The entries of the current directory and the new end of the memory in use, or nothing when the loop is left for the cleanup.\<close>

partial_function (option) add_readEntries ::
  "'w ix_os \<Rightarrow> u64 \<Rightarrow> (nat \<times> bytes) list \<Rightarrow> nat \<Rightarrow> 'w tar \<Rightarrow> (((nat \<times> bytes) list \<times> nat) option \<times> 'w tar) option" where
  "add_readEntries os pageSize entries allocSize st =
     Option.bind (tar_resize os pageSize (allocSize + 8192) st) (\<lambda>(status, st).
       if status < 0 then Some (None, st)
       else case os_getdents os (tar_currentFd st) (unat (alloc_size (tar_alloc st)) - allocSize) (tar_world st) of (numRead, new, w) \<Rightarrow>
         let st = st\<lparr>tar_world := w\<rparr>
         in if numRead = 0 then Some (Some (entries, allocSize), st)
            else if numRead < 0 then Some (None, st)
            else add_readEntries os pageSize (entries @ new) (allocSize + nat numRead) st)"

fun add_buildNames :: "'w ix_os \<Rightarrow> u64 \<Rightarrow> (nat \<times> bytes) list \<Rightarrow> bytes list \<Rightarrow> nat \<Rightarrow> 'w tar \<Rightarrow> ((bytes list \<times> nat) option \<times> 'w tar) option" where
  "add_buildNames os pageSize [] names allocSize st = Some (Some (names, allocSize), st)"
| "add_buildNames os pageSize ((d_reclen, name) # entries) names allocSize st =
     (if isDot name \<or> isDotDot name then add_buildNames os pageSize entries names allocSize st
      else do {
        (status, st) \<leftarrow> tar_resize os pageSize (allocSize + 8) st;
        if status < 0 then Some (None, st)
        else add_buildNames os pageSize entries (names @ [name]) (allocSize + 8) st
      })"

fun add_cleanup_rootFds :: "'w ix_os \<Rightarrow> tar_dir list \<Rightarrow> 'w tar \<Rightarrow> (int \<times> 'w tar) option" where
  "add_cleanup_rootFds os [] st = Some (-1, st)"
| "add_cleanup_rootFds os (state # prev) st = do { st \<leftarrow> tar_close os (dir_rootFd state) st; add_cleanup_rootFds os prev st }"

definition add_cleanup_currentFd :: "'w ix_os \<Rightarrow> tar_dir list \<Rightarrow> 'w tar \<Rightarrow> (int \<times> 'w tar) option" where
  "add_cleanup_currentFd os state st = do { st \<leftarrow> tar_close os (tar_currentFd st) st; add_cleanup_rootFds os state st }"

text \<open>The top of the outer loop: a new state for the current directory, or the result of the cleanup.\<close>

definition add_newState :: "'w ix_os \<Rightarrow> u64 \<Rightarrow> tar_dir list \<Rightarrow> nat \<Rightarrow> 'w tar \<Rightarrow> ((int + tar_dir list \<times> nat) \<times> 'w tar) option" where
  "add_newState os pageSize state allocSize st = do {
     (entries, st) \<leftarrow> add_readEntries os pageSize [] (allocSize + 24) st;
     case entries of
       None \<Rightarrow> do { (status, st) \<leftarrow> add_cleanup_currentFd os state st; Some (Inl status, st) }
     | Some (entries, end) \<Rightarrow> do {
         (names, st) \<leftarrow> add_buildNames os pageSize entries [] end st;
         let rootFd = tar_currentFd st;
         case names of
           None \<Rightarrow> do {
             (status, st) \<leftarrow> add_cleanup_rootFds os (\<lparr>dir_names = [], dir_rootFd = rootFd, dir_base = allocSize\<rparr> # state) st;
             Some (Inl status, st)
           }
         | Some (names, end) \<Rightarrow>
             Some (Inr (\<lparr>dir_names = sortNames names, dir_rootFd = rootFd, dir_base = allocSize\<rparr> # state, end), st)
       }
   }"

definition S_IFMT :: nat where "S_IFMT = 0xF000"
definition S_ISDIR :: "nat \<Rightarrow> bool" where "S_ISDIR mode \<longleftrightarrow> mode AND S_IFMT = 0x4000"
definition S_ISREG :: "nat \<Rightarrow> bool" where "S_ISREG mode \<longleftrightarrow> mode AND S_IFMT = 0x8000"

text \<open>
  One entry: it is opened, checked and written. The result is the exit through one of the two cleanups, or whether the entry is a directory, which
  is then entered.
\<close>

datatype add_exit = Cleanup_rootFds | Cleanup_currentFd | Entered_directory | Next_entry

definition add_entry :: "'w ix_os \<Rightarrow> int \<Rightarrow> bytes \<Rightarrow> 'w tar \<Rightarrow> (add_exit \<times> 'w tar) option" where
  "add_entry os rootFd name st =
     (case os_openat os rootFd name O_RDONLY 0 (tar_world st) of (currentFd, w) \<Rightarrow>
        let st = st\<lparr>tar_currentFd := currentFd, tar_world := w\<rparr>
        in if currentFd < 0 then Some (Cleanup_rootFds, st)
           else let nameLen = util_cstrLen (name @ [0])
             in case os_fstat os currentFd (tar_world st) of (status, st_mode, st_size, w) \<Rightarrow>
               let st = st\<lparr>tar_world := w\<rparr>
               in if status < 0 then Some (Cleanup_currentFd, st)
                  else if \<not> S_ISDIR st_mode \<and> \<not> S_ISREG st_mode then Some (Cleanup_currentFd, st)
                  else let st_size = (if S_ISDIR st_mode then -1 else st_size)
                    in do {
                      (status, st) \<leftarrow> writeRecord os name nameLen st_size st;
                      if status < 0 then Some (Cleanup_currentFd, st)
                      else if st_size < 0 then (case enterDirectory name nameLen st of (status, st) \<Rightarrow> do { CHECK (status = 0); Some (Entered_directory, st) })
                      else do { st \<leftarrow> tar_close os (tar_currentFd st) st; Some (Next_entry, st) }
                    })"

partial_function (option) add_loop :: "'w ix_os \<Rightarrow> u64 \<Rightarrow> tar_dir list \<Rightarrow> nat \<Rightarrow> 'w tar \<Rightarrow> (int \<times> 'w tar) option" where
  "add_loop os pageSize state allocSize st =
     (case state of [] \<Rightarrow> None
      | cur # prev \<Rightarrow>
          (case dir_names cur of
             [] \<Rightarrow> Option.bind (tar_close os (dir_rootFd cur) st) (\<lambda>st.
               if prev = [] then Some (0, st)
               else add_loop os pageSize prev (dir_base cur) (leaveDirectory st))
           | name # names \<Rightarrow>
               let state = cur\<lparr>dir_names := names\<rparr> # prev
               in Option.bind (add_entry os (dir_rootFd cur) name st) (\<lambda>(exit, st).
                 case exit of
                   Cleanup_rootFds \<Rightarrow> add_cleanup_rootFds os state st
                 | Cleanup_currentFd \<Rightarrow> add_cleanup_currentFd os state st
                 | Next_entry \<Rightarrow> add_loop os pageSize state allocSize st
                 | Entered_directory \<Rightarrow> Option.bind (add_newState os pageSize state allocSize st) (\<lambda>(result, st).
                     case result of Inl status \<Rightarrow> Some (status, st)
                     | Inr (state, allocSize) \<Rightarrow> add_loop os pageSize state allocSize st))))"

definition add :: "'w ix_os \<Rightarrow> u64 \<Rightarrow> bytes \<Rightarrow> 'w tar \<Rightarrow> (int \<times> 'w tar) option" where
  "add os pageSize path st =
     (case os_openat os AT_FDCWD path O_RDONLY 0 (tar_world st) of (currentFd, w) \<Rightarrow>
        let st = st\<lparr>tar_currentFd := currentFd, tar_world := w\<rparr>
        in if currentFd < 0 then Some (-1, st)
           else do {
             (result, st) \<leftarrow> add_newState os pageSize [] 0 st;
             case result of Inl status \<Rightarrow> Some (status, st)
             | Inr (state, allocSize) \<Rightarrow> add_loop os pageSize state allocSize st
           })"

section \<open>The command line\<close>

text \<open>
  The option loop of \<^verbatim>\<open>src/hc/core/hc/argParse.h\<close> over the arguments that are left: a \<open>return -1\<close>, or the option character
  and the arguments with which \<open>optsDone\<close> is reached. Messages to the terminal are left out.
\<close>

definition run_option :: "'w ix_os \<Rightarrow> u64 \<Rightarrow> u8 \<Rightarrow> bytes \<Rightarrow> bool \<Rightarrow> 'w tar \<Rightarrow> ((int + bool) \<times> 'w tar) option" where
  "run_option os pageSize curOpt arg outputOpen st =
     (if curOpt = chr CHR ''o'' then do {
        st \<leftarrow> (if outputOpen then map_option snd (finaliseOutput os st) else Some st);
        case openOutput os arg st of (status, st) \<Rightarrow> Some (if status < 0 then Inl (-1) else Inr True, st)
      }
      else if curOpt = chr CHR ''a'' then
        (if \<not> outputOpen then Some (Inl (-1), st)
         else do { (status, st) \<leftarrow> add os pageSize arg st; Some (if status < 0 then Inl (-1) else Inr outputOpen, st) })
      else if curOpt = chr CHR ''d'' then
        (if \<not> outputOpen then Some (Inl (-1), st)
         else let nameLen = validateName arg tar_MAX_NAME_LEN
           in if nameLen < 0 then Some (Inl (-1), st)
              else do { (status, st) \<leftarrow> writeRecord os arg (nat nameLen) (-1) st; Some (if status < 0 then Inl (-1) else Inr outputOpen, st) })
      else let len = length arg
        in if len > length (tar_prefix st) then Some (Inl (-1), st)
           else Some (Inr outputOpen, st\<lparr>tar_prefix := mem_put (tar_prefix st) 0 arg, tar_prefixLen := len\<rparr>))"

fun run_loop :: "'w ix_os \<Rightarrow> u64 \<Rightarrow> u8 \<Rightarrow> bytes list \<Rightarrow> bool \<Rightarrow> 'w tar \<Rightarrow> ((int + u8 \<times> bytes list \<times> bool) \<times> 'w tar) option" where
  "run_loop os pageSize curOpt [] outputOpen st = Some (Inr (curOpt, [], outputOpen), st)"
| "run_loop os pageSize curOpt (arg # args) outputOpen st =
     (if curOpt = 0 then
        (case arg of
           [] \<Rightarrow> Some (Inr (0, arg # args, outputOpen), st)
         | c # flags \<Rightarrow>
             if c \<noteq> chr CHR ''-'' then Some (Inr (0, arg # args, outputOpen), st)
             else case flags of
               [] \<Rightarrow> run_loop os pageSize 0 args outputOpen st
             | [f] \<Rightarrow> if f = chr CHR ''-'' then Some (Inr (0, args, outputOpen), st) else run_loop os pageSize f args outputOpen st
             | f # _ # _ \<Rightarrow> Some (Inr (f, arg # args, outputOpen), st))
      else if curOpt \<in> {chr CHR ''o'', chr CHR ''a'', chr CHR ''d'', chr CHR ''p''} then do {
        (result, st) \<leftarrow> run_option os pageSize curOpt arg outputOpen st;
        case result of Inl status \<Rightarrow> Some (Inl status, st)
        | Inr outputOpen \<Rightarrow> run_loop os pageSize 0 args outputOpen st
      }
      else Some (Inr (curOpt, arg # args, outputOpen), st))"

definition run :: "'w ix_os \<Rightarrow> u64 \<Rightarrow> bytes list \<Rightarrow> 'w tar \<Rightarrow> (int \<times> 'w tar) option" where
  "run os pageSize args st = do {
     (result, st) \<leftarrow> run_loop os pageSize 0 args False st;
     case result of Inl status \<Rightarrow> Some (status, st)
     | Inr (curOpt, rest, outputOpen) \<Rightarrow>
         if curOpt \<noteq> 0 then Some (-1, st)
         else if rest \<noteq> [] then Some (-1, st)
         else if outputOpen then finaliseOutput os st
         else Some (0, st)
   }"

text \<open>The program from its start: the static variables are zero, and the allocator reserves 4 GiB; \<open>args\<close> is \<open>argv\<close> without the program's name.\<close>

definition tar_init :: "u64 \<Rightarrow> (u64 \<Rightarrow> bool) \<Rightarrow> 'w \<Rightarrow> 'w tar option" where
  "tar_init pageSize reserve w = map_option (\<lambda>alloc. \<lparr>tar_buffer = replicate tar_buffer_size 0,
     tar_prefix = replicate (tar_MAX_PREFIX_LEN + 1 + tar_MAX_NAME_LEN) 0, tar_prefixLen = 0, tar_outFd = 0, tar_currentFd = 0,
     tar_alloc = alloc, tar_world = w\<rparr>) (allocator_init pageSize reserve (push_bit 32 1))"

definition tar_start :: "'w ix_os \<Rightarrow> u64 \<Rightarrow> (u64 \<Rightarrow> bool) \<Rightarrow> bytes list \<Rightarrow> 'w \<Rightarrow> (int \<times> 'w) option" where
  "tar_start os pageSize reserve args w =
     (case tar_init pageSize reserve w of
        None \<Rightarrow> Some (1, w)
      | Some st \<Rightarrow> do { (status, st) \<leftarrow> run os pageSize args st; Some (if status < 0 then 1 else 0, tar_world st) })"

section \<open>Sorting\<close>

lemma cstrCmp_ge:
  assumes "cstr a" "cstr b"
  shows "util_cstrCmp (a @ [0]) (b @ [0]) \<ge> 0 \<longleftrightarrow> b \<le> a"
  using cstrCmp_neg [OF assms] by (simp add: not_less [symmetric] list_less_def)

lemma insort_snoc: "name < p \<Longrightarrow> insort name (xs @ [p]) = insort name xs @ [p]"
  by (induction xs) auto

lemma sortNames_place_insort:
  assumes "n < length names" "sorted (take n names)" "cstr name" "\<forall>s\<in>set names. cstr s"
  shows "length (sortNames_place name n names) = length names \<and> drop (Suc n) (sortNames_place name n names) = drop (Suc n) names \<and>
    take (Suc n) (sortNames_place name n names) = insort name (take n names)"
  using assms
proof (induction n arbitrary: names)
  case 0
  then show ?case by (cases names) auto
next
  case (Suc n)
  define prev where "prev = names ! n"
  have t: "take (Suc n) names = take n names @ [prev]" using Suc.prems(1) by (simp add: prev_def take_Suc_conv_app_nth)
  then have srt: "sorted (take n names)" "\<forall>x\<in>set (take n names). x \<le> prev" using Suc.prems(2) by (simp_all add: sorted_append)
  have c: "cstr prev" using Suc.prems(1,4) by (simp add: prev_def)
  show ?case
  proof (cases "prev \<le> name")
    case True
    have "insort name (take (Suc n) names) = take (Suc n) names @ [name]"
      using True srt Suc.prems(2) t by (intro sorted_insort_is_snoc) auto
    then show ?thesis using True cstrCmp_ge [OF Suc.prems(3) c] Suc.prems(1)
      by (simp add: prev_def [symmetric] Let_def take_Suc_conv_app_nth [of "Suc n"])
  next
    case False
    define names' where "names' = names[Suc n := prev]"
    have r: "sortNames_place name (Suc n) names = sortNames_place name n names'"
      using False cstrCmp_ge [OF Suc.prems(3) c] by (simp add: prev_def names'_def Let_def)
    have "\<forall>s\<in>set names'. cstr s" using Suc.prems(4) c set_update_subset_insert [of names "Suc n" prev] by (auto simp: names'_def)
    then have IH: "length (sortNames_place name n names') = length names'" "drop (Suc n) (sortNames_place name n names') = drop (Suc n) names'"
      "take (Suc n) (sortNames_place name n names') = insort name (take n names')"
      using Suc.IH [of names'] Suc.prems(1,3) srt by (simp_all add: names'_def)
    have d: "drop (Suc n) names' = prev # drop (Suc (Suc n)) names" using Suc.prems(1) by (simp add: names'_def Cons_nth_drop_Suc [symmetric])
    have "drop (Suc (Suc n)) (sortNames_place name n names') = drop (Suc (Suc n)) names"
      using IH(2) d by (metis drop_Suc list.sel(3) tl_drop)
    moreover have "take (Suc (Suc n)) (sortNames_place name n names') = insort name (take n names) @ [prev]"
      using IH d Suc.prems(1) by (simp add: names'_def take_Suc_conv_app_nth [of "Suc n"] nth_via_drop)
    ultimately show ?thesis unfolding r using False IH(1) by (simp add: t insort_snoc names'_def)
  qed
qed

lemma sortNames_sort:
  assumes "\<forall>s\<in>set names. cstr s"
  shows "sortNames names = sort names"
proof -
  have "length r = length names \<and> drop (Suc n) r = drop (Suc n) names \<and> take (Suc n) r = sort (take (Suc n) names)"
    if "Suc n \<le> length names" "r = fold (\<lambda>i names. sortNames_place (names ! i) i names) [1..<Suc n] names" for n r
    using that
  proof (induction n arbitrary: r)
    case 0
    then show ?case by (cases names) auto
  next
    case (Suc n)
    let ?n = "Suc n"
    define q where "q = fold (\<lambda>i names. sortNames_place (names ! i) i names) [1..<?n] names"
    have IH: "length q = length names" "drop ?n q = drop ?n names" "take ?n q = sort (take ?n names)" using Suc by (simp_all add: q_def)
    have x: "q ! ?n = names ! ?n" using IH(1,2) Suc.prems(1) by (metis Suc_le_eq hd_drop_conv_nth)
    have "set q = set (take ?n q) \<union> set (drop ?n q)" by (metis append_take_drop_id set_append)
    then have c: "\<forall>s\<in>set q. cstr s" unfolding IH(2,3) using assms by (auto dest: in_set_takeD in_set_dropD)
    have r: "r = sortNames_place (names ! ?n) ?n q" 
      using Suc.prems(2) upt_Suc_append [of 1 ?n] by (simp only: fold_append comp_apply fold.simps id_apply q_def [symmetric] x)
    have "take (Suc ?n) r = insort (names ! ?n) (sort (take ?n names))" "drop (Suc ?n) r = drop (Suc ?n) q" "length r = length names"
      unfolding r using sortNames_place_insort [of ?n q "names ! ?n"] IH c assms Suc.prems(1) by simp_all
    moreover have "insort (names ! ?n) (sort (take ?n names)) = sort (take (Suc ?n) names)"
      using Suc.prems(1) by (intro properties_for_sort [symmetric]) (simp_all add: take_Suc_conv_app_nth [of ?n] sorted_insort)
    moreover have "drop (Suc ?n) q = drop (Suc ?n) names" using IH(2) by (metis drop_Suc tl_drop)
    ultimately show ?case by simp
  qed
  note all = this
  show ?thesis
  proof (cases names)
    case (Cons a as)
    then have "length (sortNames names) = length names \<and> take (length names) (sortNames names) = sort names"
      using all [of "length as" "sortNames names"] by (simp add: sortNames_def del: upt_Suc)
    then show ?thesis by (metis order_refl take_all)
  qed (simp add: sortNames_def)
qed

section \<open>The header that is written\<close>

text \<open>The ustar header as POSIX lays it out, with the seven checksum digits as an argument.\<close>

definition octal_field :: "nat \<Rightarrow> int \<Rightarrow> bytes" where
  "octal_field n v = map (tar_octal v) (rev [0..<n])"

definition ustar_fields :: "bytes \<Rightarrow> bytes \<Rightarrow> u8 \<Rightarrow> int \<Rightarrow> bytes \<Rightarrow> bytes" where
  "ustar_fields name prefix typeflag fileSize chksum =
     (name @ replicate (100 - length name) 0) @ bytes_of ''0000777'' @ replicate 17 0 @ octal_field 11 fileSize @ [0] @
     bytes_of ''00000000000'' @ [0] @ chksum @ [chr CHR '' ''] @ [typeflag] @ replicate 100 0 @ bytes_of ''ustar'' @ [0] @ bytes_of ''00'' @
     replicate 80 0 @ prefix @ replicate (167 - length prefix) 0"

definition ustar_header :: "bytes \<Rightarrow> bytes \<Rightarrow> u8 \<Rightarrow> int \<Rightarrow> bytes" where
  "ustar_header name prefix typeflag fileSize =
     ustar_fields name prefix typeflag fileSize (octal_field 7 (sum_list (map uint (ustar_fields name prefix typeflag fileSize (bytes_of ''       '')))))"

lemma length_octal_field [simp]: "length (octal_field n v) = n"
  by (simp add: octal_field_def)

lemma length_ustar_fields [simp]:
  "length name \<le> 100 \<Longrightarrow> length prefix \<le> 167 \<Longrightarrow> length chksum = 7 \<Longrightarrow> length (ustar_fields name prefix typeflag fileSize chksum) = 512"
  by (simp add: ustar_fields_def)

lemma length_ustar_header [simp]: "length name \<le> 100 \<Longrightarrow> length prefix \<le> 167 \<Longrightarrow> length (ustar_header name prefix typeflag fileSize) = 512"
  by (simp add: ustar_header_def)

lemma mem_put_nested: "i + length bs \<le> length xs \<Longrightarrow> length xs \<le> length m \<Longrightarrow> mem_put (mem_put m 0 xs) i bs = mem_put m 0 (mem_put xs i bs)"
  by (simp add: mem_put_def)

lemma update_nested: "i < length xs \<Longrightarrow> (mem_put m 0 xs)[i := x] = mem_put m 0 (xs[i := x])"
  by (simp add: mem_put_def list_update_append)

lemma put_digits:
  assumes "off + n \<le> length b" "m \<le> n"
  shows "fold (\<lambda>i b. b[off + n - 1 - i := f i]) [0..<m] b = mem_put b (off + (n - m)) (map f (rev [0..<m]))"
  using assms(2)
proof (induction m)
  case 0
  then show ?case by simp
next
  case (Suc m)
  have "off + (n - m) = off + (n - Suc m) + 1" "off + n - 1 - m = off + (n - Suc m)" using Suc.prems by simp_all
  moreover have "(mem_put b (j + 1) xs)[j := x] = mem_put b j (x # xs)" if "j + 1 + length xs \<le> length b" for j xs x
    using that by (simp add: mem_put_def list_update_append take_Suc_conv_app_nth)
  ultimately show ?case using Suc assms(1) by simp
qed

lemma put_octal:
  assumes "off + n \<le> length b" "0 < n" "k = n - 1"
  shows "fold (\<lambda>i b. b[off + k - i := tar_octal v i]) [0..<n] b = mem_put b off (octal_field n v)"
  using put_digits [OF assms(1) order_refl, of "tar_octal v"] assms(2,3) by (simp add: octal_field_def)

lemma fold_checksum:
  assumes "length xs \<le> length m"
  shows "fold (\<lambda>i c. c + uint (mem_put m 0 xs ! i)) [0..<length xs] 0 = sum_list (map uint xs)"
proof -
  have "fold (\<lambda>i c. c + uint (mem_put m 0 xs ! i)) [0..<n] 0 = sum_list (map uint (take n xs))" if "n \<le> length xs" for n
    using that assms by (induction n) (simp_all add: take_Suc_conv_app_nth mem_put_def nth_append)
  from this [of "length xs"] show ?thesis by simp
qed

lemma update_put: "i < length m \<Longrightarrow> m[i := x] = mem_put m i [x]"
  by (simp add: mem_put_def upd_conv_take_nth_drop)

lemma tar_header_put:
  assumes "length name \<le> 100" "prefixLen \<le> 155" "prefixLen \<le> length prefix" "512 \<le> length buf"
  shows "tar_header name (length name) prefix prefixLen typeflag fileSize buf = mem_put buf 0 (ustar_header name (take prefixLen prefix) typeflag fileSize)"
proof -
  define n p where "n = length name" and "p = take prefixLen prefix"
  have p: "length p = prefixLen" using assms(3) by (simp add: p_def)
  define N where "N = name @ replicate (100 - n) (0::u8)"
  have N: "length N = 100" using assms(1) by (simp add: N_def n_def)
  define P where "P = p @ replicate (167 - prefixLen) (0::u8)"
  have P: "length P = 167" using assms(2) p by (simp add: P_def)
  have z: "name @ replicate (345 - n) 0 = N @ replicate 245 0" using assms(1) by (simp add: N_def n_def flip: replicate_add)
  have b0: "mem_put (mem_put (mem_put (mem_put buf 0 name) n (replicate (345 - n) 0)) 345 p) (345 + prefixLen) (replicate (167 - prefixLen) 0)
      = mem_put buf 0 (N @ replicate 245 0 @ P)"
    using mem_put_append [of 0 name "replicate (345 - n) 0" buf] mem_put_append [of 0 "name @ replicate (345 - n) 0" p buf]
      mem_put_append [of 0 "(name @ replicate (345 - n) 0) @ p" "replicate (167 - prefixLen) 0" buf] assms p
    by (simp add: n_def P_def N z [unfolded n_def])
  define D where "D = octal_field 11 fileSize"
  have D: "length D = 11" by (simp add: D_def)
  define S where "S = N @ bytes_of ''0000777'' @ replicate 17 0 @ D @ [0] @ bytes_of ''00000000000'' @ [0] @ bytes_of ''       '' @ [chr CHR '' ''] @
    [typeflag] @ replicate 100 0 @ bytes_of ''ustar'' @ [0] @ bytes_of ''00'' @ replicate 80 0 @ P"
  have S: "length S = 512" "S = ustar_fields name p typeflag fileSize (bytes_of ''       '')"
    using N P D by (simp_all add: S_def ustar_fields_def N_def P_def D_def n_def p)
  have C: "bytes_of ''        '' = bytes_of ''       '' @ [chr CHR '' '']" by (simp add: bytes_of_def)
  have s0: "mem_put (mem_put (mem_put (mem_put (mem_put (mem_put (mem_put (N @ replicate 245 0 @ P) 100 (bytes_of ''0000777'')) 124 D)
      136 (bytes_of ''00000000000'')) 148 (bytes_of ''        '')) 156 [typeflag]) 257 (bytes_of ''ustar'')) 263 (bytes_of ''00'') = S"
    by (simp add: mem_put_def N D S_def C drop_Cons' take_Cons')
  define S0 where "S0 = N @ replicate 245 0 @ P"
  have S0: "length S0 = 512" using N P by (simp add: S0_def)
  have put1: "mem_put (mem_put buf 0 X) i bs = mem_put buf 0 (mem_put X i bs)" if "length X = 512" "i + length bs \<le> 512" for X i bs
    using that assms(4) by (intro mem_put_nested) simp_all
  have put2: "(mem_put buf 0 X)[156 := typeflag] = mem_put buf 0 (mem_put X 156 [typeflag])" if "length X = 512" for X
    using that by (simp add: update_nested update_put)
  have oct: "fold (\<lambda>i b. b[124 + 10 - i := tar_octal fileSize i]) [0..<11] (mem_put buf 0 X) = mem_put buf 0 (mem_put X 124 D)" if "length X = 512" for X
    using that assms(4) put1 by (subst put_octal [where n = 11]) (simp_all add: D_def)
  have "tar_header name (length name) prefix prefixLen typeflag fileSize buf =
    (let buf = mem_put buf 0 S; checksum = fold (\<lambda>i checksum. checksum + uint (buf ! i)) [0..<512] 0
     in fold (\<lambda>i buf. buf[148 + 6 - i := tar_octal checksum i]) [0..<7] buf)"
    unfolding tar_header_def tar_layout Let_def
    by (simp add: b0 [unfolded n_def p_def] put1 put2 oct [simplified] s0 [symmetric] N P D)
  also have "\<dots> = mem_put buf 0 (mem_put S 148 (octal_field 7 (sum_list (map uint S))))"
    unfolding Let_def fold_checksum [of S buf, unfolded S(1), OF assms(4)]
    using put1 [OF S(1), of 148 "octal_field 7 (sum_list (map uint S))"] assms(4) S(1)
    by (subst put_octal [where n = 7]) simp_all
  also have "mem_put S 148 (octal_field 7 (sum_list (map uint S))) = ustar_header name p typeflag fileSize"
    unfolding ustar_header_def S(2) [symmetric]
    by (simp add: ustar_fields_def mem_put_def N D P S_def drop_Cons' take_Cons' N_def [symmetric] D_def [symmetric] n_def [symmetric] p P_def [symmetric])
  finally show ?thesis by (simp add: p_def)
qed

section \<open>The file system\<close>

text \<open>
  What \<open>add\<close> relies on. A directory is the list of its entries in the order of their names. An open file has a position, an open
  directory the names that \<open>getdents\<close> has still to deliver, in any order and with the two dot entries among them.
\<close>

datatype node = File bytes | Dir "(bytes \<times> node) list"

datatype tar_handle = OpenFile bytes nat | OpenDir "(bytes \<times> node) list" "bytes list"

record tar_view =
  seen_out :: bytes
  seen_fds :: "int \<Rightarrow> tar_handle option"

fun opens :: "node \<Rightarrow> tar_handle \<Rightarrow> bool" where
  "opens (File c) h \<longleftrightarrow> h = OpenFile c 0"
| "opens (Dir es) (OpenDir es' ns) \<longleftrightarrow> es' = es \<and> mset (filter (\<lambda>n. \<not> isDot n \<and> \<not> isDotDot n) ns) = mset (map fst es) \<and>
     length ns \<le> length es + 2 \<and> (\<forall>n\<in>set ns. cstr n)"
| "opens (Dir es) (OpenFile c p) \<longleftrightarrow> False"

definition names_ok :: "node \<Rightarrow> bool" where
  "names_ok nd \<longleftrightarrow> (case nd of File c \<Rightarrow> True | Dir es \<Rightarrow> \<forall>n\<in>fst ` set es. cstr n \<and> \<not> isDot n \<and> \<not> isDotDot n)"

definition set_fd :: "int \<Rightarrow> tar_handle option \<Rightarrow> tar_view \<Rightarrow> tar_view" where
  "set_fd fd h x = x\<lparr>seen_fds := (seen_fds x)(fd := h)\<rparr>"

definition put_out :: "tar_view \<Rightarrow> bytes \<Rightarrow> tar_view" where
  "put_out x b = x\<lparr>seen_out := seen_out x @ b\<rparr>"

definition read_law :: "'w ix_os \<Rightarrow> ('w \<Rightarrow> tar_view) \<Rightarrow> bool" where
  "read_law os v \<longleftrightarrow> (\<forall>w fd c p n. seen_fds (v w) fd = Some (OpenFile c p) \<and> 0 < n \<longrightarrow> (case os_read os fd n w of (k, bs, w') \<Rightarrow>
     0 \<le> k \<and> nat k \<le> n \<and> nat k \<le> length c - p \<and> (k = 0 \<longrightarrow> length c \<le> p) \<and> bs = take (nat k) (drop p c) \<and>
     v w' = set_fd fd (Some (OpenFile c (p + nat k))) (v w)))"

definition open_law :: "'w ix_os \<Rightarrow> ('w \<Rightarrow> tar_view) \<Rightarrow> bool" where
  "open_law os v \<longleftrightarrow> (\<forall>w d es ns name nd. seen_fds (v w) d = Some (OpenDir es ns) \<and> map_of es name = Some nd \<and> names_ok nd \<longrightarrow>
     (case os_openat os d name O_RDONLY 0 w of (fd, w') \<Rightarrow>
        0 \<le> fd \<and> seen_fds (v w) fd = None \<and> (\<exists>h. opens nd h \<and> v w' = set_fd fd (Some h) (v w))))"

definition getdents_law :: "'w ix_os \<Rightarrow> ('w \<Rightarrow> tar_view) \<Rightarrow> bool" where
  "getdents_law os v \<longleftrightarrow> (\<forall>w d es ns n. seen_fds (v w) d = Some (OpenDir es ns) \<and> 8192 \<le> n \<longrightarrow> (case os_getdents os d n w of (k, ents, w') \<Rightarrow>
     k = int (sum_list (map fst ents)) \<and> map snd ents = take (length ents) ns \<and> (\<forall>(r, name)\<in>set ents. 0 < r \<and> r \<le> length name + 32) \<and>
     (ents = [] \<longrightarrow> ns = []) \<and> v w' = set_fd d (Some (OpenDir es (drop (length ents) ns))) (v w)))"

definition fstat_law :: "'w ix_os \<Rightarrow> ('w \<Rightarrow> tar_view) \<Rightarrow> bool" where
  "fstat_law os v \<longleftrightarrow> (\<forall>w fd h. seen_fds (v w) fd = Some h \<longrightarrow> (case os_fstat os fd w of (status, mode, sz, w') \<Rightarrow>
     status = 0 \<and> v w' = v w \<and>
     (case h of OpenFile c p \<Rightarrow> S_ISREG mode \<and> \<not> S_ISDIR mode \<and> sz = int (length c) | OpenDir es ns \<Rightarrow> S_ISDIR mode)))"

definition close_law :: "'w ix_os \<Rightarrow> ('w \<Rightarrow> tar_view) \<Rightarrow> bool" where
  "close_law os v \<longleftrightarrow> (\<forall>w fd. seen_fds (v w) fd \<noteq> None \<longrightarrow> (case os_close os fd w of (r, w') \<Rightarrow> r = 0 \<and> v w' = set_fd fd None (v w)))"

definition tar_os_ok :: "'w ix_os \<Rightarrow> int \<Rightarrow> ('w \<Rightarrow> tar_view) \<Rightarrow> ('w \<Rightarrow> nat) \<Rightarrow> bool" where
  "tar_os_ok os outFd v m \<longleftrightarrow> accepts os outFd v m put_out (\<lambda>_. True) \<and> read_law os v \<and> open_law os v \<and> getdents_law os v \<and>
     fstat_law os v \<and> close_law os v \<and> memory_law os v"

lemma view_simps [simp]:
  "seen_fds (put_out x b) = seen_fds x" "seen_out (set_fd fd h x) = seen_out x" "seen_fds (set_fd fd h x) = (seen_fds x)(fd := h)"
  "put_out (put_out x a) b = put_out x (a @ b)" "put_out x [] = x" "put_out (set_fd fd h x) b = set_fd fd h (put_out x b)"
  "set_fd fd h (set_fd fd h' x) = set_fd fd h x" "seen_fds x fd = h \<Longrightarrow> set_fd fd h x = x" "seen_out (put_out x b) = seen_out x @ b"
  by (auto simp: put_out_def set_fd_def intro!: ext)

lemma tar_lawD:
  assumes "tar_os_ok os outFd v m"
  shows "os_read os fd n w = (k, bs, w') \<Longrightarrow> seen_fds (v w) fd = Some (OpenFile c p) \<Longrightarrow> 0 < n \<Longrightarrow>
      0 \<le> k \<and> nat k \<le> n \<and> nat k \<le> length c - p \<and> (k = 0 \<longrightarrow> length c \<le> p) \<and> bs = take (nat k) (drop p c) \<and> v w' = set_fd fd (Some (OpenFile c (p + nat k))) (v w)"
    "os_openat os d name O_RDONLY 0 w = (fd, w') \<Longrightarrow> seen_fds (v w) d = Some (OpenDir es ns) \<Longrightarrow> map_of es name = Some nd \<Longrightarrow> names_ok nd \<Longrightarrow>
      0 \<le> fd \<and> seen_fds (v w) fd = None \<and> (\<exists>h. opens nd h \<and> v w' = set_fd fd (Some h) (v w))"
    "os_getdents os d n w = (k, ents, w') \<Longrightarrow> seen_fds (v w) d = Some (OpenDir es ns) \<Longrightarrow> 8192 \<le> n \<Longrightarrow>
      k = int (sum_list (map fst ents)) \<and> map snd ents = take (length ents) ns \<and> (\<forall>(r, name)\<in>set ents. 0 < r \<and> r \<le> length name + 32) \<and>
      (ents = [] \<longrightarrow> ns = []) \<and> v w' = set_fd d (Some (OpenDir es (drop (length ents) ns))) (v w)"
    "os_fstat os fd w = (status, mode, sz, w') \<Longrightarrow> seen_fds (v w) fd = Some h \<Longrightarrow> status = 0 \<and> v w' = v w \<and>
      (case h of OpenFile c p \<Rightarrow> S_ISREG mode \<and> \<not> S_ISDIR mode \<and> sz = int (length c) | OpenDir es ns \<Rightarrow> S_ISDIR mode)"
    "os_close os fd w = (r, w') \<Longrightarrow> seen_fds (v w) fd \<noteq> None \<Longrightarrow> r = 0 \<and> v w' = set_fd fd None (v w)"
proof -
  have L: "read_law os v" "open_law os v" "getdents_law os v" "fstat_law os v" "close_law os v" using assms unfolding tar_os_ok_def by blast+
  show "os_read os fd n w = (k, bs, w') \<Longrightarrow> seen_fds (v w) fd = Some (OpenFile c p) \<Longrightarrow> 0 < n \<Longrightarrow>
      0 \<le> k \<and> nat k \<le> n \<and> nat k \<le> length c - p \<and> (k = 0 \<longrightarrow> length c \<le> p) \<and> bs = take (nat k) (drop p c) \<and> v w' = set_fd fd (Some (OpenFile c (p + nat k))) (v w)"
    using L(1) [unfolded read_law_def, THEN spec, THEN spec, THEN spec, THEN spec, THEN spec, of w fd c p n] by simp
  show "os_openat os d name O_RDONLY 0 w = (fd, w') \<Longrightarrow> seen_fds (v w) d = Some (OpenDir es ns) \<Longrightarrow> map_of es name = Some nd \<Longrightarrow> names_ok nd \<Longrightarrow>
      0 \<le> fd \<and> seen_fds (v w) fd = None \<and> (\<exists>h. opens nd h \<and> v w' = set_fd fd (Some h) (v w))"
    using L(2) [unfolded open_law_def, THEN spec, THEN spec, THEN spec, THEN spec, THEN spec, THEN spec, of w d es ns name nd] by simp
  show "os_getdents os d n w = (k, ents, w') \<Longrightarrow> seen_fds (v w) d = Some (OpenDir es ns) \<Longrightarrow> 8192 \<le> n \<Longrightarrow>
      k = int (sum_list (map fst ents)) \<and> map snd ents = take (length ents) ns \<and> (\<forall>(r, name)\<in>set ents. 0 < r \<and> r \<le> length name + 32) \<and>
      (ents = [] \<longrightarrow> ns = []) \<and> v w' = set_fd d (Some (OpenDir es (drop (length ents) ns))) (v w)"
    using L(3) [unfolded getdents_law_def, THEN spec, THEN spec, THEN spec, THEN spec, THEN spec, of w d es ns n] by simp
  show "os_fstat os fd w = (status, mode, sz, w') \<Longrightarrow> seen_fds (v w) fd = Some h \<Longrightarrow> status = 0 \<and> v w' = v w \<and>
      (case h of OpenFile c p \<Rightarrow> S_ISREG mode \<and> \<not> S_ISDIR mode \<and> sz = int (length c) | OpenDir es ns \<Rightarrow> S_ISDIR mode)"
    using L(4) [unfolded fstat_law_def, THEN spec, THEN spec, THEN spec, of w fd h] by simp
  show "os_close os fd w = (r, w') \<Longrightarrow> seen_fds (v w) fd \<noteq> None \<Longrightarrow> r = 0 \<and> v w' = set_fd fd None (v w)"
    using L(5) [unfolded close_law_def, THEN spec, THEN spec, of w fd] by simp
qed

section \<open>Writing a record\<close>

definition pad512 :: "nat \<Rightarrow> bytes" where
  "pad512 n = replicate ((512 - n mod 512) mod 512) 0"

text \<open>The state after some output: everything but the buffer and the world is as it was.\<close>

lemma writeBuffer_appends:
  assumes "tar_os_ok os (tar_outFd st) v m" "n \<le> length (tar_buffer st)"
  shows "\<exists>w'. writeBuffer os n st = Some (0, st\<lparr>tar_world := w'\<rparr>) \<and> v w' = put_out (v (tar_world st)) (take n (tar_buffer st))"
proof -
  have "accepts os (tar_outFd st) v m put_out (\<lambda>_. True)" using assms(1) unfolding tar_os_ok_def by blast
  from writeAll_appends [OF this, where w = "tar_world st" and b = "take n (tar_buffer st)"] show ?thesis
    by (auto simp: writeBuffer_def mem_get_def)
qed

lemma copyContent_copies:
  assumes "tar_os_ok os (tar_outFd st) v m" "seen_fds (v (tar_world st)) (tar_currentFd st) = Some (OpenFile c p)" "p \<le> length c"
    "length (tar_buffer st) = tar_buffer_size"
  shows "\<exists>b w'. tar_copyContent os (int (length c)) (int p) st = Some (Inr (int (length c)), st\<lparr>tar_buffer := b, tar_world := w'\<rparr>) \<and>
    length b = tar_buffer_size \<and> v w' = set_fd (tar_currentFd st) (Some (OpenFile c (length c))) (put_out (v (tar_world st)) (drop p c))"
  using assms
proof (induction "length c - p" arbitrary: p st rule: less_induct)
  case less
  obtain k bs w1 where r: "os_read os (tar_currentFd st) tar_buffer_size (tar_world st) = (k, bs, w1)" by (metis prod_cases3)
  have L: "0 \<le> k" "nat k \<le> tar_buffer_size" "nat k \<le> length c - p" "k = 0 \<longrightarrow> length c \<le> p" "bs = take (nat k) (drop p c)"
    "v w1 = set_fd (tar_currentFd st) (Some (OpenFile c (p + nat k))) (v (tar_world st))"
    using tar_lawD(1) [OF less.prems(1) r less.prems(2)] by (auto simp: tar_buffer_size_def)
  have lb: "length bs = nat k" using L(3,5) by simp
  define s1 where "s1 = st\<lparr>tar_buffer := mem_put (tar_buffer st) 0 bs, tar_world := w1\<rparr>"
  have rd: "readIntoBuffer os st = (k, s1)" using lb by (simp add: readIntoBuffer_def r s1_def)
  have l1: "length (tar_buffer s1) = tar_buffer_size" using L(2) lb less.prems(4) by (simp add: s1_def)
  show ?case
  proof (cases "k = 0")
    case True
    then have "p = length c" "bs = []" using L(4,5) less.prems(3) by simp_all
    then show ?thesis using True less.prems(2,4) L(6) by (subst tar_copyContent.simps) (auto simp: rd s1_def intro!: exI [of _ "tar_buffer st"])
  next
    case False
    obtain w2 where w2: "writeBuffer os (nat k) s1 = Some (0, s1\<lparr>tar_world := w2\<rparr>)" "v w2 = put_out (v w1) bs"
      using writeBuffer_appends [of os s1 v m "nat k"] less.prems(1,4) L(2) lb l1 by (auto simp: s1_def mem_put_def)
    define s2 where "s2 = s1\<lparr>tar_world := w2\<rparr>"
    have "seen_fds (v (tar_world s2)) (tar_currentFd s2) = Some (OpenFile c (p + nat k))" using w2(2) L(6) by (simp add: s2_def s1_def)
    moreover have "length c - (p + nat k) < length c - p" "p + nat k \<le> length c" using L(1,3) False less.prems(3) by linarith+
    ultimately obtain b w3 where "tar_copyContent os (int (length c)) (int (p + nat k)) s2 = Some (Inr (int (length c)), s2\<lparr>tar_buffer := b, tar_world := w3\<rparr>)"
      "length b = tar_buffer_size" "v w3 = set_fd (tar_currentFd s2) (Some (OpenFile c (length c))) (put_out (v (tar_world s2)) (drop (p + nat k) c))"
      using less.hyps [of "p + nat k" s2] less.prems(1,3) L(1,3) l1 False by (auto simp: s2_def s1_def)
    moreover have "bs @ drop (p + nat k) c = drop p c" using L(5) by (metis add.commute append_take_drop_id drop_drop)
    ultimately show ?thesis using False L(1,6) w2 by (subst tar_copyContent.simps) (auto simp: rd s2_def s1_def)
  qed
qed

lemma unat_pad512: "n < 2 ^ 64 \<Longrightarrow> unat (math_PAD_BYTES (word_of_int (int n) :: u64) 512) = (512 - n mod 512) mod 512"
  using unat_PAD_BYTES [of 9 "word_of_nat n :: u64"] by (simp add: unat_of_nat)

definition file_record :: "bytes \<Rightarrow> bytes \<Rightarrow> bytes \<Rightarrow> bytes" where
  "file_record prefix name c = ustar_header name prefix (chr CHR ''0'') (int (length c)) @ c @ pad512 (length c)"

definition dir_record :: "bytes \<Rightarrow> bytes \<Rightarrow> bytes" where
  "dir_record prefix name = ustar_header name prefix (chr CHR ''5'') 0"

definition tar_buffers :: "'w tar \<Rightarrow> bool" where
  "tar_buffers st \<longleftrightarrow> length (tar_buffer st) = tar_buffer_size \<and> length (tar_prefix st) = 256 \<and> tar_prefixLen st \<le> 256"

lemma writeHeader:
  assumes "tar_os_ok os (tar_outFd st) v m" "tar_buffers st" "length name \<le> 100" "tar_prefixLen st \<le> 155"
  shows "\<exists>b w'. writeBuffer os tar_RECORD_SIZE
      (st\<lparr>tar_buffer := tar_header name (length name) (tar_prefix st) (tar_prefixLen st) typeflag fileSize (tar_buffer st)\<rparr>) =
        Some (0, st\<lparr>tar_buffer := b, tar_world := w'\<rparr>) \<and> length b = tar_buffer_size \<and>
        v w' = put_out (v (tar_world st)) (ustar_header name (take (tar_prefixLen st) (tar_prefix st)) typeflag fileSize)"
proof -
  define h where "h = ustar_header name (take (tar_prefixLen st) (tar_prefix st)) typeflag fileSize"
  define b where "b = mem_put (tar_buffer st) 0 h"
  have h: "length h = 512" using assms(3,4) by (simp add: h_def)
  have b: "tar_header name (length name) (tar_prefix st) (tar_prefixLen st) typeflag fileSize (tar_buffer st) = b"
    using assms(2-4) by (simp add: b_def h_def tar_header_put tar_buffers_def tar_buffer_size_def)
  have len: "length b = tar_buffer_size" "take tar_RECORD_SIZE b = h" using h assms(2) by (simp_all add: b_def tar_buffers_def tar_buffer_size_def tar_RECORD_SIZE_def mem_put_def)
  show ?thesis unfolding b h_def [symmetric] using writeBuffer_appends [of os "st\<lparr>tar_buffer := b\<rparr>" v m tar_RECORD_SIZE] assms(1) len
    by (auto simp: tar_RECORD_SIZE_def tar_buffer_size_def)
qed

lemma writeRecord_dir:
  assumes "tar_os_ok os (tar_outFd st) v m" "tar_buffers st" "length name \<le> 100" "tar_prefixLen st \<le> 155"
  shows "\<exists>b w'. writeRecord os name (length name) (-1) st = Some (0, st\<lparr>tar_buffer := b, tar_world := w'\<rparr>) \<and>
    length b = tar_buffer_size \<and> v w' = put_out (v (tar_world st)) (dir_record (take (tar_prefixLen st) (tar_prefix st)) name)"
proof -
  obtain b w' where "writeBuffer os tar_RECORD_SIZE
      (st\<lparr>tar_buffer := tar_header name (length name) (tar_prefix st) (tar_prefixLen st) (chr CHR ''5'') 0 (tar_buffer st)\<rparr>) =
        Some (0, st\<lparr>tar_buffer := b, tar_world := w'\<rparr>)" "length b = tar_buffer_size"
    "v w' = put_out (v (tar_world st)) (dir_record (take (tar_prefixLen st) (tar_prefix st)) name)"
    unfolding dir_record_def using writeHeader [OF assms] by blast
  then show ?thesis using assms(3,4)
    by (intro exI [of _ b] exI [of _ w']) (simp add: writeRecord_def tar_MAX_NAME_LEN_def tar_MAX_PREFIX_LEN_def tar_MAX_FILE_SIZE_def)
qed

lemma writeRecord_file:
  assumes "tar_os_ok os (tar_outFd st) v m" "tar_buffers st" "length name \<le> 100" "tar_prefixLen st \<le> 155"
    "seen_fds (v (tar_world st)) (tar_currentFd st) = Some (OpenFile c 0)" "int (length c) \<le> tar_MAX_FILE_SIZE"
  shows "\<exists>b w' p. writeRecord os name (length name) (int (length c)) st = Some (0, st\<lparr>tar_buffer := b, tar_world := w'\<rparr>) \<and>
    length b = tar_buffer_size \<and>
    v w' = set_fd (tar_currentFd st) (Some (OpenFile c p)) (put_out (v (tar_world st)) (file_record (take (tar_prefixLen st) (tar_prefix st)) name c))"
proof -
  define q where "q = take (tar_prefixLen st) (tar_prefix st)"
  define h where "h = ustar_header name q (chr CHR ''0'') (int (length c))"
  obtain b1 w1 where 1: "writeBuffer os tar_RECORD_SIZE
      (st\<lparr>tar_buffer := tar_header name (length name) (tar_prefix st) (tar_prefixLen st) (chr CHR ''0'') (int (length c)) (tar_buffer st)\<rparr>) =
        Some (0, st\<lparr>tar_buffer := b1, tar_world := w1\<rparr>)" "length b1 = tar_buffer_size" "v w1 = put_out (v (tar_world st)) h"
    unfolding h_def q_def using writeHeader [OF assms(1-4)] by blast
  have guard: "\<not> (length name > tar_MAX_NAME_LEN \<or> tar_prefixLen st > tar_MAX_PREFIX_LEN \<or> int (length c) > tar_MAX_FILE_SIZE)"
    using assms(3,4,6) by (simp add: tar_MAX_NAME_LEN_def tar_MAX_PREFIX_LEN_def)
  define s1 where "s1 = st\<lparr>tar_buffer := b1, tar_world := w1\<rparr>"
  show ?thesis
  proof (cases "c = []")
    case True
    then show ?thesis using 1 guard assms(5)
      by (intro exI [of _ b1] exI [of _ w1] exI [of _ 0]) (simp add: writeRecord_def file_record_def pad512_def h_def q_def [symmetric])
  next
    case False
    have o1: "seen_fds (v w1) (tar_currentFd st) = Some (OpenFile c 0)" using 1(3) assms(5) by simp
    obtain b2 w2 where 2: "tar_copyContent os (int (length c)) 0 s1 = Some (Inr (int (length c)), s1\<lparr>tar_buffer := b2, tar_world := w2\<rparr>)"
      "length b2 = tar_buffer_size" "v w2 = set_fd (tar_currentFd st) (Some (OpenFile c (length c))) (put_out (v w1) c)"
      using copyContent_copies [of os s1 v m c 0] o1 1(2) assms(1) by (auto simp: s1_def)
    define n where "n = (512 - length c mod 512) mod 512"
    have n: "unat (math_PAD_BYTES (word_of_int (int (length c)) :: u64) 512) = n" using assms(6) unat_pad512 [of "length c"] by (simp add: n_def tar_MAX_FILE_SIZE_def)
    have n': "n \<le> 512" by (simp add: n_def)
    define s2 where "s2 = s1\<lparr>tar_buffer := b2, tar_world := w2\<rparr>\<lparr>tar_buffer := mem_put b2 0 (replicate n 0)\<rparr>"
    have t: "length (tar_buffer s2) = tar_buffer_size" "take n (tar_buffer s2) = pad512 (length c)"
      using 2(2) n' by (simp_all add: s2_def tar_buffer_size_def mem_put_def pad512_def n_def)
    obtain w3 where 3: "writeBuffer os n s2 = Some (0, s2\<lparr>tar_world := w3\<rparr>)" "v w3 = put_out (v w2) (pad512 (length c))"
      using writeBuffer_appends [of os s2 v m n] t n' assms(1) by (auto simp: s2_def s1_def tar_buffer_size_def)
    have "writeRecord os name (length name) (int (length c)) st = Some (0, s2\<lparr>tar_world := w3\<rparr>)"
      unfolding writeRecord_def using guard False 1(1) 2(1) 3(1) by (simp add: s1_def s2_def n [simplified] Let_def)
    moreover have "v w3 = set_fd (tar_currentFd st) (Some (OpenFile c (length c))) (put_out (v (tar_world st)) (file_record q name c))"
      using 1(3) 2(3) 3(2) by (simp add: file_record_def h_def)
    ultimately show ?thesis using t(1) unfolding q_def by (auto simp: s2_def s1_def)
  qed
qed

section \<open>The path prefix\<close>

definition subdir :: "bytes \<Rightarrow> bytes \<Rightarrow> bytes" where
  "subdir q name = (if q = [] then name else q @ chr CHR ''/'' # name)"

definition tar_path :: "'w tar \<Rightarrow> bytes" where
  "tar_path st = take (tar_prefixLen st) (tar_prefix st)"

definition name_ok :: "bytes \<Rightarrow> bool" where
  "name_ok name \<longleftrightarrow> name \<noteq> [] \<and> cstr name \<and> chr CHR ''/'' \<notin> set name \<and> length name < 100 \<and> \<not> isDot name \<and> \<not> isDotDot name"

lemma leave_slash:
  assumes "pre ! j = chr CHR ''/''" "\<And>i. j < i \<Longrightarrow> i < Suc j + k \<Longrightarrow> pre ! i \<noteq> chr CHR ''/''"
  shows "leaveDirectory_loop pre (Suc j + k) = j"
  using assms(2) by (induction k) (simp_all add: assms(1))

lemma leave_top:
  assumes "\<And>i. i < k \<Longrightarrow> pre ! i \<noteq> chr CHR ''/''"
  shows "leaveDirectory_loop pre k = 0"
  using assms by (induction k) auto

lemma leave_subdir:
  assumes "take n pre = subdir q name" "n = length (subdir q name)" "n \<le> length pre" "chr CHR ''/'' \<notin> set name"
  shows "leaveDirectory_loop pre n = length q"
proof -
  have nth: "pre ! i = subdir q name ! i" if "i < n" for i using that assms(1) by (metis nth_take)
  show ?thesis
  proof (cases "q = []")
    case True
    then have "\<And>i. i < n \<Longrightarrow> pre ! i \<noteq> chr CHR ''/''" using nth assms(2,4) by (metis nth_mem subdir_def)
    then show ?thesis using True leave_top by auto
  next
    case False
    then have n: "n = Suc (length q) + length name" using assms(2) by (simp add: subdir_def)
    have "leaveDirectory_loop pre (Suc (length q) + length name) = length q"
    proof (rule leave_slash)
      show "pre ! length q = chr CHR ''/''" using nth [of "length q"] n False by (simp add: subdir_def)
      fix i assume "length q < i" "i < Suc (length q) + length name"
      then have "pre ! i = name ! (i - Suc (length q))" "i - Suc (length q) < length name"
        using nth [of i] n False by (simp_all add: subdir_def nth_append nth_Cons')
      then show "pre ! i \<noteq> chr CHR ''/''" using assms(4) by (metis nth_mem)
    qed
    then show ?thesis using n by simp
  qed
qed

lemma enter_subdir:
  assumes "length (tar_prefix st) = 256" "tar_prefixLen st \<le> 155" "length name \<le> 100"
  shows "\<exists>p n. enterDirectory name (length name) st = (0, st\<lparr>tar_prefix := p, tar_prefixLen := n\<rparr>) \<and> length p = 256 \<and>
    n = length (subdir (tar_path st) name) \<and> take n p = subdir (tar_path st) name"
proof (cases "tar_prefixLen st = 0")
  case True
  then show ?thesis using assms
    by (intro exI [of _ "name @ drop (length name) (tar_prefix st)"] exI [of _ "length name"]) (simp add: enterDirectory_def subdir_def tar_path_def mem_put_def)
next
  case False
  define n where "n = tar_prefixLen st"
  have n: "0 < n" "n \<le> 155" "tar_prefix st \<noteq> []" using False assms(1,2) by (auto simp: n_def)
  define p where "p = mem_put ((tar_prefix st)[n := chr CHR ''/'']) (n + 1) name"
  have "take (n + 1) ((tar_prefix st)[n := chr CHR ''/'']) = take n (tar_prefix st) @ [chr CHR ''/'']"
    using n assms(1) by (simp add: take_Suc_conv_app_nth)
  then have "take (n + 1 + length name) p = subdir (tar_path st) name" "length p = 256"
    using n assms(1,3) by (simp_all add: p_def subdir_def tar_path_def n_def [symmetric] mem_put_def)
  moreover have "length (subdir (tar_path st) name) = n + 1 + length name" using n assms(1) by (simp add: subdir_def tar_path_def n_def [symmetric])
  moreover have "enterDirectory name (length name) st = (0, st\<lparr>tar_prefix := p, tar_prefixLen := n + 1 + length name\<rparr>)"
    using n by (simp add: enterDirectory_def p_def n_def [symmetric] tar_MAX_PREFIX_LEN_def)
  ultimately show ?thesis by metis
qed

section \<open>The memory for a directory\<close>

definition tar_alloc_ok :: "nat \<Rightarrow> nat \<Rightarrow> 'w tar \<Rightarrow> bool" where
  "tar_alloc_ok k limit st \<longleftrightarrow> k < 64 \<and> limit < 2 ^ 63 \<and> unat (alloc_reserveSize (tar_alloc st)) = limit \<and> unat (alloc_size (tar_alloc st)) + 2 ^ k \<le> limit"

lemma resize_fits:
  assumes "memory_law os v" "tar_alloc_ok k limit st" "n + 2 ^ k \<le> limit"
  shows "\<exists>w'. tar_resize os (2 ^ k) n st = Some (0, st\<lparr>tar_alloc := (tar_alloc st)\<lparr>alloc_size := word_of_nat n\<rparr>, tar_world := w'\<rparr>) \<and>
    v w' = v (tar_world st) \<and> unat (word_of_nat n :: u64) = n \<and> tar_alloc_ok k limit (st\<lparr>tar_alloc := (tar_alloc st)\<lparr>alloc_size := word_of_nat n\<rparr>, tar_world := w'\<rparr>)"
proof -
  have lim: "k < 64" "limit < 2 ^ 63" "unat (alloc_reserveSize (tar_alloc st)) = limit" "unat (alloc_size (tar_alloc st)) + 2 ^ k \<le> limit"
    using assms(2) unfolding tar_alloc_ok_def by blast+
  show ?thesis using allocator_fits(1) [OF assms(1) lim assms(3), of "tar_world st"] allocator_fits(2) [OF assms(1) lim assms(3)] lim assms(3) by (auto simp: tar_resize_def tar_alloc_ok_def)
qed

text \<open>Reading the entries of the current directory, and collecting their names.\<close>

definition entry_mem :: "bytes list \<Rightarrow> nat" where
  "entry_mem ns = sum_list (map (\<lambda>n. length n + 32) ns)"

lemma entry_mem_append: "entry_mem (xs @ ys) = entry_mem xs + entry_mem ys"
  by (simp add: entry_mem_def)

lemma reclen_le: "\<forall>(r, name)\<in>set ents. 0 < r \<and> r \<le> length name + 32 \<Longrightarrow> sum_list (map fst ents) \<le> entry_mem (map snd ents)"
  by (induction ents) (auto simp: entry_mem_def)

lemma readEntries_all:
  assumes "tar_os_ok os outFd v m" "seen_fds (v (tar_world st)) (tar_currentFd st) = Some (OpenDir es ns)"
    "tar_alloc_ok k limit st" "a + entry_mem ns + 8192 + 2 ^ k \<le> limit"
  shows "\<exists>ents a' al w'. add_readEntries os (2 ^ k) acc a st = Some (Some (acc @ ents, a'), st\<lparr>tar_alloc := al, tar_world := w'\<rparr>) \<and>
    map snd ents = ns \<and> a' \<le> a + entry_mem ns \<and> tar_alloc_ok k limit (st\<lparr>tar_alloc := al, tar_world := w'\<rparr>) \<and>
    v w' = set_fd (tar_currentFd st) (Some (OpenDir es [])) (v (tar_world st))"
  using assms(2-4)
proof (induction "length ns" arbitrary: ns a acc st rule: less_induct)
  case less
  have mem: "memory_law os v" using assms(1) unfolding tar_os_ok_def by blast
  define s1 where "s1 w = st\<lparr>tar_alloc := (tar_alloc st)\<lparr>alloc_size := word_of_nat (a + 8192)\<rparr>, tar_world := w\<rparr>" for w
  obtain w1 where r: "tar_resize os (2 ^ k) (a + 8192) st = Some (0, s1 w1)" "v w1 = v (tar_world st)" "unat (word_of_nat (a + 8192) :: u64) = a + 8192"
    "tar_alloc_ok k limit (s1 w1)"
    using resize_fits [OF mem less.prems(2), of "a + 8192"] less.prems(3) unfolding s1_def by auto
  obtain n ents w2 where g: "os_getdents os (tar_currentFd st) 8192 w1 = (n, ents, w2)" by (metis prod_cases3)
  have L: "n = int (sum_list (map fst ents))" "map snd ents = take (length ents) ns" "\<forall>(r, name)\<in>set ents. 0 < r \<and> r \<le> length name + 32"
    "ents = [] \<longrightarrow> ns = []" "v w2 = set_fd (tar_currentFd st) (Some (OpenDir es (drop (length ents) ns))) (v (tar_world st))"
    using tar_lawD(3) [OF assms(1) g, of es ns] r(2) less.prems(1) by auto
  have nn: "\<not> n < 0" using L(1) by simp
  have step: "add_readEntries os (2 ^ k) acc a st =
    (if n = 0 then Some (Some (acc, a), s1 w2) else add_readEntries os (2 ^ k) (acc @ ents) (a + nat n) (s1 w2))"
    using nn r(1,3) g by (subst add_readEntries.simps) (simp add: s1_def Let_def del: of_nat_add)
  have ok2: "tar_alloc_ok k limit (s1 w2)" using r(4) by (simp add: tar_alloc_ok_def s1_def)
  show ?case
  proof (cases ents)
    case Nil
    then have "ns = []" "n = 0" using L(1,4) by simp_all
    then show ?thesis using step Nil L(5) ok2 by (auto simp: s1_def entry_mem_def intro!: exI [of _ "[]"])
  next
    case (Cons e ents')
    have "0 < n" using L(1,3) Cons by auto
    have ns: "ns = map snd ents @ drop (length ents) ns" unfolding L(2) by simp
    have le: "nat n + entry_mem (drop (length ents) ns) \<le> entry_mem ns"
      using arg_cong [OF ns, of entry_mem] reclen_le [OF L(3)] L(1) by (simp add: entry_mem_append)
    have "length (drop (length ents) ns) < length ns" using Cons arg_cong [OF ns, of length] by simp
    moreover have "seen_fds (v (tar_world (s1 w2))) (tar_currentFd (s1 w2)) = Some (OpenDir es (drop (length ents) ns))" using L(5) by (simp add: s1_def)
    ultimately obtain ents2 a' al w' where IH: "add_readEntries os (2 ^ k) (acc @ ents) (a + nat n) (s1 w2) =
        Some (Some ((acc @ ents) @ ents2, a'), (s1 w2)\<lparr>tar_alloc := al, tar_world := w'\<rparr>)"
      "map snd ents2 = drop (length ents) ns" "a' \<le> a + nat n + entry_mem (drop (length ents) ns)"
      "tar_alloc_ok k limit ((s1 w2)\<lparr>tar_alloc := al, tar_world := w'\<rparr>)" "v w' = set_fd (tar_currentFd (s1 w2)) (Some (OpenDir es [])) (v (tar_world (s1 w2)))"
      using less.hyps [of "drop (length ents) ns" "s1 w2" "a + nat n" "acc @ ents"] ok2 le less.prems(3) by auto
    show ?thesis
      by (intro exI [of _ "ents @ ents2"] exI [of _ a'] exI [of _ al] exI [of _ w'])
        (use IH step \<open>0 < n\<close> le ns L(5) in \<open>auto simp: s1_def\<close>)
  qed
qed

lemma buildNames_all:
  assumes "memory_law os v" "tar_alloc_ok k limit st" "a + 8 * length entries + 2 ^ k \<le> limit"
  defines "names \<equiv> filter (\<lambda>n. \<not> isDot n \<and> \<not> isDotDot n) (map snd entries)"
  shows "\<exists>al w'. add_buildNames os (2 ^ k) entries acc a st = Some (Some (acc @ names, a + 8 * length names), st\<lparr>tar_alloc := al, tar_world := w'\<rparr>) \<and>
    tar_alloc_ok k limit (st\<lparr>tar_alloc := al, tar_world := w'\<rparr>) \<and> v w' = v (tar_world st)"
  using assms(2,3) unfolding names_def
proof (induction entries arbitrary: acc a st)
  case Nil
  then show ?case by (intro exI [of _ "tar_alloc st"] exI [of _ "tar_world st"]) simp
next
  case (Cons e entries)
  obtain r n where e: "e = (r, n)" by fastforce
  show ?case
  proof (cases "isDot n \<or> isDotDot n")
    case True
    then show ?thesis using Cons.IH [of st a acc] Cons.prems e by auto
  next
    case False
    define s1 where "s1 w = st\<lparr>tar_alloc := (tar_alloc st)\<lparr>alloc_size := word_of_nat (a + 8)\<rparr>, tar_world := w\<rparr>" for w
    obtain w1 where "tar_resize os (2 ^ k) (a + 8) st = Some (0, s1 w1)" "v w1 = v (tar_world st)" "tar_alloc_ok k limit (s1 w1)"
      using resize_fits [OF assms(1) Cons.prems(1), of "a + 8"] Cons.prems(2) unfolding s1_def by auto
    then show ?thesis using Cons.IH [of "s1 w1" "a + 8" "acc @ [n]"] Cons.prems(2) False e by (auto simp: s1_def) blast
  qed
qed

definition entries_mem :: "(bytes \<times> node) list \<Rightarrow> nat" where
  "entries_mem es = 92 + sum_list (map (\<lambda>e. length (fst e) + 40) es)"

lemma dot_names: "cstr n \<Longrightarrow> isDot n \<or> isDotDot n \<Longrightarrow> length n \<le> 2"
  by (cases n; cases "tl n"; cases "tl (tl n)") (auto simp: isDot_def isDotDot_def cstr_def)

lemma dots_mem:
  "\<forall>n\<in>set ns. cstr n \<Longrightarrow> entry_mem ns \<le> entry_mem (filter (\<lambda>n. \<not> isDot n \<and> \<not> isDotDot n) ns) +
     34 * (length ns - length (filter (\<lambda>n. \<not> isDot n \<and> \<not> isDotDot n) ns))"
proof (induction ns)
  case (Cons n ns)
  have "length (filter (\<lambda>n. \<not> isDot n \<and> \<not> isDotDot n) ns) \<le> length ns" by simp
  then show ?case using Cons dot_names [of n] by (auto simp: entry_mem_def Suc_diff_le)
qed (simp add: entry_mem_def)

lemma newState_reads:
  assumes "tar_os_ok os outFd v m" "seen_fds (v (tar_world st)) (tar_currentFd st) = Some (OpenDir es ns)" "opens (Dir es) (OpenDir es ns)"
    "tar_alloc_ok k limit st" "a + entries_mem es + 8192 + 2 ^ k \<le> limit" "sorted_wrt (<) (map fst es)" "\<forall>n\<in>fst ` set es. cstr n"
  shows "\<exists>a' al w'. add_newState os (2 ^ k) state a st =
      Some (Inr (\<lparr>dir_names = map fst es, dir_rootFd = tar_currentFd st, dir_base = a\<rparr> # state, a'), st\<lparr>tar_alloc := al, tar_world := w'\<rparr>) \<and>
    a' \<le> a + entries_mem es \<and> tar_alloc_ok k limit (st\<lparr>tar_alloc := al, tar_world := w'\<rparr>) \<and>
    v w' = set_fd (tar_currentFd st) (Some (OpenDir es [])) (v (tar_world st))"
proof -
  define names where "names = filter (\<lambda>n. \<not> isDot n \<and> \<not> isDotDot n) ns"
  have perm: "mset names = mset (map fst es)" "length ns \<le> length es + 2" "\<forall>n\<in>set ns. cstr n" using assms(3) by (simp_all add: names_def)
  have len: "length names = length es" using perm(1) by (metis length_map size_mset)
  have "entry_mem ns \<le> entry_mem names + 34 * (length ns - length names)" unfolding names_def using perm(3) by (rule dots_mem)
  moreover have "entry_mem names = sum_list (map (\<lambda>e. length (fst e) + 32) es)"
    using arg_cong [OF perm(1), of "\<lambda>M. sum_mset (image_mset (\<lambda>n. length n + 32) M)"]
    by (simp add: entry_mem_def comp_def flip: sum_mset_sum_list mset_map)
  moreover have "sum_list (map (\<lambda>e. length (fst e) + 40) es) = sum_list (map (\<lambda>e. length (fst e) + 32) es) + 8 * length es"
    by (induction es) simp_all
  ultimately have mem: "24 + entry_mem ns + 8 * length names \<le> entries_mem es" using perm(2) len by (simp add: entries_mem_def)
  obtain ents a1 al1 w1 where r: "add_readEntries os (2 ^ k) [] (a + 24) st = Some (Some (ents, a1), st\<lparr>tar_alloc := al1, tar_world := w1\<rparr>)"
    "map snd ents = ns" "a1 \<le> a + 24 + entry_mem ns" "tar_alloc_ok k limit (st\<lparr>tar_alloc := al1, tar_world := w1\<rparr>)"
    "v w1 = set_fd (tar_currentFd st) (Some (OpenDir es [])) (v (tar_world st))"
    using readEntries_all [OF assms(1,2,4), of "a + 24" "[]"] assms(5) mem by auto
  have ml: "memory_law os v" using assms(1) unfolding tar_os_ok_def by blast
  have "length ents = length ns" using r(2) by auto
  then have fits: "a1 + 8 * length ents + 2 ^ k \<le> limit" using r(3) perm(2) len mem assms(5) by linarith
  obtain al w' where b: "add_buildNames os (2 ^ k) ents [] a1 (st\<lparr>tar_alloc := al1, tar_world := w1\<rparr>) =
      Some (Some (names, a1 + 8 * length names), st\<lparr>tar_alloc := al, tar_world := w'\<rparr>)" "tar_alloc_ok k limit (st\<lparr>tar_alloc := al, tar_world := w'\<rparr>)" "v w' = v w1"
    using buildNames_all [OF ml r(4) fits, of "[]"] unfolding r(2) names_def [symmetric] by auto
  have "\<forall>n\<in>set names. cstr n" using perm(3) by (simp add: names_def)
  moreover have "sorted (map fst es)" using assms(6) by (simp add: strict_sorted_iff)
  ultimately have "sortNames names = map fst es" using sortNames_sort perm(1) by (simp add: properties_for_sort)
  then have "add_newState os (2 ^ k) state a st = Some (Inr (\<lparr>dir_names = map fst es, dir_rootFd = tar_currentFd st, dir_base = a\<rparr> # state, a1 + 8 * length names),
      st\<lparr>tar_alloc := al, tar_world := w'\<rparr>)"
    using r(1) b(1) by (simp add: add_newState_def)
  moreover have "a1 + 8 * length names \<le> a + entries_mem es" using r(3) mem by simp
  ultimately show ?thesis using b(2,3) r(5) by auto
qed

section \<open>The archive of a tree\<close>

text \<open>
  What a tree's archive is: a record for every node, a directory before its entries, the entries in the order of their names. \<open>node_ok\<close> says
  that the tree fits the format, \<open>node_mem\<close> bounds the memory for its directory entries.
\<close>

fun node_records :: "bytes \<Rightarrow> bytes \<Rightarrow> node \<Rightarrow> bytes" where
  "node_records q name (File c) = file_record q name c"
| "node_records q name (Dir es) = dir_record q name @ concat (map (\<lambda>(n, t). node_records (subdir q name) n t) es)"

fun node_ok :: "bytes \<Rightarrow> bytes \<Rightarrow> node \<Rightarrow> bool" where
  "node_ok q name (File c) \<longleftrightarrow> name_ok name \<and> length q \<le> 155 \<and> int (length c) \<le> tar_MAX_FILE_SIZE"
| "node_ok q name (Dir es) \<longleftrightarrow> name_ok name \<and> length q \<le> 155 \<and> sorted_wrt (<) (map fst es) \<and> (\<forall>(n, t)\<in>set es. node_ok (subdir q name) n t)"

fun node_mem :: "node \<Rightarrow> nat" where
  "node_mem (File c) = 0"
| "node_mem (Dir es) = entries_mem es + sum_list (map (\<lambda>(n, t). node_mem t) es)"

definition tar_after :: "nat \<Rightarrow> nat \<Rightarrow> ('w \<Rightarrow> tar_view) \<Rightarrow> 'w tar \<Rightarrow> 'w tar \<Rightarrow> bytes \<Rightarrow> bool" where
  "tar_after k limit v st st' bs \<longleftrightarrow> tar_buffers st' \<and> tar_alloc_ok k limit st' \<and> tar_outFd st' = tar_outFd st \<and>
     tar_path st' = tar_path st \<and> v (tar_world st') = put_out (v (tar_world st)) bs"

lemma tar_after_trans: "tar_after k limit v st st1 a \<Longrightarrow> tar_after k limit v st1 st2 b \<Longrightarrow> tar_after k limit v st st2 (a @ b)"
  by (simp add: tar_after_def)

lemma node_ok_name: "node_ok q name t \<Longrightarrow> name_ok name \<and> length q \<le> 155"
  by (cases t) simp_all

lemma node_ok_names: "node_ok q name t \<Longrightarrow> names_ok t"
  using node_ok_name by (cases t) (fastforce simp: names_ok_def name_ok_def)+

lemma tar_close_fd:
  assumes "tar_os_ok os outFd v m" "seen_fds (v (tar_world st)) fd \<noteq> None"
  shows "\<exists>w'. tar_close os fd st = Some (st\<lparr>tar_world := w'\<rparr>) \<and> v w' = set_fd fd None (v (tar_world st))"
proof -
  obtain r w' where c: "os_close os fd (tar_world st) = (r, w')" by fastforce
  from tar_lawD(5) [OF assms(1) c assms(2)] show ?thesis by (auto simp: tar_close_def c)
qed

text \<open>Opening an entry: the state with its descriptor, and what the entry's mode and size are.\<close>

lemma open_entry:
  assumes "tar_os_ok os outFd v m" "seen_fds (v (tar_world st)) d = Some (OpenDir es ns)" "map_of es name = Some nd" "cstr name" "names_ok nd"
  shows "\<exists>fd w mode sz w' h. os_openat os d name O_RDONLY 0 (tar_world st) = (fd, w) \<and> 0 \<le> fd \<and> os_fstat os fd w = (0, mode, sz, w') \<and>
    seen_fds (v (tar_world st)) fd = None \<and> opens nd h \<and> v w' = set_fd fd (Some h) (v (tar_world st)) \<and> util_cstrLen (name @ [0]) = length name \<and>
    (case nd of File c \<Rightarrow> S_ISREG mode \<and> \<not> S_ISDIR mode \<and> sz = int (length c) | Dir es \<Rightarrow> S_ISDIR mode)"
proof -
  obtain fd w where o: "os_openat os d name O_RDONLY 0 (tar_world st) = (fd, w)" by fastforce
  obtain h where h: "0 \<le> fd" "seen_fds (v (tar_world st)) fd = None" "opens nd h" "v w = set_fd fd (Some h) (v (tar_world st))"
    using tar_lawD(2) [OF assms(1) o assms(2,3,5)] by blast
  obtain status mode sz w' where f: "os_fstat os fd w = (status, mode, sz, w')" by (metis prod_cases4)
  have "status = 0 \<and> v w' = v w \<and> (case h of OpenFile c p \<Rightarrow> S_ISREG mode \<and> \<not> S_ISDIR mode \<and> sz = int (length c) | OpenDir es ns \<Rightarrow> S_ISDIR mode)"
    using tar_lawD(4) [OF assms(1) f, of h] h(4) by simp
  moreover from this h(3) have "case nd of File c \<Rightarrow> S_ISREG mode \<and> \<not> S_ISDIR mode \<and> sz = int (length c) | Dir es \<Rightarrow> S_ISDIR mode"
    by (cases nd; cases h) auto
  ultimately show ?thesis using o f h cstrLen_append [OF assms(4), of "[]"]
    by (intro exI [of _ fd] exI [of _ w] exI [of _ mode] exI [of _ sz] exI [of _ w'] exI [of _ h]) simp
qed

lemma entry_file:
  assumes "tar_os_ok os (tar_outFd st) v m" "seen_fds (v (tar_world st)) d = Some (OpenDir es ns)" "map_of es name = Some (File c)"
    "tar_buffers st" "tar_alloc_ok k limit st" "node_ok (tar_path st) name (File c)"
  shows "\<exists>st'. add_entry os d name st = Some (Next_entry, st') \<and> tar_after k limit v st st' (file_record (tar_path st) name c)"
proof -
  have n: "cstr name" "length name \<le> 100" "tar_prefixLen st \<le> 155" "int (length c) \<le> tar_MAX_FILE_SIZE"
    using assms(4,6) by (simp_all add: name_ok_def tar_path_def tar_buffers_def)
  obtain fd w mode sz w1 h where 1: "os_openat os d name O_RDONLY 0 (tar_world st) = (fd, w)" "0 \<le> fd" "os_fstat os fd w = (0, mode, sz, w1)"
    "seen_fds (v (tar_world st)) fd = None" "opens (File c) h" "v w1 = set_fd fd (Some h) (v (tar_world st))" "util_cstrLen (name @ [0]) = length name"
    "S_ISREG mode \<and> \<not> S_ISDIR mode \<and> sz = int (length c)"
    using open_entry [OF assms(1-3) n(1) node_ok_names [OF assms(6)]] by auto
  define s1 where "s1 = st\<lparr>tar_currentFd := fd, tar_world := w1\<rparr>"
  obtain b w2 p where 2: "writeRecord os name (length name) (int (length c)) s1 = Some (0, s1\<lparr>tar_buffer := b, tar_world := w2\<rparr>)"
    "length b = tar_buffer_size" "v w2 = set_fd fd (Some (OpenFile c p)) (put_out (v w1) (file_record (tar_path st) name c))"
    using writeRecord_file [of os s1 v m name c] assms(1,4) n 1(5,6) by (auto simp: s1_def tar_buffers_def tar_path_def)
  define s2 where "s2 = s1\<lparr>tar_buffer := b, tar_world := w2\<rparr>"
  obtain w3 where 3: "tar_close os fd s2 = Some (s2\<lparr>tar_world := w3\<rparr>)" "v w3 = set_fd fd None (v w2)"
    using tar_close_fd [OF assms(1), of s2 fd] 2(3) by (auto simp: s2_def)
  have "add_entry os d name st = Some (Next_entry, s2\<lparr>tar_world := w3\<rparr>)"
    unfolding add_entry_def using 1 2(1) 3(1) by (simp add: s1_def s2_def)
  moreover have "tar_after k limit v st (s2\<lparr>tar_world := w3\<rparr>) (file_record (tar_path st) name c)"
    using assms(4,5) 1(4,6) 2(2,3) 3(2) by (simp add: tar_after_def tar_buffers_def tar_alloc_ok_def tar_path_def s1_def s2_def)
  ultimately show ?thesis by blast
qed

lemma entry_dir:
  assumes "tar_os_ok os (tar_outFd st) v m" "seen_fds (v (tar_world st)) d = Some (OpenDir es ns)" "map_of es name = Some (Dir ds)"
    "tar_buffers st" "tar_alloc_ok k limit st" "node_ok (tar_path st) name (Dir ds)"
  shows "\<exists>st' fd ns'. add_entry os d name st = Some (Entered_directory, st') \<and> tar_currentFd st' = fd \<and> seen_fds (v (tar_world st)) fd = None \<and>
    opens (Dir ds) (OpenDir ds ns') \<and> tar_buffers st' \<and> tar_alloc_ok k limit st' \<and> tar_outFd st' = tar_outFd st \<and> tar_path st' = subdir (tar_path st) name \<and>
    v (tar_world st') = set_fd fd (Some (OpenDir ds ns')) (put_out (v (tar_world st)) (dir_record (tar_path st) name))"
proof -
  have n: "cstr name" "length name \<le> 100" "tar_prefixLen st \<le> 155"
    using assms(4,6) by (simp_all add: name_ok_def tar_path_def tar_buffers_def)
  obtain fd w mode sz w1 h where 1: "os_openat os d name O_RDONLY 0 (tar_world st) = (fd, w)" "0 \<le> fd" "os_fstat os fd w = (0, mode, sz, w1)"
    "seen_fds (v (tar_world st)) fd = None" "opens (Dir ds) h" "v w1 = set_fd fd (Some h) (v (tar_world st))" "util_cstrLen (name @ [0]) = length name"
    "S_ISDIR mode"
    using open_entry [OF assms(1-3) n(1) node_ok_names [OF assms(6)]] by auto
  obtain ns' where h: "h = OpenDir ds ns'" using 1(5) by (cases h) auto
  define s1 where "s1 = st\<lparr>tar_currentFd := fd, tar_world := w1\<rparr>"
  obtain b w2 where 2: "writeRecord os name (length name) (-1) s1 = Some (0, s1\<lparr>tar_buffer := b, tar_world := w2\<rparr>)"
    "length b = tar_buffer_size" "v w2 = put_out (v w1) (dir_record (tar_path st) name)"
    using writeRecord_dir [of os s1 v m name] assms(1,4) n by (auto simp: s1_def tar_buffers_def tar_path_def)
  define s2 where "s2 = s1\<lparr>tar_buffer := b, tar_world := w2\<rparr>"
  have path: "tar_path s2 = tar_path st" by (simp add: s2_def s1_def tar_path_def)
  obtain p len where 3: "enterDirectory name (length name) s2 = (0, s2\<lparr>tar_prefix := p, tar_prefixLen := len\<rparr>)" "length p = 256"
    "len = length (subdir (tar_path st) name)" "take len p = subdir (tar_path st) name"
    using enter_subdir [of s2 name] n assms(4) unfolding path by (auto simp: s2_def s1_def tar_buffers_def)
  have "length (subdir (tar_path st) name) \<le> 256" using n by (simp add: subdir_def tar_path_def min_def)
  moreover have "add_entry os d name st = Some (Entered_directory, s2\<lparr>tar_prefix := p, tar_prefixLen := len\<rparr>)"
    unfolding add_entry_def using 1 2(1) 3(1) by (simp add: s1_def s2_def)
  ultimately show ?thesis using assms(4,5) 1(4-6) 2(2,3) 3 h
    by (intro exI [of _ "s2\<lparr>tar_prefix := p, tar_prefixLen := len\<rparr>"] exI [of _ fd] exI [of _ ns'])
      (simp add: tar_buffers_def tar_alloc_ok_def tar_path_def s1_def s2_def)
qed

lemma leave_entered:
  assumes "tar_buffers st" "tar_path st = subdir q name" "chr CHR ''/'' \<notin> set name"
  shows "tar_path (leaveDirectory st) = q" "tar_prefixLen (leaveDirectory st) \<le> tar_prefixLen st"
proof -
  have len: "tar_prefixLen st = length (subdir q name)" using assms(1) by (simp flip: assms(2) add: tar_path_def tar_buffers_def)
  have "tar_prefixLen (leaveDirectory st) = length q"
    using leave_subdir [of "tar_prefixLen st" "tar_prefix st" q name] assms len by (simp add: leaveDirectory_def tar_path_def tar_buffers_def)
  moreover have le: "length q \<le> tar_prefixLen st" using len by (simp add: subdir_def)
  moreover have "take (length q) (tar_path st) = q" unfolding assms(2) by (simp add: subdir_def)
  ultimately show "tar_path (leaveDirectory st) = q" "tar_prefixLen (leaveDirectory st) \<le> tar_prefixLen st"
    by (simp_all add: tar_path_def leaveDirectory_def min_absorb1)
qed

lemma node_mem_entry: "(n, t) \<in> set es \<Longrightarrow> entries_mem es + node_mem t \<le> node_mem (Dir es)"
  using member_le_sum_list [of "node_mem t" "map (\<lambda>(n, t). node_mem t) es"] by force

text \<open>
  The loop on an entry: it comes back to the same directory with the entry's records written. For a directory this is the loop on its
  entries, one after the other, between the new state and the return to the old one.
\<close>

definition dir_state :: "bytes list \<Rightarrow> int \<Rightarrow> nat \<Rightarrow> tar_dir" where
  "dir_state names rootFd base = \<lparr>dir_names = names, dir_rootFd = rootFd, dir_base = base\<rparr>"

definition handles :: "'w ix_os \<Rightarrow> ('w \<Rightarrow> tar_view) \<Rightarrow> ('w \<Rightarrow> nat) \<Rightarrow> nat \<Rightarrow> nat \<Rightarrow> node \<Rightarrow> bool" where
  "handles os v m k limit t \<longleftrightarrow> (\<forall>st d es ns name names base prev a. tar_os_ok os (tar_outFd st) v m \<and>
     seen_fds (v (tar_world st)) d = Some (OpenDir es ns) \<and> map_of es name = Some t \<and> tar_buffers st \<and> tar_alloc_ok k limit st \<and>
     node_ok (tar_path st) name t \<and> a + node_mem t + 8192 + 2 ^ k \<le> limit \<longrightarrow>
     (\<exists>st'. add_loop os (2 ^ k) (dir_state (name # names) d base # prev) a st = add_loop os (2 ^ k) (dir_state names d base # prev) a st' \<and>
       tar_after k limit v st st' (node_records (tar_path st) name t)))"

lemma handlesD:
  assumes "handles os v m k limit t" "tar_os_ok os (tar_outFd st) v m"
     "seen_fds (v (tar_world st)) d = Some (OpenDir es ns)" "map_of es name = Some t" "tar_buffers st" "tar_alloc_ok k limit st"
     "node_ok (tar_path st) name t" "a + node_mem t + 8192 + 2 ^ k \<le> limit"
  shows "\<exists>st'. add_loop os (2 ^ k) (dir_state (name # names) d base # prev) a st = add_loop os (2 ^ k) (dir_state names d base # prev) a st' \<and>
       tar_after k limit v st st' (node_records (tar_path st) name t)"
  using assms unfolding handles_def by blast

lemma handles_file: "handles os v m k limit (File c)"
  unfolding handles_def
proof (intro allI impI, elim conjE)
  fix st d es ns name names base prev a
  assume A: "tar_os_ok os (tar_outFd st) v m" "seen_fds (v (tar_world st)) d = Some (OpenDir es ns)" "map_of es name = Some (File c)"
    "tar_buffers st" "tar_alloc_ok k limit st" "node_ok (tar_path st) name (File c)"
  obtain st' where "add_entry os d name st = Some (Next_entry, st')" "tar_after k limit v st st' (file_record (tar_path st) name c)"
    using entry_file [OF A] by blast
  then show "\<exists>st'. add_loop os (2 ^ k) (dir_state (name # names) d base # prev) a st = add_loop os (2 ^ k) (dir_state names d base # prev) a st' \<and>
       tar_after k limit v st st' (node_records (tar_path st) name (File c))"
    by (intro exI [of _ st']) (subst add_loop.simps, simp add: dir_state_def)
qed

lemma handles_entries:
  assumes "\<forall>t\<in>snd ` set ds. handles os v m k limit t" "set ds \<subseteq> set es" "distinct (map fst es)" "tar_os_ok os (tar_outFd st) v m"
    "seen_fds (v (tar_world st)) d = Some (OpenDir es ns)" "tar_buffers st" "tar_alloc_ok k limit st"
    "\<forall>(n, t)\<in>set ds. node_ok (tar_path st) n t \<and> a + node_mem t + 8192 + 2 ^ k \<le> limit"
  shows "\<exists>st'. add_loop os (2 ^ k) (dir_state (map fst ds) d base # prev) a st = add_loop os (2 ^ k) (dir_state [] d base # prev) a st' \<and>
       tar_after k limit v st st' (concat (map (\<lambda>(n, t). node_records (tar_path st) n t) ds))"
  using assms(1,2,4-)
proof (induction ds arbitrary: st)
  case Nil
  then show ?case by (intro exI [of _ st]) (simp add: tar_after_def)
next
  case (Cons e ds)
  obtain n t where e: "e = (n, t)" by fastforce
  have "map_of es n = Some t" using Cons.prems(2) assms(3) e by simp
  moreover have "node_ok (tar_path st) n t" "a + node_mem t + 8192 + 2 ^ k \<le> limit" "handles os v m k limit t" using Cons.prems(1,7) e by auto
  ultimately obtain st1 where 1: "add_loop os (2 ^ k) (dir_state (n # map fst ds) d base # prev) a st = add_loop os (2 ^ k) (dir_state (map fst ds) d base # prev) a st1"
       "tar_after k limit v st st1 (node_records (tar_path st) n t)"
    using handlesD [OF _ Cons.prems(3,4) _ Cons.prems(5,6)] by blast
  then have p: "tar_path st1 = tar_path st" "tar_outFd st1 = tar_outFd st" "tar_buffers st1" "tar_alloc_ok k limit st1"
      "seen_fds (v (tar_world st1)) d = Some (OpenDir es ns)" using Cons.prems(4) unfolding tar_after_def by simp_all
  obtain st2 where 2: "add_loop os (2 ^ k) (dir_state (map fst ds) d base # prev) a st1 = add_loop os (2 ^ k) (dir_state [] d base # prev) a st2"
      "tar_after k limit v st1 st2 (concat (map (\<lambda>(n, t). node_records (tar_path st1) n t) ds))"
    using Cons.IH [of st1] Cons.prems p by auto
  have "tar_after k limit v st st2 (node_records (tar_path st) n t @ concat (map (\<lambda>(n, t). node_records (tar_path st) n t) ds))"
    using tar_after_trans [OF 1(2) 2(2)] p(1) by simp
  then show ?case using 1(1) 2(1) e by (intro exI [of _ st2]) simp
qed

lemma handles_dir:
  assumes "\<forall>t\<in>snd ` set ds. handles os v m k limit t"
  shows "handles os v m k limit (Dir ds)"
  unfolding handles_def
proof (intro allI impI, elim conjE)
  fix st d es ns name names base prev a
  assume A: "tar_os_ok os (tar_outFd st) v m" "seen_fds (v (tar_world st)) d = Some (OpenDir es ns)" "map_of es name = Some (Dir ds)"
    "tar_buffers st" "tar_alloc_ok k limit st" "node_ok (tar_path st) name (Dir ds)" "a + node_mem (Dir ds) + 8192 + 2 ^ k \<le> limit"
  let ?state = "dir_state names d base # prev"
  define q where "q = subdir (tar_path st) name"
  obtain s1 fd ns' where 1: "add_entry os d name st = Some (Entered_directory, s1)" "tar_currentFd s1 = fd" "seen_fds (v (tar_world st)) fd = None"
    "opens (Dir ds) (OpenDir ds ns')" "tar_buffers s1" "tar_alloc_ok k limit s1" "tar_outFd s1 = tar_outFd st" "tar_path s1 = q"
    "v (tar_world s1) = set_fd fd (Some (OpenDir ds ns')) (put_out (v (tar_world st)) (dir_record (tar_path st) name))"
    unfolding q_def using entry_dir [OF A(1-6)] by blast
  have ds: "sorted_wrt (<) (map fst ds)" "\<forall>(n, t)\<in>set ds. node_ok q n t" using A(6) by (simp_all add: q_def)
  have dd: "distinct (map fst ds)" using ds(1) by (simp add: strict_sorted_iff)
  have cs: "\<forall>n\<in>fst ` set ds. cstr n" using ds(2) node_ok_name by (fastforce simp: name_ok_def)
  have fit1: "a + entries_mem ds + 8192 + 2 ^ k \<le> limit" using A(7) by simp
  have o1: "seen_fds (v (tar_world s1)) (tar_currentFd s1) = Some (OpenDir ds ns')" using 1(2,9) by simp
  obtain a2 al w2 where 2: "add_newState os (2 ^ k) ?state a s1 = Some (Inr (dir_state (map fst ds) fd a # ?state, a2), s1\<lparr>tar_alloc := al, tar_world := w2\<rparr>)"
    "a2 \<le> a + entries_mem ds" "tar_alloc_ok k limit (s1\<lparr>tar_alloc := al, tar_world := w2\<rparr>)" "v w2 = set_fd fd (Some (OpenDir ds [])) (v (tar_world s1))"
    using newState_reads [OF A(1) o1 1(4,6) fit1 ds(1) cs, of ?state] 1(2) unfolding dir_state_def by auto
  define s2 where "s2 = s1\<lparr>tar_alloc := al, tar_world := w2\<rparr>"
  have s2: "tar_os_ok os (tar_outFd s2) v m" "seen_fds (v (tar_world s2)) fd = Some (OpenDir ds [])" "tar_buffers s2" "tar_alloc_ok k limit s2" "tar_path s2 = q"
    using A(1) 1(5,7,8) 2(3,4) by (simp_all add: s2_def tar_buffers_def tar_path_def)
  have fit2: "\<forall>(n, t)\<in>set ds. node_ok (tar_path s2) n t \<and> a2 + node_mem t + 8192 + 2 ^ k \<le> limit"
    using ds(2) 2(2) A(7) node_mem_entry [of _ _ ds] unfolding s2(5) by fastforce
  obtain s3 where 3: "add_loop os (2 ^ k) (dir_state (map fst ds) fd a # ?state) a2 s2 = add_loop os (2 ^ k) (dir_state [] fd a # ?state) a2 s3"
    "tar_after k limit v s2 s3 (concat (map (\<lambda>(n, t). node_records q n t) ds))"
    using handles_entries [OF assms order_refl dd s2(1-4) fit2] unfolding s2(5) by blast
  have v3: "v (tar_world s3) = set_fd fd (Some (OpenDir ds [])) (put_out (v (tar_world st)) (node_records (tar_path st) name (Dir ds)))"
    using 3(2) 1(9) 2(4) by (simp add: tar_after_def s2_def q_def)
  obtain w4 where 4: "tar_close os fd s3 = Some (s3\<lparr>tar_world := w4\<rparr>)" "v w4 = set_fd fd None (v (tar_world s3))"
    using tar_close_fd [OF A(1), of s3 fd] v3 by auto
  have v4: "v w4 = put_out (v (tar_world st)) (node_records (tar_path st) name (Dir ds))" using 1(3) 4(2) v3 by (simp del: node_records.simps)
  have st3: "tar_alloc_ok k limit s3" "tar_outFd s3 = tar_outFd st" using 3(2) 1(7) by (simp_all add: tar_after_def s2_def)
  define s4 where "s4 = leaveDirectory (s3\<lparr>tar_world := w4\<rparr>)"
  have b3: "tar_buffers (s3\<lparr>tar_world := w4\<rparr>)" "tar_path (s3\<lparr>tar_world := w4\<rparr>) = subdir (tar_path st) name"
    using 3(2) s2(5) by (simp_all add: tar_after_def tar_buffers_def tar_path_def q_def)
  have "chr CHR ''/'' \<notin> set name" using A(6) by (simp add: name_ok_def)
  note leave = leave_entered [OF b3 this, folded s4_def]
  have "tar_after k limit v st s4 (node_records (tar_path st) name (Dir ds))"
    using leave b3(1) st3 v4 by (simp add: tar_after_def s4_def leaveDirectory_def tar_buffers_def tar_alloc_ok_def del: node_records.simps)
  moreover have "add_loop os (2 ^ k) (dir_state (name # names) d base # prev) a st = add_loop os (2 ^ k) (dir_state [] fd a # ?state) a2 s3"
    unfolding 3(1) [symmetric] using 1(1) 2(1) by (subst add_loop.simps) (simp add: dir_state_def s2_def)
  moreover have "add_loop os (2 ^ k) (dir_state [] fd a # ?state) a2 s3 = add_loop os (2 ^ k) ?state a s4"
    using 4(1) by (subst add_loop.simps) (simp add: dir_state_def s4_def)
  ultimately show "\<exists>st'. add_loop os (2 ^ k) (dir_state (name # names) d base # prev) a st = add_loop os (2 ^ k) (dir_state names d base # prev) a st' \<and>
       tar_after k limit v st st' (node_records (tar_path st) name (Dir ds))"
    by (intro exI [of _ s4]) simp
qed

lemma handles_all: "handles os v m k limit t"
proof (induction t)
  case (Dir ds)
  then show ?case by (intro handles_dir) (fastforce simp: snds.simps)
qed (rule handles_file)

text \<open>
  \<open>add\<close> on a whole directory tree. On a file system that answers its calls (short reads and writes and interrupted writes included) and
  a tree that fits the format and the reserved memory, it returns 0 and has appended exactly the tree's records, each directory's entries in the
  order of their names whatever order \<open>getdents\<close> delivers; its descriptors are closed again and the path prefix is restored.
\<close>

lemma add_archives:
  assumes "tar_os_ok os (tar_outFd st) v m" "tar_buffers st" "tar_alloc_ok k limit st"
    "os_openat os AT_FDCWD path O_RDONLY 0 (tar_world st) = (fd, w)" "0 \<le> fd" "seen_fds (v (tar_world st)) fd = None"
    "v w = set_fd fd (Some (OpenDir es ns)) (v (tar_world st))" "opens (Dir es) (OpenDir es ns)"
    "sorted_wrt (<) (map fst es)" "\<forall>(n, t)\<in>set es. node_ok (tar_path st) n t" "node_mem (Dir es) + 8192 + 2 ^ k \<le> limit"
  shows "\<exists>st'. add os (2 ^ k) path st = Some (0, st') \<and> tar_after k limit v st st' (concat (map (\<lambda>(n, t). node_records (tar_path st) n t) es))"
proof -
  define s1 where "s1 = st\<lparr>tar_currentFd := fd, tar_world := w\<rparr>"
  have o1: "seen_fds (v (tar_world s1)) (tar_currentFd s1) = Some (OpenDir es ns)" and a1: "tar_alloc_ok k limit s1"
    using assms(3,7) by (simp_all add: s1_def tar_alloc_ok_def)
  have cs: "\<forall>n\<in>fst ` set es. cstr n" using assms(10) node_ok_name by (fastforce simp: name_ok_def)
  have fit1: "0 + entries_mem es + 8192 + 2 ^ k \<le> limit" using assms(11) by simp
  obtain a2 al w2 where 2: "add_newState os (2 ^ k) [] 0 s1 = Some (Inr ([dir_state (map fst es) fd 0], a2), s1\<lparr>tar_alloc := al, tar_world := w2\<rparr>)"
    "a2 \<le> entries_mem es" "tar_alloc_ok k limit (s1\<lparr>tar_alloc := al, tar_world := w2\<rparr>)" "v w2 = set_fd fd (Some (OpenDir es [])) (v w)"
    using newState_reads [OF assms(1) o1 assms(8) a1 fit1 assms(9) cs, of "[]"] by (auto simp: dir_state_def s1_def)
  define s2 where "s2 = s1\<lparr>tar_alloc := al, tar_world := w2\<rparr>"
  have s2: "tar_os_ok os (tar_outFd s2) v m" "seen_fds (v (tar_world s2)) fd = Some (OpenDir es [])" "tar_buffers s2" "tar_alloc_ok k limit s2" "tar_path s2 = tar_path st"
    using assms(1,2) 2(3,4) by (simp_all add: s2_def s1_def tar_buffers_def tar_path_def)
  have fit2: "\<forall>(n, t)\<in>set es. node_ok (tar_path s2) n t \<and> a2 + node_mem t + 8192 + 2 ^ k \<le> limit"
    using assms(10,11) 2(2) node_mem_entry [of _ _ es] unfolding s2(5) by fastforce
  have dd: "distinct (map fst es)" using assms(9) by (simp add: strict_sorted_iff)
  have all: "\<forall>t\<in>snd ` set es. handles os v m k limit t" using handles_all by blast
  obtain s3 where 3: "add_loop os (2 ^ k) [dir_state (map fst es) fd 0] a2 s2 = add_loop os (2 ^ k) [dir_state [] fd 0] a2 s3"
    "tar_after k limit v s2 s3 (concat (map (\<lambda>(n, t). node_records (tar_path st) n t) es))"
    using handles_entries [OF all order_refl dd s2(1-4) fit2] unfolding s2(5) by blast
  then have v3: "v (tar_world s3) = set_fd fd (Some (OpenDir es [])) (put_out (v (tar_world st)) (concat (map (\<lambda>(n, t). node_records (tar_path st) n t) es)))"
    using assms(7) 2(4) by (simp add: tar_after_def s2_def)
  have st3: "tar_buffers s3" "tar_alloc_ok k limit s3" "tar_outFd s3 = tar_outFd st" "tar_path s3 = tar_path st"
    using 3(2) s2(5) by (simp_all add: tar_after_def s2_def s1_def)
  obtain w4 where 4: "tar_close os fd s3 = Some (s3\<lparr>tar_world := w4\<rparr>)" "v w4 = set_fd fd None (v (tar_world s3))"
    using tar_close_fd [OF assms(1), of s3 fd] v3 by auto
  have "add os (2 ^ k) path st = add_loop os (2 ^ k) [dir_state [] fd 0] a2 s3"
    unfolding 3(1) [symmetric] using assms(4,5) 2(1) by (simp add: add_def s1_def s2_def)
  also have "\<dots> = Some (0, s3\<lparr>tar_world := w4\<rparr>)" using 4(1) by (subst add_loop.simps) (simp add: dir_state_def)
  finally show ?thesis using 4(2) v3 st3 assms(6) by (simp add: tar_after_def tar_buffers_def tar_alloc_ok_def tar_path_def)
qed

lemma finalise_ends:
  assumes "tar_os_ok os (tar_outFd st) v m" "tar_buffers st" "\<And>w. fst (os_close os (tar_outFd st) w) = 0"
    "\<And>w. seen_out (v (snd (os_close os (tar_outFd st) w))) = seen_out (v w)"
  shows "\<exists>st'. finaliseOutput os st = Some (0, st') \<and> seen_out (v (tar_world st')) = seen_out (v (tar_world st)) @ replicate 1024 0"
proof -
  define s1 where "s1 = st\<lparr>tar_buffer := mem_put (tar_buffer st) 0 (replicate 1024 0)\<rparr>"
  have "take 1024 (tar_buffer s1) = replicate 1024 0" "1024 \<le> length (tar_buffer s1)"
    using assms(2) by (simp_all add: s1_def mem_put_def tar_buffers_def tar_buffer_size_def)
  then obtain w1 where 1: "writeBuffer os 1024 s1 = Some (0, s1\<lparr>tar_world := w1\<rparr>)" "v w1 = put_out (v (tar_world st)) (replicate 1024 0)"
    using writeBuffer_appends [of os s1 v m 1024] assms(1) by (auto simp: s1_def)
  obtain r w2 where 2: "os_close os (tar_outFd st) w1 = (r, w2)" by fastforce
  have "r = 0" "seen_out (v w2) = seen_out (v w1)" using assms(3,4) [of w1] 2 by simp_all
  then show ?thesis using 1 2
    by (intro exI [of _ "s1\<lparr>tar_world := w2\<rparr>"]) (simp add: finaliseOutput_def closeOutput_def tar_close_def tar_RECORD_SIZE_def s1_def)
qed

text \<open>The program \<^verbatim>\<open>tar -o OUT -a PATH\<close> from its start.\<close>

lemma tar_program:
  assumes "tar_os_ok os outFd v m" "\<And>w. fst (os_close os outFd w) = 0" "\<And>w. seen_out (v (snd (os_close os outFd w))) = seen_out (v w)"
    "k \<le> 32" "reserve (2 ^ 32)" "os_openat os AT_FDCWD out (O_WRONLY OR O_CREAT OR O_EXCL OR O_TRUNC) 436 w0 = (outFd, w1)" "0 \<le> outFd" "seen_out (v w1) = []"
    "os_openat os AT_FDCWD path O_RDONLY 0 w1 = (fd, w2)" "0 \<le> fd" "seen_fds (v w1) fd = None"
    "v w2 = set_fd fd (Some (OpenDir es ns)) (v w1)" "opens (Dir es) (OpenDir es ns)"
    "sorted_wrt (<) (map fst es)" "\<forall>(n, t)\<in>set es. node_ok [] n t" "node_mem (Dir es) + 8192 + 2 ^ k \<le> 2 ^ 32"
  shows "\<exists>w'. tar_start os (2 ^ k) reserve [bytes_of ''-o'', out, bytes_of ''-a'', path] w0 = Some (0, w') \<and>
    seen_out (v w') = concat (map (\<lambda>(n, t). node_records [] n t) es) @ replicate 1024 0"
proof -
  have "page_end k (2 ^ 32) = 2 ^ 32"
  proof -
    have "(2::nat) ^ 32 = 2 ^ (32 - k) * 2 ^ k" using assms(4) by (simp flip: power_add)
    moreover have "(2 ^ k - 1) div 2 ^ k = (0::nat)" by (rule div_less) simp
    then have "(2 ^ (32 - k) * 2 ^ k + (2 ^ k - 1)) div 2 ^ k = (2::nat) ^ (32 - k)" 
      by (subst div_mult_self3) (simp, simp only: add_0_right)
    ultimately show ?thesis by (simp only: page_end_def)
  qed
  moreover have "(2::nat) ^ k \<le> 2 ^ 32" using assms(4) by (rule power_increasing) simp
  ultimately have align: "math_ALIGN_FORWARD (2 ^ 32 :: u64) (2 ^ k) = 2 ^ 32"
    using unat_page_end(1) [of k "2 ^ 32"] assms(4) by (intro unat_eqI) simp
  define st where "st = \<lparr>tar_buffer = replicate tar_buffer_size 0, tar_prefix = replicate (tar_MAX_PREFIX_LEN + 1 + tar_MAX_NAME_LEN) 0,
    tar_prefixLen = 0, tar_outFd = outFd, tar_currentFd = 0, tar_alloc = \<lparr>alloc_size = 0, alloc_reserveSize = 2 ^ 32\<rparr>, tar_world = w1\<rparr>"
  have st: "tar_buffers st" "tar_path st = []" "tar_alloc_ok k (2 ^ 32) st" "tar_outFd st = outFd" "tar_world st = w1"
    using assms(4,16) by (simp_all add: st_def tar_buffers_def tar_path_def tar_alloc_ok_def tar_MAX_PREFIX_LEN_def tar_MAX_NAME_LEN_def)
  obtain s1 where 1: "add os (2 ^ k) path st = Some (0, s1)" "tar_after k (2 ^ 32) v st s1 (concat (map (\<lambda>(n, t). node_records [] n t) es))"
    using add_archives [of os st v m k "2 ^ 32" path fd w2 es ns] st assms by auto
  obtain s2 where 2: "finaliseOutput os s1 = Some (0, s2)" "seen_out (v (tar_world s2)) = seen_out (v (tar_world s1)) @ replicate 1024 0"
    using finalise_ends [of os s1 v m] 1(2) st assms(1-3) by (auto simp: tar_after_def)
  have flags: "bytes_of ''-o'' = [chr CHR ''-'', chr CHR ''o'']" "bytes_of ''-a'' = [chr CHR ''-'', chr CHR ''a'']" by (simp_all add: bytes_of_def)
  have chrs: "chr CHR ''o'' \<noteq> 0" "chr CHR ''a'' \<noteq> 0" "chr CHR ''o'' \<noteq> chr CHR ''-''" "chr CHR ''a'' \<noteq> chr CHR ''-''" "chr CHR ''a'' \<noteq> chr CHR ''o''" by (simp_all add: chr_def)
  have "run os (2 ^ k) [bytes_of ''-o'', out, bytes_of ''-a'', path] (st\<lparr>tar_outFd := 0, tar_world := w0\<rparr>) = Some (0, s2)"
    using 1(1) 2(1) assms(6,7) chrs unfolding run_def flags by (simp add: run_option_def openOutput_def st_def)
  moreover have "tar_init (2 ^ k) reserve w0 = Some (st\<lparr>tar_outFd := 0, tar_world := w0\<rparr>)"
    using align assms(5) by (simp add: tar_init_def allocator_init_def st_def push_bit_eq_mult Let_def)
  ultimately show ?thesis using 2(2) 1(2) st assms(8) by (simp add: tar_start_def tar_after_def)
qed

section \<open>Descriptors\<close>

text \<open>
  The system calls with a record of the open descriptors, the latest first, whatever else they do: a successful \<open>openat\<close> adds one and
  \<open>close\<close> takes one away.
\<close>

definition traced :: "'w ix_os \<Rightarrow> ('w \<times> int list) ix_os" where
  "traced os = \<lparr>
     os_write = (\<lambda>fd b (w, fds). case os_write os fd b w of (r, w) \<Rightarrow> (r, w, fds)),
     os_read = (\<lambda>fd n (w, fds). case os_read os fd n w of (r, bs, w) \<Rightarrow> (r, bs, w, fds)),
     os_openat = (\<lambda>d p fl md (w, fds). case os_openat os d p fl md w of (r, w) \<Rightarrow> (r, w, if r < 0 then fds else r # fds)),
     os_mkdirat = (\<lambda>d p md (w, fds). case os_mkdirat os d p md w of (r, w) \<Rightarrow> (r, w, fds)),
     os_close = (\<lambda>fd (w, fds). case os_close os fd w of (r, w) \<Rightarrow> (r, w, remove1 fd fds)),
     os_getdents = (\<lambda>fd n (w, fds). case os_getdents os fd n w of (r, es, w) \<Rightarrow> (r, es, w, fds)),
     os_fstat = (\<lambda>fd (w, fds). case os_fstat os fd w of (r, md, sz, w) \<Rightarrow> (r, md, sz, w, fds)),
     os_mprotect = (\<lambda>a n (w, fds). case os_mprotect os a n w of (r, w) \<Rightarrow> (r, w, fds)),
     os_mmap_fixed = (\<lambda>a n (w, fds). case os_mmap_fixed os a n w of (r, w) \<Rightarrow> (r, w, fds))\<rparr>"

lemma bind_SomeE: "Option.bind m f = Some y \<Longrightarrow> (\<And>x. m = Some x \<Longrightarrow> f x = Some y \<Longrightarrow> R) \<Longrightarrow> R"
  by (auto simp: bind_eq_Some_conv)

lemma traced_calls:
  "os_write (traced os) fd b w = (r, w') \<Longrightarrow> snd w' = snd w" "os_read (traced os) fd n w = (k, bs, w') \<Longrightarrow> snd w' = snd w"
  "os_getdents (traced os) fd n w = (k, es, w') \<Longrightarrow> snd w' = snd w" "os_fstat (traced os) fd w = (r, md, sz, w') \<Longrightarrow> snd w' = snd w"
  "os_mprotect (traced os) a l w = (r, w') \<Longrightarrow> snd w' = snd w" "os_mmap_fixed (traced os) a l w = (same, w') \<Longrightarrow> snd w' = snd w"
  "os_openat (traced os) d p fl mo w = (r, w') \<Longrightarrow> snd w' = (if r < 0 then snd w else r # snd w)"
  "os_close (traced os) fd w = (r, w') \<Longrightarrow> snd w' = remove1 fd (snd w)"
  by (auto simp: traced_def split: prod.splits)

abbreviation fds :: "('w \<times> int list) tar \<Rightarrow> int list" where
  "fds st \<equiv> snd (tar_world st)"

lemma writeAll_fds: "util_writeAll (traced os) fd b w = Some (r, w') \<Longrightarrow> snd w' = snd w"
proof -
  assume "util_writeAll (traced os) fd b w = Some (r, w')"
  then have "traced os = traced os \<longrightarrow> snd (snd (r, w')) = snd w"
    by (rule util_writeAll.raw_induct [where P = "\<lambda>os' fd b w y. os' = traced os \<longrightarrow> snd (snd y) = snd w", rotated])
      (auto split: if_split_asm prod.split_asm dest: traced_calls elim!: bind_SomeE)
  then show ?thesis by simp
qed

lemma writeBuffer_fds: "writeBuffer (traced os) n st = Some (r, st') \<Longrightarrow> fds st' = fds st \<and> tar_currentFd st' = tar_currentFd st"
  by (auto simp: writeBuffer_def  dest: writeAll_fds elim!: bind_SomeE)

lemma readIntoBuffer_fds: "readIntoBuffer (traced os) st = (r, st') \<Longrightarrow> fds st' = fds st \<and> tar_currentFd st' = tar_currentFd st"
  by (auto simp: readIntoBuffer_def split: prod.split_asm dest: traced_calls elim!: bind_SomeE)

lemma copyContent_fds: "tar_copyContent (traced os) f t st = Some (r, st') \<Longrightarrow> fds st' = fds st \<and> tar_currentFd st' = tar_currentFd st"
proof -
  assume "tar_copyContent (traced os) f t st = Some (r, st')"
  then have "traced os = traced os \<longrightarrow> fds (snd (r, st')) = fds st \<and> tar_currentFd (snd (r, st')) = tar_currentFd st"
    by (rule tar_copyContent.raw_induct [where P = "\<lambda>os' f t st y. os' = traced os \<longrightarrow> fds (snd y) = fds st \<and> tar_currentFd (snd y) = tar_currentFd st", rotated])
      (auto split: if_split_asm prod.split_asm dest!: readIntoBuffer_fds writeBuffer_fds elim!: bind_SomeE)
  then show ?thesis by simp
qed

lemma writeRecord_fds: "writeRecord (traced os) name n sz st = Some (r, st') \<Longrightarrow> fds st' = fds st \<and> tar_currentFd st' = tar_currentFd st"
  by (auto simp: writeRecord_def Let_def  split: if_split_asm sum.split_asm prod.split_asm dest!: writeBuffer_fds copyContent_fds elim!: bind_SomeE)

lemma resize_fds: "tar_resize (traced os) ps n st = Some (r, st') \<Longrightarrow> fds st' = fds st \<and> tar_currentFd st' = tar_currentFd st"
  by (auto simp: tar_resize_def allocator_resize_def heap_commit_def heap_decommit_def Let_def  split: if_split_asm prod.split_asm dest!: traced_calls elim!: bind_SomeE)

lemma readEntries_fds: "add_readEntries (traced os) ps e a st = Some (r, st') \<Longrightarrow> fds st' = fds st \<and> tar_currentFd st' = tar_currentFd st"
proof -
  assume "add_readEntries (traced os) ps e a st = Some (r, st')"
  then have "traced os = traced os \<longrightarrow> fds (snd (r, st')) = fds st \<and> tar_currentFd (snd (r, st')) = tar_currentFd st"
    by (rule add_readEntries.raw_induct [where P = "\<lambda>os' ps e a st y. os' = traced os \<longrightarrow> fds (snd y) = fds st \<and> tar_currentFd (snd y) = tar_currentFd st", rotated])
      (auto simp: Let_def split: if_split_asm prod.split_asm dest!: resize_fds traced_calls elim!: bind_SomeE)
  then show ?thesis by simp
qed

lemma buildNames_fds: "add_buildNames (traced os) ps e ns a st = Some (r, st') \<Longrightarrow> fds st' = fds st \<and> tar_currentFd st' = tar_currentFd st"
  by (induction e arbitrary: ns a st) (auto split: if_split_asm prod.split_asm dest!: resize_fds elim!: bind_SomeE)

lemma tar_close_fds: "tar_close (traced os) fd st = Some st' \<Longrightarrow> fds st' = remove1 fd (fds st) \<and> tar_currentFd st' = tar_currentFd st"
  by (auto simp: tar_close_def  split: prod.split_asm dest!: traced_calls elim!: bind_SomeE)

lemma cleanup_rootFds_closes:
  "add_cleanup_rootFds (traced os) state st = Some (r, st') \<Longrightarrow> fds st = map dir_rootFd state @ open \<Longrightarrow> fds st' = open \<and> r = -1"
  by (induction state arbitrary: st) (auto dest!: tar_close_fds elim!: bind_SomeE)

lemma cleanup_currentFd_closes:
  "add_cleanup_currentFd (traced os) state st = Some (r, st') \<Longrightarrow> fds st = tar_currentFd st # map dir_rootFd state @ open \<Longrightarrow> fds st' = open \<and> r = -1"
  by (auto simp: add_cleanup_currentFd_def  dest!: tar_close_fds cleanup_rootFds_closes elim!: bind_SomeE)

lemma newState_fds:
  assumes "add_newState (traced os) ps state a st = Some (r, st')" "fds st = tar_currentFd st # map dir_rootFd state @ open"
  shows "case r of Inl status \<Rightarrow> fds st' = open \<and> status = -1 | Inr (state', _) \<Rightarrow> fds st' = map dir_rootFd state' @ open"
  using assms unfolding add_newState_def
  by (auto simp: Let_def split: option.split_asm dest!: readEntries_fds buildNames_fds tar_close_fds elim!: bind_SomeE cleanup_currentFd_closes cleanup_rootFds_closes)

definition exit_fds :: "add_exit \<Rightarrow> ('w \<times> int list) tar \<Rightarrow> int list" where
  "exit_fds exit st = (case exit of Cleanup_currentFd \<Rightarrow> [tar_currentFd st] | Entered_directory \<Rightarrow> [tar_currentFd st] | _ \<Rightarrow> [])"

lemma enterDirectory_fds: "enterDirectory name n st = (r, st') \<Longrightarrow> fds st' = fds st \<and> tar_currentFd st' = tar_currentFd st"
  by (auto simp: enterDirectory_def Let_def split: if_split_asm)

lemma entry_fds:
  assumes "add_entry (traced os) d name st = Some (exit, st')"
  shows "fds st' = exit_fds exit st' @ fds st"
  using assms unfolding add_entry_def exit_fds_def
  by (auto simp: Let_def split: if_split_asm prod.split_asm dest!: traced_calls writeRecord_fds tar_close_fds enterDirectory_fds elim!: bind_SomeE)

lemma add_loop_fds:
  assumes "add_loop (traced os) ps state a st = Some (r, st')" "fds st = map dir_rootFd state @ open"
  shows "fds st' = open \<and> r \<in> {0, -1}"
proof -
  define Q where "Q os' st state y \<longleftrightarrow> (\<forall>open. os' = traced os \<and> fds st = map dir_rootFd state @ open \<longrightarrow> fds (snd y) = open \<and> fst y \<in> {0, -1})"
    for os' :: "('a \<times> int list) ix_os" and st :: "('a \<times> int list) tar" and state :: "tar_dir list" and y :: "int \<times> ('a \<times> int list) tar"
  have "Q (traced os) st state (r, st')"
  proof (rule add_loop.raw_induct [where P = "\<lambda>os' ps state a st y. Q os' st state y", OF _ assms(1)])
    fix rec os' ps a st y and state :: "tar_dir list"
    assume IH: "\<And>os' ps state a st y. rec os' ps state a st = Some y \<Longrightarrow> Q os' st state y"
      and body: "(case state of [] \<Rightarrow> None
      | cur # prev \<Rightarrow>
          (case dir_names cur of
             [] \<Rightarrow> Option.bind (tar_close os' (dir_rootFd cur) st) (\<lambda>st.
               if prev = [] then Some (0, st) else rec os' ps prev (dir_base cur) (leaveDirectory st))
           | name # names \<Rightarrow>
               let state = cur\<lparr>dir_names := names\<rparr> # prev
               in Option.bind (add_entry os' (dir_rootFd cur) name st) (\<lambda>(exit, st).
                 case exit of
                   Cleanup_rootFds \<Rightarrow> add_cleanup_rootFds os' state st
                 | Cleanup_currentFd \<Rightarrow> add_cleanup_currentFd os' state st
                 | Next_entry \<Rightarrow> rec os' ps state a st
                 | Entered_directory \<Rightarrow> Option.bind (add_newState os' ps state a st) (\<lambda>(result, st).
                     case result of Inl status \<Rightarrow> Some (status, st)
                     | Inr (state, allocSize) \<Rightarrow> rec os' ps state allocSize st)))) = Some y"
    show "Q os' st state y"
      unfolding Q_def
    proof (intro allI impI, elim conjE)
      fix "open" assume os': "os' = traced os" and o: "fds st = map dir_rootFd state @ open"
      obtain cur prev where state: "state = cur # prev" using body by (cases state) auto
      show "fds (snd y) = open \<and> fst y \<in> {0, -1}"
      proof (cases "dir_names cur")
        case Nil
        then show ?thesis using body o os' unfolding state
          by (auto simp: leaveDirectory_def Q_def split: if_split_asm dest!: tar_close_fds IH elim!: bind_SomeE)
      next
        case (Cons name names)
        let ?state = "cur\<lparr>dir_names := names\<rparr> # prev"
        obtain exit s1 where e: "add_entry (traced os) (dir_rootFd cur) name st = Some (exit, s1)"
          using body Cons os' unfolding state Let_def by (auto elim!: bind_SomeE)
        have f: "fds s1 = exit_fds exit s1 @ map dir_rootFd ?state @ open" using entry_fds [OF e] o by (simp add: state)
        have b: "(case exit of Cleanup_rootFds \<Rightarrow> add_cleanup_rootFds (traced os) ?state s1
                 | Cleanup_currentFd \<Rightarrow> add_cleanup_currentFd (traced os) ?state s1
                 | Next_entry \<Rightarrow> rec (traced os) ps ?state a s1
                 | Entered_directory \<Rightarrow> Option.bind (add_newState (traced os) ps ?state a s1) (\<lambda>(result, st).
                     case result of Inl status \<Rightarrow> Some (status, st)
                     | Inr (state, allocSize) \<Rightarrow> rec (traced os) ps state allocSize st)) = Some y"
          using body Cons e unfolding state Let_def os' by simp
        obtain r s2 where y: "y = (r, s2)" by fastforce
        show ?thesis
        proof (cases exit)
          case Entered_directory
          then obtain result s3 where n: "add_newState (traced os) ps ?state a s1 = Some (result, s3)"
            "(case result of Inl status \<Rightarrow> Some (status, s3) | Inr (state, allocSize) \<Rightarrow> rec (traced os) ps state allocSize s3) = Some y"
            using b by (auto elim!: bind_SomeE)
          have "case result of Inl status \<Rightarrow> fds s3 = open \<and> status = -1 | Inr (state', _) \<Rightarrow> fds s3 = map dir_rootFd state' @ open"
            using newState_fds [OF n(1)] f Entered_directory by (simp add: exit_fds_def)
          then show ?thesis using n(2) by (auto simp: Q_def split: sum.split_asm dest!: IH)
        qed (use b f y cleanup_rootFds_closes [of os ?state s1 r s2 "open"] cleanup_currentFd_closes [of os ?state s1 r s2 "open"] in
              \<open>auto simp: exit_fds_def Q_def dest!: IH\<close>)
      qed
    qed
  qed
  then show ?thesis using assms(2) by (simp add: Q_def)
qed

section \<open>Descriptors and the order of names\<close>

text \<open>
  C13: \<open>add\<close> leaks no descriptor: whatever the system calls return, at whatever point it gives up, if it returns then exactly the descriptors
  that were open before the call are open, in the same order; and it returns 0 or -1.
\<close>
theorem tar_add_closes_descriptors:
  assumes "add (traced os) pageSize path st = Some (status, st')"
  shows "snd (tar_world st') = snd (tar_world st) \<and> status \<in> {0, -1}"
proof -
  obtain fd w where o: "os_openat (traced os) AT_FDCWD path O_RDONLY 0 (tar_world st) = (fd, w)" by (metis surj_pair)
  define s1 where "s1 = st\<lparr>tar_currentFd := fd, tar_world := w\<rparr>"
  show ?thesis
  proof (cases "fd < 0")
    case True
    then show ?thesis using assms o traced_calls(7) [OF o] by (auto simp: add_def)
  next
    case False
    then obtain result s2 where n: "add_newState (traced os) pageSize [] 0 s1 = Some (result, s2)"
      "(case result of Inl status \<Rightarrow> Some (status, s2) | Inr (state, allocSize) \<Rightarrow> add_loop (traced os) pageSize state allocSize s2) = Some (status, st')"
      using assms o by (auto simp: add_def s1_def elim!: bind_SomeE)
    have "fds s1 = tar_currentFd s1 # map dir_rootFd [] @ fds st" using traced_calls(7) [OF o] False by (simp add: s1_def)
    from newState_fds [OF n(1) this] n(2) show ?thesis by (auto split: sum.split_asm dest: add_loop_fds)
  qed
qed

text \<open>
  \<open>sortNames\<close> sorts: the result has the same names as often as before, each no greater than the next under \<open>util_cstrCmp\<close>.
\<close>
theorem tar_sortNames_correct:
  assumes "\<forall>s\<in>set names. cstr s"
  shows "mset (sortNames names) = mset names \<and> sorted_wrt (\<lambda>a b. util_cstrCmp (a @ [0]) (b @ [0]) \<le> 0) (sortNames names)"
proof -
  have le: "util_cstrCmp (a @ [0]) (b @ [0]) \<le> 0" if "cstr a" "cstr b" "a \<le> b" for a b
    using cstrCmp_neg [OF that(1,2)] cstrCmp_eq_0 [OF that(1,2)] that(3) by (auto simp: list_le_def list_less_def)
  have "sorted (sort names)" by simp
  then have "sorted_wrt (\<lambda>a b. util_cstrCmp (a @ [0]) (b @ [0]) \<le> 0) (sort names)"
    using assms by (intro sorted_wrt_mono_rel [OF _ \<open>sorted (sort names)\<close>]) (auto intro: le)
  then show ?thesis using sortNames_sort [OF assms] by simp
qed

text \<open>A system on which the path opens as descriptor 3, a directory without entries.\<close>

definition example_tar_os :: "unit ix_os" where
  "example_tar_os = \<lparr>os_write = (\<lambda>_ b w. (int (length b), w)), os_read = (\<lambda>_ _ w. (0, [], w)), os_openat = (\<lambda>_ _ _ _ w. (3, w)), os_mkdirat = (\<lambda>_ _ _ w. (0, w)),
     os_close = (\<lambda>_ w. (0, w)), os_getdents = (\<lambda>_ _ w. (0, [], w)), os_fstat = (\<lambda>_ w. (0, 0x4000, 0, w)), os_mprotect = (\<lambda>_ _ w. (0, w)), os_mmap_fixed = (\<lambda>_ _ w. (True, w))\<rparr>"

definition example_tar :: "(unit \<times> int list) tar" where
  "example_tar = \<lparr>tar_buffer = [], tar_prefix = [], tar_prefixLen = 0, tar_outFd = 1, tar_currentFd = 0,
     tar_alloc = \<lparr>alloc_size = 0, alloc_reserveSize = 0x100000000\<rparr>, tar_world = ((), [1, 0])\<rparr>"

lemma example_tar_add:
  "add (traced example_tar_os) 4096 (bytes_of ''d'') example_tar =
     Some (0, example_tar\<lparr>tar_currentFd := 3, tar_alloc := \<lparr>alloc_size = 8216, alloc_reserveSize = 0x100000000\<rparr>\<rparr>)"
  by (simp add: add_def add_newState_def add_readEntries.simps add_loop.simps tar_resize_def allocator_resize_def heap_commit_def math_ALIGN_FORWARD_def
    traced_def example_tar_os_def example_tar_def tar_close_def word_sless_alt sortNames_def CHECK_def)

theorem tar_add_closes_descriptors_witness:
  "snd (tar_world (snd (the (add (traced example_tar_os) 4096 (bytes_of ''d'') example_tar)))) = [1, 0]"
  using tar_add_closes_descriptors [OF example_tar_add] by (simp add: example_tar_add, simp add: example_tar_def)

theorem tar_sortNames_correct_witness:
  "sorted_wrt (\<lambda>a b. util_cstrCmp (a @ [0]) (b @ [0]) \<le> 0) (sortNames [bytes_of ''b'', bytes_of ''ab'', bytes_of ''a''])"
  using tar_sortNames_correct [of "[bytes_of ''b'', bytes_of ''ab'', bytes_of ''a'']"] by (simp add: cstr_def bytes_of_def chr_def)

end
