(* ===== verification/Untar.thy ===== *)
theory Untar
  imports Tar
begin

text \<open>
  The extractor: \<^verbatim>\<open>src/hc/tools/untar/common.c\<close> with its Unix half \<^verbatim>\<open>src/hc/tools/untar/ix.c\<close>. As in the archiver, the static
  variables are one state record, and \<open>None\<close> is a run that does not return.
\<close>

section \<open>The state and its system calls\<close>

record 'w untar =
  untar_buffer :: bytes
  untar_inputFd :: int
  untar_fileFd :: int
  untar_world :: 'w

text \<open>
  The C string at an offset of the buffer. A string without a terminator ends here with the buffer; the code would read on behind it.
\<close>

definition cstr_at :: "bytes \<Rightarrow> nat \<Rightarrow> bytes" where
  "cstr_at buf off = takeWhile (\<lambda>c. c \<noteq> 0) (drop off buf)"

definition openInput :: "'w ix_os \<Rightarrow> bytes \<Rightarrow> 'w untar \<Rightarrow> int \<times> 'w untar" where
  "openInput os path st =
     (if path = bytes_of ''-'' then (0, st\<lparr>untar_inputFd := 0\<rparr>)
      else case os_openat os AT_FDCWD path O_RDONLY 0 (untar_world st) of (fd, w) \<Rightarrow> (fd, st\<lparr>untar_inputFd := fd, untar_world := w\<rparr>))"

definition readInput :: "'w ix_os \<Rightarrow> 'w untar \<Rightarrow> (int \<times> 'w untar) option" where
  "readInput os st = do {
     (numRead, bs, w) \<leftarrow> util_readAll os (untar_inputFd st) tar_RECORD_SIZE (untar_world st);
     Some (if numRead \<noteq> int tar_RECORD_SIZE then -1 else 0, st\<lparr>untar_buffer := mem_put (untar_buffer st) 0 bs, untar_world := w\<rparr>)
   }"

definition untar_close :: "'w ix_os \<Rightarrow> int \<Rightarrow> 'w untar \<Rightarrow> 'w untar option" where
  "untar_close os fd st = (case os_close os fd (untar_world st) of (r, w) \<Rightarrow> do { CHECK (r = 0); Some (st\<lparr>untar_world := w\<rparr>) })"

definition closeInput :: "'w ix_os \<Rightarrow> 'w untar \<Rightarrow> 'w untar option" where
  "closeInput os st = untar_close os (untar_inputFd st) st"

text \<open>The directory that a prefix names: the current one where it is empty, else its descriptor, which is negative when it cannot be opened.\<close>

definition untar_openPrefix :: "'w ix_os \<Rightarrow> bytes \<Rightarrow> 'w untar \<Rightarrow> (int \<times> 'w untar) option" where
  "untar_openPrefix os prefix st =
     (if prefix \<noteq> [] then
        (case os_openat os AT_FDCWD prefix O_RDONLY 0 (untar_world st) of (fd, w) \<Rightarrow>
           Some (if fd < 0 then -1 else fd, st\<lparr>untar_world := w\<rparr>))
      else Some (AT_FDCWD, st))"

definition createDir :: "'w ix_os \<Rightarrow> bytes \<Rightarrow> bytes \<Rightarrow> 'w untar \<Rightarrow> (int \<times> 'w untar) option" where
  "createDir os prefix name st = do {
     (prefixFd, st) \<leftarrow> untar_openPrefix os prefix st;
     if prefix \<noteq> [] \<and> prefixFd < 0 then Some (-1, st)
     else case os_mkdirat os prefixFd name 511 (untar_world st) of (status, w) \<Rightarrow>
       let st = st\<lparr>untar_world := w\<rparr>
       in do {
         st \<leftarrow> (if prefixFd \<noteq> AT_FDCWD then untar_close os prefixFd st else Some st);
         Some (status, st)
       }
   }"

definition createFile :: "'w ix_os \<Rightarrow> bytes \<Rightarrow> bytes \<Rightarrow> 'w untar \<Rightarrow> (int \<times> 'w untar) option" where
  "createFile os prefix name st = do {
     (prefixFd, st) \<leftarrow> untar_openPrefix os prefix st;
     if prefix \<noteq> [] \<and> prefixFd < 0 then Some (-1, st)
     else case os_openat os prefixFd name (O_WRONLY OR O_CREAT OR O_EXCL OR O_TRUNC) 511 (untar_world st) of (fd, w) \<Rightarrow>
       let st = st\<lparr>untar_fileFd := fd, untar_world := w\<rparr>
       in do {
         st \<leftarrow> (if prefixFd \<noteq> AT_FDCWD then untar_close os prefixFd st else Some st);
         Some (fd, st)
       }
   }"

definition writeToFile :: "'w ix_os \<Rightarrow> nat \<Rightarrow> 'w untar \<Rightarrow> (int \<times> 'w untar) option" where
  "writeToFile os n st = do {
     (status, w) \<leftarrow> util_writeAll os (untar_fileFd st) (mem_get (untar_buffer st) 0 n) (untar_world st);
     Some (status, st\<lparr>untar_world := w\<rparr>)
   }"

definition closeFile :: "'w ix_os \<Rightarrow> 'w untar \<Rightarrow> 'w untar option" where
  "closeFile os st = untar_close os (untar_fileFd st) st"

section \<open>The archive\<close>

text \<open>The digit is an unsigned difference, so a character below 0 is as large as one above 7.\<close>

fun parseSize_loop :: "bytes \<Rightarrow> nat list \<Rightarrow> int \<Rightarrow> int" where
  "parseSize_loop buf [] sz = sz"
| "parseSize_loop buf (i # is) sz =
     (let digit = (ucast (buf ! (tar_OFFSET_SIZE + i)) :: u32) - ucast (chr CHR ''0'')
      in if digit > 7 then -1 else parseSize_loop buf is (push_bit 3 sz + uint digit))"

definition parseSize :: "bytes \<Rightarrow> int" where
  "parseSize buf = parseSize_loop buf [0..<11] 0"

text \<open>The loop that copies a file's content: what is left of the size when it ends.\<close>

partial_function (option) untar_copy :: "'w ix_os \<Rightarrow> int \<Rightarrow> 'w untar \<Rightarrow> (int \<times> 'w untar) option" where
  "untar_copy os sz st =
     (if sz > 0 then Option.bind (readInput os st) (\<lambda>(status, st).
        if status < 0 then Some (sz, st)
        else let toWrite = (if sz > 512 then 512 else sz)
          in Option.bind (writeToFile os (nat toWrite) st) (\<lambda>(status, st).
            if status < 0 then Some (sz, st) else untar_copy os (sz - toWrite) st))
      else Some (sz, st))"

partial_function (option) untar_loop :: "'w ix_os \<Rightarrow> nat \<Rightarrow> 'w untar \<Rightarrow> (int \<times> 'w untar) option" where
  "untar_loop os zeroRecordCount st =
     Option.bind (readInput os st) (\<lambda>(r, st).
       if r < 0 then Some (1, st)
       else
         let typeflag = untar_buffer st ! tar_OFFSET_TYPEFLAG
         in if typeflag = 0 then
              (if \<exists>i\<in>{0..<512}. untar_buffer st ! i \<noteq> 0 then Some (1, st)
               else if zeroRecordCount + 1 < 2 then untar_loop os (zeroRecordCount + 1) st
               else Some (0, st))
            else if zeroRecordCount > 0 then Some (1, st)
            else if typeflag = chr CHR ''5'' then
              Option.bind (createDir os (cstr_at (untar_buffer st) tar_OFFSET_PREFIX) (cstr_at (untar_buffer st) tar_OFFSET_NAME) st) (\<lambda>(r, st).
                if r < 0 then Some (1, st) else untar_loop os zeroRecordCount st)
            else if typeflag \<noteq> chr CHR ''0'' then Some (1, st)
            else let sz = parseSize (untar_buffer st)
              in if sz < 0 then Some (1, st)
                 else Option.bind (createFile os (cstr_at (untar_buffer st) tar_OFFSET_PREFIX) (cstr_at (untar_buffer st) tar_OFFSET_NAME) st) (\<lambda>(r, st).
                   if r < 0 then Some (1, st)
                   else Option.bind (untar_copy os sz st) (\<lambda>(sz, st).
                     Option.bind (closeFile os st) (\<lambda>st.
                       if sz \<noteq> 0 then Some (1, st) else untar_loop os zeroRecordCount st))))"

definition untar_start :: "'w ix_os \<Rightarrow> bytes list \<Rightarrow> 'w \<Rightarrow> (int \<times> 'w) option" where
  "untar_start os argv w =
     (if length argv \<noteq> 2 then Some (1, w)
      else case openInput os (argv ! 1) \<lparr>untar_buffer = replicate tar_RECORD_SIZE 0, untar_inputFd = 0, untar_fileFd = 0, untar_world = w\<rparr> of (status, st) \<Rightarrow>
        if status < 0 then Some (1, untar_world st)
        else do {
          (status, st) \<leftarrow> untar_loop os 0 st;
          st \<leftarrow> closeInput os st;
          Some (status, untar_world st)
        })"

section \<open>Reading a header\<close>

lemma cstr_at_field:
  assumes "drop off buf = s @ 0 # rest" "cstr s"
  shows "cstr_at buf off = s"
proof -
  have "takeWhile (\<lambda>c. c \<noteq> 0) (s @ 0 # rest) = s" using assms(2) by (induction s) (auto simp: cstr_def)
  then show ?thesis by (simp add: cstr_at_def assms(1))
qed

lemma replicate_zero_Cons: "n < k \<Longrightarrow> replicate (k - n) (0::u8) = 0 # replicate (k - n - 1) 0"
  by (cases "k - n") simp_all

lemma tar_header_fields:
  fixes typeflag :: u8 and sz :: int
  assumes "length name < 100" "length q \<le> 155" "cstr name" "cstr q"
  defines "h \<equiv> ustar_header name q typeflag sz"
  shows "h ! 156 = typeflag" "cstr_at h 0 = name" "cstr_at h 345 = q" "\<And>i. i < 11 \<Longrightarrow> h ! (124 + i) = tar_octal sz (10 - i)"
proof -
  define N c where "N = name @ replicate (100 - length name) 0" and
    "c = octal_field 7 (sum_list (map uint (ustar_fields name q typeflag sz (bytes_of ''       ''))))"
  have len: "length N = 100" "length c = 7" using assms(1) by (simp_all add: N_def c_def)
  have h: "h = N @ bytes_of ''0000777'' @ replicate 17 0 @ octal_field 11 sz @ [0] @ bytes_of ''00000000000'' @ [0] @ c @ [chr CHR '' ''] @
     [typeflag] @ replicate 100 0 @ bytes_of ''ustar'' @ [0] @ bytes_of ''00'' @ replicate 80 0 @ q @ replicate (167 - length q) 0"
    by (simp add: h_def ustar_header_def ustar_fields_def N_def c_def)
  show "h ! 156 = typeflag" unfolding h by (simp add: nth_append len)
  show "cstr_at h 0 = name"
    unfolding h N_def replicate_zero_Cons [OF assms(1)] by (rule cstr_at_field [OF _ assms(3)]) simp
  have "length q < 167" using assms(2) by simp
  from replicate_zero_Cons [OF this] have q: "drop 345 h = q @ 0 # replicate (167 - length q - 1) 0"
    unfolding h by (simp add: len drop_Cons')
  show "cstr_at h 345 = q" by (rule cstr_at_field [OF q assms(4)])
  show "h ! (124 + i) = tar_octal sz (10 - i)" if "i < 11" for i
    using that unfolding h by (simp add: nth_append len octal_field_def rev_nth)
qed

lemma octal_digit:
  assumes "0 \<le> v"
  shows "(ucast (tar_octal v i) :: u32) - ucast (chr CHR ''0'') = word_of_int (v div 8 ^ i mod 8)"
proof -
  define d where "d = v div 8 ^ i mod 8"
  have "x AND 7 = x mod 8" for x :: int using take_bit_eq_mask [of 3 x] by (simp add: take_bit_eq_mod mask_eq_exp_minus_1)
  then have "drop_bit (3 * i) v AND 7 = d" by (simp add: d_def drop_bit_eq_div power_mult)
  then have "tar_octal v i = tar_octalTable ! nat d" by (simp add: tar_octal_def)
  moreover have "d \<in> {0, 1, 2, 3, 4, 5, 6, 7}" by (auto simp: d_def)
  ultimately show ?thesis unfolding d_def [symmetric] by (auto simp: tar_octalTable_def bytes_of_def chr_def nth_Cons')
qed

lemma parseSize_digits:
  assumes "\<And>i. i < 11 \<Longrightarrow> buf ! (124 + i) = tar_octal v (10 - i)" "0 \<le> v" "v < 8 ^ 11"
  shows "parseSize buf = v"
proof -
  have "parseSize_loop buf [j..<11] (v div 8 ^ (11 - j)) = v" if "j \<le> 11" for j
    using that
  proof (induction "11 - j" arbitrary: j)
    case 0
    then show ?case by simp
  next
    case (Suc n)
    define x where "x = v div 8 ^ (10 - j)"
    have j: "j < 11" "[j..<11] = j # [Suc j..<11]" using Suc by (simp_all add: upt_conv_Cons)
    have eight: "x mod 8 \<in> {0, 1, 2, 3, 4, 5, 6, 7}" by auto
    have e: "11 - j = Suc (10 - j)" using j(1) by simp
    have "v div 8 ^ (11 - j) = x div 8" unfolding e x_def power_Suc2 by (rule zdiv_zmult2_eq) simp
    moreover have "buf ! (tar_OFFSET_SIZE + j) = tar_octal v (10 - j)" using assms(1) [OF j(1)] by (simp add: tar_OFFSET_SIZE_def)
    moreover have "uint (word_of_int (x mod 8) :: u32) = x mod 8" "\<not> (7 :: u32) < word_of_int (x mod 8)"
      using eight by auto
    moreover have "push_bit 3 (x div 8) + x mod 8 = x" by (simp add: push_bit_eq_mult)
    ultimately show ?case using Suc.hyps(1) [of "Suc j"] Suc.hyps(2) j(1) unfolding j(2)
      by (simp add: octal_digit [OF assms(2)] x_def [symmetric])
  qed
  from this [of 0] show ?thesis using assms(2,3) by (simp add: parseSize_def)
qed

section \<open>The file system that is written\<close>

text \<open>
  A path is the string with its slashes. The view shows what is left of the input, the entries that exist, and the open descriptors. The laws are those
  of \<open>openat\<close>, \<open>mkdirat\<close>, \<open>write\<close>, \<open>read\<close> and \<open>close\<close> for the calls that \<open>untar\<close> makes.
\<close>

datatype fs_entry = Is_dir | Is_file bytes

datatype untar_handle = On_dir bytes | On_file bytes | On_input

record untar_view =
  fs_input :: bytes
  fs_entries :: "bytes \<Rightarrow> fs_entry option"
  fs_fds :: "int \<Rightarrow> untar_handle option"

definition dir_path :: "untar_view \<Rightarrow> int \<Rightarrow> bytes option" where
  "dir_path x d = (if d = AT_FDCWD then Some [] else case fs_fds x d of Some (On_dir p) \<Rightarrow> Some p | _ \<Rightarrow> None)"

definition fs_put :: "bytes \<Rightarrow> fs_entry \<Rightarrow> untar_view \<Rightarrow> untar_view" where
  "fs_put p e x = x\<lparr>fs_entries := (fs_entries x)(p \<mapsto> e)\<rparr>"

definition fs_fd :: "int \<Rightarrow> untar_handle option \<Rightarrow> untar_view \<Rightarrow> untar_view" where
  "fs_fd fd h x = x\<lparr>fs_fds := (fs_fds x)(fd := h)\<rparr>"

definition fs_append :: "bytes \<Rightarrow> untar_view \<Rightarrow> bytes \<Rightarrow> untar_view" where
  "fs_append p x b = fs_put p (Is_file ((case fs_entries x p of Some (Is_file c) \<Rightarrow> c | _ \<Rightarrow> []) @ b)) x"

definition fs_adv :: "untar_view \<Rightarrow> nat \<Rightarrow> untar_view" where
  "fs_adv x n = x\<lparr>fs_input := drop n (fs_input x)\<rparr>"

definition on_file :: "int \<Rightarrow> bytes \<Rightarrow> untar_view \<Rightarrow> bool" where
  "on_file fd p x \<longleftrightarrow> fs_fds x fd = Some (On_file p) \<and> (\<exists>c. fs_entries x p = Some (Is_file c))"

definition untar_os_ok :: "'w ix_os \<Rightarrow> int \<Rightarrow> ('w \<Rightarrow> untar_view) \<Rightarrow> ('w \<Rightarrow> nat) \<Rightarrow> bool" where
  "untar_os_ok os inputFd v m \<longleftrightarrow>
     supplies os inputFd v m fs_input fs_adv (\<lambda>x. fs_fds x inputFd = Some On_input) \<and>
     (\<forall>fd p. accepts os fd v m (fs_append p) (on_file fd p)) \<and>
     (\<forall>w p fd w'. os_openat os AT_FDCWD p O_RDONLY 0 w = (fd, w') \<longrightarrow> fs_entries (v w) p = Some Is_dir \<longrightarrow>
        0 \<le> fd \<and> fs_fds (v w) fd = None \<and> v w' = fs_fd fd (Some (On_dir p)) (v w)) \<and>
     (\<forall>w d p name mode r w'. os_mkdirat os d name mode w = (r, w') \<longrightarrow> dir_path (v w) d = Some p \<longrightarrow> fs_entries (v w) (subdir p name) = None \<longrightarrow>
        r = 0 \<and> v w' = fs_put (subdir p name) Is_dir (v w)) \<and>
     (\<forall>w d p name mode fd w'. os_openat os d name (O_WRONLY OR O_CREAT OR O_EXCL OR O_TRUNC) mode w = (fd, w') \<longrightarrow> dir_path (v w) d = Some p \<longrightarrow>
        fs_entries (v w) (subdir p name) = None \<longrightarrow> 0 \<le> fd \<and> fs_fds (v w) fd = None \<and>
        v w' = fs_fd fd (Some (On_file (subdir p name))) (fs_put (subdir p name) (Is_file []) (v w))) \<and>
     (\<forall>w fd r w'. os_close os fd w = (r, w') \<longrightarrow> fs_fds (v w) fd \<noteq> None \<longrightarrow> r = 0 \<and> v w' = fs_fd fd None (v w))"

lemma untar_lawD:
  assumes "untar_os_ok os inputFd v m"
  shows "supplies os inputFd v m fs_input fs_adv (\<lambda>x. fs_fds x inputFd = Some On_input)" "accepts os fd v m (fs_append p) (on_file fd p)"
    "os_openat os AT_FDCWD p O_RDONLY 0 w = (fd, w') \<Longrightarrow> fs_entries (v w) p = Some Is_dir \<Longrightarrow>
        0 \<le> fd \<and> fs_fds (v w) fd = None \<and> v w' = fs_fd fd (Some (On_dir p)) (v w)"
    "os_mkdirat os d name mode w = (r, w') \<Longrightarrow> dir_path (v w) d = Some p \<Longrightarrow> fs_entries (v w) (subdir p name) = None \<Longrightarrow>
        r = 0 \<and> v w' = fs_put (subdir p name) Is_dir (v w)"
    "os_openat os d name (O_WRONLY OR O_CREAT OR O_EXCL OR O_TRUNC) mode w = (fd, w') \<Longrightarrow> dir_path (v w) d = Some p \<Longrightarrow>
        fs_entries (v w) (subdir p name) = None \<Longrightarrow> 0 \<le> fd \<and> fs_fds (v w) fd = None \<and>
        v w' = fs_fd fd (Some (On_file (subdir p name))) (fs_put (subdir p name) (Is_file []) (v w))"
    "os_close os fd w = (r, w') \<Longrightarrow> fs_fds (v w) fd \<noteq> None \<Longrightarrow> r = 0 \<and> v w' = fs_fd fd None (v w)"
proof -
  note L = assms [unfolded untar_os_ok_def, THEN conjunct2]
  note L3 = L [THEN conjunct2] and L4 = L [THEN conjunct2, THEN conjunct2] and L5 = L [THEN conjunct2, THEN conjunct2, THEN conjunct2]
  show "supplies os inputFd v m fs_input fs_adv (\<lambda>x. fs_fds x inputFd = Some On_input)" by (rule assms [unfolded untar_os_ok_def, THEN conjunct1])
  show "accepts os fd v m (fs_append p) (on_file fd p)" by (rule L [THEN conjunct1, rule_format])
  show "os_openat os AT_FDCWD p O_RDONLY 0 w = (fd, w') \<Longrightarrow> fs_entries (v w) p = Some Is_dir \<Longrightarrow>
        0 \<le> fd \<and> fs_fds (v w) fd = None \<and> v w' = fs_fd fd (Some (On_dir p)) (v w)"
    by (rule L3 [THEN conjunct1, rule_format])
  show "os_mkdirat os d name mode w = (r, w') \<Longrightarrow> dir_path (v w) d = Some p \<Longrightarrow> fs_entries (v w) (subdir p name) = None \<Longrightarrow>
        r = 0 \<and> v w' = fs_put (subdir p name) Is_dir (v w)"
    by (rule L4 [THEN conjunct1, rule_format])
  show "os_openat os d name (O_WRONLY OR O_CREAT OR O_EXCL OR O_TRUNC) mode w = (fd, w') \<Longrightarrow> dir_path (v w) d = Some p \<Longrightarrow>
        fs_entries (v w) (subdir p name) = None \<Longrightarrow> 0 \<le> fd \<and> fs_fds (v w) fd = None \<and>
        v w' = fs_fd fd (Some (On_file (subdir p name))) (fs_put (subdir p name) (Is_file []) (v w))"
    by (rule L5 [THEN conjunct1, rule_format])
  show "os_close os fd w = (r, w') \<Longrightarrow> fs_fds (v w) fd \<noteq> None \<Longrightarrow> r = 0 \<and> v w' = fs_fd fd None (v w)"
    by (rule L5 [THEN conjunct2, rule_format])
qed

lemma untar_view_simps [simp]:
  "fs_input (fs_put p e x) = fs_input x" "fs_input (fs_fd fd h x) = fs_input x" "fs_input (fs_adv x n) = drop n (fs_input x)"
  "fs_entries (fs_put p e x) = (fs_entries x)(p \<mapsto> e)" "fs_entries (fs_fd fd h x) = fs_entries x" "fs_entries (fs_adv x n) = fs_entries x"
  "fs_fds (fs_put p e x) = fs_fds x" "fs_fds (fs_fd fd h x) = (fs_fds x)(fd := h)" "fs_fds (fs_adv x n) = fs_fds x"
  "fs_adv (fs_adv x n) n' = fs_adv x (n + n')" "fs_adv x 0 = x" "fs_put p e (fs_put p e' x) = fs_put p e x" "fs_fd fd h (fs_fd fd h' x) = fs_fd fd h x"
  "fs_put p e (fs_fd fd h x) = fs_fd fd h (fs_put p e x)" "fs_put p e (fs_adv x n) = fs_adv (fs_put p e x) n" "fs_fd fd h (fs_adv x n) = fs_adv (fs_fd fd h x) n"
  "fs_fds x fd = h \<Longrightarrow> fs_fd fd h x = x"
  by (auto simp: fs_put_def fs_fd_def fs_adv_def add.commute intro!: ext)

lemma readInput_record:
  assumes "untar_os_ok os (untar_inputFd st) v m" "fs_fds (v (untar_world st)) (untar_inputFd st) = Some On_input" "length (untar_buffer st) = 512"
    "fs_input (v (untar_world st)) = h @ rest" "length h = 512"
  shows "\<exists>w'. readInput os st = Some (0, st\<lparr>untar_buffer := h, untar_world := w'\<rparr>) \<and> v w' = fs_adv (v (untar_world st)) 512"
proof -
  obtain w' where "util_readAll os (untar_inputFd st) 512 (untar_world st) = Some (int (min 512 (length (fs_input (v (untar_world st))))), take 512 (fs_input (v (untar_world st))), w')"
    "v w' = fs_adv (v (untar_world st)) (min 512 (length (fs_input (v (untar_world st)))))"
    using readAll_takes [OF untar_lawD(1) [OF assms(1)] assms(2), of 512] by auto
  then show ?thesis using assms(3-5) by (auto simp: readInput_def tar_RECORD_SIZE_def mem_put_def)
qed

lemma writeToFile_appends:
  assumes "untar_os_ok os inputFd v m" "on_file (untar_fileFd st) p (v (untar_world st))"
  shows "\<exists>w'. writeToFile os n st = Some (0, st\<lparr>untar_world := w'\<rparr>) \<and> v w' = fs_append p (v (untar_world st)) (take n (untar_buffer st))"
proof -
  have "\<exists>w'. util_writeAll os (untar_fileFd st) (take n (untar_buffer st)) (untar_world st) = Some (0, w') \<and> v w' = fs_append p (v (untar_world st)) (take n (untar_buffer st))"
    using assms(2) by (intro writeAll_appends [OF untar_lawD(2) [OF assms(1)]])
      (auto simp: on_file_def fs_append_def fs_put_def fun_upd_idem)
  then show ?thesis by (auto simp: writeToFile_def mem_get_def)
qed

lemma untar_close_fd:
  assumes "untar_os_ok os inputFd v m" "fs_fds (v (untar_world st)) fd \<noteq> None"
  shows "\<exists>w'. untar_close os fd st = Some (st\<lparr>untar_world := w'\<rparr>) \<and> v w' = fs_fd fd None (v (untar_world st))"
proof -
  obtain r w' where c: "os_close os fd (untar_world st) = (r, w')" by fastforce
  from untar_lawD(6) [OF assms(1) c assms(2)] show ?thesis by (auto simp: untar_close_def c)
qed

text \<open>Where a prefix is the empty string or names a directory, directories and files are created below it.\<close>

definition is_dir :: "untar_view \<Rightarrow> bytes \<Rightarrow> bool" where
  "is_dir x q \<longleftrightarrow> q = [] \<or> fs_entries x q = Some Is_dir"

lemma openPrefix_opens:
  assumes "untar_os_ok os inputFd v m" "is_dir (v (untar_world st)) q"
  shows "\<exists>d w'. untar_openPrefix os q st = Some (d, st\<lparr>untar_world := w'\<rparr>) \<and> dir_path (v w') d = Some q \<and> \<not> (q \<noteq> [] \<and> d < 0) \<and>
    (if d = AT_FDCWD then v w' = v (untar_world st) else fs_fds (v (untar_world st)) d = None \<and> v w' = fs_fd d (Some (On_dir q)) (v (untar_world st)))"
proof (cases "q = []")
  case True
  then show ?thesis by (intro exI [of _ AT_FDCWD] exI [of _ "untar_world st"]) (simp add: untar_openPrefix_def dir_path_def)
next
  case False
  obtain d w' where o: "os_openat os AT_FDCWD q O_RDONLY 0 (untar_world st) = (d, w')" by fastforce
  have "0 \<le> d \<and> fs_fds (v (untar_world st)) d = None \<and> v w' = fs_fd d (Some (On_dir q)) (v (untar_world st))"
    using untar_lawD(3) [OF assms(1) o] assms(2) False by (simp add: is_dir_def)
  then show ?thesis using o False by (intro exI [of _ d] exI [of _ w']) (auto simp: untar_openPrefix_def dir_path_def AT_FDCWD_def)
qed

lemma createDir_creates:
  assumes "untar_os_ok os inputFd v m" "is_dir (v (untar_world st)) q" "fs_entries (v (untar_world st)) (subdir q name) = None"
  shows "\<exists>w'. createDir os q name st = Some (0, st\<lparr>untar_world := w'\<rparr>) \<and> v w' = fs_put (subdir q name) Is_dir (v (untar_world st))"
proof -
  obtain d w1 where 1: "untar_openPrefix os q st = Some (d, st\<lparr>untar_world := w1\<rparr>)" "dir_path (v w1) d = Some q" "\<not> (q \<noteq> [] \<and> d < 0)"
    "if d = AT_FDCWD then v w1 = v (untar_world st) else fs_fds (v (untar_world st)) d = None \<and> v w1 = fs_fd d (Some (On_dir q)) (v (untar_world st))"
    using openPrefix_opens [OF assms(1,2)] by blast
  obtain r w2 where 2: "os_mkdirat os d name 511 w1 = (r, w2)" by fastforce
  have e: "fs_entries (v w1) (subdir q name) = None" using 1(4) assms(3) by (simp split: if_splits)
  have 3: "r = 0" "v w2 = fs_put (subdir q name) Is_dir (v w1)" using untar_lawD(4) [OF assms(1) 2 1(2) e] by simp_all
  show ?thesis
  proof (cases "d = AT_FDCWD")
    case True
    then show ?thesis using 1 2 3 by (intro exI [of _ w2]) (simp add: createDir_def)
  next
    case False
    obtain w3 where "untar_close os d (st\<lparr>untar_world := w2\<rparr>) = Some (st\<lparr>untar_world := w3\<rparr>)" "v w3 = fs_fd d None (v w2)"
      using untar_close_fd [OF assms(1), of "st\<lparr>untar_world := w2\<rparr>" d] 1(4) 3(2) False by auto
    then show ?thesis using 1 2 3 False by (intro exI [of _ w3]) (simp add: createDir_def)
  qed
qed

lemma createFile_creates:
  assumes "untar_os_ok os inputFd v m" "is_dir (v (untar_world st)) q" "fs_entries (v (untar_world st)) (subdir q name) = None"
  shows "\<exists>fd w'. createFile os q name st = Some (fd, st\<lparr>untar_fileFd := fd, untar_world := w'\<rparr>) \<and> 0 \<le> fd \<and> fs_fds (v (untar_world st)) fd = None \<and>
    v w' = fs_fd fd (Some (On_file (subdir q name))) (fs_put (subdir q name) (Is_file []) (v (untar_world st)))"
proof -
  obtain d w1 where 1: "untar_openPrefix os q st = Some (d, st\<lparr>untar_world := w1\<rparr>)" "dir_path (v w1) d = Some q" "\<not> (q \<noteq> [] \<and> d < 0)"
    "if d = AT_FDCWD then v w1 = v (untar_world st) else fs_fds (v (untar_world st)) d = None \<and> v w1 = fs_fd d (Some (On_dir q)) (v (untar_world st))"
    using openPrefix_opens [OF assms(1,2)] by blast
  obtain fd w2 where 2: "os_openat os d name (O_WRONLY OR O_CREAT OR O_EXCL OR O_TRUNC) 511 w1 = (fd, w2)" by fastforce
  have e: "fs_entries (v w1) (subdir q name) = None" using 1(4) assms(3) by (simp split: if_splits)
  have 3: "0 \<le> fd" "fs_fds (v w1) fd = None" "v w2 = fs_fd fd (Some (On_file (subdir q name))) (fs_put (subdir q name) (Is_file []) (v w1))"
    using untar_lawD(5) [OF assms(1) 2 1(2) e] by simp_all
  show ?thesis
  proof (cases "d = AT_FDCWD")
    case True
    then show ?thesis using 1 2 3 by (intro exI [of _ fd] exI [of _ w2]) (simp add: createFile_def)
  next
    case False
    then have ne: "fd \<noteq> d" using 3(2) 1(4) by auto
    obtain w3 where "untar_close os d (st\<lparr>untar_fileFd := fd, untar_world := w2\<rparr>) = Some (st\<lparr>untar_fileFd := fd, untar_world := w3\<rparr>)" "v w3 = fs_fd d None (v w2)"
      using untar_close_fd [OF assms(1), of "st\<lparr>untar_fileFd := fd, untar_world := w2\<rparr>" d] 1(4) 3(3) False ne by auto
    moreover have "fs_fd d None (v w2) = fs_fd fd (Some (On_file (subdir q name))) (fs_put (subdir q name) (Is_file []) (v (untar_world st)))"
      using 1(4) 3(3) False ne by (auto simp: fs_fd_def fs_put_def fun_upd_twist [of d fd] fun_upd_idem)
    ultimately show ?thesis using 1 2 3 False ne
      by (intro exI [of _ fd] exI [of _ w3]) (simp add: createFile_def)
  qed
qed

section \<open>Extracting\<close>

lemma pad512_small: "0 < n \<Longrightarrow> n \<le> 512 \<Longrightarrow> n + length (pad512 n) = 512"
  by (cases "n = 512") (simp_all add: pad512_def)

lemma pad512_step: "512 \<le> n \<Longrightarrow> pad512 (n - 512) = pad512 n"
  unfolding pad512_def using le_mod_geq [of 512 n] by simp

definition untar_ready :: "'w ix_os \<Rightarrow> ('w \<Rightarrow> untar_view) \<Rightarrow> ('w \<Rightarrow> nat) \<Rightarrow> 'w untar \<Rightarrow> bool" where
  "untar_ready os v m st \<longleftrightarrow> untar_os_ok os (untar_inputFd st) v m \<and> fs_fds (v (untar_world st)) (untar_inputFd st) = Some On_input \<and> length (untar_buffer st) = 512"

lemma copy_block:
  assumes "untar_ready os v m st" "on_file (untar_fileFd st) p (v (untar_world st))" "fs_input (v (untar_world st)) = block @ rest" "length block = 512"
    "0 < sz" "n = min 512 (nat sz)"
  shows "\<exists>b w'. untar_copy os sz st = untar_copy os (sz - int n) (st\<lparr>untar_buffer := b, untar_world := w'\<rparr>) \<and>
    untar_ready os v m (st\<lparr>untar_buffer := b, untar_world := w'\<rparr>) \<and> v w' = fs_adv (fs_append p (v (untar_world st)) (take n block)) 512"
proof -
  note R = assms(1) [unfolded untar_ready_def]
  obtain w1 where 1: "readInput os st = Some (0, st\<lparr>untar_buffer := block, untar_world := w1\<rparr>)" "v w1 = fs_adv (v (untar_world st)) 512"
    using readInput_record [of os st v m block rest] assms(3,4) R by blast
  define s1 where "s1 = st\<lparr>untar_buffer := block, untar_world := w1\<rparr>"
  have "on_file (untar_fileFd s1) p (v (untar_world s1))" using assms(2) 1(2) by (simp add: s1_def on_file_def)
  then obtain w2 where 2: "writeToFile os n s1 = Some (0, s1\<lparr>untar_world := w2\<rparr>)" "v w2 = fs_append p (v w1) (take n block)"
    using writeToFile_appends [of os _ v m s1 p n] R by (auto simp: s1_def)
  have v2: "v w2 = fs_adv (fs_append p (v (untar_world st)) (take n block)) 512" using 1(2) 2(2) by (simp add: fs_append_def)
  have n: "nat (if 512 < sz then 512 else sz) = n" "(if 512 < sz then 512 else sz) = int n" using assms(5,6) by auto
  have "untar_copy os sz st = untar_copy os (sz - int n) (s1\<lparr>untar_world := w2\<rparr>)"
    using assms(5) 1(1) 2(1) n by (subst untar_copy.simps) (simp add: s1_def [symmetric] Let_def)
  then show ?thesis using R v2 assms(4)
    by (intro exI [of _ block] exI [of _ w2]) (simp add: s1_def untar_ready_def fs_append_def)
qed

lemma copy_content:
  assumes "untar_ready os v m st" "fs_fds (v (untar_world st)) (untar_fileFd st) = Some (On_file p)" "fs_entries (v (untar_world st)) p = Some (Is_file c0)"
    "fs_input (v (untar_world st)) = c @ pad512 (length c) @ rest"
  shows "\<exists>b w'. untar_copy os (int (length c)) st = Some (0, st\<lparr>untar_buffer := b, untar_world := w'\<rparr>) \<and>
    untar_ready os v m (st\<lparr>untar_buffer := b, untar_world := w'\<rparr>) \<and>
    v w' = fs_adv (fs_put p (Is_file (c0 @ c)) (v (untar_world st))) (length c + length (pad512 (length c)))"
  using assms
proof (induction "length c" arbitrary: c c0 st rule: less_induct)
  case less
  consider "c = []" | "c \<noteq> []" "length c \<le> 512" | "512 < length c" by fastforce
  then show ?case
  proof cases
    case 1
    then show ?thesis using less.prems
      by (subst untar_copy.simps) (auto simp: pad512_def fs_put_def fun_upd_idem intro!: exI [of _ "untar_buffer st"] exI [of _ "untar_world st"])
  next
    case 2
    have on: "on_file (untar_fileFd st) p (v (untar_world st))" using less.prems(2,3) by (simp add: on_file_def)
    have len: "length (c @ pad512 (length c)) = 512" using pad512_small [of "length c"] 2 by simp
    obtain b w' where "untar_copy os (int (length c)) st = untar_copy os 0 (st\<lparr>untar_buffer := b, untar_world := w'\<rparr>)"
      "untar_ready os v m (st\<lparr>untar_buffer := b, untar_world := w'\<rparr>)" "v w' = fs_adv (fs_append p (v (untar_world st)) c) 512"
      using copy_block [OF less.prems(1) on _ len, of rest "int (length c)" "length c"] less.prems(4) 2 by auto
    moreover have "untar_copy os 0 s = Some (0, s)" for s by (subst untar_copy.simps) simp
    ultimately show ?thesis using less.prems(3) len by (auto simp: fs_append_def)
  next
    case 3
    have on: "on_file (untar_fileFd st) p (v (untar_world st))" using less.prems(2,3) by (simp add: on_file_def)
    define c' where "c' = drop 512 c"
    have c: "c = take 512 c @ c'" "length c' = length c - 512" "c \<noteq> []" using 3 by (auto simp: c'_def)
    obtain b w1 where 1: "untar_copy os (int (length c)) st = untar_copy os (int (length c')) (st\<lparr>untar_buffer := b, untar_world := w1\<rparr>)"
      "untar_ready os v m (st\<lparr>untar_buffer := b, untar_world := w1\<rparr>)" "v w1 = fs_adv (fs_append p (v (untar_world st)) (take 512 c)) 512"
      using copy_block [OF less.prems(1) on, of "take 512 c" "c' @ pad512 (length c) @ rest" "int (length c)" 512] less.prems(4) 3 c
      by (auto simp: of_nat_diff)
    have lt: "length c' < length c" using 3 c(2) by linarith
    have pad: "pad512 (length c') = pad512 (length c)" using pad512_step [of "length c"] 3 c(2) by simp
    have in1: "fs_input (v w1) = c' @ pad512 (length c') @ rest" using less.prems(4) c 3 unfolding 1(3) pad by (simp add: fs_append_def c'_def)
    obtain b' w2 where 2: "untar_copy os (int (length c')) (st\<lparr>untar_buffer := b, untar_world := w1\<rparr>) = Some (0, st\<lparr>untar_buffer := b', untar_world := w2\<rparr>)"
      "untar_ready os v m (st\<lparr>untar_buffer := b', untar_world := w2\<rparr>)"
      "v w2 = fs_adv (fs_put p (Is_file ((c0 @ take 512 c) @ c')) (v w1)) (length c' + length (pad512 (length c')))"
      using less.hyps [of c' "st\<lparr>untar_buffer := b, untar_world := w1\<rparr>" "c0 @ take 512 c"] 1(2,3) less.prems(2,3) in1 lt by (auto simp: fs_append_def)
    moreover have "512 + (length c' + length (pad512 (length c'))) = length c + length (pad512 (length c))" using pad 3 c(2) by simp
    ultimately show ?thesis using 1 c(1) less.prems(3) by (auto simp: fs_append_def)
  qed
qed

text \<open>The entries of a tree, a directory before what is in it; no two have the same path.\<close>

fun node_entries :: "bytes \<Rightarrow> bytes \<Rightarrow> node \<Rightarrow> (bytes \<times> fs_entry) list" where
  "node_entries q name (File c) = [(subdir q name, Is_file c)]"
| "node_entries q name (Dir es) = (subdir q name, Is_dir) # concat (map (\<lambda>(n, t). node_entries (subdir q name) n t) es)"

definition tree_entries :: "bytes \<Rightarrow> (bytes \<times> node) list \<Rightarrow> (bytes \<times> fs_entry) list" where
  "tree_entries q es = concat (map (\<lambda>(n, t). node_entries q n t) es)"

lemma node_entries_Dir: "node_entries q name (Dir es) = (subdir q name, Is_dir) # tree_entries (subdir q name) es"
  by (simp add: tree_entries_def)

declare node_entries.simps(2) [simp del]

lemma in_tree_entries:
  assumes "p \<in> fst ` set (tree_entries q es)"
  obtains n t where "(n, t) \<in> set es" "p \<in> fst ` set (node_entries q n t)"
proof -
  obtain e where e: "e \<in> set (tree_entries q es)" "p = fst e" using assms by blast
  then obtain n t where "(n, t) \<in> set es" "e \<in> set (node_entries q n t)" by (auto simp: tree_entries_def)
  then show thesis using that e(2) by blast
qed

definition below :: "bytes \<Rightarrow> bool" where
  "below r \<longleftrightarrow> r = [] \<or> hd r = chr CHR ''/''"

lemma node_paths:
  assumes "node_ok q name t" "p \<in> fst ` set (node_entries q name t)"
  shows "\<exists>r. p = subdir q name @ r \<and> below r"
  using assms
proof (induction t arbitrary: q name p)
  case (Dir es)
  then have "p = subdir q name \<or> p \<in> fst ` set (tree_entries (subdir q name) es)" by (auto simp: node_entries_Dir)
  then consider "p = subdir q name" | n t where "(n, t) \<in> set es" "p \<in> fst ` set (node_entries (subdir q name) n t)"
    using in_tree_entries by metis
  then show ?case
  proof cases
    case 2
    then have "node_ok (subdir q name) n t" using Dir.prems(1) by auto
    with Dir.IH [of "(n, t)" t "subdir q name" n p] 2 obtain r where "p = subdir (subdir q name) n @ r" by auto
    moreover have "subdir q name \<noteq> []" using Dir.prems(1) by (simp add: name_ok_def subdir_def)
    ultimately show ?thesis by (intro exI [of _ "chr CHR ''/'' # n @ r"]) (simp add: below_def subdir_def [of "subdir q name"])
  qed (auto simp: below_def)
qed (simp add: below_def)

lemma name_of_path:
  assumes "chr CHR ''/'' \<notin> set n" "below r"
  shows "takeWhile (\<lambda>c. c \<noteq> chr CHR ''/'') (n @ r) = n"
  using assms by (induction n) (cases r; auto simp: below_def)+

lemma sibling_paths:
  assumes "subdir q n1 @ r1 = subdir q n2 @ r2" "chr CHR ''/'' \<notin> set n1" "chr CHR ''/'' \<notin> set n2" "below r1" "below r2"
  shows "n1 = n2"
proof -
  have "n1 @ r1 = n2 @ r2" using assms(1) by (simp add: subdir_def split: if_splits)
  then show ?thesis using name_of_path [OF assms(2,4)] name_of_path [OF assms(3,5)] by metis
qed

lemma tree_entries_Cons: "tree_entries q ((n, t) # es) = node_entries q n t @ tree_entries q es"
  by (simp add: tree_entries_def)

lemma tree_paths:
  assumes "\<forall>(n, t)\<in>set es. node_ok q n t" "p \<in> fst ` set (tree_entries q es)"
  shows "\<exists>n r. n \<in> fst ` set es \<and> p = subdir q n @ r \<and> below r \<and> name_ok n"
proof -
  obtain n t where nt: "(n, t) \<in> set es" "p \<in> fst ` set (node_entries q n t)" by (rule in_tree_entries [OF assms(2)])
  then have "node_ok q n t" using assms(1) by blast
  then show ?thesis using node_paths [OF _ nt(2)] nt(1) node_ok_name [of q n t] by force
qed

lemma distinct_tree:
  assumes "\<forall>(n, t)\<in>set es. node_ok q n t \<and> distinct (map fst (node_entries q n t))" "distinct (map fst es)"
  shows "distinct (map fst (tree_entries q es))"
  using assms
proof (induction es)
  case (Cons e es)
  obtain n t where e: "e = (n, t)" by fastforce
  have ok: "node_ok q n t" "\<forall>(n, t)\<in>set es. node_ok q n t" "n \<notin> fst ` set es" using Cons.prems e by auto
  have "fst ` set (node_entries q n t) \<inter> fst ` set (tree_entries q es) = {}"
  proof (rule ccontr)
    assume "fst ` set (node_entries q n t) \<inter> fst ` set (tree_entries q es) \<noteq> {}"
    then obtain p where p: "p \<in> fst ` set (node_entries q n t)" "p \<in> fst ` set (tree_entries q es)" by blast
    obtain r where r: "p = subdir q n @ r" "below r" using node_paths [OF ok(1) p(1)] by blast
    obtain n' r' where r': "n' \<in> fst ` set es" "p = subdir q n' @ r'" "below r'" "name_ok n'" using tree_paths [OF ok(2) p(2)] by blast
    have "n = n'" using sibling_paths [of q n r n' r'] r r' node_ok_name [OF ok(1)] by (simp add: name_ok_def)
    then show False using ok(3) r'(1) by simp
  qed
  then show ?case using Cons e by (simp add: tree_entries_Cons)
qed (simp add: tree_entries_def)

lemma distinct_node: "node_ok q name t \<Longrightarrow> distinct (map fst (node_entries q name t))"
proof (induction t arbitrary: q name)
  case (Dir es)
  let ?q = "subdir q name"
  have ok: "\<forall>(n, t)\<in>set es. node_ok ?q n t" and ne: "?q \<noteq> []" using Dir.prems by (simp_all add: name_ok_def subdir_def)
  have "\<forall>(n, t)\<in>set es. node_ok ?q n t \<and> distinct (map fst (node_entries ?q n t))" using ok Dir.IH by fastforce
  then have "distinct (map fst (tree_entries ?q es))" using Dir.prems by (intro distinct_tree) (simp_all add: strict_sorted_iff)
  moreover have "?q \<notin> fst ` set (tree_entries ?q es)" using tree_paths [OF ok, of ?q] ne by (auto simp: subdir_def [of ?q])
  ultimately show ?case by (simp add: node_entries_Dir)
qed simp

definition fs_puts :: "(bytes \<times> fs_entry) list \<Rightarrow> untar_view \<Rightarrow> untar_view" where
  "fs_puts es x = fold (\<lambda>(p, e). fs_put p e) es x"

lemma fs_puts_simps [simp]: "fs_puts [] x = x" "fs_puts ((p, e) # es) x = fs_puts es (fs_put p e x)" "fs_puts (as @ bs) x = fs_puts bs (fs_puts as x)"
  by (simp_all add: fs_puts_def)

lemma fs_puts_view [simp]:
  "fs_input (fs_puts es x) = fs_input x" "fs_fds (fs_puts es x) = fs_fds x" "fs_puts es (fs_adv x n) = fs_adv (fs_puts es x) n"
  by (induction es arbitrary: x) auto

lemma fs_puts_entries: "distinct (map fst es) \<Longrightarrow> fs_entries (fs_puts es x) = fs_entries x ++ map_of es"
proof (induction es arbitrary: x)
  case (Cons e es)
  then show ?case by (cases e) (auto simp: map_add_def fun_eq_iff map_of_eq_None_iff image_iff split: option.splits)
qed simp

definition extracted :: "'w ix_os \<Rightarrow> ('w \<Rightarrow> untar_view) \<Rightarrow> ('w \<Rightarrow> nat) \<Rightarrow> 'w untar \<Rightarrow> 'w untar \<Rightarrow> (bytes \<times> fs_entry) list \<Rightarrow> nat \<Rightarrow> bool" where
  "extracted os v m st st' es n \<longleftrightarrow> untar_loop os 0 st = untar_loop os 0 st' \<and> untar_ready os v m st' \<and> untar_inputFd st' = untar_inputFd st \<and>
     v (untar_world st') = fs_adv (fs_puts es (v (untar_world st))) n"

lemma extracted_trans: "extracted os v m st st1 as n \<Longrightarrow> extracted os v m st1 st2 bs k \<Longrightarrow> extracted os v m st st2 (as @ bs) (n + k)"
  by (simp add: extracted_def)

lemma read_header:
  assumes "untar_ready os v m st" "fs_input (v (untar_world st)) = ustar_header name q typeflag sz @ rest" "name_ok name" "length q \<le> 155" "cstr q"
  shows "\<exists>h w'. readInput os st = Some (0, st\<lparr>untar_buffer := h, untar_world := w'\<rparr>) \<and> v w' = fs_adv (v (untar_world st)) 512 \<and>
    length h = 512 \<and> h ! 156 = typeflag \<and> cstr_at h 0 = name \<and> cstr_at h 345 = q \<and> (0 \<le> sz \<and> sz < 8 ^ 11 \<longrightarrow> parseSize h = sz)"
proof -
  have n: "length name < 100" "cstr name" using assms(3) by (simp_all add: name_ok_def)
  note H = tar_header_fields [OF n(1) assms(4) n(2) assms(5), where typeflag = typeflag and sz = sz]
  have len: "length (ustar_header name q typeflag sz) = 512" using n assms(4) by simp
  obtain w' where "readInput os st = Some (0, st\<lparr>untar_buffer := ustar_header name q typeflag sz, untar_world := w'\<rparr>)" "v w' = fs_adv (v (untar_world st)) 512"
    using readInput_record [of os st v m "ustar_header name q typeflag sz" rest] assms(1,2) len unfolding untar_ready_def by blast
  then show ?thesis using H len parseSize_digits [OF H(4)] by blast
qed

lemma typeflags: "chr CHR ''0'' \<noteq> 0" "chr CHR ''5'' \<noteq> 0" "chr CHR ''0'' \<noteq> chr CHR ''5''"
  by (simp_all add: chr_def)

lemma extract_dir:
  assumes "untar_ready os v m st" "fs_input (v (untar_world st)) = dir_record q name @ rest" "name_ok name" "length q \<le> 155" "cstr q"
    "is_dir (v (untar_world st)) q" "fs_entries (v (untar_world st)) (subdir q name) = None"
  shows "\<exists>st'. extracted os v m st st' [(subdir q name, Is_dir)] 512"
proof -
  obtain h w1 where 1: "readInput os st = Some (0, st\<lparr>untar_buffer := h, untar_world := w1\<rparr>)" "v w1 = fs_adv (v (untar_world st)) 512"
    "length h = 512" "h ! 156 = chr CHR ''5''" "cstr_at h 0 = name" "cstr_at h 345 = q"
    using read_header [OF assms(1) assms(2) [unfolded dir_record_def] assms(3-5)] by blast
  define s1 where "s1 = st\<lparr>untar_buffer := h, untar_world := w1\<rparr>"
  have law: "untar_os_ok os (untar_inputFd st) v m" using assms(1) by (simp add: untar_ready_def)
  obtain w2 where 2: "createDir os q name s1 = Some (0, s1\<lparr>untar_world := w2\<rparr>)" "v w2 = fs_put (subdir q name) Is_dir (v w1)"
    using createDir_creates [OF law, of s1 q name] assms(6,7) 1(2) by (auto simp: s1_def is_dir_def)
  have "untar_loop os 0 st = untar_loop os 0 (s1\<lparr>untar_world := w2\<rparr>)"
    using 1 2(1) typeflags by (subst untar_loop.simps) (simp add: tar_layout s1_def)
  then show ?thesis using assms(1) 1(2,3) 2(2) by (intro exI [of _ "s1\<lparr>untar_world := w2\<rparr>"]) (simp add: extracted_def untar_ready_def s1_def)
qed

lemma extract_file:
  assumes "untar_ready os v m st" "fs_input (v (untar_world st)) = file_record q name c @ rest" "name_ok name" "length q \<le> 155" "cstr q"
    "is_dir (v (untar_world st)) q" "fs_entries (v (untar_world st)) (subdir q name) = None" "int (length c) \<le> tar_MAX_FILE_SIZE"
  shows "\<exists>st'. extracted os v m st st' [(subdir q name, Is_file c)] (length (file_record q name c))"
proof -
  have sz: "0 \<le> int (length c) \<and> int (length c) < 8 ^ 11" using assms(8) by (simp add: tar_MAX_FILE_SIZE_def)
  have input: "fs_input (v (untar_world st)) = ustar_header name q (chr CHR ''0'') (int (length c)) @ c @ pad512 (length c) @ rest"
    using assms(2) by (simp add: file_record_def)
  obtain h w1 where 1: "readInput os st = Some (0, st\<lparr>untar_buffer := h, untar_world := w1\<rparr>)" "v w1 = fs_adv (v (untar_world st)) 512"
    "length h = 512" "h ! 156 = chr CHR ''0''" "cstr_at h 0 = name" "cstr_at h 345 = q" "parseSize h = int (length c)"
    using read_header [OF assms(1) input assms(3-5)] sz by blast
  define s1 where "s1 = st\<lparr>untar_buffer := h, untar_world := w1\<rparr>"
  have law: "untar_os_ok os (untar_inputFd st) v m" using assms(1) by (simp add: untar_ready_def)
  obtain fd w2 where 2: "createFile os q name s1 = Some (fd, s1\<lparr>untar_fileFd := fd, untar_world := w2\<rparr>)" "0 \<le> fd" "fs_fds (v w1) fd = None"
    "v w2 = fs_fd fd (Some (On_file (subdir q name))) (fs_put (subdir q name) (Is_file []) (v w1))"
    using createFile_creates [OF law, of s1 q name] assms(6,7) 1(2) by (auto simp: s1_def is_dir_def)
  define s2 where "s2 = s1\<lparr>untar_fileFd := fd, untar_world := w2\<rparr>"
  have ne: "fd \<noteq> untar_inputFd st" using 2(3) 1(2) assms(1) by (auto simp: untar_ready_def)
  have len: "length (ustar_header name q (chr CHR ''0'') (int (length c))) = 512" using assms(3,4) by (simp add: name_ok_def)
  have r2: "untar_ready os v m s2" "fs_input (v (untar_world s2)) = c @ pad512 (length c) @ rest"
    using assms(1) ne 1(2,3) 2(4) input len by (simp_all add: untar_ready_def s2_def s1_def)
  obtain b w3 where 3: "untar_copy os (int (length c)) s2 = Some (0, s2\<lparr>untar_buffer := b, untar_world := w3\<rparr>)" "untar_ready os v m (s2\<lparr>untar_buffer := b, untar_world := w3\<rparr>)"
    "v w3 = fs_adv (fs_put (subdir q name) (Is_file c) (v w2)) (length c + length (pad512 (length c)))"
    using copy_content [OF r2(1) _ _ r2(2), of "subdir q name" "[]"] 2(4) by (auto simp: s2_def)
  define s3 where "s3 = s2\<lparr>untar_buffer := b, untar_world := w3\<rparr>"
  obtain w4 where 4: "closeFile os s3 = Some (s3\<lparr>untar_world := w4\<rparr>)" "v w4 = fs_fd fd None (v w3)"
    using untar_close_fd [OF law, of s3 fd] 2(4) 3(3) by (auto simp: closeFile_def s3_def s2_def)
  have v4: "v w4 = fs_adv (fs_put (subdir q name) (Is_file c) (v (untar_world st))) (512 + (length c + length (pad512 (length c))))"
    using 4(2) 3(3) 2(3,4) 1(2) by simp
  have "untar_loop os 0 st = untar_loop os 0 (s3\<lparr>untar_world := w4\<rparr>)"
    using 1(1,4-7) 2(1,2) 3(1) 4(1) typeflags by (subst untar_loop.simps) (simp add: tar_layout s1_def s2_def s3_def)
  then show ?thesis using assms(1) 3(2) v4 len
    by (intro exI [of _ "s3\<lparr>untar_world := w4\<rparr>"]) (simp add: extracted_def untar_ready_def s3_def s2_def s1_def file_record_def)
qed

definition extracts :: "'w ix_os \<Rightarrow> ('w \<Rightarrow> untar_view) \<Rightarrow> ('w \<Rightarrow> nat) \<Rightarrow> node \<Rightarrow> bool" where
  "extracts os v m t \<longleftrightarrow> (\<forall>st q name rest. untar_ready os v m st \<and> fs_input (v (untar_world st)) = node_records q name t @ rest \<and> node_ok q name t \<and> cstr q \<and>
     is_dir (v (untar_world st)) q \<and> (\<forall>p\<in>fst ` set (node_entries q name t). fs_entries (v (untar_world st)) p = None) \<longrightarrow>
     (\<exists>st'. extracted os v m st st' (node_entries q name t) (length (node_records q name t))))"

lemma extractsD:
  "extracts os v m t \<Longrightarrow> untar_ready os v m st \<Longrightarrow> fs_input (v (untar_world st)) = node_records q name t @ rest \<Longrightarrow> node_ok q name t \<Longrightarrow> cstr q \<Longrightarrow>
     is_dir (v (untar_world st)) q \<Longrightarrow> \<forall>p\<in>fst ` set (node_entries q name t). fs_entries (v (untar_world st)) p = None \<Longrightarrow>
     \<exists>st'. extracted os v m st st' (node_entries q name t) (length (node_records q name t))"
  unfolding extracts_def by blast

definition tree_records :: "bytes \<Rightarrow> (bytes \<times> node) list \<Rightarrow> bytes" where
  "tree_records q es = concat (map (\<lambda>(n, t). node_records q n t) es)"

lemma extract_entries:
  assumes "\<forall>t\<in>snd ` set es. extracts os v m t" "untar_ready os v m st" "fs_input (v (untar_world st)) = tree_records q es @ rest"
    "\<forall>(n, t)\<in>set es. node_ok q n t" "distinct (map fst es)" "cstr q" "is_dir (v (untar_world st)) q"
    "\<forall>p\<in>fst ` set (tree_entries q es). fs_entries (v (untar_world st)) p = None"
  shows "\<exists>st'. extracted os v m st st' (tree_entries q es) (length (tree_records q es))"
  using assms
proof (induction es arbitrary: st)
  case Nil
  then show ?case by (intro exI [of _ st]) (simp add: extracted_def tree_entries_def tree_records_def)
next
  case (Cons e es)
  obtain n t where e: "e = (n, t)" by fastforce
  have ok: "node_ok q n t" "\<forall>(n, t)\<in>set es. node_ok q n t" using Cons.prems(4) e by auto
  have split: "tree_records q (e # es) = node_records q n t @ tree_records q es" "tree_entries q (e # es) = node_entries q n t @ tree_entries q es"
    by (simp_all add: e tree_records_def tree_entries_Cons)
  have "distinct (map fst (tree_entries q (e # es)))" using Cons.prems(4,5) distinct_node by (intro distinct_tree) auto
  then have disj: "fst ` set (node_entries q n t) \<inter> fst ` set (tree_entries q es) = {}" "distinct (map fst (node_entries q n t))"
    unfolding split(2) by simp_all
  have x: "extracts os v m t" using Cons.prems(1) e by simp
  have "fs_input (v (untar_world st)) = node_records q n t @ tree_records q es @ rest" "\<forall>p\<in>fst ` set (node_entries q n t). fs_entries (v (untar_world st)) p = None"
    using Cons.prems(3,8) unfolding split by auto
  from extractsD [OF x Cons.prems(2) this(1) ok(1) Cons.prems(6,7) this(2)] obtain s1 where 1: "extracted os v m st s1 (node_entries q n t) (length (node_records q n t))" by blast
  from 1 have v1: "untar_ready os v m s1" "v (untar_world s1) = fs_adv (fs_puts (node_entries q n t) (v (untar_world st))) (length (node_records q n t))"
    by (simp_all add: extracted_def)
  have ent: "fs_entries (v (untar_world s1)) = fs_entries (v (untar_world st)) ++ map_of (node_entries q n t)"
    using v1(2) disj(2) by (simp add: fs_puts_entries)
  have fresh: "\<forall>p\<in>fst ` set (tree_entries q es). fs_entries (v (untar_world s1)) p = None"
    using Cons.prems(8) disj(1) unfolding ent split(2) by (auto simp: map_add_None map_of_eq_None_iff)
  have dir: "is_dir (v (untar_world s1)) q"
  proof (cases "q = []")
    case False
    then have q: "fs_entries (v (untar_world st)) q = Some Is_dir" using Cons.prems(7) by (simp add: is_dir_def)
    then have "q \<notin> fst ` set (node_entries q n t)" using Cons.prems(8) unfolding split(2) by force
    then show ?thesis using q by (simp add: is_dir_def ent map_add_def map_of_eq_None_iff [THEN iffD2])
  qed (simp add: is_dir_def)
  have "\<exists>st'. extracted os v m s1 st' (tree_entries q es) (length (tree_records q es))"
    using Cons.prems(1,3,5,6) ok(2) v1 dir fresh by (intro Cons.IH) (auto simp: split)
  then obtain s2 where "extracted os v m s1 s2 (tree_entries q es) (length (tree_records q es))" by blast
  from extracted_trans [OF 1 this] show ?case unfolding split by (intro exI [of _ s2]) simp
qed

lemma extracts_all: "extracts os v m t"
proof (induction t)
  case (File c)
  show ?case unfolding extracts_def
  proof (intro allI impI, elim conjE)
    fix st q name rest
    assume A: "untar_ready os v m st" "fs_input (v (untar_world st)) = node_records q name (File c) @ rest" "node_ok q name (File c)" "cstr q"
      "is_dir (v (untar_world st)) q" "\<forall>p\<in>fst ` set (node_entries q name (File c)). fs_entries (v (untar_world st)) p = None"
    then show "\<exists>st'. extracted os v m st st' (node_entries q name (File c)) (length (node_records q name (File c)))"
      using extract_file [OF A(1) A(2) [unfolded node_records.simps] _ _ A(4,5)] by simp
  qed
next
  case (Dir es)
  have IH: "\<forall>t\<in>snd ` set es. extracts os v m t" using Dir by (fastforce simp: snds.simps)
  show ?case unfolding extracts_def
  proof (intro allI impI, elim conjE)
    fix st q name rest
    assume A: "untar_ready os v m st" "fs_input (v (untar_world st)) = node_records q name (Dir es) @ rest" "node_ok q name (Dir es)" "cstr q"
      "is_dir (v (untar_world st)) q" "\<forall>p\<in>fst ` set (node_entries q name (Dir es)). fs_entries (v (untar_world st)) p = None"
    let ?q = "subdir q name"
    have rec: "node_records q name (Dir es) = dir_record q name @ tree_records ?q es" by (simp add: tree_records_def)
    have ok: "name_ok name" "length q \<le> 155" "\<forall>(n, t)\<in>set es. node_ok ?q n t" "distinct (map fst es)" using A(3) by (simp_all add: strict_sorted_iff)
    have len: "length (dir_record q name) = 512" using ok by (simp add: dir_record_def name_ok_def)
    obtain s1 where 1: "extracted os v m st s1 [(?q, Is_dir)] 512"
      using extract_dir [OF A(1) _ ok(1,2) A(4,5), of "tree_records ?q es @ rest"] A(2,6) rec by (auto simp: node_entries_Dir)
    then have v1: "untar_ready os v m s1" "v (untar_world s1) = fs_adv (fs_put ?q Is_dir (v (untar_world st))) 512" by (simp_all add: extracted_def)
    have "?q \<notin> fst ` set (tree_entries ?q es)" using distinct_node [OF A(3)] by (simp add: node_entries_Dir)
    then have "\<forall>p\<in>fst ` set (tree_entries ?q es). fs_entries (v (untar_world s1)) p = None" using A(6) v1(2) by (force simp: node_entries_Dir)
    moreover have "cstr ?q" using A(4) ok(1) by (auto simp: subdir_def cstr_def name_ok_def chr_def)
    moreover have "fs_input (v (untar_world s1)) = tree_records ?q es @ rest" using v1(2) A(2) rec len by simp
    ultimately obtain s2 where "extracted os v m s1 s2 (tree_entries ?q es) (length (tree_records ?q es))"
      using extract_entries [OF IH v1(1) _ ok(3,4), of rest] v1(2) by (auto simp: is_dir_def)
    from extracted_trans [OF 1 this] show "\<exists>st'. extracted os v m st st' (node_entries q name (Dir es)) (length (node_records q name (Dir es)))"
      using len unfolding rec node_entries_Dir by (intro exI [of _ s2]) simp
  qed
qed

section \<open>The end of the archive\<close>

lemma end_of_archive:
  assumes "untar_ready os v m st" "fs_input (v (untar_world st)) = replicate 1024 0 @ rest"
  shows "\<exists>b w'. untar_loop os 0 st = Some (0, st\<lparr>untar_buffer := b, untar_world := w'\<rparr>) \<and> v w' = fs_adv (v (untar_world st)) 1024"
proof -
  let ?z = "replicate 512 (0::u8)"
  have z: "replicate 1024 (0::u8) = ?z @ ?z" by (simp flip: replicate_add)
  obtain w1 where 1: "readInput os st = Some (0, st\<lparr>untar_buffer := ?z, untar_world := w1\<rparr>)" "v w1 = fs_adv (v (untar_world st)) 512"
    using readInput_record [of os st v m ?z "?z @ rest"] assms unfolding untar_ready_def z by auto
  define s1 where "s1 = st\<lparr>untar_buffer := ?z, untar_world := w1\<rparr>"
  obtain w2 where 2: "readInput os s1 = Some (0, st\<lparr>untar_buffer := ?z, untar_world := w2\<rparr>)" "v w2 = fs_adv (v w1) 512"
    using readInput_record [of os s1 v m ?z rest] assms 1(2) unfolding untar_ready_def z by (auto simp: s1_def)
  have "untar_loop os 0 st = untar_loop os (Suc 0) s1" using 1(1) by (subst untar_loop.simps) (simp add: tar_layout s1_def)
  also have "\<dots> = Some (0, st\<lparr>untar_buffer := ?z, untar_world := w2\<rparr>)" using 2(1) by (subst untar_loop.simps) (simp add: tar_layout)
  finally show ?thesis using 1(2) 2(2) by auto
qed

text \<open>
  The program \<^verbatim>\<open>untar ARCHIVE\<close> on the archive of a tree: it returns 0 and has created exactly the tree's entries, where none existed before.
\<close>

lemma untar_program:
  assumes "untar_os_ok os fd v m" "argv = [prog, path]" "path \<noteq> bytes_of ''-''" "os_openat os AT_FDCWD path O_RDONLY 0 w = (fd, w1)" "0 \<le> fd"
    "fs_fds (v w) fd = None" "v w1 = (fs_fd fd (Some On_input) (v w))\<lparr>fs_input := tree_records [] es @ replicate 1024 0\<rparr>"
    "sorted_wrt (<) (map fst es)" "\<forall>(n, t)\<in>set es. node_ok [] n t" "\<forall>p\<in>fst ` set (tree_entries [] es). fs_entries (v w) p = None"
  shows "\<exists>w'. untar_start os argv w = Some (0, w') \<and> fs_entries (v w') = fs_entries (v w) ++ map_of (tree_entries [] es) \<and> fs_fds (v w') = fs_fds (v w)"
proof -
  define st where "st = \<lparr>untar_buffer = replicate 512 0, untar_inputFd = fd, untar_fileFd = 0, untar_world = w1\<rparr>"
  have ready: "untar_ready os v m st" using assms(1,7) by (simp add: st_def untar_ready_def fs_fd_def)
  have dd: "distinct (map fst es)" using assms(8) by (simp add: strict_sorted_iff)
  have v1: "fs_entries (v w1) = fs_entries (v w)" "fs_input (v w1) = tree_records [] es @ replicate 1024 0" "fs_fds (v w1) = (fs_fds (v w))(fd \<mapsto> On_input)"
    using assms(7) by (simp_all add: fs_fd_def)
  have "\<forall>t\<in>snd ` set es. extracts os v m t" using extracts_all by blast
  then obtain s1 where 1: "extracted os v m st s1 (tree_entries [] es) (length (tree_records [] es))"
    using extract_entries [OF _ ready _ assms(9) dd, of "replicate 1024 0"] v1 assms(10) by (auto simp: st_def is_dir_def cstr_def)
  then have e1: "untar_loop os 0 st = untar_loop os 0 s1" "untar_ready os v m s1" "untar_inputFd s1 = fd"
    "v (untar_world s1) = fs_adv (fs_puts (tree_entries [] es) (v w1)) (length (tree_records [] es))"
    by (simp_all add: extracted_def st_def)
  obtain b w2 where 2: "untar_loop os 0 s1 = Some (0, s1\<lparr>untar_buffer := b, untar_world := w2\<rparr>)" "v w2 = fs_adv (v (untar_world s1)) 1024"
    using end_of_archive [OF e1(2), of "[]"] e1(4) v1 by auto
  define s2 where "s2 = s1\<lparr>untar_buffer := b, untar_world := w2\<rparr>"
  obtain w3 where 3: "untar_close os fd s2 = Some (s2\<lparr>untar_world := w3\<rparr>)" "v w3 = fs_fd fd None (v w2)"
    using untar_close_fd [OF assms(1), of s2 fd] 2(2) e1(4) v1(3) by (auto simp: s2_def)
  have "untar_start os argv w = Some (0, w3)"
    using assms(2-5) e1(1,3) 2(1) 3(1) by (simp add: untar_start_def openInput_def closeInput_def st_def s2_def tar_RECORD_SIZE_def)
  moreover have "distinct (map fst (tree_entries [] es))" using assms(9) dd distinct_node by (intro distinct_tree) auto
  ultimately show ?thesis using 3(2) 2(2) e1(4) v1 assms(6) by (simp add: fs_puts_entries fun_upd_idem)
qed

section \<open>Names of 100 characters\<close>



end
