(* ===== verification/TarRoundtrip.thy ===== *)
theory TarRoundtrip
  imports Untar
begin

text \<open>
  The archiver and the extractor together: what \<^verbatim>\<open>tar -o OUT -a PATH\<close> writes, \<^verbatim>\<open>untar\<close> turns back into the same tree. Two small file systems, one
  for each program, show that the laws the theorem assumes of the system calls can hold.
\<close>

section \<open>Descriptor tables\<close>

definition fresh_fd :: "(int \<times> 'h) list \<Rightarrow> int" where
  "fresh_fd l = fold (\<lambda>(fd, _). max (fd + 1)) l 3"

definition drop_fd :: "int \<Rightarrow> (int \<times> 'h) list \<Rightarrow> (int \<times> 'h) list" where
  "drop_fd fd l = filter (\<lambda>(k, _). k \<noteq> fd) l"

lemma fold_max_ge: "n \<le> fold (\<lambda>(fd, _). max (fd + 1)) l (n :: int)"
proof (induction l arbitrary: n)
  case (Cons e l)
  obtain k h where "e = (k, h)" by fastforce
  then show ?case using Cons.IH [of "max (k + 1) n"] by simp
qed simp

lemma fold_max_gt: "(fd, h) \<in> set l \<Longrightarrow> fd < fold (\<lambda>(fd, _). max (fd + 1)) l (n :: int)"
proof (induction l arbitrary: n)
  case (Cons e l)
  obtain k h' where e: "e = (k, h')" by fastforce
  show ?case
  proof (cases "(fd, h) = e")
    case True
    then show ?thesis using fold_max_ge [of "max (k + 1) n" l] e by auto
  qed (use Cons e in auto)
qed simp

lemma fresh_fd: "3 \<le> fresh_fd l" "map_of l (fresh_fd l) = None"
proof -
  show "3 \<le> fresh_fd l" unfolding fresh_fd_def by (rule fold_max_ge)
  show "map_of l (fresh_fd l) = None"
    using fold_max_gt [of "fresh_fd l" _ l 3] unfolding fresh_fd_def [symmetric] by (force simp: map_of_eq_None_iff)
qed

lemma map_of_drop_fd: "map_of (drop_fd fd l) = (map_of l)(fd := None)"
  by (induction l) (auto simp: drop_fd_def fun_eq_iff)

section \<open>A file system to archive\<close>

record tar_disk =
  disk_out :: bytes
  disk_fds :: "(int \<times> tar_handle) list"
  disk_root :: node

definition tar_disk_view :: "tar_disk \<Rightarrow> tar_view" where
  "tar_disk_view w = \<lparr>seen_out = disk_out w, seen_fds = map_of (disk_fds w)\<rparr>"

definition handle_of :: "node \<Rightarrow> tar_handle" where
  "handle_of nd = (case nd of File c \<Rightarrow> OpenFile c 0 | Dir es \<Rightarrow> OpenDir es (bytes_of ''.'' # map fst es @ [bytes_of ''..'']))"

definition disk_open :: "node \<Rightarrow> tar_disk \<Rightarrow> int \<times> tar_disk" where
  "disk_open nd w = (fresh_fd (disk_fds w), w\<lparr>disk_fds := (fresh_fd (disk_fds w), handle_of nd) # disk_fds w\<rparr>)"

text \<open>Reads return up to seven bytes, \<open>getdents\<close> everything; the output is descriptor 2.\<close>

definition tar_disk_os :: "tar_disk ix_os" where
  "tar_disk_os = \<lparr>
     os_write = (\<lambda>fd b w. (int (length b), w\<lparr>disk_out := disk_out w @ b\<rparr>)),
     os_read = (\<lambda>fd n w. case map_of (disk_fds w) fd of
        Some (OpenFile c p) \<Rightarrow> let k = min (min 7 n) (length c - p)
          in (int k, take k (drop p c), w\<lparr>disk_fds := (fd, OpenFile c (p + k)) # disk_fds w\<rparr>)
      | _ \<Rightarrow> (-9, [], w)),
     os_openat = (\<lambda>d p fl md w.
        case map_of (disk_fds w) d of
          Some (OpenDir es ns) \<Rightarrow> (case map_of es p of Some nd \<Rightarrow> disk_open nd w | None \<Rightarrow> (-2, w))
        | _ \<Rightarrow> if d = AT_FDCWD then if fl = O_RDONLY then disk_open (disk_root w) w else (2, w) else (-9, w)),
     os_mkdirat = (\<lambda>d p md w. (-1, w)),
     os_close = (\<lambda>fd w. (0, w\<lparr>disk_fds := drop_fd fd (disk_fds w)\<rparr>)),
     os_getdents = (\<lambda>d n w. case map_of (disk_fds w) d of
        Some (OpenDir es ns) \<Rightarrow> let ents = map (\<lambda>n. (length n + 24, n)) ns
          in (int (sum_list (map fst ents)), ents, w\<lparr>disk_fds := (d, OpenDir es []) # disk_fds w\<rparr>)
      | _ \<Rightarrow> (-9, [], w)),
     os_fstat = (\<lambda>fd w. case map_of (disk_fds w) fd of
        Some (OpenFile c p) \<Rightarrow> (0, 0x81A4, int (length c), w)
      | Some (OpenDir es ns) \<Rightarrow> (0, 0x41ED, 4096, w)
      | None \<Rightarrow> (-9, 0, 0, w)),
     os_mprotect = (\<lambda>a n w. (0, w)),
     os_mmap_fixed = (\<lambda>a n w. (True, w))\<rparr>"

lemma opens_handle: "names_ok nd \<Longrightarrow> opens nd (handle_of nd)"
proof (cases nd)
  case (Dir es)
  assume "names_ok nd"
  then have "filter (\<lambda>n. \<not> isDot n \<and> \<not> isDotDot n) (map fst es) = map fst es" "\<forall>n\<in>set (map fst es). cstr n"
    using Dir by (auto simp: names_ok_def filter_id_conv)
  then show ?thesis using Dir
    by (simp add: handle_of_def isDot_def isDotDot_def bytes_of_def chr_def cstr_def del: filter_map set_map)
qed (simp add: handle_of_def)

lemma tar_disk_ok: "tar_os_ok tar_disk_os 2 tar_disk_view (\<lambda>_. 0)"
  unfolding tar_os_ok_def
proof (intro conjI)
  show "accepts tar_disk_os 2 tar_disk_view (\<lambda>_. 0) put_out (\<lambda>_. True)"
    by (simp add: accepts_def tar_disk_os_def tar_disk_view_def put_out_def)
  show "read_law tar_disk_os tar_disk_view"
    by (auto simp: read_law_def tar_disk_os_def tar_disk_view_def set_fd_def Let_def min_def)
  show "open_law tar_disk_os tar_disk_view"
    unfolding open_law_def
  proof (intro allI impI, elim conjE)
    fix w d es ns name nd
    assume A: "seen_fds (tar_disk_view w) d = Some (OpenDir es ns)" "map_of es name = Some nd" "names_ok nd"
    then have "os_openat tar_disk_os d name O_RDONLY 0 w = disk_open nd w" by (simp add: tar_disk_os_def tar_disk_view_def)
    then show "case os_openat tar_disk_os d name O_RDONLY 0 w of (fd, w') \<Rightarrow>
        0 \<le> fd \<and> seen_fds (tar_disk_view w) fd = None \<and> (\<exists>h. opens nd h \<and> tar_disk_view w' = set_fd fd (Some h) (tar_disk_view w))"
      using opens_handle [OF A(3)] fresh_fd [of "disk_fds w"]
      by (auto simp: disk_open_def tar_disk_view_def set_fd_def intro!: exI [of _ "handle_of nd"])
  qed
  show "getdents_law tar_disk_os tar_disk_view"
    by (auto simp: getdents_law_def tar_disk_os_def tar_disk_view_def set_fd_def Let_def comp_def)
  show "fstat_law tar_disk_os tar_disk_view"
    by (auto simp: fstat_law_def tar_disk_os_def tar_disk_view_def S_ISDIR_def S_ISREG_def S_IFMT_def split: tar_handle.splits)
  show "close_law tar_disk_os tar_disk_view"
    by (auto simp: close_law_def tar_disk_os_def tar_disk_view_def set_fd_def map_of_drop_fd)
  show "memory_law tar_disk_os tar_disk_view"
    by (simp add: memory_law_def tar_disk_os_def)
qed

section \<open>A file system to extract to\<close>

record untar_disk =
  disk_archive :: bytes
  disk_input :: bytes
  disk_entries :: "(bytes \<times> fs_entry) list"
  disk_open_fds :: "(int \<times> untar_handle) list"

definition untar_disk_view :: "untar_disk \<Rightarrow> untar_view" where
  "untar_disk_view w = \<lparr>fs_input = disk_input w, fs_entries = map_of (disk_entries w), fs_fds = map_of (disk_open_fds w)\<rparr>"

definition disk_add_fd :: "untar_handle \<Rightarrow> untar_disk \<Rightarrow> int \<times> untar_disk" where
  "disk_add_fd h w = (fresh_fd (disk_open_fds w), w\<lparr>disk_open_fds := (fresh_fd (disk_open_fds w), h) # disk_open_fds w\<rparr>)"

text \<open>A path that is not a directory opens as the archive; a write takes up to three bytes.\<close>

definition untar_disk_os :: "untar_disk ix_os" where
  "untar_disk_os = \<lparr>
     os_write = (\<lambda>fd b w. case map_of (disk_open_fds w) fd of
        Some (On_file p) \<Rightarrow> (case map_of (disk_entries w) p of
          Some (Is_file c) \<Rightarrow> let k = min 3 (length b) in (int k, w\<lparr>disk_entries := (p, Is_file (c @ take k b)) # disk_entries w\<rparr>)
        | _ \<Rightarrow> (-5, w))
      | _ \<Rightarrow> (-9, w)),
     os_read = (\<lambda>fd n w. if map_of (disk_open_fds w) fd = Some On_input
        then let k = min n (length (disk_input w)) in (int k, take k (disk_input w), w\<lparr>disk_input := drop k (disk_input w)\<rparr>) else (-9, [], w)),
     os_openat = (\<lambda>d p fl md w.
        if fl = O_RDONLY then
          if map_of (disk_entries w) p = Some Is_dir then disk_add_fd (On_dir p) w
          else disk_add_fd On_input (w\<lparr>disk_input := disk_archive w\<rparr>)
        else case dir_path (untar_disk_view w) d of
          Some q \<Rightarrow> disk_add_fd (On_file (subdir q p)) (w\<lparr>disk_entries := (subdir q p, Is_file []) # disk_entries w\<rparr>)
        | None \<Rightarrow> (-9, w)),
     os_mkdirat = (\<lambda>d p md w. case dir_path (untar_disk_view w) d of
          Some q \<Rightarrow> (0, w\<lparr>disk_entries := (subdir q p, Is_dir) # disk_entries w\<rparr>)
        | None \<Rightarrow> (-9, w)),
     os_close = (\<lambda>fd w. (0, w\<lparr>disk_open_fds := drop_fd fd (disk_open_fds w)\<rparr>)),
     os_getdents = (\<lambda>d n w. (-9, [], w)),
     os_fstat = (\<lambda>fd w. (-9, 0, 0, w)),
     os_mprotect = (\<lambda>a n w. (0, w)),
     os_mmap_fixed = (\<lambda>a n w. (True, w))\<rparr>"

lemma untar_disk_ok: "untar_os_ok untar_disk_os inputFd untar_disk_view (\<lambda>_. 0)"
  unfolding untar_os_ok_def
proof (intro conjI)
  show "supplies untar_disk_os inputFd untar_disk_view (\<lambda>_. 0) fs_input fs_adv (\<lambda>x. fs_fds x inputFd = Some On_input)"
    by (auto simp: supplies_def untar_disk_os_def untar_disk_view_def fs_adv_def Let_def min_def)
  show "\<forall>fd p. accepts untar_disk_os fd untar_disk_view (\<lambda>_. 0) (fs_append p) (on_file fd p)"
    by (auto simp: accepts_def untar_disk_os_def untar_disk_view_def on_file_def fs_append_def fs_put_def Let_def min_def)
  show "\<forall>w p fd w'. os_openat untar_disk_os AT_FDCWD p O_RDONLY 0 w = (fd, w') \<longrightarrow> fs_entries (untar_disk_view w) p = Some Is_dir \<longrightarrow>
        0 \<le> fd \<and> fs_fds (untar_disk_view w) fd = None \<and> untar_disk_view w' = fs_fd fd (Some (On_dir p)) (untar_disk_view w)"
  proof (intro allI impI)
    fix w p fd w'
    show "os_openat untar_disk_os AT_FDCWD p O_RDONLY 0 w = (fd, w') \<Longrightarrow> fs_entries (untar_disk_view w) p = Some Is_dir \<Longrightarrow>
        0 \<le> fd \<and> fs_fds (untar_disk_view w) fd = None \<and> untar_disk_view w' = fs_fd fd (Some (On_dir p)) (untar_disk_view w)"
      using fresh_fd [of "disk_open_fds w"] by (auto simp: untar_disk_os_def untar_disk_view_def disk_add_fd_def fs_fd_def)
  qed
  show "\<forall>w d p name mode r w'. os_mkdirat untar_disk_os d name mode w = (r, w') \<longrightarrow> dir_path (untar_disk_view w) d = Some p \<longrightarrow>
        fs_entries (untar_disk_view w) (subdir p name) = None \<longrightarrow> r = 0 \<and> untar_disk_view w' = fs_put (subdir p name) Is_dir (untar_disk_view w)"
    by (auto simp: untar_disk_os_def untar_disk_view_def fs_put_def)
  show "\<forall>w d p name mode fd w'. os_openat untar_disk_os d name (O_WRONLY OR O_CREAT OR O_EXCL OR O_TRUNC) mode w = (fd, w') \<longrightarrow> dir_path (untar_disk_view w) d = Some p \<longrightarrow>
        fs_entries (untar_disk_view w) (subdir p name) = None \<longrightarrow> 0 \<le> fd \<and> fs_fds (untar_disk_view w) fd = None \<and>
        untar_disk_view w' = fs_fd fd (Some (On_file (subdir p name))) (fs_put (subdir p name) (Is_file []) (untar_disk_view w))"
  proof (intro allI impI)
    fix w d p name mode fd w'
    show "os_openat untar_disk_os d name (O_WRONLY OR O_CREAT OR O_EXCL OR O_TRUNC) mode w = (fd, w') \<Longrightarrow> dir_path (untar_disk_view w) d = Some p \<Longrightarrow>
        fs_entries (untar_disk_view w) (subdir p name) = None \<Longrightarrow> 0 \<le> fd \<and> fs_fds (untar_disk_view w) fd = None \<and>
        untar_disk_view w' = fs_fd fd (Some (On_file (subdir p name))) (fs_put (subdir p name) (Is_file []) (untar_disk_view w))"
      using fresh_fd [of "disk_open_fds w"]
      by (auto simp: untar_disk_os_def untar_disk_view_def disk_add_fd_def fs_fd_def fs_put_def O_WRONLY_def O_CREAT_def O_EXCL_def O_TRUNC_def O_RDONLY_def)
  qed
  show "\<forall>w fd r w'. os_close untar_disk_os fd w = (r, w') \<longrightarrow> fs_fds (untar_disk_view w) fd \<noteq> None \<longrightarrow> r = 0 \<and> untar_disk_view w' = fs_fd fd None (untar_disk_view w)"
    by (auto simp: untar_disk_os_def untar_disk_view_def fs_fd_def map_of_drop_fd)
qed

section \<open>The round trip\<close>

text \<open>
  C5: Archiving and extracting is the identity on trees. Let \<^verbatim>\<open>tar -o OUT -a PATH\<close> run on a system whose calls follow their documentation, reads and
  writes being as short as they like, with a tree at \<open>PATH\<close> whose names and sizes fit the format. Then it exits with 0, and wherever \<^verbatim>\<open>untar\<close> is
  given the bytes it wrote, on a system on which none of the paths exists, it exits with 0 as well, with exactly the directories and files of the tree
  created, the files with their contents, and no descriptor left open.
\<close>
theorem tar_untar_roundtrip:
  assumes "tar_os_ok os outFd v m" "\<And>w. fst (os_close os outFd w) = 0" "\<And>w. seen_out (v (snd (os_close os outFd w))) = seen_out (v w)"
    "k \<le> 32" "reserve (2 ^ 32)" "os_openat os AT_FDCWD out (O_WRONLY OR O_CREAT OR O_EXCL OR O_TRUNC) 436 w0 = (outFd, w1)" "0 \<le> outFd" "seen_out (v w1) = []"
    "os_openat os AT_FDCWD path O_RDONLY 0 w1 = (fd, w2)" "0 \<le> fd" "seen_fds (v w1) fd = None"
    "v w2 = set_fd fd (Some (OpenDir es ns)) (v w1)" "opens (Dir es) (OpenDir es ns)"
    "sorted_wrt (<) (map fst es)" "\<forall>(n, t)\<in>set es. node_ok [] n t" "node_mem (Dir es) + 8192 + 2 ^ k \<le> 2 ^ 32"
    "untar_os_ok os' fd' v' m'" "archive \<noteq> bytes_of ''-''"
  shows "\<exists>w'. tar_start os (2 ^ k) reserve [bytes_of ''-o'', out, bytes_of ''-a'', path] w0 = Some (0, w') \<and>
    (\<forall>u u1. os_openat os' AT_FDCWD archive O_RDONLY 0 u = (fd', u1) \<and> 0 \<le> fd' \<and> fs_fds (v' u) fd' = None \<and>
       v' u1 = (fs_fd fd' (Some On_input) (v' u))\<lparr>fs_input := seen_out (v w')\<rparr> \<and> (\<forall>p\<in>fst ` set (tree_entries [] es). fs_entries (v' u) p = None) \<longrightarrow>
       (\<exists>u'. untar_start os' [prog, archive] u = Some (0, u') \<and> fs_entries (v' u') = fs_entries (v' u) ++ map_of (tree_entries [] es) \<and> fs_fds (v' u') = fs_fds (v' u)))"
proof -
  obtain w' where w': "tar_start os (2 ^ k) reserve [bytes_of ''-o'', out, bytes_of ''-a'', path] w0 = Some (0, w')"
    "seen_out (v w') = tree_records [] es @ replicate 1024 0"
    using tar_program [where reserve = reserve and v = v, OF assms(1-16)] unfolding tree_records_def by blast
  have "\<exists>u'. untar_start os' [prog, archive] u = Some (0, u') \<and> fs_entries (v' u') = fs_entries (v' u) ++ map_of (tree_entries [] es) \<and> fs_fds (v' u') = fs_fds (v' u)"
    if "os_openat os' AT_FDCWD archive O_RDONLY 0 u = (fd', u1)" "0 \<le> fd'" "fs_fds (v' u) fd' = None"
      "v' u1 = (fs_fd fd' (Some On_input) (v' u))\<lparr>fs_input := seen_out (v w')\<rparr>" "\<forall>p\<in>fst ` set (tree_entries [] es). fs_entries (v' u) p = None" for u u1
    using untar_program [where v = v', OF assms(17) refl assms(18) that(1-3) that(4) [unfolded w'(2)] assms(14,15) that(5)] .
  then show ?thesis using w'(1) by (intro exI [of _ w']) blast
qed

definition example_tree :: "(bytes \<times> node) list" where
  "example_tree = [(bytes_of ''a'', File (bytes_of ''hello'')), (bytes_of ''b'', Dir [(bytes_of ''c'', File []), (bytes_of ''d'', Dir [])])]"

definition example_tar_disk :: tar_disk where
  "example_tar_disk = \<lparr>disk_out = [], disk_fds = [], disk_root = Dir example_tree\<rparr>"

definition example_untar_disk :: "bytes \<Rightarrow> untar_disk" where
  "example_untar_disk archive = \<lparr>disk_archive = archive, disk_input = [], disk_entries = [], disk_open_fds = []\<rparr>"

lemma example_tree_ok:
  "sorted_wrt (<) (map fst example_tree)" "\<forall>(n, t)\<in>set example_tree. node_ok [] n t" "node_mem (Dir example_tree) + 8192 + 2 ^ 12 \<le> 2 ^ 32"
  "names_ok (Dir example_tree)"
  by (simp_all add: example_tree_def name_ok_def names_ok_def bytes_of_def chr_def cstr_def isDot_def isDotDot_def subdir_def tar_MAX_FILE_SIZE_def entries_mem_def)

theorem tar_untar_roundtrip_witness:
  "\<exists>w' u'. tar_start tar_disk_os (2 ^ 12) (\<lambda>_. True) [bytes_of ''-o'', bytes_of ''x.tar'', bytes_of ''-a'', bytes_of ''x''] example_tar_disk = Some (0, w') \<and>
     untar_start untar_disk_os [bytes_of ''untar'', bytes_of ''x.tar''] (example_untar_disk (disk_out w')) = Some (0, u') \<and>
     map_of (disk_entries u') = map_of (tree_entries [] example_tree)"
proof -
  let ?h = "handle_of (Dir example_tree)"
  have o1: "os_openat tar_disk_os AT_FDCWD (bytes_of ''x.tar'') (O_WRONLY OR O_CREAT OR O_EXCL OR O_TRUNC) 436 example_tar_disk = (2, example_tar_disk)"
    by (simp add: tar_disk_os_def example_tar_disk_def O_WRONLY_def O_CREAT_def O_EXCL_def O_TRUNC_def O_RDONLY_def)
  have o2: "os_openat tar_disk_os AT_FDCWD (bytes_of ''x'') O_RDONLY 0 example_tar_disk = (3, example_tar_disk\<lparr>disk_fds := [(3, ?h)]\<rparr>)"
    by (simp add: tar_disk_os_def example_tar_disk_def disk_open_def fresh_fd_def)
  have h: "opens (Dir example_tree) ?h" using opens_handle [OF example_tree_ok(4)] .
  have close: "fst (os_close tar_disk_os 2 w) = 0" "seen_out (tar_disk_view (snd (os_close tar_disk_os 2 w))) = seen_out (tar_disk_view w)" for w
    by (simp_all add: tar_disk_os_def tar_disk_view_def)
  have names: "?h = OpenDir example_tree (bytes_of ''.'' # map fst example_tree @ [bytes_of ''..''])" by (simp add: handle_of_def)
  have view: "tar_disk_view (example_tar_disk\<lparr>disk_fds := [(3, ?h)]\<rparr>) = set_fd 3 (Some ?h) (tar_disk_view example_tar_disk)"
    "seen_out (tar_disk_view example_tar_disk) = []" "seen_fds (tar_disk_view example_tar_disk) 3 = None"
    by (simp_all add: tar_disk_view_def set_fd_def example_tar_disk_def)
  have side: "(12::nat) \<le> 32" "(0::int) \<le> 2" "(0::int) \<le> 3" by simp_all
  have ne: "bytes_of ''x.tar'' \<noteq> bytes_of ''-''" by (simp add: bytes_of_def)
  obtain w' where w': "tar_start tar_disk_os (2 ^ 12) (\<lambda>_. True) [bytes_of ''-o'', bytes_of ''x.tar'', bytes_of ''-a'', bytes_of ''x''] example_tar_disk = Some (0, w')"
    "\<forall>u u1. os_openat untar_disk_os AT_FDCWD (bytes_of ''x.tar'') O_RDONLY 0 u = (3, u1) \<and> 0 \<le> (3::int) \<and> fs_fds (untar_disk_view u) 3 = None \<and>
       untar_disk_view u1 = (fs_fd 3 (Some On_input) (untar_disk_view u))\<lparr>fs_input := seen_out (tar_disk_view w')\<rparr> \<and>
       (\<forall>p\<in>fst ` set (tree_entries [] example_tree). fs_entries (untar_disk_view u) p = None) \<longrightarrow>
       (\<exists>u'. untar_start untar_disk_os [bytes_of ''untar'', bytes_of ''x.tar''] u = Some (0, u') \<and>
         fs_entries (untar_disk_view u') = fs_entries (untar_disk_view u) ++ map_of (tree_entries [] example_tree) \<and> fs_fds (untar_disk_view u') = fs_fds (untar_disk_view u))"
    using tar_untar_roundtrip [where reserve = "\<lambda>_. True" and v = tar_disk_view and v' = untar_disk_view, OF tar_disk_ok close(1) close(2) side(1) TrueI o1 side(2) view(2) o2 [unfolded names] side(3) view(3)
      view(1) [unfolded names] h [unfolded names] example_tree_ok(1-3) untar_disk_ok ne, where fd' = 3 and prog = "bytes_of ''untar''"] by (elim exE conjE)
  let ?u = "example_untar_disk (disk_out w')"
  have "os_openat untar_disk_os AT_FDCWD (bytes_of ''x.tar'') O_RDONLY 0 ?u = (3, ?u\<lparr>disk_input := disk_out w', disk_open_fds := [(3, On_input)]\<rparr>)"
    by (simp add: untar_disk_os_def example_untar_disk_def disk_add_fd_def fresh_fd_def)
  moreover have "fs_fds (untar_disk_view ?u) 3 = None" "\<forall>p\<in>fst ` set (tree_entries [] example_tree). fs_entries (untar_disk_view ?u) p = None"
    "untar_disk_view (?u\<lparr>disk_input := disk_out w', disk_open_fds := [(3, On_input)]\<rparr>) = (fs_fd 3 (Some On_input) (untar_disk_view ?u))\<lparr>fs_input := seen_out (tar_disk_view w')\<rparr>"
    by (simp_all add: untar_disk_view_def tar_disk_view_def fs_fd_def example_untar_disk_def)
  ultimately obtain u' where "untar_start untar_disk_os [bytes_of ''untar'', bytes_of ''x.tar''] ?u = Some (0, u')"
    "fs_entries (untar_disk_view u') = fs_entries (untar_disk_view ?u) ++ map_of (tree_entries [] example_tree)"
    using w'(2) [THEN spec, THEN spec, of ?u "?u\<lparr>disk_input := disk_out w', disk_open_fds := [(3, On_input)]\<rparr>"] side(3) by blast
  then show ?thesis using w'(1) by (intro exI [of _ w'] exI [of _ u']) (simp add: untar_disk_view_def example_untar_disk_def)
qed

end
