(* ===== verification/WebPacker.thy ===== *)
theory WebPacker
  imports IxUtil Base64 CompilerRt
begin

text \<open>
  The packer that expands include directives in web pages: \<^verbatim>\<open>src/hc/tools/webPacker/common.c\<close> and \<^verbatim>\<open>src/hc/tools/webPacker/ix.c\<close>. All its data lies in
  the allocator's reservation: first the descriptors of the include directories, then the buffer. \<open>pack_mem\<close> is the committed part of it, from its
  start to the end of the last page in use; an access outside of it kills the process, which is the value \<open>None\<close>, as is a run that does not end.
  Fresh pages are zero.
\<close>

section \<open>The state\<close>

record 'w packer =
  pack_mem :: bytes
  pack_alloc :: allocator
  pack_includeFds :: "int list"
  pack_bufferSize :: nat
  pack_world :: 'w

text \<open>The offset of \<open>buffer\<close>, and its content.\<close>

definition pack_base :: "'w packer \<Rightarrow> nat" where
  "pack_base st = 4 * length (pack_includeFds st)"

definition pack_content :: "'w packer \<Rightarrow> bytes" where
  "pack_content st = mem_get (pack_mem st) (pack_base st) (pack_bufferSize st)"

definition pack_resize :: "'w ix_os \<Rightarrow> u64 \<Rightarrow> nat \<Rightarrow> 'w packer \<Rightarrow> (int \<times> 'w packer) option" where
  "pack_resize os pageSize n st = do {
     (status, alloc, w) \<leftarrow> allocator_resize os pageSize (pack_alloc st) (word_of_nat n) (pack_world st);
     let committed = unat (math_ALIGN_FORWARD (alloc_size alloc) pageSize);
     Some (status, st\<lparr>pack_mem := take committed (pack_mem st) @ replicate (committed - length (pack_mem st)) 0, pack_alloc := alloc, pack_world := w\<rparr>)
   }"

definition pack_store :: "nat \<Rightarrow> bytes \<Rightarrow> 'w packer \<Rightarrow> 'w packer option" where
  "pack_store a bs st = do { CHECK (a + length bs \<le> length (pack_mem st)); Some (st\<lparr>pack_mem := mem_put (pack_mem st) a bs\<rparr>) }"

definition pack_move :: "nat \<Rightarrow> nat \<Rightarrow> nat \<Rightarrow> 'w packer \<Rightarrow> 'w packer option" where
  "pack_move dest src n st = do {
     CHECK (n = 0 \<or> dest + n \<le> length (pack_mem st) \<and> src + n \<le> length (pack_mem st));
     Some (st\<lparr>pack_mem := mem_put (pack_mem st) dest (mem_get (pack_mem st) src n)\<rparr>)
   }"

definition pack_close :: "'w ix_os \<Rightarrow> int \<Rightarrow> 'w packer \<Rightarrow> 'w packer option" where
  "pack_close os fd st = (case os_close os fd (pack_world st) of (r, w) \<Rightarrow> do { CHECK (r = 0); Some (st\<lparr>pack_world := w\<rparr>) })"

section \<open>Include directories\<close>

fun pack_deinit :: "'w ix_os \<Rightarrow> int list \<Rightarrow> 'w packer \<Rightarrow> 'w packer option" where
  "pack_deinit os [] st = Some st"
| "pack_deinit os (fd # fds) st = do { st \<leftarrow> pack_close os fd st; pack_deinit os fds st }"

fun pack_init :: "'w ix_os \<Rightarrow> u64 \<Rightarrow> bytes list \<Rightarrow> 'w packer \<Rightarrow> (int \<times> 'w packer) option" where
  "pack_init os pageSize [] st = Some (0, st)"
| "pack_init os pageSize (path # paths) st = do {
     (status, st) \<leftarrow> pack_resize os pageSize ((length (pack_includeFds st) + 1) * 4) st;
     if status < 0 then do { st \<leftarrow> pack_deinit os (pack_includeFds st) st; Some (-1, st) }
     else case os_openat os AT_FDCWD path O_RDONLY 0 (pack_world st) of (fd, w) \<Rightarrow>
       let st = st\<lparr>pack_world := w\<rparr>
       in if fd < 0 then do { st \<leftarrow> pack_deinit os (pack_includeFds st) st; Some (-1, st) }
          else do {
            st \<leftarrow> pack_store (pack_base st) (le_bytes 4 (nat fd)) st;
            pack_init os pageSize paths (st\<lparr>pack_includeFds := pack_includeFds st @ [fd]\<rparr>)
          }
   }"

fun pack_findFile :: "'w ix_os \<Rightarrow> int list \<Rightarrow> bytes \<Rightarrow> 'w \<Rightarrow> int option \<times> 'w" where
  "pack_findFile os [] path w = (None, w)"
| "pack_findFile os (dirFd # fds) path w =
     (case os_openat os dirFd path O_RDONLY 0 w of (fd, w) \<Rightarrow> if fd \<ge> 0 then (Some fd, w) else pack_findFile os fds path w)"

section \<open>Replacing a part of the buffer\<close>

text \<open>
  From \<open>foundPath\<close> on, with the file open: the status before the cleanup. Sizes are natural numbers, as \<open>fstat\<close> reports no negative ones.
\<close>

definition pack_insert :: "'w ix_os \<Rightarrow> u64 \<Rightarrow> nat \<Rightarrow> nat \<Rightarrow> int \<Rightarrow> bool \<Rightarrow> 'w packer \<Rightarrow> (int \<times> 'w packer) option" where
  "pack_insert os pageSize replaceIndex replaceSize pathFd asBase64 st =
     (case os_fstat os pathFd (pack_world st) of (status, mode, st_size, w) \<Rightarrow>
        let st = st\<lparr>pack_world := w\<rparr>
        in if status < 0 then Some (-3, st)
           else
             let contentSize = nat st_size;
                 insertSize = (if asBase64 then base64_ENCODE_SIZE contentSize else contentSize);
                 newBufferSize = pack_bufferSize st + insertSize - replaceSize;
                 buf = pack_base st
             in do {
               (status, st) \<leftarrow> pack_resize os pageSize (buf + newBufferSize + 1) st;
               if status < 0 then Some (-4, st)
               else do {
                 st \<leftarrow> pack_move (buf + replaceIndex + insertSize) (buf + replaceIndex + replaceSize) (pack_bufferSize st - (replaceSize + replaceIndex)) st;
                 let st = st\<lparr>pack_bufferSize := newBufferSize\<rparr>;
                 let content = buf + replaceIndex + insertSize - contentSize;
                 (numRead, bs, w) \<leftarrow> util_readAll os pathFd (contentSize + 1) (pack_world st);
                 st \<leftarrow> pack_store content bs (st\<lparr>pack_world := w\<rparr>);
                 if numRead \<noteq> int contentSize then Some (-5, st)
                 else Some (0, if asBase64 then st\<lparr>pack_mem := base64_encode (pack_mem st) (buf + replaceIndex) content contentSize\<rparr> else st)
               }
             })"

definition replaceWithFile :: "'w ix_os \<Rightarrow> u64 \<Rightarrow> nat \<Rightarrow> nat \<Rightarrow> bytes \<Rightarrow> bool \<Rightarrow> 'w packer \<Rightarrow> (int \<times> 'w packer) option" where
  "replaceWithFile os pageSize replaceIndex replaceSize path asBase64 st =
     (let pathZ = unat (alloc_size (pack_alloc st))
      in do {
        (status, st) \<leftarrow> pack_resize os pageSize (pathZ + length path + 1) st;
        if status < 0 then Some (-1, st)
        else do {
          st \<leftarrow> pack_store pathZ (path @ [0]) st;
          case pack_findFile os (pack_includeFds st) (takeWhile (\<lambda>c. c \<noteq> 0) path) (pack_world st) of
            (None, w) \<Rightarrow> Some (-2, st\<lparr>pack_world := w\<rparr>)
          | (Some pathFd, w) \<Rightarrow> do {
              (status, st) \<leftarrow> pack_insert os pageSize replaceIndex replaceSize pathFd asBase64 (st\<lparr>pack_world := w\<rparr>);
              st \<leftarrow> pack_close os pathFd st;
              Some (status, st)
            }
        }
      })"

section \<open>Directives\<close>

function pack_find :: "bytes \<Rightarrow> bytes \<Rightarrow> nat \<Rightarrow> nat \<Rightarrow> int" where
  "pack_find buf pattern bufferSize bufferI =
     (if int bufferI < int bufferSize - int (length pattern)
      then if mem_get buf bufferI (length pattern) = pattern then int bufferI else pack_find buf pattern bufferSize (bufferI + 1)
      else -1)"
  by pat_completeness auto
termination by (relation "measure (\<lambda>(_, _, n, i). n - i)") auto

definition findPattern :: "nat \<Rightarrow> bytes \<Rightarrow> 'w packer \<Rightarrow> int" where
  "findPattern bufferStartI pattern st = pack_find (drop (pack_base st) (pack_mem st)) pattern (pack_bufferSize st) bufferStartI"

definition INT32_MAX :: int where "INT32_MAX = 0x7FFFFFFF"

definition handleInclude :: "'w ix_os \<Rightarrow> u64 \<Rightarrow> bytes \<Rightarrow> bytes \<Rightarrow> bool \<Rightarrow> 'w packer \<Rightarrow> (int \<times> 'w packer) option" where
  "handleInclude os pageSize startPattern endPattern asBase64 st =
     (let startPatternI = findPattern 0 startPattern st
      in if startPatternI < 0 then Some (1, st)
         else
           let endPatternI = findPattern (nat startPatternI) endPattern st
           in if endPatternI < 0 then Some (-1, st)
              else
                let nameI = startPatternI + int (length startPattern);
                    nameLen = endPatternI - nameI
                in if nameLen > INT32_MAX then Some (-1, st)
                   else do {
                     (status, st) \<leftarrow> replaceWithFile os pageSize (nat startPatternI) (nat (endPatternI + int (length endPattern) - startPatternI))
                       (mem_get (pack_mem st) (pack_base st + nat nameI) (nat nameLen)) asBase64 st;
                     Some (if status < 0 then -1 else 0, st)
                   })"

text \<open>The three directives of one round: the error, or the conjunction of the results, which is 1 when none was found.\<close>

definition pack_round :: "'w ix_os \<Rightarrow> u64 \<Rightarrow> 'w packer \<Rightarrow> (int \<times> 'w packer) option" where
  "pack_round os pageSize st = do {
     (s1, st) \<leftarrow> handleInclude os pageSize (bytes_of ''<!--INCLUDE('') (bytes_of '')-->'') False st;
     if s1 < 0 then Some (-1, st) else do {
     (s2, st) \<leftarrow> handleInclude os pageSize (bytes_of ''/*INCLUDE('') (bytes_of '')*/'') False st;
     if s2 < 0 then Some (-1, st) else do {
     (s3, st) \<leftarrow> handleInclude os pageSize (bytes_of ''/*INCLUDE_BASE64('') (bytes_of '')*/'') True st;
     if s3 < 0 then Some (-1, st) else Some (s1 AND s2 AND s3, st) } } }"

partial_function (option) pack_loop :: "'w ix_os \<Rightarrow> u64 \<Rightarrow> 'w packer \<Rightarrow> (int \<times> 'w packer) option" where
  "pack_loop os pageSize st =
     Option.bind (pack_round os pageSize st) (\<lambda>(complete, st).
       if complete < 0 then Some (1, st) else if complete \<noteq> 0 then Some (0, st) else pack_loop os pageSize st)"

definition pack_writeToFile :: "'w ix_os \<Rightarrow> bytes \<Rightarrow> bytes \<Rightarrow> 'w \<Rightarrow> (int \<times> 'w) option" where
  "pack_writeToFile os path content w =
     (case os_openat os AT_FDCWD path (O_WRONLY OR O_CREAT OR O_TRUNC) 436 w of (fd, w) \<Rightarrow>
        if fd < 0 then Some (-1, w)
        else do {
          (status, w) \<leftarrow> util_writeAll os fd content w;
          case os_close os fd w of (r, w) \<Rightarrow> do { CHECK (r = 0); Some (status, w) }
        })"

text \<open>The program; \<open>argv\<close> is the output, the input and the include directories after the program's name.\<close>

definition webPacker_start :: "'w ix_os \<Rightarrow> u64 \<Rightarrow> (u64 \<Rightarrow> bool) \<Rightarrow> bytes list \<Rightarrow> 'w \<Rightarrow> (int \<times> 'w) option" where
  "webPacker_start os pageSize reserve argv w =
     (if length argv < 3 then Some (1, w)
      else if int (length (argv ! 2)) > INT32_MAX then Some (1, w)
      else case allocator_init pageSize reserve (push_bit 32 1) of
        None \<Rightarrow> Some (1, w)
      | Some alloc \<Rightarrow> do {
          (status, st) \<leftarrow> pack_init os pageSize (drop 3 argv) \<lparr>pack_mem = [], pack_alloc = alloc, pack_includeFds = [], pack_bufferSize = 0, pack_world = w\<rparr>;
          if status < 0 then Some (1, pack_world st)
          else do {
            (status, st) \<leftarrow> replaceWithFile os pageSize 0 0 (argv ! 2) False st;
            (status, st) \<leftarrow> (if status < 0 then Some (1, st)
              else do {
                (status, st) \<leftarrow> pack_loop os pageSize st;
                if status \<noteq> 0 then Some (1, st)
                else do {
                  (status, w) \<leftarrow> pack_writeToFile os (argv ! 1) (pack_content st) (pack_world st);
                  Some (if status \<noteq> 0 then 1 else status, st\<lparr>pack_world := w\<rparr>)
                }
              });
            st \<leftarrow> pack_deinit os (pack_includeFds st) st;
            Some (status, pack_world st)
          }
        })"

section \<open>Searching\<close>

declare pack_find.simps [simp del]

lemma find_first:
  assumes "i \<le> j" "j + length pattern < n" "mem_get buf j (length pattern) = pattern" "\<And>l. i \<le> l \<Longrightarrow> l < j \<Longrightarrow> mem_get buf l (length pattern) \<noteq> pattern"
  shows "pack_find buf pattern n i = int j"
  using assms
proof (induction "j - i" arbitrary: i)
  case 0
  then show ?case by (subst pack_find.simps) simp
next
  case (Suc d)
  then show ?case by (subst pack_find.simps) simp
qed

lemma find_none:
  assumes "\<And>l. i \<le> l \<Longrightarrow> l + length pattern < n \<Longrightarrow> mem_get buf l (length pattern) \<noteq> pattern"
  shows "pack_find buf pattern n i = -1"
  using assms
proof (induction "n - i" arbitrary: i rule: less_induct)
  case less
  show ?case
  proof (cases "i + length pattern < n")
    case True
    then have "pack_find buf pattern n (i + 1) = -1" using less.prems by (intro less.hyps) auto
    then show ?thesis using less.prems [OF order_refl True] by (subst pack_find.simps) simp
  qed (subst pack_find.simps, simp)
qed

section \<open>Replacing\<close>

lemma mem_put_over:
  assumes "i \<le> j" "j + length ys \<le> i + length xs" "i + length xs \<le> length m"
  shows "mem_put (mem_put m j ys) i xs = mem_put m i xs"
  using assms by (intro nth_equalityI) (auto simp: mem_simps)

lemma splice_mem:
  assumes "base + i + length ins + length t \<le> length m"
  shows "mem_get (mem_put (mem_put m (base + i + length ins) t) (base + i) ins) base (i + length ins + length t) = mem_get m base i @ ins @ t"
proof -
  define m1 where "m1 = mem_put m (base + i + length ins) t"
  have l1: "length m1 = length m" using assms by (simp add: m1_def)
  have "mem_get (mem_put m1 (base + i) ins) base i = mem_get m1 base i" using assms l1 by (intro mem_get_put_disjoint) auto
  moreover have "mem_get m1 base i = mem_get m base i" unfolding m1_def using assms by (intro mem_get_put_disjoint) auto
  moreover have "mem_get (mem_put m1 (base + i) ins) (base + i) (length ins) = ins" using assms l1 by simp
  moreover have "mem_get (mem_put m1 (base + i) ins) (base + i + length ins) (length t) = mem_get m1 (base + i + length ins) (length t)"
    using assms l1 by (intro mem_get_put_disjoint) auto
  moreover have "mem_get m1 (base + i + length ins) (length t) = t" unfolding m1_def using assms by simp
  ultimately show ?thesis unfolding m1_def [symmetric] by (simp add: mem_get_append add.assoc)
qed

text \<open>
  What the packer relies on: \<open>v\<close> shows, for each open file, the bytes that are left of it.
\<close>

definition pack_os_ok :: "'w ix_os \<Rightarrow> ('w \<Rightarrow> int \<Rightarrow> bytes option) \<Rightarrow> ('w \<Rightarrow> nat) \<Rightarrow> bool" where
  "pack_os_ok os v m \<longleftrightarrow> memory_law os v \<and>
     (\<forall>fd. supplies os fd v m (\<lambda>x. the (x fd)) (\<lambda>x n. x(fd \<mapsto> drop n (the (x fd)))) (\<lambda>x. x fd \<noteq> None)) \<and>
     (\<forall>w fd c status mode sz w'. v w fd = Some c \<longrightarrow> os_fstat os fd w = (status, mode, sz, w') \<longrightarrow> status = 0 \<and> sz = int (length c) \<and> v w' = v w) \<and>
     (\<forall>w fd r w'. v w fd \<noteq> None \<longrightarrow> os_close os fd w = (r, w') \<longrightarrow> r = 0 \<and> v w' = (v w)(fd := None))"

definition pack_inv :: "nat \<Rightarrow> nat \<Rightarrow> 'w packer \<Rightarrow> bool" where
  "pack_inv k limit st \<longleftrightarrow> k < 64 \<and> limit < 2 ^ 63 \<and> unat (alloc_reserveSize (pack_alloc st)) = limit \<and> unat (alloc_size (pack_alloc st)) + 2 ^ k \<le> limit \<and>
     length (pack_mem st) = page_end k (unat (alloc_size (pack_alloc st))) \<and> pack_base st + pack_bufferSize st \<le> unat (alloc_size (pack_alloc st))"

lemma pack_resize_fits:
  assumes "memory_law os v" "pack_inv k limit st" "n + 2 ^ k \<le> limit"
  shows "\<exists>al w'. pack_resize os (2 ^ k) n st =
      Some (0, st\<lparr>pack_mem := take (page_end k n) (pack_mem st) @ replicate (page_end k n - length (pack_mem st)) 0, pack_alloc := al, pack_world := w'\<rparr>) \<and>
    unat (alloc_size al) = n \<and> alloc_reserveSize al = alloc_reserveSize (pack_alloc st) \<and> v w' = v (pack_world st)"
proof -
  have I: "k < 64" "limit < 2 ^ 63" "unat (alloc_reserveSize (pack_alloc st)) = limit" "unat (alloc_size (pack_alloc st)) + 2 ^ k \<le> limit"
    using assms(2) unfolding pack_inv_def by blast+
  obtain w' where r: "allocator_resize os (2 ^ k) (pack_alloc st) (word_of_nat n) (pack_world st) = Some (0, (pack_alloc st)\<lparr>alloc_size := word_of_nat n\<rparr>, w')" "v w' = v (pack_world st)"
    using allocator_fits(1) [OF assms(1) I assms(3)] by blast
  have un: "unat (word_of_nat n :: u64) = n" by (rule allocator_fits(2) [OF assms(1) I assms(3)])
  have "unat (word_of_nat n :: u64) + 2 ^ k \<le> 2 ^ 63" using un assms(3) I(2) by simp
  then have "unat (math_ALIGN_FORWARD (word_of_nat n :: u64) (2 ^ k)) = page_end k n" using unat_page_end(1) [OF I(1)] un by metis
  then show ?thesis using r un by (intro exI [of _ "(pack_alloc st)\<lparr>alloc_size := word_of_nat n\<rparr>"] exI [of _ w']) (simp add: pack_resize_def Let_def)
qed

lemma pack_close_fd:
  assumes "pack_os_ok os v m" "v (pack_world st) fd \<noteq> None"
  shows "\<exists>w'. pack_close os fd st = Some (st\<lparr>pack_world := w'\<rparr>) \<and> v w' = (v (pack_world st))(fd := None)"
proof -
  obtain r w' where c: "os_close os fd (pack_world st) = (r, w')" by fastforce
  have "r = 0 \<and> v w' = (v (pack_world st))(fd := None)" using assms c unfolding pack_os_ok_def by blast
  then show ?thesis by (intro exI [of _ w']) (simp add: pack_close_def c)
qed

lemma pack_fstat:
  assumes "pack_os_ok os v m" "v w fd = Some c"
  shows "\<exists>mode w'. os_fstat os fd w = (0, mode, int (length c), w') \<and> v w' = v w"
proof -
  obtain status mode sz w' where f: "os_fstat os fd w = (status, mode, sz, w')" by (metis prod_cases4)
  have "status = 0 \<and> sz = int (length c) \<and> v w' = v w" using assms f unfolding pack_os_ok_def by blast
  then show ?thesis using f by blast
qed

lemma pack_read:
  assumes "pack_os_ok os v m" "v w fd = Some c"
  shows "\<exists>w'. util_readAll os fd (length c + 1) w = Some (int (length c), c, w') \<and> v w' = (v w)(fd \<mapsto> [])"
proof -
  have "supplies os fd v m (\<lambda>x. the (x fd)) (\<lambda>x n. x(fd \<mapsto> drop n (the (x fd)))) (\<lambda>x. x fd \<noteq> None)"
    using assms(1) unfolding pack_os_ok_def by blast
  from readAll_takes [OF this, of w "length c + 1"] assms(2) show ?thesis by (auto simp: add.commute)
qed

text \<open>The size of the inserted text, and the two cases: the tail of the buffer is still committed after the resizing, or it is not.\<close>

definition inserted :: "bool \<Rightarrow> bytes \<Rightarrow> bytes" where
  "inserted asBase64 c = (if asBase64 then b64 c else c)"

lemma length_inserted: "length (inserted asBase64 c) = (if asBase64 then base64_ENCODE_SIZE (length c) else length c)" "length c \<le> length (inserted asBase64 c)"
  by (auto simp: inserted_def length_b64 encode_size_ge)

lemma insert_correct:
  fixes asBase64 :: bool
  assumes "pack_os_ok os v m" "v (pack_world st) fd = Some c" "pack_inv k limit st" "i + r \<le> pack_bufferSize st"
  defines "new \<equiv> pack_bufferSize st + length (inserted asBase64 c) - r"
  assumes "pack_base st + new + 1 + 2 ^ k \<le> limit"
  shows "if i + r < pack_bufferSize st \<and> page_end k (pack_base st + new + 1) < pack_base st + pack_bufferSize st
    then pack_insert os (2 ^ k) i r fd asBase64 st = None
    else \<exists>st'. pack_insert os (2 ^ k) i r fd asBase64 st = Some (0, st') \<and> pack_inv k limit st' \<and> pack_includeFds st' = pack_includeFds st \<and>
      v (pack_world st') = (v (pack_world st))(fd \<mapsto> []) \<and>
      pack_content st' = take i (pack_content st) @ inserted asBase64 c @ drop (i + r) (pack_content st)"
proof -
  let ?ins = "inserted asBase64 c" and ?b = "pack_base st" and ?n = "pack_bufferSize st" and ?M = "pack_mem st"
  let ?C = "page_end k (pack_base st + new + 1)"
  have ml: "memory_law os v" using assms(1) unfolding pack_os_ok_def by blast
  obtain mode w1 where f: "os_fstat os fd (pack_world st) = (0, mode, int (length c), w1)" "v w1 = v (pack_world st)" using pack_fstat [OF assms(1,2)] by blast
  define s1 where "s1 = st\<lparr>pack_world := w1\<rparr>"
  have inv1: "pack_inv k limit s1" using assms(3) by (simp add: s1_def pack_inv_def pack_base_def)
  define m1 where "m1 = take ?C ?M @ replicate (?C - length ?M) 0"
  obtain al w2 where z: "pack_resize os (2 ^ k) (?b + new + 1) s1 = Some (0, s1\<lparr>pack_mem := m1, pack_alloc := al, pack_world := w2\<rparr>)"
    "unat (alloc_size al) = ?b + new + 1" "alloc_reserveSize al = alloc_reserveSize (pack_alloc st)" "v w2 = v w1"
    using pack_resize_fits [OF ml inv1 assms(6)] by (auto simp: s1_def m1_def)
  have C: "length m1 = ?C" "?b + new + 1 \<le> ?C" using page_end_bounds(1) by (simp_all add: m1_def)
  have M: "?b + ?n \<le> length ?M" using assms(3) page_end_bounds(1) [of "unat (alloc_size (pack_alloc st))" k] by (simp add: pack_inv_def)
  define s2 where "s2 = s1\<lparr>pack_mem := m1, pack_alloc := al, pack_world := w2\<rparr>"
  define L where "L = length ?ins"
  have size: "(if asBase64 then base64_ENCODE_SIZE (length c) else length c) = L" "length c \<le> L" using length_inserted [where c = c] by (auto simp: L_def)
  have new: "new = i + L + (?n - (r + i))" using assms(4) by (simp add: new_def L_def)
  have base1: "pack_base s1 = ?b" "pack_bufferSize s1 = ?n" by (simp_all add: s1_def pack_base_def)
  have newL: "?n + L - r = new" by (simp add: new_def L_def)
  have n2: "pack_bufferSize s2 = ?n" by (simp add: s2_def s1_def)
  have unfold: "pack_insert os (2 ^ k) i r fd asBase64 st = do {
       st \<leftarrow> pack_move (?b + i + L) (?b + i + r) (?n - (r + i)) s2;
       let st = st\<lparr>pack_bufferSize := new\<rparr>;
       (numRead, bs, w) \<leftarrow> util_readAll os fd (length c + 1) (pack_world st);
       st \<leftarrow> pack_store (?b + i + L - length c) bs (st\<lparr>pack_world := w\<rparr>);
       if numRead \<noteq> int (length c) then Some (-5, st)
       else Some (0, if asBase64 then st\<lparr>pack_mem := base64_encode (pack_mem st) (?b + i) (?b + i + L - length c) (length c)\<rparr> else st) }"
    unfolding pack_insert_def f prod.case Let_def s1_def [symmetric] nat_int size(1) base1 newL z(1) s2_def [symmetric]
    by (simp add: n2)
  let ?k = "?n - (r + i)"
  show ?thesis
  proof (cases "i + r < ?n \<and> ?C < ?b + ?n")
    case True
    then have "pack_move (?b + i + L) (?b + i + r) ?k s2 = None"
      using C(1) by (auto simp: pack_move_def s2_def CHECK_def)
    then show ?thesis using True unfold by simp
  next
    case False
    define T where "T = mem_get m1 (?b + i + r) ?k"
    have kk: "?k = 0 \<or> ?b + i + r + ?k \<le> length m1" using False assms(4) C(1) by auto
    then have lT: "length T = ?k" by (auto simp: T_def)
    have keep: "mem_get m1 a l = mem_get ?M a l" if "a + l \<le> ?C" "a + l \<le> length ?M" for a l
      using that by (simp add: m1_def mem_get_def drop_take min_def)
    have tail: "T = drop (i + r) (pack_content st)"
    proof -
      have "drop (i + r) (pack_content st) = mem_get ?M (?b + i + r) ?k" by (simp add: pack_content_def mem_get_def drop_take add.assoc add.commute [of r i] drop_drop add.commute [of _ ?b])
      moreover have "T = mem_get ?M (?b + i + r) ?k" using False assms(4) C(1) M unfolding T_def by (cases "?k = 0") (auto intro!: keep)
      ultimately show ?thesis by simp
    qed
    have head: "mem_get m1 ?b i = take i (pack_content st)"
      using keep [of ?b i] C M assms(4) new by (simp add: pack_content_def mem_get_def)
    define s3 where "s3 = s2\<lparr>pack_mem := mem_put m1 (?b + i + L) T, pack_bufferSize := new\<rparr>"
    have fit: "?b + i + L + length T \<le> length m1" using C new lT by simp
    have mv: "pack_move (?b + i + L) (?b + i + r) ?k s2 = Some (s2\<lparr>pack_mem := mem_put m1 (?b + i + L) T\<rparr>)"
      using kk fit lT by (auto simp: pack_move_def s2_def T_def)
    obtain w3 where rd: "util_readAll os fd (length c + 1) w2 = Some (int (length c), c, w3)" "v w3 = (v w2)(fd \<mapsto> [])"
      using pack_read [OF assms(1), of w2 fd c] z(4) f(2) assms(2) by auto
    let ?off = "?b + i + L - length c"
    define m3 where "m3 = mem_put (pack_mem s3) ?off c"
    have l3: "length (pack_mem s3) = length m1" "length m3 = length m1" using fit size(2) by (simp_all add: s3_def m3_def)
    have st3: "pack_store ?off c (s3\<lparr>pack_world := w3\<rparr>) = Some (s3\<lparr>pack_world := w3, pack_mem := m3\<rparr>)"
      using fit size(2) l3 by (simp add: pack_store_def m3_def)
    define m4 where "m4 = (if asBase64 then base64_encode m3 (?b + i) ?off (length c) else m3)"
    have enc: "m4 = mem_put (pack_mem s3) (?b + i) ?ins"
    proof (cases asBase64)
      case True
      then have L: "L = base64_ENCODE_SIZE (length c)" "?ins = b64 c" "length (b64 c) = L" using size(1) by (simp_all add: inserted_def length_b64)
      have o: "?off + length c = ?b + i + L" "?b + i \<le> ?off" using size(2) by simp_all
      have g: "mem_get m3 ?off (length c) = c" using fit l3 o unfolding m3_def by simp
      have "base64_encode m3 (?b + i) ?off (length c) = mem_put m3 (?b + i) (b64 c)"
        using base64_encode_eq [of ?off "length c" m3 "?b + i"] o fit l3 L g by simp
      moreover have "mem_put m3 (?b + i) (b64 c) = mem_put (pack_mem s3) (?b + i) (b64 c)"
        unfolding m3_def using o fit l3 L by (intro mem_put_over) simp_all
      ultimately show ?thesis using True L by (simp add: m4_def)
    next
      case False
      then show ?thesis using size(1) by (simp add: m4_def m3_def inserted_def)
    qed
    have res: "pack_insert os (2 ^ k) i r fd asBase64 st = Some (0, s3\<lparr>pack_world := w3, pack_mem := m4\<rparr>)"
      unfolding unfold mv using rd(1) st3 by (simp add: s3_def s2_def m4_def)
    moreover have "pack_content (s3\<lparr>pack_world := w3, pack_mem := m4\<rparr>) = take i (pack_content st) @ ?ins @ drop (i + r) (pack_content st)"
      using splice_mem [of ?b i ?ins T m1] fit lT unfolding head tail [symmetric]
      by (simp add: pack_content_def pack_base_def s3_def s2_def s1_def enc L_def new add.commute [of r i])
    moreover have "pack_inv k limit (s3\<lparr>pack_world := w3, pack_mem := m4\<rparr>)"
      using inv1 z(2,3) assms(6) C fit l3(1) by (simp add: pack_inv_def pack_base_def s3_def s2_def s1_def enc L_def)
    ultimately show ?thesis using False rd(2) z(4) f(2) by (auto simp: s3_def s2_def s1_def)
  qed
qed

text \<open>
  The whole call. \<open>pack_findFile\<close> finds the file as \<open>fd\<close>; the name is put behind the buffer first, which can only grow the memory.
\<close>

lemma mem_get_prefix_same: "a + n \<le> length m \<Longrightarrow> a + n \<le> z \<Longrightarrow> z + length bs \<le> length (m @ e) \<Longrightarrow> mem_get (mem_put (m @ e) z bs) a n = mem_get m a n"
  by (simp add: mem_get_put_disjoint) (simp add: mem_get_def)

lemma replace_correct:
  fixes asBase64 :: bool
  assumes "pack_os_ok os v m" "pack_inv k limit st" "i + r \<le> pack_bufferSize st" "0 \<notin> set path"
    "unat (alloc_size (pack_alloc st)) + length path + 1 + 2 ^ k \<le> limit"
    "\<And>w. v w = v (pack_world st) \<Longrightarrow> \<exists>w'. pack_findFile os (pack_includeFds st) path w = (Some fd, w') \<and> v w' = (v (pack_world st))(fd \<mapsto> c)"
    "v (pack_world st) fd = None"
  defines "new \<equiv> pack_bufferSize st + length (inserted asBase64 c) - r"
  assumes "pack_base st + new + 1 + 2 ^ k \<le> limit"
  shows "if i + r < pack_bufferSize st \<and> page_end k (pack_base st + new + 1) < pack_base st + pack_bufferSize st
    then replaceWithFile os (2 ^ k) i r path asBase64 st = None
    else \<exists>st'. replaceWithFile os (2 ^ k) i r path asBase64 st = Some (0, st') \<and> pack_inv k limit st' \<and> pack_includeFds st' = pack_includeFds st \<and>
      v (pack_world st') = v (pack_world st) \<and>
      pack_content st' = take i (pack_content st) @ inserted asBase64 c @ drop (i + r) (pack_content st)"
proof -
  define z where "z = unat (alloc_size (pack_alloc st))"
  have ml: "memory_law os v" using assms(1) unfolding pack_os_ok_def by blast
  have I: "length (pack_mem st) = page_end k z" "pack_base st + pack_bufferSize st \<le> z" "z \<le> page_end k z"
    using assms(2) page_end_bounds(1) [of z k] by (simp_all add: pack_inv_def z_def)
  let ?N = "z + length path + 1"
  have mono: "page_end k z \<le> page_end k ?N" by (rule page_end_mono) simp
  define e where "e = replicate (page_end k ?N - page_end k z) (0::u8)"
  obtain al w1 where 1: "pack_resize os (2 ^ k) ?N st = Some (0, st\<lparr>pack_mem := pack_mem st @ e, pack_alloc := al, pack_world := w1\<rparr>)"
    "unat (alloc_size al) = ?N" "alloc_reserveSize al = alloc_reserveSize (pack_alloc st)" "v w1 = v (pack_world st)"
    using pack_resize_fits [OF ml assms(2), of ?N] assms(5) I(1) mono by (auto simp: e_def z_def)
  have len: "length (pack_mem st @ e) = page_end k ?N" "?N \<le> page_end k ?N" using I(1) mono page_end_bounds(1) by (simp_all add: e_def)
  obtain w2 where 2: "pack_findFile os (pack_includeFds st) path w1 = (Some fd, w2)" "v w2 = (v (pack_world st))(fd \<mapsto> c)" using assms(6) [OF 1(4)] by blast
  define s2 where "s2 = st\<lparr>pack_alloc := al, pack_mem := mem_put (pack_mem st @ e) z (path @ [0]), pack_world := w2\<rparr>"
  have tw: "takeWhile (\<lambda>c. c \<noteq> 0) path = path" using assms(4) by (auto simp: takeWhile_eq_all_conv)
  have b2: "pack_base s2 = pack_base st" "pack_bufferSize s2 = pack_bufferSize st" "pack_includeFds s2 = pack_includeFds st" by (simp_all add: s2_def pack_base_def)
  have c2: "pack_content s2 = pack_content st"
    unfolding pack_content_def b2 using I len by (simp add: s2_def mem_get_prefix_same)
  have inv2: "pack_inv k limit s2" unfolding pack_inv_def b2 using assms(2,5) 1(2,3) I len by (simp add: pack_inv_def s2_def z_def)
  have call: "replaceWithFile os (2 ^ k) i r path asBase64 st = do {
      (status, st) \<leftarrow> pack_insert os (2 ^ k) i r fd asBase64 s2; st \<leftarrow> pack_close os fd st; Some (status, st) }"
    using 1(1) 2(1) len by (simp add: replaceWithFile_def z_def [symmetric] pack_store_def tw s2_def)
  have vf: "v (pack_world s2) fd = Some c" using 2(2) by (simp add: s2_def)
  note ins = insert_correct [OF assms(1) vf inv2, of i r asBase64, unfolded b2 c2, folded new_def, OF assms(3,9)]
  show ?thesis
  proof (cases "i + r < pack_bufferSize st \<and> page_end k (pack_base st + new + 1) < pack_base st + pack_bufferSize st")
    case True
    then have "pack_insert os (2 ^ k) i r fd asBase64 s2 = None" using ins by simp
    then show ?thesis using True call by simp
  next
    case False
    then obtain s3 where 3: "pack_insert os (2 ^ k) i r fd asBase64 s2 = Some (0, s3)" "pack_inv k limit s3" "pack_includeFds s3 = pack_includeFds st"
      "v (pack_world s3) = (v (pack_world s2))(fd \<mapsto> [])" "pack_content s3 = take i (pack_content st) @ inserted asBase64 c @ drop (i + r) (pack_content st)"
      using ins by auto
    obtain w4 where 4: "pack_close os fd s3 = Some (s3\<lparr>pack_world := w4\<rparr>)" "v w4 = (v (pack_world s3))(fd := None)" using pack_close_fd [OF assms(1), of s3 fd] 3(4) by auto
    have "v w4 = v (pack_world st)" using 4(2) 3(4) 2(2) assms(7) by (simp add: s2_def fun_upd_idem)
    then show ?thesis using False call 3 4(1) by (intro if_not_P [THEN iffD2] exI [of _ "s3\<lparr>pack_world := w4\<rparr>"]) (simp_all add: pack_inv_def pack_base_def pack_content_def)
  qed
qed

section \<open>Directives replaced\<close>

text \<open>
  A directive in the buffer: \<open>pre\<close> has no earlier start pattern, and the end pattern is the first one after the start. \<open>fd\<close> is the descriptor under
  which the include directories offer the file \<open>c\<close>.
\<close>

definition directive :: "bytes \<Rightarrow> bytes \<Rightarrow> bytes \<Rightarrow> bytes \<Rightarrow> bytes \<Rightarrow> bool" where
  "directive pre startP name endP post \<longleftrightarrow> (let b = pre @ startP @ name @ endP @ post in
     endP \<noteq> [] \<and> 0 \<notin> set name \<and> int (length name) \<le> INT32_MAX \<and> (\<forall>l\<in>{0..<length pre}. mem_get b l (length startP) \<noteq> startP) \<and>
     (\<forall>l\<in>{length pre..<length pre + length startP + length name}. mem_get b l (length endP) \<noteq> endP))"

definition offers :: "'w ix_os \<Rightarrow> ('w \<Rightarrow> int \<Rightarrow> bytes option) \<Rightarrow> 'w packer \<Rightarrow> bytes \<Rightarrow> int \<Rightarrow> bytes \<Rightarrow> bool" where
  "offers os v st path fd c \<longleftrightarrow> v (pack_world st) fd = None \<and>
     (\<forall>w. v w = v (pack_world st) \<longrightarrow> (\<exists>w'. pack_findFile os (pack_includeFds st) path w = (Some fd, w') \<and> v w' = (v (pack_world st))(fd \<mapsto> c)))"

lemma find_in_content:
  assumes "pack_base st + pack_bufferSize st \<le> length (pack_mem st)" "l + n \<le> pack_bufferSize st"
  shows "mem_get (drop (pack_base st) (pack_mem st)) l n = mem_get (pack_content st) l n"
  using assms by (simp add: mem_get_def pack_content_def drop_take min_def)

lemma mem_get_drop: "mem_get (drop b m) a n = mem_get m (b + a) n"
  by (simp add: mem_get_def add.commute)

lemma find_start:
  assumes "pack_inv k limit st" "pack_content st = pre @ startP @ name @ endP @ post" "directive pre startP name endP post"
  shows "findPattern 0 startP st = int (length pre)" "findPattern (length pre) endP st = (if post = [] then -1 else int (length pre + length startP + length name))"
    "pack_bufferSize st = length (pack_content st)"
proof -
  have M: "pack_base st + pack_bufferSize st \<le> length (pack_mem st)"
    using assms(1) page_end_bounds(1) [of "unat (alloc_size (pack_alloc st))" k] by (simp add: pack_inv_def)
  then show n: "pack_bufferSize st = length (pack_content st)" by (simp add: pack_content_def)
  note D = assms(3) [unfolded directive_def Let_def, folded assms(2)]
  note eq = find_in_content [OF M, unfolded n]
  have g: "mem_get (pack_content st) (length pre) (length startP) = startP"
    "mem_get (pack_content st) (length pre + length startP + length name) (length endP) = endP"
    unfolding assms(2) by (simp_all add: mem_get_def)
  show "findPattern 0 startP st = int (length pre)"
    unfolding findPattern_def n using D g eq assms(2) by (intro find_first) auto
  show "findPattern (length pre) endP st = (if post = [] then -1 else int (length pre + length startP + length name))"
  proof (cases "post = []")
    case True
    then have "pack_find (drop (pack_base st) (pack_mem st)) endP (length (pack_content st)) (length pre) = -1"
      using D eq assms(2) by (intro find_none) auto
    then show ?thesis using True by (simp add: findPattern_def n)
  next
    case False
    then have "pack_find (drop (pack_base st) (pack_mem st)) endP (length (pack_content st)) (length pre) = int (length pre + length startP + length name)"
      using D g eq assms(2) by (intro find_first) auto
    then show ?thesis using False by (simp add: findPattern_def n)
  qed
qed

lemma include_call:
  assumes "pack_inv k limit st" "pack_content st = pre @ startP @ name @ endP @ post" "directive pre startP name endP post" "post \<noteq> []"
  shows "handleInclude os (2 ^ k) startP endP asBase64 st = do {
    (status, st) \<leftarrow> replaceWithFile os (2 ^ k) (length pre) (length startP + length name + length endP) name asBase64 st;
    Some (if status < 0 then -1 else 0, st) }"
proof -
  note F = find_start [OF assms(1-3)]
  have M: "pack_base st + pack_bufferSize st \<le> length (pack_mem st)"
    using assms(1) page_end_bounds(1) [of "unat (alloc_size (pack_alloc st))" k] by (simp add: pack_inv_def)
  have "mem_get (pack_mem st) (pack_base st + (length pre + length startP)) (length name) = mem_get (pack_content st) (length pre + length startP) (length name)"
    using find_in_content [OF M, of "length pre + length startP" "length name"] F(3) assms(2) by (simp add: mem_get_drop)
  also have "\<dots> = name" unfolding assms(2) by (simp add: mem_get_def)
  finally have nm: "mem_get (pack_mem st) (pack_base st + (length pre + length startP)) (length name) = name" .
  have i32: "\<not> int (length name) > INT32_MAX" using assms(3) by (simp add: directive_def Let_def)
  have ints: "int (length pre + length startP + length name) - (int (length pre) + int (length startP)) = int (length name)"
    "nat (int (length pre + length startP + length name) + int (length endP) - int (length pre)) = length startP + length name + length endP"
    "nat (int (length pre) + int (length startP)) = length pre + length startP" by simp_all
  show ?thesis
    unfolding handleInclude_def Let_def F(1) nat_int F(2) if_not_P [OF assms(4)] ints nm using i32 by simp
qed

lemma directive_replaced:
  fixes asBase64 :: bool
  assumes "pack_os_ok os v m" "pack_inv k limit st" "pack_content st = pre @ startP @ name @ endP @ post" "directive pre startP name endP post" "post \<noteq> []"
    "offers os v st name fd c" "unat (alloc_size (pack_alloc st)) + length name + 1 + 2 ^ k \<le> limit"
    "pack_base st + length (pre @ inserted asBase64 c @ post) + 1 + 2 ^ k \<le> limit"
  shows "if page_end k (pack_base st + length (pre @ inserted asBase64 c @ post) + 1) < pack_base st + length (pack_content st)
    then handleInclude os (2 ^ k) startP endP asBase64 st = None
    else \<exists>st'. handleInclude os (2 ^ k) startP endP asBase64 st = Some (0, st') \<and> pack_content st' = pre @ inserted asBase64 c @ post \<and>
      v (pack_world st') = v (pack_world st) \<and> pack_includeFds st' = pack_includeFds st \<and> pack_inv k limit st'"
proof -
  let ?r = "length startP + length name + length endP"
  note F = find_start [OF assms(2-4)]
  have new: "pack_bufferSize st + length (inserted asBase64 c) - ?r = length (pre @ inserted asBase64 c @ post)" using F(3) assms(3) by simp
  have le: "length pre + ?r < pack_bufferSize st" and nz: "0 \<notin> set name" using F(3) assms(3-5) by (simp_all add: directive_def Let_def)
  have off: "v (pack_world st) fd = None" "\<And>w. v w = v (pack_world st) \<Longrightarrow> \<exists>w'. pack_findFile os (pack_includeFds st) name w = (Some fd, w') \<and> v w' = (v (pack_world st))(fd \<mapsto> c)"
    using assms(6) unfolding offers_def by blast+
  note R = replace_correct [OF assms(1,2) less_imp_le [OF le] nz assms(7) off(2,1), of asBase64, unfolded new, OF _ assms(8)]
  show ?thesis
  proof (cases "page_end k (pack_base st + length (pre @ inserted asBase64 c @ post) + 1) < pack_base st + length (pack_content st)")
    case True
    then have "replaceWithFile os (2 ^ k) (length pre) ?r name asBase64 st = None" using R le F(3) by auto
    then show ?thesis using True include_call [OF assms(2-5)] by simp
  next
    case False
    then obtain st' where "replaceWithFile os (2 ^ k) (length pre) ?r name asBase64 st = Some (0, st')" "pack_inv k limit st'" "pack_includeFds st' = pack_includeFds st"
      "v (pack_world st') = v (pack_world st)" "pack_content st' = take (length pre) (pack_content st) @ inserted asBase64 c @ drop (length pre + ?r) (pack_content st)"
      using R F(3) by auto
    then show ?thesis using False include_call [OF assms(2-5)] assms(3) by simp
  qed
qed

text \<open>
  C12: A directive is replaced by the file it names. Where some text follows the directive and the rest of the buffer stays within the committed pages, for
  instance because the inserted text is no shorter than the directive, \<open>handleInclude\<close> returns 0 with the directive replaced by the file's content, or by its
  base64 encoding, and everything around it unchanged; the file is closed again and the memory invariant holds.
\<close>
theorem webPacker_include_correct:
  assumes "pack_os_ok os v m" "pack_inv k limit st" "pack_content st = pre @ startP @ name @ endP @ post" "directive pre startP name endP post" "post \<noteq> []"
    "offers os v st name fd c" "unat (alloc_size (pack_alloc st)) + length name + 1 + 2 ^ k \<le> limit"
    "pack_base st + length (pre @ inserted asBase64 c @ post) + 1 + 2 ^ k \<le> limit"
    "pack_base st + length (pack_content st) \<le> page_end k (pack_base st + length (pre @ inserted asBase64 c @ post) + 1)"
  shows "\<exists>st'. handleInclude os (2 ^ k) startP endP asBase64 st = Some (0, st') \<and> pack_content st' = pre @ inserted asBase64 c @ post \<and>
    v (pack_world st') = v (pack_world st) \<and> pack_includeFds st' = pack_includeFds st \<and> pack_inv k limit st'"
  using directive_replaced [OF assms(1-8)] assms(9) by simp

text \<open>
  C38: Two ways in which a well-formed directive is not expanded. At the very end of the buffer it is reported as unclosed, since \<open>findPattern\<close> never looks at
  the last position; and where the file is so much shorter than the directive that a page is given back, the process dies, because the memory is resized before
  the rest of the buffer is moved down out of that page.
\<close>
theorem webPacker_include_fails:
  assumes "pack_os_ok os v m" "pack_inv k limit st" "pack_content st = pre @ startP @ name @ endP @ post" "directive pre startP name endP post"
    "offers os v st name fd c" "unat (alloc_size (pack_alloc st)) + length name + 1 + 2 ^ k \<le> limit"
    "pack_base st + length (pre @ inserted asBase64 c @ post) + 1 + 2 ^ k \<le> limit"
    "post = [] \<or> page_end k (pack_base st + length (pre @ inserted asBase64 c @ post) + 1) < pack_base st + length (pack_content st)"
  shows "handleInclude os (2 ^ k) startP endP asBase64 st = (if post = [] then Some (-1, st) else None)"
proof (cases "post = []")
  case True
  then show ?thesis using find_start [OF assms(2-4)] by (simp add: handleInclude_def Let_def)
next
  case False
  then show ?thesis using directive_replaced [OF assms(1-4) False assms(5-7)] assms(8) by simp
qed

text \<open>A system where every path opens as descriptor 7, a file with the content \<open>c\<close>; the world is the content of the open files.\<close>

definition example_pack_os :: "bytes \<Rightarrow> (int \<Rightarrow> bytes option) ix_os" where
  "example_pack_os c = \<lparr>os_write = (\<lambda>_ b w. (int (length b), w)),
     os_read = (\<lambda>fd n w. case w fd of Some c \<Rightarrow> (int (min n (length c)), take n c, w(fd \<mapsto> drop n c)) | None \<Rightarrow> (-9, [], w)),
     os_openat = (\<lambda>_ _ _ _ w. (7, w(7 \<mapsto> c))), os_mkdirat = (\<lambda>_ _ _ w. (-1, w)), os_close = (\<lambda>fd w. (0, w(fd := None))), os_getdents = (\<lambda>_ _ w. (-1, [], w)),
     os_fstat = (\<lambda>fd w. case w fd of Some c \<Rightarrow> (0, 0x81A4, int (length c), w) | None \<Rightarrow> (-9, 0, 0, w)),
     os_mprotect = (\<lambda>_ _ w. (0, w)), os_mmap_fixed = (\<lambda>_ _ w. (True, w))\<rparr>"

definition example_pack :: "bytes \<Rightarrow> (int \<Rightarrow> bytes option) packer" where
  "example_pack content = \<lparr>pack_mem = [3, 0, 0, 0] @ content @ replicate (8192 - 4 - length content) 0,
     pack_alloc = \<lparr>alloc_size = 8000, alloc_reserveSize = 0x100000000\<rparr>, pack_includeFds = [3], pack_bufferSize = length content, pack_world = (\<lambda>_. None)\<rparr>"

lemma example_pack_ok: "pack_os_ok (example_pack_os c) id (\<lambda>_. 0)"
  by (auto simp: pack_os_ok_def memory_law_def supplies_def example_pack_os_def min_def split: option.splits)

lemma example_pack_inv:
  assumes "length content \<le> 7000"
  shows "pack_inv 12 0x100000000 (example_pack content)" "pack_content (example_pack content) = content" "pack_base (example_pack content) = 4"
    "offers (example_pack_os c) id (example_pack content) name 7 c"
  using assms by (simp_all add: pack_inv_def example_pack_def pack_content_def pack_base_def mem_get_def page_end_def offers_def example_pack_os_def)

definition example_page :: "bytes \<Rightarrow> bytes" where
  "example_page post = bytes_of ''/*INCLUDE('' @ bytes_of ''x'' @ bytes_of '')*/'' @ post"

lemma example_directive: "directive [] (bytes_of ''/*INCLUDE('') (bytes_of ''x'') (bytes_of '')*/'') post"
  unfolding directive_def Let_def INT32_MAX_def
  by (simp add: bytes_of_def chr_def mem_get_def atLeastLessThan_upt upt_conv_Cons drop_Cons')

theorem webPacker_include_correct_witness:
  "\<exists>st'. handleInclude (example_pack_os (bytes_of ''hello'')) (2 ^ 12) (bytes_of ''/*INCLUDE('') (bytes_of '')*/'') False (example_pack (example_page (bytes_of '';''))) = Some (0, st') \<and>
     pack_content st' = bytes_of ''hello;''"
proof -
  let ?st = "example_pack (example_page (bytes_of '';''))"
  have len: "length (example_page (bytes_of '';'')) \<le> 7000" by (simp add: example_page_def)
  have c: "pack_content ?st = [] @ bytes_of ''/*INCLUDE('' @ bytes_of ''x'' @ bytes_of '')*/'' @ bytes_of '';''"
    using example_pack_inv(2) [OF len] by (simp add: example_page_def)
  have b: "pack_base ?st = 4" "unat (alloc_size (pack_alloc ?st)) = 8000" by (simp_all add: example_pack_def pack_base_def)
  show ?thesis
    using webPacker_include_correct [where ?asBase64.0 = False, OF example_pack_ok [of "bytes_of ''hello''"] example_pack_inv(1) [OF len] c example_directive _ example_pack_inv(4) [OF len]] b c
    by (auto simp: inserted_def page_end_def bytes_of_def)
qed

theorem webPacker_include_fails_witness:
  "handleInclude (example_pack_os []) (2 ^ 12) (bytes_of ''/*INCLUDE('') (bytes_of '')*/'') False (example_pack (example_page (replicate 4084 0))) = None \<and>
   handleInclude (example_pack_os []) (2 ^ 12) (bytes_of ''/*INCLUDE('') (bytes_of '')*/'') False (example_pack (example_page [])) = Some (-1, example_pack (example_page []))"
proof -
  have len: "length (example_page (replicate 4084 0)) \<le> 7000" "length (example_page []) \<le> 7000" by (simp_all add: example_page_def)
  have c: "pack_content (example_pack (example_page (replicate 4084 0))) = [] @ bytes_of ''/*INCLUDE('' @ bytes_of ''x'' @ bytes_of '')*/'' @ replicate 4084 0"
    "pack_content (example_pack (example_page [])) = [] @ bytes_of ''/*INCLUDE('' @ bytes_of ''x'' @ bytes_of '')*/'' @ []"
    using example_pack_inv(2) [OF len(1)] example_pack_inv(2) [OF len(2)] by (simp_all add: example_page_def)
  have b: "pack_base (example_pack p) = 4" "unat (alloc_size (pack_alloc (example_pack p))) = 8000" for p by (simp_all add: example_pack_def pack_base_def)
  show ?thesis
    using webPacker_include_fails [where ?asBase64.0 = False, OF example_pack_ok [of "[]"] example_pack_inv(1) [OF len(1)] c(1) example_directive example_pack_inv(4) [OF len(1)]]
      webPacker_include_fails [where ?asBase64.0 = False, OF example_pack_ok [of "[]"] example_pack_inv(1) [OF len(2)] c(2) example_directive example_pack_inv(4) [OF len(2)]] b c
    by (simp add: inserted_def page_end_def)
qed

end
