(* ===== verification/Spec2Isabelle.thy ===== *)
theory Spec2Isabelle
  imports Mem CompilerRt HcMath Util Base64 Sha1 Sha256 Sha512 Poly1305 Chacha20 Aes X25519 Ed25519 DhcpExchange Config TelnetServer PacketDumper ModemClient TarRoundtrip WebPacker
begin

text \<open>
  Verification of the hc repository: freestanding C code under \<^verbatim>\<open>src/hc\<close> (a core library with cryptography, tools, examples) and the
  router built on it under \<^verbatim>\<open>src/router\<close>.

  \<^bold>\<open>The program.\<close> The core library has no libc: it brings byte access and comparison, the functions a compiler calls, integer and string helpers, and
  cryptographic primitives written over fixed-width words. The router is one process with an epoll loop. Its modules share one static buffer of 66000 bytes for everything they
  receive, configure the network through netlink requests to the kernel, lease an address on the WAN side (DHCP client), give out addresses on the LAN side (DHCP server), and serve
  a terminal over telnet. The tools pack and unpack tar archives and expand include directives in web pages; each is one process that works through its arguments with system calls.

  \<^bold>\<open>How code becomes definitions.\<close> A word of \<open>w\<close> bits is a \<open>w word\<close>, so arithmetic wraps as in C. An array or the memory behind a pointer is a list; where
  pointers may overlap, or where a module reads a buffer that another call overwrites, the object is one list and the pointers are offsets. A struct is a record, a loop a recursive function
  with a termination proof, a loop that may not end a partial function into \<open>option\<close>. A failed \<open>CHECK\<close>, which aborts the process, is \<open>None\<close>. System calls and the
  kernel are parameters; their results are arguments and their effects are returned in order. What the code relies on of the kernel is stated as named predicates
  (\<open>kernel_acks\<close>, \<open>wg_kernel\<close>, \<open>env_ok\<close>, \<open>tar_os_ok\<close>, \<open>untar_os_ok\<close>, \<open>pack_os_ok\<close>, \<open>commits\<close>, \<open>modem_os_ok\<close>) and shown to be satisfiable by concrete kernels. \<open>debug_ASSERT\<close> is that of a
  release build; \<open>debug_CHECK\<close> aborts as in a debug build where it guards the result of a system call.

  \<^bold>\<open>Core library.\<close>
  \<^item> \<open>Hc_Prelude\<close>: fixed-width types, byte strings, reads and writes of flat memory, little-endian values, and the lemma collections of the other theories.
  \<^item> \<open>Mem\<close> (\<^verbatim>\<open>hc/core/hc/mem.c\<close>): comparison is lexicographic, the constant-time comparison decides equality, stores and loads are inverse.
  \<^item> \<open>CompilerRt\<close> (\<^verbatim>\<open>compilerRt/mem.c\<close>, \<^verbatim>\<open>mul128.c\<close>): \<open>memmove\<close> for all overlaps, \<open>memset\<close>, the 128-bit product.
  \<^item> \<open>HcMath\<close> (\<^verbatim>\<open>math.c\<close>): alignment macros and gcd loops.
  \<^item> \<open>Util\<close> (\<^verbatim>\<open>util.c\<close>): strings and numbers; printing and parsing are inverse, overflow is reported exactly. The three parsers are instances of one locale.
  \<^item> \<open>Base64\<close> (\<^verbatim>\<open>base64.c\<close>): the encoder, also in place.
  \<^item> \<open>IxUtil\<close> (\<^verbatim>\<open>ix/util.c\<close>, \<^verbatim>\<open>allocator.c\<close>, \<^verbatim>\<open>linux/heap.c\<close>): the system calls of the tools as a record of functions \<open>ix_os\<close> on an abstract world; complete reads and
    writes over interrupted and short calls, and the allocator, which keeps exactly the pages of its size committed.

  \<^bold>\<open>Cryptography\<close> (\<^verbatim>\<open>hc/core/hc/crypto\<close>). \<open>Block_Stream\<close> and \<open>Sha2_Rounds\<close> hold the locales of buffered block processing and of the SHA-2 rounds that
  \<open>Sha1\<close>, \<open>Sha256\<close>, \<open>Sha512\<close> and \<open>Poly1305\<close> interpret: a digest or tag does not depend on how the message is cut into updates, and equals the one of the standard.
  \<open>Chacha20\<close> and \<open>Aes\<close> (with \<^verbatim>\<open>aes128.c\<close>, \<^verbatim>\<open>aes256.c\<close>) relate the block functions to their standards. \<open>Limbs\<close>, \<open>GF25519\<close>, \<open>Curve25519\<close> and
  \<open>X25519\<close> show that the limb arithmetic refines integers modulo \<open>2 ^ 255 - 19\<close> without overflow and that X25519 is the Montgomery ladder. \<open>Ed25519_Modm\<close>, \<open>Ed25519_Window\<close>,
  \<open>Ed25519_Tables\<close>, \<open>Ed25519_Ge\<close> and \<open>Ed25519\<close> cover \<^verbatim>\<open>ed25519.c\<close>: scalars modulo the group order, digit expansions, precomputed tables, point operations, and signing and
  verification as RFC 8032 prescribes them over these. That \<open>2 ^ 255 - 19\<close> is prime, and that the tables hold multiples of the base point, is not shown.

  \<^bold>\<open>Router\<close> (\<^verbatim>\<open>router/router\<close>).
  \<^item> \<open>Netlink\<close> (\<^verbatim>\<open>netlink/netlink.c\<close>, \<^verbatim>\<open>netlink/genetlink.c\<close>, headers of \<^verbatim>\<open>linux.h\<close>): requests, replies into the shared buffer, attribute search. On well-formed
    lists the search returns the right attribute; on an absent one it may not return (\<open>findAttr_absent_diverges\<close>).
  \<^item> \<open>Dhcp\<close> (\<^verbatim>\<open>dhcp.h\<close>): the wire format and the option walk. The locale \<open>option_visitor\<close> is the interface between the walk and a handler's \<open>switch\<close>, interpreted by both handlers.
  \<^item> \<open>DhcpServer\<close> (\<^verbatim>\<open>dhcpServer.c\<close>): the lease table as an inductively defined set of reachable states with its invariant, and the replies.
  \<^item> \<open>DhcpClient\<close> (\<^verbatim>\<open>dhcpClient.c\<close>): timer and packet handlers, with the messages, netlink requests and printed lines they produce.
  \<^item> \<open>DhcpExchange\<close>: each side reading the messages of the other; the handshake itself is below.
  \<^item> \<open>Config\<close> (\<^verbatim>\<open>config.c\<close>): every request as a nested attribute list, and the configuration sequence.
  \<^item> \<open>TelnetServer\<close> (\<^verbatim>\<open>telnetServer.c\<close>, \<^verbatim>\<open>telnet.h\<close>): the protocol as parsers on a byte stream, and the proof that the handlers implement it however reads cut the stream.
  \<^item> \<open>PacketDumper\<close> (\<^verbatim>\<open>packetDumper.c\<close>): the filter program, run by a machine for packet filters, drops exactly the dumper's own traffic, and a client receives a valid pcap stream.
  \<^item> \<open>ModemClient\<close> (\<^verbatim>\<open>modemClient.c\<close>): the queue of commands, the timer and the lines from the modem; the message \<^verbatim>\<open>ip\<close> is answered, the arrays are kept, and three inputs on
    which the handler hangs or has undefined behaviour are shown.

  \<^bold>\<open>Tools\<close> (\<^verbatim>\<open>hc/tools\<close>, the Unix builds). The static variables of each program are one state record, with the world of the system calls in it.
  \<^item> \<open>Tar\<close> (\<^verbatim>\<open>tar/common.c\<close>, \<^verbatim>\<open>tar/ix.c\<close>, \<^verbatim>\<open>tar.h\<close>, \<^verbatim>\<open>argParse.h\<close>): options, headers, file contents and the directory walk with its stack of states. The header is the ustar
    header of the standard, names are sorted, a tree is written in preorder, and no descriptor leaks on any path.
  \<^item> \<open>Untar\<close> (\<^verbatim>\<open>untar/common.c\<close>, \<^verbatim>\<open>untar/ix.c\<close>): the extractor; a record creates the directory or file it describes.
  \<^item> \<open>TarRoundtrip\<close>: the two programs compose to the identity on trees, with a small file system for each as an instance.
  \<^item> \<open>WebPacker\<close> (\<^verbatim>\<open>webPacker/common.c\<close>, \<^verbatim>\<open>webPacker/ix.c\<close>): the search for directives and their replacement in the allocator's memory, with the two cases in which a directive
    is not expanded.

  This theory adds the properties that span client and server.

  \<^bold>\<open>Bounds.\<close> Receive buffers are at most 66000 bytes, the size of the static buffer; a telnet read leaves room for the twelve saved bytes, and the modem has a buffer of 4096 bytes and a queue of 4103. The round trip of
  archives asks for names below 100 bytes, prefixes of at most 155, files below \<open>2 ^ 33\<close> bytes, and directories whose entries fit the reservation of 4 GiB; the first three are the limits of the
  format. No definition uses fuel.

  \<^bold>\<open>Not modelled.\<close> The platform bindings and system call wrappers (\<^verbatim>\<open>linux.h\<close> beyond the netlink headers, \<^verbatim>\<open>sys.c\<close>, \<^verbatim>\<open>windows.h\<close>, \<^verbatim>\<open>gl.h\<close>, \<^verbatim>\<open>x11.h\<close>, \<^verbatim>\<open>efi.h\<close>) declare
  foreign interfaces. The router's other modules (\<^verbatim>\<open>acpi.c\<close>, \<^verbatim>\<open>disk.c\<close>, \<^verbatim>\<open>hostapd.c\<close>, \<^verbatim>\<open>iptables.c\<close>, \<^verbatim>\<open>ksmb.c\<close>) and its epoll loop are mostly sequences of
  system calls. Of the tools, the Windows halves, the messages to the terminal and the unmapping of memory at exit are left out. The examples are programs around the library.
\<close>

section \<open>The DHCP handshake\<close>

text \<open>
  C3: The client and the server complete a handshake. From any reachable states of both, with a client that holds no renewable lease
  and a kernel that acknowledges its netlink requests, whatever stale bytes the receive buffers hold: the client's timer makes it broadcast a DISCOVER;
  the server answers with an OFFER; the client answers that with a REQUEST; the server acknowledges it; and the client then
  configures exactly the address that the server's table holds for its hardware address, with the 24-bit netmask, the server as gateway and
  renewal server, the server's DNS address, and a timer of half the ten-minute lease.
\<close>
theorem dhcp_handshake:
  assumes "dhcpServer_reach server" "dhcpClient_reach client" "client_leasedIp client = 0 \<or> client_renewServerIp client = 0"
    and "kernel_acks kern" "length stale = buffer_size"
  shows "\<exists>client1 st1 before discover server1 offer dest1 st2 request server2 ack dest2 client2 st3 prints i.
    dhcpClient_onTimerFd kern client (stale, []) 8 0 =
      Some (client1, st1, before @ [Send_broadcast (client_ifIndex client) (dhcpClient_ipUdpHeader @ discover), Set_timer 10]) \<and>
    dhcpServer_onFd server now dnsIp (mem_put stale 0 discover) (length discover) = (server1, Some (offer, dest1)) \<and>
    dhcpClient_onFd kern client1 (mem_put stale 0 offer, []) (int (length offer)) 0 = Some (client1, st2, [Send_to [255, 255, 255, 255] 67 request, Set_timer 10]) \<and>
    dhcpServer_onFd server1 now' dnsIp (mem_put stale 0 request) (length request) = (server2, Some (ack, dest2)) \<and>
    dhcpClient_onFd kern client1 (mem_put stale 0 ack, []) (int (length ack)) 0 = Some (client2, st3,
      Set_timer 300 # prints @ [Netlink_request (dhcpClient_newAddr client2 (ip_bytes (client_leasedIp client2))),
        Netlink_request (dhcpClient_newRoute client2 (ip_bytes (server_serverIp server)))]) \<and>
    i < dhcpServer_NUM_ENTRIES \<and> server_entries server2 ! i = \<lparr>entry_timeSec = now', entry_macAddr = client_ifMacAddress client\<rparr> \<and>
    ip_bytes (client_leasedIp client2) = take 3 (ip_bytes (server_serverIp server)) @ [word_of_nat (40 + i)] \<and>
    client_leasedIpNetmask client2 = 24 \<and> client_renewServerIp client2 = server_serverIp server \<and> ip_bytes (client_dnsIp client2) = reply_dns dnsIp"
proof -
  define client1 where "client1 = (fresh client)\<lparr>client_leasedIp := 0\<rparr>"
  note wf = fresh_wf(1,2) [OF client_reach_wf [OF assms(2)], folded client1_def]
  have mac: "client_ifMacAddress client1 = client_ifMacAddress client" by (simp add: client1_def fresh_wf)
  obtain before buf1 where step1: "dhcpClient_onTimerFd kern client (stale, []) 8 0 = Some (client1, (buf1, []),
      before @ [Send_broadcast (client_ifIndex client) (dhcpClient_ipUdpHeader @ discoverMsg (fresh client)), Set_timer 10])"
    unfolding client1_def by (rule discover_sent [OF assms(3,4,5)])
  define b1 where "b1 = mem_put stale 0 (discoverMsg (fresh client))"
  have r1: "request_in b1 252 (if True then dhcp_DISCOVER else dhcp_REQUEST) (client_ifMacAddress client)"
    using discover_received [OF wf(1) assms(5), folded b1_def] by (simp add: fresh_wf)
  obtain r server1 where g1: "dhcpServer_getEntry server now (pkt_clientHwAddr b1) True = (r, server1)" by (metis prod.exhaust)
  define offer where "offer i = dhcpServer_replyMsg server1 b1 True i dnsIp" for i
  define request where "request i = dhcpClient_requestMsg client1 (mem_put stale 0 (offer i)) 261" for i
  note n1 = r1 [unfolded request_in_def, THEN conjunct1] r1 [unfolded request_in_def, THEN conjunct2, THEN conjunct1]
  have offer: "length (offer i) = 276" "mem_put stale 0 (offer i) = offer i @ drop 276 stale" for i
    using reply_fields(1) [OF n1, of server1 True i dnsIp] assms(5) received [of "offer i" stale] by (simp_all add: offer_def buffer_size_def)
  have b2: "length (request i) = 268" "request_in (mem_put stale 0 (request i)) 268 (if False then dhcp_DISCOVER else dhcp_REQUEST) (client_ifMacAddress client)" for i
    using request_received [OF wf(2) assms(5), of "mem_put stale 0 (offer i)"] offer [of i] by (simp_all add: request_def mac)
  obtain i where i: "i < dhcpServer_NUM_ENTRIES" "r = int i" "server_serverIp server1 = server_serverIp server"
    using getEntry_twice [OF reach_wf [OF assms(1)] _ g1, of "pkt_clientHwAddr b1"] r1 unfolding request_in_def by metis
  define b where "b = mem_put stale 0 (request i)"
  note r2 = b2(2) [of i, folded b_def]
  note n2 = r2 [unfolded request_in_def, THEN conjunct1] r2 [unfolded request_in_def, THEN conjunct2, THEN conjunct1]
  obtain server2 where g2: "dhcpServer_getEntry server1 now' (pkt_clientHwAddr b) False = (int i, server2)"
    and e2: "server_entries server2 ! i = \<lparr>entry_timeSec = now', entry_macAddr = client_ifMacAddress client\<rparr>" "server_serverIp server2 = server_serverIp server"
    using getEntry_twice [OF reach_wf [OF assms(1)] _ g1, of "pkt_clientHwAddr b" now'] r1 r2 i(2) unfolding request_in_def by (metis of_nat_eq_iff)
  define ack where "ack = dhcpServer_replyMsg server2 b False i dnsIp"
  note a = reply_fields [OF n2, of server2 False i dnsIp, folded ack_def]
  have ack: "mem_put stale 0 ack = ack @ drop 276 stale" using a(1) assms(5) received [of ack stale] by (simp add: buffer_size_def)
  obtain dest1 where step2: "dhcpServer_onFd server now dnsIp b1 252 = (server1, Some (offer i, dest1))"
    unfolding offer_def using server_replies [OF r1 g1 [unfolded i(2)]] by blast
  have step3: "dhcpClient_onFd kern client1 (mem_put stale 0 (offer i), []) 276 0 =
      Some (client1, (mem_put stale 0 (offer i), []), [Send_to [255, 255, 255, 255] 67 (request i), Set_timer 10])"
    using client_accepts [OF wf(2) n1, of kern server1 True i dnsIp "drop 276 stale" "[]"] r1 mac
    by (simp add: offer(2) request_def request_in_def offer_def [symmetric])
  obtain dest2 where step4: "dhcpServer_onFd server1 now' dnsIp b 268 = (server2, Some (ack, dest2))"
    unfolding ack_def using server_replies [OF r2 g2] by blast
  have "take 6 (pkt_clientHwAddr b) = client_ifMacAddress client1" "length (drop 276 stale) = buffer_size - 276" using r2 mac assms(5) by (simp_all add: request_in_def)
  from client_leases [OF wf(2) assms(4) n2 this, of server2 i dnsIp, folded ack_def]
  obtain client2 st3 prints where step5: "dhcpClient_onFd kern client1 (ack @ drop 276 stale, []) 276 0 = Some (client2, st3,
      Set_timer 300 # prints @ [Netlink_request (dhcpClient_newAddr client2 (pkt_yourIp ack)), Netlink_request (dhcpClient_newRoute client2 (ip_bytes (server_serverIp server)))])"
    and lease: "ip_bytes (client_leasedIp client2) = pkt_yourIp ack" "client_renewServerIp client2 = server_serverIp server" "ip_bytes (client_dnsIp client2) = reply_dns dnsIp"
      "client_leasedIpNetmask client2 = 24"
    unfolding e2(2) by blast
  show ?thesis
    by (rule exI [of _ client1], rule exI, rule exI, rule exI, rule exI [of _ server1], rule exI [of _ "offer i"], rule exI, rule exI, rule exI [of _ "request i"], rule exI [of _ server2],
        rule exI [of _ ack], rule exI, rule exI [of _ client2], rule exI, rule exI, rule exI [of _ i], intro conjI,
        rule step1, unfold discoverMsg_fields(1) [OF wf(1)] offer(1) a(1) b2(1) ack of_nat_numeral, rule step2 [unfolded b1_def], rule step3,
        rule step4 [unfolded b_def], rule step5 [folded lease(1)], rule i(1), rule e2(1), rule trans [OF lease(1) a(3) [unfolded e2(2)]], rule lease(4), rule lease(2), rule lease(3))
qed

theorem dhcp_handshake_witness:
  "\<exists>discover offer request ack client1 client2 server1 server2 d1 d2 st2 st3 prints i.
    dhcpServer_onFd example_server 100 0 (mem_put (replicate buffer_size 0) 0 discover) (length discover) = (server1, Some (offer, d1)) \<and>
    dhcpClient_onFd acking_kernel client1 (mem_put (replicate buffer_size 0) 0 offer, []) (int (length offer)) 0 = Some (client1, st2, [Send_to [255, 255, 255, 255] 67 request, Set_timer 10]) \<and>
    dhcpServer_onFd server1 101 0 (mem_put (replicate buffer_size 0) 0 request) (length request) = (server2, Some (ack, d2)) \<and>
    dhcpClient_onFd acking_kernel client1 (mem_put (replicate buffer_size 0) 0 ack, []) (int (length ack)) 0 = Some (client2, st3, Set_timer 300 # prints) \<and>
    ip_bytes (client_leasedIp client2) = take 3 (ip_bytes (server_serverIp example_server)) @ [word_of_nat (40 + i)]"
proof -
  have "client_leasedIp example_client = 0 \<or> client_renewServerIp example_client = 0" "length (replicate buffer_size (0 :: u8)) = buffer_size"
    by (simp_all add: example_client_def)
  from dhcp_handshake [OF example_server_reach example_client_reach this(1) acking_kernel_acks this(2), of 100 0 101] show ?thesis by blast
qed

section \<open>Stale bytes\<close>

text \<open>
  C15: Both DHCP handlers read packets of any size into the one static buffer, and their option loops may look at a length byte behind the packet. Still they act
  on the packet alone: for two buffers that agree on the received bytes, the server ends in the same state with the same reply, and the client
  in the same state with the same effects, although it still reads the router option after the kernel's first answer has overwritten the start of the buffer.
\<close>
theorem dhcp_handlers_ignore_stale_bytes:
  assumes "take n b = take n b'" "length b = buffer_size" "length b' = buffer_size" "n \<le> buffer_size" "kernel_acks kern"
  shows "dhcpServer_onFd server now dnsIp b n = dhcpServer_onFd server now dnsIp b' n \<and>
    map_option (\<lambda>(self, st, effects). (self, effects)) (dhcpClient_onFd kern client (b, []) (int n) settime) =
    map_option (\<lambda>(self, st, effects). (self, effects)) (dhcpClient_onFd kern client (b', []) (int n) settime)"
  using onFd_stale [OF assms(1)] client_onFd_stale [OF assms(5,1-4)] assms(2-4) by simp

theorem dhcp_handlers_ignore_stale_bytes_witness:
  "dhcpServer_onFd example_server 100 0 (example_discover @ replicate (buffer_size - 244) 0) 244 = dhcpServer_onFd example_server 100 0 (example_discover @ replicate (buffer_size - 244) 7) 244"
  using dhcp_handlers_ignore_stale_bytes [of 244 "example_discover @ replicate (buffer_size - 244) 0" "example_discover @ replicate (buffer_size - 244) 7" acking_kernel]
    acking_kernel_acks example_packets(3) by (simp add: buffer_size_def)

end
